(* ===== verification/Prelude.thy ===== *)
theory Prelude
  imports Main "HOL-Library.Word"
begin

text \<open>
  Shared vocabulary of the development: the machine integers of the i386 build
  (\<open>kernel/src/common.h\<close>, \<open>common/common.hpp\<close>: \<open>usize\<close> is 32 bits wide), the result type in
  which every operation that can go wrong returns, bounds-checked access to byte arrays,
  and the word lemmas the components use.

  An operation returns \<open>Inl Fault\<close> where the C++ has undefined behaviour that the hardware
  or the compiler does not define (null dereference, access outside an array, use after
  free), \<open>Inl Panic\<close> where it calls \<open>panic\<close>, \<open>Inl Hang\<close> where a loop of the code never
  ends, and \<open>Inr\<close> otherwise.
\<close>

unbundle bit_operations_syntax

type_synonym u8 = "8 word"
type_synonym u16 = "16 word"
type_synonym u32 = "32 word"
type_synonym u64 = "64 word"
type_synonym usize = "32 word"

datatype stop = Fault | Panic | Hang

type_synonym 'a result = "stop + 'a"

definition bindr :: "'a result \<Rightarrow> ('a \<Rightarrow> 'b result) \<Rightarrow> 'b result" where
  "bindr m f = (case m of Inl e \<Rightarrow> Inl e | Inr x \<Rightarrow> f x)"

lemma bindr_simps [simp]: "bindr (Inl e) f = Inl e" "bindr (Inr x) f = f x"
  by (simp_all add: bindr_def)

lemma bindr_Inr_iff: "bindr m f = Inr y \<longleftrightarrow> (\<exists>x. m = Inr x \<and> f x = Inr y)"
  by (cases m) auto

lemma bindr_assoc: "bindr (bindr m f) g = bindr m (\<lambda>x. bindr (f x) g)"
  by (cases m) auto

text \<open>The branches of a case distinction with a known outcome.\<close>

lemma sum_case_iff: "(case x of Inl e \<Rightarrow> f e | Inr y \<Rightarrow> g y) = z \<longleftrightarrow> (\<exists>e. x = Inl e \<and> f e = z) \<or> (\<exists>y. x = Inr y \<and> g y = z)"
  by (cases x) auto

lemma option_case_iff: "(case x of None \<Rightarrow> a | Some y \<Rightarrow> g y) = z \<longleftrightarrow> (x = None \<and> a = z) \<or> (\<exists>y. x = Some y \<and> g y = z)"
  by (cases x) auto

definition returns :: "'a result \<Rightarrow> bool" where
  "returns m \<longleftrightarrow> (case m of Inl _ \<Rightarrow> False | Inr _ \<Rightarrow> True)"

lemma returns_simps [simp]: "\<not> returns (Inl e)" "returns (Inr x)"
  by (simp_all add: returns_def)

lemma returns_iff: "returns m \<longleftrightarrow> (\<exists>x. m = Inr x)"
  by (cases m) auto

text \<open>An operation applied to each element of a list in turn, stopping at the first failure.\<close>

fun run_all :: "('s \<Rightarrow> 'a \<Rightarrow> 's result) \<Rightarrow> 's \<Rightarrow> 'a list \<Rightarrow> 's result" where
  "run_all f s [] = Inr s"
| "run_all f s (x # xs) = bindr (f s x) (\<lambda>t. run_all f t xs)"

lemma run_all_append: "run_all f s (xs @ ys) = bindr (run_all f s xs) (\<lambda>t. run_all f t ys)"
  by (induction xs arbitrary: s) (simp_all add: bindr_assoc)

lemma bindr_right_unit: "bindr m Inr = m"
  by (cases m) simp_all

lemma run_all_snoc: "run_all f s (xs @ [x]) = bindr (run_all f s xs) (\<lambda>t. f t x)"
  by (simp add: run_all_append bindr_right_unit)

lemma find_first: "\<forall>v \<in> set ps. \<not> P v \<Longrightarrow> P u \<Longrightarrow> find P (ps @ u # qs) = Some u"
  by (induction ps) auto

subsection \<open>Bounds-checked arrays\<close>

text \<open>\<open>peek a i n\<close> reads \<open>n\<close> cells from index \<open>i\<close>; \<open>poke a i xs\<close> overwrites the cells from
  \<open>i\<close> with \<open>xs\<close>. Both fault when the range leaves the array.\<close>

definition peek :: "'a list \<Rightarrow> nat \<Rightarrow> nat \<Rightarrow> 'a list result" where
  "peek a i n = (if i + n \<le> length a then Inr (take n (drop i a)) else Inl Fault)"

definition poke :: "'a list \<Rightarrow> nat \<Rightarrow> 'a list \<Rightarrow> 'a list result" where
  "poke a i xs = (if i + length xs \<le> length a
     then Inr (take i a @ xs @ drop (i + length xs) a) else Inl Fault)"

definition nth_r :: "'a list \<Rightarrow> nat \<Rightarrow> 'a result" where
  "nth_r a i = (if i < length a then Inr (a ! i) else Inl Fault)"

definition upd_r :: "'a list \<Rightarrow> nat \<Rightarrow> 'a \<Rightarrow> 'a list result" where
  "upd_r a i x = (if i < length a then Inr (a[i := x]) else Inl Fault)"

lemma peek_in [simp]: "i + n \<le> length a \<Longrightarrow> peek a i n = Inr (take n (drop i a))"
  by (simp add: peek_def)

lemma peek_out [simp]: "length a < i + n \<Longrightarrow> peek a i n = Inl Fault"
  by (simp add: peek_def)

lemma poke_in [simp]:
  "i + length xs \<le> length a \<Longrightarrow> poke a i xs = Inr (take i a @ xs @ drop (i + length xs) a)"
  by (simp add: poke_def)

lemma poke_out [simp]: "length a < i + length xs \<Longrightarrow> poke a i xs = Inl Fault"
  by (simp add: poke_def)

lemma poke_length: "poke a i xs = Inr b \<Longrightarrow> length b = length a"
  by (auto simp: poke_def split: if_splits)

lemma peek_length: "peek a i n = Inr b \<Longrightarrow> length b = n"
  by (auto simp: peek_def split: if_splits)

lemma poke_nil: "i \<le> length a \<Longrightarrow> poke a i [] = Inr a"
  by (simp add: poke_def)

lemma peek_nil: "i \<le> length a \<Longrightarrow> peek a i 0 = Inr []"
  by (simp add: peek_def)

lemma nth_r_in [simp]: "i < length a \<Longrightarrow> nth_r a i = Inr (a ! i)"
  and nth_r_out [simp]: "length a \<le> i \<Longrightarrow> nth_r a i = Inl Fault"
  by (simp_all add: nth_r_def)

lemma nth_r_Inr: "nth_r a i = Inr x \<longleftrightarrow> i < length a \<and> x = a ! i"
  by (auto simp: nth_r_def)

lemma upd_r_in [simp]: "i < length a \<Longrightarrow> upd_r a i x = Inr (a[i := x])"
  and upd_r_out [simp]: "length a \<le> i \<Longrightarrow> upd_r a i x = Inl Fault"
  by (simp_all add: upd_r_def)

lemma upd_r_Inr: "upd_r a i x = Inr b \<longleftrightarrow> i < length a \<and> b = a[i := x]"
  by (auto simp: upd_r_def)

subsection \<open>Words\<close>

lemma unat_add_small:
  fixes a b :: "'a::len word"
  shows "unat a + unat b < 2 ^ LENGTH('a) \<Longrightarrow> unat (a + b) = unat a + unat b"
  by (simp add: unat_word_ariths)

lemma unat_diff_le:
  fixes a b :: "'a::len word"
  shows "unat b \<le> unat a \<Longrightarrow> unat (a - b) = unat a - unat b"
  by (simp add: unat_sub word_le_nat_alt)

lemma unat_diff_wrap:
  fixes a b :: "'a::len word"
  assumes "unat a < unat b"
  shows "unat (a - b) = 2 ^ LENGTH('a) + unat a - unat b"
proof -
  have "\<not> unat b \<le> unat a" using assms by simp
  then have "unat (a - b) = unat a + 2 ^ LENGTH('a) - unat b"
    by (simp only: unat_sub_if' if_False)
  then show ?thesis by simp
qed

text \<open>The sign test on a 32-bit difference, as in \<open>isize d = a - b; if (d >= 0)\<close>.\<close>

lemma sint_nonneg_32: "0 \<le> sint (x :: 32 word) \<longleftrightarrow> unat x < 2147483648"
proof -
  have u: "0 \<le> uint x" "uint x < 4294967296" using uint_lt2p [of x] by simp_all
  have s: "sint x = (uint x + 2147483648) mod 4294967296 - 2147483648"
    by (simp only: sint_uint signed_take_bit_eq_take_bit_shift take_bit_eq_mod)
      (simp add: uint_word_of_int_eq)
  have "0 \<le> sint x \<longleftrightarrow> uint x < 2147483648"
  proof (cases "uint x < 2147483648")
    case True
    then have "(uint x + 2147483648) mod 4294967296 = uint x + 2147483648"
      using u by (intro mod_pos_pos_trivial) linarith+
    then show ?thesis using s True u by linarith
  next
    case False
    have "(uint x - 2147483648 + 4294967296) mod 4294967296 = (uint x - 2147483648) mod 4294967296"
      by (rule mod_add_self2)
    moreover have "(uint x - 2147483648) mod 4294967296 = uint x - 2147483648"
      using u False by (intro mod_pos_pos_trivial) linarith+
    moreover have "uint x + 2147483648 = uint x - 2147483648 + 4294967296" by simp
    ultimately have "(uint x + 2147483648) mod 4294967296 = uint x - 2147483648" by metis
    then show ?thesis using s False u by linarith
  qed
  moreover have "uint x < 2147483648 \<longleftrightarrow> unat x < 2147483648"
    by (simp only: unat_eq_nat_uint) arith
  ultimately show ?thesis by simp
qed

lemma sint_diff_nonneg_32:
  fixes a b :: "32 word"
  assumes "unat a < 2147483648" "unat b < 2147483648"
  shows "0 \<le> sint (a - b) \<longleftrightarrow> unat b \<le> unat a"
proof (cases "unat b \<le> unat a")
  case True
  then show ?thesis using assms by (simp add: sint_nonneg_32 unat_diff_le)
next
  case False
  then have "unat (a - b) = 4294967296 + unat a - unat b"
    using unat_diff_wrap [of a b] by simp
  then show ?thesis using False assms by (simp add: sint_nonneg_32)
qed

lemma unat_ucast_up [simp]: "unat (ucast (x :: 32 word) :: 64 word) = unat x"
proof -
  have "unat x < 2 ^ 32" using unsigned_less [of x, where ?'a = nat] by simp
  then have "unat x < 2 ^ 64" by simp
  then show ?thesis by (simp add: unsigned_ucast_eq take_bit_eq_mod)
qed

lemma unat_ucast_down:
  "unat (x :: 64 word) < 4294967296 \<Longrightarrow> unat (ucast x :: 32 word) = unat x"
  by (simp add: unsigned_ucast_eq take_bit_eq_mod)

lemma word_less_unat: "a < b \<longleftrightarrow> unat a < unat (b :: 'a::len word)"
  by (rule word_less_nat_alt)

lemma word_le_unat: "a \<le> b \<longleftrightarrow> unat a \<le> unat (b :: 'a::len word)"
  by (rule word_le_nat_alt)

lemma unat32: "unat (x :: usize) < 4294967296"
  using unsigned_less [of x, where ?'a = nat] by simp

lemma unat_min: "unat (min a b) = min (unat a) (unat (b :: 'a::len word))"
  by (simp add: min_def word_le_nat_alt)

lemma sint_small: "unat (n :: usize) < 2147483648 \<Longrightarrow> sint n = int (unat n)"
proof -
  assume a: "unat n < 2147483648"
  have n: "uint n = int (unat n)" by (rule uint_nat)
  have u: "0 \<le> uint n" "uint n < 2147483648" using a unfolding n by linarith+
  have "sint n = (uint n + 2147483648) mod 4294967296 - 2147483648"
    by (simp only: sint_uint signed_take_bit_eq_take_bit_shift take_bit_eq_mod) (simp add: uint_word_of_int_eq)
  moreover have "(uint n + 2147483648) mod 4294967296 = uint n + 2147483648" using u by (intro mod_pos_pos_trivial) linarith+
  ultimately show ?thesis unfolding n by linarith
qed

lemma unat_of_nat32: "k < 4294967296 \<Longrightarrow> unat (of_nat k :: u32) = k"
  by (simp add: unat_of_nat take_bit_nat_eq_self)

named_theorems wordnat \<open>reading words as natural numbers\<close>

lemmas [wordnat] = word_less_unat word_le_unat unat_min word_unat_eq_iff

end
