(* ===== verification/Circular.thy ===== *)
theory Circular
  imports Prelude
begin

text \<open>
  The ring buffer behind pipes and character devices (\<open>common/circular.cpp\<close>). Indices are
  \<open>usize\<close> words and the byte counts are \<open>u64\<close>, with the conversions the C++ performs.
  \<open>cb_contents\<close> is the queue of bytes the two indices delimit; \<open>cb_read_exact\<close> and
  \<open>cb_write_exact\<close> say which bytes each call really moves: never more than the run of
  bytes up to the end of the array, although the returned count may promise more.
\<close>

record cbuf =
  rd_ptr :: usize
  wr_ptr :: usize
  buffer :: "u8 list"
  buffer_size :: usize

text \<open>The constructor; \<open>mem\<close> is what the freshly allocated array holds.\<close>

definition cb_new :: "u8 list \<Rightarrow> usize \<Rightarrow> cbuf" where
  "cb_new mem n = \<lparr>rd_ptr = 0, wr_ptr = 0, buffer = mem, buffer_size = n\<rparr>"

definition cb_readable_size :: "cbuf \<Rightarrow> usize" where
  "cb_readable_size b = (let d = wr_ptr b - rd_ptr b in
     if 0 \<le> sint d then d else (buffer_size b - rd_ptr b) + wr_ptr b)"

definition cb_writable_size :: "cbuf \<Rightarrow> usize" where
  "cb_writable_size b = (let d = rd_ptr b - wr_ptr b in
     if 0 \<le> sint d then d - 1 else (buffer_size b - wr_ptr b) + rd_ptr b - 1)"

definition cb_can_read :: "cbuf \<Rightarrow> bool" where
  "cb_can_read b \<longleftrightarrow> rd_ptr b \<noteq> wr_ptr b"

definition cb_can_write :: "cbuf \<Rightarrow> bool result" where
  "cb_can_write b = (if buffer_size b = 0 then Inl Fault
     else Inr ((wr_ptr b + 1) mod buffer_size b \<noteq> rd_ptr b))"

text \<open>\<open>cb_read b size\<close> returns the count, the bytes stored to \<open>out\<close> (from its start) and the
  buffer afterwards.\<close>

definition cb_read :: "cbuf \<Rightarrow> u64 \<Rightarrow> (u64 \<times> u8 list \<times> cbuf) result" where
  "cb_read b size0 = (let size = min size0 (ucast (cb_readable_size b)) in
     if rd_ptr b < wr_ptr b then
       bindr (peek (buffer b) (unat (rd_ptr b)) (unat (ucast size :: usize))) (\<lambda>xs.
         Inr (size, xs, b\<lparr>rd_ptr := rd_ptr b + ucast size\<rparr>))
     else let csize = min (buffer_size b - rd_ptr b) (ucast size) in
       bindr (peek (buffer b) (unat (rd_ptr b)) (unat csize)) (\<lambda>xs.
         if buffer_size b = 0 then Inl Fault else
         let rd = (rd_ptr b + csize) mod buffer_size b in
         if size \<le> ucast (buffer_size b - rd) then Inr (size, xs, b\<lparr>rd_ptr := rd\<rparr>)
         else bindr (peek (buffer b) (unat rd) (unat (ucast (size - ucast csize) :: usize))) (\<lambda>ys.
           Inr (size, xs @ ys, b\<lparr>rd_ptr := rd + ucast (size - ucast csize)\<rparr>))))"

text \<open>\<open>cb_write b inp size\<close>: \<open>inp\<close> are the bytes at \<open>in\<close>. The second copy of the code goes the wrong way,
  from the array to the caller's bytes behind \<open>csize\<close>; what becomes of these is not part of the result.\<close>

definition cb_write :: "cbuf \<Rightarrow> u8 list \<Rightarrow> u64 \<Rightarrow> (u64 \<times> cbuf) result" where
  "cb_write b inp size0 = (let size = min size0 (ucast (cb_writable_size b)) in
     if wr_ptr b < rd_ptr b then
       bindr (peek inp 0 (unat (ucast size :: usize))) (\<lambda>xs.
       bindr (poke (buffer b) (unat (wr_ptr b)) xs) (\<lambda>buf.
         Inr (size, b\<lparr>buffer := buf, wr_ptr := wr_ptr b + ucast size\<rparr>)))
     else let csize = min (buffer_size b - wr_ptr b) (ucast size) in
       bindr (peek inp 0 (unat csize)) (\<lambda>xs.
       bindr (poke (buffer b) (unat (wr_ptr b)) xs) (\<lambda>buf.
         if buffer_size b = 0 then Inl Fault else
         let wr = (wr_ptr b + csize) mod buffer_size b in
         if size \<le> ucast (buffer_size b - wr) then Inr (size, b\<lparr>buffer := buf, wr_ptr := wr\<rparr>)
         else bindr (peek buf (unat wr) (unat (ucast (size - ucast csize) :: usize))) (\<lambda>ys.
           bindr (poke inp (unat csize) ys) (\<lambda>_.
             Inr (size, b\<lparr>buffer := buf, wr_ptr := wr + ucast (size - ucast csize)\<rparr>))))))"

subsection \<open>Well-formed buffers and their contents\<close>

definition cb_wf :: "cbuf \<Rightarrow> bool" where
  "cb_wf b \<longleftrightarrow> 0 < unat (buffer_size b) \<and> unat (buffer_size b) < 2147483648
     \<and> length (buffer b) = unat (buffer_size b)
     \<and> unat (rd_ptr b) < unat (buffer_size b) \<and> unat (wr_ptr b) < unat (buffer_size b)"

definition cb_contents :: "cbuf \<Rightarrow> u8 list" where
  "cb_contents b = (let r = unat (rd_ptr b); w = unat (wr_ptr b) in
     if r \<le> w then take (w - r) (drop r (buffer b)) else drop r (buffer b) @ take w (buffer b))"

text \<open>The bytes from the read index to the end of the array or to the write index.\<close>

definition cb_run :: "cbuf \<Rightarrow> nat" where
  "cb_run b = (if rd_ptr b \<le> wr_ptr b then unat (wr_ptr b) - unat (rd_ptr b)
     else unat (buffer_size b) - unat (rd_ptr b))"

lemma cb_wf_new: "length mem = unat n \<Longrightarrow> 0 < unat n \<Longrightarrow> unat n < 2147483648 \<Longrightarrow> cb_wf (cb_new mem n)"
  by (simp add: cb_wf_def cb_new_def)

lemma cb_contents_new: "cb_contents (cb_new mem n) = []"
  by (simp add: cb_contents_def cb_new_def)

lemma length_cb_contents:
  "cb_wf b \<Longrightarrow> length (cb_contents b) = (let r = unat (rd_ptr b); w = unat (wr_ptr b) in
     if r \<le> w then w - r else unat (buffer_size b) - r + w)"
  by (auto simp: cb_contents_def cb_wf_def Let_def)

lemma cb_readable_unat:
  assumes "cb_wf b"
  shows "unat (cb_readable_size b) = length (cb_contents b)"
proof (cases "unat (rd_ptr b) \<le> unat (wr_ptr b)")
  case True
  then show ?thesis using assms
    by (simp add: cb_readable_size_def length_cb_contents sint_diff_nonneg_32 unat_diff_le cb_wf_def)
next
  case False
  have s: "\<not> 0 \<le> sint (wr_ptr b - rd_ptr b)" using False assms
    by (simp add: sint_diff_nonneg_32 cb_wf_def)
  have d: "unat (buffer_size b - rd_ptr b) = unat (buffer_size b) - unat (rd_ptr b)"
    using assms by (simp add: unat_diff_le cb_wf_def)
  have "unat ((buffer_size b - rd_ptr b) + wr_ptr b)
      = unat (buffer_size b - rd_ptr b) + unat (wr_ptr b)"
    using assms by (intro unat_add_small) (auto simp: d cb_wf_def)
  then show ?thesis using False s assms d
    by (simp add: cb_readable_size_def length_cb_contents)
qed

lemma cb_writable_unat:
  assumes "cb_wf b" and "rd_ptr b \<noteq> wr_ptr b"
  shows "unat (cb_writable_size b) = unat (buffer_size b) - 1 - length (cb_contents b)"
proof (cases "unat (wr_ptr b) < unat (rd_ptr b)")
  case True
  have "unat (rd_ptr b - wr_ptr b) = unat (rd_ptr b) - unat (wr_ptr b)"
    using True by (simp add: unat_diff_le)
  moreover have "unat (rd_ptr b - wr_ptr b - 1) = unat (rd_ptr b - wr_ptr b) - 1"
    using True calculation by (subst unat_diff_le) simp_all
  ultimately show ?thesis using True assms
    by (simp add: cb_writable_size_def length_cb_contents sint_diff_nonneg_32 cb_wf_def)
next
  case False
  then have lt: "unat (rd_ptr b) < unat (wr_ptr b)"
    using assms(2) by (simp add: word_unat_eq_iff)
  have s: "\<not> 0 \<le> sint (rd_ptr b - wr_ptr b)" using lt assms(1)
    by (simp add: sint_diff_nonneg_32 cb_wf_def)
  have d: "unat (buffer_size b - wr_ptr b) = unat (buffer_size b) - unat (wr_ptr b)"
    using assms(1) by (simp add: unat_diff_le cb_wf_def)
  have e: "unat ((buffer_size b - wr_ptr b) + rd_ptr b)
      = unat (buffer_size b - wr_ptr b) + unat (rd_ptr b)"
    using assms(1) by (intro unat_add_small) (auto simp: d cb_wf_def)
  have "unat ((buffer_size b - wr_ptr b) + rd_ptr b - 1)
      = unat ((buffer_size b - wr_ptr b) + rd_ptr b) - 1"
    using assms(1) by (subst unat_diff_le) (auto simp: e d cb_wf_def)
  then show ?thesis using lt s assms(1) d e
    by (simp add: cb_writable_size_def length_cb_contents cb_wf_def)
qed

lemma cb_wfD:
  assumes "cb_wf b"
  shows "0 < unat (buffer_size b)" "unat (buffer_size b) < 2147483648" "buffer_size b \<noteq> 0"
    "length (buffer b) = unat (buffer_size b)" "unat (rd_ptr b) < unat (buffer_size b)"
    "unat (wr_ptr b) < unat (buffer_size b)"
  using assms by (auto simp: cb_wf_def)

lemma unat_step_mod:
  fixes p c n :: usize
  assumes "unat p < unat n" "unat p + unat c \<le> unat n" "unat n < 2147483648"
  shows "unat ((p + c) mod n) = (if unat p + unat c = unat n then 0 else unat p + unat c)"
proof -
  have "unat (p + c) = unat p + unat c" using assms by (intro unat_add_small) simp
  then show ?thesis using assms by (simp add: unat_mod)
qed

text \<open>The clamped count of a transfer, read back as a natural number.\<close>

lemma unat_clamp:
  fixes k :: usize and sz :: u64
  shows "unat (min sz (ucast k)) = min (unat sz) (unat k)"
    and "unat (ucast (min sz (ucast k)) :: usize) = min (unat sz) (unat k)"
proof -
  show 1: "unat (min sz (ucast k)) = min (unat sz) (unat k)" by (simp add: unat_min)
  have "unat k < 4294967296" using unsigned_less [of k, where ?'a = nat] by simp
  then show "unat (ucast (min sz (ucast k)) :: usize) = min (unat sz) (unat k)"
    using 1 by (subst unat_ucast_down) auto
qed

subsection \<open>What a read really does\<close>

lemma cb_run_le: "cb_wf b \<Longrightarrow> cb_run b \<le> length (cb_contents b)"
  by (auto simp: cb_run_def length_cb_contents word_le_unat Let_def cb_wf_def)

lemma cb_read_split:
  assumes wf: "cb_wf b" and n: "n = min (unat sz) (length (cb_contents b))"
  shows "\<exists>b'. cb_read b sz = Inr (of_nat n, take (min n (cb_run b)) (cb_contents b), b')
     \<and> cb_wf b' \<and> cb_contents b' = drop (min n (cb_run b)) (cb_contents b)"
proof -
  note W = cb_wfD [OF wf]
  let ?s = "min sz (ucast (cb_readable_size b))"
  have s: "unat ?s = n" "unat (ucast ?s :: usize) = n"
    using unat_clamp [of sz "cb_readable_size b"] cb_readable_unat [OF wf] n by simp_all
  have sn: "?s = of_nat n" by (simp flip: s(1))
  have nlt: "n < unat (buffer_size b)" 
    using n W length_cb_contents [OF wf] by (auto simp: Let_def split: if_splits)
  show ?thesis
  proof (cases "rd_ptr b < wr_ptr b")
    case True
    then have lt: "unat (rd_ptr b) < unat (wr_ptr b)" by (simp add: word_less_unat)
    have nle: "n \<le> unat (wr_ptr b) - unat (rd_ptr b)"
      using n length_cb_contents [OF wf] lt by simp
    have rd': "unat (rd_ptr b + ucast ?s) = unat (rd_ptr b) + n"
      using nle lt W s by (subst unat_add_small) auto
    have run: "min n (cb_run b) = n"
      using nle lt by (simp add: cb_run_def word_le_unat)
    let ?b = "b\<lparr>rd_ptr := rd_ptr b + ucast ?s\<rparr>"
    have "cb_read b sz = Inr (?s, take n (drop (unat (rd_ptr b)) (buffer b)), ?b)"
      using True s nle lt W by (simp add: cb_read_def Let_def)
    moreover have "take n (drop (unat (rd_ptr b)) (buffer b)) = take n (cb_contents b)"
      using nle lt by (simp add: cb_contents_def Let_def)
    moreover have "cb_contents ?b = drop n (cb_contents b)"
      using rd' nle lt by (auto simp: cb_contents_def Let_def drop_take add.commute)
    moreover have "cb_wf ?b" using wf rd' nle lt W by (simp add: cb_wf_def)
    ultimately show ?thesis using run sn by auto
  next
    case False
    then have ge: "unat (wr_ptr b) \<le> unat (rd_ptr b)" by (simp add: word_less_unat)
    have d: "unat (buffer_size b - rd_ptr b) = unat (buffer_size b) - unat (rd_ptr b)"
      using W by (simp add: unat_diff_le)
    let ?c = "min (buffer_size b - rd_ptr b) (ucast ?s)"
    have c: "unat ?c = min (unat (buffer_size b) - unat (rd_ptr b)) n"
      using d s by (simp add: unat_min)
    let ?r = "(rd_ptr b + ?c) mod buffer_size b"
    have r: "unat ?r = (if unat (rd_ptr b) + n < unat (buffer_size b) then unat (rd_ptr b) + n else 0)"
      using W c by (subst unat_step_mod) auto
    have nr: "unat (rd_ptr b) = unat (wr_ptr b) \<Longrightarrow> n = 0" using n length_cb_contents [OF wf] by simp
    have p: "peek (buffer b) (unat (rd_ptr b)) (unat ?c)
        = Inr (take (unat ?c) (drop (unat (rd_ptr b)) (buffer b)))"
      using c W by (intro peek_in) simp
    let ?b = "b\<lparr>rd_ptr := ?r\<rparr>"
    have res: "cb_read b sz = Inr (?s, take (unat ?c) (drop (unat (rd_ptr b)) (buffer b)), ?b)"
    proof (cases "?s \<le> ucast (buffer_size b - ?r)")
      case True
      then show ?thesis using False p W(3) by (simp add: cb_read_def Let_def)
    next
      case t: False
      have "unat (buffer_size b - ?r) = unat (buffer_size b) - unat ?r"
        using r W by (subst unat_diff_le) auto
      then have "unat (buffer_size b) - unat ?r < n" using t s by (simp add: word_le_unat)
      then have lt: "unat (rd_ptr b) + n < unat (buffer_size b)"
        using r nlt by (auto split: if_splits)
      then have "unat ?c = unat (ucast ?s :: usize)" using c s by simp
      then have cs: "?c = ucast ?s" by (simp add: word_unat_eq_iff)
      have "ucast ?c = ?s" using cs s c lt by (simp add: word_unat_eq_iff)
      then have z: "?s - ucast ?c = 0" by simp
      have "peek (buffer b) (unat ?r) 0 = Inr []" using r W lt by simp
      then show ?thesis using False p W(3) t z by (simp add: cb_read_def Let_def)
    qed
    have run: "min n (cb_run b) = unat ?c"
      using ge c nr nlt by (auto simp: cb_run_def word_le_unat word_unat_eq_iff)
    have "take (unat ?c) (drop (unat (rd_ptr b)) (buffer b)) = take (unat ?c) (cb_contents b)"
      using ge c nr W by (auto simp: cb_contents_def Let_def)
    moreover have "cb_contents ?b = drop (unat ?c) (cb_contents b)"
      using ge c nr W r by (auto simp: cb_contents_def Let_def add.commute)
    moreover have "cb_wf ?b" using wf r W by (simp add: cb_wf_def)
    ultimately show ?thesis using run sn res by auto
  qed
qed

subsection \<open>What a write really does\<close>

text \<open>The cells from the write index to the end of the array, or to the read index.\<close>

definition cb_gap :: "cbuf \<Rightarrow> nat" where
  "cb_gap b = (if wr_ptr b < rd_ptr b then unat (rd_ptr b) - unat (wr_ptr b) - 1
     else unat (buffer_size b) - unat (wr_ptr b))"

lemma cb_write_split:
  assumes wf: "cb_wf b" and ne: "rd_ptr b \<noteq> wr_ptr b"
    and n: "n = min (unat sz) (unat (buffer_size b) - 1 - length (cb_contents b))"
    and inp: "n \<le> length inp"
  shows "\<exists>b'. cb_write b inp sz = Inr (of_nat n, b') \<and> cb_wf b'
     \<and> cb_contents b' = cb_contents b @ take (min n (cb_gap b)) inp"
proof -
  note W = cb_wfD [OF wf]
  let ?s = "min sz (ucast (cb_writable_size b))"
  have s: "unat ?s = n" "unat (ucast ?s :: usize) = n"
    using unat_clamp [of sz "cb_writable_size b"] cb_writable_unat [OF wf ne] n by simp_all
  have sn: "?s = of_nat n" using s(1) by (simp flip: s(1))
  have nu: "unat (rd_ptr b) \<noteq> unat (wr_ptr b)" using ne by (simp add: word_unat_eq_iff)
  show ?thesis
  proof (cases "wr_ptr b < rd_ptr b")
    case True
    then have lt: "unat (wr_ptr b) < unat (rd_ptr b)" by (simp add: word_less_unat)
    have nle: "n + unat (wr_ptr b) < unat (rd_ptr b)"
      using n length_cb_contents [OF wf] lt W by auto
    have wr': "unat (wr_ptr b + ucast ?s) = unat (wr_ptr b) + n"
      using nle lt W s by (subst unat_add_small) auto
    have gap: "min n (cb_gap b) = n" using nle True by (simp add: cb_gap_def)
    let ?buf = "take (unat (wr_ptr b)) (buffer b) @ take n inp
      @ drop (unat (wr_ptr b) + n) (buffer b)"
    let ?b = "b\<lparr>buffer := ?buf, wr_ptr := wr_ptr b + ucast ?s\<rparr>"
    have "cb_write b inp sz = Inr (?s, ?b)"
      using True s nle lt W inp by (simp add: cb_write_def Let_def)
    moreover have "cb_contents ?b = cb_contents b @ take n inp"
      using wr' nle lt W inp by (simp add: cb_contents_def Let_def)
    moreover have "cb_wf ?b" using wf wr' nle lt W inp by (simp add: cb_wf_def)
    ultimately show ?thesis using gap sn by auto
  next
    case False
    then have lt: "unat (rd_ptr b) < unat (wr_ptr b)" using nu by (simp add: word_less_unat)
    have nlt: "n < unat (buffer_size b) - unat (wr_ptr b) + unat (rd_ptr b)"
      using n length_cb_contents [OF wf] lt W by auto
    have d: "unat (buffer_size b - wr_ptr b) = unat (buffer_size b) - unat (wr_ptr b)"
      using W by (simp add: unat_diff_le)
    let ?c = "min (buffer_size b - wr_ptr b) (ucast ?s)"
    have c: "unat ?c = min (unat (buffer_size b) - unat (wr_ptr b)) n"
      using d s by (simp add: unat_min)
    let ?w = "(wr_ptr b + ?c) mod buffer_size b"
    have w: "unat ?w = (if unat (wr_ptr b) + n < unat (buffer_size b) then unat (wr_ptr b) + n else 0)"
      using W c by (subst unat_step_mod) auto
    let ?xs = "take (unat ?c) inp"
    let ?buf = "take (unat (wr_ptr b)) (buffer b) @ ?xs
      @ drop (unat (wr_ptr b) + unat ?c) (buffer b)"
    let ?b = "b\<lparr>buffer := ?buf, wr_ptr := ?w\<rparr>"
    have xs: "length ?xs = unat ?c" "unat ?c \<le> length inp" using c inp by simp_all
    have p: "peek inp 0 (unat ?c) = Inr ?xs" using xs by simp
    have k: "poke (buffer b) (unat (wr_ptr b)) ?xs = Inr ?buf"
      using xs c W by (subst poke_in) auto
    have len: "length ?buf = unat (buffer_size b)" using xs c W by auto
    have res: "cb_write b inp sz = Inr (?s, ?b)"
    proof (cases "?s \<le> ucast (buffer_size b - ?w)")
      case True
      then show ?thesis using False p k W(3) by (simp add: cb_write_def Let_def)
    next
      case t: False
      have "unat (buffer_size b - ?w) = unat (buffer_size b) - unat ?w"
        using w W by (subst unat_diff_le) auto
      then have "unat (buffer_size b) - unat ?w < n" using t s by (simp add: word_le_unat)
      then have lt': "unat (wr_ptr b) + n < unat (buffer_size b)"
        using w nlt lt W by (auto split: if_splits)
      then have cs: "?c = ucast ?s" using c s by (simp add: word_unat_eq_iff)
      have "ucast ?c = ?s" using cs s c lt' by (simp add: word_unat_eq_iff)
      then have z: "?s - ucast ?c = 0" by simp
      have "poke inp (unat ?c) [] = Inr inp" using xs(2) by (rule poke_nil)
      moreover have "unat ?w \<le> unat (buffer_size b)" using w lt' by (simp only: if_True)
      then have "peek ?buf (unat ?w) 0 = Inr []" using len by (simp only: peek_nil)
      ultimately show ?thesis using False p k W(3) t z by (simp add: cb_write_def Let_def)
    qed
    have gap: "min n (cb_gap b) = unat ?c" using False c by (auto simp: cb_gap_def)
    have "cb_contents ?b = cb_contents b @ ?xs"
    proof (cases "unat (wr_ptr b) + n < unat (buffer_size b)")
      case True
      then show ?thesis using lt c W w xs by (simp add: cb_contents_def Let_def drop_take)
    next
      case f: False
      then have "unat ?c = unat (buffer_size b) - unat (wr_ptr b)" "unat ?w = 0" using c w by simp_all
      moreover have "unat (rd_ptr b) \<noteq> 0" using f nlt W by auto
      ultimately show ?thesis using lt W xs by (simp add: cb_contents_def Let_def drop_take)
    qed
    moreover have "cb_wf ?b" using wf w W len by (simp add: cb_wf_def)
    ultimately show ?thesis using gap sn res by auto
  qed
qed

text \<open>On an empty buffer \<open>writable_size\<close> is \<open>0 - 1\<close>, so nothing bounds the write.\<close>

lemma cb_writable_empty:
  assumes "rd_ptr b = wr_ptr b"
  shows "unat (cb_writable_size b) = 4294967295"
proof -
  have "(- 1 :: 32 word) = 4294967295" by simp
  then have "unat (- 1 :: 32 word) = unat (4294967295 :: 32 word)" by metis
  then show ?thesis using assms by (simp add: cb_writable_size_def)
qed

lemma cb_write_empty:
  assumes wf: "cb_wf b" and e: "rd_ptr b = wr_ptr b"
    and n: "unat (wr_ptr b) + unat sz \<le> unat (buffer_size b)" "unat sz < unat (buffer_size b)"
    and inp: "unat sz \<le> length inp"
  shows "\<exists>b'. cb_write b inp sz = Inr (sz, b') \<and> cb_wf b' \<and> cb_contents b' = take (unat sz) inp"
proof -
  note W = cb_wfD [OF wf]
  let ?s = "min sz (ucast (cb_writable_size b))"
  have "unat ?s = unat sz"
    using unat_clamp(1) [of sz "cb_writable_size b"] cb_writable_empty [OF e] n W by simp
  then have s: "?s = sz" by (simp add: word_unat_eq_iff)
  have u: "unat (ucast sz :: usize) = unat sz" using n W by (subst unat_ucast_down) auto
  have d: "unat (buffer_size b - wr_ptr b) = unat (buffer_size b) - unat (wr_ptr b)"
    using W by (simp add: unat_diff_le)
  have c: "min (buffer_size b - wr_ptr b) (ucast sz) = ucast sz"
    using d n u by (auto simp: min_def word_le_unat word_unat_eq_iff)
  let ?w = "(wr_ptr b + ucast sz) mod buffer_size b"
  have w: "unat ?w = (if unat (wr_ptr b) + unat sz = unat (buffer_size b) then 0
      else unat (wr_ptr b) + unat sz)"
    using W n u by (subst unat_step_mod) auto
  let ?xs = "take (unat sz) inp"
  let ?buf = "take (unat (wr_ptr b)) (buffer b) @ ?xs @ drop (unat (wr_ptr b) + unat sz) (buffer b)"
  let ?b = "b\<lparr>buffer := ?buf, wr_ptr := ?w\<rparr>"
  have p: "peek inp 0 (unat sz) = Inr ?xs" using inp by simp
  have k: "poke (buffer b) (unat (wr_ptr b)) ?xs = Inr ?buf" using inp n W by (subst poke_in) auto
  have len: "length ?buf = unat (buffer_size b)" using inp n W by auto
  have "ucast (ucast sz :: usize) = sz" using u by (simp add: word_unat_eq_iff)
  then have z: "sz - ucast (ucast sz :: usize) = 0" by simp
  have r: "poke inp (unat sz) [] = Inr inp" "peek ?buf (unat ?w) 0 = Inr []"
    using inp w n len by (simp_all add: peek_nil poke_nil)
  have "cb_write b inp sz = Inr (sz, ?b)"
    using e s u c p k r z W(3) by (simp add: cb_write_def Let_def)
  moreover have "cb_contents ?b = ?xs"
    using e w n inp W by (auto simp: cb_contents_def Let_def)
  moreover have "cb_wf ?b" using wf w W len n by (simp add: cb_wf_def)
  ultimately show ?thesis by auto
qed

subsection \<open>The byte channel a pipe needs\<close>

text \<open>
  What the file descriptions built on the buffer rely on: within the room of the channel a
  send appends, within its ready run a receive removes a prefix, both move as many bytes as
  they report.
\<close>

locale byte_channel =
  fixes wf :: "'s \<Rightarrow> bool"
    and contents :: "'s \<Rightarrow> u8 list"
    and send :: "'s \<Rightarrow> u8 list \<Rightarrow> u64 \<Rightarrow> (u64 \<times> 's) result"
    and recv :: "'s \<Rightarrow> u64 \<Rightarrow> (u64 \<times> u8 list \<times> 's) result"
    and room :: "'s \<Rightarrow> nat \<Rightarrow> bool"
    and ready :: "'s \<Rightarrow> nat \<Rightarrow> bool"
  assumes send_ok: "wf s \<Longrightarrow> unat n \<le> length xs \<Longrightarrow> room s (unat n) \<Longrightarrow>
      \<exists>s'. send s xs n = Inr (n, s') \<and> wf s' \<and> contents s' = contents s @ take (unat n) xs"
    and recv_ok: "wf s \<Longrightarrow> ready s (unat n) \<Longrightarrow>
      \<exists>s'. recv s n = Inr (n, take (unat n) (contents s), s') \<and> wf s'
        \<and> contents s' = drop (unat n) (contents s)"
begin

lemma send_then_recv:
  assumes "wf s" "room s (unat n)" "unat n \<le> length xs" "send s xs n = Inr (m, s')" "ready s' (unat k)"
  shows "m = n \<and> (\<exists>s''. recv s' k = Inr (k, take (unat k) (contents s @ take (unat n) xs), s'')
    \<and> wf s'' \<and> contents s'' = drop (unat k) (contents s @ take (unat n) xs))"
proof -
  from send_ok [OF assms(1,3,2)] assms(4)
  have s': "m = n" "wf s'" "contents s' = contents s @ take (unat n) xs" by auto
  then show ?thesis using recv_ok [OF s'(2) assms(5)] by simp
qed

lemma drain:
  assumes "wf s" "contents s = []" "room s (length xs)" "unat n = length xs"
    and "send s xs n = Inr (m, s')" "ready s' (unat n)"
  shows "\<exists>s''. recv s' n = Inr (n, xs, s'') \<and> wf s'' \<and> contents s'' = []"
proof -
  from assms(3,4) have "room s (unat n)" "unat n \<le> length xs" by simp_all
  from send_then_recv [OF assms(1) this assms(5,6)] assms(2,4) show ?thesis by auto
qed

end

definition cb_room :: "cbuf \<Rightarrow> nat \<Rightarrow> bool" where
  "cb_room b n \<longleftrightarrow> (if rd_ptr b = wr_ptr b
     then unat (wr_ptr b) + n \<le> unat (buffer_size b) \<and> n < unat (buffer_size b)
     else n \<le> cb_gap b \<and> n + length (cb_contents b) < unat (buffer_size b))"

definition cb_ready :: "cbuf \<Rightarrow> nat \<Rightarrow> bool" where
  "cb_ready b n \<longleftrightarrow> n \<le> cb_run b"

lemma cb_contents_empty: "rd_ptr b = wr_ptr b \<Longrightarrow> cb_contents b = []"
  by (simp add: cb_contents_def Let_def)

lemma cb_send_ok:
  assumes wf: "cb_wf b" and l: "unat n \<le> length xs" and r: "cb_room b (unat n)"
  shows "\<exists>b'. cb_write b xs n = Inr (n, b') \<and> cb_wf b' \<and> cb_contents b' = cb_contents b @ take (unat n) xs"
proof (cases "rd_ptr b = wr_ptr b")
  case True
  then show ?thesis using cb_write_empty [OF wf True _ _ l] r
    by (simp add: cb_room_def cb_contents_empty)
next
  case False
  then have "unat n \<le> cb_gap b" "unat n + length (cb_contents b) < unat (buffer_size b)"
    using r by (simp_all add: cb_room_def)
  then show ?thesis using cb_write_split [OF wf False, of "unat n" n xs] l by simp
qed

lemma cb_recv_ok:
  assumes wf: "cb_wf b" and r: "cb_ready b (unat n)"
  shows "\<exists>b'. cb_read b n = Inr (n, take (unat n) (cb_contents b), b') \<and> cb_wf b'
    \<and> cb_contents b' = drop (unat n) (cb_contents b)"
  using cb_read_split [OF wf, of "unat n" n] r cb_run_le [OF wf] by (simp add: cb_ready_def)

interpretation ring: byte_channel cb_wf cb_contents cb_write cb_read cb_room cb_ready
  by unfold_locales (rule cb_send_ok cb_recv_ok; assumption)+

subsection \<open>Properties\<close>

text \<open>A read from a well-formed buffer never leaves the array and keeps the buffer
  well-formed. It returns the count \<open>n = min(size, readable)\<close>, but the bytes it stores, and the
  bytes it removes from the queue, are only those of the run up to the end of the array: the
  part that wraps around is reported as read and stays in the buffer.\<close>

theorem cb_read_delivers:
  assumes "cb_wf b"
  shows "let n = min (unat sz) (length (cb_contents b)); m = min n (cb_run b) in
    \<exists>b'. cb_read b sz = Inr (of_nat n, take m (cb_contents b), b') \<and> cb_wf b'
      \<and> cb_contents b' = drop m (cb_contents b)"
  unfolding Let_def by (rule cb_read_split [OF assms refl])

theorem cb_read_delivers_witness:
  "\<exists>b'. cb_read \<lparr>rd_ptr = 2, wr_ptr = 1, buffer = [1, 2, 3, 4], buffer_size = 4\<rparr> 3
      = Inr (3, [3, 4], b') \<and> cb_wf b' \<and> cb_contents b' = [1]"
proof -
  let ?b = "\<lparr>rd_ptr = 2, wr_ptr = 1, buffer = [1, 2, 3, 4], buffer_size = 4\<rparr>"
  have "cb_wf ?b" "cb_contents ?b = [3, 4, 1]" "cb_run ?b = 2"
    by (simp_all add: cb_wf_def cb_contents_def cb_run_def Let_def word_le_unat)
  with cb_read_delivers [OF this(1), of 3] show ?thesis by (simp add: Let_def)
qed

text \<open>A write to a well-formed buffer that is not empty stays inside the array and keeps the
  buffer well-formed. It returns \<open>n = min(size, writable)\<close>, but appends only the bytes that fit
  before the end of the array: the part that wraps around is reported as written and lost.\<close>

theorem cb_write_delivers:
  assumes "cb_wf b" "rd_ptr b \<noteq> wr_ptr b" "unat sz \<le> length inp"
  shows "let n = min (unat sz) (unat (buffer_size b) - 1 - length (cb_contents b)) in
    \<exists>b'. cb_write b inp sz = Inr (of_nat n, b') \<and> cb_wf b'
      \<and> cb_contents b' = cb_contents b @ take (min n (cb_gap b)) inp"
  unfolding Let_def using assms(3) by (intro cb_write_split [OF assms(1,2) refl]) simp

theorem cb_write_delivers_witness:
  "\<exists>b'. cb_write \<lparr>rd_ptr = 2, wr_ptr = 3, buffer = [1, 2, 3, 4], buffer_size = 4\<rparr> [7, 8] 2
      = Inr (2, b') \<and> cb_wf b' \<and> cb_contents b' = [3, 7]"
proof -
  let ?b = "\<lparr>rd_ptr = 2, wr_ptr = 3, buffer = [1, 2, 3, 4], buffer_size = 4\<rparr>"
  have "cb_wf ?b" "cb_contents ?b = [3]" "cb_gap ?b = 1" "rd_ptr ?b \<noteq> wr_ptr ?b"
    by (simp_all add: cb_wf_def cb_contents_def cb_gap_def Let_def word_less_unat)
  with cb_write_delivers [OF this(1,4), of 2 "[7, 8]"] show ?thesis by (simp add: Let_def)
qed

text \<open>A write to an empty buffer is not bounded by its capacity: \<open>writable_size\<close> returns
  \<open>0 - 1\<close>, and once the request exceeds the cells up to the end of the array by more than a whole
  array, the second copy runs past the end of the buffer.\<close>

theorem cb_write_empty_overflows:
  assumes wf: "cb_wf b" and e: "rd_ptr b = wr_ptr b"
    and big: "2 * unat (buffer_size b) - unat (wr_ptr b) < unat sz" "unat sz \<le> 4294967295"
    and inp: "unat sz \<le> length inp"
  shows "cb_write b inp sz = Inl Fault"
proof -
  note W = cb_wfD [OF wf]
  have "unat (min sz (ucast (cb_writable_size b))) = unat sz"
    using unat_clamp(1) [of sz "cb_writable_size b"] cb_writable_empty [OF e] big by simp
  then have s: "min sz (ucast (cb_writable_size b)) = sz" by (simp add: word_unat_eq_iff)
  have u: "unat (ucast sz :: usize) = unat sz" using big by (subst unat_ucast_down) auto
  have d: "unat (buffer_size b - wr_ptr b) = unat (buffer_size b) - unat (wr_ptr b)"
    using W by (simp add: unat_diff_le)
  have c: "min (buffer_size b - wr_ptr b) (ucast sz) = buffer_size b - wr_ptr b"
    using d big u W by (auto simp: min_def word_le_unat)
  have w: "(wr_ptr b + (buffer_size b - wr_ptr b)) mod buffer_size b = 0" by simp
  let ?xs = "take (unat (buffer_size b - wr_ptr b)) inp"
  have xs: "length ?xs = unat (buffer_size b) - unat (wr_ptr b)" using d big inp W by auto
  obtain buf where k: "poke (buffer b) (unat (wr_ptr b)) ?xs = Inr buf" "length buf = unat (buffer_size b)"
    using xs W by (auto simp: poke_def)
  have n2: "unat (sz - ucast (buffer_size b - wr_ptr b)) = unat sz - (unat (buffer_size b) - unat (wr_ptr b))"
    using d big W by (subst unat_diff_le) auto
  have n3: "unat (ucast (sz - ucast (buffer_size b - wr_ptr b)) :: usize)
      = unat sz - (unat (buffer_size b) - unat (wr_ptr b))"
    using n2 big by (subst unat_ucast_down) auto
  have p: "peek inp 0 (unat (buffer_size b - wr_ptr b)) = Inr ?xs" using d big inp W by (subst peek_in) auto
  have far: "\<not> sz \<le> ucast (buffer_size b - 0)" using big W by (simp add: word_le_unat)
  have "peek buf 0 (unat sz - (unat (buffer_size b) - unat (wr_ptr b))) = Inl Fault"
    using d big inp W k(2) by (intro peek_out) auto
  then show ?thesis using e s c w p k(1) far n3 W(3) by (simp add: cb_write_def Let_def)
qed

theorem cb_write_empty_overflows_witness:
  "cb_write \<lparr>rd_ptr = 0, wr_ptr = 0, buffer = [1, 2], buffer_size = 2\<rparr> (replicate 5 9) 5 = Inl Fault"
  by (rule cb_write_empty_overflows) (simp_all add: cb_wf_def)

text \<open>C40: The buffer is a queue but for what wraps around. A write reports as many bytes as are asked for and free, and appends to the queue those of
  them that fit before the end of the array (\<open>cb_gap\<close>) or before the read index; the others are reported and lost. A read that follows
  reports as many bytes as are asked for and queued, and delivers, in the order in which they were sent, and removes those of them that lie
  before the end of the array (\<open>cb_run\<close>); it leaves the others in the buffer although they are reported. So nothing is lost or withheld exactly as
  long as neither call passes the end of the array. Into an empty buffer, which the code does not bound, the write must fit before the end.\<close>

theorem cb_fifo:
  assumes wf: "cb_wf b" and inp: "unat n \<le> length xs"
    and empty: "rd_ptr b = wr_ptr b \<longrightarrow> unat (wr_ptr b) + unat n \<le> unat (buffer_size b) \<and> unat n < unat (buffer_size b)"
  shows "let w = min (unat n) (unat (buffer_size b) - 1 - length (cb_contents b)); q = cb_contents b @ take (min w (cb_gap b)) xs in
    \<exists>b'. cb_write b xs n = Inr (of_nat w, b') \<and> cb_wf b' \<and> cb_contents b' = q
      \<and> (\<forall>k. let r = min (unat k) (length q); m = min r (cb_run b') in
           \<exists>b''. cb_read b' k = Inr (of_nat r, take m q, b'') \<and> cb_wf b'' \<and> cb_contents b'' = drop m q)"
proof -
  define w where "w = min (unat n) (unat (buffer_size b) - 1 - length (cb_contents b))"
  define q where "q = cb_contents b @ take (min w (cb_gap b)) xs"
  obtain b' where b': "cb_write b xs n = Inr (of_nat w, b')" "cb_wf b'" "cb_contents b' = q"
  proof (cases "rd_ptr b = wr_ptr b")
    case True
    then have fit: "unat (wr_ptr b) + unat n \<le> unat (buffer_size b)" "unat n < unat (buffer_size b)" using empty by blast+
    have "cb_gap b = unat (buffer_size b) - unat (wr_ptr b)" using True by (simp add: cb_gap_def)
    then have "w = unat n" "q = take (unat n) xs"
      using fit True by (simp_all add: w_def q_def cb_contents_empty)
    then show ?thesis using cb_write_empty [OF wf True fit inp] that by auto
  next
    case False
    moreover have "w \<le> length xs" using inp by (simp add: w_def)
    ultimately show ?thesis using cb_write_split [OF wf False w_def] that unfolding q_def by blast
  qed
  have "let r = min (unat k) (length q); m = min r (cb_run b') in
      \<exists>b''. cb_read b' k = Inr (of_nat r, take m q, b'') \<and> cb_wf b'' \<and> cb_contents b'' = drop m q" for k
    using cb_read_split [OF b'(2) refl, of k] unfolding b'(3) Let_def .
  then show ?thesis unfolding Let_def w_def [symmetric] q_def [symmetric] using b' by (intro exI [of _ b']) simp
qed

theorem cb_fifo_witness:
  "\<exists>b'. cb_write \<lparr>rd_ptr = 2, wr_ptr = 3, buffer = [1, 2, 3, 4], buffer_size = 4\<rparr> [7, 8] 2 = Inr (2, b') \<and> cb_contents b' = [3, 7]
     \<and> (\<exists>b''. cb_read b' 2 = Inr (2, [3, 7], b'') \<and> cb_contents b'' = [])"
proof -
  let ?b = "\<lparr>rd_ptr = 2, wr_ptr = 3, buffer = [1, 2, 3, 4], buffer_size = 4\<rparr>"
  let ?b' = "\<lparr>rd_ptr = 2, wr_ptr = 0, buffer = [1, 2, 3, 7], buffer_size = 4\<rparr>"
  have w: "cb_write ?b [7, 8] 2 = Inr (2, ?b')" by code_simp
  have f: "cb_wf ?b" "cb_contents ?b = [3]" "cb_gap ?b = 1" "cb_run ?b' = 2"
    by (simp_all add: cb_wf_def cb_contents_def cb_gap_def cb_run_def word_le_unat)
  have "\<exists>b'. cb_write ?b [7, 8] 2 = Inr (2, b') \<and> cb_contents b' = [3, 7] \<and> (\<forall>k. let r = min (unat k) (length [3, 7 :: u8]); m = min r (cb_run b') in
      \<exists>b''. cb_read b' k = Inr (of_nat r, take m [3, 7], b'') \<and> cb_wf b'' \<and> cb_contents b'' = drop m [3, 7])"
    using cb_fifo [OF f(1), of 2 "[7, 8]"] f(2,3) by (simp add: Let_def) blast
  then obtain b' where b': "cb_write ?b [7, 8] 2 = Inr (2, b')" "cb_contents b' = [3, 7]" "\<forall>k. let r = min (unat k) (length [3, 7 :: u8]); m = min r (cb_run b') in
      \<exists>b''. cb_read b' k = Inr (of_nat r, take m [3, 7], b'') \<and> cb_wf b'' \<and> cb_contents b'' = drop m [3, 7]"
    by blast
  have e: "b' = ?b'" using b'(1) w by simp
  show ?thesis using b'(1,2) spec [OF b'(3), of 2] f(4) unfolding e by (auto simp: Let_def)
qed

end
