(* ===== verification/Ranges.thy ===== *)
theory Ranges
  imports Prelude
begin

text \<open>
  Address and page ranges of \<open>kernel/src/mem/memory.hpp\<close> (half-open, 64-bit) and the table of
  physical memory ranges of \<open>kernel/src/mem/memory.cpp\<close>. A page has 4096 bytes
  (\<open>ARCH_PAGE_SIZE\<close> of the i386 port).
\<close>

abbreviation PAGE_SIZE :: u64 where "PAGE_SIZE \<equiv> 4096"

record mem_range =
  mr_base :: u64
  mr_limit :: u64

record page_range =
  pr_base :: u64
  pr_limit :: u64

definition mr_size :: "mem_range \<Rightarrow> u64" where
  "mr_size r = mr_limit r - mr_base r"

definition mr_addr_size :: "u64 \<Rightarrow> u64 \<Rightarrow> mem_range" where
  "mr_addr_size addr sz = \<lparr>mr_base = addr, mr_limit = addr + sz\<rparr>"

definition mr_base_limit :: "u64 \<Rightarrow> u64 \<Rightarrow> mem_range" where
  "mr_base_limit base limit = \<lparr>mr_base = base, mr_limit = limit\<rparr>"

definition mr_is_addressable :: "mem_range \<Rightarrow> bool" where
  "mr_is_addressable r \<longleftrightarrow> (let lbase = (ucast (mr_base r) :: usize) in ucast lbase = mr_base r)"

definition mr_in_range :: "mem_range \<Rightarrow> u64 \<Rightarrow> bool" where
  "mr_in_range r p \<longleftrightarrow> mr_base r \<le> p \<and> p < mr_limit r"

definition pr_page_count :: "page_range \<Rightarrow> u64" where
  "pr_page_count r = pr_limit r - pr_base r"

definition pr_size :: "page_range \<Rightarrow> u64" where
  "pr_size r = pr_page_count r * PAGE_SIZE"

definition pr_base_count :: "u64 \<Rightarrow> u64 \<Rightarrow> page_range" where
  "pr_base_count base count = \<lparr>pr_base = base, pr_limit = base + count\<rparr>"

definition pr_base_limit :: "u64 \<Rightarrow> u64 \<Rightarrow> page_range" where
  "pr_base_limit base limit = \<lparr>pr_base = base, pr_limit = limit\<rparr>"

definition pr_overlaps :: "page_range \<Rightarrow> page_range \<Rightarrow> bool" where
  "pr_overlaps a b \<longleftrightarrow> pr_base b < pr_limit a \<and> pr_base a < pr_limit b"

definition pr_to_memrange :: "page_range \<Rightarrow> mem_range" where
  "pr_to_memrange r = mr_base_limit (pr_base r * PAGE_SIZE) (pr_limit r * PAGE_SIZE)"

definition pr_page_in_range :: "page_range \<Rightarrow> u64 \<Rightarrow> bool" where
  "pr_page_in_range r p \<longleftrightarrow> pr_base r \<le> p \<and> p < pr_limit r"

definition pr_ptr_in_range :: "page_range \<Rightarrow> u64 \<Rightarrow> bool" where
  "pr_ptr_in_range r p \<longleftrightarrow> pr_page_in_range r (p div PAGE_SIZE)"

definition mr_to_pagerange :: "mem_range \<Rightarrow> page_range" where
  "mr_to_pagerange r = (let plimit = mr_limit r div PAGE_SIZE;
     plimit = (if mr_limit r mod PAGE_SIZE \<noteq> 0 then plimit + 1 else plimit)
     in pr_base_limit (mr_base r div PAGE_SIZE) plimit)"

definition mr_to_inner_pagerange :: "mem_range \<Rightarrow> page_range" where
  "mr_to_inner_pagerange r = (let pbase = mr_base r div PAGE_SIZE;
     pbase = (if mr_base r mod PAGE_SIZE \<noteq> 0 then pbase + 1 else pbase)
     in pr_base_limit pbase (mr_limit r div PAGE_SIZE))"

datatype phys_type = AVAILABLE | RESERVED | ACPI_RECLAIMABLE | NVS | BADRAM

fun phys_type_to_string :: "phys_type \<Rightarrow> string" where
  "phys_type_to_string AVAILABLE = ''AVAILABLE''"
| "phys_type_to_string RESERVED = ''RESERVED''"
| "phys_type_to_string ACPI_RECLAIMABLE = ''ACPI_RECLAIMABLE''"
| "phys_type_to_string NVS = ''NVS''"
| "phys_type_to_string BADRAM = ''BADRAM''"

record phys_range =
  ph_range :: mem_range
  ph_type :: phys_type

abbreviation MEMORY_MAP_MAX_RANGE_COUNT :: nat where "MEMORY_MAP_MAX_RANGE_COUNT \<equiv> 32"

text \<open>The static table \<open>memory_map\<close> with its fill index: the list of the entries added so far.\<close>

definition phys_add_range :: "phys_range list \<Rightarrow> mem_range \<Rightarrow> phys_type \<Rightarrow> bool \<times> phys_range list" where
  "phys_add_range m rng t = (if MEMORY_MAP_MAX_RANGE_COUNT \<le> length m then (False, m)
     else (True, m @ [\<lparr>ph_range = rng, ph_type = t\<rparr>]))"

definition phys_kernel_range :: "u64 \<Rightarrow> u64 \<Rightarrow> mem_range" where
  "phys_kernel_range kernel_begin_phys kernel_end_phys =
     mr_base_limit (0x0fffffff AND kernel_begin_phys) (0x0fffffff AND kernel_end_phys)"

lemma unat_page: "unat (x div PAGE_SIZE) = unat x div 4096" "unat (x mod PAGE_SIZE) = unat x mod 4096"
  by (simp_all add: unat_div unat_mod)

lemma unat64: "unat (x :: u64) < 18446744073709551616"
  using unsigned_less [of x, where ?'a = nat] by simp

lemma less_round_up: "p < (x + 4095) div 4096 \<longleftrightarrow> p * 4096 < (x :: nat)"
  using less_eq_div_iff_mult_less_eq [of 4096 "Suc p" "x + 4095"] by (simp add: Suc_le_eq)

lemma round_up_eq: "(x + 4095) div 4096 = (if x mod 4096 = 0 then x div 4096 else x div 4096 + 1)"
  for x :: nat
proof -
  obtain q r where x: "x = 4096 * q + r" "r < 4096" "q = x div 4096" "r = x mod 4096"
    by (metis mult_div_mod_eq mod_less_divisor zero_less_numeral)
  have "(4096 * q + r + 4095) div 4096 = (if r = 0 then q else q + 1)"
    by (rule div_nat_eqI) (use x(2) in auto)
  then have "(x + 4095) div 4096 = (if r = 0 then q else q + 1)" by (simp only: x(1))
  then show ?thesis by (simp only: x(3,4))
qed

lemma unat_round_up:
  "unat (if x mod PAGE_SIZE \<noteq> 0 then x div PAGE_SIZE + 1 else x div PAGE_SIZE) = (unat x + 4095) div 4096"
proof -
  have d: "unat x div 4096 < 4503599627370496" using unat64 [of x] by (simp add: less_mult_imp_div_less)
  show ?thesis
  proof (cases "x mod PAGE_SIZE = 0")
    case True
    then have "unat x mod 4096 = 0" using unat_page(2) [of x] by simp
    then have "(unat x + 4095) div 4096 = unat x div 4096" by (simp add: round_up_eq)
    then show ?thesis using True unat_page by simp
  next
    case False
    then have "unat x mod 4096 \<noteq> 0" using unat_page(2) [of x] by (simp add: word_unat_eq_iff)
    then have "(unat x + 4095) div 4096 = unat x div 4096 + 1" by (simp add: round_up_eq)
    moreover have "unat (x div PAGE_SIZE + 1) = unat x div 4096 + 1"
      using d unat_page(1) [of x] by (subst unat_add_small) simp_all
    ultimately show ?thesis using False by simp
  qed
qed

lemma pagerange_unat:
  "unat (pr_base (mr_to_pagerange r)) = unat (mr_base r) div 4096"
  "unat (pr_limit (mr_to_pagerange r)) = (unat (mr_limit r) + 4095) div 4096"
  "unat (pr_base (mr_to_inner_pagerange r)) = (unat (mr_base r) + 4095) div 4096"
  "unat (pr_limit (mr_to_inner_pagerange r)) = unat (mr_limit r) div 4096"
  using unat_round_up [of "mr_limit r"] unat_round_up [of "mr_base r"]
  by (simp_all add: mr_to_pagerange_def mr_to_inner_pagerange_def pr_base_limit_def unat_page Let_def)

text \<open>The outer page range of an address range is exactly the set of pages that it touches:
  a page is in it iff it lies between the page of the first and the page of the last byte.\<close>

theorem to_pagerange_covers:
  "pr_page_in_range (mr_to_pagerange r) p \<longleftrightarrow>
     unat (mr_base r) div 4096 \<le> unat p \<and> unat p * 4096 < unat (mr_limit r)"
proof -
  have "unat p < (unat (mr_limit r) + 4095) div 4096 \<longleftrightarrow> unat p * 4096 < unat (mr_limit r)"
    by (rule less_round_up)
  then show ?thesis
    by (simp only: pr_page_in_range_def word_le_unat word_less_unat pagerange_unat)
qed

text \<open>The inner page range of an address range holds only whole pages: every byte of each of
  its pages is in the address range.\<close>

theorem to_inner_pagerange_inside:
  assumes "pr_page_in_range (mr_to_inner_pagerange r) p" and "i < PAGE_SIZE"
  shows "mr_in_range r (p * PAGE_SIZE + i)"
proof -
  have a: "unat p * 4096 + 4096 \<le> unat (mr_limit r)" "unat (mr_base r) \<le> unat p * 4096"
    using assms(1) less_eq_div_iff_mult_less_eq [of 4096 "Suc (unat p)" "unat (mr_limit r)"]
      less_round_up [of "unat p" "unat (mr_base r)"]
    unfolding pr_page_in_range_def word_le_unat word_less_unat pagerange_unat
    by (simp_all add: Suc_le_eq not_less [symmetric])
  have i: "unat i < 4096" using assms(2) by (simp add: word_less_unat)
  have b: "unat (p * PAGE_SIZE) = unat p * 4096"
    using a(1) unat64 [of "mr_limit r"] by (simp add: unat_word_ariths)
  have "unat (p * PAGE_SIZE + i) = unat p * 4096 + unat i"
    using a(1) i unat64 [of "mr_limit r"] b by (subst unat_add_small) simp_all
  then show ?thesis using a i by (simp add: mr_in_range_def word_le_unat word_less_unat)
qed

theorem to_inner_pagerange_inside_witness:
  "mr_in_range \<lparr>mr_base = 0x1001, mr_limit = 0x3800\<rparr> (2 * PAGE_SIZE + 5)"
  by (rule to_inner_pagerange_inside)
    (simp_all add: pr_page_in_range_def mr_to_inner_pagerange_def pr_base_limit_def word_le_unat word_less_unat)

lemma overlaps_iff:
  assumes "pr_base a < pr_limit a" "pr_base b < pr_limit b"
  shows "pr_overlaps a b \<longleftrightarrow> (\<exists>p. pr_page_in_range a p \<and> pr_page_in_range b p)"
proof
  assume o: "pr_overlaps a b"
  have "pr_page_in_range a (max (pr_base a) (pr_base b)) \<and> pr_page_in_range b (max (pr_base a) (pr_base b))"
    using o assms by (auto simp: pr_overlaps_def pr_page_in_range_def max_def)
  then show "\<exists>p. pr_page_in_range a p \<and> pr_page_in_range b p" by blast
next
  assume "\<exists>p. pr_page_in_range a p \<and> pr_page_in_range b p"
  then show "pr_overlaps a b"
    by (auto simp: pr_overlaps_def pr_page_in_range_def)
qed

end
