(* ===== verification/Bitmap.thy ===== *)
theory Bitmap
  imports Prelude
begin

text \<open>
  Bitmaps of used units, as the physical page allocator (\<open>kernel/src/mem/manager.cpp\<close>) and the ext2 file system
  (\<open>kernel/src/fs/ext2.cpp\<close>) keep them: bit \<open>k mod 8\<close> of byte \<open>k div 8\<close> belongs to unit \<open>k\<close>.
\<close>

text \<open>The two search loops: the first byte that is not \<open>0xff\<close>, the first clear bit of a byte.\<close>

fun first_free_byte :: "u8 list \<Rightarrow> nat" where
  "first_free_byte [] = 0"
| "first_free_byte (w # ws) = (if w \<noteq> 0xff then 0 else Suc (first_free_byte ws))"

fun first_free_bit :: "u8 \<Rightarrow> nat list \<Rightarrow> nat" where
  "first_free_bit w [] = 8"
| "first_free_bit w (i # is) = (if w AND push_bit i 1 = 0 then i else first_free_bit w is)"

definition bm_bit :: "u8 list \<Rightarrow> nat \<Rightarrow> bool" where
  "bm_bit bm k \<longleftrightarrow> bit (bm ! (k div 8)) (k mod 8)"

lemma and_bit_zero: "w AND push_bit i 1 = 0 \<longleftrightarrow> \<not> bit w i" if "i < 8" for w :: u8
proof -
  have "w AND push_bit i 1 = (if bit w i then push_bit i 1 else 0)"
    by (rule bit_word_eqI) (auto simp: bit_simps that)
  moreover have "(push_bit i 1 :: u8) \<noteq> 0"
    using that by (auto simp: bit_eq_iff bit_simps intro!: exI [of _ i])
  ultimately show ?thesis by simp
qed

lemma and_pow_zero [simp]: "i < 8 \<Longrightarrow> w AND 2 ^ i = 0 \<longleftrightarrow> \<not> bit (w :: u8) i"
  using and_bit_zero [of i w] by (simp add: push_bit_eq_mult)

lemma not_ff_bit: "w \<noteq> 0xff \<Longrightarrow> \<exists>i<8. \<not> bit (w :: u8) i"
proof (rule ccontr)
  assume "w \<noteq> 0xff" "\<not> (\<exists>i<8. \<not> bit w i)"
  then have "w = - 1" by (intro bit_word_eqI) (auto simp: bit_simps)
  then show False using \<open>w \<noteq> 0xff\<close> by simp
qed

lemma first_free_byte_le: "first_free_byte ws \<le> length ws"
  by (induction ws) auto

lemma first_free_byte_nth: "first_free_byte ws < length ws \<Longrightarrow> ws ! first_free_byte ws \<noteq> 0xff"
  by (induction ws) auto

lemma first_free_byte_before: "i < first_free_byte ws \<Longrightarrow> ws ! i = 0xff"
  by (induction ws arbitrary: i) (auto simp: nth_Cons split: nat.splits if_splits)

lemma first_free_bit_in:
  "\<exists>i \<in> set is. \<not> bit w i \<Longrightarrow> \<forall>i \<in> set is. i < 8 \<Longrightarrow>
     first_free_bit w is \<in> set is \<and> \<not> bit w (first_free_bit w is)"
  by (induction "is") auto

lemma first_free_bit_spec:
  "w \<noteq> 0xff \<Longrightarrow> first_free_bit w [0..<8] < 8 \<and> \<not> bit w (first_free_bit w [0..<8])"
  using first_free_bit_in [of "[0..<8]" w] not_ff_bit [of w] by fastforce

lemma bm_bit_set:
  assumes "i < length bm" "j < 8"
  shows "bm_bit (bm[i := bm ! i OR push_bit j 1]) k \<longleftrightarrow> k = i * 8 + j \<or> bm_bit bm k"
proof -
  have "k = i * 8 + j \<longleftrightarrow> k div 8 = i \<and> k mod 8 = j" using assms(2) by auto
  then show ?thesis using assms
    by (cases "k div 8 = i") (auto simp: bm_bit_def bit_simps)
qed

lemma bm_bit_clear:
  assumes "i < length bm" "j < 8"
  shows "bm_bit (bm[i := bm ! i AND NOT (push_bit j 1)]) k \<longleftrightarrow> k \<noteq> i * 8 + j \<and> bm_bit bm k"
proof -
  have "k = i * 8 + j \<longleftrightarrow> k div 8 = i \<and> k mod 8 = j" using assms(2) by auto
  then show ?thesis using assms
    by (cases "k div 8 = i") (auto simp: bm_bit_def bit_simps)
qed

lemma first_free_bit_upt: "m \<le> 8 \<Longrightarrow> j < first_free_bit w [m..<8] \<Longrightarrow> m \<le> j \<Longrightarrow> j < 8 \<Longrightarrow> bit w j"
proof (induction "8 - m" arbitrary: m)
  case 0
  then show ?case by simp
next
  case (Suc d)
  then have m: "m < 8" "[m..<8] = m # [Suc m..<8]" by (simp_all add: upt_conv_Cons)
  show ?case
  proof (cases "j = m")
    case True
    with Suc.prems m show ?thesis by (auto split: if_splits)
  next
    case False
    with Suc.prems m Suc.hyps(1) [of "Suc m"] Suc.hyps(2) show ?thesis by (auto split: if_splits)
  qed
qed

lemma ff_bit: "bit (0xff :: u8) i \<longleftrightarrow> i < 8"
proof -
  have "(0xff :: u8) = - 1" by simp
  then show ?thesis by (simp only: bit_minus_1_iff possible_bit_word) simp
qed

subsection \<open>The clear bits\<close>

definition clear_bits :: "u8 list \<Rightarrow> nat set" where
  "clear_bits bm = {k. k < 8 * length bm \<and> \<not> bm_bit bm k}"

lemma finite_clear [simp]: "finite (clear_bits bm)"
  by (simp add: clear_bits_def)

lemma clear_bits_set:
  assumes "i < length bm" "j < 8"
  shows "clear_bits (bm[i := bm ! i OR push_bit j 1]) = clear_bits bm - {i * 8 + j}"
  unfolding clear_bits_def bm_bit_set [OF assms] length_list_update by blast

lemma clear_bits_reset:
  assumes "i < length bm" "j < 8"
  shows "clear_bits (bm[i := bm ! i AND NOT (push_bit j 1)]) = insert (i * 8 + j) (clear_bits bm)"
proof -
  have "i * 8 + j < 8 * length bm" using assms by linarith
  then show ?thesis unfolding clear_bits_def bm_bit_clear [OF assms] length_list_update by blast
qed

end
