(* ===== verification/PageAlloc.thy ===== *)
theory PageAlloc
  imports Ranges Bitmap
begin

text \<open>
  The physical page allocator (\<open>kernel/src/mem/manager.cpp\<close>): one bitmap per section of
  available memory (\<open>MemorySectionManager\<close>), and the manager that walks the sections.
  \<open>sec_bit\<close> is the abstraction: bit \<open>k\<close> of the bitmap says whether page \<open>base + k\<close> is in use.
  A bitmap access outside the array of \<open>bitmap\<close> faults. The mapping of the bitmap's own pages
  into the kernel's address space is returned by \<open>sec_init_bitmap\<close> as the list of
  (virtual page, physical page) pairs it maps.
\<close>

record section_mgr =
  sec_range :: page_range
  sec_used :: u64
  sec_bitmap_size :: u64
  sec_bitmap :: "u8 list"

definition sec_reserve_page :: "section_mgr \<Rightarrow> u64 \<Rightarrow> section_mgr result" where
  "sec_reserve_page s page = (if \<not> pr_page_in_range (sec_range s) page then Inr s else
     let idx8 = unat (page div 8); idx = page mod 8 in
     bindr (nth_r (sec_bitmap s) idx8) (\<lambda>w.
       if w AND ucast idx \<noteq> 0 then Inr s
       else Inr (s\<lparr>sec_bitmap := (sec_bitmap s)[idx8 := w OR push_bit (unat idx) 1],
                   sec_used := sec_used s + 1\<rparr>)))"

definition sec_alloc_page :: "section_mgr \<Rightarrow> (u64 \<times> section_mgr) result" where
  "sec_alloc_page s = (if pr_page_count (sec_range s) \<le> sec_used s then Inr (0, s) else
     bindr (peek (sec_bitmap s) 0 (unat (sec_bitmap_size s))) (\<lambda>bm.
       let idx8 = first_free_byte bm in
       if unat (sec_bitmap_size s) \<le> idx8 then Inr (0, s)
       else let w = bm ! idx8; idx = first_free_bit w [0..<8]; ret = of_nat (idx8 * 8 + idx) in
         Inr (pr_base (sec_range s) + ret,
           s\<lparr>sec_bitmap := (sec_bitmap s)[idx8 := w OR push_bit idx 1], sec_used := sec_used s + 1\<rparr>)))"

definition sec_dealloc_page :: "section_mgr \<Rightarrow> u64 \<Rightarrow> section_mgr result" where
  "sec_dealloc_page s page = (if \<not> pr_page_in_range (sec_range s) page then Inr s else
     let idx8 = unat (page div 8); idx = page mod 8 in
     bindr (nth_r (sec_bitmap s) idx8) (\<lambda>w.
       if w AND ucast idx \<noteq> 0 then Inr s
       else Inr (s\<lparr>sec_bitmap := (sec_bitmap s)[idx8 := w AND NOT (push_bit (unat idx) 1)],
                   sec_used := sec_used s - 1\<rparr>)))"

text \<open>The byte \<open>i\<close> that \<open>init_bitmap\<close> stores for a section of \<open>n\<close> pages.\<close>

definition init_byte :: "u64 \<Rightarrow> nat \<Rightarrow> u8" where
  "init_byte n i = (if i < unat (n div 8) then 0
     else if unat (n div 8) < i then 0xff
     else fold (\<lambda>j w. w OR push_bit j 1) [0..<unat (n mod 8)] 0)"

fun sec_alloc_times :: "nat \<Rightarrow> section_mgr \<Rightarrow> section_mgr result" where
  "sec_alloc_times 0 s = Inr s"
| "sec_alloc_times (Suc k) s = bindr (sec_alloc_page s) (\<lambda>(_, s'). sec_alloc_times k s')"

text \<open>The constructor with \<open>init_bitmap\<close>; \<open>kend\<close> is \<open>kernel_end_page_counter\<close>.\<close>

definition sec_init_bitmap ::
  "page_range \<Rightarrow> u64 \<Rightarrow> (section_mgr \<times> u64 \<times> (u64 \<times> u64) list) result" where
  "sec_init_bitmap r kend = (let n = pr_page_count r;
     bsize = (if n mod 8 \<noteq> 0 then n div 8 + 1 else n div 8);
     bpages = (if bsize mod PAGE_SIZE \<noteq> 0 then bsize div PAGE_SIZE + 1 else bsize div PAGE_SIZE);
     maps = map (\<lambda>i. (kend + of_nat i, pr_base r + of_nat i)) [0..<unat bpages];
     s = \<lparr>sec_range = r, sec_used = 0, sec_bitmap_size = bsize,
          sec_bitmap = map (init_byte n) [0..<unat bpages * 4096]\<rparr>
     in bindr (sec_alloc_times (unat bpages) s) (\<lambda>s'. Inr (s', kend + bpages, maps)))"

subsection \<open>The memory manager\<close>

text \<open>The sections in use, \<open>sections[0 ..< section_count]\<close>.\<close>

fun mm_total_available_memory :: "section_mgr list \<Rightarrow> u64" where
  "mm_total_available_memory [] = 0"
| "mm_total_available_memory (s # ss) = pr_size (sec_range s) + mm_total_available_memory ss"

fun mm_get_section_at :: "section_mgr list \<Rightarrow> u64 \<Rightarrow> nat option" where
  "mm_get_section_at [] p = None"
| "mm_get_section_at (s # ss) p = (if pr_page_in_range (sec_range s) p then Some 0
     else map_option Suc (mm_get_section_at ss p))"

definition mm_reserve_page :: "section_mgr list \<Rightarrow> u64 \<Rightarrow> section_mgr list result" where
  "mm_reserve_page ss p = (case mm_get_section_at ss p of None \<Rightarrow> Inr ss
     | Some i \<Rightarrow> bindr (sec_reserve_page (ss ! i) p) (\<lambda>s. Inr (ss[i := s])))"

fun mm_alloc_page :: "section_mgr list \<Rightarrow> (u64 \<times> section_mgr list) result" where
  "mm_alloc_page [] = Inl Panic"
| "mm_alloc_page (s # ss) = bindr (sec_alloc_page s) (\<lambda>(p, s').
     if p \<noteq> 0 then Inr (p, s' # ss)
     else bindr (mm_alloc_page ss) (\<lambda>(q, ss'). Inr (q, s' # ss')))"

definition mm_dealloc_page :: "section_mgr list \<Rightarrow> u64 \<Rightarrow> section_mgr list result" where
  "mm_dealloc_page ss p = (case mm_get_section_at ss p of None \<Rightarrow> Inr ss
     | Some i \<Rightarrow> bindr (sec_dealloc_page (ss ! i) p) (\<lambda>s. Inr (ss[i := s])))"

text \<open>\<open>MemoryManager::init\<close>: a section per available range, cut off behind the kernel. The flag says
  whether the loop ran to its end (only then is the heap initialised).\<close>

fun mm_init_sections :: "page_range \<Rightarrow> phys_range list \<Rightarrow> section_mgr list \<Rightarrow> u64 \<Rightarrow>
    (section_mgr list \<times> u64 \<times> bool) result" where
  "mm_init_sections kr [] ss kend = Inr (ss, kend, True)"
| "mm_init_sections kr (pr # prs) ss kend =
     (if MEMORY_MAP_MAX_RANGE_COUNT \<le> length ss then Inr (ss, kend, False)
      else if ph_type pr \<noteq> AVAILABLE then mm_init_sections kr prs ss kend
      else let r = mr_to_inner_pagerange (ph_range pr);
               r = (if pr_overlaps kr r then r\<lparr>pr_base := pr_limit kr\<rparr> else r)
           in bindr (sec_init_bitmap r kend) (\<lambda>(s, kend', _). mm_init_sections kr prs (ss @ [s]) kend'))"

lemma mm_get_section_at_Some:
  "mm_get_section_at ss p = Some i \<Longrightarrow> i < length ss \<and> pr_page_in_range (sec_range (ss ! i)) p"
  by (induction ss arbitrary: i) (auto split: if_splits)

lemma mm_init_sections_bound:
  "mm_init_sections kr prs ss kend = Inr (ss', kend', ok) \<Longrightarrow> length ss \<le> 32 \<Longrightarrow> length ss' \<le> 32"
proof (induction kr prs ss kend rule: mm_init_sections.induct)
  case (2 kr pr prs ss kend)
  then show ?case by (auto simp: Let_def bindr_Inr_iff split: if_splits prod.splits)
qed simp

subsection \<open>The bitmap as a set of used pages\<close>

definition sec_bit :: "section_mgr \<Rightarrow> nat \<Rightarrow> bool" where
  "sec_bit s k \<longleftrightarrow> bm_bit (sec_bitmap s) k"

definition sec_wf :: "section_mgr \<Rightarrow> bool" where
  "sec_wf s \<longleftrightarrow> unat (sec_bitmap_size s) \<le> length (sec_bitmap s)
     \<and> 8 * unat (sec_bitmap_size s) < 2 ^ 64"

text \<open>One allocation: nothing happens, or the lowest clear bit is set and its page returned.\<close>

lemma sec_alloc_cases:
  assumes wf: "sec_wf s"
  shows "sec_alloc_page s = Inr (0, s) \<or> (\<exists>k s'. sec_alloc_page s = Inr (pr_base (sec_range s) + of_nat k, s')
    \<and> k < 8 * unat (sec_bitmap_size s) \<and> \<not> sec_bit s k \<and> (\<forall>j<k. sec_bit s j)
    \<and> (\<forall>j. sec_bit s' j \<longleftrightarrow> j = k \<or> sec_bit s j)
    \<and> sec_used s' = sec_used s + 1 \<and> sec_range s' = sec_range s \<and> sec_bitmap_size s' = sec_bitmap_size s
    \<and> sec_wf s')"
proof -
  define n where "n = unat (sec_bitmap_size s)"
  define bm where "bm = take n (sec_bitmap s)"
  define i where "i = first_free_byte bm"
  define j where "j = first_free_bit (bm ! i) [0..<8]"
  have len: "n \<le> length (sec_bitmap s)" "length bm = n" using wf by (simp_all add: n_def sec_wf_def bm_def)
  show ?thesis
  proof (cases "pr_page_count (sec_range s) \<le> sec_used s \<or> n \<le> i")
    case True
    then have "sec_alloc_page s = Inr (0, s)"
      using len by (auto simp: sec_alloc_page_def Let_def n_def bm_def i_def)
    then show ?thesis by simp
  next
    case False
    then have i: "i < n" by simp
    have b: "bm ! i = sec_bitmap s ! i" using i by (simp add: bm_def)
    have j: "j < 8" "\<not> bit (bm ! i) j"
      using first_free_bit_spec [of "bm ! i"] first_free_byte_nth [of bm] i len
      by (simp_all add: i_def j_def)
    let ?k = "i * 8 + j"
    let ?s = "s\<lparr>sec_bitmap := (sec_bitmap s)[i := sec_bitmap s ! i OR push_bit j 1], sec_used := sec_used s + 1\<rparr>"
    have "sec_alloc_page s = Inr (pr_base (sec_range s) + of_nat ?k, ?s)"
      using False len b by (simp add: sec_alloc_page_def Let_def n_def bm_def i_def j_def)
    moreover have "?k < 8 * n" using i j by simp
    moreover have "\<not> sec_bit s ?k" using j b by (simp add: sec_bit_def bm_bit_def)
    moreover have "sec_bit s m" if "m < ?k" for m
    proof (cases "m div 8 < i")
      case True
      then have "bm ! (m div 8) = 0xff" by (simp add: i_def first_free_byte_before)
      then show ?thesis using True i ff_bit [of "m mod 8"] by (simp add: sec_bit_def bm_bit_def bm_def)
    next
      case False
      moreover have "m div 8 * 8 + m mod 8 = m" by simp
      ultimately have "m div 8 = i" "m mod 8 < j" using that j(1) by linarith+
      then show ?thesis using first_free_bit_upt [of 0 "m mod 8" "bm ! i"] b
        by (simp add: sec_bit_def bm_bit_def j_def)
    qed
    moreover have "sec_bit ?s m \<longleftrightarrow> m = ?k \<or> sec_bit s m" for m
      using bm_bit_set [of i "sec_bitmap s" j m] i j len by (simp add: sec_bit_def)
    moreover have "sec_wf ?s" using wf by (simp add: sec_wf_def)
    ultimately show ?thesis unfolding n_def by (intro disjI2 exI [of _ ?k] exI [of _ ?s]) simp
  qed
qed

fun sec_alloc_many :: "nat \<Rightarrow> section_mgr \<Rightarrow> (u64 list \<times> section_mgr) result" where
  "sec_alloc_many 0 s = Inr ([], s)"
| "sec_alloc_many (Suc n) s = bindr (sec_alloc_page s) (\<lambda>(p, s').
     bindr (sec_alloc_many n s') (\<lambda>(ps, s''). Inr (p # ps, s'')))"

text \<open>The pages a run of allocations returns are pages whose bits were clear before it.\<close>

lemma sec_alloc_many_clear:
  "sec_wf s \<Longrightarrow> \<exists>ps s'. sec_alloc_many n s = Inr (ps, s')
     \<and> (\<forall>p \<in> set ps. p \<noteq> 0 \<longrightarrow> (\<exists>k. p = pr_base (sec_range s) + of_nat k \<and> k < 8 * unat (sec_bitmap_size s)
           \<and> \<not> sec_bit s k))
     \<and> distinct (filter (\<lambda>p. p \<noteq> 0) ps)"
proof (induction n arbitrary: s)
  case 0
  then show ?case by simp
next
  case (Suc n)
  from sec_alloc_cases [OF Suc.prems] show ?case
  proof (elim disjE exE conjE)
    assume "sec_alloc_page s = Inr (0, s)"
    then show ?thesis using Suc.IH [OF Suc.prems] by fastforce
  next
    fix k s'
    assume k: "sec_alloc_page s = Inr (pr_base (sec_range s) + of_nat k, s')"
      "k < 8 * unat (sec_bitmap_size s)" "\<not> sec_bit s k"
      "\<forall>j. sec_bit s' j \<longleftrightarrow> j = k \<or> sec_bit s j" "sec_range s' = sec_range s"
      "sec_bitmap_size s' = sec_bitmap_size s" "sec_wf s'"
    obtain ps s'' where ps: "sec_alloc_many n s' = Inr (ps, s'')"
      "\<forall>p \<in> set ps. p \<noteq> 0 \<longrightarrow> (\<exists>m. p = pr_base (sec_range s') + of_nat m
         \<and> m < 8 * unat (sec_bitmap_size s') \<and> \<not> sec_bit s' m)"
      "distinct (filter (\<lambda>p. p \<noteq> 0) ps)"
      using Suc.IH [OF k(7)] by blast
    have new: "pr_base (sec_range s) + of_nat k \<notin> set (filter (\<lambda>p. p \<noteq> 0) ps)"
    proof
      assume "pr_base (sec_range s) + of_nat k \<in> set (filter (\<lambda>p. p \<noteq> 0) ps)"
      then obtain m where m: "pr_base (sec_range s) + of_nat k = pr_base (sec_range s') + of_nat m"
        "m < 8 * unat (sec_bitmap_size s')" "\<not> sec_bit s' m" using ps(2) by auto
      then have "(of_nat k :: u64) = of_nat m" using k(5) by simp
      moreover have "k < 2 ^ 64" "m < 2 ^ 64" using Suc.prems k(2,6) m(2) by (simp_all add: sec_wf_def)
      ultimately have "k = m" by (simp add: word_of_nat_eq_iff take_bit_nat_eq_self)
      then show False using m(3) k(4) by simp
    qed
    have "\<forall>p \<in> set ps. p \<noteq> 0 \<longrightarrow> (\<exists>m. p = pr_base (sec_range s) + of_nat m
        \<and> m < 8 * unat (sec_bitmap_size s) \<and> \<not> sec_bit s m)"
      using ps(2) k(4,5,6) by (metis (no_types, lifting))
    then show ?thesis using k(1,2,3) ps(1,3) new by auto
  qed
qed

text \<open>One allocation of a section either changes nothing and returns 0, or returns the page of
  the lowest clear bit of the bitmap, and then sets exactly that bit and counts the page.\<close>

theorem sec_alloc_lowest_free:
  assumes "sec_wf s" and "sec_alloc_page s = Inr (p, s')" and "s' \<noteq> s"
  shows "\<exists>k. p = pr_base (sec_range s) + of_nat k \<and> \<not> sec_bit s k \<and> (\<forall>j<k. sec_bit s j)
    \<and> (\<forall>j. sec_bit s' j \<longleftrightarrow> j = k \<or> sec_bit s j) \<and> sec_used s' = sec_used s + 1 \<and> sec_wf s'"
  using sec_alloc_cases [OF assms(1)] assms(2,3) by auto

theorem sec_alloc_lowest_free_witness:
  "\<exists>k. (7 :: u64) = 4 + of_nat k \<and> k = 3"
proof -
  let ?s = "\<lparr>sec_range = \<lparr>pr_base = 4, pr_limit = 12\<rparr>, sec_used = 3, sec_bitmap_size = 1, sec_bitmap = [7]\<rparr>"
  let ?t = "\<lparr>sec_range = \<lparr>pr_base = 4, pr_limit = 12\<rparr>, sec_used = 4, sec_bitmap_size = 1, sec_bitmap = [15]\<rparr>"
  have "sec_alloc_page ?s = Inr (7, ?t)" by code_simp
  then obtain k where k: "(7 :: u64) = 4 + of_nat k" "\<not> sec_bit ?s k" "\<forall>j<k. sec_bit ?s j"
    using sec_alloc_lowest_free [of ?s 7 ?t] by (auto simp: sec_wf_def)
  have "\<not> sec_bit ?s 3" by (simp add: sec_bit_def bm_bit_def)
  then have "k \<le> 3" using k(3) by (meson not_le)
  then have "k = 0 \<or> k = 1 \<or> k = 2 \<or> k = 3" by linarith
  then have "k = 3" by (elim disjE) (use k(1) in simp_all)
  then show ?thesis using k(1) by blast
qed

text \<open>However often a section is asked, no page is handed out twice: the non-zero results of a
  run of allocations without a release are pairwise distinct.\<close>

theorem sec_alloc_distinct:
  assumes "sec_wf s"
  shows "\<exists>ps s'. sec_alloc_many n s = Inr (ps, s') \<and> distinct (filter (\<lambda>p. p \<noteq> 0) ps)"
  using sec_alloc_many_clear [OF assms, of n] by blast

theorem sec_alloc_distinct_witness:
  "\<exists>ps s'. sec_alloc_many 5 \<lparr>sec_range = \<lparr>pr_base = 4, pr_limit = 12\<rparr>, sec_used = 3,
     sec_bitmap_size = 1, sec_bitmap = [7]\<rparr> = Inr (ps, s') \<and> distinct (filter (\<lambda>p. p \<noteq> 0) ps)"
  by (rule sec_alloc_distinct) (simp add: sec_wf_def)

lemma fold_set_bits:
  "bit (fold (\<lambda>j w. w OR 2 ^ j) [0..<m] (w :: u8)) i \<longleftrightarrow> bit w i \<or> i < m \<and> i < 8"
  by (induction m) (auto simp: bit_simps less_Suc_eq)

text \<open>The initial bitmap of a section of \<open>n\<close> pages is inverted in its last byte: the pages
  \<open>8 * (n div 8) ..< n\<close> of the section are marked used, and the bits from \<open>n\<close> to the end of that
  byte, which stand for pages behind the section, are free.\<close>

theorem init_bitmap_bits:
  assumes "k < 8 * N"
  shows "bm_bit (map (init_byte n) [0..<N]) k \<longleftrightarrow>
    8 * unat (n div 8) \<le> k \<and> k < unat n \<or> 8 * unat (n div 8) + 8 \<le> k"
proof -
  have n: "unat n = 8 * unat (n div 8) + unat (n mod 8)" "unat (n mod 8) < 8"
    by (simp_all add: unat_div unat_mod)
  have nth: "map (init_byte n) [0..<N] ! (k div 8) = init_byte n (k div 8)" using assms by simp
  consider "k div 8 < unat (n div 8)" | "k div 8 = unat (n div 8)" | "unat (n div 8) < k div 8" by linarith
  then show ?thesis
  proof cases
    case 1
    then have "k < 8 * unat (n div 8)" by linarith
    then show ?thesis using 1 by (simp add: bm_bit_def nth init_byte_def)
  next
    case 2
    have k: "8 * (k div 8) + k mod 8 = k" "k mod 8 < 8" by simp_all
    have "bm_bit (map (init_byte n) [0..<N]) k \<longleftrightarrow> k mod 8 < unat (n mod 8)"
      unfolding bm_bit_def nth by (simp add: init_byte_def 2 fold_set_bits)
    also have "\<dots> \<longleftrightarrow> 8 * unat (n div 8) \<le> k \<and> k < unat n \<or> 8 * unat (n div 8) + 8 \<le> k"
      using k n 2 by linarith
    finally show ?thesis .
  next
    case 3
    then have "8 * unat (n div 8) + 8 \<le> k" by linarith
    then show ?thesis using 3 ff_bit [of "k mod 8"] by (simp add: bm_bit_def nth init_byte_def)
  qed
qed

theorem init_bitmap_bits_witness:
  "bm_bit (map (init_byte 12) [0..<2]) 9 \<and> \<not> bm_bit (map (init_byte 12) [0..<2]) 12"
  using init_bitmap_bits [of 9 2 12] init_bitmap_bits [of 12 2 12] by (simp add: unat_div)

text \<open>A section of three pages, just initialised, hands out a page outside of its range.\<close>

theorem alloc_outside_range:
  "\<exists>s'. sec_alloc_page \<lparr>sec_range = \<lparr>pr_base = b, pr_limit = b + 3\<rparr>, sec_used = 0, sec_bitmap_size = 1,
       sec_bitmap = map (init_byte (pr_page_count \<lparr>pr_base = b, pr_limit = b + 3\<rparr>)) [0..<4096]\<rparr> = Inr (b + 3, s')
     \<and> \<not> pr_page_in_range \<lparr>pr_base = b, pr_limit = b + 3\<rparr> (b + 3)"
proof -
  have bm: "take (Suc 0) (map (init_byte 3) [0..<4096]) = [7]"
  proof -
    have "[0..<4096] = 0 # [Suc 0..<4096 :: nat]" by (rule upt_conv_Cons) simp
    moreover have "init_byte 3 0 = 7" by code_simp
    ultimately show ?thesis by simp
  qed
  have "first_free_bit 7 [0..<8] = 3" by code_simp
  then show ?thesis
    by (simp add: sec_alloc_page_def pr_page_count_def pr_page_in_range_def bm Let_def)
qed

text \<open>In a byte of the bitmap whose eight pages are all in use, \<open>dealloc_page\<close> frees only a page
  whose number is a multiple of eight; for the other seven it does nothing and the page is lost.\<close>

theorem dealloc_in_full_byte:
  assumes "pr_page_in_range (sec_range s) p" "unat (p div 8) < length (sec_bitmap s)"
    and full: "sec_bitmap s ! unat (p div 8) = 0xff"
  shows "if p mod 8 = 0
    then \<exists>s'. sec_dealloc_page s p = Inr s' \<and> sec_used s' = sec_used s - 1
       \<and> (\<forall>k. sec_bit s' k \<longleftrightarrow> k \<noteq> unat p \<and> sec_bit s k)
    else sec_dealloc_page s p = Inr s"
proof -
  have lt: "unat (p mod 8) < 8" by (simp add: unat_mod)
  have "(0xff :: u8) AND ucast (p mod 8) = (ucast (p mod 8) :: u8)"
  proof -
    have "(0xff :: u8) = - 1" by simp
    then show ?thesis by (simp only: and.left_neutral)
  qed
  moreover have "unat (ucast (p mod 8) :: u8) = unat (p mod 8)"
    using lt by (simp add: unsigned_ucast_eq take_bit_eq_mod)
  then have "(ucast (p mod 8) :: u8) = 0 \<longleftrightarrow> p mod 8 = 0" by (simp add: word_unat_eq_iff)
  ultimately have test: "(0xff :: u8) AND ucast (p mod 8) \<noteq> 0 \<longleftrightarrow> p mod 8 \<noteq> 0" by simp
  show ?thesis
  proof (cases "p mod 8 = 0")
    case False
    then show ?thesis using assms test by (simp add: sec_dealloc_page_def Let_def)
  next
    case True
    let ?s = "s\<lparr>sec_bitmap := (sec_bitmap s)[unat (p div 8) := 0xff AND NOT (push_bit 0 1)],
      sec_used := sec_used s - 1\<rparr>"
    have "sec_dealloc_page s p = Inr ?s" using assms test True by (simp add: sec_dealloc_page_def Let_def)
    moreover have "unat p = unat (p div 8) * 8"
      using True mult_div_mod_eq [of 8 "unat p"] by (simp add: unat_div unat_mod word_unat_eq_iff)
    then have "sec_bit ?s k \<longleftrightarrow> k \<noteq> unat p \<and> sec_bit s k" for k
      using bm_bit_clear [OF assms(2), of 0 k] full by (simp add: sec_bit_def)
    ultimately show ?thesis using True by (intro iffD2 [OF if_P] exI [of _ ?s]) simp_all
  qed
qed

theorem dealloc_in_full_byte_witness:
  "sec_dealloc_page \<lparr>sec_range = \<lparr>pr_base = 0, pr_limit = 8\<rparr>, sec_used = 8, sec_bitmap_size = 1,
     sec_bitmap = [0xff]\<rparr> 5
   = Inr \<lparr>sec_range = \<lparr>pr_base = 0, pr_limit = 8\<rparr>, sec_used = 8, sec_bitmap_size = 1, sec_bitmap = [0xff]\<rparr>"
  using dealloc_in_full_byte [of "\<lparr>sec_range = \<lparr>pr_base = 0, pr_limit = 8\<rparr>, sec_used = 8,
      sec_bitmap_size = 1, sec_bitmap = [0xff]\<rparr>" 5]
  by (simp add: pr_page_in_range_def word_le_unat word_less_unat)

end
