(* ===== verification/Heap.thy ===== *)
theory Heap
  imports Prelude
begin

text \<open>
  The first-fit allocator of the kernel (\<open>kernel/src/mem/heap.cpp\<close>, \<open>heap.hpp\<close>). Every block
  starts with a 12-byte header (\<open>next\<close>, \<open>size\<close>, \<open>align_bits\<close>) stored at its address; the chain from
  \<open>head\<close> along \<open>next\<close> is the list \<open>hp_blocks\<close>. The callback \<open>request_resize\<close> is the parameter
  \<open>rq\<close> (\<open>None\<close> for a null pointer); the calls made to it are recorded in \<open>hp_requests\<close>, newest
  first. A null pointer is the address 0.
\<close>

abbreviation HDR :: usize where "HDR \<equiv> 12"

record lcblock =
  blk_addr :: usize
  blk_size :: usize
  blk_align :: u32

record lcheap =
  hp_blocks :: "lcblock list"
  hp_base :: usize
  hp_limit :: usize
  hp_total :: usize
  hp_requests :: "usize list"

type_synonym resize_func = "(usize \<Rightarrow> bool) option"

definition alignceil :: "usize \<Rightarrow> u32 \<Rightarrow> usize" where
  "alignceil v align = (let nval = push_bit (unat align) (drop_bit (unat align) v) in
     if v \<noteq> nval then nval + push_bit (unat align) 1 else nval)"

definition lc_block_after :: "usize \<Rightarrow> u32 \<Rightarrow> usize" where
  "lc_block_after base align = alignceil (base + HDR) align - HDR"

definition blk_data :: "lcblock \<Rightarrow> usize" where
  "blk_data b = blk_addr b + HDR"

definition blk_limit :: "lcblock \<Rightarrow> usize" where
  "blk_limit b = blk_data b + blk_size b"

text \<open>\<open>fits_with_size\<close> and \<open>fits_before\<close> of a block at address \<open>a\<close>.\<close>

definition lc_fits_with_size :: "usize \<Rightarrow> usize \<Rightarrow> usize \<Rightarrow> bool" where
  "lc_fits_with_size a sz limit = (if limit < a + HDR then False else sz \<le> limit - (a + HDR))"

definition lc_new :: "usize \<Rightarrow> usize \<Rightarrow> lcheap" where
  "lc_new base limit = \<lparr>hp_blocks = [], hp_base = (if base < 4 then 4 else base), hp_limit = limit,
     hp_total = 0, hp_requests = []\<rparr>"

definition lc_set_range :: "lcheap \<Rightarrow> usize \<Rightarrow> usize \<Rightarrow> lcheap" where
  "lc_set_range h base limit = h\<lparr>hp_base := base, hp_limit := limit\<rparr>"

fun lc_count_blocks :: "lcblock list \<Rightarrow> usize" where
  "lc_count_blocks [] = 0"
| "lc_count_blocks (b # bs) = lc_count_blocks bs + 1"

fun lc_count_total_size :: "lcblock list \<Rightarrow> usize" where
  "lc_count_total_size [] = 0"
| "lc_count_total_size (b # bs) = blk_size b + lc_count_total_size bs"

text \<open>\<open>prev_block\<close>: the position of the block whose \<open>next\<close> is \<open>a\<close>, given up once past \<open>a\<close>.\<close>

fun lc_prev_block :: "lcblock list \<Rightarrow> usize \<Rightarrow> nat option" where
  "lc_prev_block [] a = None"
| "lc_prev_block [x] a = (if a = 0 then Some 0 else None)"
| "lc_prev_block (x # y # bs) a = (if blk_addr y = a then Some 0
     else if a < blk_addr x then None
     else map_option Suc (lc_prev_block (y # bs) a))"

definition lc_head :: "lcblock list \<Rightarrow> usize" where
  "lc_head bs = (case bs of [] \<Rightarrow> 0 | b # _ \<Rightarrow> blk_addr b)"

text \<open>The position of the block that \<open>free\<close> and \<open>realloc\<close> look for: behind its predecessor, or
  the head; \<open>None\<close> when there is no such block.\<close>

definition lc_locate :: "lcblock list \<Rightarrow> usize \<Rightarrow> nat option" where
  "lc_locate bs a = (case lc_prev_block bs a of Some i \<Rightarrow> Some (Suc i)
     | None \<Rightarrow> if lc_head bs = a then Some 0 else None)"

definition lc_get_block_size :: "lcheap \<Rightarrow> usize \<Rightarrow> usize result" where
  "lc_get_block_size h ptr = (let a = ptr - HDR in
     if lc_prev_block (hp_blocks h) a = None \<or> lc_head (hp_blocks h) \<noteq> a then Inr 0
     else bindr (nth_r (hp_blocks h) 0) (\<lambda>b. Inr (blk_size b)))"

text \<open>The search loop of \<open>malloc\<close>: the position to insert at and the address of the new block.\<close>

fun lc_find :: "usize \<Rightarrow> u32 \<Rightarrow> usize \<Rightarrow> lcblock list \<Rightarrow> nat \<times> usize" where
  "lc_find sz align a [] = (0, a)"
| "lc_find sz align a (b # bs) = (if lc_fits_with_size a sz (blk_addr b) then (0, a)
     else let (i, a') = lc_find sz align (lc_block_after (blk_limit b) align) bs in (Suc i, a'))"

definition lc_insert :: "lcheap \<Rightarrow> nat \<Rightarrow> lcblock \<Rightarrow> lcheap" where
  "lc_insert h i b = h\<lparr>hp_blocks := take i (hp_blocks h) @ b # drop i (hp_blocks h),
     hp_total := hp_total h + blk_size b\<rparr>"

definition lc_malloc :: "resize_func \<Rightarrow> lcheap \<Rightarrow> usize \<Rightarrow> u32 \<Rightarrow> usize \<times> lcheap" where
  "lc_malloc rq h sz align =
    (let (i, a) = lc_find sz align (lc_block_after (hp_base h) align) (hp_blocks h);
         b = \<lparr>blk_addr = a, blk_size = sz, blk_align = align\<rparr> in
     if i < length (hp_blocks h) then (blk_data b, lc_insert h i b)
     else if lc_fits_with_size a sz (hp_limit h) then (blk_data b, lc_insert h i b)
     else case rq of None \<Rightarrow> (0, h)
       | Some f \<Rightarrow> let h' = h\<lparr>hp_requests := (blk_data b + sz) # hp_requests h\<rparr> in
           if \<not> f (blk_data b + sz) then (0, h') else (blk_data b, lc_insert h' i b))"

text \<open>Unlinking block \<open>i\<close>, as in \<open>free\<close> and in the moving case of \<open>realloc\<close>: the shrink request
  reads the predecessor's limit, also when there is no predecessor.\<close>

definition lc_remove_at :: "lcheap \<Rightarrow> nat \<Rightarrow> lcblock \<Rightarrow> lcheap" where
  "lc_remove_at h i b = h\<lparr>hp_blocks := take i (hp_blocks h) @ drop (Suc i) (hp_blocks h),
     hp_total := hp_total h - blk_size b\<rparr>"

definition lc_shrink :: "resize_func \<Rightarrow> lcheap \<Rightarrow> nat \<Rightarrow> bool \<Rightarrow> lcheap result" where
  "lc_shrink rq h i was_last = (if \<not> was_last \<or> rq = None then Inr h
     else if i = 0 then Inl Fault
     else bindr (nth_r (hp_blocks h) (i - 1)) (\<lambda>p. Inr (h\<lparr>hp_requests := blk_limit p # hp_requests h\<rparr>)))"

definition lc_free :: "resize_func \<Rightarrow> lcheap \<Rightarrow> usize \<Rightarrow> lcheap result" where
  "lc_free rq h ptr = (case lc_locate (hp_blocks h) (ptr - HDR) of None \<Rightarrow> Inl Panic
     | Some i \<Rightarrow> bindr (nth_r (hp_blocks h) i) (\<lambda>b.
         lc_shrink rq (lc_remove_at h i b) i (Suc i = length (hp_blocks h))))"

text \<open>\<open>realloc\<close> returns the pointer, the copy it makes (destination, source, bytes) and the heap. In
  the moving case \<open>prev->next\<close> is written before anything else, so a block without predecessor
  faults.\<close>

definition lc_realloc :: "resize_func \<Rightarrow> lcheap \<Rightarrow> usize \<Rightarrow> usize \<Rightarrow>
    (usize \<times> (usize \<times> usize \<times> usize) option \<times> lcheap) result" where
  "lc_realloc rq h ptr sz = (case lc_locate (hp_blocks h) (ptr - HDR) of None \<Rightarrow> Inr (0, None, h)
     | Some i \<Rightarrow> bindr (nth_r (hp_blocks h) i) (\<lambda>b.
         let bound = (if Suc i < length (hp_blocks h) then blk_addr (hp_blocks h ! Suc i) else hp_limit h) in
         if lc_fits_with_size (blk_addr b) sz bound then
           Inr (ptr, None, h\<lparr>hp_total := hp_total h - (blk_size b - sz),
                             hp_blocks := (hp_blocks h)[i := b\<lparr>blk_size := sz\<rparr>]\<rparr>)
         else if i = 0 then Inl Fault
         else bindr (lc_shrink rq (lc_remove_at h i b) i (Suc i = length (hp_blocks h))) (\<lambda>h'.
           let (nptr, h'') = lc_malloc rq h' sz (blk_align b) in
           if nptr = 0 then Inr (0, None, h'')
           else Inr (nptr, Some (nptr, ptr, blk_size b), h''))))"

subsection \<open>Alignment\<close>

lemma unat_floor: "unat (push_bit n (drop_bit n v)) = unat (v :: usize) div 2 ^ n * 2 ^ n"
proof -
  have "unat v div 2 ^ n * 2 ^ n \<le> unat v" by (rule div_times_less_eq_dividend)
  then have "unat v div 2 ^ n * 2 ^ n < 4294967296" using unat32 [of v] by linarith
  then show ?thesis
    unfolding unsigned_push_bit_eq unsigned_drop_bit_eq unfolding push_bit_eq_mult drop_bit_eq_div take_bit_eq_mod
    using unat32 [of v] by simp
qed

lemma unat_bit_value:
  assumes "n < 32" shows "unat (push_bit n 1 :: usize) = 2 ^ n"
proof -
  have "(2::nat) ^ n < 2 ^ 32" using assms by (intro power_strict_increasing) simp_all
  then show ?thesis unfolding unsigned_push_bit_eq unfolding push_bit_eq_mult take_bit_eq_mod by simp
qed

lemma alignceil_spec:
  assumes "unat align < 32" "unat v + 2 ^ unat align < 4294967296"
  shows "2 ^ unat align dvd unat (alignceil v align)"
    and "unat v \<le> unat (alignceil v align)" and "unat (alignceil v align) < unat v + 2 ^ unat align"
proof -
  define p :: nat where "p = 2 ^ unat align"
  define q where "q = unat v div p"
  have p: "0 < p" by (simp add: p_def)
  have qr: "q * p \<le> unat v" "unat v < q * p + p"
    using div_mult_mod_eq [of "unat v" p] mod_less_divisor [OF p, of "unat v"] unfolding q_def by linarith+
  have fl: "unat (push_bit (unat align) (drop_bit (unat align) v)) = q * p"
    by (simp add: unat_floor q_def p_def)
  have one: "unat (push_bit (unat align) 1 :: usize) = p"
    unfolding p_def by (rule unat_bit_value [OF assms(1)])
  have sm: "unat (push_bit (unat align) (drop_bit (unat align) v) + push_bit (unat align) 1) = q * p + p"
    using fl one qr(1) assms(2) by (subst unat_add_small) (simp_all add: p_def)
  have c: "unat (alignceil v align) = (if unat v = q * p then q * p else q * p + p)"
    unfolding alignceil_def Let_def using fl sm by (auto simp: word_unat_eq_iff)
  show "2 ^ unat align dvd unat (alignceil v align)" using c by (auto simp: p_def [symmetric])
  show "unat v \<le> unat (alignceil v align)" "unat (alignceil v align) < unat v + 2 ^ unat align"
    using c qr p by (auto simp: p_def [symmetric])
qed

subsection \<open>Well-formed heaps\<close>

text \<open>\<open>lc_chain lo cap bs\<close>: the blocks lie between \<open>lo\<close> and \<open>cap\<close>, in the order of their addresses,
  headers included, without overlap. \<open>lc_wf cap h\<close> adds that the size counter is the sum of the
  block sizes.\<close>

fun lc_chain :: "nat \<Rightarrow> nat \<Rightarrow> lcblock list \<Rightarrow> bool" where
  "lc_chain lo cap [] = True"
| "lc_chain lo cap (b # bs) = (lo \<le> unat (blk_addr b)
     \<and> unat (blk_addr b) + 12 + unat (blk_size b) \<le> cap
     \<and> lc_chain (unat (blk_addr b) + 12 + unat (blk_size b)) cap bs)"

definition lc_wf :: "nat \<Rightarrow> lcheap \<Rightarrow> bool" where
  "lc_wf cap h \<longleftrightarrow> cap < 4294967296 \<and> unat (hp_base h) \<le> cap \<and> 4 \<le> unat (hp_base h)
     \<and> lc_chain (unat (hp_base h)) cap (hp_blocks h)
     \<and> hp_total h = lc_count_total_size (hp_blocks h)"

lemma lc_chain_mono: "lc_chain lo cap bs \<Longrightarrow> lo' \<le> lo \<Longrightarrow> lc_chain lo' cap bs"
  by (cases bs) auto

lemma lc_chain_append:
  "lc_chain lo cap (xs @ ys) \<longleftrightarrow> lc_chain lo cap xs
     \<and> lc_chain (if xs = [] then lo else unat (blk_addr (last xs)) + 12 + unat (blk_size (last xs))) cap ys"
  by (induction xs arbitrary: lo) auto

lemma lc_chain_lower: "lc_chain lo cap bs \<Longrightarrow> b \<in> set bs \<Longrightarrow> lo \<le> unat (blk_addr b)"
  by (induction bs arbitrary: lo) (auto dest: lc_chain_mono, fastforce dest: lc_chain_mono)

lemma lc_chain_upper: "lc_chain lo cap bs \<Longrightarrow> b \<in> set bs \<Longrightarrow> unat (blk_addr b) + 12 + unat (blk_size b) \<le> cap"
  by (induction bs arbitrary: lo) auto

text \<open>Two blocks of a chain at different positions are apart.\<close>

definition blk_apart :: "lcblock \<Rightarrow> lcblock \<Rightarrow> bool" where
  "blk_apart x y \<longleftrightarrow> unat (blk_addr x) + 12 + unat (blk_size x) \<le> unat (blk_addr y)
     \<or> unat (blk_addr y) + 12 + unat (blk_size y) \<le> unat (blk_addr x)"

lemma lc_chain_apart:
  "lc_chain lo cap bs \<Longrightarrow> i < j \<Longrightarrow> j < length bs \<Longrightarrow>
     unat (blk_addr (bs ! i)) + 12 + unat (blk_size (bs ! i)) \<le> unat (blk_addr (bs ! j))"
proof (induction bs arbitrary: lo i j)
  case (Cons b bs)
  then obtain j' where j: "j = Suc j'" by (cases j) auto
  show ?case
  proof (cases i)
    case 0
    then show ?thesis using Cons.prems j lc_chain_lower [of _ cap bs "bs ! j'"] by auto
  next
    case (Suc i')
    then show ?thesis using Cons.IH [of _ i' j'] Cons.prems j by auto
  qed
qed simp

lemma lc_count_append: "lc_count_total_size (xs @ ys) = lc_count_total_size xs + lc_count_total_size ys"
  by (induction xs) simp_all

lemma lc_block_after_spec:
  assumes "unat align < 32" "unat base + 12 + 2 ^ unat align < 4294967296"
  shows "unat base \<le> unat (lc_block_after base align)"
    and "unat (lc_block_after base align) < unat base + 2 ^ unat align"
    and "2 ^ unat align dvd unat (lc_block_after base align + HDR)"
    and "unat (lc_block_after base align + HDR) = unat (lc_block_after base align) + 12"
proof -
  have b: "unat (base + HDR) = unat base + 12" using assms(2) by (subst unat_add_small) simp_all
  have v: "unat (base + HDR) + 2 ^ unat align < 4294967296" using assms(2) b by simp
  note A = alignceil_spec [OF assms(1) v]
  have s: "unat (lc_block_after base align) = unat (alignceil (base + HDR) align) - 12"
    unfolding lc_block_after_def using A(2) b by (subst unat_diff_le) simp_all
  show "unat base \<le> unat (lc_block_after base align)"
    "unat (lc_block_after base align) < unat base + 2 ^ unat align" using s A(2,3) b by linarith+
  show "2 ^ unat align dvd unat (lc_block_after base align + HDR)"
    using A(1) by (simp add: lc_block_after_def)
  show "unat (lc_block_after base align + HDR) = unat (lc_block_after base align) + 12"
    using s A(2,3) b v by (simp add: lc_block_after_def)
qed

lemma blk_limit_unat:
  assumes "unat (blk_addr b) + 12 + unat (blk_size b) < 4294967296"
  shows "unat (blk_limit b) = unat (blk_addr b) + 12 + unat (blk_size b)"
proof -
  have "unat (blk_data b) = unat (blk_addr b) + 12"
    unfolding blk_data_def using assms by (subst unat_add_small) simp_all
  then show ?thesis unfolding blk_limit_def using assms by (subst unat_add_small) simp_all
qed

lemma fits_unat:
  assumes "unat a + 12 < 4294967296"
  shows "lc_fits_with_size a sz limit \<longleftrightarrow> unat a + 12 + unat sz \<le> unat limit"
proof -
  have a: "unat (a + HDR) = unat a + 12" using assms by (subst unat_add_small) simp_all
  show ?thesis
  proof (cases "unat a + 12 \<le> unat limit")
    case True
    then have "unat (limit - (a + HDR)) = unat limit - (unat a + 12)" using a by (simp add: unat_diff_le)
    then show ?thesis using True a by (auto simp: lc_fits_with_size_def word_less_unat word_le_unat)
  next
    case False
    then show ?thesis using a by (auto simp: lc_fits_with_size_def word_less_unat)
  qed
qed

text \<open>The search: the address found is behind every block it passed and, unless the list is used up,
  the new block ends before the next one.\<close>

lemma lc_find_spec:
  assumes "lc_chain lo cap bs" "unat align < 32" "cap + 24 + 2 ^ unat align < 4294967296"
    and "lc_find sz align a bs = (i, a')" and "lo \<le> unat a" "unat a < cap + 2 ^ unat align"
    and "2 ^ unat align dvd unat (a + HDR)"
  shows "i \<le> length bs \<and> unat a' < cap + 2 ^ unat align \<and> 2 ^ unat align dvd unat (a' + HDR)
    \<and> lc_chain lo cap (take i bs)
    \<and> (if i = 0 then lo else unat (blk_addr (bs ! (i - 1))) + 12 + unat (blk_size (bs ! (i - 1)))) \<le> unat a'
    \<and> (i < length bs \<longrightarrow> unat a' + 12 + unat sz \<le> unat (blk_addr (bs ! i)))"
  using assms
proof (induction bs arbitrary: lo a i a')
  case Nil
  then show ?case by simp
next
  case (Cons b bs)
  have a: "unat a + 12 < 4294967296" using Cons.prems(3,6) by simp
  show ?case
  proof (cases "lc_fits_with_size a sz (blk_addr b)")
    case True
    then have "i = 0" "a' = a" "unat a + 12 + unat sz \<le> unat (blk_addr b)"
      using Cons.prems(4) fits_unat [OF a] by simp_all
    then show ?thesis using Cons.prems by simp
  next
    case False
    obtain j where j: "lc_find sz align (lc_block_after (blk_limit b) align) bs = (j, a')" "i = Suc j"
      using False Cons.prems(4) by (auto split: prod.splits)
    have lim: "unat (blk_limit b) = unat (blk_addr b) + 12 + unat (blk_size b)" "unat (blk_limit b) \<le> cap"
      using Cons.prems(1,3) blk_limit_unat [of b] by simp_all
    have "unat (blk_limit b) + 12 + 2 ^ unat align < 4294967296" using lim Cons.prems(3) by linarith
    note B = lc_block_after_spec [OF Cons.prems(2) this]
    have "unat (lc_block_after (blk_limit b) align) < cap + 2 ^ unat align" using B(2) lim(2) by linarith
    from Cons.IH [OF _ Cons.prems(2,3) j(1) B(1) this B(3)] Cons.prems(1) lim
    have IH: "j \<le> length bs" "unat a' < cap + 2 ^ unat align" "2 ^ unat align dvd unat (a' + HDR)"
      "lc_chain (unat (blk_limit b)) cap (take j bs)"
      "(if j = 0 then unat (blk_limit b) else unat (blk_addr (bs ! (j - 1))) + 12 + unat (blk_size (bs ! (j - 1)))) \<le> unat a'"
      "j < length bs \<longrightarrow> unat a' + 12 + unat sz \<le> unat (blk_addr (bs ! j))" by simp_all
    then show ?thesis using j(2) Cons.prems(1) lim by (cases j) auto
  qed
qed


subsection \<open>Insertion, removal and search keep a heap well formed\<close>

lemma lc_chain_insert:
  assumes "lc_chain lo cap bs" "i \<le> length bs"
    and "(if i = 0 then lo else unat (blk_addr (bs ! (i - 1))) + 12 + unat (blk_size (bs ! (i - 1)))) \<le> unat (blk_addr b)"
    and "unat (blk_addr b) + 12 + unat (blk_size b) \<le> cap"
    and "i < length bs \<longrightarrow> unat (blk_addr b) + 12 + unat (blk_size b) \<le> unat (blk_addr (bs ! i))"
  shows "lc_chain lo cap (take i bs @ b # drop i bs)"
  using assms
proof (induction bs arbitrary: lo i)
  case (Cons c bs)
  then show ?case
  proof (cases i)
    case (Suc j)
    then show ?thesis using Cons.prems Cons.IH [of "unat (blk_addr c) + 12 + unat (blk_size c)" j]
      by (cases j) auto
  qed auto
qed auto

lemma lc_chain_delete: "lc_chain lo cap bs \<Longrightarrow> lc_chain lo cap (take i bs @ drop (Suc i) bs)"
proof (induction bs arbitrary: lo i)
  case (Cons c bs)
  then show ?case by (cases i) (auto intro: lc_chain_mono)
qed simp

lemma lc_chain_resize:
  assumes "lc_chain lo cap bs" "i < length bs" "unat (blk_addr (bs ! i)) + 12 + unat sz \<le> cap"
    and "Suc i < length bs \<longrightarrow> unat (blk_addr (bs ! i)) + 12 + unat sz \<le> unat (blk_addr (bs ! Suc i))"
  shows "lc_chain lo cap (bs[i := (bs ! i)\<lparr>blk_size := sz\<rparr>])"
  using assms
proof (induction bs arbitrary: lo i)
  case (Cons c bs)
  show ?case
  proof (cases i)
    case 0
    then show ?thesis using Cons.prems by (cases bs) auto
  next
    case (Suc j)
    then show ?thesis using Cons.IH [of _ j] Cons.prems by auto
  qed
qed simp

lemma lc_total_insert:
  "lc_count_total_size (take i bs @ b # drop i bs) = lc_count_total_size bs + blk_size b"
proof -
  have "lc_count_total_size (take i bs) + lc_count_total_size (drop i bs) = lc_count_total_size bs"
    by (simp only: lc_count_append [symmetric] append_take_drop_id)
  then show ?thesis by (simp add: lc_count_append algebra_simps)
qed

lemma lc_total_delete:
  assumes "i < length bs"
  shows "lc_count_total_size (take i bs @ drop (Suc i) bs) = lc_count_total_size bs - blk_size (bs ! i)"
  using lc_total_insert [of i "take i bs @ drop (Suc i) bs" "bs ! i"] assms
  by (simp add: id_take_nth_drop [symmetric] min_def)

lemma lc_total_resize:
  "i < length bs \<Longrightarrow> lc_count_total_size (bs[i := (bs ! i)\<lparr>blk_size := sz\<rparr>])
     = lc_count_total_size bs - (blk_size (bs ! i) - sz)"
proof (induction bs arbitrary: i)
  case (Cons c bs)
  then show ?case by (cases i) (simp_all add: algebra_simps)
qed simp

lemma lc_chain_sorted: "lc_chain lo cap bs \<Longrightarrow> sorted_wrt (\<lambda>x y. blk_addr x < blk_addr y) bs"
proof (induction bs arbitrary: lo)
  case (Cons b bs)
  then have "\<forall>y\<in>set bs. blk_addr b < blk_addr y"
    using lc_chain_lower [of _ cap bs] by (fastforce simp: word_less_unat)
  then show ?case using Cons by auto
qed simp

text \<open>On increasing addresses \<open>prev_block\<close> finds the block before the one at \<open>a\<close>, and only that one.\<close>

lemma lc_prev_block_iff:
  assumes "sorted_wrt (\<lambda>x y. blk_addr x < blk_addr y) bs" "a \<noteq> 0"
  shows "lc_prev_block bs a = Some j \<longleftrightarrow> Suc j < length bs \<and> blk_addr (bs ! Suc j) = a"
  using assms
proof (induction bs a arbitrary: j rule: lc_prev_block.induct)
  case (3 x y bs a)
  note IH = 3
  show ?case
  proof (cases "blk_addr y = a")
    case True
    have "k = 0" if k: "Suc k < length (x # y # bs)" "blk_addr ((x # y # bs) ! Suc k) = a" for k
    proof (cases k)
      case (Suc m)
      then show ?thesis using k True 3(2) nth_mem [of m bs] by fastforce
    qed simp
    then show ?thesis using True by auto
  next
    case ne: False
    have gt: "\<forall>z\<in>set (y # bs). blk_addr x < blk_addr z" using 3(2) by simp
    show ?thesis
    proof (cases "a < blk_addr x")
      case True
      then have "\<not> (Suc j < length (x # y # bs) \<and> blk_addr ((x # y # bs) ! Suc j) = a)"
        using gt nth_mem [of j "y # bs"] by fastforce
      then show ?thesis using True ne by simp
    next
      case False
      then show ?thesis using ne IH by (cases j) auto
    qed
  qed
qed auto

lemma lc_locate_iff:
  assumes "sorted_wrt (\<lambda>x y. blk_addr x < blk_addr y) bs" "a \<noteq> 0"
  shows "lc_locate bs a = Some i \<longleftrightarrow> i < length bs \<and> blk_addr (bs ! i) = a"
proof (cases "lc_prev_block bs a")
  case None
  then have n: "\<forall>j. \<not> (Suc j < length bs \<and> blk_addr (bs ! Suc j) = a)"
    using lc_prev_block_iff [OF assms] by (metis option.distinct(1))
  show ?thesis
  proof (cases i)
    case 0
    then show ?thesis using None assms(2) by (auto simp: lc_locate_def lc_head_def split: list.splits)
  next
    case (Suc k)
    then show ?thesis using None n by (auto simp: lc_locate_def)
  qed
next
  case (Some j)
  then have j: "Suc j < length bs" "blk_addr (bs ! Suc j) = a" using lc_prev_block_iff [OF assms] by auto
  have "i < length bs \<and> blk_addr (bs ! i) = a \<Longrightarrow> i = Suc j"
    using j sorted_wrt_nth_less [OF assms(1), of i "Suc j"] sorted_wrt_nth_less [OF assms(1), of "Suc j" i]
    by (cases i "Suc j" rule: linorder_cases) auto
  then show ?thesis using Some j by (auto simp: lc_locate_def)
qed


subsection \<open>The operations\<close>

lemma lc_wf_sorted: "lc_wf cap h \<Longrightarrow> sorted_wrt (\<lambda>x y. blk_addr x < blk_addr y) (hp_blocks h)"
  by (auto simp: lc_wf_def intro: lc_chain_sorted)

lemma lc_wf_insert:
  assumes "lc_wf cap h" "lc_chain (unat (hp_base h)) cap (take i (hp_blocks h) @ b # drop i (hp_blocks h))"
  shows "lc_wf cap (lc_insert h i b)"
  using assms by (simp add: lc_wf_def lc_insert_def lc_total_insert)

lemma lc_wf_remove:
  assumes "lc_wf cap h" "i < length (hp_blocks h)"
  shows "lc_wf cap (lc_remove_at h i (hp_blocks h ! i))"
  using assms by (simp add: lc_wf_def lc_remove_at_def lc_total_delete lc_chain_delete)

text \<open>The outcome of \<open>malloc\<close>: nothing but a refused request, or one new block.\<close>

definition lc_allocated :: "lcheap \<Rightarrow> usize \<Rightarrow> u32 \<Rightarrow> usize \<Rightarrow> lcheap \<Rightarrow> bool" where
  "lc_allocated h sz align p h' \<longleftrightarrow> 16 \<le> unat p \<and> 2 ^ unat align dvd unat p
     \<and> (\<exists>i \<le> length (hp_blocks h). hp_blocks h' = take i (hp_blocks h)
          @ \<lparr>blk_addr = p - HDR, blk_size = sz, blk_align = align\<rparr> # drop i (hp_blocks h))"

lemma lc_malloc_spec:
  assumes wf: "lc_wf cap h" and al: "unat align < 32"
    and room: "cap + 24 + 2 ^ unat align + unat sz < 4294967296"
    and lim: "unat (hp_limit h) \<le> cap"
    and rq: "\<forall>f l. rq = Some f \<and> f l \<longrightarrow> unat l \<le> cap"
    and m: "lc_malloc rq h sz align = (p, h')"
  shows "lc_wf cap h'" and "if p = 0 then hp_blocks h' = hp_blocks h else lc_allocated h sz align p h'"
proof -
  obtain i a where f: "lc_find sz align (lc_block_after (hp_base h) align) (hp_blocks h) = (i, a)"
    by (cases "lc_find sz align (lc_block_after (hp_base h) align) (hp_blocks h)")
  define b where "b = \<lparr>blk_addr = a, blk_size = sz, blk_align = align\<rparr>"
  have base: "unat (hp_base h) \<le> cap" "4 \<le> unat (hp_base h)"
    and ch: "lc_chain (unat (hp_base h)) cap (hp_blocks h)" using wf by (auto simp: lc_wf_def)
  have "unat (hp_base h) + 12 + 2 ^ unat align < 4294967296" using base room by linarith
  note B = lc_block_after_spec [OF al this]
  have c24: "cap + 24 + 2 ^ unat align < 4294967296" using room by linarith
  have ub: "unat (lc_block_after (hp_base h) align) < cap + 2 ^ unat align" using B(2) base by linarith
  note F = lc_find_spec [OF ch al c24 f B(1) ub B(3)]
  have lo: "unat (hp_base h) \<le> unat a"
  proof (cases i)
    case (Suc j)
    then have "j < length (hp_blocks h)" using F by simp
    then show ?thesis using F Suc lc_chain_lower [OF ch, of "hp_blocks h ! j"] by simp
  qed (use F in simp)
  have d: "unat (blk_data b) = unat a + 12"
    unfolding blk_data_def b_def using F c24 by (subst unat_add_small) simp_all
  have e: "unat (blk_data b + sz) = unat a + 12 + unat sz"
    using d F room by (subst unat_add_small) simp_all
  have pb: "blk_data b - HDR = a" by (simp add: blk_data_def b_def)
  have p0: "blk_data b \<noteq> 0" using d by (metis add_is_0 unat_0 zero_neq_numeral)
  have ins: "lc_chain (unat (hp_base h)) cap (take i (hp_blocks h) @ b # drop i (hp_blocks h))"
    if "unat a + 12 + unat sz \<le> cap"
    using that F by (intro lc_chain_insert [OF ch]) (auto simp: b_def)
  have allo: "lc_allocated h sz align (blk_data b) (lc_insert g i b)" if "hp_blocks g = hp_blocks h" for g
    using F d lo base that pb unfolding lc_allocated_def
    by (auto simp: lc_insert_def b_def blk_data_def intro!: exI [of _ i])
  have reqs: "lc_wf cap (h\<lparr>hp_requests := r\<rparr>)" for r using wf by (simp add: lc_wf_def)
  have small: "unat a + 12 < 4294967296" using F c24 by linarith
  let ?C1 = "i < length (hp_blocks h)" and ?C2 = "lc_fits_with_size a sz (hp_limit h)"
  have go: "lc_wf cap (lc_insert h i b)" if "?C1 \<or> ?C2"
  proof (rule lc_wf_insert [OF wf], rule ins)
    show "unat a + 12 + unat sz \<le> cap"
    proof (cases ?C1)
      case True
      then show ?thesis using F lc_chain_upper [OF ch nth_mem [OF True]] by linarith
    next
      case False
      then show ?thesis using that fits_unat [OF small, of sz "hp_limit h"] lim by simp
    qed
  qed
  have rqok: "lc_wf cap (lc_insert (h\<lparr>hp_requests := r\<rparr>) i b)" if "rq = Some g" "g (blk_data b + sz)" for g r
    using lc_wf_insert [OF reqs [of r], of i b] ins rq that e by auto
  show "lc_wf cap h'"
    using m go rqok reqs wf unfolding lc_malloc_def f b_def [symmetric] Let_def prod.case
    by (auto split: if_splits option.splits simp: b_def [symmetric])
  show "if p = 0 then hp_blocks h' = hp_blocks h else lc_allocated h sz align p h'"
    using m allo p0 unfolding lc_malloc_def f b_def [symmetric] Let_def prod.case
    by (auto split: if_splits option.splits simp: b_def [symmetric])
qed


lemma lc_locate_nth:
  assumes "lc_wf cap h" "i < length (hp_blocks h)"
  shows "lc_locate (hp_blocks h) (blk_addr (hp_blocks h ! i)) = Some i"
proof -
  have "4 \<le> unat (blk_addr (hp_blocks h ! i))"
    using assms lc_chain_lower [of _ cap, OF _ nth_mem [OF assms(2)]] by (fastforce simp: lc_wf_def)
  then have "blk_addr (hp_blocks h ! i) \<noteq> 0" by auto
  then show ?thesis using assms by (simp add: lc_locate_iff lc_wf_sorted)
qed

lemma lc_free_spec:
  assumes "lc_wf cap h" "i < length (hp_blocks h)"
  shows "lc_free rq h (blk_data (hp_blocks h ! i)) =
    lc_shrink rq (lc_remove_at h i (hp_blocks h ! i)) i (Suc i = length (hp_blocks h))"
  using assms lc_locate_nth [OF assms] by (simp add: lc_free_def blk_data_def)

lemma lc_shrink_spec:
  assumes "\<not> was_last \<or> rq = None \<or> (0 < i \<and> i \<le> length (hp_blocks h))"
  obtains r where "lc_shrink rq h i was_last = Inr (h\<lparr>hp_requests := r\<rparr>)"
proof -
  have "\<exists>r. lc_shrink rq h i was_last = Inr (h\<lparr>hp_requests := r\<rparr>)"
  proof (cases "was_last \<and> rq \<noteq> None")
    case True
    then have "i - 1 < length (hp_blocks h)" "i \<noteq> 0" using assms by auto
    then show ?thesis using True by (auto simp: lc_shrink_def)
  next
    case False
    then show ?thesis unfolding lc_shrink_def by (metis lcheap.surjective lcheap.update_convs(5))
  qed
  then show thesis using that by blast
qed

lemma lc_wf_requests: "lc_wf cap (h\<lparr>hp_requests := r\<rparr>) = lc_wf cap h"
  by (simp add: lc_wf_def)

lemma lc_free_removes:
  assumes "lc_wf cap h" "i < length (hp_blocks h)" "rq = None \<or> 0 < i \<or> Suc i < length (hp_blocks h)"
  obtains h' where "lc_free rq h (blk_data (hp_blocks h ! i)) = Inr h'" "lc_wf cap h'"
    "hp_blocks h' = take i (hp_blocks h) @ drop (Suc i) (hp_blocks h)"
    "hp_total h' = hp_total h - blk_size (hp_blocks h ! i)"
    "hp_base h' = hp_base h" "hp_limit h' = hp_limit h"
proof -
  let ?g = "lc_remove_at h i (hp_blocks h ! i)"
  have "\<not> (Suc i = length (hp_blocks h)) \<or> rq = None \<or> (0 < i \<and> i \<le> length (hp_blocks ?g))"
    using assms(2,3) by (auto simp: lc_remove_at_def)
  then obtain r where "lc_shrink rq ?g i (Suc i = length (hp_blocks h)) = Inr (?g\<lparr>hp_requests := r\<rparr>)"
    by (rule lc_shrink_spec)
  then have "lc_free rq h (blk_data (hp_blocks h ! i)) = Inr (?g\<lparr>hp_requests := r\<rparr>)"
    using lc_free_spec [OF assms(1,2)] by simp
  moreover have "lc_wf cap (?g\<lparr>hp_requests := r\<rparr>)"
    using lc_wf_remove [OF assms(1,2)] by (simp add: lc_wf_requests)
  ultimately show thesis by (rule that) (simp_all add: lc_remove_at_def)
qed

lemma lc_wf_apart:
  assumes "lc_wf cap h" "i < length (hp_blocks h)" "j < length (hp_blocks h)" "i \<noteq> j"
  shows "blk_apart (hp_blocks h ! i) (hp_blocks h ! j)"
proof -
  have "lc_chain (unat (hp_base h)) cap (hp_blocks h)" using assms(1) by (simp add: lc_wf_def)
  then show ?thesis using lc_chain_apart [of _ cap "hp_blocks h"] assms(2-4)
    by (cases i j rule: linorder_cases) (auto simp: blk_apart_def)
qed

lemma lc_inserted_apart:
  assumes "lc_wf cap h'" "hp_blocks h' = take i bs @ b # drop i bs" "i \<le> length bs" "c \<in> set bs"
  shows "blk_apart b c"
proof -
  obtain k where k: "k < length bs" "c = bs ! k" using assms(4) by (auto simp: in_set_conv_nth)
  have "hp_blocks h' ! (if k < i then k else Suc k) = c"
    using k assms(2,3) by (auto simp: nth_append min_def)
  moreover have "hp_blocks h' ! i = b" using assms(2,3) by (simp add: nth_append)
  ultimately show ?thesis
    using lc_wf_apart [OF assms(1), of i "if k < i then k else Suc k"] k assms(2,3)
    by (auto split: if_splits)
qed

subsection \<open>Properties\<close>


definition demo_heap :: lcheap where
  "demo_heap = \<lparr>hp_blocks = [\<lparr>blk_addr = 64, blk_size = 20, blk_align = 2\<rparr>,
       \<lparr>blk_addr = 200, blk_size = 8, blk_align = 3\<rparr>],
     hp_base = 64, hp_limit = 1024, hp_total = 28, hp_requests = []\<rparr>"

lemma demo_heap_wf: "lc_wf 4096 demo_heap"
  by (simp add: demo_heap_def lc_wf_def)


text \<open>Freeing a block of a well-formed heap removes that block and no other and gives its size
  back, whenever it has a predecessor or a successor or no resize callback is installed.\<close>

theorem free_removes_block:
  assumes "lc_wf cap h" "i < length (hp_blocks h)" "rq = None \<or> 0 < i \<or> Suc i < length (hp_blocks h)"
  shows "\<exists>h'. lc_free rq h (blk_data (hp_blocks h ! i)) = Inr h' \<and> lc_wf cap h'
    \<and> hp_blocks h' = take i (hp_blocks h) @ drop (Suc i) (hp_blocks h)
    \<and> hp_total h' = hp_total h - blk_size (hp_blocks h ! i)"
  using lc_free_removes [OF assms] by metis

theorem free_removes_block_witness:
  "\<exists>h'. lc_free None demo_heap 212 = Inr h' \<and> hp_blocks h' = [\<lparr>blk_addr = 64, blk_size = 20, blk_align = 2\<rparr>]"
  using free_removes_block [OF demo_heap_wf, of 1 None] by (auto simp: demo_heap_def blk_data_def)

text \<open>With a resize callback installed, freeing the only block of a heap dereferences the null
  predecessor: the kernel heap cannot be emptied.\<close>

theorem free_only_block_faults:
  assumes "lc_wf cap h" "hp_blocks h = [b]" "rq \<noteq> None"
  shows "lc_free rq h (blk_data b) = Inl Fault"
proof -
  have "lc_free rq h (blk_data (hp_blocks h ! 0)) = lc_shrink rq (lc_remove_at h 0 b) 0 True"
    using lc_free_spec [OF assms(1), of 0 rq] assms(2) by simp
  then show ?thesis using assms(2,3) by (simp add: lc_shrink_def)
qed

theorem free_only_block_faults_witness:
  "lc_free (Some (\<lambda>_. True)) \<lparr>hp_blocks = [\<lparr>blk_addr = 64, blk_size = 20, blk_align = 2\<rparr>],
     hp_base = 64, hp_limit = 1024, hp_total = 20, hp_requests = []\<rparr> 76 = Inl Fault"
  using free_only_block_faults [of 4096 "\<lparr>hp_blocks = [\<lparr>blk_addr = 64, blk_size = 20, blk_align = 2\<rparr>],
     hp_base = 64, hp_limit = 1024, hp_total = 20, hp_requests = []\<rparr>"
     "\<lparr>blk_addr = 64, blk_size = 20, blk_align = 2\<rparr>" "Some (\<lambda>_. True)"]
  by (simp add: lc_wf_def blk_data_def)

text \<open>\<open>malloc\<close> followed by \<open>free\<close> of the pointer restores the block list and the size counter.\<close>

theorem free_undoes_malloc:
  assumes "lc_wf cap h" "unat align < 32" "cap + 24 + 2 ^ unat align + unat sz < 4294967296"
    and "unat (hp_limit h) \<le> cap" "\<forall>f l. rq = Some f \<and> f l \<longrightarrow> unat l \<le> cap"
    and "lc_malloc rq h sz align = (p, h')" "p \<noteq> 0" "hp_blocks h \<noteq> []"
  shows "\<exists>h''. lc_free rq h' p = Inr h'' \<and> hp_blocks h'' = hp_blocks h \<and> hp_total h'' = hp_total h"
proof -
  note S = lc_malloc_spec [OF assms(1-6)]
  obtain i where i: "i \<le> length (hp_blocks h)" "hp_blocks h' = take i (hp_blocks h)
      @ \<lparr>blk_addr = p - HDR, blk_size = sz, blk_align = align\<rparr> # drop i (hp_blocks h)"
    using S(2) assms(7) by (auto simp: lc_allocated_def)
  let ?b = "\<lparr>blk_addr = p - HDR, blk_size = sz, blk_align = align\<rparr>"
  have n: "hp_blocks h' ! i = ?b" "i < length (hp_blocks h')" "blk_data ?b = p"
    using i by (simp_all add: nth_append blk_data_def)
  have nontriv: "rq = None \<or> 0 < i \<or> Suc i < length (hp_blocks h')" using i assms(8) by auto
  obtain h'' where h'': "lc_free rq h' p = Inr h''" "lc_wf cap h''"
    "hp_blocks h'' = take i (hp_blocks h') @ drop (Suc i) (hp_blocks h')"
    using lc_free_removes [OF S(1) n(2) nontriv] n by metis
  have "hp_blocks h'' = hp_blocks h" using h''(3) i by simp
  moreover have "hp_total h'' = hp_total h" using h''(2) assms(1) calculation by (simp add: lc_wf_def)
  ultimately show ?thesis using h''(1) by blast
qed

theorem free_undoes_malloc_witness:
  "\<exists>h''. lc_free None (snd (lc_malloc None demo_heap 30 4)) 112 = Inr h'' \<and> hp_blocks h'' = hp_blocks demo_heap"
proof -
  have m: "lc_malloc None demo_heap 30 4 = (112, snd (lc_malloc None demo_heap 30 4))" by code_simp
  from free_undoes_malloc [OF demo_heap_wf _ _ _ _ m] show ?thesis by (auto simp: demo_heap_def)
qed

text \<open>\<open>get_block_size\<close> answers 0 for every pointer into a well-formed heap: its test demands that
  the block has a predecessor and is the head.\<close>

theorem get_block_size_zero:
  assumes "lc_wf cap h" "ptr \<noteq> HDR"
  shows "lc_get_block_size h ptr = Inr 0"
proof (cases "lc_prev_block (hp_blocks h) (ptr - HDR)")
  case None
  then show ?thesis by (simp add: lc_get_block_size_def)
next
  case (Some j)
  have "ptr - HDR \<noteq> 0" using assms(2) by simp
  then have j: "Suc j < length (hp_blocks h)" "blk_addr (hp_blocks h ! Suc j) = ptr - HDR"
    using lc_prev_block_iff [OF lc_wf_sorted [OF assms(1)]] Some by auto
  have "lc_head (hp_blocks h) = blk_addr (hp_blocks h ! 0)" using j(1) by (auto simp: lc_head_def split: list.splits)
  then have "lc_head (hp_blocks h) \<noteq> ptr - HDR"
    using sorted_wrt_nth_less [OF lc_wf_sorted [OF assms(1)], of 0 "Suc j"] j by auto
  then show ?thesis by (simp add: lc_get_block_size_def)
qed

theorem get_block_size_zero_witness: "lc_get_block_size demo_heap 212 = Inr 0"
  using get_block_size_zero [OF demo_heap_wf, of 212] by simp


text \<open>The outcome of \<open>realloc\<close> of block \<open>i\<close>: resized in place, moved (with the copy of the old
  bytes), or, when the new block is refused, the old block gone and null returned.\<close>

definition lc_realloc_outcome :: "lcheap \<Rightarrow> nat \<Rightarrow> usize \<Rightarrow> usize \<Rightarrow> (usize \<times> usize \<times> usize) option \<Rightarrow> lcheap \<Rightarrow> bool" where
  "lc_realloc_outcome h i sz p copied h' = (let b = hp_blocks h ! i in
     (p = blk_data b \<and> copied = None \<and> hp_blocks h' = (hp_blocks h)[i := b\<lparr>blk_size := sz\<rparr>])
     \<or> (p \<noteq> 0 \<and> copied = Some (p, blk_data b, blk_size b) \<and> lc_allocated (lc_remove_at h i b) sz (blk_align b) p h')
     \<or> (p = 0 \<and> copied = None \<and> hp_blocks h' = take i (hp_blocks h) @ drop (Suc i) (hp_blocks h)))"

text \<open>\<open>realloc\<close> of a block that is not the first one always returns, keeps the heap well formed and
  either resizes in place, or moves the block and copies the old size, or loses it and returns null
  (where the C library function keeps it).\<close>

theorem realloc_keeps_heap:
  assumes wf: "lc_wf cap h" and i: "i < length (hp_blocks h)" "0 < i"
    and al: "unat (blk_align (hp_blocks h ! i)) < 32"
    and room: "cap + 24 + 2 ^ unat (blk_align (hp_blocks h ! i)) + unat sz < 4294967296"
    and lim: "unat (hp_limit h) \<le> cap"
    and rq: "\<forall>f l. rq = Some f \<and> f l \<longrightarrow> unat l \<le> cap"
  shows "\<exists>p copied h'. lc_realloc rq h (blk_data (hp_blocks h ! i)) sz = Inr (p, copied, h')
    \<and> lc_wf cap h' \<and> lc_realloc_outcome h i sz p copied h'"
proof -
  define b where "b = hp_blocks h ! i"
  define bound where "bound = (if Suc i < length (hp_blocks h) then blk_addr (hp_blocks h ! Suc i) else hp_limit h)"
  let ?g = "lc_remove_at h i b"
  have ch: "lc_chain (unat (hp_base h)) cap (hp_blocks h)" using wf by (simp add: lc_wf_def)
  have up: "unat (blk_addr b) + 12 + unat (blk_size b) \<le> cap"
    unfolding b_def by (rule lc_chain_upper [OF ch nth_mem [OF i(1)]])
  have R: "lc_realloc rq h (blk_data b) sz = (if lc_fits_with_size (blk_addr b) sz bound then
      Inr (blk_data b, None, h\<lparr>hp_total := hp_total h - (blk_size b - sz), hp_blocks := (hp_blocks h)[i := b\<lparr>blk_size := sz\<rparr>]\<rparr>)
    else bindr (lc_shrink rq ?g i (Suc i = length (hp_blocks h))) (\<lambda>h'.
      let (nptr, h'') = lc_malloc rq h' sz (blk_align b) in
      if nptr = 0 then Inr (0, None, h'') else Inr (nptr, Some (nptr, blk_data b, blk_size b), h'')))"
    using lc_locate_nth [OF wf i(1)] i unfolding lc_realloc_def
    by (simp add: b_def [symmetric] bound_def [symmetric] blk_data_def Let_def)
  show ?thesis
  proof (cases "lc_fits_with_size (blk_addr b) sz bound")
    case True
    then have ends: "unat (blk_addr b) + 12 + unat sz \<le> unat bound" using fits_unat [of "blk_addr b" sz bound] up room by simp
    have "unat bound \<le> cap"
      using lim lc_chain_upper [OF ch nth_mem, of "Suc i"] by (auto simp: bound_def)
    then have "lc_chain (unat (hp_base h)) cap ((hp_blocks h)[i := b\<lparr>blk_size := sz\<rparr>])"
      unfolding b_def using ends by (intro lc_chain_resize [OF ch i(1)]) (auto simp: bound_def b_def split: if_splits)
    then have "lc_wf cap (h\<lparr>hp_total := hp_total h - (blk_size b - sz), hp_blocks := (hp_blocks h)[i := b\<lparr>blk_size := sz\<rparr>]\<rparr>)"
      using wf lc_total_resize [OF i(1)] by (simp add: lc_wf_def b_def)
    then show ?thesis using R True by (auto simp: lc_realloc_outcome_def b_def [symmetric] Let_def)
  next
    case False
    have "\<not> (Suc i = length (hp_blocks h)) \<or> rq = None \<or> (0 < i \<and> i \<le> length (hp_blocks ?g))"
      using i by (auto simp: lc_remove_at_def)
    then obtain r where r: "lc_shrink rq ?g i (Suc i = length (hp_blocks h)) = Inr (?g\<lparr>hp_requests := r\<rparr>)"
      by (rule lc_shrink_spec)
    obtain p h' where m: "lc_malloc rq (?g\<lparr>hp_requests := r\<rparr>) sz (blk_align b) = (p, h')" by fastforce
    have g: "lc_wf cap (?g\<lparr>hp_requests := r\<rparr>)" using lc_wf_remove [OF wf i(1)] by (simp add: lc_wf_requests b_def)
    have "unat (hp_limit (?g\<lparr>hp_requests := r\<rparr>)) \<le> cap" using lim by (simp add: lc_remove_at_def)
    note S = lc_malloc_spec [OF g al [folded b_def] room [folded b_def] this rq m]
    show ?thesis using R False r m S
      by (auto simp: lc_realloc_outcome_def b_def [symmetric] Let_def lc_remove_at_def lc_allocated_def split: if_splits)
  qed
qed

theorem realloc_keeps_heap_witness:
  "\<exists>p copied h'. lc_realloc None demo_heap 212 900 = Inr (p, copied, h') \<and> lc_wf 4096 h'"
  using realloc_keeps_heap [OF demo_heap_wf, of 1 900 None] by (auto simp: demo_heap_def blk_data_def)

end
