(* ===== verification/Chain.thy ===== *)
theory Chain
  imports Prelude
begin

text \<open>
  The intrusive circular doubly linked list \<open>DLChain\<close> (\<open>common/chain.hpp\<close>), on which the scheduler
  keeps its threads and the process manager its processes. Items are addresses, 0 is the null
  pointer; the \<open>next\<close> and \<open>prev\<close> fields of all items form the store, and following null faults.
  \<open>dl_ring\<close> relates a store to the list of the items in order; every operation is shown to
  implement its list counterpart.
\<close>

type_synonym item = nat

record dlchain =
  dl_next :: "item \<Rightarrow> item"
  dl_prev :: "item \<Rightarrow> item"
  dl_head :: item

definition dl_empty :: dlchain where
  "dl_empty = \<lparr>dl_next = (\<lambda>_. 0), dl_prev = (\<lambda>_. 0), dl_head = 0\<rparr>"

definition get_next :: "dlchain \<Rightarrow> item \<Rightarrow> item result" where
  "get_next s p = (if p = 0 then Inl Fault else Inr (dl_next s p))"

definition get_prev :: "dlchain \<Rightarrow> item \<Rightarrow> item result" where
  "get_prev s p = (if p = 0 then Inl Fault else Inr (dl_prev s p))"

definition set_next :: "item \<Rightarrow> item \<Rightarrow> dlchain \<Rightarrow> dlchain result" where
  "set_next p v s = (if p = 0 then Inl Fault else Inr (s\<lparr>dl_next := (dl_next s)(p := v)\<rparr>))"

definition set_prev :: "item \<Rightarrow> item \<Rightarrow> dlchain \<Rightarrow> dlchain result" where
  "set_prev p v s = (if p = 0 then Inl Fault else Inr (s\<lparr>dl_prev := (dl_prev s)(p := v)\<rparr>))"

definition dl_append :: "dlchain \<Rightarrow> item \<Rightarrow> dlchain result" where
  "dl_append s it = (if dl_head s = 0 then
       bindr (set_next it it (s\<lparr>dl_head := it\<rparr>)) (set_prev it it)
     else bindr (get_prev s (dl_head s)) (\<lambda>l.
       bindr (set_prev it l s) (\<lambda>s1.
       bindr (set_next it (dl_head s1) s1) (\<lambda>s2.
       bindr (get_prev s2 (dl_head s2)) (\<lambda>l2.
       bindr (set_next l2 it s2) (\<lambda>s3.
       set_prev (dl_head s3) it s3))))))"

definition dl_prepend :: "dlchain \<Rightarrow> item \<Rightarrow> dlchain result" where
  "dl_prepend s it = bindr (dl_append s it) (\<lambda>s1. Inr (s1\<lparr>dl_head := it\<rparr>))"

definition dl_insert_after :: "dlchain \<Rightarrow> item \<Rightarrow> item \<Rightarrow> dlchain result" where
  "dl_insert_after s r it =
     bindr (get_next s r) (\<lambda>n.
     bindr (set_next it n s) (\<lambda>s1.
     bindr (set_prev it r s1) (\<lambda>s2.
     bindr (get_next s2 r) (\<lambda>n2.
     bindr (set_prev n2 it s2) (\<lambda>s3.
     set_next r it s3)))))"

definition dl_insert_before :: "dlchain \<Rightarrow> item \<Rightarrow> item \<Rightarrow> dlchain result" where
  "dl_insert_before s r it = bindr (get_prev s r) (\<lambda>p.
     bindr (dl_insert_after s p it) (\<lambda>s1.
       Inr (if r = dl_head s1 then s1\<lparr>dl_head := it\<rparr> else s1)))"

definition dl_first :: "dlchain \<Rightarrow> item" where
  "dl_first s = dl_head s"

definition dl_last :: "dlchain \<Rightarrow> item result" where
  "dl_last s = (if dl_head s = 0 then Inr 0 else get_prev s (dl_head s))"

text \<open>The search loop of \<open>has\<close>, from \<open>p\<close>; the fuel bounds the steps.\<close>

fun dl_has_from :: "nat \<Rightarrow> dlchain \<Rightarrow> item \<Rightarrow> item \<Rightarrow> bool result" where
  "dl_has_from 0 s p it = Inl Hang"
| "dl_has_from (Suc k) s p it = (if p = dl_head s then Inr False
     else if p = it then Inr True
     else bindr (get_next s p) (\<lambda>n. dl_has_from k s n it))"

definition dl_has :: "nat \<Rightarrow> dlchain \<Rightarrow> item \<Rightarrow> bool result" where
  "dl_has k s it = (if dl_head s = it then Inr True
     else bindr (get_next s (dl_head s)) (\<lambda>n. dl_has_from k s n it))"

definition dl_unlink :: "dlchain \<Rightarrow> item \<Rightarrow> dlchain result" where
  "dl_unlink s it =
     bindr (get_prev s it) (\<lambda>p. bindr (get_next s it) (\<lambda>n.
     bindr (set_next p n s) (\<lambda>s1.
     bindr (get_next s1 it) (\<lambda>n1. bindr (get_prev s1 it) (\<lambda>p1.
     bindr (set_prev n1 p1 s1) (\<lambda>s2.
     bindr (get_next s2 it) (\<lambda>n2.
       let s3 = (if dl_head s2 = it then s2\<lparr>dl_head := n2\<rparr> else s2) in
       Inr (if dl_head s3 = it then s3\<lparr>dl_head := 0\<rparr> else s3))))))))"

definition dl_remove :: "nat \<Rightarrow> dlchain \<Rightarrow> item \<Rightarrow> (bool \<times> dlchain) result" where
  "dl_remove k s it = bindr (dl_has k s it) (\<lambda>h.
     if \<not> h then Inr (False, s) else bindr (dl_unlink s it) (\<lambda>s1. Inr (True, s1)))"

definition dl_after :: "dlchain \<Rightarrow> item \<Rightarrow> item result" where
  "dl_after s it = get_next s it"

definition dl_before :: "dlchain \<Rightarrow> item \<Rightarrow> item result" where
  "dl_before s it = get_prev s it"

text \<open>The iterator: a flag for the first position and the current item.\<close>

record dl_iter =
  it_first :: bool
  it_item :: item

definition dl_begin :: "dlchain \<Rightarrow> dl_iter" where
  "dl_begin s = \<lparr>it_first = True, it_item = dl_head s\<rparr>"

definition dl_end :: "dlchain \<Rightarrow> dl_iter" where
  "dl_end s = (if dl_head s \<noteq> 0 then \<lparr>it_first = False, it_item = dl_head s\<rparr>
     else \<lparr>it_first = True, it_item = 0\<rparr>)"

definition dl_step :: "dlchain \<Rightarrow> dl_iter \<Rightarrow> dl_iter" where
  "dl_step s i = \<lparr>it_first = False, it_item = (if it_item i \<noteq> 0 then dl_next s (it_item i) else it_item i)\<rparr>"

text \<open>The items a range-based \<open>for\<close> over the chain visits, from iterator \<open>i\<close>.\<close>

fun dl_visit :: "nat \<Rightarrow> dlchain \<Rightarrow> dl_iter \<Rightarrow> item list result" where
  "dl_visit 0 s i = Inl Hang"
| "dl_visit (Suc k) s i = (if i = dl_end s then Inr []
     else bindr (dl_visit k s (dl_step s i)) (\<lambda>xs. Inr (it_item i # xs)))"

subsection \<open>Rings\<close>

text \<open>\<open>dl_path s xs\<close>: consecutive items of \<open>xs\<close> point to each other in both directions.\<close>

fun dl_path :: "dlchain \<Rightarrow> item list \<Rightarrow> bool" where
  "dl_path s (a # b # xs) = (dl_next s a = b \<and> dl_prev s b = a \<and> dl_path s (b # xs))"
| "dl_path s _ = True"

definition dl_cycle :: "dlchain \<Rightarrow> item list \<Rightarrow> bool" where
  "dl_cycle s xs = dl_path s (xs @ take 1 xs)"

definition dl_ring :: "dlchain \<Rightarrow> item list \<Rightarrow> bool" where
  "dl_ring s xs \<longleftrightarrow> dl_head s = (if xs = [] then 0 else hd xs) \<and> distinct xs \<and> 0 \<notin> set xs \<and> dl_cycle s xs"

lemma dl_path_append: "dl_path s (us @ m # vs) \<longleftrightarrow> dl_path s (us @ [m]) \<and> dl_path s (m # vs)"
proof (induction us)
  case (Cons u us)
  then show ?case by (cases us) auto
qed simp

lemma dl_path_cong:
  "\<lbrakk>\<forall>a \<in> set (butlast xs). dl_next t a = dl_next s a; \<forall>b \<in> set (tl xs). dl_prev t b = dl_prev s b\<rbrakk>
    \<Longrightarrow> dl_path t xs = dl_path s xs"
proof (induction s xs rule: dl_path.induct)
  case (1 s a b xs)
  then show ?case by (cases xs) auto
qed auto

lemma dl_path_head [simp]: "dl_path (s\<lparr>dl_head := h\<rparr>) xs = dl_path s xs"
  by (induction s xs rule: dl_path.induct) auto

lemma dl_cycle_head [simp]: "dl_cycle (s\<lparr>dl_head := h\<rparr>) xs = dl_cycle s xs"
  by (simp add: dl_cycle_def)

lemma dl_cycle_nonempty: "dl_cycle s (x # xs) \<longleftrightarrow> dl_path s (x # xs @ [x])"
  by (simp add: dl_cycle_def)

lemma dl_cycle_snoc:
  assumes "xs = us @ [l]"
  shows "dl_cycle s xs \<longleftrightarrow> dl_path s (us @ [l]) \<and> dl_next s l = hd xs \<and> dl_prev s (hd xs) = l"
proof -
  have "xs @ take 1 xs = us @ l # [hd xs]" using assms by (cases us) auto
  then show ?thesis by (simp add: dl_cycle_def dl_path_append [of s us l "[hd xs]"])
qed

lemma dl_cycle_rotate: "dl_cycle s (us @ vs) = dl_cycle s (vs @ us)"
proof (cases us)
  case (Cons u us')
  show ?thesis
  proof (cases vs)
    case (Cons v vs')
    have "dl_path s (u # us' @ v # vs' @ [u]) \<longleftrightarrow> dl_path s (u # us' @ [v]) \<and> dl_path s (v # vs' @ [u])"
      using dl_path_append [of s "u # us'" v "vs' @ [u]"] by simp
    moreover have "dl_path s (v # vs' @ u # us' @ [v]) \<longleftrightarrow> dl_path s (v # vs' @ [u]) \<and> dl_path s (u # us' @ [v])"
      using dl_path_append [of s "v # vs'" u "us' @ [v]"] by simp
    ultimately show ?thesis using Cons \<open>us = u # us'\<close> by (auto simp: dl_cycle_def)
  qed simp
qed simp

text \<open>Linking an item in between the last and the first item of a cycle, and unlinking the first.\<close>

lemma dl_cycle_link:
  assumes "dl_cycle s (y # ys)" "distinct (y # ys)" "it \<notin> set (y # ys)" "l = last (y # ys)"
    and "dl_next t = (dl_next s)(it := y, l := it)" "dl_prev t = (dl_prev s)(it := l, y := it)"
  shows "dl_cycle t ((y # ys) @ [it])"
proof -
  obtain us where us: "y # ys = us @ [l]" using assms(4) by (metis append_butlast_last_id list.discI)
  have p: "dl_path s (us @ [l])" using assms(1) dl_cycle_snoc [OF us] by blast
  have d: "distinct (us @ [l])" "it \<notin> set (us @ [l])" using assms(2,3) us by metis+
  have tl: "y \<notin> set (tl (us @ [l]))" "it \<notin> set (tl (us @ [l]))"
    using assms(2,3) by (simp_all add: us [symmetric])
  have "dl_path t (us @ [l]) = dl_path s (us @ [l])"
    using d tl assms(5,6) by (intro dl_path_cong) auto
  moreover have "y \<noteq> it" "l \<noteq> it" using assms(3) d by auto
  ultimately have "dl_path t ((us @ [l]) @ [it])"
    using p assms(5,6) dl_path_append [of t us l "[it]"] by simp
  moreover have "dl_next t it = y" "dl_prev t y = it" using assms(5,6) \<open>l \<noteq> it\<close> by simp_all
  ultimately show ?thesis by (subst dl_cycle_snoc [of _ "us @ [l]" it]) (simp_all add: us [symmetric])
qed

lemma dl_cycle_unlink:
  assumes "dl_cycle s (it # ys)" "distinct (it # ys)" "ys \<noteq> []"
    and "dl_next t = (dl_next s)(dl_prev s it := dl_next s it)"
    and "dl_prev t = (dl_prev s)(dl_next s it := dl_prev s it)"
  shows "dl_cycle t ys" and "dl_next s it = hd ys" and "dl_prev s it = last ys"
proof -
  obtain us l where us: "ys = us @ [l]" using assms(3) by (metis rev_exhaust)
  have n: "dl_next s it = hd ys" using assms(1,3) by (cases ys) (auto simp: dl_cycle_def)
  have "dl_path s ((it # us) @ l # [it])" using assms(1) us by (simp add: dl_cycle_def)
  then have p: "dl_path s (it # us @ [l])" "dl_path s [l, it]"
    using dl_path_append [of s "it # us" l "[it]"] by simp_all
  then have l: "dl_prev s it = l" by simp
  have "dl_path s (us @ [l])" using p(1) by (cases us) auto
  moreover have "l \<notin> set us" using assms(2) us by simp
  moreover have "hd ys \<notin> set (tl ys)" using assms(2,3) by (cases ys) auto
  ultimately have "dl_path t (us @ [l])"
    using assms(4,5) n l us by (subst dl_path_cong [of _ _ s]) auto
  moreover have "dl_path t [l, hd ys]" using assms(4,5) n l by simp
  ultimately have "dl_path t (us @ l # [hd ys])" by (subst dl_path_append) blast
  moreover have "take 1 ys = [hd ys]" using assms(3) by (cases ys) auto
  ultimately show "dl_cycle t ys" using us by (simp add: dl_cycle_def)
  show "dl_next s it = hd ys" "dl_prev s it = last ys" using n l us by simp_all
qed


lemma dl_ring_head: "dl_ring s (x # xs) \<Longrightarrow> dl_head s = x \<and> x \<noteq> 0"
  by (auto simp: dl_ring_def)

lemma dl_ring_last:
  assumes "dl_ring s (x # xs)" shows "dl_prev s x = last (x # xs)"
  using assms dl_cycle_snoc [of "x # xs" "butlast (x # xs)" "last (x # xs)" s]
  by (simp add: dl_ring_def append_butlast_last_id del: butlast.simps last.simps)

subsection \<open>The operations implement their list counterparts\<close>

lemma dl_append_ring:
  assumes "dl_ring s xs" "it \<noteq> 0" "it \<notin> set xs"
  obtains t where "dl_append s it = Inr t" "dl_ring t (xs @ [it])"
    "\<forall>q. q \<notin> insert it (set xs) \<longrightarrow> dl_next t q = dl_next s q \<and> dl_prev t q = dl_prev s q"
proof (cases xs)
  case Nil
  then have h: "dl_head s = 0" using assms(1) by (simp add: dl_ring_def)
  have "dl_append s it = Inr (s\<lparr>dl_head := it, dl_next := (dl_next s)(it := it), dl_prev := (dl_prev s)(it := it)\<rparr>)"
    using h assms(2) by (simp add: dl_append_def set_next_def set_prev_def)
  then show thesis by (rule that) (use Nil assms(2) in \<open>auto simp: dl_ring_def dl_cycle_def\<close>)
next
  case (Cons y ys)
  note h = dl_ring_head [OF assms(1) [unfolded Cons]] and l = dl_ring_last [OF assms(1) [unfolded Cons]]
  define z where "z = last (y # ys)"
  have zs: "z \<in> set xs" "y \<in> set xs" unfolding z_def Cons by (rule last_in_set, simp) simp
  then have z: "z \<in> set xs" "z \<noteq> 0" "z \<noteq> it" "y \<noteq> it"
    using assms unfolding dl_ring_def by metis+
  define t where "t = s\<lparr>dl_prev := ((dl_prev s)(it := z))(y := it), dl_next := ((dl_next s)(it := y))(z := it)\<rparr>"
  have "dl_append s it = Inr t"
    using h l z assms(2) z_def
    by (simp add: dl_append_def get_prev_def set_next_def set_prev_def t_def)
  moreover have "dl_cycle t ((y # ys) @ [it])"
    using assms Cons unfolding dl_ring_def
    by (intro dl_cycle_link [OF _ _ _ z_def, of s]) (auto simp: t_def)
  then have "dl_ring t (xs @ [it])" using assms h Cons by (auto simp: dl_ring_def t_def)
  moreover have "\<forall>q. q \<notin> insert it (set xs) \<longrightarrow> dl_next t q = dl_next s q \<and> dl_prev t q = dl_prev s q"
    using z(1) Cons by (auto simp: t_def)
  ultimately show thesis by (rule that)
qed

lemma dl_prepend_ring:
  assumes "dl_ring s xs" "it \<noteq> 0" "it \<notin> set xs"
  obtains t where "dl_prepend s it = Inr t" "dl_ring t (it # xs)"
proof -
  obtain t where t: "dl_append s it = Inr t" "dl_ring t (xs @ [it])" using dl_append_ring [OF assms] by metis
  have "dl_ring (t\<lparr>dl_head := it\<rparr>) (it # xs)"
    using t(2) assms(2,3) dl_cycle_rotate [of t xs "[it]"] by (auto simp: dl_ring_def)
  then show thesis using t(1) by (intro that) (simp_all add: dl_prepend_def)
qed

lemma dl_insert_after_ring:
  assumes "dl_ring s (us @ r # vs)" "it \<noteq> 0" "it \<notin> set (us @ r # vs)"
  obtains t where "dl_insert_after s r it = Inr t" "dl_ring t (us @ r # it # vs)" "dl_head t = dl_head s"
proof -
  define y ys where "y = hd (vs @ us @ [r])" and "ys = tl (vs @ us @ [r])"
  have yys: "y # ys = vs @ us @ [r]" by (simp add: y_def ys_def)
  have set: "set (y # ys) = set (us @ r # vs)" "last (y # ys) = r" "distinct (y # ys)"
    unfolding yys using assms(1) by (auto simp: dl_ring_def)
  have cyc: "dl_cycle s (y # ys)"
    using assms(1) dl_cycle_rotate [of s "us @ [r]" vs] by (simp add: dl_ring_def yys)
  have z: "r \<noteq> 0" "y \<noteq> 0" "r \<noteq> it" "y \<noteq> it" "it \<notin> set (y # ys)"
    using assms set(1) list.set_intros(1) [of y ys] unfolding dl_ring_def by (auto simp del: list.set_intros)
  have ry: "dl_next s r = y"
  proof -
    have yy: "y # ys = (vs @ us) @ [r]" by (simp add: yys)
    show ?thesis using cyc dl_cycle_snoc [OF yy, of s] by (simp only: list.sel(1))
  qed
  define t where "t = s\<lparr>dl_next := ((dl_next s)(it := y))(r := it), dl_prev := ((dl_prev s)(it := r))(y := it)\<rparr>"
  have "dl_insert_after s r it = Inr t"
    using z ry assms(2) by (simp add: dl_insert_after_def get_next_def set_next_def set_prev_def t_def)
  moreover have "dl_cycle t ((y # ys) @ [it])"
    by (rule dl_cycle_link [OF cyc set(3) z(5) set(2) [symmetric]]) (simp_all add: t_def)
  then have "dl_cycle t (us @ r # it # vs)"
    using dl_cycle_rotate [of t vs "us @ [r, it]"] by (simp add: yys)
  then have "dl_ring t (us @ r # it # vs)"
    using assms by (cases us) (auto simp: dl_ring_def t_def)
  ultimately show thesis by (rule that) (simp add: t_def)
qed

lemma dl_insert_before_ring:
  assumes "dl_ring s (us @ r # vs)" "it \<noteq> 0" "it \<notin> set (us @ r # vs)"
  obtains t where "dl_insert_before s r it = Inr t" "dl_ring t (us @ it # r # vs)"
proof -
  have r0: "r \<noteq> 0" using assms(1) by (auto simp: dl_ring_def)
  show thesis
  proof (cases us rule: rev_cases)
    case Nil
    then have R: "dl_ring s (r # vs)" using assms(1) by simp
    obtain ws l where ws: "r # vs = ws @ [l]" by (metis rev_exhaust list.discI)
    then have l: "dl_prev s r = l" using dl_ring_last [OF R] by simp
    obtain t where t: "dl_insert_after s l it = Inr t" "dl_ring t (ws @ l # [it])" "dl_head t = dl_head s"
      using dl_insert_after_ring [of s ws l "[]" it] R ws assms Nil by auto
    have "dl_ring (t\<lparr>dl_head := it\<rparr>) (it # r # vs)"
      using t(2) dl_cycle_rotate [of t "ws @ [l]" "[it]"] assms(2) ws by (auto simp: dl_ring_def)
    then show thesis using t l r0 Nil dl_ring_head [OF R]
      by (intro that) (simp_all add: dl_insert_before_def get_prev_def)
  next
    case (snoc ws l)
    obtain x xs where x: "us = x # xs" using snoc by (metis append_is_Nil_conv list.exhaust list.discI)
    have "dl_path s ((us @ r # vs) @ [x])" using assms(1) x by (simp add: dl_ring_def dl_cycle_def)
    then have "dl_path s (ws @ l # r # vs @ [x])" using snoc by simp
    then have l: "dl_prev s r = l" using dl_path_append [of s ws l "r # vs @ [x]"] by simp
    obtain t where t: "dl_insert_after s l it = Inr t" "dl_ring t (ws @ l # it # r # vs)" "dl_head t = dl_head s"
      using dl_insert_after_ring [of s ws l "r # vs" it] assms snoc by auto
    have "r \<noteq> dl_head t" using t(3) assms(1) x by (auto simp: dl_ring_def)
    then show thesis using t l r0 snoc by (intro that) (simp_all add: dl_insert_before_def get_prev_def)
  qed
qed


lemma dl_has_from_spec:
  "\<lbrakk>dl_path s (ys @ [dl_head s]); dl_head s \<notin> set ys; 0 \<notin> set ys; length ys < k\<rbrakk>
    \<Longrightarrow> dl_has_from k s (hd (ys @ [dl_head s])) it = Inr (it \<in> set ys)"
proof (induction ys arbitrary: k)
  case Nil
  then show ?case by (cases k) auto
next
  case (Cons y ys)
  then obtain j where j: "k = Suc j" by (cases k) auto
  have "dl_path s (ys @ [dl_head s]) \<and> dl_next s y = hd (ys @ [dl_head s])"
    using Cons.prems(1) by (cases ys) auto
  then show ?case using Cons j by (auto simp: get_next_def)
qed

lemma dl_has_ring:
  assumes "dl_ring s xs" "xs \<noteq> []" "length xs \<le> k"
  shows "dl_has k s it = Inr (it \<in> set xs)"
proof -
  obtain x ys where xs: "xs = x # ys" using assms(2) by (cases xs) auto
  note h = dl_ring_head [OF assms(1) [unfolded xs]]
  have p: "dl_path s (x # ys @ [x])" using assms(1) xs by (simp add: dl_ring_def dl_cycle_def)
  then have "dl_path s (ys @ [x])" "dl_next s x = hd (ys @ [x])" by (cases ys; simp)+
  then show ?thesis
    using dl_has_from_spec [of s ys k it] h assms xs by (auto simp: dl_has_def get_next_def dl_ring_def)
qed

lemma dl_unlink_ring:
  assumes "dl_ring s (us @ it # vs)"
  obtains t where "dl_unlink s it = Inr t" "dl_ring t (us @ vs)"
proof -
  have d: "distinct (it # vs @ us)" "0 \<notin> set (us @ it # vs)" "it \<noteq> 0" using assms by (auto simp: dl_ring_def)
  have cyc: "dl_cycle s (it # vs @ us)"
    using assms dl_cycle_rotate [of s us "it # vs"] by (simp add: dl_ring_def)
  let ?p = "dl_prev s it" and ?n = "dl_next s it"
  define t0 where "t0 = s\<lparr>dl_next := (dl_next s)(?p := ?n), dl_prev := (dl_prev s)(?n := ?p)\<rparr>"
  show thesis
  proof (cases "vs @ us = []")
    case True
    then have "?p = it" "?n = it" "dl_head s = it" using cyc assms by (auto simp: dl_cycle_def dl_ring_def)
    then have "dl_unlink s it = Inr (t0\<lparr>dl_head := 0\<rparr>)"
      using d(3) by (simp add: dl_unlink_def get_prev_def get_next_def set_next_def set_prev_def t0_def)
    then show thesis by (rule that) (use True in \<open>simp add: dl_ring_def dl_cycle_def\<close>)
  next
    case False
    note U = dl_cycle_unlink [OF cyc d(1) False, of t0]
    have n: "?n = hd (vs @ us)" "?p = last (vs @ us)" "dl_cycle t0 (vs @ us)" using U by (simp_all add: t0_def)
    have in_vs: "?n \<in> set (vs @ us)" "?p \<in> set (vs @ us)" using n False by (metis hd_in_set, metis last_in_set)
    then have ne: "?n \<noteq> 0" "?p \<noteq> 0" "?n \<noteq> it" "?p \<noteq> it" using d by auto
    define h where "h = (if dl_head s = it then ?n else dl_head s)"
    have hd: "dl_unlink s it = Inr (t0\<lparr>dl_head := h\<rparr>)"
      using d(3) ne by (simp add: dl_unlink_def get_prev_def get_next_def set_next_def set_prev_def t0_def h_def)
    have "dl_cycle t0 (us @ vs)" using n(3) dl_cycle_rotate [of t0 us vs] by simp
    moreover have "h = hd (us @ vs)" using assms n(1) d(1) by (cases us) (auto simp: h_def dl_ring_def)
    ultimately have "dl_ring (t0\<lparr>dl_head := h\<rparr>) (us @ vs)"
      using d False by (auto simp: dl_ring_def)
    then show thesis using hd that by blast
  qed
qed

lemma dl_remove_ring:
  assumes "dl_ring s xs" "xs \<noteq> []" "length xs \<le> k"
  obtains t where "dl_remove k s it = Inr (it \<in> set xs, t)" "dl_ring t (remove1 it xs)"
proof (cases "it \<in> set xs")
  case True
  then obtain us vs where xs: "xs = us @ it # vs" by (metis split_list)
  then have "it \<notin> set us" using assms(1) by (auto simp: dl_ring_def)
  obtain t where "dl_unlink s it = Inr t" "dl_ring t (us @ vs)"
    using dl_unlink_ring [OF assms(1) [unfolded xs]] by blast
  then show thesis using True dl_has_ring [OF assms] xs \<open>it \<notin> set us\<close>
    by (intro that) (simp_all add: dl_remove_def remove1_append)
next
  case False
  then show thesis using dl_has_ring [OF assms] assms(1)
    by (intro that) (simp_all add: dl_remove_def remove1_idem)
qed

lemma dl_visit_spec:
  "\<lbrakk>dl_path s (ys @ [dl_head s]); dl_head s \<notin> set ys; 0 \<notin> set ys; dl_head s \<noteq> 0; length ys < k\<rbrakk>
    \<Longrightarrow> dl_visit k s \<lparr>it_first = False, it_item = hd (ys @ [dl_head s])\<rparr> = Inr ys"
proof (induction ys arbitrary: k)
  case Nil
  then show ?case by (cases k) (auto simp: dl_end_def)
next
  case (Cons y ys)
  then obtain j where j: "k = Suc j" by (cases k) auto
  have "dl_path s (ys @ [dl_head s]) \<and> dl_next s y = hd (ys @ [dl_head s])"
    using Cons.prems(1) by (cases ys) auto
  then show ?case using Cons j by (auto simp: dl_end_def dl_step_def)
qed

lemma dl_visit_ring:
  assumes "dl_ring s xs" "length xs < k"
  shows "dl_visit k s (dl_begin s) = Inr xs"
proof (cases xs)
  case Nil
  then show ?thesis using assms by (cases k) (auto simp: dl_begin_def dl_end_def dl_ring_def)
next
  case (Cons x ys)
  obtain j where j: "k = Suc j" using assms(2) by (cases k) auto
  note h = dl_ring_head [OF assms(1) [unfolded Cons]]
  have p: "dl_path s (x # ys @ [x])" using assms(1) Cons by (simp add: dl_ring_def dl_cycle_def)
  then have "dl_path s (ys @ [x])" "dl_next s x = hd (ys @ [x])" by (cases ys; simp)+
  then show ?thesis
    using dl_visit_spec [of s ys j] h assms Cons j
    by (auto simp: dl_begin_def dl_end_def dl_step_def dl_ring_def)
qed


subsection \<open>The interface of an ordered collection\<close>

text \<open>What the scheduler and the process manager rely on: adding appends, removing takes the item
  out and says whether it was there, iterating lists the items in order.\<close>

locale item_queue =
  fixes rep :: "'s \<Rightarrow> 'a list \<Rightarrow> bool"
    and valid :: "'a \<Rightarrow> bool"
    and add :: "'s \<Rightarrow> 'a \<Rightarrow> 's result"
    and rem :: "nat \<Rightarrow> 's \<Rightarrow> 'a \<Rightarrow> (bool \<times> 's) result"
    and items :: "nat \<Rightarrow> 's \<Rightarrow> 'a list result"
  assumes add_rep: "rep s xs \<Longrightarrow> valid x \<Longrightarrow> x \<notin> set xs \<Longrightarrow> \<exists>t. add s x = Inr t \<and> rep t (xs @ [x])"
    and rem_rep: "rep s xs \<Longrightarrow> xs \<noteq> [] \<Longrightarrow> length xs \<le> k \<Longrightarrow>
      \<exists>t. rem k s x = Inr (x \<in> set xs, t) \<and> rep t (remove1 x xs)"
    and items_rep: "rep s xs \<Longrightarrow> length xs < k \<Longrightarrow> items k s = Inr xs"
begin

lemma add_all:
  "rep s ys \<Longrightarrow> distinct (ys @ xs) \<Longrightarrow> list_all valid xs \<Longrightarrow> \<exists>t. run_all add s xs = Inr t \<and> rep t (ys @ xs)"
proof (induction xs arbitrary: s ys)
  case (Cons x xs)
  then obtain t where t: "add s x = Inr t" "rep t (ys @ [x])" using add_rep [of s ys x] by auto
  then show ?case using Cons.IH [of t "ys @ [x]"] Cons.prems by auto
qed auto

lemma add_all_items:
  assumes "rep s []" "distinct xs" "list_all valid xs"
  shows "\<exists>t. run_all add s xs = Inr t \<and> rep t xs \<and> items (Suc (length xs)) t = Inr xs"
  using add_all [of s "[]" xs] assms items_rep by fastforce

lemma rem_items:
  assumes "rep s xs" "xs \<noteq> []" "length xs \<le> k"
  shows "\<exists>t. rem k s x = Inr (x \<in> set xs, t) \<and> rep t (remove1 x xs) \<and> items (Suc k) t = Inr (remove1 x xs)"
  using rem_rep [OF assms, of x] items_rep [of _ "remove1 x xs" "Suc k"] assms(3) length_remove1 [of x xs]
  by (metis diff_le_self le_imp_less_Suc le_trans)

text \<open>Moving the first item to the back, the step of a round-robin queue.\<close>

lemma requeue_first:
  assumes "rep s (x # xs)" "valid x" "x \<notin> set xs" "Suc (length xs) \<le> k"
  shows "\<exists>t u. rem k s x = Inr (True, t) \<and> add t x = Inr u \<and> rep u (xs @ [x])"
  using rem_rep [OF assms(1) _, of k x] assms add_rep [of _ xs x] by auto

end

interpretation ring: item_queue dl_ring "\<lambda>p. p \<noteq> 0" dl_append dl_remove "\<lambda>k s. dl_visit k s (dl_begin s)"
proof unfold_locales
  fix s xs x assume "dl_ring s xs" "x \<noteq> 0" "x \<notin> set xs"
  then show "\<exists>t. dl_append s x = Inr t \<and> dl_ring t (xs @ [x])" by (rule dl_append_ring) blast
next
  fix s xs k x assume "dl_ring s xs" "xs \<noteq> []" "length xs \<le> k"
  then show "\<exists>t. dl_remove k s x = Inr (x \<in> set xs, t) \<and> dl_ring t (remove1 x xs)"
    by (rule dl_remove_ring) blast
qed (rule dl_visit_ring)

lemma dl_ring_empty: "dl_ring dl_empty []"
  by (simp add: dl_ring_def dl_empty_def dl_cycle_def)

subsection \<open>Properties\<close>

text \<open>Appending distinct items to an empty chain builds a ring of them: every append returns and
  iterating from \<open>begin\<close> to \<open>end\<close> visits each item once, in the order of the appends.\<close>

theorem chain_visits_in_order:
  assumes "distinct xs" "0 \<notin> set xs"
  shows "\<exists>t. run_all dl_append dl_empty xs = Inr t \<and> dl_visit (Suc (length xs)) t (dl_begin t) = Inr xs"
proof -
  have "list_all (\<lambda>p. p \<noteq> 0) xs" using assms(2) by (auto simp: list_all_iff intro!: gr0I)
  from ring.add_all_items [OF dl_ring_empty assms(1) this] show ?thesis by blast
qed

theorem chain_visits_in_order_witness:
  "\<exists>t. run_all dl_append dl_empty [40, 16, 96] = Inr t \<and> dl_visit 4 t (dl_begin t) = Inr [40, 16, 96]"
  using chain_visits_in_order [of "[40, 16, 96]"] by (simp add: numeral_eq_Suc)

text \<open>Inserting before or after an item of a chain puts the new item there, \<open>prepend\<close> puts it
  first, and nothing else moves.\<close>

theorem chain_inserts:
  assumes "dl_ring s (us @ r # vs)" "it \<noteq> 0" "it \<notin> set (us @ r # vs)"
  shows "(\<exists>t. dl_insert_after s r it = Inr t \<and> dl_ring t (us @ r # it # vs))
    \<and> (\<exists>t. dl_insert_before s r it = Inr t \<and> dl_ring t (us @ it # r # vs))
    \<and> (\<exists>t. dl_prepend s it = Inr t \<and> dl_ring t (it # us @ r # vs))"
  using dl_insert_after_ring [OF assms] dl_insert_before_ring [OF assms] dl_prepend_ring [OF assms] by metis

definition demo_chain :: dlchain where
  "demo_chain = \<lparr>dl_next = (\<lambda>p. if p = 8 then 16 else if p = 16 then 8 else 0),
     dl_prev = (\<lambda>p. if p = 8 then 16 else if p = 16 then 8 else 0), dl_head = 8\<rparr>"

lemma demo_chain_ring: "dl_ring demo_chain [8, 16]"
  by (simp add: dl_ring_def dl_cycle_def demo_chain_def)

theorem chain_inserts_witness: "\<exists>t. dl_insert_before demo_chain 8 24 = Inr t \<and> dl_ring t [24, 8, 16]"
  using chain_inserts [of demo_chain "[]" 8 "[16]" 24] demo_chain_ring by simp

text \<open>Removing from a non-empty chain says whether the item was there and leaves the other items in
  order, the head moving on when it is the one removed.\<close>

theorem chain_remove_takes_out:
  assumes "dl_ring s xs" "xs \<noteq> []" "length xs \<le> k"
  shows "\<exists>t. dl_remove k s it = Inr (it \<in> set xs, t) \<and> dl_ring t (remove1 it xs)
    \<and> dl_visit (Suc k) t (dl_begin t) = Inr (remove1 it xs)"
  by (rule ring.rem_items [OF assms])

theorem chain_remove_takes_out_witness:
  "\<exists>t. dl_remove 2 demo_chain 8 = Inr (True, t) \<and> dl_ring t [16]"
  using chain_remove_takes_out [OF demo_chain_ring, of 2 8] by auto

text \<open>On an empty chain \<open>has\<close> and \<open>remove\<close> follow the null head.\<close>

theorem chain_empty_remove_faults:
  assumes "dl_head s = 0" "it \<noteq> 0"
  shows "dl_remove k s it = Inl Fault"
  using assms by (simp add: dl_remove_def dl_has_def get_next_def)

theorem chain_empty_remove_faults_witness: "dl_remove 5 dl_empty 8 = Inl Fault"
  using chain_empty_remove_faults [of dl_empty 8 5] by (simp add: dl_empty_def)

end
