(* ===== verification/Scheduler.thy ===== *)
theory Scheduler
  imports Chain
begin

text \<open>
  Threads and the round-robin scheduler (\<open>kernel/src/proc/thread.cpp\<close>, \<open>thread.hpp\<close>). Thread
  objects live in a store from addresses to records, deleted threads are absent from it; the ring of
  threads is the \<open>DLChain\<close> of theory \<open>Chain\<close>. Signals, address spaces and processes are addresses.
  The state of the CPU, read from the interrupted thread's stack by the architecture code, is the
  parameter \<open>regs_at\<close>. \<open>run\<close> does not return in C++: its result here says which thread it resumes
  (\<open>Some\<close>) or that it idles (\<open>None\<close>).
\<close>

record cpu_state =
  cpu_regs :: "usize list"
  cpu_temp :: usize

definition cpu_a :: "cpu_state \<Rightarrow> usize" where "cpu_a c = cpu_regs c ! 0"
definition cpu_b :: "cpu_state \<Rightarrow> usize" where "cpu_b c = cpu_regs c ! 3"
definition cpu_c :: "cpu_state \<Rightarrow> usize" where "cpu_c c = cpu_regs c ! 1"
definition cpu_d :: "cpu_state \<Rightarrow> usize" where "cpu_d c = cpu_regs c ! 2"

record arch_thread =
  at_first_run :: bool
  at_entry :: usize
  at_param :: usize
  at_esp :: usize
  at_ebp :: usize

definition arch_thread_create :: "usize \<Rightarrow> usize \<Rightarrow> usize \<Rightarrow> usize \<Rightarrow> arch_thread" where
  "arch_thread_create entry param stack stack_size = (let top = stack + stack_size in
     \<lparr>at_first_run = True, at_entry = entry, at_param = param, at_esp = top - 4, at_ebp = top - 4\<rparr>)"

record thread =
  thr_instance :: arch_thread
  thr_vmem :: nat
  thr_process :: nat
  thr_dirty :: bool
  thr_cpu :: cpu_state
  thr_syscall :: cpu_state
  thr_signal :: nat
  thr_stack :: nat
  thr_running :: bool
  thr_id :: u32

record scheduler =
  sc_threads :: dlchain
  sc_store :: "item \<Rightarrow> thread option"
  sc_current :: item
  sc_counter :: u32
  sc_vmem :: nat
  sc_freed :: "nat list"

type_synonym cpu_reader = "usize \<Rightarrow> cpu_state"

definition get_thr :: "scheduler \<Rightarrow> item \<Rightarrow> thread result" where
  "get_thr s p = (case sc_store s p of None \<Rightarrow> Inl Fault | Some t \<Rightarrow> Inr t)"

definition set_thr :: "item \<Rightarrow> thread \<Rightarrow> scheduler \<Rightarrow> scheduler" where
  "set_thr p t s = s\<lparr>sc_store := (sc_store s)(p \<mapsto> t)\<rparr>"

definition thr_is_blocked :: "thread \<Rightarrow> bool" where
  "thr_is_blocked t \<longleftrightarrow> thr_signal t \<noteq> 0"

definition thr_can_run :: "thread \<Rightarrow> bool" where
  "thr_can_run t \<longleftrightarrow> thr_running t \<and> \<not> thr_is_blocked t"

definition thr_await :: "nat \<Rightarrow> thread \<Rightarrow> thread" where
  "thr_await sig t = t\<lparr>thr_signal := sig\<rparr>"

definition thr_emit :: "nat \<Rightarrow> thread \<Rightarrow> thread" where
  "thr_emit sig t = (if thr_signal t = sig then t\<lparr>thr_signal := 0\<rparr> else t)"

definition thr_get_cpu_state :: "cpu_reader \<Rightarrow> thread \<Rightarrow> thread" where
  "thr_get_cpu_state regs_at t = (if thr_dirty t
     then t\<lparr>thr_cpu := regs_at (at_esp (thr_instance t)), thr_dirty := False\<rparr> else t)"

definition thr_new :: "nat \<Rightarrow> nat \<Rightarrow> thread \<Rightarrow> thread" where
  "thr_new vmem process raw = raw\<lparr>thr_vmem := vmem, thr_process := process, thr_dirty := True,
     thr_signal := 0, thr_stack := 0, thr_running := False\<rparr>"

text \<open>The copying constructor assigns the parameter \<open>vmem\<close> to itself: the field keeps what the raw
  memory held, until \<open>fork\<close> sets it.\<close>

definition thr_copy :: "thread \<Rightarrow> nat \<Rightarrow> nat \<Rightarrow> thread \<Rightarrow> thread" where
  "thr_copy src vmem process raw = raw\<lparr>thr_instance := thr_instance src, thr_process := process,
     thr_dirty := thr_dirty src, thr_cpu := thr_cpu src, thr_syscall := thr_syscall src,
     thr_signal := thr_signal src, thr_stack := 0, thr_running := False\<rparr>"

subsection \<open>Operations of the scheduler\<close>

definition sched_link :: "item \<Rightarrow> thread \<Rightarrow> scheduler \<Rightarrow> scheduler result" where
  "sched_link p t s = bindr (dl_append (sc_threads s) p) (\<lambda>c.
     Inr (set_thr p t (s\<lparr>sc_threads := c\<rparr>)))"

text \<open>\<open>p\<close> and \<open>stack\<close> are the addresses the allocator returns for the thread and its stack, \<open>raw\<close>
  what the memory of the thread held.\<close>

definition create_thread :: "item \<Rightarrow> thread \<Rightarrow> nat \<Rightarrow> usize \<Rightarrow> usize \<Rightarrow> usize \<Rightarrow> nat \<Rightarrow> scheduler
    \<Rightarrow> scheduler result" where
  "create_thread p raw stack entry param stack_size kernel_vmem s =
     sched_link p ((thr_new kernel_vmem 0 raw)\<lparr>thr_id := sc_counter s, thr_stack := stack,
       thr_instance := arch_thread_create entry param (of_nat stack) stack_size, thr_running := True\<rparr>)
       (s\<lparr>sc_counter := sc_counter s + 1\<rparr>)"

definition create_user_thread :: "item \<Rightarrow> thread \<Rightarrow> usize \<Rightarrow> nat \<Rightarrow> nat \<Rightarrow> usize \<Rightarrow> usize \<Rightarrow> usize
    \<Rightarrow> scheduler \<Rightarrow> scheduler result" where
  "create_user_thread p raw entry process vmem param stack stack_size s =
     sched_link p ((thr_new vmem process raw)\<lparr>thr_id := sc_counter s,
       thr_instance := arch_thread_create entry param stack stack_size\<rparr>)
       (s\<lparr>sc_counter := sc_counter s + 1\<rparr>)"

definition sched_fork :: "item \<Rightarrow> thread \<Rightarrow> item \<Rightarrow> nat \<Rightarrow> nat \<Rightarrow> scheduler \<Rightarrow> scheduler result" where
  "sched_fork p raw source vmem process s = bindr (get_thr s source) (\<lambda>src.
     sched_link p ((thr_copy src vmem process raw)\<lparr>thr_vmem := vmem, thr_id := sc_counter s\<rparr>)
       (s\<lparr>sc_counter := sc_counter s + 1\<rparr>))"

definition thr_delete :: "item \<Rightarrow> scheduler \<Rightarrow> scheduler result" where
  "thr_delete p s = bindr (get_thr s p) (\<lambda>t.
     let s1 = (if sc_current s = p then s\<lparr>sc_current := 0\<rparr> else s);
         s2 = (if thr_stack t \<noteq> 0 then s1\<lparr>sc_freed := thr_stack t # sc_freed s1\<rparr> else s1) in
     Inr (s2\<lparr>sc_store := (sc_store s2)(p := None), sc_freed := p # sc_freed s2\<rparr>))"

definition sched_exit :: "nat \<Rightarrow> item \<Rightarrow> scheduler \<Rightarrow> scheduler result" where
  "sched_exit k p s = (let s1 = (if p = sc_current s then s\<lparr>sc_current := 0\<rparr> else s) in
     bindr (dl_remove k (sc_threads s1) p) (\<lambda>(found, c).
       let s2 = s1\<lparr>sc_threads := c\<rparr> in if found then thr_delete p s2 else Inr s2))"

text \<open>The loop of \<open>run\<close>, from thread \<open>p\<close>.\<close>

fun sched_scan :: "nat \<Rightarrow> scheduler \<Rightarrow> item \<Rightarrow> item result" where
  "sched_scan 0 s p = Inl Hang"
| "sched_scan (Suc k) s p = bindr (get_thr s p) (\<lambda>t.
     if \<not> thr_can_run t \<and> p \<noteq> sc_current s
     then bindr (dl_after (sc_threads s) p) (\<lambda>n. sched_scan k s n)
     else Inr p)"

definition thr_resume :: "item \<Rightarrow> scheduler \<Rightarrow> scheduler result" where
  "thr_resume p s = bindr (get_thr s p) (\<lambda>t.
     Inr (set_thr p (t\<lparr>thr_dirty := True, thr_instance := (thr_instance t)\<lparr>at_first_run := False\<rparr>\<rparr>)
       (s\<lparr>sc_vmem := thr_vmem t\<rparr>)))"

definition sched_run :: "nat \<Rightarrow> scheduler \<Rightarrow> (item option \<times> scheduler) result" where
  "sched_run k s = (let s1 = (if sc_current s = 0 then s\<lparr>sc_current := dl_first (sc_threads s)\<rparr> else s) in
     if sc_current s1 = 0 then Inr (None, s1)
     else bindr (dl_after (sc_threads s1) (sc_current s1)) (\<lambda>p.
       bindr (sched_scan k s1 p) (\<lambda>q.
       bindr (get_thr s1 q) (\<lambda>t. if \<not> thr_can_run t then Inr (None, s1)
         else bindr (thr_resume q (s1\<lparr>sc_current := q\<rparr>)) (\<lambda>s2. Inr (Some q, s2))))))"

definition sched_emit_one :: "nat \<Rightarrow> scheduler \<Rightarrow> item \<Rightarrow> scheduler result" where
  "sched_emit_one sig s p = bindr (get_thr s p) (\<lambda>t. Inr (set_thr p (thr_emit sig t) s))"

definition sched_emit :: "nat \<Rightarrow> nat \<Rightarrow> scheduler \<Rightarrow> scheduler result" where
  "sched_emit k sig s = bindr (dl_visit k (sc_threads s) (dl_begin (sc_threads s)))
     (\<lambda>ps. run_all (sched_emit_one sig) s ps)"

datatype yield_status = YAwait | YTimer | YSyscall | YThreadExit

text \<open>\<open>handle_yield\<close>: \<open>Some (Some p)\<close> resumes \<open>p\<close>, \<open>Some None\<close> idles, \<open>None\<close> returns to the system
  call handler.\<close>

definition sched_handle_yield :: "cpu_reader \<Rightarrow> nat \<Rightarrow> yield_status \<Rightarrow> scheduler
    \<Rightarrow> (item option option \<times> scheduler) result" where
  "sched_handle_yield regs_at k st s = (let c = sc_current s in
     bindr (get_thr s c) (\<lambda>t.
       let s1 = set_thr c (t\<lparr>thr_dirty := True, thr_vmem := sc_vmem s\<rparr>) s;
           go = (\<lambda>s'. bindr (sched_run k s') (\<lambda>(r, s2). Inr (Some r, s2))) in
       case st of
         YTimer \<Rightarrow> go s1
       | YAwait \<Rightarrow> bindr (get_thr s1 c) (\<lambda>t1. let t2 = thr_get_cpu_state regs_at t1 in
             go (set_thr c (thr_await (unat (cpu_a (thr_cpu t2))) t2) s1))
       | YSyscall \<Rightarrow> bindr (get_thr s1 c) (\<lambda>t1. let t2 = thr_get_cpu_state regs_at t1 in
             Inr (None, set_thr c (t2\<lparr>thr_syscall := thr_cpu t2\<rparr>) s1))
       | YThreadExit \<Rightarrow> bindr (sched_exit k c s1) (\<lambda>s2. go (s2\<lparr>sc_current := 0\<rparr>))))"


subsection \<open>Well-formed schedulers\<close>

definition sched_ready :: "scheduler \<Rightarrow> item \<Rightarrow> bool" where
  "sched_ready s p = (case sc_store s p of None \<Rightarrow> False | Some t \<Rightarrow> thr_can_run t)"

definition sched_rep :: "scheduler \<Rightarrow> item list \<Rightarrow> bool" where
  "sched_rep s xs \<longleftrightarrow> dl_ring (sc_threads s) xs \<and> (\<forall>p \<in> set xs. sc_store s p \<noteq> None)
     \<and> (sc_current s = 0 \<or> sc_current s \<in> set xs)"

text \<open>The candidates of \<open>run\<close> when \<open>c\<close> is the current thread: the others in ring order, \<open>c\<close> last.\<close>

definition ring_after :: "item \<Rightarrow> item list \<Rightarrow> item list" where
  "ring_after c xs = tl (dropWhile (\<lambda>p. p \<noteq> c) xs) @ takeWhile (\<lambda>p. p \<noteq> c) xs @ [c]"

lemma ring_after_split: "c \<notin> set us \<Longrightarrow> ring_after c (us @ c # vs) = vs @ us @ [c]"
  unfolding ring_after_def by (subst dropWhile_append2, fastforce, subst takeWhile_append2) (auto simp: takeWhile_append)

lemma ring_after_set: "c \<in> set xs \<Longrightarrow> distinct xs \<Longrightarrow> set (ring_after c xs) = set xs \<and> distinct (ring_after c xs)
    \<and> length (ring_after c xs) = length xs"
  using split_list_first [of c xs] ring_after_split [of c] by fastforce

lemma distinct_split_unique:
  assumes "distinct (a @ u # b)" "a @ u # b = ps @ u # qs" shows "ps = a \<and> qs = b"
proof -
  have "u \<notin> set a" "u \<notin> set b" using assms(1) by auto
  then show ?thesis using append_Cons_eq_iff [of u a b ps qs] assms(2) by simp
qed

lemma ring_after_next:
  assumes "distinct xs" "c \<in> set xs" "ring_after c xs = ps @ u # qs"
  shows "ring_after u xs = qs @ ps @ [u]"
proof -
  obtain us vs where x: "xs = us @ c # vs" "c \<notin> set us" using split_list_first [OF assms(2)] by blast
  have eq: "vs @ us @ [c] = ps @ u # qs" using assms(3) ring_after_split x by simp
  have d: "distinct (vs @ us @ [c])" using x assms(1) by auto
  have "u \<in> set (vs @ us @ [c])" unfolding eq by simp
  then consider (v) v1 v2 where "vs = v1 @ u # v2" | (u) u1 u2 where "us = u1 @ u # u2" | (c) "u = c"
    using split_list by fastforce
  then show ?thesis
  proof cases
    case v
    then have "ps = v1" "qs = v2 @ us @ [c]"
      using eq d distinct_split_unique [of "v1" u "v2 @ us @ [c]" ps qs] by auto
    then show ?thesis using v x assms(1) ring_after_split [of u "us @ c # v1" v2] by auto
  next
    case u
    then have "ps = vs @ u1" "qs = u2 @ [c]"
      using eq d distinct_split_unique [of "vs @ u1" u "u2 @ [c]" ps qs] by auto
    then show ?thesis using u x assms(1) ring_after_split [of u u1 "u2 @ c # vs"] by auto
  next
    case c
    then have "ps = vs @ us" "qs = []"
      using eq d distinct_split_unique [of "vs @ us" u "[]" ps qs] by auto
    then show ?thesis using c x ring_after_split by simp
  qed
qed

lemma ring_after_path:
  assumes "dl_ring s xs" "c \<in> set xs" shows "dl_path s (c # ring_after c xs)"
proof -
  obtain us vs where x: "xs = us @ c # vs" "c \<notin> set us" using split_list_first [OF assms(2)] by blast
  then have "dl_cycle s (c # vs @ us)" using assms(1) dl_cycle_rotate [of s us "c # vs"] by (simp add: dl_ring_def)
  then show ?thesis using x ring_after_split by (simp add: dl_cycle_def)
qed

lemma sched_scan_spec:
  "\<lbrakk>dl_path (sc_threads s) qs; qs \<noteq> []; last qs = sc_current s; sc_current s \<notin> set (butlast qs);
    \<forall>p \<in> set qs. sc_store s p \<noteq> None \<and> p \<noteq> 0; length qs \<le> k\<rbrakk>
  \<Longrightarrow> sched_scan k s (hd qs) = Inr (case find (sched_ready s) qs of Some p \<Rightarrow> p | None \<Rightarrow> sc_current s)"
proof (induction qs arbitrary: k)
  case (Cons q qs)
  then obtain j where j: "k = Suc j" by (cases k) auto
  obtain t where t: "sc_store s q = Some t" using Cons.prems(5) by auto
  show ?case
  proof (cases "thr_can_run t \<or> q = sc_current s")
    case True
    then show ?thesis using j t Cons.prems by (cases "qs = []") (auto simp: get_thr_def sched_ready_def split: if_splits)
  next
    case False
    then have ne: "qs \<noteq> []" using Cons.prems(3) by auto
    then have "dl_next (sc_threads s) q = hd qs" "dl_path (sc_threads s) qs"
      using Cons.prems(1) by (cases qs; simp)+
    then show ?thesis using Cons j t False ne
      by (auto simp: get_thr_def sched_ready_def dl_after_def get_next_def)
  qed
qed simp

lemma sched_run_spec:
  assumes rep: "sched_rep s xs" and ne: "xs \<noteq> []" and k: "length xs \<le> k"
    and c: "c = (if sc_current s = 0 then hd xs else sc_current s)"
  obtains s' where "sched_run k s = Inr (find (sched_ready s) (ring_after c xs), s')"
    "sched_rep s' xs" "sc_threads s' = sc_threads s" "\<forall>p. sched_ready s' p = sched_ready s p"
    "sc_current s' = (case find (sched_ready s) (ring_after c xs) of Some p \<Rightarrow> p | None \<Rightarrow> c)"
proof -
  have R: "dl_ring (sc_threads s) xs" "\<forall>p \<in> set xs. sc_store s p \<noteq> None" using rep by (auto simp: sched_rep_def)
  have cx: "c \<in> set xs" using rep ne c by (auto simp: sched_rep_def)
  have nz: "\<forall>p \<in> set xs. p \<noteq> 0" "distinct xs" using R(1) unfolding dl_ring_def by metis+
  let ?s1 = "s\<lparr>sc_current := c\<rparr>" and ?l = "ring_after c xs"
  note A = ring_after_set [OF cx nz(2)]
  have lne: "?l \<noteq> []" "last ?l = c" by (simp_all add: ring_after_def)
  then have "c \<notin> set (butlast ?l)" using A by (metis append_butlast_last_id distinct_append disjoint_insert(1) list.set(2) not_distinct_conv_prefix)
  moreover have P: "dl_path (sc_threads s) (c # ?l)" by (rule ring_after_path [OF R(1) cx])
  then have "dl_path (sc_threads s) ?l" "dl_next (sc_threads s) c = hd ?l" using lne(1) by (cases ?l; simp)+
  moreover have fr: "sched_ready ?s1 = sched_ready s" by (rule ext) (simp add: sched_ready_def)
  ultimately have scan: "sched_scan k ?s1 (dl_next (sc_threads s) c)
      = Inr (case find (sched_ready s) ?l of Some p \<Rightarrow> p | None \<Rightarrow> c)"
    using sched_scan_spec [of ?s1 ?l k] lne A R(2) nz(1) k by (auto cong: option.case_cong)
  have s1: "(if sc_current s = 0 then s\<lparr>sc_current := dl_first (sc_threads s)\<rparr> else s) = ?s1"
    using c R(1) ne by (auto simp: dl_first_def dl_ring_def)
  have c0: "c \<noteq> 0" using cx nz by blast
  show thesis
  proof (cases "find (sched_ready s) ?l")
    case None
    then have "\<not> sched_ready s c" using cx A by (auto simp: find_None_iff)
    then have "sched_run k s = Inr (None, ?s1)"
      using scan None s1 c0 R(2) cx unfolding sched_run_def Let_def s1
      by (auto simp: dl_after_def get_next_def get_thr_def sched_ready_def)
    then show thesis using None rep cx fr by (intro that [of ?s1]) (auto simp: sched_rep_def)
  next
    case (Some q)
    then have q: "q \<in> set xs" "sched_ready s q" using A by (auto simp: find_Some_iff nth_mem)
    then obtain t where t: "sc_store s q = Some t" "thr_can_run t" by (auto simp: sched_ready_def split: option.splits)
    define s2 where "s2 = set_thr q (t\<lparr>thr_dirty := True, thr_instance := (thr_instance t)\<lparr>at_first_run := False\<rparr>\<rparr>)
       (s\<lparr>sc_current := q, sc_vmem := thr_vmem t\<rparr>)"
    have "sched_run k s = Inr (Some q, s2)"
      using scan Some t c0 unfolding sched_run_def Let_def s1
      by (simp add: dl_after_def get_next_def get_thr_def thr_resume_def s2_def)
    moreover have "sched_rep s2 xs" using rep q by (auto simp: sched_rep_def s2_def set_thr_def)
    moreover have "\<forall>p. sched_ready s2 p = sched_ready s p"
      using t by (auto simp: sched_ready_def s2_def set_thr_def thr_can_run_def thr_is_blocked_def)
    ultimately show thesis using Some by (intro that [of s2]) (simp_all add: s2_def set_thr_def)
  qed
qed


subsection \<open>Round-robin fairness\<close>

fun rounds :: "('s \<Rightarrow> ('a option \<times> 's) result) \<Rightarrow> nat \<Rightarrow> 's \<Rightarrow> ('a option list \<times> 's) result" where
  "rounds step 0 s = Inr ([], s)"
| "rounds step (Suc n) s = bindr (step s) (\<lambda>(r, s1). bindr (rounds step n s1) (\<lambda>(rs, s2). Inr (r # rs, s2)))"

text \<open>A scheduler that picks the first ready candidate and then puts the candidates up to and
  including it at the end of the order.\<close>

locale round_robin =
  fixes inv :: "'s \<Rightarrow> bool" and order :: "'s \<Rightarrow> 'a list" and ready :: "'s \<Rightarrow> 'a \<Rightarrow> bool"
    and step :: "'s \<Rightarrow> ('a option \<times> 's) result"
  assumes step_picks: "inv s \<Longrightarrow> \<exists>s'. step s = Inr (find (ready s) (order s), s') \<and> inv s'
      \<and> (\<forall>p. ready s' p = ready s p)
      \<and> (\<forall>ps u qs. find (ready s) (order s) = Some u \<and> order s = ps @ u # qs \<longrightarrow> order s' = qs @ ps @ [u])"
begin

lemma rounds_total: "inv s \<Longrightarrow> \<exists>rs s'. rounds step n s = Inr (rs, s') \<and> inv s' \<and> length rs = n"
proof (induction n arbitrary: s)
  case (Suc n)
  then obtain s1 where "step s = Inr (find (ready s) (order s), s1)" "inv s1" using step_picks by blast
  then show ?case using Suc.IH [of s1] by auto
qed simp

lemma served_within:
  "\<lbrakk>inv s; order s = ps @ p # qs; ready s p; length ps < n\<rbrakk>
    \<Longrightarrow> \<exists>rs s'. rounds step n s = Inr (rs, s') \<and> Some p \<in> set rs"
proof (induction n arbitrary: s ps qs)
  case (Suc n)
  obtain s1 where s1: "step s = Inr (find (ready s) (order s), s1)" "inv s1" "\<forall>p. ready s1 p = ready s p"
    "\<forall>ps u qs. find (ready s) (order s) = Some u \<and> order s = ps @ u # qs \<longrightarrow> order s1 = qs @ ps @ [u]"
    using step_picks [OF Suc.prems(1)] by blast
  show ?case
  proof (cases "\<exists>u \<in> set ps. ready s u")
    case False
    then have "find (ready s) (order s) = Some p"
      using Suc.prems(2,3) find_first [of ps "ready s" p] by auto
    then show ?thesis using s1 rounds_total [OF s1(2), of n] by auto
  next
    case True
    then obtain p1 u p2 where u: "ps = p1 @ u # p2" "ready s u" "\<forall>v \<in> set p1. \<not> ready s v"
      using split_list_first_prop [of ps "ready s"] by blast
    then have f: "find (ready s) (order s) = Some u"
      using Suc.prems(2) find_first [of p1 "ready s" u] by auto
    then have "order s1 = p2 @ p # (qs @ p1 @ [u])" using s1(4) Suc.prems(2) u(1) by auto
    then have "\<exists>rs s'. rounds step n s1 = Inr (rs, s') \<and> Some p \<in> set rs"
      using Suc.prems(3,4) u(1) s1(2,3) by (intro Suc.IH) auto
    then show ?thesis using s1(1) by auto
  qed
qed simp

lemma no_starvation:
  assumes "inv s" "p \<in> set (order s)" "ready s p" "length (order s) \<le> n"
  shows "\<exists>rs s'. rounds step n s = Inr (rs, s') \<and> Some p \<in> set rs"
  using assms served_within [OF assms(1) _ assms(3), of _ _ n] split_list [OF assms(2)] by fastforce

end

definition sched_items :: "nat \<Rightarrow> scheduler \<Rightarrow> item list" where
  "sched_items k s = (case dl_visit k (sc_threads s) (dl_begin (sc_threads s)) of Inr xs \<Rightarrow> xs | Inl _ \<Rightarrow> [])"

definition sched_order :: "nat \<Rightarrow> scheduler \<Rightarrow> item list" where
  "sched_order k s = (if dl_head (sc_threads s) = 0 then []
     else ring_after (if sc_current s = 0 then dl_head (sc_threads s) else sc_current s) (sched_items k s))"

definition sched_inv :: "nat \<Rightarrow> scheduler \<Rightarrow> bool" where
  "sched_inv k s \<longleftrightarrow> sched_rep s (sched_items k s) \<and> length (sched_items k s) < k"

lemma sched_items_rep: "sched_rep s xs \<Longrightarrow> length xs < k \<Longrightarrow> sched_items k s = xs"
  using dl_visit_ring [of "sc_threads s" xs k] by (simp add: sched_items_def sched_rep_def)

lemma sched_inv_iff: "sched_inv k s \<longleftrightarrow> (\<exists>xs. sched_rep s xs \<and> length xs < k)"
  unfolding sched_inv_def using sched_items_rep by metis

lemma sched_run_empty: "sched_rep s [] \<Longrightarrow> sched_run k s = Inr (None, s\<lparr>sc_current := 0\<rparr>)"
  by (simp add: sched_rep_def sched_run_def dl_first_def dl_ring_def)

lemma sched_rep_pos: "sched_rep s xs \<Longrightarrow> p \<in> set xs \<Longrightarrow> 0 < p"
  by (metis dl_ring_def gr0I sched_rep_def)

lemma sched_rep_head:
  assumes "sched_rep s xs" "xs \<noteq> []" shows "dl_head (sc_threads s) = hd xs" "0 < hd xs"
  using assms sched_rep_pos [OF assms(1) hd_in_set [OF assms(2)]] by (simp_all add: sched_rep_def dl_ring_def)

lemma sched_order_rep:
  assumes "sched_rep s xs" "length xs < k"
  shows "sched_order k s = (if xs = [] then [] else ring_after (if sc_current s = 0 then hd xs else sc_current s) xs)"
proof (cases "xs = []")
  case True
  then show ?thesis using assms by (simp add: sched_order_def sched_rep_def dl_ring_def)
next
  case False
  then show ?thesis using sched_items_rep [OF assms] sched_rep_head [OF assms(1)] by (simp add: sched_order_def)
qed

interpretation rr: round_robin "sched_inv k" "sched_order k" sched_ready "sched_run k" for k
proof unfold_locales
  fix s assume "sched_inv k s"
  then obtain xs where xs: "sched_rep s xs" "length xs < k" by (auto simp: sched_inv_iff)
  note ord = sched_order_rep [OF xs]
  show "\<exists>s'. sched_run k s = Inr (find (sched_ready s) (sched_order k s), s') \<and> sched_inv k s'
      \<and> (\<forall>p. sched_ready s' p = sched_ready s p)
      \<and> (\<forall>ps u qs. find (sched_ready s) (sched_order k s) = Some u \<and> sched_order k s = ps @ u # qs
           \<longrightarrow> sched_order k s' = qs @ ps @ [u])"
  proof (cases "xs = []")
    case True
    then have "sched_rep (s\<lparr>sc_current := 0\<rparr>) []" using xs by (simp add: sched_rep_def)
    then show ?thesis using True xs ord sched_run_empty [of s k]
      by (auto simp: sched_inv_iff sched_ready_def)
  next
    case False
    define c where "c = (if sc_current s = 0 then hd xs else sc_current s)"
    have cx: "c \<in> set xs" "distinct xs" using xs False by (auto simp: c_def sched_rep_def dl_ring_def)
    obtain s' where s': "sched_run k s = Inr (find (sched_ready s) (ring_after c xs), s')"
      "sched_rep s' xs" "\<forall>p. sched_ready s' p = sched_ready s p"
      "sc_current s' = (case find (sched_ready s) (ring_after c xs) of Some p \<Rightarrow> p | None \<Rightarrow> c)"
      using sched_run_spec [OF xs(1) False _ c_def, of k] xs(2) by auto
    have "sched_order k s' = qs @ ps @ [u]"
      if "find (sched_ready s) (ring_after c xs) = Some u" "ring_after c xs = ps @ u # qs" for ps u qs
    proof -
      have "u \<in> set (ring_after c xs)" using that(2) by simp
      then have "u \<in> set xs" using ring_after_set [OF cx] by simp
      then have "0 < u" "sc_current s' = u" using sched_rep_pos [OF xs(1)] that(1) s'(4) by simp_all
      then have "sched_order k s' = ring_after u xs"
        using sched_order_rep [OF s'(2) xs(2)] False by simp
      then show ?thesis using ring_after_next [OF cx(2,1) that(2)] by simp
    qed
    then show ?thesis using s' ord xs(2) False by (auto simp: c_def [symmetric] sched_inv_iff)
  qed
qed


subsection \<open>Creating, ending and waking threads\<close>

lemma sched_link_rep:
  assumes "sched_rep s xs" "p \<noteq> 0" "p \<notin> set xs"
  obtains s' where "sched_link p t s = Inr s'" "sched_rep s' (xs @ [p])" "sc_store s' = (sc_store s)(p \<mapsto> t)"
    "sc_current s' = sc_current s"
proof -
  have "dl_ring (sc_threads s) xs" using assms(1) by (simp add: sched_rep_def)
  then obtain c where "dl_append (sc_threads s) p = Inr c" "dl_ring c (xs @ [p])"
    using dl_append_ring assms(2,3) by metis
  then show thesis using assms(1)
    by (intro that [of "set_thr p t (s\<lparr>sc_threads := c\<rparr>)"]) (auto simp: sched_link_def sched_rep_def set_thr_def)
qed

lemma sched_exit_rep:
  assumes "sched_rep s xs" "p \<in> set xs" "length xs \<le> k"
  obtains s' where "sched_exit k p s = Inr s'" "sched_rep s' (remove1 p xs)" "sc_store s' p = None"
    "sc_current s' = (if sc_current s = p then 0 else sc_current s)" "p \<in> set (sc_freed s')"
    "\<forall>q. q \<noteq> p \<longrightarrow> sc_store s' q = sc_store s q"
proof -
  have ring: "dl_ring (sc_threads s) xs" and ne: "xs \<noteq> []" using assms by (auto simp: sched_rep_def)
  obtain c where c: "dl_remove k (sc_threads s) p = Inr (True, c)" "dl_ring c (remove1 p xs)"
    using dl_remove_ring [OF ring ne assms(3), of p] assms(2) by auto
  obtain t where t: "sc_store s p = Some t" using assms(1,2) by (auto simp: sched_rep_def)
  define s1 where "s1 = s\<lparr>sc_current := (if sc_current s = p then 0 else sc_current s), sc_threads := c\<rparr>"
  define s' where "s' = s1\<lparr>sc_store := (sc_store s)(p := None),
    sc_freed := p # (if thr_stack t \<noteq> 0 then thr_stack t # sc_freed s else sc_freed s)\<rparr>"
  have p0: "0 < p" using sched_rep_pos assms(1,2) by blast
  have "sched_exit k p s = Inr s'"
    using c(1) t p0 by (auto simp: sched_exit_def thr_delete_def get_thr_def s'_def s1_def Let_def)
  moreover have "distinct xs" using ring by (simp add: dl_ring_def)
  then have "sched_rep s' (remove1 p xs)"
    using assms(1) c(2) by (auto simp: sched_rep_def s'_def s1_def set_remove1_eq)
  ultimately show thesis by (rule that) (auto simp: s'_def s1_def)
qed

lemma sched_emit_all:
  assumes "\<forall>p \<in> set ps. sc_store s p \<noteq> None" "distinct ps"
  shows "run_all (sched_emit_one sig) s ps = Inr (s\<lparr>sc_store := (\<lambda>p. if p \<in> set ps
    then map_option (thr_emit sig) (sc_store s p) else sc_store s p)\<rparr>)"
  using assms
proof (induction ps arbitrary: s)
  case (Cons p ps)
  obtain t where t: "sc_store s p = Some t" using Cons.prems(1) by auto
  have "run_all (sched_emit_one sig) (set_thr p (thr_emit sig t) s) ps = Inr ((set_thr p (thr_emit sig t) s)
     \<lparr>sc_store := (\<lambda>q. if q \<in> set ps then map_option (thr_emit sig) (sc_store (set_thr p (thr_emit sig t) s) q)
        else sc_store (set_thr p (thr_emit sig t) s) q)\<rparr>)"
    using Cons.prems by (intro Cons.IH) (auto simp: set_thr_def)
  moreover have "sched_emit_one sig s p = Inr (set_thr p (thr_emit sig t) s)"
    using t by (simp add: sched_emit_one_def get_thr_def)
  ultimately show ?case using t Cons.prems(2)
    by (auto simp: set_thr_def intro!: arg_cong [of _ _ "\<lambda>f. s\<lparr>sc_store := f\<rparr>"])
qed (simp add: if_distrib)

lemma set_thr_simps: "sc_store (set_thr p t s) p = Some t" "set_thr p u (set_thr p t s) = set_thr p u s"
  "sc_current (set_thr p t s) = sc_current s"
  by (simp_all add: set_thr_def)

lemma sched_rep_set_thr: "sched_rep s xs \<Longrightarrow> sched_rep (set_thr p t s) xs"
  by (auto simp: sched_rep_def set_thr_def)

lemma sched_run_rep:
  assumes "sched_rep s xs" "length xs < k"
  obtains r s' where "sched_run k s = Inr (r, s')" "sched_rep s' xs" "r = None \<or> r = Some (sc_current s') \<and> sc_current s' \<in> set xs"
proof (cases "xs = []")
  case True
  then show thesis using assms sched_run_empty [of s k] by (intro that) (auto simp: sched_rep_def)
next
  case False
  define c where "c = (if sc_current s = 0 then hd xs else sc_current s)"
  obtain s' where s': "sched_run k s = Inr (find (sched_ready s) (ring_after c xs), s')" "sched_rep s' xs"
      "sc_current s' = (case find (sched_ready s) (ring_after c xs) of Some p \<Rightarrow> p | None \<Rightarrow> c)"
    using sched_run_spec [OF assms(1) False less_imp_le [OF assms(2)] c_def] by metis
  have "c \<in> set xs" "distinct xs" using assms(1) False by (auto simp: c_def sched_rep_def dl_ring_def)
  then have st: "set (ring_after c xs) = set xs" using ring_after_set by blast
  show thesis
  proof (cases "find (sched_ready s) (ring_after c xs)")
    case (Some p)
    then have "p \<in> set xs" using st by (metis find_Some_iff nth_mem)
    then show thesis using s' Some by (intro that [OF s'(1,2)]) simp
  qed (use s' in \<open>auto intro: that [OF s'(1,2)]\<close>)
qed

subsection \<open>Properties\<close>

text \<open>C1: \<open>run\<close> always ends its search and resumes the first runnable thread behind the current one in
  ring order (the current one last); it idles exactly when no thread can run. The ring and the
  readiness of every thread are unchanged.\<close>

theorem run_picks_next_ready:
  assumes "sched_rep s xs" "xs \<noteq> []" "length xs \<le> k"
  shows "\<exists>s'. sched_run k s = Inr (find (sched_ready s)
        (ring_after (if sc_current s = 0 then hd xs else sc_current s) xs), s')
    \<and> sched_rep s' xs \<and> (\<forall>p. sched_ready s' p = sched_ready s p)"
  using sched_run_spec [OF assms refl] by metis

definition demo_thread :: thread where
  "demo_thread = \<lparr>thr_instance = arch_thread_create 4096 0 8192 4096, thr_vmem = 1, thr_process = 0,
     thr_dirty = True, thr_cpu = \<lparr>cpu_regs = [8, 0, 0, 0], cpu_temp = 0\<rparr>, thr_syscall = \<lparr>cpu_regs = [], cpu_temp = 0\<rparr>,
     thr_signal = 0, thr_stack = 0, thr_running = True, thr_id = 0\<rparr>"

definition demo_sched :: scheduler where
  "demo_sched = \<lparr>sc_threads = demo_chain, sc_store = [8 \<mapsto> demo_thread, 16 \<mapsto> demo_thread],
     sc_current = 8, sc_counter = 2, sc_vmem = 1, sc_freed = []\<rparr>"

lemma demo_sched_rep: "sched_rep demo_sched [8, 16]"
  using demo_chain_ring by (simp add: sched_rep_def demo_sched_def)

theorem run_picks_next_ready_witness: "\<exists>s'. sched_run 2 demo_sched = Inr (Some 16, s') \<and> sched_rep s' [8, 16]"
  using run_picks_next_ready [OF demo_sched_rep, of 2]
  by (auto simp: demo_sched_def ring_after_def sched_ready_def demo_thread_def thr_can_run_def thr_is_blocked_def)

text \<open>C2: No starvation: a thread that can run is resumed within as many calls of \<open>run\<close> as there are
  threads, whatever the current thread is.\<close>

theorem run_serves_every_ready_thread:
  assumes "sched_rep s xs" "length xs < k" "p \<in> set xs" "sched_ready s p" "length xs \<le> n"
  shows "\<exists>rs s'. rounds (sched_run k) n s = Inr (rs, s') \<and> Some p \<in> set rs"
proof -
  have c: "(if sc_current s = 0 then hd xs else sc_current s) \<in> set xs" "distinct xs" "xs \<noteq> []"
    using assms(1,3) by (auto simp: sched_rep_def dl_ring_def intro!: hd_in_set)
  have "set (sched_order k s) = set xs" "length (sched_order k s) = length xs"
    using sched_order_rep [OF assms(1,2)] ring_after_set [OF c(1,2)] c(3) by auto
  then show ?thesis using rr.no_starvation [of k s p n] assms sched_inv_iff by auto
qed

theorem run_serves_every_ready_thread_witness:
  "\<exists>rs s'. rounds (sched_run 3) 2 demo_sched = Inr (rs, s') \<and> Some 8 \<in> set rs"
  by (rule run_serves_every_ready_thread [OF demo_sched_rep])
    (simp_all add: demo_sched_def sched_ready_def demo_thread_def thr_can_run_def thr_is_blocked_def)

text \<open>Ending a thread takes it out of the ring and deletes it; the scheduler is never left with a
  current thread that has been deleted, and no other thread is touched.\<close>

theorem exit_leaves_no_dangling_current:
  assumes "sched_rep s xs" "p \<in> set xs" "length xs \<le> k"
  shows "\<exists>s'. sched_exit k p s = Inr s' \<and> sched_rep s' (remove1 p xs) \<and> sc_store s' p = None
    \<and> sc_current s' \<noteq> p \<and> (\<forall>q. q \<noteq> p \<longrightarrow> sc_store s' q = sc_store s q)"
proof -
  have "0 < p" using sched_rep_pos assms(1,2) by blast
  then show ?thesis using sched_exit_rep [OF assms] by (metis less_numeral_extra(3))
qed

theorem exit_leaves_no_dangling_current_witness:
  "\<exists>s'. sched_exit 2 8 demo_sched = Inr s' \<and> sched_rep s' [16] \<and> sc_current s' \<noteq> 8"
  using exit_leaves_no_dangling_current [OF demo_sched_rep, of 8 2] by auto

text \<open>\<open>emit\<close> wakes exactly the threads of the ring that wait for the signal and changes nothing
  else.\<close>

theorem emit_wakes_waiters:
  assumes "sched_rep s xs" "length xs < k"
  shows "\<exists>s'. sched_emit k sig s = Inr s' \<and> sched_rep s' xs \<and> sc_current s' = sc_current s
    \<and> (\<forall>p t. p \<in> set xs \<and> sc_store s p = Some t \<longrightarrow> sc_store s' p = Some (if thr_signal t = sig then t\<lparr>thr_signal := 0\<rparr> else t))
    \<and> (\<forall>p. p \<notin> set xs \<longrightarrow> sc_store s' p = sc_store s p)"
proof -
  have r: "dl_ring (sc_threads s) xs" "\<forall>p \<in> set xs. sc_store s p \<noteq> None" "distinct xs"
    using assms(1) by (auto simp: sched_rep_def dl_ring_def)
  then show ?thesis using assms sched_emit_all [of xs s sig] dl_visit_ring [OF r(1) assms(2)]
    by (auto simp: sched_emit_def sched_rep_def thr_emit_def)
qed

theorem emit_wakes_waiters_witness: "\<exists>s'. sched_emit 3 40 demo_sched = Inr s' \<and> sched_rep s' [8, 16]"
  using emit_wakes_waiters [OF demo_sched_rep, of 3 40] by auto

text \<open>With a current thread, every yield (timer, await, system call, thread exit) is handled without
  a fault and keeps the scheduler well formed; only a thread exit shrinks the ring, by the current
  thread, and the thread resumed is one of those left.\<close>

theorem yield_keeps_scheduler:
  assumes rep: "sched_rep s xs" and cur: "sc_current s \<noteq> 0" and k: "length xs < k"
  shows "\<exists>r s'. sched_handle_yield regs_at k st s = Inr (r, s')
    \<and> sched_rep s' (if st = YThreadExit then remove1 (sc_current s) xs else xs)
    \<and> (\<forall>p. r = Some (Some p) \<longrightarrow> p \<in> set (if st = YThreadExit then remove1 (sc_current s) xs else xs))"
proof -
  let ?c = "sc_current s"
  have c: "?c \<in> set xs" using rep cur by (auto simp: sched_rep_def)
  obtain t where t: "sc_store s ?c = Some t" using rep c by (auto simp: sched_rep_def)
  have go: "\<exists>r s'. sched_run k (set_thr ?c u s) = Inr (r, s') \<and> sched_rep s' xs \<and> (\<forall>p. r = Some p \<longrightarrow> p \<in> set xs)" for u
    using sched_run_rep [OF sched_rep_set_thr [OF rep] k] by (metis option.distinct(1) option.inject)
  show ?thesis
  proof (cases st)
    case YAwait
    let ?t2 = "thr_get_cpu_state regs_at (t\<lparr>thr_dirty := True, thr_vmem := sc_vmem s\<rparr>)"
    obtain r s' where "sched_run k (set_thr ?c (thr_await (unat (cpu_a (thr_cpu ?t2))) ?t2) s) = Inr (r, s')"
      "sched_rep s' xs" "\<forall>p. r = Some p \<longrightarrow> p \<in> set xs" using go by blast
    then show ?thesis using YAwait t by (simp add: sched_handle_yield_def get_thr_def set_thr_simps Let_def)
  next
    case YTimer
    obtain r s' where "sched_run k (set_thr ?c (t\<lparr>thr_dirty := True, thr_vmem := sc_vmem s\<rparr>) s) = Inr (r, s')"
      "sched_rep s' xs" "\<forall>p. r = Some p \<longrightarrow> p \<in> set xs" using go by blast
    then show ?thesis using YTimer t by (simp add: sched_handle_yield_def get_thr_def set_thr_simps Let_def)
  next
    case YSyscall
    then show ?thesis using t sched_rep_set_thr [OF rep]
      by (simp add: sched_handle_yield_def get_thr_def set_thr_simps Let_def)
  next
    case YThreadExit
    let ?s1 = "set_thr ?c (t\<lparr>thr_dirty := True, thr_vmem := sc_vmem s\<rparr>) s"
    have "length xs \<le> k" using k by simp
    then obtain s2 where s2: "sched_exit k ?c ?s1 = Inr s2" "sched_rep s2 (remove1 ?c xs)" "sc_current s2 = 0"
      by (rule sched_exit_rep [OF sched_rep_set_thr [OF rep] c]) (simp_all add: set_thr_simps)
    have "length (remove1 ?c xs) < k" using k by (auto simp: length_remove1)
    moreover have "sched_rep (s2\<lparr>sc_current := 0\<rparr>) (remove1 ?c xs)" using s2(2) by (simp add: sched_rep_def)
    ultimately obtain r s' where "sched_run k (s2\<lparr>sc_current := 0\<rparr>) = Inr (r, s')"
      "sched_rep s' (remove1 ?c xs)" "r = None \<or> r = Some (sc_current s') \<and> sc_current s' \<in> set (remove1 ?c xs)"
      using sched_run_rep by metis
    moreover from this have "\<forall>p. Some r = Some (Some p) \<longrightarrow> p \<in> set (remove1 ?c xs)" by auto
    moreover have "sched_handle_yield regs_at k st s
        = bindr (sched_run k (s2\<lparr>sc_current := 0\<rparr>)) (\<lambda>(r, s2). Inr (Some r, s2))"
      using YThreadExit t s2(1) by (simp add: sched_handle_yield_def get_thr_def Let_def)
    ultimately show ?thesis using YThreadExit by simp
  qed
qed

theorem yield_keeps_scheduler_witness:
  "\<exists>r s'. sched_handle_yield (\<lambda>_. \<lparr>cpu_regs = [40], cpu_temp = 0\<rparr>) 3 YThreadExit demo_sched = Inr (r, s') \<and> sched_rep s' [16]"
  using yield_keeps_scheduler [OF demo_sched_rep, of 3 "\<lambda>_. \<lparr>cpu_regs = [40], cpu_temp = 0\<rparr>" YThreadExit]
  by (auto simp: demo_sched_def)

text \<open>A yield that arrives while there is no current thread (the last one has exited and the CPU
  idles) dereferences null.\<close>

theorem yield_without_thread_faults:
  assumes "sc_current s = 0" "sc_store s 0 = None"
  shows "sched_handle_yield regs_at k st s = Inl Fault"
  using assms by (simp add: sched_handle_yield_def get_thr_def)

theorem yield_without_thread_faults_witness:
  "sched_handle_yield (\<lambda>_. \<lparr>cpu_regs = [], cpu_temp = 0\<rparr>) 3 YTimer (demo_sched\<lparr>sc_current := 0\<rparr>) = Inl Fault"
  using yield_without_thread_faults [of "demo_sched\<lparr>sc_current := 0\<rparr>"] by (simp add: demo_sched_def)

end
