(* ===== verification/Memory_Ops.thy ===== *)
theory Memory_Ops
  imports Prelude
begin

text \<open>
  The memory and string routines of \<open>common/common.cpp\<close> and the arithmetic helpers of
  \<open>common/common.hpp\<close>. Memory is a list of bytes; an access outside it faults. The copying and
  filling routines work a machine word at a time and finish byte by byte, as in the source; they are
  shown equal to the byte-wise reference. A C string is the suffix of an array that starts where the
  pointer points.
\<close>

subsection \<open>memcpy, memset, memcmp\<close>

text \<open>The two loops of \<open>__memcpy\<close>: \<open>n\<close> words from \<open>s\<close> to \<open>d\<close>, then the remaining bytes.\<close>

fun copy_words :: "u8 list \<Rightarrow> nat \<Rightarrow> nat \<Rightarrow> nat \<Rightarrow> (u8 list \<times> nat \<times> nat) result" where
  "copy_words m d s 0 = Inr (m, d, s)"
| "copy_words m d s (Suc n) = bindr (peek m s 4) (\<lambda>w. bindr (poke m d w) (\<lambda>m'.
     copy_words m' (d + 4) (s + 4) n))"

function copy_bytes :: "u8 list \<Rightarrow> nat \<Rightarrow> nat \<Rightarrow> nat \<Rightarrow> u8 list result" where
  "copy_bytes m d s sz = (if sz mod 4 = 0 then Inr m
     else bindr (peek m s 1) (\<lambda>b. bindr (poke m d b) (\<lambda>m'. copy_bytes m' (d + 1) (s + 1) (sz - 1))))"
  by auto
termination by (relation "measure (\<lambda>(m, d, s, sz). sz)") (auto intro: gr0I)

declare copy_bytes.simps [simp del]

definition c_memcpy :: "u8 list \<Rightarrow> nat \<Rightarrow> nat \<Rightarrow> nat \<Rightarrow> u8 list result" where
  "c_memcpy m d s sz = bindr (copy_words m d s (sz div 4)) (\<lambda>(m', d', s'). copy_bytes m' d' s' sz)"

definition word_bytes :: "usize \<Rightarrow> u8 list" where
  "word_bytes w = map (\<lambda>i. ucast (drop_bit (8 * i) w)) [0..<4]"

definition memset_value :: "usize \<Rightarrow> usize" where
  "memset_value ch = (let v = ch OR push_bit 8 ch in v OR push_bit 16 v)"

fun set_words :: "u8 list \<Rightarrow> nat \<Rightarrow> usize \<Rightarrow> nat \<Rightarrow> (u8 list \<times> nat) result" where
  "set_words m d v 0 = Inr (m, d)"
| "set_words m d v (Suc n) = bindr (poke m d (word_bytes v)) (\<lambda>m'. set_words m' (d + 4) v n)"

function set_bytes :: "u8 list \<Rightarrow> nat \<Rightarrow> usize \<Rightarrow> nat \<Rightarrow> u8 list result" where
  "set_bytes m d v sz = (if sz mod 4 = 0 then Inr m
     else bindr (poke m d [ucast v]) (\<lambda>m'. set_bytes m' (d + 1) v (sz - 1)))"
  by auto
termination by (relation "measure (\<lambda>(m, d, v, sz). sz)") (auto intro: gr0I)

declare set_bytes.simps [simp del]

definition c_memset :: "u8 list \<Rightarrow> nat \<Rightarrow> usize \<Rightarrow> nat \<Rightarrow> u8 list result" where
  "c_memset m d ch sz = (let v = memset_value ch in
     bindr (set_words m d v (sz div 4)) (\<lambda>(m', d'). set_bytes m' d' v sz))"

fun memcmp_from :: "u8 list \<Rightarrow> nat \<Rightarrow> nat \<Rightarrow> nat \<Rightarrow> int result" where
  "memcmp_from m p q 0 = Inr 0"
| "memcmp_from m p q (Suc n) = bindr (nth_r m p) (\<lambda>x. bindr (nth_r m q) (\<lambda>y.
     if x \<noteq> y then Inr (uint x - uint y) else memcmp_from m (p + 1) (q + 1) n))"

definition c_memcmp :: "u8 list \<Rightarrow> nat \<Rightarrow> nat \<Rightarrow> nat \<Rightarrow> int result" where
  "c_memcmp m p q num = memcmp_from m p q num"

subsection \<open>Strings\<close>

abbreviation NUL :: char where "NUL \<equiv> CHR 0x00"

fun c_strlen :: "char list \<Rightarrow> nat result" where
  "c_strlen [] = Inl Fault"
| "c_strlen (c # cs) = (if c = NUL then Inr 0 else bindr (c_strlen cs) (\<lambda>n. Inr (Suc n)))"

text \<open>\<open>char\<close> is signed on the i386: the difference is that of the sign-extended bytes.\<close>

definition char_value :: "char \<Rightarrow> int" where
  "char_value c = (let n = int (of_char c) in if n < 128 then n else n - 256)"

fun c_strcmp :: "char list \<Rightarrow> char list \<Rightarrow> int result" where
  "c_strcmp (x # xs) (y # ys) = (if x \<noteq> NUL \<and> y \<noteq> NUL \<and> x = y then c_strcmp xs ys
     else Inr (char_value x - char_value y))"
| "c_strcmp _ _ = Inl Fault"

text \<open>The string a pointer denotes, when the array holds a terminator behind it.\<close>

definition c_str :: "char list \<Rightarrow> string" where
  "c_str cs = takeWhile (\<lambda>c. c \<noteq> NUL) cs"

subsection \<open>Arithmetic helpers\<close>

definition c_max :: "u64 \<Rightarrow> u64 \<Rightarrow> u64" where
  "c_max a b = (if a > b then a else b)"

definition c_clamp :: "int \<Rightarrow> int \<Rightarrow> int \<Rightarrow> int" where
  "c_clamp val lo hi = (if val < lo then lo else if val > hi then hi else val)"

definition divceil :: "usize \<Rightarrow> usize \<Rightarrow> usize" where
  "divceil num d = (if num mod d > 0 then num div d + 1 else num div d)"

definition safe_copy :: "'a list \<Rightarrow> nat \<Rightarrow> 'a list \<Rightarrow> nat \<Rightarrow> 'a list result" where
  "safe_copy dst at src n = bindr (peek src 0 n) (\<lambda>xs. poke dst at xs)"

subsection \<open>The word-wise routines against the byte-wise reference\<close>

lemma poke_peek_split:
  assumes "s + (a + b) \<le> length m" "d + (a + b) \<le> length m" "d \<le> s \<or> s + (a + b) \<le> d"
  shows "bindr (poke m d (take a (drop s m))) (\<lambda>m'. poke m' (d + a) (take b (drop (s + a) m')))
    = poke m d (take (a + b) (drop s m))"
proof -
  let ?m = "take d m @ take a (drop s m) @ drop (d + a) m"
  have l: "length (take a (drop s m)) = a" using assms(1) by simp
  have e: "take b (drop (s + a) ?m) = take b (drop (s + a) m)"
  proof (cases "d \<le> s")
    case True
    then have "drop (s + a) ?m = drop (s + a) m" using l assms by (simp add: add.commute)
    then show ?thesis by simp
  next
    case False
    then have "s + (a + b) \<le> d" using assms(3) by simp
    then have "take b (drop (s + a) ?m) = take b (drop (s + a) (take d m))" using assms(2) by simp
    also have "\<dots> = take b (drop (s + a) m)" using \<open>s + (a + b) \<le> d\<close> by (simp add: drop_take min_def)
    finally show ?thesis .
  qed
  have t: "take (a + b) (drop s m) = take a (drop s m) @ take b (drop (s + a) m)"
    by (simp add: take_add add.commute)
  have "take (d + a) ?m = take d m @ take a (drop s m)" "drop (d + a + b) ?m = drop (d + (a + b)) m"
    "length ?m = length m" "length (take b (drop (s + a) m)) = b"
    using assms(1,2) l by (simp_all add: ac_simps)
  then have "poke ?m (d + a) (take b (drop (s + a) m)) = Inr (take d m @ take (a + b) (drop s m) @ drop (d + (a + b)) m)"
    using assms(2) by (simp add: poke_def t)
  moreover have "poke m d (take a (drop s m)) = Inr ?m" using assms l by (simp add: poke_def)
  moreover have "length (take (a + b) (drop s m)) = a + b" using assms(1) by simp
  ultimately show ?thesis using assms(2) e by (simp add: poke_def)
qed


lemma poke_twice:
  assumes "poke m d (take a (drop s m)) = Inr m1"
    and "s + (a + b) \<le> length m" "d + (a + b) \<le> length m" "d \<le> s \<or> s + (a + b) \<le> d"
  shows "poke m1 (d + a) (take b (drop (s + a) m1)) = poke m d (take (a + b) (drop s m))"
  using poke_peek_split [OF assms(2-4)] unfolding assms(1) bindr_simps .

lemma copy_words_spec:
  "\<lbrakk>s + 4 * n \<le> length m; d + 4 * n \<le> length m; d \<le> s \<or> s + 4 * n \<le> d\<rbrakk> \<Longrightarrow>
    copy_words m d s n = bindr (poke m d (take (4 * n) (drop s m))) (\<lambda>m'. Inr (m', d + 4 * n, s + 4 * n))"
proof (induction n arbitrary: m d s)
  case 0
  then show ?case by (simp add: poke_def)
next
  case (Suc n)
  define w where "w = take 4 (drop s m)"
  define m1 where "m1 = take d m @ w @ drop (d + 4) m"
  have "length w = 4" using Suc.prems by (simp add: w_def)
  then have w: "peek m s 4 = Inr w" "poke m d w = Inr m1" "length m1 = length m"
    using Suc.prems by (simp_all add: m1_def, simp add: w_def)
  have "copy_words m d s (Suc n) = copy_words m1 (d + 4) (s + 4) n" using w by simp
  also have "\<dots> = bindr (poke m1 (d + 4) (take (4 * n) (drop (s + 4) m1))) (\<lambda>m'. Inr (m', d + 4 * Suc n, s + 4 * Suc n))"
    using Suc.prems w(3) by (subst Suc.IH) (auto simp: ac_simps)
  also have "poke m1 (d + 4) (take (4 * n) (drop (s + 4) m1)) = poke m d (take (4 + 4 * n) (drop s m))"
    using Suc.prems by (intro poke_twice w(2) [unfolded w_def]) auto
  finally show ?case by simp
qed

lemma mod4_pred: "(n :: nat) mod 4 \<noteq> 0 \<Longrightarrow> n mod 4 = 1 + (n - 1) mod 4"
  by (cases n) (auto simp: mod_Suc split: if_splits)

lemma copy_bytes_spec:
  "\<lbrakk>s + sz mod 4 \<le> length m; d + sz mod 4 \<le> length m; d \<le> s \<or> s + sz mod 4 \<le> d\<rbrakk> \<Longrightarrow>
    copy_bytes m d s sz = poke m d (take (sz mod 4) (drop s m))"
proof (induction m d s sz rule: copy_bytes.induct)
  case (1 m d s sz)
  show ?case
  proof (cases "sz mod 4 = 0")
    case True
    then show ?thesis using "1.prems" by (subst copy_bytes.simps) (simp add: poke_def)
  next
    case False
    define w where "w = take 1 (drop s m)"
    define m1 where "m1 = take d m @ w @ drop (d + 1) m"
    have k: "sz mod 4 = 1 + (sz - 1) mod 4" by (rule mod4_pred [OF False])
    have b: "s + 1 \<le> length m" "d + 1 \<le> length m" using "1.prems"(1,2) k by linarith+
    have "length w = 1" using b(1) by (simp add: w_def)
    then have w: "peek m s 1 = Inr w" "poke m d w = Inr m1"
      using b by (simp_all only: peek_def poke_def w_def m1_def if_True)
    have "length m1 = length m" by (rule poke_length [OF w(2)])
    note w = w this
    have "copy_bytes m d s sz = copy_bytes m1 (d + 1) (s + 1) (sz - 1)"
      using w False by (subst copy_bytes.simps) simp
    also have "\<dots> = poke m1 (d + 1) (take ((sz - 1) mod 4) (drop (s + 1) m1))"
      using "1.prems" w k by (intro "1.IH" [OF False]) auto
    also have "\<dots> = poke m d (take (1 + (sz - 1) mod 4) (drop s m))"
      using "1.prems" k by (intro poke_twice w(2) [unfolded w_def]) auto
    finally show ?thesis by (simp only: k)
  qed
qed

text \<open>\<open>__memcpy\<close> moves its words and then its odd bytes exactly as one copy of the whole range,
  for disjoint ranges and for overlapping ones whose destination is not behind the source.\<close>

theorem memcpy_is_copy:
  assumes "s + sz \<le> length m" "d + sz \<le> length m" "d \<le> s \<or> s + sz \<le> d"
  shows "c_memcpy m d s sz = Inr (take d m @ take sz (drop s m) @ drop (d + sz) m)"
proof -
  let ?a = "4 * (sz div 4)" and ?b = "sz mod 4"
  have ab: "?a + ?b = sz" by simp
  define m1 where "m1 = take d m @ take ?a (drop s m) @ drop (d + ?a) m"
  have "s + ?a \<le> length m" "d + ?a \<le> length m" using assms(1,2) ab by linarith+
  then have "length (take ?a (drop s m)) = ?a" "d + ?a \<le> length m" by simp_all
  then have p: "poke m d (take ?a (drop s m)) = Inr m1" unfolding m1_def by (simp add: poke_def)
  then have pl: "length m1 = length m" by (rule poke_length)
  have "copy_words m d s (sz div 4) = Inr (m1, d + ?a, s + ?a)"
    using assms ab p by (subst copy_words_spec) (linarith+, simp)
  then have "c_memcpy m d s sz = copy_bytes m1 (d + ?a) (s + ?a) sz" by (simp add: c_memcpy_def)
  also have "\<dots> = poke m1 (d + ?a) (take ?b (drop (s + ?a) m1))"
    using assms ab pl by (intro copy_bytes_spec) linarith+
  also have "\<dots> = poke m d (take (?a + ?b) (drop s m))"
    using assms ab by (intro poke_twice p(1)) linarith+
  finally show ?thesis using assms unfolding ab by (simp add: poke_def)
qed

theorem memcpy_is_copy_witness: "c_memcpy [1, 2, 3, 4, 5, 6, 7, 8, 9] 0 2 7 = Inr [3, 4, 5, 6, 7, 8, 9, 8, 9]"
  using memcpy_is_copy [of 2 7 "[1, 2, 3, 4, 5, 6, 7, 8, 9]" 0] by simp


lemma poke_append:
  assumes "poke m d xs = Inr m1"
  shows "poke m1 (d + length xs) ys = poke m d (xs @ ys)"
proof -
  have b: "d + length xs \<le> length m" "m1 = take d m @ xs @ drop (d + length xs) m"
    using assms by (auto simp: poke_def split: if_splits)
  then have "length m1 = length m" by simp
  moreover have "take (d + length xs) m1 = take d m @ xs" "drop (d + length xs + length ys) m1 = drop (d + length xs + length ys) m"
    using b by (simp_all add: ac_simps)
  ultimately show ?thesis by (simp add: poke_def ac_simps)
qed

lemma memset_value_bytes:
  fixes b :: u8 shows "word_bytes (memset_value (ucast b)) = replicate 4 b" "ucast (memset_value (ucast b)) = b"
proof -
  have l: "[0..<4] = [0, 1, 2, 3 :: nat]" by (simp add: upt_rec)
  have e: "ucast (drop_bit (8 * i) (memset_value (ucast b))) = b" if "i < 4" for i
  proof (rule bit_word_eqI)
    fix n assume n: "n < LENGTH(8)"
    consider "i = 0" | "i = 1" | "i = 2" | "i = 3" using \<open>i < 4\<close> by linarith
    then show "bit (ucast (drop_bit (8 * i) (memset_value (ucast b))) :: u8) n = bit b n"
      using n bit_imp_le_length [of b] by cases (fastforce simp: memset_value_def Let_def bit_simps)+
  qed
  show "word_bytes (memset_value (ucast b)) = replicate 4 b"
    using e [of 0] e [of 1] e [of 2] e [of 3] by (simp add: word_bytes_def l numeral_eq_Suc)
  show "ucast (memset_value (ucast b)) = b" using e [of 0] by simp
qed

lemma set_words_spec:
  assumes "word_bytes v = replicate 4 b"
  shows "d + 4 * n \<le> length m \<Longrightarrow> set_words m d v n = bindr (poke m d (replicate (4 * n) b)) (\<lambda>m'. Inr (m', d + 4 * n))"
proof (induction n arbitrary: m d)
  case (Suc n)
  obtain m1 where m1: "poke m d (replicate 4 b) = Inr m1" using Suc.prems by (simp add: poke_def)
  have "set_words m d v (Suc n) = set_words m1 (d + 4) v n" using m1 assms by simp
  also have "\<dots> = bindr (poke m1 (d + 4) (replicate (4 * n) b)) (\<lambda>m'. Inr (m', d + 4 * Suc n))"
    using Suc.prems poke_length [OF m1] by (subst Suc.IH) (auto simp: ac_simps)
  also have "poke m1 (d + 4) (replicate (4 * n) b) = poke m d (replicate (4 + 4 * n) b)"
    using poke_append [OF m1, of "replicate (4 * n) b"] by (simp only: length_replicate replicate_add)
  finally show ?case by simp
qed (simp add: poke_def)

lemma set_bytes_spec:
  assumes "ucast v = b"
    and "d + sz mod 4 \<le> length m"
  shows "set_bytes m d v sz = poke m d (replicate (sz mod 4) b)"
  using assms
proof (induction m d v sz rule: set_bytes.induct)
  case (1 m d v sz)
  show ?case
  proof (cases "sz mod 4 = 0")
    case True
    then show ?thesis using "1.prems" by (subst set_bytes.simps) (simp add: poke_def)
  next
    case False
    note k = mod4_pred [OF False]
    have "d + 1 \<le> length m" using "1.prems" k by linarith
    then obtain m1 where m1: "poke m d [ucast v] = Inr m1" by (simp add: poke_def)
    have "set_bytes m d v sz = set_bytes m1 (d + 1) v (sz - 1)"
      using m1 False by (subst set_bytes.simps) simp
    also have "\<dots> = poke m1 (d + 1) (replicate ((sz - 1) mod 4) (ucast v))"
      using "1.prems" poke_length [OF m1] k by (subst "1.IH" [OF False]) auto
    also have "\<dots> = poke m d (replicate (1 + (sz - 1) mod 4) (ucast v))"
      using poke_append [OF m1, of "replicate ((sz - 1) mod 4) (ucast v)"] by simp
    finally show ?thesis using "1.prems"(1) by (simp only: k)
  qed
qed

text \<open>\<open>__memset\<close> with a character value of one byte writes that byte to the whole range and
  nothing else.\<close>

theorem memset_fills:
  fixes b :: u8
  assumes "d + sz \<le> length m"
  shows "c_memset m d (ucast b) sz = Inr (take d m @ replicate sz b @ drop (d + sz) m)"
proof -
  let ?a = "4 * (sz div 4)" and ?r = "sz mod 4"
  have ab: "?a + ?r = sz" by simp
  have "d + ?a \<le> length m" using assms ab by linarith
  then obtain m1 where m1: "poke m d (replicate ?a b) = Inr m1" by (simp add: poke_def)
  have "c_memset m d (ucast b) sz = set_bytes m1 (d + ?a) (memset_value (ucast b)) sz"
    unfolding c_memset_def Let_def using set_words_spec [OF memset_value_bytes(1)] \<open>d + ?a \<le> length m\<close> m1 by simp
  also have "\<dots> = poke m1 (d + ?a) (replicate ?r b)"
    using assms ab poke_length [OF m1] by (intro set_bytes_spec memset_value_bytes(2)) linarith
  also have "\<dots> = poke m d (replicate (?a + ?r) b)"
    using poke_append [OF m1, of "replicate ?r b"] by (simp only: length_replicate replicate_add)
  finally show ?thesis using assms unfolding ab by (simp add: poke_def)
qed

theorem memset_fills_witness: "c_memset [1, 2, 3, 4, 5, 6, 7] 1 (ucast (9 :: u8)) 5 = Inr [1, 9, 9, 9, 9, 9, 7]"
  using memset_fills [of 1 5 "[1, 2, 3, 4, 5, 6, 7]" 9] by (simp add: numeral_eq_Suc)

text \<open>A wider character value is not cut to a byte: the words get its higher bytes mixed in, so the
  fill is not uniform.\<close>

theorem memset_wide_char_differs:
  "c_memset [0, 0, 0, 0, 0] 0 0x100 5 = Inr [0, 1, 1, 1, 0]"
  by code_simp

lemma memcmp_from_spec:
  "\<lbrakk>p + n \<le> length m; q + n \<le> length m\<rbrakk> \<Longrightarrow>
    \<exists>r. memcmp_from m p q n = Inr r \<and> (r = 0 \<longleftrightarrow> take n (drop p m) = take n (drop q m))"
proof (induction n arbitrary: p q)
  case (Suc n)
  have "drop p m = m ! p # drop (Suc p) m" "drop q m = m ! q # drop (Suc q) m"
    using Suc.prems by (simp_all add: Cons_nth_drop_Suc)
  then show ?case using Suc.IH [of "Suc p" "Suc q"] Suc.prems by (auto simp: word_uint_eq_iff [symmetric])
qed simp

text \<open>\<open>__memcmp\<close> stays inside the two ranges and is 0 exactly when they hold the same bytes.\<close>

theorem memcmp_zero_iff_equal:
  assumes "p + n \<le> length m" "q + n \<le> length m"
  shows "\<exists>r. c_memcmp m p q n = Inr r \<and> (r = 0 \<longleftrightarrow> take n (drop p m) = take n (drop q m))"
  using memcmp_from_spec [OF assms] by (simp add: c_memcmp_def)

theorem memcmp_zero_iff_equal_witness: "\<exists>r. c_memcmp [1, 2, 1, 3] 0 2 2 = Inr r \<and> r \<noteq> 0"
  using memcmp_zero_iff_equal [of 0 2 "[1, 2, 1, 3]" 2] by auto

subsection \<open>Strings\<close>

lemma c_strlen_spec: "NUL \<in> set cs \<Longrightarrow> c_strlen cs = Inr (length (c_str cs))"
  by (induction cs) (auto simp: c_str_def)

lemma signed_byte_inj:
  "(if a < 128 then a else a - 256) = (if b < 128 then b else b - 256) \<Longrightarrow> 0 \<le> a \<Longrightarrow> a < 256 \<Longrightarrow>
    0 \<le> b \<Longrightarrow> b < 256 \<Longrightarrow> a = (b :: int)"
  by (simp split: if_splits)

lemma char_value_inj: "char_value x = char_value y \<longleftrightarrow> x = y"
proof
  assume "char_value x = char_value y"
  moreover have "int (of_char x) < 256" "int (of_char y) < 256"
    using nat_of_char_less_256 [of x] nat_of_char_less_256 [of y] by linarith+
  ultimately have "int (of_char x) = int (of_char y)"
    unfolding char_value_def Let_def by (elim signed_byte_inj) (assumption | rule of_nat_0_le_iff)+
  then show "x = y" by simp
qed simp

lemma c_strcmp_eq:
  assumes "NUL \<in> set xs" "NUL \<in> set ys"
  obtains r where "c_strcmp xs ys = Inr r" "r = 0 \<longleftrightarrow> c_str xs = c_str ys"
proof -
  have "\<exists>r. c_strcmp xs ys = Inr r \<and> (r = 0 \<longleftrightarrow> c_str xs = c_str ys)"
    using assms
  proof (induction xs ys rule: c_strcmp.induct)
    case (1 x xs y ys)
    then show ?case by (auto simp: c_str_def char_value_inj)
  qed auto
  then show thesis using that by blast
qed

text \<open>On two terminated strings \<open>__strcmp\<close> stays inside both arrays and is 0 exactly when they are
  the same string.\<close>

theorem strcmp_zero_iff_equal:
  assumes "NUL \<in> set xs" "NUL \<in> set ys"
  shows "\<exists>r. c_strcmp xs ys = Inr r \<and> (r = 0 \<longleftrightarrow> c_str xs = c_str ys)"
  using c_strcmp_eq [OF assms] by metis

theorem strcmp_zero_iff_equal_witness:
  "\<exists>r. c_strcmp (''usr'' @ [NUL]) (''us'' @ [NUL]) = Inr r \<and> r \<noteq> 0"
  using strcmp_zero_iff_equal [of "''usr'' @ [NUL]" "''us'' @ [NUL]"] by (auto simp: c_str_def)


end
