(* ===== verification/Path.thy ===== *)
theory Path
  imports Memory_Ops
begin

text \<open>
  Parsed paths (\<open>common/path.cpp\<close>, \<open>path.hpp\<close>). A \<open>Path\<close> owns a string table, an array of
  characters on the heap, and an array of pointers to the segments in it. Tables are blocks with an
  identity, so that a pointer into the table of another path, and into a table that has been freed,
  is expressible: \<open>operator=\<close> copies the pointers of its source unchanged. The arrays of pointers are
  never shared and are part of the record.
\<close>

abbreviation SLASH :: char where "SLASH \<equiv> CHR ''/''"

record strheap =
  sh_blocks :: "nat \<Rightarrow> char list option"
  sh_next :: nat

type_synonym cptr = "nat \<times> nat"

record path =
  pa_count :: nat
  pa_ptrs :: "cptr list option"
  pa_tab_size :: nat
  pa_tab :: "nat option"
  pa_absolute :: bool

definition sh_alloc :: "strheap \<Rightarrow> char list \<Rightarrow> nat \<times> strheap" where
  "sh_alloc h cs = (sh_next h, h\<lparr>sh_blocks := (sh_blocks h)(sh_next h \<mapsto> cs), sh_next := Suc (sh_next h)\<rparr>)"

definition sh_get :: "strheap \<Rightarrow> nat option \<Rightarrow> char list result" where
  "sh_get h b = (case b of None \<Rightarrow> Inl Fault | Some n \<Rightarrow>
     (case sh_blocks h n of None \<Rightarrow> Inl Fault | Some cs \<Rightarrow> Inr cs))"

text \<open>The characters from a pointer on; a null pointer is \<open>None\<close>.\<close>

definition sh_from :: "strheap \<Rightarrow> cptr option \<Rightarrow> char list result" where
  "sh_from h q = (case q of None \<Rightarrow> Inl Fault | Some (b, off) \<Rightarrow>
     bindr (sh_get h (Some b)) (\<lambda>cs. Inr (drop off cs)))"

definition path_new :: path where
  "path_new = \<lparr>pa_count = 0, pa_ptrs = None, pa_tab_size = 0, pa_tab = None, pa_absolute = False\<rparr>"

definition path_dealloc :: "strheap \<Rightarrow> path \<Rightarrow> strheap \<times> path" where
  "path_dealloc h p = ((case pa_tab p of None \<Rightarrow> h | Some b \<Rightarrow> h\<lparr>sh_blocks := (sh_blocks h)(b := None)\<rparr>),
     p\<lparr>pa_ptrs := None, pa_tab := None\<rparr>)"

text \<open>The two loops of \<open>parse\<close> over the table: the number of segments, and their offsets together with
  the table whose slashes are zeroed.\<close>

fun parse_count :: "bool \<Rightarrow> string \<Rightarrow> nat" where
  "parse_count prev [] = 0"
| "parse_count prev (c # cs) = (if prev then 1 else 0) + parse_count (c = SLASH) cs"

fun parse_scan :: "nat \<Rightarrow> bool \<Rightarrow> string \<Rightarrow> nat list \<times> char list" where
  "parse_scan i prev [] = ([], [])"
| "parse_scan i prev (c # cs) = (let (ps, t) = parse_scan (Suc i) (c = SLASH) cs in
     (if prev then i # ps else ps, (if c = SLASH then NUL else c) # t))"

definition path_parse :: "strheap \<Rightarrow> path \<Rightarrow> string \<Rightarrow> strheap \<times> path" where
  "path_parse h p s = (let (h1, p1) = path_dealloc h p; p2 = p1\<lparr>pa_count := 0\<rparr> in
     if s = [] then (h1, p2)
     else let len = length s; n = parse_count False s; (ps, t) = parse_scan 0 False s;
              (b, h2) = sh_alloc h1 ((if n > 0 then t else s) @ [NUL]);
              p3 = p2\<lparr>pa_absolute := (hd s = SLASH), pa_tab := Some b, pa_tab_size := len + 1, pa_count := n\<rparr> in
          (h2, if n > 0 then p3\<lparr>pa_ptrs := Some (map (\<lambda>i. (b, i)) ps)\<rparr> else p3))"

definition ptrs_of :: "path \<Rightarrow> nat \<Rightarrow> cptr list result" where
  "ptrs_of p n = (if n = 0 then Inr [] else case pa_ptrs p of None \<Rightarrow> Inl Fault | Some ps \<Rightarrow> peek ps 0 n)"

definition tab_of :: "strheap \<Rightarrow> path \<Rightarrow> nat \<Rightarrow> char list result" where
  "tab_of h p n = (if n = 0 then Inr [] else bindr (sh_get h (pa_tab p)) (\<lambda>cs. peek cs 0 n))"

definition path_assign :: "strheap \<Rightarrow> path \<Rightarrow> path \<Rightarrow> (strheap \<times> path) result" where
  "path_assign h dst src = (let (h1, d1) = path_dealloc h dst in
     bindr (ptrs_of src (pa_count src)) (\<lambda>ps.
     bindr (tab_of h1 src (pa_tab_size src)) (\<lambda>t.
       let (b, h2) = sh_alloc h1 t in
       Inr (h2, d1\<lparr>pa_ptrs := Some ps, pa_tab := Some b, pa_count := pa_count src, pa_tab_size := pa_tab_size src\<rparr>))))"

definition path_copy :: "strheap \<Rightarrow> path \<Rightarrow> (strheap \<times> path) result" where
  "path_copy h src = path_assign h path_new src"

definition path_get :: "path \<Rightarrow> nat \<Rightarrow> cptr option result" where
  "path_get p i = (if pa_count p \<le> i then Inr None
     else case pa_ptrs p of None \<Rightarrow> Inl Fault | Some ps \<Rightarrow> bindr (nth_r ps i) (\<lambda>q. Inr (Some q)))"

definition path_is_root :: "path \<Rightarrow> bool" where
  "path_is_root p \<longleftrightarrow> pa_count p = 0"

definition path_filename :: "path \<Rightarrow> cptr option result" where
  "path_filename p = (case pa_ptrs p of None \<Rightarrow> Inl Fault
     | Some ps \<Rightarrow> if pa_count p = 0 then Inl Fault else bindr (nth_r ps (pa_count p - 1)) (\<lambda>q. Inr (Some q)))"

fun path_in_from :: "strheap \<Rightarrow> path \<Rightarrow> path \<Rightarrow> nat \<Rightarrow> nat \<Rightarrow> bool result" where
  "path_in_from h p q i 0 = Inr True"
| "path_in_from h p q i (Suc n) =
     bindr (path_get p i) (\<lambda>x. bindr (path_get q i) (\<lambda>y.
     bindr (sh_from h x) (\<lambda>xs. bindr (sh_from h y) (\<lambda>ys.
     bindr (c_strcmp xs ys) (\<lambda>r. if r \<noteq> 0 then Inr False else path_in_from h p q (Suc i) n)))))"

definition path_in :: "strheap \<Rightarrow> path \<Rightarrow> path \<Rightarrow> bool result" where
  "path_in h p q = (if pa_count p > pa_count q then Inr False else path_in_from h p q 0 (pa_count q))"

definition path_parent :: "strheap \<Rightarrow> path \<Rightarrow> (strheap \<times> path) result" where
  "path_parent h p = (if pa_count p \<le> 1 then Inr (h, path_new)
     else bindr (path_get p (pa_count p - 1)) (\<lambda>q. case q of None \<Rightarrow> Inl Fault | Some (b, off) \<Rightarrow>
       if pa_tab p \<noteq> Some b then Inl Fault
       else bindr (ptrs_of p (pa_count p - 1)) (\<lambda>ps. bindr (tab_of h p off) (\<lambda>t.
         let (b', h2) = sh_alloc h t in
         Inr (h2, path_new\<lparr>pa_count := pa_count p - 1, pa_tab_size := off, pa_ptrs := Some ps, pa_tab := Some b'\<rparr>)))))"

definition path_parent_as_entry_of :: "path \<Rightarrow> path \<Rightarrow> cptr option result" where
  "path_parent_as_entry_of p q = (if pa_count p \<ge> pa_count q then Inr None else path_get q (pa_count p))"

text \<open>\<open>resolve\<close> of a relative path sizes the new table with the number of segments of the argument
  (\<open>str_tab_size + path.count\<close>) and then copies the argument's whole table into it; \<open>junk\<close> is what
  the fresh table holds.\<close>

definition path_resolve :: "char list \<Rightarrow> strheap \<Rightarrow> path \<Rightarrow> path \<Rightarrow> (strheap \<times> path) result" where
  "path_resolve junk h p q = (if pa_absolute q then path_copy h q
     else bindr (ptrs_of p (pa_count p)) (\<lambda>ps. bindr (ptrs_of q (pa_count q)) (\<lambda>qs.
       bindr (tab_of h p (pa_tab_size p)) (\<lambda>t. bindr (tab_of h q (pa_tab_size q)) (\<lambda>u.
         bindr (poke (take (pa_tab_size p + pa_count q) junk) 0 t) (\<lambda>t1.
         bindr (poke t1 (pa_tab_size p) u) (\<lambda>t2.
           let (b, h2) = sh_alloc h t2 in
           Inr (h2, path_new\<lparr>pa_count := pa_count p + pa_count q, pa_tab_size := pa_tab_size p + pa_count q,
             pa_ptrs := Some (ps @ qs), pa_tab := Some b\<rparr>))))))))"

subsection \<open>The segments a path denotes\<close>

text \<open>What the parser makes of a string: one segment behind every slash that is not the last
  character, up to the next slash.\<close>

fun path_segs :: "string \<Rightarrow> string list" where
  "path_segs [] = []"
| "path_segs (c # cs) = (if c = SLASH \<and> cs \<noteq> [] then takeWhile (\<lambda>x. x \<noteq> SLASH) cs # path_segs cs else path_segs cs)"

definition path_rep :: "strheap \<Rightarrow> path \<Rightarrow> string list \<Rightarrow> bool" where
  "path_rep h p ss \<longleftrightarrow> pa_count p = length ss \<and> (\<forall>i < length ss. \<exists>q cs. path_get p i = Inr (Some q)
     \<and> sh_from h (Some q) = Inr cs \<and> NUL \<in> set cs \<and> c_str cs = ss ! i)"

lemma parse_count_segs: "parse_count prev s = length (path_segs ((if prev then [SLASH] else []) @ s))"
  by (induction prev s rule: parse_count.induct) auto

lemma parse_scan_table: "snd (parse_scan i prev s) = map (\<lambda>c. if c = SLASH then NUL else c) s"
  by (induction i prev s rule: parse_scan.induct) (auto split: prod.splits)

lemma parse_scan_count: "length (fst (parse_scan i prev s)) = parse_count prev s"
  by (induction i prev s rule: parse_scan.induct) (auto split: prod.splits)

lemma table_segment:
  "NUL \<notin> set s \<Longrightarrow> c_str (map (\<lambda>c. if c = SLASH then NUL else c) s @ [NUL]) = takeWhile (\<lambda>x. x \<noteq> SLASH) s"
  unfolding c_str_def by (induction s) auto

lemma parse_scan_segs:
  assumes "NUL \<notin> set s"
  shows "map (\<lambda>j. c_str (drop (j - i) (map (\<lambda>c. if c = SLASH then NUL else c) s @ [NUL]))) (fst (parse_scan i prev s))
      = path_segs ((if prev then [SLASH] else []) @ s)
    \<and> (\<forall>j \<in> set (fst (parse_scan i prev s)). i \<le> j \<and> j < i + length s)"
  using assms
proof (induction i prev s rule: parse_scan.induct)
  case (2 i prev c cs)
  let ?t = "\<lambda>s. map (\<lambda>c. if c = SLASH then NUL else c) s @ [NUL]"
  obtain ps t where scan: "parse_scan (Suc i) (c = SLASH) cs = (ps, t)" by fastforce
  have IH: "map (\<lambda>j. c_str (drop (j - Suc i) (?t cs))) ps = path_segs ((if c = SLASH then [SLASH] else []) @ cs)"
    "\<forall>j \<in> set ps. Suc i \<le> j \<and> j < Suc i + length cs" using 2 scan by auto
  have "map (\<lambda>j. c_str (drop (j - i) (?t (c # cs)))) ps = map (\<lambda>j. c_str (drop (j - Suc i) (?t cs))) ps"
  proof (intro map_cong refl)
    fix j assume "j \<in> set ps"
    then have "i < j" using IH(2) by auto
    then have "j - i = Suc (j - Suc i)" by simp
    then show "c_str (drop (j - i) (?t (c # cs))) = c_str (drop (j - Suc i) (?t cs))" by simp
  qed
  then have m: "map (\<lambda>j. c_str (drop (j - i) (?t (c # cs)))) ps = path_segs ((if c = SLASH then [SLASH] else []) @ cs)"
    using IH(1) by (rule trans)
  have h: "c_str (drop (i - i) (?t (c # cs))) = takeWhile (\<lambda>x. x \<noteq> SLASH) (c # cs)"
    using table_segment [OF 2(2)] by (simp only: diff_self_eq_0 drop0)
  have f: "fst (parse_scan i prev (c # cs)) = (if prev then i # ps else ps)" by (simp add: scan)
  have "path_segs ((if c = SLASH then [SLASH] else []) @ cs) = path_segs (c # cs)" by simp
  then have "map (\<lambda>j. c_str (drop (j - i) (?t (c # cs)))) (if prev then i # ps else ps)
      = path_segs ((if prev then [SLASH] else []) @ c # cs)"
    using m h by (cases prev) (simp_all only: list.map(2) if_True if_False append_Cons append_Nil path_segs.simps list.distinct simp_thms)
  then show ?case unfolding f using IH(2) by (cases prev) auto
qed simp


lemma path_dealloc_fresh: "pa_tab p = None \<Longrightarrow> path_dealloc h p = (h, p\<lparr>pa_ptrs := None\<rparr>)"
  by (simp add: path_dealloc_def)

lemma path_parse_spec:
  assumes "s \<noteq> []" "NUL \<notin> set s" "path_parse h p s = (h', q)"
  shows "path_rep h' q (path_segs s)" and "pa_absolute q = (hd s = SLASH)" and "pa_tab_size q = length s + 1"
    and "\<exists>b. pa_tab q = Some b \<and> (\<forall>i < pa_count q. \<exists>off. path_get q i = Inr (Some (b, off)))"
    and "\<exists>b cs. pa_tab q = Some b \<and> sh_blocks h' b = Some cs \<and> length cs = length s + 1"
    and "pa_count q = 0 \<or> (\<exists>ps. pa_ptrs q = Some ps \<and> length ps = pa_count q)"
proof -
  let ?n = "length (path_segs s)" and ?t = "map (\<lambda>c. if c = SLASH then NUL else c) s"
  obtain h1 p1 where d: "path_dealloc h p = (h1, p1)" by fastforce
  obtain ps t where sc: "parse_scan 0 False s = (ps, t)" by fastforce
  have t: "t = ?t" using parse_scan_table [of 0 False s] sc by simp
  have n: "parse_count False s = ?n" "length ps = ?n"
    using parse_count_segs [of False s] parse_scan_count [of 0 False s] sc by simp_all
  have seg: "map (\<lambda>j. c_str (drop j (?t @ [NUL]))) ps = path_segs s" "\<forall>j \<in> set ps. j < length s"
    using parse_scan_segs [OF assms(2), of 0 False] sc by auto
  define b where "b = sh_next h1"
  define tab where "tab = (if ?n > 0 then ?t else s) @ [NUL]"
  have h': "sh_blocks h' b = Some tab"
    and q: "pa_count q = ?n" "pa_ptrs q = (if ?n > 0 then Some (map (\<lambda>i. (b, i)) ps) else pa_ptrs p1)"
      "pa_tab q = Some b" "pa_absolute q = (hd s = SLASH)" "pa_tab_size q = length s + 1"
    using assms(1,3) d sc n t unfolding path_parse_def by (auto simp: Let_def sh_alloc_def b_def tab_def split: if_splits)
  have lt: "length tab = length s + 1" by (simp add: tab_def)
  have get: "path_get q i = Inr (Some (b, ps ! i))" "sh_from h' (Some (b, ps ! i)) = Inr (drop (ps ! i) tab)"
    "NUL \<in> set (drop (ps ! i) tab)" "c_str (drop (ps ! i) tab) = path_segs s ! i" if "i < ?n" for i
  proof -
    have i: "i < length ps" "?n > 0" "ps ! i < length s" using that n seg(2) by auto
    show "path_get q i = Inr (Some (b, ps ! i))" using q i that by (simp add: path_get_def)
    show "sh_from h' (Some (b, ps ! i)) = Inr (drop (ps ! i) tab)" by (simp add: sh_from_def sh_get_def h')
    show "NUL \<in> set (drop (ps ! i) tab)" using i by (simp add: tab_def)
    have "path_segs s ! i = c_str (drop (ps ! i) (?t @ [NUL]))"
      unfolding seg(1) [symmetric] by (rule nth_map [OF i(1)])
    then show "c_str (drop (ps ! i) tab) = path_segs s ! i" using i(2) by (simp add: tab_def)
  qed
  show "path_rep h' q (path_segs s)" using get q(1) unfolding path_rep_def by blast
  show "pa_absolute q = (hd s = SLASH)" "pa_tab_size q = length s + 1" by (fact q)+
  show "\<exists>b. pa_tab q = Some b \<and> (\<forall>i < pa_count q. \<exists>off. path_get q i = Inr (Some (b, off)))"
    using get(1) q by auto
  show "\<exists>b cs. pa_tab q = Some b \<and> sh_blocks h' b = Some cs \<and> length cs = length s + 1" using q h' lt by auto
  show "pa_count q = 0 \<or> (\<exists>ps. pa_ptrs q = Some ps \<and> length ps = pa_count q)" using q n by auto
qed

text \<open>Parsing an absolute path yields exactly its segments: they can be read back through \<open>get\<close>, each
  terminated, in order, and the path is marked absolute.\<close>

theorem parse_yields_segments:
  assumes "NUL \<notin> set cs" "path_parse h p (SLASH # cs) = (h', q)"
  shows "path_rep h' q (path_segs (SLASH # cs)) \<and> pa_absolute q"
proof -
  have "NUL \<notin> set (SLASH # cs)" using assms(1) by simp
  from path_parse_spec(1,2) [OF _ this assms(2)] show ?thesis by simp
qed

definition demo_strings :: strheap where
  "demo_strings = \<lparr>sh_blocks = (\<lambda>_. None), sh_next = 1\<rparr>"

theorem parse_yields_segments_witness:
  "path_rep (fst (path_parse demo_strings path_new ''/usr/bin''))
     (snd (path_parse demo_strings path_new ''/usr/bin'')) [''usr'', ''bin'']"
  using parse_yields_segments [of "''usr/bin''" demo_strings path_new] by (simp add: prod_eq_iff)

text \<open>The first segment of a relative path is lost: a path without a slash, such as a plain file name,
  parses to no segments at all and so denotes the root.\<close>

theorem plain_name_parses_to_root:
  assumes "NUL \<notin> set s" "SLASH \<notin> set s" "s \<noteq> []" "path_parse h p s = (h', q)"
  shows "path_is_root q \<and> \<not> pa_absolute q"
proof -
  have "path_segs s = []" using assms(2) by (induction s) auto
  then show ?thesis using path_parse_spec(1,2) [OF assms(3,1,4)] assms(2,3)
    by (cases s) (auto simp: path_is_root_def path_rep_def)
qed

theorem plain_name_parses_to_root_witness:
  "path_is_root (snd (path_parse demo_strings path_new ''init''))"
  using plain_name_parses_to_root [of "''init''" demo_strings path_new] by (simp add: prod_eq_iff)


subsection \<open>Comparing, resolving and copying\<close>

lemma path_in_from_spec:
  assumes "path_rep h p ss" "path_rep h q ts"
  shows "\<lbrakk>i + n \<le> length ss; i + n \<le> length ts\<rbrakk> \<Longrightarrow>
    path_in_from h p q i n = Inr (take n (drop i ss) = take n (drop i ts))"
proof (induction n arbitrary: i)
  case (Suc n)
  have i: "i < length ss" "i < length ts" using Suc.prems by simp_all
  obtain x xs where x: "path_get p i = Inr (Some x)" "sh_from h (Some x) = Inr xs" "NUL \<in> set xs" "c_str xs = ss ! i"
    using assms(1) i(1) unfolding path_rep_def by blast
  obtain y ys where y: "path_get q i = Inr (Some y)" "sh_from h (Some y) = Inr ys" "NUL \<in> set ys" "c_str ys = ts ! i"
    using assms(2) i(2) unfolding path_rep_def by blast
  obtain r where r: "c_strcmp xs ys = Inr r" "r = 0 \<longleftrightarrow> ss ! i = ts ! i"
    using c_strcmp_eq [OF x(3) y(3)] x(4) y(4) by metis
  have "drop i ss = ss ! i # drop (Suc i) ss" "drop i ts = ts ! i # drop (Suc i) ts"
    using i by (simp_all add: Cons_nth_drop_Suc)
  then show ?case using x(1,2) y(1,2) r Suc.IH [of "Suc i"] Suc.prems by auto
qed simp

lemma path_in_from_beyond:
  assumes "path_rep h p ss" "path_rep h q ts" "i + n = length ts" "length ss < length ts" "i \<le> length ss"
    and "drop i ss = take (length ss - i) (drop i ts)"
  shows "path_in_from h p q i n = Inl Fault"
  using assms(3,5,6)
proof (induction n arbitrary: i)
  case 0
  then show ?case using assms(4) by simp
next
  case (Suc n)
  have it: "i < length ts" using Suc.prems(1) by simp
  obtain y ys where y: "path_get q i = Inr (Some y)" "sh_from h (Some y) = Inr ys" "NUL \<in> set ys" "c_str ys = ts ! i"
    using assms(2) it unfolding path_rep_def by blast
  show ?case
  proof (cases "i < length ss")
    case False
    then have "path_get p i = Inr None" using assms(1) by (simp add: path_get_def path_rep_def)
    then show ?thesis using y by (simp add: sh_from_def)
  next
    case True
    obtain x xs where x: "path_get p i = Inr (Some x)" "sh_from h (Some x) = Inr xs" "NUL \<in> set xs" "c_str xs = ss ! i"
      using assms(1) True unfolding path_rep_def by blast
    have d: "drop i ss = ss ! i # drop (Suc i) ss" "drop i ts = ts ! i # drop (Suc i) ts"
      using True it by (simp_all add: Cons_nth_drop_Suc)
    have l: "length ss - i = Suc (length ss - Suc i)" using True by simp
    have eq: "ss ! i = ts ! i" "drop (Suc i) ss = take (length ss - Suc i) (drop (Suc i) ts)"
      using Suc.prems(3) unfolding d l by simp_all
    obtain r where "c_strcmp xs ys = Inr r" "r = 0" using c_strcmp_eq [OF x(3) y(3)] x(4) y(4) eq(1) by metis
    then show ?thesis using x y Suc.IH [of "Suc i"] Suc.prems(1) True eq(2) by simp
  qed
qed

text \<open>\<open>in\<close> compares whole paths: on paths of the same length it says whether their segments are
  equal. It cannot recognise a path below another one: when the first is a proper prefix of the
  second it compares the null segment behind the first one's end.\<close>

theorem in_is_equality_or_faults:
  assumes "path_rep h p ss" "path_rep h q ts"
  shows "(length ss = length ts \<longrightarrow> path_in h p q = Inr (ss = ts))
    \<and> (length ss > length ts \<longrightarrow> path_in h p q = Inr False)
    \<and> (length ss < length ts \<and> ss = take (length ss) ts \<longrightarrow> path_in h p q = Inl Fault)"
proof -
  have c: "pa_count p = length ss" "pa_count q = length ts" using assms by (simp_all add: path_rep_def)
  have "path_in h p q = Inr (ss = ts)" if "length ss = length ts"
    using path_in_from_spec [OF assms, of 0 "length ts"] that c by (simp add: path_in_def)
  moreover have "path_in h p q = Inl Fault" if "length ss < length ts" "ss = take (length ss) ts"
    using path_in_from_beyond [OF assms, of 0 "length ts"] that c by (simp add: path_in_def)
  ultimately show ?thesis using c by (auto simp: path_in_def)
qed

definition demo_two :: "strheap \<times> path \<times> path" where
  "demo_two = (let (h1, p) = path_parse demo_strings path_new ''/a''; (h2, q) = path_parse h1 path_new ''/a/b'' in (h2, p, q))"

lemma demo_two_rep: "path_rep (fst demo_two) (fst (snd demo_two)) [''a'']" "path_rep (fst demo_two) (snd (snd demo_two)) [''a'', ''b'']"
  by (simp_all add: demo_two_def demo_strings_def path_rep_def path_new_def path_parse_def path_dealloc_def sh_alloc_def
    path_get_def sh_from_def sh_get_def c_str_def All_less_Suc numeral_eq_Suc Let_def)

theorem in_is_equality_or_faults_witness: "path_in (fst demo_two) (fst (snd demo_two)) (snd (snd demo_two)) = Inl Fault"
  using in_is_equality_or_faults [OF demo_two_rep] by simp

text \<open>Resolving a parsed relative path always writes past the end of the new table: it is sized by the
  number of segments of the argument instead of the size of its table.\<close>

theorem resolve_relative_overflows:
  assumes "NUL \<notin> set s" "s \<noteq> []" "hd s \<noteq> SLASH" "path_parse h0 path_new s = (h, q)"
  shows "\<not> returns (path_resolve junk h p q)"
proof -
  note P = path_parse_spec [OF assms(2,1,4)]
  obtain b cs where b: "pa_tab q = Some b" "sh_blocks h b = Some cs" "length cs = length s + 1" using P(5) by blast
  have "length (path_segs s) \<le> length s" by (induction s) auto
  then have lt: "pa_count q < pa_tab_size q" using P(1,3) by (simp add: path_rep_def)
  have tq: "tab_of h q (pa_tab_size q) = Inr cs" using b P(3) by (simp add: tab_of_def sh_get_def)
  have "poke t1 (pa_tab_size p) cs = Inl Fault" if "poke (take (pa_tab_size p + pa_count q) junk) 0 t = Inr t1" for t t1
    using poke_length [OF that] lt b(3) P(3) by (intro poke_out) simp
  then show ?thesis using P(2) assms(3) tq
    by (auto simp: path_resolve_def returns_iff bindr_Inr_iff)
qed

theorem resolve_relative_overflows_witness:
  "\<not> returns (path_resolve ''xxxxxxxx'' (fst (path_parse demo_strings path_new ''usr/bin''))
      (path_new\<lparr>pa_tab_size := 2, pa_tab := Some 7\<rparr>) (snd (path_parse demo_strings path_new ''usr/bin'')))"
  using resolve_relative_overflows [of "''usr/bin''" demo_strings] by (simp add: prod_eq_iff)

text \<open>Resolving an absolute path returns a copy whose segments point into the table of the argument:
  once the argument is destroyed, as the temporary in a system call is, reading any segment of the
  result is a use after free.\<close>

theorem resolve_absolute_dangles:
  assumes "NUL \<notin> set s" "s \<noteq> []" "hd s = SLASH" "path_parse h0 path_new s = (h, q)"
  shows "\<exists>h1 r. path_resolve junk h p q = Inr (h1, r) \<and> pa_count r = length (path_segs s) \<and> \<not> pa_absolute r
    \<and> (\<forall>i < pa_count r. \<exists>c. path_get r i = Inr (Some c) \<and> sh_from (fst (path_dealloc h1 q)) (Some c) = Inl Fault)"
proof -
  note P = path_parse_spec [OF assms(2,1,4)]
  obtain b cs where b: "pa_tab q = Some b" "sh_blocks h b = Some cs" "length cs = length s + 1" using P(5) by blast
  have tq: "tab_of h q (pa_tab_size q) = Inr cs" using b P(3) by (simp add: tab_of_def sh_get_def)
  obtain ps where ps: "ptrs_of q (pa_count q) = Inr ps" "pa_count q \<noteq> 0 \<longrightarrow> pa_ptrs q = Some ps \<and> length ps = pa_count q"
  proof (cases "pa_count q = 0")
    case True
    then show ?thesis by (intro that [of "[]"]) (simp_all add: ptrs_of_def)
  next
    case False
    then obtain ps where "pa_ptrs q = Some ps" "length ps = pa_count q" using P(6) by auto
    then show ?thesis using False by (intro that [of ps]) (simp_all add: ptrs_of_def)
  qed
  define r where "r = path_new\<lparr>pa_ptrs := Some ps, pa_tab := Some (sh_next h), pa_count := pa_count q, pa_tab_size := pa_tab_size q\<rparr>"
  define h1 where "h1 = snd (sh_alloc h cs)"
  have "path_copy h q = Inr (h1, r)"
    using tq ps(1) by (simp add: path_copy_def path_assign_def path_dealloc_def path_new_def sh_alloc_def r_def h1_def)
  then have res: "path_resolve junk h p q = Inr (h1, r)" using P(2) assms(3) by (simp add: path_resolve_def)
  have rs: "pa_count r = length (path_segs s)" "\<not> pa_absolute r" using P(1) by (simp_all add: r_def path_new_def path_rep_def)
  have "\<exists>c. path_get r i = Inr (Some c) \<and> sh_from (fst (path_dealloc h1 q)) (Some c) = Inl Fault" if "i < pa_count r" for i
  proof -
    have i: "i < pa_count q" using that by (simp add: r_def path_new_def)
    obtain b' off where "pa_tab q = Some b'" "path_get q i = Inr (Some (b', off))" using P(4) i by blast
    then have "path_get r i = Inr (Some (b, off))" using ps(2) i b(1) by (auto simp: path_get_def r_def path_new_def)
    moreover have "sh_from (fst (path_dealloc h1 q)) (Some (b, off)) = Inl Fault"
      using b(1) by (simp add: path_dealloc_def sh_from_def sh_get_def)
    ultimately show ?thesis by blast
  qed
  then show ?thesis using res rs by blast
qed

theorem resolve_absolute_dangles_witness:
  "\<exists>h1 r. path_resolve [] (fst (path_parse demo_strings path_new ''/bin'')) path_new (snd (path_parse demo_strings path_new ''/bin''))
      = Inr (h1, r) \<and> pa_count r = 1"
  using resolve_absolute_dangles [of "''/bin''" demo_strings "fst (path_parse demo_strings path_new ''/bin'')"
      "snd (path_parse demo_strings path_new ''/bin'')" "[]" path_new] by auto

text \<open>The parent of a path with at least two segments has the segments but the last one, as long as the
  path itself lives.\<close>

theorem parent_drops_last:
  assumes "NUL \<notin> set s" "s \<noteq> []" "path_parse h0 path_new s = (h, q)" "2 \<le> length (path_segs s)" "sh_blocks h (sh_next h) = None"
  shows "\<exists>h1 r. path_parent h q = Inr (h1, r) \<and> path_rep h1 r (butlast (path_segs s))"
proof -
  note P = path_parse_spec [OF assms(2,1,3)]
  obtain b cs where b: "pa_tab q = Some b" "sh_blocks h b = Some cs" "length cs = length s + 1" using P(5) by blast
  have n: "pa_count q = length (path_segs s)" using P(1) by (simp add: path_rep_def)
  then obtain ps where ps: "pa_ptrs q = Some ps" "length ps = pa_count q" using P(6) assms(4) by auto
  let ?m = "pa_count q - 1"
  have m: "?m < pa_count q" "0 < ?m" using n assms(4) by linarith+
  obtain off xs where off: "path_get q ?m = Inr (Some (b, off))" "sh_from h (Some (b, off)) = Inr xs" "NUL \<in> set xs"
    using P(1,4) b(1) m(1) n unfolding path_rep_def by (metis Inr_inject option.inject)
  have "off \<le> length cs" using off(2,3) b(2) by (cases "off \<le> length cs") (auto simp: sh_from_def sh_get_def)
  then have t: "tab_of h q off = Inr (take off cs)" using b by (simp add: tab_of_def sh_get_def)
  define r where "r = path_new\<lparr>pa_count := ?m, pa_tab_size := off, pa_ptrs := Some (take ?m ps), pa_tab := Some (sh_next h)\<rparr>"
  have "path_parent h q = Inr (snd (sh_alloc h (take off cs)), r)"
    using off(1) b(1) t ps m by (simp add: path_parent_def ptrs_of_def sh_alloc_def r_def)
  moreover have "path_rep (snd (sh_alloc h (take off cs))) r (butlast (path_segs s))"
    unfolding path_rep_def
  proof (intro conjI allI impI)
    show "pa_count r = length (butlast (path_segs s))" using n by (simp add: r_def)
    fix i assume i: "i < length (butlast (path_segs s))"
    then obtain c zs where c: "path_get q i = Inr (Some c)" "sh_from h (Some c) = Inr zs" "NUL \<in> set zs" "c_str zs = path_segs s ! i"
      using P(1) unfolding path_rep_def by (metis (no_types, lifting) diff_le_self le_trans length_butlast linorder_not_less)
    have "path_get r i = Inr (Some c)" using c(1) i n ps by (auto simp: path_get_def r_def nth_r_def split: if_splits)
    moreover have "fst c \<noteq> sh_next h" using c(2) assms(5) by (auto simp: sh_from_def sh_get_def split: prod.splits)
    then have "sh_from (snd (sh_alloc h (take off cs))) (Some c) = Inr zs"
      using c(2) by (simp add: sh_from_def sh_get_def sh_alloc_def split: prod.splits)
    ultimately show "\<exists>q' cs'. path_get r i = Inr (Some q') \<and> sh_from (snd (sh_alloc h (take off cs))) (Some q') = Inr cs'
        \<and> NUL \<in> set cs' \<and> c_str cs' = butlast (path_segs s) ! i"
      using c(3,4) i by (auto simp: nth_butlast)
  qed
  ultimately show ?thesis by blast
qed

theorem parent_drops_last_witness:
  "\<exists>h1 r. path_parent (fst (path_parse demo_strings path_new ''/usr/bin'')) (snd (path_parse demo_strings path_new ''/usr/bin''))
     = Inr (h1, r) \<and> path_rep h1 r [''usr'']"
proof -
  have "sh_blocks (fst (path_parse demo_strings path_new ''/usr/bin''))
      (sh_next (fst (path_parse demo_strings path_new ''/usr/bin''))) = None"
    by (simp add: demo_strings_def path_parse_def path_new_def path_dealloc_def sh_alloc_def Let_def split: prod.splits)
  then show ?thesis
    using parent_drops_last [of "''/usr/bin''" demo_strings "fst (path_parse demo_strings path_new ''/usr/bin'')"
      "snd (path_parse demo_strings path_new ''/usr/bin'')"] by simp
qed

end
