(* ===== verification/Containers.thy ===== *)
theory Containers
  imports Prelude
begin

text \<open>
  The growing array \<open>Vec\<close> (\<open>common/vec.hpp\<close>), the bounded \<open>Queue\<close> (\<open>common/queue.hpp\<close>) and the
  read-only view \<open>ROVec\<close> (\<open>common/rovec.hpp\<close>). The allocator is the parameter \<open>mem\<close>: the contents
  of a fresh block of \<open>n\<close> cells, or \<open>None\<close> when the allocation fails; \<open>avail\<close> says whether the kernel
  heap is up; \<open>d\<close> is the default value \<open>T()\<close>. Destructors of the elements are not modelled (the
  elements of every instance in the kernel are plain data or pointers).
\<close>

type_synonym 'a mem = "nat \<Rightarrow> 'a list option"

record 'a vec =
  v_count :: nat
  v_capacity :: nat
  v_array :: "'a list option"

definition VEC_NOT_FOUND :: usize where
  "VEC_NOT_FOUND = 0xffffffff"

text \<open>\<open>alloc_array\<close> default-initialises the cells below \<open>count\<close>.\<close>

definition vec_alloc :: "'a mem \<Rightarrow> 'a \<Rightarrow> 'a vec \<Rightarrow> 'a vec" where
  "vec_alloc mem d v = (if v_array v \<noteq> None \<or> v_capacity v = 0 then v
     else v\<lparr>v_array := map_option (\<lambda>cs. replicate (min (v_count v) (length cs)) d @ drop (v_count v) cs) (mem (v_capacity v))\<rparr>)"

text \<open>The constructor: the assignment \<open>capacity = 0\<close> reaches the parameter, not the member.\<close>

definition vec_new :: "'a mem \<Rightarrow> 'a \<Rightarrow> nat \<Rightarrow> 'a vec" where
  "vec_new mem d capacity = vec_alloc mem d \<lparr>v_count = 0, v_capacity = capacity, v_array = None\<rparr>"

definition vec_init :: "bool \<Rightarrow> 'a mem \<Rightarrow> 'a \<Rightarrow> 'a vec \<Rightarrow> 'a vec result" where
  "vec_init avail mem d v = (if v_array v \<noteq> None then Inr v
     else if \<not> avail then Inl Panic else Inr (vec_alloc mem d v))"

definition vec_expand :: "'a mem \<Rightarrow> 'a \<Rightarrow> 'a vec \<Rightarrow> 'a vec" where
  "vec_expand mem d v = (let v1 = v\<lparr>v_capacity := v_capacity v + 16\<rparr> in
     case v_array v of None \<Rightarrow> vec_alloc mem d v1
     | Some cs \<Rightarrow> v1\<lparr>v_array := map_option (\<lambda>new. cs @ drop (length cs) new) (mem (v_capacity v1))\<rparr>)"

definition vec_store :: "'a vec \<Rightarrow> nat \<Rightarrow> 'a \<Rightarrow> 'a vec result" where
  "vec_store v i x = (case v_array v of None \<Rightarrow> Inl Fault
     | Some cs \<Rightarrow> bindr (upd_r cs i x) (\<lambda>cs'. Inr (v\<lparr>v_array := Some cs'\<rparr>)))"

definition vec_load :: "'a vec \<Rightarrow> nat \<Rightarrow> 'a result" where
  "vec_load v i = (case v_array v of None \<Rightarrow> Inl Fault | Some cs \<Rightarrow> nth_r cs i)"

fun vec_fill :: "'a \<Rightarrow> 'a vec \<Rightarrow> nat \<Rightarrow> nat \<Rightarrow> 'a vec result" where
  "vec_fill d v i 0 = Inr v"
| "vec_fill d v i (Suc n) = bindr (vec_store v i d) (\<lambda>v'. vec_fill d v' (Suc i) n)"

definition vec_resize :: "'a mem \<Rightarrow> 'a \<Rightarrow> 'a vec \<Rightarrow> nat \<Rightarrow> 'a vec result" where
  "vec_resize mem d v n = (let v1 = (if n > v_capacity v then vec_expand mem d v else v) in
     bindr (vec_fill d v1 (v_count v) (n - v_count v)) (\<lambda>v2. Inr (v2\<lparr>v_count := n\<rparr>)))"

definition vec_append :: "bool \<Rightarrow> 'a mem \<Rightarrow> 'a \<Rightarrow> 'a vec \<Rightarrow> 'a \<Rightarrow> 'a vec result" where
  "vec_append avail mem d v x = bindr (vec_init avail mem d v) (\<lambda>v1.
     bindr (vec_resize mem d v1 (v_count v1 + 1)) (\<lambda>v2. vec_store v2 (v_count v2 - 1) x))"

text \<open>The shifting loop of \<open>remove\<close>, from index \<open>i\<close>.\<close>

fun vec_shift :: "'a vec \<Rightarrow> nat \<Rightarrow> nat \<Rightarrow> 'a vec result" where
  "vec_shift v i 0 = Inr v"
| "vec_shift v i (Suc n) = bindr (vec_load v i) (\<lambda>x. bindr (vec_store v (i - 1) x) (\<lambda>v'. vec_shift v' (Suc i) n))"

definition vec_remove :: "bool \<Rightarrow> 'a mem \<Rightarrow> 'a \<Rightarrow> 'a vec \<Rightarrow> nat \<Rightarrow> 'a vec result" where
  "vec_remove avail mem d v i = bindr (vec_init avail mem d v) (\<lambda>v1.
     if v_count v1 = 0 then Inr v1
     else if i \<ge> v_count v1 then Inl Panic
     else bindr (vec_shift v1 (i + 1) (v_count v1 - (i + 1))) (\<lambda>v2. vec_resize mem d v2 (v_count v2 - 1)))"

text \<open>The scan of \<open>index_of\<close> and \<open>has\<close>: the first position from \<open>i\<close> on that holds \<open>x\<close>.\<close>

fun vec_index_from :: "'a vec \<Rightarrow> 'a \<Rightarrow> nat \<Rightarrow> nat \<Rightarrow> nat option result" where
  "vec_index_from v x i 0 = Inr None"
| "vec_index_from v x i (Suc n) = bindr (vec_load v i) (\<lambda>y. if y = x then Inr (Some i) else vec_index_from v x (Suc i) n)"

definition vec_index_of :: "'a vec \<Rightarrow> 'a \<Rightarrow> usize result" where
  "vec_index_of v x = bindr (vec_index_from v x 0 (v_count v))
     (\<lambda>r. Inr (case r of Some i \<Rightarrow> of_nat i | None \<Rightarrow> VEC_NOT_FOUND))"

definition vec_has :: "bool \<Rightarrow> 'a mem \<Rightarrow> 'a \<Rightarrow> 'a vec \<Rightarrow> 'a \<Rightarrow> (bool \<times> 'a vec) result" where
  "vec_has avail mem d v x = bindr (vec_init avail mem d v) (\<lambda>v1.
     bindr (vec_index_from v1 x 0 (v_count v1)) (\<lambda>r. Inr (r \<noteq> None, v1)))"

definition vec_get :: "bool \<Rightarrow> 'a mem \<Rightarrow> 'a \<Rightarrow> 'a vec \<Rightarrow> nat \<Rightarrow> ('a \<times> 'a vec) result" where
  "vec_get avail mem d v i = bindr (vec_init avail mem d v) (\<lambda>v1.
     if i \<ge> v_count v1 then Inl Panic else bindr (vec_load v1 i) (\<lambda>x. Inr (x, v1)))"

definition vec_assign :: "bool \<Rightarrow> 'a mem \<Rightarrow> 'a \<Rightarrow> 'a vec \<Rightarrow> 'a vec \<Rightarrow> 'a vec result" where
  "vec_assign avail mem d dst src = bindr (vec_init avail mem d dst) (\<lambda>v1.
     bindr (vec_resize mem d v1 (v_count src)) (\<lambda>v2.
       case v_array v2 of None \<Rightarrow> Inr v2
       | Some cs \<Rightarrow> if v_count v2 = 0 then Inr v2 else
           (case v_array src of None \<Rightarrow> Inl Fault
            | Some ss \<Rightarrow> bindr (peek ss 0 (v_count v2)) (\<lambda>xs. bindr (poke cs 0 xs) (\<lambda>cs'. Inr (v2\<lparr>v_array := Some cs'\<rparr>))))))"

text \<open>The copy constructor starts from the member initialisers: ten cells.\<close>

definition vec_copy :: "bool \<Rightarrow> 'a mem \<Rightarrow> 'a \<Rightarrow> 'a vec \<Rightarrow> 'a vec result" where
  "vec_copy avail mem d src = vec_assign avail mem d \<lparr>v_count = 0, v_capacity = 10, v_array = None\<rparr> src"

subsection \<open>Vec as a list\<close>

definition vec_wf :: "'a vec \<Rightarrow> bool" where
  "vec_wf v \<longleftrightarrow> (case v_array v of None \<Rightarrow> v_count v = 0 | Some cs \<Rightarrow> length cs = v_capacity v \<and> v_count v \<le> v_capacity v)"

definition vec_list :: "'a vec \<Rightarrow> 'a list" where
  "vec_list v = (case v_array v of None \<Rightarrow> [] | Some cs \<Rightarrow> take (v_count v) cs)"

definition vec_rep :: "'a vec \<Rightarrow> 'a list \<Rightarrow> bool" where
  "vec_rep v xs \<longleftrightarrow> vec_wf v \<and> vec_list v = xs"

text \<open>An allocator that never fails.\<close>

definition mem_ok :: "'a mem \<Rightarrow> bool" where
  "mem_ok mem \<longleftrightarrow> (\<forall>n. \<exists>cs. mem n = Some cs \<and> length cs = n)"

lemma vec_rep_count: "vec_rep v xs \<Longrightarrow> v_count v = length xs"
  by (auto simp: vec_rep_def vec_wf_def vec_list_def split: option.splits)

lemma vec_alloc_rep:
  assumes "mem_ok mem" "vec_rep v xs"
  shows "vec_rep (vec_alloc mem d v) xs" and "v_capacity v \<noteq> 0 \<Longrightarrow> v_array (vec_alloc mem d v) \<noteq> None"
proof -
  obtain cs where cs: "mem (v_capacity v) = Some cs" "length cs = v_capacity v" using assms(1) by (auto simp: mem_ok_def)
  show "vec_rep (vec_alloc mem d v) xs" "v_capacity v \<noteq> 0 \<Longrightarrow> v_array (vec_alloc mem d v) \<noteq> None"
    using assms(2) cs by (auto simp: vec_alloc_def vec_rep_def vec_wf_def vec_list_def split: option.splits)
qed

lemma vec_new_rep: "mem_ok mem \<Longrightarrow> vec_rep (vec_new mem d n) []"
  unfolding vec_new_def by (rule vec_alloc_rep) (simp_all add: vec_rep_def vec_wf_def vec_list_def)

lemma vec_init_rep:
  assumes "mem_ok mem" "vec_rep v xs"
  obtains v' where "vec_init True mem d v = Inr v'" "vec_rep v' xs" "v_array v' = None \<longrightarrow> v_capacity v' = 0"
    "v_capacity v' = v_capacity v"
proof -
  show thesis
  proof (cases "v_array v = None")
    case False
    then show thesis using assms(2) by (intro that [of v]) (auto simp: vec_init_def)
  next
    case True
    have "v_capacity (vec_alloc mem d v) = v_capacity v" by (simp add: vec_alloc_def)
    moreover have "v_array (vec_alloc mem d v) = None \<longrightarrow> v_capacity v = 0" using vec_alloc_rep(2) [OF assms] by blast
    ultimately show thesis using True vec_alloc_rep(1) [OF assms]
      by (intro that [of "vec_alloc mem d v"]) (auto simp: vec_init_def)
  qed
qed

lemma vec_expand_rep:
  assumes "mem_ok mem" "vec_rep v xs"
  shows "vec_rep (vec_expand mem d v) xs" "v_capacity (vec_expand mem d v) = v_capacity v + 16"
    "v_array (vec_expand mem d v) \<noteq> None" "v_count (vec_expand mem d v) = v_count v"
proof -
  obtain cs where cs: "mem (v_capacity v + 16) = Some cs" "length cs = v_capacity v + 16"
    using assms(1) by (auto simp: mem_ok_def)
  show "vec_rep (vec_expand mem d v) xs" "v_capacity (vec_expand mem d v) = v_capacity v + 16"
    "v_array (vec_expand mem d v) \<noteq> None" "v_count (vec_expand mem d v) = v_count v"
    using cs assms(2)
    by (auto simp: vec_expand_def vec_alloc_def vec_rep_def vec_wf_def vec_list_def split: option.splits)
qed

lemma vec_fill_spec:
  "\<lbrakk>v_array v = Some cs; i + n \<le> length cs\<rbrakk> \<Longrightarrow>
    vec_fill d v i n = Inr (v\<lparr>v_array := Some (take i cs @ replicate n d @ drop (i + n) cs)\<rparr>)"
proof (induction n arbitrary: v cs i)
  case (Suc n)
  have "take (Suc i) (cs[i := d]) = take i cs @ [d]" using Suc.prems by (simp add: take_Suc_conv_app_nth)
  then show ?case using Suc by (auto simp: vec_store_def replicate_append_same [symmetric])
qed simp

lemma vec_resize_grow:
  assumes "mem_ok mem" "vec_rep v xs" "v_array v = None \<longrightarrow> v_capacity v = 0" "length xs \<le> n" "n \<le> v_capacity v + 16" "0 < n"
  obtains v' where "vec_resize mem d v n = Inr v'" "vec_rep v' (xs @ replicate (n - length xs) d)" "v_array v' \<noteq> None"
proof -
  define v1 where "v1 = (if n > v_capacity v then vec_expand mem d v else v)"
  have v1: "vec_rep v1 xs" "v_array v1 \<noteq> None" "n \<le> v_capacity v1" "v_count v1 = length xs"
    using vec_expand_rep [OF assms(1,2), of d] assms vec_rep_count [OF assms(2)] by (auto simp: v1_def)
  then obtain cs where cs: "v_array v1 = Some cs" "length cs = v_capacity v1" "take (length xs) cs = xs"
    by (auto simp: vec_rep_def vec_wf_def vec_list_def)
  have "vec_fill d v1 (length xs) (n - length xs) = Inr (v1\<lparr>v_array := Some (xs @ replicate (n - length xs) d @ drop n cs)\<rparr>)"
    using vec_fill_spec [OF cs(1), of "length xs" "n - length xs" d] v1(3) cs assms(4) by simp
  then have "vec_resize mem d v n = Inr (v1\<lparr>v_array := Some (xs @ replicate (n - length xs) d @ drop n cs), v_count := n\<rparr>)"
    using vec_rep_count [OF assms(2)] by (simp add: vec_resize_def Let_def v1_def [symmetric])
  then show thesis using v1 cs assms(4)
    by (intro that) (auto simp: vec_rep_def vec_wf_def vec_list_def)
qed

lemma vec_append_rep:
  assumes "mem_ok mem" "vec_rep v xs"
  obtains v' where "vec_append True mem d v x = Inr v'" "vec_rep v' (xs @ [x])"
proof -
  obtain v1 where v1: "vec_init True mem d v = Inr v1" "vec_rep v1 xs" "v_array v1 = None \<longrightarrow> v_capacity v1 = 0"
    using vec_init_rep [OF assms] by metis
  have "length xs \<le> v_capacity v1" using v1(2,3) by (auto simp: vec_rep_def vec_wf_def vec_list_def split: option.splits)
  then obtain v2 where v2: "vec_resize mem d v1 (length xs + 1) = Inr v2" "vec_rep v2 (xs @ [d])" "v_array v2 \<noteq> None"
    using vec_resize_grow [OF assms(1) v1(2,3), of "length xs + 1" d] by auto
  then obtain cs where cs: "v_array v2 = Some cs" "take (Suc (length xs)) cs = xs @ [d]" "length cs = v_capacity v2"
    "v_count v2 = Suc (length xs)" "Suc (length xs) \<le> length cs"
    using vec_rep_count [OF v2(2)] by (auto simp: vec_rep_def vec_wf_def vec_list_def)
  have "take (Suc (length xs)) (cs[length xs := x]) = xs @ [x]"
    by (simp only: take_update_swap cs(2)) simp
  then show thesis using v1(1) v2(1) vec_rep_count [OF v1(2)] cs
    by (intro that [of "v2\<lparr>v_array := Some (cs[length xs := x])\<rparr>"])
      (auto simp: vec_append_def vec_store_def vec_rep_def vec_wf_def vec_list_def)
qed


lemma vec_shift_spec:
  "\<lbrakk>v_array v = Some cs; 0 < i; i + n \<le> length cs\<rbrakk> \<Longrightarrow>
    vec_shift v i n = Inr (v\<lparr>v_array := Some (take (i - 1) cs @ take n (drop i cs) @ drop (i + n - 1) cs)\<rparr>)"
proof (induction n arbitrary: v cs i)
  case 0
  then show ?case by simp
next
  case (Suc n)
  let ?cs = "cs[i - 1 := cs ! i]"
  have i: "i < length cs" "i - 1 < length cs" using Suc.prems by linarith+
  have "take i ?cs = take (i - 1) cs @ [cs ! i]"
    using Suc.prems(2) i by (cases i) (simp_all add: take_Suc_conv_app_nth)
  moreover have "drop (Suc i) ?cs = drop (Suc i) cs" "drop (i + n) ?cs = drop (i + n) cs" using Suc.prems(2) by simp_all
  moreover have "drop i cs = cs ! i # drop (Suc i) cs" using i by (simp add: Cons_nth_drop_Suc)
  moreover have "vec_shift v i (Suc n) = vec_shift (v\<lparr>v_array := Some ?cs\<rparr>) (Suc i) n"
    using Suc.prems(1) i by (simp add: vec_load_def vec_store_def)
  ultimately show ?case using Suc.IH [of "v\<lparr>v_array := Some ?cs\<rparr>" ?cs "Suc i"] Suc.prems by simp
qed

lemma vec_resize_shrink: "n \<le> v_count v \<Longrightarrow> v_count v \<le> v_capacity v \<Longrightarrow> vec_resize mem d v n = Inr (v\<lparr>v_count := n\<rparr>)"
  by (simp add: vec_resize_def)

lemma vec_remove_rep:
  assumes "mem_ok mem" "vec_rep v xs" "i < length xs"
  obtains v' where "vec_remove True mem d v i = Inr v'" "vec_rep v' (take i xs @ drop (Suc i) xs)"
proof -
  obtain cs where cs: "v_array v = Some cs" "take (length xs) cs = xs" "length cs = v_capacity v" "length xs \<le> v_capacity v"
    using assms(2,3) vec_rep_count [OF assms(2)] by (auto simp: vec_rep_def vec_wf_def vec_list_def split: option.splits)
  note n = vec_rep_count [OF assms(2)]
  let ?cs = "take i cs @ take (length xs - Suc i) (drop (Suc i) cs) @ drop (length xs - 1) cs"
  have "vec_shift v (i + 1) (length xs - (i + 1)) = Inr (v\<lparr>v_array := Some ?cs\<rparr>)"
    using vec_shift_spec [OF cs(1), of "i + 1" "length xs - (i + 1)"] assms(3) cs(3,4) by simp
  moreover have "vec_resize mem d (v\<lparr>v_array := Some ?cs\<rparr>) (length xs - 1) = Inr (v\<lparr>v_array := Some ?cs, v_count := length xs - 1\<rparr>)"
    using n cs(4) by (simp add: vec_resize_shrink)
  ultimately have r: "vec_remove True mem d v i = Inr (v\<lparr>v_array := Some ?cs, v_count := length xs - 1\<rparr>)"
    using cs(1) n assms(3) by (auto simp: vec_remove_def vec_init_def)
  have "take i xs @ drop (Suc i) xs = take (length xs - 1) ?cs"
  proof -
    have a: "take i xs = take i cs" "drop (Suc i) xs = take (length xs - Suc i) (drop (Suc i) cs)"
      using cs(2) assms(3) by (metis min.absorb1 less_imp_le take_take, metis drop_take)
    show ?thesis using a cs(3,4) assms(3) by simp
  qed
  then show thesis using r cs assms(3) by (intro that) (auto simp: vec_rep_def vec_wf_def vec_list_def)
qed

lemma vec_load_rep: "vec_rep v xs \<Longrightarrow> i < length xs \<Longrightarrow> vec_load v i = Inr (xs ! i)"
  by (auto simp: vec_load_def vec_rep_def vec_wf_def vec_list_def split: option.splits)

lemma vec_index_from_spec:
  "vec_rep v xs \<Longrightarrow> i + n = length xs \<Longrightarrow> vec_index_from v x i n
    = Inr (if x \<in> set (drop i xs) then Some (i + length (takeWhile (\<lambda>y. y \<noteq> x) (drop i xs))) else None)"
proof (induction n arbitrary: i)
  case (Suc n)
  have "drop i xs = xs ! i # drop (Suc i) xs" using Suc.prems(2) by (simp add: Cons_nth_drop_Suc)
  then show ?case using Suc vec_load_rep [OF Suc.prems(1), of i] by auto
qed simp

lemma vec_get_rep:
  assumes "mem_ok mem" "vec_rep v xs"
  shows "if i < length xs then vec_get True mem d v i = Inr (xs ! i, v) else vec_get True mem d v i = Inl Panic"
proof -
  obtain v1 where v1: "vec_init True mem d v = Inr v1" "vec_rep v1 xs" using vec_init_rep [OF assms] by metis
  have "v1 = v" if "i < length xs"
    using v1(1) vec_load_rep [OF assms(2) that] by (auto simp: vec_init_def vec_load_def split: if_splits option.splits)
  then show ?thesis using v1 vec_load_rep [OF v1(2), of i] vec_rep_count [OF v1(2)] by (auto simp: vec_get_def)
qed

subsection \<open>The interface of a growing array\<close>

locale growing_array =
  fixes rep :: "'s \<Rightarrow> 'a list \<Rightarrow> bool"
    and push :: "'s \<Rightarrow> 'a \<Rightarrow> 's result"
    and delete :: "'s \<Rightarrow> nat \<Rightarrow> 's result"
    and fetch :: "'s \<Rightarrow> nat \<Rightarrow> ('a \<times> 's) result"
  assumes push_rep: "rep s xs \<Longrightarrow> \<exists>t. push s x = Inr t \<and> rep t (xs @ [x])"
    and delete_rep: "rep s xs \<Longrightarrow> i < length xs \<Longrightarrow> \<exists>t. delete s i = Inr t \<and> rep t (take i xs @ drop (Suc i) xs)"
    and fetch_rep: "rep s xs \<Longrightarrow> fetch s i = (if i < length xs then Inr (xs ! i, s) else Inl Panic)"
begin

lemma push_all: "rep s ys \<Longrightarrow> \<exists>t. run_all push s xs = Inr t \<and> rep t (ys @ xs)"
proof (induction xs arbitrary: s ys)
  case (Cons x xs)
  obtain t where "push s x = Inr t" "rep t (ys @ [x])" using push_rep [OF Cons.prems] by blast
  then show ?case using Cons.IH [of t "ys @ [x]"] by auto
qed auto

lemma push_all_fetch:
  assumes "rep s ys" "i < length xs"
  shows "\<exists>t. run_all push s xs = Inr t \<and> fetch t (length ys + i) = Inr (xs ! i, t)"
proof -
  obtain t where "run_all push s xs = Inr t" "rep t (ys @ xs)" using push_all [OF assms(1)] by blast
  then show ?thesis using fetch_rep [of t "ys @ xs" "length ys + i"] assms(2) by (auto simp: nth_append)
qed

lemma delete_last_push:
  assumes "rep s xs" shows "\<exists>t u. push s x = Inr t \<and> delete t (length xs) = Inr u \<and> rep u xs"
proof -
  obtain t where t: "push s x = Inr t" "rep t (xs @ [x])" using push_rep [OF assms] by blast
  then show ?thesis using delete_rep [of t "xs @ [x]" "length xs"] by auto
qed

end

definition demo_mem :: "nat mem" where
  "demo_mem n = Some (replicate n 0)"

lemma demo_mem_ok: "mem_ok demo_mem"
  by (simp add: mem_ok_def demo_mem_def)

interpretation growing_vec: growing_array "\<lambda>v xs. mem_ok mem \<and> vec_rep v xs" "vec_append True mem d" "vec_remove True mem d" "vec_get True mem d"
  for mem :: "'a mem" and d :: 'a
proof unfold_locales
  fix v :: "'a vec" and xs x assume "mem_ok mem \<and> vec_rep v xs"
  then show "\<exists>t. vec_append True mem d v x = Inr t \<and> mem_ok mem \<and> vec_rep t (xs @ [x])"
    using vec_append_rep by metis
next
  fix v :: "'a vec" and xs i assume "mem_ok mem \<and> vec_rep v xs" "i < length xs"
  then show "\<exists>t. vec_remove True mem d v i = Inr t \<and> mem_ok mem \<and> vec_rep t (take i xs @ drop (Suc i) xs)"
    using vec_remove_rep by metis
next
  fix v :: "'a vec" and xs i assume "mem_ok mem \<and> vec_rep v xs"
  then show "vec_get True mem d v i = (if i < length xs then Inr (xs ! i, v) else Inl Panic)"
    using vec_get_rep [of mem v xs i d] by simp
qed

subsection \<open>Properties of Vec\<close>

text \<open>Appending a list of values to a new vector of any capacity never fails and every value can be
  read back at its position: each append that meets a full array grows it first.\<close>

theorem vec_appends_read_back:
  assumes "mem_ok mem" "i < length xs"
  shows "\<exists>v. run_all (vec_append True mem d) (vec_new mem d n) xs = Inr v \<and> vec_get True mem d v i = Inr (xs ! i, v)"
  using growing_vec.push_all_fetch [of mem "vec_new mem d n" "[]" i xs d] assms vec_new_rep by fastforce

theorem vec_appends_read_back_witness:
  "\<exists>v. run_all (vec_append True demo_mem 0) (vec_new demo_mem 0 0) [5, 6, 7] = Inr v \<and> vec_get True demo_mem 0 v 2 = Inr (7, v)"
  using vec_appends_read_back [OF demo_mem_ok, of 2 "[5, 6, 7]" 0 0] by simp

text \<open>\<open>remove\<close> takes out the element at the index, keeping the others in order; outside the bounds it
  panics, except on an empty vector, where any index is silently accepted.\<close>

theorem vec_remove_behaviour:
  assumes "mem_ok mem" "vec_rep v xs"
  shows "if i < length xs then \<exists>v'. vec_remove True mem d v i = Inr v' \<and> vec_rep v' (take i xs @ drop (Suc i) xs)
    else if xs = [] then \<exists>v'. vec_remove True mem d v i = Inr v' \<and> vec_rep v' []
    else vec_remove True mem d v i = Inl Panic"
proof -
  obtain v1 where v1: "vec_init True mem d v = Inr v1" "vec_rep v1 xs" using vec_init_rep [OF assms] by metis
  then show ?thesis using growing_vec.delete_rep [of mem v xs i d] assms vec_rep_count [OF v1(2)]
    by (auto simp: vec_remove_def)
qed

definition demo_vec :: "nat vec" where
  "demo_vec = \<lparr>v_count = 3, v_capacity = 4, v_array = Some [5, 6, 7, 0]\<rparr>"

lemma demo_vec_rep: "vec_rep demo_vec [5, 6, 7]"
  by (simp add: vec_rep_def vec_wf_def vec_list_def demo_vec_def)

theorem vec_remove_behaviour_witness: "\<exists>v'. vec_remove True demo_mem 0 demo_vec 1 = Inr v' \<and> vec_rep v' [5, 7]"
  using vec_remove_behaviour [OF demo_mem_ok demo_vec_rep, of 1 0] by simp

text \<open>Copying a vector of more than 26 elements writes past the end of the copy: its ten cells are
  expanded once, by sixteen. Up to 26 elements the copy holds the same list.\<close>

theorem vec_copy_overflows:
  assumes "mem_ok mem" "vec_rep v xs" "xs \<noteq> []"
  shows "if length xs \<le> 26 then \<exists>v'. vec_copy True mem d v = Inr v' \<and> vec_rep v' xs else vec_copy True mem d v = Inl Fault"
proof -
  let ?e = "\<lparr>v_count = 0, v_capacity = 10, v_array = None\<rparr>"
  have e: "vec_rep ?e []" by (simp add: vec_rep_def vec_wf_def vec_list_def)
  obtain v1 where v1: "vec_init True mem d ?e = Inr v1" "vec_rep v1 []" "v_capacity v1 = 10" "v_array v1 \<noteq> None"
    using vec_init_rep [OF assms(1) e, of d] by (metis vec.select_convs(2) zero_neq_numeral)
  obtain ss where ss: "v_array v = Some ss" "take (length xs) ss = xs" "length xs \<le> length ss"
    using assms(2,3) vec_rep_count [OF assms(2)] by (auto simp: vec_rep_def vec_wf_def vec_list_def split: option.splits)
  note n = vec_rep_count [OF assms(2)] vec_rep_count [OF v1(2)]
  show ?thesis
  proof (cases "length xs \<le> 26")
    case True
    have "v_array v1 = None \<longrightarrow> v_capacity v1 = 0" "length ([] :: 'a list) \<le> length xs"
      "length xs \<le> v_capacity v1 + 16" "0 < length xs" using v1 True assms(3) by auto
    then obtain v2 where v2: "vec_resize mem d v1 (length xs) = Inr v2" "vec_rep v2 (replicate (length xs) d)" "v_array v2 \<noteq> None"
      using vec_resize_grow [OF assms(1) v1(2), of "length xs" d] by auto
    then obtain cs where cs: "v_array v2 = Some cs" "length xs \<le> length cs" "v_count v2 = length xs" "length cs = v_capacity v2"
      using vec_rep_count [OF v2(2)] by (auto simp: vec_rep_def vec_wf_def)
    then have "vec_copy True mem d v = Inr (v2\<lparr>v_array := Some (xs @ drop (length xs) cs)\<rparr>)"
      using v1(1) v2(1) n ss assms(3) by (simp add: vec_copy_def vec_assign_def)
    moreover have "vec_rep (v2\<lparr>v_array := Some (xs @ drop (length xs) cs)\<rparr>) xs"
      using cs by (simp add: vec_rep_def vec_wf_def vec_list_def)
    ultimately show ?thesis using True by auto
  next
    case False
    define v2 where "v2 = vec_expand mem d v1"
    have v2: "vec_rep v2 []" "v_capacity v2 = 26" "v_array v2 \<noteq> None" using vec_expand_rep [OF assms(1) v1(2), of d] v1(3) by (simp_all add: v2_def)
    then obtain cs where cs: "v_array v2 = Some cs" "length cs = 26" by (auto simp: vec_rep_def vec_wf_def)
    have "i \<le> 26 \<Longrightarrow> 26 < i + m \<Longrightarrow> v_array u = Some us \<Longrightarrow> length us = 26 \<Longrightarrow> vec_fill d u i m = Inl Fault" for u us i m
      by (induction m arbitrary: u us i) (auto simp: vec_store_def upd_r_def)
    then have "vec_fill d v2 0 (length xs) = Inl Fault" using False cs by auto
    then have "vec_resize mem d v1 (length xs) = Inl Fault" using False v1(3) n by (simp add: vec_resize_def v2_def)
    then show ?thesis using v1(1) False n by (simp add: vec_copy_def vec_assign_def)
  qed
qed

theorem vec_copy_overflows_witness: "vec_copy True demo_mem 0 \<lparr>v_count = 27, v_capacity = 32, v_array = Some (replicate 32 1)\<rparr> = Inl Fault"
proof -
  have "vec_rep \<lparr>v_count = 27, v_capacity = 32, v_array = Some (replicate 32 (1 :: nat))\<rparr> (replicate 27 1)"
    by (simp add: vec_rep_def vec_wf_def vec_list_def)
  from vec_copy_overflows [OF demo_mem_ok this, of 0] show ?thesis by simp
qed

end
