(* ===== verification/Bounded_Queue.thy ===== *)
theory Bounded_Queue
  imports Prelude
begin

text \<open>
  The ring queue \<open>Queue\<close> of \<open>common/queue.hpp\<close>: a buffer of fixed capacity with a read and a write
  position (offsets into the buffer here) and a count of 32 bits. \<open>mem\<close> is what a fresh block holds.
\<close>

record 'a queue =
  q_init :: bool
  q_count :: usize
  q_capacity :: usize
  q_buf :: "'a list"
  q_rd :: nat
  q_wr :: nat

definition q_setup :: "(nat \<Rightarrow> 'a list) \<Rightarrow> 'a queue \<Rightarrow> 'a queue" where
  "q_setup mem q = q\<lparr>q_init := True, q_buf := mem (unat (q_capacity q)), q_rd := 0, q_wr := 0\<rparr>"

definition q_new :: "bool \<Rightarrow> (nat \<Rightarrow> 'a list) \<Rightarrow> usize \<Rightarrow> 'a queue" where
  "q_new avail mem capacity = (let q = \<lparr>q_init = False, q_count = 0, q_capacity = capacity, q_buf = [], q_rd = 0, q_wr = 0\<rparr> in
     if avail then q_setup mem q else q)"

definition q_test_init :: "bool \<Rightarrow> (nat \<Rightarrow> 'a list) \<Rightarrow> 'a queue \<Rightarrow> 'a queue result" where
  "q_test_init avail mem q = (if q_init q then Inr q else if \<not> avail then Inl Panic else Inr (q_setup mem q))"

definition q_can_enqueue :: "'a queue \<Rightarrow> bool" where
  "q_can_enqueue q \<longleftrightarrow> q_count q < q_capacity q"

definition q_can_dequeue :: "'a queue \<Rightarrow> bool" where
  "q_can_dequeue q \<longleftrightarrow> q_count q > 0"

definition q_wrap :: "'a queue \<Rightarrow> nat \<Rightarrow> nat" where
  "q_wrap q i = (if i \<ge> unat (q_capacity q) then 0 else i)"

definition q_enqueue :: "bool \<Rightarrow> (nat \<Rightarrow> 'a list) \<Rightarrow> 'a queue \<Rightarrow> 'a \<Rightarrow> 'a queue result" where
  "q_enqueue avail mem q x = bindr (q_test_init avail mem q) (\<lambda>q1.
     if \<not> q_can_enqueue q1 then Inr q1
     else bindr (upd_r (q_buf q1) (q_wr q1) x) (\<lambda>b.
       Inr (q1\<lparr>q_buf := b, q_wr := q_wrap q1 (q_wr q1 + 1), q_count := q_count q1 + 1\<rparr>)))"

definition q_dequeue :: "bool \<Rightarrow> (nat \<Rightarrow> 'a list) \<Rightarrow> 'a queue \<Rightarrow> ('a \<times> 'a queue) result" where
  "q_dequeue avail mem q = bindr (q_test_init avail mem q) (\<lambda>q1.
     bindr (nth_r (q_buf q1) (q_rd q1)) (\<lambda>x.
       Inr (x, q1\<lparr>q_rd := q_wrap q1 (q_rd q1 + 1), q_count := q_count q1 - 1\<rparr>)))"

subsection \<open>Queue as a list\<close>

definition q_rep :: "'a queue \<Rightarrow> 'a list \<Rightarrow> bool" where
  "q_rep q xs \<longleftrightarrow> q_init q \<and> 0 < unat (q_capacity q) \<and> length (q_buf q) = unat (q_capacity q)
     \<and> unat (q_count q) = length xs \<and> length xs \<le> unat (q_capacity q) \<and> q_rd q < unat (q_capacity q)
     \<and> q_wr q = (q_rd q + length xs) mod unat (q_capacity q)
     \<and> (\<forall>i < length xs. q_buf q ! ((q_rd q + i) mod unat (q_capacity q)) = xs ! i)"

lemma q_wrap_mod: "i \<le> unat (q_capacity q) \<Longrightarrow> 0 < unat (q_capacity q) \<Longrightarrow> q_wrap q i = i mod unat (q_capacity q)"
  by (auto simp: q_wrap_def)

lemma mod_offset_inj: "i < n \<Longrightarrow> n < (m :: nat) \<Longrightarrow> (r + i) mod m \<noteq> (r + n) mod m"
proof
  assume a: "i < n" "n < m" "(r + i) mod m = (r + n) mod m"
  then have "m dvd (r + n) - (r + i)" by (metis mod_eq_dvd_iff_nat add_le_cancel_left less_imp_le)
  then show False using a by (auto dest: dvd_imp_le)
qed

lemma q_new_rep:
  assumes "\<forall>n. length (mem n) = n" "0 < unat cap"
  shows "q_rep (q_new True mem cap) []"
  using assms by (simp add: q_rep_def q_new_def q_setup_def)

lemma q_enqueue_rep:
  assumes "q_rep q xs" "length xs < unat (q_capacity q)"
  obtains q' where "q_enqueue avail mem q x = Inr q'" "q_rep q' (xs @ [x])" "q_capacity q' = q_capacity q"
proof -
  let ?m = "unat (q_capacity q)"
  note R = assms(1) [unfolded q_rep_def]
  define q' where "q' = q\<lparr>q_buf := (q_buf q)[q_wr q := x], q_wr := q_wrap q (q_wr q + 1), q_count := q_count q + 1\<rparr>"
  have w: "q_wr q < ?m" using R by simp
  have "q_can_enqueue q" using R assms(2) by (simp add: q_can_enqueue_def word_less_unat)
  then have e: "q_enqueue avail mem q x = Inr q'" using R w by (simp add: q_enqueue_def q_test_init_def q'_def)
  have c: "unat (q_count q + 1) = length xs + 1"
    using R assms(2) unsigned_less [of "q_capacity q", where ?'a = nat] by (subst unat_add_small) simp_all
  have "q_wrap q (q_wr q + 1) = Suc (q_wr q) mod ?m" using q_wrap_mod [of "q_wr q + 1" q] w R by simp
  also have "\<dots> = (q_rd q + length (xs @ [x])) mod ?m" using R by (simp add: mod_Suc_eq)
  finally have wr: "q_wrap q (q_wr q + 1) = (q_rd q + length (xs @ [x])) mod ?m" .
  have "(q_buf q)[q_wr q := x] ! ((q_rd q + i) mod ?m) = (xs @ [x]) ! i" if "i < length (xs @ [x])" for i
  proof (cases "i = length xs")
    case True
    then show ?thesis using R w by simp
  next
    case False
    then have i: "i < length xs" using that by simp
    then have "(q_rd q + i) mod ?m \<noteq> q_wr q" using R mod_offset_inj [OF i assms(2)] by metis
    then show ?thesis using R i by (simp add: nth_append)
  qed
  then have "q_rep q' (xs @ [x])" using R c wr assms(2) by (simp add: q_rep_def q'_def)
  then show thesis using e by (intro that [of q']) (simp_all add: q'_def)
qed

lemma q_dequeue_rep:
  assumes "q_rep q (x # xs)"
  obtains q' where "q_dequeue avail mem q = Inr (x, q')" "q_rep q' xs" "q_capacity q' = q_capacity q"
proof -
  let ?m = "unat (q_capacity q)"
  note R = assms(1) [unfolded q_rep_def]
  define q' where "q' = q\<lparr>q_rd := q_wrap q (q_rd q + 1), q_count := q_count q - 1\<rparr>"
  have "\<forall>i < length (x # xs). q_buf q ! ((q_rd q + i) mod ?m) = (x # xs) ! i" using R by blast
  then have hd: "q_buf q ! q_rd q = x" and tl: "\<forall>i < length xs. q_buf q ! ((q_rd q + Suc i) mod ?m) = xs ! i"
    using R by (force, force)
  have e: "q_dequeue avail mem q = Inr (x, q')" using R hd by (simp add: q_dequeue_def q_test_init_def q'_def)
  have c: "unat (q_count q - 1) = length xs" using R by (subst unat_diff_le) simp_all
  have rd: "q_wrap q (q_rd q + 1) = Suc (q_rd q) mod ?m" using q_wrap_mod [of "q_rd q + 1" q] R by simp
  have "(Suc (q_rd q) mod ?m + i) mod ?m = (q_rd q + Suc i) mod ?m" for i by (simp add: mod_add_left_eq)
  then have "q_rep q' xs" using R c rd tl by (simp add: q_rep_def q'_def)
  then show thesis using e by (intro that [of q']) (simp_all add: q'_def)
qed

locale fifo_queue =
  fixes rep :: "'s \<Rightarrow> 'a list \<Rightarrow> bool" and cap :: "'s \<Rightarrow> nat"
    and enq :: "'s \<Rightarrow> 'a \<Rightarrow> 's result" and deq :: "'s \<Rightarrow> ('a \<times> 's) result"
  assumes enq_rep: "rep s xs \<Longrightarrow> length xs < cap s \<Longrightarrow> \<exists>t. enq s x = Inr t \<and> rep t (xs @ [x]) \<and> cap t = cap s"
    and deq_rep: "rep s (x # xs) \<Longrightarrow> \<exists>t. deq s = Inr (x, t) \<and> rep t xs \<and> cap t = cap s"
begin

lemma enq_all:
  "rep s ys \<Longrightarrow> length ys + length xs \<le> cap s \<Longrightarrow> \<exists>t. run_all enq s xs = Inr t \<and> rep t (ys @ xs) \<and> cap t = cap s"
proof (induction xs arbitrary: s ys)
  case (Cons x xs)
  then obtain t where "enq s x = Inr t" "rep t (ys @ [x])" "cap t = cap s" using enq_rep [of s ys x] by auto
  then show ?case using Cons.IH [of t "ys @ [x]"] Cons.prems by auto
qed auto

end

fun q_take :: "bool \<Rightarrow> (nat \<Rightarrow> 'a list) \<Rightarrow> nat \<Rightarrow> 'a queue \<Rightarrow> ('a list \<times> 'a queue) result" where
  "q_take avail mem 0 q = Inr ([], q)"
| "q_take avail mem (Suc n) q = bindr (q_dequeue avail mem q) (\<lambda>(x, q1).
     bindr (q_take avail mem n q1) (\<lambda>(xs, q2). Inr (x # xs, q2)))"

interpretation fifo: fifo_queue q_rep "\<lambda>q. unat (q_capacity q)" "q_enqueue avail mem" "q_dequeue avail mem"
  for avail and mem :: "nat \<Rightarrow> 'a list"
proof unfold_locales
  fix s :: "'a queue" and xs x assume "q_rep s xs" "length xs < unat (q_capacity s)"
  then show "\<exists>t. q_enqueue avail mem s x = Inr t \<and> q_rep t (xs @ [x]) \<and> unat (q_capacity t) = unat (q_capacity s)"
    using q_enqueue_rep by metis
next
  fix s :: "'a queue" and x xs assume "q_rep s (x # xs)"
  then show "\<exists>t. q_dequeue avail mem s = Inr (x, t) \<and> q_rep t xs \<and> unat (q_capacity t) = unat (q_capacity s)"
    using q_dequeue_rep by metis
qed

lemma q_take_rep: "q_rep q (xs @ ys) \<Longrightarrow> \<exists>q'. q_take avail mem (length xs) q = Inr (xs, q') \<and> q_rep q' ys"
proof (induction xs arbitrary: q)
  case (Cons x xs)
  then obtain q1 where "q_dequeue avail mem q = Inr (x, q1)" "q_rep q1 (xs @ ys)"
    using fifo.deq_rep [of q x "xs @ ys" avail mem] by auto
  then show ?case using Cons.IH [of q1] by auto
qed auto

text \<open>What is put into a queue within its capacity comes out in the same order, wrapping around the
  buffer as often as needed.\<close>

theorem queue_is_fifo:
  assumes "q_rep q ys" "length ys + length xs \<le> unat (q_capacity q)"
  shows "\<exists>q1 q2. run_all (q_enqueue avail mem) q xs = Inr q1
    \<and> q_take avail mem (length ys + length xs) q1 = Inr (ys @ xs, q2) \<and> q_rep q2 []"
proof -
  obtain q1 where q1: "run_all (q_enqueue avail mem) q xs = Inr q1" "q_rep q1 (ys @ xs)"
    using fifo.enq_all [OF assms] by blast
  then show ?thesis using q_take_rep [of q1 "ys @ xs" "[]" avail mem] by auto
qed

definition demo_queue :: "nat queue" where
  "demo_queue = \<lparr>q_init = True, q_count = 1, q_capacity = 3, q_buf = [0, 0, 9], q_rd = 2, q_wr = 0\<rparr>"

theorem queue_is_fifo_witness:
  "\<exists>q1 q2. run_all (q_enqueue True (\<lambda>n. replicate n 0)) demo_queue [4, 5] = Inr q1
    \<and> q_take True (\<lambda>n. replicate n 0) 3 q1 = Inr ([9, 4, 5], q2) \<and> q_rep q2 []"
proof -
  have "q_rep demo_queue [9]" by (simp add: q_rep_def demo_queue_def)
  moreover have "length [9 :: nat] + length [4, 5 :: nat] \<le> unat (q_capacity demo_queue)" by (simp add: demo_queue_def)
  ultimately have "\<exists>q1 q2. run_all (q_enqueue True (\<lambda>n. replicate n 0)) demo_queue [4, 5] = Inr q1
    \<and> q_take True (\<lambda>n. replicate n 0) (length [9 :: nat] + length [4, 5 :: nat]) q1 = Inr ([9] @ [4, 5], q2) \<and> q_rep q2 []"
    by (rule queue_is_fifo)
  moreover have "length [9 :: nat] + length [4, 5 :: nat] = 3" by simp
  ultimately show ?thesis by (simp only: append_Cons append_Nil)
qed

text \<open>Dequeuing from an empty queue is not refused: it returns a stale cell and the count wraps around
  to its greatest value, after which nothing can be put in.\<close>

theorem dequeue_empty_wraps:
  assumes "q_rep q []"
  shows "\<exists>x q'. q_dequeue avail mem q = Inr (x, q') \<and> q_count q' = 0xffffffff \<and> \<not> q_can_enqueue q' \<and> q_can_dequeue q'"
proof -
  have R: "q_init q" "q_rd q < length (q_buf q)" "q_count q = 0" using assms by (auto simp: q_rep_def unat_eq_0)
  have "\<not> (0xffffffff :: usize) < c" for c 
    using unat32 [of c] by (simp add: word_less_unat)
  then show ?thesis using R 
    by (simp add: q_dequeue_def q_test_init_def q_can_enqueue_def q_can_dequeue_def word_neq_0_conv [symmetric] del: word_neq_0_conv)
qed

theorem dequeue_empty_wraps_witness:
  "\<exists>x q'. q_dequeue True (\<lambda>n. replicate n 0) (q_new True (\<lambda>n. replicate n (0 :: nat)) 2) = Inr (x, q') \<and> q_count q' = 0xffffffff"
  using dequeue_empty_wraps [OF q_new_rep [of "\<lambda>n. replicate n (0 :: nat)" 2], of True "\<lambda>n. replicate n 0"] by auto

end
