(* ===== verification/Inodes.thy ===== *)
theory Inodes
  imports Memory_Ops
begin

text \<open>
  What every file system shares: error numbers (\<open>user/libc/include/errno.h\<close>), mode bits
  (\<open>sys/stat.h\<close>), open flags (\<open>fcntl.h\<close>), inodes and the status values of the \<open>FileSystem\<close>
  interface (\<open>kernel/src/fs/fs.hpp\<close>), and the permission checks of \<open>Credentials\<close>
  (\<open>kernel/src/proc/credentials.cpp\<close>). A pointer to a file system is a number, 0 is null.
\<close>

definition ENOERR :: u32 where "ENOERR = 0x00"
definition EACCES :: u32 where "EACCES = 0x02"
definition EBADF :: u32 where "EBADF = 0x08"
definition EBUSY :: u32 where "EBUSY = 0x0a"
definition ECHILD :: u32 where "ECHILD = 0x0c"
definition EEXIST :: u32 where "EEXIST = 0x14"
definition EINVAL :: u32 where "EINVAL = 0x1c"
definition EIO :: u32 where "EIO = 0x1d"
definition EMFILE :: u32 where "EMFILE = 0x21"
definition ENAMETOOLONG :: u32 where "ENAMETOOLONG = 0x25"
definition ENOENT :: u32 where "ENOENT = 0x2d"
definition ENOEXEC :: u32 where "ENOEXEC = 0x2e"
definition ENOMEM :: u32 where "ENOMEM = 0x31"
definition ENOSPC :: u32 where "ENOSPC = 0x34"
definition ENOTDIR :: u32 where "ENOTDIR = 0x39"
definition ENOTEMPTY :: u32 where "ENOTEMPTY = 0x3a"
definition ESPIPE :: u32 where "ESPIPE = 0x4a"
definition EINVFS :: u32 where "EINVFS = 0x80"
definition EGENERAL :: u32 where "EGENERAL = 0xff"

lemmas errno_defs = ENOERR_def EACCES_def EBADF_def EBUSY_def ECHILD_def EEXIST_def EINVAL_def EIO_def
  EMFILE_def ENAMETOOLONG_def ENOENT_def ENOEXEC_def ENOMEM_def ENOSPC_def ENOTDIR_def ENOTEMPTY_def
  ESPIPE_def EINVFS_def EGENERAL_def

definition S_IFMT :: u32 where "S_IFMT = 0xf000"
definition S_IFDIR :: u32 where "S_IFDIR = 0x4000"
definition S_IFREG :: u32 where "S_IFREG = 0x8000"
definition S_IFBLK :: u32 where "S_IFBLK = 0x6000"
definition S_IFCHR :: u32 where "S_IFCHR = 0x2000"

definition S_ISDIR :: "u32 \<Rightarrow> bool" where
  "S_ISDIR m \<longleftrightarrow> m AND S_IFMT = S_IFDIR"

text \<open>The later of the two definitions of \<open>O_APPEND\<close> in \<open>fcntl.h\<close> is the one in force.\<close>

definition O_RDONLY :: u32 where "O_RDONLY = 0x01"
definition O_WRONLY :: u32 where "O_WRONLY = 0x02"
definition O_RDWR :: u32 where "O_RDWR = 0x04"
definition O_CREAT :: u32 where "O_CREAT = 0x10"
definition O_NONBLOCK :: u32 where "O_NONBLOCK = 0x20"
definition O_APPEND :: u32 where "O_APPEND = 0x40"

definition has_flag :: "u32 \<Rightarrow> u32 \<Rightarrow> bool" where
  "has_flag flags f \<longleftrightarrow> flags AND f \<noteq> 0"

lemmas flag_defs = has_flag_def O_RDONLY_def O_WRONLY_def O_RDWR_def O_CREAT_def O_NONBLOCK_def O_APPEND_def

subsection \<open>Inodes and statuses\<close>

datatype fs_status = SUCCESS | NO_ENTRY | NO_SPACE | EXISTS | NOT_ALLOWED | NOT_EMPTY | NOT_DIR

datatype open_method = USE_FILE_DESCRIPTION | NAMED_PIPE | ERR_EXIST | ERR_GENERAL | ERR_ACCESS

record inode =
  in_id :: u32
  in_fs :: nat
  in_links :: u32
  in_size :: u64
  in_mode :: u32
  in_uid :: u16
  in_gid :: u16

definition inode_zero :: inode where
  "inode_zero = \<lparr>in_id = 0, in_fs = 0, in_links = 0, in_size = 0, in_mode = 0, in_uid = 0, in_gid = 0\<rparr>"

definition inode_same :: "inode \<Rightarrow> inode \<Rightarrow> bool" where
  "inode_same a b \<longleftrightarrow> in_id a = in_id b \<and> in_fs a = in_fs b"

record dirent =
  de_inode :: inode
  de_name :: string

text \<open>\<open>DirEntry::set_name\<close>: the buffer has 256 bytes, the terminator is written behind the name; a name
  of 256 characters passes the check and puts it outside.\<close>

definition dirent_set_name :: "dirent \<Rightarrow> string \<Rightarrow> dirent result" where
  "dirent_set_name d name = (if length name > 256 then Inl Panic
     else if length name = 256 then Inl Fault else Inr (d\<lparr>de_name := name\<rparr>))"

subsection \<open>Credentials\<close>

record credentials =
  cr_uid :: u16
  cr_pgid :: u16

definition cr_is_superuser :: "credentials \<Rightarrow> bool" where
  "cr_is_superuser c \<longleftrightarrow> cr_uid c = 0"

definition cr_in_group :: "credentials \<Rightarrow> u16 \<Rightarrow> bool" where
  "cr_in_group c g \<longleftrightarrow> g = cr_pgid c"

definition get_inode_perms :: "credentials \<Rightarrow> inode \<Rightarrow> u32" where
  "get_inode_perms c i = (if in_uid i = cr_uid c then drop_bit 6 (in_mode i) AND 7
     else if cr_in_group c (in_gid i) then drop_bit 3 (in_mode i) AND 7
     else in_mode i AND 7)"

definition may_read :: "credentials \<Rightarrow> inode \<Rightarrow> bool" where
  "may_read c i \<longleftrightarrow> get_inode_perms c i AND 4 \<noteq> 0"

definition may_write :: "credentials \<Rightarrow> inode \<Rightarrow> bool" where
  "may_write c i \<longleftrightarrow> get_inode_perms c i AND 2 \<noteq> 0"

definition may_exec :: "credentials \<Rightarrow> inode \<Rightarrow> bool" where
  "may_exec c i \<longleftrightarrow> get_inode_perms c i AND 1 \<noteq> 0"

text \<open>The bit of the mode that decides an access: the owner's bits are 6 to 8, the group's 3 to 5, the
  others' 0 to 2.\<close>

definition perm_bit :: "credentials \<Rightarrow> inode \<Rightarrow> nat \<Rightarrow> bool" where
  "perm_bit c i k \<longleftrightarrow> bit (in_mode i) (k + (if in_uid i = cr_uid c then 6 else if in_gid i = cr_pgid c then 3 else 0))"

lemma and_pow2_bit: "(w :: u32) AND 4 \<noteq> 0 \<longleftrightarrow> bit w 2" "w AND 2 \<noteq> 0 \<longleftrightarrow> bit w 1" "w AND 1 \<noteq> 0 \<longleftrightarrow> bit w 0"
  using bit_iff_and_push_bit_not_eq_0 [of w 2] bit_iff_and_push_bit_not_eq_0 [of w 1]
    bit_iff_and_push_bit_not_eq_0 [of w 0] by (simp_all add: push_bit_eq_mult)

lemma perms_bit: "k < 3 \<Longrightarrow> bit (get_inode_perms c i) k \<longleftrightarrow> perm_bit c i k"
proof -
  assume k: "k < 3"
  have "bit (7 :: u32) k" using k by (auto simp: less_Suc_eq numeral_3_eq_3 bit_simps)
  then show ?thesis
    using k by (auto simp: get_inode_perms_def perm_bit_def cr_in_group_def bit_simps add.commute)
qed

text \<open>Access checks look at one class of the mode bits only, the owner's for the owner, else the group's
  for a member, else the others': reading, writing and executing are allowed exactly when the bit of
  that class is set. No right comes from being the superuser.\<close>

theorem permission_classes:
  "(may_read c i \<longleftrightarrow> perm_bit c i 2) \<and> (may_write c i \<longleftrightarrow> perm_bit c i 1) \<and> (may_exec c i \<longleftrightarrow> perm_bit c i 0)"
  using perms_bit [of 2 c i] perms_bit [of 1 c i] perms_bit [of 0 c i]
  by (simp add: may_read_def may_write_def may_exec_def and_pow2_bit)

end
