(* ===== verification/Virtual_Fs.thy ===== *)
theory Virtual_Fs
  imports Inodes
begin

text \<open>
  The memory file system mounted as root at boot (\<open>kernel/src/fs/virtualfs.cpp\<close>, \<open>virtualfs.hpp\<close>).
  Inodes are numbered by their position in the vector; indexing it outside its bounds panics, as
  \<open>Vec::get\<close> does. Out parameters that a method leaves untouched on failure are \<open>None\<close>. The well-formed
  states are those where every link count is the number of directory entries that name the inode.
\<close>

record vdirent =
  ve_id :: u32
  ve_name :: string

record vinode =
  vi_inode :: inode
  vi_data :: "u8 list option"
  vi_entries :: "vdirent list"

record vfs =
  vf_self :: nat
  vf_inodes :: "vinode list"

definition vf_at :: "vfs \<Rightarrow> u32 \<Rightarrow> vinode result" where
  "vf_at s i = (if unat i < length (vf_inodes s) then Inr (vf_inodes s ! unat i) else Inl Panic)"

definition vf_upd :: "vfs \<Rightarrow> u32 \<Rightarrow> (vinode \<Rightarrow> vinode) \<Rightarrow> vfs" where
  "vf_upd s i f = s\<lparr>vf_inodes := (vf_inodes s)[unat i := f (vf_inodes s ! unat i)]\<rparr>"

definition vinode_empty :: vinode where
  "vinode_empty = \<lparr>vi_inode = inode_zero, vi_data = None, vi_entries = []\<rparr>"

definition vi_retain :: "vinode \<Rightarrow> vinode" where
  "vi_retain v = v\<lparr>vi_inode := (vi_inode v)\<lparr>in_links := in_links (vi_inode v) + 1\<rparr>\<rparr>"

definition vi_release :: "vinode \<Rightarrow> vinode" where
  "vi_release v = (let n = in_links (vi_inode v) - 1; v1 = v\<lparr>vi_inode := (vi_inode v)\<lparr>in_links := n\<rparr>\<rparr> in
     if n = 0 then v1\<lparr>vi_data := None, vi_inode := (vi_inode v1)\<lparr>in_mode := 0\<rparr>\<rparr> else v1)"

text \<open>\<open>resize\<close>: \<open>mem\<close> is the block \<open>kmalloc\<close> or \<open>krealloc\<close> returns; deleting the data for size 0 leaves
  the pointer in place, which a later \<open>krealloc\<close> uses.\<close>

definition vi_resize :: "(nat \<Rightarrow> u8 list) \<Rightarrow> vinode \<Rightarrow> usize \<Rightarrow> vinode" where
  "vi_resize mem v sz = (let n = unat sz; v1 = v\<lparr>vi_inode := (vi_inode v)\<lparr>in_size := ucast sz\<rparr>\<rparr> in
     case vi_data v of
       None \<Rightarrow> v1\<lparr>vi_data := Some (mem n)\<rparr>
     | Some d \<Rightarrow> if n = 0 then v1 else v1\<lparr>vi_data := Some (take n d @ drop (length d) (mem n))\<rparr>)"

text \<open>\<open>alloc_inode\<close>: the first inode from 1 on whose mode is 0, or a new one.\<close>

definition vf_alloc_inode :: "vfs \<Rightarrow> u32 \<times> vfs" where
  "vf_alloc_inode s = (case find (\<lambda>i. in_mode (vi_inode (vf_inodes s ! i)) = 0) [1..<length (vf_inodes s)] of
     Some i \<Rightarrow> (of_nat i, s)
   | None \<Rightarrow> (of_nat (length (vf_inodes s)), s\<lparr>vf_inodes := vf_inodes s @ [vinode_empty]\<rparr>))"

definition vf_create :: "vfs \<Rightarrow> u32 \<Rightarrow> u16 \<Rightarrow> u16 \<Rightarrow> (fs_status \<times> inode \<times> vfs) result" where
  "vf_create s mode uid gid = (let (i, s1) = vf_alloc_inode s in
     bindr (vf_at s1 i) (\<lambda>v.
       let n = (vi_inode v)\<lparr>in_id := i, in_fs := vf_self s1, in_mode := mode, in_uid := uid, in_gid := gid\<rparr> in
       Inr (SUCCESS, n, vf_upd s1 i (\<lambda>v. v\<lparr>vi_inode := n\<rparr>))))"

definition vf_link :: "vfs \<Rightarrow> inode \<Rightarrow> inode \<Rightarrow> string \<Rightarrow> (fs_status \<times> vfs) result" where
  "vf_link s dir node name = bindr (vf_at s (in_id dir)) (\<lambda>_.
     if length name > 127 then Inl Panic
     else bindr (vf_at s (in_id node)) (\<lambda>_.
       let s1 = vf_upd s (in_id node) vi_retain in
       Inr (SUCCESS, vf_upd s1 (in_id dir) (\<lambda>v. v\<lparr>vi_entries := vi_entries v @ [\<lparr>ve_id = in_id node, ve_name = name\<rparr>]\<rparr>))))"

definition vf_new :: "nat \<Rightarrow> vfs result" where
  "vf_new self = bindr (vf_create \<lparr>vf_self = self, vf_inodes = [vinode_empty]\<rparr>
       (S_IFDIR OR 0x1c0 OR 0x020 OR 0x010 OR 0x004 OR 0x002) 0 0) (\<lambda>(_, root, s).
     bindr (vf_link s root root ''.'') (\<lambda>(_, s1).
     bindr (vf_link s1 root root ''..'') (\<lambda>(_, s2). Inr s2)))"

definition vf_get_root :: "vfs \<Rightarrow> (fs_status \<times> inode) result" where
  "vf_get_root s = bindr (vf_at s 1) (\<lambda>v. Inr (SUCCESS, vi_inode v))"

definition vf_fetch :: "vfs \<Rightarrow> inode \<Rightarrow> string \<Rightarrow> (fs_status \<times> inode option) result" where
  "vf_fetch s dir name = bindr (vf_at s (in_id dir)) (\<lambda>v.
     case find (\<lambda>e. ve_name e = name) (vi_entries v) of
       None \<Rightarrow> Inr (NO_ENTRY, None)
     | Some e \<Rightarrow> bindr (vf_at s (ve_id e)) (\<lambda>c. Inr (SUCCESS, Some (vi_inode c))))"

fun remove_named :: "string \<Rightarrow> vdirent list \<Rightarrow> vdirent list" where
  "remove_named n [] = []"
| "remove_named n (e # es) = (if ve_name e = n then es else e # remove_named n es)"

definition vf_unlink :: "vfs \<Rightarrow> inode \<Rightarrow> string \<Rightarrow> (fs_status \<times> vfs) result" where
  "vf_unlink s dir name = bindr (vf_at s (in_id dir)) (\<lambda>v.
     case find (\<lambda>e. ve_name e = name) (vi_entries v) of
       None \<Rightarrow> Inr (NO_ENTRY, s)
     | Some e \<Rightarrow> bindr (vf_at s (ve_id e)) (\<lambda>_.
         Inr (SUCCESS, vf_upd (vf_upd s (ve_id e) vi_release) (in_id dir)
           (\<lambda>v. v\<lparr>vi_entries := remove_named name (vi_entries v)\<rparr>))))"

definition vf_mkdir :: "vfs \<Rightarrow> inode \<Rightarrow> u32 \<Rightarrow> u16 \<Rightarrow> u16 \<Rightarrow> string \<Rightarrow> (fs_status \<times> inode option \<times> vfs) result" where
  "vf_mkdir s parent mode uid gid name =
     bindr (vf_create s ((mode AND NOT S_IFMT) OR S_IFDIR) uid gid) (\<lambda>(st, dir, s1).
     if st \<noteq> SUCCESS then Inr (st, None, s1)
     else bindr (vf_link s1 parent dir name) (\<lambda>(_, s2).
       bindr (vf_link s2 dir dir ''.'') (\<lambda>(_, s3).
       bindr (vf_link s3 dir parent ''..'') (\<lambda>(_, s4). Inr (SUCCESS, Some dir, s4)))))"

definition vf_rmdir :: "vfs \<Rightarrow> inode \<Rightarrow> string \<Rightarrow> fs_status" where
  "vf_rmdir s parent name = NOT_ALLOWED"

definition vf_getdirentcount :: "vfs \<Rightarrow> inode \<Rightarrow> (fs_status \<times> u32) result" where
  "vf_getdirentcount s dir = bindr (vf_at s (in_id dir)) (\<lambda>v. Inr (SUCCESS, of_nat (length (vi_entries v))))"

fun vf_list_entries :: "vfs \<Rightarrow> vdirent list \<Rightarrow> dirent list result" where
  "vf_list_entries s [] = Inr []"
| "vf_list_entries s (e # es) = bindr (dirent_set_name \<lparr>de_inode = inode_zero, de_name = []\<rparr> (ve_name e)) (\<lambda>d.
     bindr (vf_at s (ve_id e)) (\<lambda>c. bindr (vf_list_entries s es) (\<lambda>ds. Inr (d\<lparr>de_inode := vi_inode c\<rparr> # ds))))"

definition vf_getdirents :: "vfs \<Rightarrow> inode \<Rightarrow> (fs_status \<times> dirent list) result" where
  "vf_getdirents s dir = bindr (vf_at s (in_id dir)) (\<lambda>v.
     bindr (vf_list_entries s (vi_entries v)) (\<lambda>ds. Inr (SUCCESS, ds)))"

definition vf_get_open_method :: "vfs \<Rightarrow> inode \<Rightarrow> open_method" where
  "vf_get_open_method s f = ERR_GENERAL"

subsection \<open>Well-formed states\<close>

definition ent_count :: "u32 \<Rightarrow> vinode \<Rightarrow> nat" where
  "ent_count i v = length (filter (\<lambda>e. ve_id e = i) (vi_entries v))"

definition vf_refs :: "vfs \<Rightarrow> u32 \<Rightarrow> nat" where
  "vf_refs s i = sum_list (map (ent_count i) (vf_inodes s))"

definition vf_valid :: "vfs \<Rightarrow> u32 \<Rightarrow> bool" where
  "vf_valid s i \<longleftrightarrow> 0 < unat i \<and> unat i < length (vf_inodes s)"

definition vf_wf :: "vfs \<Rightarrow> bool" where
  "vf_wf s \<longleftrightarrow> 2 \<le> length (vf_inodes s) \<and> length (vf_inodes s) < 4294967296
     \<and> (\<forall>i. vf_valid s i \<longrightarrow> in_links (vi_inode (vf_inodes s ! unat i)) = of_nat (vf_refs s i)
          \<and> in_id (vi_inode (vf_inodes s ! unat i)) = i \<and> in_fs (vi_inode (vf_inodes s ! unat i)) = vf_self s)
     \<and> (\<forall>v \<in> set (vf_inodes s). \<forall>e \<in> set (vi_entries v). vf_valid s (ve_id e) \<and> length (ve_name e) \<le> 127)"

lemma vf_at_valid: "vf_valid s i \<Longrightarrow> vf_at s i = Inr (vf_inodes s ! unat i)"
  by (simp add: vf_valid_def vf_at_def)

lemma vf_upd_sel [simp]: "length (vf_inodes (vf_upd s i f)) = length (vf_inodes s)" "vf_self (vf_upd s i f) = vf_self s"
  by (simp_all add: vf_upd_def)

lemma vf_valid_upd [simp]: "vf_valid (vf_upd s i f) j = vf_valid s j"
  by (simp add: vf_valid_def)

lemma vf_upd_nth:
  "vf_valid s i \<Longrightarrow> vf_inodes (vf_upd s i f) ! unat j = (if i = j then f (vf_inodes s ! unat i) else vf_inodes s ! unat j)"
  by (auto simp: vf_upd_def vf_valid_def nth_list_update word_unat_eq_iff)

lemma vf_refs_upd:
  assumes "vf_valid s i"
  shows "vf_refs (vf_upd s i f) j + ent_count j (vf_inodes s ! unat i) = vf_refs s j + ent_count j (f (vf_inodes s ! unat i))"
proof -
  have i: "unat i < length (vf_inodes s)" using assms by (simp add: vf_valid_def)
  have le: "ent_count j (vf_inodes s ! unat i) \<le> vf_refs s j"
    unfolding vf_refs_def using i member_le_sum_list [of "ent_count j (vf_inodes s ! unat i)" "map (ent_count j) (vf_inodes s)"] by simp
  then show ?thesis using i
    by (simp add: vf_refs_def vf_upd_def map_update sum_list_update)
qed


text \<open>Well-formedness from its three parts, and how the parts read back.\<close>

lemma vf_wfI:
  assumes "2 \<le> length (vf_inodes s)" "length (vf_inodes s) < 4294967296"
    and "\<And>i. vf_valid s i \<Longrightarrow> in_links (vi_inode (vf_inodes s ! unat i)) = of_nat (vf_refs s i)
      \<and> in_id (vi_inode (vf_inodes s ! unat i)) = i \<and> in_fs (vi_inode (vf_inodes s ! unat i)) = vf_self s"
    and "\<And>k e. k < length (vf_inodes s) \<Longrightarrow> e \<in> set (vi_entries (vf_inodes s ! k)) \<Longrightarrow> vf_valid s (ve_id e) \<and> length (ve_name e) \<le> 127"
  shows "vf_wf s"
  unfolding vf_wf_def using assms by (auto simp: in_set_conv_nth [of _ "vf_inodes s"])

lemma vf_wf_inode: "vf_wf s \<Longrightarrow> vf_valid s i \<Longrightarrow> in_links (vi_inode (vf_inodes s ! unat i)) = of_nat (vf_refs s i)
      \<and> in_id (vi_inode (vf_inodes s ! unat i)) = i \<and> in_fs (vi_inode (vf_inodes s ! unat i)) = vf_self s"
  by (simp add: vf_wf_def)

lemma vf_wf_entry: "vf_wf s \<Longrightarrow> k < length (vf_inodes s) \<Longrightarrow> e \<in> set (vi_entries (vf_inodes s ! k))
    \<Longrightarrow> vf_valid s (ve_id e) \<and> length (ve_name e) \<le> 127"
  unfolding vf_wf_def by (meson nth_mem)

text \<open>A step on the link count and one on the entries, together: how \<open>link\<close> and \<open>unlink\<close> change the
  state.\<close>

definition vf_relink :: "vfs \<Rightarrow> u32 \<Rightarrow> (vinode \<Rightarrow> vinode) \<Rightarrow> u32 \<Rightarrow> (vdirent list \<Rightarrow> vdirent list) \<Rightarrow> vfs" where
  "vf_relink s n g d f = vf_upd (vf_upd s n g) d (\<lambda>v. v\<lparr>vi_entries := f (vi_entries v)\<rparr>)"

lemma vf_relink_nth:
  assumes "vf_valid s n" "vf_valid s d" "\<And>v. vi_entries (g v) = vi_entries v" "vf_valid s i"
  shows "vi_inode (vf_inodes (vf_relink s n g d f) ! unat i)
      = (if i = n then vi_inode (g (vf_inodes s ! unat n)) else vi_inode (vf_inodes s ! unat i))"
    and "vi_entries (vf_inodes (vf_relink s n g d f) ! unat i)
      = (if i = d then f (vi_entries (vf_inodes s ! unat d)) else vi_entries (vf_inodes s ! unat i))"
  using assms by (auto simp: vf_relink_def vf_upd_nth)

lemma vf_relink_refs:
  assumes "vf_valid s n" "vf_valid s d" "\<And>v. vi_entries (g v) = vi_entries v"
  shows "vf_refs (vf_relink s n g d f) j + length (filter (\<lambda>e. ve_id e = j) (vi_entries (vf_inodes s ! unat d)))
    = vf_refs s j + length (filter (\<lambda>e. ve_id e = j) (f (vi_entries (vf_inodes s ! unat d))))"
proof -
  have "vf_refs (vf_upd s n g) j = vf_refs s j"
    using vf_refs_upd [OF assms(1), of g j] assms(3) by (simp add: ent_count_def)
  moreover have "vi_entries (vf_inodes (vf_upd s n g) ! unat d) = vi_entries (vf_inodes s ! unat d)"
    using assms by (auto simp: vf_upd_nth)
  ultimately show ?thesis
    using vf_refs_upd [of "vf_upd s n g" d "\<lambda>v. v\<lparr>vi_entries := f (vi_entries v)\<rparr>" j] assms(2)
    by (simp add: vf_relink_def ent_count_def)
qed

lemma vf_relink_low:
  assumes "vf_valid s n" "vf_valid s d" "k < length (vf_inodes s)" "\<And>v. vi_entries (g v) = vi_entries v"
  shows "vi_entries (vf_inodes (vf_relink s n g d f) ! k)
    = (if k = unat d then f (vi_entries (vf_inodes s ! unat d)) else vi_entries (vf_inodes s ! k))"
  using assms by (auto simp: vf_relink_def vf_upd_def vf_valid_def nth_list_update)

lemma vf_relink_wf:
  assumes wf: "vf_wf s" and v: "vf_valid s n" "vf_valid s d"
    and g: "\<And>v. vi_entries (g v) = vi_entries v" "\<And>v. in_id (vi_inode (g v)) = in_id (vi_inode v)"
      "\<And>v. in_fs (vi_inode (g v)) = in_fs (vi_inode v)"
    and links: "in_links (vi_inode (g (vf_inodes s ! unat n))) = of_nat (vf_refs (vf_relink s n g d f) n)"
    and others: "\<And>j. j \<noteq> n \<Longrightarrow> vf_refs (vf_relink s n g d f) j = vf_refs s j"
    and sub: "\<And>e. e \<in> set (f (vi_entries (vf_inodes s ! unat d))) \<Longrightarrow> vf_valid s (ve_id e) \<and> length (ve_name e) \<le> 127"
  shows "vf_wf (vf_relink s n g d f)"
proof (rule vf_wfI)
  let ?t = "vf_relink s n g d f"
  have len: "length (vf_inodes ?t) = length (vf_inodes s)" by (simp add: vf_relink_def)
  show "2 \<le> length (vf_inodes ?t)" "length (vf_inodes ?t) < 4294967296" using wf len by (simp_all add: vf_wf_def)
  have self: "vf_self ?t = vf_self s" by (simp add: vf_relink_def)
  fix i assume "vf_valid ?t i"
  then have i: "vf_valid s i" by (simp add: vf_relink_def)
  show "in_links (vi_inode (vf_inodes ?t ! unat i)) = of_nat (vf_refs ?t i)
      \<and> in_id (vi_inode (vf_inodes ?t ! unat i)) = i \<and> in_fs (vi_inode (vf_inodes ?t ! unat i)) = vf_self ?t"
    unfolding vf_relink_nth(1) [OF v g(1) i] using vf_wf_inode [OF wf i] vf_wf_inode [OF wf v(1)] g links others self by auto
next
  let ?t = "vf_relink s n g d f"
  fix k e assume k: "k < length (vf_inodes ?t)" and e: "e \<in> set (vi_entries (vf_inodes ?t ! k))"
  have "k < length (vf_inodes s)" using k by (simp add: vf_relink_def)
  then have "vf_valid s (ve_id e) \<and> length (ve_name e) \<le> 127"
    using e sub vf_wf_entry [OF wf, of k e] vf_relink_low [OF v, of k g f] g(1) by (auto split: if_splits)
  then show "vf_valid ?t (ve_id e) \<and> length (ve_name e) \<le> 127" by (simp add: vf_relink_def)
qed

lemma vi_retain_simps [simp]: "vi_entries (vi_retain v) = vi_entries v" "in_id (vi_inode (vi_retain v)) = in_id (vi_inode v)"
  "in_fs (vi_inode (vi_retain v)) = in_fs (vi_inode v)" "in_links (vi_inode (vi_retain v)) = in_links (vi_inode v) + 1"
  by (simp_all add: vi_retain_def)

lemma vi_release_simps [simp]: "vi_entries (vi_release v) = vi_entries v" "in_id (vi_inode (vi_release v)) = in_id (vi_inode v)"
  "in_fs (vi_inode (vi_release v)) = in_fs (vi_inode v)" "in_links (vi_inode (vi_release v)) = in_links (vi_inode v) - 1"
  "in_mode (vi_inode (vi_release v)) = (if in_links (vi_inode v) = 1 then 0 else in_mode (vi_inode v))"
  by (simp_all add: vi_release_def Let_def)

lemma vf_link_relink:
  assumes "vf_valid s (in_id d)" "vf_valid s (in_id n)" "length name \<le> 127"
  shows "vf_link s d n name = Inr (SUCCESS, vf_relink s (in_id n) vi_retain (in_id d)
    (\<lambda>es. es @ [\<lparr>ve_id = in_id n, ve_name = name\<rparr>]))"
  using assms by (simp add: vf_link_def vf_at_valid vf_relink_def)

lemma vf_link_wf:
  assumes "vf_wf s" "vf_valid s d" "vf_valid s n" "length name \<le> 127"
  shows "vf_wf (vf_relink s n vi_retain d (\<lambda>es. es @ [\<lparr>ve_id = n, ve_name = name\<rparr>]))"
proof (rule vf_relink_wf [OF assms(1,3,2)])
  let ?f = "\<lambda>es. es @ [\<lparr>ve_id = n, ve_name = name\<rparr>]"
  note R = vf_relink_refs [OF assms(3,2), of vi_retain ?f]
  have "vf_refs (vf_relink s n vi_retain d ?f) n = vf_refs s n + 1" using R [of n] by simp
  then show "in_links (vi_inode (vi_retain (vf_inodes s ! unat n))) = of_nat (vf_refs (vf_relink s n vi_retain d ?f) n)"
    using vf_wf_inode [OF assms(1,3)] by simp
  show "vf_refs (vf_relink s n vi_retain d ?f) j = vf_refs s j" if "j \<noteq> n" for j using R [of j] that by simp
  show "vf_valid s (ve_id e) \<and> length (ve_name e) \<le> 127" if "e \<in> set (vi_entries (vf_inodes s ! unat d) @ [\<lparr>ve_id = n, ve_name = name\<rparr>])" for e
    using that assms vf_wf_entry [OF assms(1), of "unat d" e] by (auto simp: vf_valid_def)
qed simp_all

lemma remove_named_spec:
  assumes "find (\<lambda>e. ve_name e = name) es = Some e"
  shows "set (remove_named name es) \<subseteq> set es" "e \<in> set es" "ve_name e = name"
    "length (filter P (remove_named name es)) + (if P e then 1 else 0) = length (filter P es)"
  using assms by (induction es) (auto split: if_splits)

lemma vf_unlink_wf:
  assumes "vf_wf s" "vf_valid s d" "find (\<lambda>e. ve_name e = name) (vi_entries (vf_inodes s ! unat d)) = Some e"
  shows "vf_wf (vf_relink s (ve_id e) vi_release d (remove_named name))" "vf_valid s (ve_id e)"
    "0 < vf_refs s (ve_id e)" "vf_refs (vf_relink s (ve_id e) vi_release d (remove_named name)) (ve_id e) = vf_refs s (ve_id e) - 1"
proof -
  note N = remove_named_spec [OF assms(3)]
  have dl: "unat d < length (vf_inodes s)" using assms(2) by (simp add: vf_valid_def)
  show ev: "vf_valid s (ve_id e)" using vf_wf_entry [OF assms(1) dl N(2)] by simp
  let ?t = "vf_relink s (ve_id e) vi_release d (remove_named name)"
  note R = vf_relink_refs [OF ev assms(2), of vi_release "remove_named name"]
  have refs: "vf_refs ?t j + (if j = ve_id e then 1 else 0) = vf_refs s j" for j
    using R [of j] N(4) [of "\<lambda>e. ve_id e = j"] by (auto split: if_splits)
  then have r: "Suc (vf_refs ?t (ve_id e)) = vf_refs s (ve_id e)" using refs [of "ve_id e"] by simp
  then show "0 < vf_refs s (ve_id e)" "vf_refs ?t (ve_id e) = vf_refs s (ve_id e) - 1" by linarith+
  show "vf_wf ?t"
  proof (rule vf_relink_wf [OF assms(1) ev assms(2)])
    have "(of_nat (vf_refs s (ve_id e)) :: u32) = of_nat (vf_refs ?t (ve_id e)) + 1" by (simp add: r [symmetric])
    then show "in_links (vi_inode (vi_release (vf_inodes s ! unat (ve_id e)))) = of_nat (vf_refs ?t (ve_id e))"
      using vf_wf_inode [OF assms(1) ev] by simp
    show "vf_refs ?t j = vf_refs s j" if "j \<noteq> ve_id e" for j using refs [of j] that by simp
    show "vf_valid s (ve_id x) \<and> length (ve_name x) \<le> 127" if "x \<in> set (remove_named name (vi_entries (vf_inodes s ! unat d)))" for x
      using that N(1) vf_wf_entry [OF assms(1) dl] by blast
  qed simp_all
qed


lemma vf_refs_invalid:
  assumes "vf_wf s" "\<not> vf_valid s i" shows "vf_refs s i = 0"
proof -
  have "ent_count i v = 0" if "v \<in> set (vf_inodes s)" for v
    using that assms unfolding ent_count_def vf_wf_def by (fastforce simp: filter_empty_conv)
  then show ?thesis by (simp add: vf_refs_def)
qed

lemma vf_create_cases:
  assumes wf: "vf_wf s" and room: "length (vf_inodes s) + 1 < 4294967296"
    and c: "vf_create s mode uid gid = Inr (st, n, s')"
  obtains (reuse) "vf_valid s (in_id n)" "in_mode (vi_inode (vf_inodes s ! unat (in_id n))) = 0"
      "s' = vf_upd s (in_id n) (\<lambda>v. v\<lparr>vi_inode := n\<rparr>)" "in_links n = in_links (vi_inode (vf_inodes s ! unat (in_id n)))"
    | (fresh) "unat (in_id n) = length (vf_inodes s)" "in_links n = 0"
      "s' = s\<lparr>vf_inodes := vf_inodes s @ [\<lparr>vi_inode = n, vi_data = None, vi_entries = []\<rparr>]\<rparr>"
proof (cases "find (\<lambda>i. in_mode (vi_inode (vf_inodes s ! i)) = 0) [1..<length (vf_inodes s)]")
  case (Some i)
  then have i: "in_mode (vi_inode (vf_inodes s ! i)) = 0" "0 < i" "i < length (vf_inodes s)"
    by (auto simp: find_Some_iff)
  have u: "unat (of_nat i :: u32) = i" using i(3) room by (intro unat_of_nat32) linarith
  then have "vf_valid s (of_nat i)" using i by (simp add: vf_valid_def)
  then show thesis using reuse c Some i u
    by (auto simp: vf_create_def vf_alloc_inode_def vf_at_valid vf_upd_def Let_def)
next
  case None
  have u: "unat (of_nat (length (vf_inodes s)) :: u32) = length (vf_inodes s)" using room by (intro unat_of_nat32) linarith
  then show thesis using fresh c None
    by (auto simp: vf_create_def vf_alloc_inode_def vf_at_def vf_upd_def vinode_empty_def inode_zero_def Let_def)
qed

lemma vf_create_ok:
  assumes "vf_wf s" "length (vf_inodes s) + 1 < 4294967296"
  obtains n s' where "vf_create s mode uid gid = Inr (SUCCESS, n, s')" "in_fs n = vf_self s" "in_mode n = mode"
    "in_uid n = uid" "in_gid n = gid"
proof -
  obtain i s1 where a: "vf_alloc_inode s = (i, s1)" by fastforce
  have "unat i < length (vf_inodes s1) \<and> vf_self s1 = vf_self s"
  proof (cases "find (\<lambda>i. in_mode (vi_inode (vf_inodes s ! i)) = 0) [1..<length (vf_inodes s)]")
    case (Some k)
    then have k: "k < length (vf_inodes s)" by (auto simp: find_Some_iff)
    then have "unat (of_nat k :: u32) = k" using assms(2) by (intro unat_of_nat32) linarith
    then show ?thesis using a Some k by (auto simp: vf_alloc_inode_def)
  next
    case None
    have "unat (of_nat (length (vf_inodes s)) :: u32) = length (vf_inodes s)" using assms(2) by (intro unat_of_nat32) linarith
    then show ?thesis using a None by (auto simp: vf_alloc_inode_def)
  qed
  then show thesis using a
    by (intro that [of "(vi_inode (vf_inodes s1 ! unat i))\<lparr>in_id := i, in_fs := vf_self s1, in_mode := mode, in_uid := uid, in_gid := gid\<rparr>"])
      (simp_all add: vf_create_def vf_at_def Let_def)
qed

lemma vf_create_wf:
  assumes wf: "vf_wf s" and room: "length (vf_inodes s) + 1 < 4294967296"
    and c: "vf_create s mode uid gid = Inr (st, n, s')"
  shows "vf_wf s'" "vf_valid s' (in_id n)" "\<forall>i. vf_valid s i \<longrightarrow> vf_valid s' i"
    "\<forall>i. vf_valid s i \<longrightarrow> vi_entries (vf_inodes s' ! unat i) = vi_entries (vf_inodes s ! unat i)"
    "length (vf_inodes s') \<le> length (vf_inodes s) + 1" "vi_inode (vf_inodes s' ! unat (in_id n)) = n" "vf_self s' = vf_self s"
proof -
  obtain n2 s2 where c2: "vf_create s mode uid gid = Inr (SUCCESS, n2, s2)" "in_fs n2 = vf_self s"
    using vf_create_ok [OF wf room] by metis
  then have nfs: "in_fs n = vf_self s" using c by simp
  have "vf_wf s' \<and> vf_valid s' (in_id n) \<and> (\<forall>i. vf_valid s i \<longrightarrow> vf_valid s' i)
    \<and> (\<forall>i. vf_valid s i \<longrightarrow> vi_entries (vf_inodes s' ! unat i) = vi_entries (vf_inodes s ! unat i))
    \<and> length (vf_inodes s') \<le> length (vf_inodes s) + 1 \<and> vi_inode (vf_inodes s' ! unat (in_id n)) = n \<and> vf_self s' = vf_self s"
    using wf room c
  proof (cases rule: vf_create_cases)
    case reuse
    have ent: "vi_entries (vf_inodes s' ! k) = vi_entries (vf_inodes s ! k)" if "k < length (vf_inodes s)" for k
      using that reuse(1) unfolding reuse(3) by (cases "k = unat (in_id n)") (simp_all add: vf_upd_def)
    have refs: "vf_refs s' j = vf_refs s j" for j
      using vf_refs_upd [OF reuse(1), of "\<lambda>v. v\<lparr>vi_inode := n\<rparr>" j] unfolding reuse(3) by (simp add: ent_count_def)
    have nth: "vi_inode (vf_inodes s' ! unat i) = (if in_id n = i then n else vi_inode (vf_inodes s ! unat i))" if "vf_valid s i" for i
      unfolding reuse(3) vf_upd_nth [OF reuse(1)] by simp
    have val: "vf_valid s' i = vf_valid s i" "length (vf_inodes s') = length (vf_inodes s)" "vf_self s' = vf_self s" for i
      unfolding reuse(3) by simp_all
    have "vf_wf s'"
    proof (rule vf_wfI)
      fix i assume "vf_valid s' i"
      then have i: "vf_valid s i" using val by simp
      show "in_links (vi_inode (vf_inodes s' ! unat i)) = of_nat (vf_refs s' i)
        \<and> in_id (vi_inode (vf_inodes s' ! unat i)) = i \<and> in_fs (vi_inode (vf_inodes s' ! unat i)) = vf_self s'"
        using vf_wf_inode [OF wf i] vf_wf_inode [OF wf reuse(1)] reuse(4) nfs unfolding nth [OF i] refs val(3) by auto
    next
      fix k e assume "k < length (vf_inodes s')" "e \<in> set (vi_entries (vf_inodes s' ! k))"
      then show "vf_valid s' (ve_id e) \<and> length (ve_name e) \<le> 127"
        using ent vf_wf_entry [OF wf, of k e] val by simp
    qed (use wf val in \<open>simp_all add: vf_wf_def\<close>)
    then show ?thesis using val ent nth [OF reuse(1)] reuse(1) by (auto simp: vf_valid_def)
  next
    case fresh
    have len: "length (vf_inodes s') = Suc (length (vf_inodes s))" "vf_self s' = vf_self s" unfolding fresh(3) by simp_all
    have old: "vf_inodes s' ! k = vf_inodes s ! k" if "k < length (vf_inodes s)" for k using that unfolding fresh(3) by (simp add: nth_append)
    have new: "vf_inodes s' ! length (vf_inodes s) = \<lparr>vi_inode = n, vi_data = None, vi_entries = []\<rparr>" unfolding fresh(3) by (simp add: nth_append)
    have refs: "vf_refs s' j = vf_refs s j" for j unfolding fresh(3) by (simp add: vf_refs_def ent_count_def)
    have val: "vf_valid s' i \<longleftrightarrow> vf_valid s i \<or> i = in_id n" for i
      using fresh(1) len wf by (auto simp: vf_valid_def vf_wf_def less_Suc_eq word_unat_eq_iff)
    have "\<not> vf_valid s (in_id n)" using fresh(1) by (simp add: vf_valid_def)
    then have r0: "vf_refs s (in_id n) = 0" by (rule vf_refs_invalid [OF wf])
    have "vf_wf s'"
    proof (rule vf_wfI)
      fix i assume "vf_valid s' i"
      then consider "vf_valid s i" | "i = in_id n" using val by blast
      then show "in_links (vi_inode (vf_inodes s' ! unat i)) = of_nat (vf_refs s' i)
        \<and> in_id (vi_inode (vf_inodes s' ! unat i)) = i \<and> in_fs (vi_inode (vf_inodes s' ! unat i)) = vf_self s'"
      proof cases
        case 1
        then have "unat i < length (vf_inodes s)" by (simp add: vf_valid_def)
        then show ?thesis using vf_wf_inode [OF wf 1] old refs len by simp
      next
        case 2
        then show ?thesis using new fresh(1,2) refs r0 nfs len by simp
      qed
    next
      fix k e assume k: "k < length (vf_inodes s')" "e \<in> set (vi_entries (vf_inodes s' ! k))"
      then have "k < length (vf_inodes s)" using new len by (cases "k = length (vf_inodes s)") auto
      then show "vf_valid s' (ve_id e) \<and> length (ve_name e) \<le> 127" using k old vf_wf_entry [OF wf, of k e] val by simp
    qed (use wf len room in \<open>simp_all add: vf_wf_def\<close>)
    moreover have "2 \<le> length (vf_inodes s)" using wf unfolding vf_wf_def by blast
    then have "0 < unat (in_id n)" using fresh(1) by linarith
    ultimately show ?thesis using old new len fresh(1) by (auto simp: vf_valid_def)
  qed
  then show "vf_wf s'" "vf_valid s' (in_id n)" "\<forall>i. vf_valid s i \<longrightarrow> vf_valid s' i"
    "\<forall>i. vf_valid s i \<longrightarrow> vi_entries (vf_inodes s' ! unat i) = vi_entries (vf_inodes s ! unat i)"
    "length (vf_inodes s') \<le> length (vf_inodes s) + 1" "vi_inode (vf_inodes s' ! unat (in_id n)) = n" "vf_self s' = vf_self s"
    by blast+
qed


text \<open>Fetching through a state changed by \<open>vf_relink\<close>.\<close>

lemma vf_fetch_relink:
  assumes wf: "vf_wf (vf_relink s n g d f)" and v: "vf_valid s n" "vf_valid s d" "\<And>v. vi_entries (g v) = vi_entries v" "vf_valid s (in_id i)"
  shows "vf_fetch (vf_relink s n g d f) i name =
    (case find (\<lambda>e. ve_name e = name) (if in_id i = d then f (vi_entries (vf_inodes s ! unat d)) else vi_entries (vf_inodes s ! unat (in_id i))) of
       None \<Rightarrow> Inr (NO_ENTRY, None)
     | Some e \<Rightarrow> Inr (SUCCESS, Some (vi_inode (vf_inodes (vf_relink s n g d f) ! unat (ve_id e)))))"
proof -
  let ?t = "vf_relink s n g d f"
  have vt: "vf_valid ?t j = vf_valid s j" for j by (simp add: vf_relink_def)
  have at: "vf_at ?t (in_id i) = Inr (vf_inodes ?t ! unat (in_id i))" using v(4) vt by (simp add: vf_at_valid)
  have "vf_valid ?t (ve_id e)" if "find (\<lambda>e. ve_name e = name) (vi_entries (vf_inodes ?t ! unat (in_id i))) = Some e" for e
  proof -
    have "e \<in> set (vi_entries (vf_inodes ?t ! unat (in_id i)))" using that remove_named_spec(2) by blast
    then show ?thesis using vf_wf_entry [OF wf, of "unat (in_id i)" e] v(4) by (simp add: vf_valid_def vf_relink_def)
  qed
  then show ?thesis using at vf_relink_nth(2) [OF v, where f = f]
    by (auto simp: vf_fetch_def vf_at_valid split: option.splits)
qed

lemma vf_link_fetch:
  assumes "vf_wf s" "vf_valid s (in_id d)" "vf_valid s (in_id n)" "length name \<le> 127"
    and "find (\<lambda>e. ve_name e = name) (vi_entries (vf_inodes s ! unat (in_id d))) = None"
  obtains s' c where "vf_link s d n name = Inr (SUCCESS, s')" "vf_wf s'" "vf_fetch s' d name = Inr (SUCCESS, Some c)" "in_id c = in_id n"
    "in_links c = in_links (vi_inode (vf_inodes s ! unat (in_id n))) + 1"
proof -
  let ?f = "\<lambda>es. es @ [\<lparr>ve_id = in_id n, ve_name = name\<rparr>]"
  let ?t = "vf_relink s (in_id n) vi_retain (in_id d) ?f"
  have wf: "vf_wf ?t" by (rule vf_link_wf [OF assms(1-4)])
  have "find (\<lambda>e. ve_name e = name) (?f (vi_entries (vf_inodes s ! unat (in_id d)))) = Some \<lparr>ve_id = in_id n, ve_name = name\<rparr>"
    using assms(5) by (intro find_first) (auto simp: find_None_iff)
  then have f: "vf_fetch ?t d name = Inr (SUCCESS, Some (vi_inode (vf_inodes ?t ! unat (in_id n))))"
    using vf_fetch_relink [OF wf assms(3,2) vi_retain_simps(1) assms(2), of name] by simp
  have c: "vi_inode (vf_inodes ?t ! unat (in_id n)) = vi_inode (vi_retain (vf_inodes s ! unat (in_id n)))"
    using vf_relink_nth(1) [OF assms(3,2) vi_retain_simps(1) assms(3)] by simp
  show thesis
    by (rule that [OF vf_link_relink [OF assms(2-4)] wf f]) (use c vf_wf_inode [OF assms(1,3)] in simp_all)
qed

lemma vf_mkdir_wf:
  assumes wf: "vf_wf s" and d: "vf_valid s (in_id d)" and room: "length (vf_inodes s) + 1 < 4294967296" and name: "length name \<le> 127"
  obtains n s' where "vf_mkdir s d mode uid gid name = Inr (SUCCESS, Some n, s')" "vf_wf s'" "vf_valid s' (in_id n)"
    "in_fs n = vf_self s" "vf_self s' = vf_self s" "\<forall>i. vf_valid s i \<longrightarrow> vf_valid s' i"
proof -
  obtain n s1 where c: "vf_create s ((mode AND NOT S_IFMT) OR S_IFDIR) uid gid = Inr (SUCCESS, n, s1)" "in_fs n = vf_self s"
    using vf_create_ok [OF wf room] by metis
  note C = vf_create_wf [OF wf room c(1)]
  have d1: "vf_valid s1 (in_id d)" using C(3) d by blast
  let ?s2 = "vf_relink s1 (in_id n) vi_retain (in_id d) (\<lambda>es. es @ [\<lparr>ve_id = in_id n, ve_name = name\<rparr>])"
  let ?s3 = "vf_relink ?s2 (in_id n) vi_retain (in_id n) (\<lambda>es. es @ [\<lparr>ve_id = in_id n, ve_name = ''.''\<rparr>])"
  let ?s4 = "vf_relink ?s3 (in_id d) vi_retain (in_id n) (\<lambda>es. es @ [\<lparr>ve_id = in_id d, ve_name = ''..''\<rparr>])"
  have val: "vf_valid (vf_relink s n g d f) i = vf_valid s i" for s n g d f i by (simp add: vf_relink_def)
  have w2: "vf_wf ?s2" by (rule vf_link_wf [OF C(1) d1 C(2) name])
  have w3: "vf_wf ?s3" using C(2) by (intro vf_link_wf [OF w2]) (simp_all add: val)
  have w4: "vf_wf ?s4" using C(2) d1 by (intro vf_link_wf [OF w3]) (simp_all add: val)
  have "vf_mkdir s d mode uid gid name = Inr (SUCCESS, Some n, ?s4)"
    using c vf_link_relink [OF d1 C(2) name] vf_link_relink [of ?s2 n n "''.''"] vf_link_relink [of ?s3 n d "''..''"] C(2) d1
    by (simp add: vf_mkdir_def val)
  then show thesis by (rule that [OF _ w4]) (simp_all add: C(2,3,7) c(2) val, simp add: vf_relink_def C(7))
qed

subsection \<open>Properties\<close>


definition demo_vfs :: vfs where
  "demo_vfs = (case vf_new 9 of Inr s \<Rightarrow> s | Inl _ \<Rightarrow> \<lparr>vf_self = 0, vf_inodes = []\<rparr>)"

definition demo_root :: inode where
  "demo_root = \<lparr>in_id = 1, in_fs = 9, in_links = 2, in_size = 0, in_mode = 0x41f6, in_uid = 0, in_gid = 0\<rparr>"

lemma demo_vfs_eq: "demo_vfs = \<lparr>vf_self = 9, vf_inodes = [vinode_empty,
    \<lparr>vi_inode = demo_root, vi_data = None, vi_entries = [\<lparr>ve_id = 1, ve_name = ''.''\<rparr>, \<lparr>ve_id = 1, ve_name = ''..''\<rparr>]\<rparr>]\<rparr>"
  by code_simp

lemma vf_valid_demo: "vf_valid demo_vfs i \<longleftrightarrow> i = 1"
proof -
  have "(0 < unat i \<and> unat i < Suc (Suc 0)) = (i = 1)" by (auto simp: word_unat_eq_iff)
  then show ?thesis by (simp add: demo_vfs_eq vf_valid_def numeral_2_eq_2)
qed

lemma demo_vfs_wf: "vf_wf demo_vfs" "vf_valid demo_vfs 1"
  unfolding vf_wf_def vf_valid_demo
  by (auto simp: demo_vfs_eq vinode_empty_def vf_refs_def ent_count_def demo_root_def)


text \<open>After linking a name that the directory did not have, fetching it gives the linked inode, with its
  link count one higher.\<close>

theorem vfs_link_then_fetch:
  assumes "vf_wf s" "vf_valid s (in_id d)" "vf_valid s (in_id n)" "length name \<le> 127"
    and "vf_fetch s d name = Inr (NO_ENTRY, None)"
  shows "\<exists>s' c. vf_link s d n name = Inr (SUCCESS, s') \<and> vf_fetch s' d name = Inr (SUCCESS, Some c)
    \<and> in_id c = in_id n \<and> in_links c = in_links (vi_inode (vf_inodes s ! unat (in_id n))) + 1"
proof -
  have "find (\<lambda>e. ve_name e = name) (vi_entries (vf_inodes s ! unat (in_id d))) = None"
    using assms(2,5) by (auto simp: vf_fetch_def vf_at_valid bindr_Inr_iff split: option.splits)
  from vf_link_fetch [OF assms(1-4) this] show ?thesis by metis
qed

theorem vfs_link_then_fetch_witness:
  "\<exists>s' c. vf_link demo_vfs demo_root demo_root ''self'' = Inr (SUCCESS, s') \<and> vf_fetch s' demo_root ''self'' = Inr (SUCCESS, Some c) \<and> in_links c = 3"
proof -
  have "vf_fetch demo_vfs demo_root ''self'' = Inr (NO_ENTRY, None)" by (simp add: demo_vfs_eq demo_root_def vf_fetch_def vf_at_def)
  from vfs_link_then_fetch [OF demo_vfs_wf(1) _ _ _ this, of demo_root] demo_vfs_wf(2) show ?thesis
    by (auto simp: demo_vfs_eq demo_root_def)
qed

text \<open>Unlinking an existing name removes one reference, and the inode is freed (its mode becomes 0, so that
  \<open>alloc_inode\<close> may reuse it) exactly when that was the last one.\<close>

theorem vfs_unlink_frees_last:
  assumes "vf_wf s" "vf_valid s (in_id d)" "find (\<lambda>e. ve_name e = name) (vi_entries (vf_inodes s ! unat (in_id d))) = Some e"
    and "vf_refs s (ve_id e) < 4294967296" "in_mode (vi_inode (vf_inodes s ! unat (ve_id e))) \<noteq> 0"
  shows "\<exists>s'. vf_unlink s d name = Inr (SUCCESS, s') \<and> vf_refs s' (ve_id e) = vf_refs s (ve_id e) - 1
    \<and> (in_mode (vi_inode (vf_inodes s' ! unat (ve_id e))) = 0 \<longleftrightarrow> vf_refs s (ve_id e) = 1)"
proof -
  let ?t = "vf_relink s (ve_id e) vi_release (in_id d) (remove_named name)"
  note U = vf_unlink_wf [OF assms(1-3)]
  have "vf_unlink s d name = Inr (SUCCESS, ?t)" using assms(2,3) U(2) by (simp add: vf_unlink_def vf_at_valid vf_relink_def)
  moreover have "in_links (vi_inode (vf_inodes s ! unat (ve_id e))) = 1 \<longleftrightarrow> vf_refs s (ve_id e) = 1"
    using vf_wf_inode [OF assms(1) U(2)] unat_of_nat32 [OF assms(4)] by (metis of_nat_1 unat_1)
  moreover have "vi_inode (vf_inodes ?t ! unat (ve_id e)) = vi_inode (vi_release (vf_inodes s ! unat (ve_id e)))"
    using vf_relink_nth(1) [OF U(2) assms(2) vi_release_simps(1) U(2)] by simp
  ultimately show ?thesis using U(4) assms(5) by auto
qed

theorem vfs_unlink_frees_last_witness:
  "\<exists>s'. vf_unlink demo_vfs demo_root ''..'' = Inr (SUCCESS, s') \<and> vf_refs s' 1 = 1 \<and> in_mode (vi_inode (vf_inodes s' ! 1)) \<noteq> 0"
  using vfs_unlink_frees_last [OF demo_vfs_wf(1), of demo_root "''..''" "\<lparr>ve_id = 1, ve_name = ''..''\<rparr>"] demo_vfs_wf(2)
  by (auto simp: demo_vfs_eq demo_root_def vf_refs_def ent_count_def vinode_empty_def)

end
