(* ===== verification/Dev_Fs.thy ===== *)
theory Dev_Fs
  imports Inodes
begin

text \<open>
  The device file system (\<open>kernel/src/fs/devfs.cpp\<close>, \<open>devfs.hpp\<close>): one flat directory, inode 1, of
  the devices the drivers registered. Devices are pointers (numbers); their virtual \<open>get_size\<close> is the
  parameter \<open>size_of\<close>. \<open>out\<close> is what the inode passed for output held, of which \<open>to_inode\<close> leaves the
  link count untouched.
\<close>

datatype dev_type = BLOCK_DEVICE | CHARACTER_DEVICE

record devinode =
  di_id :: u32
  di_type :: dev_type
  di_device :: nat
  di_name :: string

record devfs =
  df_self :: nat
  df_devices :: "devinode list"
  df_counter :: u32

definition df_new :: "nat \<Rightarrow> devfs" where
  "df_new self = \<lparr>df_self = self, df_devices = [], df_counter = 2\<rparr>"

definition di_to_inode :: "(nat \<Rightarrow> u64) \<Rightarrow> nat \<Rightarrow> devinode \<Rightarrow> inode \<Rightarrow> inode" where
  "di_to_inode size_of fs d out = out\<lparr>in_id := di_id d, in_fs := fs, in_size := size_of (di_device d),
     in_mode := (0x100 OR 0x080 OR 0x020 OR 0x010) OR (if di_type d = BLOCK_DEVICE then S_IFBLK else S_IFCHR),
     in_uid := 0, in_gid := 0\<rparr>"

definition df_get_device_with_id :: "devfs \<Rightarrow> u32 \<Rightarrow> devinode option" where
  "df_get_device_with_id s i = find (\<lambda>d. di_id d = i) (df_devices s)"

definition df_get_device_with_name :: "devfs \<Rightarrow> string \<Rightarrow> devinode option" where
  "df_get_device_with_name s name = find (\<lambda>d. di_name d = name) (df_devices s)"

definition df_create_fd :: "devfs \<Rightarrow> inode \<Rightarrow> nat" where
  "df_create_fd s f = (case df_get_device_with_id s (in_id f) of None \<Rightarrow> 0 | Some d \<Rightarrow> di_device d)"

definition df_get_open_method :: "devfs \<Rightarrow> inode \<Rightarrow> open_method" where
  "df_get_open_method s f = (if in_id f = 1 then ERR_GENERAL
     else if df_get_device_with_id s (in_id f) \<noteq> None then USE_FILE_DESCRIPTION else ERR_GENERAL)"

definition df_get_root :: "devfs \<Rightarrow> inode \<Rightarrow> fs_status \<times> inode" where
  "df_get_root s out = (SUCCESS, out\<lparr>in_id := 1, in_fs := df_self s, in_size := 0,
     in_mode := 0x1c0 OR 0x020 OR 0x008 OR 0x004 OR 0x001 OR S_IFDIR, in_uid := 0, in_gid := 0, in_links := 0\<rparr>)"

definition df_fetch :: "(nat \<Rightarrow> u64) \<Rightarrow> devfs \<Rightarrow> inode \<Rightarrow> inode \<Rightarrow> string \<Rightarrow> fs_status \<times> inode" where
  "df_fetch size_of s dir out name = (if in_id dir \<noteq> 1 then (NOT_ALLOWED, out)
     else if name = ''.'' \<or> name = ''..'' then df_get_root s out
     else case df_get_device_with_name s name of
       None \<Rightarrow> (NO_ENTRY, out)
     | Some d \<Rightarrow> (SUCCESS, di_to_inode size_of (df_self s) d out))"

text \<open>Everything that would change the directory is refused.\<close>

definition df_create :: "devfs \<Rightarrow> u32 \<Rightarrow> u16 \<Rightarrow> u16 \<Rightarrow> fs_status" where "df_create s mode uid gid = NOT_ALLOWED"
definition df_link :: "devfs \<Rightarrow> inode \<Rightarrow> inode \<Rightarrow> string \<Rightarrow> fs_status" where "df_link s dir node name = NOT_ALLOWED"
definition df_unlink :: "devfs \<Rightarrow> inode \<Rightarrow> string \<Rightarrow> fs_status" where "df_unlink s dir name = NOT_ALLOWED"
definition df_mkdir :: "devfs \<Rightarrow> inode \<Rightarrow> u32 \<Rightarrow> u16 \<Rightarrow> u16 \<Rightarrow> string \<Rightarrow> fs_status" where "df_mkdir s p mode uid gid name = NOT_ALLOWED"
definition df_rmdir :: "devfs \<Rightarrow> inode \<Rightarrow> string \<Rightarrow> fs_status" where "df_rmdir s p name = NOT_ALLOWED"

definition df_getdirentcount :: "devfs \<Rightarrow> inode \<Rightarrow> fs_status \<times> u32 option" where
  "df_getdirentcount s dir = (if in_id dir \<noteq> 1 then (NO_ENTRY, None)
     else (SUCCESS, Some (of_nat (length (df_devices s)) + 2)))"

fun df_list_devices :: "(nat \<Rightarrow> u64) \<Rightarrow> nat \<Rightarrow> devinode list \<Rightarrow> dirent list result" where
  "df_list_devices size_of fs [] = Inr []"
| "df_list_devices size_of fs (d # ds) =
     bindr (dirent_set_name \<lparr>de_inode = inode_zero, de_name = []\<rparr> (di_name d)) (\<lambda>e.
     bindr (df_list_devices size_of fs ds) (\<lambda>es. Inr (e\<lparr>de_inode := di_to_inode size_of fs d inode_zero\<rparr> # es)))"

definition df_getdirents :: "(nat \<Rightarrow> u64) \<Rightarrow> devfs \<Rightarrow> inode \<Rightarrow> (fs_status \<times> dirent list) result" where
  "df_getdirents size_of s dir = (if in_id dir \<noteq> 1 then Inr (NO_ENTRY, [])
     else let root = snd (df_get_root s inode_zero) in
       bindr (df_list_devices size_of (df_self s) (df_devices s)) (\<lambda>es.
         Inr (SUCCESS, \<lparr>de_inode = root, de_name = ''.''\<rparr> # \<lparr>de_inode = root, de_name = ''..''\<rparr> # es)))"

definition df_add_device :: "devfs \<Rightarrow> nat \<Rightarrow> dev_type \<Rightarrow> string \<Rightarrow> devfs result" where
  "df_add_device s device ty name = (if df_get_device_with_name s name \<noteq> None then Inl Panic
     else if 32 \<le> length name then Inl Panic
     else Inr (s\<lparr>df_counter := df_counter s + 1,
        df_devices := df_devices s @ [\<lparr>di_id = df_counter s, di_type = ty, di_device = device, di_name = name\<rparr>]\<rparr>))"

subsection \<open>Well-formed device directories\<close>

definition df_wf :: "devfs \<Rightarrow> bool" where
  "df_wf s \<longleftrightarrow> distinct (map di_name (df_devices s)) \<and> distinct (map di_id (df_devices s))
     \<and> (\<forall>d \<in> set (df_devices s). 2 \<le> di_id d \<and> di_id d < df_counter s \<and> length (di_name d) < 32) \<and> 2 \<le> df_counter s"

lemma find_distinct: "distinct (map f xs) \<Longrightarrow> x \<in> set xs \<Longrightarrow> find (\<lambda>y. f y = f x) xs = Some x"
  by (induction xs) (auto simp: rev_image_eqI)

lemma df_add_wf:
  assumes "df_wf s" "df_add_device s device ty name = Inr s'" "df_counter s < 0xffffffff"
  shows "df_wf s'"
proof -
  have lt: "df_counter s < df_counter s + 1" using assms(3) by (simp add: word_less_unat unat_add_small)
  then have "\<forall>d \<in> set (df_devices s). di_id d < df_counter s + 1"
    using assms(1) unfolding df_wf_def by (meson order_less_trans)
  moreover have "df_counter s \<notin> di_id ` set (df_devices s)" using assms(1) unfolding df_wf_def by fastforce
  moreover have "name \<notin> di_name ` set (df_devices s)"
    using assms(2) by (auto simp: df_add_device_def df_get_device_with_name_def find_None_iff split: if_splits)
  moreover have "2 \<le> df_counter s + 1" using lt assms(1) by (auto simp: df_wf_def)
  ultimately show ?thesis using assms(1,2) lt by (auto simp: df_wf_def df_add_device_def split: if_splits)
qed

lemma df_lookup_agree:
  assumes "df_wf s" "df_get_device_with_name s name = Some d"
  shows "df_get_device_with_id s (di_id d) = Some d" "d \<in> set (df_devices s)" "di_name d = name"
proof -
  show d: "d \<in> set (df_devices s)" "di_name d = name"
    using assms(2) by (auto simp: df_get_device_with_name_def find_Some_iff nth_mem)
  show "df_get_device_with_id s (di_id d) = Some d"
    unfolding df_get_device_with_id_def using assms(1) d(1) by (intro find_distinct) (simp_all add: df_wf_def)
qed

text \<open>A device registered under a new name is found by that name: fetching it from the root and opening
  the inode gives the device back, and every other name resolves as before.\<close>

theorem devfs_registered_device_opens:
  assumes "df_wf s" "df_add_device s device ty name = Inr s'" "df_counter s < 0xffffffff" "in_id dir = 1"
    and "name \<noteq> ''.''" "name \<noteq> ''..''"
  shows "df_wf s' \<and> (\<exists>i. df_fetch size_of s' dir out name = (SUCCESS, i) \<and> df_create_fd s' i = device
      \<and> df_get_open_method s' i = USE_FILE_DESCRIPTION \<and> in_fs i = df_self s')
    \<and> (\<forall>n. n \<noteq> name \<longrightarrow> df_fetch size_of s' dir out n = df_fetch size_of s dir out n)"
proof -
  let ?d = "\<lparr>di_id = df_counter s, di_type = ty, di_device = device, di_name = name\<rparr>"
  note wf = df_add_wf [OF assms(1-3)]
  have s': "df_devices s' = df_devices s @ [?d]" "df_self s' = df_self s" "\<forall>d \<in> set (df_devices s). di_name d \<noteq> name"
    using assms(2) by (auto simp: df_add_device_def df_get_device_with_name_def find_None_iff split: if_splits)
  have f: "df_get_device_with_name s' name = Some ?d"
    unfolding df_get_device_with_name_def s'(1) using s'(3) by (intro find_first) auto
  note L = df_lookup_agree [OF wf f]
  have "2 \<le> df_counter s" using assms(1) by (simp add: df_wf_def)
  then have "df_counter s \<noteq> 1" by (auto simp: word_le_unat)
  then have a: "\<exists>i. df_fetch size_of s' dir out name = (SUCCESS, i) \<and> df_create_fd s' i = device
      \<and> df_get_open_method s' i = USE_FILE_DESCRIPTION \<and> in_fs i = df_self s'"
    using f L(1) assms(4-6) by (simp add: df_fetch_def di_to_inode_def df_create_fd_def df_get_open_method_def)
  have "df_get_device_with_name s' n = df_get_device_with_name s n" if "n \<noteq> name" for n
  proof -
    have "find (\<lambda>d. di_name d = n) (xs @ [?d]) = find (\<lambda>d. di_name d = n) xs" for xs using that by (induction xs) auto
    then show ?thesis by (simp add: df_get_device_with_name_def s'(1))
  qed
  then have "\<forall>n. n \<noteq> name \<longrightarrow> df_fetch size_of s' dir out n = df_fetch size_of s dir out n"
    using s'(2) by (simp add: df_fetch_def df_get_root_def cong: option.case_cong)
  then show ?thesis using wf a by blast
qed

theorem devfs_registered_device_opens_witness:
  "\<exists>s'. df_add_device (df_new 5) 77 CHARACTER_DEVICE ''tty'' = Inr s' \<and> df_wf s'
    \<and> df_create_fd s' (snd (df_fetch (\<lambda>_. 0) s' (inode_zero\<lparr>in_id := 1\<rparr>) inode_zero ''tty'')) = 77"
proof -
  have a: "df_add_device (df_new 5) 77 CHARACTER_DEVICE ''tty'' = Inr \<lparr>df_self = 5, df_devices =
      [\<lparr>di_id = 2, di_type = CHARACTER_DEVICE, di_device = 77, di_name = ''tty''\<rparr>], df_counter = 3\<rparr>"
    by (simp add: df_add_device_def df_new_def df_get_device_with_name_def)
  have "df_wf (df_new 5)" "df_counter (df_new 5) < 0xffffffff" by (simp_all add: df_wf_def df_new_def word_less_unat)
  from devfs_registered_device_opens [OF this(1) a this(2), of "inode_zero\<lparr>in_id := 1\<rparr>" "\<lambda>_. 0" inode_zero] a
  show ?thesis by auto
qed

text \<open>Names are unique: registering a second device under a name panics, as does a name of 32 characters or
  more, and in every other case registering succeeds.\<close>

theorem devfs_add_device_errors:
  "df_add_device s device ty name = Inl Panic \<longleftrightarrow> name \<in> di_name ` set (df_devices s) \<or> 32 \<le> length name"
  by (auto simp: df_add_device_def df_get_device_with_name_def find_None_iff)

end
