(* ===== verification/File_Desc.thy ===== *)
theory File_Desc
  imports Circular Inodes
begin

text \<open>
  The concrete file descriptions of the kernel (\<open>kernel/src/fd\<close>): character devices, pipes and block
  devices in memory, over the ring buffer of theory \<open>Circular\<close>, and the defaults of the base class
  (\<open>fd.cpp\<close>). The events a description emits on the global signal \<open>fd_event\<close> are counted. The \<open>offset\<close>
  arguments that character devices and pipes ignore are left out.
\<close>

subsection \<open>Defaults of the base class\<close>

definition fd_default_has_size :: bool where "fd_default_has_size = False"
definition fd_default_get_size :: u64 where "fd_default_get_size = 0"
definition fd_default_can_read :: bool where "fd_default_can_read = True"
definition fd_default_can_write :: bool where "fd_default_can_write = True"
definition fd_default_should_block :: bool where "fd_default_should_block = False"
definition fd_default_ioctl_count :: usize where "fd_default_ioctl_count = 0"
definition fd_default_ioctl :: "u32" where "fd_default_ioctl = - EBADF"

subsection \<open>Character devices\<close>

record chrdev =
  cd_read_buffer :: "cbuf option"
  cd_write_buffer :: "cbuf option"
  cd_events :: nat

definition cd_new :: "(usize \<Rightarrow> u8 list) \<Rightarrow> bool \<Rightarrow> bool \<Rightarrow> usize \<Rightarrow> chrdev" where
  "cd_new mem rd wr n = \<lparr>cd_read_buffer = (if rd then Some (cb_new (mem n) n) else None),
     cd_write_buffer = (if wr then Some (cb_new (mem n) n) else None), cd_events = 0\<rparr>"

definition cd_read :: "chrdev \<Rightarrow> u64 \<Rightarrow> (u64 \<times> u8 list \<times> chrdev) result" where
  "cd_read d n = (case cd_read_buffer d of None \<Rightarrow> Inr (0, [], d)
     | Some b \<Rightarrow> bindr (cb_read b n) (\<lambda>(r, xs, b'). Inr (r, xs, d\<lparr>cd_read_buffer := Some b'\<rparr>)))"

definition cd_write :: "chrdev \<Rightarrow> u8 list \<Rightarrow> u64 \<Rightarrow> (u64 \<times> chrdev) result" where
  "cd_write d xs n = (case cd_write_buffer d of None \<Rightarrow> Inr (0, d)
     | Some b \<Rightarrow> bindr (cb_write b xs n) (\<lambda>(r, b'). Inr (r, d\<lparr>cd_write_buffer := Some b'\<rparr>)))"

definition cd_emit :: "chrdev \<Rightarrow> chrdev" where
  "cd_emit d = d\<lparr>cd_events := Suc (cd_events d)\<rparr>"

definition cd_transmit :: "chrdev \<Rightarrow> u8 list \<Rightarrow> u64 \<Rightarrow> (u64 \<times> chrdev) result" where
  "cd_transmit d xs n = (case cd_read_buffer d of None \<Rightarrow> Inr (0, d)
     | Some b \<Rightarrow> bindr (cb_write b xs n) (\<lambda>(r, b'). Inr (r, cd_emit (d\<lparr>cd_read_buffer := Some b'\<rparr>))))"

definition cd_receive :: "chrdev \<Rightarrow> u64 \<Rightarrow> (u64 \<times> u8 list \<times> chrdev) result" where
  "cd_receive d n = (case cd_write_buffer d of None \<Rightarrow> Inr (0, [], d)
     | Some b \<Rightarrow> bindr (cb_read b n) (\<lambda>(r, xs, b'). Inr (r, xs, cd_emit (d\<lparr>cd_write_buffer := Some b'\<rparr>))))"

definition cd_can_read :: "chrdev \<Rightarrow> bool" where
  "cd_can_read d \<longleftrightarrow> (case cd_read_buffer d of None \<Rightarrow> False | Some b \<Rightarrow> cb_can_read b)"

text \<open>\<open>can_write\<close> asks the write buffer whether it can be read.\<close>

definition cd_can_write :: "chrdev \<Rightarrow> bool" where
  "cd_can_write d \<longleftrightarrow> (case cd_write_buffer d of None \<Rightarrow> False | Some b \<Rightarrow> cb_can_read b)"

definition cd_should_block :: "chrdev \<Rightarrow> bool" where
  "cd_should_block d = True"

subsection \<open>Pipes\<close>

record fifo =
  ff_buffer :: cbuf
  ff_events :: nat

definition ff_new :: "(usize \<Rightarrow> u8 list) \<Rightarrow> fifo" where
  "ff_new mem = \<lparr>ff_buffer = cb_new (mem 8192) 8192, ff_events = 0\<rparr>"

definition ff_can_read :: "fifo \<Rightarrow> bool" where
  "ff_can_read f = cb_can_read (ff_buffer f)"

definition ff_can_write :: "fifo \<Rightarrow> bool result" where
  "ff_can_write f = cb_can_write (ff_buffer f)"

definition ff_should_block :: "fifo \<Rightarrow> bool" where
  "ff_should_block f = True"

definition ff_read :: "fifo \<Rightarrow> u64 \<Rightarrow> (u64 \<times> u8 list \<times> fifo) result" where
  "ff_read f n = (if \<not> ff_can_read f then Inr (0, [], f)
     else bindr (cb_read (ff_buffer f) n) (\<lambda>(r, xs, b). Inr (r, xs, \<lparr>ff_buffer = b, ff_events = Suc (ff_events f)\<rparr>)))"

definition ff_write :: "fifo \<Rightarrow> u8 list \<Rightarrow> u64 \<Rightarrow> (u64 \<times> fifo) result" where
  "ff_write f xs n = bindr (ff_can_write f) (\<lambda>c. if \<not> c then Inr (0, f)
     else bindr (cb_write (ff_buffer f) xs n) (\<lambda>(r, b). Inr (r, \<lparr>ff_buffer = b, ff_events = Suc (ff_events f)\<rparr>)))"

subsection \<open>Block devices in memory\<close>

text \<open>\<open>get_address\<close> is the start of the byte list, \<open>get_size\<close> the size the device reports.\<close>

record memdev =
  md_bytes :: "u8 list"
  md_size :: u64

definition md_has_size :: "memdev \<Rightarrow> bool" where
  "md_has_size d = True"

definition md_read :: "memdev \<Rightarrow> u64 \<Rightarrow> u64 \<Rightarrow> (u64 \<times> u8 list) result" where
  "md_read d offset n = (if offset \<ge> md_size d then Inr (0, [])
     else let m = min (md_size d - offset) n in
       bindr (peek (md_bytes d) (unat offset) (unat m)) (\<lambda>xs. Inr (m, xs)))"

definition md_write :: "memdev \<Rightarrow> u8 list \<Rightarrow> u64 \<Rightarrow> u64 \<Rightarrow> (u64 \<times> memdev) result" where
  "md_write d inp offset n = (if offset \<ge> md_size d then Inr (0, d)
     else let m = min (md_size d - offset) n in
       bindr (peek inp 0 (unat m)) (\<lambda>xs. bindr (poke (md_bytes d) (unat offset) xs) (\<lambda>b. Inr (m, d\<lparr>md_bytes := b\<rparr>))))"

definition md_wf :: "memdev \<Rightarrow> bool" where
  "md_wf d \<longleftrightarrow> length (md_bytes d) = unat (md_size d)"

subsection \<open>A device and a pipe are byte channels\<close>

definition cd_wf :: "chrdev \<Rightarrow> bool" where
  "cd_wf d \<longleftrightarrow> (case cd_read_buffer d of None \<Rightarrow> False | Some b \<Rightarrow> cb_wf b)"

definition cd_pending :: "chrdev \<Rightarrow> u8 list" where
  "cd_pending d = (case cd_read_buffer d of None \<Rightarrow> [] | Some b \<Rightarrow> cb_contents b)"

definition cd_room :: "chrdev \<Rightarrow> nat \<Rightarrow> bool" where
  "cd_room d n \<longleftrightarrow> (case cd_read_buffer d of None \<Rightarrow> False | Some b \<Rightarrow> cb_room b n)"

definition cd_ready :: "chrdev \<Rightarrow> nat \<Rightarrow> bool" where
  "cd_ready d n \<longleftrightarrow> (case cd_read_buffer d of None \<Rightarrow> False | Some b \<Rightarrow> cb_ready b n)"

lemmas cd_views = cd_wf_def cd_pending_def cd_room_def cd_ready_def

interpretation device: byte_channel cd_wf cd_pending cd_transmit cd_read cd_room cd_ready
proof unfold_locales
  fix d :: chrdev and n :: u64 and xs :: "u8 list"
  assume a: "cd_wf d" "unat n \<le> length xs" "cd_room d (unat n)"
  then obtain b where b: "cd_read_buffer d = Some b" "cb_wf b" "cb_room b (unat n)"
    by (auto simp: cd_views split: option.splits)
  obtain b' where "cb_write b xs n = Inr (n, b')" "cb_wf b'" "cb_contents b' = cb_contents b @ take (unat n) xs"
    using ring.send_ok [OF b(2) a(2) b(3)] by blast
  then show "\<exists>d'. cd_transmit d xs n = Inr (n, d') \<and> cd_wf d' \<and> cd_pending d' = cd_pending d @ take (unat n) xs"
    using b(1) by (simp add: cd_transmit_def cd_emit_def cd_views)
next
  fix d :: chrdev and n :: u64
  assume a: "cd_wf d" "cd_ready d (unat n)"
  then obtain b where b: "cd_read_buffer d = Some b" "cb_wf b" "cb_ready b (unat n)"
    by (auto simp: cd_views split: option.splits)
  obtain b' where "cb_read b n = Inr (n, take (unat n) (cb_contents b), b')" "cb_wf b'" "cb_contents b' = drop (unat n) (cb_contents b)"
    using ring.recv_ok [OF b(2,3)] by blast
  then show "\<exists>d'. cd_read d n = Inr (n, take (unat n) (cd_pending d), d') \<and> cd_wf d' \<and> cd_pending d' = drop (unat n) (cd_pending d)"
    using b(1) by (simp add: cd_read_def cd_views)
qed

text \<open>A pipe accepts what fits when it is not full, and delivers what is ready when it is not empty.\<close>

interpretation pipe: byte_channel "\<lambda>f. cb_wf (ff_buffer f)" "\<lambda>f. cb_contents (ff_buffer f)" ff_write ff_read
  "\<lambda>f n. cb_room (ff_buffer f) n \<and> 0 < n \<and> cb_can_write (ff_buffer f) = Inr True" "\<lambda>f n. cb_ready (ff_buffer f) n \<and> 0 < n"
proof unfold_locales
  fix f :: fifo and n :: u64 and xs :: "u8 list"
  assume a: "cb_wf (ff_buffer f)" "unat n \<le> length xs"
    "cb_room (ff_buffer f) (unat n) \<and> 0 < unat n \<and> cb_can_write (ff_buffer f) = Inr True"
  then obtain b' where "cb_write (ff_buffer f) xs n = Inr (n, b')" "cb_wf b'" "cb_contents b' = cb_contents (ff_buffer f) @ take (unat n) xs"
    using ring.send_ok by blast
  then show "\<exists>f'. ff_write f xs n = Inr (n, f') \<and> cb_wf (ff_buffer f') \<and> cb_contents (ff_buffer f') = cb_contents (ff_buffer f) @ take (unat n) xs"
    using a(3) by (simp add: ff_write_def ff_can_write_def)
next
  fix f :: fifo and n :: u64
  assume a: "cb_wf (ff_buffer f)" "cb_ready (ff_buffer f) (unat n) \<and> 0 < unat n"
  have "cb_can_read (ff_buffer f)" using a(2) by (auto simp: cb_can_read_def cb_ready_def cb_run_def)
  moreover obtain b' where "cb_read (ff_buffer f) n = Inr (n, take (unat n) (cb_contents (ff_buffer f)), b')" "cb_wf b'"
    "cb_contents b' = drop (unat n) (cb_contents (ff_buffer f))" using ring.recv_ok a by blast
  ultimately show "\<exists>f'. ff_read f n = Inr (n, take (unat n) (cb_contents (ff_buffer f)), f') \<and> cb_wf (ff_buffer f')
      \<and> cb_contents (ff_buffer f') = drop (unat n) (cb_contents (ff_buffer f))"
    by (simp add: ff_read_def ff_can_read_def)
qed

subsection \<open>Properties\<close>

text \<open>A character device reports that it can be written exactly when it has output waiting, whatever room is
  left: a fresh device never becomes writable by waiting, and a full one still claims to be.\<close>

theorem chrdev_can_write_means_pending:
  assumes "cd_write_buffer d = Some b" "cb_wf b"
  shows "cd_can_write d \<longleftrightarrow> cb_contents b \<noteq> []"
proof -
  have "cb_contents b = [] \<longleftrightarrow> rd_ptr b = wr_ptr b"
    using assms(2) length_cb_contents [OF assms(2)] by (auto simp: Let_def cb_wf_def word_unat_eq_iff split: if_splits)
  then show ?thesis using assms(1) by (simp add: cd_can_write_def cb_can_read_def)
qed

theorem chrdev_can_write_means_pending_witness:
  "\<not> cd_can_write (cd_new (\<lambda>n. replicate (unat n) 0) False True 16)"
proof -
  have "cb_wf (cb_new (replicate 16 0) 16)" by (rule cb_wf_new) simp_all
  then show ?thesis using chrdev_can_write_means_pending [of "cd_new (\<lambda>n. replicate (unat n) 0) False True 16" "cb_new (replicate 16 0) 16"]
    by (simp add: cd_new_def cb_contents_new)
qed

lemma md_write_read:
  assumes "md_wf d" "unat n \<le> length inp" "offset < md_size d"
  shows "\<exists>m d'. md_write d inp offset n = Inr (m, d') \<and> unat m = min (unat (md_size d) - unat offset) (unat n) \<and> md_wf d'
    \<and> md_read d' offset n = Inr (m, take (unat m) inp)
    \<and> md_bytes d' = take (unat offset) (md_bytes d) @ take (unat m) inp @ drop (unat offset + unat m) (md_bytes d)"
proof -
  define m where "m = min (md_size d - offset) n"
  have o: "unat offset < unat (md_size d)" using assms(3) by (simp add: word_less_unat)
  have m: "unat m = min (unat (md_size d) - unat offset) (unat n)" using o by (simp add: m_def unat_min unat_diff_le)
  let ?b = "take (unat offset) (md_bytes d) @ take (unat m) inp @ drop (unat offset + unat m) (md_bytes d)"
  have l: "length (take (unat m) inp) = unat m" "unat offset + unat m \<le> length (md_bytes d)"
    using m assms(1,2) o by (auto simp: md_wf_def)
  have w: "md_write d inp offset n = Inr (m, d\<lparr>md_bytes := ?b\<rparr>)"
    using assms(2,3) l m by (auto simp: md_write_def m_def [symmetric] Let_def not_le)
  have wf: "md_wf (d\<lparr>md_bytes := ?b\<rparr>)" using assms(1) l by (simp add: md_wf_def)
  have "peek ?b (unat offset) (unat m) = Inr (take (unat m) inp)" using l by (simp add: peek_def)
  then have "md_read (d\<lparr>md_bytes := ?b\<rparr>) offset n = Inr (m, take (unat m) inp)"
    using assms(3) by (auto simp: md_read_def m_def [symmetric] Let_def not_le [symmetric])
  then show ?thesis using w wf m by simp
qed

text \<open>A block device in memory never accesses bytes outside its size: a read and a write past the end do
  nothing, and otherwise move exactly the bytes up to the end; what was written is read back, and no other
  byte changes.\<close>

theorem memdev_write_then_read:
  assumes "md_wf d" "unat n \<le> length inp" "offset < md_size d"
  shows "\<exists>m d'. md_write d inp offset n = Inr (m, d') \<and> unat m = min (unat (md_size d) - unat offset) (unat n) \<and> md_wf d'
    \<and> md_read d' offset n = Inr (m, take (unat m) inp)
    \<and> md_bytes d' = take (unat offset) (md_bytes d) @ take (unat m) inp @ drop (unat offset + unat m) (md_bytes d)"
  by (rule md_write_read [OF assms])

theorem memdev_write_then_read_witness:
  "\<exists>d'. md_write \<lparr>md_bytes = [1, 2, 3, 4], md_size = 4\<rparr> [7, 8, 9] 2 3 = Inr (2, d') \<and> md_bytes d' = [1, 2, 7, 8]"
proof -
  have "md_wf \<lparr>md_bytes = [1, 2, 3, 4], md_size = 4\<rparr>" by (simp add: md_wf_def)
  from memdev_write_then_read [OF this, of 3 "[7, 8, 9]" 2] obtain m d' where
    d: "md_write \<lparr>md_bytes = [1, 2, 3, 4], md_size = 4\<rparr> [7, 8, 9] 2 3 = Inr (m, d')" "unat m = 2"
      "md_bytes d' = take 2 [1, 2, 3, 4] @ take (unat m) [7, 8, 9] @ drop (2 + unat m) [1, 2, 3, 4]"
    by (auto simp: word_less_unat)
  moreover have "m = 2" using d(2) by (simp add: word_unat_eq_iff)
  ultimately show ?thesis by simp
qed

end
