(* ===== verification/Fd_Manager.thy ===== *)
theory Fd_Manager
  imports File_Desc
begin

text \<open>
  The table of open file descriptions (\<open>kernel/src/fd/manager.cpp\<close>, \<open>manager.hpp\<close>). A pointer to a
  description is a number, 0 is null. The objects behind the pointers are kept in two stores: the
  \<open>InodeFile\<close> part of descriptions that come from a file system (\<open>fd.hpp\<close>), and the pipes.
  \<open>FileSystemManager::close\<close> hands a description to \<open>free_fd\<close> of its file system: those calls are
  recorded, newest first. The table is a \<open>Vec\<close>, seen as the list it represents (theory
  \<open>Containers\<close>).
\<close>

datatype fd_source = FILESYSTEM | PIPE

record ofd =
  ofd_src :: fd_source
  ofd_refcount :: usize
  ofd_fd :: nat

record inode_file =
  if_inode_num :: usize
  if_fs :: nat
  if_may_exec :: bool

record fdm =
  fm_fds :: "ofd list"
  fm_files :: "nat \<Rightarrow> inode_file option"
  fm_pipes :: "nat \<Rightarrow> fifo option"
  fm_released :: "(nat \<times> nat) list"

definition fm_file :: "fdm \<Rightarrow> nat \<Rightarrow> inode_file result" where
  "fm_file m p = (case fm_files m p of None \<Rightarrow> Inl Fault | Some f \<Rightarrow> Inr f)"

definition fm_set_inode_iden :: "nat \<Rightarrow> usize \<Rightarrow> nat \<Rightarrow> bool \<Rightarrow> fdm \<Rightarrow> fdm" where
  "fm_set_inode_iden p num fs ex m = m\<lparr>fm_files := (fm_files m)(p \<mapsto>
     \<lparr>if_inode_num = num, if_fs = fs, if_may_exec = ex\<rparr>)\<rparr>"

definition ofd_retain :: "ofd \<Rightarrow> ofd" where
  "ofd_retain e = e\<lparr>ofd_refcount := ofd_refcount e + 1\<rparr>"

text \<open>The loop of \<open>fetch_inode_fd\<close>: the index of the description of an inode, \<open>None\<close> when there is
  none.\<close>

fun fm_find_inode :: "fdm \<Rightarrow> usize \<Rightarrow> nat \<Rightarrow> ofd list \<Rightarrow> nat option result" where
  "fm_find_inode m num fs [] = Inr None"
| "fm_find_inode m num fs (e # es) =
     (let rest = bindr (fm_find_inode m num fs es) (\<lambda>r. Inr (map_option Suc r)) in
      if ofd_src e \<noteq> FILESYSTEM then rest
      else bindr (fm_file m (ofd_fd e)) (\<lambda>f.
        if if_inode_num f = num \<and> if_fs f = fs then Inr (Some 0) else rest))"

definition fm_fetch_inode_fd :: "usize \<Rightarrow> nat \<Rightarrow> fdm \<Rightarrow> (nat \<times> fdm) result" where
  "fm_fetch_inode_fd num fs m = bindr (fm_find_inode m num fs (fm_fds m)) (\<lambda>r. case r of
     None \<Rightarrow> Inr (0, m)
   | Some i \<Rightarrow> Inr (ofd_fd (fm_fds m ! i), m\<lparr>fm_fds := (fm_fds m)[i := ofd_retain (fm_fds m ! i)]\<rparr>))"

definition fm_save_fd :: "nat \<Rightarrow> fd_source \<Rightarrow> fdm \<Rightarrow> fdm" where
  "fm_save_fd p src m = m\<lparr>fm_fds := fm_fds m @ [\<lparr>ofd_src = src, ofd_refcount = 0, ofd_fd = p\<rparr>]\<rparr>"

text \<open>\<open>create_pipe\<close>: \<open>p\<close> is the address \<open>new\<close> returns, \<open>mem\<close> what its buffer holds.\<close>

definition fm_create_pipe :: "(usize \<Rightarrow> u8 list) \<Rightarrow> nat \<Rightarrow> fdm \<Rightarrow> nat \<times> fdm" where
  "fm_create_pipe mem p m = (p, fm_save_fd p PIPE (m\<lparr>fm_pipes := (fm_pipes m)(p \<mapsto> ff_new mem)\<rparr>))"

text \<open>\<open>is_filesystem_busy\<close> has no return statement behind its loop: what it answers when no
  description belongs to the file system is undefined.\<close>

fun fm_busy_from :: "fdm \<Rightarrow> nat \<Rightarrow> ofd list \<Rightarrow> bool result" where
  "fm_busy_from m fs [] = Inl Fault"
| "fm_busy_from m fs (e # es) = (if ofd_src e \<noteq> FILESYSTEM then fm_busy_from m fs es
     else bindr (fm_file m (ofd_fd e)) (\<lambda>f. if if_fs f = fs then Inr True else fm_busy_from m fs es))"

definition fm_is_filesystem_busy :: "nat \<Rightarrow> fdm \<Rightarrow> bool result" where
  "fm_is_filesystem_busy fs m = fm_busy_from m fs (fm_fds m)"

fun fm_open_in :: "nat \<Rightarrow> ofd list \<Rightarrow> ofd list" where
  "fm_open_in p [] = []"
| "fm_open_in p (e # es) = (if ofd_fd e = p then ofd_retain e # es else e # fm_open_in p es)"

definition fm_open :: "nat \<Rightarrow> fdm \<Rightarrow> fdm" where
  "fm_open p m = m\<lparr>fm_fds := fm_open_in p (fm_fds m)\<rparr>"

fun fm_index :: "nat \<Rightarrow> ofd list \<Rightarrow> nat option" where
  "fm_index p [] = None"
| "fm_index p (e # es) = (if ofd_fd e = p then Some 0 else map_option Suc (fm_index p es))"

definition fm_dispose :: "ofd \<Rightarrow> fdm \<Rightarrow> fdm result" where
  "fm_dispose e m = (case ofd_src e of
     FILESYSTEM \<Rightarrow> bindr (fm_file m (ofd_fd e)) (\<lambda>f. Inr (m\<lparr>fm_released := (if_fs f, ofd_fd e) # fm_released m\<rparr>))
   | PIPE \<Rightarrow> Inr (m\<lparr>fm_pipes := (fm_pipes m)(ofd_fd e := None)\<rparr>))"

definition fm_close :: "nat \<Rightarrow> fdm \<Rightarrow> (u32 \<times> fdm) result" where
  "fm_close p m = (case fm_index p (fm_fds m) of None \<Rightarrow> Inr (EBADF, m)
   | Some i \<Rightarrow>
       let e = fm_fds m ! i;
           n = (if ofd_refcount e > 0 then ofd_refcount e - 1 else ofd_refcount e);
           e' = e\<lparr>ofd_refcount := n\<rparr>;
           m1 = m\<lparr>fm_fds := (fm_fds m)[i := e']\<rparr> in
       if n > 0 then Inr (ENOERR, m1)
       else bindr (fm_dispose e' m1) (\<lambda>m2. Inr (ENOERR,
         m2\<lparr>fm_fds := take i (fm_fds m2) @ drop (Suc i) (fm_fds m2)\<rparr>)))"

subsection \<open>Reference counts\<close>

text \<open>The count of a description, \<open>None\<close> for one that is not in the table, and the invariant of the
  table: each description has one entry, is not null, and its object exists.\<close>

fun ofd_counts :: "ofd list \<Rightarrow> nat \<Rightarrow> nat option" where
  "ofd_counts [] = (\<lambda>_. None)"
| "ofd_counts (e # es) = (ofd_counts es)(ofd_fd e \<mapsto> unat (ofd_refcount e))"

definition fm_ref :: "fdm \<Rightarrow> nat \<Rightarrow> nat option" where
  "fm_ref m = ofd_counts (fm_fds m)"

definition fm_wf :: "fdm \<Rightarrow> bool" where
  "fm_wf m \<longleftrightarrow> distinct (map ofd_fd (fm_fds m)) \<and> 0 \<notin> ofd_fd ` set (fm_fds m)
     \<and> (\<forall>e \<in> set (fm_fds m). ofd_src e = FILESYSTEM \<longrightarrow> fm_files m (ofd_fd e) \<noteq> None)"

lemma ofd_counts_None: "ofd_counts es p = None \<longleftrightarrow> p \<notin> ofd_fd ` set es"
  by (induction es) auto

lemma fm_ref_None: "fm_ref m p = None \<longleftrightarrow> p \<notin> ofd_fd ` set (fm_fds m)"
  by (simp add: fm_ref_def ofd_counts_None)

lemma fm_index_None: "fm_index p es = None \<longleftrightarrow> p \<notin> ofd_fd ` set es"
  by (induction es) auto

lemma fm_index_Some: "fm_index p es = Some i \<Longrightarrow> i < length es \<and> ofd_fd (es ! i) = p
    \<and> p \<notin> ofd_fd ` set (take i es)"
  by (induction es arbitrary: i) (auto split: if_splits)

lemma fm_index_split:
  assumes "fm_index p es = Some i"
  obtains us e vs where "es = us @ e # vs" "length us = i" "ofd_fd e = p" "p \<notin> ofd_fd ` set us"
  using fm_index_Some [OF assms] id_take_nth_drop [of i es] that [of "take i es" "es ! i" "drop (Suc i) es"]
  by auto

lemma counts_split: "p \<notin> ofd_fd ` set us \<Longrightarrow> ofd_fd e = p \<Longrightarrow> ofd_counts (us @ e # vs) p = Some (unat (ofd_refcount e))"
  by (induction us) auto

lemma counts_upd:
  "p \<notin> ofd_fd ` set us \<Longrightarrow> ofd_fd e = p \<Longrightarrow> ofd_fd e' = p \<Longrightarrow>
    ofd_counts (us @ e' # vs) = (ofd_counts (us @ e # vs))(p \<mapsto> unat (ofd_refcount e'))"
  by (induction us) (auto simp: fun_upd_twist)

lemma counts_del:
  "p \<notin> ofd_fd ` set us \<Longrightarrow> p \<notin> ofd_fd ` set vs \<Longrightarrow> ofd_fd e = p \<Longrightarrow>
    ofd_counts (us @ vs) = (ofd_counts (us @ e # vs))(p := None)"
proof (induction us)
  case Nil
  then have "ofd_counts vs p = None" by (simp add: ofd_counts_None)
  then show ?case using Nil by (auto simp: fun_eq_iff)
qed (auto simp: fun_upd_twist)

lemma fm_open_in_split:
  "p \<notin> ofd_fd ` set us \<Longrightarrow> ofd_fd e = p \<Longrightarrow> fm_open_in p (us @ e # vs) = us @ ofd_retain e # vs"
  by (induction us) auto

lemma fm_open_in_absent: "p \<notin> ofd_fd ` set es \<Longrightarrow> fm_open_in p es = es"
  by (induction es) auto

lemma unat_inc32: "unat (w :: usize) + 1 < 4294967296 \<Longrightarrow> unat (w + 1) = Suc (unat w)"
  using unat_add_small [of w 1] by simp

text \<open>A description in the table splits it.\<close>

lemma fm_ref_split:
  assumes "fm_ref m p = Some n"
  obtains us e vs where "fm_fds m = us @ e # vs" "p \<notin> ofd_fd ` set us" "ofd_fd e = p"
    "n = unat (ofd_refcount e)" "fm_index p (fm_fds m) = Some (length us)"
proof -
  have "p \<in> ofd_fd ` set (fm_fds m)" using fm_ref_None [of m p] assms by auto
  then obtain i where i: "fm_index p (fm_fds m) = Some i" using fm_index_None [of p] by (cases "fm_index p (fm_fds m)") auto
  from fm_index_split [OF i] obtain us e vs where s: "fm_fds m = us @ e # vs" "length us = i" "ofd_fd e = p"
    "p \<notin> ofd_fd ` set us" .
  have "n = unat (ofd_refcount e)" using assms s counts_split [OF s(4,3), of vs] by (simp add: fm_ref_def)
  then show thesis using s i that by blast
qed

lemma fm_open_ref:
  assumes "fm_wf m" "fm_ref m p = Some n" "n + 1 < 4294967296"
  shows "fm_wf (fm_open p m) \<and> fm_ref (fm_open p m) = (fm_ref m)(p \<mapsto> Suc n)"
proof -
  from fm_ref_split [OF assms(2)] obtain us e vs where s: "fm_fds m = us @ e # vs" "p \<notin> ofd_fd ` set us"
    "ofd_fd e = p" "n = unat (ofd_refcount e)" "fm_index p (fm_fds m) = Some (length us)" .
  have n: "unat (ofd_refcount (ofd_retain e)) = Suc n" "ofd_fd (ofd_retain e) = p" "ofd_src (ofd_retain e) = ofd_src e"
    using assms(3) s(3,4) unat_inc32 [of "ofd_refcount e"] by (simp_all add: ofd_retain_def)
  have o: "fm_fds (fm_open p m) = us @ ofd_retain e # vs" "fm_files (fm_open p m) = fm_files m"
    using s by (simp_all add: fm_open_def fm_open_in_split)
  then have "fm_wf (fm_open p m)" using assms(1) s n by (auto simp: fm_wf_def)
  moreover have "fm_ref (fm_open p m) = (fm_ref m)(p \<mapsto> Suc n)"
    unfolding fm_ref_def o s(1) counts_upd [OF s(2,3) n(2)] n(1) ..
  ultimately show ?thesis ..
qed

lemma fm_open_absent: "fm_ref m p = None \<Longrightarrow> fm_open p m = m"
  by (simp add: fm_ref_None fm_open_def fm_open_in_absent)

lemma unat_dec32: "0 < unat (w :: usize) \<Longrightarrow> unat (w - 1) = unat w - 1"
  using unat_diff_le [of 1 w] by simp

lemma fm_close_absent: "fm_ref m p = None \<Longrightarrow> fm_close p m = Inr (EBADF, m)"
  by (simp add: fm_ref_None fm_index_None [symmetric] fm_close_def)

lemma fm_close_more:
  assumes "fm_wf m" "fm_ref m p = Some n" "2 \<le> n"
  shows "\<exists>m'. fm_close p m = Inr (ENOERR, m') \<and> fm_wf m' \<and> fm_ref m' = (fm_ref m)(p \<mapsto> n - 1)
    \<and> fm_pipes m' = fm_pipes m \<and> fm_files m' = fm_files m \<and> fm_released m' = fm_released m"
proof -
  from fm_ref_split [OF assms(2)] obtain us e vs where s: "fm_fds m = us @ e # vs" "p \<notin> ofd_fd ` set us"
    "ofd_fd e = p" "n = unat (ofd_refcount e)" "fm_index p (fm_fds m) = Some (length us)" .
  define e' where "e' = e\<lparr>ofd_refcount := ofd_refcount e - 1\<rparr>"
  define m' where "m' = m\<lparr>fm_fds := us @ e' # vs\<rparr>"
  have n: "unat (ofd_refcount e') = n - 1" "ofd_fd e' = p" "ofd_src e' = ofd_src e"
    using assms(3) s(3,4) unat_dec32 [of "ofd_refcount e"] by (simp_all add: e'_def)
  have pos: "0 < ofd_refcount e" "0 < ofd_refcount e - 1"
    using assms(3) s(4) n(1) by (simp_all add: word_less_unat e'_def)
  have "fm_close p m = Inr (ENOERR, m')"
    using s pos by (simp add: fm_close_def Let_def m'_def e'_def)
  moreover have "fm_wf m'" using assms(1) s n by (auto simp: fm_wf_def m'_def)
  moreover have "fm_ref m' = (fm_ref m)(p \<mapsto> n - 1)"
    unfolding fm_ref_def m'_def s(1) n(1) [symmetric] by (simp add: counts_upd [OF s(2,3) n(2)])
  ultimately show ?thesis by (simp add: m'_def)
qed

lemma small_word: "unat (w :: usize) \<le> 1 \<Longrightarrow> w = 0 \<or> w = 1"
proof -
  assume "unat w \<le> 1"
  then have "unat w = unat (0 :: usize) \<or> unat w = unat (1 :: usize)" by auto
  then show "w = 0 \<or> w = 1" by (simp only: word_unat_eq_iff [symmetric])
qed

lemma fm_close_last:
  assumes "fm_wf m" "fm_ref m p = Some n" "n \<le> 1"
  shows "\<exists>m'. fm_close p m = Inr (ENOERR, m') \<and> fm_wf m' \<and> fm_ref m' = (fm_ref m)(p := None)"
proof -
  from fm_ref_split [OF assms(2)] obtain us e vs where s: "fm_fds m = us @ e # vs" "p \<notin> ofd_fd ` set us"
    "ofd_fd e = p" "n = unat (ofd_refcount e)" "fm_index p (fm_fds m) = Some (length us)" .
  define e' where "e' = e\<lparr>ofd_refcount := (if ofd_refcount e > 0 then ofd_refcount e - 1 else ofd_refcount e)\<rparr>"
  define m1 where "m1 = m\<lparr>fm_fds := us @ e' # vs\<rparr>"
  have z: "ofd_refcount e' = 0" "ofd_fd e' = p" "ofd_src e' = ofd_src e"
  proof -
    have "ofd_refcount e = 0 \<or> ofd_refcount e = 1" using assms(3) s(4) small_word by blast
    then show "ofd_refcount e' = 0" by (auto simp: e'_def)
  qed (simp_all add: e'_def s(3))
  have vs: "p \<notin> ofd_fd ` set vs" using assms(1) s(1,3) by (auto simp: fm_wf_def)
  have fl: "ofd_src e = FILESYSTEM \<longrightarrow> fm_files m p \<noteq> None" using assms(1) s(1,3) by (auto simp: fm_wf_def)
  obtain m2 where m2: "fm_dispose e' m1 = Inr m2" "fm_fds m2 = us @ e' # vs" "fm_files m2 = fm_files m"
  proof (cases "ofd_src e")
    case FILESYSTEM
    with fl obtain f where "fm_files m p = Some f" by blast
    then show thesis using z FILESYSTEM that [of "m1\<lparr>fm_released := (if_fs f, p) # fm_released m1\<rparr>"]
      by (simp add: fm_dispose_def fm_file_def m1_def)
  next
    case PIPE
    then show thesis using z that [of "m1\<lparr>fm_pipes := (fm_pipes m1)(p := None)\<rparr>"]
      by (simp add: fm_dispose_def m1_def)
  qed
  define m' where "m' = m2\<lparr>fm_fds := us @ vs\<rparr>"
  have "fm_close p m = Inr (ENOERR, m')"
    using s z(1) m2 by (simp add: fm_close_def Let_def m'_def m1_def e'_def)
  moreover have "fm_wf m'" using assms(1) s m2(3) by (auto simp: fm_wf_def m'_def)
  moreover have "fm_ref m' = (fm_ref m)(p := None)"
    unfolding fm_ref_def s(1) by (simp add: m'_def counts_del [OF s(2) vs s(3)])
  ultimately show ?thesis by blast
qed

subsection \<open>Counted references as an interface\<close>

text \<open>What the holders of a reference rely on: taking one more raises the count, giving one back
  lowers it, and the object goes when the count would reach 0.\<close>

text \<open>Holders are covered when every object with holders is there and has at least their number of
  references.\<close>

definition covered :: "('s \<Rightarrow> 'p \<Rightarrow> nat option) \<Rightarrow> ('p \<Rightarrow> nat) \<Rightarrow> 's \<Rightarrow> bool" where
  "covered ref c s \<longleftrightarrow> (\<forall>p. 0 < c p \<longrightarrow> (\<exists>n. ref s p = Some n \<and> c p \<le> n))"

locale ref_counted =
  fixes inv :: "'s \<Rightarrow> bool"
    and ref :: "'s \<Rightarrow> 'p \<Rightarrow> nat option"
    and retain :: "'p \<Rightarrow> 's \<Rightarrow> 's"
    and release :: "'p \<Rightarrow> 's \<Rightarrow> ('e \<times> 's) result"
    and ok :: 'e
    and bad :: 'e
    and cap :: nat
  assumes retain_ok: "\<lbrakk>inv s; ref s p = Some n; n + 1 < cap\<rbrakk> \<Longrightarrow> inv (retain p s) \<and> ref (retain p s) = (ref s)(p \<mapsto> Suc n)"
    and retain_absent: "ref s p = None \<Longrightarrow> retain p s = s"
    and release_more: "\<lbrakk>inv s; ref s p = Some n; 2 \<le> n\<rbrakk> \<Longrightarrow>
      \<exists>s'. release p s = Inr (ok, s') \<and> inv s' \<and> ref s' = (ref s)(p \<mapsto> n - 1)"
    and release_last: "\<lbrakk>inv s; ref s p = Some n; n \<le> 1\<rbrakk> \<Longrightarrow>
      \<exists>s'. release p s = Inr (ok, s') \<and> inv s' \<and> ref s' = (ref s)(p := None)"
    and release_absent: "ref s p = None \<Longrightarrow> release p s = Inr (bad, s)"
begin

lemma release_any:
  assumes "inv s" "ref s p = Some n"
  shows "\<exists>s'. release p s = Inr (ok, s') \<and> inv s' \<and> ref s' = (ref s)(p := (if 2 \<le> n then Some (n - 1) else None))"
  using release_more [OF assms] release_last [OF assms] by (cases "2 \<le> n") auto

lemma retains:
  assumes "inv s" "ref s p = Some n" "n + k < cap"
  shows "inv ((retain p ^^ k) s) \<and> ref ((retain p ^^ k) s) = (ref s)(p \<mapsto> n + k)"
  using assms(3)
proof (induction k)
  case 0
  then show ?case using assms(1,2) by (auto simp: fun_upd_idem)
next
  case (Suc k)
  then have "n + k < cap" by simp
  from Suc.IH [OF this] have i: "inv ((retain p ^^ k) s)" "ref ((retain p ^^ k) s) = (ref s)(p \<mapsto> n + k)" by blast+
  from i(2) have "ref ((retain p ^^ k) s) p = Some (n + k)" by (simp only: fun_upd_same)
  from retain_ok [OF i(1) this] Suc.prems have "inv (retain p ((retain p ^^ k) s))"
    "ref (retain p ((retain p ^^ k) s)) = (ref ((retain p ^^ k) s))(p \<mapsto> Suc (n + k))" by simp_all
  then show ?case by (simp only: i(2) fun_upd_upd funpow.simps comp_apply add_Suc_right)
qed

abbreviation give_back :: "'p \<Rightarrow> 's \<Rightarrow> unit \<Rightarrow> 's result" where
  "give_back p s u \<equiv> bindr (release p s) (\<lambda>(_, s'). Inr s')"

lemma releases:
  assumes "inv s" "ref s p = Some n" "k \<le> n"
  shows "\<exists>s'. run_all (give_back p) s (replicate k ()) = Inr s' \<and> inv s'
    \<and> ref s' = (ref s)(p := (if k < n \<or> k = 0 then Some (n - k) else None))"
  using assms
proof (induction k arbitrary: s n)
  case 0
  then show ?case by (auto simp: fun_upd_idem)
next
  case (Suc k)
  from release_any [OF Suc.prems(1,2)] obtain s1 where s1: "release p s = Inr (ok, s1)" "inv s1"
    "ref s1 = (ref s)(p := (if 2 \<le> n then Some (n - 1) else None))" by blast
  show ?case
  proof (cases "2 \<le> n")
    case True
    then have "ref s1 p = Some (n - 1)" "k \<le> n - 1" using s1(3) Suc.prems(3) by simp_all
    from Suc.IH [OF s1(2) this] obtain s2 where s2: "run_all (give_back p) s1 (replicate k ()) = Inr s2" "inv s2"
      "ref s2 = (ref s1)(p := (if k < n - 1 \<or> k = 0 then Some (n - 1 - k) else None))" by blast
    have "ref s2 = (ref s)(p := (if Suc k < n \<or> Suc k = 0 then Some (n - Suc k) else None))"
      using s1(3) s2(3) True by auto
    moreover have "run_all (give_back p) s (replicate (Suc k) ()) = Inr s2" using s1(1) s2(1) by simp
    ultimately show ?thesis using s2(2) by blast
  next
    case False
    then have k: "k = 0" "n = 1" using Suc.prems(3) by simp_all
    then have "run_all (give_back p) s (replicate (Suc k) ()) = Inr s1" using s1(1) by simp
    moreover have "ref s1 = (ref s)(p := (if Suc k < n \<or> Suc k = 0 then Some (n - Suc k) else None))"
      using s1(3) k False by simp
    ultimately show ?thesis using s1(2) by blast
  qed
qed

lemma covered_retain:
  assumes "inv s" "covered ref c s" "ref s p = Some n" "n + 1 < cap"
  shows "inv (retain p s) \<and> covered ref (c(p := Suc (c p))) (retain p s)"
proof -
  from retain_ok [OF assms(1,3,4)] have i: "inv (retain p s)" and r: "ref (retain p s) = (ref s)(p \<mapsto> Suc n)" by blast+
  have "c p \<le> n" using assms(2,3) unfolding covered_def by (metis gr0I le0 option.inject)
  then show ?thesis using i assms(2) unfolding covered_def r by auto
qed

lemma covered_release:
  assumes "inv s" "covered ref c s" "0 < c p"
  shows "\<exists>s'. release p s = Inr (ok, s') \<and> inv s' \<and> covered ref (c(p := c p - 1)) s'
    \<and> (\<forall>q. q \<noteq> p \<longrightarrow> ref s' q = ref s q) \<and> (\<forall>n. ref s' p = Some n \<longrightarrow> ref s p = Some (Suc n))"
proof -
  from assms(2,3) obtain n where n: "ref s p = Some n" "c p \<le> n" by (auto simp: covered_def)
  from release_any [OF assms(1) n(1)] obtain s' where s': "release p s = Inr (ok, s')" "inv s'"
    and r: "ref s' = (ref s)(p := (if 2 \<le> n then Some (n - 1) else None))" by blast
  have "covered ref (c(p := c p - 1)) s'"
    using assms(2,3) n unfolding covered_def r by auto
  moreover have "(\<forall>q. q \<noteq> p \<longrightarrow> ref s' q = ref s q) \<and> (\<forall>n'. ref s' p = Some n' \<longrightarrow> ref s p = Some (Suc n'))"
    unfolding r using n by auto
  ultimately show ?thesis using s' by blast
qed

text \<open>\<open>k\<close> holders of an object that had no reference: it is there until the last gives its back.\<close>

lemma balanced:
  assumes "inv s" "ref s p = Some 0" "0 < k" "k < cap" "j \<le> k"
  shows "\<exists>s'. run_all (give_back p) ((retain p ^^ k) s) (replicate j ()) = Inr s'
    \<and> inv s' \<and> (ref s' p = None \<longleftrightarrow> j = k) \<and> (\<forall>q. q \<noteq> p \<longrightarrow> ref s' q = ref s q)"
proof -
  from retains [OF assms(1,2), of k] assms(4) have r: "inv ((retain p ^^ k) s)"
    "ref ((retain p ^^ k) s) = (ref s)(p \<mapsto> k)" by simp_all
  then have "ref ((retain p ^^ k) s) p = Some k" by simp
  from releases [OF r(1) this assms(5)] show ?thesis using r(2) assms(3,5) by auto
qed

end

interpretation fds: ref_counted fm_wf fm_ref fm_open fm_close ENOERR EBADF 4294967296
proof unfold_locales
  fix m :: fdm and p n
  assume "fm_wf m" "fm_ref m p = Some n" "n + 1 < 4294967296"
  then show "fm_wf (fm_open p m) \<and> fm_ref (fm_open p m) = (fm_ref m)(p \<mapsto> Suc n)" by (rule fm_open_ref)
next
  fix m :: fdm and p n
  assume "fm_wf m" "fm_ref m p = Some n" "2 \<le> n"
  from fm_close_more [OF this]
  show "\<exists>m'. fm_close p m = Inr (ENOERR, m') \<and> fm_wf m' \<and> fm_ref m' = (fm_ref m)(p \<mapsto> n - 1)" by blast
qed (use fm_open_absent fm_close_last fm_close_absent in auto)

subsection \<open>Descriptions live as long as they are referenced\<close>

lemma fm_save_wf:
  assumes "fm_wf m" "fm_ref m p = None" "p \<noteq> 0" "src = FILESYSTEM \<longrightarrow> fm_files m p \<noteq> None"
  shows "fm_wf (fm_save_fd p src m) \<and> fm_ref (fm_save_fd p src m) = (fm_ref m)(p \<mapsto> 0)"
proof -
  have p: "p \<notin> ofd_fd ` set (fm_fds m)" using assms(2) by (simp add: fm_ref_None)
  let ?e = "\<lparr>ofd_src = src, ofd_refcount = 0, ofd_fd = p\<rparr>"
  have "p \<notin> ofd_fd ` set es \<Longrightarrow> ofd_counts (es @ [?e]) = (ofd_counts es)(p \<mapsto> 0)" for es
    by (induction es) (auto simp: fun_upd_twist)
  then have "ofd_counts (fm_fds m @ [?e]) = (ofd_counts (fm_fds m))(p \<mapsto> 0)" using p .
  moreover have "fm_wf (fm_save_fd p src m)" using assms p by (auto simp: fm_wf_def fm_save_fd_def)
  ultimately show ?thesis by (simp add: fm_ref_def fm_save_fd_def)
qed

text \<open>A description that was saved and is then opened \<open>k\<close> times stays in the table through \<open>k - 1\<close> closes
  and is removed by the \<open>k\<close>-th; the other descriptions are not affected.\<close>

theorem description_lives_until_last_close:
  assumes "fm_wf m" "fm_ref m p = None" "p \<noteq> 0" "src = FILESYSTEM \<longrightarrow> fm_files m p \<noteq> None"
    and "0 < k" "k < 4294967296" "j \<le> k"
  shows "\<exists>m'. run_all (\<lambda>m u. bindr (fm_close p m) (\<lambda>(_, m'). Inr m')) ((fm_open p ^^ k) (fm_save_fd p src m)) (replicate j ()) = Inr m'
    \<and> fm_wf m' \<and> (fm_ref m' p = None \<longleftrightarrow> j = k) \<and> (\<forall>q. q \<noteq> p \<longrightarrow> fm_ref m' q = fm_ref m q)"
proof -
  from fm_save_wf [OF assms(1-4)] have s: "fm_wf (fm_save_fd p src m)"
    and r: "fm_ref (fm_save_fd p src m) = (fm_ref m)(p \<mapsto> 0)" by blast+
  have z: "fm_ref (fm_save_fd p src m) p = Some 0" and o: "\<forall>q. q \<noteq> p \<longrightarrow> fm_ref (fm_save_fd p src m) q = fm_ref m q"
    unfolding r by simp_all
  from fds.balanced [OF s z assms(5,6,7)] o show ?thesis by fastforce
qed

definition fdm_empty :: fdm where
  "fdm_empty = \<lparr>fm_fds = [], fm_files = (\<lambda>_. None), fm_pipes = (\<lambda>_. None), fm_released = []\<rparr>"

lemma fdm_empty_wf: "fm_wf fdm_empty" "fm_ref fdm_empty p = None"
  by (simp_all add: fm_wf_def fdm_empty_def fm_ref_def)

theorem description_lives_until_last_close_witness:
  "\<exists>m'. run_all (\<lambda>m u. bindr (fm_close 7 m) (\<lambda>(_, m'). Inr m')) ((fm_open 7 ^^ 3) (fm_save_fd 7 PIPE fdm_empty)) (replicate 2 ()) = Inr m'
    \<and> fm_ref m' 7 \<noteq> None"
  using description_lives_until_last_close [of fdm_empty 7 PIPE 3 2] fdm_empty_wf by auto

definition is_file_of :: "fdm \<Rightarrow> usize \<Rightarrow> nat \<Rightarrow> ofd \<Rightarrow> bool" where
  "is_file_of m num fs e \<longleftrightarrow> ofd_src e = FILESYSTEM \<and>
     (case fm_files m (ofd_fd e) of None \<Rightarrow> False | Some f \<Rightarrow> if_inode_num f = num \<and> if_fs f = fs)"

lemma fm_find_inode_spec:
  assumes "\<forall>e \<in> set es. ofd_src e = FILESYSTEM \<longrightarrow> fm_files m (ofd_fd e) \<noteq> None"
  shows "\<exists>r. fm_find_inode m num fs es = Inr r \<and> (case r of
     None \<Rightarrow> \<not> (\<exists>e \<in> set es. is_file_of m num fs e)
   | Some i \<Rightarrow> i < length es \<and> is_file_of m num fs (es ! i))"
  using assms
proof (induction es)
  case (Cons e es)
  then obtain r where r: "fm_find_inode m num fs es = Inr r" "case r of
     None \<Rightarrow> \<not> (\<exists>e \<in> set es. is_file_of m num fs e) | Some i \<Rightarrow> i < length es \<and> is_file_of m num fs (es ! i)" by auto
  show ?case
  proof (cases "is_file_of m num fs e")
    case True
    then show ?thesis by (auto simp: is_file_of_def fm_file_def split: option.splits)
  next
    case False
    moreover have "fm_find_inode m num fs (e # es) = Inr (map_option Suc r)"
      using False Cons.prems r(1) by (auto simp: is_file_of_def fm_file_def Let_def split: option.splits)
    ultimately show ?thesis using r(2) by (auto split: option.splits)
  qed
qed simp

text \<open>\<open>fetch_inode_fd\<close> returns a description of exactly that inode of exactly that file system when one is
  open, and takes a reference to it; otherwise it returns null and changes nothing.\<close>

theorem fetch_inode_fd_finds:
  assumes "fm_wf m"
  shows "\<exists>p m'. fm_fetch_inode_fd num fs m = Inr (p, m') \<and>
    (if \<exists>e \<in> set (fm_fds m). is_file_of m num fs e
     then \<exists>i < length (fm_fds m). is_file_of m num fs (fm_fds m ! i) \<and> p = ofd_fd (fm_fds m ! i) \<and> p \<noteq> 0
       \<and> m' = m\<lparr>fm_fds := (fm_fds m)[i := ofd_retain (fm_fds m ! i)]\<rparr>
     else p = 0 \<and> m' = m)"
proof -
  have "\<forall>e \<in> set (fm_fds m). ofd_src e = FILESYSTEM \<longrightarrow> fm_files m (ofd_fd e) \<noteq> None"
    using assms by (simp add: fm_wf_def)
  from fm_find_inode_spec [OF this, of num fs] obtain r where r: "fm_find_inode m num fs (fm_fds m) = Inr r"
    "case r of None \<Rightarrow> \<not> (\<exists>e \<in> set (fm_fds m). is_file_of m num fs e)
     | Some i \<Rightarrow> i < length (fm_fds m) \<and> is_file_of m num fs (fm_fds m ! i)" by blast
  show ?thesis
  proof (cases r)
    case None
    then show ?thesis using r by (simp add: fm_fetch_inode_fd_def)
  next
    case (Some i)
    then have i: "i < length (fm_fds m)" "is_file_of m num fs (fm_fds m ! i)" using r(2) by simp_all
    then have ex: "\<exists>e \<in> set (fm_fds m). is_file_of m num fs e" using nth_mem by blast
    have nz: "ofd_fd (fm_fds m ! i) \<noteq> 0"
      using assms i(1) nth_mem [OF i(1)] by (force simp: fm_wf_def)
    show ?thesis unfolding if_P [OF ex] using Some r(1) i nz by (auto simp: fm_fetch_inode_fd_def)
  qed
qed

theorem fetch_inode_fd_finds_witness:
  "\<exists>p m'. fm_fetch_inode_fd 3 1 (fm_save_fd 9 FILESYSTEM (fm_set_inode_iden 9 3 1 True fdm_empty)) = Inr (p, m') \<and> p = 9"
proof -
  let ?m = "fm_save_fd 9 FILESYSTEM (fm_set_inode_iden 9 3 1 True fdm_empty)"
  have wf: "fm_wf ?m" by (simp add: fm_wf_def fm_save_fd_def fm_set_inode_iden_def fdm_empty_def)
  have l: "fm_fds ?m = [\<lparr>ofd_src = FILESYSTEM, ofd_refcount = 0, ofd_fd = 9\<rparr>]"
    by (simp add: fm_save_fd_def fm_set_inode_iden_def fdm_empty_def)
  have "is_file_of ?m 3 1 \<lparr>ofd_src = FILESYSTEM, ofd_refcount = 0, ofd_fd = 9\<rparr>"
    by (simp add: is_file_of_def fm_save_fd_def fm_set_inode_iden_def)
  then have ex: "\<exists>e \<in> set (fm_fds ?m). is_file_of ?m 3 1 e" unfolding l by simp
  from fetch_inode_fd_finds [OF wf, of 3 1] show ?thesis unfolding if_P [OF ex] unfolding l by auto
qed

text \<open>\<open>is_filesystem_busy\<close> answers yes for a file system with an open description and never answers no: the
  function then ends without returning a value.\<close>

theorem filesystem_busy_never_no:
  assumes "fm_wf m"
  shows "fm_is_filesystem_busy fs m = (if \<exists>e \<in> set (fm_fds m). \<exists>num. is_file_of m num fs e then Inr True else Inl Fault)"
proof -
  have "\<forall>e \<in> set es. ofd_src e = FILESYSTEM \<longrightarrow> fm_files m (ofd_fd e) \<noteq> None \<Longrightarrow>
    fm_busy_from m fs es = (if \<exists>e \<in> set es. \<exists>num. is_file_of m num fs e then Inr True else Inl Fault)" for es
    by (induction es) (auto simp: is_file_of_def fm_file_def split: option.splits)
  moreover have "\<forall>e \<in> set (fm_fds m). ofd_src e = FILESYSTEM \<longrightarrow> fm_files m (ofd_fd e) \<noteq> None"
    using assms by (simp add: fm_wf_def)
  ultimately show ?thesis unfolding fm_is_filesystem_busy_def by blast
qed

theorem filesystem_busy_never_no_witness: "fm_is_filesystem_busy 4 fdm_empty = Inl Fault"
  using filesystem_busy_never_no [OF fdm_empty_wf(1), of 4] by (simp add: fdm_empty_def)

end
