(* ===== verification/Handles.thy ===== *)
theory Handles
  imports Fd_Manager
begin

text \<open>
  The file handles of a process (\<open>FileDescriptionHandle\<close> of \<open>kernel/src/proc/process.hpp\<close> and the
  handle functions of \<open>process.cpp\<close>): a table whose indices are the descriptor numbers of the
  process, over the table of open descriptions (theory \<open>Fd_Manager\<close>). Descriptor numbers are the
  \<open>i32\<close> of the code, as integers.
\<close>

abbreviation OPEN_MAX :: nat where "OPEN_MAX \<equiv> 256"

record handle =
  h_open :: bool
  h_fd :: nat
  h_ptr :: usize
  h_flags :: usize

record files =
  f_handles :: "handle list"
  f_fdm :: fdm

definition handle_closed :: handle where
  "handle_closed = \<lparr>h_open = False, h_fd = 0, h_ptr = 0, h_flags = 0\<rparr>"

definition handle_new :: "nat \<Rightarrow> usize \<Rightarrow> usize \<Rightarrow> handle" where
  "handle_new p flags ptr = \<lparr>h_open = True, h_fd = p, h_ptr = ptr, h_flags = flags\<rparr>"

definition h_may_read :: "handle \<Rightarrow> bool" where
  "h_may_read h \<longleftrightarrow> has_flag (h_flags h) O_RDONLY \<or> has_flag (h_flags h) O_RDWR"

definition h_may_write :: "handle \<Rightarrow> bool" where
  "h_may_write h \<longleftrightarrow> has_flag (h_flags h) O_WRONLY \<or> has_flag (h_flags h) O_RDWR"

definition is_valid_handle :: "int \<Rightarrow> bool" where
  "is_valid_handle fd \<longleftrightarrow> fd \<ge> 0 \<and> fd < int OPEN_MAX"

definition is_handle_open :: "files \<Rightarrow> int \<Rightarrow> bool" where
  "is_handle_open s fd \<longleftrightarrow> (if fd < 0 then False
     else if length (f_handles s) \<le> nat fd then False else h_open (f_handles s ! nat fd))"

text \<open>The scan of \<open>open_handle\<close> for a closed slot.\<close>

fun first_closed :: "handle list \<Rightarrow> nat option" where
  "first_closed [] = None"
| "first_closed (h # hs) = (if \<not> h_open h then Some 0 else map_option Suc (first_closed hs))"

text \<open>A reused slot gets the description and the offset 0; its flags stay what they were.\<close>

definition open_handle :: "nat \<Rightarrow> usize \<Rightarrow> files \<Rightarrow> int \<times> files" where
  "open_handle p perms s = (case first_closed (f_handles s) of
     Some i \<Rightarrow> (int i, \<lparr>f_handles = (f_handles s)[i := (f_handles s ! i)\<lparr>h_open := True, h_fd := p, h_ptr := 0\<rparr>],
                       f_fdm = fm_open p (f_fdm s)\<rparr>)
   | None \<Rightarrow> if length (f_handles s) \<ge> OPEN_MAX then (- uint EMFILE, s)
       else (int (length (f_handles s)), \<lparr>f_handles = f_handles s @ [handle_new p perms 0],
                                          f_fdm = fm_open p (f_fdm s)\<rparr>))"

definition get_handle :: "files \<Rightarrow> int \<Rightarrow> handle result" where
  "get_handle s fd = (if 0 \<le> fd \<and> nat fd < length (f_handles s) then Inr (f_handles s ! nat fd) else Inl Panic)"

definition set_handle :: "int \<Rightarrow> handle \<Rightarrow> files \<Rightarrow> files" where
  "set_handle fd h s = s\<lparr>f_handles := (f_handles s)[nat fd := h]\<rparr>"

definition close_handle :: "int \<Rightarrow> files \<Rightarrow> (u32 \<times> files) result" where
  "close_handle fd s = bindr (get_handle s fd) (\<lambda>h.
     if \<not> h_open h then Inr (EBADF, s)
     else bindr (fm_close (h_fd h) (f_fdm s)) (\<lambda>(err, m).
       Inr (err, set_handle fd (h\<lparr>h_open := False, h_fd := 0\<rparr>) (s\<lparr>f_fdm := m\<rparr>))))"

definition duplicate_handle :: "int \<Rightarrow> int \<Rightarrow> files \<Rightarrow> (int \<times> files) result" where
  "duplicate_handle src dst s = (if \<not> is_handle_open s src then Inr (- uint EBADF, s)
     else if dst \<noteq> -1 \<and> \<not> is_valid_handle dst then Inr (- uint EBADF, s)
     else if dst \<noteq> -1 \<and> is_handle_open s dst then
       bindr (close_handle dst s) (\<lambda>(err, s1).
         if err \<noteq> ENOERR then Inr (- uint EIO, s1)
         else bindr (get_handle s1 src) (\<lambda>h.
           let s2 = set_handle dst h s1 in Inr (dst, s2\<lparr>f_fdm := fm_open (h_fd h) (f_fdm s2)\<rparr>)))
     else bindr (get_handle s src) (\<lambda>h.
       let (d, s1) = open_handle (h_fd h) (h_flags h) s in
       if d < 0 then Inr (d, s1)
       else bindr (get_handle s1 src) (\<lambda>h'. Inr (d, set_handle d h' s1))))"

text \<open>The loop of \<open>Process::fork\<close> over the handles.\<close>

fun fork_handles :: "handle list \<Rightarrow> fdm \<Rightarrow> handle list \<times> fdm" where
  "fork_handles [] m = ([], m)"
| "fork_handles (h # hs) m = (if \<not> h_open h then let (rest, m') = fork_handles hs m in (handle_closed # rest, m')
     else let (rest, m') = fork_handles hs (fm_open (h_fd h) m) in (handle_new (h_fd h) (h_flags h) (h_ptr h) # rest, m'))"

text \<open>The loop of \<open>Process::close\<close> over the handles.\<close>

fun close_handles :: "nat \<Rightarrow> nat \<Rightarrow> files \<Rightarrow> files result" where
  "close_handles i 0 s = Inr s"
| "close_handles i (Suc n) s = bindr (get_handle s (int i)) (\<lambda>h.
     if h_open h then bindr (close_handle (int i) s) (\<lambda>(_, s1). close_handles (Suc i) n s1)
     else close_handles (Suc i) n s)"

definition close_all_handles :: "files \<Rightarrow> files result" where
  "close_all_handles s = close_handles 0 (length (f_handles s)) s"

definition sys_pipe_handles :: "(usize \<Rightarrow> u8 list) \<Rightarrow> nat \<Rightarrow> files \<Rightarrow> (int \<times> (int \<times> int) option \<times> files) result" where
  "sys_pipe_handles mem p s = (let (pipe, m) = fm_create_pipe mem p (f_fdm s);
       (rd, s1) = open_handle pipe O_RDONLY (s\<lparr>f_fdm := m\<rparr>) in
     if rd < 0 then bindr (fm_close pipe (f_fdm s1)) (\<lambda>(_, m1). Inr (rd, None, s1\<lparr>f_fdm := m1\<rparr>))
     else let (wr, s2) = open_handle pipe O_WRONLY s1 in
       if wr < 0 then bindr (fm_close pipe (f_fdm s2)) (\<lambda>(_, m2). Inr (wr, None, s2\<lparr>f_fdm := m2\<rparr>))
       else Inr (0, Some (rd, wr), s2))"


subsection \<open>No handle outlives its description\<close>

text \<open>The open handles on a description, and the invariant of a process: the table of descriptions is
  well-formed, and every description with open handles, of this process or of the \<open>others\<close>, is in it
  with at least as many references.\<close>

definition holds :: "handle \<Rightarrow> nat \<Rightarrow> nat" where
  "holds h p = (if h_open h \<and> h_fd h = p then 1 else 0)"

fun open_count :: "handle list \<Rightarrow> nat \<Rightarrow> nat" where
  "open_count [] p = 0"
| "open_count (h # hs) p = holds h p + open_count hs p"

definition handles_live :: "(nat \<Rightarrow> nat) \<Rightarrow> files \<Rightarrow> bool" where
  "handles_live others s \<longleftrightarrow> fm_wf (f_fdm s)
     \<and> covered fm_ref (\<lambda>p. others p + open_count (f_handles s) p) (f_fdm s)"

lemma open_count_append: "open_count (xs @ ys) p = open_count xs p + open_count ys p"
  by (induction xs) auto

lemma open_count_upd:
  "i < length hs \<Longrightarrow> open_count (hs[i := h]) p + holds (hs ! i) p = open_count hs p + holds h p"
proof (induction hs arbitrary: i)
  case (Cons g gs)
  then show ?case by (cases i) auto
qed simp

lemma open_count_mem: "i < length hs \<Longrightarrow> holds (hs ! i) p \<le> open_count hs p"
  using open_count_upd [of i hs "hs ! i" p] by (induction hs arbitrary: i) (auto simp: nth_Cons split: nat.splits intro: trans_le_add2)

lemma holds_simps: "\<not> h_open h \<Longrightarrow> holds h p = 0" "holds (handle_new q f a) p = (if p = q then 1 else 0)"
  "h_open h \<Longrightarrow> holds h p = (if p = h_fd h then 1 else 0)"
  by (auto simp: holds_def handle_new_def)

lemma first_closed_Some: "first_closed hs = Some i \<Longrightarrow> i < length hs \<and> \<not> h_open (hs ! i) \<and> (\<forall>j<i. h_open (hs ! j))"
proof (induction hs arbitrary: i)
  case (Cons h hs)
  show ?case
  proof (cases i)
    case 0
    then show ?thesis using Cons.prems by (auto split: if_splits)
  next
    case (Suc j)
    then have "h_open h" "first_closed hs = Some j" using Cons.prems by (auto split: if_splits)
    then show ?thesis using Cons.IH [of j] Suc by (auto simp: nth_Cons split: nat.splits)
  qed
qed simp

lemma first_closed_None: "first_closed hs = None \<longleftrightarrow> (\<forall>h \<in> set hs. h_open h)"
  by (induction hs) auto

lemma handles_live_open:
  assumes "handles_live others s" "i < length (f_handles s)" "h_open (f_handles s ! i)"
  obtains n where "fm_ref (f_fdm s) (h_fd (f_handles s ! i)) = Some n" "0 < n"
proof -
  let ?p = "h_fd (f_handles s ! i)"
  have "0 < open_count (f_handles s) ?p"
    using open_count_mem [OF assms(2), of ?p] assms(3) by (simp add: holds_def)
  then obtain n where "fm_ref (f_fdm s) ?p = Some n" "others ?p + open_count (f_handles s) ?p \<le> n"
    using assms(1) unfolding handles_live_def covered_def by (meson add_pos_nonneg le0 trans_less_add2)
  then show thesis using that [of n] \<open>0 < open_count (f_handles s) ?p\<close> by simp
qed

lemma covered_eq: "covered ref c s \<Longrightarrow> (\<And>p. c p = d p) \<Longrightarrow> covered ref d s"
  by (simp add: covered_def)

text \<open>What \<open>open_handle\<close> does for a description in the table.\<close>

lemma open_handle_live:
  assumes "handles_live others s" "fm_ref (f_fdm s) p = Some n" "n + 1 < 4294967296" "open_handle p perms s = (r, t)"
  shows "handles_live others t \<and> (if r < 0 then r = - uint EMFILE \<and> t = s
    else f_fdm t = fm_open p (f_fdm s) \<and> nat r < length (f_handles t) \<and> nat r < max (length (f_handles s)) OPEN_MAX
      \<and> h_open (f_handles t ! nat r) \<and> h_fd (f_handles t ! nat r) = p \<and> h_ptr (f_handles t ! nat r) = 0
      \<and> \<not> is_handle_open s r \<and> (\<forall>j<nat r. h_open (f_handles s ! j))
      \<and> (\<forall>j<length (f_handles s). j \<noteq> nat r \<longrightarrow> f_handles t ! j = f_handles s ! j))"
proof -
  let ?c = "\<lambda>p. others p + open_count (f_handles s) p"
  have c: "fm_wf (fm_open p (f_fdm s)) \<and> covered fm_ref (?c(p := Suc (?c p))) (fm_open p (f_fdm s))"
    using fds.covered_retain [of "f_fdm s" ?c p n] assms(1,2,3) by (simp add: handles_live_def)
  have live: "handles_live others \<lparr>f_handles = hs, f_fdm = fm_open p (f_fdm s)\<rparr>"
    if "\<And>q. open_count hs q = open_count (f_handles s) q + (if q = p then 1 else 0)" for hs
    using c covered_eq [of fm_ref "?c(p := Suc (?c p))" "fm_open p (f_fdm s)" "\<lambda>q. others q + open_count hs q"] that
    by (simp add: handles_live_def)
  show ?thesis
  proof (cases "first_closed (f_handles s)")
    case None
    have al: "h_open (f_handles s ! j)" if "j < length (f_handles s)" for j
      using None first_closed_None [of "f_handles s"] nth_mem [OF that] by auto
    show ?thesis
    proof (cases "length (f_handles s) \<ge> OPEN_MAX")
      case True
      then show ?thesis using assms(1,4) None by (auto simp: open_handle_def errno_defs)
    next
      case False
      then have t: "r = int (length (f_handles s))" "t = \<lparr>f_handles = f_handles s @ [handle_new p perms 0], f_fdm = fm_open p (f_fdm s)\<rparr>"
        using assms(4) None by (auto simp: open_handle_def)
      have "handles_live others t" unfolding t by (rule live) (simp add: open_count_append holds_simps)
      then show ?thesis using t al False by (simp add: handle_new_def is_handle_open_def nth_append)
    qed
  next
    case (Some i)
    note f = first_closed_Some [OF Some]
    have t: "r = int i" "t = \<lparr>f_handles = (f_handles s)[i := (f_handles s ! i)\<lparr>h_open := True, h_fd := p, h_ptr := 0\<rparr>], f_fdm = fm_open p (f_fdm s)\<rparr>"
      using assms(4) Some by (auto simp: open_handle_def)
    have "handles_live others t" unfolding t
    proof (rule live)
      fix q
      show "open_count ((f_handles s)[i := (f_handles s ! i)\<lparr>h_open := True, h_fd := p, h_ptr := 0\<rparr>]) q
        = open_count (f_handles s) q + (if q = p then 1 else 0)"
        using open_count_upd [of i "f_handles s" "(f_handles s ! i)\<lparr>h_open := True, h_fd := p, h_ptr := 0\<rparr>" q] f
        by (auto simp: holds_def)
    qed
    then show ?thesis using t f by (auto simp: is_handle_open_def)
  qed
qed

lemma open_handle_length: "open_handle p f s = (r, t) \<Longrightarrow> length (f_handles s) \<le> length (f_handles t)"
  by (auto simp: open_handle_def split: option.splits if_splits)

lemma close_handle_live:
  assumes "handles_live others s" "is_handle_open s fd"
  shows "\<exists>t. close_handle fd s = Inr (ENOERR, t) \<and> handles_live others t
    \<and> f_handles t = (f_handles s)[nat fd := (f_handles s ! nat fd)\<lparr>h_open := False, h_fd := 0\<rparr>]
    \<and> (\<forall>q n. fm_ref (f_fdm t) q = Some n \<longrightarrow> (\<exists>n' \<ge> n. fm_ref (f_fdm s) q = Some n'))"
proof -
  have i: "0 \<le> fd" "nat fd < length (f_handles s)" "h_open (f_handles s ! nat fd)"
    using assms(2) by (auto simp: is_handle_open_def split: if_splits)
  let ?p = "h_fd (f_handles s ! nat fd)" and ?c = "\<lambda>p. others p + open_count (f_handles s) p"
  let ?h = "(f_handles s ! nat fd)\<lparr>h_open := False, h_fd := 0\<rparr>"
  have cnt: "open_count ((f_handles s)[nat fd := ?h]) q = open_count (f_handles s) q - (if q = ?p then 1 else 0)"
    "holds (f_handles s ! nat fd) q \<le> open_count (f_handles s) q" for q
    using open_count_upd [OF i(2), of ?h q] open_count_mem [OF i(2), of q] i(3) by (auto simp: holds_def split: if_splits)
  have "0 < ?c ?p" using cnt(2) [of ?p] i(3) by (simp add: holds_def)
  from fds.covered_release [of "f_fdm s" ?c, OF _ _ this] assms(1) obtain m where m: "fm_close ?p (f_fdm s) = Inr (ENOERR, m)" "fm_wf m"
    "covered fm_ref (?c(?p := ?c ?p - 1)) m" "\<forall>q. q \<noteq> ?p \<longrightarrow> fm_ref m q = fm_ref (f_fdm s) q"
    "\<forall>n. fm_ref m ?p = Some n \<longrightarrow> fm_ref (f_fdm s) ?p = Some (Suc n)"
    by (auto simp: handles_live_def)
  define t where "t = set_handle fd ?h (s\<lparr>f_fdm := m\<rparr>)"
  have "(?c(?p := ?c ?p - 1)) q = others q + open_count ((f_handles s)[nat fd := ?h]) q" for q
    using cnt(1) [of q] cnt(2) [of q] i(3) by (auto simp: holds_def)
  from m(3) this have "covered fm_ref (\<lambda>q. others q + open_count ((f_handles s)[nat fd := ?h]) q) m"
    by (rule covered_eq)
  then have "handles_live others t" using m(2) by (simp add: handles_live_def t_def set_handle_def)
  moreover have "close_handle fd s = Inr (ENOERR, t)"
    using i m(1) by (simp add: close_handle_def get_handle_def t_def)
  moreover have "\<exists>n' \<ge> n. fm_ref (f_fdm s) q = Some n'" if "fm_ref m q = Some n" for q n
    using m(4,5) that by (cases "q = ?p") (auto intro: le_SucI)
  ultimately show ?thesis by (auto simp: t_def set_handle_def)
qed

lemma handles_live_set_open:
  assumes "handles_live others s" "i < length (f_handles s)" "\<not> h_open (f_handles s ! i)" "h_open h"
    and "fm_ref (f_fdm s) (h_fd h) = Some n" "n + 1 < 4294967296"
  shows "handles_live others \<lparr>f_handles = (f_handles s)[i := h], f_fdm = fm_open (h_fd h) (f_fdm s)\<rparr>"
proof -
  let ?c = "\<lambda>p. others p + open_count (f_handles s) p" and ?p = "h_fd h"
  have c: "fm_wf (fm_open ?p (f_fdm s))" "covered fm_ref (?c(?p := Suc (?c ?p))) (fm_open ?p (f_fdm s))"
    using fds.covered_retain [of "f_fdm s" ?c ?p n] assms(1,5,6) by (simp_all add: handles_live_def)
  have "(?c(?p := Suc (?c ?p))) q = others q + open_count ((f_handles s)[i := h]) q" for q
    using open_count_upd [OF assms(2), of h q] assms(3,4) by (auto simp: holds_def)
  from c(2) this have "covered fm_ref (\<lambda>q. others q + open_count ((f_handles s)[i := h]) q) (fm_open ?p (f_fdm s))"
    by (rule covered_eq)
  then show ?thesis using c(1) by (simp add: handles_live_def)
qed

lemma handles_live_same:
  assumes "handles_live others s" "i < length (f_handles s)" "h_open h = h_open (f_handles s ! i)"
    "h_fd h = h_fd (f_handles s ! i)"
  shows "handles_live others (s\<lparr>f_handles := (f_handles s)[i := h]\<rparr>)"
proof -
  have "others q + open_count (f_handles s) q = others q + open_count ((f_handles s)[i := h]) q" for q
    using open_count_upd [OF assms(2), of h q] assms(3,4) by (simp add: holds_def)
  from covered_eq [OF _ this, where ref = fm_ref and s = "f_fdm s"] assms(1) show ?thesis by (simp add: handles_live_def)
qed

definition refs_below :: "files \<Rightarrow> nat \<Rightarrow> bool" where
  "refs_below s b \<longleftrightarrow> (\<forall>p n. fm_ref (f_fdm s) p = Some n \<longrightarrow> n < b)"

lemma duplicate_onto_open:
  assumes "handles_live others s" "refs_below s 0xffffffff" "is_handle_open s src" "is_handle_open s dst" "is_valid_handle dst"
  shows "\<exists>t. duplicate_handle src dst s = Inr (dst, t) \<and> handles_live others t
    \<and> f_handles t = (f_handles s)[nat dst := (if src = dst
        then (f_handles s ! nat src)\<lparr>h_open := False, h_fd := 0\<rparr> else f_handles s ! nat src)]"
proof -
  have i: "0 \<le> src" "nat src < length (f_handles s)" "h_open (f_handles s ! nat src)"
    "0 \<le> dst" "nat dst < length (f_handles s)"
    using assms(3,4) by (auto simp: is_handle_open_def split: if_splits)
  from close_handle_live [OF assms(1,4)] obtain t where t: "close_handle dst s = Inr (ENOERR, t)" "handles_live others t"
    "f_handles t = (f_handles s)[nat dst := (f_handles s ! nat dst)\<lparr>h_open := False, h_fd := 0\<rparr>]"
    "\<forall>q n. fm_ref (f_fdm t) q = Some n \<longrightarrow> (\<exists>n' \<ge> n. fm_ref (f_fdm s) q = Some n')" by blast
  have len: "length (f_handles t) = length (f_handles s)" by (simp add: t(3))
  let ?h = "f_handles t ! nat src"
  define u where "u = \<lparr>f_handles = (f_handles t)[nat dst := ?h], f_fdm = fm_open (h_fd ?h) (f_fdm t)\<rparr>"
  have "duplicate_handle src dst s = Inr (dst, u)"
    using assms(3-5) i t(1) len by (simp add: duplicate_handle_def is_valid_handle_def get_handle_def set_handle_def u_def Let_def)
  moreover have "handles_live others u"
  proof (cases "src = dst")
    case True
    then have h: "?h = (f_handles s ! nat dst)\<lparr>h_open := False, h_fd := 0\<rparr>" using i t(3) by simp
    have "0 \<notin> ofd_fd ` set (fm_fds (f_fdm t))" using t(2) by (simp add: handles_live_def fm_wf_def)
    then have "fm_open 0 (f_fdm t) = f_fdm t" by (simp add: fm_ref_None [symmetric] fm_open_absent)
    then have "u = t\<lparr>f_handles := (f_handles t)[nat dst := ?h]\<rparr>" using h by (simp add: u_def)
    then show ?thesis using handles_live_same [OF t(2), of "nat dst" ?h] True i len by simp
  next
    case False
    then have ne: "nat src \<noteq> nat dst" using i by simp
    then have h: "?h = f_handles s ! nat src" using t(3) by simp
    from handles_live_open [OF t(2), of "nat src"] i len h obtain n where n: "fm_ref (f_fdm t) (h_fd ?h) = Some n" by auto
    with t(4) obtain n' where "fm_ref (f_fdm s) (h_fd ?h) = Some n'" "n \<le> n'" by blast
    then have "n' < 4294967295" using assms(2) by (simp add: refs_below_def)
    with \<open>n \<le> n'\<close> have "n + 1 < 4294967296" by simp
    moreover have "\<not> h_open (f_handles t ! nat dst)" using t(3) i by simp
    ultimately show ?thesis unfolding u_def
      using handles_live_set_open [OF t(2), of "nat dst" ?h n] i len h n by simp
  qed
  moreover have "f_handles u = (f_handles s)[nat dst := (if src = dst
      then (f_handles s ! nat src)\<lparr>h_open := False, h_fd := 0\<rparr> else f_handles s ! nat src)]"
    using i t(3) by (auto simp: u_def)
  ultimately show ?thesis by blast
qed

lemma duplicate_onto_free:
  assumes "handles_live others s" "refs_below s 0xffffffff" "is_handle_open s src"
    and "dst = -1 \<or> is_valid_handle dst \<and> \<not> is_handle_open s dst"
  shows "\<exists>r t. duplicate_handle src dst s = Inr (r, t) \<and> handles_live others t \<and>
    (if r < 0 then r = - uint EMFILE \<and> t = s
     else \<not> is_handle_open s r \<and> (\<forall>j<nat r. h_open (f_handles s ! j)) \<and> nat r < length (f_handles t)
       \<and> f_handles t ! nat r = f_handles s ! nat src
       \<and> (\<forall>j<length (f_handles s). j \<noteq> nat r \<longrightarrow> f_handles t ! j = f_handles s ! j))"
proof -
  have i: "0 \<le> src" "nat src < length (f_handles s)" "h_open (f_handles s ! nat src)"
    using assms(3) by (auto simp: is_handle_open_def split: if_splits)
  let ?h = "f_handles s ! nat src"
  obtain r t where rt: "open_handle (h_fd ?h) (h_flags ?h) s = (r, t)" by fastforce
  from handles_live_open [OF assms(1) i(2,3)] obtain n where n: "fm_ref (f_fdm s) (h_fd ?h) = Some n" by blast
  then have "n + 1 < 4294967296" using assms(2) by (auto simp: refs_below_def)
  note O = open_handle_live [OF assms(1) n this rt]
  have br: "duplicate_handle src dst s = (if r < 0 then Inr (r, t) else bindr (get_handle t src) (\<lambda>h'. Inr (r, set_handle r h' t)))"
    using assms(3,4) i rt by (auto simp: duplicate_handle_def get_handle_def)
  show ?thesis
  proof (cases "r < 0")
    case True
    then have "duplicate_handle src dst s = Inr (r, s) \<and> r = - uint EMFILE \<and> t = s" using O br by simp
    then show ?thesis using True assms(1) by (intro exI [of _ r] exI [of _ s]) simp
  next
    case False
    with O have o: "handles_live others t" "nat r < length (f_handles t)" "h_open (f_handles t ! nat r)"
      "h_fd (f_handles t ! nat r) = h_fd ?h" "\<not> is_handle_open s r" "\<forall>j<nat r. h_open (f_handles s ! j)"
      "\<forall>j<length (f_handles s). j \<noteq> nat r \<longrightarrow> f_handles t ! j = f_handles s ! j" by simp_all
    have ne: "nat src \<noteq> nat r" using o(5) i False assms(3) by (auto simp: is_handle_open_def)
    then have h: "f_handles t ! nat src = ?h" using o(7) i by blast
    have len: "nat src < length (f_handles t)" using i(2) open_handle_length [OF rt] by simp
    have "duplicate_handle src dst s = Inr (r, set_handle r ?h t)"
      using br False i len h by (simp add: get_handle_def)
    moreover have "handles_live others (set_handle r ?h t)"
      unfolding set_handle_def using handles_live_same [OF o(1,2), of ?h] i(3) o(3,4) by simp
    ultimately show ?thesis using o False by (auto simp: set_handle_def)
  qed
qed

subsection \<open>The handle operations\<close>

definition demo_files :: files where
  "demo_files = \<lparr>f_handles = [handle_new 7 O_RDONLY 12, handle_closed\<lparr>h_flags := O_WRONLY\<rparr>, handle_new 7 O_WRONLY 0],
     f_fdm = fm_open 7 (fm_open 7 (fm_save_fd 7 PIPE fdm_empty))\<rparr>"

lemma demo_files_fdm: "fm_wf (f_fdm demo_files)" "fm_ref (f_fdm demo_files) = (\<lambda>p. if p = 7 then Some 2 else None)"
proof -
  have a: "fm_wf (fm_save_fd 7 PIPE fdm_empty)" "fm_ref (fm_save_fd 7 PIPE fdm_empty) 7 = Some 0"
    using fm_save_wf [of fdm_empty 7 PIPE] fdm_empty_wf by auto
  from fm_open_ref [OF a] have b: "fm_wf (fm_open 7 (fm_save_fd 7 PIPE fdm_empty))"
    "fm_ref (fm_open 7 (fm_save_fd 7 PIPE fdm_empty)) 7 = Some 1" by auto
  from fm_open_ref [OF b] show "fm_wf (f_fdm demo_files)" by (simp add: demo_files_def)
  show "fm_ref (f_fdm demo_files) = (\<lambda>p. if p = 7 then Some 2 else None)"
    by (simp add: demo_files_def fm_ref_def fm_open_def fm_save_fd_def fdm_empty_def ofd_retain_def fun_eq_iff)
qed

lemma demo_files_live: "handles_live (\<lambda>_. 0) demo_files" "refs_below demo_files 0xffffffff"
  using demo_files_fdm by (auto simp: handles_live_def covered_def refs_below_def demo_files_def holds_def
    handle_new_def handle_closed_def split: if_splits)

text \<open>\<open>dup\<close>, and \<open>dup2\<close> onto a number that is not open, copy the handle with its offset and flags into the
  lowest free number, or report \<open>EMFILE\<close> and change nothing; \<open>dup2\<close> ignores the number it was asked
  for. No handle is left without its description.\<close>

theorem dup_copies_to_lowest_free:
  assumes "handles_live others s" "refs_below s 0xffffffff" "is_handle_open s src"
    and "dst = -1 \<or> is_valid_handle dst \<and> \<not> is_handle_open s dst"
  shows "\<exists>r t. duplicate_handle src dst s = Inr (r, t) \<and> handles_live others t \<and>
    (if r < 0 then r = - uint EMFILE \<and> t = s
     else \<not> is_handle_open s r \<and> (\<forall>j<nat r. h_open (f_handles s ! j)) \<and> nat r < length (f_handles t)
       \<and> f_handles t ! nat r = f_handles s ! nat src
       \<and> (\<forall>j<length (f_handles s). j \<noteq> nat r \<longrightarrow> f_handles t ! j = f_handles s ! j))"
  by (rule duplicate_onto_free [OF assms])

theorem dup_copies_to_lowest_free_witness:
  "\<exists>t. duplicate_handle 0 5 demo_files = Inr (1, t) \<and> f_handles t ! 1 = handle_new 7 O_RDONLY 12"
proof -
  have o: "is_handle_open demo_files 0" "is_valid_handle 5" "\<not> is_handle_open demo_files 5"
    by (simp_all add: is_handle_open_def is_valid_handle_def demo_files_def handle_new_def)
  from dup_copies_to_lowest_free [OF demo_files_live o(1), of 5] o obtain r t where
    "duplicate_handle 0 5 demo_files = Inr (r, t)" by blast
  moreover have "duplicate_handle 0 5 demo_files = Inr (1, \<lparr>f_handles = [handle_new 7 O_RDONLY 12, handle_new 7 O_RDONLY 12,
      handle_new 7 O_WRONLY 0], f_fdm = fm_open 7 (f_fdm demo_files)\<rparr>)"
    by (simp add: duplicate_handle_def o is_valid_handle_def get_handle_def set_handle_def open_handle_def demo_files_def
      handle_new_def handle_closed_def is_handle_open_def)
  ultimately show ?thesis by auto
qed

text \<open>\<open>dup2\<close> onto an open handle closes that one and puts a copy of the source there, keeping every open
  handle on a live description; only a handle duplicated onto itself ends up closed.\<close>

theorem dup2_replaces_open:
  assumes "handles_live others s" "refs_below s 0xffffffff" "is_handle_open s src" "is_handle_open s dst" "is_valid_handle dst"
  shows "\<exists>t. duplicate_handle src dst s = Inr (dst, t) \<and> handles_live others t
    \<and> f_handles t = (f_handles s)[nat dst := (if src = dst
        then (f_handles s ! nat src)\<lparr>h_open := False, h_fd := 0\<rparr> else f_handles s ! nat src)]"
  by (rule duplicate_onto_open [OF assms])

theorem dup2_replaces_open_witness:
  "\<exists>t. duplicate_handle 0 2 demo_files = Inr (2, t) \<and> f_handles t ! 2 = handle_new 7 O_RDONLY 12"
proof -
  have o: "is_handle_open demo_files 0" "is_handle_open demo_files 2" "is_valid_handle 2"
    by (simp_all add: is_handle_open_def is_valid_handle_def demo_files_def handle_new_def)
  from dup2_replaces_open [OF demo_files_live o] show ?thesis
    by (auto simp: demo_files_def)
qed

text \<open>A handle opened in a slot that was used before keeps the flags of the previous handle in that slot,
  whatever flags it is opened with.\<close>

theorem reused_slot_keeps_flags:
  assumes "first_closed (f_handles s) = Some i" "open_handle p perms s = (r, t)"
  shows "r = int i \<and> h_flags (f_handles t ! i) = h_flags (f_handles s ! i)
    \<and> (h_may_read (f_handles t ! i) \<longleftrightarrow> h_may_read (f_handles s ! i))
    \<and> (h_may_write (f_handles t ! i) \<longleftrightarrow> h_may_write (f_handles s ! i))"
  using assms first_closed_Some [OF assms(1)] by (auto simp: open_handle_def h_may_read_def h_may_write_def)

theorem reused_slot_keeps_flags_witness:
  "\<exists>t. open_handle 7 O_RDONLY demo_files = (1, t) \<and> h_may_write (f_handles t ! 1) \<and> \<not> h_may_read (f_handles t ! 1)"
proof -
  obtain r t where t: "open_handle 7 O_RDONLY demo_files = (r, t)" by fastforce
  have "first_closed (f_handles demo_files) = Some 1" by (simp add: demo_files_def handle_new_def handle_closed_def)
  from reused_slot_keeps_flags [OF this t] t show ?thesis
    by (auto simp: h_may_read_def h_may_write_def demo_files_def handle_closed_def flag_defs)
qed

text \<open>Closing an open handle of a process returns success, closes only that number, and keeps every other
  open handle, of this process and of all others, on a live description.\<close>

theorem close_handle_keeps_live:
  assumes "handles_live others s" "is_handle_open s fd"
  shows "\<exists>t. close_handle fd s = Inr (ENOERR, t) \<and> handles_live others t \<and> \<not> is_handle_open t fd
    \<and> (\<forall>g. g \<noteq> fd \<longrightarrow> is_handle_open t g = is_handle_open s g)"
proof -
  have i: "0 \<le> fd" "nat fd < length (f_handles s)" using assms(2) by (auto simp: is_handle_open_def split: if_splits)
  from close_handle_live [OF assms] obtain t where t: "close_handle fd s = Inr (ENOERR, t)" "handles_live others t"
    "f_handles t = (f_handles s)[nat fd := (f_handles s ! nat fd)\<lparr>h_open := False, h_fd := 0\<rparr>]" by blast
  have "is_handle_open t g = is_handle_open s g" if "g \<noteq> fd" for g
    using that i by (auto simp: is_handle_open_def t(3) nth_list_update)
  moreover have "\<not> is_handle_open t fd" using i by (simp add: is_handle_open_def t(3))
  ultimately show ?thesis using t by blast
qed

theorem close_handle_keeps_live_witness:
  "\<exists>t. close_handle 2 demo_files = Inr (ENOERR, t) \<and> handles_live (\<lambda>_. 0) t \<and> is_handle_open t 0"
proof -
  have o: "is_handle_open demo_files 2" "is_handle_open demo_files 0"
    by (simp_all add: is_handle_open_def demo_files_def handle_new_def)
  from close_handle_keeps_live [OF demo_files_live(1) o(1)] o(2) show ?thesis by auto
qed

text \<open>A pipe made by a process that has one number left fails, but its read end stays open on a description
  that is gone from the table.\<close>

theorem pipe_last_slot_dangles:
  assumes "length (f_handles s) = 255" "\<forall>h \<in> set (f_handles s). h_open h"
    and "fm_wf (f_fdm s)" "fm_ref (f_fdm s) p = None" "p \<noteq> 0"
  shows "\<exists>t. sys_pipe_handles mem p s = Inr (- uint EMFILE, None, t) \<and> is_handle_open t 255
    \<and> h_fd (f_handles t ! 255) = p \<and> fm_ref (f_fdm t) p = None"
proof -
  let ?m = "(f_fdm s)\<lparr>fm_pipes := (fm_pipes (f_fdm s))(p \<mapsto> ff_new mem)\<rparr>"
  have fc: "first_closed (f_handles s) = None" "first_closed (f_handles s @ [handle_new p O_RDONLY 0]) = None"
    using assms(2) by (auto simp: first_closed_None handle_new_def)
  have m: "fm_wf ?m" "fm_ref ?m p = None" using assms(3,4) by (simp_all add: fm_wf_def fm_ref_def)
  from fm_save_wf [OF m assms(5), of PIPE] have a: "fm_wf (fm_save_fd p PIPE ?m)" "fm_ref (fm_save_fd p PIPE ?m) p = Some 0"
    by simp_all
  from fm_open_ref [OF a] have b: "fm_wf (fm_open p (fm_save_fd p PIPE ?m))"
    "fm_ref (fm_open p (fm_save_fd p PIPE ?m)) p = Some 1" by simp_all
  from fm_close_last [OF b] obtain m' where m': "fm_close p (fm_open p (fm_save_fd p PIPE ?m)) = Inr (ENOERR, m')"
    "fm_ref m' p = None" by auto
  let ?hs = "f_handles s @ [handle_new p O_RDONLY 0]"
  have "sys_pipe_handles mem p s = Inr (- uint EMFILE, None, \<lparr>f_handles = ?hs, f_fdm = m'\<rparr>)"
    using assms(1) fc m'(1) by (simp add: sys_pipe_handles_def fm_create_pipe_def open_handle_def errno_defs Let_def)
  moreover have "?hs ! 255 = handle_new p O_RDONLY 0" using assms(1) by (simp add: nth_append)
  ultimately show ?thesis using assms(1) m'(2) by (auto simp: is_handle_open_def handle_new_def)
qed

theorem pipe_last_slot_dangles_witness:
  "\<exists>t. sys_pipe_handles (\<lambda>_. []) 9 \<lparr>f_handles = replicate 255 (handle_new 7 O_RDWR 0), f_fdm = f_fdm demo_files\<rparr>
     = Inr (- 33, None, t) \<and> is_handle_open t 255 \<and> fm_ref (f_fdm t) 9 = None"
  using pipe_last_slot_dangles [of "\<lparr>f_handles = replicate 255 (handle_new 7 O_RDWR 0), f_fdm = f_fdm demo_files\<rparr>" 9 "\<lambda>_. []"]
    demo_files_fdm by (auto simp: handle_new_def errno_defs)

subsection \<open>Forking and exiting\<close>

lemma fork_handles_live:
  assumes "fm_wf m" "covered fm_ref c m" "\<forall>h \<in> set hs. h_open h \<longrightarrow> 0 < c (h_fd h)"
    and "\<forall>p n. fm_ref m p = Some n \<longrightarrow> n + length hs < 4294967296" "fork_handles hs m = (cs, m')"
  shows "fm_wf m' \<and> covered fm_ref (\<lambda>p. c p + open_count cs p) m' \<and> length cs = length hs
    \<and> (\<forall>p. open_count cs p = open_count hs p)
    \<and> (\<forall>i<length hs. cs ! i = (if h_open (hs ! i) then hs ! i else handle_closed))"
  using assms
proof (induction hs arbitrary: c m cs m')
  case Nil
  then show ?case by simp
next
  case (Cons h hs)
  obtain rest where rest: "fork_handles hs (if h_open h then fm_open (h_fd h) m else m) = (rest, m')"
    "cs = (if h_open h then handle_new (h_fd h) (h_flags h) (h_ptr h) else handle_closed) # rest"
    using Cons.prems(5) by (auto split: prod.splits if_splits)
  have nth: "\<forall>i<length (h # hs). cs ! i = (if h_open ((h # hs) ! i) then (h # hs) ! i else handle_closed)"
    if "\<forall>i<length hs. rest ! i = (if h_open (hs ! i) then hs ! i else handle_closed)"
    using that by (auto simp: rest(2) nth_Cons handle_new_def split: nat.splits)
  show ?case
  proof (cases "h_open h")
    case False
    have "\<forall>p n. fm_ref m p = Some n \<longrightarrow> n + length hs < 4294967296" using Cons.prems(4) by fastforce
    from Cons.IH [OF Cons.prems(1,2) _ this, of rest m'] Cons.prems(3) rest(1) False have ih: "fm_wf m'"
      "covered fm_ref (\<lambda>p. c p + open_count rest p) m'" "length rest = length hs"
      "\<forall>p. open_count rest p = open_count hs p"
      "\<forall>i<length hs. rest ! i = (if h_open (hs ! i) then hs ! i else handle_closed)" by auto
    then show ?thesis using rest(2) False nth by (auto simp: holds_def handle_closed_def)
  next
    case True
    let ?p = "h_fd h"
    have "0 < c ?p" using Cons.prems(3) True by simp
    then obtain n where n: "fm_ref m ?p = Some n" using Cons.prems(2) by (auto simp: covered_def)
    then have nb: "n + 1 < 4294967296" using Cons.prems(4) by fastforce
    from fds.covered_retain [OF Cons.prems(1,2) n nb] have k: "fm_wf (fm_open ?p m)"
      "covered fm_ref (c(?p := Suc (c ?p))) (fm_open ?p m)" by blast+
    have "\<forall>q n'. fm_ref (fm_open ?p m) q = Some n' \<longrightarrow> n' + length hs < 4294967296"
    proof (intro allI impI)
      fix q n' assume q: "fm_ref (fm_open ?p m) q = Some n'"
      have "n' = Suc n \<or> fm_ref m q = Some n'"
        using q fm_open_ref [OF Cons.prems(1) n nb] by (cases "q = ?p") auto
      then show "n' + length hs < 4294967296" using Cons.prems(4) n by fastforce
    qed
    note bnd = this
    have pos: "\<forall>g \<in> set hs. h_open g \<longrightarrow> 0 < (c(?p := Suc (c ?p))) (h_fd g)" using Cons.prems(3) by auto
    have fk: "fork_handles hs (fm_open ?p m) = (rest, m')" using rest(1) True by simp
    from Cons.IH [OF k pos bnd fk] have ih: "fm_wf m'"
      "covered fm_ref (\<lambda>p. (c(?p := Suc (c ?p))) p + open_count rest p) m'" "length rest = length hs"
      "\<forall>p. open_count rest p = open_count hs p"
      "\<forall>i<length hs. rest ! i = (if h_open (hs ! i) then hs ! i else handle_closed)" by blast+
    have "covered fm_ref (\<lambda>p. c p + open_count cs p) m'"
      by (rule covered_eq [OF ih(2)]) (use rest(2) True in \<open>auto simp: holds_simps\<close>)
    then show ?thesis using ih rest(2) True nth by (auto simp: holds_def handle_new_def)
  qed
qed

text \<open>Forking gives the child a copy of every open handle, with its offset and flags, under the same number,
  and keeps the open handles of the parent, the child and all other processes on live descriptions.\<close>

theorem fork_shares_handles:
  assumes "handles_live others s" "refs_below s (4294967296 - length (f_handles s))"
    and "fork_handles (f_handles s) (f_fdm s) = (cs, m)"
  shows "handles_live (\<lambda>p. others p + open_count cs p) (s\<lparr>f_fdm := m\<rparr>)
    \<and> handles_live (\<lambda>p. others p + open_count (f_handles s) p) \<lparr>f_handles = cs, f_fdm = m\<rparr>
    \<and> length cs = length (f_handles s)
    \<and> (\<forall>i<length cs. cs ! i = (if h_open (f_handles s ! i) then f_handles s ! i else handle_closed))"
proof -
  let ?c = "\<lambda>p. others p + open_count (f_handles s) p"
  have "0 < ?c (h_fd h)" if hh: "h \<in> set (f_handles s)" "h_open h" for h
  proof -
    obtain i where "i < length (f_handles s)" "h = f_handles s ! i" using hh(1) by (auto simp: in_set_conv_nth)
    then show ?thesis using open_count_mem [of i "f_handles s" "h_fd h"] hh(2) by (simp add: holds_def)
  qed
  moreover have "\<forall>p n. fm_ref (f_fdm s) p = Some n \<longrightarrow> n + length (f_handles s) < 4294967296"
    using assms(2) by (auto simp: refs_below_def less_diff_conv)
  ultimately have F: "fm_wf m" "covered fm_ref (\<lambda>p. ?c p + open_count cs p) m" "length cs = length (f_handles s)"
     "\<forall>i<length (f_handles s). cs ! i = (if h_open (f_handles s ! i) then f_handles s ! i else handle_closed)"
    using fork_handles_live [of "f_fdm s" ?c "f_handles s" cs m] assms(1,3) by (auto simp: handles_live_def)
  have "covered fm_ref (\<lambda>p. others p + open_count cs p + open_count (f_handles s) p) m"
    by (rule covered_eq [OF F(2)]) simp
  then show ?thesis using F by (simp add: handles_live_def)
qed

theorem fork_shares_handles_witness:
  "\<exists>cs m. fork_handles (f_handles demo_files) (f_fdm demo_files) = (cs, m) \<and> cs ! 0 = handle_new 7 O_RDONLY 12
     \<and> handles_live (\<lambda>p. open_count cs p) (demo_files\<lparr>f_fdm := m\<rparr>)"
proof -
  obtain cs m where f: "fork_handles (f_handles demo_files) (f_fdm demo_files) = (cs, m)" by fastforce
  have "refs_below demo_files (4294967296 - length (f_handles demo_files))"
    using demo_files_fdm by (auto simp: refs_below_def demo_files_def split: if_splits)
  from fork_shares_handles [OF demo_files_live(1) this f] show ?thesis
    using f by (auto simp: demo_files_def handle_new_def)
qed

lemma close_handles_live:
  assumes "handles_live others s" "i + n = length (f_handles s)" "\<forall>j<i. \<not> h_open (f_handles s ! j)"
  shows "\<exists>t. close_handles i n s = Inr t \<and> handles_live others t \<and> length (f_handles t) = length (f_handles s)
    \<and> (\<forall>h \<in> set (f_handles t). \<not> h_open h)"
  using assms
proof (induction n arbitrary: i s)
  case 0
  then show ?case by (auto simp: in_set_conv_nth)
next
  case (Suc n)
  then have i: "i < length (f_handles s)" by simp
  show ?case
  proof (cases "h_open (f_handles s ! i)")
    case False
    then have "\<forall>j<Suc i. \<not> h_open (f_handles s ! j)" using Suc.prems(3) by (auto simp: less_Suc_eq)
    with Suc.IH [of s "Suc i"] Suc.prems False i show ?thesis by (simp add: get_handle_def)
  next
    case True
    then have "is_handle_open s (int i)" using i by (simp add: is_handle_open_def)
    from close_handle_live [OF Suc.prems(1) this] obtain t where t: "close_handle (int i) s = Inr (ENOERR, t)" "handles_live others t"
      "f_handles t = (f_handles s)[i := (f_handles s ! i)\<lparr>h_open := False, h_fd := 0\<rparr>]" by auto
    have "\<forall>j<Suc i. \<not> h_open (f_handles t ! j)" using Suc.prems(3) i t(3) by (auto simp: less_Suc_eq nth_list_update)
    with Suc.IH [OF t(2), of "Suc i"] Suc.prems(2) t True i show ?thesis by (simp add: get_handle_def)
  qed
qed

text \<open>An exiting process closes all its handles, and no handle of another process loses its description.\<close>

theorem exit_closes_all_handles:
  assumes "handles_live others s"
  shows "\<exists>t. close_all_handles s = Inr t \<and> (\<forall>h \<in> set (f_handles t). \<not> h_open h) \<and> handles_live others t"
  using close_handles_live [OF assms, of 0 "length (f_handles s)"] by (auto simp: close_all_handles_def)

theorem exit_closes_all_handles_witness:
  "\<exists>t. close_all_handles demo_files = Inr t \<and> (\<forall>h \<in> set (f_handles t). \<not> h_open h)"
  using exit_closes_all_handles [OF demo_files_live(1)] by blast

end
