(* ===== verification/Fs_Manager.thy ===== *)
theory Fs_Manager
  imports Fd_Manager Virtual_Fs Dev_Fs
begin

text \<open>
  The file system manager (\<open>kernel/src/fs/fs_manager.cpp\<close>, \<open>fs_manager.hpp\<close>): mounts, path resolution
  and the path operations behind the system calls, over the virtual methods of the class
  \<open>FileSystem\<close> (\<open>fs.hpp\<close>), a record of functions on the state \<open>'w\<close> of all file systems. The first
  argument of each is the file system the method is called on.

  A path is the list of its segments (theory \<open>Path\<close> says which path objects denote one), \<open>parent()\<close>
  is then \<open>butlast\<close>. A \<open>Mount\<close> is identified by its address; every live one is in the list \<open>mounts\<close>,
  so a pointer that is not the address of an element dangles. \<open>creds\<close> is \<open>None\<close> for a null pointer.
\<close>

subsection \<open>Error messages\<close>

definition error_messages :: "string list" where
  "error_messages = [
  ''No error'', ''Argument list too long'', ''Permission denied'', ''Address in use'',
    ''Address not available'', ''Address family not supported'',
    ''Resource unavailable, try again'', ''Connection already in progress'',
    ''Bad file descriptor'', ''Bad message'', ''Device or resource busy'', ''Operation canceled'',
    ''No child processes'', ''Connection aborted'', ''Connection refused'', ''Connection reset'',
    ''Resource deadlock would occur'', ''Destination address required'',
    ''Mathematics argument out of domain of function'', ''Reserved'', ''File exists'',
    ''Bad address'', ''File too large'', ''Host is unreachable'', ''Identifier removed'',
    ''Illegal byte sequence'', ''Operation in progress'', ''Interrupted function'',
    ''Invalid argument'', ''I/O error'', ''Socket is connected'', ''Is a directory'',
    ''Too many levels of symbolic links'', ''File descriptor value too large'', ''Too many links'',
    ''Message too large'', ''Reserved'', ''Filename too long'', ''Network is down'',
    ''Connection aborted by network'', ''Network unreachable'', ''Too many files open in system'',
    ''No buffer space available'', ''No message is available on the STREAM head read queue'',
    ''No such device'', ''No such file or directory'', ''Executable file format error'',
    ''No locks available'', ''Reserved'', ''Not enough space'', ''No message of the desired type'',
    ''Protocol not available'', ''No space left on device'', ''No STREAM resources'',
    ''Not a STREAM'', ''Functionality not supported'', ''The socket is not connected'',
    ''Not a directory'', ''Directory not empty'', ''State not recoverable'', ''Not a socket'',
    ''Not supported'', ''Inappropriate I/O control operation'', ''No such device or address'',
    ''Operation not supported on socket'', ''Value too large to be stored in data type'',
    ''Previous owner died'', ''Operation not permitted'', ''Broken pipe'', ''Protocol error'',
    ''Protocol not supported'', ''Protocol wrong type for socket'', ''Result too large'',
    ''Read-only file system'', ''Invalid seek'', ''No such process'', ''Reserved'',
    ''Stream ioctl() timeout'', ''Connection timed out'', ''Text file busy'',
    ''Operation would block'', ''Cross-device link'']"

definition get_error_message :: "usize \<Rightarrow> string result" where
  "get_error_message err = (if err = 0x80 then Inr ''Invalid file system type''
     else if err = 0xff then Inr ''General error''
     else nth_r error_messages (unat err))"

definition status_to_syscallerror :: "fs_status \<Rightarrow> u32" where
  "status_to_syscallerror st = (case st of SUCCESS \<Rightarrow> ENOERR | NO_ENTRY \<Rightarrow> ENOENT | NO_SPACE \<Rightarrow> ENOSPC
     | EXISTS \<Rightarrow> EEXIST | NOT_EMPTY \<Rightarrow> ENOTEMPTY | NOT_DIR \<Rightarrow> ENOTDIR | NOT_ALLOWED \<Rightarrow> 0xff)"

subsection \<open>File systems and mounts\<close>

record 'w fs_ops =
  fo_create_fd :: "nat \<Rightarrow> inode \<Rightarrow> 'w \<Rightarrow> (nat \<times> 'w) result"
  fo_get_open_method :: "nat \<Rightarrow> inode \<Rightarrow> 'w \<Rightarrow> open_method result"
  fo_get_root :: "nat \<Rightarrow> 'w \<Rightarrow> (fs_status \<times> inode) result"
  fo_fetch :: "nat \<Rightarrow> inode \<Rightarrow> string \<Rightarrow> 'w \<Rightarrow> (fs_status \<times> inode option) result"
  fo_create :: "nat \<Rightarrow> u32 \<Rightarrow> u16 \<Rightarrow> u16 \<Rightarrow> 'w \<Rightarrow> (fs_status \<times> inode option \<times> 'w) result"
  fo_link :: "nat \<Rightarrow> inode \<Rightarrow> inode \<Rightarrow> string \<Rightarrow> 'w \<Rightarrow> (fs_status \<times> 'w) result"
  fo_unlink :: "nat \<Rightarrow> inode \<Rightarrow> string \<Rightarrow> 'w \<Rightarrow> (fs_status \<times> 'w) result"
  fo_mkdir :: "nat \<Rightarrow> inode \<Rightarrow> u32 \<Rightarrow> u16 \<Rightarrow> u16 \<Rightarrow> string \<Rightarrow> 'w \<Rightarrow> (fs_status \<times> inode option \<times> 'w) result"
  fo_rmdir :: "nat \<Rightarrow> inode \<Rightarrow> string \<Rightarrow> 'w \<Rightarrow> (fs_status \<times> 'w) result"
  fo_getdirentcount :: "nat \<Rightarrow> inode \<Rightarrow> 'w \<Rightarrow> (fs_status \<times> u32 option) result"
  fo_getdirents :: "nat \<Rightarrow> inode \<Rightarrow> 'w \<Rightarrow> (fs_status \<times> dirent list) result"
  fo_unmount :: "nat \<Rightarrow> 'w \<Rightarrow> 'w result"
  fo_delete :: "nat \<Rightarrow> 'w \<Rightarrow> 'w result"

record mount =
  mnt_ptr :: nat
  mnt_point :: inode
  mnt_fs :: nat
  mnt_delete :: bool

record 'w fsys =
  sy_mounts :: "mount list"
  sy_root :: nat
  sy_dev_counter :: usize
  sy_dev_no :: "nat \<Rightarrow> usize"
  sy_fdm :: fdm
  sy_world :: 'w

definition mount_at :: "mount list \<Rightarrow> inode \<Rightarrow> mount option" where
  "mount_at ms i = find (\<lambda>m. inode_same (mnt_point m) i) ms"

fun mount_with_root :: "'w fs_ops \<Rightarrow> 'w \<Rightarrow> mount list \<Rightarrow> inode \<Rightarrow> mount option result" where
  "mount_with_root ops w [] i = Inr None"
| "mount_with_root ops w (m # ms) i = bindr (fo_get_root ops (mnt_fs m) w) (\<lambda>(st, root).
     if st \<noteq> SUCCESS then mount_with_root ops w ms i
     else if inode_same root i then Inr (Some m) else mount_with_root ops w ms i)"

text \<open>\<open>Inode::fetch\<close>.\<close>

definition inode_fetch :: "'w fs_ops \<Rightarrow> 'w \<Rightarrow> inode \<Rightarrow> string \<Rightarrow> (fs_status \<times> inode option) result" where
  "inode_fetch ops w dir name = (if in_fs dir = 0 then Inr (NO_ENTRY, None)
     else fo_fetch ops (in_fs dir) dir name w)"

subsection \<open>Path resolution\<close>

text \<open>A fallible operation of the manager: the error number, or the value.\<close>

type_synonym 'a sys = "(u32 + 'a) result"

definition denied :: "(credentials \<Rightarrow> inode \<Rightarrow> bool) \<Rightarrow> credentials option \<Rightarrow> inode \<Rightarrow> bool" where
  "denied may creds i \<longleftrightarrow> (case creds of None \<Rightarrow> False | Some c \<Rightarrow> \<not> may c i)"

text \<open>The directory in which a segment is looked up: for \<open>..\<close> in the root of a mounted file system the
  directory it is mounted on.\<close>

definition lookup_dir :: "'w fs_ops \<Rightarrow> 'w fsys \<Rightarrow> inode \<Rightarrow> string \<Rightarrow> inode result" where
  "lookup_dir ops s i c = (if c = ''..'' then
       bindr (mount_with_root ops (sy_world s) (sy_mounts s) i) (\<lambda>r. case r of
         Some m \<Rightarrow> Inr (if in_fs (mnt_point m) \<noteq> 0 then mnt_point m else i)
       | None \<Rightarrow> Inr i)
     else Inr i)"

text \<open>Crossing into the file system mounted on an inode, once.\<close>

definition cross_mount :: "'w fs_ops \<Rightarrow> 'w fsys \<Rightarrow> inode \<Rightarrow> inode sys" where
  "cross_mount ops s i = (case mount_at (sy_mounts s) i of None \<Rightarrow> Inr (Inr i)
     | Some m \<Rightarrow> bindr (fo_get_root ops (mnt_fs m) (sy_world s)) (\<lambda>(st, root).
         if st \<noteq> SUCCESS then Inr (Inl (status_to_syscallerror st)) else Inr (Inr root)))"

fun walk_path :: "'w fs_ops \<Rightarrow> 'w fsys \<Rightarrow> credentials option \<Rightarrow> inode \<Rightarrow> string list \<Rightarrow> inode sys" where
  "walk_path ops s creds i [] = Inr (Inr i)"
| "walk_path ops s creds i (c # cs) =
    (if \<not> S_ISDIR (in_mode i) then Inr (Inl ENOTDIR)
     else if denied may_exec creds i then Inr (Inl EACCES)
     else if length c > 255 then Inr (Inl ENAMETOOLONG)
     else bindr (lookup_dir ops s i c) (\<lambda>dir.
       bindr (inode_fetch ops (sy_world s) dir c) (\<lambda>(st, r).
         if st \<noteq> SUCCESS then Inr (Inl (status_to_syscallerror st))
         else case r of None \<Rightarrow> Inl Fault | Some child \<Rightarrow>
           bindr (cross_mount ops s child) (\<lambda>x. case x of
             Inl err \<Rightarrow> Inr (Inl err)
           | Inr i' \<Rightarrow> walk_path ops s creds i' cs))))"

definition root_mount :: "'w fsys \<Rightarrow> mount result" where
  "root_mount s = (case find (\<lambda>m. mnt_ptr m = sy_root s) (sy_mounts s) of None \<Rightarrow> Inl Fault | Some m \<Rightarrow> Inr m)"

definition get_inode :: "'w fs_ops \<Rightarrow> 'w fsys \<Rightarrow> string list \<Rightarrow> credentials option \<Rightarrow> inode sys" where
  "get_inode ops s path creds = bindr (root_mount s) (\<lambda>m.
     bindr (fo_get_root ops (mnt_fs m) (sy_world s)) (\<lambda>(st, root).
       if st \<noteq> SUCCESS then Inr (Inl (status_to_syscallerror st))
       else walk_path ops s creds root path))"

definition path_file :: "string list \<Rightarrow> string result" where
  "path_file path = (if path = [] then Inl Fault else Inr (last path))"

subsection \<open>Creating and opening files\<close>

definition with_world :: "'w \<Rightarrow> 'w fsys \<Rightarrow> 'w fsys" where
  "with_world w s = s\<lparr>sy_world := w\<rparr>"

text \<open>A status and the inode a method stored behind its out pointer: what the caller reads is undefined when
  the method succeeded without storing one.\<close>

definition out_inode :: "inode option \<Rightarrow> inode result" where
  "out_inode r = (case r of None \<Rightarrow> Inl Fault | Some i \<Rightarrow> Inr i)"

definition create_inode :: "'w fs_ops \<Rightarrow> 'w fsys \<Rightarrow> string list \<Rightarrow> u32 \<Rightarrow> credentials option
    \<Rightarrow> ((u32 + inode) \<times> 'w fsys) result" where
  "create_inode ops s path mode creds =
    bindr (get_inode ops s (butlast path) creds) (\<lambda>r. case r of Inl err \<Rightarrow> Inr (Inl err, s) | Inr parent \<Rightarrow>
    if \<not> S_ISDIR (in_mode parent) then Inr (Inl ENOTDIR, s)
    else if denied may_write creds parent then Inr (Inl EACCES, s)
    else bindr (get_inode ops s path creds) (\<lambda>r'.
      let err = (case r' of Inl e \<Rightarrow> e | Inr _ \<Rightarrow> ENOERR) in
      if err \<noteq> ENOENT then Inr (Inl (if err = ENOERR then EEXIST else err), s)
      else
        let uid = (case creds of None \<Rightarrow> 0 | Some c \<Rightarrow> cr_uid c);
            gid = (case creds of None \<Rightarrow> 0 | Some c \<Rightarrow> cr_pgid c);
            fs = in_fs parent in
        bindr (path_file path) (\<lambda>name.
        if mode AND S_IFMT = S_IFDIR then
          bindr (fo_mkdir ops fs parent mode uid gid name (sy_world s)) (\<lambda>(st, n, w).
            if st \<noteq> SUCCESS then Inr (Inl (status_to_syscallerror st), with_world w s)
            else bindr (out_inode n) (\<lambda>i. Inr (Inr i, with_world w s)))
        else
          bindr (fo_create ops fs mode uid gid (sy_world s)) (\<lambda>(st, n, w).
            if st \<noteq> SUCCESS then Inr (Inl (status_to_syscallerror st), with_world w s)
            else bindr (out_inode n) (\<lambda>i.
              bindr (fo_link ops fs parent i name w) (\<lambda>(st', w').
                if st' \<noteq> SUCCESS then Inr (Inl (status_to_syscallerror st'), with_world w' s)
                else Inr (Inr i, with_world w' s)))))))"

definition fsm_mkdir :: "'w fs_ops \<Rightarrow> 'w fsys \<Rightarrow> string list \<Rightarrow> u32 \<Rightarrow> credentials option \<Rightarrow> (u32 \<times> 'w fsys) result" where
  "fsm_mkdir ops s path mode creds =
    bindr (create_inode ops s path ((mode AND NOT S_IFMT) OR S_IFDIR) creds)
      (\<lambda>(r, s'). Inr (case r of Inl err \<Rightarrow> err | Inr _ \<Rightarrow> ENOERR, s'))"

text \<open>The part of \<open>open\<close> behind the permission checks.\<close>

definition open_inode :: "'w fs_ops \<Rightarrow> 'w fsys \<Rightarrow> inode \<Rightarrow> credentials option \<Rightarrow> ((u32 + nat) \<times> 'w fsys) result" where
  "open_inode ops s i creds =
    bindr (fm_fetch_inode_fd (in_id i) (in_fs i) (sy_fdm s)) (\<lambda>(p, m).
    if p \<noteq> 0 then Inr (Inr p, s\<lparr>sy_fdm := m\<rparr>)
    else if in_fs i = 0 then Inl Fault
    else bindr (fo_get_open_method ops (in_fs i) i (sy_world s)) (\<lambda>meth. case meth of
      NAMED_PIPE \<Rightarrow> Inr (Inl 0xff, s)
    | ERR_EXIST \<Rightarrow> Inr (Inl EEXIST, s)
    | ERR_GENERAL \<Rightarrow> Inr (Inl 0xff, s)
    | ERR_ACCESS \<Rightarrow> Inr (Inl EACCES, s)
    | USE_FILE_DESCRIPTION \<Rightarrow>
        bindr (fo_create_fd ops (in_fs i) i (sy_world s)) (\<lambda>(q, w).
          if q = 0 then Inl Fault
          else let ex = (case creds of None \<Rightarrow> True | Some c \<Rightarrow> may_exec c i) in
            Inr (Inr q, (with_world w s)\<lparr>sy_fdm := fm_save_fd q FILESYSTEM
              (fm_set_inode_iden q (in_id i) (in_fs i) ex (sy_fdm s))\<rparr>))))"

definition fsm_open :: "'w fs_ops \<Rightarrow> 'w fsys \<Rightarrow> string list \<Rightarrow> u32 \<Rightarrow> credentials option
    \<Rightarrow> ((u32 + nat) \<times> 'w fsys) result" where
  "fsm_open ops s path flags creds =
    bindr (bindr (get_inode ops s path creds) (\<lambda>r. case r of Inr i \<Rightarrow> Inr (Inr i, s)
      | Inl err \<Rightarrow> if \<not> has_flag flags O_CREAT then Inr (Inl err, s)
          else create_inode ops s path (S_IFREG OR 0x100 OR 0x080 OR 0x020 OR 0x004) creds)) (\<lambda>(r, s1).
    case r of Inl err \<Rightarrow> Inr (Inl err, s1) | Inr i \<Rightarrow>
    if (has_flag flags O_RDONLY \<or> has_flag flags O_RDWR) \<and> denied may_read creds i then Inr (Inl EACCES, s1)
    else if (has_flag flags O_WRONLY \<or> has_flag flags O_RDWR) \<and> denied may_write creds i then Inr (Inl EACCES, s1)
    else open_inode ops s1 i creds)"

subsection \<open>Links, directories, status\<close>

text \<open>These operations follow \<open>creds\<close> without testing it.\<close>

definition check_write :: "credentials option \<Rightarrow> inode \<Rightarrow> bool result" where
  "check_write creds i = (case creds of None \<Rightarrow> Inl Fault | Some c \<Rightarrow> Inr (may_write c i))"

definition on_status :: "'w fsys \<Rightarrow> fs_status \<times> 'w \<Rightarrow> (u32 \<times> 'w fsys) result" where
  "on_status s = (\<lambda>(st, w). Inr (status_to_syscallerror st, with_world w s))"

definition fsm_rmdir :: "'w fs_ops \<Rightarrow> 'w fsys \<Rightarrow> string list \<Rightarrow> credentials option \<Rightarrow> (u32 \<times> 'w fsys) result" where
  "fsm_rmdir ops s path creds =
    bindr (get_inode ops s (butlast path) creds) (\<lambda>r. case r of Inl err \<Rightarrow> Inr (err, s) | Inr parent \<Rightarrow>
    if \<not> S_ISDIR (in_mode parent) then Inr (ENOTDIR, s)
    else bindr (check_write creds parent) (\<lambda>ok. if \<not> ok then Inr (EACCES, s)
      else bindr (path_file path) (\<lambda>name.
        bindr (fo_rmdir ops (in_fs parent) parent name (sy_world s)) (on_status s))))"

definition fsm_link :: "'w fs_ops \<Rightarrow> 'w fsys \<Rightarrow> string list \<Rightarrow> string list \<Rightarrow> credentials option \<Rightarrow> (u32 \<times> 'w fsys) result" where
  "fsm_link ops s path newpath creds =
    bindr (get_inode ops s path creds) (\<lambda>r. case r of Inl err \<Rightarrow> Inr (err, s) | Inr node \<Rightarrow>
    bindr (get_inode ops s newpath creds) (\<lambda>r'.
    let err = (case r' of Inl e \<Rightarrow> e | Inr _ \<Rightarrow> ENOERR) in
    if err \<noteq> ENOENT then Inr (if err = ENOERR then EEXIST else err, s)
    else bindr (get_inode ops s (butlast newpath) creds) (\<lambda>r2. case r2 of Inl e \<Rightarrow> Inr (e, s) | Inr dir \<Rightarrow>
      if \<not> S_ISDIR (in_mode dir) then Inr (ENOTDIR, s)
      else bindr (check_write creds dir) (\<lambda>ok. if \<not> ok then Inr (EACCES, s)
        else bindr (path_file newpath) (\<lambda>name.
          bindr (fo_link ops (in_fs dir) dir node name (sy_world s)) (on_status s))))))"

definition fsm_unlink :: "'w fs_ops \<Rightarrow> 'w fsys \<Rightarrow> string list \<Rightarrow> credentials option \<Rightarrow> (u32 \<times> 'w fsys) result" where
  "fsm_unlink ops s path creds =
    bindr (get_inode ops s path creds) (\<lambda>r. case r of Inl err \<Rightarrow> Inr (err, s) | Inr _ \<Rightarrow>
    bindr (get_inode ops s (butlast path) creds) (\<lambda>r'. case r' of Inl err \<Rightarrow> Inr (err, s) | Inr dir \<Rightarrow>
    bindr (check_write creds dir) (\<lambda>ok. if \<not> ok then Inr (EACCES, s)
      else bindr (path_file path) (\<lambda>name.
        bindr (fo_unlink ops (in_fs dir) dir name (sy_world s)) (on_status s)))))"

definition open_dir :: "'w fs_ops \<Rightarrow> 'w fsys \<Rightarrow> string list \<Rightarrow> credentials option \<Rightarrow> inode sys" where
  "open_dir ops s path creds = bindr (get_inode ops s path creds) (\<lambda>r. case r of Inl err \<Rightarrow> Inr (Inl err) | Inr dir \<Rightarrow>
     if \<not> S_ISDIR (in_mode dir) then Inr (Inl ENOTDIR)
     else if denied may_read creds dir then Inr (Inl EACCES) else Inr (Inr dir))"

definition fsm_getdirentcount :: "'w fs_ops \<Rightarrow> 'w fsys \<Rightarrow> string list \<Rightarrow> credentials option \<Rightarrow> (u32 \<times> u32 option) result" where
  "fsm_getdirentcount ops s path creds = bindr (open_dir ops s path creds) (\<lambda>r. case r of Inl err \<Rightarrow> Inr (err, None)
     | Inr dir \<Rightarrow> bindr (fo_getdirentcount ops (in_fs dir) dir (sy_world s)) (\<lambda>(st, n). Inr (status_to_syscallerror st, n)))"

definition fsm_getdirents :: "'w fs_ops \<Rightarrow> 'w fsys \<Rightarrow> string list \<Rightarrow> credentials option \<Rightarrow> (u32 \<times> dirent list) result" where
  "fsm_getdirents ops s path creds = bindr (open_dir ops s path creds) (\<lambda>r. case r of Inl err \<Rightarrow> Inr (err, [])
     | Inr dir \<Rightarrow> bindr (fo_getdirents ops (in_fs dir) dir (sy_world s)) (\<lambda>(st, es). Inr (status_to_syscallerror st, es)))"

record fsstat =
  st_dev :: usize
  st_ino :: usize
  st_mode :: usize
  st_nlink :: usize
  st_uid :: u16
  st_gid :: u16
  st_rdev :: usize
  st_size :: usize
  st_blksize :: usize
  st_blocks :: usize

definition fsm_stat :: "'w fs_ops \<Rightarrow> 'w fsys \<Rightarrow> string list \<Rightarrow> credentials option \<Rightarrow> fsstat sys" where
  "fsm_stat ops s path creds = bindr (get_inode ops s path creds) (\<lambda>r. case r of Inl err \<Rightarrow> Inr (Inl err)
     | Inr i \<Rightarrow> if in_fs i = 0 then Inl Fault else Inr (Inr \<lparr>st_dev = sy_dev_no s (in_fs i), st_ino = in_id i, st_mode = in_mode i,
         st_nlink = in_links i, st_uid = in_uid i, st_gid = in_gid i, st_rdev = 0, st_size = ucast (in_size i),
         st_blksize = 0, st_blocks = 0\<rparr>))"

subsection \<open>Mounting\<close>

definition null_inode :: inode where
  "null_inode = inode_zero"

definition add_mount :: "nat \<Rightarrow> inode \<Rightarrow> nat \<Rightarrow> bool \<Rightarrow> 'w fsys \<Rightarrow> 'w fsys" where
  "add_mount p dir fs del s = s\<lparr>sy_dev_no := (sy_dev_no s)(fs := sy_dev_counter s),
     sy_dev_counter := sy_dev_counter s + 1,
     sy_mounts := sy_mounts s @ [\<lparr>mnt_ptr = p, mnt_point = dir, mnt_fs = fs, mnt_delete = del\<rparr>]\<rparr>"

text \<open>\<open>p\<close> is the address of the new \<open>Mount\<close>.\<close>

definition fsm_mount :: "'w fs_ops \<Rightarrow> nat \<Rightarrow> 'w fsys \<Rightarrow> string list \<Rightarrow> nat \<Rightarrow> bool \<Rightarrow> (u32 \<times> 'w fsys) result" where
  "fsm_mount ops p s path fs del =
    bindr (if path = [] then Inr (Inr null_inode)
      else bindr (get_inode ops s path None) (\<lambda>r. case r of Inl err \<Rightarrow> Inr (Inl err)
        | Inr dir \<Rightarrow> Inr (if \<not> S_ISDIR (in_mode dir) then Inl ENOTDIR else Inr dir))) (\<lambda>r.
    case r of Inl err \<Rightarrow> Inr (err, s) | Inr dir \<Rightarrow>
    if mount_at (sy_mounts s) dir \<noteq> None then Inr (EEXIST, s)
    else let s1 = add_mount p dir fs del s in
      Inr (ENOERR, if path = [] then s1\<lparr>sy_root := p\<rparr> else s1))"

text \<open>Mounting a file system found on a block device; \<open>fs\<close> is what \<open>create_fs_from_fd\<close> returned for it.\<close>

definition fsm_mount_fd :: "'w fs_ops \<Rightarrow> nat \<Rightarrow> 'w fsys \<Rightarrow> string list \<Rightarrow> nat \<Rightarrow> (u32 \<times> 'w fsys) result" where
  "fsm_mount_fd ops p s path fs = (if fs = 0 then Inr (EINVFS, s)
     else bindr (fsm_mount ops p s path fs True) (\<lambda>(err, s1).
       if err \<noteq> ENOERR then bindr (fo_unmount ops fs (sy_world s1)) (\<lambda>w.
         bindr (fo_delete ops fs w) (\<lambda>w'. Inr (err, with_world w' s1)))
       else Inr (ENOERR, s1)))"

definition fsm_unmount :: "'w fs_ops \<Rightarrow> 'w fsys \<Rightarrow> string list \<Rightarrow> bool \<Rightarrow> (u32 \<times> 'w fsys) result" where
  "fsm_unmount ops s path force =
    bindr (get_inode ops s path None) (\<lambda>r. case r of Inl err \<Rightarrow> Inr (err, s) | Inr dir \<Rightarrow>
    bindr (mount_with_root ops (sy_world s) (sy_mounts s) dir) (\<lambda>m. case m of None \<Rightarrow> Inr (ENOENT, s) | Some m \<Rightarrow>
    bindr (if force then Inr False
      else if \<exists>n \<in> set (sy_mounts s). in_fs (mnt_point n) = mnt_fs m then Inr True
      else fm_is_filesystem_busy (mnt_fs m) (sy_fdm s)) (\<lambda>busy.
    if busy then Inr (EBUSY, s)
    else bindr (fo_unmount ops (mnt_fs m) (sy_world s)) (\<lambda>w.
      bindr (if mnt_delete m then fo_delete ops (mnt_fs m) w else Inr w) (\<lambda>w'.
        Inr (ENOERR, (with_world w' s)\<lparr>sy_mounts := remove1 m (sy_mounts s)\<rparr>))))))"

text \<open>\<open>init_internal\<close>: the temporary file system \<open>fs\<close> becomes the root mount \<open>p\<close>.\<close>

definition fsm_init :: "nat \<Rightarrow> nat \<Rightarrow> 'w \<Rightarrow> 'w fsys" where
  "fsm_init p fs w = (add_mount p null_inode fs False
     \<lparr>sy_mounts = [], sy_root = 0, sy_dev_counter = 0, sy_dev_no = (\<lambda>_. 0), sy_fdm = fdm_empty, sy_world = w\<rparr>)\<lparr>sy_root := p\<rparr>"

end
