(* ===== verification/Fs_World.thy ===== *)
theory Fs_World
  imports Fs_Manager
begin

text \<open>
  The virtual and the device file system behind the interface of \<open>FileSystem\<close>: virtual dispatch to
  \<open>VirtualFs\<close> and \<open>DevFileSystem\<close> by the address of the object (\<open>fs.hpp\<close>, \<open>virtualfs.hpp\<close>, \<open>devfs.hpp\<close>). The methods of
  \<open>Ext2FileSystem\<close> are in Ext2_Fs and are not among the instances here.
  \<open>size_of\<close> gives the size of a device. What a method stores in an inode that the caller left
  uninitialised is taken to be zero where the method does not write it.
\<close>

datatype fs_inst = FVirtual vfs | FDev devfs

type_synonym fs_world = "nat \<Rightarrow> fs_inst option"

definition on_fs :: "fs_world \<Rightarrow> nat \<Rightarrow> (vfs \<Rightarrow> 'a result) \<Rightarrow> (devfs \<Rightarrow> 'a result) \<Rightarrow> 'a result" where
  "on_fs w fs f g = (case w fs of None \<Rightarrow> Inl Fault | Some (FVirtual v) \<Rightarrow> f v | Some (FDev d) \<Rightarrow> g d)"

definition put_vfs :: "fs_world \<Rightarrow> nat \<Rightarrow> vfs \<Rightarrow> fs_world" where
  "put_vfs w fs v = w(fs \<mapsto> FVirtual v)"

definition kernel_ops :: "(nat \<Rightarrow> u64) \<Rightarrow> fs_world fs_ops" where
  "kernel_ops size_of = \<lparr>
     fo_create_fd = (\<lambda>fs i w. on_fs w fs (\<lambda>v. Inr (0, w)) (\<lambda>d. Inr (df_create_fd d i, w))),
     fo_get_open_method = (\<lambda>fs i w. on_fs w fs (\<lambda>v. Inr (vf_get_open_method v i)) (\<lambda>d. Inr (df_get_open_method d i))),
     fo_get_root = (\<lambda>fs w. on_fs w fs vf_get_root (\<lambda>d. Inr (df_get_root d inode_zero))),
     fo_fetch = (\<lambda>fs i c w. on_fs w fs (\<lambda>v. vf_fetch v i c)
       (\<lambda>d. let (st, j) = df_fetch size_of d i inode_zero c in Inr (st, Some j))),
     fo_create = (\<lambda>fs mode uid gid w. on_fs w fs
       (\<lambda>v. bindr (vf_create v mode uid gid) (\<lambda>(st, i, v'). Inr (st, Some i, put_vfs w fs v')))
       (\<lambda>d. Inr (df_create d mode uid gid, None, w))),
     fo_link = (\<lambda>fs dir node c w. on_fs w fs
       (\<lambda>v. bindr (vf_link v dir node c) (\<lambda>(st, v'). Inr (st, put_vfs w fs v')))
       (\<lambda>d. Inr (df_link d dir node c, w))),
     fo_unlink = (\<lambda>fs dir c w. on_fs w fs
       (\<lambda>v. bindr (vf_unlink v dir c) (\<lambda>(st, v'). Inr (st, put_vfs w fs v')))
       (\<lambda>d. Inr (df_unlink d dir c, w))),
     fo_mkdir = (\<lambda>fs parent mode uid gid c w. on_fs w fs
       (\<lambda>v. bindr (vf_mkdir v parent mode uid gid c) (\<lambda>(st, i, v'). Inr (st, i, put_vfs w fs v')))
       (\<lambda>d. Inr (df_mkdir d parent mode uid gid c, None, w))),
     fo_rmdir = (\<lambda>fs parent c w. on_fs w fs (\<lambda>v. Inr (vf_rmdir v parent c, w)) (\<lambda>d. Inr (df_rmdir d parent c, w))),
     fo_getdirentcount = (\<lambda>fs dir w. on_fs w fs
       (\<lambda>v. bindr (vf_getdirentcount v dir) (\<lambda>(st, n). Inr (st, Some n))) (\<lambda>d. Inr (df_getdirentcount d dir))),
     fo_getdirents = (\<lambda>fs dir w. on_fs w fs (\<lambda>v. vf_getdirents v dir) (\<lambda>d. df_getdirents size_of d dir)),
     fo_unmount = (\<lambda>fs w. on_fs w fs (\<lambda>v. Inr w) (\<lambda>d. Inr w)),
     fo_delete = (\<lambda>fs w. on_fs w fs (\<lambda>v. Inr (w(fs := None))) (\<lambda>d. Inr (w(fs := None))))\<rparr>"

end
