(* ===== verification/Fs_Paths.thy ===== *)
theory Fs_Paths
  imports Fs_World
begin

text \<open>
  What path resolution and the operations of the file system manager promise: resolution against a
  relational specification that records the directories on the way, the interface that any set of
  file systems offers the manager, with the file systems of the kernel as its instance, and the
  properties of \<open>open\<close>, \<open>create_inode\<close>, \<open>mount\<close> and \<open>unmount\<close>.
\<close>

subsection \<open>Resolution as a relation\<close>

text \<open>\<open>resolves ops s i cs ds j\<close>: following the segments \<open>cs\<close> from \<open>i\<close> leads to \<open>j\<close> through the
  directories \<open>ds\<close>, mounts crossed.\<close>

inductive resolves :: "'w fs_ops \<Rightarrow> 'w fsys \<Rightarrow> inode \<Rightarrow> string list \<Rightarrow> inode list \<Rightarrow> inode \<Rightarrow> bool"
  for ops s where
  here: "resolves ops s i [] [] i"
| step: "\<lbrakk>length c \<le> 255; lookup_dir ops s i c = Inr dir; inode_fetch ops (sy_world s) dir c = Inr (SUCCESS, Some child);
    cross_mount ops s child = Inr (Inr k); resolves ops s k cs ds j\<rbrakk> \<Longrightarrow> resolves ops s i (c # cs) (i # ds) j"

inductive_simps resolves_simps: "resolves ops s i [] ds j" "resolves ops s i (c # cs) ds j"

lemma resolves_length: "resolves ops s i cs ds j \<Longrightarrow> length ds = length cs"
  by (induction rule: resolves.induct) auto

definition passable :: "credentials option \<Rightarrow> inode \<Rightarrow> bool" where
  "passable creds d \<longleftrightarrow> S_ISDIR (in_mode d) \<and> \<not> denied may_exec creds d"

lemma sum_case_Inr:
  "(case x of Inl e \<Rightarrow> Inr (Inl e) | Inr y \<Rightarrow> f y) = Inr (Inr z) \<longleftrightarrow> (\<exists>y. x = Inr y \<and> f y = Inr (Inr z))"
  by (cases x) auto

lemma walk_path_resolves:
  "walk_path ops s creds i cs = Inr (Inr j) \<Longrightarrow> \<exists>ds. resolves ops s i cs ds j \<and> (\<forall>d \<in> set ds. passable creds d)"
proof (induction cs arbitrary: i)
  case Nil
  then show ?case by (auto intro: resolves.here)
next
  case (Cons c cs)
  from Cons.prems obtain dir child k where a: "S_ISDIR (in_mode i)" "\<not> denied may_exec creds i" "length c \<le> 255"
    "lookup_dir ops s i c = Inr dir" "inode_fetch ops (sy_world s) dir c = Inr (SUCCESS, Some child)"
    "cross_mount ops s child = Inr (Inr k)" "walk_path ops s creds k cs = Inr (Inr j)"
    by (auto simp: bindr_Inr_iff sum_case_Inr split: if_split_asm option.split_asm)
  from Cons.IH [OF a(7)] obtain ds where "resolves ops s k cs ds j" "\<forall>d \<in> set ds. passable creds d" by blast
  then have "resolves ops s i (c # cs) (i # ds) j" "\<forall>d \<in> set (i # ds). passable creds d"
    using a by (auto intro: resolves.step simp: passable_def)
  then show ?case by blast
qed

lemma resolves_walk_path:
  "resolves ops s i cs ds j \<Longrightarrow> \<forall>d \<in> set ds. passable creds d \<Longrightarrow> walk_path ops s creds i cs = Inr (Inr j)"
  by (induction rule: resolves.induct) (auto simp: passable_def)

text \<open>C36: Resolving a path for a process yields an inode exactly when the path leads to it, segment by segment
  and across mounts, and every directory on the way, the root included, is a directory the process
  may search.\<close>

theorem resolution_checks_every_directory:
  assumes "root_mount s = Inr m" "fo_get_root ops (mnt_fs m) (sy_world s) = Inr (SUCCESS, root)"
  shows "get_inode ops s path creds = Inr (Inr i) \<longleftrightarrow>
    (\<exists>ds. resolves ops s root path ds i \<and> (\<forall>d \<in> set ds. S_ISDIR (in_mode d) \<and>
       (case creds of None \<Rightarrow> True | Some c \<Rightarrow> may_exec c d)))"
proof -
  have "passable creds d \<longleftrightarrow> S_ISDIR (in_mode d) \<and> (case creds of None \<Rightarrow> True | Some c \<Rightarrow> may_exec c d)" for d
    by (simp add: passable_def denied_def split: option.splits)
  moreover have "get_inode ops s path creds = walk_path ops s creds root path" using assms by (simp add: get_inode_def)
  ultimately show ?thesis
    using walk_path_resolves [of ops s creds root path i] resolves_walk_path [of ops s root path _ i creds] by auto
qed

subsection \<open>The interface of a file system\<close>

text \<open>A usable state: the root mount is there, and all mounts are of known file systems on good inodes, or
  on the null inode.\<close>

definition mounts_ok :: "('w \<Rightarrow> bool) \<Rightarrow> ('w \<Rightarrow> nat \<Rightarrow> bool) \<Rightarrow> ('w \<Rightarrow> inode \<Rightarrow> bool) \<Rightarrow> 'w fsys \<Rightarrow> bool" where
  "mounts_ok ok known good s \<longleftrightarrow> ok (sy_world s) \<and> (\<exists>m \<in> set (sy_mounts s). mnt_ptr m = sy_root s)
     \<and> (\<forall>m \<in> set (sy_mounts s). known (sy_world s) (mnt_fs m)
         \<and> (in_fs (mnt_point m) \<noteq> 0 \<longrightarrow> good (sy_world s) (mnt_point m)))"

text \<open>What the manager relies on: on an inode that refers into a known file system every method returns,
  inodes found or made refer into the file system they came from, and inodes already held stay good.\<close>

locale file_systems =
  fixes ops :: "'w fs_ops"
    and inv :: "'w \<Rightarrow> bool"
    and known :: "'w \<Rightarrow> nat \<Rightarrow> bool"
    and good :: "'w \<Rightarrow> inode \<Rightarrow> bool"
    and name_ok :: "string \<Rightarrow> bool"
    and room :: "'w \<Rightarrow> nat \<Rightarrow> bool"
  assumes good_known: "\<lbrakk>inv w; good w i\<rbrakk> \<Longrightarrow> in_fs i \<noteq> 0 \<and> known w (in_fs i)"
    and root_ok: "\<lbrakk>inv w; known w fs\<rbrakk> \<Longrightarrow> \<exists>i. fo_get_root ops fs w = Inr (SUCCESS, i) \<and> good w i \<and> in_fs i = fs"
    and fetch_ok: "\<lbrakk>inv w; good w i\<rbrakk> \<Longrightarrow> \<exists>st r. fo_fetch ops (in_fs i) i c w = Inr (st, r)
      \<and> (st = SUCCESS \<longrightarrow> (\<exists>j. r = Some j \<and> good w j \<and> in_fs j = in_fs i))"
    and create_ok: "\<lbrakk>inv w; known w fs; room w fs\<rbrakk> \<Longrightarrow> \<exists>st r w'. fo_create ops fs mode uid gid w = Inr (st, r, w') \<and> inv w'
      \<and> known w' = known w \<and> (\<forall>i. good w i \<longrightarrow> good w' i)
      \<and> (st = SUCCESS \<longrightarrow> (\<exists>i. r = Some i \<and> good w' i \<and> in_fs i = fs))"
    and link_ok: "\<lbrakk>inv w; good w d; good w n; in_fs n = in_fs d; name_ok c\<rbrakk> \<Longrightarrow> \<exists>st w'. fo_link ops (in_fs d) d n c w = Inr (st, w')
      \<and> inv w' \<and> known w' = known w \<and> (\<forall>i. good w i \<longrightarrow> good w' i)"
    and unlink_ok: "\<lbrakk>inv w; good w d\<rbrakk> \<Longrightarrow> \<exists>st w'. fo_unlink ops (in_fs d) d c w = Inr (st, w')
      \<and> inv w' \<and> known w' = known w \<and> (\<forall>i. good w i \<longrightarrow> good w' i)"
    and mkdir_ok: "\<lbrakk>inv w; good w d; room w (in_fs d); name_ok c\<rbrakk> \<Longrightarrow> \<exists>st r w'. fo_mkdir ops (in_fs d) d mode uid gid c w = Inr (st, r, w')
      \<and> inv w' \<and> known w' = known w \<and> (\<forall>i. good w i \<longrightarrow> good w' i)
      \<and> (st = SUCCESS \<longrightarrow> (\<exists>i. r = Some i \<and> good w' i \<and> in_fs i = in_fs d))"
begin

abbreviation sound :: "'w fsys \<Rightarrow> bool" where
  "sound \<equiv> mounts_ok inv known good"

lemma mount_with_root_ok:
  assumes "inv w" "\<forall>m \<in> set ms. known w (mnt_fs m)"
  shows "\<exists>r. mount_with_root ops w ms i = Inr r \<and> (\<forall>m. r = Some m \<longrightarrow> m \<in> set ms)"
  using assms(2)
proof (induction ms)
  case (Cons m ms)
  then have "known w (mnt_fs m)" by simp
  from root_ok [OF assms(1) this] obtain j where "fo_get_root ops (mnt_fs m) w = Inr (SUCCESS, j)" by blast
  then show ?case using Cons by (cases "inode_same j i") auto
qed simp

lemma lookup_dir_ok:
  assumes "sound s" "good (sy_world s) i"
  shows "\<exists>d. lookup_dir ops s i c = Inr d \<and> good (sy_world s) d"
proof (cases "c = ''..''")
  case True
  have "\<forall>m \<in> set (sy_mounts s). known (sy_world s) (mnt_fs m)" using assms(1) by (simp add: mounts_ok_def)
  from mount_with_root_ok [OF _ this, of i] assms(1) obtain r where
    r: "mount_with_root ops (sy_world s) (sy_mounts s) i = Inr r" "\<forall>m. r = Some m \<longrightarrow> m \<in> set (sy_mounts s)"
    by (auto simp: mounts_ok_def)
  then show ?thesis using True assms by (cases r) (auto simp: lookup_dir_def mounts_ok_def)
qed (use assms in \<open>simp add: lookup_dir_def\<close>)

lemma cross_mount_ok:
  assumes "sound s" "good (sy_world s) i"
  shows "\<exists>k. cross_mount ops s i = Inr (Inr k) \<and> good (sy_world s) k"
proof (cases "mount_at (sy_mounts s) i")
  case None
  then show ?thesis using assms(2) by (simp add: cross_mount_def)
next
  case (Some m)
  then have "m \<in> set (sy_mounts s)" by (auto simp: mount_at_def find_Some_iff)
  then have "known (sy_world s) (mnt_fs m)" "inv (sy_world s)" using assms(1) by (auto simp: mounts_ok_def)
  from root_ok [OF this(2,1)] show ?thesis using Some by (auto simp: cross_mount_def)
qed

lemma walk_path_ok:
  assumes "sound s" "good (sy_world s) i"
  shows "\<exists>x. walk_path ops s creds i cs = Inr x \<and> (\<forall>j. x = Inr j \<longrightarrow> good (sy_world s) j)"
  using assms(2)
proof (induction cs arbitrary: i)
  case (Cons c cs)
  from lookup_dir_ok [OF assms(1) Cons.prems] obtain d where d: "lookup_dir ops s i c = Inr d" "good (sy_world s) d" by blast
  have iv: "inv (sy_world s)" using assms(1) by (simp add: mounts_ok_def)
  from fetch_ok [OF iv d(2), of c] good_known [OF iv d(2)] obtain st r where
    f: "inode_fetch ops (sy_world s) d c = Inr (st, r)" "st = SUCCESS \<longrightarrow> (\<exists>j. r = Some j \<and> good (sy_world s) j)"
    by (auto simp: inode_fetch_def)
  show ?case
  proof (cases "st = SUCCESS")
    case True
    with f obtain j where j: "r = Some j" "good (sy_world s) j" by blast
    from cross_mount_ok [OF assms(1) j(2)] obtain k where k: "cross_mount ops s j = Inr (Inr k)" "good (sy_world s) k" by blast
    from Cons.IH [OF k(2)] show ?thesis using d f True j k by auto
  qed (use d f in auto)
qed simp

lemma get_inode_ok:
  assumes "sound s"
  shows "\<exists>x. get_inode ops s path creds = Inr x \<and> (\<forall>j. x = Inr j \<longrightarrow> good (sy_world s) j)"
proof -
  obtain m where m: "find (\<lambda>m. mnt_ptr m = sy_root s) (sy_mounts s) = Some m"
    using assms by (cases "find (\<lambda>m. mnt_ptr m = sy_root s) (sy_mounts s)") (auto simp: mounts_ok_def find_None_iff)
  then have "m \<in> set (sy_mounts s)" by (auto simp: find_Some_iff)
  then have "known (sy_world s) (mnt_fs m)" "inv (sy_world s)" using assms by (auto simp: mounts_ok_def)
  from root_ok [OF this(2,1)] obtain i where "fo_get_root ops (mnt_fs m) (sy_world s) = Inr (SUCCESS, i)" "good (sy_world s) i" by blast
  then show ?thesis using walk_path_ok [OF assms, of i creds path] m by (simp add: get_inode_def root_mount_def)
qed

lemma mounts_ok_world:
  assumes "sound s" "inv w'" "known w' = known (sy_world s)" "\<forall>i. good (sy_world s) i \<longrightarrow> good w' i"
  shows "sound (with_world w' s)"
  using assms by (auto simp: mounts_ok_def with_world_def)

lemma create_inode_ok:
  assumes "sound s" "\<forall>fs. room (sy_world s) fs" "path \<noteq> [] \<longrightarrow> name_ok (last path)"
  shows "\<exists>x s'. create_inode ops s path mode creds = Inr (x, s') \<and> sound s' \<and> (\<forall>j. x = Inr j \<longrightarrow> good (sy_world s') j)"
proof -
  have iv: "inv (sy_world s)" using assms(1) by (simp add: mounts_ok_def)
  obtain x where x: "get_inode ops s (butlast path) creds = Inr x" "\<forall>j. x = Inr j \<longrightarrow> good (sy_world s) j"
    using get_inode_ok [OF assms(1)] by blast
  show ?thesis
  proof (cases x)
    case (Inl e)
    then show ?thesis using x assms(1) by (simp add: create_inode_def)
  next
    case (Inr d)
    then have d: "good (sy_world s) d" using x by simp
    let ?uid = "case creds of None \<Rightarrow> 0 | Some c \<Rightarrow> cr_uid c" and ?gid = "case creds of None \<Rightarrow> 0 | Some c \<Rightarrow> cr_pgid c"
    obtain y where y: "get_inode ops s path creds = Inr y" using get_inode_ok [OF assms(1)] by blast
    define err where "err = (case y of Inl e \<Rightarrow> e | Inr _ \<Rightarrow> ENOERR)"
    consider "\<not> S_ISDIR (in_mode d)" | "S_ISDIR (in_mode d)" "denied may_write creds d"
      | "S_ISDIR (in_mode d)" "\<not> denied may_write creds d" "err \<noteq> ENOENT"
      | "S_ISDIR (in_mode d)" "\<not> denied may_write creds d" "err = ENOENT" by blast
    then show ?thesis
    proof cases
      case 4
      have ne: "path \<noteq> []" using x(1) y 4(3) Inr by (cases path) (auto simp: err_def errno_defs)
      have nm: "path_file path = Inr (last path)" "name_ok (last path)" using ne assms(3) by (simp_all add: path_file_def)
      have kn: "known (sy_world s) (in_fs d)" using good_known [OF iv d] by blast
      show ?thesis
      proof (cases "mode AND S_IFMT = S_IFDIR")
        case True
        from mkdir_ok [OF iv d _ nm(2), of mode ?uid ?gid] assms(2) obtain st r w' where
          w: "fo_mkdir ops (in_fs d) d mode ?uid ?gid (last path) (sy_world s) = Inr (st, r, w')" "inv w'"
          "known w' = known (sy_world s)" "\<forall>i. good (sy_world s) i \<longrightarrow> good w' i"
          "st = SUCCESS \<longrightarrow> (\<exists>i. r = Some i \<and> good w' i \<and> in_fs i = in_fs d)" by metis
        show ?thesis using x y Inr 4 nm(1) True w mounts_ok_world [OF assms(1) w(2-4)]
          by (auto simp: create_inode_def err_def [symmetric] out_inode_def with_world_def)
      next
        case False
        from create_ok [OF iv kn, of mode ?uid ?gid] assms(2) obtain st r w' where
          w: "fo_create ops (in_fs d) mode ?uid ?gid (sy_world s) = Inr (st, r, w')" "inv w'"
          "known w' = known (sy_world s)" "\<forall>i. good (sy_world s) i \<longrightarrow> good w' i"
          "st = SUCCESS \<longrightarrow> (\<exists>i. r = Some i \<and> good w' i \<and> in_fs i = in_fs d)" by metis
        show ?thesis
        proof (cases "st = SUCCESS")
          case True
          with w(5) obtain i where i: "r = Some i" "good w' i" "in_fs i = in_fs d" by blast
          from link_ok [OF w(2) _ i(2,3) nm(2)] w(4) d obtain st' w'' where
            v: "fo_link ops (in_fs d) d i (last path) w' = Inr (st', w'')" "inv w''" "known w'' = known w'"
            "\<forall>i. good w' i \<longrightarrow> good w'' i" by blast
          have "sound (with_world w'' s)" using mounts_ok_world [OF assms(1) v(2)] v(3,4) w(3,4) by simp
          then show ?thesis using x y Inr 4 nm(1) False w(1) True i v
            by (auto simp: create_inode_def err_def [symmetric] out_inode_def with_world_def)
        next
          case False
          then show ?thesis using x y Inr 4 nm(1) \<open>mode AND S_IFMT \<noteq> S_IFDIR\<close> w(1) mounts_ok_world [OF assms(1) w(2-4)]
            by (auto simp: create_inode_def err_def [symmetric])
        qed
      qed
    qed (use x y Inr assms(1) in \<open>auto simp: create_inode_def err_def Let_def\<close>)
  qed
qed

end

subsection \<open>The kernel's file systems\<close>

definition inst_ok :: "nat \<Rightarrow> fs_inst \<Rightarrow> bool" where
  "inst_ok fs x \<longleftrightarrow> fs \<noteq> 0 \<and> (case x of FVirtual v \<Rightarrow> vf_wf v \<and> vf_self v = fs | FDev d \<Rightarrow> df_self d = fs)"

definition world_ok :: "fs_world \<Rightarrow> bool" where
  "world_ok w \<longleftrightarrow> (\<forall>fs x. w fs = Some x \<longrightarrow> inst_ok fs x)"

text \<open>An inode that exists: one of the virtual file system, or the directory or a registered device of the device file system.\<close>

definition inode_ok :: "fs_world \<Rightarrow> inode \<Rightarrow> bool" where
  "inode_ok w i \<longleftrightarrow> (case w (in_fs i) of None \<Rightarrow> False | Some (FVirtual v) \<Rightarrow> vf_valid v (in_id i) 
     | Some (FDev d) \<Rightarrow> in_id i = 1 \<or> (\<exists>x \<in> set (df_devices d). di_id x = in_id i))"

definition fs_known :: "fs_world \<Rightarrow> nat \<Rightarrow> bool" where
  "fs_known w fs \<longleftrightarrow> w fs \<noteq> None"

definition fs_room :: "fs_world \<Rightarrow> nat \<Rightarrow> bool" where
  "fs_room w fs \<longleftrightarrow> (case w fs of Some (FVirtual v) \<Rightarrow> length (vf_inodes v) + 1 < 4294967296 | _ \<Rightarrow> True)"

definition short_name :: "string \<Rightarrow> bool" where
  "short_name c \<longleftrightarrow> length c \<le> 127"

lemma fs_cases:
  assumes "world_ok w" "fs_known w fs"
  obtains v where "w fs = Some (FVirtual v)" "vf_wf v" "vf_self v = fs" "fs \<noteq> 0"
  | d where "w fs = Some (FDev d)" "df_self d = fs" "fs \<noteq> 0"
proof -
  obtain x where x: "w fs = Some x" "inst_ok fs x" using assms by (auto simp: world_ok_def fs_known_def)
  then show thesis using that by (cases x) (auto simp: inst_ok_def)
qed

lemma inode_ok_known: "inode_ok w i \<Longrightarrow> fs_known w (in_fs i)"
  by (auto simp: inode_ok_def fs_known_def split: option.splits)

text \<open>Replacing a virtual file system by a later state of it.\<close>

lemma put_vfs_ok:
  assumes "world_ok w" "w fs = Some (FVirtual v)" "vf_wf v'" "vf_self v' = fs" "\<And>i. vf_valid v i \<Longrightarrow> vf_valid v' i"
  shows "world_ok (put_vfs w fs v') \<and> fs_known (put_vfs w fs v') = fs_known w \<and> (\<forall>i. inode_ok w i \<longrightarrow> inode_ok (put_vfs w fs v') i)"
proof -
  have "fs \<noteq> 0" using assms(1,2) by (auto simp: world_ok_def inst_ok_def)
  then show ?thesis using assms
    by (auto simp: world_ok_def put_vfs_def fs_known_def inode_ok_def inst_ok_def fun_eq_iff split: option.splits fs_inst.splits)
qed

lemma vf_wf_root: "vf_wf v \<Longrightarrow> vf_valid v 1"
  by (simp add: vf_wf_def vf_valid_def)

lemma vf_fetch_ok:
  assumes "vf_wf v" "vf_valid v (in_id i)"
  shows "\<exists>st r. vf_fetch v i c = Inr (st, r) \<and> (st = SUCCESS \<longrightarrow> (\<exists>j. r = Some j \<and> vf_valid v (in_id j) \<and> in_fs j = vf_self v))"
proof (cases "find (\<lambda>e. ve_name e = c) (vi_entries (vf_inodes v ! unat (in_id i)))")
  case None
  then show ?thesis using assms(2) by (simp add: vf_fetch_def vf_at_valid)
next
  case (Some e)
  then have "e \<in> set (vi_entries (vf_inodes v ! unat (in_id i)))" by (auto simp: find_Some_iff)
  with vf_wf_entry [OF assms(1)] assms(2) have e: "vf_valid v (ve_id e)" by (auto simp: vf_valid_def)
  then show ?thesis using Some assms vf_wf_inode [OF assms(1) e] by (simp add: vf_fetch_def vf_at_valid)
qed

lemma inode_ok_virtual: "w (in_fs i) = Some (FVirtual v) \<Longrightarrow> inode_ok w i \<longleftrightarrow> vf_valid v (in_id i)"
  and inode_ok_dev: "w (in_fs i) = Some (FDev d) \<Longrightarrow> inode_ok w i \<longleftrightarrow> in_id i = 1 \<or> (\<exists>x \<in> set (df_devices d). di_id x = in_id i)"
  by (simp_all add: inode_ok_def)

lemmas op_defs = kernel_ops_def on_fs_def df_create_def df_link_def df_unlink_def df_mkdir_def

lemma kernel_root_ok:
  assumes "world_ok w" "fs_known w fs"
  shows "\<exists>i. fo_get_root (kernel_ops z) fs w = Inr (SUCCESS, i) \<and> inode_ok w i \<and> in_fs i = fs"
proof (cases rule: fs_cases [OF assms])
  case (1 v)
  then have v: "vf_valid v 1" by (simp add: vf_wf_root)
  then show ?thesis using 1 vf_wf_inode [OF 1(2) v] by (simp add: op_defs vf_get_root_def vf_at_valid inode_ok_virtual)
next
  case (2 d)
  then show ?thesis by (simp add: op_defs df_get_root_def inode_ok_dev)
qed

lemma kernel_fetch_ok:
  assumes "world_ok w" "inode_ok w i"
  shows "\<exists>st r. fo_fetch (kernel_ops z) (in_fs i) i c w = Inr (st, r)
      \<and> (st = SUCCESS \<longrightarrow> (\<exists>j. r = Some j \<and> inode_ok w j \<and> in_fs j = in_fs i))"
proof (cases rule: fs_cases [OF assms(1) inode_ok_known [OF assms(2)]])
  case (1 v)
  then have "vf_valid v (in_id i)" using assms(2) by (simp add: inode_ok_virtual)
  from vf_fetch_ok [OF 1(2) this, of c] 1 show ?thesis by (fastforce simp: op_defs inode_ok_virtual)
next
  case (2 d)
  then show ?thesis
    by (auto simp: op_defs df_fetch_def df_get_root_def di_to_inode_def inode_ok_dev df_get_device_with_name_def find_Some_iff split: option.splits)
qed

lemma kernel_create_ok:
  assumes "world_ok w" "fs_known w fs" "fs_room w fs"
  shows "\<exists>st r w'. fo_create (kernel_ops z) fs mode uid gid w = Inr (st, r, w') \<and> world_ok w'
      \<and> fs_known w' = fs_known w \<and> (\<forall>i. inode_ok w i \<longrightarrow> inode_ok w' i)
      \<and> (st = SUCCESS \<longrightarrow> (\<exists>i. r = Some i \<and> inode_ok w' i \<and> in_fs i = fs))"
proof (cases rule: fs_cases [OF assms(1,2)])
  case (1 v)
  then have room: "length (vf_inodes v) + 1 < 4294967296" using assms(3) by (simp add: fs_room_def)
  obtain n v' where c: "vf_create v mode uid gid = Inr (SUCCESS, n, v')" "in_fs n = vf_self v"
    using vf_create_ok [OF 1(2) room] by metis
  note C = vf_create_wf [OF 1(2) room c(1)]
  have "world_ok (put_vfs w fs v') \<and> fs_known (put_vfs w fs v') = fs_known w \<and> (\<forall>i. inode_ok w i \<longrightarrow> inode_ok (put_vfs w fs v') i)"
    using C 1(3) by (intro put_vfs_ok [OF assms(1) 1(1)]) auto
  moreover have "inode_ok (put_vfs w fs v') n" using c(2) 1(3) C(2) by (simp add: inode_ok_def put_vfs_def)
  ultimately show ?thesis using 1 c by (simp add: op_defs)
next
  case (2 d)
  then show ?thesis using assms(1) by (simp add: op_defs)
qed

lemma kernel_link_ok:
  assumes "world_ok w" "inode_ok w d" "inode_ok w n" "in_fs n = in_fs d" "short_name c"
  shows "\<exists>st w'. fo_link (kernel_ops z) (in_fs d) d n c w = Inr (st, w')
      \<and> world_ok w' \<and> fs_known w' = fs_known w \<and> (\<forall>i. inode_ok w i \<longrightarrow> inode_ok w' i)"
proof (cases rule: fs_cases [OF assms(1) inode_ok_known [OF assms(2)]])
  case (1 v)
  then have v: "vf_valid v (in_id d)" "vf_valid v (in_id n)" "length c \<le> 127"
    using assms(2-5) by (simp_all add: inode_ok_virtual short_name_def inode_ok_def)
  let ?v = "vf_relink v (in_id n) vi_retain (in_id d) (\<lambda>es. es @ [\<lparr>ve_id = in_id n, ve_name = c\<rparr>])"
  have "world_ok (put_vfs w (in_fs d) ?v) \<and> fs_known (put_vfs w (in_fs d) ?v) = fs_known w \<and> (\<forall>i. inode_ok w i \<longrightarrow> inode_ok (put_vfs w (in_fs d) ?v) i)"
    using vf_link_wf [OF 1(2) v] 1(3) by (intro put_vfs_ok [OF assms(1) 1(1)]) (simp_all add: vf_relink_def)
  then show ?thesis using 1 vf_link_relink [OF v] by (simp add: op_defs)
next
  case (2 d)
  then show ?thesis using assms(1) by (simp add: op_defs)
qed

lemma kernel_unlink_ok:
  assumes "world_ok w" "inode_ok w d"
  shows "\<exists>st w'. fo_unlink (kernel_ops z) (in_fs d) d c w = Inr (st, w')
      \<and> world_ok w' \<and> fs_known w' = fs_known w \<and> (\<forall>i. inode_ok w i \<longrightarrow> inode_ok w' i)"
proof (cases rule: fs_cases [OF assms(1) inode_ok_known [OF assms(2)]])
  case (1 v)
  then have v: "vf_valid v (in_id d)" using assms(2) by (simp add: inode_ok_virtual)
  show ?thesis
  proof (cases "find (\<lambda>e. ve_name e = c) (vi_entries (vf_inodes v ! unat (in_id d)))")
    case None
    have "put_vfs w (in_fs d) v = w" using 1(1) by (simp add: put_vfs_def fun_upd_idem)
    then show ?thesis using 1 v None assms(1) by (simp add: op_defs vf_unlink_def vf_at_valid)
  next
    case (Some e)
    note U = vf_unlink_wf [OF 1(2) v Some]
    let ?v = "vf_relink v (ve_id e) vi_release (in_id d) (remove_named c)"
    have "world_ok (put_vfs w (in_fs d) ?v) \<and> fs_known (put_vfs w (in_fs d) ?v) = fs_known w \<and> (\<forall>i. inode_ok w i \<longrightarrow> inode_ok (put_vfs w (in_fs d) ?v) i)"
      using U(1) 1(3) by (intro put_vfs_ok [OF assms(1) 1(1)]) (simp_all add: vf_relink_def)
    moreover have "vf_unlink v d c = Inr (SUCCESS, ?v)" using v U(2) Some by (simp add: vf_unlink_def vf_at_valid vf_relink_def)
    ultimately show ?thesis using 1 by (simp add: op_defs)
  qed
next
  case (2 d)
  then show ?thesis using assms(1) by (simp add: op_defs)
qed

lemma kernel_mkdir_ok:
  assumes "world_ok w" "inode_ok w d" "fs_room w (in_fs d)" "short_name c"
  shows "\<exists>st r w'. fo_mkdir (kernel_ops z) (in_fs d) d mode uid gid c w = Inr (st, r, w')
      \<and> world_ok w' \<and> fs_known w' = fs_known w \<and> (\<forall>i. inode_ok w i \<longrightarrow> inode_ok w' i)
      \<and> (st = SUCCESS \<longrightarrow> (\<exists>i. r = Some i \<and> inode_ok w' i \<and> in_fs i = in_fs d))"
proof (cases rule: fs_cases [OF assms(1) inode_ok_known [OF assms(2)]])
  case (1 v)
  then have v: "vf_valid v (in_id d)" "length (vf_inodes v) + 1 < 4294967296" "length c \<le> 127"
    using assms(2-4) by (simp_all add: inode_ok_virtual fs_room_def short_name_def)
  from vf_mkdir_wf [OF 1(2) v, of mode uid gid] obtain n v' where m: "vf_mkdir v d mode uid gid c = Inr (SUCCESS, Some n, v')" "vf_wf v'"
    "vf_valid v' (in_id n)" "in_fs n = vf_self v" "vf_self v' = vf_self v" "\<forall>i. vf_valid v i \<longrightarrow> vf_valid v' i" .
  have "world_ok (put_vfs w (in_fs d) v') \<and> fs_known (put_vfs w (in_fs d) v') = fs_known w \<and> (\<forall>i. inode_ok w i \<longrightarrow> inode_ok (put_vfs w (in_fs d) v') i)"
    using m 1(3) by (intro put_vfs_ok [OF assms(1) 1(1)]) auto
  moreover have "inode_ok (put_vfs w (in_fs d) v') n" using m(3,4) 1(3) by (simp add: inode_ok_def put_vfs_def)
  ultimately show ?thesis using 1 m by (simp add: op_defs)
next
  case (2 d)
  then show ?thesis using assms(1) by (simp add: op_defs)
qed

interpretation kfs: file_systems "kernel_ops z" world_ok fs_known inode_ok short_name fs_room for z
proof unfold_locales
  fix w :: fs_world and i
  assume "world_ok w" "inode_ok w i"
  then show "in_fs i \<noteq> 0 \<and> fs_known w (in_fs i)"
    using inode_ok_known [of w i] by (auto simp: world_ok_def inst_ok_def fs_known_def)
next
  fix w :: fs_world and fs
  assume "world_ok w" "fs_known w fs"
  then show "\<exists>i. fo_get_root (kernel_ops z) fs w = Inr (SUCCESS, i) \<and> inode_ok w i \<and> in_fs i = fs" by (rule kernel_root_ok)
next
  fix w :: fs_world and i c
  assume "world_ok w" "inode_ok w i"
  then show "\<exists>st r. fo_fetch (kernel_ops z) (in_fs i) i c w = Inr (st, r)
      \<and> (st = SUCCESS \<longrightarrow> (\<exists>j. r = Some j \<and> inode_ok w j \<and> in_fs j = in_fs i))" by (rule kernel_fetch_ok)
next
  fix w :: fs_world and fs mode uid gid
  assume "world_ok w" "fs_known w fs" "fs_room w fs"
  then show "\<exists>st r w'. fo_create (kernel_ops z) fs mode uid gid w = Inr (st, r, w') \<and> world_ok w'
      \<and> fs_known w' = fs_known w \<and> (\<forall>i. inode_ok w i \<longrightarrow> inode_ok w' i)
      \<and> (st = SUCCESS \<longrightarrow> (\<exists>i. r = Some i \<and> inode_ok w' i \<and> in_fs i = fs))" by (rule kernel_create_ok)
next
  fix w :: fs_world and d n c
  assume "world_ok w" "inode_ok w d" "inode_ok w n" "in_fs n = in_fs d" "short_name c"
  then show "\<exists>st w'. fo_link (kernel_ops z) (in_fs d) d n c w = Inr (st, w')
      \<and> world_ok w' \<and> fs_known w' = fs_known w \<and> (\<forall>i. inode_ok w i \<longrightarrow> inode_ok w' i)" by (rule kernel_link_ok)
next
  fix w :: fs_world and d c
  assume "world_ok w" "inode_ok w d"
  then show "\<exists>st w'. fo_unlink (kernel_ops z) (in_fs d) d c w = Inr (st, w')
      \<and> world_ok w' \<and> fs_known w' = fs_known w \<and> (\<forall>i. inode_ok w i \<longrightarrow> inode_ok w' i)" by (rule kernel_unlink_ok)
next
  fix w :: fs_world and d mode uid gid c
  assume "world_ok w" "inode_ok w d" "fs_room w (in_fs d)" "short_name c"
  then show "\<exists>st r w'. fo_mkdir (kernel_ops z) (in_fs d) d mode uid gid c w = Inr (st, r, w')
      \<and> world_ok w' \<and> fs_known w' = fs_known w \<and> (\<forall>i. inode_ok w i \<longrightarrow> inode_ok w' i)
      \<and> (st = SUCCESS \<longrightarrow> (\<exists>i. r = Some i \<and> inode_ok w' i \<and> in_fs i = in_fs d))" by (rule kernel_mkdir_ok)
qed

subsection \<open>Resolution and creation on the kernel's file systems\<close>

text \<open>A usable state of the manager: every file system is well formed and knows its own address, the root mount is there, every mount is of a file system
  that exists, and is put on an inode that exists or on none.\<close>

definition fsys_ok :: "fs_world fsys \<Rightarrow> bool" where
  "fsys_ok s \<longleftrightarrow> mounts_ok world_ok fs_known inode_ok s"

definition demo_fsys :: "fs_world fsys" where
  "demo_fsys = fsm_init 1 9 [9 \<mapsto> FVirtual demo_vfs]"

lemma demo_fsys_ok: "fsys_ok demo_fsys" "fs_room (sy_world demo_fsys) fs"
  using demo_vfs_wf by (auto simp: fsys_ok_def mounts_ok_def demo_fsys_def fsm_init_def add_mount_def world_ok_def inst_ok_def
    fs_known_def null_inode_def inode_zero_def fs_room_def demo_vfs_eq split: option.splits fs_inst.splits)

text \<open>C37: Let every mounted file system be a well-formed virtual file system or a device file system, every mount point an inode that exists, and the root be
  mounted. Then resolving any path returns: with an error number, or with an inode that exists in its file system, which is an inode of the virtual file
  system, or the directory or a registered device of the device file system. No segment, \<open>..\<close> or mount crossing reads an inode that does not exist.
  The ext2 file system of the disk, which the kernel mounts in place of its first root before it starts the terminal, is not among the file systems here.\<close>

theorem resolution_returns:
  assumes "fsys_ok s"
  shows "\<exists>x. get_inode (kernel_ops z) s path creds = Inr x \<and> (\<forall>i. x = Inr i \<longrightarrow> (case sy_world s (in_fs i) of
      None \<Rightarrow> False
    | Some (FVirtual v) \<Rightarrow> 1 \<le> unat (in_id i) \<and> unat (in_id i) < length (vf_inodes v)
    | Some (FDev d) \<Rightarrow> in_id i = 1 \<or> (\<exists>x \<in> set (df_devices d). di_id x = in_id i)))"
proof -
  obtain x where x: "get_inode (kernel_ops z) s path creds = Inr x" "\<forall>i. x = Inr i \<longrightarrow> inode_ok (sy_world s) i"
    using kfs.get_inode_ok assms unfolding fsys_ok_def by blast
  then show ?thesis by (intro exI [of _ x]) (fastforce simp: inode_ok_def vf_valid_def split: option.splits fs_inst.splits)
qed

theorem resolution_returns_witness:
  "\<exists>x. get_inode (kernel_ops (\<lambda>_. 0)) demo_fsys [''..'', ''dev'', ''sda''] None = Inr x"
  using resolution_returns [OF demo_fsys_ok(1)] by blast

text \<open>Creating a file or a directory never faults and keeps all mounts and inodes sound, for names of at most
  127 characters: it ends with an error number or with an inode that exists.\<close>

theorem create_inode_keeps_sound:
  assumes "fsys_ok s" "\<forall>fs. fs_room (sy_world s) fs" "path \<noteq> [] \<longrightarrow> short_name (last path)"
  shows "\<exists>x s'. create_inode (kernel_ops z) s path mode creds = Inr (x, s') \<and> fsys_ok s'
    \<and> (\<forall>i. x = Inr i \<longrightarrow> inode_ok (sy_world s') i)"
  using kfs.create_inode_ok assms unfolding fsys_ok_def by blast

theorem create_inode_keeps_sound_witness:
  "\<exists>x s'. create_inode (kernel_ops (\<lambda>_. 0)) demo_fsys [''dev''] S_IFDIR None = Inr (x, s') \<and> fsys_ok s'"
  using create_inode_keeps_sound [OF demo_fsys_ok(1), of "[''dev'']" "\<lambda>_. 0" S_IFDIR None] demo_fsys_ok(2)
  by (auto simp: short_name_def)

text \<open>A name of 128 to 255 characters passes the checks of the manager but makes the virtual file system
  panic: whoever may create files there can stop the kernel.\<close>

theorem long_name_panics:
  assumes "get_inode (kernel_ops z) s (butlast path) creds = Inr (Inr parent)" "S_ISDIR (in_mode parent)"
    and "\<not> denied may_write creds parent" "get_inode (kernel_ops z) s path creds = Inr (Inl ENOENT)"
    and "sy_world s (in_fs parent) = Some (FVirtual v)" "vf_wf v" "length (vf_inodes v) + 1 < 4294967296"
    and "vf_valid v (in_id parent)" "path \<noteq> []" "127 < length (last path)" "mode AND S_IFMT \<noteq> S_IFDIR"
  shows "create_inode (kernel_ops z) s path mode creds = Inl Panic"
proof -
  let ?uid = "case creds of None \<Rightarrow> 0 | Some c \<Rightarrow> cr_uid c" and ?gid = "case creds of None \<Rightarrow> 0 | Some c \<Rightarrow> cr_pgid c"
  obtain n v' where c: "vf_create v mode ?uid ?gid = Inr (SUCCESS, n, v')" using vf_create_ok [OF assms(6,7)] by metis
  have "vf_valid v' (in_id parent)" using vf_create_wf(3) [OF assms(6,7) c] assms(8) by blast
  then have "vf_link v' parent n (last path) = Inl Panic" using assms(10) by (simp add: vf_link_def vf_at_valid)
  moreover have "ENOENT \<noteq> ENOERR" by (simp add: errno_defs)
  ultimately show ?thesis using assms(1-5,9,11) c
    by (simp add: create_inode_def Let_def path_file_def op_defs put_vfs_def out_inode_def)
qed

lemma demo_fsys_root: "get_inode (kernel_ops z) demo_fsys [] creds = Inr (Inr demo_root)"
  by (simp add: get_inode_def root_mount_def demo_fsys_def fsm_init_def add_mount_def op_defs vf_get_root_def vf_at_def demo_vfs_eq)

lemma demo_fsys_miss:
  assumes "c \<noteq> ''.''" "c \<noteq> ''..''" "length c \<le> 255"
  shows "get_inode (kernel_ops z) demo_fsys [c] None = Inr (Inl ENOENT)"
  using assms by (simp add: get_inode_def root_mount_def demo_fsys_def fsm_init_def add_mount_def op_defs vf_get_root_def
    vf_at_def demo_vfs_eq S_ISDIR_def S_IFMT_def S_IFDIR_def demo_root_def denied_def lookup_dir_def inode_fetch_def
    vf_fetch_def status_to_syscallerror_def)

lemma demo_fsys_mount: "root_mount demo_fsys = Inr \<lparr>mnt_ptr = 1, mnt_point = null_inode, mnt_fs = 9, mnt_delete = False\<rparr>"
  by (simp add: root_mount_def demo_fsys_def fsm_init_def add_mount_def)

lemma demo_fsys_get_root: "fo_get_root (kernel_ops z) 9 (sy_world demo_fsys) = Inr (SUCCESS, demo_root)"
  by (simp add: demo_fsys_def fsm_init_def add_mount_def op_defs vf_get_root_def vf_at_def demo_vfs_eq)

lemma demo_fsys_self: "get_inode (kernel_ops z) demo_fsys [''.''] None = Inr (Inr demo_root)"
  by (simp add: get_inode_def root_mount_def demo_fsys_def fsm_init_def add_mount_def op_defs vf_get_root_def
    vf_at_def demo_vfs_eq S_ISDIR_def S_IFMT_def S_IFDIR_def demo_root_def denied_def lookup_dir_def inode_fetch_def
    vf_fetch_def status_to_syscallerror_def cross_mount_def mount_at_def null_inode_def inode_same_def inode_zero_def)

theorem resolution_checks_every_directory_witness:
  "\<exists>ds. resolves (kernel_ops (\<lambda>_. 0)) demo_fsys demo_root [''.''] ds demo_root \<and> (\<forall>d \<in> set ds. S_ISDIR (in_mode d))"
  using resolution_checks_every_directory [OF demo_fsys_mount, of "kernel_ops (\<lambda>_. 0)" demo_root "[''.'']" None demo_root]
    demo_fsys_get_root [of "\<lambda>_. 0"] demo_fsys_self [of "\<lambda>_. 0"] by simp

theorem long_name_panics_witness:
  "create_inode (kernel_ops (\<lambda>_. 0)) demo_fsys [replicate 200 (CHR ''x'')] S_IFREG None = Inl Panic"
proof (rule long_name_panics)
  let ?p = "[replicate 200 (CHR ''x'')]"
  have "replicate 200 (CHR ''x'') \<noteq> ''.''" "replicate 200 (CHR ''x'') \<noteq> ''..''"
    by (auto dest: arg_cong [where f = length])
  then show "get_inode (kernel_ops (\<lambda>_. 0)) demo_fsys ?p None = Inr (Inl ENOENT)" by (intro demo_fsys_miss) simp_all
  show "get_inode (kernel_ops (\<lambda>_. 0)) demo_fsys (butlast ?p) None = Inr (Inr demo_root)" by (simp add: demo_fsys_root)
  show "S_ISDIR (in_mode demo_root)" "S_IFREG AND S_IFMT \<noteq> S_IFDIR" by code_simp+
  show "sy_world demo_fsys (in_fs demo_root) = Some (FVirtual demo_vfs)"
    by (simp add: demo_fsys_def fsm_init_def add_mount_def demo_root_def)
qed (use demo_vfs_wf in \<open>auto simp: denied_def demo_root_def demo_vfs_eq\<close>)

end
