(* ===== verification/Fs_Props.thy ===== *)
theory Fs_Props
  imports Fs_Paths
begin

text \<open>
  What opening, creating, linking, mounting and unmounting promise, and where the file system manager
  does not keep the promise (\<open>kernel/src/fs/fs_manager.cpp\<close>).
\<close>

subsection \<open>Error messages\<close>

text \<open>Every error a file system reports has a message for the user, and the message table is read past its
  end for every other error number from 82 on.\<close>

theorem errors_have_messages:
  "(\<exists>msg. get_error_message (status_to_syscallerror st) = Inr msg)
    \<and> (returns (get_error_message err) \<longleftrightarrow> unat err < 82 \<or> err = EINVFS \<or> err = EGENERAL)"
proof -
  have l: "length error_messages = 82" by (simp add: error_messages_def)
  have "\<exists>msg. get_error_message (status_to_syscallerror st) = Inr msg"
    by (cases st) (simp_all add: get_error_message_def status_to_syscallerror_def errno_defs l nth_r_def)
  then show ?thesis by (simp add: get_error_message_def nth_r_def l errno_defs)
qed

subsection \<open>Permissions\<close>

text \<open>C18: A process gets a description only of a file whose permission bits allow what the open flags ask for, the
  file being the one its path resolves to or, with \<open>O_CREAT\<close>, one created for it.\<close>

theorem open_respects_permissions:
  assumes "fsm_open ops s path flags (Some c) = Inr (Inr p, s')"
  shows "\<exists>i s1. (get_inode ops s path (Some c) = Inr (Inr i) \<and> s1 = s
      \<or> has_flag flags O_CREAT \<and> create_inode ops s path 0x81a4 (Some c) = Inr (Inr i, s1))
    \<and> (has_flag flags O_RDONLY \<or> has_flag flags O_RDWR \<longrightarrow> may_read c i)
    \<and> (has_flag flags O_WRONLY \<or> has_flag flags O_RDWR \<longrightarrow> may_write c i)
    \<and> open_inode ops s1 i (Some c) = Inr (Inr p, s')"
proof -
  have mode: "S_IFREG OR 420 = (0x81a4 :: u32)" by (simp add: S_IFREG_def)
  obtain x where x: "get_inode ops s path (Some c) = Inr x"
    using assms by (auto simp: fsm_open_def bindr_Inr_iff)
  show ?thesis
  proof (cases x)
    case (Inl err)
    then have fl: "has_flag flags O_CREAT" using assms x by (auto simp: fsm_open_def split: if_split_asm)
    then obtain r s1 where r: "create_inode ops s path 0x81a4 (Some c) = Inr (r, s1)"
      using assms x Inl by (auto simp: fsm_open_def bindr_Inr_iff mode)
    then show ?thesis using assms x Inl fl by (cases r) (auto simp: fsm_open_def mode denied_def split: if_split_asm)
  next
    case (Inr i)
    then show ?thesis using assms x by (auto simp: fsm_open_def denied_def split: if_split_asm)
  qed
qed

text \<open>A root of one device, number 77, at \<open>/tty\<close>.\<close>

definition demo_devs :: devfs where
  "demo_devs = \<lparr>df_self = 5, df_devices = [\<lparr>di_id = 2, di_type = CHARACTER_DEVICE, di_device = 77, di_name = ''tty''\<rparr>], df_counter = 3\<rparr>"

definition demo_dev_fsys :: "fs_world fsys" where
  "demo_dev_fsys = fsm_init 1 5 [5 \<mapsto> FDev demo_devs]"

definition root_creds :: credentials where
  "root_creds = \<lparr>cr_uid = 0, cr_pgid = 0\<rparr>"

lemma demo_dev_get:
  "get_inode (kernel_ops z) demo_dev_fsys [''tty''] (Some root_creds)
    = Inr (Inr (di_to_inode z 5 (hd (df_devices demo_devs)) inode_zero))"
  by (simp add: get_inode_def root_mount_def demo_dev_fsys_def fsm_init_def add_mount_def op_defs df_get_root_def
    demo_devs_def root_creds_def denied_def may_exec_def get_inode_perms_def S_ISDIR_def S_IFMT_def S_IFDIR_def
    lookup_dir_def inode_fetch_def df_fetch_def df_get_device_with_name_def cross_mount_def mount_at_def
    inode_same_def null_inode_def inode_zero_def di_to_inode_def S_IFCHR_def drop_bit_eq_div Let_def)

lemma demo_dev_perms:
  "may_read root_creds (di_to_inode z 5 (hd (df_devices demo_devs)) inode_zero)"
  "may_write root_creds (di_to_inode z 5 (hd (df_devices demo_devs)) inode_zero)"
  by (simp_all add: may_read_def may_write_def get_inode_perms_def di_to_inode_def demo_devs_def root_creds_def
    inode_zero_def S_IFCHR_def drop_bit_eq_div)

lemma demo_dev_open: "\<exists>s'. fsm_open (kernel_ops z) demo_dev_fsys [''tty''] O_RDWR (Some root_creds) = Inr (Inr 77, s')"
proof -
  let ?i = "di_to_inode z 5 (hd (df_devices demo_devs)) inode_zero"
  have "fsm_open (kernel_ops z) demo_dev_fsys [''tty''] O_RDWR (Some root_creds)
      = open_inode (kernel_ops z) demo_dev_fsys ?i (Some root_creds)"
    by (simp add: fsm_open_def demo_dev_get denied_def demo_dev_perms)
  moreover have "in_fs ?i = 5" "in_id ?i = 2" by (simp_all add: di_to_inode_def demo_devs_def)
  moreover have "sy_world demo_dev_fsys 5 = Some (FDev demo_devs)" "sy_fdm demo_dev_fsys = fdm_empty"
    by (simp_all add: demo_dev_fsys_def fsm_init_def add_mount_def)
  moreover have "df_get_open_method demo_devs ?i = USE_FILE_DESCRIPTION" "df_create_fd demo_devs ?i = 77"
    by (simp_all add: demo_devs_def di_to_inode_def df_get_open_method_def df_get_device_with_id_def df_create_fd_def)
  ultimately show ?thesis by (simp add: open_inode_def fm_fetch_inode_fd_def fdm_empty_def op_defs Let_def)
qed

theorem open_respects_permissions_witness:
  "\<exists>i. get_inode (kernel_ops (\<lambda>_. 0)) demo_dev_fsys [''tty''] (Some root_creds) = Inr (Inr i) \<and> may_write root_creds i"
proof -
  obtain s' where "fsm_open (kernel_ops (\<lambda>_. 0)) demo_dev_fsys [''tty''] O_RDWR (Some root_creds) = Inr (Inr 77, s')"
    using demo_dev_open by blast
  from open_respects_permissions [OF this] show ?thesis by (auto simp: flag_defs)
qed

text \<open>Nothing is created, and no state is changed, unless the parent of the path resolves to a directory the
  caller may write and the path itself does not exist yet.\<close>

theorem create_needs_writable_parent:
  assumes "create_inode ops s path mode creds = Inr (r, s')" "s' \<noteq> s \<or> (\<exists>i. r = Inr i)"
  shows "get_inode ops s path creds = Inr (Inl ENOENT)
    \<and> (\<exists>parent. get_inode ops s (butlast path) creds = Inr (Inr parent) \<and> S_ISDIR (in_mode parent)
        \<and> (\<forall>c. creds = Some c \<longrightarrow> may_write c parent))"
proof -
  obtain x where x: "get_inode ops s (butlast path) creds = Inr x"
    using assms(1) by (auto simp: create_inode_def bindr_Inr_iff)
  obtain d where d: "x = Inr d" using assms x by (cases x) (auto simp: create_inode_def)
  have a: "S_ISDIR (in_mode d)" "\<not> denied may_write creds d"
    using assms x d by (auto simp: create_inode_def split: if_split_asm)
  obtain y where y: "get_inode ops s path creds = Inr y"
    using assms(1) x d a by (auto simp: create_inode_def bindr_Inr_iff)
  have "(case y of Inl e \<Rightarrow> e | Inr _ \<Rightarrow> ENOERR) = ENOENT"
    using assms x d a y by (auto simp: create_inode_def Let_def split: if_split_asm)
  then have "y = Inl ENOENT" by (cases y) (auto simp: errno_defs)
  then show ?thesis using x y d a by (auto simp: denied_def)
qed

lemma demo_mkdir: "\<exists>i s'. create_inode (kernel_ops z) demo_fsys [''dev''] S_IFDIR None = Inr (Inr i, s')"
proof -
  have v: "vf_valid demo_vfs (in_id demo_root)" using demo_vfs_wf(2) by (simp add: demo_root_def)
  have l: "length (vf_inodes demo_vfs) + 1 < 4294967296" "length ''dev'' \<le> 127" by (simp_all add: demo_vfs_eq)
  from vf_mkdir_wf [OF demo_vfs_wf(1) v l, of S_IFDIR 0 0] obtain n v'
    where m: "vf_mkdir demo_vfs demo_root S_IFDIR 0 0 ''dev'' = Inr (SUCCESS, Some n, v')" .
  have "S_ISDIR (in_mode demo_root)" by code_simp
  moreover have "S_IFDIR AND S_IFMT = S_IFDIR" by code_simp
  moreover have "in_fs demo_root = 9" "sy_world demo_fsys 9 = Some (FVirtual demo_vfs)"
    by (simp_all add: demo_root_def demo_fsys_def fsm_init_def add_mount_def)
  moreover have "get_inode (kernel_ops z) demo_fsys [''dev''] None = Inr (Inl ENOENT)" by (rule demo_fsys_miss) simp_all
  moreover have "fo_mkdir (kernel_ops z) 9 demo_root S_IFDIR 0 0 ''dev'' (sy_world demo_fsys)
      = Inr (SUCCESS, Some n, put_vfs (sy_world demo_fsys) 9 v')"
    using m calculation by (simp add: op_defs)
  ultimately show ?thesis
    by (simp add: create_inode_def demo_fsys_root denied_def path_file_def out_inode_def)
qed

theorem create_needs_writable_parent_witness:
  "\<exists>parent. get_inode (kernel_ops (\<lambda>_. 0)) demo_fsys [] None = Inr (Inr parent) \<and> S_ISDIR (in_mode parent)"
proof -
  obtain i s' where "create_inode (kernel_ops (\<lambda>_. 0)) demo_fsys [''dev''] S_IFDIR None = Inr (Inr i, s')"
    using demo_mkdir by blast
  from create_needs_writable_parent [OF this] show ?thesis by auto
qed

subsection \<open>Mounting\<close>

lemma find_append_None: "find P xs = None \<Longrightarrow> find P (xs @ ys) = find P ys"
  and find_append_Some: "find P xs = Some x \<Longrightarrow> find P (xs @ ys) = Some x"
  by (induction xs) (auto split: if_split_asm)

lemma add_mount_simps [simp]:
  "sy_world (add_mount p dir fs del s) = sy_world s" "sy_root (add_mount p dir fs del s) = sy_root s"
  "sy_fdm (add_mount p dir fs del s) = sy_fdm s"
  "sy_mounts (add_mount p dir fs del s) = sy_mounts s @ [\<lparr>mnt_ptr = p, mnt_point = dir, mnt_fs = fs, mnt_delete = del\<rparr>]"
  by (simp_all add: add_mount_def)

lemma inode_same_refl [simp]: "inode_same i i"
  by (simp add: inode_same_def)

text \<open>A path that leads to \<open>dir\<close> leads to the root of what is mounted on \<open>dir\<close> once it is mounted, unless it
  passes through \<open>dir\<close> before its end; further mounts on directories off the path do not matter.\<close>

lemma resolves_after_mounts:
  assumes "sy_world t = sy_world s" "sy_mounts t = sy_mounts s @ m # ms" "mnt_point m = dir"
    and "fo_get_root ops (mnt_fs m) (sy_world s) = Inr (SUCCESS, r)"
    and "\<forall>n \<in> set (sy_mounts s). fo_get_root ops (mnt_fs n) (sy_world s) \<noteq> Inr (SUCCESS, dir)"
  shows "\<lbrakk>resolves ops s i cs ds j; j = dir; cs \<noteq> []; ''..'' \<notin> set cs; \<forall>d \<in> set ds. \<forall>n \<in> set (m # ms). \<not> inode_same (mnt_point n) d\<rbrakk>
    \<Longrightarrow> resolves ops t i cs ds r"
proof (induction rule: resolves.induct)
  case (step c i d child k cs ds j)
  have "c \<noteq> ''..''" using step.prems(3) by auto
  then have look: "lookup_dir ops t i c = Inr d" using step.hyps(2) by (simp add: lookup_dir_def)
  have fetch: "inode_fetch ops (sy_world t) d c = Inr (SUCCESS, Some child)" using step.hyps(3) assms(1) by simp
  show ?case
  proof (cases "mount_at (sy_mounts s) child")
    case (Some n)
    then have n: "n \<in> set (sy_mounts s)" by (auto simp: mount_at_def find_Some_iff)
    have r: "fo_get_root ops (mnt_fs n) (sy_world s) = Inr (SUCCESS, k)"
      using step.hyps(4) Some by (auto simp: cross_mount_def bindr_Inr_iff split: if_split_asm)
    have "mount_at (sy_mounts t) child = Some n" using Some by (simp add: mount_at_def assms(2) find_append_Some)
    then have cross: "cross_mount ops t child = Inr (Inr k)" using r assms(1) by (simp add: cross_mount_def)
    have "cs \<noteq> []"
    proof
      assume "cs = []"
      then have "k = dir" using step.hyps(5) step.prems(1) by (simp add: resolves_simps)
      then show False using n r assms(5) by blast
    qed
    then show ?thesis using step.IH step.prems resolves.step [OF step.hyps(1) look fetch cross] by simp
  next
    case None
    then have k: "k = child" using step.hyps(4) by (simp add: cross_mount_def)
    have at: "mount_at (sy_mounts t) child = find (\<lambda>n. inode_same (mnt_point n) child) (m # ms)"
      using None by (simp add: mount_at_def assms(2) find_append_None)
    show ?thesis
    proof (cases "cs = []")
      case True
      then have "child = dir" "ds = []" using step.hyps(5) step.prems(1) k by (simp_all add: resolves_simps)
      then have "cross_mount ops t child = Inr (Inr r)" using at assms(1,3,4) by (simp add: cross_mount_def)
      from resolves.step [OF step.hyps(1) look fetch this resolves.here] show ?thesis using True \<open>ds = []\<close> by simp
    next
      case False
      then have "child \<in> set ds" using step.hyps(5) k by (cases cs) (auto simp: resolves_simps)
      then have "\<forall>n \<in> set (m # ms). \<not> inode_same (mnt_point n) child" using step.prems(4) by simp
      then have "mount_at (sy_mounts t) child = None" unfolding at by (simp add: find_None_iff)
      then have "cross_mount ops t child = Inr (Inr k)" using k by (simp add: cross_mount_def)
      then show ?thesis using step.IH step.prems False resolves.step [OF step.hyps(1) look fetch] by simp
    qed
  qed
qed simp

lemma root_mount_append: "root_mount s = Inr m \<Longrightarrow> sy_mounts t = sy_mounts s @ ms \<Longrightarrow> sy_root t = sy_root s \<Longrightarrow> root_mount t = Inr m"
  by (auto simp: root_mount_def find_append_Some split: option.splits)

text \<open>A path that leads, through directories, to a directory that it does not pass before and that is not
  itself the root of a mount.\<close>

definition leads_to_dir :: "'w fs_ops \<Rightarrow> 'w fsys \<Rightarrow> string list \<Rightarrow> inode list \<Rightarrow> inode \<Rightarrow> bool" where
  "leads_to_dir ops s path ds dir \<longleftrightarrow> (\<exists>m root. root_mount s = Inr m
      \<and> fo_get_root ops (mnt_fs m) (sy_world s) = Inr (SUCCESS, root) \<and> resolves ops s root path ds dir)
    \<and> path \<noteq> [] \<and> ''..'' \<notin> set path \<and> S_ISDIR (in_mode dir)
    \<and> (\<forall>d \<in> set ds. S_ISDIR (in_mode d) \<and> \<not> inode_same dir d)
    \<and> (\<forall>n \<in> set (sy_mounts s). fo_get_root ops (mnt_fs n) (sy_world s) \<noteq> Inr (SUCCESS, dir))"

lemma leads_to_dir_get: "leads_to_dir ops s path ds dir \<Longrightarrow> get_inode ops s path None = Inr (Inr dir)"
  using resolves_walk_path [of ops s _ path ds dir None]
  by (auto simp: leads_to_dir_def get_inode_def passable_def denied_def)

lemma leads_to_dir_mount:
  assumes "leads_to_dir ops s path ds dir" "sy_world t = sy_world s" "sy_root t = sy_root s"
    and "sy_mounts t = sy_mounts s @ m # ms" "mnt_point m = dir"
    and "fo_get_root ops (mnt_fs m) (sy_world s) = Inr (SUCCESS, r)"
    and "\<forall>d \<in> set ds. \<forall>n \<in> set ms. \<not> inode_same (mnt_point n) d" "\<forall>d \<in> set ds. \<not> denied may_exec creds d"
  shows "get_inode ops t path creds = Inr (Inr r)"
proof -
  from assms(1) obtain n root where n: "root_mount s = Inr n" "fo_get_root ops (mnt_fs n) (sy_world s) = Inr (SUCCESS, root)"
    "resolves ops s root path ds dir" by (auto simp: leads_to_dir_def)
  have "resolves ops t root path ds r"
    using resolves_after_mounts [OF assms(2,4-6) _ n(3) refl] assms(1,5,7) unfolding leads_to_dir_def by auto
  from resolves_walk_path [OF this, of creds] have "walk_path ops t creds root path = Inr (Inr r)"
    using assms(1,8) by (auto simp: passable_def leads_to_dir_def)
  then show ?thesis using root_mount_append [OF n(1) assms(4,3)] n(2) assms(2) by (simp add: get_inode_def)
qed

lemma fsm_mount_ok:
  assumes "path \<noteq> []" "get_inode ops s path None = Inr (Inr dir)" "S_ISDIR (in_mode dir)" "mount_at (sy_mounts s) dir = None"
  shows "fsm_mount ops p s path fs del = Inr (ENOERR, add_mount p dir fs del s)"
  using assms by (simp add: fsm_mount_def Let_def)

text \<open>Mounting on a directory succeeds when nothing is mounted on it, and from then on the path leads to the
  root of the mounted file system, for every process that may search the directories on the way.\<close>

theorem mounted_root_is_found:
  assumes "leads_to_dir ops s path ds dir" "mount_at (sy_mounts s) dir = None"
    and "fo_get_root ops fs (sy_world s) = Inr (SUCCESS, r)"
  shows "\<exists>s'. fsm_mount ops p s path fs del = Inr (ENOERR, s')
    \<and> (\<forall>creds. (\<forall>d \<in> set ds. \<not> denied may_exec creds d) \<longrightarrow> get_inode ops s' path creds = Inr (Inr r))"
proof -
  have "path \<noteq> []" "S_ISDIR (in_mode dir)" using assms(1) by (auto simp: leads_to_dir_def)
  then have "fsm_mount ops p s path fs del = Inr (ENOERR, add_mount p dir fs del s)"
    using leads_to_dir_get [OF assms(1)] assms(2) by (intro fsm_mount_ok)
  moreover have "get_inode ops (add_mount p dir fs del s) path creds = Inr (Inr r)"
    if "\<forall>d \<in> set ds. \<not> denied may_exec creds d" for creds
    using leads_to_dir_mount [OF assms(1) _ _ _ _ _ _ that, of _ "\<lparr>mnt_ptr = p, mnt_point = dir, mnt_fs = fs, mnt_delete = del\<rparr>" "[]"] assms(3)
    by simp
  ultimately show ?thesis by blast
qed

text \<open>A second file system mounted at the same path is accepted, on the root of the first, but never seen:
  resolution crosses one mount per segment, so the path still leads to the first one.\<close>

theorem second_mount_is_hidden:
  assumes "leads_to_dir ops s path ds dir" "mount_at (sy_mounts s) dir = None"
    and "fo_get_root ops fs (sy_world s) = Inr (SUCCESS, r)" "S_ISDIR (in_mode r)"
    and "mount_at (sy_mounts s) r = None" "\<not> inode_same dir r" "\<forall>d \<in> set ds. \<not> inode_same r d"
  shows "\<exists>s1 s2. fsm_mount ops p s path fs del = Inr (ENOERR, s1) \<and> fsm_mount ops q s1 path fs2 del2 = Inr (ENOERR, s2)
    \<and> length (sy_mounts s2) = length (sy_mounts s) + 2 \<and> get_inode ops s2 path None = Inr (Inr r)"
proof -
  let ?m = "\<lparr>mnt_ptr = p, mnt_point = dir, mnt_fs = fs, mnt_delete = del\<rparr>"
  let ?n = "\<lparr>mnt_ptr = q, mnt_point = r, mnt_fs = fs2, mnt_delete = del2\<rparr>"
  let ?s1 = "add_mount p dir fs del s"
  let ?s2 = "add_mount q r fs2 del2 ?s1"
  have d: "path \<noteq> []" "S_ISDIR (in_mode dir)" using assms(1) by (auto simp: leads_to_dir_def)
  then have m1: "fsm_mount ops p s path fs del = Inr (ENOERR, ?s1)"
    using leads_to_dir_get [OF assms(1)] assms(2) by (intro fsm_mount_ok)
  have g1: "get_inode ops ?s1 path None = Inr (Inr r)"
    using leads_to_dir_mount [OF assms(1), of ?s1 ?m "[]" r None] assms(3) by (simp add: denied_def)
  have "mount_at (sy_mounts ?s1) r = None" using assms(5,6) by (simp add: mount_at_def find_append_None)
  with d(1) g1 assms(4) have m2: "fsm_mount ops q ?s1 path fs2 del2 = Inr (ENOERR, ?s2)" by (intro fsm_mount_ok)
  have "get_inode ops ?s2 path None = Inr (Inr r)"
    using leads_to_dir_mount [OF assms(1), of ?s2 ?m "[?n]" r None] assms(3,7) by (simp add: denied_def)
  then show ?thesis using m1 m2 by simp
qed

subsection \<open>Unmounting\<close>

lemma mount_with_root_skip:
  "\<forall>n \<in> set ms. \<exists>k. fo_get_root ops (mnt_fs n) w = Inr (SUCCESS, k) \<and> \<not> inode_same k i
    \<Longrightarrow> mount_with_root ops w (ms @ ns) i = mount_with_root ops w ns i"
  by (induction ms) auto

lemma resolves_same_mounts:
  assumes "sy_world t = sy_world s" "sy_mounts t = sy_mounts s"
  shows "resolves ops s i cs es j \<Longrightarrow> resolves ops t i cs es j"
proof (induction rule: resolves.induct)
  case (step c i d child k cs es j)
  have "lookup_dir ops t i c = lookup_dir ops s i c" "cross_mount ops t child = cross_mount ops s child"
    unfolding lookup_dir_def cross_mount_def assms by (rule refl)+
  then show ?case by (intro resolves.step) (use step assms in simp_all)
qed (rule resolves.here)

text \<open>Unmounting by force what was mounted last takes the mount away again: the table of mounts is the one
  before, and the path leads to the directory the file system was mounted on.\<close>

theorem unmount_undoes_mount:
  assumes "leads_to_dir ops s path ds dir" "mount_at (sy_mounts s) dir = None"
    and "fo_get_root ops fs (sy_world s) = Inr (SUCCESS, r)" "fo_unmount ops fs (sy_world s) = Inr (sy_world s)"
    and "\<forall>n \<in> set (sy_mounts s). \<exists>k. fo_get_root ops (mnt_fs n) (sy_world s) = Inr (SUCCESS, k) \<and> \<not> inode_same k r"
    and "p \<notin> mnt_ptr ` set (sy_mounts s)"
  shows "\<exists>s1 s2. fsm_mount ops p s path fs False = Inr (ENOERR, s1) \<and> fsm_unmount ops s1 path True = Inr (ENOERR, s2)
    \<and> sy_mounts s2 = sy_mounts s \<and> sy_world s2 = sy_world s \<and> get_inode ops s2 path None = Inr (Inr dir)"
proof -
  let ?m = "\<lparr>mnt_ptr = p, mnt_point = dir, mnt_fs = fs, mnt_delete = False\<rparr>"
  let ?s1 = "add_mount p dir fs False s"
  let ?s2 = "?s1\<lparr>sy_mounts := sy_mounts s\<rparr>"
  have d: "path \<noteq> []" "S_ISDIR (in_mode dir)" using assms(1) by (auto simp: leads_to_dir_def)
  then have m1: "fsm_mount ops p s path fs False = Inr (ENOERR, ?s1)"
    using leads_to_dir_get [OF assms(1)] assms(2) by (intro fsm_mount_ok)
  have g1: "get_inode ops ?s1 path None = Inr (Inr r)"
    using leads_to_dir_mount [OF assms(1), of ?s1 ?m "[]" r None] assms(3) by (simp add: denied_def)
  have w: "mount_with_root ops (sy_world s) (sy_mounts s @ [?m]) r = Inr (Some ?m)"
    using mount_with_root_skip [OF assms(5), of "[?m]"] assms(3) by simp
  have "?m \<notin> set (sy_mounts s)" using assms(6) by force
  then have "remove1 ?m (sy_mounts s @ [?m]) = sy_mounts s" by (simp add: remove1_append)
  then have u: "fsm_unmount ops ?s1 path True = Inr (ENOERR, (with_world (sy_world s) ?s1)\<lparr>sy_mounts := sy_mounts s\<rparr>)"
    using g1 w assms(4) by (simp add: fsm_unmount_def)
  have "leads_to_dir ops ((with_world (sy_world s) ?s1)\<lparr>sy_mounts := sy_mounts s\<rparr>) path ds dir"
    using assms(1) resolves_same_mounts [of "(with_world (sy_world s) ?s1)\<lparr>sy_mounts := sy_mounts s\<rparr>" s]
    by (auto simp: leads_to_dir_def root_mount_def with_world_def)
  from leads_to_dir_get [OF this] show ?thesis using m1 u by (simp add: with_world_def)
qed

lemma status_error: "st \<noteq> SUCCESS \<Longrightarrow> status_to_syscallerror st \<noteq> ENOERR"
  by (cases st) (simp_all add: status_to_syscallerror_def errno_defs)

lemma sum_case_Inl:
  "(case x of Inl e \<Rightarrow> Inr (Inl e) | Inr y \<Rightarrow> f y) = Inr (Inl z) \<longleftrightarrow> x = Inl z \<or> (\<exists>y. x = Inr y \<and> f y = Inr (Inl z))"
  by (cases x) auto

lemma walk_path_error: "walk_path ops s creds i cs = Inr (Inl e) \<Longrightarrow> e \<noteq> ENOERR"
proof (induction cs arbitrary: i)
  case (Cons c cs)
  have en: "ENOTDIR \<noteq> ENOERR" "EACCES \<noteq> ENOERR" "ENAMETOOLONG \<noteq> ENOERR" by (simp_all add: errno_defs)
  have cr: "cross_mount ops s child = Inr (Inl err) \<Longrightarrow> err \<noteq> ENOERR" for child err
    by (auto simp: cross_mount_def bindr_Inr_iff status_error split: option.split_asm if_split_asm)
  from Cons.prems Cons.IH show ?case
    by (auto simp: bindr_Inr_iff en status_error sum_case_Inl dest: cr split: if_split_asm option.split_asm)
qed simp

lemma get_inode_error: "get_inode ops s path creds = Inr (Inl e) \<Longrightarrow> e \<noteq> ENOERR"
  by (auto simp: get_inode_def bindr_Inr_iff status_error dest: walk_path_error split: if_split_asm)

text \<open>Without force nothing is ever unmounted: either the answer is an error number and nothing changes, or
  the test for open files ends without an answer.\<close>

theorem unmount_needs_force:
  assumes "fsm_unmount ops s path False = Inr (err, s')"
  shows "err \<noteq> ENOERR \<and> s' = s"
proof -
  have b: "fm_busy_from m fs es \<noteq> Inr False" for m fs es
    by (induction es) (auto simp: bindr_Inr_iff split: if_split_asm)
  obtain x where x: "get_inode ops s path None = Inr x"
    using assms by (auto simp: fsm_unmount_def bindr_Inr_iff)
  show ?thesis
  proof (cases x)
    case (Inl e)
    then show ?thesis using assms x get_inode_error [of ops s path None e] by (simp add: fsm_unmount_def)
  next
    case (Inr i)
    obtain y where y: "mount_with_root ops (sy_world s) (sy_mounts s) i = Inr y"
      using assms x Inr by (auto simp: fsm_unmount_def bindr_Inr_iff)
    show ?thesis
    proof (cases y)
      case None
      then show ?thesis using assms x Inr y by (simp add: fsm_unmount_def errno_defs)
    next
      case (Some m)
      then show ?thesis using assms x Inr y b
        by (auto simp: fsm_unmount_def bindr_Inr_iff fm_is_filesystem_busy_def errno_defs split: if_split_asm)
    qed
  qed
qed

subsection \<open>Links across file systems\<close>

text \<open>Linking does not compare file systems: for a file of another file system, the new name is entered with
  that file's inode number and then stands for whatever inode has the number in the directory's own
  file system.\<close>

theorem link_crosses_file_systems:
  assumes "get_inode (kernel_ops z) s path (Some c) = Inr (Inr node)"
    and "get_inode (kernel_ops z) s newpath (Some c) = Inr (Inl ENOENT)" "newpath \<noteq> []"
    and "get_inode (kernel_ops z) s (butlast newpath) (Some c) = Inr (Inr dir)" "S_ISDIR (in_mode dir)" "may_write c dir"
    and "sy_world s (in_fs dir) = Some (FVirtual v)" "vf_wf v" "vf_self v = in_fs dir" "in_fs node \<noteq> in_fs dir"
    and "vf_valid v (in_id dir)" "vf_valid v (in_id node)" "length (last newpath) \<le> 127"
    and "vf_fetch v dir (last newpath) = Inr (NO_ENTRY, None)" "in_fs dir \<noteq> 0"
  shows "\<exists>s' i. fsm_link (kernel_ops z) s path newpath (Some c) = Inr (ENOERR, s')
    \<and> inode_fetch (kernel_ops z) (sy_world s') dir (last newpath) = Inr (SUCCESS, Some i)
    \<and> in_id i = in_id node \<and> in_fs i = in_fs dir \<and> \<not> inode_same i node"
proof -
  have "find (\<lambda>e. ve_name e = last newpath) (vi_entries (vf_inodes v ! unat (in_id dir))) = None"
    using assms(11,14) by (auto simp: vf_fetch_def vf_at_valid bindr_Inr_iff split: option.splits)
  from vf_link_fetch [OF assms(8,11,12,13) this] obtain v' i where
    l: "vf_link v dir node (last newpath) = Inr (SUCCESS, v')" "vf_fetch v' dir (last newpath) = Inr (SUCCESS, Some i)"
      "in_id i = in_id node" "vf_wf v'" by metis
  have "vf_self v' = vf_self v" "vf_valid v' (in_id dir)"
    using l(1) vf_link_relink [OF assms(11-13)] assms(11) by (auto simp: vf_relink_def)
  with vf_fetch_ok [OF l(4), of dir "last newpath"] l(2) assms(9) have i: "in_fs i = in_fs dir" by simp
  have "fsm_link (kernel_ops z) s path newpath (Some c) = Inr (ENOERR, with_world (put_vfs (sy_world s) (in_fs dir) v') s)"
  proof -
    have "fo_link (kernel_ops z) (in_fs dir) dir node (last newpath) (sy_world s) = Inr (SUCCESS, put_vfs (sy_world s) (in_fs dir) v')"
      using assms(7) l(1) by (simp add: op_defs)
    then show ?thesis using assms(1-6) by (simp add: fsm_link_def check_write_def path_file_def on_status_def status_to_syscallerror_def)
  qed
  moreover have "inode_fetch (kernel_ops z) (put_vfs (sy_world s) (in_fs dir) v') dir (last newpath) = Inr (SUCCESS, Some i)"
    using l(2) assms(15) by (simp add: inode_fetch_def op_defs put_vfs_def)
  ultimately show ?thesis using i l(3) assms(10) by (auto simp: with_world_def inode_same_def)
qed

subsection \<open>An example: \<open>/dev\<close> in the virtual root\<close>

definition demo_dev_dir :: inode where
  "demo_dev_dir = \<lparr>in_id = 2, in_fs = 9, in_links = 2, in_size = 0, in_mode = 0x41ed, in_uid = 0, in_gid = 0\<rparr>"

definition demo_root2 :: inode where
  "demo_root2 = demo_root\<lparr>in_links := 3\<rparr>"

definition demo_vfs2 :: vfs where
  "demo_vfs2 = \<lparr>vf_self = 9, vf_inodes = [vinode_empty,
    \<lparr>vi_inode = demo_root2, vi_data = None, vi_entries = [\<lparr>ve_id = 1, ve_name = ''.''\<rparr>, \<lparr>ve_id = 1, ve_name = ''..''\<rparr>, \<lparr>ve_id = 2, ve_name = ''dev''\<rparr>]\<rparr>,
    \<lparr>vi_inode = demo_dev_dir, vi_data = None, vi_entries = [\<lparr>ve_id = 2, ve_name = ''.''\<rparr>, \<lparr>ve_id = 1, ve_name = ''..''\<rparr>]\<rparr>]\<rparr>"

lemma demo_vfs2_mkdir: "vf_mkdir demo_vfs demo_root 0x1ed 0 0 ''dev'' = Inr (SUCCESS, Some (demo_dev_dir\<lparr>in_links := 0\<rparr>), demo_vfs2)"
  unfolding demo_vfs_eq demo_vfs2_def by code_simp

lemma demo_vfs2_wf: "vf_wf demo_vfs2"
proof -
  have l: "vf_valid demo_vfs (in_id demo_root)" "length (vf_inodes demo_vfs) + 1 < 4294967296" "length ''dev'' \<le> 127"
    using demo_vfs_wf(2) by (simp_all add: demo_root_def demo_vfs_eq)
  from vf_mkdir_wf [OF demo_vfs_wf(1) l, where mode = "0x1ed" and uid = 0 and gid = 0] show ?thesis using demo_vfs2_mkdir by auto
qed

definition demo_tree :: "fs_world fsys" where
  "demo_tree = fsm_init 1 9 [9 \<mapsto> FVirtual demo_vfs2, 5 \<mapsto> FDev demo_devs, 6 \<mapsto> FDev (demo_devs\<lparr>df_self := 6\<rparr>)]"

lemma demo_tree_sel: "sy_world demo_tree 9 = Some (FVirtual demo_vfs2)" "sy_world demo_tree 5 = Some (FDev demo_devs)"
  "sy_world demo_tree 6 = Some (FDev (demo_devs\<lparr>df_self := 6\<rparr>))" "sy_root demo_tree = 1"
  "sy_mounts demo_tree = [\<lparr>mnt_ptr = 1, mnt_point = null_inode, mnt_fs = 9, mnt_delete = False\<rparr>]"
  by (simp_all add: demo_tree_def fsm_init_def add_mount_def)

lemma demo_tree_roots:
  "fo_get_root (kernel_ops z) 9 (sy_world demo_tree) = Inr (SUCCESS, demo_root2)"
  "fo_get_root (kernel_ops z) 5 (sy_world demo_tree) = Inr (df_get_root demo_devs inode_zero)"
  by (simp_all add: op_defs demo_tree_sel vf_get_root_def vf_at_def demo_vfs2_def)

lemma demo_tree_mount_at: "in_fs i \<noteq> 0 \<Longrightarrow> mount_at (sy_mounts demo_tree) i = None"
  by (auto simp: mount_at_def demo_tree_sel inode_same_def null_inode_def inode_zero_def)

lemma demo_tree_fetch: "inode_fetch (kernel_ops z) (sy_world demo_tree) demo_root2 ''dev'' = Inr (SUCCESS, Some demo_dev_dir)"
  by (simp add: inode_fetch_def op_defs demo_tree_sel demo_root2_def demo_root_def vf_fetch_def vf_at_def demo_vfs2_def)

lemma demo_tree_dev: "leads_to_dir (kernel_ops z) demo_tree [''dev''] [demo_root2] demo_dev_dir"
proof -
  have "cross_mount (kernel_ops z) demo_tree demo_dev_dir = Inr (Inr demo_dev_dir)"
    by (simp add: cross_mount_def demo_tree_mount_at demo_dev_dir_def)
  then have "resolves (kernel_ops z) demo_tree demo_root2 [''dev''] [demo_root2] demo_dev_dir"
    using demo_tree_fetch [of z] by (auto simp: resolves_simps lookup_dir_def)
  moreover have "S_ISDIR (in_mode demo_dev_dir)" "S_ISDIR (in_mode demo_root2)" "\<not> inode_same demo_dev_dir demo_root2"
    "demo_root2 \<noteq> demo_dev_dir" by code_simp+
  moreover have "root_mount demo_tree = Inr \<lparr>mnt_ptr = 1, mnt_point = null_inode, mnt_fs = 9, mnt_delete = False\<rparr>"
    by (simp add: root_mount_def demo_tree_sel)
  ultimately show ?thesis by (simp add: leads_to_dir_def demo_tree_roots) (simp add: demo_tree_sel demo_tree_roots)
qed

definition demo_dev_root :: inode where
  "demo_dev_root = snd (df_get_root demo_devs inode_zero)"

lemma demo_dev_root: "df_get_root demo_devs inode_zero = (SUCCESS, demo_dev_root)" "S_ISDIR (in_mode demo_dev_root)"
  by code_simp+

lemmas demo_mount = demo_tree_dev demo_tree_mount_at [of demo_dev_dir] demo_tree_roots(2) [unfolded demo_dev_root(1)]

theorem mounted_root_is_found_witness:
  "\<exists>s'. fsm_mount (kernel_ops (\<lambda>_. 0)) 2 demo_tree [''dev''] 5 False = Inr (ENOERR, s')
    \<and> get_inode (kernel_ops (\<lambda>_. 0)) s' [''dev''] None = Inr (Inr demo_dev_root)"
  using mounted_root_is_found [OF demo_mount(1) _ demo_mount(3), where p = 2 and del = False] demo_mount(2)
  by (force simp: demo_dev_dir_def denied_def)

theorem second_mount_is_hidden_witness:
  "\<exists>s1 s2. fsm_mount (kernel_ops (\<lambda>_. 0)) 2 demo_tree [''dev''] 5 False = Inr (ENOERR, s1)
    \<and> fsm_mount (kernel_ops (\<lambda>_. 0)) 3 s1 [''dev''] 6 False = Inr (ENOERR, s2) \<and> length (sy_mounts s2) = 3"
proof -
  have "in_fs demo_dev_root \<noteq> in_fs demo_dev_dir" "in_fs demo_dev_root \<noteq> in_fs demo_root2"
    "in_fs demo_dev_root \<noteq> 0" "in_fs demo_dev_dir \<noteq> 0" by code_simp+
  then have h: "mount_at (sy_mounts demo_tree) demo_dev_dir = None" "mount_at (sy_mounts demo_tree) demo_dev_root = None"
      "\<not> inode_same demo_dev_dir demo_dev_root" "\<forall>d \<in> set [demo_root2]. \<not> inode_same demo_dev_root d"
    by (auto simp: demo_tree_mount_at inode_same_def)
  have l: "length (sy_mounts demo_tree) + 2 = 3" by (simp add: demo_tree_sel)
  show ?thesis
    using second_mount_is_hidden [OF demo_mount(1) h(1) demo_mount(3) demo_dev_root(2) h(2-4), where p = 2 and del = False and q = 3 and ?fs2.0 = 6 and ?del2.0 = False]
    unfolding l by blast
qed

theorem unmount_undoes_mount_witness:
  "\<exists>s1 s2. fsm_mount (kernel_ops (\<lambda>_. 0)) 2 demo_tree [''dev''] 5 False = Inr (ENOERR, s1)
    \<and> fsm_unmount (kernel_ops (\<lambda>_. 0)) s1 [''dev''] True = Inr (ENOERR, s2) \<and> sy_mounts s2 = sy_mounts demo_tree"
proof -
  have d: "in_fs demo_root2 \<noteq> in_fs demo_dev_root" "in_fs demo_dev_dir \<noteq> 0" by code_simp+
  have u: "fo_unmount (kernel_ops (\<lambda>_. 0)) 5 (sy_world demo_tree) = Inr (sy_world demo_tree)" by (simp add: op_defs demo_tree_sel)
  have m: "\<forall>n \<in> set (sy_mounts demo_tree). \<exists>k. fo_get_root (kernel_ops (\<lambda>_. 0)) (mnt_fs n) (sy_world demo_tree) = Inr (SUCCESS, k)
      \<and> \<not> inode_same k demo_dev_root"
    using d(1) by (simp add: demo_tree_sel(5) demo_tree_roots(1) inode_same_def)
  have p: "(2 :: nat) \<notin> mnt_ptr ` set (sy_mounts demo_tree)" by (simp add: demo_tree_sel)
  from unmount_undoes_mount [OF demo_mount(1) demo_mount(2) [OF d(2)] demo_mount(3) u m p] show ?thesis by blast
qed

theorem unmount_needs_force_witness:
  "\<exists>err. fsm_unmount (kernel_ops (\<lambda>_. 0)) demo_tree [''dev''] False = Inr (err, demo_tree) \<and> err \<noteq> ENOERR"
proof -
  have g: "get_inode (kernel_ops (\<lambda>_. 0)) demo_tree [''dev''] None = Inr (Inr demo_dev_dir)"
    by (rule leads_to_dir_get [OF demo_tree_dev])
  have "\<not> inode_same demo_root2 demo_dev_dir" by code_simp
  then have "fsm_unmount (kernel_ops (\<lambda>_. 0)) demo_tree [''dev''] False = Inr (ENOENT, demo_tree)"
    by (simp add: fsm_unmount_def g demo_tree_sel(5) demo_tree_roots(1))
  from unmount_needs_force [OF this] this show ?thesis by blast
qed

lemma demo_tree_perms: "may_exec root_creds demo_root2" "may_write root_creds demo_root2" "S_ISDIR (in_mode demo_root2)"
  "may_exec root_creds demo_dev_root"
  by code_simp+

lemma demo_tree_walk:
  assumes "sy_world s = sy_world demo_tree" "sy_mounts s = sy_mounts demo_tree @ ms" "sy_root s = 1"
  shows "get_inode (kernel_ops z) s path creds = walk_path (kernel_ops z) s creds demo_root2 path"
  using assms by (simp add: get_inode_def root_mount_def demo_tree_sel(5) demo_tree_roots)

theorem link_crosses_file_systems_witness:
  "\<exists>s' i. fsm_link (kernel_ops (\<lambda>_. 0)) (add_mount 2 demo_dev_dir 5 False demo_tree) [''dev'', ''tty''] [''x''] (Some root_creds) = Inr (ENOERR, s')
    \<and> inode_fetch (kernel_ops (\<lambda>_. 0)) (sy_world s') demo_root2 ''x'' = Inr (SUCCESS, Some i) \<and> in_fs i = 9"
proof -
  let ?ops = "kernel_ops (\<lambda>_. 0)" and ?s = "add_mount 2 demo_dev_dir 5 False demo_tree"
  let ?tty = "di_to_inode (\<lambda>_. 0) 5 (hd (df_devices demo_devs)) inode_zero"
  note walk = demo_tree_walk [of ?s, simplified add_mount_simps demo_tree_sel(4), OF refl refl refl]
  have fs: "in_fs demo_dev_root = 5" "in_fs demo_dev_dir = 9" "in_fs demo_root2 = 9" by code_simp+
  have c1: "cross_mount ?ops ?s demo_dev_dir = Inr (Inr demo_dev_root)"
    using demo_tree_mount_at [of demo_dev_dir] demo_mount(3) [of "\<lambda>_. 0"] fs
    by (simp add: cross_mount_def mount_at_def find_append_None)
  have f2: "inode_fetch ?ops (sy_world demo_tree) demo_dev_root ''tty'' = Inr (SUCCESS, Some ?tty)"
  proof -
    have "df_fetch (\<lambda>_. 0) demo_devs demo_dev_root inode_zero ''tty'' = (SUCCESS, ?tty)" by code_simp
    then show ?thesis using fs by (simp add: inode_fetch_def op_defs demo_tree_sel)
  qed
  have t: "in_fs ?tty = 5" "in_id ?tty = 2" by (simp_all add: di_to_inode_def demo_devs_def)
  then have c2: "cross_mount ?ops ?s ?tty = Inr (Inr ?tty)"
    using demo_tree_mount_at [of ?tty] fs by (simp add: cross_mount_def mount_at_def find_append_None inode_same_def)
  have d: "S_ISDIR (in_mode demo_root2)" "S_ISDIR (in_mode demo_dev_root)"
    using demo_tree_perms demo_dev_root(2) by simp_all
  have g: "get_inode ?ops ?s [''dev'', ''tty''] (Some root_creds) = Inr (Inr ?tty)"
    using demo_tree_fetch c1 f2 c2 by (simp add: walk denied_def demo_tree_perms d lookup_dir_def)
  have nf: "vf_fetch demo_vfs2 demo_root2 ''x'' = Inr (NO_ENTRY, None)" by code_simp
  then have nf': "inode_fetch ?ops (sy_world demo_tree) demo_root2 ''x'' = Inr (NO_ENTRY, None)"
    using fs by (simp add: inode_fetch_def op_defs demo_tree_sel)
  have n: "get_inode ?ops ?s [''x''] (Some root_creds) = Inr (Inl ENOENT)"
    using nf' by (simp add: walk denied_def demo_tree_perms d lookup_dir_def status_to_syscallerror_def)
  have r: "get_inode ?ops ?s (butlast [''x'']) (Some root_creds) = Inr (Inr demo_root2)" by (simp add: walk)
  have v: "vf_valid demo_vfs2 (in_id demo_root2)" "vf_valid demo_vfs2 (in_id ?tty)"
    unfolding t(2) by code_simp+
  have o: "sy_world ?s (in_fs demo_root2) = Some (FVirtual demo_vfs2)" "vf_self demo_vfs2 = in_fs demo_root2" "in_fs ?tty \<noteq> in_fs demo_root2"
    "in_fs demo_root2 \<noteq> 0" using fs t by (simp_all add: demo_tree_sel demo_vfs2_def)
  from link_crosses_file_systems [OF g n _ r d(1) demo_tree_perms(2) o(1) demo_vfs2_wf o(2,3) v] nf o(4) fs show ?thesis
    by force
qed

end
