(* ===== verification/Boot_Root.thy ===== *)
theory Boot_Root
  imports Fs_Props
begin

text \<open>
  The part of \<open>kmain\<close> that replaces the temporary root by the file system on the disk
  (\<open>kernel/src/main.cpp\<close>): the path operations of the file system manager in the order the kernel
  makes them, every error a panic.
\<close>

definition expect_ok :: "(u32 \<times> 'w fsys) result \<Rightarrow> 'w fsys result" where
  "expect_ok r = bindr r (\<lambda>(err, s). if err \<noteq> ENOERR then Inl Panic else Inr s)"

text \<open>\<open>devfs\<close> is the device file system, \<open>create_fs\<close> is \<open>create_fs_from_fd\<close>, and \<open>p\<close>, \<open>q\<close>, \<open>r\<close> are the
  addresses of the three mounts.\<close>

definition dev_mode :: u32 where
  "dev_mode = 0x1c0 OR 0x020 OR 0x008 OR 0x004 OR 0x001"

definition boot_root :: "'w fs_ops \<Rightarrow> nat \<Rightarrow> (nat \<Rightarrow> 'w \<Rightarrow> (nat \<times> 'w) result) \<Rightarrow> nat \<Rightarrow> nat \<Rightarrow> nat \<Rightarrow> 'w fsys \<Rightarrow> 'w fsys result" where
  "boot_root ops devfs create_fs p q r s0 =
     bindr (expect_ok (fsm_mkdir ops s0 [''dev''] dev_mode None)) (\<lambda>s1.
     bindr (expect_ok (fsm_mount ops p s1 [''dev''] devfs False)) (\<lambda>s2.
     bindr (fsm_open ops s2 [''dev'', ''sdb''] O_RDWR None) (\<lambda>(x, s3).
     case x of Inl err \<Rightarrow> Inl Panic | Inr fd \<Rightarrow>
     bindr (expect_ok (fsm_unmount ops s3 [''dev''] True)) (\<lambda>s4.
     bindr (expect_ok (fsm_unmount ops s4 [] True)) (\<lambda>s5.
     bindr (create_fs fd (sy_world s5)) (\<lambda>(fs, w).
     bindr (expect_ok (fsm_mount_fd ops q (with_world w s5) [] fs)) (\<lambda>s6.
     bindr (fsm_mkdir ops s6 [''dev''] dev_mode None) (\<lambda>(err, s7).
     if err \<noteq> ENOERR \<and> err \<noteq> EEXIST then Inl Panic
     else expect_ok (fsm_mount ops r s7 [''dev''] devfs False)))))))))"

lemma expect_ok_Inr: "expect_ok m = Inr s \<longleftrightarrow> m = Inr (ENOERR, s)"
  by (auto simp: expect_ok_def bindr_Inr_iff split: if_split_asm)

lemma create_inode_mounts:
  assumes "create_inode ops s path mode creds = Inr (x, s')"
  shows "sy_mounts s' = sy_mounts s \<and> sy_root s' = sy_root s"
proof -
  have "s' = s \<or> (\<exists>w. s' = with_world w s)"
  proof -
    obtain r where r: "get_inode ops s (butlast path) creds = Inr r"
      using assms by (auto simp: create_inode_def bindr_Inr_iff)
    show ?thesis
    proof (cases r)
      case (Inr d)
      show ?thesis
      proof (cases "S_ISDIR (in_mode d) \<and> \<not> denied may_write creds d")
        case True
        obtain y where y: "get_inode ops s path creds = Inr y"
          using assms r Inr True by (auto simp: create_inode_def bindr_Inr_iff)
        show ?thesis
        proof (cases "(case y of Inl e \<Rightarrow> e | Inr _ \<Rightarrow> ENOERR) = ENOENT")
          case e: True
          show ?thesis using assms r Inr True y e
            by (cases "mode AND S_IFMT = S_IFDIR") (auto simp: create_inode_def Let_def bindr_Inr_iff split: if_split_asm)
        qed (use assms r Inr True y in \<open>auto simp: create_inode_def Let_def\<close>)
      qed (use assms r Inr in \<open>auto simp: create_inode_def split: if_split_asm\<close>)
    qed (use assms r in \<open>simp add: create_inode_def\<close>)
  qed
  then show ?thesis by (auto simp: with_world_def)
qed

lemma fsm_mkdir_mounts: "fsm_mkdir ops s path mode creds = Inr (err, s') \<Longrightarrow> sy_mounts s' = sy_mounts s \<and> sy_root s' = sy_root s"
  by (auto simp: fsm_mkdir_def bindr_Inr_iff dest: create_inode_mounts)

lemma open_inode_mounts:
  assumes "open_inode ops s i creds = Inr (x, s')"
  shows "sy_mounts s' = sy_mounts s \<and> sy_root s' = sy_root s"
proof -
  obtain q m where f: "fm_fetch_inode_fd (in_id i) (in_fs i) (sy_fdm s) = Inr (q, m)"
    using assms by (auto simp: open_inode_def bindr_Inr_iff)
  show ?thesis
  proof (cases "q = 0")
    case True
    then obtain meth where "fo_get_open_method ops (in_fs i) i (sy_world s) = Inr meth"
      using assms f by (auto simp: open_inode_def bindr_Inr_iff split: if_split_asm)
    then show ?thesis using assms f True
      by (cases meth) (auto simp: open_inode_def bindr_Inr_iff Let_def with_world_def split: if_split_asm)
  qed (use assms f in \<open>auto simp: open_inode_def\<close>)
qed

lemma fsm_open_mounts: "fsm_open ops s path flags creds = Inr (x, s') \<Longrightarrow> sy_mounts s' = sy_mounts s \<and> sy_root s' = sy_root s"
  by (auto simp: fsm_open_def bindr_Inr_iff sum_case_iff split: if_split_asm dest!: create_inode_mounts open_inode_mounts)

lemma fsm_mount_mounts:
  assumes "fsm_mount ops p s path fs del = Inr (ENOERR, s')" "path \<noteq> []"
  shows "\<exists>dir. get_inode ops s path None = Inr (Inr dir) \<and> S_ISDIR (in_mode dir) \<and> mount_at (sy_mounts s) dir = None
    \<and> s' = add_mount p dir fs del s"
proof -
  have e: "EEXIST \<noteq> ENOERR" "ENOTDIR \<noteq> ENOERR" by (simp_all add: errno_defs)
  obtain x where x: "get_inode ops s path None = Inr x" using assms by (auto simp: fsm_mount_def bindr_Inr_iff)
  then show ?thesis using assms e get_inode_error [of ops s path None]
    by (cases x) (auto simp: fsm_mount_def Let_def split: if_split_asm)
qed

lemma fsm_mount_root:
  assumes "fsm_mount ops p s [] fs del = Inr (ENOERR, s')"
  shows "mount_at (sy_mounts s) null_inode = None \<and> s' = (add_mount p null_inode fs del s)\<lparr>sy_root := p\<rparr>"
  using assms by (auto simp: fsm_mount_def errno_defs Let_def split: if_split_asm)

lemma fsm_unmount_mounts:
  assumes "fsm_unmount ops s path True = Inr (ENOERR, s')"
  shows "\<exists>m \<in> set (sy_mounts s). sy_mounts s' = remove1 m (sy_mounts s) \<and> sy_root s' = sy_root s"
proof -
  have e: "ENOENT \<noteq> ENOERR" by (simp add: errno_defs)
  have m: "mount_with_root ops w ms i = Inr (Some m) \<Longrightarrow> m \<in> set ms" for w ms i m
    by (induction ms) (auto simp: bindr_Inr_iff split: if_split_asm)
  obtain i where i: "get_inode ops s path None = Inr (Inr i)"
    using assms get_inode_error [of ops s path None] by (auto simp: fsm_unmount_def bindr_Inr_iff sum_case_iff)
  obtain y where y: "mount_with_root ops (sy_world s) (sy_mounts s) i = Inr y"
    using assms i by (auto simp: fsm_unmount_def bindr_Inr_iff)
  show ?thesis
  proof (cases y)
    case (Some n)
    then show ?thesis using assms i y m [of "sy_world s" "sy_mounts s" i n]
      by (auto simp: fsm_unmount_def bindr_Inr_iff with_world_def split: if_split_asm)
  qed (use assms i y e in \<open>simp add: fsm_unmount_def\<close>)
qed

text \<open>When the kernel gets past mounting its disk, the root mount is the file system made from the opened
  \<open>/dev/sdb\<close>, and \<open>/dev\<close> is a directory of it on which the device file system is mounted.\<close>

theorem boot_mounts_disk_and_devices:
  assumes "boot_root ops devfs create_fs p q r s = Inr s'" "p \<noteq> q" "q \<notin> mnt_ptr ` set (sy_mounts s)"
  shows "\<exists>fd fs w w' m dir s7. create_fs fd w = Inr (fs, w') \<and> fs \<noteq> 0
    \<and> root_mount s' = Inr m \<and> mnt_fs m = fs \<and> mnt_ptr m = q \<and> mnt_delete m
    \<and> get_inode ops s7 [''dev''] None = Inr (Inr dir) \<and> S_ISDIR (in_mode dir) \<and> s' = add_mount r dir devfs False s7"
proof -
  from assms(1) obtain s1 s2 fd s3 s4 s5 fs w' s6 err s7 where st:
    "fsm_mkdir ops s [''dev''] dev_mode None = Inr (ENOERR, s1)"
    "fsm_mount ops p s1 [''dev''] devfs False = Inr (ENOERR, s2)"
    "fsm_open ops s2 [''dev'', ''sdb''] O_RDWR None = Inr (Inr fd, s3)"
    "fsm_unmount ops s3 [''dev''] True = Inr (ENOERR, s4)" "fsm_unmount ops s4 [] True = Inr (ENOERR, s5)"
    "create_fs fd (sy_world s5) = Inr (fs, w')" "fsm_mount_fd ops q (with_world w' s5) [] fs = Inr (ENOERR, s6)"
    "fsm_mkdir ops s6 [''dev''] dev_mode None = Inr (err, s7)" "fsm_mount ops r s7 [''dev''] devfs False = Inr (ENOERR, s')"
    unfolding boot_root_def by (auto simp: bindr_Inr_iff expect_ok_Inr sum_case_iff split: if_split_asm)
  have q2: "q \<notin> mnt_ptr ` set (sy_mounts s2)"
    using fsm_mkdir_mounts [OF st(1)] fsm_mount_mounts [OF st(2)] assms(2,3) by auto
  then have "q \<notin> mnt_ptr ` set (sy_mounts s5)"
    using fsm_open_mounts [OF st(3)] fsm_unmount_mounts [OF st(4)] fsm_unmount_mounts [OF st(5)]
    by (auto dest!: notin_set_remove1 [rotated] set_remove1_subset [THEN subsetD])
  moreover have fs: "fs \<noteq> 0" "fsm_mount ops q (with_world w' s5) [] fs True = Inr (ENOERR, s6)"
    using st(7) by (auto simp: fsm_mount_fd_def errno_defs bindr_Inr_iff split: if_split_asm)
  ultimately have "find (\<lambda>m. mnt_ptr m = q) (sy_mounts s5) = None" "s6 = (add_mount q null_inode fs True (with_world w' s5))\<lparr>sy_root := q\<rparr>"
    using fsm_mount_root [OF fs(2)] by (auto simp: find_None_iff image_iff)
  then have r6: "root_mount s6 = Inr \<lparr>mnt_ptr = q, mnt_point = null_inode, mnt_fs = fs, mnt_delete = True\<rparr>"
    by (simp add: root_mount_def with_world_def find_append_None)
  from fsm_mount_mounts [OF st(9)] obtain dir where dir: "get_inode ops s7 [''dev''] None = Inr (Inr dir)"
    "S_ISDIR (in_mode dir)" "s' = add_mount r dir devfs False s7" by blast
  have "root_mount s' = Inr \<lparr>mnt_ptr = q, mnt_point = null_inode, mnt_fs = fs, mnt_delete = True\<rparr>"
    using root_mount_append [OF r6, of s'] fsm_mkdir_mounts [OF st(8)] dir(3) by simp
  then show ?thesis using st(6) fs(1) dir by (intro exI conjI) (assumption | simp)+
qed

definition demo_disk_devs :: devfs where
  "demo_disk_devs = \<lparr>df_self = 5, df_devices = [\<lparr>di_id = 2, di_type = BLOCK_DEVICE, di_device = 88, di_name = ''sdb''\<rparr>], df_counter = 3\<rparr>"

definition demo_boot :: "fs_world fsys result" where
  "demo_boot = boot_root (kernel_ops (\<lambda>_. 0)) 5 (\<lambda>fd w. Inr (8, w(8 \<mapsto> FVirtual (case vf_new 8 of Inr v \<Rightarrow> v | Inl _ \<Rightarrow> demo_vfs)))) 2 3 4
     (fsm_init 1 9 [9 \<mapsto> FVirtual demo_vfs, 5 \<mapsto> FDev demo_disk_devs])"

lemma demo_boot_returns: "returns demo_boot"
  by code_simp

theorem boot_mounts_disk_and_devices_witness:
  "\<exists>s' m. demo_boot = Inr s' \<and> root_mount s' = Inr m \<and> mnt_fs m = 8 \<and> mnt_ptr m = 3"
proof -
  obtain s' where s': "demo_boot = Inr s'" using demo_boot_returns by (auto simp: returns_iff)
  have "(2 :: nat) \<noteq> 3" "(3 :: nat) \<notin> mnt_ptr ` set (sy_mounts (fsm_init 1 9 [9 \<mapsto> FVirtual demo_vfs, 5 \<mapsto> FDev demo_disk_devs]))"
    by (simp_all add: fsm_init_def add_mount_def)
  from boot_mounts_disk_and_devices [OF s' [unfolded demo_boot_def] this] s' show ?thesis by force
qed

end
