(* ===== verification/Handle_Io.thy ===== *)
theory Handle_Io
  imports Handles
begin

text \<open>
  Reading and writing through a file handle (\<open>FileDescriptionHandle::read\<close> and \<open>write\<close> of
  \<open>kernel/src/proc/process.cpp\<close>) over the virtual methods of \<open>FileDescription\<close> (\<open>fd.hpp\<close>), a record of
  functions on the state \<open>'w\<close> of all descriptions whose first argument is the description.

  A thread in \<open>await_event\<close> sleeps while others run: the list \<open>es\<close> holds what happens to the state in each
  of its sleeps, in order; a thread that has to sleep once more sleeps forever (\<open>Hang\<close>). The user's
  buffer is the list of its bytes. \<open>access_mutex\<close> is held over one call of a method only, and is left out.
\<close>

record 'w fd_ops =
  fd_has_size :: "nat \<Rightarrow> 'w \<Rightarrow> bool"
  fd_get_size :: "nat \<Rightarrow> 'w \<Rightarrow> u64"
  fd_read :: "nat \<Rightarrow> u64 \<Rightarrow> u64 \<Rightarrow> 'w \<Rightarrow> (u64 \<times> u8 list \<times> 'w) result"
  fd_write :: "nat \<Rightarrow> u8 list \<Rightarrow> u64 \<Rightarrow> u64 \<Rightarrow> 'w \<Rightarrow> (u64 \<times> 'w) result"
  fd_can_read :: "nat \<Rightarrow> 'w \<Rightarrow> bool result"
  fd_can_write :: "nat \<Rightarrow> 'w \<Rightarrow> bool result"
  fd_should_block :: "nat \<Rightarrow> 'w \<Rightarrow> bool"
  fd_ioctl_count :: "nat \<Rightarrow> u32 \<Rightarrow> 'w \<Rightarrow> u32"
  fd_ioctl :: "nat \<Rightarrow> u32 \<Rightarrow> u32 list \<Rightarrow> 'w \<Rightarrow> (u32 \<times> u32 list \<times> 'w) result"

text \<open>Counts are \<open>u64\<close> for the methods and \<open>usize\<close> for the handle.\<close>

definition advance :: "'w fd_ops \<Rightarrow> 'w \<Rightarrow> usize \<Rightarrow> handle \<Rightarrow> handle" where
  "advance ops w n h = (if fd_has_size ops (h_fd h) w then h\<lparr>h_ptr := h_ptr h + n\<rparr> else h)"

text \<open>\<open>read_raw\<close> into the buffer from the index \<open>i\<close>, and \<open>write_raw\<close> of the bytes from the index \<open>i\<close>.\<close>

definition h_read_raw :: "'w fd_ops \<Rightarrow> handle \<Rightarrow> u8 list \<Rightarrow> nat \<Rightarrow> usize \<Rightarrow> 'w \<Rightarrow> (usize \<times> u8 list \<times> handle \<times> 'w) result" where
  "h_read_raw ops h buf i n w = bindr (fd_read ops (h_fd h) (ucast (h_ptr h)) (ucast n) w) (\<lambda>(r, xs, w').
     bindr (poke buf i xs) (\<lambda>buf'. Inr (ucast r, buf', advance ops w' (ucast r) h, w')))"

definition h_write_raw :: "'w fd_ops \<Rightarrow> handle \<Rightarrow> u8 list \<Rightarrow> nat \<Rightarrow> usize \<Rightarrow> 'w \<Rightarrow> (usize \<times> handle \<times> 'w) result" where
  "h_write_raw ops h buf i n w = bindr (fd_write ops (h_fd h) (drop i buf) (ucast (h_ptr h)) (ucast n) w) (\<lambda>(r, w').
     Inr (ucast r, advance ops w' (ucast r) h, w'))"

fun h_read_loop :: "'w fd_ops \<Rightarrow> ('w \<Rightarrow> 'w) list \<Rightarrow> usize \<Rightarrow> usize \<Rightarrow> u8 list \<Rightarrow> handle \<Rightarrow> 'w
    \<Rightarrow> (usize \<times> u8 list \<times> handle \<times> 'w) result" where
  "h_read_loop ops [] n ret buf h w = (if ret < n then Inl Hang else Inr (ret, buf, h, w))"
| "h_read_loop ops (e # es) n ret buf h w = (if ret < n then
     bindr (fd_can_read ops (h_fd h) (e w)) (\<lambda>c.
       if \<not> c then h_read_loop ops es n ret buf h (e w)
       else bindr (h_read_raw ops h buf (unat ret) (n - ret) (e w)) (\<lambda>(r, buf', h', w').
         h_read_loop ops es n (ret + r) buf' h' w'))
     else Inr (ret, buf, h, w))"

definition h_read :: "'w fd_ops \<Rightarrow> ('w \<Rightarrow> 'w) list \<Rightarrow> handle \<Rightarrow> u8 list \<Rightarrow> usize \<Rightarrow> 'w \<Rightarrow> (usize \<times> u8 list \<times> handle \<times> 'w) result" where
  "h_read ops es h buf n w = bindr (h_read_raw ops h buf 0 n w) (\<lambda>(ret, buf', h', w').
     if \<not> fd_should_block ops (h_fd h') w' \<or> has_flag (h_flags h') O_NONBLOCK then Inr (ret, buf', h', w')
     else h_read_loop ops es n ret buf' h' w')"

fun h_write_loop :: "'w fd_ops \<Rightarrow> ('w \<Rightarrow> 'w) list \<Rightarrow> usize \<Rightarrow> usize \<Rightarrow> u8 list \<Rightarrow> handle \<Rightarrow> 'w \<Rightarrow> (usize \<times> handle \<times> 'w) result" where
  "h_write_loop ops [] n ret buf h w = (if ret < n then Inl Hang else Inr (ret, h, w))"
| "h_write_loop ops (e # es) n ret buf h w = (if ret < n then
     bindr (fd_can_write ops (h_fd h) (e w)) (\<lambda>c.
       if \<not> c then h_write_loop ops es n ret buf h (e w)
       else bindr (h_write_raw ops h buf (unat ret) (n - ret) (e w)) (\<lambda>(r, h', w').
         h_write_loop ops es n (ret + r) buf h' w'))
     else Inr (ret, h, w))"

definition h_write :: "'w fd_ops \<Rightarrow> ('w \<Rightarrow> 'w) list \<Rightarrow> handle \<Rightarrow> u8 list \<Rightarrow> usize \<Rightarrow> 'w \<Rightarrow> (usize \<times> handle \<times> 'w) result" where
  "h_write ops es h buf n w = (let h0 = (if has_flag (h_flags h) O_APPEND then h\<lparr>h_ptr := ucast (fd_get_size ops (h_fd h) w)\<rparr> else h) in
     bindr (h_write_raw ops h0 buf 0 n w) (\<lambda>(ret, h', w').
     if \<not> fd_should_block ops (h_fd h') w' \<or> has_flag (h_flags h') O_NONBLOCK then Inr (ret, h', w')
     else h_write_loop ops es n ret buf h' w'))"

subsection \<open>Streams of bytes\<close>

text \<open>A blocking source without a position: what is pending is read in order, as much of it as is asked
  for. \<open>ok k\<close> are the states of the source that have room for \<open>k\<close> more bytes.\<close>

locale byte_source =
  fixes ops :: "'w fd_ops"
    and p :: nat
    and ok :: "nat \<Rightarrow> 'w \<Rightarrow> bool"
    and pending :: "'w \<Rightarrow> u8 list"
  assumes src_read: "ok k w \<Longrightarrow> \<exists>m w'. fd_read ops p off n w = Inr (m, take (unat m) (pending w), w')
      \<and> unat m = min (unat n) (length (pending w)) \<and> ok k w' \<and> pending w' = drop (unat m) (pending w)"
    and src_can_read: "ok k w \<Longrightarrow> fd_can_read ops p w = Inr (pending w \<noteq> [])"
    and src_blocks: "ok k w \<Longrightarrow> fd_should_block ops p w \<and> \<not> fd_has_size ops p w"
begin

text \<open>An event that delivers the bytes \<open>xs\<close>, and no other.\<close>

definition delivers :: "('w \<Rightarrow> 'w) \<Rightarrow> u8 list \<Rightarrow> bool" where
  "delivers e xs \<longleftrightarrow> (\<forall>k w. ok (length xs + k) w \<longrightarrow> ok k (e w) \<and> pending (e w) = pending w @ xs)"

lemma raw_read:
  assumes "ok k w" "h_fd h = p" "i + unat n \<le> length buf"
  shows "\<exists>r w'. h_read_raw ops h buf i n w = Inr (r, take i buf @ take (unat n) (pending w) @ drop (i + unat r) buf, h, w')
    \<and> unat r = min (unat n) (length (pending w)) \<and> ok k w' \<and> pending w' = drop (unat n) (pending w)"
proof -
  from src_read [OF assms(1), of "ucast (h_ptr h)" "ucast n"] obtain m w' where
    m: "fd_read ops p (ucast (h_ptr h)) (ucast n) w = Inr (m, take (unat m) (pending w), w')"
      "unat m = min (unat n) (length (pending w))" "ok k w'" "pending w' = drop (unat m) (pending w)" by auto
  have "unat m < 4294967296" using m(2) unat32 [of n] by simp
  then have r: "unat (ucast m :: usize) = min (unat n) (length (pending w))" using m(2) by (simp only: unat_ucast_down)
  have t: "take (unat m) (pending w) = take (unat n) (pending w)" "drop (unat m) (pending w) = drop (unat n) (pending w)"
    using m(2) by (simp_all add: min_def)
  have l: "length (take (unat n) (pending w)) = unat m" using m(2) by simp
  have "i + unat m \<le> length buf" using assms(3) m(2) by simp
  then have "poke buf i (take (unat n) (pending w)) = Inr (take i buf @ take (unat n) (pending w) @ drop (i + unat m) buf)"
    using l by (simp only: poke_def if_True)
  moreover have "unat (ucast m :: usize) = unat m" using r m(2) by simp
  ultimately have "h_read_raw ops h buf i n w
      = Inr (ucast m, take i buf @ take (unat n) (pending w) @ drop (i + unat (ucast m :: usize)) buf, h, w')"
    using assms(2) m(1) src_blocks [OF m(3)] t(1) by (simp add: h_read_raw_def advance_def)
  then show ?thesis using r m(3,4) t(2) by metis
qed

lemma loop_reads:
  assumes "list_all2 delivers es xss" "ok (length (concat xss)) w" "h_fd h = p" "length got = unat ret"
    and "unat ret \<le> unat n" "unat n \<le> length got + length rest" "unat ret < unat n \<longrightarrow> pending w = []"
  shows "(if unat n \<le> length (got @ concat xss)
    then \<exists>w'. h_read_loop ops es n ret (got @ rest) h w = Inr (n, take (unat n) (got @ concat xss) @ drop (unat n - length got) rest, h, w')
    else h_read_loop ops es n ret (got @ rest) h w = Inl Hang)"
  using assms
proof (induction es xss arbitrary: w got ret rest rule: list_all2_induct)
  case Nil
  then show ?case by (auto simp: word_less_unat word_unat_eq_iff)
next
  case (Cons e es xs xss)
  show ?case
  proof (cases "ret < n")
    case False
    then have "unat ret = unat n" using Cons.prems(4) by (simp add: word_less_unat)
    then have "ret = n" "unat n = length got" using Cons.prems(3) by (simp_all add: word_unat_eq_iff)
    then show ?thesis using False by simp
  next
    case True
    then have lt: "unat ret < unat n" by (simp add: word_less_unat)
    then have e: "ok (length (concat xss)) (e w)" "pending (e w) = xs"
      using Cons.hyps(1) Cons.prems(1,6) by (simp_all add: delivers_def)
    note c = src_can_read [OF e(1)]
    show ?thesis
    proof (cases "xs = []")
      case empty: True
      then have "h_read_loop ops (e # es) n ret (got @ rest) h w = h_read_loop ops es n ret (got @ rest) h (e w)"
        using e(2) c True Cons.prems(2) by simp
      moreover have "unat ret < unat n \<longrightarrow> pending (e w) = []" using e(2) empty by simp
      note Cons.IH [OF e(1) Cons.prems(2-5) this]
      ultimately show ?thesis using empty by (simp only: concat.simps append_Nil)
    next
      case False
      have nr: "unat (n - ret) = unat n - unat ret" using lt by (simp add: unat_diff_le)
      from raw_read [OF e(1) Cons.prems(2), of "unat ret" "n - ret" "got @ rest"] nr lt Cons.prems(3,5) e(2) obtain r w' where
        r: "h_read_raw ops h (got @ rest) (unat ret) (n - ret) (e w) = Inr (r, got @ take (unat (n - ret)) xs @ drop (unat r) rest, h, w')"
          "unat r = min (unat n - unat ret) (length xs)" "ok (length (concat xss)) w'" "pending w' = drop (unat (n - ret)) xs"
        by auto
      let ?got = "got @ take (unat (n - ret)) xs" and ?rest = "drop (unat r) rest"
      have n32: "unat n < 4294967296" by (rule unat32)
      have rr: "unat (ret + r) = unat ret + unat r" using r(2) lt n32 by (intro unat_add_small) simp
      have step: "h_read_loop ops (e # es) n ret (got @ rest) h w = h_read_loop ops es n (ret + r) (?got @ ?rest) h w'"
        using True c e(2) False Cons.prems(2) r(1) by simp
      have IH: "(if unat n \<le> length (?got @ concat xss)
        then \<exists>w''. h_read_loop ops es n (ret + r) (?got @ ?rest) h w' = Inr (n, take (unat n) (?got @ concat xss) @ drop (unat n - length ?got) ?rest, h, w'')
        else h_read_loop ops es n (ret + r) (?got @ ?rest) h w' = Inl Hang)"
        by (rule Cons.IH [OF r(3) Cons.prems(2)]) (use r rr nr lt Cons.prems in \<open>auto simp: min.commute\<close>)
      have s: "(unat n \<le> length (?got @ concat xss)) = (unat n \<le> length (got @ concat (xs # xss)))"
        "take (unat n) (?got @ concat xss) = take (unat n) (got @ concat (xs # xss))"
        "drop (unat n - length ?got) ?rest = drop (unat n - length got) rest"
        using nr lt Cons.prems(3) r(2) by (auto simp: min_def)
      show ?thesis using IH unfolding step by (simp only: s)
    qed
  qed
qed

lemma blocking_read:
  assumes "list_all2 delivers es xss" "ok (length (concat xss)) w" "h_fd h = p" "\<not> has_flag (h_flags h) O_NONBLOCK"
    and "unat n \<le> length buf"
  shows "(if unat n \<le> length (pending w @ concat xss)
    then \<exists>w'. h_read ops es h buf n w = Inr (n, take (unat n) (pending w @ concat xss) @ drop (unat n) buf, h, w')
    else h_read ops es h buf n w = Inl Hang)"
proof -
  from raw_read [OF assms(2,3), of 0 n buf] assms(5) obtain r w' where
    r: "h_read_raw ops h buf 0 n w = Inr (r, take (unat n) (pending w) @ drop (unat r) buf, h, w')"
      "unat r = min (unat n) (length (pending w))" "ok (length (concat xss)) w'" "pending w' = drop (unat n) (pending w)"
    by auto
  let ?got = "take (unat n) (pending w)" and ?rest = "drop (unat r) buf"
  have e: "h_read ops es h buf n w = h_read_loop ops es n r (?got @ ?rest) h w'"
    using r(1) src_blocks [OF r(3)] assms(3,4) by (simp add: h_read_def)
  have l: "(if unat n \<le> length (?got @ concat xss)
    then \<exists>w''. h_read_loop ops es n r (?got @ ?rest) h w' = Inr (n, take (unat n) (?got @ concat xss) @ drop (unat n - length ?got) ?rest, h, w'')
    else h_read_loop ops es n r (?got @ ?rest) h w' = Inl Hang)"
    by (rule loop_reads [OF assms(1) r(3) assms(3)]) (use r(2,4) assms(5) in auto)
  have s: "(unat n \<le> length (?got @ concat xss)) = (unat n \<le> length (pending w @ concat xss))"
    "take (unat n) (?got @ concat xss) = take (unat n) (pending w @ concat xss)"
    "drop (unat n - length ?got) ?rest = drop (unat n) buf"
    using r(2) by (auto simp: min_def)
  show ?thesis using l unfolding e by (simp only: s)
qed

end

subsection \<open>The kernel's descriptions\<close>

text \<open>Virtual dispatch to pipes, character devices and block devices in memory; a pointer to none of them
  faults. None of the three overrides \<open>ioctl\<close>.\<close>

datatype fd_inst = FdPipe fifo | FdChar chrdev | FdMem memdev

type_synonym fd_world = "nat \<Rightarrow> fd_inst option"

definition kernel_fds :: "fd_world fd_ops" where
  "kernel_fds = \<lparr>
     fd_has_size = (\<lambda>p w. case w p of Some (FdMem d) \<Rightarrow> md_has_size d | _ \<Rightarrow> fd_default_has_size),
     fd_get_size = (\<lambda>p w. case w p of Some (FdMem d) \<Rightarrow> md_size d | _ \<Rightarrow> fd_default_get_size),
     fd_read = (\<lambda>p off n w. case w p of None \<Rightarrow> Inl Fault
       | Some (FdPipe f) \<Rightarrow> bindr (ff_read f n) (\<lambda>(r, xs, f'). Inr (r, xs, w(p \<mapsto> FdPipe f')))
       | Some (FdChar d) \<Rightarrow> bindr (cd_read d n) (\<lambda>(r, xs, d'). Inr (r, xs, w(p \<mapsto> FdChar d')))
       | Some (FdMem d) \<Rightarrow> bindr (md_read d off n) (\<lambda>(r, xs). Inr (r, xs, w))),
     fd_write = (\<lambda>p inp off n w. case w p of None \<Rightarrow> Inl Fault
       | Some (FdPipe f) \<Rightarrow> bindr (ff_write f inp n) (\<lambda>(r, f'). Inr (r, w(p \<mapsto> FdPipe f')))
       | Some (FdChar d) \<Rightarrow> bindr (cd_write d inp n) (\<lambda>(r, d'). Inr (r, w(p \<mapsto> FdChar d')))
       | Some (FdMem d) \<Rightarrow> bindr (md_write d inp off n) (\<lambda>(r, d'). Inr (r, w(p \<mapsto> FdMem d')))),
     fd_can_read = (\<lambda>p w. case w p of None \<Rightarrow> Inl Fault
       | Some (FdPipe f) \<Rightarrow> Inr (ff_can_read f) | Some (FdChar d) \<Rightarrow> Inr (cd_can_read d) | Some (FdMem d) \<Rightarrow> Inr fd_default_can_read),
     fd_can_write = (\<lambda>p w. case w p of None \<Rightarrow> Inl Fault
       | Some (FdPipe f) \<Rightarrow> ff_can_write f | Some (FdChar d) \<Rightarrow> Inr (cd_can_write d) | Some (FdMem d) \<Rightarrow> Inr fd_default_can_write),
     fd_should_block = (\<lambda>p w. case w p of Some (FdPipe f) \<Rightarrow> ff_should_block f | Some (FdChar d) \<Rightarrow> cd_should_block d
       | _ \<Rightarrow> fd_default_should_block),
     fd_ioctl_count = (\<lambda>p req w. fd_default_ioctl_count),
     fd_ioctl = (\<lambda>p req args w. Inr (fd_default_ioctl, args, w))\<rparr>"

text \<open>A pipe whose ring does not wrap and has room for \<open>k\<close> more bytes before the end of its array.\<close>

definition pipe_at :: "fd_world \<Rightarrow> nat \<Rightarrow> cbuf option" where
  "pipe_at w p = (case w p of Some (FdPipe f) \<Rightarrow> Some (ff_buffer f) | _ \<Rightarrow> None)"

definition pipe_ok :: "nat \<Rightarrow> nat \<Rightarrow> fd_world \<Rightarrow> bool" where
  "pipe_ok p k w \<longleftrightarrow> (case pipe_at w p of None \<Rightarrow> False
     | Some b \<Rightarrow> cb_wf b \<and> rd_ptr b \<le> wr_ptr b \<and> unat (wr_ptr b) + k < unat (buffer_size b))"

definition pipe_pending :: "nat \<Rightarrow> fd_world \<Rightarrow> u8 list" where
  "pipe_pending p w = (case pipe_at w p of None \<Rightarrow> [] | Some b \<Rightarrow> cb_contents b)"

lemma pipe_okE:
  assumes "pipe_ok p k w"
  obtains f where "w p = Some (FdPipe f)" "cb_wf (ff_buffer f)" "rd_ptr (ff_buffer f) \<le> wr_ptr (ff_buffer f)"
    "unat (wr_ptr (ff_buffer f)) + k < unat (buffer_size (ff_buffer f))" "pipe_pending p w = cb_contents (ff_buffer f)"
  using assms by (auto simp: pipe_ok_def pipe_at_def pipe_pending_def split: option.splits fd_inst.splits)

lemma cb_read_keeps: "cb_read b n = Inr (r, xs, b') \<Longrightarrow> wr_ptr b' = wr_ptr b \<and> buffer_size b' = buffer_size b"
  by (auto simp: cb_read_def Let_def bindr_Inr_iff split: if_split_asm)

lemma cb_write_keeps: "cb_write b inp n = Inr (r, b') \<Longrightarrow> rd_ptr b' = rd_ptr b \<and> buffer_size b' = buffer_size b"
  by (auto simp: cb_write_def Let_def bindr_Inr_iff split: if_split_asm)

text \<open>The indices of an unwrapped ring.\<close>

lemma flat_length: "cb_wf b \<Longrightarrow> rd_ptr b \<le> wr_ptr b \<Longrightarrow> length (cb_contents b) = unat (wr_ptr b) - unat (rd_ptr b)"
  by (simp add: length_cb_contents word_le_unat)

lemma flat_read:
  assumes "cb_wf b" "rd_ptr b \<le> wr_ptr b"
  shows "\<exists>m b'. cb_read b n = Inr (m, take (unat m) (cb_contents b), b') \<and> unat m = min (unat n) (length (cb_contents b))
    \<and> cb_wf b' \<and> rd_ptr b' \<le> wr_ptr b' \<and> wr_ptr b' = wr_ptr b \<and> buffer_size b' = buffer_size b
    \<and> cb_contents b' = drop (unat m) (cb_contents b)"
proof -
  let ?k = "min (unat n) (length (cb_contents b))"
  have run: "min ?k (cb_run b) = ?k" using flat_length [OF assms] assms(2) by (simp add: cb_run_def)
  from cb_read_split [OF assms(1) refl, of n] obtain b' where b': "cb_read b n = Inr (of_nat ?k, take ?k (cb_contents b), b')"
    "cb_wf b'" "cb_contents b' = drop ?k (cb_contents b)" unfolding run by auto
  note keep = cb_read_keeps [OF b'(1)]
  have len: "length (cb_contents b') \<le> unat (wr_ptr b) - unat (rd_ptr b)" using b'(3) flat_length [OF assms] by simp
  have le: "rd_ptr b' \<le> wr_ptr b'"
  proof (rule ccontr)
    assume "\<not> rd_ptr b' \<le> wr_ptr b'"
    then have "length (cb_contents b') = unat (buffer_size b) - unat (rd_ptr b') + unat (wr_ptr b)"
      using length_cb_contents [OF b'(2)] keep by (simp add: word_le_unat)
    moreover have "unat (rd_ptr b') < unat (buffer_size b)" using cb_wfD(5) [OF b'(2)] keep by simp
    ultimately show False using len by simp
  qed
  have "?k < 2 ^ 64"
  proof -
    have "?k \<le> unat (wr_ptr b)" using flat_length [OF assms] by simp
    also have "unat (wr_ptr b) < 4294967296" by (rule unat32)
    finally show ?thesis by simp
  qed
  then have "unat (of_nat ?k :: u64) = ?k" by (simp add: unat_of_nat)
  then show ?thesis using b' le keep by metis
qed

lemma flat_write:
  assumes "cb_wf b" "rd_ptr b \<le> wr_ptr b" "unat (wr_ptr b) + length xs < unat (buffer_size b)"
  shows "\<exists>b'. cb_write b xs (of_nat (length xs)) = Inr (of_nat (length xs), b') \<and> cb_wf b' \<and> rd_ptr b' \<le> wr_ptr b'
    \<and> unat (wr_ptr b') = unat (wr_ptr b) + length xs \<and> buffer_size b' = buffer_size b \<and> cb_contents b' = cb_contents b @ xs"
proof -
  have u: "unat (of_nat (length xs) :: u64) = length xs"
  proof -
    have "length xs < 2 ^ 64" using assms(3) unat32 [of "buffer_size b"] by simp
    then show ?thesis by (simp add: unat_of_nat)
  qed
  have "cb_room b (length xs)"
    using assms(3) flat_length [OF assms(1,2)] assms(2) by (auto simp: cb_room_def cb_gap_def word_le_unat word_less_unat)
  with u obtain b' where b': "cb_write b xs (of_nat (length xs)) = Inr (of_nat (length xs), b')" "cb_wf b'" "cb_contents b' = cb_contents b @ xs"
    using cb_send_ok [OF assms(1), of "of_nat (length xs)" xs] by auto
  note keep = cb_write_keeps [OF b'(1)]
  have len: "length (cb_contents b') = unat (wr_ptr b) - unat (rd_ptr b) + length xs" using b'(3) flat_length [OF assms(1,2)] by simp
  have le: "rd_ptr b' \<le> wr_ptr b'"
  proof (rule ccontr)
    assume "\<not> rd_ptr b' \<le> wr_ptr b'"
    then have "length (cb_contents b') = unat (buffer_size b) - unat (rd_ptr b) + unat (wr_ptr b')"
      using length_cb_contents [OF b'(2)] keep by (simp add: word_le_unat)
    then show False using len assms(2,3) cb_wfD [OF assms(1)] by (simp add: word_le_unat)
  qed
  then have "unat (wr_ptr b') = unat (wr_ptr b) + length xs"
    using len flat_length [OF b'(2) le] assms(2) keep by (simp add: word_le_unat)
  then show ?thesis using b' le keep by blast
qed

lemma flat_can_write:
  assumes "cb_wf b" "rd_ptr b \<le> wr_ptr b" "unat (wr_ptr b) + 1 < unat (buffer_size b)"
  shows "cb_can_write b = Inr True"
proof -
  have "unat (wr_ptr b + 1) = unat (wr_ptr b) + 1" using assms(3) unat32 [of "buffer_size b"] unat_inc32 [of "wr_ptr b"] by simp
  then have "unat ((wr_ptr b + 1) mod buffer_size b) = unat (wr_ptr b) + 1" using assms(3) by (simp add: unat_mod)
  then have "(wr_ptr b + 1) mod buffer_size b \<noteq> rd_ptr b" using assms(2) by (auto simp: word_le_unat)
  then show ?thesis using cb_wfD(3) [OF assms(1)] by (simp add: cb_can_write_def)
qed

lemma flat_can_read: "cb_wf b \<Longrightarrow> rd_ptr b \<le> wr_ptr b \<Longrightarrow> cb_can_read b \<longleftrightarrow> cb_contents b \<noteq> []"
  using flat_length [of b] by (auto simp: cb_can_read_def cb_contents_empty word_le_unat word_unat_eq_iff)

text \<open>Another process writes the bytes \<open>xs\<close> to the pipe.\<close>

definition pipe_event :: "nat \<Rightarrow> u8 list \<Rightarrow> fd_world \<Rightarrow> fd_world" where
  "pipe_event p xs w = (case fd_write kernel_fds p xs 0 (of_nat (length xs)) w of Inl _ \<Rightarrow> w | Inr (_, w') \<Rightarrow> w')"

interpretation pipes: byte_source kernel_fds p "pipe_ok p" "pipe_pending p" for p
proof unfold_locales
  fix k :: nat and w :: fd_world and off n :: u64
  assume "pipe_ok p k w"
  then obtain f where f: "w p = Some (FdPipe f)" "cb_wf (ff_buffer f)" "rd_ptr (ff_buffer f) \<le> wr_ptr (ff_buffer f)"
    "unat (wr_ptr (ff_buffer f)) + k < unat (buffer_size (ff_buffer f))" "pipe_pending p w = cb_contents (ff_buffer f)"
    by (rule pipe_okE)
  from flat_read [OF f(2,3), of n] obtain m b' where b': "cb_read (ff_buffer f) n = Inr (m, take (unat m) (cb_contents (ff_buffer f)), b')"
    "unat m = min (unat n) (length (cb_contents (ff_buffer f)))" "cb_wf b'" "rd_ptr b' \<le> wr_ptr b'" "wr_ptr b' = wr_ptr (ff_buffer f)"
    "buffer_size b' = buffer_size (ff_buffer f)" "cb_contents b' = drop (unat m) (cb_contents (ff_buffer f))" by blast
  show "\<exists>m w'. fd_read kernel_fds p off n w = Inr (m, take (unat m) (pipe_pending p w), w')
      \<and> unat m = min (unat n) (length (pipe_pending p w)) \<and> pipe_ok p k w' \<and> pipe_pending p w' = drop (unat m) (pipe_pending p w)"
  proof (cases "ff_can_read f")
    case False
    then have "cb_contents (ff_buffer f) = []" using flat_can_read [OF f(2,3)] by (simp add: ff_can_read_def)
    then have "fd_read kernel_fds p off n w = Inr (0, [], w)" "pipe_pending p w = []"
      using False f(1,5) fun_upd_idem [of w p] by (simp_all add: kernel_fds_def ff_read_def)
    then show ?thesis using \<open>pipe_ok p k w\<close> by (intro exI [of _ 0] exI [of _ w]) simp
  next
    case True
    let ?f = "\<lparr>ff_buffer = b', ff_events = Suc (ff_events f)\<rparr>"
    have "fd_read kernel_fds p off n w = Inr (m, take (unat m) (pipe_pending p w), w(p \<mapsto> FdPipe ?f))"
      using True f(1,5) b'(1) by (simp add: kernel_fds_def ff_read_def)
    moreover have "pipe_ok p k (w(p \<mapsto> FdPipe ?f))" "pipe_pending p (w(p \<mapsto> FdPipe ?f)) = drop (unat m) (pipe_pending p w)"
      using b' f(4,5) by (simp_all add: pipe_ok_def pipe_pending_def pipe_at_def)
    ultimately show ?thesis using b'(2) f(5) by auto
  qed
next
  fix k :: nat and w :: fd_world
  assume "pipe_ok p k w"
  then obtain f where f: "w p = Some (FdPipe f)" "cb_wf (ff_buffer f)" "rd_ptr (ff_buffer f) \<le> wr_ptr (ff_buffer f)"
    "unat (wr_ptr (ff_buffer f)) + k < unat (buffer_size (ff_buffer f))" "pipe_pending p w = cb_contents (ff_buffer f)"
    by (rule pipe_okE)
  then show "fd_can_read kernel_fds p w = Inr (pipe_pending p w \<noteq> [])"
    using flat_can_read [OF f(2,3)] by (simp add: kernel_fds_def ff_can_read_def)
  show "fd_should_block kernel_fds p w \<and> \<not> fd_has_size kernel_fds p w"
    using f(1) by (simp add: kernel_fds_def ff_should_block_def fd_default_has_size_def)
qed

lemma pipe_event_delivers: "pipes.delivers p (pipe_event p xs) xs"
  unfolding pipes.delivers_def
proof (intro allI impI)
  fix k :: nat and w :: fd_world
  assume "pipe_ok p (length xs + k) w"
  then obtain f where f: "w p = Some (FdPipe f)" "cb_wf (ff_buffer f)" "rd_ptr (ff_buffer f) \<le> wr_ptr (ff_buffer f)"
    "unat (wr_ptr (ff_buffer f)) + (length xs + k) < unat (buffer_size (ff_buffer f))" "pipe_pending p w = cb_contents (ff_buffer f)"
    by (rule pipe_okE)
  obtain b' where b': "cb_write (ff_buffer f) xs (of_nat (length xs)) = Inr (of_nat (length xs), b')" "cb_wf b'" "rd_ptr b' \<le> wr_ptr b'"
    "unat (wr_ptr b') = unat (wr_ptr (ff_buffer f)) + length xs" "buffer_size b' = buffer_size (ff_buffer f)"
    "cb_contents b' = cb_contents (ff_buffer f) @ xs"
    using flat_write [OF f(2,3), of xs] f(4) by auto
  show "pipe_ok p k (pipe_event p xs w) \<and> pipe_pending p (pipe_event p xs w) = pipe_pending p w @ xs"
  proof (cases "ff_can_write f = Inr True")
    case True
    then have e: "pipe_event p xs w = w(p \<mapsto> FdPipe \<lparr>ff_buffer = b', ff_events = Suc (ff_events f)\<rparr>)"
      using f(1) b'(1) by (simp add: pipe_event_def kernel_fds_def ff_write_def)
    show ?thesis unfolding e using b' f(4,5) by (simp add: pipe_ok_def pipe_pending_def pipe_at_def)
  next
    case False
    have "\<not> unat (wr_ptr (ff_buffer f)) + 1 < unat (buffer_size (ff_buffer f))"
      using False flat_can_write [OF f(2,3)] by (auto simp: ff_can_write_def)
    then have "xs = []" using f(4) by (cases xs) auto
    moreover have "pipe_event p xs w = w"
      using False f(1) fun_upd_idem [of w p] cb_wfD(3) [OF f(2)]
      by (auto simp: pipe_event_def kernel_fds_def ff_write_def ff_can_write_def cb_can_write_def)
    ultimately show ?thesis using \<open>pipe_ok p (length xs + k) w\<close> by simp
  qed
qed

text \<open>C27: A blocking read from a pipe whose data does not reach the end of its array. Let the pipe's write index stand at or behind its read index,
  and let everything that is written to it until then end before the end of the array. Then the read returns exactly when as many bytes as it asks
  for have been written, in one write or in several: it has read precisely these bytes, in order, into the buffer. Fewer bytes leave it asleep,
  also when no writer is left. Beyond the end of the array a pipe loses bytes that it reports as written or read, as stated for its buffer.\<close>

theorem pipe_read_waits_for_all:
  assumes pipe: "w (h_fd h) = Some (FdPipe f)" "cb_wf (ff_buffer f)"
    and flat: "rd_ptr (ff_buffer f) \<le> wr_ptr (ff_buffer f)"
      "unat (wr_ptr (ff_buffer f)) + length (concat xss) < unat (buffer_size (ff_buffer f))"
    and "\<not> has_flag (h_flags h) O_NONBLOCK" "unat n \<le> length buf"
  shows "(if unat n \<le> length (cb_contents (ff_buffer f) @ concat xss)
    then \<exists>w'. h_read kernel_fds (map (pipe_event (h_fd h)) xss) h buf n w
      = Inr (n, take (unat n) (cb_contents (ff_buffer f) @ concat xss) @ drop (unat n) buf, h, w')
    else h_read kernel_fds (map (pipe_event (h_fd h)) xss) h buf n w = Inl Hang)"
proof -
  have ok: "pipe_ok (h_fd h) (length (concat xss)) w" "pipe_pending (h_fd h) w = cb_contents (ff_buffer f)"
    using pipe flat by (simp_all add: pipe_ok_def pipe_pending_def pipe_at_def)
  have "list_all2 (pipes.delivers (h_fd h)) (map (pipe_event (h_fd h)) xss) xss"
    by (simp add: list_all2_map1 list_all2_same pipe_event_delivers)
  from pipes.blocking_read [OF this ok(1) refl assms(5,6)] show ?thesis unfolding ok(2) .
qed

definition demo_pipes :: fd_world where
  "demo_pipes = [7 \<mapsto> FdPipe (ff_new (\<lambda>n. replicate (unat n) 0))]"

lemma demo_pipes_ok: "k < 8192 \<Longrightarrow> pipe_ok 7 k demo_pipes" "pipe_pending 7 demo_pipes = []"
  using cb_wf_new [of "replicate 8192 0" 8192]
  by (simp_all add: demo_pipes_def pipe_ok_def pipe_pending_def pipe_at_def ff_new_def cb_contents_new) (simp add: cb_new_def)

theorem pipe_read_waits_for_all_witness:
  "\<exists>w'. h_read kernel_fds [pipe_event 7 [1, 2], pipe_event 7 [3, 4]] (handle_new 7 O_RDONLY 0) [0, 0, 0, 0] 3 demo_pipes
    = Inr (3, [1, 2, 3, 0], handle_new 7 O_RDONLY 0, w')"
proof -
  let ?f = "ff_new (\<lambda>n. replicate (unat n) 0)"
  have "demo_pipes (h_fd (handle_new 7 O_RDONLY 0)) = Some (FdPipe ?f)" "cb_wf (ff_buffer ?f)" "cb_contents (ff_buffer ?f) = []"
    "rd_ptr (ff_buffer ?f) \<le> wr_ptr (ff_buffer ?f)"
    "unat (wr_ptr (ff_buffer ?f)) + length (concat [[1, 2], [3, 4 :: u8]]) < unat (buffer_size (ff_buffer ?f))"
    using cb_wf_new [of "replicate 8192 0" 8192]
    by (simp_all add: demo_pipes_def handle_new_def ff_new_def cb_contents_new) (simp_all add: cb_new_def)
  note f = this
  have "\<not> has_flag (h_flags (handle_new 7 O_RDONLY 0)) O_NONBLOCK" by (simp add: handle_new_def flag_defs)
  from pipe_read_waits_for_all [where w = demo_pipes and h = "handle_new 7 O_RDONLY 0" and xss = "[[1, 2], [3, 4]]", OF f(1,2,4,5) this, of 3 "[0, 0, 0, 0]"] show ?thesis using f(3) by (simp add: handle_new_def)
qed

end
