(* ===== verification/Syscalls.thy ===== *)
theory Syscalls
  imports Handle_Io Fs_Props
begin

text \<open>
  The system calls of a process on files (\<open>kernel/src/proc/syscall.cpp\<close>) over the file system manager, the
  table of descriptions and the handles of the process. Numbers the calls return are integers, negative
  error numbers as in the code. \<open>path\<close> is the path \<open>resolve\<close> made of the user's string. As in
  theory \<open>Handle_Io\<close>, \<open>es\<close> is what happens in the sleeps of the calling thread.
\<close>

record 'w kernel =
  k_fsys :: "'w fsys"
  k_handles :: "handle list"
  k_creds :: credentials

definition k_files :: "'w kernel \<Rightarrow> files" where
  "k_files k = \<lparr>f_handles = k_handles k, f_fdm = sy_fdm (k_fsys k)\<rparr>"

definition put_files :: "files \<Rightarrow> 'w kernel \<Rightarrow> 'w kernel" where
  "put_files s k = k\<lparr>k_handles := f_handles s, k_fsys := (k_fsys k)\<lparr>sy_fdm := f_fdm s\<rparr>\<rparr>"

definition k_world :: "'w kernel \<Rightarrow> 'w" where
  "k_world k = sy_world (k_fsys k)"

definition put_world :: "'w \<Rightarrow> 'w kernel \<Rightarrow> 'w kernel" where
  "put_world w k = k\<lparr>k_fsys := with_world w (k_fsys k)\<rparr>"

subsection \<open>Reading, writing, seeking\<close>

definition sys_read :: "'w fd_ops \<Rightarrow> ('w \<Rightarrow> 'w) list \<Rightarrow> int \<Rightarrow> u8 list \<Rightarrow> usize \<Rightarrow> 'w kernel \<Rightarrow> (int \<times> u8 list \<times> 'w kernel) result" where
  "sys_read ops es fd buf n k = (if \<not> is_handle_open (k_files k) fd then Inr (- uint EBADF, buf, k)
     else bindr (get_handle (k_files k) fd) (\<lambda>h. if \<not> h_may_read h then Inr (- uint EBADF, buf, k)
     else bindr (h_read ops es h buf n (k_world k)) (\<lambda>(r, buf', h', w).
       Inr (sint r, buf', put_world w (put_files (set_handle fd h' (k_files k)) k)))))"

definition sys_write :: "'w fd_ops \<Rightarrow> ('w \<Rightarrow> 'w) list \<Rightarrow> int \<Rightarrow> u8 list \<Rightarrow> usize \<Rightarrow> 'w kernel \<Rightarrow> (int \<times> 'w kernel) result" where
  "sys_write ops es fd buf n k = (if \<not> is_handle_open (k_files k) fd then Inr (- uint EBADF, k)
     else bindr (get_handle (k_files k) fd) (\<lambda>h. if \<not> h_may_write h then Inr (- uint EBADF, k)
     else bindr (h_write ops es h buf n (k_world k)) (\<lambda>(r, h', w).
       Inr (sint r, put_world w (put_files (set_handle fd h' (k_files k)) k)))))"

text \<open>\<open>SEEK_SET\<close>, \<open>SEEK_CUR\<close> and \<open>SEEK_END\<close> are 0, 1 and 2.\<close>

definition seek_to :: "'w fd_ops \<Rightarrow> 'w \<Rightarrow> handle \<Rightarrow> u32 \<Rightarrow> u32 \<Rightarrow> usize option" where
  "seek_to ops w h offset whence = (if whence = 0 then Some offset
     else if whence = 1 then Some (h_ptr h + offset)
     else if whence = 2 then Some (ucast (fd_get_size ops (h_fd h) w + scast offset))
     else None)"

definition sys_lseek :: "'w fd_ops \<Rightarrow> int \<Rightarrow> u32 \<Rightarrow> u32 \<Rightarrow> 'w kernel \<Rightarrow> (int \<times> 'w kernel) result" where
  "sys_lseek ops fd offset whence k = (if \<not> is_handle_open (k_files k) fd then Inr (- uint EBADF, k)
     else bindr (get_handle (k_files k) fd) (\<lambda>h.
       if \<not> fd_has_size ops (h_fd h) (k_world k) then Inr (- uint ESPIPE, k)
       else case seek_to ops (k_world k) h offset whence of
         None \<Rightarrow> Inr (- uint EINVAL, k)
       | Some ptr \<Rightarrow> Inr (sint ptr, put_files (set_handle fd (h\<lparr>h_ptr := ptr\<rparr>) (k_files k)) k)))"

subsection \<open>Opening, closing, duplicating\<close>

definition access_flags :: "u32 \<Rightarrow> nat" where
  "access_flags oflags = length (filter (has_flag oflags) [O_RDONLY, O_WRONLY, O_RDWR])"

definition sys_open :: "'w fs_ops \<Rightarrow> string list \<Rightarrow> u32 \<Rightarrow> 'w kernel \<Rightarrow> (int \<times> 'w kernel) result" where
  "sys_open fs path oflags k = (if access_flags oflags \<noteq> 1 then Inr (- uint EINVAL, k)
     else bindr (fsm_open fs (k_fsys k) path oflags (Some (k_creds k))) (\<lambda>(x, s).
       let k1 = k\<lparr>k_fsys := s\<rparr> in
       case x of Inl err \<Rightarrow> Inr (- uint err, k1)
       | Inr p \<Rightarrow> let (fd, t) = open_handle p oflags (k_files k1); k2 = put_files t k1 in
           if fd < 0 then bindr (fm_close p (f_fdm t)) (\<lambda>(_, m). Inr (fd, put_files (t\<lparr>f_fdm := m\<rparr>) k1))
           else Inr (fd, k2)))"

text \<open>The error number of \<open>close_handle\<close> is returned as it is, not negated.\<close>

definition sys_close :: "int \<Rightarrow> 'w kernel \<Rightarrow> (int \<times> 'w kernel) result" where
  "sys_close fd k = (if \<not> is_handle_open (k_files k) fd then Inr (- uint EBADF, k)
     else bindr (close_handle fd (k_files k)) (\<lambda>(err, s). Inr (sint err, put_files s k)))"

definition sys_dup :: "int \<Rightarrow> 'w kernel \<Rightarrow> (int \<times> 'w kernel) result" where
  "sys_dup src k = bindr (duplicate_handle src (-1) (k_files k)) (\<lambda>(d, s). Inr (d, put_files s k))"

definition sys_dup2 :: "int \<Rightarrow> int \<Rightarrow> 'w kernel \<Rightarrow> (int \<times> 'w kernel) result" where
  "sys_dup2 src dst k = bindr (duplicate_handle src dst (k_files k)) (\<lambda>(d, s). Inr (d, put_files s k))"

subsection \<open>Polling\<close>

record pollfd =
  pf_fd :: int
  pf_events :: u16
  pf_revents :: u16

definition POLLRDNORM :: u16 where "POLLRDNORM = 1"
definition POLLWRNORM :: u16 where "POLLWRNORM = 4"

definition ready_bits :: "'w fd_ops \<Rightarrow> nat \<Rightarrow> 'w \<Rightarrow> u16 result" where
  "ready_bits ops p w = bindr (fd_can_read ops p w) (\<lambda>r. bindr (fd_can_write ops p w) (\<lambda>wr.
     Inr ((if r then POLLRDNORM else 0) OR (if wr then POLLWRNORM else 0))))"

text \<open>One round over the entries, and whether it found one.\<close>

fun poll_scan :: "'w fd_ops \<Rightarrow> files \<Rightarrow> 'w \<Rightarrow> pollfd list \<Rightarrow> (pollfd list \<times> bool) result" where
  "poll_scan ops s w [] = Inr ([], False)"
| "poll_scan ops s w (e # es) = (if \<not> is_handle_open s (pf_fd e)
     then bindr (poll_scan ops s w es) (\<lambda>(es', b). Inr (e # es', b))
     else bindr (get_handle s (pf_fd e)) (\<lambda>h. bindr (ready_bits ops (h_fd h) w) (\<lambda>r.
       let e' = e\<lparr>pf_revents := pf_revents e OR (pf_events e AND r)\<rparr> in
       bindr (poll_scan ops s w es) (\<lambda>(es', b). Inr (e' # es', pf_revents e' \<noteq> 0 \<or> b)))))"

fun poll_loop :: "'w fd_ops \<Rightarrow> files \<Rightarrow> ('w \<Rightarrow> 'w) list \<Rightarrow> pollfd list \<Rightarrow> 'w \<Rightarrow> (pollfd list \<times> 'w) result" where
  "poll_loop ops s [] fds w = bindr (poll_scan ops s w fds) (\<lambda>(fds', b). if b then Inr (fds', w) else Inl Hang)"
| "poll_loop ops s (e # es) fds w = bindr (poll_scan ops s w fds) (\<lambda>(fds', b).
     if b then Inr (fds', w) else poll_loop ops s es fds' (e w))"

definition sys_poll :: "'w fd_ops \<Rightarrow> ('w \<Rightarrow> 'w) list \<Rightarrow> pollfd list \<Rightarrow> 'w kernel \<Rightarrow> (int \<times> pollfd list \<times> 'w kernel) result" where
  "sys_poll ops es fds k = bindr (poll_loop ops (k_files k) es (map (pf_revents_update (\<lambda>_. 0)) fds) (k_world k))
     (\<lambda>(fds', w). Inr (1, fds', put_world w k))"

subsection \<open>Executing, waiting, device control\<close>

text \<open>\<open>exec\<close> up to the point where the description \<open>p\<close> is handed to the process manager.\<close>

definition sys_exec :: "'w fs_ops \<Rightarrow> string list \<Rightarrow> 'w kernel \<Rightarrow> ((int + nat) \<times> 'w kernel) result" where
  "sys_exec fs path k = bindr (fsm_open fs (k_fsys k) path O_RDONLY (Some (k_creds k))) (\<lambda>(x, s).
     case x of Inl err \<Rightarrow> Inr (Inl (- uint err), k\<lparr>k_fsys := s\<rparr>)
     | Inr p \<Rightarrow> bindr (fm_file (sy_fdm s) p) (\<lambda>f.
         if \<not> if_may_exec f then bindr (fm_close p (sy_fdm s)) (\<lambda>(_, m).
           Inr (Inl (- uint EACCES), k\<lparr>k_fsys := s\<lparr>sy_fdm := m\<rparr>\<rparr>))
         else Inr (Inr p, k\<lparr>k_fsys := s\<rparr>)))"

text \<open>The process that exited last and its status are global; each sleep ends with the exit of another.\<close>

fun wait_exit :: "(int \<times> int) list \<Rightarrow> int \<Rightarrow> int \<times> int \<Rightarrow> int result" where
  "wait_exit [] pid (p, st) = (if p \<noteq> pid then Inl Hang else Inr st)"
| "wait_exit (e # es) pid (p, st) = (if p \<noteq> pid then wait_exit es pid e else Inr st)"

definition sys_waitpid :: "(int \<times> int) list \<Rightarrow> int \<times> int \<Rightarrow> int \<Rightarrow> (int \<times> int option) result" where
  "sys_waitpid es last_exit pid = (if pid < 1 then Inr (- uint ECHILD, None)
     else bindr (wait_exit es pid last_exit) (\<lambda>st. Inr (0, Some st)))"

definition sys_ioctl :: "'w fd_ops \<Rightarrow> int \<Rightarrow> u32 \<Rightarrow> u32 list option \<Rightarrow> 'w kernel \<Rightarrow> (int \<times> u32 list option \<times> 'w kernel) result" where
  "sys_ioctl ops fd request args k = (if \<not> is_handle_open (k_files k) fd then Inr (- uint EBADF, args, k)
     else bindr (get_handle (k_files k) fd) (\<lambda>h. case args of
       None \<Rightarrow> Inr (sint (fd_ioctl_count ops (h_fd h) request (k_world k)), None, k)
     | Some a \<Rightarrow> bindr (fd_ioctl ops (h_fd h) request a (k_world k)) (\<lambda>(r, a', w). Inr (sint r, Some a', put_world w k))))"

lemma k_files_put [simp]: "k_files (put_files s k) = s" "k_world (put_files s k) = k_world k"
  "k_files (put_world w k) = k_files k" "k_world (put_world w k) = w"
  "sy_fdm (k_fsys (put_files s k)) = f_fdm s"
  by (simp_all add: k_files_def put_files_def k_world_def put_world_def with_world_def)

subsection \<open>Bad descriptors\<close>

text \<open>C10: Every call on a descriptor that is negative, past the table of the process, or the number of a closed slot is refused
  with \<open>EBADF\<close> and changes nothing, neither in the kernel nor in the caller's buffer; \<open>dup2\<close> is refused as well when its target, other than
  the \<open>-1\<close> of \<open>dup\<close>, is not a number from 0 to 255, whatever its source.\<close>

theorem bad_descriptor_is_refused:
  assumes "fd < 0 \<or> int (length (k_handles k)) \<le> fd \<or> \<not> h_open (k_handles k ! nat fd)"
  shows "sys_read ops es fd buf n k = Inr (- 8, buf, k) \<and> sys_write ops es fd buf n k = Inr (- 8, k)
    \<and> sys_lseek ops fd offset whence k = Inr (- 8, k) \<and> sys_close fd k = Inr (- 8, k)
    \<and> sys_dup fd k = Inr (- 8, k) \<and> sys_dup2 fd dst k = Inr (- 8, k)
    \<and> sys_ioctl ops fd req args k = Inr (- 8, args, k) \<and> (\<forall>src t. t < - 1 \<or> 255 < t \<longrightarrow> sys_dup2 src t k = Inr (- 8, k))"
proof -
  have n: "\<not> is_handle_open (k_files k) fd" using assms by (auto simp: is_handle_open_def k_files_def)
  have p: "put_files (k_files k) k = k" by (simp add: put_files_def k_files_def)
  have e: "uint EBADF = 8" by (simp add: EBADF_def)
  have "sys_dup2 src t k = Inr (- 8, k)" if "t < - 1 \<or> 255 < t" for src t
  proof -
    have "\<not> is_valid_handle t" "t \<noteq> - 1" using that by (auto simp: is_valid_handle_def)
    then show ?thesis by (simp add: sys_dup2_def duplicate_handle_def p e)
  qed
  then show ?thesis using n p e
    by (simp add: sys_dup_def sys_dup2_def duplicate_handle_def sys_read_def sys_write_def sys_lseek_def sys_close_def sys_ioctl_def)
qed

definition demo_kernel :: "fs_world kernel" where
  "demo_kernel = \<lparr>k_fsys = demo_dev_fsys, k_handles = [handle_closed], k_creds = root_creds\<rparr>"

theorem bad_descriptor_is_refused_witness:
  "sys_close (-1) demo_kernel = Inr (-8, demo_kernel) \<and> sys_close 0 demo_kernel = Inr (-8, demo_kernel)
    \<and> sys_close 1 demo_kernel = Inr (-8, demo_kernel) \<and> sys_dup2 0 256 demo_kernel = Inr (-8, demo_kernel)"
proof -
  have "length (k_handles demo_kernel) = 1" "\<not> h_open (k_handles demo_kernel ! 0)" by (simp_all add: demo_kernel_def handle_closed_def)
  then show ?thesis
    using bad_descriptor_is_refused [of "-1" demo_kernel] bad_descriptor_is_refused [of 0 demo_kernel] bad_descriptor_is_refused [of 1 demo_kernel]
    by simp
qed

subsection \<open>Waiting for a process\<close>

text \<open>\<open>waitpid\<close> returns exactly when the process it waits for is the last that exited, now or after some
  later exit, with the status of the first such exit. A process that exited earlier is missed; and the last
  exit is reported even when its process number has been given to a process that still runs.\<close>

theorem waitpid_sees_last_exit:
  assumes "0 < pid"
  shows "sys_waitpid es cur pid = (case find (\<lambda>e. fst e = pid) (cur # es) of
    None \<Rightarrow> Inl Hang | Some e \<Rightarrow> Inr (0, Some (snd e)))"
proof -
  have "wait_exit es pid cur = (case find (\<lambda>e. fst e = pid) (cur # es) of None \<Rightarrow> Inl Hang | Some e \<Rightarrow> Inr (snd e))"
    by (induction es pid cur rule: wait_exit.induct) auto
  then show ?thesis using assms by (simp add: sys_waitpid_def split: option.split)
qed

theorem waitpid_sees_last_exit_witness:
  "sys_waitpid [(3, 7), (2, 5)] (4, 0) 2 = Inr (0, Some 5) \<and> sys_waitpid [(3, 7)] (4, 0) 2 = Inl Hang"
  using waitpid_sees_last_exit [of 2 "[(3, 7), (2, 5)]" "(4, 0)"] waitpid_sees_last_exit [of 2 "[(3, 7)]" "(4, 0)"] by simp

subsection \<open>Polling waits for a ready description\<close>

text \<open>The states a thread sees when it looks again after each sleep.\<close>

fun worlds :: "('w \<Rightarrow> 'w) list \<Rightarrow> 'w \<Rightarrow> 'w list" where
  "worlds [] w = [w]"
| "worlds (e # es) w = w # worlds es (e w)"

definition entry_bits :: "'w fd_ops \<Rightarrow> files \<Rightarrow> 'w \<Rightarrow> pollfd \<Rightarrow> u16" where
  "entry_bits ops s w e = (if is_handle_open s (pf_fd e)
     then (case ready_bits ops (h_fd (f_handles s ! nat (pf_fd e))) w of Inr b \<Rightarrow> pf_events e AND b | Inl _ \<Rightarrow> 0) else 0)"

definition pollable :: "'w fd_ops \<Rightarrow> files \<Rightarrow> pollfd list \<Rightarrow> 'w \<Rightarrow> bool" where
  "pollable ops s fds w \<longleftrightarrow> (\<forall>e \<in> set fds. is_handle_open s (pf_fd e) \<longrightarrow> returns (ready_bits ops (h_fd (f_handles s ! nat (pf_fd e))) w))"

definition fill :: "'w fd_ops \<Rightarrow> files \<Rightarrow> 'w \<Rightarrow> pollfd \<Rightarrow> pollfd" where
  "fill ops s w e = e\<lparr>pf_revents := entry_bits ops s w e\<rparr>"

lemma get_open_handle: "is_handle_open s fd \<Longrightarrow> get_handle s fd = Inr (f_handles s ! nat fd)"
  by (auto simp: is_handle_open_def get_handle_def split: if_split_asm)

lemma poll_scan_spec:
  assumes "pollable ops s fds w" "\<forall>e \<in> set fds. pf_revents e = 0"
  shows "poll_scan ops s w fds = Inr (map (fill ops s w) fds, \<exists>e \<in> set fds. entry_bits ops s w e \<noteq> 0)"
  using assms
proof (induction fds)
  case (Cons e fds)
  then have IH: "poll_scan ops s w fds = Inr (map (fill ops s w) fds, \<exists>e \<in> set fds. entry_bits ops s w e \<noteq> 0)"
    by (simp add: pollable_def)
  show ?case
  proof (cases "is_handle_open s (pf_fd e)")
    case True
    then obtain b where b: "ready_bits ops (h_fd (f_handles s ! nat (pf_fd e))) w = Inr b"
      using Cons.prems(1) by (auto simp: pollable_def returns_iff)
    then have eb: "entry_bits ops s w e = pf_events e AND b" using True by (simp add: entry_bits_def)
    have "poll_scan ops s w (e # fds) = Inr (e\<lparr>pf_revents := pf_events e AND b\<rparr> # map (fill ops s w) fds,
        pf_events e AND b \<noteq> 0 \<or> (\<exists>e \<in> set fds. entry_bits ops s w e \<noteq> 0))"
      using True b IH Cons.prems(2) by (simp add: get_open_handle Let_def)
    then show ?thesis by (simp add: fill_def eb)
  next
    case False
    then have eb: "entry_bits ops s w e = 0" by (simp add: entry_bits_def)
    moreover have "fill ops s w e = e" using Cons.prems(2) eb by (simp add: fill_def)
    ultimately show ?thesis using False IH by simp
  qed
qed simp

lemma fill_none:
  assumes "\<forall>e \<in> set fds. pf_revents e = 0" "\<not> (\<exists>e \<in> set fds. entry_bits ops s w e \<noteq> 0)"
  shows "map (fill ops s w) fds = fds"
  using assms by (induction fds) (simp_all add: fill_def)

lemma poll_loop_spec:
  assumes "\<forall>w' \<in> set (worlds es w). pollable ops s fds w'" "\<forall>e \<in> set fds. pf_revents e = 0"
  shows "poll_loop ops s es fds w = (case find (\<lambda>w'. \<exists>e \<in> set fds. entry_bits ops s w' e \<noteq> 0) (worlds es w) of
     None \<Rightarrow> Inl Hang | Some w' \<Rightarrow> Inr (map (fill ops s w') fds, w'))"
  using assms(1)
proof (induction es arbitrary: w)
  case Nil
  then show ?case using poll_scan_spec [of ops s fds w] assms(2) by auto
next
  case (Cons e es)
  show ?case
  proof (cases "\<exists>e \<in> set fds. entry_bits ops s w e \<noteq> 0")
    case True
    then show ?thesis using poll_scan_spec [of ops s fds w] assms(2) Cons.prems by auto
  next
    case False
    then have "poll_loop ops s (e # es) fds w = poll_loop ops s es fds (e w)"
      using poll_scan_spec [of ops s fds w] assms(2) Cons.prems fill_none [OF assms(2) False] by simp
    then show ?thesis using Cons False by simp
  qed
qed

text \<open>\<open>poll\<close> returns at the first look at which some open descriptor is ready for an event its entry asks for,
  and reports for every entry what is ready then of what it asked for; until then it sleeps, whatever the
  timeout, and entries of descriptors that are not open never count.\<close>

theorem poll_returns_when_ready:
  assumes "\<forall>w \<in> set (worlds es (k_world k)). pollable ops (k_files k) fds w"
  shows "sys_poll ops es fds k = (case find (\<lambda>w. \<exists>e \<in> set fds. entry_bits ops (k_files k) w e \<noteq> 0) (worlds es (k_world k)) of
     None \<Rightarrow> Inl Hang | Some w \<Rightarrow> Inr (1, map (fill ops (k_files k) w) fds, put_world w k))"
proof -
  let ?z = "pf_revents_update (\<lambda>_. 0)"
  have z: "entry_bits ops s w (?z e) = entry_bits ops s w e" "fill ops s w (?z e) = fill ops s w e" for s w e
    by (simp_all add: entry_bits_def fill_def split: sum.split)
  have p: "pollable ops s (map ?z fds) w = pollable ops s fds w" for s w by (simp add: pollable_def)
  have "poll_loop ops (k_files k) es (map ?z fds) (k_world k) = (case find (\<lambda>w'. \<exists>e \<in> set (map ?z fds). entry_bits ops (k_files k) w' e \<noteq> 0) (worlds es (k_world k)) of
     None \<Rightarrow> Inl Hang | Some w' \<Rightarrow> Inr (map (fill ops (k_files k) w') (map ?z fds), w'))"
    by (rule poll_loop_spec) (use assms in \<open>simp_all add: p\<close>)
  then show ?thesis by (simp add: sys_poll_def z comp_def split: option.split)
qed

text \<open>Standard input is a pipe that becomes readable in the second sleep; descriptor 5 is not open.\<close>

definition demo_poller :: "fd_world kernel" where
  "demo_poller = \<lparr>k_fsys = fsm_init 1 9 demo_pipes, k_handles = [handle_new 7 O_RDONLY 0], k_creds = root_creds\<rparr>"

definition demo_pollfds :: "pollfd list" where
  "demo_pollfds = [\<lparr>pf_fd = 5, pf_events = 5, pf_revents = 0\<rparr>, \<lparr>pf_fd = 0, pf_events = 1, pf_revents = 0\<rparr>]"

lemma pipe_ready_bits:
  assumes "pipe_ok p (Suc k) w"
  shows "ready_bits kernel_fds p w = Inr (if pipe_pending p w = [] then 4 else 5)"
proof -
  from assms obtain f where f: "w p = Some (FdPipe f)" "cb_wf (ff_buffer f)" "rd_ptr (ff_buffer f) \<le> wr_ptr (ff_buffer f)"
    "unat (wr_ptr (ff_buffer f)) + Suc k < unat (buffer_size (ff_buffer f))" "pipe_pending p w = cb_contents (ff_buffer f)"
    by (rule pipe_okE)
  have "fd_can_write kernel_fds p w = Inr True"
    using flat_can_write [OF f(2,3)] f(1,4) by (simp add: kernel_fds_def ff_can_write_def)
  then show ?thesis using pipes.src_can_read [OF assms] by (simp add: ready_bits_def POLLRDNORM_def POLLWRNORM_def)
qed

lemma demo_poller_bits:
  "ready_bits kernel_fds 7 demo_pipes = Inr 4" "ready_bits kernel_fds 7 (pipe_event 7 [1] demo_pipes) = Inr 5"
proof -
  have "pipe_ok 7 (length [1 :: u8] + Suc 0) demo_pipes" by (rule demo_pipes_ok) simp
  with pipe_event_delivers [of 7 "[1]"] have "pipe_ok 7 (Suc 0) (pipe_event 7 [1] demo_pipes)"
    "pipe_pending 7 (pipe_event 7 [1] demo_pipes) = [1]"
    using demo_pipes_ok(2) by (auto simp: pipes.delivers_def)
  then show "ready_bits kernel_fds 7 demo_pipes = Inr 4" "ready_bits kernel_fds 7 (pipe_event 7 [1] demo_pipes) = Inr 5"
    using pipe_ready_bits [OF demo_pipes_ok(1), of 0] pipe_ready_bits demo_pipes_ok(2) by simp_all
qed

theorem poll_returns_when_ready_witness:
  "\<exists>k. sys_poll kernel_fds [id, pipe_event 7 [1], id] demo_pollfds demo_poller
    = Inr (1, [\<lparr>pf_fd = 5, pf_events = 5, pf_revents = 0\<rparr>, \<lparr>pf_fd = 0, pf_events = 1, pf_revents = 1\<rparr>], k)"
proof -
  have w: "k_world demo_poller = demo_pipes" "k_files demo_poller = \<lparr>f_handles = [handle_new 7 O_RDONLY 0], f_fdm = fdm_empty\<rparr>"
    by (simp_all add: demo_poller_def k_world_def k_files_def fsm_init_def add_mount_def)
  have o: "\<not> is_handle_open (k_files demo_poller) 5" "is_handle_open (k_files demo_poller) 0"
    by (simp_all add: w is_handle_open_def handle_new_def)
  have h: "h_fd (f_handles (k_files demo_poller) ! 0) = 7" by (simp add: w handle_new_def)
  have ws: "worlds [id, pipe_event 7 [1], id] demo_pipes = [demo_pipes, demo_pipes, pipe_event 7 [1] demo_pipes, pipe_event 7 [1] demo_pipes]"
    by simp
  have "\<forall>w \<in> set (worlds [id, pipe_event 7 [1], id] (k_world demo_poller)). pollable kernel_fds (k_files demo_poller) demo_pollfds w"
    unfolding w(1) ws by (simp add: pollable_def demo_pollfds_def o h demo_poller_bits)
  note P = poll_returns_when_ready [OF this]
  have b: "entry_bits kernel_fds (k_files demo_poller) demo_pipes \<lparr>pf_fd = 5, pf_events = 5, pf_revents = 0\<rparr> = 0"
    "entry_bits kernel_fds (k_files demo_poller) demo_pipes \<lparr>pf_fd = 0, pf_events = 1, pf_revents = 0\<rparr> = 0"
    "entry_bits kernel_fds (k_files demo_poller) (pipe_event 7 [1] demo_pipes) \<lparr>pf_fd = 5, pf_events = 5, pf_revents = 0\<rparr> = 0"
    "entry_bits kernel_fds (k_files demo_poller) (pipe_event 7 [1] demo_pipes) \<lparr>pf_fd = 0, pf_events = 1, pf_revents = 0\<rparr> = 1"
    by (simp_all add: entry_bits_def o h demo_poller_bits)
  show ?thesis using P unfolding w(1) ws by (simp add: demo_pollfds_def b fill_def)
qed

subsection \<open>Files on a block device\<close>

lemma has_size_mem: "w p = Some (FdMem d) \<Longrightarrow> fd_has_size kernel_fds p w \<and> \<not> fd_should_block kernel_fds p w"
  by (simp add: kernel_fds_def md_has_size_def fd_default_should_block_def)

lemma is_handle_open_set: "is_handle_open s fd \<Longrightarrow> h_open h \<Longrightarrow> is_handle_open (set_handle fd h s) fd"
  by (auto simp: is_handle_open_def set_handle_def split: if_splits)

lemma handle_set_same: "is_handle_open s fd \<Longrightarrow> f_handles (set_handle fd h s) ! nat fd = h"
  by (auto simp: is_handle_open_def set_handle_def split: if_splits)

lemma ucast_up_down [simp]: "ucast (ucast (n :: usize) :: u64) = n"
  using unat_ucast_down [of "ucast n"] unat32 [of n] by (simp add: word_unat_eq_iff)

text \<open>What a process writes to a block device through a handle it reads back after seeking to where it was, in
  full; every call reports the count and the position the device gives it.\<close>

theorem write_seek_read_back:
  fixes k :: "fd_world kernel" and fd :: int
  defines "h \<equiv> f_handles (k_files k) ! nat fd"
  assumes "is_handle_open (k_files k) fd" "h_may_read h" "h_may_write h" "\<not> has_flag (h_flags h) O_APPEND"
    and "k_world k (h_fd h) = Some (FdMem d)" "md_wf d" "unat (h_ptr h) + unat n \<le> unat (md_size d)" "0 < unat n"
    and "length inp = unat n" "unat n \<le> length buf" "unat n < 2147483648"
  shows "\<exists>k1 k2 k3. sys_write kernel_fds [] fd inp n k = Inr (int (unat n), k1)
    \<and> sys_lseek kernel_fds fd (h_ptr h) 0 k1 = Inr (sint (h_ptr h), k2)
    \<and> sys_read kernel_fds [] fd buf n k2 = Inr (int (unat n), inp @ drop (unat n) buf, k3)"
proof -
  let ?p = "h_fd h" and ?off = "ucast (h_ptr h) :: u64" and ?n = "ucast n :: u64"
  have ho: "h_open h" "get_handle (k_files k) fd = Inr h"
    using assms(2) by (auto simp: h_def get_open_handle is_handle_open_def split: if_splits)
  have l: "?off < md_size d" "unat ?n \<le> length inp" using assms(8-10) by (simp_all add: word_less_unat)
  from md_write_read [OF assms(7) l(2,1)] obtain m d' where m: "md_write d inp ?off ?n = Inr (m, d')"
    "unat m = min (unat (md_size d) - unat ?off) (unat ?n)" "md_read d' ?off ?n = Inr (m, take (unat m) inp)" by blast
  have mn: "m = ?n" using m(2) assms(8) by (simp add: word_unat_eq_iff)
  define w1 where "w1 = (k_world k)(?p \<mapsto> FdMem d')"
  define h1 where "h1 = h\<lparr>h_ptr := h_ptr h + n\<rparr>"
  define k1 where "k1 = put_world w1 (put_files (set_handle fd h1 (k_files k)) k)"
  define k2 where "k2 = put_files (set_handle fd h (k_files k1)) k1"
  have s1: "fd_has_size kernel_fds ?p w1 \<and> \<not> fd_should_block kernel_fds ?p w1"
    by (rule has_size_mem [of _ _ d']) (simp add: w1_def)
  have "fd_write kernel_fds ?p inp ?off ?n (k_world k) = Inr (?n, w1)"
    using assms(6) m(1) mn by (simp add: kernel_fds_def w1_def)
  then have "h_write kernel_fds [] h inp n (k_world k) = Inr (n, h1, w1)"
    using assms(5) s1 by (simp add: h_write_def h_write_raw_def advance_def h1_def)
  then have 1: "sys_write kernel_fds [] fd inp n k = Inr (int (unat n), k1)"
    using assms(2,4) ho(2) sint_small [OF assms(12)] by (simp add: sys_write_def k1_def)
  have f1: "k_files k1 = set_handle fd h1 (k_files k)" "k_world k1 = w1" by (simp_all add: k1_def)
  have o1: "is_handle_open (k_files k1) fd" unfolding f1 by (rule is_handle_open_set [OF assms(2)]) (simp add: h1_def ho)
  have g1: "get_handle (k_files k1) fd = Inr h1" using get_open_handle [OF o1] handle_set_same [OF assms(2)] by (simp add: f1)
  have 2: "sys_lseek kernel_fds fd (h_ptr h) 0 k1 = Inr (sint (h_ptr h), k2)"
    using o1 g1 s1 by (simp add: sys_lseek_def f1(2) h1_def seek_to_def k2_def)
  have f2: "k_files k2 = set_handle fd h (k_files k1)" "k_world k2 = w1" by (simp_all add: k2_def f1)
  have o2: "is_handle_open (k_files k2) fd" unfolding f2 by (rule is_handle_open_set [OF o1]) (rule ho)
  have g2: "get_handle (k_files k2) fd = Inr h" using get_open_handle [OF o2] handle_set_same [OF o1] by (simp add: f2)
  have tk: "take (unat m) inp = inp" using mn assms(10) by simp
  have "fd_read kernel_fds ?p ?off ?n w1 = Inr (?n, inp, w1)"
    using m(3) mn tk by (simp add: kernel_fds_def w1_def)
  moreover have "poke buf 0 inp = Inr (inp @ drop (unat n) buf)" using assms(10,11) by simp
  ultimately have "h_read kernel_fds [] h buf n w1 = Inr (n, inp @ drop (unat n) buf, h1, w1)"
    using s1 by (simp add: h_read_def h_read_raw_def advance_def h1_def)
  then have "\<exists>k3. sys_read kernel_fds [] fd buf n k2 = Inr (int (unat n), inp @ drop (unat n) buf, k3)"
    using assms(3) o2 g2 sint_small [OF assms(12)] by (simp add: sys_read_def f2(2))
  with 1 2 show ?thesis by blast
qed

definition demo_disk_kernel :: "fd_world kernel" where
  "demo_disk_kernel = \<lparr>k_fsys = fsm_init 1 9 [7 \<mapsto> FdMem \<lparr>md_bytes = [1, 2, 3, 4], md_size = 4\<rparr>],
     k_handles = [handle_new 7 O_RDWR 1], k_creds = root_creds\<rparr>"

theorem write_seek_read_back_witness:
  "\<exists>k1 k2 k3. sys_write kernel_fds [] 0 [8, 9] 2 demo_disk_kernel = Inr (2, k1) \<and> sys_lseek kernel_fds 0 1 0 k1 = Inr (1, k2)
    \<and> sys_read kernel_fds [] 0 [0, 0, 0] 2 k2 = Inr (2, [8, 9, 0], k3)"
proof -
  have f: "k_files demo_disk_kernel = \<lparr>f_handles = [handle_new 7 O_RDWR 1], f_fdm = fdm_empty\<rparr>"
    "k_world demo_disk_kernel 7 = Some (FdMem \<lparr>md_bytes = [1, 2, 3, 4], md_size = 4\<rparr>)"
    by (simp_all add: demo_disk_kernel_def k_world_def k_files_def fsm_init_def add_mount_def)
  have "is_handle_open (k_files demo_disk_kernel) 0" "f_handles (k_files demo_disk_kernel) ! nat 0 = handle_new 7 O_RDWR 1"
    by (simp_all add: f is_handle_open_def handle_new_def)
  moreover have "h_may_read (handle_new 7 O_RDWR 1)" "h_may_write (handle_new 7 O_RDWR 1)" "\<not> has_flag (h_flags (handle_new 7 O_RDWR 1)) O_APPEND"
    by (simp_all add: h_may_read_def h_may_write_def handle_new_def flag_defs)
  moreover have "md_wf \<lparr>md_bytes = [1, 2, 3, 4], md_size = 4\<rparr>" by (simp add: md_wf_def)
  ultimately show ?thesis
    using write_seek_read_back [of demo_disk_kernel 0 _ 2 "[8, 9]" "[0, 0, 0]"] f(2) by (simp add: handle_new_def)
qed

subsection \<open>Opening an open file again\<close>

lemma walk_path_fdm:
  assumes "sy_world t = sy_world s" "sy_mounts t = sy_mounts s"
  shows "walk_path ops t creds i cs = walk_path ops s creds i cs"
proof (induction cs arbitrary: i)
  case (Cons c cs)
  have "lookup_dir ops t i c = lookup_dir ops s i c" for i unfolding lookup_dir_def assms ..
  moreover have "cross_mount ops t i = cross_mount ops s i" for i unfolding cross_mount_def assms ..
  ultimately show ?case unfolding walk_path.simps Cons assms by (rule refl | simp only:)
qed simp

lemma get_inode_fdm: "get_inode ops (s\<lparr>sy_fdm := m\<rparr>) path creds = get_inode ops s path creds"
proof -
  have e: "sy_world (s\<lparr>sy_fdm := m\<rparr>) = sy_world s" "sy_mounts (s\<lparr>sy_fdm := m\<rparr>) = sy_mounts s" "sy_root (s\<lparr>sy_fdm := m\<rparr>) = sy_root s"
    by simp_all
  show ?thesis unfolding get_inode_def root_mount_def walk_path_fdm [OF e(1,2)] e ..
qed

lemma fm_open_in_nth:
  assumes "distinct (map ofd_fd es)" "j < length es"
  shows "fm_open_in (ofd_fd (es ! j)) es = es[j := ofd_retain (es ! j)]"
  using assms
proof (induction es arbitrary: j)
  case (Cons e es)
  then show ?case by (cases j) (auto simp: image_iff)
qed simp

text \<open>Opening a file of which a description is open counts two references for the one handle, so that closing
  the handle again leaves one behind: such a description is never closed.\<close>

theorem reopened_description_leaks:
  assumes "get_inode fs (k_fsys k) path (Some (k_creds k)) = Inr (Inr i)" "may_read (k_creds k) i"
    and "fm_wf (sy_fdm (k_fsys k))" "j < length (fm_fds (sy_fdm (k_fsys k)))"
    and "fm_find_inode (sy_fdm (k_fsys k)) (in_id i) (in_fs i) (fm_fds (sy_fdm (k_fsys k))) = Inr (Some j)"
    and "p = ofd_fd (fm_fds (sy_fdm (k_fsys k)) ! j)" "fm_ref (sy_fdm (k_fsys k)) p = Some n" "n + 2 < 4294967296"
    and "length (k_handles k) < 256"
  shows "\<exists>fd k1 k2. sys_open fs path O_RDONLY k = Inr (fd, k1) \<and> 0 \<le> fd \<and> is_handle_open (k_files k1) fd
    \<and> sys_close fd k1 = Inr (0, k2) \<and> \<not> is_handle_open (k_files k2) fd \<and> fm_ref (sy_fdm (k_fsys k2)) p = Some (n + 1)"
proof -
  let ?m = "sy_fdm (k_fsys k)"
  define m1 where "m1 = fm_open p ?m"
  have nz: "p \<noteq> 0" using assms(3,4,6) nth_mem [OF assms(4)] by (force simp: fm_wf_def)
  have "m1 = ?m\<lparr>fm_fds := (fm_fds ?m)[j := ofd_retain (fm_fds ?m ! j)]\<rparr>"
    using fm_open_in_nth [OF _ assms(4)] assms(3) by (simp add: m1_def fm_open_def fm_wf_def assms(6))
  then have "fm_fetch_inode_fd (in_id i) (in_fs i) ?m = Inr (p, m1)" using assms(5,6) by (simp add: fm_fetch_inode_fd_def)
  then have oi: "open_inode fs (k_fsys k) i (Some (k_creds k)) = Inr (Inr p, (k_fsys k)\<lparr>sy_fdm := m1\<rparr>)"
    using nz by (simp add: open_inode_def)
  have o: "fsm_open fs (k_fsys k) path O_RDONLY (Some (k_creds k)) = Inr (Inr p, (k_fsys k)\<lparr>sy_fdm := m1\<rparr>)"
    using assms(1,2) oi by (simp add: fsm_open_def denied_def flag_defs)
  let ?k = "k\<lparr>k_fsys := (k_fsys k)\<lparr>sy_fdm := m1\<rparr>\<rparr>"
  obtain fd t where t: "open_handle p O_RDONLY (k_files ?k) = (fd, t)" by force
  have m1: "fm_wf m1 \<and> fm_ref m1 p = Some (Suc n)" using fm_open_ref [OF assms(3,7)] assms(8) by (simp add: m1_def)
  then have m2: "fm_wf (fm_open p m1) \<and> fm_ref (fm_open p m1) p = Some (Suc (Suc n))" using fm_open_ref [of m1 p "Suc n"] assms(8) by simp
  have fdt: "0 \<le> fd" "f_fdm t = fm_open p m1" "is_handle_open t fd" "h_fd (f_handles t ! nat fd) = p"
    using t assms(9) first_closed_Some [of "k_handles k"]
    by (auto simp: open_handle_def k_files_def is_handle_open_def handle_new_def split: option.splits)
  define k1 where "k1 = put_files t ?k"
  have 1: "sys_open fs path O_RDONLY k = Inr (fd, k1)"
    using o t fdt(1) by (simp add: sys_open_def access_flags_def flag_defs k1_def)
  from fm_close_more [of "f_fdm t" p "Suc (Suc n)"] m2 fdt(2) obtain m3 where
    m3: "fm_close p (f_fdm t) = Inr (ENOERR, m3)" "fm_ref m3 p = Some (Suc n)" by auto
  have g: "get_handle t fd = Inr (f_handles t ! nat fd)" "h_open (f_handles t ! nat fd)" "nat fd < length (f_handles t)"
    using fdt(3) get_open_handle by (auto simp: is_handle_open_def split: if_splits)
  have "\<exists>k2. sys_close fd k1 = Inr (0, k2) \<and> \<not> is_handle_open (k_files k2) fd \<and> fm_ref (sy_fdm (k_fsys k2)) p = Some (n + 1)"
    using fdt(1,3,4) g m3 by (simp add: sys_close_def k1_def close_handle_def ENOERR_def is_handle_open_def set_handle_def)
  with 1 fdt(1,3) show ?thesis by (auto simp: k1_def)
qed

definition demo_reopen :: "fs_world kernel" where
  "demo_reopen = \<lparr>k_fsys = demo_dev_fsys\<lparr>sy_fdm := fm_open 77 (fm_save_fd 77 FILESYSTEM (fm_set_inode_iden 77 2 5 True fdm_empty))\<rparr>,
     k_handles = [], k_creds = root_creds\<rparr>"

theorem reopened_description_leaks_witness:
  "\<exists>fd k1 k2. sys_open (kernel_ops (\<lambda>_. 0)) [''tty''] O_RDONLY demo_reopen = Inr (fd, k1) \<and> sys_close fd k1 = Inr (0, k2)
    \<and> fm_ref (sy_fdm (k_fsys demo_reopen)) 77 = Some 1 \<and> fm_ref (sy_fdm (k_fsys k2)) 77 = Some 2"
proof -
  let ?m = "sy_fdm (k_fsys demo_reopen)" and ?i = "di_to_inode (\<lambda>_. 0) 5 (hd (df_devices demo_devs)) inode_zero"
  have m: "fm_fds ?m = [\<lparr>ofd_src = FILESYSTEM, ofd_refcount = 1, ofd_fd = 77\<rparr>]" "fm_files ?m 77 = Some \<lparr>if_inode_num = 2, if_fs = 5, if_may_exec = True\<rparr>"
    by (simp_all add: demo_reopen_def fm_open_def fm_save_fd_def fm_set_inode_iden_def fdm_empty_def ofd_retain_def)
  have g: "get_inode (kernel_ops (\<lambda>_. 0)) (k_fsys demo_reopen) [''tty''] (Some (k_creds demo_reopen)) = Inr (Inr ?i)"
    using demo_dev_get [of "\<lambda>_. 0"] by (simp add: demo_reopen_def get_inode_fdm)
  have i: "in_id ?i = 2" "in_fs ?i = 5" by (simp_all add: di_to_inode_def demo_devs_def)
  have r: "may_read (k_creds demo_reopen) ?i" using demo_dev_perms(1) by (simp add: demo_reopen_def)
  have w: "fm_wf ?m" by (simp add: fm_wf_def m)
  have j: "0 < length (fm_fds ?m)" "fm_find_inode ?m (in_id ?i) (in_fs ?i) (fm_fds ?m) = Inr (Some 0)" "77 = ofd_fd (fm_fds ?m ! 0)"
    by (simp_all add: m i fm_file_def)
  have n: "fm_ref ?m 77 = Some 1" "(1 :: nat) + 2 < 4294967296" "length (k_handles demo_reopen) < 256"
    by (simp_all add: fm_ref_def m) (simp add: demo_reopen_def)
  have "(1 :: nat) + 1 = 2" by simp
  then show ?thesis using reopened_description_leaks [OF g r w j n] n(1) by metis
qed

end
