(* ===== verification/Extcmd.thy ===== *)
theory Extcmd
  imports Prelude
begin

text \<open>
  How processes have \<open>exit\<close>, \<open>fork\<close> and \<open>exec\<close> carried out by another thread
  (\<open>run_extcmd\<close>, \<open>process_extcmd_thread\<close> and \<open>handle_extcmd\<close> of \<open>kernel/src/proc/manager.cpp\<close>, with the
  \<open>Mutex\<close> of \<open>common/thread.hpp\<close>): a transition system of the client threads and the one worker. System
  calls run with interrupts enabled (\<open>kernel/arch/i386/asm/isr.asm\<close>), so that the timer can switch threads
  between a test and the \<open>await\<close> that follows it; these are steps of their own. An \<open>emit\<close> wakes only
  threads that are asleep.
\<close>

datatype extcmd = ExitCmd | ForkCmd | ExecCmd

text \<open>Where a client is: outside, in \<open>lock\<close> (testing, about to sleep, asleep, past the test), about to make
  its request, in the loop that waits for \<open>extcmd_finished\<close>, about to release, or gone.\<close>

datatype client = Idle | LockTest extcmd | LockWait extcmd | LockSleep extcmd | LockPass extcmd | Request extcmd
  | FinTest | FinWait | FinSleep | Release | Dead

datatype worker = RunWait | RunSleep | RunTest | Serve | FinEmit

record ext =
  xt_locked :: bool
  xt_cmd :: extcmd
  xt_caller :: nat
  xt_finished :: bool
  xt_fork :: bool
  xt_worker :: worker
  xt_clients :: "client list"

definition ext_init :: "nat \<Rightarrow> ext" where
  "ext_init n = \<lparr>xt_locked = False, xt_cmd = ExitCmd, xt_caller = 0, xt_finished = False, xt_fork = False,
     xt_worker = RunWait, xt_clients = replicate n Idle\<rparr>"

definition at_client :: "nat \<Rightarrow> client \<Rightarrow> ext \<Rightarrow> ext" where
  "at_client i c s = s\<lparr>xt_clients := (xt_clients s)[i := c]\<rparr>"

definition wake_lock :: "client \<Rightarrow> client" where
  "wake_lock c = (case c of LockSleep x \<Rightarrow> LockTest x | _ \<Rightarrow> c)"

definition wake_fin :: "client \<Rightarrow> client" where
  "wake_fin c = (case c of FinSleep \<Rightarrow> FinTest | _ \<Rightarrow> c)"

definition wake_run :: "worker \<Rightarrow> worker" where
  "wake_run w = (case w of RunSleep \<Rightarrow> RunTest | _ \<Rightarrow> w)"

text \<open>The next step of client \<open>i\<close>; none for a client that is idle, asleep or gone.\<close>

definition client_step :: "nat \<Rightarrow> ext \<Rightarrow> ext option" where
  "client_step i s = (case xt_clients s ! i of
     LockTest c \<Rightarrow> Some (at_client i (if xt_locked s then LockWait c else LockPass c) s)
   | LockWait c \<Rightarrow> Some (at_client i (LockSleep c) s)
   | LockPass c \<Rightarrow> Some (at_client i (Request c) (s\<lparr>xt_locked := True\<rparr>))
   | Request c \<Rightarrow> Some (at_client i FinTest (s\<lparr>xt_cmd := c, xt_caller := i, xt_finished := False, xt_worker := wake_run (xt_worker s)\<rparr>))
   | FinTest \<Rightarrow> Some (at_client i (if xt_finished s then Release else FinWait) s)
   | FinWait \<Rightarrow> Some (at_client i FinSleep s)
   | Release \<Rightarrow> Some (if xt_fork s then at_client i Idle (s\<lparr>xt_fork := False\<rparr>)
       else let t = at_client i Idle s in t\<lparr>xt_locked := False, xt_clients := map wake_lock (xt_clients t)\<rparr>)
   | _ \<Rightarrow> None)"

text \<open>What the worker does for a request: \<open>exit\<close> and a successful \<open>exec\<close> end the threads of the calling
  process, and \<open>exec\<close> starts a new one; \<open>fork\<close> adds a copy of the caller.\<close>

definition serve :: "bool \<Rightarrow> ext \<Rightarrow> ext" where
  "serve ok s = (case xt_cmd s of
     ExitCmd \<Rightarrow> at_client (xt_caller s) Dead s
   | ForkCmd \<Rightarrow> s\<lparr>xt_fork := True, xt_clients := xt_clients s @ [xt_clients s ! xt_caller s]\<rparr>
   | ExecCmd \<Rightarrow> if ok then (let t = at_client (xt_caller s) Dead s in t\<lparr>xt_clients := xt_clients t @ [Idle]\<rparr>) else s)"

definition worker_step :: "bool \<Rightarrow> ext \<Rightarrow> ext option" where
  "worker_step ok s = (case xt_worker s of
     RunWait \<Rightarrow> Some (s\<lparr>xt_worker := RunSleep\<rparr>)
   | RunSleep \<Rightarrow> None
   | RunTest \<Rightarrow> Some (s\<lparr>xt_worker := (if xt_finished s then RunWait else Serve)\<rparr>)
   | Serve \<Rightarrow> Some ((serve ok s)\<lparr>xt_finished := True, xt_worker := FinEmit\<rparr>)
   | FinEmit \<Rightarrow> Some (s\<lparr>xt_worker := RunWait, xt_clients := map wake_fin (xt_clients s)\<rparr>))"

inductive ext_step :: "ext \<Rightarrow> ext \<Rightarrow> bool" where
  call: "\<lbrakk>i < length (xt_clients s); xt_clients s ! i = Idle\<rbrakk> \<Longrightarrow> ext_step s (at_client i (LockTest c) s)"
| client: "\<lbrakk>i < length (xt_clients s); client_step i s = Some t\<rbrakk> \<Longrightarrow> ext_step s t"
| worker: "worker_step ok s = Some t \<Longrightarrow> ext_step s t"

inductive_cases ext_stepE: "ext_step s t"

subsection \<open>Serving an exit or an exec\<close>

text \<open>A client between taking the mutex and giving it back.\<close>

definition inside :: "client \<Rightarrow> bool" where
  "inside c \<longleftrightarrow> (case c of LockPass _ \<Rightarrow> True | Request _ \<Rightarrow> True | FinTest \<Rightarrow> True | FinWait \<Rightarrow> True | FinSleep \<Rightarrow> True
     | Release \<Rightarrow> True | _ \<Rightarrow> False)"

definition stuck :: "ext \<Rightarrow> bool" where
  "stuck s \<longleftrightarrow> xt_locked s \<and> xt_finished s \<and> xt_worker s \<noteq> Serve \<and> (\<forall>c \<in> set (xt_clients s). \<not> inside c)"

lemma inside_simps [simp]: "\<not> inside Idle" "\<not> inside (LockTest c)" "\<not> inside (LockWait c)" "\<not> inside (LockSleep c)" "\<not> inside Dead"
  "inside (LockPass c)" "inside (Request c)" "inside FinTest" "inside FinWait" "inside FinSleep" "inside Release"
  by (simp_all add: inside_def)

lemma wake_fin_outside: "\<not> inside c \<Longrightarrow> wake_fin c = c"
  by (cases c) (simp_all add: wake_fin_def)

lemma set_update_outside: "\<forall>c \<in> set cs. \<not> inside c \<Longrightarrow> \<not> inside x \<Longrightarrow> \<forall>c \<in> set (cs[i := x]). \<not> inside c"
  using set_update_subset_insert [of cs i x] by blast

lemma stuck_step: "ext_step s t \<Longrightarrow> stuck s \<Longrightarrow> stuck t"
proof (erule ext_stepE)
  fix i c
  assume "stuck s" "t = at_client i (LockTest c) s"
  then show "stuck t" using set_update_outside [of "xt_clients s" "LockTest c" i] by (simp add: stuck_def at_client_def)
next
  fix i
  assume s: "stuck s" and i: "i < length (xt_clients s)" and t: "client_step i s = Some t"
  have "\<not> inside (xt_clients s ! i)" using s i by (simp add: stuck_def)
  then obtain c where "t = at_client i c s" "\<not> inside c"
    using t s by (cases "xt_clients s ! i") (auto simp: client_step_def stuck_def)
  then show "stuck t" using s set_update_outside [of "xt_clients s" c i] by (simp add: stuck_def at_client_def)
next
  fix ok
  assume s: "stuck s" and t: "worker_step ok s = Some t"
  have "map wake_fin (xt_clients s) = xt_clients s" using s by (simp add: stuck_def map_idI wake_fin_outside)
  then show "stuck t" using s t by (cases "xt_worker s") (auto simp: worker_step_def stuck_def)
qed

text \<open>C39: An \<open>exit\<close>, or an \<open>exec\<close> that succeeds, that is served while no thread but its caller has come past the test of the mutex leaves the mutex locked for
  good: its holder is gone. Whatever happens later, under every interleaving, no thread comes past the test or makes a request again, so no process can
  exit, fork or exec any more. The mutex itself does not guarantee that hypothesis: its test and its assignment are two steps, and a thread that is already past the test when the \<open>exit\<close> is
  served releases the mutex later (\<open>late_client_unlocks\<close>).\<close>

theorem served_exit_locks_out:
  assumes "xt_worker s = Serve" "xt_cmd s \<noteq> ForkCmd" "xt_locked s" "xt_caller s < length (xt_clients s)"
    and "\<forall>i < length (xt_clients s). i \<noteq> xt_caller s \<longrightarrow> \<not> inside (xt_clients s ! i)"
    and "worker_step True s = Some t" "ext_step\<^sup>*\<^sup>* t u"
  shows "xt_locked u \<and> (\<forall>c \<in> set (xt_clients u). \<not> inside c)"
proof -
  have out: "\<forall>c \<in> set ((xt_clients s)[xt_caller s := Dead]). \<not> inside c"
    using assms(4,5) by (auto simp: in_set_conv_nth nth_list_update split: if_splits)
  have "stuck t" using assms(1-3,6) out
    by (cases "xt_cmd s") (auto simp: worker_step_def serve_def stuck_def at_client_def Let_def)
  with assms(7) have "stuck u" by (induction rule: rtranclp_induct) (auto intro: stuck_step)
  then show ?thesis by (simp add: stuck_def)
qed

subsection \<open>Schedules\<close>

text \<open>A schedule names the thread that makes each step.\<close>

datatype move = Call nat extcmd | Client nat | Worker bool

definition move_step :: "ext \<Rightarrow> move \<Rightarrow> ext option" where
  "move_step s m = (case m of
     Call i c \<Rightarrow> if i < length (xt_clients s) \<and> xt_clients s ! i = Idle then Some (at_client i (LockTest c) s) else None
   | Client i \<Rightarrow> if i < length (xt_clients s) then client_step i s else None
   | Worker ok \<Rightarrow> worker_step ok s)"

fun run_moves :: "move list \<Rightarrow> ext \<Rightarrow> ext option" where
  "run_moves [] s = Some s"
| "run_moves (m # ms) s = (case move_step s m of None \<Rightarrow> None | Some t \<Rightarrow> run_moves ms t)"

lemma move_step_sound: "move_step s m = Some t \<Longrightarrow> ext_step s t"
  by (cases m) (auto simp: move_step_def intro: ext_step.intros split: if_split_asm)

lemma run_moves_sound: "run_moves ms s = Some t \<Longrightarrow> ext_step\<^sup>*\<^sup>* s t"
proof (induction ms arbitrary: s)
  case (Cons m ms)
  then obtain u where u: "move_step s m = Some u" "run_moves ms u = Some t" by (auto split: option.split_asm)
  from move_step_sound [OF u(1)] Cons.IH [OF u(2)] show ?case by (rule converse_rtranclp_into_rtranclp)
qed simp

definition serving_exit :: ext where
  "serving_exit = \<lparr>xt_locked = True, xt_cmd = ExitCmd, xt_caller = 0, xt_finished = False, xt_fork = False,
     xt_worker = Serve, xt_clients = [FinSleep, Idle]\<rparr>"

definition served_exit :: ext where
  "served_exit = serving_exit\<lparr>xt_finished := True, xt_worker := FinEmit, xt_clients := [Dead, Idle]\<rparr>"

lemma serving_exit_reachable: "ext_step\<^sup>*\<^sup>* (ext_init 2) serving_exit"
proof (rule run_moves_sound)
  show "run_moves [Worker True, Call 0 ExitCmd, Client 0, Client 0, Client 0, Client 0, Client 0, Worker True] (ext_init 2) = Some serving_exit"
    by code_simp
qed

text \<open>The schedule after the exit in which the other client calls \<open>fork\<close>: it ends asleep on the mutex.\<close>

theorem served_exit_locks_out_witness:
  "\<exists>u. ext_step\<^sup>*\<^sup>* (ext_init 2) u \<and> xt_clients u = [Dead, LockSleep ForkCmd] \<and> xt_locked u \<and> (\<forall>c \<in> set (xt_clients u). \<not> inside c)"
proof -
  have s: "xt_worker serving_exit = Serve" "xt_cmd serving_exit \<noteq> ForkCmd" "xt_locked serving_exit"
    "xt_caller serving_exit < length (xt_clients serving_exit)" "worker_step True serving_exit = Some served_exit"
    by (simp_all add: serving_exit_def served_exit_def worker_step_def serve_def at_client_def)
  have o: "\<forall>i < length (xt_clients serving_exit). i \<noteq> xt_caller serving_exit \<longrightarrow> \<not> inside (xt_clients serving_exit ! i)"
    by (simp add: serving_exit_def less_Suc_eq)
  obtain u where u: "run_moves [Worker True, Call 1 ForkCmd, Client 1, Client 1] served_exit = Some u" "xt_clients u = [Dead, LockSleep ForkCmd]"
  proof
    show "run_moves [Worker True, Call 1 ForkCmd, Client 1, Client 1] served_exit
      = Some (served_exit\<lparr>xt_worker := RunWait, xt_clients := [Dead, LockSleep ForkCmd]\<rparr>)" by code_simp
  qed simp
  note r = run_moves_sound [OF u(1)]
  have "ext_step\<^sup>*\<^sup>* (ext_init 2) u"
    using serving_exit_reachable ext_step.worker [OF s(5)] r by (meson rtranclp.rtrancl_into_rtrancl rtranclp_trans)
  then show ?thesis using served_exit_locks_out [OF s(1-4) o s(5) r] u(2) by blast
qed

subsection \<open>What preemption allows\<close>

text \<open>A client that sleeps for an answer while the worker sleeps for a request.\<close>

definition lost :: "nat \<Rightarrow> ext \<Rightarrow> bool" where
  "lost i s \<longleftrightarrow> xt_locked s \<and> xt_worker s = RunSleep \<and> i < length (xt_clients s) \<and> xt_clients s ! i = FinSleep
     \<and> (\<forall>c \<in> set (xt_clients s). inside c \<longrightarrow> c = FinSleep)"

lemma lost_update:
  assumes "lost i s" "j < length (xt_clients s)" "xt_clients s ! j \<noteq> FinSleep" "\<not> inside x"
  shows "lost i (at_client j x s)"
proof -
  have "\<forall>c \<in> set ((xt_clients s)[j := x]). inside c \<longrightarrow> c = FinSleep"
    using assms(1,4) set_update_subset_insert [of "xt_clients s" j x] unfolding lost_def by blast
  then show ?thesis using assms(1-3) by (auto simp: lost_def at_client_def nth_list_update)
qed

lemma lost_step: "ext_step s t \<Longrightarrow> lost i s \<Longrightarrow> lost i t"
proof (erule ext_stepE)
  fix j c
  assume "lost i s" "j < length (xt_clients s)" "xt_clients s ! j = Idle" "t = at_client j (LockTest c) s"
  then show "lost i t" using lost_update [of i s j "LockTest c"] by simp
next
  fix j
  assume s: "lost i s" and j: "j < length (xt_clients s)" and t: "client_step j s = Some t"
  have "inside (xt_clients s ! j) \<longrightarrow> xt_clients s ! j = FinSleep" using s j by (simp add: lost_def)
  moreover have "xt_clients s ! j \<noteq> FinSleep" using t by (auto simp: client_step_def)
  moreover have "xt_locked s" using s by (simp add: lost_def)
  ultimately obtain x where "t = at_client j x s" "\<not> inside x"
    using t by (cases "xt_clients s ! j") (auto simp: client_step_def)
  then show "lost i t" using lost_update [OF s j \<open>xt_clients s ! j \<noteq> FinSleep\<close>] by simp
next
  fix ok
  assume "lost i s" "worker_step ok s = Some t"
  then show "lost i t" by (simp add: worker_step_def lost_def)
qed

text \<open>A request made while the worker is between two requests is lost: with the timer switching threads at the
  wrong moment the client sleeps, holding the mutex, for an answer to a request the worker never sees.\<close>

theorem request_can_be_lost:
  "\<exists>s. ext_step\<^sup>*\<^sup>* (ext_init 2) s \<and> \<not> xt_finished s
    \<and> (\<forall>u. ext_step\<^sup>*\<^sup>* s u \<longrightarrow> xt_locked u \<and> xt_worker u = RunSleep \<and> xt_clients u ! 0 = FinSleep)"
proof -
  let ?s = "\<lparr>xt_locked = True, xt_cmd = ForkCmd, xt_caller = 0, xt_finished = False, xt_fork = False,
     xt_worker = RunSleep, xt_clients = [FinSleep, Idle]\<rparr>"
  have "ext_step\<^sup>*\<^sup>* (ext_init 2) ?s"
  proof (rule run_moves_sound)
    show "run_moves [Call 0 ForkCmd, Client 0, Client 0, Client 0, Client 0, Client 0, Worker True] (ext_init 2) = Some ?s"
      by code_simp
  qed
  moreover have "lost 0 ?s" by (simp add: lost_def)
  have "lost 0 u" if "ext_step\<^sup>*\<^sup>* ?s u" for u
    using that \<open>lost 0 ?s\<close> by (induction rule: rtranclp_induct) (auto intro: lost_step)
  ultimately show ?thesis by (intro exI [of _ ?s]) (auto simp: lost_def)
qed

text \<open>The mutex does not exclude: two threads that test it before either sets it both get in.\<close>

theorem mutex_admits_two:
  "\<exists>s. ext_step\<^sup>*\<^sup>* (ext_init 2) s \<and> xt_clients s = [Request ForkCmd, Request ExecCmd]"
proof -
  have "run_moves [Call 0 ForkCmd, Call 1 ExecCmd, Client 0, Client 1, Client 0, Client 1] (ext_init 2)
    = Some ((ext_init 2)\<lparr>xt_locked := True, xt_clients := [Request ForkCmd, Request ExecCmd]\<rparr>)"
    by code_simp
  from run_moves_sound [OF this] show ?thesis by (intro exI) (auto intro: conjI)
qed

text \<open>So an \<open>exit\<close> does not lock out a client that was already past the test when it was served: that client sets the mutex, has its request served,
  releases the mutex and can come back with another request.\<close>

theorem late_client_unlocks:
  "\<exists>s t u. ext_step\<^sup>*\<^sup>* (ext_init 2) s \<and> xt_worker s = Serve \<and> xt_cmd s = ExitCmd \<and> xt_locked s \<and> worker_step True s = Some t
    \<and> ext_step\<^sup>*\<^sup>* t u \<and> xt_clients u = [Dead, Request ForkCmd]"
proof -
  let ?s = "(ext_init 2)\<lparr>xt_locked := True, xt_worker := Serve, xt_clients := [FinTest, LockPass ExecCmd]\<rparr>"
  let ?t = "(ext_init 2)\<lparr>xt_locked := True, xt_finished := True, xt_worker := FinEmit, xt_clients := [Dead, LockPass ExecCmd]\<rparr>"
  let ?u = "(ext_init 2)\<lparr>xt_locked := True, xt_cmd := ExecCmd, xt_caller := 1, xt_finished := True, xt_worker := FinEmit, xt_clients := [Dead, Request ForkCmd]\<rparr>"
  have s: "run_moves [Worker True, Call 0 ExitCmd, Call 1 ExecCmd, Client 0, Client 1, Client 0, Client 0, Worker True] (ext_init 2) = Some ?s"
    by code_simp
  have t: "worker_step True ?s = Some ?t" by code_simp
  have u: "run_moves [Worker True, Worker True, Client 1, Client 1, Worker True, Worker False, Client 1, Client 1, Call 1 ForkCmd, Client 1, Client 1] ?t = Some ?u"
    by code_simp
  have "xt_worker ?s = Serve" "xt_cmd ?s = ExitCmd" "xt_locked ?s" "xt_clients ?u = [Dead, Request ForkCmd]" by (simp_all add: ext_init_def)
  then show ?thesis using run_moves_sound [OF s] t run_moves_sound [OF u] by blast
qed

end
