(* ===== verification/Proc_Manager.thy ===== *)
theory Proc_Manager
  imports Handles
begin

text \<open>
  Processes and the process manager (\<open>kernel/src/proc/process.cpp\<close>, \<open>manager.cpp\<close>): process numbers, the
  parts of a process that \<open>fork\<close>, \<open>exit\<close> and the argument lists work on, the heap limit, and the
  distribution of system calls. The chain of processes is the list of their addresses (theory
  \<open>Chain\<close> says which chains denote it); \<open>ps_store\<close> holds the objects at these addresses, so that a freed
  process that is still in the chain shows. Addresses of threads and memories are numbers.
\<close>

subsection \<open>Processes\<close>

record process =
  pc_pid :: usize
  pc_handles :: "handle list"
  pc_threads :: "nat list"
  pc_argv :: "string list"
  pc_envp :: "string list"
  pc_creds :: credentials
  pc_brk :: usize
  pc_cwd :: "string list"
  pc_memory :: nat

text \<open>The constructor does not set \<open>brk\<close>; its value is an argument. The directory is the root.\<close>

definition process_new :: "nat \<Rightarrow> usize \<Rightarrow> process" where
  "process_new mem brk0 = \<lparr>pc_pid = 0, pc_handles = [], pc_threads = [], pc_argv = [], pc_envp = [],
     pc_creds = \<lparr>cr_uid = 0, cr_pgid = 0\<rparr>, pc_brk = brk0, pc_cwd = [], pc_memory = mem\<rparr>"

text \<open>\<open>mem\<close> is the forked memory, \<open>thread\<close> the forked thread.\<close>

definition process_fork :: "nat \<Rightarrow> nat \<Rightarrow> process \<Rightarrow> fdm \<Rightarrow> process \<times> fdm" where
  "process_fork mem thread p m = (let (hs, m') = fork_handles (pc_handles p) m in
     ((process_new mem (pc_brk p))\<lparr>pc_creds := pc_creds p, pc_cwd := pc_cwd p, pc_handles := hs,
        pc_threads := [thread]\<rparr>, m'))"

text \<open>\<open>close\<close>: the handles afterwards, the threads that leave the scheduler, and what waiting processes see.\<close>

definition process_close :: "int \<Rightarrow> process \<Rightarrow> fdm \<Rightarrow> (process \<times> fdm \<times> nat list \<times> (usize \<times> int)) result" where
  "process_close status p m = bindr (close_all_handles \<lparr>f_handles = pc_handles p, f_fdm = m\<rparr>) (\<lambda>s.
     Inr (p\<lparr>pc_handles := f_handles s\<rparr>, f_fdm s, pc_threads p, (pc_pid p, status)))"

subsection \<open>Argument lists\<close>

definition get_list :: "bool \<Rightarrow> process \<Rightarrow> string list" where
  "get_list env p = (if env then pc_envp p else pc_argv p)"

definition put_list :: "bool \<Rightarrow> string list \<Rightarrow> process \<Rightarrow> process" where
  "put_list env xs p = (if env then p\<lparr>pc_envp := xs\<rparr> else p\<lparr>pc_argv := xs\<rparr>)"

definition sys_savelist :: "bool \<Rightarrow> string list \<Rightarrow> process \<Rightarrow> int \<times> process" where
  "sys_savelist env xs p = (0, put_list env xs p)"

text \<open>The bytes stored to the user's buffer: each string and its terminator. Without a buffer only the
  size is returned.\<close>

definition list_bytes :: "string list \<Rightarrow> string" where
  "list_bytes xs = concat (map (\<lambda>s. s @ [CHR 0x00]) xs)"

fun list_size :: "string list \<Rightarrow> u32" where
  "list_size [] = 0"
| "list_size (s # xs) = of_nat (length s) + 1 + list_size xs"

definition sys_restorelist :: "bool \<Rightarrow> bool \<Rightarrow> process \<Rightarrow> int \<times> string \<times> process" where
  "sys_restorelist env no_buffer p = (if no_buffer then (sint (list_size (get_list env p)), [], p)
     else (0, list_bytes (get_list env p), put_list env [] p))"

subsection \<open>The heap limit\<close>

text \<open>The number of pages \<open>set_brk\<close> gives the heap segment, which starts at the page \<open>base\<close>. The field \<open>brk\<close>
  is not assigned.\<close>

definition set_brk_count :: "usize \<Rightarrow> u64 \<Rightarrow> usize" where
  "set_brk_count nbrk base = (let page = nbrk div 4096;
       page1 = (if nbrk mod 4096 \<noteq> 0 then page + 1 else page);
       page2 = ucast (max (ucast page1) base) :: usize in
     ucast (ucast page2 - base))"

record heap_seg =
  hs_base :: u64
  hs_count :: usize

definition set_brk :: "usize \<Rightarrow> heap_seg \<Rightarrow> heap_seg" where
  "set_brk nbrk h = h\<lparr>hs_count := set_brk_count nbrk (hs_base h)\<rparr>"

definition sys_sbrk :: "usize \<Rightarrow> process \<Rightarrow> heap_seg \<Rightarrow> int \<times> heap_seg" where
  "sys_sbrk n p h = (sint (pc_brk p), set_brk (pc_brk p + n) h)"

subsection \<open>The manager\<close>

record procs =
  ps_chain :: "nat list"
  ps_store :: "nat \<Rightarrow> process option"

definition proc_at :: "procs \<Rightarrow> nat \<Rightarrow> process result" where
  "proc_at s a = (case ps_store s a of None \<Rightarrow> Inl Fault | Some p \<Rightarrow> Inr p)"

fun find_pid :: "procs \<Rightarrow> usize \<Rightarrow> nat list \<Rightarrow> nat result" where
  "find_pid s pid [] = Inr 0"
| "find_pid s pid (a # as) = bindr (proc_at s a) (\<lambda>p. if pc_pid p = pid then Inr a else find_pid s pid as)"

definition get_process :: "usize \<Rightarrow> procs \<Rightarrow> nat result" where
  "get_process pid s = find_pid s pid (ps_chain s)"

text \<open>The scan of \<open>insert\<close>: the number for the new process and its place in the chain.\<close>

fun insert_scan :: "procs \<Rightarrow> usize \<Rightarrow> nat list \<Rightarrow> (usize \<times> nat) result" where
  "insert_scan s pid [] = Inr (pid, 0)"
| "insert_scan s pid (a # as) = bindr (proc_at s a) (\<lambda>p.
     if pid = pc_pid p then bindr (insert_scan s (pid + 1) as) (\<lambda>(n, i). Inr (n, Suc i))
     else Inr (pid, 0))"

definition pm_insert :: "nat \<Rightarrow> process \<Rightarrow> procs \<Rightarrow> (usize \<times> procs) result" where
  "pm_insert a p s = bindr (insert_scan s 1 (ps_chain s)) (\<lambda>(pid, i).
     Inr (pid, \<lparr>ps_chain = take i (ps_chain s) @ a # drop i (ps_chain s), ps_store = (ps_store s)(a \<mapsto> p\<lparr>pc_pid := pid\<rparr>)\<rparr>))"

definition pm_create :: "nat \<Rightarrow> nat \<Rightarrow> usize \<Rightarrow> procs \<Rightarrow> (usize \<times> procs) result" where
  "pm_create a mem brk0 s = pm_insert a (process_new mem brk0) s"

definition pm_fork :: "nat \<Rightarrow> nat \<Rightarrow> nat \<Rightarrow> nat \<Rightarrow> procs \<Rightarrow> fdm \<Rightarrow> (usize \<times> procs \<times> fdm) result" where
  "pm_fork a mem thread src s m = bindr (proc_at s src) (\<lambda>p. let (q, m') = process_fork mem thread p m in
     bindr (pm_insert a q s) (\<lambda>(pid, s'). Inr (pid, s', m')))"

text \<open>\<open>exit\<close> frees the process; nothing takes it out of the chain.\<close>

definition pm_exit :: "nat \<Rightarrow> int \<Rightarrow> procs \<Rightarrow> fdm \<Rightarrow> (procs \<times> fdm \<times> nat list \<times> (usize \<times> int)) result" where
  "pm_exit a status s m = bindr (proc_at s a) (\<lambda>p. bindr (process_close status p m) (\<lambda>(p', m', ts, e).
     Inr (s\<lparr>ps_store := (ps_store s)(a := None)\<rparr>, m', ts, e)))"

subsection \<open>Numbers of system calls\<close>

datatype syscall = CallExit usize | CallRead int usize usize | CallWrite int usize usize | CallOpen usize usize
  | CallClose int | CallLseek int usize usize | CallPipe usize | CallDup int | CallDup2 int int | CallFork
  | CallExec usize | CallPoll usize int int | CallIoctl int usize usize | CallBrk usize | CallSbrk usize
  | CallSavelist bool usize | CallRestorelist bool usize | CallNone

text \<open>The call that \<open>syscall\<close> makes for the registers \<open>a\<close>, \<open>b\<close>, \<open>c\<close>, \<open>d\<close>; the status of an exit is \<open>a\<close>.\<close>

definition syscall_of :: "usize \<Rightarrow> usize \<Rightarrow> usize \<Rightarrow> usize \<Rightarrow> syscall" where
  "syscall_of a b c d = (if a = 0xff then CallExit a
     else if a = 0x00 then CallRead (sint b) c d
     else if a = 0x01 then CallWrite (sint b) c d
     else if a = 0x02 then CallOpen b c
     else if a = 0x03 then CallClose (sint b)
     else if a = 0x04 then CallLseek (sint b) c d
     else if a = 0x05 then CallPipe b
     else if a = 0x06 then CallDup (sint b)
     else if a = 0x07 then CallDup2 (sint b) (sint c)
     else if a = 0x08 then CallFork
     else if a = 0x0a then CallExec b
     else if a = 0x09 then CallPoll b (sint c) (sint d)
     else if a = 0x10 then CallIoctl (sint b) c d
     else if a = 0x1000 then CallBrk b
     else if a = 0x1001 then CallSbrk b
     else if a = 0x1002 then CallSavelist (b \<noteq> 0) c
     else if a = 0x1003 then CallRestorelist (b \<noteq> 0) c
     else CallNone)"

subsection \<open>Process numbers\<close>

definition pid_at :: "procs \<Rightarrow> nat \<Rightarrow> nat" where
  "pid_at s a = (case ps_store s a of None \<Rightarrow> 0 | Some p \<Rightarrow> unat (pc_pid p))"

text \<open>Every address in the chain has its process, and the numbers ascend from 1.\<close>

definition procs_ok :: "procs \<Rightarrow> bool" where
  "procs_ok s \<longleftrightarrow> (\<forall>a \<in> set (ps_chain s). ps_store s a \<noteq> None) \<and> sorted_wrt (<) (map (pid_at s) (ps_chain s))
     \<and> 0 \<notin> set (map (pid_at s) (ps_chain s)) \<and> distinct (ps_chain s) \<and> length (ps_chain s) < 4294967294"

lemma insert_scan_spec:
  assumes "\<forall>a \<in> set as. ps_store s a \<noteq> None" "sorted_wrt (<) (map (pid_at s) as)" "\<forall>a \<in> set as. unat pid \<le> pid_at s a"
    and "unat pid + length as < 4294967296"
  shows "\<exists>n i. insert_scan s pid as = Inr (n, i) \<and> i \<le> length as \<and> unat n = unat pid + i
    \<and> map (pid_at s) (take i as) = [unat pid..<unat pid + i] \<and> (\<forall>a \<in> set (drop i as). unat n < pid_at s a)"
  using assms
proof (induction as arbitrary: pid)
  case (Cons a as)
  then obtain p where p: "ps_store s a = Some p" by auto
  then have pa: "pid_at s a = unat (pc_pid p)" "proc_at s a = Inr p" by (simp_all add: pid_at_def proc_at_def)
  show ?case
  proof (cases "pid = pc_pid p")
    case True
    have n: "unat (pid + 1) = Suc (unat pid)" using Cons.prems(4) unat_inc32 [of pid] by simp
    have "\<forall>b \<in> set as. unat (pid + 1) \<le> pid_at s b" using Cons.prems(2) True pa n by auto
    from Cons.IH [OF _ _ this] Cons.prems n obtain k i where
      i: "insert_scan s (pid + 1) as = Inr (k, i)" "i \<le> length as" "unat k = unat (pid + 1) + i"
        "map (pid_at s) (take i as) = [unat (pid + 1)..<unat (pid + 1) + i]" "\<forall>a \<in> set (drop i as). unat k < pid_at s a"
      by auto
    then have "insert_scan s pid (a # as) = Inr (k, Suc i)" using True pa by simp
    moreover have "map (pid_at s) (take (Suc i) (a # as)) = [unat pid..<unat pid + Suc i]"
      using i(4) n True pa by (simp add: upt_conv_Cons)
    ultimately show ?thesis using i n by (intro exI [of _ k] exI [of _ "Suc i"]) simp
  next
    case False
    then have lt: "unat pid < pid_at s a" using Cons.prems(3) pa by (auto simp: word_unat_eq_iff order_le_less)
    then have "\<forall>b \<in> set (a # as). unat pid < pid_at s b" using Cons.prems(2) by auto
    then show ?thesis using False pa by (intro exI [of _ pid] exI [of _ 0]) simp
  qed
qed auto

lemma pid_at_upd: "a \<notin> set as \<Longrightarrow> map (pid_at \<lparr>ps_chain = c, ps_store = (ps_store s)(a \<mapsto> p)\<rparr>) as = map (pid_at s) as"
  by (auto simp: pid_at_def)



definition demo_procs :: procs where
  "demo_procs = \<lparr>ps_chain = [7, 5], ps_store = [7 \<mapsto> (process_new 0 0)\<lparr>pc_pid := 1\<rparr>, 5 \<mapsto> (process_new 0 0)\<lparr>pc_pid := 3\<rparr>]\<rparr>"

lemma demo_procs_ok: "procs_ok demo_procs"
  by (simp add: demo_procs_def procs_ok_def pid_at_def)


subsection \<open>Exit\<close>

lemma find_pid_hits_freed:
  "\<lbrakk>a \<in> set as; ps_store s a = None; \<forall>b \<in> set (takeWhile (\<lambda>b. b \<noteq> a) as). ps_store s b \<noteq> None \<and> pid_at s b \<noteq> unat pid\<rbrakk>
    \<Longrightarrow> find_pid s pid as = Inl Fault"
proof (induction as)
  case (Cons c as)
  show ?case
  proof (cases "c = a")
    case True
    then show ?thesis using Cons.prems(2) by (simp add: proc_at_def)
  next
    case False
    then obtain p where "ps_store s c = Some p" "unat (pc_pid p) \<noteq> unat pid" using Cons.prems(3) by (auto simp: pid_at_def)
    then have "find_pid s pid (c # as) = find_pid s pid as" by (auto simp: proc_at_def)
    then show ?thesis using Cons False by simp
  qed
qed simp

lemma pid_at_freed: "b \<noteq> a \<Longrightarrow> pid_at (s\<lparr>ps_store := (ps_store s)(a := None)\<rparr>) b = pid_at s b"
  by (simp add: pid_at_def)

text \<open>Exit frees the process but leaves it in the chain: a lookup of a number that no process before it has
  reads freed memory, and when the first process exits no process can be added afterwards.\<close>

theorem exit_leaves_freed_process:
  assumes "procs_ok s" "a \<in> set (ps_chain s)" "pm_exit a status s m = Inr (s', m', ts, e)"
  shows "ps_chain s' = ps_chain s \<and> proc_at s' a = Inl Fault
    \<and> (\<forall>pid. unat pid \<notin> pid_at s ` set (takeWhile (\<lambda>b. b \<noteq> a) (ps_chain s)) \<longrightarrow> get_process pid s' = Inl Fault)
    \<and> (hd (ps_chain s) = a \<longrightarrow> pm_insert b q s' = Inl Fault)"
proof -
  have s': "s' = s\<lparr>ps_store := (ps_store s)(a := None)\<rparr>"
    using assms(3) by (auto simp: pm_exit_def process_close_def bindr_Inr_iff proc_at_def split: option.splits prod.splits)
  have "get_process pid s' = Inl Fault" if "unat pid \<notin> pid_at s ` set (takeWhile (\<lambda>b. b \<noteq> a) (ps_chain s))" for pid
  proof -
    have "\<forall>b \<in> set (takeWhile (\<lambda>b. b \<noteq> a) (ps_chain s)). ps_store s' b \<noteq> None \<and> pid_at s' b \<noteq> unat pid"
    proof
      fix b
      assume b: "b \<in> set (takeWhile (\<lambda>b. b \<noteq> a) (ps_chain s))"
      then have "b \<noteq> a" "b \<in> set (ps_chain s)" by (auto dest: set_takeWhileD)
      moreover have "pid_at s b \<noteq> unat pid" using that b by (metis imageI)
      ultimately show "ps_store s' b \<noteq> None \<and> pid_at s' b \<noteq> unat pid"
        using assms(1) by (auto simp: s' procs_ok_def pid_at_freed)
    qed
    then show ?thesis using find_pid_hits_freed [of a "ps_chain s" s' pid] assms(2) by (simp add: get_process_def s')
  qed
  moreover have "pm_insert b q s' = Inl Fault" if "hd (ps_chain s) = a"
    using that assms(2) by (cases "ps_chain s") (auto simp: pm_insert_def s' proc_at_def)
  ultimately show ?thesis by (simp add: s' proc_at_def)
qed

theorem exit_leaves_freed_process_witness:
  "case pm_exit 7 0 demo_procs fdm_empty of Inl _ \<Rightarrow> False | Inr (s', _, _, _) \<Rightarrow>
     get_process 3 s' = Inl Fault \<and> pm_insert 9 (process_new 0 0) s' = Inl Fault"
proof -
  have ok: "pm_exit 7 0 demo_procs fdm_empty = Inr (demo_procs\<lparr>ps_store := (ps_store demo_procs)(7 := None)\<rparr>, fdm_empty, [], (1, 0))"
    by (simp add: pm_exit_def process_close_def proc_at_def demo_procs_def process_new_def close_all_handles_def)
  have "7 \<in> set (ps_chain demo_procs)" by (simp add: demo_procs_def)
  from exit_leaves_freed_process [OF demo_procs_ok this ok, of 9 "process_new 0 0"]
  have "get_process 3 (demo_procs\<lparr>ps_store := (ps_store demo_procs)(7 := None)\<rparr>) = Inl Fault
    \<and> pm_insert 9 (process_new 0 0) (demo_procs\<lparr>ps_store := (ps_store demo_procs)(7 := None)\<rparr>) = Inl Fault"
    by (simp add: demo_procs_def)
  then show ?thesis unfolding ok by simp
qed

subsection \<open>Argument lists and the heap limit\<close>

text \<open>A reader of the buffer: the strings up to each terminator.\<close>

fun split_strings :: "string \<Rightarrow> string \<Rightarrow> string list" where
  "split_strings cur [] = []"
| "split_strings cur (c # cs) = (if c = CHR 0x00 then rev cur # split_strings [] cs else split_strings (c # cur) cs)"

lemma split_strings_one: "CHR 0x00 \<notin> set s \<Longrightarrow> split_strings cur (s @ CHR 0x00 # r) = (rev cur @ s) # split_strings [] r"
  by (induction s arbitrary: cur) auto

lemma split_list_bytes: "\<forall>s \<in> set xs. CHR 0x00 \<notin> set s \<Longrightarrow> split_strings [] (list_bytes xs) = xs"
  by (induction xs) (simp_all add: list_bytes_def split_strings_one)

lemma list_size_length: "list_size xs = of_nat (length (list_bytes xs))"
  by (induction xs) (simp_all add: list_bytes_def)

text \<open>The argument list saved before an exec comes back from the restore as the same strings, a query before
  it gives the buffer size it needs, and afterwards the list is empty and the other list unchanged.\<close>

theorem saved_list_is_restored:
  assumes "\<forall>s \<in> set xs. CHR 0x00 \<notin> set s" "length (list_bytes xs) < 2147483648"
    and "sys_savelist env xs p = (r, p1)" "sys_restorelist env False p1 = (r', bs, p2)"
  shows "r = 0 \<and> r' = 0 \<and> split_strings [] bs = xs \<and> sys_restorelist env True p1 = (int (length bs), [], p1)
    \<and> get_list env p2 = [] \<and> get_list (\<not> env) p2 = get_list (\<not> env) p"
proof -
  have p1: "p1 = put_list env xs p" "get_list env p1 = xs" "r = 0"
    using assms(3) by (auto simp: sys_savelist_def get_list_def put_list_def)
  have bs: "bs = list_bytes xs" "p2 = put_list env [] p1" "r' = 0" using assms(4) p1 by (auto simp: sys_restorelist_def)
  have "sint (list_size xs) = int (length (list_bytes xs))"
    using assms(2) by (simp add: list_size_length sint_small unat_of_nat32)
  then show ?thesis using split_list_bytes [OF assms(1)] p1 bs
    by (auto simp: sys_restorelist_def get_list_def put_list_def)
qed

theorem saved_list_is_restored_witness:
  "split_strings [] (fst (snd (sys_restorelist True False (snd (sys_savelist True [''A=1'', [], ''B''] (process_new 0 0)))))) = [''A=1'', [], ''B'']"
  using saved_list_is_restored [of "[''A=1'', [], ''B'']" True "process_new 0 0" 0 "snd (sys_savelist True [''A=1'', [], ''B''] (process_new 0 0))"]
  by (simp add: sys_savelist_def sys_restorelist_def get_list_def put_list_def list_bytes_def)

text \<open>The heap segment reaches at least the requested limit, with no page more than needed.\<close>

theorem heap_reaches_limit:
  assumes "hs_base h < 2 ^ 20" "h' = set_brk nbrk h"
  shows "unat nbrk \<le> (unat (hs_base h) + unat (hs_count h')) * 4096
    \<and> (hs_count h' \<noteq> 0 \<longrightarrow> (unat (hs_base h) + unat (hs_count h') - 1) * 4096 < unat nbrk)"
proof -
  let ?b = "unat (hs_base h)" and ?n = "unat nbrk"
  define k where "k = (if ?n mod 4096 \<noteq> 0 then Suc (?n div 4096) else ?n div 4096)"
  define pg where "pg = (if nbrk mod 4096 \<noteq> 0 then nbrk div 4096 + 1 else nbrk div 4096)"
  have n: "?n < 4294967296" using unat32 [of nbrk] by simp
  have b: "?b < 1048576" using assms(1) by (simp add: word_less_unat)
  have m: "unat (nbrk mod 4096) = ?n mod 4096" "unat (nbrk div 4096) = ?n div 4096"
    by (simp_all add: unat_mod unat_div)
  then have "(nbrk mod 4096 = 0) = (?n mod 4096 = 0)" by (metis unat_0 unat_eq_zero)
  moreover have "unat (nbrk div 4096 + 1) = Suc (?n div 4096)" using n m unat_inc32 [of "nbrk div 4096"] by simp
  ultimately have pg: "unat pg = k" by (simp add: pg_def k_def m)
  have k: "k \<le> 1048576" using n by (auto simp: k_def)
  have "unat (max (ucast pg :: u64) (hs_base h)) = max k ?b"
    by (simp add: max_def word_le_unat unat_ucast_up pg)
  then have "unat (ucast (max (ucast pg :: u64) (hs_base h)) :: usize) = max k ?b"
    using k b by (simp add: unat_ucast_down)
  then have "unat (ucast (ucast (max (ucast pg :: u64) (hs_base h)) :: usize) - hs_base h :: u64) = max k ?b - ?b"
    by (subst unat_sub) (simp_all add: word_le_unat unat_ucast_up)
  then have c: "unat (set_brk_count nbrk (hs_base h)) = max k ?b - ?b"
    using k b by (simp add: set_brk_count_def Let_def pg_def [symmetric] unat_ucast_down)
  have "hs_count h' = set_brk_count nbrk (hs_base h)" by (simp add: assms(2) set_brk_def)
  moreover have "?n = ?n div 4096 * 4096 + ?n mod 4096" "?n mod 4096 < 4096" by simp_all
  then have "?n \<le> k * 4096" "k \<noteq> 0 \<longrightarrow> (k - 1) * 4096 < ?n"
    unfolding k_def by (cases "?n mod 4096 = 0"; simp; linarith)+
  ultimately show ?thesis using c by (auto simp: max_def word_unat_eq_iff split: if_splits)
qed

theorem heap_reaches_limit_witness:
  "hs_count (set_brk 0x401001 \<lparr>hs_base = 0x400, hs_count = 1\<rparr>) = 2"
  using heap_reaches_limit [where h = "\<lparr>hs_base = 0x400, hs_count = 1\<rparr>" and nbrk = "0x401001"]
  by (simp add: set_brk_def set_brk_count_def)

end
