(* ===== verification/Paging.thy ===== *)
theory Paging
  imports PageAlloc
begin

text \<open>
  Address spaces (\<open>kernel/src/mem/paging.cpp\<close>, \<open>kernel/arch/i386/src/paging.cpp\<close>) and the part of the memory
  manager that works through them (\<open>resize_heap\<close> of \<open>mem/manager.cpp\<close>). The state holds the page frames that
  serve as directories and tables, by physical page number, as lists of 1024 entries, the virtual memories
  (number 0 is the kernel's), and the allocator's sections. A frame outside the kernel is reached through a
  window of the kernel's last page table; a null pointer from there faults when it is used. The processor's
  translation cache is not modelled.
\<close>

record vmem =
  vm_counts :: "u16 list"
  vm_top :: u32
  vm_kernel :: bool
  vm_dir :: u64

record paging =
  pg_frames :: "u64 \<Rightarrow> u32 list"
  pg_vms :: "vmem list"
  pg_chain :: "nat list"
  pg_secs :: "section_mgr list"
  pg_temp :: "bool list"
  pg_init :: bool
  pg_counter :: u16
  pg_cur :: "nat option"

text \<open>What the linker fixes: the kernel's physical and virtual pages, the physical pages of \<open>kernel_page_dir\<close>
  and \<open>kernel_last_page\<close>, and the virtual page of \<open>arch_temp_paging_tables\<close>.\<close>

record kmap =
  km_phys :: page_range
  km_virt :: page_range
  km_dir :: u64
  km_last :: u64
  km_temp :: u64

abbreviation TEMP_PAGING_TABLE_COUNT :: nat where "TEMP_PAGING_TABLE_COUNT \<equiv> 8"

definition PAGETAB_PRESENT :: u32 where "PAGETAB_PRESENT = 1"
definition PAGETAB_WRITE :: u32 where "PAGETAB_WRITE = 2"
definition PAGEDIR_USER :: u32 where "PAGEDIR_USER = 4"
definition PAGEDIR_PADDR :: u32 where "PAGEDIR_PADDR = 0xfffff000"
definition PERM_READ :: u32 where "PERM_READ = 1"
definition PERM_WRITE :: u32 where "PERM_WRITE = 2"
definition PERM_EXEC :: u32 where "PERM_EXEC = 4"

lemmas page_bits = PAGETAB_PRESENT_def PAGETAB_WRITE_def PAGEDIR_USER_def PAGEDIR_PADDR_def
  PERM_READ_def PERM_WRITE_def PERM_EXEC_def

subsection \<open>Frames\<close>

definition put_frame :: "u64 \<Rightarrow> u32 list \<Rightarrow> paging \<Rightarrow> paging" where
  "put_frame p t s = s\<lparr>pg_frames := (pg_frames s)(p := t)\<rparr>"

definition page_entry :: "u64 \<Rightarrow> u32 \<Rightarrow> u32" where
  "page_entry pa perms = (let e = ucast (push_bit 12 pa) OR PAGETAB_PRESENT in
     if perms AND PERM_WRITE \<noteq> 0 then e OR PAGETAB_WRITE else e)"

text \<open>\<open>map_phy_paddr\<close> of the kernel's memory: the next slot of the last page table, whose count never changes.\<close>

definition window_map :: "kmap \<Rightarrow> u64 \<Rightarrow> paging \<Rightarrow> u64 \<times> paging" where
  "window_map k p s = (0xffc00 + ucast (pg_counter s),
     put_frame (km_last k) ((pg_frames s (km_last k))[unat (pg_counter s) := page_entry p (PERM_READ OR PERM_WRITE)])
       (s\<lparr>pg_counter := (pg_counter s + 1) AND 0x3ff\<rparr>))"

text \<open>The virtual page of the pointer, none for a null pointer.\<close>

definition arch_map_phy_paddr :: "kmap \<Rightarrow> u64 \<Rightarrow> paging \<Rightarrow> u64 option \<times> paging" where
  "arch_map_phy_paddr k p s = (if pr_page_in_range (km_phys k) p then (Some (p - pr_base (km_phys k) + pr_base (km_virt k)), s)
     else if \<not> pg_init s then (None, s)
     else let (v, s') = window_map k p s in (Some v, s'))"

definition use_frame :: "kmap \<Rightarrow> u64 \<Rightarrow> paging \<Rightarrow> paging result" where
  "use_frame k p s = (let (v, s') = arch_map_phy_paddr k p s in if v = None then Inl Fault else Inr s')"

definition kernel_vir_to_phy :: "kmap \<Rightarrow> u64 \<Rightarrow> u64" where
  "kernel_vir_to_phy k v = v - pr_base (km_virt k) + pr_base (km_phys k)"

fun first_unused :: "bool list \<Rightarrow> nat option" where
  "first_unused [] = None"
| "first_unused (b # bs) = (if b then map_option Suc (first_unused bs) else Some 0)"

definition arch_alloc_table :: "kmap \<Rightarrow> paging \<Rightarrow> (u64 \<times> paging) result" where
  "arch_alloc_table k s = (case if pg_init s then None else first_unused (pg_temp s) of
     Some i \<Rightarrow> (let p = kernel_vir_to_phy k (km_temp k + of_nat i) in
       Inr (p, put_frame p (replicate 1024 0) (s\<lparr>pg_temp := (pg_temp s)[i := True]\<rparr>)))
   | None \<Rightarrow> bindr (mm_alloc_page (pg_secs s)) (\<lambda>(p, secs).
       if p \<noteq> 0 then bindr (use_frame k p (s\<lparr>pg_secs := secs\<rparr>)) (\<lambda>s. Inr (p, put_frame p (replicate 1024 0) s))
       else Inl Panic))"

text \<open>The difference of two table pointers already counts tables; the code shifts it by two more.\<close>

definition arch_free_table :: "kmap \<Rightarrow> u64 \<Rightarrow> paging \<Rightarrow> paging result" where
  "arch_free_table k p s = (let (v, s) = arch_map_phy_paddr k p s in
     case v of Some v \<Rightarrow> (if km_temp k \<le> v \<and> v < km_temp k + of_nat TEMP_PAGING_TABLE_COUNT
         then Inr (s\<lparr>pg_temp := (pg_temp s)[unat (drop_bit 2 (v - km_temp k)) := False]\<rparr>)
         else bindr (mm_dealloc_page (pg_secs s) p) (\<lambda>secs. Inr (s\<lparr>pg_secs := secs\<rparr>)))
     | None \<Rightarrow> bindr (mm_dealloc_page (pg_secs s) p) (\<lambda>secs. Inr (s\<lparr>pg_secs := secs\<rparr>)))"

subsection \<open>The page directory\<close>

definition vm_of :: "paging \<Rightarrow> nat \<Rightarrow> vmem" where
  "vm_of s x = pg_vms s ! x"

definition put_count :: "nat \<Rightarrow> nat \<Rightarrow> u16 \<Rightarrow> paging \<Rightarrow> paging" where
  "put_count x i c s = s\<lparr>pg_vms := (pg_vms s)[x := (vm_of s x)\<lparr>vm_counts := (vm_counts (vm_of s x))[i := c]\<rparr>]\<rparr>"

definition dir_entry :: "u64 \<Rightarrow> bool \<Rightarrow> u32" where
  "dir_entry tab kernel_page = (let e = push_bit 12 (ucast tab) OR PAGETAB_PRESENT OR PAGETAB_WRITE in
     if kernel_page then e else e OR PAGEDIR_USER)"

definition put_dir :: "kmap \<Rightarrow> nat \<Rightarrow> nat \<Rightarrow> u32 \<Rightarrow> paging \<Rightarrow> paging result" where
  "put_dir k x i e s = (let d = vm_dir (vm_of s x) in bindr (use_frame k d s) (\<lambda>s.
     bindr (upd_r (pg_frames s d) i e) (\<lambda>t. Inr (put_frame d t s))))"

text \<open>The kernel's memory writes the entry to every memory of the chain too; these are never the kernel's.\<close>

definition set_page_tab :: "kmap \<Rightarrow> nat \<Rightarrow> nat \<Rightarrow> u64 \<Rightarrow> bool \<Rightarrow> paging \<Rightarrow> paging result" where
  "set_page_tab k x i tab kernel_page s = bindr
     (if vm_kernel (vm_of s x) then run_all (\<lambda>s y. put_dir k y i (dir_entry tab True) s) s (pg_chain s) else Inr s)
     (\<lambda>s. put_dir k x i (dir_entry tab kernel_page) s)"

definition clear_page_tab :: "kmap \<Rightarrow> nat \<Rightarrow> nat \<Rightarrow> paging \<Rightarrow> paging result" where
  "clear_page_tab k x i s = bindr (put_dir k x i 0 s) (\<lambda>s.
     if vm_kernel (vm_of s x) then run_all (\<lambda>s y. put_dir k y i 0 s) s (pg_chain s) else Inr s)"

definition get_page_table :: "kmap \<Rightarrow> nat \<Rightarrow> nat \<Rightarrow> paging \<Rightarrow> (u64 \<times> paging) result" where
  "get_page_table k x i s = (let d = vm_dir (vm_of s x) in bindr (use_frame k d s) (\<lambda>s.
     bindr (nth_r (pg_frames s d) i) (\<lambda>e. Inr (ucast (drop_bit 12 (e AND PAGEDIR_PADDR)), s))))"

definition retain_page_tab :: "kmap \<Rightarrow> nat \<Rightarrow> nat \<Rightarrow> paging \<Rightarrow> (bool \<times> paging) result" where
  "retain_page_tab k x i s = bindr (nth_r (vm_counts (vm_of s x)) i) (\<lambda>c.
     if c = 0xffff then Inr (True, s) else
     let d = vm_dir (vm_of s x) in bindr (use_frame k d s) (\<lambda>s. bindr (nth_r (pg_frames s d) i) (\<lambda>e.
       if e AND PAGETAB_PRESENT \<noteq> 0 then Inr (True, put_count x i (c + 1) s) else
       bindr (arch_alloc_table k (put_count x i 1 s)) (\<lambda>(tab, s).
         if tab = 0 then Inr (False, s)
         else bindr (set_page_tab k x i tab (vm_kernel (vm_of s x)) s) (\<lambda>s. Inr (True, s))))))"

definition release_page_tab :: "kmap \<Rightarrow> nat \<Rightarrow> nat \<Rightarrow> paging \<Rightarrow> paging result" where
  "release_page_tab k x i s = bindr (nth_r (vm_counts (vm_of s x)) i) (\<lambda>c.
     if c = 0xffff then Inr s else
     let s = put_count x i (c - 1) s in
     if c - 1 > 0 then Inr s
     else bindr (get_page_table k x i s) (\<lambda>(tab, s). bindr (arch_free_table k tab s) (clear_page_tab k x i)))"

subsection \<open>Mapping\<close>

definition dir_idx :: "u64 \<Rightarrow> nat" where
  "dir_idx v = unat (ucast (drop_bit 10 v) :: u16)"

definition tab_idx :: "u64 \<Rightarrow> nat" where
  "tab_idx v = unat (v AND 0x3ff)"

definition map_page :: "kmap \<Rightarrow> nat \<Rightarrow> u64 \<Rightarrow> u64 \<Rightarrow> u32 \<Rightarrow> paging \<Rightarrow> (bool \<times> paging) result" where
  "map_page k x v pa perms s = bindr (retain_page_tab k x (dir_idx v) s) (\<lambda>(_, s).
     bindr (get_page_table k x (dir_idx v) s) (\<lambda>(tab, s).
       if tab = 0 then Inr (False, s) else
       bindr (use_frame k tab s) (\<lambda>s. bindr (nth_r (pg_frames s tab) (tab_idx v)) (\<lambda>e.
         bindr (if e AND PAGETAB_PRESENT \<noteq> 0 then release_page_tab k x (dir_idx v) s else Inr s) (\<lambda>s.
           Inr (True, put_frame tab ((pg_frames s tab)[tab_idx v := page_entry pa perms]) s))))))"

definition unmap_page :: "kmap \<Rightarrow> nat \<Rightarrow> u64 \<Rightarrow> paging \<Rightarrow> paging result" where
  "unmap_page k x v s = bindr (get_page_table k x (dir_idx v) s) (\<lambda>(tab, s).
     if tab = 0 then Inr s else
     bindr (use_frame k tab s) (\<lambda>s. bindr (nth_r (pg_frames s tab) (tab_idx v)) (\<lambda>e.
       if e AND PAGETAB_PRESENT = 0 then Inr s
       else release_page_tab k x (dir_idx v) (put_frame tab ((pg_frames s tab)[tab_idx v := 0]) s))))"

definition vir_paddr_to_phy :: "kmap \<Rightarrow> nat \<Rightarrow> u64 \<Rightarrow> paging \<Rightarrow> (u64 \<times> paging) result" where
  "vir_paddr_to_phy k x v s = bindr (get_page_table k x (dir_idx v) s) (\<lambda>(tab, s).
     if tab = 0 then Inr (0, s) else
     bindr (use_frame k tab s) (\<lambda>s. bindr (nth_r (pg_frames s tab) (tab_idx v)) (\<lambda>e.
       if e AND PAGETAB_PRESENT = 0 then Inr (0, s) else Inr (ucast (drop_bit 12 e), s))))"

definition vir_addr_to_phy :: "kmap \<Rightarrow> nat \<Rightarrow> u64 \<Rightarrow> paging \<Rightarrow> (u64 \<times> paging) result" where
  "vir_addr_to_phy k x addr s = bindr (vir_paddr_to_phy k x (addr div PAGE_SIZE) s) (\<lambda>(p, s).
     Inr (p * PAGE_SIZE + addr mod PAGE_SIZE, s))"

definition vm_alloc_page :: "kmap \<Rightarrow> nat \<Rightarrow> u64 \<Rightarrow> u32 \<Rightarrow> paging \<Rightarrow> (bool \<times> paging) result" where
  "vm_alloc_page k x v perms s = bindr (mm_alloc_page (pg_secs s)) (\<lambda>(p, secs).
     bindr (map_page k x v p perms (s\<lparr>pg_secs := secs\<rparr>)) (\<lambda>(ok, s).
       if ok then Inr (True, s)
       else bindr (mm_dealloc_page (pg_secs s) p) (\<lambda>secs. Inr (False, s\<lparr>pg_secs := secs\<rparr>))))"

definition vm_dealloc_page :: "kmap \<Rightarrow> nat \<Rightarrow> u64 \<Rightarrow> paging \<Rightarrow> paging result" where
  "vm_dealloc_page k x v s = bindr (vir_paddr_to_phy k x v s) (\<lambda>(p, s).
     if p = 0 then Inr s
     else bindr (mm_dealloc_page (pg_secs s) p) (\<lambda>secs. unmap_page k x v (s\<lparr>pg_secs := secs\<rparr>)))"

text \<open>The pages of a device, below the ones mapped before; the result is the first page.\<close>

definition vm_driver_map :: "kmap \<Rightarrow> nat \<Rightarrow> u64 \<Rightarrow> u64 \<Rightarrow> paging \<Rightarrow> (u64 \<times> paging) result" where
  "vm_driver_map k x pa n s = (let top = vm_top (vm_of s x) - ucast n;
       s = s\<lparr>pg_vms := (pg_vms s)[x := (vm_of s x)\<lparr>vm_top := top\<rparr>]\<rparr> in
     bindr (run_all (\<lambda>s i. bindr (map_page k x (ucast (top + of_nat i)) (pa + of_nat i) (PERM_READ OR PERM_WRITE) s)
         (\<lambda>(_, s). Inr s)) s [0..<unat n])
       (\<lambda>s. Inr (ucast top, s)))"

subsection \<open>Virtual memories\<close>

definition vm_new_user :: "kmap \<Rightarrow> paging \<Rightarrow> (nat \<times> paging) result" where
  "vm_new_user k s = bindr (arch_alloc_table k s) (\<lambda>(d, s). bindr (use_frame k d s) (\<lambda>s.
     Inr (length (pg_vms s), put_frame d (pg_frames s (km_dir k))
       (s\<lparr>pg_vms := pg_vms s @ [\<lparr>vm_counts = replicate 1024 0, vm_top = 0xffc00, vm_kernel = False, vm_dir = d\<rparr>]\<rparr>))))"

definition vm_create :: "kmap \<Rightarrow> paging \<Rightarrow> (nat \<times> paging) result" where
  "vm_create k s = bindr (vm_new_user k s) (\<lambda>(x, s). Inr (x, s\<lparr>pg_chain := pg_chain s @ [x]\<rparr>))"

text \<open>The destructor of a user's memory frees its directory only.\<close>

definition vm_destroy :: "kmap \<Rightarrow> nat \<Rightarrow> paging \<Rightarrow> paging result" where
  "vm_destroy k x s = (let s = s\<lparr>pg_chain := remove1 x (pg_chain s)\<rparr> in
     if vm_kernel (vm_of s x) then Inr s else arch_free_table k (vm_dir (vm_of s x)) s)"

definition vm_use :: "nat \<Rightarrow> paging \<Rightarrow> paging" where
  "vm_use x s = s\<lparr>pg_cur := Some x, pg_init := True\<rparr>"

text \<open>The static objects: the kernel's directory with the last page table in place, then the chain empty.\<close>

definition paging_static :: "kmap \<Rightarrow> section_mgr list \<Rightarrow> paging result" where
  "paging_static k secs = bindr (set_page_tab k 0 1023 (km_last k) True
       \<lparr>pg_frames = \<lambda>_. replicate 1024 0, pg_vms = [\<lparr>vm_counts = replicate 1024 0, vm_top = 0xffc00, vm_kernel = True, vm_dir = km_dir k\<rparr>],
        pg_chain = [], pg_secs = secs, pg_temp = replicate TEMP_PAGING_TABLE_COUNT False, pg_init = False, pg_counter = 0, pg_cur = None\<rparr>)
     (\<lambda>s. Inr (put_count 0 1023 0xffff s))"

definition vmm_init :: "kmap \<Rightarrow> paging \<Rightarrow> paging result" where
  "vmm_init k s = (let n = min (unat (pr_limit (km_phys k)) - unat (pr_base (km_phys k))) (unat (pr_limit (km_virt k)) - unat (pr_base (km_virt k))) in
     bindr (run_all (\<lambda>s i. bindr (map_page k 0 (pr_base (km_virt k) + of_nat i) (pr_base (km_phys k) + of_nat i)
           (PERM_READ OR PERM_WRITE OR PERM_EXEC) s) (\<lambda>(_, s).
         bindr (mm_reserve_page (pg_secs s) (pr_base (km_phys k) + of_nat i)) (\<lambda>secs. Inr (s\<lparr>pg_secs := secs\<rparr>)))) s [0..<n])
       (\<lambda>s. Inr (vm_use 0 s)))"

definition vmm_driver_map :: "kmap \<Rightarrow> u64 \<Rightarrow> u64 \<Rightarrow> paging \<Rightarrow> (usize \<times> paging) result" where
  "vmm_driver_map k pa n s = (let r = mr_to_pagerange (mr_addr_size pa n) in
     bindr (vm_driver_map k 0 (pr_base r) (pr_page_count r) s) (\<lambda>(v, s).
       Inr (ucast v * 4096 + ucast (pa mod PAGE_SIZE), s)))"

subsection \<open>The kernel heap's pages\<close>

definition page_up :: "usize \<Rightarrow> nat" where
  "page_up a = (if a mod 4096 \<noteq> 0 then unat (a div 4096) + 1 else unat (a div 4096))"

fun alloc_pages_from :: "kmap \<Rightarrow> nat list \<Rightarrow> paging \<Rightarrow> (bool \<times> paging) result" where
  "alloc_pages_from k [] s = Inr (True, s)"
| "alloc_pages_from k (i # is) s = bindr (vm_alloc_page k 0 (of_nat i) (PERM_READ OR PERM_WRITE) s) (\<lambda>(ok, s).
     if ok then alloc_pages_from k is s else Inr (False, s))"

text \<open>\<open>resize_heap\<close>: the limit of the heap, which the function sets first, is part of the result.\<close>

definition resize_heap :: "kmap \<Rightarrow> usize \<Rightarrow> usize \<Rightarrow> paging \<Rightarrow> (bool \<times> usize \<times> paging) result" where
  "resize_heap k old limit s = (let o_idx = page_up old; n_idx = page_up limit in
     if n_idx = o_idx then Inr (True, limit, s)
     else if n_idx < o_idx then bindr (run_all (\<lambda>s i. vm_dealloc_page k 0 (of_nat i) s) s [n_idx..<o_idx]) (\<lambda>s. Inr (True, limit, s))
     else bindr (alloc_pages_from k [o_idx..<n_idx] s) (\<lambda>(ok, s). Inr (ok, limit, s)))"

subsection \<open>Entries and indices\<close>

lemma bit_pow: "bit (push_bit m 1 :: u32) n \<longleftrightarrow> m = n \<and> n < 32"
  by (auto simp: bit_simps)

lemma bits_of_flags [simp]:
  "bit PAGETAB_PRESENT n \<longleftrightarrow> n = 0" "bit PAGETAB_WRITE n \<longleftrightarrow> n = 1" "bit PAGEDIR_USER n \<longleftrightarrow> n = 2"
  "bit PAGEDIR_PADDR n \<longleftrightarrow> 12 \<le> n \<and> n < 32"
proof -
  have p: "PAGETAB_PRESENT = push_bit 0 1" and w: "PAGETAB_WRITE = push_bit 1 1" and u: "PAGEDIR_USER = push_bit 2 1"
    and a: "PAGEDIR_PADDR = push_bit 12 (mask 20)" by (simp_all add: page_bits mask_eq_exp_minus_1)
  show "bit PAGETAB_PRESENT n \<longleftrightarrow> n = 0" "bit PAGETAB_WRITE n \<longleftrightarrow> n = 1" "bit PAGEDIR_USER n \<longleftrightarrow> n = 2"
    unfolding p w u bit_pow by auto
  show "bit PAGEDIR_PADDR n \<longleftrightarrow> 12 \<le> n \<and> n < 32" unfolding a by (auto simp: bit_simps)
qed

lemma small_page_bit: "unat (p :: u64) < 2 ^ 20 \<Longrightarrow> bit p n \<Longrightarrow> n < 20 \<and> n < 32 \<and> n < 52"
proof -
  assume a: "unat p < 2 ^ 20" "bit p n"
  then have "p = take_bit 20 p" by (metis take_bit_nat_eq_self unsigned_take_bit_eq word_unat_eq_iff)
  then have "n < 20" using a(2) by (metis bit_take_bit_iff)
  then show ?thesis by simp
qed

lemma drop_dir_entry: "unat p < 2 ^ 20 \<Longrightarrow> ucast (drop_bit 12 (dir_entry p b AND PAGEDIR_PADDR)) = (p :: u64)"
  using small_page_bit [of p]
  by (intro bit_eqI) (auto simp: dir_entry_def Let_def bit_simps)

lemma drop_page_entry: "unat p < 2 ^ 20 \<Longrightarrow> ucast (drop_bit 12 (page_entry p perms)) = (p :: u64)"
  using small_page_bit [of p]
  by (intro bit_eqI) (auto simp: page_entry_def Let_def bit_simps)

lemma present_bit: "e AND PAGETAB_PRESENT \<noteq> 0 \<longleftrightarrow> bit e 0"
  by (simp add: page_bits and_one_eq odd_iff_mod_2_eq_one [symmetric] bit_0)

lemma present_entries [simp]: "dir_entry p b AND PAGETAB_PRESENT \<noteq> 0" "page_entry p perms AND PAGETAB_PRESENT \<noteq> 0"
  unfolding present_bit by (auto simp: dir_entry_def page_entry_def Let_def bit_simps)

lemma dir_idx_div: "unat v < 2 ^ 20 \<Longrightarrow> dir_idx v = unat v div 1024"
  by (simp add: dir_idx_def unsigned_ucast_eq drop_bit_eq_div unat_div take_bit_nat_eq_self)

lemma tab_idx_mod: "tab_idx v = unat v mod 1024"
proof -
  have "(0x3ff :: u64) = mask 10" by (simp add: mask_eq_exp_minus_1)
  then show ?thesis by (simp only: tab_idx_def take_bit_eq_mask [symmetric] unsigned_take_bit_eq) (simp add: take_bit_eq_mod)
qed

lemma page_idx_inj:
  "\<lbrakk>unat v < 2 ^ 20; unat w < 2 ^ 20; dir_idx v = dir_idx w; tab_idx v = tab_idx w\<rbrakk> \<Longrightarrow> v = w"
  by (metis dir_idx_div div_mult_mod_eq tab_idx_mod word_unat_eq_iff)

subsection \<open>Seeing past the window\<close>

definition hide :: "kmap \<Rightarrow> paging \<Rightarrow> paging" where
  "hide k s = s\<lparr>pg_frames := (pg_frames s)(km_last k := []), pg_counter := 0\<rparr>"

lemma hide_eqD:
  assumes "hide k s' = hide k s"
  shows "pg_vms s' = pg_vms s" "pg_chain s' = pg_chain s" "pg_secs s' = pg_secs s" "pg_temp s' = pg_temp s"
    "pg_init s' = pg_init s" "pg_cur s' = pg_cur s" "p \<noteq> km_last k \<Longrightarrow> pg_frames s' p = pg_frames s p"
proof -
  show "pg_vms s' = pg_vms s" "pg_chain s' = pg_chain s" "pg_secs s' = pg_secs s" "pg_temp s' = pg_temp s"
    "pg_init s' = pg_init s" "pg_cur s' = pg_cur s"
    using arg_cong [OF assms, of pg_vms] arg_cong [OF assms, of pg_chain] arg_cong [OF assms, of pg_secs]
      arg_cong [OF assms, of pg_temp] arg_cong [OF assms, of pg_init] arg_cong [OF assms, of pg_cur]
    by (simp_all add: hide_def)
  show "p \<noteq> km_last k \<Longrightarrow> pg_frames s' p = pg_frames s p"
    using arg_cong [OF assms, where f = "\<lambda>s. pg_frames s p"] by (simp add: hide_def)
qed

lemma use_frame_hide: "pg_init s \<Longrightarrow> \<exists>s'. use_frame k p s = Inr s' \<and> hide k s' = hide k s"
  by (auto simp: use_frame_def arch_map_phy_paddr_def window_map_def hide_def put_frame_def Let_def)

subsection \<open>Translation\<close>

definition slot_dir :: "paging \<Rightarrow> nat \<Rightarrow> nat \<Rightarrow> u32" where
  "slot_dir s x i = pg_frames s (vm_dir (vm_of s x)) ! i"

definition slot_tab :: "paging \<Rightarrow> nat \<Rightarrow> nat \<Rightarrow> u64" where
  "slot_tab s x i = ucast (drop_bit 12 (slot_dir s x i AND PAGEDIR_PADDR))"

definition slot_count :: "paging \<Rightarrow> nat \<Rightarrow> nat \<Rightarrow> nat" where
  "slot_count s x i = unat (vm_counts (vm_of s x) ! i)"

definition present_in :: "u32 list \<Rightarrow> nat" where
  "present_in t = card {j. j < 1024 \<and> t ! j AND PAGETAB_PRESENT \<noteq> 0}"

definition entry_page :: "u32 \<Rightarrow> u64" where
  "entry_page e = (if e AND PAGETAB_PRESENT = 0 then 0 else ucast (drop_bit 12 e))"

definition trans :: "paging \<Rightarrow> nat \<Rightarrow> u64 \<Rightarrow> u64" where
  "trans s x v = (if slot_tab s x (dir_idx v) = 0 then 0
     else entry_page (pg_frames s (slot_tab s x (dir_idx v)) ! tab_idx v))"

text \<open>A user's memory whose directory slots outside \<open>K\<close> (the kernel's) own their tables: the count of a
  slot is the number of present entries of its table. The last slot is the kernel's window.\<close>

definition slot_wf :: "kmap \<Rightarrow> nat set \<Rightarrow> nat \<Rightarrow> paging \<Rightarrow> nat \<Rightarrow> bool" where
  "slot_wf k K x s i \<longleftrightarrow> (let t = slot_tab s x i in (slot_dir s x i AND PAGETAB_PRESENT \<noteq> 0 \<longleftrightarrow> t \<noteq> 0)
     \<and> (t = 0 \<longrightarrow> i \<notin> K \<longrightarrow> slot_count s x i \<noteq> 65535)
     \<and> (t \<noteq> 0 \<longrightarrow> t \<noteq> km_last k \<and> t \<noteq> vm_dir (vm_of s x) \<and> length (pg_frames s t) = 1024
       \<and> (i \<notin> K \<longrightarrow> slot_count s x i = present_in (pg_frames s t) \<and> 0 < slot_count s x i)))"

definition vm_wf :: "kmap \<Rightarrow> nat set \<Rightarrow> nat \<Rightarrow> paging \<Rightarrow> bool" where
  "vm_wf k K x s \<longleftrightarrow> pg_init s \<and> x < length (pg_vms s) \<and> \<not> vm_kernel (vm_of s x) \<and> vm_dir (vm_of s x) \<noteq> km_last k
     \<and> length (pg_frames s (vm_dir (vm_of s x))) = 1024 \<and> length (vm_counts (vm_of s x)) = 1024
     \<and> (\<forall>i < 1023. slot_wf k K x s i) \<and> inj_on (slot_tab s x) {i. i < 1023 \<and> slot_tab s x i \<noteq> 0}"

lemma slot_hide:
  assumes "hide k s' = hide k s" "vm_dir (vm_of s x) \<noteq> km_last k"
  shows "vm_of s' x = vm_of s x" "slot_dir s' x i = slot_dir s x i" "slot_tab s' x i = slot_tab s x i"
    "slot_count s' x i = slot_count s x i"
  using hide_eqD [OF assms(1)] assms(2) by (simp_all add: vm_of_def slot_dir_def slot_tab_def slot_count_def)

lemma vm_wf_hide:
  assumes "hide k s' = hide k s" "vm_wf k K x s"
  shows "vm_wf k K x s'"
proof -
  have d: "vm_dir (vm_of s x) \<noteq> km_last k" using assms(2) by (simp add: vm_wf_def)
  have "slot_wf k K x s' i = slot_wf k K x s i" for i
    using hide_eqD(7) [OF assms(1), of "slot_tab s x i"] by (auto simp: slot_wf_def Let_def slot_hide [OF assms(1) d])
  moreover have "pg_frames s' (vm_dir (vm_of s x)) = pg_frames s (vm_dir (vm_of s x))" using d by (rule hide_eqD(7) [OF assms(1)])
  moreover have "slot_tab s' x = slot_tab s x" using slot_hide(3) [OF assms(1) d] by blast
  ultimately show ?thesis using assms(2) hide_eqD(1,5) [OF assms(1)]
    by (simp add: vm_wf_def slot_hide(1) [OF assms(1) d])
qed

lemma dir_idx_low: "unat v < 0xffc00 \<Longrightarrow> dir_idx v < 1023"
  by (simp add: dir_idx_div less_mult_imp_div_less)

lemma slot_wfD:
  assumes "vm_wf k K x s" "i < 1023"
  shows "slot_dir s x i AND PAGETAB_PRESENT \<noteq> 0 \<longleftrightarrow> slot_tab s x i \<noteq> 0"
    "slot_tab s x i \<noteq> 0 \<Longrightarrow> slot_tab s x i \<noteq> km_last k" "slot_tab s x i \<noteq> 0 \<Longrightarrow> slot_tab s x i \<noteq> vm_dir (vm_of s x)"
    "slot_tab s x i \<noteq> 0 \<Longrightarrow> length (pg_frames s (slot_tab s x i)) = 1024"
    "slot_tab s x i \<noteq> 0 \<Longrightarrow> i \<notin> K \<Longrightarrow> slot_count s x i = present_in (pg_frames s (slot_tab s x i))"
    "slot_tab s x i \<noteq> 0 \<Longrightarrow> i \<notin> K \<Longrightarrow> 0 < slot_count s x i"
    "slot_tab s x i = 0 \<Longrightarrow> i \<notin> K \<Longrightarrow> slot_count s x i \<noteq> 65535"
  using assms unfolding vm_wf_def slot_wf_def Let_def by blast+

lemma trans_hide:
  assumes "hide k s' = hide k s" "vm_wf k K x s" "unat v < 0xffc00"
  shows "trans s' x v = trans s x v"
proof -
  have d: "vm_dir (vm_of s x) \<noteq> km_last k" using assms(2) by (simp add: vm_wf_def)
  show ?thesis using slot_wfD(2) [OF assms(2) dir_idx_low [OF assms(3)]] hide_eqD(7) [OF assms(1), of "slot_tab s x (dir_idx v)"]
    by (auto simp: trans_def slot_hide [OF assms(1) d])
qed

lemma tab_idx_low [simp]: "tab_idx v < 1024"
  by (simp add: tab_idx_mod)

definition vm_up :: "kmap \<Rightarrow> nat \<Rightarrow> paging \<Rightarrow> bool" where
  "vm_up k x s \<longleftrightarrow> pg_init s \<and> x < length (pg_vms s) \<and> \<not> vm_kernel (vm_of s x) \<and> vm_dir (vm_of s x) \<noteq> km_last k
     \<and> length (pg_frames s (vm_dir (vm_of s x))) = 1024 \<and> length (vm_counts (vm_of s x)) = 1024"

lemma vm_wf_up: "vm_wf k K x s \<Longrightarrow> vm_up k x s"
  by (simp add: vm_wf_def vm_up_def)

lemma vm_up_hide:
  assumes "hide k s' = hide k s" "vm_up k x s"
  shows "vm_up k x s'"
  using hide_eqD(1,5) [OF assms(1)] hide_eqD(7) [OF assms(1), of "vm_dir (vm_of s x)"] assms(2)
  by (simp add: vm_up_def vm_of_def)

lemma get_page_table_eq:
  assumes "vm_up k x s" "i < 1024"
  shows "\<exists>s'. get_page_table k x i s = Inr (slot_tab s x i, s') \<and> hide k s' = hide k s"
proof -
  obtain s' where s': "use_frame k (vm_dir (vm_of s x)) s = Inr s'" "hide k s' = hide k s"
    using use_frame_hide [of s k "vm_dir (vm_of s x)"] assms(1) unfolding vm_up_def by blast
  then show ?thesis using hide_eqD(7) [OF s'(2), of "vm_dir (vm_of s x)"] assms
    by (simp add: get_page_table_def Let_def slot_tab_def slot_dir_def vm_up_def)
qed

lemma vir_paddr_to_phy_eq:
  assumes wf: "vm_wf k K x s" and v: "unat v < 0xffc00"
  shows "\<exists>s'. vir_paddr_to_phy k x v s = Inr (trans s x v, s') \<and> hide k s' = hide k s"
proof -
  note i = dir_idx_low [OF v]
  obtain s1 where s1: "get_page_table k x (dir_idx v) s = Inr (slot_tab s x (dir_idx v), s1)" "hide k s1 = hide k s"
    using get_page_table_eq [OF vm_wf_up [OF wf], of "dir_idx v"] i by auto
  show ?thesis
  proof (cases "slot_tab s x (dir_idx v) = 0")
    case True
    then show ?thesis using s1 by (simp add: vir_paddr_to_phy_def trans_def)
  next
    case False
    have "pg_init s1" using wf hide_eqD(5) [OF s1(2)] by (simp add: vm_wf_def)
    then obtain s2 where s2: "use_frame k (slot_tab s x (dir_idx v)) s1 = Inr s2" "hide k s2 = hide k s1"
      using use_frame_hide by blast
    have "pg_frames s2 (slot_tab s x (dir_idx v)) = pg_frames s (slot_tab s x (dir_idx v))"
      using slot_wfD(2) [OF wf i False] s1(2) s2(2) by (metis hide_eqD(7))
    then show ?thesis using s1 s2 False slot_wfD(4) [OF wf i False]
      by (simp add: vir_paddr_to_phy_def trans_def entry_page_def)
  qed
qed

subsection \<open>Mapping and unmapping a user's page\<close>

lemma hide_put_frame:
  assumes "hide k s' = hide k s" "p \<noteq> km_last k"
  shows "hide k (put_frame p t s') = hide k (put_frame p t s)"
proof -
  have eq: "hide k (put_frame p t r) = (hide k r)\<lparr>pg_frames := (pg_frames (hide k r))(p := t)\<rparr>" for r
    using assms(2) by (simp add: hide_def put_frame_def fun_upd_twist)
  show ?thesis unfolding eq using assms(1) by simp
qed

lemma hide_put_count:
  assumes "hide k s' = hide k s"
  shows "hide k (put_count x i c s') = hide k (put_count x i c s)"
proof -
  have eq: "hide k (put_count x i c r) = put_count x i c (hide k r)" for r
    by (simp add: hide_def put_count_def vm_of_def)
  show ?thesis unfolding eq using assms(1) by simp
qed

lemma hide_put_secs:
  assumes "hide k s' = hide k s"
  shows "hide k (s'\<lparr>pg_secs := ss\<rparr>) = hide k (s\<lparr>pg_secs := ss\<rparr>)"
proof -
  have eq: "hide k (r\<lparr>pg_secs := ss\<rparr>) = (hide k r)\<lparr>pg_secs := ss\<rparr>" for r by (simp add: hide_def)
  show ?thesis unfolding eq using assms(1) by simp
qed

lemma put_state [simp]:
  "pg_frames (put_count x i c s) = pg_frames s" "pg_init (put_count x i c s) = pg_init s" "pg_secs (put_count x i c s) = pg_secs s"
  "pg_vms (put_frame p t s) = pg_vms s" "pg_init (put_frame p t s) = pg_init s" "pg_secs (put_frame p t s) = pg_secs s"
  "pg_frames (put_frame p t s) = (pg_frames s)(p := t)" "vm_of (put_frame p t s) x = vm_of s x"
  "length (pg_vms (put_count x i c s)) = length (pg_vms s)" "vm_of (s\<lparr>pg_secs := ss\<rparr>) x = vm_of s x"
  by (simp_all add: put_count_def put_frame_def vm_of_def)

lemma vm_of_put_count [simp]:
  "x < length (pg_vms s) \<Longrightarrow> vm_of (put_count x i c s) x = (vm_of s x)\<lparr>vm_counts := (vm_counts (vm_of s x))[i := c]\<rparr>"
  by (simp add: put_count_def vm_of_def)

lemma put_count_twice: "x < length (pg_vms s) \<Longrightarrow> put_count x i c (put_count x i d s) = put_count x i c s"
  by (simp add: put_count_def vm_of_def)

lemma vm_up_put_count: "vm_up k x s \<Longrightarrow> vm_up k x (put_count x i c s)"
  by (simp add: vm_up_def)

lemma use_frame_up: "vm_up k x s \<Longrightarrow> \<exists>s'. use_frame k p s = Inr s' \<and> hide k s' = hide k s"
  by (rule use_frame_hide) (simp add: vm_up_def)

lemma slot_put_count [simp]:
  "x < length (pg_vms s) \<Longrightarrow> slot_tab (put_count x i c s) x j = slot_tab s x j"
  "x < length (pg_vms s) \<Longrightarrow> slot_dir (put_count x i c s) x j = slot_dir s x j"
  by (simp_all add: slot_tab_def slot_dir_def)

lemma present_in_le: "present_in t \<le> 1024"
  unfolding present_in_def by (rule order_trans [OF card_mono [of "{..<1024}"]]) auto

lemma unat_inc16: "unat (c :: u16) < 65535 \<Longrightarrow> unat (c + 1) = unat c + 1"
  by (simp add: unat_add_small)

lemma count_small:
  assumes "vm_wf k K x s" "i < 1023" "i \<notin> K" "slot_tab s x i \<noteq> 0"
  shows "slot_count s x i \<le> 1024" "vm_counts (vm_of s x) ! i \<noteq> 0xffff" "vm_counts (vm_of s x) ! i + 1 \<noteq> 0xffff"
proof -
  show c: "slot_count s x i \<le> 1024" using slot_wfD(5) [OF assms(1,2,4,3)] present_in_le by simp
  then show "vm_counts (vm_of s x) ! i \<noteq> 0xffff" by (auto simp: slot_count_def)
  have "unat (vm_counts (vm_of s x) ! i + 1) \<le> 1025" using c by (simp add: slot_count_def unat_inc16)
  then show "vm_counts (vm_of s x) ! i + 1 \<noteq> 0xffff" by auto
qed

lemma retain_present:
  assumes wf: "vm_wf k K x s" and i: "i < 1023" "i \<notin> K" "slot_tab s x i \<noteq> 0"
  shows "\<exists>s'. retain_page_tab k x i s = Inr (True, s') \<and> hide k s' = hide k (put_count x i (vm_counts (vm_of s x) ! i + 1) s)"
proof -
  note up = vm_wf_up [OF wf]
  obtain s1 where s1: "use_frame k (vm_dir (vm_of s x)) s = Inr s1" "hide k s1 = hide k s" using use_frame_up [OF up] by blast
  have d: "pg_frames s1 (vm_dir (vm_of s x)) = pg_frames s (vm_dir (vm_of s x))"
    using up hide_eqD(7) [OF s1(2)] by (simp add: vm_up_def)
  show ?thesis
    using up i(1) slot_wfD(1) [OF wf i(1)] count_small(2) [OF wf i] i(3) s1 d hide_put_count [OF s1(2)]
    by (simp add: retain_page_tab_def vm_up_def Let_def slot_dir_def)
qed

text \<open>The state a successful mapping leaves, up to the window.\<close>

definition mapped :: "nat \<Rightarrow> nat \<Rightarrow> nat \<Rightarrow> u32 \<Rightarrow> u16 \<Rightarrow> paging \<Rightarrow> paging" where
  "mapped x i j e c s = (let t = slot_tab s x i in put_frame t ((pg_frames s t)[j := e]) (put_count x i c s))"

lemma read_table:
  assumes wf: "vm_wf k K x s" and i: "i < 1023" "slot_tab s x i \<noteq> 0" and h: "hide k r = hide k (put_count x i c s)"
  shows "\<exists>r'. get_page_table k x i r = Inr (slot_tab s x i, r') \<and> hide k r' = hide k (put_count x i c s)"
    "\<exists>r'. use_frame k (slot_tab s x i) r = Inr r' \<and> hide k r' = hide k (put_count x i c s)"
    "pg_frames r (slot_tab s x i) = pg_frames s (slot_tab s x i)"
    "vm_counts (vm_of r x) = (vm_counts (vm_of s x))[i := c]"
proof -
  note up = vm_wf_up [OF wf]
  then have x: "x < length (pg_vms s)" "vm_dir (vm_of s x) \<noteq> km_last k" by (simp_all add: vm_up_def)
  note upr = vm_up_hide [OF h vm_up_put_count [OF up]]
  have "slot_tab r x i = slot_tab s x i" using slot_hide(3) [OF h, of x i] x by simp
  then show "\<exists>r'. get_page_table k x i r = Inr (slot_tab s x i, r') \<and> hide k r' = hide k (put_count x i c s)"
    using get_page_table_eq [OF upr, of i] i(1) h by auto
  show "\<exists>r'. use_frame k (slot_tab s x i) r = Inr r' \<and> hide k r' = hide k (put_count x i c s)"
    using use_frame_up [OF upr] h by metis
  show "pg_frames r (slot_tab s x i) = pg_frames s (slot_tab s x i)" using hide_eqD(7) [OF h slot_wfD(2) [OF wf i]] by simp
  show "vm_counts (vm_of r x) = (vm_counts (vm_of s x))[i := c]" using slot_hide(1) [OF h, of x] x by simp
qed

lemma map_page_present:
  assumes wf: "vm_wf k K x s" and v: "unat v < 0xffc00" "dir_idx v \<notin> K" "slot_tab s x (dir_idx v) \<noteq> 0"
  defines "c \<equiv> vm_counts (vm_of s x) ! dir_idx v" and "t \<equiv> pg_frames s (slot_tab s x (dir_idx v))"
  shows "\<exists>s'. map_page k x v pa perms s = Inr (True, s') \<and> hide k s' = hide k (mapped x (dir_idx v) (tab_idx v) (page_entry pa perms)
    (if t ! tab_idx v AND PAGETAB_PRESENT \<noteq> 0 then c else c + 1) s)"
proof -
  let ?i = "dir_idx v" and ?t = "slot_tab s x (dir_idx v)"
  note i = dir_idx_low [OF v(1)]
  have nl: "?t \<noteq> km_last k" using slot_wfD(2) [OF wf i v(3)] .
  have len: "length t = 1024" using slot_wfD(4) [OF wf i v(3)] by (simp add: t_def)
  have cl: "?i < length (vm_counts (vm_of s x))" using wf i by (simp add: vm_wf_def)
  obtain s1 where s1: "retain_page_tab k x ?i s = Inr (True, s1)" "hide k s1 = hide k (put_count x ?i (c + 1) s)"
    using retain_present [OF wf i v(2,3)] unfolding c_def by blast
  obtain s2 where s2: "get_page_table k x ?i s1 = Inr (?t, s2)" "hide k s2 = hide k (put_count x ?i (c + 1) s)"
    using read_table(1) [OF wf i v(3) s1(2)] by blast
  obtain s3 where s3: "use_frame k ?t s2 = Inr s3" "hide k s3 = hide k (put_count x ?i (c + 1) s)"
    using read_table(2) [OF wf i v(3) s2(2)] by blast
  have e: "nth_r (pg_frames s3 ?t) (tab_idx v) = Inr (t ! tab_idx v)"
    using read_table(3) [OF wf i v(3) s3(2)] len by (simp add: t_def)
  have fin: "hide k (put_frame ?t ((pg_frames r ?t)[tab_idx v := page_entry pa perms]) r)
      = hide k (mapped x ?i (tab_idx v) (page_entry pa perms) c' s)" if "hide k r = hide k (put_count x ?i c' s)" for r c'
    using hide_put_frame [OF that nl] read_table(3) [OF wf i v(3) that] by (simp add: mapped_def Let_def)
  show ?thesis
  proof (cases "t ! tab_idx v AND PAGETAB_PRESENT = 0")
    case True
    then show ?thesis using s1(1) s2(1) s3(1) e fin [OF s3(2)] v(3) by (simp add: map_page_def)
  next
    case False
    have "0 < slot_count s x ?i" using slot_wfD(6) [OF wf i v(3,2)] .
    then have "c + 1 - 1 > 0" by (simp add: c_def slot_count_def word_neq_0_conv unat_gt_0)
    moreover have "nth_r (vm_counts (vm_of s3 x)) ?i = Inr (c + 1)" using read_table(4) [OF wf i v(3) s3(2)] cl by simp
    ultimately have "release_page_tab k x ?i s3 = Inr (put_count x ?i c s3)"
      using count_small(3) [OF wf i v(2,3)] unfolding c_def by (simp add: release_page_tab_def Let_def)
    moreover have h: "hide k (put_count x ?i c s3) = hide k (put_count x ?i c s)"
      using hide_put_count [OF s3(2), of x ?i c] wf by (simp add: put_count_twice vm_wf_def)
    moreover note fin [OF h]
    ultimately show ?thesis using s1(1) s2(1) s3(1) e v(3) False by (simp add: map_page_def)
  qed
qed

lemma present_in_upd:
  assumes "length t = 1024" "j < 1024"
  shows "present_in (t[j := e]) = (if t ! j AND PAGETAB_PRESENT \<noteq> 0 then present_in t - 1 else present_in t)
    + (if e AND PAGETAB_PRESENT \<noteq> 0 then 1 else 0)"
proof -
  define S where "S = {m. m < 1024 \<and> t ! m AND PAGETAB_PRESENT \<noteq> 0}"
  have fin: "finite S" by (rule finite_subset [of _ "{..<1024}"]) (auto simp: S_def)
  have "{m. m < 1024 \<and> t[j := e] ! m AND PAGETAB_PRESENT \<noteq> 0} = (if e AND PAGETAB_PRESENT \<noteq> 0 then insert j (S - {j}) else S - {j})"
    using assms by (auto simp: S_def nth_list_update split: if_splits)
  moreover have "j \<in> S \<longleftrightarrow> t ! j AND PAGETAB_PRESENT \<noteq> 0" using assms by (simp add: S_def)
  moreover have "j \<in> S \<Longrightarrow> 0 < card S" using fin card_gt_0_iff by blast
  ultimately show ?thesis using fin by (simp add: present_in_def S_def [symmetric] card_Diff_singleton_if insert_absorb)
qed

lemma mapped_slots:
  assumes wf: "vm_wf k K x s" and i: "i < 1023" "slot_tab s x i \<noteq> 0"
  shows "vm_dir (vm_of (mapped x i j e c s) x) = vm_dir (vm_of s x)" "slot_dir (mapped x i j e c s) x m = slot_dir s x m"
    "slot_tab (mapped x i j e c s) x m = slot_tab s x m"
    "m < 1024 \<Longrightarrow> slot_count (mapped x i j e c s) x m = (if m = i then unat c else slot_count s x m)"
    "m < 1023 \<Longrightarrow> slot_tab s x m \<noteq> 0 \<Longrightarrow> pg_frames (mapped x i j e c s) (slot_tab s x m)
      = (if m = i then (pg_frames s (slot_tab s x i))[j := e] else pg_frames s (slot_tab s x m))"
    "pg_frames (mapped x i j e c s) (vm_dir (vm_of s x)) = pg_frames s (vm_dir (vm_of s x))"
proof -
  have x: "x < length (pg_vms s)" "length (vm_counts (vm_of s x)) = 1024" "slot_tab s x i \<noteq> vm_dir (vm_of s x)"
    using wf slot_wfD(3) [OF wf i] by (simp_all add: vm_wf_def)
  show "vm_dir (vm_of (mapped x i j e c s) x) = vm_dir (vm_of s x)" using x by (simp add: mapped_def Let_def)
  show d: "pg_frames (mapped x i j e c s) (vm_dir (vm_of s x)) = pg_frames s (vm_dir (vm_of s x))"
    using x by (simp add: mapped_def Let_def)
  show "slot_dir (mapped x i j e c s) x m = slot_dir s x m" "slot_tab (mapped x i j e c s) x m = slot_tab s x m"
    using x d by (simp_all add: slot_tab_def slot_dir_def mapped_def Let_def)
  show "m < 1024 \<Longrightarrow> slot_count (mapped x i j e c s) x m = (if m = i then unat c else slot_count s x m)"
    using x by (simp add: slot_count_def mapped_def Let_def nth_list_update)
  assume m: "m < 1023" "slot_tab s x m \<noteq> 0"
  have "slot_tab s x m = slot_tab s x i \<longleftrightarrow> m = i"
    using wf i m unfolding vm_wf_def inj_on_def by blast
  then show "pg_frames (mapped x i j e c s) (slot_tab s x m)
      = (if m = i then (pg_frames s (slot_tab s x i))[j := e] else pg_frames s (slot_tab s x m))"
    by (simp add: mapped_def Let_def)
qed

lemma mapped_wf:
  assumes wf: "vm_wf k K x s" and i: "i < 1023" "slot_tab s x i \<noteq> 0"
    and c: "unat c = present_in ((pg_frames s (slot_tab s x i))[j := e])" "0 < unat c"
  shows "vm_wf k K x (mapped x i j e c s)"
proof -
  note sl = mapped_slots [OF wf i, where j = j and e = e and c = c]
  have "slot_wf k K x (mapped x i j e c s) m" if "m < 1023" for m
    using slot_wfD [OF wf that] sl(5) [OF that] c that i(2)
    by (cases "slot_tab s x m = 0"; cases "m = i") (simp_all add: slot_wf_def Let_def sl(1-4))
  moreover have "slot_tab (mapped x i j e c s) x = slot_tab s x" using sl(3) by blast
  moreover have "pg_init (mapped x i j e c s) = pg_init s" "length (pg_vms (mapped x i j e c s)) = length (pg_vms s)"
    "vm_kernel (vm_of (mapped x i j e c s) x) = vm_kernel (vm_of s x)"
    "length (vm_counts (vm_of (mapped x i j e c s) x)) = length (vm_counts (vm_of s x))"
    using wf by (simp_all add: mapped_def Let_def vm_wf_def)
  ultimately show ?thesis using wf by (simp add: vm_wf_def sl(1,6))
qed

lemma mapped_trans:
  assumes wf: "vm_wf k K x s" and i: "i < 1023" "slot_tab s x i \<noteq> 0" and w: "unat w < 0xffc00"
  shows "trans (mapped x i j e c s) x w = (if dir_idx w = i \<and> tab_idx w = j then entry_page e else trans s x w)"
proof -
  have "length (pg_frames s (slot_tab s x i)) = 1024" using slot_wfD(4) [OF wf i] .
  then show ?thesis using mapped_slots(3,5) [OF wf i, where j = j and e = e and c = c] dir_idx_low [OF w] i(2)
    by (auto simp: trans_def nth_list_update)
qed

subsection \<open>A new table\<close>

text \<open>The page the allocator hands out is none that the memory uses.\<close>

definition fresh_page :: "kmap \<Rightarrow> nat \<Rightarrow> u64 \<Rightarrow> paging \<Rightarrow> bool" where
  "fresh_page k x p s \<longleftrightarrow> p \<noteq> 0 \<and> unat p < 2 ^ 20 \<and> p \<noteq> km_last k \<and> p \<noteq> vm_dir (vm_of s x) \<and> (\<forall>m < 1023. slot_tab s x m \<noteq> p)"

definition with_table :: "nat \<Rightarrow> nat \<Rightarrow> u64 \<Rightarrow> u32 list \<Rightarrow> section_mgr list \<Rightarrow> paging \<Rightarrow> paging" where
  "with_table x i p t secs s = (let d = vm_dir (vm_of s x) in
     put_frame d ((pg_frames s d)[i := dir_entry p False]) (put_frame p t ((put_count x i 1 s)\<lparr>pg_secs := secs\<rparr>)))"

lemma retain_new:
  assumes wf: "vm_wf k K x s" and i: "i < 1023" "i \<notin> K" "slot_tab s x i = 0"
    and alloc: "mm_alloc_page (pg_secs s) = Inr (p, secs)" "fresh_page k x p s"
  shows "\<exists>s'. retain_page_tab k x i s = Inr (True, s') \<and> hide k s' = hide k (with_table x i p (replicate 1024 0) secs s)"
proof -
  let ?d = "vm_dir (vm_of s x)"
  note up = vm_wf_up [OF wf]
  have x: "x < length (pg_vms s)" "?d \<noteq> km_last k" "pg_init s" "\<not> vm_kernel (vm_of s x)" "length (pg_frames s ?d) = 1024"
      "length (vm_counts (vm_of s x)) = 1024" using up by (simp_all add: vm_up_def)
  have p: "p \<noteq> 0" "p \<noteq> km_last k" "p \<noteq> ?d" using alloc(2) by (auto simp: fresh_page_def)
  have c: "nth_r (vm_counts (vm_of s x)) i = Inr (vm_counts (vm_of s x) ! i)" "vm_counts (vm_of s x) ! i \<noteq> 0xffff"
    using slot_wfD(7) [OF wf i(1,3,2)] x(6) i(1) by (auto simp: slot_count_def)
  obtain s1 where s1: "use_frame k ?d s = Inr s1" "hide k s1 = hide k s" using use_frame_up [OF up] by blast
  have d1: "nth_r (pg_frames s1 ?d) i = Inr (slot_dir s x i)" "slot_dir s x i AND PAGETAB_PRESENT = 0"
    using hide_eqD(7) [OF s1(2) x(2)] x(5) i slot_wfD(1) [OF wf i(1)] by (simp_all add: slot_dir_def)
  let ?a = "(put_count x i 1 s1)\<lparr>pg_secs := secs\<rparr>" and ?b = "(put_count x i 1 s)\<lparr>pg_secs := secs\<rparr>"
  have a: "hide k ?a = hide k ?b" by (intro hide_put_secs hide_put_count s1(2))
  have "pg_init ?a" using x(3) hide_eqD(5) [OF s1(2)] by simp
  then obtain s2 where s2: "use_frame k p ?a = Inr s2" "hide k s2 = hide k ?b" using use_frame_hide a by metis
  have "pg_init s1" "pg_secs s1 = pg_secs s" using x(3) hide_eqD(3,5) [OF s1(2)] by simp_all
  then have al: "arch_alloc_table k (put_count x i 1 s1) = Inr (p, put_frame p (replicate 1024 0) s2)"
    using alloc(1) s2(1) p(1) by (simp add: arch_alloc_table_def)
  let ?s3 = "put_frame p (replicate 1024 0) s2" and ?t3 = "put_frame p (replicate 1024 0) ?b"
  have h3: "hide k ?s3 = hide k ?t3" by (rule hide_put_frame [OF s2(2) p(2)])
  have vm3: "vm_dir (vm_of ?s3 x) = ?d" "\<not> vm_kernel (vm_of ?s3 x)"
    using slot_hide(1) [OF s2(2), of x] x by simp_all
  have "pg_init ?s3" using hide_eqD(5) [OF h3] x(3) by simp
  then obtain s4 where s4: "use_frame k ?d ?s3 = Inr s4" "hide k s4 = hide k ?t3" using use_frame_hide h3 by metis
  have d4: "pg_frames s4 ?d = pg_frames s ?d" using hide_eqD(7) [OF s4(2) x(2)] p(3) by simp
  have "set_page_tab k x i p False ?s3 = Inr (put_frame ?d ((pg_frames s ?d)[i := dir_entry p False]) s4)"
    using vm3 s4(1) d4 i(1) x(5) by (simp add: set_page_tab_def put_dir_def Let_def)
  moreover have "hide k (put_frame ?d ((pg_frames s ?d)[i := dir_entry p False]) s4) = hide k (with_table x i p (replicate 1024 0) secs s)"
    using hide_put_frame [OF s4(2) x(2)] by (simp add: with_table_def Let_def)
  ultimately show ?thesis using c s1(1) d1 al vm3(2) p(1) by (simp add: retain_page_tab_def Let_def)
qed

lemma with_table_slots:
  assumes wf: "vm_wf k K x s" and i: "i < 1023" "slot_tab s x i = 0" and p: "fresh_page k x p s"
  shows "vm_dir (vm_of (with_table x i p t secs s) x) = vm_dir (vm_of s x)"
    "slot_dir (with_table x i p t secs s) x m = (if m = i then dir_entry p False else slot_dir s x m)"
    "slot_tab (with_table x i p t secs s) x m = (if m = i then p else slot_tab s x m)"
    "m < 1024 \<Longrightarrow> slot_count (with_table x i p t secs s) x m = (if m = i then 1 else slot_count s x m)"
    "m < 1023 \<Longrightarrow> m \<noteq> i \<Longrightarrow> slot_tab s x m \<noteq> 0 \<Longrightarrow> pg_frames (with_table x i p t secs s) (slot_tab s x m) = pg_frames s (slot_tab s x m)"
    "pg_frames (with_table x i p t secs s) p = t"
    "length (pg_frames (with_table x i p t secs s) (vm_dir (vm_of s x))) = 1024"
proof -
  have x: "x < length (pg_vms s)" "length (vm_counts (vm_of s x)) = 1024" "length (pg_frames s (vm_dir (vm_of s x))) = 1024"
    using wf by (simp_all add: vm_wf_def)
  have q: "p \<noteq> vm_dir (vm_of s x)" "unat p < 2 ^ 20" "\<forall>m < 1023. slot_tab s x m \<noteq> p" using p by (auto simp: fresh_page_def)
  have vm: "vm_of (with_table x i p t secs s) x = (vm_of s x)\<lparr>vm_counts := (vm_counts (vm_of s x))[i := 1]\<rparr>"
    using x by (simp add: with_table_def Let_def)
  show d: "vm_dir (vm_of (with_table x i p t secs s) x) = vm_dir (vm_of s x)" by (simp add: vm)
  show sd: "slot_dir (with_table x i p t secs s) x m = (if m = i then dir_entry p False else slot_dir s x m)" for m
    using x i by (simp add: slot_dir_def d) (simp add: with_table_def Let_def)
  show "slot_tab (with_table x i p t secs s) x m = (if m = i then p else slot_tab s x m)"
    by (cases "m = i") (simp_all only: slot_tab_def sd simp_thms if_True if_False drop_dir_entry [OF q(2)])
  show "m < 1024 \<Longrightarrow> slot_count (with_table x i p t secs s) x m = (if m = i then 1 else slot_count s x m)"
    using x by (simp add: slot_count_def vm nth_list_update)
  show "pg_frames (with_table x i p t secs s) p = t" using q(1) by (simp add: with_table_def Let_def)
  show "length (pg_frames (with_table x i p t secs s) (vm_dir (vm_of s x))) = 1024" using x by (simp add: with_table_def Let_def)
  assume m: "m < 1023" "m \<noteq> i" "slot_tab s x m \<noteq> 0"
  show "pg_frames (with_table x i p t secs s) (slot_tab s x m) = pg_frames s (slot_tab s x m)"
    using q(3) m slot_wfD(3) [OF wf m(1,3)] by (simp add: with_table_def Let_def)
qed

lemma with_table_wf:
  assumes wf: "vm_wf k K x s" and i: "i < 1023" "slot_tab s x i = 0" and p: "fresh_page k x p s"
    and t: "length t = 1024" "present_in t = 1"
  shows "vm_wf k K x (with_table x i p t secs s)"
proof -
  note sl = with_table_slots [OF wf i p, where t = t and secs = secs]
  have q: "p \<noteq> 0" "p \<noteq> km_last k" "p \<noteq> vm_dir (vm_of s x)" "\<forall>m < 1023. slot_tab s x m \<noteq> p"
    using p by (auto simp: fresh_page_def)
  have "slot_wf k K x (with_table x i p t secs s) m" if "m < 1023" for m
    using slot_wfD [OF wf that] sl(5) [OF that] t that q sl(6)
    by (cases "m = i"; cases "slot_tab s x m = 0") (simp_all add: slot_wf_def Let_def sl(1-4))
  moreover have "inj_on (slot_tab (with_table x i p t secs s) x) {m. m < 1023 \<and> slot_tab (with_table x i p t secs s) x m \<noteq> 0}"
  proof (rule inj_onI)
    fix a b
    assume ab: "a \<in> {m. m < 1023 \<and> slot_tab (with_table x i p t secs s) x m \<noteq> 0}"
      "b \<in> {m. m < 1023 \<and> slot_tab (with_table x i p t secs s) x m \<noteq> 0}"
      "slot_tab (with_table x i p t secs s) x a = slot_tab (with_table x i p t secs s) x b"
    show "a = b"
    proof (cases "a = i \<or> b = i")
      case True
      then show ?thesis using ab q(4) by (auto simp: sl(3) split: if_splits)
    next
      case False
      then show ?thesis using ab wf by (auto simp: sl(3) vm_wf_def inj_on_def)
    qed
  qed
  moreover have "pg_init (with_table x i p t secs s) = pg_init s" "length (pg_vms (with_table x i p t secs s)) = length (pg_vms s)"
    "vm_kernel (vm_of (with_table x i p t secs s) x) = vm_kernel (vm_of s x)"
    "length (vm_counts (vm_of (with_table x i p t secs s) x)) = length (vm_counts (vm_of s x))"
    using wf by (simp_all add: with_table_def Let_def vm_wf_def)
  ultimately show ?thesis using wf sl(7) by (simp add: vm_wf_def sl(1))
qed

lemma with_table_trans:
  assumes wf: "vm_wf k K x s" and i: "i < 1023" "slot_tab s x i = 0" and p: "fresh_page k x p s" and w: "unat w < 0xffc00"
  shows "trans (with_table x i p t secs s) x w = (if dir_idx w = i then entry_page (t ! tab_idx w) else trans s x w)"
  using with_table_slots(3,5,6) [OF wf i p, where t = t and secs = secs] dir_idx_low [OF w] p
  by (auto simp: trans_def fresh_page_def)

lemma map_page_new:
  assumes wf: "vm_wf k K x s" and v: "unat v < 0xffc00" "dir_idx v \<notin> K" "slot_tab s x (dir_idx v) = 0"
    and alloc: "mm_alloc_page (pg_secs s) = Inr (p, secs)" "fresh_page k x p s"
  shows "\<exists>s'. map_page k x v pa perms s = Inr (True, s')
    \<and> hide k s' = hide k (with_table x (dir_idx v) p ((replicate 1024 0)[tab_idx v := page_entry pa perms]) secs s)"
proof -
  let ?i = "dir_idx v" and ?z = "replicate 1024 0 :: u32 list"
  note i = dir_idx_low [OF v(1)]
  obtain s1 where s1: "retain_page_tab k x ?i s = Inr (True, s1)" "hide k s1 = hide k (with_table x ?i p ?z secs s)"
    using retain_new [OF wf i v(2,3) alloc] by blast
  note sl = with_table_slots [OF wf i v(3) alloc(2), where secs = secs]
  have p: "p \<noteq> 0" "p \<noteq> km_last k" "p \<noteq> vm_dir (vm_of s x)" using alloc(2) by (auto simp: fresh_page_def)
  have up: "vm_up k x (with_table x ?i p ?z secs s)" using vm_wf_up [OF wf] sl(1) [of ?z] sl(7) [of ?z]
    by (simp add: vm_up_def with_table_def Let_def)
  note up1 = vm_up_hide [OF s1(2) up]
  have "slot_tab s1 x ?i = p" using slot_hide(3) [OF s1(2), of x ?i] up sl(3) [of ?z] by (simp add: vm_up_def)
  then obtain s2 where s2: "get_page_table k x ?i s1 = Inr (p, s2)" "hide k s2 = hide k (with_table x ?i p ?z secs s)"
    using get_page_table_eq [OF up1, of ?i] i s1(2) by auto
  obtain s3 where s3: "use_frame k p s2 = Inr s3" "hide k s3 = hide k (with_table x ?i p ?z secs s)"
    using use_frame_up [OF vm_up_hide [OF s2(2) up]] s2(2) by metis
  have f: "pg_frames s3 p = ?z" using hide_eqD(7) [OF s3(2) p(2)] sl(6) by simp
  have "map_page k x v pa perms s = Inr (True, put_frame p (?z[tab_idx v := page_entry pa perms]) s3)"
    using s1(1) s2(1) s3(1) p(1) by (simp add: map_page_def f)
  moreover have "put_frame p t (with_table x ?i p ?z secs s) = with_table x ?i p t secs s" for t
    using p(3) by (simp add: with_table_def Let_def put_frame_def fun_upd_twist)
  ultimately show ?thesis using hide_put_frame [OF s3(2) p(2)] by auto
qed

definition phys_of :: "kmap \<Rightarrow> nat \<Rightarrow> paging \<Rightarrow> u64 \<Rightarrow> u64 option" where
  "phys_of k x s v = (case vir_paddr_to_phy k x v s of Inl _ \<Rightarrow> None | Inr (p, _) \<Rightarrow> Some p)"

lemma phys_of_trans: "vm_wf k K x s \<Longrightarrow> unat v < 0xffc00 \<Longrightarrow> phys_of k x s v = Some (trans s x v)"
  using vir_paddr_to_phy_eq [of k K x s v] by (auto simp: phys_of_def)

lemma present_in_zero: "present_in (replicate 1024 0) = 0"
proof -
  have "{j. j < 1024 \<and> replicate 1024 (0 :: u32) ! j AND PAGETAB_PRESENT \<noteq> 0} = {}" by auto
  then show ?thesis by (simp only: present_in_def card.empty)
qed

lemma entry_page_new: "unat pa < 2 ^ 20 \<Longrightarrow> entry_page (page_entry pa perms) = pa"
  by (simp only: entry_page_def present_entries if_False drop_page_entry)

lemma entry_page_zero: "entry_page 0 = 0"
  by (simp add: entry_page_def)


subsection \<open>Unmapping\<close>

definition without_table :: "nat \<Rightarrow> nat \<Rightarrow> nat \<Rightarrow> section_mgr list \<Rightarrow> paging \<Rightarrow> paging" where
  "without_table x i j secs s = (let d = vm_dir (vm_of s x) in
     put_frame d ((pg_frames s d)[i := 0]) ((mapped x i j 0 0 s)\<lparr>pg_secs := secs\<rparr>))"

lemma put_frame_count: "put_count x i c (put_frame p t s) = put_frame p t (put_count x i c s)"
  by (simp add: put_count_def put_frame_def vm_of_def)

text \<open>A table outside the kernel goes back to the allocator.\<close>

lemma free_table_eq:
  assumes "pg_init r" "\<not> pr_page_in_range (km_phys k) p" "unat (km_temp k) + 8 \<le> 0xffc00" "mm_dealloc_page (pg_secs r) p = Inr secs"
  shows "\<exists>r'. arch_free_table k p r = Inr r' \<and> hide k r' = hide k (r\<lparr>pg_secs := secs\<rparr>)"
proof -
  obtain v r1 where r1: "window_map k p r = (v, r1)" by (cases "window_map k p r") blast
  have h: "hide k r1 = hide k r" "v = 0xffc00 + ucast (pg_counter r)"
    using r1 by (auto simp: window_map_def hide_def put_frame_def)
  have c: "unat (ucast (pg_counter r) :: u64) < 65536" using unsigned_less [of "pg_counter r", where ?'a = nat] by (simp add: unsigned_ucast_eq take_bit_eq_mod)
  have "unat v = 0xffc00 + unat (ucast (pg_counter r) :: u64)" unfolding h(2) using c by (subst unat_add_small) simp_all
  moreover have "unat (km_temp k + of_nat TEMP_PAGING_TABLE_COUNT) = unat (km_temp k) + 8"
    using assms(3) by (subst unat_add_small) simp_all
  ultimately have "\<not> v < km_temp k + of_nat TEMP_PAGING_TABLE_COUNT" using assms(3) by (simp only: word_less_unat)
  then have "arch_free_table k p r = Inr (r1\<lparr>pg_secs := secs\<rparr>)"
    using assms r1 hide_eqD(3) [OF h(1)] by (simp add: arch_free_table_def arch_map_phy_paddr_def)
  then show ?thesis using hide_put_secs [OF h(1)] by blast
qed

lemma unmap_page_eq:
  assumes wf: "vm_wf k K x s" and v: "unat v < 0xffc00" "dir_idx v \<notin> K"
  defines "i \<equiv> dir_idx v"
  defines "t \<equiv> slot_tab s x i" and "c \<equiv> vm_counts (vm_of s x) ! i"
  assumes free: "slot_count s x i = 1 \<Longrightarrow> t \<noteq> 0 \<Longrightarrow> unat (km_temp k) + 8 \<le> 0xffc00 \<and> \<not> pr_page_in_range (km_phys k) t
    \<and> mm_dealloc_page (pg_secs s) t = Inr secs"
  shows "\<exists>s'. unmap_page k x v s = Inr s' \<and> hide k s' = hide k
    (if t = 0 \<or> (pg_frames s t ! tab_idx v) AND PAGETAB_PRESENT = 0 then s
     else if slot_count s x i = 1 then without_table x i (tab_idx v) secs s
     else mapped x i (tab_idx v) 0 (c - 1) s)"
proof -
  have i: "i < 1023" unfolding i_def by (rule dir_idx_low [OF v(1)])
  have K: "i \<notin> K" using v(2) by (simp add: i_def)
  note up = vm_wf_up [OF wf]
  obtain s1 where s1: "get_page_table k x i s = Inr (t, s1)" "hide k s1 = hide k s"
    using get_page_table_eq [OF up, of i] i by (auto simp: t_def)
  show ?thesis
  proof (cases "t = 0")
    case True
    then show ?thesis using s1 by (simp add: unmap_page_def i_def [symmetric])
  next
    case False
    then have tn: "slot_tab s x i \<noteq> 0" by (simp add: t_def)
    have nl: "t \<noteq> km_last k" "t \<noteq> vm_dir (vm_of s x)" using slot_wfD(2,3) [OF wf i tn] by (simp_all add: t_def)
    obtain s2 where s2: "use_frame k t s1 = Inr s2" "hide k s2 = hide k s" using use_frame_up [OF vm_up_hide [OF s1(2) up]] s1(2) by metis
    have f2: "pg_frames s2 t = pg_frames s t" using hide_eqD(7) [OF s2(2) nl(1)] .
    have len: "length (pg_frames s t) = 1024" using slot_wfD(4) [OF wf i tn] by (simp add: t_def)
    show ?thesis
    proof (cases "(pg_frames s t ! tab_idx v) AND PAGETAB_PRESENT = 0")
      case True
      then show ?thesis using s1 s2 f2 len False by (simp add: unmap_page_def i_def [symmetric])
    next
      case pres: False
      let ?tab = "(pg_frames s t)[tab_idx v := 0]"
      let ?s3 = "put_frame t ?tab s2"
      have h3: "hide k (put_count x i (c - 1) ?s3) = hide k (mapped x i (tab_idx v) 0 (c - 1) s)"
        using hide_put_count [OF hide_put_frame [OF s2(2) nl(1)], of x i "c - 1" ?tab]
        by (simp add: mapped_def Let_def t_def put_frame_count)
      have c: "nth_r (vm_counts (vm_of ?s3 x)) i = Inr c" "c \<noteq> 0xffff"
        using slot_hide(1) [OF s2(2), of x] up i count_small(2) [OF wf i K tn] by (simp_all add: c_def vm_up_def)
      have un: "unmap_page k x v s = release_page_tab k x i ?s3"
        using s1 s2 f2 len False pres by (simp add: unmap_page_def i_def [symmetric])
      show ?thesis
      proof (cases "slot_count s x i = 1")
        case one: False
        have "c \<noteq> 1" using one by (auto simp: slot_count_def c_def)
        then have "0 < c - 1" by (simp add: word_gt_0)
        then have "release_page_tab k x i ?s3 = Inr (put_count x i (c - 1) ?s3)"
          using c by (simp add: release_page_tab_def Let_def)
        then show ?thesis using un h3 False pres one by simp
      next
        case one: True
        then have c1: "c = 1" by (simp add: slot_count_def c_def word_unat_eq_iff)
        note fr = free [OF one False]
        let ?m = "mapped x i (tab_idx v) 0 0 s" and ?d = "vm_dir (vm_of s x)"
        have h3': "hide k (put_count x i 0 ?s3) = hide k ?m" using h3 c1 by simp
        note msl = mapped_slots [OF wf i tn, where j = "tab_idx v" and e = 0 and c = 0]
        have upm: "vm_up k x ?m" using up msl(1,6) by (simp add: vm_up_def mapped_def Let_def)
        have x: "?d \<noteq> km_last k" "\<not> vm_kernel (vm_of s x)" "length (pg_frames s ?d) = 1024" "x < length (pg_vms s)"
          using up by (simp_all add: vm_up_def)
        have "slot_tab (put_count x i 0 ?s3) x i = t"
          using slot_hide(3) [OF h3', of x i] x(1) msl(1,3) by (simp add: t_def)
        then obtain s4 where s4: "get_page_table k x i (put_count x i 0 ?s3) = Inr (t, s4)" "hide k s4 = hide k ?m"
          using get_page_table_eq [OF vm_up_hide [OF h3' upm], of i] h3' i by auto
        have "pg_init s4" "pg_secs s4 = pg_secs s" using hide_eqD(3,5) [OF s4(2)] upm by (simp_all add: vm_up_def mapped_def Let_def)
        then obtain s5 where s5: "arch_free_table k t s4 = Inr s5" "hide k s5 = hide k (?m\<lparr>pg_secs := secs\<rparr>)"
          using free_table_eq [of s4 k t secs] fr hide_put_secs [OF s4(2)] by metis
        have vm5: "vm_of s5 x = vm_of ?m x" using slot_hide(1) [OF s5(2), of x] x(1) msl(1) by simp
        then have v5: "vm_dir (vm_of s5 x) = ?d" "\<not> vm_kernel (vm_of s5 x)" using msl(1) upm by (simp_all add: vm_up_def)
        have "pg_init s5" using hide_eqD(5) [OF s5(2)] upm by (simp add: vm_up_def)
        then obtain s6 where s6: "use_frame k ?d s5 = Inr s6" "hide k s6 = hide k (?m\<lparr>pg_secs := secs\<rparr>)"
          using use_frame_hide s5(2) by metis
        have d6: "pg_frames s6 ?d = pg_frames s ?d" using hide_eqD(7) [OF s6(2) x(1)] msl(6) by simp
        let ?r = "put_frame ?d ((pg_frames s ?d)[i := 0]) s6"
        have put: "put_dir k x i 0 s5 = Inr ?r" using v5 s6(1) d6 x(3) i by (simp add: put_dir_def Let_def)
        have "\<not> vm_kernel (vm_of ?r x)" using slot_hide(1) [OF s6(2), of x] x(1) msl(1) upm by (simp add: vm_up_def)
        then have "clear_page_tab k x i s5 = Inr ?r" using put v5(2) by (simp add: clear_page_tab_def)
        then have "release_page_tab k x i ?s3 = Inr ?r" using c c1 s4(1) s5(1) by (simp add: release_page_tab_def Let_def)
        moreover have "hide k ?r = hide k (without_table x i (tab_idx v) secs s)"
          using hide_put_frame [OF s6(2) x(1)] by (simp add: without_table_def Let_def)
        ultimately show ?thesis using un False pres one by simp
      qed
    qed
  qed
qed

lemma without_table_slots:
  assumes wf: "vm_wf k K x s" and i: "i < 1023" "slot_tab s x i \<noteq> 0"
  shows "vm_dir (vm_of (without_table x i j secs s) x) = vm_dir (vm_of s x)"
    "slot_dir (without_table x i j secs s) x m = (if m = i then 0 else slot_dir s x m)"
    "slot_tab (without_table x i j secs s) x m = (if m = i then 0 else slot_tab s x m)"
    "m < 1024 \<Longrightarrow> slot_count (without_table x i j secs s) x m = (if m = i then 0 else slot_count s x m)"
    "m < 1023 \<Longrightarrow> m \<noteq> i \<Longrightarrow> slot_tab s x m \<noteq> 0 \<Longrightarrow> pg_frames (without_table x i j secs s) (slot_tab s x m) = pg_frames s (slot_tab s x m)"
    "length (pg_frames (without_table x i j secs s) (vm_dir (vm_of s x))) = 1024"
proof -
  note sl = mapped_slots [OF wf i, where j = j and e = 0 and c = 0]
  have x: "length (pg_frames s (vm_dir (vm_of s x))) = 1024" using wf by (simp add: vm_wf_def)
  have vm: "vm_of (without_table x i j secs s) x = vm_of (mapped x i j 0 0 s) x" by (simp add: without_table_def Let_def)
  show d: "vm_dir (vm_of (without_table x i j secs s) x) = vm_dir (vm_of s x)" using sl(1) by (simp add: vm)
  show sd: "slot_dir (without_table x i j secs s) x m = (if m = i then 0 else slot_dir s x m)" for m
    using x i by (simp add: slot_dir_def d) (simp add: without_table_def Let_def)
  show "slot_tab (without_table x i j secs s) x m = (if m = i then 0 else slot_tab s x m)" by (simp add: slot_tab_def sd)
  show "m < 1024 \<Longrightarrow> slot_count (without_table x i j secs s) x m = (if m = i then 0 else slot_count s x m)"
    using sl(4) [of m] by (simp add: slot_count_def vm)
  show "length (pg_frames (without_table x i j secs s) (vm_dir (vm_of s x))) = 1024" using x by (simp add: without_table_def Let_def)
  assume m: "m < 1023" "m \<noteq> i" "slot_tab s x m \<noteq> 0"
  show "pg_frames (without_table x i j secs s) (slot_tab s x m) = pg_frames s (slot_tab s x m)"
    using sl(5) [OF m(1,3)] m(2) slot_wfD(3) [OF wf m(1,3)] by (simp add: without_table_def Let_def)
qed

lemma without_table_wf:
  assumes wf: "vm_wf k K x s" and i: "i < 1023" "slot_tab s x i \<noteq> 0"
  shows "vm_wf k K x (without_table x i j secs s)"
proof -
  note sl = without_table_slots [OF wf i, where j = j and secs = secs]
  have "slot_wf k K x (without_table x i j secs s) m" if "m < 1023" for m
    using slot_wfD [OF wf that] sl(5) [OF that] that
    by (cases "m = i"; cases "slot_tab s x m = 0") (simp_all add: slot_wf_def Let_def sl(1-4))
  moreover have "inj_on (slot_tab (without_table x i j secs s) x) {m. m < 1023 \<and> slot_tab (without_table x i j secs s) x m \<noteq> 0}"
    using wf by (auto simp: inj_on_def sl(3) vm_wf_def)
  moreover have "pg_init (without_table x i j secs s) = pg_init s" "length (pg_vms (without_table x i j secs s)) = length (pg_vms s)"
    "vm_kernel (vm_of (without_table x i j secs s) x) = vm_kernel (vm_of s x)"
    "length (vm_counts (vm_of (without_table x i j secs s) x)) = length (vm_counts (vm_of s x))"
    using wf by (simp_all add: without_table_def mapped_def Let_def vm_wf_def)
  ultimately show ?thesis using wf sl(6) by (simp add: vm_wf_def sl(1))
qed

lemma without_table_trans:
  assumes wf: "vm_wf k K x s" and i: "i < 1023" "slot_tab s x i \<noteq> 0" and w: "unat w < 0xffc00"
  shows "trans (without_table x i j secs s) x w = (if dir_idx w = i then 0 else trans s x w)"
  using without_table_slots(3,5) [OF wf i, where j = j and secs = secs] dir_idx_low [OF w]
  by (auto simp: trans_def)

lemma only_present:
  assumes "present_in t = 1" "j < 1024" "t ! j AND PAGETAB_PRESENT \<noteq> 0" "m < 1024" "m \<noteq> j"
  shows "t ! m AND PAGETAB_PRESENT = 0"
proof -
  obtain a where "{m. m < 1024 \<and> t ! m AND PAGETAB_PRESENT \<noteq> 0} = {a}" using assms(1) unfolding present_in_def by (meson card_1_singletonE)
  then show ?thesis using assms(2-) by (metis (mono_tags, lifting) mem_Collect_eq singletonD singletonI)
qed

text \<open>The page is the only one that its table maps.\<close>

definition last_entry :: "paging \<Rightarrow> nat \<Rightarrow> u64 \<Rightarrow> bool" where
  "last_entry s x v \<longleftrightarrow> slot_tab s x (dir_idx v) \<noteq> 0 \<and> pg_frames s (slot_tab s x (dir_idx v)) ! tab_idx v AND PAGETAB_PRESENT \<noteq> 0
     \<and> slot_count s x (dir_idx v) = 1"

lemma mapped_secs: "pg_secs (mapped x i j e c s) = pg_secs s"
  by (simp add: mapped_def Let_def put_frame_def put_count_def)

lemma without_table_secs: "pg_secs (without_table x i j secs s) = secs"
  by (simp add: without_table_def Let_def put_frame_def)

text \<open>C4: After a user's page has been unmapped it translates to nothing and every other page below the kernel's window
  as before, and the memory stays well-formed. With the last entry of its table the page of the table is handed to the
  allocator's \<open>dealloc_page\<close>, exactly then and only it, and its slot of the directory is empty; \<open>secs\<close> is what the allocator makes of it.\<close>

theorem unmap_page_unmaps_one_page:
  assumes wf: "vm_wf k K x s" and v: "unat v < 0xffc00" "dir_idx v \<notin> K"
    and free: "\<lbrakk>slot_count s x (dir_idx v) = 1; slot_tab s x (dir_idx v) \<noteq> 0\<rbrakk> \<Longrightarrow> unat (km_temp k) + 8 \<le> 0xffc00
      \<and> \<not> pr_page_in_range (km_phys k) (slot_tab s x (dir_idx v)) \<and> mm_dealloc_page (pg_secs s) (slot_tab s x (dir_idx v)) = Inr secs"
  shows "\<exists>s'. unmap_page k x v s = Inr s' \<and> vm_wf k K x s'
    \<and> (\<forall>w. unat w < 0xffc00 \<longrightarrow> phys_of k x s' w = (if w = v then Some 0 else phys_of k x s w))
    \<and> pg_secs s' = (if last_entry s x v then secs else pg_secs s)
    \<and> (\<forall>m < 1023. slot_tab s' x m = (if last_entry s x v \<and> m = dir_idx v then 0 else slot_tab s x m))"
proof -
  let ?i = "dir_idx v" and ?t = "pg_frames s (slot_tab s x (dir_idx v))"
  note i = dir_idx_low [OF v(1)]
  obtain s' r where s': "unmap_page k x v s = Inr s'" "hide k s' = hide k r" "vm_wf k K x r"
    and tr: "\<And>w. unat w < 0xffc00 \<Longrightarrow> trans r x w = (if dir_idx w = ?i \<and> tab_idx w = tab_idx v then 0 else trans s x w)"
    and al: "pg_secs r = (if last_entry s x v then secs else pg_secs s)"
      "\<And>m. m < 1023 \<Longrightarrow> slot_tab r x m = (if last_entry s x v \<and> m = ?i then 0 else slot_tab s x m)"
  proof (cases "slot_tab s x ?i = 0 \<or> ?t ! tab_idx v AND PAGETAB_PRESENT = 0")
    case True
    then have "trans s x w = (if dir_idx w = ?i \<and> tab_idx w = tab_idx v then 0 else trans s x w)" for w
      by (auto simp: trans_def entry_page_def)
    moreover have "\<not> last_entry s x v" using True by (auto simp: last_entry_def)
    ultimately show ?thesis using unmap_page_eq [OF wf v free] True wf that by auto
  next
    case False
    then have tn: "slot_tab s x ?i \<noteq> 0" and pres: "?t ! tab_idx v AND PAGETAB_PRESENT \<noteq> 0" by auto
    have cnt: "slot_count s x ?i = present_in ?t" "0 < slot_count s x ?i" using slot_wfD(5,6) [OF wf i tn v(2)] .
    show ?thesis
    proof (cases "slot_count s x ?i = 1")
      case True
      let ?w = "without_table x ?i (tab_idx v) secs s"
      have "trans ?w x w = (if dir_idx w = ?i \<and> tab_idx w = tab_idx v then 0 else trans s x w)"
        if "unat w < 0xffc00" for w
        using without_table_trans [OF wf i tn that] only_present [OF _ tab_idx_low pres tab_idx_low, of w] cnt(1) True
        by (auto simp: trans_def entry_page_def)
      moreover have l: "last_entry s x v" using tn pres True by (simp add: last_entry_def)
      moreover obtain s' where "unmap_page k x v s = Inr s'" "hide k s' = hide k ?w" using unmap_page_eq [OF wf v free] False True by auto
      ultimately show ?thesis using without_table_wf [OF wf i tn] without_table_slots(3) [OF wf i tn] without_table_secs
        by (intro that [of s' ?w]) simp_all
    next
      case one: False
      let ?c = "vm_counts (vm_of s x) ! ?i - 1"
      let ?m = "mapped x ?i (tab_idx v) 0 ?c s"
      have "unat ?c = slot_count s x ?i - 1" using cnt(2) by (simp add: slot_count_def unat_minus_one unat_gt_0)
      then have "unat ?c = present_in (?t[tab_idx v := 0])" "0 < unat ?c"
        using present_in_upd [OF slot_wfD(4) [OF wf i tn] tab_idx_low, of v 0] pres cnt one by simp_all
      then have "vm_wf k K x ?m" by (rule mapped_wf [OF wf i tn])
      moreover obtain s' where "unmap_page k x v s = Inr s'" "hide k s' = hide k ?m" using unmap_page_eq [OF wf v free] False one by auto
      moreover have "\<not> last_entry s x v" using one by (simp add: last_entry_def)
      ultimately show ?thesis using mapped_trans [OF wf i tn, where e = 0] entry_page_zero mapped_slots(3) [OF wf i tn] mapped_secs
        by (intro that [of s' ?m]) simp_all
    qed
  qed
  have wf': "vm_wf k K x s'" by (rule vm_wf_hide [OF s'(2,3)])
  moreover have "phys_of k x s' w = (if w = v then Some 0 else phys_of k x s w)" if w: "unat w < 0xffc00" for w
    using tr [OF w] trans_hide [OF s'(2,3) w] phys_of_trans [OF wf' w] phys_of_trans [OF wf w] page_idx_inj [of w v] w v(1) by auto
  moreover have "vm_dir (vm_of r x) \<noteq> km_last k" using s'(3) by (simp add: vm_wf_def)
  ultimately show ?thesis using s'(1) al hide_eqD(3) [OF s'(2)] slot_hide(3) [OF s'(2)] by auto
qed

subsection \<open>A small machine\<close>

definition demo_kmap :: kmap where
  "demo_kmap = \<lparr>km_phys = pr_base_limit 0x40 0x50, km_virt = pr_base_limit 0xc0040 0xc0050, km_dir = 0x45, km_last = 0x46, km_temp = 0xc0047\<rparr>"

text \<open>The kernel's memory and two users', whose directories are pages 3 and 2; page 1 is free.\<close>

definition demo_paging :: paging where
  "demo_paging = \<lparr>pg_frames = \<lambda>_. replicate 1024 0,
     pg_vms = [\<lparr>vm_counts = replicate 1024 0, vm_top = 0xffc00, vm_kernel = True, vm_dir = 0x45\<rparr>,
       \<lparr>vm_counts = replicate 1024 0, vm_top = 0xffc00, vm_kernel = False, vm_dir = 3\<rparr>,
       \<lparr>vm_counts = replicate 1024 0, vm_top = 0xffc00, vm_kernel = False, vm_dir = 2\<rparr>],
     pg_chain = [1, 2], pg_secs = [\<lparr>sec_range = pr_base_limit 1 17, sec_used = 2, sec_bitmap_size = 2, sec_bitmap = [6, 0]\<rparr>],
     pg_temp = replicate 8 False, pg_init = True, pg_counter = 0, pg_cur = Some 0\<rparr>"

definition demo_secs :: "section_mgr list" where
  "demo_secs = [\<lparr>sec_range = pr_base_limit 1 17, sec_used = 3, sec_bitmap_size = 2, sec_bitmap = [7, 0]\<rparr>]"

lemma demo_vm: "vm_of demo_paging 2 = \<lparr>vm_counts = replicate 1024 0, vm_top = 0xffc00, vm_kernel = False, vm_dir = 2\<rparr>"
  by (simp add: demo_paging_def vm_of_def)

lemma demo_slots: "m < 1024 \<Longrightarrow> slot_dir demo_paging 2 m = 0" "m < 1024 \<Longrightarrow> slot_tab demo_paging 2 m = 0"
    "m < 1024 \<Longrightarrow> slot_count demo_paging 2 m = 0"
  by (simp_all add: slot_dir_def slot_tab_def slot_count_def demo_vm) (simp_all add: demo_paging_def)

lemma demo_wf: "vm_wf demo_kmap {} 2 demo_paging"
proof -
  have "slot_wf demo_kmap {} 2 demo_paging m" if "m < 1023" for m
    using that by (simp add: slot_wf_def Let_def demo_slots)
  moreover have "inj_on (slot_tab demo_paging 2) {i. i < 1023 \<and> slot_tab demo_paging 2 i \<noteq> 0}" by (auto simp: inj_on_def demo_slots)
  ultimately show ?thesis by (simp add: vm_wf_def demo_vm) (simp add: demo_paging_def demo_kmap_def)
qed

lemma demo_alloc: "mm_alloc_page (pg_secs demo_paging) = Inr (1, demo_secs)"
  by (simp add: demo_paging_def demo_secs_def) code_simp

lemma demo_fresh: "fresh_page demo_kmap 2 1 demo_paging"
  by (simp add: fresh_page_def demo_slots demo_vm demo_kmap_def)

lemma demo_idx: "dir_idx 5 = 0" "tab_idx 5 = 5"
  by (simp_all add: dir_idx_div tab_idx_mod)


definition demo_mapped :: paging where
  "demo_mapped = with_table 2 0 1 ((replicate 1024 0)[5 := page_entry 0x30 3]) demo_secs demo_paging"

lemma demo_mapped_wf: "vm_wf demo_kmap {} 2 demo_mapped"
  unfolding demo_mapped_def
  by (rule with_table_wf [OF demo_wf _ _ demo_fresh]) (simp_all add: demo_slots present_in_upd present_in_zero)

text \<open>The page table lies in page 8, which the allocator takes back.\<close>

definition demo_tabled :: paging where
  "demo_tabled = with_table 2 0 8 ((replicate 1024 0)[5 := page_entry 0x30 3])
     [\<lparr>sec_range = pr_base_limit 1 17, sec_used = 3, sec_bitmap_size = 2, sec_bitmap = [6, 1]\<rparr>] demo_paging"

theorem unmap_page_unmaps_one_page_witness:
  "slot_tab demo_tabled 2 0 = 8 \<and> (\<exists>s'. unmap_page demo_kmap 2 5 demo_tabled = Inr s' \<and> phys_of demo_kmap 2 s' 5 = Some 0
    \<and> slot_tab s' 2 0 = 0 \<and> pg_secs s' = [\<lparr>sec_range = pr_base_limit 1 17, sec_used = 2, sec_bitmap_size = 2, sec_bitmap = [6, 0]\<rparr>])"
proof -
  have f: "fresh_page demo_kmap 2 8 demo_paging" by (simp add: fresh_page_def demo_slots demo_vm demo_kmap_def)
  have pr: "page_entry 0x30 3 AND PAGETAB_PRESENT \<noteq> 0" by code_simp
  have wf: "vm_wf demo_kmap {} 2 demo_tabled" unfolding demo_tabled_def
    by (rule with_table_wf [OF demo_wf _ _ f]) (simp_all add: demo_slots present_in_upd present_in_zero)
  note s = with_table_slots [OF demo_wf _ _ f, of 0]
  have "pg_secs demo_tabled = [\<lparr>sec_range = pr_base_limit 1 17, sec_used = 3, sec_bitmap_size = 2, sec_bitmap = [6, 1]\<rparr>]"
    by (simp add: demo_tabled_def with_table_def Let_def put_frame_def)
  moreover have "mm_dealloc_page [\<lparr>sec_range = pr_base_limit 1 17, sec_used = 3, sec_bitmap_size = 2, sec_bitmap = [6, 1]\<rparr>] 8 =
    Inr [\<lparr>sec_range = pr_base_limit 1 17, sec_used = 2, sec_bitmap_size = 2, sec_bitmap = [6, 0]\<rparr>]" by code_simp
  moreover have t: "slot_tab demo_tabled 2 0 = 8" unfolding demo_tabled_def using s(3) by (simp add: demo_slots)
  moreover have "last_entry demo_tabled 2 5"
    unfolding last_entry_def demo_idx t unfolding demo_tabled_def using s(4,6) pr by (simp add: demo_slots)
  moreover have "\<not> pr_page_in_range (km_phys demo_kmap) 8" "unat (km_temp demo_kmap) + 8 \<le> 0xffc00"
    by (simp_all add: demo_kmap_def pr_page_in_range_def pr_base_limit_def word_le_unat)
  ultimately show ?thesis
    using unmap_page_unmaps_one_page [OF wf, of 5 "[\<lparr>sec_range = pr_base_limit 1 17, sec_used = 2, sec_bitmap_size = 2, sec_bitmap = [6, 0]\<rparr>]"]
    by (fastforce simp: demo_idx)
qed

subsection \<open>A new memory\<close>

text \<open>C5: A new user's memory starts with the kernel's page directory: each of its slots holds the kernel's page table,
  and a page whose table is there translates as in the kernel's memory.\<close>

theorem new_memory_sees_kernel:
  assumes up: "pg_init s" "0 < length (pg_vms s)" "vm_dir (vm_of s 0) = km_dir k" "km_dir k \<noteq> km_last k"
    and p: "mm_alloc_page (pg_secs s) = Inr (p, secs)" "p \<noteq> 0" "p \<noteq> km_dir k" "p \<noteq> km_last k"
  shows "\<exists>s' x. vm_create k s = Inr (x, s') \<and> x = length (pg_vms s) \<and> x \<in> set (pg_chain s') \<and> \<not> vm_kernel (vm_of s' x)
    \<and> (\<forall>i. slot_tab s' x i = slot_tab s 0 i)
    \<and> (\<forall>v. slot_tab s 0 (dir_idx v) \<notin> {p, km_last k} \<longrightarrow> trans s' x v = trans s 0 v)"
proof -
  obtain s1 where s1: "use_frame k p (s\<lparr>pg_secs := secs\<rparr>) = Inr s1" "hide k s1 = hide k (s\<lparr>pg_secs := secs\<rparr>)"
    using use_frame_hide [of "s\<lparr>pg_secs := secs\<rparr>" k p] up(1) by auto
  let ?s2 = "put_frame p (replicate 1024 0) s1"
  have al: "arch_alloc_table k s = Inr (p, ?s2)" using up(1) p(1,2) s1(1) by (simp add: arch_alloc_table_def)
  have "pg_init ?s2" using hide_eqD(5) [OF s1(2)] up(1) by simp
  then obtain s3 where s3: "use_frame k p ?s2 = Inr s3" "hide k s3 = hide k ?s2" using use_frame_hide by blast
  have v: "pg_vms s3 = pg_vms s" using hide_eqD(1) [OF s3(2)] hide_eqD(1) [OF s1(2)] by simp
  have f: "pg_frames s3 q = pg_frames s q" if "q \<noteq> km_last k" "q \<noteq> p" for q
    using hide_eqD(7) [OF s3(2) that(1)] hide_eqD(7) [OF s1(2) that(1)] that(2) by simp
  let ?x = "length (pg_vms s)"
  let ?t = "put_frame p (pg_frames s3 (km_dir k))
      (s3\<lparr>pg_vms := pg_vms s3 @ [\<lparr>vm_counts = replicate 1024 0, vm_top = 0xffc00, vm_kernel = False, vm_dir = p\<rparr>]\<rparr>)"
  let ?s' = "?t\<lparr>pg_chain := pg_chain ?t @ [?x]\<rparr>"
  have vm: "vm_of ?s' ?x = \<lparr>vm_counts = replicate 1024 0, vm_top = 0xffc00, vm_kernel = False, vm_dir = p\<rparr>"
    by (simp add: vm_of_def put_frame_def v)
  have "slot_dir ?s' ?x i = slot_dir s 0 i" for i
    unfolding slot_dir_def vm up(3) using f [OF up(4)] p(3) by (simp add: put_frame_def)
  then have tab: "slot_tab ?s' ?x i = slot_tab s 0 i" for i by (simp only: slot_tab_def)
  have "trans ?s' ?x w = trans s 0 w" if "slot_tab s 0 (dir_idx w) \<notin> {p, km_last k}" for w
    unfolding trans_def tab using that f [of "slot_tab s 0 (dir_idx w)"] by (simp add: put_frame_def)
  moreover have "vm_create k s = Inr (?x, ?s')" using al s3(1) by (simp add: vm_create_def vm_new_user_def v)
  moreover have "?x \<in> set (pg_chain ?s')" by simp
  ultimately show ?thesis using vm tab by (metis vmem.select_convs(3))
qed

theorem new_memory_sees_kernel_witness:
  "\<exists>s' x. vm_create demo_kmap demo_paging = Inr (x, s') \<and> slot_tab s' x 3 = slot_tab demo_paging 0 3"
  using new_memory_sees_kernel [of demo_paging demo_kmap 1 demo_secs] demo_alloc
  by (fastforce simp: demo_paging_def demo_kmap_def vm_of_def)

end
