(* ===== verification/Proc_Memory.thy ===== *)
theory Proc_Memory
  imports Paging
begin

text \<open>
  The memory of a process (\<open>kernel/src/proc/memory.cpp\<close>): memory segments, which own physical pages, process
  segments, which map one in a range of pages, and the process memory with its virtual memory. The objects live
  in stores by address; \<open>mm_data\<close> holds the bytes of each physical page.
\<close>

record mem_segment =
  sg_stack :: bool
  sg_shared :: bool
  sg_perms :: u32
  sg_psegs :: "nat list"
  sg_pages :: "u64 list"

record proc_segment =
  pz_mem :: "nat option"
  pz_parent :: nat
  pz_range :: page_range

record proc_memory =
  px_vmem :: nat
  px_heap :: "nat option"
  px_segments :: "nat list"

record memory =
  mm_pg :: paging
  mm_data :: "u64 \<Rightarrow> u8 list"
  mm_segs :: "nat \<Rightarrow> mem_segment option"
  mm_psegs :: "nat \<Rightarrow> proc_segment option"
  mm_procs :: "nat \<Rightarrow> proc_memory option"
  mm_next :: nat

datatype fault_action = Continue | Segfault

datatype fault_type = NotPresent | ReadOnly

definition the_r :: "'a option \<Rightarrow> 'a result" where
  "the_r x = (case x of None \<Rightarrow> Inl Fault | Some y \<Rightarrow> Inr y)"

lemma the_r_simps [simp]: "the_r (Some y) = Inr y" "the_r None = Inl Fault"
  by (simp_all add: the_r_def)

lemma the_r_Inr: "the_r x = Inr y \<longleftrightarrow> x = Some y"
  by (cases x) auto

definition on_pg :: "(paging \<Rightarrow> paging result) \<Rightarrow> memory \<Rightarrow> memory result" where
  "on_pg f s = bindr (f (mm_pg s)) (\<lambda>g. Inr (s\<lparr>mm_pg := g\<rparr>))"

definition put_seg :: "nat \<Rightarrow> mem_segment \<Rightarrow> memory \<Rightarrow> memory" where
  "put_seg a m s = s\<lparr>mm_segs := (mm_segs s)(a \<mapsto> m)\<rparr>"

definition put_pseg :: "nat \<Rightarrow> proc_segment \<Rightarrow> memory \<Rightarrow> memory" where
  "put_pseg a q s = s\<lparr>mm_psegs := (mm_psegs s)(a \<mapsto> q)\<rparr>"

definition put_proc :: "nat \<Rightarrow> proc_memory \<Rightarrow> memory \<Rightarrow> memory" where
  "put_proc a p s = s\<lparr>mm_procs := (mm_procs s)(a \<mapsto> p)\<rparr>"

subsection \<open>Memory segments\<close>

definition dealloc_list :: "u64 list \<Rightarrow> memory \<Rightarrow> memory result" where
  "dealloc_list ps s = on_pg (\<lambda>g. run_all (\<lambda>g p. bindr (mm_dealloc_page (pg_secs g) p) (\<lambda>ss. Inr (g\<lparr>pg_secs := ss\<rparr>))) g ps) s"

text \<open>The allocation loop: it stops at page number 0.\<close>

fun alloc_list :: "nat \<Rightarrow> section_mgr list \<Rightarrow> (u64 list \<times> bool \<times> section_mgr list) result" where
  "alloc_list 0 ss = Inr ([], True, ss)"
| "alloc_list (Suc n) ss = bindr (mm_alloc_page ss) (\<lambda>(p, ss). if p = 0 then Inr ([], False, ss)
     else bindr (alloc_list n ss) (\<lambda>(ps, ok, ss). Inr (p # ps, ok, ss)))"

definition seg_create :: "nat \<Rightarrow> u32 \<Rightarrow> bool \<Rightarrow> bool \<Rightarrow> memory \<Rightarrow> (nat option \<times> memory) result" where
  "seg_create n perms stack shared s = bindr (alloc_list n (pg_secs (mm_pg s))) (\<lambda>(ps, ok, ss).
     let s = s\<lparr>mm_pg := (mm_pg s)\<lparr>pg_secs := ss\<rparr>\<rparr> in
     if \<not> ok then bindr (dealloc_list ps s) (\<lambda>s. Inr (None, s))
     else Inr (Some (mm_next s), put_seg (mm_next s) \<lparr>sg_stack = stack, sg_shared = shared, sg_perms = perms, sg_psegs = [], sg_pages = ps\<rparr>
       (s\<lparr>mm_next := mm_next s + 1\<rparr>)))"

definition seg_delete :: "nat \<Rightarrow> memory \<Rightarrow> memory result" where
  "seg_delete a s = bindr (the_r (mm_segs s a)) (\<lambda>m. bindr (dealloc_list (sg_pages m) s) (\<lambda>s.
     Inr (s\<lparr>mm_segs := (mm_segs s)(a := None)\<rparr>)))"

definition copy_on_write :: "mem_segment \<Rightarrow> bool" where
  "copy_on_write m \<longleftrightarrow> length (sg_psegs m) > 1 \<and> \<not> sg_shared m \<and> sg_perms m AND PERM_WRITE \<noteq> 0"

definition perms_for_proc :: "mem_segment \<Rightarrow> u32" where
  "perms_for_proc m = (if copy_on_write m then sg_perms m AND NOT PERM_WRITE else sg_perms m)"

text \<open>\<open>copy\<close> maps the source pages from page \<open>0x100\<close> and the target pages behind them in a memory of its own
  and copies through it.\<close>

definition copy_page :: "kmap \<Rightarrow> nat \<Rightarrow> nat \<Rightarrow> nat \<Rightarrow> memory \<Rightarrow> memory result" where
  "copy_page k x n i s = bindr (vir_paddr_to_phy k x (0x100 + of_nat i) (mm_pg s)) (\<lambda>(src, g).
     bindr (vir_paddr_to_phy k x (0x100 + of_nat n + of_nat i) g) (\<lambda>(dst, g).
       if src = 0 \<or> dst = 0 then Inl Fault
       else Inr (s\<lparr>mm_pg := g, mm_data := (mm_data s)(dst := mm_data s src)\<rparr>)))"

definition seg_copy :: "kmap \<Rightarrow> nat \<Rightarrow> nat \<Rightarrow> memory \<Rightarrow> memory result" where
  "seg_copy k dst src s = bindr (vm_create k (mm_pg s)) (\<lambda>(x, g). bindr (the_r (mm_segs s dst)) (\<lambda>d. bindr (the_r (mm_segs s src)) (\<lambda>c.
     let n = min (length (sg_pages d)) (length (sg_pages c)) in
     bindr (run_all (\<lambda>g i. bindr (map_page k x (0x100 + of_nat i) (sg_pages c ! i) PERM_READ g) (\<lambda>(_, g). Inr g)) g [0..<n]) (\<lambda>g.
     bindr (run_all (\<lambda>g i. bindr (map_page k x (0x100 + of_nat n + of_nat i) (sg_pages d ! i) PERM_WRITE g) (\<lambda>(_, g). Inr g)) g [0..<n]) (\<lambda>g.
     bindr (run_all (\<lambda>s i. copy_page k x n i s) (s\<lparr>mm_pg := vm_use x g\<rparr>) [0..<n]) (\<lambda>s.
     bindr (the_r (pg_cur g)) (\<lambda>prev. on_pg (vm_destroy k x) (s\<lparr>mm_pg := vm_use prev (mm_pg s)\<rparr>))))))))"

definition seg_create_copy :: "kmap \<Rightarrow> nat \<Rightarrow> memory \<Rightarrow> (nat \<times> memory) result" where
  "seg_create_copy k a s = bindr (the_r (mm_segs s a)) (\<lambda>m.
     bindr (seg_create (length (sg_pages m)) (sg_perms m) (sg_stack m) (sg_shared m) s) (\<lambda>(r, s).
       bindr (the_r r) (\<lambda>b. bindr (seg_copy k b a s) (\<lambda>s. Inr (b, s)))))"

definition seg_set_page_count :: "nat \<Rightarrow> nat \<Rightarrow> memory \<Rightarrow> memory result" where
  "seg_set_page_count a n s = bindr (the_r (mm_segs s a)) (\<lambda>m. let old = length (sg_pages m) in
     if n = old then Inr s
     else if n < old then bindr (dealloc_list (rev (drop n (sg_pages m))) s) (\<lambda>s.
       Inr (put_seg a (m\<lparr>sg_pages := take n (sg_pages m)\<rparr>) s))
     else bindr (alloc_list (n - old) (pg_secs (mm_pg s))) (\<lambda>(ps, _, ss).
       Inr (put_seg a (m\<lparr>sg_pages := sg_pages m @ ps\<rparr>) (s\<lparr>mm_pg := (mm_pg s)\<lparr>pg_secs := ss\<rparr>\<rparr>))))"

definition seg_access_fault :: "nat \<Rightarrow> fault_type \<Rightarrow> memory \<Rightarrow> fault_action result" where
  "seg_access_fault a t s = bindr (the_r (mm_segs s a)) (\<lambda>m.
     if t \<noteq> ReadOnly then Inr Segfault else if \<not> copy_on_write m then Inr Segfault else Inl Panic)"

subsection \<open>Process segments\<close>

definition update_mapping :: "kmap \<Rightarrow> nat \<Rightarrow> memory \<Rightarrow> memory result" where
  "update_mapping k q s = bindr (the_r (mm_psegs s q)) (\<lambda>z. bindr (the_r (mm_procs s (pz_parent z))) (\<lambda>p.
     bindr (the_r (pz_mem z)) (\<lambda>a. bindr (the_r (mm_segs s a)) (\<lambda>m. let x = px_vmem p; b = pr_base (pz_range z) in
       on_pg (\<lambda>g. run_all (\<lambda>g i. if i < length (sg_pages m)
           then bindr (map_page k x (b + of_nat i) (sg_pages m ! i) (perms_for_proc m) g) (\<lambda>(_, g). Inr g)
           else unmap_page k x (b + of_nat i) g) g [0..<unat (pr_page_count (pz_range z))])
         (s\<lparr>mm_pg := vm_use x (mm_pg s)\<rparr>)))))"

definition update_all :: "kmap \<Rightarrow> nat \<Rightarrow> memory \<Rightarrow> memory result" where
  "update_all k a s = bindr (the_r (mm_segs s a)) (\<lambda>m. run_all (\<lambda>s q. update_mapping k q s) s (sg_psegs m))"

text \<open>\<open>process_map\<close> of a segment that no process has.\<close>

definition attach :: "kmap \<Rightarrow> nat \<Rightarrow> nat \<Rightarrow> memory \<Rightarrow> memory result" where
  "attach k a q s = bindr (the_r (mm_segs s a)) (\<lambda>m. let m' = m\<lparr>sg_psegs := sg_psegs m @ [q]\<rparr> in
     bindr (update_mapping k q (put_seg a m' s)) (\<lambda>s.
       if copy_on_write m' \<noteq> copy_on_write m then update_all k a s else Inr s))"

definition process_unmap :: "kmap \<Rightarrow> nat \<Rightarrow> nat \<Rightarrow> memory \<Rightarrow> memory result" where
  "process_unmap k a q s = bindr (the_r (mm_segs s a)) (\<lambda>m.
     if q \<notin> set (sg_psegs m) then Inr s else
     let m' = m\<lparr>sg_psegs := remove1 q (sg_psegs m)\<rparr>; s = put_seg a m' s in
     if copy_on_write m' \<noteq> copy_on_write m then update_all k a s else Inr s)"

text \<open>The part of \<open>set_segment\<close> and of the destructor that lets go of the segment.\<close>

definition leave_segment :: "kmap \<Rightarrow> nat \<Rightarrow> memory \<Rightarrow> memory result" where
  "leave_segment k q s = bindr (the_r (mm_psegs s q)) (\<lambda>z. case pz_mem z of None \<Rightarrow> Inr s
     | Some a \<Rightarrow> bindr (process_unmap k a q s) (\<lambda>s. bindr (the_r (mm_segs s a)) (\<lambda>m.
         if sg_psegs m = [] then seg_delete a s else Inr s)))"

definition point_to :: "nat \<Rightarrow> nat \<Rightarrow> memory \<Rightarrow> memory result" where
  "point_to q a s = bindr (the_r (mm_psegs s q)) (\<lambda>z. Inr (put_pseg q (z\<lparr>pz_mem := Some a\<rparr>) s))"

text \<open>A segment that is mapped already is copied, and the process segment set to the copy, whose list of
  process segments is empty.\<close>

definition process_map :: "kmap \<Rightarrow> nat \<Rightarrow> nat \<Rightarrow> memory \<Rightarrow> memory result" where
  "process_map k a q s = bindr (the_r (mm_segs s a)) (\<lambda>m. if sg_psegs m = [] then attach k a q s
     else bindr (seg_create_copy k a s) (\<lambda>(b, s). bindr (leave_segment k q s) (\<lambda>s. bindr (point_to q b s) (attach k b q))))"

definition set_segment :: "kmap \<Rightarrow> nat \<Rightarrow> nat \<Rightarrow> memory \<Rightarrow> memory result" where
  "set_segment k q a s = bindr (leave_segment k q s) (\<lambda>s. bindr (point_to q a s) (process_map k a q))"

definition pseg_new :: "kmap \<Rightarrow> nat \<Rightarrow> nat \<Rightarrow> page_range \<Rightarrow> memory \<Rightarrow> (nat \<times> memory) result" where
  "pseg_new k parent a r s = (let q = mm_next s in
     bindr (set_segment k q a (put_pseg q \<lparr>pz_mem = None, pz_parent = parent, pz_range = r\<rparr> (s\<lparr>mm_next := q + 1\<rparr>)))
       (\<lambda>s. Inr (q, s)))"

definition pseg_delete :: "kmap \<Rightarrow> nat \<Rightarrow> memory \<Rightarrow> memory result" where
  "pseg_delete k q s = bindr (leave_segment k q s) (\<lambda>s. Inr (s\<lparr>mm_psegs := (mm_psegs s)(q := None)\<rparr>))"

text \<open>The loop for a smaller size counts down from \<open>new_size\<close> while the index is at least \<open>old_size\<close>.\<close>

definition pseg_resize :: "kmap \<Rightarrow> nat \<Rightarrow> nat \<Rightarrow> memory \<Rightarrow> memory result" where
  "pseg_resize k q new_size s = bindr (the_r (mm_psegs s q)) (\<lambda>z. bindr (the_r (mm_procs s (pz_parent z))) (\<lambda>p.
     bindr (the_r (pz_mem z)) (\<lambda>a. bindr (the_r (mm_segs s a)) (\<lambda>m.
       let old_size = unat (ucast (pr_page_count (pz_range z)) :: usize); x = px_vmem p; b = pr_base (pz_range z) in
       bindr (on_pg (\<lambda>g. if new_size < old_size
           then run_all (\<lambda>g i. unmap_page k x (b + of_nat i) g) g (takeWhile (\<lambda>i. old_size \<le> i) (rev [0..<Suc new_size]))
           else run_all (\<lambda>g i. if i < length (sg_pages m)
             then bindr (map_page k x (b + of_nat i) (sg_pages m ! i) (perms_for_proc m) g) (\<lambda>(_, g). Inr g)
             else unmap_page k x (b + of_nat i) g) g [old_size..<new_size]) s) (\<lambda>s.
       Inr (put_pseg q (z\<lparr>pz_range := (pz_range z)\<lparr>pr_limit := b + of_nat new_size\<rparr>\<rparr>) s))))))"

subsection \<open>Process memories\<close>

definition proc_new :: "kmap \<Rightarrow> memory \<Rightarrow> (nat \<times> memory) result" where
  "proc_new k s = bindr (vm_create k (mm_pg s)) (\<lambda>(x, g). let p = mm_next s in
     Inr (p, put_proc p \<lparr>px_vmem = x, px_heap = None, px_segments = []\<rparr> (s\<lparr>mm_pg := g, mm_next := p + 1\<rparr>)))"

fun any_overlap :: "page_range \<Rightarrow> nat list \<Rightarrow> memory \<Rightarrow> bool result" where
  "any_overlap r [] s = Inr False"
| "any_overlap r (q # qs) s = bindr (the_r (mm_psegs s q)) (\<lambda>z. if pr_overlaps (pz_range z) r then Inr True else any_overlap r qs s)"

definition map_segment :: "kmap \<Rightarrow> nat \<Rightarrow> nat \<Rightarrow> page_range \<Rightarrow> memory \<Rightarrow> (nat option \<times> memory) result" where
  "map_segment k pa a r s = bindr (the_r (mm_procs s pa)) (\<lambda>p. bindr (any_overlap r (px_segments p) s) (\<lambda>hit.
     if hit then Inr (None, s)
     else bindr (pseg_new k pa a r s) (\<lambda>(q, s). bindr (the_r (mm_procs s pa)) (\<lambda>p.
       Inr (Some q, put_proc pa (p\<lparr>px_segments := px_segments p @ [q]\<rparr>) s)))))"

definition unmap_segment :: "kmap \<Rightarrow> nat \<Rightarrow> nat \<Rightarrow> memory \<Rightarrow> memory result" where
  "unmap_segment k pa q s = bindr (the_r (mm_procs s pa)) (\<lambda>p. if q \<notin> set (px_segments p) then Inr s else
     bindr (the_r (mm_psegs s q)) (\<lambda>z.
       bindr (on_pg (\<lambda>g. run_all (\<lambda>g i. unmap_page k (px_vmem p) (of_nat i) g) g
           [unat (pr_base (pz_range z))..<unat (pr_limit (pz_range z))]) s) (\<lambda>s.
       pseg_delete k q (put_proc pa (p\<lparr>px_segments := remove1 q (px_segments p)\<rparr>) s))))"

definition unmap_all :: "kmap \<Rightarrow> nat \<Rightarrow> memory \<Rightarrow> memory result" where
  "unmap_all k pa s = bindr (the_r (mm_procs s pa)) (\<lambda>p. run_all (\<lambda>s q. unmap_segment k pa q s) s (px_segments p))"

fun find_base :: "u64 \<Rightarrow> nat list \<Rightarrow> memory \<Rightarrow> nat option result" where
  "find_base b [] s = Inr None"
| "find_base b (q # qs) s = bindr (the_r (mm_psegs s q)) (\<lambda>z. if pr_base (pz_range z) = b then Inr (Some q) else find_base b qs s)"

definition get_segment_at :: "nat \<Rightarrow> u64 \<Rightarrow> memory \<Rightarrow> nat option result" where
  "get_segment_at pa b s = bindr (the_r (mm_procs s pa)) (\<lambda>p. find_base b (px_segments p) s)"

text \<open>The constructor has created a virtual memory already; \<open>fork\<close> creates another.\<close>

definition fork_segment :: "kmap \<Rightarrow> nat \<Rightarrow> nat option \<Rightarrow> memory \<Rightarrow> nat \<Rightarrow> memory result" where
  "fork_segment k dst heap s q = bindr (the_r (mm_psegs s q)) (\<lambda>z. bindr (the_r (pz_mem z)) (\<lambda>a.
     bindr (map_segment k dst a (pz_range z) s) (\<lambda>(r, s). bindr (the_r (mm_procs s dst)) (\<lambda>d.
       Inr (if Some q = heap then put_proc dst (d\<lparr>px_heap := r\<rparr>) s else s)))))"

definition proc_fork :: "kmap \<Rightarrow> nat \<Rightarrow> memory \<Rightarrow> (nat \<times> memory) result" where
  "proc_fork k pa s = bindr (the_r (mm_procs s pa)) (\<lambda>p. bindr (proc_new k s) (\<lambda>(dst, s).
     bindr (vm_create k (mm_pg s)) (\<lambda>(x, g). bindr (the_r (mm_procs s dst)) (\<lambda>d.
       bindr (run_all (fork_segment k dst (px_heap p)) (put_proc dst (d\<lparr>px_vmem := x\<rparr>) (s\<lparr>mm_pg := g\<rparr>)) (px_segments p)) (\<lambda>s.
         Inr (dst, s))))))"

definition proc_delete :: "kmap \<Rightarrow> nat \<Rightarrow> memory \<Rightarrow> memory result" where
  "proc_delete k pa s = bindr (the_r (mm_procs s pa)) (\<lambda>p. bindr (run_all (\<lambda>s q. pseg_delete k q s) s (px_segments p)) (\<lambda>s.
     bindr (on_pg (vm_destroy k (px_vmem p)) s) (\<lambda>s. Inr (s\<lparr>mm_procs := (mm_procs s)(pa := None)\<rparr>))))"

fun fault_in :: "fault_type \<Rightarrow> usize \<Rightarrow> nat list \<Rightarrow> memory \<Rightarrow> fault_action result" where
  "fault_in t addr [] s = Inr Segfault"
| "fault_in t addr (q # qs) s = bindr (the_r (mm_psegs s q)) (\<lambda>z. if pr_ptr_in_range (pz_range z) (ucast addr)
     then bindr (the_r (pz_mem z)) (\<lambda>a. seg_access_fault a t s) else fault_in t addr qs s)"

definition proc_access_fault :: "nat \<Rightarrow> fault_type \<Rightarrow> usize \<Rightarrow> memory \<Rightarrow> fault_action result" where
  "proc_access_fault pa t addr s = bindr (the_r (mm_procs s pa)) (\<lambda>p. fault_in t addr (px_segments p) s)"

text \<open>The heap of a process after \<open>set_brk\<close> has computed its page count (\<open>process.cpp\<close>).\<close>

definition resize_proc_heap :: "kmap \<Rightarrow> nat \<Rightarrow> nat \<Rightarrow> memory \<Rightarrow> memory result" where
  "resize_proc_heap k pa n s = bindr (the_r (mm_procs s pa)) (\<lambda>p. bindr (the_r (px_heap p)) (\<lambda>q.
     bindr (the_r (mm_psegs s q)) (\<lambda>z. bindr (the_r (pz_mem z)) (\<lambda>a.
       bindr (seg_set_page_count a n s) (pseg_resize k q n)))))"

subsection \<open>A segment is mapped once\<close>

definition seg_single :: "memory \<Rightarrow> bool" where
  "seg_single s \<longleftrightarrow> (\<forall>a m. mm_segs s a = Some m \<longrightarrow> length (sg_psegs m) \<le> 1)"

lemma seg_single_simps [simp]:
  "seg_single (s\<lparr>mm_next := n\<rparr>) = seg_single s" "seg_single (s\<lparr>mm_pg := g\<rparr>) = seg_single s"
  "seg_single (s\<lparr>mm_psegs := f\<rparr>) = seg_single s" "seg_single (put_pseg q z s) = seg_single s" "seg_single (put_proc pa p s) = seg_single s"
  by (simp_all add: seg_single_def put_pseg_def put_proc_def)

text \<open>No segment has come up, and none has more process segments than before.\<close>

definition segs_shrink :: "memory \<Rightarrow> memory \<Rightarrow> bool" where
  "segs_shrink s s' \<longleftrightarrow> (\<forall>a m'. mm_segs s' a = Some m' \<longrightarrow> (\<exists>m. mm_segs s a = Some m \<and> length (sg_psegs m') \<le> length (sg_psegs m)))"

lemma segs_shrink_refl: "mm_segs s' = mm_segs s \<Longrightarrow> segs_shrink s s'"
  by (simp add: segs_shrink_def)

lemma segs_shrink_trans: "segs_shrink r s \<Longrightarrow> segs_shrink s t \<Longrightarrow> segs_shrink r t"
  unfolding segs_shrink_def by (meson order_trans)

lemma segs_shrink_single: "segs_shrink s s' \<Longrightarrow> seg_single s \<Longrightarrow> seg_single s'"
  unfolding segs_shrink_def seg_single_def by (meson order_trans)

lemma segs_shrink_empty: "segs_shrink s s' \<Longrightarrow> mm_segs s a = Some m \<Longrightarrow> sg_psegs m = [] \<Longrightarrow> mm_segs s' a = Some m' \<Longrightarrow> sg_psegs m' = []"
  unfolding segs_shrink_def by fastforce

lemma run_all_keeps:
  assumes "\<And>s t x. x \<in> set xs \<Longrightarrow> P s \<Longrightarrow> f s x = Inr t \<Longrightarrow> P t"
  shows "run_all f s xs = Inr t \<Longrightarrow> P s \<Longrightarrow> P t"
  using assms by (induction xs arbitrary: s) (auto simp: bindr_Inr_iff)

lemma on_pg_segs: "on_pg f s = Inr s' \<Longrightarrow> mm_segs s' = mm_segs s \<and> mm_psegs s' = mm_psegs s \<and> mm_procs s' = mm_procs s \<and> mm_next s' = mm_next s"
  by (auto simp: on_pg_def bindr_Inr_iff)

lemma dealloc_list_segs: "dealloc_list ps s = Inr s' \<Longrightarrow> mm_segs s' = mm_segs s \<and> mm_psegs s' = mm_psegs s \<and> mm_procs s' = mm_procs s \<and> mm_next s' = mm_next s"
  unfolding dealloc_list_def using on_pg_segs by blast

lemma update_mapping_segs:
  "update_mapping k q s = Inr s' \<Longrightarrow> mm_segs s' = mm_segs s \<and> mm_psegs s' = mm_psegs s \<and> mm_procs s' = mm_procs s \<and> mm_next s' = mm_next s"
  by (auto simp: update_mapping_def bindr_Inr_iff Let_def dest!: on_pg_segs)

lemma update_all_segs:
  assumes "update_all k a s = Inr s'"
  shows "mm_segs s' = mm_segs s \<and> mm_psegs s' = mm_psegs s \<and> mm_procs s' = mm_procs s \<and> mm_next s' = mm_next s"
proof -
  obtain m :: mem_segment where "run_all (\<lambda>s q. update_mapping k q s) s (sg_psegs m) = Inr s'" using assms unfolding update_all_def bindr_Inr_iff by blast
  then show ?thesis
    by (rule run_all_keeps [where P = "\<lambda>t. mm_segs t = mm_segs s \<and> mm_psegs t = mm_psegs s \<and> mm_procs t = mm_procs s \<and> mm_next t = mm_next s", rotated])
      (auto dest: update_mapping_segs)
qed

lemma process_unmap_shrink:
  assumes "process_unmap k a q s = Inr s'"
  shows "segs_shrink s s'"
proof -
  obtain m where m: "mm_segs s a = Some m" using assms by (auto simp: process_unmap_def bindr_Inr_iff the_r_Inr)
  have "mm_segs s' = mm_segs s \<or> mm_segs s' = (mm_segs s)(a \<mapsto> m\<lparr>sg_psegs := remove1 q (sg_psegs m)\<rparr>)"
    using assms m by (auto simp: process_unmap_def bindr_Inr_iff Let_def put_seg_def split: if_splits dest!: update_all_segs)
  then show ?thesis using m by (auto simp: segs_shrink_def length_remove1 split: if_splits)
qed

lemma seg_delete_shrink: "seg_delete a s = Inr s' \<Longrightarrow> segs_shrink s s'"
  by (auto simp: seg_delete_def bindr_Inr_iff segs_shrink_def split: if_splits dest!: dealloc_list_segs)

lemma leave_segment_shrink: "leave_segment k q s = Inr s' \<Longrightarrow> segs_shrink s s'"
  by (auto simp: leave_segment_def bindr_Inr_iff segs_shrink_refl split: option.splits if_splits
    dest!: process_unmap_shrink seg_delete_shrink intro: segs_shrink_trans)

lemma point_to_segs: "point_to q a s = Inr s' \<Longrightarrow> mm_segs s' = mm_segs s"
  by (auto simp: point_to_def bindr_Inr_iff put_pseg_def)

lemma attach_single:
  assumes "attach k a q s = Inr s'" "seg_single s" "\<And>m. mm_segs s a = Some m \<Longrightarrow> sg_psegs m = []"
  shows "seg_single s'"
proof -
  obtain m where m: "mm_segs s a = Some m" using assms(1) by (auto simp: attach_def bindr_Inr_iff the_r_Inr)
  have "mm_segs s' = (mm_segs s)(a \<mapsto> m\<lparr>sg_psegs := [q]\<rparr>)"
    using assms(1) m assms(3) [OF m]
    by (auto simp: attach_def bindr_Inr_iff Let_def put_seg_def split: if_splits dest!: update_mapping_segs update_all_segs)
  then show ?thesis using assms(2) by (simp add: seg_single_def)
qed

lemma copy_pages_segs: "run_all (\<lambda>s i. copy_page k x n i s) s is = Inr s' \<Longrightarrow> mm_segs s' = mm_segs s"
  by (rule run_all_keeps [where P = "\<lambda>t. mm_segs t = mm_segs s", rotated])
    (auto simp: copy_page_def bindr_Inr_iff split: if_splits)

lemma seg_copy_segs: "seg_copy k b a s = Inr s' \<Longrightarrow> mm_segs s' = mm_segs s"
  by (auto simp: seg_copy_def bindr_Inr_iff Let_def dest!: copy_pages_segs on_pg_segs)

lemma seg_create_segs:
  "seg_create n perms st sh s = Inr (r, s') \<Longrightarrow> (r = None \<and> mm_segs s' = mm_segs s)
    \<or> (\<exists>b ps. r = Some b \<and> mm_segs s' = (mm_segs s)(b \<mapsto> \<lparr>sg_stack = st, sg_shared = sh, sg_perms = perms, sg_psegs = [], sg_pages = ps\<rparr>))"
  by (auto simp: seg_create_def bindr_Inr_iff Let_def put_seg_def split: if_splits dest!: dealloc_list_segs)

lemma seg_create_copy_segs:
  "seg_create_copy k a s = Inr (b, s') \<Longrightarrow> \<exists>m. mm_segs s' = (mm_segs s)(b \<mapsto> m) \<and> sg_psegs m = []"
  by (auto simp: seg_create_copy_def bindr_Inr_iff the_r_Inr dest!: seg_create_segs seg_copy_segs)

lemma process_map_single:
  assumes "process_map k a q s = Inr s'" "seg_single s"
  shows "seg_single s'"
proof -
  obtain m where m: "mm_segs s a = Some m" using assms(1) by (auto simp: process_map_def bindr_Inr_iff the_r_Inr)
  show ?thesis
  proof (cases "sg_psegs m = []")
    case True
    then have "attach k a q s = Inr s'" using assms(1) m by (simp add: process_map_def)
    then show ?thesis by (rule attach_single [OF _ assms(2)]) (use m True in simp)
  next
    case False
    then obtain b s1 s2 s3 where st: "seg_create_copy k a s = Inr (b, s1)" "leave_segment k q s1 = Inr s2"
        "point_to q b s2 = Inr s3" "attach k b q s3 = Inr s'"
      using assms(1) m by (auto simp: process_map_def bindr_Inr_iff)
    obtain n where n: "mm_segs s1 = (mm_segs s)(b \<mapsto> n)" "sg_psegs n = []" using seg_create_copy_segs [OF st(1)] by blast
    have "seg_single s1" using assms(2) n by (simp add: seg_single_def)
    then have "seg_single s2" using leave_segment_shrink [OF st(2)] segs_shrink_single by blast
    moreover have "sg_psegs l = []" if "mm_segs s2 b = Some l" for l
      using segs_shrink_empty [OF leave_segment_shrink [OF st(2)] _ n(2) that] n(1) by simp
    ultimately show ?thesis using attach_single [OF st(4)] point_to_segs [OF st(3)] by (simp add: seg_single_def)
  qed
qed

lemma set_segment_single:
  assumes "set_segment k q a s = Inr s'" "seg_single s"
  shows "seg_single s'"
proof -
  obtain s1 s2 where st: "leave_segment k q s = Inr s1" "point_to q a s1 = Inr s2" "process_map k a q s2 = Inr s'"
    using assms(1) unfolding set_segment_def bindr_Inr_iff by blast
  have "seg_single s1" using leave_segment_shrink [OF st(1)] assms(2) by (rule segs_shrink_single)
  then have "seg_single s2" using point_to_segs [OF st(2)] by (simp add: seg_single_def)
  then show ?thesis by (rule process_map_single [OF st(3)])
qed

lemma pseg_delete_shrink: "pseg_delete k q s = Inr s' \<Longrightarrow> segs_shrink s s'"
  by (auto simp: pseg_delete_def bindr_Inr_iff segs_shrink_def dest!: leave_segment_shrink)

lemma pseg_new_single: "pseg_new k pa a r s = Inr (q, s') \<Longrightarrow> seg_single s \<Longrightarrow> seg_single s'"
  by (auto simp: pseg_new_def bindr_Inr_iff Let_def dest: set_segment_single)

text \<open>What the rest of the kernel asks of process memories.\<close>

datatype mem_op = CreateSeg nat u32 bool bool | NewProc | MapSeg nat nat page_range | UnmapSeg nat nat | UnmapAll nat
  | ForkProc nat | DeleteProc nat | ResizeHeap nat nat

definition mem_do :: "kmap \<Rightarrow> memory \<Rightarrow> mem_op \<Rightarrow> memory result" where
  "mem_do k s op = (case op of
     CreateSeg n perms st sh \<Rightarrow> bindr (seg_create n perms st sh s) (\<lambda>(_, s). Inr s)
   | NewProc \<Rightarrow> bindr (proc_new k s) (\<lambda>(_, s). Inr s)
   | MapSeg pa a r \<Rightarrow> bindr (map_segment k pa a r s) (\<lambda>(_, s). Inr s)
   | UnmapSeg pa q \<Rightarrow> unmap_segment k pa q s
   | UnmapAll pa \<Rightarrow> unmap_all k pa s
   | ForkProc pa \<Rightarrow> bindr (proc_fork k pa s) (\<lambda>(_, s). Inr s)
   | DeleteProc pa \<Rightarrow> proc_delete k pa s
   | ResizeHeap pa n \<Rightarrow> resize_proc_heap k pa n s)"

lemma map_segment_single: "map_segment k pa a r s = Inr (z, s') \<Longrightarrow> seg_single s \<Longrightarrow> seg_single s'"
  by (auto simp: map_segment_def bindr_Inr_iff split: if_splits dest: pseg_new_single)

lemma unmap_segment_shrink: "unmap_segment k pa q s = Inr s' \<Longrightarrow> segs_shrink s s'"
  by (auto simp: unmap_segment_def bindr_Inr_iff put_proc_def segs_shrink_def split: if_splits
    dest!: pseg_delete_shrink on_pg_segs)

lemma unmap_all_single: "unmap_all k pa s = Inr s' \<Longrightarrow> seg_single s \<Longrightarrow> seg_single s'"
  by (auto simp: unmap_all_def bindr_Inr_iff dest!: run_all_keeps [where P = seg_single, rotated] dest: unmap_segment_shrink segs_shrink_single)

lemma fork_segment_single: "fork_segment k dst h s q = Inr s' \<Longrightarrow> seg_single s \<Longrightarrow> seg_single s'"
  by (auto simp: fork_segment_def bindr_Inr_iff split: if_splits dest: map_segment_single)

lemma proc_new_segs: "proc_new k s = Inr (p, s') \<Longrightarrow> mm_segs s' = mm_segs s"
  by (auto simp: proc_new_def bindr_Inr_iff Let_def put_proc_def)

lemma proc_fork_single:
  assumes "proc_fork k pa s = Inr (dst, s')" "seg_single s"
  shows "seg_single s'"
proof -
  obtain p s1 x g and d :: proc_memory where st: "proc_new k s = Inr (dst, s1)"
    "run_all (fork_segment k dst (px_heap p)) (put_proc dst (d\<lparr>px_vmem := x\<rparr>) (s1\<lparr>mm_pg := g\<rparr>)) (px_segments (p :: proc_memory)) = Inr s'"
    using assms(1) by (auto simp: proc_fork_def bindr_Inr_iff)
  have "seg_single s1" using assms(2) proc_new_segs [OF st(1)] by (simp add: seg_single_def)
  then show ?thesis using run_all_keeps [where P = seg_single, OF _ st(2)] fork_segment_single by auto
qed

lemma proc_delete_single: "proc_delete k pa s = Inr s' \<Longrightarrow> seg_single s \<Longrightarrow> seg_single s'"
proof -
  assume a: "proc_delete k pa s = Inr s'" "seg_single s"
  then obtain p s1 where st: "run_all (\<lambda>s q. pseg_delete k q s) s (px_segments (p :: proc_memory)) = Inr s1" "mm_segs s' = mm_segs s1"
    by (auto simp: proc_delete_def bindr_Inr_iff dest!: on_pg_segs)
  have "seg_single s1" using run_all_keeps [where P = seg_single, OF _ st(1)] pseg_delete_shrink segs_shrink_single a(2) by blast
  then show ?thesis using st(2) by (simp add: seg_single_def)
qed

lemma seg_set_page_count_shrink: "seg_set_page_count a n s = Inr s' \<Longrightarrow> segs_shrink s s'"
  by (auto simp: seg_set_page_count_def bindr_Inr_iff Let_def the_r_Inr put_seg_def segs_shrink_def split: if_splits dest!: dealloc_list_segs)

lemma pseg_resize_segs: "pseg_resize k q n s = Inr s' \<Longrightarrow> mm_segs s' = mm_segs s"
  by (auto simp: pseg_resize_def bindr_Inr_iff Let_def put_pseg_def dest!: on_pg_segs)

lemma resize_proc_heap_single: "resize_proc_heap k pa n s = Inr s' \<Longrightarrow> seg_single s \<Longrightarrow> seg_single s'"
  by (auto simp: resize_proc_heap_def bindr_Inr_iff dest!: pseg_resize_segs seg_set_page_count_shrink)
    (auto simp: seg_single_def dest: segs_shrink_single [unfolded seg_single_def])

lemma seg_create_single: "seg_create n perms st sh s = Inr (r, s') \<Longrightarrow> seg_single s \<Longrightarrow> seg_single s'"
  by (drule seg_create_segs) (auto simp: seg_single_def split: if_splits)

lemma proc_new_single: "proc_new k s = Inr (p, s') \<Longrightarrow> seg_single s \<Longrightarrow> seg_single s'"
  by (drule proc_new_segs) (simp add: seg_single_def)

lemma seg_singleD: "seg_single s \<Longrightarrow> mm_segs s a = Some m \<Longrightarrow> length (sg_psegs m) \<le> 1 \<and> \<not> copy_on_write m"
  unfolding seg_single_def copy_on_write_def by (meson not_le)

lemma mem_do_single: "mem_do k s op = Inr s' \<Longrightarrow> seg_single s \<Longrightarrow> seg_single s'"
  by (cases op) (auto simp: mem_do_def bindr_Inr_iff intro: seg_create_single map_segment_single unmap_all_single proc_fork_single
    proc_delete_single resize_proc_heap_single proc_new_single dest: unmap_segment_shrink segs_shrink_single)

lemma fault_in_outcome: "seg_single s \<Longrightarrow> fault_in t addr qs s \<in> {Inr Segfault, Inl Fault}"
proof (induction qs)
  case (Cons q qs)
  have "seg_access_fault a t s \<in> {Inr Segfault, Inl Fault}" for a
    using Cons.prems seg_singleD by (cases "mm_segs s a") (auto simp: seg_access_fault_def)
  then show ?case using Cons by (cases "mm_psegs s q") (auto simp: bindr_def the_r_def split: option.splits)
qed simp

text \<open>Whatever the kernel has done with process memories since boot, a memory segment belongs to at most one process
  segment, even one made to be shared and one of a forked process, so that no fault is ever handled by copying on
  write: an access fault of a process ends in a segmentation fault.\<close>

theorem segments_are_never_shared:
  assumes "mm_segs s = (\<lambda>_. None)" "run_all (mem_do k) s ops = Inr s'"
  shows "(\<forall>a m. mm_segs s' a = Some m \<longrightarrow> length (sg_psegs m) \<le> 1 \<and> \<not> copy_on_write m \<and> perms_for_proc m = sg_perms m)
    \<and> (mm_procs s' pa \<noteq> None \<longrightarrow> proc_access_fault pa t addr s' \<in> {Inr Segfault, Inl Fault})"
proof -
  have "seg_single s" using assms(1) by (simp add: seg_single_def)
  then have single: "seg_single s'" using run_all_keeps [where P = seg_single, OF _ assms(2)] mem_do_single by blast
  then have "length (sg_psegs m) \<le> 1 \<and> \<not> copy_on_write m \<and> perms_for_proc m = sg_perms m" if "mm_segs s' a = Some m" for a m
    using seg_singleD [OF single that] by (simp add: perms_for_proc_def)
  moreover have "proc_access_fault pa t addr s' \<in> {Inr Segfault, Inl Fault}" if "mm_procs s' pa = Some p" for p
    using fault_in_outcome [OF single] that by (simp add: proc_access_fault_def)
  ultimately show ?thesis by blast
qed

definition demo_memory :: memory where
  "demo_memory = \<lparr>mm_pg = demo_paging, mm_data = \<lambda>_. [], mm_segs = \<lambda>_. None, mm_psegs = \<lambda>_. None, mm_procs = \<lambda>_. None, mm_next = 1\<rparr>"

definition demo_ops :: "mem_op list" where
  "demo_ops = [CreateSeg 1 3 False True, NewProc, MapSeg 2 1 (pr_base_limit 5 6)]"

lemma demo_ops_run: "case run_all (mem_do demo_kmap) demo_memory demo_ops of Inl _ \<Rightarrow> False
    | Inr s' \<Rightarrow> (case mm_procs s' 2 of None \<Rightarrow> False | Some p \<Rightarrow> px_segments p = [3])"
  by code_simp

theorem segments_are_never_shared_witness:
  "\<exists>s' p. run_all (mem_do demo_kmap) demo_memory demo_ops = Inr s' \<and> mm_procs s' 2 = Some p \<and> px_segments p = [3]
    \<and> proc_access_fault 2 ReadOnly 0x5000 s' \<in> {Inr Segfault, Inl Fault}"
proof -
  obtain s' p where s': "run_all (mem_do demo_kmap) demo_memory demo_ops = Inr s'" "mm_procs s' 2 = Some p" "px_segments p = [3]"
    using demo_ops_run by (auto split: sum.splits option.splits)
  have "mm_segs demo_memory = (\<lambda>_. None)" by (simp add: demo_memory_def)
  from segments_are_never_shared [OF this s'(1), of 2 ReadOnly "0x5000"] s' show ?thesis by blast
qed

subsection \<open>Shrinking the heap\<close>

lemma shrink_loop_empty: "n < old \<Longrightarrow> takeWhile (\<lambda>i. old \<le> i) (rev [0..<Suc n]) = []"
  by simp

definition dealloc_all :: "u64 list \<Rightarrow> section_mgr list \<Rightarrow> section_mgr list result" where
  "dealloc_all ps ss = run_all mm_dealloc_page ss ps"

lemma dealloc_list_eq:
  "dealloc_list ps s = Inr s' \<Longrightarrow> \<exists>ss. dealloc_all ps (pg_secs (mm_pg s)) = Inr ss \<and> s' = s\<lparr>mm_pg := (mm_pg s)\<lparr>pg_secs := ss\<rparr>\<rparr>"
proof -
  have "run_all (\<lambda>g p. bindr (mm_dealloc_page (pg_secs g) p) (\<lambda>ss. Inr (g\<lparr>pg_secs := ss\<rparr>))) g ps = Inr g'
    \<Longrightarrow> \<exists>ss. run_all mm_dealloc_page (pg_secs g) ps = Inr ss \<and> g' = g\<lparr>pg_secs := ss\<rparr>" for g g'
  proof (induction ps arbitrary: g)
    case (Cons p ps)
    then show ?case by (fastforce simp: bindr_Inr_iff)
  qed simp
  then show "dealloc_list ps s = Inr s' \<Longrightarrow> \<exists>ss. dealloc_all ps (pg_secs (mm_pg s)) = Inr ss \<and> s' = s\<lparr>mm_pg := (mm_pg s)\<lparr>pg_secs := ss\<rparr>\<rparr>"
    by (fastforce simp: dealloc_list_def on_pg_def bindr_Inr_iff dealloc_all_def)
qed

text \<open>When a process lowers its heap limit the pages behind it go back to the allocator, but no page of any address
  space is unmapped: the process still reaches the freed pages.\<close>

theorem heap_shrink_keeps_pages_mapped:
  assumes heap: "mm_procs s pa = Some p" "px_heap p = Some q" "mm_psegs s q = Some z" "pz_mem z = Some a" "mm_segs s a = Some m"
      "pz_parent z = pa"
    and range: "unat (ucast (pr_page_count (pz_range z)) :: usize) = length (sg_pages m)"
    and less: "n < length (sg_pages m)" and run: "resize_proc_heap k pa n s = Inr s'"
  shows "mm_segs s' a = Some (m\<lparr>sg_pages := take n (sg_pages m)\<rparr>)
    \<and> dealloc_all (rev (drop n (sg_pages m))) (pg_secs (mm_pg s)) = Inr (pg_secs (mm_pg s'))
    \<and> (\<forall>x v. trans (mm_pg s') x v = trans (mm_pg s) x v)
    \<and> map_option pz_range (mm_psegs s' q) = Some (pr_base_count (pr_base (pz_range z)) (of_nat n))"
proof -
  obtain s1 where s1: "seg_set_page_count a n s = Inr s1" "pseg_resize k q n s1 = Inr s'"
    using run heap by (auto simp: resize_proc_heap_def bindr_Inr_iff)
  obtain ss where ss: "dealloc_all (rev (drop n (sg_pages m))) (pg_secs (mm_pg s)) = Inr ss"
    "s1 = put_seg a (m\<lparr>sg_pages := take n (sg_pages m)\<rparr>) (s\<lparr>mm_pg := (mm_pg s)\<lparr>pg_secs := ss\<rparr>\<rparr>)"
    using s1(1) heap(5) less by (auto simp: seg_set_page_count_def bindr_Inr_iff Let_def dest!: dealloc_list_eq)
  have sel: "mm_procs s1 = mm_procs s" "mm_psegs s1 = mm_psegs s" "mm_segs s1 a = Some (m\<lparr>sg_pages := take n (sg_pages m)\<rparr>)"
    by (simp_all add: ss(2) put_seg_def)
  have "pseg_resize k q n s1 = Inr (put_pseg q (z\<lparr>pz_range := (pz_range z)\<lparr>pr_limit := pr_base (pz_range z) + of_nat n\<rparr>\<rparr>) s1)"
    using heap range less shrink_loop_empty [OF less] sel
    by (simp add: pseg_resize_def on_pg_def Let_def del: upt_Suc)
  then have s': "s' = put_pseg q (z\<lparr>pz_range := (pz_range z)\<lparr>pr_limit := pr_base (pz_range z) + of_nat n\<rparr>\<rparr>) s1" using s1(2) by simp
  then have pg: "mm_pg s' = (mm_pg s)\<lparr>pg_secs := ss\<rparr>" by (simp add: put_pseg_def ss(2) put_seg_def)
  have "trans (mm_pg s') x v = trans (mm_pg s) x v" for x v
    by (simp add: pg trans_def slot_tab_def slot_dir_def vm_of_def)
  then show ?thesis using ss(1) by (simp add: pg s' put_pseg_def ss(2) put_seg_def pr_base_count_def)
qed

text \<open>A process whose heap has two pages, which it gives back down to one.\<close>

definition demo_heap :: memory where
  "demo_heap = demo_memory\<lparr>mm_next := 20, mm_segs := [7 \<mapsto> \<lparr>sg_stack = False, sg_shared = False, sg_perms = 3, sg_psegs = [8], sg_pages = [4, 5]\<rparr>],
     mm_psegs := [8 \<mapsto> \<lparr>pz_mem = Some 7, pz_parent = 9, pz_range = pr_base_limit 0x400 0x402\<rparr>],
     mm_procs := [9 \<mapsto> \<lparr>px_vmem = 2, px_heap = Some 8, px_segments = [8]\<rparr>]\<rparr>"

theorem heap_shrink_keeps_pages_mapped_witness:
  "\<exists>s'. resize_proc_heap demo_kmap 9 1 demo_heap = Inr s' \<and> trans (mm_pg s') 2 0x401 = trans (mm_pg demo_heap) 2 0x401
    \<and> dealloc_all [5] (pg_secs demo_paging) = Inr (pg_secs (mm_pg s'))"
proof -
  have ok: "returns (resize_proc_heap demo_kmap 9 1 demo_heap)" by code_simp
  then obtain s' where s': "resize_proc_heap demo_kmap 9 1 demo_heap = Inr s'" by (auto simp: returns_iff)
  have h: "mm_procs demo_heap 9 = Some \<lparr>px_vmem = 2, px_heap = Some 8, px_segments = [8]\<rparr>"
    "mm_psegs demo_heap 8 = Some \<lparr>pz_mem = Some 7, pz_parent = 9, pz_range = pr_base_limit 0x400 0x402\<rparr>"
    "mm_segs demo_heap 7 = Some \<lparr>sg_stack = False, sg_shared = False, sg_perms = 3, sg_psegs = [8], sg_pages = [4, 5]\<rparr>"
    by (simp_all add: demo_heap_def)
  have "pg_secs (mm_pg demo_heap) = pg_secs demo_paging" by (simp add: demo_heap_def demo_memory_def)
  with heap_shrink_keeps_pages_mapped [OF h(1) _ h(2) _ h(3) _ _ _ s'] s' show ?thesis
    by (simp add: pr_page_count_def pr_base_limit_def)
qed

subsection \<open>The segments of a process do not overlap\<close>

definition range_of :: "memory \<Rightarrow> nat \<Rightarrow> page_range option" where
  "range_of s q = map_option pz_range (mm_psegs s q)"

definition apart :: "nat \<Rightarrow> memory \<Rightarrow> bool" where
  "apart pa s \<longleftrightarrow> (\<forall>p. mm_procs s pa = Some p \<longrightarrow> (\<forall>q \<in> set (px_segments p). q < mm_next s \<and> range_of s q \<noteq> None)
     \<and> sorted_wrt (\<lambda>q q'. \<not> pr_overlaps (the (range_of s q)) (the (range_of s q'))) (px_segments p))"

definition same_ranges :: "memory \<Rightarrow> memory \<Rightarrow> bool" where
  "same_ranges s s' \<longleftrightarrow> range_of s' = range_of s \<and> mm_procs s' = mm_procs s \<and> mm_next s \<le> mm_next s'"

lemma same_ranges_trans: "same_ranges r s \<Longrightarrow> same_ranges s t \<Longrightarrow> same_ranges r t"
  by (simp add: same_ranges_def)

lemma same_rangesI: "mm_psegs s' = mm_psegs s \<Longrightarrow> mm_procs s' = mm_procs s \<Longrightarrow> mm_next s \<le> mm_next s' \<Longrightarrow> same_ranges s s'"
  by (simp add: same_ranges_def range_of_def fun_eq_iff)

lemma process_unmap_ranges: "process_unmap k a q s = Inr s' \<Longrightarrow> same_ranges s s'"
  by (rule same_rangesI) (auto simp: process_unmap_def bindr_Inr_iff Let_def put_seg_def split: if_splits dest!: update_all_segs)

lemma attach_ranges: "attach k a q s = Inr s' \<Longrightarrow> same_ranges s s'"
  by (rule same_rangesI) (auto simp: attach_def bindr_Inr_iff Let_def put_seg_def split: if_splits
    dest!: update_mapping_segs update_all_segs)

lemma seg_delete_ranges: "seg_delete a s = Inr s' \<Longrightarrow> same_ranges s s'"
  by (rule same_rangesI) (auto simp: seg_delete_def bindr_Inr_iff dest!: dealloc_list_segs)

lemma leave_segment_ranges: "leave_segment k q s = Inr s' \<Longrightarrow> same_ranges s s'"
  by (auto simp: leave_segment_def bindr_Inr_iff same_rangesI split: option.splits if_splits
    dest!: process_unmap_ranges seg_delete_ranges intro: same_ranges_trans)

lemma point_to_ranges: "point_to q a s = Inr s' \<Longrightarrow> same_ranges s s'"
  by (auto simp: point_to_def bindr_Inr_iff put_pseg_def same_ranges_def range_of_def fun_eq_iff the_r_Inr)

lemma copy_pages_ranges: "run_all (\<lambda>s i. copy_page k x n i s) s is = Inr s' \<Longrightarrow> mm_psegs s' = mm_psegs s \<and> mm_procs s' = mm_procs s \<and> mm_next s' = mm_next s"
  by (rule run_all_keeps [where P = "\<lambda>t. mm_psegs t = mm_psegs s \<and> mm_procs t = mm_procs s \<and> mm_next t = mm_next s", rotated])
    (auto simp: copy_page_def bindr_Inr_iff split: if_splits)

lemma seg_copy_ranges: "seg_copy k b a s = Inr s' \<Longrightarrow> same_ranges s s'"
  by (rule same_rangesI) (auto simp: seg_copy_def bindr_Inr_iff Let_def dest!: copy_pages_ranges on_pg_segs)

lemma seg_create_ranges: "seg_create n perms st sh s = Inr (r, s') \<Longrightarrow> same_ranges s s'"
  by (rule same_rangesI) (auto simp: seg_create_def bindr_Inr_iff Let_def put_seg_def split: if_splits dest!: dealloc_list_segs)

lemma process_map_ranges:
  assumes "process_map k a q s = Inr s'"
  shows "same_ranges s s'"
  using assms by (auto simp: process_map_def seg_create_copy_def bindr_Inr_iff split: if_splits
    dest!: attach_ranges seg_create_ranges seg_copy_ranges leave_segment_ranges point_to_ranges) (meson same_ranges_trans)

lemma set_segment_ranges: "set_segment k q a s = Inr s' \<Longrightarrow> same_ranges s s'"
  by (auto simp: set_segment_def bindr_Inr_iff dest!: leave_segment_ranges point_to_ranges process_map_ranges intro: same_ranges_trans)

lemma any_overlap_iff:
  "any_overlap r qs s = Inr b \<Longrightarrow> b \<longleftrightarrow> (\<exists>q \<in> set qs. range_of s q \<noteq> None \<and> pr_overlaps (the (range_of s q)) r)"
  by (induction qs) (auto simp: bindr_Inr_iff the_r_Inr range_of_def split: if_splits)

lemma overlaps_sym: "pr_overlaps a b = pr_overlaps b a"
  by (auto simp: pr_overlaps_def)

lemma put_range: "range_of (put_proc pa p s) = range_of s" "range_of (s\<lparr>mm_procs := f\<rparr>) = range_of s"
  by (simp_all add: range_of_def put_proc_def fun_eq_iff)

text \<open>C28: Mapping a segment keeps the segments of a process apart: a range that overlaps one of them is refused and changes
  nothing, any other becomes the last segment of the process. Ranges overlap when the code's own test says so, which for ranges that are not empty means that they
  share a page (\<open>overlaps_iff\<close>).\<close>

theorem map_segment_keeps_segments_apart:
  assumes ok: "apart pa s" and run: "map_segment k pa a r s = Inr (res, s')" and p: "mm_procs s pa = Some p"
  shows "apart pa s' \<and> (res = None \<longleftrightarrow> (\<exists>q \<in> set (px_segments p). pr_overlaps (the (range_of s q)) r))
    \<and> (res = None \<longrightarrow> s' = s) \<and> (\<forall>q. res = Some q \<longrightarrow> range_of s' q = Some r \<and>
      map_option px_segments (mm_procs s' pa) = Some (px_segments p @ [q]))"
proof -
  obtain hit where hit: "any_overlap r (px_segments p) s = Inr hit"
    using run p by (auto simp: map_segment_def bindr_Inr_iff)
  have segs: "\<forall>q \<in> set (px_segments p). q < mm_next s \<and> range_of s q \<noteq> None" using ok p by (simp add: apart_def)
  then have over: "hit \<longleftrightarrow> (\<exists>q \<in> set (px_segments p). pr_overlaps (the (range_of s q)) r)"
    using any_overlap_iff [OF hit] by blast
  show ?thesis
  proof (cases hit)
    case True
    then have "res = None \<and> s' = s" using run p hit by (simp add: map_segment_def)
    then show ?thesis using ok over True by simp
  next
    case False
    define s0 where "s0 = put_pseg (mm_next s) \<lparr>pz_mem = None, pz_parent = pa, pz_range = r\<rparr> (s\<lparr>mm_next := mm_next s + 1\<rparr>)"
    obtain s1 p1 where st: "set_segment k (mm_next s) a s0 = Inr s1" "mm_procs s1 pa = Some p1"
      "res = Some (mm_next s)" "s' = put_proc pa (p1\<lparr>px_segments := px_segments p1 @ [mm_next s]\<rparr>) s1"
      using run p hit False by (auto simp: map_segment_def pseg_new_def Let_def s0_def bindr_Inr_iff the_r_Inr)
    have sr: "same_ranges s0 s1" by (rule set_segment_ranges [OF st(1)])
    have r0: "range_of s0 = (range_of s)(mm_next s \<mapsto> r)" "mm_procs s0 = mm_procs s" "mm_next s0 = mm_next s + 1"
      by (auto simp: s0_def range_of_def put_pseg_def)
    have p1: "p1 = p" using sr r0(2) st(2) p by (simp add: same_ranges_def)
    have rg: "range_of s' = (range_of s)(mm_next s \<mapsto> r)" "mm_next s < mm_next s'"
      using sr r0 by (simp_all add: st(4) same_ranges_def put_range put_proc_def)
    have pr: "mm_procs s' pa = Some (p\<lparr>px_segments := px_segments p @ [mm_next s]\<rparr>)" by (simp add: st(4) p1 put_proc_def)
    have ne: "q \<noteq> mm_next s" if "q \<in> set (px_segments p)" for q using segs that by auto
    have old: "sorted_wrt (\<lambda>q q'. \<not> pr_overlaps (the (range_of s q)) (the (range_of s q'))) (px_segments p)" using ok p by (simp add: apart_def)
    have "sorted_wrt (\<lambda>q q'. \<not> pr_overlaps (the (range_of s' q)) (the (range_of s' q'))) (px_segments p)"
      by (rule sorted_wrt_mono_rel [OF _ old]) (use ne rg(1) in auto)
    moreover have "\<forall>q \<in> set (px_segments p). \<not> pr_overlaps (the (range_of s' q)) r" using over False ne rg(1) by auto
    ultimately have "apart pa s'" using pr segs rg by (auto simp: apart_def sorted_wrt_append)
    then show ?thesis using st(3) over False rg pr by auto
  qed
qed

theorem map_segment_keeps_segments_apart_witness:
  "apart 9 demo_heap \<and> map_segment demo_kmap 9 7 (pr_base_limit 0x401 0x403) demo_heap = Inr (None, demo_heap)"
proof -
  have p: "mm_procs demo_heap 9 = Some \<lparr>px_vmem = 2, px_heap = Some 8, px_segments = [8]\<rparr>" by (simp add: demo_heap_def)
  have rg: "range_of demo_heap 8 = Some (pr_base_limit 0x400 0x402)" by (simp add: demo_heap_def range_of_def)
  have hit: "pr_overlaps (pr_base_limit 0x400 0x402) (pr_base_limit 0x401 0x403)" by code_simp
  have ok: "apart 9 demo_heap" by (simp add: apart_def demo_heap_def range_of_def)
  have "any_overlap (pr_base_limit 0x401 0x403) [8] demo_heap = Inr True" using hit by (simp add: demo_heap_def)
  then have "returns (map_segment demo_kmap 9 7 (pr_base_limit 0x401 0x403) demo_heap)" using p by (simp add: map_segment_def)
  then obtain res s' where run: "map_segment demo_kmap 9 7 (pr_base_limit 0x401 0x403) demo_heap = Inr (res, s')"
    by (auto simp: returns_iff)
  show ?thesis using map_segment_keeps_segments_apart [OF ok run p] hit rg ok run by simp
qed

end
