(* ===== verification/Block_Transfer.thy ===== *)
theory Block_Transfer
  imports Prelude
begin

text \<open>
  Byte access on top of whole blocks (\<open>BlockTransferFileDescription\<close> of \<open>kernel/src/fd/block_transfer.hpp\<close>):
  the partial block at either end goes through a buffer of one block, the blocks between are transferred
  directly. The subclass's methods are a record of functions on its state. A position in the caller's
  buffer stands for the pointer.
\<close>

record 'd blk_ops =
  bo_bits :: "'d \<Rightarrow> u8"
  bo_size :: "'d \<Rightarrow> u64"
  bo_set_size :: "'d \<Rightarrow> u64 \<Rightarrow> u64 \<times> 'd"
  bo_read :: "'d \<Rightarrow> u64 \<Rightarrow> u64 \<Rightarrow> (u64 \<times> u8 list \<times> 'd) result"
  bo_write :: "'d \<Rightarrow> u8 list \<Rightarrow> u64 \<Rightarrow> u64 \<Rightarrow> (u64 \<times> 'd) result"

record 'd blkfd =
  bt_dev :: 'd
  bt_bits :: u8
  bt_size :: u64
  bt_mask :: u64
  bt_temp :: "u8 list option"

definition bt_new :: "'d \<Rightarrow> 'd blkfd" where
  "bt_new d = \<lparr>bt_dev = d, bt_bits = 255, bt_size = 0, bt_mask = 0, bt_temp = None\<rparr>"

definition NO_SIZE :: u64 where "NO_SIZE = 0xffffffffffffffff"

text \<open>\<open>set_size\<close> of the base class.\<close>

definition default_set_size :: "'d \<Rightarrow> u64 \<Rightarrow> u64 \<times> 'd" where
  "default_set_size d n = (NO_SIZE, d)"

definition check_block_size_changed :: "'d blk_ops \<Rightarrow> 'd blkfd \<Rightarrow> 'd blkfd" where
  "check_block_size_changed ops s = (let b = bo_bits ops (bt_dev s) in
     if b = bt_bits s then s
     else s\<lparr>bt_bits := b, bt_size := push_bit (unat b) 1, bt_mask := NOT (push_bit (unat b) 0xffffffffffffffff),
       bt_temp := Some (replicate (2 ^ unat b) 0)\<rparr>)"

text \<open>Reading blocks stores what the device delivers at a position of a buffer.\<close>

definition read_at :: "'d blk_ops \<Rightarrow> u8 list \<Rightarrow> nat \<Rightarrow> u64 \<Rightarrow> u64 \<Rightarrow> 'd \<Rightarrow> (u64 \<times> u8 list \<times> 'd) result" where
  "read_at ops buf pos blk n d = bindr (bo_read ops d blk n) (\<lambda>(m, bs, d). bindr (poke buf pos bs) (\<lambda>buf. Inr (m, buf, d)))"

definition write_at :: "'d blk_ops \<Rightarrow> u8 list \<Rightarrow> nat \<Rightarrow> nat \<Rightarrow> u64 \<Rightarrow> u64 \<Rightarrow> 'd \<Rightarrow> (u64 \<times> 'd) result" where
  "write_at ops buf pos bsize blk n d = bindr (peek buf pos (unat n * bsize)) (\<lambda>bs. bo_write ops d bs blk n)"

definition access_block_section :: "'d blk_ops \<Rightarrow> bool \<Rightarrow> u8 list \<Rightarrow> nat \<Rightarrow> u64 \<Rightarrow> usize \<Rightarrow> usize \<Rightarrow> 'd blkfd
    \<Rightarrow> (bool \<times> u8 list \<times> 'd blkfd) result" where
  "access_block_section ops wr buf pos blk base limit s = (case bt_temp s of None \<Rightarrow> Inl Fault | Some t \<Rightarrow>
     bindr (read_at ops t 0 blk 1 (bt_dev s)) (\<lambda>(m, t, d). let s = s\<lparr>bt_dev := d, bt_temp := Some t\<rparr> in
       if m \<noteq> 1 then Inr (False, buf, s)
       else if \<not> wr then bindr (peek t (unat base) (unat (limit - base))) (\<lambda>xs. bindr (poke buf pos xs) (\<lambda>buf. Inr (True, buf, s)))
       else bindr (peek buf pos (unat (limit - base))) (\<lambda>xs. bindr (poke t (unat base) xs) (\<lambda>t.
         bindr (write_at ops t 0 (length t) blk 1 d) (\<lambda>(m, d). Inr (m = 1, buf, s\<lparr>bt_dev := d, bt_temp := Some t\<rparr>))))))"

definition access_blocks :: "'d blk_ops \<Rightarrow> bool \<Rightarrow> u8 list \<Rightarrow> nat \<Rightarrow> u64 \<Rightarrow> u64 \<Rightarrow> 'd blkfd
    \<Rightarrow> (u64 \<times> u8 list \<times> 'd blkfd) result" where
  "access_blocks ops wr buf pos blk n s = (if n = 0 then Inr (0, buf, s)
     else if \<not> wr then bindr (read_at ops buf pos blk n (bt_dev s)) (\<lambda>(m, buf, d). Inr (m, buf, s\<lparr>bt_dev := d\<rparr>))
     else bindr (write_at ops buf pos (unat (bt_size s)) blk n (bt_dev s)) (\<lambda>(m, d). Inr (m, buf, s\<lparr>bt_dev := d\<rparr>)))"

text \<open>The size that is accessed: up to the end of the description, which a write may try to move.\<close>

definition clip_size :: "'d blk_ops \<Rightarrow> bool \<Rightarrow> u64 \<Rightarrow> u64 \<Rightarrow> 'd blkfd \<Rightarrow> u64 \<times> 'd blkfd" where
  "clip_size ops wr offset n s = (if bo_size ops (bt_dev s) < offset + n then
       if wr then let (m, d) = bo_set_size ops (bt_dev s) (offset + n) in
         (if m = NO_SIZE then bo_size ops d - offset else min n (m - offset), s\<lparr>bt_dev := d\<rparr>)
       else (bo_size ops (bt_dev s) - offset, s)
     else (n, s))"

text \<open>The last step, for the partial block at the end.\<close>

definition access_tail :: "'d blk_ops \<Rightarrow> bool \<Rightarrow> u8 list \<Rightarrow> nat \<Rightarrow> u64 \<Rightarrow> 'd blkfd \<Rightarrow> (u64 \<times> u8 list \<times> 'd blkfd) result" where
  "access_tail ops wr buf pos limit s = (let low = limit AND bt_mask s in
     if low = 0 then Inr (of_nat pos, buf, s) else
     bindr (access_block_section ops wr buf pos (drop_bit (unat (bt_bits s)) limit) 0 (ucast low) s) (\<lambda>(ok, buf, s).
       Inr (if ok then of_nat (pos + unat low) else of_nat pos, buf, s)))"

definition access_body :: "'d blk_ops \<Rightarrow> bool \<Rightarrow> u8 list \<Rightarrow> nat \<Rightarrow> u64 \<Rightarrow> u64 \<Rightarrow> 'd blkfd \<Rightarrow> (u64 \<times> u8 list \<times> 'd blkfd) result" where
  "access_body ops wr buf pos blk limit s = (let n = drop_bit (unat (bt_bits s)) limit - blk in
     if n = 0 then access_tail ops wr buf pos limit s else
     bindr (access_blocks ops wr buf pos blk n s) (\<lambda>(m, buf, s). let pos = pos + unat (m * bt_size s) in
       if m < n then Inr (of_nat pos, buf, s) else access_tail ops wr buf pos limit s))"

definition blk_access :: "'d blk_ops \<Rightarrow> bool \<Rightarrow> u8 list \<Rightarrow> u64 \<Rightarrow> u64 \<Rightarrow> 'd blkfd \<Rightarrow> (u64 \<times> u8 list \<times> 'd blkfd) result" where
  "blk_access ops wr buf offset size0 s = (if size0 = 0 then Inr (0, buf, s) else
     let (n, s) = clip_size ops wr offset size0 (check_block_size_changed ops s);
         limit = offset + n;
         first = drop_bit (unat (bt_bits s)) offset; last = drop_bit (unat (bt_bits s)) limit;
         low = offset AND bt_mask s in
     if first = last then bindr (access_block_section ops wr buf 0 first (ucast low) (ucast (limit AND bt_mask s)) s)
       (\<lambda>(ok, buf, s). Inr (if ok then n else 0, buf, s))
     else if low \<noteq> 0 then bindr (access_block_section ops wr buf 0 first (ucast low) (ucast (bt_size s)) s) (\<lambda>(ok, buf, s).
       if \<not> ok then Inr (0, buf, s) else access_body ops wr buf (unat (bt_size s - low)) (first + 1) limit s)
     else access_body ops wr buf 0 first limit s)"

definition blk_read :: "'d blk_ops \<Rightarrow> u8 list \<Rightarrow> u64 \<Rightarrow> u64 \<Rightarrow> 'd blkfd \<Rightarrow> (u64 \<times> u8 list \<times> 'd blkfd) result" where
  "blk_read ops buf offset n s = blk_access ops False buf offset n s"

definition blk_write :: "'d blk_ops \<Rightarrow> u8 list \<Rightarrow> u64 \<Rightarrow> u64 \<Rightarrow> 'd blkfd \<Rightarrow> (u64 \<times> 'd blkfd) result" where
  "blk_write ops buf offset n s = bindr (blk_access ops True buf offset n s) (\<lambda>(m, _, s). Inr (m, s))"

subsection \<open>Cutting and splicing\<close>

definition slice :: "'a list \<Rightarrow> nat \<Rightarrow> nat \<Rightarrow> 'a list" where
  "slice xs i n = take n (drop i xs)"

definition splice :: "'a list \<Rightarrow> nat \<Rightarrow> 'a list \<Rightarrow> 'a list" where
  "splice xs i ys = take i xs @ ys @ drop (i + length ys) xs"

lemma length_slice [simp]: "i + n \<le> length xs \<Longrightarrow> length (slice xs i n) = n"
  by (simp add: slice_def)

lemma length_splice [simp]: "i + length ys \<le> length xs \<Longrightarrow> length (splice xs i ys) = length xs"
  by (simp add: splice_def)

lemma slice_append: "slice xs i n @ slice xs (i + n) m = slice xs i (n + m)"
  by (simp only: slice_def take_add drop_drop add.commute [of i n])

lemma splice_next: "i + length ys + length zs \<le> length xs \<Longrightarrow> splice (splice xs i ys) (i + length ys) zs = splice xs i (ys @ zs)"
  by (simp add: splice_def ac_simps)

lemma splice_nil [simp]: "splice xs i [] = xs"
  by (simp add: splice_def)

lemma slice_slice: "i + n \<le> m \<Longrightarrow> slice (slice xs k m) i n = slice xs (k + i) n"
  by (simp add: slice_def drop_take min_def add.commute)

lemma slice_splice_before: "i + n \<le> j \<Longrightarrow> j \<le> length xs \<Longrightarrow> slice (splice xs j ys) i n = slice xs i n"
  by (simp add: slice_def splice_def) (simp add: take_drop min_def)

lemma slice_splice_after: "j + length ys \<le> i \<Longrightarrow> j \<le> length xs \<Longrightarrow> slice (splice xs j ys) i n = slice xs i n"
  by (simp add: slice_def splice_def)

lemma slice_splice_same: "j + length ys \<le> length xs \<Longrightarrow> slice (splice xs j ys) j (length ys) = ys"
  by (simp add: slice_def splice_def)

lemma splice_in_block:
  assumes "k + m \<le> length xs" "i + length ys \<le> m"
  shows "splice xs k (splice (slice xs k m) i ys) = splice xs (k + i) ys"
proof -
  let ?b = "take m (drop k xs)"
  have len: "length ?b = m" using assms by simp
  have a: "take (k + i) xs = take k xs @ take i ?b" using assms(2) by (simp add: take_add)
  have "?b @ drop m (drop k xs) = drop k xs" by (rule append_take_drop_id)
  then have "drop (k + i + length ys) xs = drop (i + length ys) (?b @ drop m (drop k xs))" by (simp add: ac_simps)
  also have "\<dots> = drop (i + length ys) ?b @ drop (i + length ys - length ?b) (drop m (drop k xs))" by (rule drop_append)
  also have "i + length ys - length ?b = 0" unfolding len using assms(2) by simp
  finally have b: "drop (k + i + length ys) xs = drop (i + length ys) ?b @ drop (k + m) xs" by (simp add: add.commute)
  have c: "length (splice ?b i ys) = m" using len assms(2) by simp
  show ?thesis unfolding slice_def splice_def [of xs] a b c by (simp only: splice_def append_assoc)
qed

lemma peek_slice: "i + n \<le> length xs \<Longrightarrow> peek xs i n = Inr (slice xs i n)"
  by (simp add: slice_def)

lemma poke_splice: "i + length ys \<le> length xs \<Longrightarrow> poke xs i ys = Inr (splice xs i ys)"
  by (simp add: splice_def)

subsection \<open>What a block device promises\<close>

text \<open>A device of whole blocks of \<open>2 ^ b\<close> bytes: reading and writing blocks inside it always succeeds.\<close>

definition block_store :: "'d blk_ops \<Rightarrow> ('d \<Rightarrow> bool) \<Rightarrow> ('d \<Rightarrow> u8 list) \<Rightarrow> nat \<Rightarrow> bool" where
  "block_store ops ok content b \<longleftrightarrow> b \<le> 11 \<and> (\<forall>d. ok d \<longrightarrow> bo_bits ops d = of_nat b
     \<and> bo_size ops d = of_nat (length (content d)) \<and> length (content d) < 2 ^ 63 \<and> 2 ^ b dvd length (content d)
     \<and> (\<forall>blk n. 0 < unat n \<longrightarrow> (unat blk + unat n) * 2 ^ b \<le> length (content d) \<longrightarrow>
         (\<exists>d'. bo_read ops d blk n = Inr (n, slice (content d) (unat blk * 2 ^ b) (unat n * 2 ^ b), d') \<and> ok d' \<and> content d' = content d))
     \<and> (\<forall>blk n bs. 0 < unat n \<longrightarrow> (unat blk + unat n) * 2 ^ b \<le> length (content d) \<longrightarrow> length bs = unat n * 2 ^ b \<longrightarrow>
         (\<exists>d'. bo_write ops d bs blk n = Inr (n, d') \<and> ok d' \<and> content d' = splice (content d) (unat blk * 2 ^ b) bs)))"

lemma block_storeD:
  assumes "block_store ops ok content b" "ok d"
  shows "b \<le> 11" "bo_bits ops d = of_nat b" "bo_size ops d = of_nat (length (content d))" "length (content d) < 2 ^ 63"
    "2 ^ b dvd length (content d)"
    "\<lbrakk>0 < unat n; (unat blk + unat n) * 2 ^ b \<le> length (content d)\<rbrakk> \<Longrightarrow>
      \<exists>d'. bo_read ops d blk n = Inr (n, slice (content d) (unat blk * 2 ^ b) (unat n * 2 ^ b), d') \<and> ok d' \<and> content d' = content d"
    "\<lbrakk>0 < unat n; (unat blk + unat n) * 2 ^ b \<le> length (content d); length bs = unat n * 2 ^ b\<rbrakk> \<Longrightarrow>
      \<exists>d'. bo_write ops d bs blk n = Inr (n, d') \<and> ok d' \<and> content d' = splice (content d) (unat blk * 2 ^ b) bs"
  using assms unfolding block_store_def by blast+

definition bt_ready :: "nat \<Rightarrow> 'd blkfd \<Rightarrow> bool" where
  "bt_ready b s \<longleftrightarrow> bt_bits s = of_nat b \<and> bt_size s = push_bit b 1 \<and> bt_mask s = mask b \<and> (\<exists>t. bt_temp s = Some t \<and> length t = 2 ^ b)"

definition bt_wf :: "nat \<Rightarrow> 'd blkfd \<Rightarrow> bool" where
  "bt_wf b s \<longleftrightarrow> bt_bits s = of_nat b \<longrightarrow> bt_ready b s"

lemma unat_bits: "b \<le> 11 \<Longrightarrow> unat (of_nat b :: u8) = b"
  by (simp add: unat_of_nat take_bit_nat_eq_self)

lemma check_ready:
  assumes "bt_wf b s" "bo_bits ops (bt_dev s) = of_nat b" "b \<le> 11"
  shows "bt_ready b (check_block_size_changed ops s) \<and> bt_dev (check_block_size_changed ops s) = bt_dev s"
proof -
  have "(0xffffffffffffffff :: u64) = - 1" by simp
  then have "NOT (push_bit b 0xffffffffffffffff) = (mask b :: u64)" by (simp only: push_bit_minus_one_eq_not_mask bit.double_compl)
  then show ?thesis using assms by (auto simp: check_block_size_changed_def Let_def bt_wf_def bt_ready_def unat_bits)
qed

lemma unat_of_nat64: "k < 2 ^ 64 \<Longrightarrow> unat (of_nat k :: u64) = k"
  by (simp add: unat_of_nat take_bit_nat_eq_self)

lemma block_unit: "b \<le> 11 \<Longrightarrow> unat (push_bit b 1 :: u64) = 2 ^ b"
proof -
  assume "b \<le> 11"
  then have "(2 :: nat) ^ b \<le> 2 ^ 11" by (intro power_increasing) simp_all
  then have "(2 :: nat) ^ b < 2 ^ 64" by simp
  moreover have "push_bit b 1 = (of_nat (2 ^ b) :: u64)" by (simp add: push_bit_eq_mult)
  ultimately show ?thesis by (simp only: unat_of_nat64)
qed

lemma low_bits: "unat (x AND mask b :: u64) = unat x mod 2 ^ b"
  by (subst take_bit_eq_mask [symmetric], subst unsigned_take_bit_eq, rule take_bit_eq_mod)

lemma high_bits: "unat (drop_bit b x :: u64) = unat x div 2 ^ b"
  by (subst unat_drop_bit_eq, rule drop_bit_eq_div)

text \<open>The caller's buffer and the device's bytes after \<open>p\<close> of the bytes from \<open>off\<close> have been moved.\<close>

definition moved :: "bool \<Rightarrow> u8 list \<Rightarrow> u8 list \<Rightarrow> nat \<Rightarrow> nat \<Rightarrow> u8 list \<times> u8 list" where
  "moved wr c buf off p = (if wr then (buf, splice c off (slice buf 0 p)) else (splice buf 0 (slice c off p), c))"

lemma moved_zero: "moved wr c buf off 0 = (buf, c)"
  by (simp add: moved_def slice_def)

lemma moved_step:
  assumes "off + p + m \<le> length c" "p + m \<le> length buf" "(buf1, c1) = moved wr c buf off p"
  shows "wr \<Longrightarrow> buf1 = buf \<and> splice c1 (off + p) (slice buf p m) = snd (moved wr c buf off (p + m))"
    "\<not> wr \<Longrightarrow> c1 = c \<and> splice buf1 p (slice c (off + p) m) = fst (moved wr c buf off (p + m))"
    "length buf1 = length buf" "length c1 = length c"
proof -
  show "wr \<Longrightarrow> buf1 = buf \<and> splice c1 (off + p) (slice buf p m) = snd (moved wr c buf off (p + m))"
    using assms splice_next [of off "slice buf 0 p" "slice buf p m" c] slice_append [of buf 0 p m] by (simp add: moved_def)
  show "\<not> wr \<Longrightarrow> c1 = c \<and> splice buf1 p (slice c (off + p) m) = fst (moved wr c buf off (p + m))"
    using assms splice_next [of 0 "slice c off p" "slice c (off + p) m" buf] slice_append [of c off p m] by (simp add: moved_def)
  show "length buf1 = length buf" "length c1 = length c" using assms by (auto simp: moved_def split: if_splits)
qed

text \<open>What each step of an access keeps.\<close>

definition at_pos :: "('d \<Rightarrow> bool) \<Rightarrow> ('d \<Rightarrow> u8 list) \<Rightarrow> nat \<Rightarrow> bool \<Rightarrow> u8 list \<Rightarrow> u8 list \<Rightarrow> nat \<Rightarrow> nat \<Rightarrow> u8 list \<Rightarrow> 'd blkfd \<Rightarrow> bool" where
  "at_pos ok content b wr c buf off p buf1 s \<longleftrightarrow> bt_ready b s \<and> ok (bt_dev s) \<and> (buf1, content (bt_dev s)) = moved wr c buf off p"

lemma section_step:
  assumes bs: "block_store ops ok content b" and at: "at_pos ok content b wr c buf off p buf1 s"
    and pos: "unat blk * 2 ^ b + unat base = off + p" "unat base \<le> unat limit" "unat limit \<le> 2 ^ b" "(unat blk + 1) * 2 ^ b \<le> length c"
    and m: "m = unat limit - unat base" "p + m \<le> length buf"
  shows "\<exists>buf2 s2. access_block_section ops wr buf1 p blk base limit s = Inr (True, buf2, s2)
    \<and> at_pos ok content b wr c buf off (p + m) buf2 s2"
proof -
  let ?d = "bt_dev s" and ?c = "content (bt_dev s)"
  have r: "bt_ready b s" "ok ?d" "(buf1, ?c) = moved wr c buf off p" using at by (simp_all add: at_pos_def)
  obtain t where t: "bt_temp s = Some t" "length t = 2 ^ b" using r(1) by (auto simp: bt_ready_def)
  have in_c: "off + p + m \<le> length c" using pos m by (simp add: algebra_simps)
  note mv = moved_step [OF in_c m(2) r(3)]
  have blk: "(unat blk + unat (1 :: u64)) * 2 ^ b \<le> length ?c" using pos(4) mv(4) by simp
  let ?t = "slice ?c (unat blk * 2 ^ b) (2 ^ b)"
  obtain d1 where d1: "bo_read ops ?d blk 1 = Inr (1, ?t, d1)" "ok d1" "content d1 = ?c"
    using block_storeD(6) [OF bs r(2), of 1 blk] blk by auto
  have lt: "length ?t = 2 ^ b" using blk by (simp add: algebra_simps)
  have rd: "read_at ops t 0 blk 1 ?d = Inr (1, ?t, d1)" using d1(1) t(2) lt by (simp add: read_at_def poke_def)
  have w: "unat (limit - base) = m" using pos(2) m(1) by (simp add: unat_diff_le)
  let ?s1 = "s\<lparr>bt_dev := d1, bt_temp := Some ?t\<rparr>"
  have r1: "bt_ready b ?s1" using r(1) lt by (simp add: bt_ready_def)
  show ?thesis
  proof (cases wr)
    case False
    have pk: "peek ?t (unat base) m = Inr (slice c (off + p) m)"
      using pos m mv(2) [OF False] lt by (simp add: peek_slice slice_slice del: peek_in)
    have pl: "poke buf1 p (slice c (off + p) m) = Inr (splice buf1 p (slice c (off + p) m))"
      using in_c m(2) mv(3) by (simp add: poke_splice del: poke_in)
    have "access_block_section ops wr buf1 p blk base limit s = Inr (True, splice buf1 p (slice c (off + p) m), ?s1)"
      using t rd w pk pl False by (simp add: access_block_section_def Let_def)
    moreover have "at_pos ok content b wr c buf off (p + m) (splice buf1 p (slice c (off + p) m)) ?s1"
      using r1 d1 mv(2) [OF False] False by (auto simp: at_pos_def moved_def)
    ultimately show ?thesis by blast
  next
    case True
    have b1: "buf1 = buf" using mv(1) [OF True] by simp
    have pk: "peek buf p m = Inr (slice buf p m)" using m(2) by (rule peek_slice)
    let ?t2 = "splice ?t (unat base) (slice buf p m)"
    have pl: "poke ?t (unat base) (slice buf p m) = Inr ?t2" using pos(2,3) m lt by (simp add: poke_splice del: poke_in)
    have l2: "length ?t2 = 2 ^ b" using pos(2,3) m lt by simp
    obtain d2 where d2: "bo_write ops d1 ?t2 blk 1 = Inr (1, d2)" "ok d2" "content d2 = splice ?c (unat blk * 2 ^ b) ?t2"
      using block_storeD(7) [OF bs d1(2), of 1 blk ?t2] blk l2 d1(3) by auto
    have "splice ?c (unat blk * 2 ^ b) ?t2 = splice ?c (off + p) (slice buf p m)"
      using splice_in_block [of "unat blk * 2 ^ b" "2 ^ b" ?c "unat base" "slice buf p m"] blk pos m by (simp add: algebra_simps)
    then have c2: "content d2 = snd (moved wr c buf off (p + m))" using d2(3) mv(1) [OF True] by simp
    have wt: "write_at ops ?t2 0 (2 ^ b) blk 1 d1 = Inr (1, d2)" using d2(1) l2 by (simp add: write_at_def)
    let ?s2 = "?s1\<lparr>bt_dev := d2, bt_temp := Some ?t2\<rparr>"
    have "access_block_section ops wr buf1 p blk base limit s = Inr (True, buf, ?s2)"
      using t rd w pk pl wt l2 True b1 by (simp add: access_block_section_def Let_def)
    moreover have "at_pos ok content b wr c buf off (p + m) buf ?s2"
      using r1 d2(2) c2 True l2 by (auto simp: at_pos_def moved_def bt_ready_def)
    ultimately show ?thesis by blast
  qed
qed

lemma blocks_step:
  assumes bs: "block_store ops ok content b" and at: "at_pos ok content b wr c buf off p buf1 s"
    and pos: "unat blk * 2 ^ b = off + p" "0 < unat n" "(unat blk + unat n) * 2 ^ b \<le> length c"
    and m: "m = unat n * 2 ^ b" "p + m \<le> length buf"
  shows "\<exists>buf2 s2. access_blocks ops wr buf1 p blk n s = Inr (n, buf2, s2) \<and> at_pos ok content b wr c buf off (p + m) buf2 s2"
proof -
  let ?d = "bt_dev s" and ?c = "content (bt_dev s)"
  have r: "bt_ready b s" "ok ?d" "(buf1, ?c) = moved wr c buf off p" using at by (simp_all add: at_pos_def)
  have in_c: "off + p + m \<le> length c" using pos m by (simp add: algebra_simps)
  note mv = moved_step [OF in_c m(2) r(3)]
  have n: "n \<noteq> 0" using pos(2) by auto
  have blk: "(unat blk + unat n) * 2 ^ b \<le> length ?c" using pos(3) mv(4) by simp
  have unit: "unat (bt_size s) = 2 ^ b" using r(1) block_unit block_storeD(1) [OF bs r(2)] by (simp add: bt_ready_def)
  show ?thesis
  proof (cases wr)
    case False
    obtain d1 where d1: "bo_read ops ?d blk n = Inr (n, slice c (off + p) m, d1)" "ok d1" "content d1 = ?c"
      using block_storeD(6) [OF bs r(2) pos(2) blk] pos(1) m(1) mv(2) [OF False] by auto
    have pl: "poke buf1 p (slice c (off + p) m) = Inr (splice buf1 p (slice c (off + p) m))"
      using in_c m(2) mv(3) by (simp add: poke_splice del: poke_in)
    have "access_blocks ops wr buf1 p blk n s = Inr (n, splice buf1 p (slice c (off + p) m), s\<lparr>bt_dev := d1\<rparr>)"
      using d1(1) pl n False by (simp add: access_blocks_def read_at_def)
    moreover have "at_pos ok content b wr c buf off (p + m) (splice buf1 p (slice c (off + p) m)) (s\<lparr>bt_dev := d1\<rparr>)"
      using r(1) d1 mv(2) [OF False] False by (auto simp: at_pos_def moved_def bt_ready_def)
    ultimately show ?thesis by blast
  next
    case True
    have b1: "buf1 = buf" using mv(1) [OF True] by simp
    have pk: "peek buf p m = Inr (slice buf p m)" using m(2) by (rule peek_slice)
    obtain d1 where d1: "bo_write ops ?d (slice buf p m) blk n = Inr (n, d1)" "ok d1" "content d1 = splice ?c (unat blk * 2 ^ b) (slice buf p m)"
      using block_storeD(7) [OF bs r(2) pos(2) blk, of "slice buf p m"] m by auto
    have "access_blocks ops wr buf1 p blk n s = Inr (n, buf, s\<lparr>bt_dev := d1\<rparr>)"
      using d1(1) pk m(1) n True b1 unit by (simp add: access_blocks_def write_at_def)
    moreover have "at_pos ok content b wr c buf off (p + m) buf (s\<lparr>bt_dev := d1\<rparr>)"
      using r(1) d1 mv(1) [OF True] True pos(1) by (auto simp: at_pos_def moved_def bt_ready_def)
    ultimately show ?thesis by blast
  qed
qed

lemma tail_step:
  assumes bs: "block_store ops ok content b" and at: "at_pos ok content b wr c buf off p buf1 s"
    and pos: "unat lim = off + n" "unat lim div 2 ^ b * 2 ^ b = off + p" "p \<le> n"
    and c: "off + n \<le> length c" "length c < 2 ^ 63" "2 ^ b dvd length c" "n \<le> length buf"
  shows "\<exists>buf2 s2. access_tail ops wr buf1 p lim s = Inr (of_nat n, buf2, s2) \<and> at_pos ok content b wr c buf off n buf2 s2"
proof -
  have r: "bt_ready b s" "ok (bt_dev s)" using at by (simp_all add: at_pos_def)
  note b = block_storeD(1) [OF bs r(2)]
  let ?low = "lim AND bt_mask s"
  have low: "unat ?low = unat lim mod 2 ^ b" using r(1) by (simp add: bt_ready_def low_bits del: take_bit_eq_mask)
  then have n: "n = p + unat ?low" using pos div_mult_mod_eq [of "unat lim" "2 ^ b"] by linarith
  show ?thesis
  proof (cases "?low = 0")
    case True
    then show ?thesis using n at by (auto simp: access_tail_def Let_def)
  next
    case False
    then have l0: "0 < unat ?low" by (simp add: unat_gt_0)
    have "(2 :: nat) ^ b \<le> 2048" using power_increasing [OF b, of "2 :: nat"] by simp
    moreover have "unat lim mod 2 ^ b < 2 ^ b" by simp
    ultimately have ll: "unat ?low < 2 ^ b" "unat ?low < 2048" using low by linarith+
    then have uc: "unat (ucast ?low :: usize) = unat ?low" by (intro unat_ucast_down) simp
    obtain q where q: "length c = 2 ^ b * q" using c(3) by blast
    have "unat lim div 2 ^ b < q"
    proof -
      have "unat lim div 2 ^ b * 2 ^ b < 2 ^ b * q" using pos n l0 c(1) q by linarith
      then show ?thesis by (simp add: mult.commute)
    qed
    then have "(unat lim div 2 ^ b + 1) * 2 ^ b \<le> length c" unfolding q by (metis Suc_eq_plus1 Suc_leI mult.commute mult_le_mono2)
    then have blk: "(unat (drop_bit b lim) + 1) * 2 ^ b \<le> length c" by (simp only: high_bits)
    have bits: "unat (bt_bits s) = b" using r(1) b by (simp add: bt_ready_def unat_bits)
    have "\<exists>buf2 s2. access_block_section ops wr buf1 p (drop_bit b lim) 0 (ucast ?low) s = Inr (True, buf2, s2)
        \<and> at_pos ok content b wr c buf off (p + unat ?low) buf2 s2"
    proof (rule section_step [OF bs at])
      show "unat (drop_bit b lim) * 2 ^ b + unat (0 :: usize) = off + p" using pos(2) by (simp only: high_bits unat_0 add_0_right)
    qed (use uc ll blk n c(4) in \<open>simp_all del: drop_bit_eq_div\<close>)
    then obtain buf2 s2 where "access_block_section ops wr buf1 p (drop_bit b lim) 0 (ucast ?low) s = Inr (True, buf2, s2)"
      "at_pos ok content b wr c buf off n buf2 s2" using n by auto
    then show ?thesis using False n bits by (simp add: access_tail_def Let_def)
  qed
qed

lemma body_step:
  assumes bs: "block_store ops ok content b" and at: "at_pos ok content b wr c buf off p buf1 s"
    and pos: "unat lim = off + n" "unat blk * 2 ^ b = off + p" "p \<le> n"
    and c: "off + n \<le> length c" "length c < 2 ^ 63" "2 ^ b dvd length c" "n \<le> length buf"
  shows "\<exists>buf2 s2. access_body ops wr buf1 p blk lim s = Inr (of_nat n, buf2, s2) \<and> at_pos ok content b wr c buf off n buf2 s2"
proof -
  have r: "bt_ready b s" "ok (bt_dev s)" using at by (simp_all add: at_pos_def)
  note b = block_storeD(1) [OF bs r(2)]
  have bits: "unat (bt_bits s) = b" using r(1) b by (simp add: bt_ready_def unat_bits)
  let ?last = "drop_bit b lim" and ?pw = "(2 :: nat) ^ b"
  let ?k = "?last - blk"
  have la: "unat ?last = unat lim div ?pw" by (rule high_bits)
  have le: "unat blk \<le> unat ?last" unfolding la using pos by (metis div_le_mono le_add1 nonzero_mult_div_cancel_right power_not_zero zero_neq_numeral ab_semigroup_add_class.add_ac(1) add_le_mono le_refl)
  have k: "unat ?k = unat lim div ?pw - unat blk" using le la by (simp add: unat_diff_le)
  have sum: "unat blk * ?pw + unat ?k * ?pw = unat lim div ?pw * ?pw" using le la k by (metis add_mult_distrib le_add_diff_inverse)
  have up: "unat lim div ?pw * ?pw \<le> off + n" using pos(1) by (metis div_times_less_eq_dividend)
  show ?thesis
  proof (cases "?k = 0")
    case True
    then have "unat lim div ?pw * ?pw = off + p" using sum pos(2) by simp
    from tail_step [OF bs at pos(1) this pos(3) c] show ?thesis using True bits by (simp add: access_body_def Let_def)
  next
    case False
    then have k0: "0 < unat ?k" by (simp add: unat_gt_0)
    let ?m = "unat ?k * ?pw"
    have m: "off + (p + ?m) = unat lim div ?pw * ?pw" "p + ?m \<le> n" using sum pos(2) up by linarith+
    have "(unat blk + unat ?k) * ?pw \<le> length c" using sum up c(1) by (simp add: add_mult_distrib)
    then obtain buf2 s2 where st: "access_blocks ops wr buf1 p blk ?k s = Inr (?k, buf2, s2)" "at_pos ok content b wr c buf off (p + ?m) buf2 s2"
      using blocks_step [OF bs at pos(2) k0 _ refl] m(2) c(4) by (meson order_trans)
    have r2: "bt_ready b s2" using st(2) by (simp add: at_pos_def)
    have "unat (bt_size s2) = ?pw" using r2 block_unit [OF b] by (simp add: bt_ready_def)
    moreover have "?m < 2 ^ 63" using m(2) c(1,2) by linarith
    then have "?m < 2 ^ 64" by simp
    ultimately have "unat (?k * bt_size s2) = ?m" by (simp add: unat_word_ariths)
    then show ?thesis using tail_step [OF bs st(2) pos(1) m(1) [symmetric] m(2) c] st(1) False bits
      by (simp add: access_body_def Let_def)
  qed
qed

lemma clip_inside:
  assumes "bo_size ops (bt_dev s) = of_nat l" "l < 2 ^ 63" "unat offset + unat n \<le> l"
  shows "clip_size ops wr offset n s = (n, s)"
proof -
  have "unat (of_nat l :: u64) = l" using assms(2) by (intro unat_of_nat64) simp
  moreover have "unat (offset + n) = unat offset + unat n" using assms(2,3) by (intro unat_add_small) simp
  ultimately show ?thesis using assms by (simp add: clip_size_def word_less_unat)
qed

lemma block_inside:
  assumes "2 ^ b dvd l" "x < l"
  shows "(x div 2 ^ b + 1) * 2 ^ b \<le> (l :: nat)"
proof -
  obtain q where q: "l = 2 ^ b * q" using assms(1) by blast
  then have "x div 2 ^ b < q" using assms(2) by (simp add: less_mult_imp_div_less mult.commute)
  then show ?thesis unfolding q by (metis Suc_eq_plus1 Suc_leI mult.commute mult_le_mono2)
qed

lemma access_steps:
  assumes bs: "block_store ops ok content b" and at: "at_pos ok content b wr c buf (unat offset) 0 buf s"
    and n: "0 < unat n" "unat offset + unat n \<le> length c" "length c < 2 ^ 63" "2 ^ b dvd length c" "unat n \<le> length buf"
    and clip: "clip_size ops wr offset n (check_block_size_changed ops s0) = (n, s)"
  shows "\<exists>buf2 s2. blk_access ops wr buf offset n s0 = Inr (n, buf2, s2) \<and> at_pos ok content b wr c buf (unat offset) (unat n) buf2 s2"
proof -
  have r: "bt_ready b s" "ok (bt_dev s)" using at by (simp_all add: at_pos_def)
  note b = block_storeD(1) [OF bs r(2)]
  let ?pw = "(2 :: nat) ^ b" and ?o = "unat offset" and ?n = "unat n"
  let ?lim = "offset + n" and ?low = "offset AND bt_mask s" and ?llow = "(offset + n) AND bt_mask s"
  have pw: "?pw \<le> 2048" using power_increasing [OF b, of "2 :: nat"] by simp
  have bits: "unat (bt_bits s) = b" and unit: "unat (bt_size s) = ?pw" and mask: "bt_mask s = mask b"
    using r(1) b block_unit [OF b] by (simp_all add: bt_ready_def unat_bits)
  have lim: "unat ?lim = ?o + ?n" using n(2,3) by (intro unat_add_small) simp
  have low: "unat ?low = ?o mod ?pw" "unat ?llow = (?o + ?n) mod ?pw" unfolding mask low_bits lim by simp_all
  have lt: "?o mod ?pw < ?pw" "(?o + ?n) mod ?pw < ?pw" by simp_all
  have "?o mod ?pw < 4294967296" "(?o + ?n) mod ?pw < 4294967296" using lt pw by linarith+
  then have u32: "unat (ucast ?low :: usize) = ?o mod ?pw" "unat (ucast ?llow :: usize) = (?o + ?n) mod ?pw"
      "unat (ucast (bt_size s) :: usize) = ?pw"
    using pw low unit by (simp_all add: unat_ucast_down)
  let ?f = "drop_bit b offset" and ?l = "drop_bit b ?lim"
  have fl: "unat ?f = ?o div ?pw" "unat ?l = (?o + ?n) div ?pw" unfolding high_bits lim by simp_all
  have split: "?o div ?pw * ?pw + ?o mod ?pw = ?o" "(?o + ?n) div ?pw * ?pw + (?o + ?n) mod ?pw = ?o + ?n" by (rule div_mult_mod_eq)+
  have blk: "(unat ?f + 1) * ?pw \<le> length c" unfolding fl by (rule block_inside [OF n(4)]) (use n(1,2) in linarith)
  have n0: "n \<noteq> 0" using n(1) by auto
  show ?thesis
  proof (cases "?f = ?l")
    case True
    then have eq: "?o div ?pw = (?o + ?n) div ?pw" using fl by simp
    define q where "q = (?o + ?n) div ?pw * ?pw"
    have q: "q + ?o mod ?pw = ?o" "q + (?o + ?n) mod ?pw = ?o + ?n" using split unfolding q_def eq [symmetric] by simp_all
    have m: "?n = (?o + ?n) mod ?pw - ?o mod ?pw" using q by linarith
    have m2: "?o mod ?pw \<le> (?o + ?n) mod ?pw" using q by linarith
    have "\<exists>buf2 s2. access_block_section ops wr buf 0 ?f (ucast ?low) (ucast ?llow) s = Inr (True, buf2, s2)
        \<and> at_pos ok content b wr c buf ?o (0 + ?n) buf2 s2"
      by (rule section_step [OF bs at]) (use u32 m m2 lt n blk split fl in \<open>simp_all del: drop_bit_eq_div\<close>)
    then show ?thesis using True n0 clip bits by (auto simp: blk_access_def Let_def)
  next
    case False
    then have "?o div ?pw \<noteq> (?o + ?n) div ?pw" using fl by (metis word_unat_eq_iff)
    then have "?o div ?pw < (?o + ?n) div ?pw" by (meson div_le_mono le_add1 le_neq_implies_less)
    then have nxt: "(?o div ?pw + 1) * ?pw \<le> (?o + ?n) div ?pw * ?pw" by (metis Suc_eq_plus1 Suc_leI mult_le_mono1)
    show ?thesis
    proof (cases "?low = 0")
      case True
      have "?o mod ?pw = 0" using low(1) True by simp
      then have "unat ?f * ?pw = ?o + 0" using split(1) fl(1) by simp
      from body_step [OF bs at lim this _ n(2,3,4,5)] obtain buf2 s2 where
        "access_body ops wr buf 0 ?f ?lim s = Inr (of_nat ?n, buf2, s2)" "at_pos ok content b wr c buf ?o ?n buf2 s2" by auto
      then show ?thesis using True False n0 clip bits by (simp add: blk_access_def Let_def)
    next
      case lown: False
      let ?m = "?pw - ?o mod ?pw"
      have m: "?o + ?m = (?o div ?pw + 1) * ?pw" using split(1) lt(1) by simp
      have mn: "?m \<le> ?n" using m nxt split(2) by linarith
      have "\<exists>buf2 s2. access_block_section ops wr buf 0 ?f (ucast ?low) (ucast (bt_size s)) s = Inr (True, buf2, s2)
          \<and> at_pos ok content b wr c buf ?o (0 + ?m) buf2 s2"
        by (rule section_step [OF bs at]) (use u32 lt mn n blk split fl in \<open>simp_all del: drop_bit_eq_div\<close>)
      then obtain buf2 s2 where st: "access_block_section ops wr buf 0 ?f (ucast ?low) (ucast (bt_size s)) s = Inr (True, buf2, s2)"
        "at_pos ok content b wr c buf ?o ?m buf2 s2" by auto
      have "bt_ready b s2" "bt_mask s2 = bt_mask s" "bt_size s2 = bt_size s"
        using st(2) r(1) by (simp_all add: at_pos_def bt_ready_def)
      have "unat (bt_size s - ?low) = ?m" using unit low(1) lt(1) by (simp add: unat_diff_le)
      have "unat (?f + 1) = ?o div ?pw + 1"
      proof -
        have "?o div ?pw \<le> ?o" by (rule div_le_dividend)
        moreover have "length c < 9223372036854775808" using n(3) by simp
        ultimately have "?o div ?pw + 1 < 18446744073709551616" using n(1,2) by linarith
        then show ?thesis using fl(1) by (subst unat_add_small) simp_all
      qed
      then have "unat (?f + 1) * ?pw = ?o + ?m" using m by simp
      from body_step [OF bs st(2) lim this mn n(2,3,4,5)] obtain buf3 s3 where
        "access_body ops wr buf2 ?m (?f + 1) ?lim s2 = Inr (of_nat ?n, buf3, s3)" "at_pos ok content b wr c buf ?o ?n buf3 s3" by auto
      then show ?thesis using st(1) lown False n0 clip bits \<open>unat (bt_size s - ?low) = ?m\<close> \<open>bt_size s2 = bt_size s\<close>
        by (simp add: blk_access_def Let_def)
    qed
  qed
qed

text \<open>C6: On a device of whole blocks an access of any bytes inside the device moves exactly these bytes: a read delivers
  them to the caller's buffer and changes nothing, a write replaces them and no other byte, whatever part of a block
  they begin and end in. The device is one whose own methods move whole blocks, as the contract \<open>block_store\<close> says; the disk driver
  keeps that contract for transfers of fewer than 256 sectors only.\<close>

theorem block_access_is_byte_access:
  assumes "block_store ops ok content b" "ok (bt_dev s)" "bt_wf b s"
    and "unat offset + unat n \<le> length (content (bt_dev s))" "unat n \<le> length buf"
  shows "\<exists>buf' s'. blk_access ops wr buf offset n s = Inr (n, buf', s') \<and> ok (bt_dev s') \<and> bt_wf b s'
    \<and> (if wr then buf' = buf \<and> content (bt_dev s') = splice (content (bt_dev s)) (unat offset) (take (unat n) buf)
       else buf' = splice buf 0 (slice (content (bt_dev s)) (unat offset) (unat n)) \<and> content (bt_dev s') = content (bt_dev s))"
proof (cases "n = 0")
  case True
  then show ?thesis using assms by (simp add: blk_access_def slice_def)
next
  case False
  then have n0: "0 < unat n" by (simp add: unat_gt_0)
  let ?c = "content (bt_dev s)" and ?s1 = "check_block_size_changed ops s"
  note bd = block_storeD [OF assms(1,2)]
  have r: "bt_ready b ?s1" "bt_dev ?s1 = bt_dev s" using check_ready [OF assms(3) bd(2,1)] by simp_all
  have at: "at_pos ok content b wr ?c buf (unat offset) 0 buf ?s1" using r assms(2) by (simp add: at_pos_def moved_zero)
  have clip: "clip_size ops wr offset n ?s1 = (n, ?s1)" by (rule clip_inside [OF _ bd(4) assms(4)]) (simp add: r(2) bd(3))
  from access_steps [OF assms(1) at n0 assms(4) bd(4,5) assms(5) clip] obtain buf' s' where
    st: "blk_access ops wr buf offset n s = Inr (n, buf', s')" "at_pos ok content b wr ?c buf (unat offset) (unat n) buf' s'" by blast
  then show ?thesis by (auto simp: at_pos_def moved_def bt_wf_def slice_def)
qed

text \<open>A device in memory with blocks of four bytes.\<close>

definition mem_blocks :: "u8 list blk_ops" where
  "mem_blocks = \<lparr>bo_bits = \<lambda>_. 2, bo_size = \<lambda>d. of_nat (length d), bo_set_size = default_set_size,
     bo_read = \<lambda>d blk n. Inr (n, slice d (unat blk * 4) (unat n * 4), d),
     bo_write = \<lambda>d bs blk n. Inr (n, splice d (unat blk * 4) bs)\<rparr>"

lemma mem_blocks_store: "block_store mem_blocks (\<lambda>d. length d = 12) id 2"
  by (auto simp: block_store_def mem_blocks_def algebra_simps)

theorem block_access_is_byte_access_witness:
  "\<exists>s'. blk_access mem_blocks True [7, 8, 9, 10, 11, 12] 3 6 (bt_new [0, 1, 2, 3, 4, 5, 6, 7, 8, 9, 10, 11]) = Inr (6, [7, 8, 9, 10, 11, 12], s')
    \<and> bt_dev s' = [0, 1, 2, 7, 8, 9, 10, 11, 12, 9, 10, 11]"
  using block_access_is_byte_access [OF mem_blocks_store, of "bt_new [0, 1, 2, 3, 4, 5, 6, 7, 8, 9, 10, 11]" 3 6 "[7, 8, 9, 10, 11, 12]" True]
  by (fastforce simp: bt_new_def bt_wf_def splice_def)

text \<open>A read that begins behind the end of the device does not return zero bytes: the size of the access underflows to
  almost \<open>2 ^ 64\<close>.\<close>

theorem read_behind_end_underflows:
  assumes "unat (bo_size ops (bt_dev s)) < unat offset" "unat offset + unat n < 2 ^ 64"
  shows "unat (fst (clip_size ops False offset n s)) = 2 ^ 64 + unat (bo_size ops (bt_dev s)) - unat offset"
proof -
  have "unat (offset + n) = unat offset + unat n" using assms(2) by (intro unat_add_small) simp
  then have "bo_size ops (bt_dev s) < offset + n" using assms(1) by (simp add: word_less_unat)
  then show ?thesis using unat_diff_wrap [OF assms(1)] by (simp add: clip_size_def)
qed

theorem read_behind_end_underflows_witness:
  "fst (clip_size mem_blocks False 5 1 (bt_new [1, 2, 3, 4])) = 0xffffffffffffffff"
proof -
  have "unat (fst (clip_size mem_blocks False 5 1 (bt_new [1, 2, 3, 4]))) = 2 ^ 64 + unat (bo_size mem_blocks (bt_dev (bt_new [1, 2, 3, 4]))) - unat (5 :: u64)"
    by (rule read_behind_end_underflows) (simp_all add: mem_blocks_def bt_new_def)
  then show ?thesis by (simp add: word_unat_eq_iff mem_blocks_def bt_new_def)
qed

end
