(* ===== verification/Bytes.thy ===== *)
theory Bytes
  imports Prelude
begin

text \<open>
  Structures in memory: the processor stores integers with the least significant byte first, and the packed
  structures of the drivers and file systems are sequences of such integers. \<open>put\<close> functions give the bytes of a
  value, \<open>take\<close> functions read a value from the front of a list and return the rest, \<open>get\<close> functions read at an
  offset.
\<close>

definition put16 :: "u16 \<Rightarrow> u8 list" where
  "put16 x = [ucast x, ucast (drop_bit 8 x)]"

definition put32 :: "u32 \<Rightarrow> u8 list" where
  "put32 x = [ucast x, ucast (drop_bit 8 x), ucast (drop_bit 16 x), ucast (drop_bit 24 x)]"

definition join16 :: "u8 \<Rightarrow> u8 \<Rightarrow> u16" where
  "join16 a b = ucast a OR push_bit 8 (ucast b)"

definition join32 :: "u8 \<Rightarrow> u8 \<Rightarrow> u8 \<Rightarrow> u8 \<Rightarrow> u32" where
  "join32 a b c d = ucast a OR push_bit 8 (ucast b) OR push_bit 16 (ucast c) OR push_bit 24 (ucast d)"

definition get16 :: "u8 list \<Rightarrow> nat \<Rightarrow> u16" where
  "get16 bs i = join16 (bs ! i) (bs ! (i + 1))"

definition get32 :: "u8 list \<Rightarrow> nat \<Rightarrow> u32" where
  "get32 bs i = join32 (bs ! i) (bs ! (i + 1)) (bs ! (i + 2)) (bs ! (i + 3))"

fun take8 :: "u8 list \<Rightarrow> u8 \<times> u8 list" where
  "take8 (a # bs) = (a, bs)"
| "take8 bs = (0, [])"

fun take16 :: "u8 list \<Rightarrow> u16 \<times> u8 list" where
  "take16 (a # b # bs) = (join16 a b, bs)"
| "take16 bs = (0, [])"

fun take32 :: "u8 list \<Rightarrow> u32 \<times> u8 list" where
  "take32 (a # b # c # d # bs) = (join32 a b c d, bs)"
| "take32 bs = (0, [])"

definition take_bytes :: "nat \<Rightarrow> u8 list \<Rightarrow> u8 list \<times> u8 list" where
  "take_bytes n bs = (take n bs, drop n bs)"

fun take_many :: "(u8 list \<Rightarrow> 'a \<times> u8 list) \<Rightarrow> nat \<Rightarrow> u8 list \<Rightarrow> 'a list \<times> u8 list" where
  "take_many f 0 bs = ([], bs)"
| "take_many f (Suc n) bs = (let (x, bs) = f bs; (xs, bs) = take_many f n bs in (x # xs, bs))"

definition bytes_of32 :: "u32 list \<Rightarrow> u8 list" where
  "bytes_of32 xs = concat (map put32 xs)"

definition words32 :: "u8 list \<Rightarrow> u32 list" where
  "words32 bs = fst (take_many take32 (length bs div 4) bs)"

text \<open>A reader that undoes a writer.\<close>

lemma join16_split: "join16 (ucast x) (ucast (drop_bit 8 x)) = x"
  unfolding join16_def by (intro bit_eqI) (auto simp: bit_simps)

lemma join32_split: "join32 (ucast x) (ucast (drop_bit 8 x)) (ucast (drop_bit 16 x)) (ucast (drop_bit 24 x)) = x"
  unfolding join32_def by (intro bit_eqI) (auto simp: bit_simps, rule ccontr, simp)

lemma take8_put [simp]: "take8 ([x] @ bs) = (x, bs)"
  by simp

lemma take16_put [simp]: "take16 (put16 x @ bs) = (x, bs)"
  by (simp add: put16_def join16_split)

lemma take32_put [simp]: "take32 (put32 x @ bs) = (x, bs)"
  by (simp add: put32_def join32_split)

lemma take_bytes_put [simp]: "length xs = n \<Longrightarrow> take_bytes n (xs @ bs) = (xs, bs)"
  by (simp add: take_bytes_def)

lemma take_many_put: "(\<And>x bs. f (g x @ bs) = (x, bs)) \<Longrightarrow> take_many f (length xs) (concat (map g xs) @ bs) = (xs, bs)"
  by (induction xs) auto

lemma length_put [simp]: "length (put16 x) = 2" "length (put32 y) = 4"
  by (simp_all add: put16_def put32_def)

lemma length_bytes_of32 [simp]: "length (bytes_of32 xs) = 4 * length xs"
  by (induction xs) (simp_all add: bytes_of32_def)

lemma take_many_32 [simp]: "length xs = n \<Longrightarrow> take_many take32 n (bytes_of32 xs @ bs) = (xs, bs)"
  unfolding bytes_of32_def using take_many_put [of take32 put32 xs bs] by simp

lemma length_take_many: "length (fst (take_many f n bs)) = n"
  by (induction n arbitrary: bs) (auto simp: case_prod_beta Let_def)

lemma length_words32 [simp]: "length (words32 bs) = length bs div 4"
  by (simp add: words32_def length_take_many)

lemma words32_bytes [simp]: "words32 (bytes_of32 xs) = xs"
  using take_many_32 [of xs "length xs" "[]"] by (simp add: words32_def)

lemma get16_put: "length xs = i \<Longrightarrow> get16 (xs @ put16 v @ ys) i = v"
  by (simp add: get16_def put16_def nth_append join16_split)

lemma get32_put: "length xs = i \<Longrightarrow> get32 (xs @ put32 v @ ys) i = v"
  by (simp add: get32_def put32_def nth_append join32_split)

end
