(* ===== verification/Elf.thy ===== *)
theory Elf
  imports Proc_Memory Bytes
begin

text \<open>
  The loader of executables (\<open>kernel/src/proc/elf.cpp\<close>). The file is a parameter: \<open>rd\<close> reads from an offset and
  delivers the number of bytes and the bytes. Bytes stored at a virtual address go to the physical page that the address
  space in use translates it to; where there is none the store is a \<open>Fault\<close>. What the kernel's heap holds behind the program header table, where the
  code reads when the file's entries are short, is the parameter \<open>hp\<close>. The log output is left out.
\<close>

record elf_header =
  eh_ident :: "u8 list"
  eh_type :: u16
  eh_machine :: u16
  eh_version :: u32
  eh_entry :: u32
  eh_phoff :: u32
  eh_shoff :: u32
  eh_flags :: u32
  eh_ehsize :: u16
  eh_phentsize :: u16
  eh_phnum :: u16
  eh_shentsize :: u16
  eh_shnum :: u16
  eh_shstrndx :: u16

record prog_header =
  ph_kind :: u32
  ph_offset :: u32
  ph_vaddr :: u32
  ph_paddr :: u32
  ph_filesz :: u32
  ph_memsz :: u32
  ph_flags :: u32
  ph_align :: u32

definition ET_EXEC :: u16 where "ET_EXEC = 2"
definition EM_386 :: u16 where "EM_386 = 3"
definition CLASS_32 :: u8 where "CLASS_32 = 1"
definition PT_LOAD :: u32 where "PT_LOAD = 1"
definition PT_DYNAMIC :: u32 where "PT_DYNAMIC = 2"
definition PF_X :: u32 where "PF_X = 1"
definition PF_W :: u32 where "PF_W = 2"
definition PF_R :: u32 where "PF_R = 4"

definition elf_magic :: "u8 list" where
  "elf_magic = [0x7f, 0x45, 0x4c, 0x46]"

definition put_elf_header :: "elf_header \<Rightarrow> u8 list" where
  "put_elf_header h = eh_ident h @ put16 (eh_type h) @ put16 (eh_machine h) @ put32 (eh_version h) @ put32 (eh_entry h)
     @ put32 (eh_phoff h) @ put32 (eh_shoff h) @ put32 (eh_flags h) @ put16 (eh_ehsize h) @ put16 (eh_phentsize h)
     @ put16 (eh_phnum h) @ put16 (eh_shentsize h) @ put16 (eh_shnum h) @ put16 (eh_shstrndx h)"

definition take_elf_header :: "u8 list \<Rightarrow> elf_header \<times> u8 list" where
  "take_elf_header b = (let (a1, b) = take_bytes 16 b; (a2, b) = take16 b; (a3, b) = take16 b; (a4, b) = take32 b; (a5, b) = take32 b;
     (a6, b) = take32 b; (a7, b) = take32 b; (a8, b) = take32 b; (a9, b) = take16 b; (a10, b) = take16 b; (a11, b) = take16 b;
     (a12, b) = take16 b; (a13, b) = take16 b; (a14, b) = take16 b in
     (\<lparr>eh_ident = a1, eh_type = a2, eh_machine = a3, eh_version = a4, eh_entry = a5, eh_phoff = a6, eh_shoff = a7, eh_flags = a8,
       eh_ehsize = a9, eh_phentsize = a10, eh_phnum = a11, eh_shentsize = a12, eh_shnum = a13, eh_shstrndx = a14\<rparr>, b))"

definition put_prog_header :: "prog_header \<Rightarrow> u8 list" where
  "put_prog_header p = put32 (ph_kind p) @ put32 (ph_offset p) @ put32 (ph_vaddr p) @ put32 (ph_paddr p) @ put32 (ph_filesz p)
     @ put32 (ph_memsz p) @ put32 (ph_flags p) @ put32 (ph_align p)"

definition take_prog_header :: "u8 list \<Rightarrow> prog_header \<times> u8 list" where
  "take_prog_header b = (let (a1, b) = take32 b; (a2, b) = take32 b; (a3, b) = take32 b; (a4, b) = take32 b; (a5, b) = take32 b;
     (a6, b) = take32 b; (a7, b) = take32 b; (a8, b) = take32 b in
     (\<lparr>ph_kind = a1, ph_offset = a2, ph_vaddr = a3, ph_paddr = a4, ph_filesz = a5, ph_memsz = a6, ph_flags = a7, ph_align = a8\<rparr>, b))"

lemma take_put_elf: "length (eh_ident h) = 16 \<Longrightarrow> take_elf_header (put_elf_header h @ r) = (h, r)"
  by (cases h) (simp add: put_elf_header_def take_elf_header_def)

lemma take_put_prog: "take_prog_header (put_prog_header p @ r) = (p, r)"
  by (cases p) (simp add: put_prog_header_def take_prog_header_def)

definition validate_header :: "elf_header \<Rightarrow> bool" where
  "validate_header h \<longleftrightarrow> take 4 (eh_ident h) = elf_magic \<and> eh_machine h = EM_386 \<and> eh_ident h ! 4 = CLASS_32"

subsection \<open>Bytes in an address space\<close>

definition page_of :: "u32 \<Rightarrow> u64" where
  "page_of a = ucast a div PAGE_SIZE"

definition page_off :: "u32 \<Rightarrow> nat" where
  "page_off a = unat (a mod 4096)"

definition store_byte :: "nat \<Rightarrow> memory \<Rightarrow> u32 \<times> u8 \<Rightarrow> memory result" where
  "store_byte x s = (\<lambda>(a, b). let p = trans (mm_pg s) x (page_of a) in if p = 0 then Inl Fault
     else bindr (upd_r (mm_data s p) (page_off a) b) (\<lambda>bs. Inr (s\<lparr>mm_data := (mm_data s)(p := bs)\<rparr>)))"

definition load_byte :: "nat \<Rightarrow> memory \<Rightarrow> u32 \<Rightarrow> u8 result" where
  "load_byte x s a = (let p = trans (mm_pg s) x (page_of a) in if p = 0 then Inl Fault
     else nth_r (mm_data s p) (page_off a))"

definition store_bytes :: "nat \<Rightarrow> u32 \<Rightarrow> u8 list \<Rightarrow> memory \<Rightarrow> memory result" where
  "store_bytes x a bs s = run_all (store_byte x) s (zip (map (\<lambda>i. a + of_nat i) [0..<length bs]) bs)"

subsection \<open>Loading\<close>

type_synonym 'd reader = "'d \<Rightarrow> u64 \<Rightarrow> u64 \<Rightarrow> (u64 \<times> u8 list \<times> 'd) result"

definition perms_of :: "u32 \<Rightarrow> u32" where
  "perms_of fl = (if fl AND PF_R \<noteq> 0 then PERM_READ else 0) OR (if fl AND PF_W \<noteq> 0 then PERM_WRITE else 0)
     OR (if fl AND PF_X \<noteq> 0 then PERM_EXEC else 0)"

text \<open>Filling a segment that is mapped: the part that is in the file, then zeros. After a failed read the address space
  of the target stays in use.\<close>

definition fill_segment :: "'d reader \<Rightarrow> kmap \<Rightarrow> nat \<Rightarrow> nat \<Rightarrow> nat \<Rightarrow> prog_header \<Rightarrow> memory \<times> 'd \<Rightarrow> (bool \<times> memory \<times> 'd) result" where
  "fill_segment rd k pa x q ph sd = (let n = min (ph_memsz ph) (ph_filesz ph) in
     bindr (if n = 0 then Inr (True, sd) else bindr (rd (snd sd) (ucast (ph_offset ph)) (ucast n)) (\<lambda>(m, bs, d).
       bindr (store_bytes x (ph_vaddr ph) bs (fst sd)) (\<lambda>s. Inr (m = ucast n, s, d)))) (\<lambda>(ok, s, d).
     if \<not> ok then bindr (unmap_segment k pa q s) (\<lambda>s. Inr (False, s, d))
     else bindr (store_bytes x (ph_vaddr ph + n) (replicate (unat (ph_memsz ph) - unat (ph_filesz ph)) 0) s) (\<lambda>s. Inr (True, s, d))))"

definition load_entry :: "'d reader \<Rightarrow> kmap \<Rightarrow> nat \<Rightarrow> prog_header \<Rightarrow> memory \<times> 'd \<Rightarrow> (bool \<times> memory \<times> 'd) result" where
  "load_entry rd k pa ph sd = (let (s, d) = sd in
     if ph_kind ph \<noteq> PT_LOAD \<and> ph_kind ph \<noteq> PT_DYNAMIC then Inr (True, s, d)
     else if ph_kind ph = PT_DYNAMIC then Inr (False, s, d)
     else if ph_vaddr ph = 0 then Inr (False, s, d)
     else let r = mr_to_pagerange (mr_addr_size (ucast (ph_vaddr ph)) (ucast (ph_memsz ph))) in
     bindr (seg_create (unat (pr_page_count r)) (perms_of (ph_flags ph)) False False s) (\<lambda>(seg, s).
     case seg of None \<Rightarrow> Inr (False, s, d) | Some a \<Rightarrow>
     bindr (map_segment k pa a r s) (\<lambda>(ps, s). case ps of None \<Rightarrow> bindr (seg_delete a s) (\<lambda>s. Inr (False, s, d))
     | Some q \<Rightarrow> bindr (the_r (mm_procs s pa)) (\<lambda>p. bindr (the_r (pg_cur (mm_pg s))) (\<lambda>prev.
         bindr (fill_segment rd k pa (px_vmem p) q ph (s\<lparr>mm_pg := vm_use (px_vmem p) (mm_pg s)\<rparr>, d)) (\<lambda>(ok, s, d).
           Inr (ok, if ok then s\<lparr>mm_pg := vm_use prev (mm_pg s)\<rparr> else s, d)))))))"

text \<open>The table is walked in steps of the entry size that the header gives, up to its \<open>n\<close> bytes. \<open>tm\<close> are the bytes of the kernel's heap from the
  start of the table: an entry that begins in the table and ends behind it is read with the bytes that follow on the heap.\<close>

definition entry_at :: "(nat \<Rightarrow> u8) \<Rightarrow> nat \<Rightarrow> prog_header" where
  "entry_at tm pos = fst (take_prog_header (map tm [pos..<pos + 32]))"

function load_entries :: "'d reader \<Rightarrow> kmap \<Rightarrow> nat \<Rightarrow> nat \<Rightarrow> nat \<Rightarrow> nat \<Rightarrow> (nat \<Rightarrow> u8) \<Rightarrow> memory \<times> 'd \<Rightarrow> (bool \<times> memory \<times> 'd) result" where
  "load_entries rd k pa step pos n tm sd = (if pos \<ge> n then Inr (True, fst sd, snd sd)
     else if step = 0 then Inl Hang
     else bindr (load_entry rd k pa (entry_at tm pos) sd) (\<lambda>(ok, s, d).
       if \<not> ok then Inr (False, s, d) else load_entries rd k pa step (pos + step) n tm (s, d)))"
  by pat_completeness auto
termination by (relation "measure (\<lambda>(rd, k, pa, step, pos, n, tm, sd). n - pos)") auto

declare load_entries.simps [simp del]

text \<open>\<open>hp\<close> is what the heap holds where the table is put, before it is read and behind it.\<close>

definition load_program :: "'d reader \<Rightarrow> (nat \<Rightarrow> u8) \<Rightarrow> kmap \<Rightarrow> nat \<Rightarrow> elf_header \<Rightarrow> memory \<times> 'd \<Rightarrow> (bool \<times> memory \<times> 'd) result" where
  "load_program rd hp k pa h sd = (if eh_phoff h = 0 then Inr (False, fst sd, snd sd) else
     let n = ucast (eh_phentsize h) * ucast (eh_phnum h) :: u32 in
     bindr (rd (snd sd) (ucast (eh_phoff h)) (ucast n)) (\<lambda>(m, tab, d). if m \<noteq> ucast n then Inr (False, fst sd, d)
       else load_entries rd k pa (unat (eh_phentsize h)) 0 (unat n) (\<lambda>i. if i < length tab then tab ! i else hp i) (fst sd, d)))"

text \<open>The entry point of the program, or nothing.\<close>

definition load_executable :: "'d reader \<Rightarrow> (nat \<Rightarrow> u8) \<Rightarrow> kmap \<Rightarrow> nat \<Rightarrow> memory \<times> 'd \<Rightarrow> (u32 option \<times> memory \<times> 'd) result" where
  "load_executable rd hp k pa sd = bindr (rd (snd sd) 0 52) (\<lambda>(m, bs, d). let h = fst (take_elf_header bs) in
     if ucast m \<noteq> (52 :: u32) then Inr (None, fst sd, d)
     else if \<not> validate_header h then Inr (None, fst sd, d)
     else if eh_type h \<noteq> ET_EXEC then Inr (None, fst sd, d)
     else bindr (load_program rd hp k pa h (fst sd, d)) (\<lambda>(ok, s, d). Inr (if ok then Some (eh_entry h) else None, s, d)))"

subsection \<open>The bytes of a segment\<close>

text \<open>The addresses \<open>A\<close> are mapped, their pages to different frames.\<close>

definition backed :: "nat \<Rightarrow> u32 set \<Rightarrow> memory \<Rightarrow> bool" where
  "backed x A s \<longleftrightarrow> (\<forall>a \<in> A. trans (mm_pg s) x (page_of a) \<noteq> 0 \<and> length (mm_data s (trans (mm_pg s) x (page_of a))) = 4096)
     \<and> (\<forall>a \<in> A. \<forall>b \<in> A. trans (mm_pg s) x (page_of a) = trans (mm_pg s) x (page_of b) \<longrightarrow> page_of a = page_of b)"

lemma page_offset: "page_of a = page_of b \<Longrightarrow> page_off a = page_off b \<Longrightarrow> a = b"
proof -
  assume p: "page_of a = page_of b" and o: "page_off a = page_off b"
  have "unat (page_of c) = unat c div 4096" for c by (simp add: page_of_def unat_div)
  then have "unat a div 4096 = unat b div 4096" using p by metis
  moreover have "unat a mod 4096 = unat b mod 4096" using o by (simp add: page_off_def unat_mod)
  ultimately have "unat a = unat b" by (metis div_mult_mod_eq)
  then show ?thesis by (simp add: word_unat_eq_iff)
qed

lemma page_off_less: "page_off a < 4096"
  by (simp add: page_off_def unat_mod)

lemma store_byte_spec:
  assumes "backed x A s" "a \<in> A"
  shows "\<exists>s'. store_byte x s (a, b) = Inr s' \<and> backed x A s' \<and> mm_pg s' = mm_pg s
    \<and> (\<forall>c \<in> A. load_byte x s' c = (if c = a then Inr b else load_byte x s c))"
proof -
  define p where "p = trans (mm_pg s) x (page_of a)"
  define s' where "s' = s\<lparr>mm_data := (mm_data s)(p := (mm_data s p)[page_off a := b])\<rparr>"
  have p: "p \<noteq> 0" "length (mm_data s p) = 4096" using assms by (auto simp: backed_def p_def)
  have s': "mm_pg s' = mm_pg s" "mm_data s' = (mm_data s)(p := (mm_data s p)[page_off a := b])" by (simp_all add: s'_def)
  have run: "store_byte x s (a, b) = Inr s'" using p page_off_less [of a]
    by (simp add: store_byte_def Let_def p_def [symmetric] s'_def)
  have m: "backed x A s'" using assms(1) p(2) unfolding backed_def s' by simp
  have "load_byte x s' c = (if c = a then Inr b else load_byte x s c)" if c: "c \<in> A" for c
  proof (cases "trans (mm_pg s) x (page_of c) = p")
    case True
    then have "page_of c = page_of a" using assms c unfolding backed_def p_def by blast
    then have "page_off c = page_off a \<longleftrightarrow> c = a" using page_offset [of c a] by blast
    then show ?thesis using True p page_off_less [of c] page_off_less [of a]
      by (cases "c = a") (simp_all add: load_byte_def Let_def s' nth_list_update)
  next
    case False
    then have "c \<noteq> a" by (auto simp: p_def)
    then show ?thesis using False by (simp add: load_byte_def Let_def s')
  qed
  then show ?thesis using run m s'(1) by blast
qed

lemma store_list:
  assumes "backed x A s" "set (map fst ps) \<subseteq> A" "distinct (map fst ps)"
  shows "\<exists>s'. run_all (store_byte x) s ps = Inr s' \<and> backed x A s' \<and> mm_pg s' = mm_pg s
    \<and> (\<forall>c \<in> A. load_byte x s' c = (case map_of ps c of Some b \<Rightarrow> Inr b | None \<Rightarrow> load_byte x s c))"
  using assms
proof (induction ps arbitrary: s)
  case (Cons ab ps)
  obtain a b where ab: "ab = (a, b)" by force
  obtain s1 where s1: "store_byte x s (a, b) = Inr s1" "backed x A s1" "mm_pg s1 = mm_pg s"
      "\<forall>c \<in> A. load_byte x s1 c = (if c = a then Inr b else load_byte x s c)"
    using store_byte_spec [OF Cons.prems(1), of a b] Cons.prems(2) ab by auto
  obtain s2 where s2: "run_all (store_byte x) s1 ps = Inr s2" "backed x A s2" "mm_pg s2 = mm_pg s1"
      "\<forall>c \<in> A. load_byte x s2 c = (case map_of ps c of Some b \<Rightarrow> Inr b | None \<Rightarrow> load_byte x s1 c)"
    using Cons.IH [OF s1(2)] Cons.prems(2,3) by auto
  have "map_of ps a = None" using Cons.prems(3) ab by (simp add: map_of_eq_None_iff)
  then have "\<forall>c \<in> A. load_byte x s2 c = (case map_of (ab # ps) c of Some b \<Rightarrow> Inr b | None \<Rightarrow> load_byte x s c)"
    using s1(4) s2(4) ab by (auto split: option.splits)
  then show ?case using s1 s2 ab by auto
qed simp

text \<open>The addresses of \<open>n\<close> bytes from \<open>a\<close>.\<close>

definition span :: "u32 \<Rightarrow> nat \<Rightarrow> u32 set" where
  "span a n = (\<lambda>i. a + of_nat i) ` {..<n}"

lemma span_inj: "n \<le> 4294967296 \<Longrightarrow> i < n \<Longrightarrow> j < n \<Longrightarrow> a + of_nat i = a + (of_nat j :: u32) \<Longrightarrow> i = j"
proof -
  assume n: "n \<le> 4294967296" and i: "i < n" and j: "j < n" and e: "a + of_nat i = a + (of_nat j :: u32)"
  have "(of_nat i :: u32) = of_nat j" using e by (rule add_left_imp_eq)
  then have "unat (of_nat i :: u32) = unat (of_nat j :: u32)" by (rule arg_cong)
  then show "i = j" using n i j unfolding unat_of_nat32 [OF less_le_trans [OF i n]] unat_of_nat32 [OF less_le_trans [OF j n]] by blast
qed

lemma store_bytes_spec:
  assumes "backed x A s" "span a (length bs) \<subseteq> A" "length bs \<le> 4294967296"
  shows "\<exists>s'. store_bytes x a bs s = Inr s' \<and> backed x A s' \<and> mm_pg s' = mm_pg s
    \<and> (\<forall>i < length bs. load_byte x s' (a + of_nat i) = Inr (bs ! i))
    \<and> (\<forall>c \<in> A - span a (length bs). load_byte x s' c = load_byte x s c)"
proof -
  let ?as = "map (\<lambda>i. a + of_nat i) [0..<length bs] :: u32 list"
  have f: "map fst (zip ?as bs) = ?as" by (simp add: map_fst_zip_take)
  have d: "distinct ?as" using span_inj [OF assms(3), of _ _ a] by (auto simp: distinct_map inj_on_def)
  obtain s' where s': "run_all (store_byte x) s (zip ?as bs) = Inr s'" "backed x A s'" "mm_pg s' = mm_pg s"
      "\<forall>c \<in> A. load_byte x s' c = (case map_of (zip ?as bs) c of Some b \<Rightarrow> Inr b | None \<Rightarrow> load_byte x s c)"
    using store_list [OF assms(1), of "zip ?as bs"] assms(2) f d by (auto simp: span_def atLeast0LessThan)
  have "map_of (zip ?as bs) (a + of_nat i) = Some (bs ! i)" if "i < length bs" for i
    using map_of_zip_nth [of ?as bs i] d that by simp
  moreover have "a + of_nat i \<in> A" if "i < length bs" for i using assms(2) that by (auto simp: span_def)
  moreover have "load_byte x s' c = load_byte x s c" if "c \<in> A - span a (length bs)" for c
  proof -
    have "c \<notin> set ?as" using that by (auto simp: span_def)
    then have "c \<notin> fst ` set (zip ?as bs)" using f by (metis set_map)
    then have "map_of (zip ?as bs) c = None" unfolding map_of_eq_None_iff .
    then show ?thesis using s'(4) that by (simp only: option.case Diff_iff)
  qed
  ultimately show ?thesis using s'
    by (intro exI [of _ s']) (simp add: store_bytes_def del: zip_map1)
qed

lemma span_split: "n = m + l \<Longrightarrow> span a n = span a m \<union> span (a + of_nat m) l"
proof -
  assume n: "n = m + l"
  have "{..<n} = {..<m} \<union> (\<lambda>i. m + i) ` {..<l}" unfolding n
  proof (intro equalityI subsetI)
    fix i assume "i \<in> {..<m + l}"
    then have "i < m \<or> (i = m + (i - m) \<and> i - m < l)" by auto
    then show "i \<in> {..<m} \<union> (\<lambda>i. m + i) ` {..<l}" by blast
  qed auto
  then show ?thesis by (simp add: span_def image_Un image_image add.assoc)
qed

text \<open>C29: A segment whose pages are mapped and whose part in the file is read in full holds that part and then zeros up to
  its size in memory; every other mapped byte keeps its value.\<close>

theorem loaded_segment_image:
  assumes m: "backed x A s" "span (ph_vaddr ph) (unat (ph_memsz ph)) \<subseteq> A"
    and rd: "rd d (ucast (ph_offset ph)) (ucast (min (ph_memsz ph) (ph_filesz ph))) = Inr (ucast (min (ph_memsz ph) (ph_filesz ph)), bs, d')"
      "length bs = unat (min (ph_memsz ph) (ph_filesz ph))"
  shows "\<exists>s' d''. fill_segment rd k pa x q ph (s, d) = Inr (True, s', d'')
    \<and> (\<forall>i < unat (ph_memsz ph). load_byte x s' (ph_vaddr ph + of_nat i) = Inr (if i < unat (ph_filesz ph) then bs ! i else 0))
    \<and> (\<forall>c \<in> A - span (ph_vaddr ph) (unat (ph_memsz ph)). load_byte x s' c = load_byte x s c)"
proof -
  let ?v = "ph_vaddr ph" and ?n = "min (ph_memsz ph) (ph_filesz ph)"
  let ?l = "unat (ph_memsz ph) - unat (ph_filesz ph)"
  have n: "unat ?n = min (unat (ph_memsz ph)) (unat (ph_filesz ph))" by (simp add: min_def word_le_nat_alt)
  have nb: "of_nat (length bs) = ?n" unfolding rd(2) by simp
  have sp: "span ?v (unat (ph_memsz ph)) = span ?v (length bs) \<union> span (?v + ?n) ?l"
  proof -
    have "unat (ph_memsz ph) = length bs + ?l" unfolding rd(2) n by simp
    then show ?thesis using span_split [of "unat (ph_memsz ph)" "length bs" ?l ?v] nb by simp
  qed
  have b: "unat (ph_memsz ph) \<le> 4294967296" using unsigned_less [of "ph_memsz ph", where ?'a = nat] by simp
  then have b': "length bs \<le> 4294967296" "?l \<le> 4294967296" using rd(2) n by simp_all
  obtain s1 where s1: "store_bytes x ?v bs s = Inr s1" "backed x A s1"
      "\<forall>i < length bs. load_byte x s1 (?v + of_nat i) = Inr (bs ! i)"
      "\<forall>c \<in> A - span ?v (length bs). load_byte x s1 c = load_byte x s c"
    using store_bytes_spec [OF m(1) _ b'(1), of ?v] m(2) sp by auto
  obtain s2 where s2: "store_bytes x (?v + ?n) (replicate ?l 0) s1 = Inr s2"
      "\<forall>i < ?l. load_byte x s2 (?v + ?n + of_nat i) = Inr (replicate ?l 0 ! i)"
      "\<forall>c \<in> A - span (?v + ?n) ?l. load_byte x s2 c = load_byte x s1 c"
    using store_bytes_spec [OF s1(2), of "?v + ?n" "replicate ?l 0"] m(2) sp b'(2) by auto
  have "bs = []" if "?n = 0" using that rd(2) by simp
  then have "?n = 0 \<Longrightarrow> s1 = s" using s1(1) by (auto simp: store_bytes_def)
  then have run: "\<exists>d''. fill_segment rd k pa x q ph (s, d) = Inr (True, s2, d'')"
    using rd(1) s1(1) s2(1) by (cases "?n = 0") (auto simp: fill_segment_def Let_def)
  have img: "load_byte x s2 (?v + of_nat i) = Inr (if i < unat (ph_filesz ph) then bs ! i else 0)" if i: "i < unat (ph_memsz ph)" for i
  proof (cases "i < length bs")
    case True
    have "?v + of_nat i \<notin> span (?v + ?n) ?l"
    proof
      assume "?v + of_nat i \<in> span (?v + ?n) ?l"
      then obtain j where j: "j < ?l" "?v + of_nat i = ?v + of_nat (length bs + j)"
        using rd(2) by (auto simp: span_def add.assoc)
      moreover have "length bs + j < unat (ph_memsz ph)" using j(1) n rd(2) by simp
      ultimately have "i = length bs + j" using span_inj [OF b i, of "length bs + j" ?v] by blast
      then show False using True by simp
    qed
    moreover have "?v + of_nat i \<in> A" using m(2) i by (auto simp: span_def)
    ultimately show ?thesis using True s1(3) s2(3) n rd(2) by simp
  next
    case False
    then have i': "i - length bs < ?l" "\<not> i < unat (ph_filesz ph)" "of_nat i = of_nat (length bs) + (of_nat (i - length bs) :: u32)"
      using i n rd(2) by (simp_all add: of_nat_add [symmetric] del: of_nat_add)
    show ?thesis using s2(2) i'(1,2) unfolding i'(3) nb by (simp add: add.assoc)
  qed
  have "load_byte x s2 c = load_byte x s c" if "c \<in> A - span ?v (unat (ph_memsz ph))" for c
    using that s1(4) s2(3) unfolding sp by simp
  then show ?thesis using run img by blast
qed

definition demo_exec :: memory where
  "demo_exec = demo_memory\<lparr>mm_pg := demo_mapped, mm_data := \<lambda>p. if p = 0x30 then replicate 4096 0 else []\<rparr>"

definition demo_entry :: prog_header where
  "demo_entry = \<lparr>ph_kind = PT_LOAD, ph_offset = 52, ph_vaddr = 0x5000, ph_paddr = 0, ph_filesz = 2, ph_memsz = 4, ph_flags = PF_R, ph_align = 0\<rparr>"

lemma demo_exec_backed: "backed 2 (span 0x5000 4) demo_exec"
proof -
  have "trans demo_mapped 2 5 = 0x30" unfolding demo_mapped_def
    using with_table_trans [OF demo_wf _ _ demo_fresh, of 0 5] by (simp add: demo_slots demo_idx entry_page_new)
  moreover have "page_of a = 5" if "a \<in> span 0x5000 4" for a
    using that by (auto simp: span_def lessThan_nat_numeral lessThan_Suc page_of_def)
  ultimately show ?thesis by (simp add: backed_def demo_exec_def)
qed

theorem loaded_segment_image_witness:
  "\<exists>s' d. fill_segment (\<lambda>d off n. Inr (2, [7, 9], d)) demo_kmap 9 2 1 demo_entry (demo_exec, ()) = Inr (True, s', d)
    \<and> load_byte 2 s' 0x5001 = Inr 9 \<and> load_byte 2 s' 0x5003 = Inr 0"
proof -
  obtain s' d where "fill_segment (\<lambda>d off n. Inr (2, [7, 9], d)) demo_kmap 9 2 1 demo_entry (demo_exec, ()) = Inr (True, s', d)"
      "\<forall>i < 4. load_byte 2 s' (0x5000 + of_nat i) = Inr (if i < 2 then [7, 9] ! i else 0)"
    using loaded_segment_image [OF demo_exec_backed, of demo_entry "\<lambda>d off n. Inr (2, [7, 9], d)" "()" "[7, 9]" "()" demo_kmap 9 1]
    by (auto simp: demo_entry_def)
  moreover from spec [OF this(2), of 1] spec [OF this(2), of 3] have "load_byte 2 s' 0x5001 = Inr 9" "load_byte 2 s' 0x5003 = Inr 0"
    by simp_all
  ultimately show ?thesis by auto
qed

subsection \<open>Refused files\<close>

lemma loaded_entries:
  "load_entries rd k pa step pos n tm sd = Inr (True, s', d') \<Longrightarrow> pos + j * step < n \<Longrightarrow>
    (let ph = entry_at tm (pos + j * step) in ph_kind ph \<noteq> PT_DYNAMIC \<and> (ph_kind ph = PT_LOAD \<longrightarrow> ph_vaddr ph \<noteq> 0))"
proof (induction j arbitrary: pos sd)
  case (0 pos sd)
  then show ?case
    by (cases sd, subst (asm) load_entries.simps)
      (auto simp: bindr_Inr_iff not_less load_entry_def Let_def PT_LOAD_def PT_DYNAMIC_def split: if_splits)
next
  case (Suc j pos sd)
  then obtain s d where "load_entries rd k pa step (pos + step) n tm (s, d) = Inr (True, s', d')"
    by (subst (asm) load_entries.simps) (auto simp: bindr_Inr_iff not_less split: if_splits)
  then show ?case using Suc.IH [of "pos + step" "(s, d)"] Suc.prems(2) by (simp add: add.assoc)
qed

lemma table_size: "unat (ucast (a :: u16) * ucast (b :: u16) :: u32) = unat a * unat b"
proof -
  have b: "unat c < 65536" for c :: u16 using unsigned_less [of c] by simp
  have u: "unat (ucast c :: u32) = unat c" for c :: u16
    using b [of c] by (simp add: unsigned_ucast_eq take_bit_nat_eq_self_iff)
  have "unat a * unat b < 65536 * 65536" using b [of a] b [of b] by (intro mult_strict_mono) auto
  then show ?thesis by (simp add: unat_word_ariths u)
qed

lemma entry_in_table:
  assumes "pos + 32 \<le> length tab"
  shows "entry_at (\<lambda>i. if i < length tab then tab ! i else hp i) pos = fst (take_prog_header (take 32 (drop pos tab)))"
proof -
  have "map (\<lambda>i. if i < length tab then tab ! i else hp i) [pos..<pos + 32] = take 32 (drop pos tab)"
    using assms by (intro nth_equalityI) auto
  then show ?thesis by (simp add: entry_at_def)
qed

text \<open>C30: A program is started only from a file that begins with \<open>0x7f 'E' 'L' 'F'\<close> and has the class of 32-bit files, the type of an executable and
  the 386 as its machine, and that names a program header table which could be read in full. When the header gives its entries a size, every entry of the table
  was examined: none is a dynamic one, and one that is loaded has an address. An entry is what the 32 bytes from its place
  on give; when entries are at least as long as that they all lie in the table that was read, and only shorter ones are completed by what follows on the
  kernel's heap. The entry point is the header's.\<close>

theorem loaded_executable_is_valid:
  assumes "load_executable rd hp k pa (s, d) = Inr (Some e, s', d')"
  shows "\<exists>m bs d1 tab d2. rd d 0 52 = Inr (m, bs, d1) \<and> (let h = fst (take_elf_header bs); step = unat (eh_phentsize h); n = step * unat (eh_phnum h) in
    take 4 (eh_ident h) = [0x7f, 0x45, 0x4c, 0x46] \<and> eh_ident h ! 4 = 1 \<and> eh_machine h = 3 \<and> eh_type h = 2 \<and> eh_phoff h \<noteq> 0 \<and> e = eh_entry h
    \<and> rd d1 (ucast (eh_phoff h)) (of_nat n) = Inr (of_nat n, tab, d2)
    \<and> (step \<noteq> 0 \<longrightarrow> (\<forall>j < unat (eh_phnum h). let ph = entry_at (\<lambda>i. if i < length tab then tab ! i else hp i) (j * step) in
        ph_kind ph \<noteq> 2 \<and> (ph_kind ph = 1 \<longrightarrow> ph_vaddr ph \<noteq> 0)
        \<and> (length tab = n \<and> 32 \<le> step \<longrightarrow> j * step + 32 \<le> length tab \<and> ph = fst (take_prog_header (take 32 (drop (j * step) tab)))))))"
proof -
  obtain m bs d1 where r: "rd d 0 52 = Inr (m, bs, d1)" using assms by (auto simp: load_executable_def bindr_Inr_iff)
  define h where "h = fst (take_elf_header bs)"
  obtain h': "validate_header h" "eh_type h = ET_EXEC" "e = eh_entry h" "load_program rd hp k pa h (s, d1) = Inr (True, s', d')"
    using assms r by (auto simp: load_executable_def Let_def h_def bindr_Inr_iff split: if_splits)
  define step where "step = unat (eh_phentsize h)"
  define w where "w = (ucast (eh_phentsize h) * ucast (eh_phnum h) :: u32)"
  have w: "unat w = step * unat (eh_phnum h)" by (simp add: w_def step_def table_size)
  then have w': "(ucast w :: u64) = of_nat (step * unat (eh_phnum h))" by (metis of_nat_unat)
  obtain tab d2 where t: "eh_phoff h \<noteq> 0" "rd d1 (ucast (eh_phoff h)) (ucast w) = Inr (ucast w, tab, d2)"
      "load_entries rd k pa step 0 (unat w) (\<lambda>i. if i < length tab then tab ! i else hp i) (s, d2) = Inr (True, s', d')"
    using h'(4) by (auto simp: load_program_def Let_def w_def [symmetric] step_def [symmetric] bindr_Inr_iff split: if_splits)
  have "let ph = entry_at (\<lambda>i. if i < length tab then tab ! i else hp i) (j * step) in
      ph_kind ph \<noteq> 2 \<and> (ph_kind ph = 1 \<longrightarrow> ph_vaddr ph \<noteq> 0)
      \<and> (length tab = step * unat (eh_phnum h) \<and> 32 \<le> step \<longrightarrow> j * step + 32 \<le> length tab \<and> ph = fst (take_prog_header (take 32 (drop (j * step) tab))))"
    if "step \<noteq> 0" "j < unat (eh_phnum h)" for j
  proof -
    have le: "j * step + step \<le> step * unat (eh_phnum h)" using mult_le_mono1 [of "Suc j" "unat (eh_phnum h)" step] that(2) by (simp add: ac_simps)
    then have "0 + j * step < unat w" using that(1) w by linarith
    from loaded_entries [OF t(3) this] show ?thesis
      using le entry_in_table [of "j * step" tab hp] by (auto simp: Let_def PT_LOAD_def PT_DYNAMIC_def)
  qed
  note entries = this
  have "take 4 (eh_ident h) = [0x7f, 0x45, 0x4c, 0x46] \<and> eh_ident h ! 4 = 1 \<and> eh_machine h = 3 \<and> eh_type h = 2"
    using h'(1,2) by (simp add: validate_header_def elf_magic_def ET_EXEC_def EM_386_def CLASS_32_def)
  with h'(3) t(1,2) entries show ?thesis
    by (intro exI [where x = m] exI [where x = bs] exI [where x = d1] exI [where x = tab] exI [where x = d2])
      (unfold Let_def h_def [symmetric] step_def [symmetric] w', use r in blast)
qed

definition demo_reader :: "unit reader" where
  "demo_reader d off n = (if off = 0 then Inr (52, put_elf_header \<lparr>eh_ident = elf_magic @ [1] @ replicate 11 0, eh_type = ET_EXEC, eh_machine = EM_386,
     eh_version = 1, eh_entry = 0x5000, eh_phoff = 52, eh_shoff = 0, eh_flags = 0, eh_ehsize = 52, eh_phentsize = 32, eh_phnum = 1,
     eh_shentsize = 0, eh_shnum = 0, eh_shstrndx = 0\<rparr>, d) else Inr (32, put_prog_header (demo_entry\<lparr>ph_kind := 0\<rparr>), d))"

theorem loaded_executable_is_valid_witness:
  "\<exists>s d. load_executable demo_reader (\<lambda>_. 0) demo_kmap 9 (demo_exec, ()) = Inr (Some 0x5000, s, d)
    \<and> (\<exists>m bs. demo_reader () 0 52 = Inr (m, bs, ()) \<and> eh_machine (fst (take_elf_header bs)) = 3)"
proof -
  have "case load_executable demo_reader (\<lambda>_. 0) demo_kmap 9 (demo_exec, ()) of Inr (Some e, _) \<Rightarrow> e = 0x5000 | _ \<Rightarrow> False"
    by code_simp
  then obtain s d where "load_executable demo_reader (\<lambda>_. 0) demo_kmap 9 (demo_exec, ()) = Inr (Some 0x5000, s, d)"
    by (auto split: sum.splits option.splits prod.splits)
  then show ?thesis using loaded_executable_is_valid [of demo_reader "\<lambda>_. 0" demo_kmap 9 demo_exec "()"] by (auto simp: Let_def)
qed

end
