(* ===== verification/Exec.thy ===== *)
theory Exec
  imports Elf Proc_Manager Scheduler
begin

text \<open>
  \<open>Process::exec\<close> (\<open>kernel/src/proc/process.cpp\<close>): a new memory with the program, a heap and a stack, a new thread, and
  the end of the threads and of the memory that the process had. The file is a reader as in theory \<open>Elf\<close>, \<open>t\<close> the
  address the allocator returns for the thread and \<open>raw\<close> what was there, \<open>me\<close> the address of the process.
\<close>

record 'd machine =
  mc_proc :: process
  mc_mem :: memory
  mc_sched :: scheduler
  mc_dev :: 'd

text \<open>A segment that could not be created is a null pointer: mapping it fails for a range that is taken and is an access
  through it otherwise, deleting it has no effect.\<close>

definition map_created :: "kmap \<Rightarrow> nat \<Rightarrow> nat option \<Rightarrow> page_range \<Rightarrow> memory \<Rightarrow> (nat option \<times> memory) result" where
  "map_created k pa seg r s = (case seg of Some a \<Rightarrow> map_segment k pa a r s
     | None \<Rightarrow> bindr (the_r (mm_procs s pa)) (\<lambda>p. bindr (any_overlap r (px_segments p) s) (\<lambda>hit.
         if hit then Inr (None, s) else Inl Fault)))"

definition delete_created :: "nat option \<Rightarrow> memory \<Rightarrow> memory result" where
  "delete_created seg s = (case seg of None \<Rightarrow> Inr s | Some a \<Rightarrow> seg_delete a s)"

text \<open>The page behind the last one of the program, at least \<open>0x400\<close>; the numbers are cut to 32 bits.\<close>

fun heap_page :: "memory \<Rightarrow> usize \<Rightarrow> nat list \<Rightarrow> usize result" where
  "heap_page s b [] = Inr b"
| "heap_page s b (q # qs) = bindr (the_r (mm_psegs s q)) (\<lambda>z. heap_page s (ucast (max (ucast b) (pr_limit (pz_range z)))) qs)"

abbreviation STACK_PAGES :: u64 where "STACK_PAGES \<equiv> 32"

definition give_heap :: "kmap \<Rightarrow> nat \<Rightarrow> usize \<Rightarrow> memory \<Rightarrow> (nat option \<times> nat option \<times> memory) result" where
  "give_heap k mem hb s = bindr (seg_create 1 (PERM_READ OR PERM_WRITE) False False s) (\<lambda>(h, s).
     bindr (map_created k mem h (pr_base_limit (ucast hb) (ucast (hb + 1))) s) (\<lambda>(q, s).
     bindr (the_r (mm_procs s mem)) (\<lambda>m. Inr (h, q, put_proc mem (m\<lparr>px_heap := q\<rparr>) s))))"

definition give_stack :: "kmap \<Rightarrow> nat \<Rightarrow> memory \<Rightarrow> (nat option \<times> nat option \<times> memory) result" where
  "give_stack k mem s = bindr (seg_create (unat STACK_PAGES) (PERM_READ OR PERM_WRITE) True False s) (\<lambda>(st, s).
     bindr (map_created k mem st (pr_base_limit (0xC0000 - STACK_PAGES) 0xC0000) s) (\<lambda>(q, s). Inr (st, q, s)))"

text \<open>The loop over the old threads: the one that runs is left out, and whether it was met is remembered.\<close>

fun end_threads :: "nat \<Rightarrow> nat list \<Rightarrow> bool \<Rightarrow> scheduler \<Rightarrow> (bool \<times> scheduler) result" where
  "end_threads n [] met sc = Inr (met, sc)"
| "end_threads n (t # ts) met sc = (if t \<noteq> sc_current sc then bindr (sched_exit n t sc) (end_threads n ts met)
     else end_threads n ts True sc)"

definition set_running :: "nat \<Rightarrow> bool \<Rightarrow> scheduler \<Rightarrow> scheduler result" where
  "set_running t b sc = bindr (get_thr sc t) (\<lambda>th. Inr (set_thr t (th\<lparr>thr_running := b\<rparr>) sc))"

text \<open>The part of \<open>exec\<close> behind the last error: the process with its new memory and thread.\<close>

definition start_program :: "kmap \<Rightarrow> nat \<Rightarrow> nat \<Rightarrow> thread \<Rightarrow> nat \<Rightarrow> nat \<Rightarrow> u32 \<Rightarrow> 'd machine \<Rightarrow> (u32 \<times> bool \<times> 'd machine) result" where
  "start_program k n t raw me mem entry mc = bindr (the_r (mm_procs (mc_mem mc) mem)) (\<lambda>m.
     let stack = ucast ((0xC0000 - STACK_PAGES) * 4096) :: usize in
     bindr (create_user_thread t raw entry me (px_vmem m) 0 stack (ucast (STACK_PAGES * 4096)) (mc_sched mc)) (\<lambda>sc.
     bindr (end_threads n (pc_threads (mc_proc mc)) False sc) (\<lambda>(met, sc).
     bindr (proc_delete k (pc_memory (mc_proc mc)) (mc_mem mc)) (\<lambda>s.
     bindr (set_running t True sc) (\<lambda>sc.
       Inr (ENOERR, met, mc\<lparr>mc_proc := (mc_proc mc)\<lparr>pc_threads := [t], pc_memory := mem\<rparr>, mc_mem := s, mc_sched := sc\<rparr>))))))"

text \<open>The error number, and whether the calling thread ends.\<close>

definition process_exec :: "'d reader \<Rightarrow> (nat \<Rightarrow> u8) \<Rightarrow> kmap \<Rightarrow> nat \<Rightarrow> bool \<Rightarrow> nat \<Rightarrow> thread \<Rightarrow> nat \<Rightarrow> 'd machine \<Rightarrow> (u32 \<times> bool \<times> 'd machine) result" where
  "process_exec rd hp k n allowed t raw me mc = (if \<not> allowed then Inr (EACCES, False, mc) else
     bindr (proc_new k (mc_mem mc)) (\<lambda>(mem, s).
     bindr (load_executable rd hp k mem (s, mc_dev mc)) (\<lambda>(info, s, d). case info of
       None \<Rightarrow> bindr (proc_delete k mem s) (\<lambda>s. Inr (ENOEXEC, False, mc\<lparr>mc_mem := s, mc_dev := d\<rparr>))
     | Some entry \<Rightarrow> bindr (the_r (mm_procs s mem)) (\<lambda>m. bindr (heap_page s 0x400 (px_segments m)) (\<lambda>hb.
         let p = (mc_proc mc)\<lparr>pc_brk := (hb + 1) * 4096\<rparr> in
         bindr (give_heap k mem hb s) (\<lambda>(h, hq, s). if hq = None
           then bindr (proc_delete k mem s) (\<lambda>s. bindr (delete_created h s) (\<lambda>s.
             Inr (ENOMEM, False, mc\<lparr>mc_proc := p, mc_mem := s, mc_dev := d\<rparr>)))
           else bindr (give_stack k mem s) (\<lambda>(st, sq, s). if sq = None
             then bindr (proc_delete k mem s) (\<lambda>s. bindr (delete_created h s) (\<lambda>s. bindr (delete_created st s) (\<lambda>s.
               Inr (ENOMEM, False, mc\<lparr>mc_proc := p, mc_mem := s, mc_dev := d\<rparr>))))
             else start_program k n t raw me mem entry (mc\<lparr>mc_proc := p, mc_mem := s, mc_dev := d\<rparr>))))))))"

subsection \<open>Starting a program\<close>

lemma end_threads_rep:
  assumes "sched_rep sc xs" "set ts \<subseteq> set xs" "distinct ts" "length xs \<le> n"
  shows "\<exists>sc'. end_threads n ts met sc = Inr (met \<or> sc_current sc \<in> set ts, sc')
    \<and> sched_rep sc' (filter (\<lambda>x. x \<notin> set ts \<or> x = sc_current sc) xs) \<and> sc_current sc' = sc_current sc
    \<and> (\<forall>x. x \<notin> set ts \<or> x = sc_current sc \<longrightarrow> sc_store sc' x = sc_store sc x)
    \<and> (\<forall>x \<in> set ts. x \<noteq> sc_current sc \<longrightarrow> sc_store sc' x = None)"
  using assms
proof (induction ts arbitrary: sc xs met)
  case (Cons t ts)
  show ?case
  proof (cases "t = sc_current sc")
    case True
    have "set ts \<subseteq> set xs" "distinct ts" "t \<notin> set ts" using Cons.prems by auto
    then obtain sc' where sc': "end_threads n ts True sc = Inr (True, sc')"
        "sched_rep sc' (filter (\<lambda>x. x \<notin> set ts \<or> x = sc_current sc) xs)" "sc_current sc' = sc_current sc"
        "\<forall>x. x \<notin> set ts \<or> x = sc_current sc \<longrightarrow> sc_store sc' x = sc_store sc x"
        "\<forall>x \<in> set ts. x \<noteq> sc_current sc \<longrightarrow> sc_store sc' x = None"
      using Cons.IH [OF Cons.prems(1) _ _ Cons.prems(4), of True] by auto
    moreover have "filter (\<lambda>x. x \<notin> set (t # ts) \<or> x = sc_current sc) xs = filter (\<lambda>x. x \<notin> set ts \<or> x = sc_current sc) xs"
      using True by (auto intro: filter_cong)
    ultimately show ?thesis using True by auto
  next
    case False
    have t: "t \<in> set xs" "t \<notin> set ts" "distinct ts" "set ts \<subseteq> set xs" using Cons.prems by auto
    have d: "distinct xs" using Cons.prems(1) by (simp add: sched_rep_def dl_ring_def)
    obtain s1 where s1: "sched_exit n t sc = Inr s1" "sched_rep s1 (remove1 t xs)" "sc_store s1 t = None"
        "sc_current s1 = sc_current sc" "\<forall>q. q \<noteq> t \<longrightarrow> sc_store s1 q = sc_store sc q"
      using sched_exit_rep [OF Cons.prems(1) t(1) Cons.prems(4)] False by metis
    have r: "remove1 t xs = filter (\<lambda>x. x \<noteq> t) xs" using d by (simp add: distinct_remove1_removeAll removeAll_filter_not_eq eq_commute)
    have "set ts \<subseteq> set (remove1 t xs)" "length (remove1 t xs) \<le> n"
      using t d Cons.prems(4) by (auto simp: length_remove1)
    then obtain sc' where sc': "end_threads n ts met s1 = Inr (met \<or> sc_current s1 \<in> set ts, sc')"
        "sched_rep sc' (filter (\<lambda>x. x \<notin> set ts \<or> x = sc_current s1) (remove1 t xs))" "sc_current sc' = sc_current s1"
        "\<forall>x. x \<notin> set ts \<or> x = sc_current s1 \<longrightarrow> sc_store sc' x = sc_store s1 x"
        "\<forall>x \<in> set ts. x \<noteq> sc_current s1 \<longrightarrow> sc_store sc' x = None"
      using Cons.IH [OF s1(2) _ t(3), of met] by auto
    moreover have "filter (\<lambda>x. x \<notin> set ts \<or> x = sc_current s1) (remove1 t xs) = filter (\<lambda>x. x \<notin> set (t # ts) \<or> x = sc_current sc) xs"
      using False s1(4) unfolding r by (auto intro: filter_cong)
    ultimately show ?thesis using False s1 t(2) by (intro exI [of _ sc']) auto
  qed
qed simp

lemma set_running_rep:
  "sched_rep sc xs \<Longrightarrow> sc_store sc t = Some th \<Longrightarrow> set_running t b sc = Inr (set_thr t (th\<lparr>thr_running := b\<rparr>) sc)
    \<and> sched_rep (set_thr t (th\<lparr>thr_running := b\<rparr>) sc) xs"
  by (auto simp: set_running_def get_thr_def set_thr_def sched_rep_def)

text \<open>C35: Starting a program ends every thread the process had except the one that runs, which is told to end itself; the
  process is left with one new thread, at the end of the ring, that is running, has the program's entry point, the top of the
  stack of 128 KiB below \<open>0xC0000000\<close> and the new memory.\<close>

theorem program_start_replaces_threads:
  assumes run: "start_program k n t raw me mem entry mc = Inr (e, ends, mc')"
    and rep: "sched_rep (mc_sched mc) xs" "set (pc_threads (mc_proc mc)) \<subseteq> set xs" "distinct (pc_threads (mc_proc mc))" "length xs < n"
    and fresh: "t \<noteq> 0" "t \<notin> set xs"
  shows "sched_rep (mc_sched mc') (filter (\<lambda>x. x \<notin> set (pc_threads (mc_proc mc)) \<or> x = sc_current (mc_sched mc)) xs @ [t])
    \<and> ends = (sc_current (mc_sched mc) \<in> set (pc_threads (mc_proc mc)))
    \<and> mc_proc mc' = (mc_proc mc)\<lparr>pc_threads := [t], pc_memory := mem\<rparr>
    \<and> (\<exists>th m. sc_store (mc_sched mc') t = Some th \<and> mm_procs (mc_mem mc) mem = Some m \<and> thr_can_run th \<and> thr_process th = me
      \<and> thr_vmem th = px_vmem m \<and> at_entry (thr_instance th) = entry \<and> at_esp (thr_instance th) = 0xBFFFFFFC)"
proof -
  let ?sc = "mc_sched mc" and ?ts = "pc_threads (mc_proc mc)"
  obtain m where m: "mm_procs (mc_mem mc) mem = Some m" using run by (auto simp: start_program_def bindr_Inr_iff the_r_Inr)
  define th where "th = (thr_new (px_vmem m) me raw)\<lparr>thr_id := sc_counter ?sc, thr_instance := arch_thread_create entry 0 0xBFFE0000 0x20000\<rparr>"
  obtain s1 where s1: "create_user_thread t raw entry me (px_vmem m) 0 0xBFFE0000 0x20000 ?sc = Inr s1" "sched_rep s1 (xs @ [t])"
      "sc_store s1 = (sc_store ?sc)(t \<mapsto> th)" "sc_current s1 = sc_current ?sc"
    using sched_link_rep [of "?sc\<lparr>sc_counter := sc_counter ?sc + 1\<rparr>" xs t th] rep(1) fresh
    unfolding create_user_thread_def th_def by (auto simp: sched_rep_def)
  obtain s2 where s2: "end_threads n ?ts False s1 = Inr (sc_current s1 \<in> set ?ts, s2)"
      "sched_rep s2 (filter (\<lambda>x. x \<notin> set ?ts \<or> x = sc_current s1) (xs @ [t]))"
      "\<forall>x. x \<notin> set ?ts \<or> x = sc_current s1 \<longrightarrow> sc_store s2 x = sc_store s1 x"
    using end_threads_rep [OF s1(2), of ?ts n False] rep(2-4) by auto
  have t: "t \<notin> set ?ts" using rep(2) fresh(2) by blast
  then have st: "sc_store s2 t = Some th" using s2(3) s1(3) by simp
  note sr = set_running_rep [OF s2(2) st, of True]
  have mc': "mc_sched mc' = set_thr t (th\<lparr>thr_running := True\<rparr>) s2" "ends = (sc_current s1 \<in> set ?ts)"
      "mc_proc mc' = (mc_proc mc)\<lparr>pc_threads := [t], pc_memory := mem\<rparr>"
    using run s1(1) s2(1) sr m by (auto simp: start_program_def bindr_Inr_iff)
  have "thr_can_run (th\<lparr>thr_running := True\<rparr>)" "thr_process th = me" "thr_vmem th = px_vmem m"
      "at_entry (thr_instance th) = entry" "at_esp (thr_instance th) = 0xBFFFFFFC"
    by (simp_all add: th_def thr_new_def thr_can_run_def thr_is_blocked_def arch_thread_create_def Let_def)
  then show ?thesis using mc' sr s1(4) t m by (auto simp: set_thr_def)
qed

definition demo_machine :: "unit machine" where
  "demo_machine = \<lparr>mc_proc = (process_new 9 0)\<lparr>pc_threads := [8, 16]\<rparr>, mc_mem = demo_memory\<lparr>mm_procs :=
     [9 \<mapsto> \<lparr>px_vmem = 2, px_heap = None, px_segments = []\<rparr>, 10 \<mapsto> \<lparr>px_vmem = 1, px_heap = None, px_segments = []\<rparr>]\<rparr>,
     mc_sched = demo_sched, mc_dev = ()\<rparr>"

lemma demo_start:
  "case start_program demo_kmap 4 24 demo_thread 5 10 0x5000 demo_machine of Inr (e, ends, _) \<Rightarrow> e = ENOERR \<and> ends | Inl _ \<Rightarrow> False"
  by code_simp

theorem program_start_replaces_threads_witness:
  "\<exists>mc'. start_program demo_kmap 4 24 demo_thread 5 10 0x5000 demo_machine = Inr (ENOERR, True, mc')
    \<and> sched_rep (mc_sched mc') [8, 24]"
proof -
  obtain mc' where run: "start_program demo_kmap 4 24 demo_thread 5 10 0x5000 demo_machine = Inr (ENOERR, True, mc')"
    using demo_start by (auto split: sum.splits)
  have sc: "mc_sched demo_machine = demo_sched" "pc_threads (mc_proc demo_machine) = [8, 16]" "sc_current demo_sched = 8"
    by (simp_all add: demo_machine_def demo_sched_def)
  show ?thesis using program_start_replaces_threads [OF run, unfolded sc, OF demo_sched_rep] run by simp
qed

text \<open>A call that succeeds starts the program that was loaded into a new memory.\<close>

lemma exec_starts_loaded_program:
  assumes "process_exec rd hp k n allowed t raw me mc = Inr (ENOERR, ends, mc')"
  shows "\<exists>mem entry s0 s1 d hb s2. allowed \<and> proc_new k (mc_mem mc) = Inr (mem, s0)
    \<and> load_executable rd hp k mem (s0, mc_dev mc) = Inr (Some entry, s1, d)
    \<and> start_program k n t raw me mem entry
        (mc\<lparr>mc_proc := (mc_proc mc)\<lparr>pc_brk := (hb + 1) * 4096\<rparr>, mc_mem := s2, mc_dev := d\<rparr>) = Inr (ENOERR, ends, mc')"
  using assms by (auto simp: process_exec_def bindr_Inr_iff Let_def errno_defs split: if_splits option.splits)

text \<open>A call of exec that fails leaves the threads, the memory, the handles and the rest of the process, and all threads of the
  system, as they were and does not end the caller; only the heap limit is changed when memory runs out.\<close>

theorem failed_exec_keeps_program:
  assumes "process_exec rd hp k n allowed t raw me mc = Inr (e, ends, mc')" "e \<noteq> ENOERR"
  shows "\<not> ends \<and> mc_sched mc' = mc_sched mc \<and> e \<in> {EACCES, ENOEXEC, ENOMEM}
    \<and> mc_proc mc' = (mc_proc mc)\<lparr>pc_brk := pc_brk (mc_proc mc')\<rparr> \<and> (e \<noteq> ENOMEM \<longrightarrow> mc_proc mc' = mc_proc mc)"
proof -
  have "start_program k n t raw me mem entry x \<noteq> Inr (e, ends, mc')" for mem entry x
    using assms(2) by (auto simp: start_program_def bindr_Inr_iff)
  then show ?thesis using assms
    by (auto simp: process_exec_def bindr_Inr_iff Let_def errno_defs split: if_splits option.splits)
qed

lemma demo_empty_file:
  "case process_exec (\<lambda>d off n. Inr (0, [], d)) (\<lambda>_. 0) demo_kmap 4 True 24 demo_thread 5 demo_machine of Inr (e, ends, _) \<Rightarrow> e = ENOEXEC | Inl _ \<Rightarrow> False"
  by code_simp

theorem failed_exec_keeps_program_witness:
  "\<exists>mc'. process_exec (\<lambda>d off n. Inr (0, [], d)) (\<lambda>_. 0) demo_kmap 4 True 24 demo_thread 5 demo_machine = Inr (ENOEXEC, False, mc')
    \<and> mc_proc mc' = mc_proc demo_machine"
proof -
  obtain ends mc' where run: "process_exec (\<lambda>d off n. Inr (0, [], d)) (\<lambda>_. 0) demo_kmap 4 True 24 demo_thread 5 demo_machine = Inr (ENOEXEC, ends, mc')"
    using demo_empty_file by (auto split: sum.splits)
  then show ?thesis using failed_exec_keeps_program [OF run] by (simp add: errno_defs)
qed

subsection \<open>No room for the stack\<close>

text \<open>Segment \<open>a\<close> belongs to the process segment \<open>q\<close> alone.\<close>

definition owned :: "nat \<Rightarrow> nat \<Rightarrow> memory \<Rightarrow> bool" where
  "owned a q s \<longleftrightarrow> (\<exists>m z. mm_segs s a = Some m \<and> sg_psegs m = [q] \<and> mm_psegs s q = Some z \<and> pz_mem z = Some a)"

lemma process_unmap_store:
  "process_unmap k b r s = Inr s' \<Longrightarrow> mm_segs s b = Some m \<Longrightarrow> mm_psegs s' = mm_psegs s
    \<and> mm_segs s' = (if r \<in> set (sg_psegs m) then (mm_segs s)(b \<mapsto> m\<lparr>sg_psegs := remove1 r (sg_psegs m)\<rparr>) else mm_segs s)"
  by (auto simp: process_unmap_def bindr_Inr_iff Let_def put_seg_def split: if_splits dest!: update_all_segs)

lemma seg_delete_store: "seg_delete b s = Inr s' \<Longrightarrow> mm_psegs s' = mm_psegs s \<and> mm_segs s' = (mm_segs s)(b := None)"
  by (auto simp: seg_delete_def bindr_Inr_iff dest!: dealloc_list_segs)

lemma leave_owned:
  assumes run: "leave_segment k r s = Inr s'" and o: "owned a q s"
  shows "if r = q then mm_segs s' a = None else owned a q s'"
proof -
  obtain m z where m: "mm_segs s a = Some m" "sg_psegs m = [q]" "mm_psegs s q = Some z" "pz_mem z = Some a"
    using o by (auto simp: owned_def)
  obtain z' where z': "mm_psegs s r = Some z'" using run by (auto simp: leave_segment_def bindr_Inr_iff the_r_Inr)
  show ?thesis
  proof (cases "pz_mem z'")
    case None
    then show ?thesis using run z' o m by (auto simp: leave_segment_def)
  next
    case (Some b)
    then obtain s1 m1 where s1: "process_unmap k b r s = Inr s1" "mm_segs s1 b = Some m1"
        "if sg_psegs m1 = [] then seg_delete b s1 = Inr s' else s' = s1"
      using run z' by (auto simp: leave_segment_def bindr_Inr_iff the_r_Inr split: if_splits)
    obtain m0 where m0: "mm_segs s b = Some m0" using s1(1) by (auto simp: process_unmap_def bindr_Inr_iff the_r_Inr)
    note u = process_unmap_store [OF s1(1) m0]
    show ?thesis
    proof (cases "r = q")
      case True
      then have "b = a" "m0 = m" using z' m m0 Some by simp_all
      then have "sg_psegs m1 = []" using u s1(2) m(2) True by auto
      then show ?thesis using s1(3) seg_delete_store [of b s1 s'] True \<open>b = a\<close> by simp
    next
      case False
      have "owned a q s1"
        using u m False m0 unfolding owned_def by (cases "b = a") auto
      moreover have "b \<noteq> a" if "sg_psegs m1 = []" using that calculation s1(2) by (auto simp: owned_def)
      ultimately show ?thesis using False s1(3) seg_delete_store [of b s1 s'] by (auto simp: owned_def split: if_splits)
    qed
  qed
qed

lemma pseg_delete_owned:
  assumes "pseg_delete k r s = Inr s'" "owned a q s"
  shows "if r = q then mm_segs s' a = None else owned a q s'"
proof -
  obtain s1 where s1: "leave_segment k r s = Inr s1" "s' = s1\<lparr>mm_psegs := (mm_psegs s1)(r := None)\<rparr>"
    using assms(1) by (auto simp: pseg_delete_def bindr_Inr_iff)
  then show ?thesis using leave_owned [OF s1(1) assms(2)] by (auto simp: owned_def)
qed

lemma pseg_delete_gone:
  assumes "pseg_delete k r s = Inr s'" "mm_segs s a = None"
  shows "mm_segs s' a = None"
proof -
  obtain s1 where s1: "leave_segment k r s = Inr s1" "s' = s1\<lparr>mm_psegs := (mm_psegs s1)(r := None)\<rparr>"
    using assms(1) by (auto simp: pseg_delete_def bindr_Inr_iff)
  have "segs_shrink s s1" using s1(1) by (rule leave_segment_shrink)
  then show ?thesis using s1(2) assms(2) by (cases "mm_segs s1 a") (simp, fastforce simp: segs_shrink_def)
qed

lemma pseg_deletes_owned:
  "run_all (\<lambda>s q. pseg_delete k q s) s qs = Inr s' \<Longrightarrow> owned a q s \<Longrightarrow> q \<in> set qs \<Longrightarrow> mm_segs s' a = None"
proof (induction qs arbitrary: s)
  case (Cons r qs)
  then obtain s1 where s1: "pseg_delete k r s = Inr s1" "run_all (\<lambda>s q. pseg_delete k q s) s1 qs = Inr s'"
    by (auto simp: bindr_Inr_iff)
  show ?case
  proof (cases "r = q")
    case True
    then have "mm_segs s1 a = None" using pseg_delete_owned [OF s1(1) Cons.prems(2)] by simp
    with s1(2) show ?thesis
      by (rule run_all_keeps [where P = "\<lambda>s. mm_segs s a = None", rotated]) (rule pseg_delete_gone)
  next
    case False
    then show ?thesis using pseg_delete_owned [OF s1(1) Cons.prems(2)] Cons.IH [OF s1(2)] Cons.prems(3) by auto
  qed
qed simp

lemma map_new_segment:
  assumes run: "map_segment k pa a r s = Inr (Some q, s')" and a: "mm_segs s a = Some m" "sg_psegs m = []"
  shows "owned a q s' \<and> mm_next s \<le> mm_next s' \<and> (\<exists>p. mm_procs s' pa = Some p \<and> q \<in> set (px_segments p))"
proof -
  obtain s1 p where s1: "pseg_new k pa a r s = Inr (q, s1)" "mm_procs s1 pa = Some p" "s' = put_proc pa (p\<lparr>px_segments := px_segments p @ [q]\<rparr>) s1"
    using run by (auto simp: map_segment_def bindr_Inr_iff the_r_Inr split: if_splits)
  define s0 where "s0 = put_pseg q \<lparr>pz_mem = None, pz_parent = pa, pz_range = r\<rparr> (s\<lparr>mm_next := mm_next s + 1\<rparr>)"
  have "q = mm_next s" using s1(1) by (auto simp: pseg_new_def bindr_Inr_iff Let_def)
  then have set: "set_segment k q a s0 = Inr s1" using s1(1) by (auto simp: pseg_new_def bindr_Inr_iff Let_def s0_def)
  have "mm_next s \<le> mm_next s1" using set_segment_ranges [OF set] by (simp add: same_ranges_def s0_def put_pseg_def)
  moreover note set moreover have "mm_psegs s0 q = Some \<lparr>pz_mem = None, pz_parent = pa, pz_range = r\<rparr>" "mm_segs s0 a = Some m"
    using a by (simp_all add: s0_def put_pseg_def)
  ultimately have n: "mm_next s \<le> mm_next s1" and "attach k a q (put_pseg q \<lparr>pz_mem = Some a, pz_parent = pa, pz_range = r\<rparr> s0) = Inr s1"
    using a(2) by (auto simp: set_segment_def leave_segment_def point_to_def process_map_def put_pseg_def)
  then have "mm_segs s1 a = Some (m\<lparr>sg_psegs := [q]\<rparr>)" "mm_psegs s1 q = Some \<lparr>pz_mem = Some a, pz_parent = pa, pz_range = r\<rparr>"
    using a \<open>mm_segs s0 a = Some m\<close> by (auto simp: attach_def bindr_Inr_iff put_seg_def put_pseg_def Let_def split: if_splits
      dest!: update_mapping_segs update_all_segs)
  then show ?thesis using s1(3) n by (auto simp: owned_def put_proc_def)
qed

lemma seg_create_new:
  "seg_create n perms st sh s = Inr (Some a, s') \<Longrightarrow> \<exists>m. mm_segs s' a = Some m \<and> sg_psegs m = [] \<and> a < mm_next s'"
  by (auto simp: seg_create_def bindr_Inr_iff Let_def put_seg_def split: if_splits dest!: dealloc_list_segs)

lemma give_heap_owned:
  assumes "give_heap k mem hb s = Inr (h, Some q, s')"
  shows "\<exists>a p. h = Some a \<and> owned a q s' \<and> a < mm_next s' \<and> mm_procs s' mem = Some p \<and> q \<in> set (px_segments p)"
proof -
  obtain s1 s2 p where s1: "seg_create 1 (PERM_READ OR PERM_WRITE) False False s = Inr (h, s1)"
      "map_created k mem h (pr_base_limit (ucast hb) (ucast (hb + 1))) s1 = Inr (Some q, s2)" "mm_procs s2 mem = Some p"
      "s' = put_proc mem (p\<lparr>px_heap := Some q\<rparr>) s2"
    using assms by (auto simp: give_heap_def bindr_Inr_iff the_r_Inr)
  then obtain a where a: "h = Some a" by (cases h) (auto simp: map_created_def bindr_Inr_iff split: if_splits)
  then have "map_segment k mem a (pr_base_limit (ucast hb) (ucast (hb + 1))) s1 = Inr (Some q, s2)" using s1(2) by (simp add: map_created_def)
  moreover obtain m where m: "mm_segs s1 a = Some m" "sg_psegs m = []" "a < mm_next s1" using seg_create_new s1(1) unfolding a by blast
  ultimately have "owned a q s2 \<and> mm_next s1 \<le> mm_next s2 \<and> (\<exists>p. mm_procs s2 mem = Some p \<and> q \<in> set (px_segments p))" using map_new_segment by blast
  then show ?thesis using a s1(3,4) m(3) by (auto simp: owned_def put_proc_def)
qed

text \<open>After the memory has been deleted its heap segment is gone, and deleting it again is an access to freed memory.\<close>

lemma heap_deleted_twice:
  assumes o: "owned a q s" and p: "mm_procs s mem = Some m" "q \<in> set (px_segments m)" and del: "proc_delete k mem s = Inr s1"
  shows "delete_created (Some a) s1 = Inl Fault"
proof -
  obtain s0 where s0: "run_all (\<lambda>s q. pseg_delete k q s) s (px_segments m) = Inr s0" "on_pg (vm_destroy k (px_vmem m)) s0 = Inr (s1\<lparr>mm_procs := mm_procs s0\<rparr>)"
    using del p(1) by (auto simp: proc_delete_def bindr_Inr_iff on_pg_def)
  then have "mm_segs s1 a = None" using pseg_deletes_owned [OF s0(1) o p(2)] on_pg_segs [OF s0(2)] by simp
  then show ?thesis by (simp add: delete_created_def seg_delete_def)
qed

text \<open>The new memory cannot be thrown away when the stack does not fit: the cleanup deletes the heap segment twice.\<close>

lemma no_stack_room_faults:
  assumes heap: "give_heap k mem hb s = Inr (h, Some q, s1)" and stack: "give_stack k mem s1 = Inr (st, None, s2)"
    and del: "proc_delete k mem s2 = Inr s3"
  shows "delete_created h s3 = Inl Fault"
proof -
  obtain a p where a: "h = Some a" "owned a q s1" "a < mm_next s1" "mm_procs s1 mem = Some p" "q \<in> set (px_segments p)"
    using give_heap_owned [OF heap] by blast
  obtain s1' where s1': "seg_create (unat STACK_PAGES) (PERM_READ OR PERM_WRITE) True False s1 = Inr (st, s1')"
      "map_created k mem st (pr_base_limit (0xC0000 - STACK_PAGES) 0xC0000) s1' = Inr (None, s2)"
    using stack by (auto simp: give_stack_def bindr_Inr_iff)
  have "s2 = s1'" using s1'(2) by (auto simp: map_created_def map_segment_def bindr_Inr_iff split: option.splits if_splits)
  moreover have "mm_segs s1' a = mm_segs s1 a \<and> mm_psegs s1' = mm_psegs s1 \<and> mm_procs s1' = mm_procs s1"
    using s1'(1) a(3) by (auto simp: seg_create_def bindr_Inr_iff Let_def put_seg_def split: if_splits dest!: dealloc_list_segs)
  ultimately show ?thesis using a heap_deleted_twice [of a q s2 mem p k s3] del by (auto simp: owned_def)
qed

end
