(* ===== verification/Streams.thy ===== *)
theory Streams
  imports Prelude
begin

text \<open>
  Output streams (\<open>kernel/src/stream/stream.cpp\<close>, \<open>stream.hpp\<close>, \<open>get_hex_char\<close> of \<open>kernel/src/common.h\<close>): numbers, sizes, paths
  and dumps as text. The virtual \<open>write\<close> appends its bytes to \<open>os_text\<close>. The digits of a number are put in front of each
  other in a buffer of 32 characters.
\<close>

datatype out = OutHex u8 bool | OutDec

record ostream =
  os_text :: "u8 list"
  os_manip :: out

definition emit :: "u8 list \<Rightarrow> ostream \<Rightarrow> ostream" where
  "emit xs s = s\<lparr>os_text := os_text s @ xs\<rparr>"

definition get_hex_char :: "u8 \<Rightarrow> u8" where
  "get_hex_char v = (if v \<ge> 0xa then 97 + (v - 0xa) else 48 + v)"

definition put_front :: "u8 \<Rightarrow> u8 list \<Rightarrow> u8 list result" where
  "put_front c cs = (if length cs < 32 then Inr (c # cs) else Inl Fault)"

subsection \<open>Numbers\<close>

function udec_chars :: "u64 \<Rightarrow> u8 list \<Rightarrow> u8 list result" where
  "udec_chars v cs = (if v = 0 then Inr cs else bindr (put_front (48 + ucast (v mod 10)) cs) (udec_chars (v div 10)))"
  by pat_completeness auto
termination
  by (relation "measure (\<lambda>(v, cs). unat v)") (auto simp: unat_div unat_gt_0)

function uhex_chars :: "u64 \<Rightarrow> u8 list \<Rightarrow> u8 list result" where
  "uhex_chars v cs = (if v = 0 then Inr cs else bindr (put_front (get_hex_char (ucast (v AND 0xf))) cs) (uhex_chars (drop_bit 4 v)))"
  by pat_completeness auto
termination
  by (relation "measure (\<lambda>(v, cs). unat v)") (auto simp: unat_drop_bit_eq drop_bit_eq_div unat_div unat_gt_0)

declare udec_chars.simps [simp del] uhex_chars.simps [simp del]

definition write_udec :: "u64 \<Rightarrow> ostream \<Rightarrow> ostream result" where
  "write_udec v s = (if v = 0 then Inr (emit [48] s) else bindr (udec_chars v []) (\<lambda>cs. Inr (emit cs s)))"

definition write_idec :: "u64 \<Rightarrow> ostream \<Rightarrow> ostream result" where
  "write_idec v s = (if v <s 0 then write_udec (- v) (emit [45] s) else write_udec v s)"

text \<open>The characters for a length that is given, from the highest; the length is at most 32, and with more than 16 characters the first of them take a shift
  by 64 or more, which is not defined.\<close>

definition uhex_fixed :: "u64 \<Rightarrow> nat \<Rightarrow> u8 list result" where
  "uhex_fixed v n = (if n > 16 then Inl Fault else Inr (map (\<lambda>i. get_hex_char (ucast (drop_bit (4 * i) v AND 0xf))) (rev [0..<n])))"

definition write_uhex :: "u64 \<Rightarrow> u8 \<Rightarrow> bool \<Rightarrow> ostream \<Rightarrow> ostream result" where
  "write_uhex v len pref s = (let s = (if pref then emit [48, 120] s else s); len = min len 32 in
     if len \<noteq> 0 then bindr (uhex_fixed v (unat len)) (\<lambda>cs. Inr (emit cs s))
     else if v = 0 then Inr (emit [48] s) else bindr (uhex_chars v []) (\<lambda>cs. Inr (emit cs s)))"

definition write_ihex :: "u64 \<Rightarrow> u8 \<Rightarrow> bool \<Rightarrow> ostream \<Rightarrow> ostream result" where
  "write_ihex v len pref s = (if v <s 0 then write_uhex (- v) len pref (emit [45] s) else write_uhex v len pref s)"

definition write_uval :: "u64 \<Rightarrow> ostream \<Rightarrow> ostream result" where
  "write_uval v s = (case os_manip s of OutHex len pref \<Rightarrow> write_uhex v len pref s | OutDec \<Rightarrow> write_udec v s)"

definition write_ival :: "u64 \<Rightarrow> ostream \<Rightarrow> ostream result" where
  "write_ival v s = (case os_manip s of OutHex len pref \<Rightarrow> write_ihex v len pref s | OutDec \<Rightarrow> write_idec v s)"

text \<open>The operators \<open><<\<close> for the integer types: unsigned ones are widened with zeros, signed ones with their sign.\<close>

definition show_unsigned :: "'a::len word \<Rightarrow> ostream \<Rightarrow> ostream result" where
  "show_unsigned v s = write_uval (ucast v) s"

definition show_signed :: "'a::len word \<Rightarrow> ostream \<Rightarrow> ostream result" where
  "show_signed v s = write_ival (scast v) s"

definition show_char :: "u8 \<Rightarrow> ostream \<Rightarrow> ostream" where
  "show_char c s = emit [c] s"

definition show_string :: "u8 list \<Rightarrow> ostream \<Rightarrow> ostream" where
  "show_string cs s = emit cs s"

definition show_manip :: "out \<Rightarrow> ostream \<Rightarrow> ostream" where
  "show_manip m s = s\<lparr>os_manip := m\<rparr>"

text \<open>A path: whether it is absolute, and its segments.\<close>

fun show_segments :: "u8 list list \<Rightarrow> ostream \<Rightarrow> ostream" where
  "show_segments [] s = s"
| "show_segments [x] s = emit x s"
| "show_segments (x # y # xs) s = show_segments (y # xs) (emit [47] (emit x s))"

definition show_path :: "bool \<Rightarrow> u8 list list \<Rightarrow> ostream \<Rightarrow> ostream" where
  "show_path absolute segs s = show_segments segs (if absolute then emit [47] s else s)"

subsection \<open>Sizes and dumps\<close>

definition size_units :: "u8 list list" where
  "size_units = [[98], [75, 105, 66], [77, 105, 66], [71, 105, 66], [84, 105, 66]]"

text \<open>The loop over powers of 1024: the whole part, its fraction in units of \<open>2 ^ -64\<close>, and the unit.\<close>

function size_scale :: "u64 \<Rightarrow> u64 \<Rightarrow> u32 \<Rightarrow> u64 \<times> u64 \<times> u32" where
  "size_scale sz frac u = (if sz \<ge> 1024 then size_scale (drop_bit 10 sz) (push_bit 54 (sz AND 0x3ff) OR drop_bit 10 frac) (u + 1)
     else (sz, frac, u))"
  by pat_completeness auto
termination
  by (relation "measure (\<lambda>(sz, frac, u). unat sz)") (auto simp: unat_drop_bit_eq drop_bit_eq_div unat_div word_le_nat_alt)

declare size_scale.simps [simp del]

definition frac_digit :: "u64 \<Rightarrow> u8 \<times> u64" where
  "frac_digit frac = (let f = frac * 10 in (48 + ucast (drop_bit 32 f), f AND 0xffffffff))"

definition write_size :: "u64 \<Rightarrow> ostream \<Rightarrow> ostream result" where
  "write_size sz s = (let (whole, frac, u) = size_scale sz 0 0; u = (if u \<ge> 5 then 4 else u) in
     bindr (write_udec whole s) (\<lambda>s. let s = emit [46] s; (c1, frac) = frac_digit (drop_bit 32 frac); (c2, frac) = frac_digit frac in
       Inr (emit (size_units ! unat u) (emit [32] (emit [c2] (emit [c1] s))))))"

fun hexdump_from :: "u8 list \<Rightarrow> u8 \<Rightarrow> usize \<Rightarrow> ostream \<Rightarrow> ostream result" where
  "hexdump_from [] column origin s = Inr s"
| "hexdump_from (b # bs) column origin s =
     bindr (if column = 0 then bindr (write_uhex (ucast origin) 8 False s) (\<lambda>s. Inr (emit [58, 32] s)) else Inr s) (\<lambda>s.
     bindr (write_uhex (ucast b) 2 False s) (\<lambda>s.
       if column = 15 then hexdump_from bs 0 (origin + 1) (emit [10] s)
       else hexdump_from bs (column + 1) (origin + 1) (emit [32] s)))"

definition hexdump :: "u8 list \<Rightarrow> usize \<Rightarrow> ostream \<Rightarrow> ostream result" where
  "hexdump bs origin s = hexdump_from bs 0 origin (emit [10] s)"

subsection \<open>Numbers read back\<close>

text \<open>The value of a digit and of a numeral in base \<open>b\<close>.\<close>

definition digit_value :: "u8 \<Rightarrow> nat" where
  "digit_value c = (if c \<ge> 97 then unat c - 87 else unat c - 48)"

definition digits_in :: "nat \<Rightarrow> u8 list \<Rightarrow> bool" where
  "digits_in b cs \<longleftrightarrow> (\<forall>c \<in> set cs. \<exists>d. unat d < b \<and> c = get_hex_char d)"

definition numeral_value :: "nat \<Rightarrow> u8 list \<Rightarrow> nat" where
  "numeral_value b cs = foldl (\<lambda>n c. n * b + digit_value c) 0 cs"

lemma numeral_value_Nil [simp]: "numeral_value b [] = 0"
  by (simp add: numeral_value_def)

lemma numeral_value_snoc [simp]: "numeral_value b (cs @ [c]) = numeral_value b cs * b + digit_value c"
  by (simp add: numeral_value_def)

lemma digit_of_hex: "unat v < 16 \<Longrightarrow> digit_value (get_hex_char v) = unat v"
  by (auto simp: digit_value_def get_hex_char_def word_le_nat_alt unat_word_ariths unat_sub split: if_splits)

lemma decimal_is_hex: "v < 10 \<Longrightarrow> 48 + v = get_hex_char v"
  by (auto simp: get_hex_char_def word_le_nat_alt word_less_nat_alt)

lemma unat_cut_u8: "unat (x :: u64) < 256 \<Longrightarrow> unat (ucast x :: u8) = unat x"
  by (simp add: unsigned_ucast_eq take_bit_eq_mod)

lemma digits_spec:
  fixes f :: "u64 \<Rightarrow> u8 list \<Rightarrow> u8 list result"
  assumes f: "\<And>v cs. f v cs = (if v = 0 then Inr cs else bindr (put_front (get_hex_char (ucast (v mod b))) cs) (f (v div b)))"
    and b: "2 \<le> unat b" "unat b \<le> 16"
  shows "unat v < unat b ^ k \<Longrightarrow> k + length cs \<le> 32 \<Longrightarrow>
    \<exists>ds. f v cs = Inr (ds @ cs) \<and> length ds \<le> k \<and> digits_in (unat b) ds \<and> numeral_value (unat b) ds = unat v \<and> (v \<noteq> 0 \<longrightarrow> ds \<noteq> [])"
proof (induction k arbitrary: v cs)
  case 0
  then show ?case using f [of v cs] by (intro exI [of _ "[]"]) (simp add: unat_eq_0 digits_in_def)
next
  case (Suc k)
  let ?d = "ucast (v mod b) :: u8"
  show ?case
  proof (cases "v = 0")
    case True
    then show ?thesis using f [of v cs] by (intro exI [of _ "[]"]) (simp add: digits_in_def)
  next
    case False
    have m: "unat v mod unat b < 16" using b mod_less_divisor [of "unat b" "unat v"] by linarith
    then have d: "unat ?d = unat v mod unat b" using unat_cut_u8 [of "v mod b"] by (simp add: unat_mod)
    have "unat (v div b) < unat b ^ k" using Suc.prems(1) b by (simp add: unat_div less_mult_imp_div_less mult.commute)
    then obtain ds where ds: "f (v div b) (get_hex_char ?d # cs) = Inr (ds @ get_hex_char ?d # cs)" "length ds \<le> k" "digits_in (unat b) ds"
        "numeral_value (unat b) ds = unat (v div b)"
      using Suc.IH [of "v div b" "get_hex_char ?d # cs"] Suc.prems(2) by auto
    have "numeral_value (unat b) (ds @ [get_hex_char ?d]) = unat v"
      using ds(4) d m by (simp add: digit_of_hex unat_div)
    moreover have "unat ?d < unat b" using d b mod_less_divisor [of "unat b" "unat v"] by linarith
    then have "digits_in (unat b) (ds @ [get_hex_char ?d])" using ds(3) by (auto simp: digits_in_def)
    moreover have "f v cs = Inr ((ds @ [get_hex_char ?d]) @ cs)"
      using f [of v cs] False Suc.prems(2) ds(1) by (simp add: put_front_def)
    ultimately show ?thesis using ds(2) by (intro exI [of _ "ds @ [get_hex_char ?d]"]) simp
  qed
qed

lemma udec_chars_spec: "\<exists>ds. udec_chars v [] = Inr ds \<and> length ds \<le> 20 \<and> digits_in 10 ds \<and> numeral_value 10 ds = unat v \<and> (v \<noteq> 0 \<longrightarrow> ds \<noteq> [])"
proof -
  have "udec_chars v cs = (if v = 0 then Inr cs else bindr (put_front (get_hex_char (ucast (v mod 10))) cs) (udec_chars (v div 10)))" for v cs
  proof -
    have "(ucast (v mod 10) :: u8) < 10"
      using unat_cut_u8 [of "v mod 10"] by (simp add: word_less_nat_alt unat_mod)
    then show ?thesis by (subst udec_chars.simps) (simp add: decimal_is_hex)
  qed
  moreover have "unat v < unat (10 :: u64) ^ 20" using unsigned_less [of v, where ?'a = nat] by simp
  ultimately show ?thesis using digits_spec [of udec_chars 10 v 20 "[]"] by auto
qed

lemma uhex_chars_spec: "\<exists>ds. uhex_chars v [] = Inr ds \<and> length ds \<le> 16 \<and> digits_in 16 ds \<and> numeral_value 16 ds = unat v \<and> (v \<noteq> 0 \<longrightarrow> ds \<noteq> [])"
proof -
  have "uhex_chars v cs = (if v = 0 then Inr cs else bindr (put_front (get_hex_char (ucast (v mod 16))) cs) (uhex_chars (v div 16)))" for v cs
  proof -
    have "v AND 0xf = v mod 16" using take_bit_eq_mask [of 4 v] by (simp add: mask_eq_exp_minus_1 take_bit_eq_mod)
    then show ?thesis by (subst uhex_chars.simps) (simp add: drop_bit_eq_div)
  qed
  moreover have "unat v < unat (16 :: u64) ^ 16" using unsigned_less [of v, where ?'a = nat] by simp
  ultimately show ?thesis using digits_spec [of uhex_chars 16 v 16 "[]"] by auto
qed

lemma foldl_numeral: "foldl (\<lambda>n c. n * b + digit_value c) a cs = a * b ^ length cs + numeral_value b cs"
  by (induction cs rule: rev_induct) (simp_all add: algebra_simps)

lemma numeral_value_Cons: "numeral_value b (c # cs) = digit_value c * b ^ length cs + numeral_value b cs"
  using foldl_numeral [of b "digit_value c" cs] by (simp add: numeral_value_def)

lemma hex_digit_at: "unat (ucast (drop_bit (4 * i) v AND 0xf :: u64) :: u8) = unat v div 16 ^ i mod 16"
proof -
  have "drop_bit (4 * i) v AND 0xf = take_bit 4 (drop_bit (4 * i) v)" using take_bit_eq_mask [of 4 "drop_bit (4 * i) v"] by (simp add: mask_eq_exp_minus_1)
  then have "unat (drop_bit (4 * i) v AND 0xf) = take_bit 4 (drop_bit (4 * i) (unat v))"
    by (simp only: unsigned_take_bit_eq unat_drop_bit_eq)
  also have "\<dots> = unat v div 16 ^ i mod 16" by (simp add: take_bit_eq_mod drop_bit_eq_div power_mult)
  finally have "unat (drop_bit (4 * i) v AND 0xf) = unat v div 16 ^ i mod 16" .
  then show ?thesis using unat_cut_u8 [of "drop_bit (4 * i) v AND 0xf"] by simp
qed

lemma uhex_fixed_spec:
  assumes "n \<le> 16"
  shows "\<exists>ds. uhex_fixed v n = Inr ds \<and> length ds = n \<and> digits_in 16 ds \<and> numeral_value 16 ds = unat v mod 16 ^ n"
proof -
  define g where "g = (\<lambda>i. get_hex_char (ucast (drop_bit (4 * i) v AND 0xf)))"
  have "digits_in 16 (map g is)" for "is"
    unfolding digits_in_def g_def using hex_digit_at by (auto intro!: exI)
  moreover have "numeral_value 16 (map g (rev [0..<n])) = unat v mod 16 ^ n"
  proof (induction n)
    case (Suc n)
    have "unat v mod 16 ^ Suc n = 16 ^ n * (unat v div 16 ^ n mod 16) + unat v mod 16 ^ n"
      using mod_mult2_eq [of "unat v" "16 ^ n" 16] by (simp add: mult.commute)
    then show ?case using Suc hex_digit_at [of n v] by (simp add: numeral_value_Cons g_def digit_of_hex)
  qed simp
  ultimately show ?thesis using assms by (simp add: uhex_fixed_def g_def)
qed

text \<open>C34: An unsigned number that is printed in decimal, or in hexadecimal with a length of at most 16 characters, can be read back from its text: it is the
  number itself in decimal and when no length is asked for, and its last digits, as many as asked for, when one is; the text before it stays and the
  buffer of 32 characters is never overrun. The lengths from 17 to 32 that the code also accepts shift the number by its width or more
  and are not defined (\<open>long_hex_undefined\<close>).\<close>

theorem printed_number_reads_back:
  assumes "case os_manip s of OutHex len pref \<Rightarrow> len \<le> 16 | OutDec \<Rightarrow> True"
  shows "\<exists>ds. ds \<noteq> [] \<and> (case os_manip s of
      OutDec \<Rightarrow> write_uval v s = Inr (emit ds s) \<and> digits_in 10 ds \<and> numeral_value 10 ds = unat v
    | OutHex len pref \<Rightarrow> write_uval v s = Inr (emit ((if pref then [48, 120] else []) @ ds) s) \<and> digits_in 16 ds
        \<and> (if len = 0 then numeral_value 16 ds = unat v else length ds = unat len \<and> numeral_value 16 ds = unat v mod 16 ^ unat len))"
proof -
  have e: "emit b (emit a s) = emit (a @ b) s" for a b by (simp add: emit_def)
  have zero: "digits_in b [48]" "numeral_value b [48] = 0" if "0 < b" for b
    using that by (auto simp: digits_in_def numeral_value_def digit_value_def get_hex_char_def intro: exI [of _ 0])
  show ?thesis
  proof (cases "os_manip s")
    case OutDec
    show ?thesis
    proof (cases "v = 0")
      case True
      then show ?thesis using zero [of 10] OutDec by (intro exI [of _ "[48]"]) (simp add: write_uval_def write_udec_def)
    next
      case False
      then show ?thesis using udec_chars_spec [of v] OutDec by (auto simp: write_uval_def write_udec_def)
    qed
  next
    case (OutHex len pref)
    then have len: "min len 32 = len" "unat len \<le> 16" using assms by (auto simp: min_def word_le_nat_alt)
    consider "len \<noteq> 0" | "len = 0" "v = 0" | "len = 0" "v \<noteq> 0" by blast
    then show ?thesis
    proof cases
      case 1
      obtain ds where ds: "uhex_fixed v (unat len) = Inr ds" "length ds = unat len" "digits_in 16 ds" "numeral_value 16 ds = unat v mod 16 ^ unat len"
        using uhex_fixed_spec [OF len(2), of v] by blast
      moreover have "ds \<noteq> []" using ds(2) 1 by (auto simp: unat_eq_0)
      ultimately show ?thesis using OutHex 1 len(1) by (intro exI [of _ ds]) (simp add: write_uval_def write_uhex_def e)
    next
      case 2
      then show ?thesis using zero [of 16] OutHex by (intro exI [of _ "[48]"]) (simp add: write_uval_def write_uhex_def e)
    next
      case 3
      then show ?thesis using uhex_chars_spec [of v] OutHex by (fastforce simp: write_uval_def write_uhex_def e)
    qed
  qed
qed

theorem printed_number_reads_back_witness:
  "\<exists>ds. write_uval 0x1f2e \<lparr>os_text = [58], os_manip = OutHex 2 True\<rparr> = Inr \<lparr>os_text = [58, 48, 120] @ ds, os_manip = OutHex 2 True\<rparr>
    \<and> numeral_value 16 ds = 0x2e"
  using printed_number_reads_back [of "\<lparr>os_text = [58], os_manip = OutHex 2 True\<rparr>" "0x1f2e"] by (auto simp: emit_def)

text \<open>A length above 16 is cut to 32 only, and the first digit is then read with a shift by 64 or more.\<close>

lemma long_hex_undefined:
  assumes "16 < len"
  shows "write_uhex v len pref s = Inl Fault"
proof -
  have m: "16 < min len 32" using assms by (simp add: min_def)
  then have "16 < unat (min len 32)" by (simp add: word_less_nat_alt)
  moreover have "min len 32 \<noteq> 0" using m by (metis word_not_simps(1))
  ultimately show ?thesis by (simp add: write_uhex_def uhex_fixed_def Let_def)
qed

text \<open>From \<open>2 ^ 50\<close> on the number has been divided once more than the last unit says.\<close>

lemma pebibyte_prints_as_tebibyte:
  "write_size 0x4000000000000 \<lparr>os_text = [], os_manip = OutDec\<rparr> = write_size 0x10000000000 \<lparr>os_text = [], os_manip = OutDec\<rparr>"
  by code_simp

end
