(* ===== verification/Console.thy ===== *)
theory Console
  imports Streams
begin

text \<open>
  Text output of the kernel: \<open>TerminalOutput\<close> (\<open>kernel/src/stream/terminal.cpp\<close>), the VGA text screen (\<open>drv/vga_text.cpp\<close>,
  \<open>arch/i386/src/drv/vga.cpp\<close>), the debug port (\<open>drv/debugout.cpp\<close>), the stream that writes to several terminals
  (\<open>terminal_stream.cpp\<close>) and the logger (\<open>logger.cpp\<close>). The frame buffer is a list of bytes, the registers of the display
  controller a function, the debug port the list of bytes sent to it.
\<close>

subsection \<open>The VGA text screen\<close>

record vga =
  vg_fb :: "u8 list"
  vg_index :: usize
  vg_crtc :: "u8 \<Rightarrow> u8"

abbreviation VGA_ROWS :: u32 where "VGA_ROWS \<equiv> 25"
abbreviation VGA_COLUMNS :: u32 where "VGA_COLUMNS \<equiv> 80"

definition vga_enable_cursor :: "u8 \<Rightarrow> u8 \<Rightarrow> vga \<Rightarrow> vga" where
  "vga_enable_cursor a b v = v\<lparr>vg_crtc := (vg_crtc v)(0x0A := (vg_crtc v 0x0A AND 0xC0) OR a, 0x0B := (vg_crtc v 0x0B AND 0xE0) OR b)\<rparr>"

definition vga_disable_cursor :: "vga \<Rightarrow> vga" where
  "vga_disable_cursor v = v\<lparr>vg_crtc := (vg_crtc v)(0x0A := 0x20)\<rparr>"

definition vga_set_cursor_pos :: "u32 \<Rightarrow> u32 \<Rightarrow> vga \<Rightarrow> vga" where
  "vga_set_cursor_pos x y v = (let pos = ucast (y * 80 + x) :: u16 in
     v\<lparr>vg_crtc := (vg_crtc v)(0x0F := ucast (pos AND 0xFF), 0x0E := ucast (drop_bit 8 pos AND 0xFF))\<rparr>)"

definition color_byte :: "u8 \<Rightarrow> u8 \<Rightarrow> u8" where
  "color_byte bg fg = push_bit 4 bg OR fg"

definition cell_bytes :: "nat \<Rightarrow> u8 \<Rightarrow> u8 \<Rightarrow> u8 list" where
  "cell_bytes n ch col = concat (replicate n [ch, col])"

definition vga_fill :: "u8 \<Rightarrow> u8 \<Rightarrow> u8 \<Rightarrow> vga \<Rightarrow> vga result" where
  "vga_fill ch bg fg v = bindr (poke (vg_fb v) 0 (cell_bytes (80 * 25) ch (color_byte bg fg))) (\<lambda>fb. Inr (v\<lparr>vg_fb := fb\<rparr>))"

definition vga_set_cursor_visible :: "bool \<Rightarrow> vga \<Rightarrow> vga" where
  "vga_set_cursor_visible visible v = (if visible then vga_enable_cursor 14 15 v else vga_disable_cursor v)"

definition vga_put_raw :: "u8 \<Rightarrow> u8 \<Rightarrow> u8 \<Rightarrow> vga \<Rightarrow> vga result" where
  "vga_put_raw ch bg fg v = bindr (poke (vg_fb v) (unat (vg_index v * 2)) [ch, color_byte bg fg]) (\<lambda>fb. Inr (v\<lparr>vg_fb := fb\<rparr>))"

definition vga_set_cursor_raw :: "u32 \<Rightarrow> u32 \<Rightarrow> vga \<Rightarrow> vga" where
  "vga_set_cursor_raw x y v = vga_set_cursor_pos x y (v\<lparr>vg_index := y * VGA_COLUMNS + x\<rparr>)"

definition vga_scroll_row :: "u32 \<Rightarrow> u8 \<Rightarrow> u8 list \<Rightarrow> nat \<Rightarrow> u8 list result" where
  "vga_scroll_row lines col fb y = (let sy = of_nat y + lines in
     if sy \<ge> VGA_ROWS then poke fb (y * 160) (cell_bytes 80 32 col)
     else bindr (peek fb (unat sy * 160) 160) (poke fb (y * 160)))"

definition vga_scroll_raw :: "u32 \<Rightarrow> u8 \<Rightarrow> u8 \<Rightarrow> vga \<Rightarrow> vga result" where
  "vga_scroll_raw lines bg fg v = bindr (run_all (vga_scroll_row lines (color_byte bg fg)) (vg_fb v) [0..<unat VGA_ROWS]) (\<lambda>fb.
     Inr (v\<lparr>vg_fb := fb\<rparr>))"

subsection \<open>The debug port\<close>

record debugout =
  db_fg :: u8
  db_bg :: u8
  db_out :: "u8 list"

text \<open>The two digits or three of a colour, from the 16 colours of \<open>terminal.hpp\<close>; the default branches stand for the values above.\<close>

definition bg_code :: "u8 \<Rightarrow> u8 list" where
  "bg_code c = (if c = 0 \<or> c > 15 then [52, 48] else
     [[], [52, 52], [52, 50], [52, 54], [52, 49], [52, 53], [52, 51], [52, 55], [49, 48, 48], [49, 48, 52], [49, 48, 50], [49, 48, 54],
      [49, 48, 49], [49, 48, 53], [49, 48, 51], [49, 48, 55]] ! unat c)"

definition fg_code :: "u8 \<Rightarrow> u8 list" where
  "fg_code c = (if c > 15 then [57, 55] else
     [[51, 48], [51, 52], [51, 50], [51, 54], [51, 49], [51, 53], [51, 51], [51, 55], [57, 48], [57, 52], [57, 50], [57, 54],
      [57, 49], [57, 53], [57, 51], [57, 55]] ! unat c)"

definition dbgstr :: "u8 list \<Rightarrow> debugout \<Rightarrow> debugout" where
  "dbgstr cs d = d\<lparr>db_out := db_out d @ cs\<rparr>"

definition dbgcol :: "u8 \<Rightarrow> u8 \<Rightarrow> debugout \<Rightarrow> debugout" where
  "dbgcol bg fg d = dbgstr [109] (dbgstr (fg_code fg) (dbgstr [59] (dbgstr (bg_code bg) (dbgstr [27, 91] d))))"

definition set_out_color :: "u8 \<Rightarrow> u8 \<Rightarrow> debugout \<Rightarrow> debugout" where
  "set_out_color bg fg d = (if db_bg d \<noteq> bg \<or> db_fg d \<noteq> fg then (dbgcol bg fg d)\<lparr>db_bg := bg, db_fg := fg\<rparr> else d)"

definition dbg_put_raw :: "u8 \<Rightarrow> u8 \<Rightarrow> u8 \<Rightarrow> debugout \<Rightarrow> debugout" where
  "dbg_put_raw ch bg fg d = dbgstr [ch] (set_out_color bg fg d)"

subsection \<open>Terminals\<close>

text \<open>The two classes that implement the virtual methods.\<close>

datatype screen = Vga vga | Dbg debugout

fun get_rows :: "screen \<Rightarrow> u32" where
  "get_rows (Vga v) = VGA_ROWS"
| "get_rows (Dbg d) = 0"

fun get_columns :: "screen \<Rightarrow> u32" where
  "get_columns (Vga v) = VGA_COLUMNS"
| "get_columns (Dbg d) = 0"

fun guide_cursor :: "screen \<Rightarrow> bool" where
  "guide_cursor (Vga v) = True"
| "guide_cursor (Dbg d) = False"

fun screen_fill :: "u8 \<Rightarrow> u8 \<Rightarrow> u8 \<Rightarrow> screen \<Rightarrow> screen result" where
  "screen_fill ch bg fg (Vga v) = bindr (vga_fill ch bg fg v) (\<lambda>v. Inr (Vga v))"
| "screen_fill ch bg fg (Dbg d) = Inr (Dbg (set_out_color bg fg d))"

fun set_cursor_visible :: "bool \<Rightarrow> screen \<Rightarrow> screen" where
  "set_cursor_visible b (Vga v) = Vga (vga_set_cursor_visible b v)"
| "set_cursor_visible b (Dbg d) = Dbg d"

fun put_raw :: "u8 \<Rightarrow> u8 \<Rightarrow> u8 \<Rightarrow> screen \<Rightarrow> screen result" where
  "put_raw ch bg fg (Vga v) = bindr (vga_put_raw ch bg fg v) (\<lambda>v. Inr (Vga v))"
| "put_raw ch bg fg (Dbg d) = Inr (Dbg (dbg_put_raw ch bg fg d))"

fun set_cursor_raw :: "u32 \<Rightarrow> u32 \<Rightarrow> screen \<Rightarrow> screen" where
  "set_cursor_raw x y (Vga v) = Vga (vga_set_cursor_raw x y v)"
| "set_cursor_raw x y (Dbg d) = Dbg d"

fun scroll_raw :: "u32 \<Rightarrow> u8 \<Rightarrow> u8 \<Rightarrow> screen \<Rightarrow> screen result" where
  "scroll_raw lines bg fg (Vga v) = bindr (vga_scroll_raw lines bg fg v) (\<lambda>v. Inr (Vga v))"
| "scroll_raw lines bg fg (Dbg d) = Inr (Dbg d)"

record terminal =
  tm_x :: u32
  tm_y :: u32
  tm_bg :: u8
  tm_fg :: u8
  tm_screen :: screen

text \<open>\<open>set_cursor\<close> and \<open>scroll\<close> call each other; the first argument bounds the depth of the calls.\<close>

fun set_cursor :: "nat \<Rightarrow> u32 \<Rightarrow> u32 \<Rightarrow> terminal \<Rightarrow> terminal result"
  and scroll :: "nat \<Rightarrow> u32 \<Rightarrow> terminal \<Rightarrow> terminal result" where
  "set_cursor 0 x y t = Inl Hang"
| "set_cursor (Suc k) x y t = (let d = set_cursor_raw x y (tm_screen t); t = t\<lparr>tm_screen := d, tm_x := x, tm_y := y\<rparr> in
     if y \<ge> get_rows d then scroll k (get_rows d - y + 1) t else Inr t)"
| "scroll 0 lines t = Inl Hang"
| "scroll (Suc k) lines t = bindr (scroll_raw lines (tm_bg t) (tm_fg t) (tm_screen t)) (\<lambda>d.
     set_cursor k (tm_x t) (max (tm_y t - lines) 0) (t\<lparr>tm_screen := d\<rparr>))"

definition set_cursor_x :: "nat \<Rightarrow> u32 \<Rightarrow> terminal \<Rightarrow> terminal result" where
  "set_cursor_x k x t = set_cursor k x (tm_y t) t"

definition set_cursor_y :: "nat \<Rightarrow> u32 \<Rightarrow> terminal \<Rightarrow> terminal result" where
  "set_cursor_y k y t = set_cursor k (tm_x t) y t"

definition set_color :: "u8 \<Rightarrow> u8 \<Rightarrow> terminal \<Rightarrow> terminal" where
  "set_color bg fg t = t\<lparr>tm_bg := bg, tm_fg := fg\<rparr>"

definition term_put :: "nat \<Rightarrow> u8 \<Rightarrow> terminal \<Rightarrow> terminal result" where
  "term_put k ch t = (if \<not> guide_cursor (tm_screen t)
     then bindr (put_raw ch (tm_bg t) (tm_fg t) (tm_screen t)) (\<lambda>d. Inr (t\<lparr>tm_screen := d\<rparr>))
     else bindr (if ch \<noteq> 9 \<and> ch \<noteq> 10 then put_raw ch (tm_bg t) (tm_fg t) (tm_screen t) else Inr (tm_screen t)) (\<lambda>d.
       let x = (if ch = 9 then push_bit 3 (drop_bit 3 (tm_x t) + 1) else tm_x t + 1);
           (x, y) = (if x \<ge> get_columns d \<or> ch = 10 then (0, tm_y t + 1) else (x, tm_y t)) in
       set_cursor k x y (t\<lparr>tm_screen := d, tm_x := x, tm_y := y\<rparr>)))"

definition term_write :: "nat \<Rightarrow> u8 list \<Rightarrow> terminal \<Rightarrow> terminal result" where
  "term_write k cs t = run_all (\<lambda>t c. term_put k c t) t cs"

definition term_clear :: "u8 \<Rightarrow> terminal \<Rightarrow> terminal result" where
  "term_clear bg t = bindr (screen_fill 32 bg (tm_fg t) (tm_screen t)) (\<lambda>d. Inr (t\<lparr>tm_screen := d\<rparr>))"

subsection \<open>The stream of terminals and the logger\<close>

text \<open>The targets are addresses with a flag; several may be the same terminal.\<close>

record term_stream =
  ts_targets :: "(nat \<times> bool) list"
  ts_terms :: "nat \<Rightarrow> terminal"
  ts_manip :: out

definition add_terminal :: "nat \<Rightarrow> term_stream \<Rightarrow> term_stream result" where
  "add_terminal p s = (if length (ts_targets s) \<ge> 4 then Inl Panic else Inr (s\<lparr>ts_targets := ts_targets s @ [(p, True)]\<rparr>))"

definition set_enabled :: "bool \<Rightarrow> nat \<Rightarrow> term_stream \<Rightarrow> term_stream" where
  "set_enabled b p s = s\<lparr>ts_targets := map (\<lambda>(q, e). (q, if q = p then b else e)) (ts_targets s)\<rparr>"

abbreviation enable_terminal :: "nat \<Rightarrow> term_stream \<Rightarrow> term_stream" where "enable_terminal \<equiv> set_enabled True"
abbreviation disable_terminal :: "nat \<Rightarrow> term_stream \<Rightarrow> term_stream" where "disable_terminal \<equiv> set_enabled False"

definition each_enabled :: "(terminal \<Rightarrow> terminal result) \<Rightarrow> term_stream \<Rightarrow> term_stream result" where
  "each_enabled f s = run_all (\<lambda>s (p, e). if e then bindr (f (ts_terms s p)) (\<lambda>t. Inr (s\<lparr>ts_terms := (ts_terms s)(p := t)\<rparr>)) else Inr s)
     s (ts_targets s)"

definition ts_write :: "nat \<Rightarrow> u8 list \<Rightarrow> term_stream \<Rightarrow> term_stream result" where
  "ts_write k cs s = each_enabled (term_write k cs) s"

definition ts_set_cursor :: "nat \<Rightarrow> u32 \<Rightarrow> u32 \<Rightarrow> term_stream \<Rightarrow> term_stream result" where
  "ts_set_cursor k x y s = each_enabled (set_cursor k x y) s"

definition ts_set_cursor_x :: "nat \<Rightarrow> u32 \<Rightarrow> term_stream \<Rightarrow> term_stream result" where
  "ts_set_cursor_x k v s = each_enabled (set_cursor_x k v) s"

definition ts_set_cursor_y :: "nat \<Rightarrow> u32 \<Rightarrow> term_stream \<Rightarrow> term_stream result" where
  "ts_set_cursor_y k v s = each_enabled (set_cursor_y k v) s"

definition ts_set_bg :: "u8 \<Rightarrow> term_stream \<Rightarrow> term_stream result" where
  "ts_set_bg c s = each_enabled (\<lambda>t. Inr (t\<lparr>tm_bg := c\<rparr>)) s"

definition ts_set_fg :: "u8 \<Rightarrow> term_stream \<Rightarrow> term_stream result" where
  "ts_set_fg c s = each_enabled (\<lambda>t. Inr (t\<lparr>tm_fg := c\<rparr>)) s"

definition ts_set_color :: "u8 \<Rightarrow> u8 \<Rightarrow> term_stream \<Rightarrow> term_stream result" where
  "ts_set_color bg fg s = each_enabled (\<lambda>t. Inr (set_color bg fg t)) s"

definition ts_put :: "nat \<Rightarrow> u8 \<Rightarrow> term_stream \<Rightarrow> term_stream result" where
  "ts_put k c s = each_enabled (term_put k c) s"

definition ts_clear :: "u8 \<Rightarrow> term_stream \<Rightarrow> term_stream result" where
  "ts_clear bg s = each_enabled (term_clear bg) s"

definition ts_scroll :: "nat \<Rightarrow> u32 \<Rightarrow> term_stream \<Rightarrow> term_stream result" where
  "ts_scroll k lines s = each_enabled (scroll k lines) s"

definition ts_set_cursor_visible :: "bool \<Rightarrow> term_stream \<Rightarrow> term_stream result" where
  "ts_set_cursor_visible b s = each_enabled (\<lambda>t. Inr (t\<lparr>tm_screen := set_cursor_visible b (tm_screen t)\<rparr>)) s"

text \<open>The head of a line of the log: the name of the module, if there is one, in the colour of the level.\<close>

definition log_head :: "nat \<Rightarrow> u8 \<Rightarrow> u8 list option \<Rightarrow> term_stream \<Rightarrow> term_stream result" where
  "log_head k color name s = bindr (ts_set_fg color s) (\<lambda>s. case name of None \<Rightarrow> Inr s
     | Some n \<Rightarrow> bindr (ts_write k n s) (ts_write k [58, 32]))"

definition log_info :: "nat \<Rightarrow> u8 list option \<Rightarrow> term_stream \<Rightarrow> term_stream result" where
  "log_info k name s = bindr (log_head k 0x1 name s) (\<lambda>s. bindr (ts_set_fg 0xF s) (\<lambda>s. Inr (s\<lparr>ts_manip := OutDec\<rparr>)))"

definition log_warn :: "nat \<Rightarrow> u8 list option \<Rightarrow> term_stream \<Rightarrow> term_stream result" where
  "log_warn k name s = bindr (log_head k 0xE name s) (\<lambda>s. Inr (s\<lparr>ts_manip := OutDec\<rparr>))"

definition log_err :: "nat \<Rightarrow> u8 list option \<Rightarrow> term_stream \<Rightarrow> term_stream result" where
  "log_err k name s = bindr (log_head k 0xC name s) (\<lambda>s. Inr (s\<lparr>ts_manip := OutDec\<rparr>))"

subsection \<open>Cells\<close>

text \<open>The frame buffer as cells of a character and a colour.\<close>

type_synonym cell = "u8 \<times> u8"

definition flat :: "cell list \<Rightarrow> u8 list" where
  "flat cs = concat (map (\<lambda>(c, a). [c, a]) cs)"

lemma flat_simps [simp]: "flat [] = []" "flat ((c, a) # cs) = c # a # flat cs" "flat (xs @ ys) = flat xs @ flat ys"
  by (simp_all add: flat_def)

lemma flat_bytes_length [simp]: "length (flat cs) = 2 * length cs"
  by (induction cs) auto

lemma flat_take: "take (2 * n) (flat cs) = flat (take n cs)"
proof (induction cs arbitrary: n)
  case (Cons x cs)
  then show ?case by (cases n; cases x) auto
qed simp

lemma flat_drop: "drop (2 * n) (flat cs) = flat (drop n cs)"
proof (induction cs arbitrary: n)
  case (Cons x cs)
  then show ?case by (cases n; cases x) auto
qed simp

lemma cell_bytes_flat: "cell_bytes n ch col = flat (replicate n (ch, col))"
  by (induction n) (auto simp: cell_bytes_def)

lemma poke_flat: "i + length xs \<le> length cs \<Longrightarrow> poke (flat cs) (2 * i) (flat xs) = Inr (flat (take i cs @ xs @ drop (i + length xs) cs))"
  using flat_take [of i cs] flat_drop [of "i + length xs" cs] by simp

lemma peek_flat: "i + n \<le> length cs \<Longrightarrow> peek (flat cs) (2 * i) (2 * n) = Inr (flat (take n (drop i cs)))"
  using flat_take [of n "drop i cs"] flat_drop [of i cs] by simp

lemma poke_cell: "i < length cs \<Longrightarrow> poke (flat cs) (2 * i) [c, a] = Inr (flat (cs[i := (c, a)]))"
  using poke_flat [of i "[(c, a)]" cs] by (simp add: upd_conv_take_nth_drop)

text \<open>Scrolling by one line.\<close>

definition scrolled :: "u8 \<Rightarrow> cell list \<Rightarrow> cell list" where
  "scrolled col cs = drop 80 cs @ replicate 80 (32, col)"

lemma scroll_row_one:
  assumes "length cs = 2000" "y < 25"
  shows "vga_scroll_row 1 col (flat (take (80 * y) (scrolled col cs) @ drop (80 * y) cs)) y
    = Inr (flat (take (80 * Suc y) (scrolled col cs) @ drop (80 * Suc y) cs))"
proof -
  let ?l = "take (80 * y) (scrolled col cs)" and ?r = "drop (80 * y) cs"
  have l: "length ?l = 80 * y" "length ?r = 2000 - 80 * y" using assms by (simp_all add: scrolled_def)
  have u: "unat (of_nat y + 1 :: u32) = Suc y" using assms(2) unat_of_nat32 [of "Suc y"] by (simp add: add.commute)
  have poke: "poke (flat (?l @ ?r)) (y * 160) (flat xs) = Inr (flat (?l @ xs @ drop (80 * Suc y) cs))" if "length xs = 80" for xs
    using poke_flat [of "80 * y" xs "?l @ ?r"] l that assms by (simp add: mult.commute add.commute)
  have tk: "take (80 * Suc y) (scrolled col cs) = ?l @ take 80 (drop (80 * y) (scrolled col cs))"
    using take_add [of "80 * y" 80 "scrolled col cs"] by (simp add: add.commute)
  show ?thesis
  proof (cases "y < 24")
    case True
    have "\<not> VGA_ROWS \<le> of_nat y + 1" using True u by (simp add: word_le_nat_alt)
    moreover have "peek (flat (?l @ ?r)) (Suc y * 160) 160 = Inr (flat (take 80 (drop (80 * Suc y) cs)))"
      using peek_flat [of "80 * Suc y" 80 "?l @ ?r"] l True assms(1) by (simp add: mult.commute add.commute)
    moreover have "take 80 (drop (80 * y) (scrolled col cs)) = take 80 (drop (80 * Suc y) cs)"
      using True assms(1) by (simp add: scrolled_def add.commute)
    moreover have "length (take 80 (drop (80 * Suc y) cs)) = 80" using True assms(1) by simp
    ultimately show ?thesis using poke [of "take 80 (drop (80 * Suc y) cs)"] unfolding tk
      by (simp add: vga_scroll_row_def u del: mult_Suc_right)
  next
    case False
    then have y: "y = 24" using assms(2) by simp
    have "VGA_ROWS \<le> of_nat y + 1" using u y by (simp add: word_le_nat_alt)
    moreover have "take 80 (drop (80 * y) (scrolled col cs)) = replicate 80 (32, col)" using y assms(1) by (simp add: scrolled_def)
    ultimately show ?thesis using poke [of "replicate 80 (32, col)"] unfolding tk by (simp add: vga_scroll_row_def cell_bytes_flat)
  qed
qed

lemma scroll_rows_one:
  assumes "length cs = 2000" "n \<le> 25"
  shows "run_all (vga_scroll_row 1 col) (flat cs) [0..<n] = Inr (flat (take (80 * n) (scrolled col cs) @ drop (80 * n) cs))"
  using assms(2)
proof (induction n)
  case (Suc n)
  then show ?case using scroll_row_one [OF assms(1), of n col] by (simp add: run_all_snoc del: mult_Suc_right)
qed simp

lemma vga_scroll_one:
  assumes "vg_fb v = flat cs" "length cs = 2000"
  shows "vga_scroll_raw 1 bg fg v = Inr (v\<lparr>vg_fb := flat (scrolled (color_byte bg fg) cs)\<rparr>)"
  using scroll_rows_one [OF assms(2), of 25 "color_byte bg fg"] assms by (simp add: vga_scroll_raw_def scrolled_def)

subsection \<open>The screen as a typewriter\<close>

text \<open>The abstract screen: 2000 cells, the position of the next one, and the colour. A character is written at the position,
  a new line and a tabulator only move it; behind the last cell the lines move up.\<close>

record typewriter =
  tw_cells :: "cell list"
  tw_pos :: nat
  tw_color :: u8

definition tw_put :: "u8 \<Rightarrow> typewriter \<Rightarrow> typewriter" where
  "tw_put ch w = (let p = tw_pos w;
     cells = (if ch = 9 \<or> ch = 10 then tw_cells w else (tw_cells w)[p := (ch, tw_color w)]);
     q = (if ch = 10 then (p div 80 + 1) * 80 else if ch = 9 then p div 80 * 80 + (p mod 80 div 8 + 1) * 8 else p + 1) in
     if q < 2000 then w\<lparr>tw_cells := cells, tw_pos := q\<rparr> else w\<lparr>tw_cells := scrolled (tw_color w) cells, tw_pos := q - 80\<rparr>)"

text \<open>What a terminal on the VGA screen denotes: its cursor is on the screen and at the index of the driver.\<close>

definition displays :: "terminal \<Rightarrow> typewriter \<Rightarrow> bool" where
  "displays t w \<longleftrightarrow> (\<exists>v. tm_screen t = Vga v \<and> vg_fb v = flat (tw_cells w) \<and> length (tw_cells w) = 2000
     \<and> unat (tm_x t) < 80 \<and> unat (tm_y t) < 25 \<and> vg_index v = tm_y t * 80 + tm_x t
     \<and> tw_pos w = 80 * unat (tm_y t) + unat (tm_x t) \<and> tw_color w = color_byte (tm_bg t) (tm_fg t))"

lemma set_cursor_inside:
  assumes "tm_screen t = Vga v" "unat y < 25"
  shows "set_cursor (Suc k) x y t = Inr (t\<lparr>tm_screen := Vga (vga_set_cursor_raw x y v), tm_x := x, tm_y := y\<rparr>)"
  using assms by (simp add: word_le_nat_alt)

lemma set_cursor_below:
  assumes "tm_screen t = Vga v" "vg_fb v = flat cs" "length cs = 2000"
  shows "set_cursor (Suc (Suc (Suc k))) x 25 t = Inr (t\<lparr>tm_screen := Vga (vga_set_cursor_raw x 24
     (v\<lparr>vg_fb := flat (scrolled (color_byte (tm_bg t) (tm_fg t)) cs), vg_index := 25 * 80 + x,
        vg_crtc := vg_crtc (vga_set_cursor_pos x 25 v)\<rparr>)), tm_x := x, tm_y := 24\<rparr>)"
proof -
  let ?v = "vga_set_cursor_raw x 25 v"
  have fb: "vg_fb ?v = flat cs" using assms(2) by (simp add: vga_set_cursor_raw_def vga_set_cursor_pos_def Let_def)
  have "(24 :: u32) < 25" by simp
  then show ?thesis using vga_scroll_one [OF fb assms(3), of "tm_bg t" "tm_fg t"] assms(1)
    by (simp add: vga_set_cursor_raw_def vga_set_cursor_pos_def Let_def max_def)
qed

text \<open>Going to a place on the screen or to the start of the line below it.\<close>

lemma goto_displays:
  assumes t: "tm_screen t = Vga v" "vg_fb v = flat cs" "length cs = 2000" and p: "unat x < 80" "unat y \<le> 25" and k: "3 \<le> k"
  shows "\<exists>t'. set_cursor k x y t = Inr t' \<and> tm_bg t' = tm_bg t \<and> tm_fg t' = tm_fg t \<and> displays t' (let q = 80 * unat y + unat x; col = color_byte (tm_bg t) (tm_fg t) in
    if q < 2000 then \<lparr>tw_cells = cs, tw_pos = q, tw_color = col\<rparr> else \<lparr>tw_cells = scrolled col cs, tw_pos = q - 80, tw_color = col\<rparr>)"
proof (cases "unat y < 25")
  case True
  obtain k' where "k = Suc k'" using k by (cases k) auto
  then show ?thesis using set_cursor_inside [OF t(1) True, of k' x] t p True
    by (auto simp: displays_def vga_set_cursor_raw_def vga_set_cursor_pos_def Let_def)
next
  case False
  then have "unat y = 25" using p(2) by simp
  then have y: "y = 25" by (simp add: word_unat_eq_iff)
  obtain k' where "k = Suc (Suc (Suc k'))" using k by (metis Suc_le_D numeral_3_eq_3 Suc_le_mono)
  then show ?thesis using set_cursor_below [OF t, of k' x] t p unfolding y
    by (auto simp: displays_def vga_set_cursor_raw_def vga_set_cursor_pos_def Let_def scrolled_def)
qed

lemma put_displays:
  assumes d: "displays t w" and k: "3 \<le> k"
  shows "\<exists>t'. term_put k ch t = Inr t' \<and> displays t' (tw_put ch w)"
proof -
  obtain v where v: "tm_screen t = Vga v" "vg_fb v = flat (tw_cells w)" "length (tw_cells w) = 2000" "unat (tm_x t) < 80" "unat (tm_y t) < 25"
      "vg_index v = tm_y t * 80 + tm_x t" "tw_pos w = 80 * unat (tm_y t) + unat (tm_x t)" "tw_color w = color_byte (tm_bg t) (tm_fg t)"
    using d by (auto simp: displays_def)
  define cells where "cells = (if ch = 9 \<or> ch = 10 then tw_cells w else (tw_cells w)[tw_pos w := (ch, tw_color w)])"
  have i: "unat (vg_index v) = tw_pos w" "unat (vg_index v * 2) = 2 * tw_pos w" "tw_pos w < 2000"
    using v(4,5,7) unfolding v(6) by (simp_all add: unat_word_ariths)
  have put: "(if ch \<noteq> 9 \<and> ch \<noteq> 10 then put_raw ch (tm_bg t) (tm_fg t) (tm_screen t) else Inr (tm_screen t)) = Inr (Vga (v\<lparr>vg_fb := flat cells\<rparr>))"
    using v(1,2,3,8) i poke_cell [of "tw_pos w" "tw_cells w" ch "tw_color w"] by (auto simp: vga_put_raw_def cells_def)
  define x1 where "x1 = (if ch = 9 then push_bit 3 (drop_bit 3 (tm_x t) + 1) else tm_x t + 1)"
  have "unat (drop_bit 3 (tm_x t)) = unat (tm_x t) div 8" by (simp add: drop_bit_eq_div unat_div)
  moreover have "unat (drop_bit 3 (tm_x t)) < 10" using calculation v(4) by simp
  ultimately have "unat (push_bit 3 (drop_bit 3 (tm_x t) + 1)) = (unat (tm_x t) div 8 + 1) * 8"
    by (simp add: push_bit_eq_mult unat_word_ariths)
  moreover have "unat (tm_x t + 1) = unat (tm_x t) + 1" using v(4) by (simp add: unat_word_ariths)
  ultimately have x1: "unat x1 = (if ch = 9 then (unat (tm_x t) div 8 + 1) * 8 else unat (tm_x t) + 1)" by (simp add: x1_def)
  have x1b: "unat x1 \<le> 80" using x1 v(4) by auto
  define wrap where "wrap \<longleftrightarrow> x1 \<ge> 80 \<or> ch = 10"
  define x where "x = (if wrap then 0 else x1)"
  define y where "y = (if wrap then tm_y t + 1 else tm_y t)"
  have xy: "unat x < 80" "unat y \<le> 25"
    using v(5) x1b by (auto simp: x_def y_def wrap_def word_le_nat_alt unat_word_ariths)
  have y1: "unat (tm_y t + 1) = unat (tm_y t) + 1" using v(5) by (simp add: unat_word_ariths)
  let ?t = "t\<lparr>tm_screen := Vga (v\<lparr>vg_fb := flat cells\<rparr>), tm_x := x, tm_y := y\<rparr>"
  have run: "term_put k ch t = set_cursor k x y ?t"
    using put v(1) unfolding term_put_def by (auto simp: x1_def x_def y_def wrap_def Let_def split: if_splits)
  have "length cells = 2000" using v(3) by (simp add: cells_def)
  then obtain t' where t': "set_cursor k x y ?t = Inr t'" "displays t' (let q = 80 * unat y + unat x; col = color_byte (tm_bg t) (tm_fg t) in
      if q < 2000 then \<lparr>tw_cells = cells, tw_pos = q, tw_color = col\<rparr> else \<lparr>tw_cells = scrolled col cells, tw_pos = q - 80, tw_color = col\<rparr>)"
    using goto_displays [of ?t "v\<lparr>vg_fb := flat cells\<rparr>" cells x y k] xy k by auto
  have dm: "tw_pos w div 80 = unat (tm_y t)" "tw_pos w mod 80 = unat (tm_x t)" using v(4,7) by simp_all
  have "80 * unat y + unat x = (if ch = 10 then (tw_pos w div 80 + 1) * 80
      else if ch = 9 then tw_pos w div 80 * 80 + (tw_pos w mod 80 div 8 + 1) * 8 else tw_pos w + 1)"
    using x1 x1b y1 v(7) unfolding dm by (auto simp: x_def y_def wrap_def word_le_nat_alt)
  moreover have rec: "w\<lparr>tw_cells := c, tw_pos := p\<rparr> = \<lparr>tw_cells = c, tw_pos = p, tw_color = color_byte (tm_bg t) (tm_fg t)\<rparr>" for c p
    using v(8) by (cases w) simp
  ultimately have "tw_put ch w = (let q = 80 * unat y + unat x; col = color_byte (tm_bg t) (tm_fg t) in
      if q < 2000 then \<lparr>tw_cells = cells, tw_pos = q, tw_color = col\<rparr> else \<lparr>tw_cells = scrolled col cells, tw_pos = q - 80, tw_color = col\<rparr>)"
    by (simp add: tw_put_def Let_def cells_def rec v(8))
  then show ?thesis using run t' by simp
qed

text \<open>C33: Whatever bytes are written to the console, it returns, and the screen, the cursor and the driver's index are those of
  a typewriter that has typed them: characters are placed one after the other, a line that is full or ended is followed by the
  next one, and at the bottom the lines move up by one.\<close>

theorem console_is_a_typewriter:
  assumes "displays t w" "3 \<le> k"
  shows "\<exists>t'. term_write k cs t = Inr t' \<and> displays t' (fold tw_put cs w)"
  using assms(1)
proof (induction cs arbitrary: t w)
  case (Cons c cs)
  obtain t1 where t1: "term_put k c t = Inr t1" "displays t1 (tw_put c w)" using put_displays [OF Cons.prems assms(2)] by blast
  from Cons.IH [OF t1(2)] show ?case using t1(1) by (simp add: term_write_def)
qed (simp add: term_write_def)

definition demo_console :: terminal where
  "demo_console = \<lparr>tm_x = 0, tm_y = 24, tm_bg = 0, tm_fg = 7, tm_screen = Vga \<lparr>vg_fb = flat (replicate 2000 (32, 7)), vg_index = 1920, vg_crtc = \<lambda>_. 0\<rparr>\<rparr>"

theorem console_is_a_typewriter_witness:
  "\<exists>t' v. term_write 3 [65, 10] demo_console = Inr t' \<and> tm_screen t' = Vga v \<and> vg_index v = 1920
    \<and> vg_fb v = flat (replicate 1840 (32, 7) @ (65, 7) # replicate 159 (32, 7))"
proof -
  let ?w = "\<lparr>tw_cells = replicate 2000 (32, 7), tw_pos = 1920, tw_color = 7\<rparr>"
  have d: "displays demo_console ?w" by (simp add: displays_def demo_console_def color_byte_def)
  have rep: "(replicate 2000 (32 :: u8, 7 :: u8))[1920 := (65, 7)] = replicate 1920 (32, 7) @ (65, 7) # replicate 79 (32, 7)"
    by (rule nth_equalityI) (auto simp: nth_append nth_list_update nth_Cons')
  have "replicate 79 (32 :: u8, 7 :: u8) @ replicate 80 (32, 7) = replicate 159 (32, 7)" by (simp add: replicate_add [symmetric])
  then have w: "fold tw_put [65, 10] ?w = \<lparr>tw_cells = replicate 1840 (32, 7) @ (65, 7) # replicate 159 (32, 7), tw_pos = 1920, tw_color = 7\<rparr>"
    by (simp add: tw_put_def Let_def rep scrolled_def drop_Cons')
  obtain t' where t': "term_write 3 [65, 10] demo_console = Inr t'" "displays t' (fold tw_put [65, 10] ?w)"
    using console_is_a_typewriter [OF d, of 3 "[65, 10]"] by auto
  obtain v where v: "tm_screen t' = Vga v" "vg_fb v = flat (replicate 1840 (32, 7) @ (65, 7) # replicate 159 (32, 7))"
      "vg_index v = tm_y t' * 80 + tm_x t'" "80 * unat (tm_y t') + unat (tm_x t') = 1920" "unat (tm_x t') < 80" "unat (tm_y t') < 25"
    using t'(2) unfolding w by (auto simp: displays_def)
  have "unat (vg_index v) = 1920" using v(4,5,6) unfolding v(3) by (simp add: unat_word_ariths)
  then have "vg_index v = 1920" by (simp add: word_unat_eq_iff)
  then show ?thesis using t'(1) v(1,2) by blast
qed

text \<open>A place two lines below the screen is scrolled by no line and set again, without end.\<close>

lemma far_below_never_ends: "tm_screen t = Vga v \<Longrightarrow> \<not> returns (set_cursor k x 26 t)"
proof (induction k arbitrary: t v rule: less_induct)
  case (less k)
  consider "k = 0" | "k = Suc 0" | j where "k = Suc (Suc j)" by (metis not0_implies_Suc)
  then show ?case
  proof cases
    case 3
    let ?v = "vga_set_cursor_raw x 26 v"
    have "set_cursor k x 26 t = bindr (vga_scroll_raw 0 (tm_bg t) (tm_fg t) ?v) (\<lambda>v. set_cursor j x 26 (t\<lparr>tm_x := x, tm_y := 26, tm_screen := Vga v\<rparr>))"
      using less.prems 3 by (simp add: Let_def bindr_assoc bindr_def split: sum.splits)
    moreover have "\<not> returns (set_cursor j x 26 (t\<lparr>tm_x := x, tm_y := 26, tm_screen := Vga w\<rparr>))" for w
      using less.IH [of j] 3 by simp
    ultimately show ?thesis by (auto simp: returns_iff bindr_Inr_iff)
  qed (use less.prems in \<open>auto simp: Let_def\<close>)
qed

end
