(* ===== verification/Ansi.thy ===== *)
theory Ansi
  imports Console File_Desc
begin

text \<open>
  The user's terminal (\<open>user/terminal/terminal.cpp\<close>, \<open>ansi.cpp\<close>): the screen behind the block device \<open>/dev/vga\<close>
  (\<open>VGABlockDevice\<close> of \<open>kernel/src/drv/vga_text.cpp\<close>) and the parser of control sequences. An \<open>int\<close> is a \<open>u32\<close> that is compared
  as signed; the file of the terminal is never closed while it runs.
\<close>

subsection \<open>The block device of the frame buffer\<close>

record vga_file =
  vt_vga :: vga
  vt_dx :: u32
  vt_dy :: u32
  vt_ptr :: usize

definition vga_memdev :: "vga_file \<Rightarrow> memdev" where
  "vga_memdev s = \<lparr>md_bytes = vg_fb (vt_vga s), md_size = 80 * 25 * 2\<rparr>"

definition vga_ioctl_x :: "u32 \<Rightarrow> vga_file \<Rightarrow> vga_file" where
  "vga_ioctl_x x s = s\<lparr>vt_vga := vga_set_cursor_pos x (vt_dy s) (vt_vga s), vt_dx := x\<rparr>"

definition vga_ioctl_y :: "u32 \<Rightarrow> vga_file \<Rightarrow> vga_file" where
  "vga_ioctl_y y s = s\<lparr>vt_vga := vga_set_cursor_pos (vt_dx s) y (vt_vga s), vt_dy := y\<rparr>"

text \<open>The system calls of the terminal on its descriptor: \<open>write\<close> and \<open>read\<close> move the position by what they have transferred.\<close>

definition vt_write :: "u8 list \<Rightarrow> vga_file \<Rightarrow> vga_file result" where
  "vt_write xs s = bindr (md_write (vga_memdev s) xs (ucast (vt_ptr s)) (of_nat (length xs))) (\<lambda>(r, d).
     Inr (s\<lparr>vt_vga := (vt_vga s)\<lparr>vg_fb := md_bytes d\<rparr>, vt_ptr := vt_ptr s + ucast r\<rparr>))"

definition vt_read :: "nat \<Rightarrow> vga_file \<Rightarrow> (u8 list \<times> vga_file) result" where
  "vt_read n s = bindr (md_read (vga_memdev s) (ucast (vt_ptr s)) (of_nat n)) (\<lambda>(r, xs). Inr (xs, s\<lparr>vt_ptr := vt_ptr s + ucast r\<rparr>))"

definition vt_seek :: "u32 \<Rightarrow> vga_file \<Rightarrow> vga_file" where
  "vt_seek off s = s\<lparr>vt_ptr := off\<rparr>"

subsection \<open>The terminal on it\<close>

definition vga_color_map :: "u8 list" where
  "vga_color_map = [0x0, 0x4, 0x2, 0x6, 0x1, 0x5, 0x3, 0x7, 0x8, 0xC, 0xA, 0xE, 0x9, 0xD, 0xB, 0xF]"

definition map_color :: "u8 \<Rightarrow> u8 \<Rightarrow> u8 result" where
  "map_color bg fg = bindr (nth_r vga_color_map (unat bg)) (\<lambda>b. bindr (nth_r vga_color_map (unat fg)) (\<lambda>f.
     Inr (push_bit 4 (b AND 0xf) OR (f AND 0xf))))"

definition vt_put :: "u8 \<Rightarrow> u8 \<Rightarrow> u8 \<Rightarrow> vga_file \<Rightarrow> vga_file result" where
  "vt_put ch bg fg s = bindr (map_color bg fg) (\<lambda>c. vt_write [ch, c] s)"

definition vt_set_cursor :: "u32 \<Rightarrow> u32 \<Rightarrow> vga_file \<Rightarrow> vga_file" where
  "vt_set_cursor x y s = vga_ioctl_y y (vga_ioctl_x x (vt_seek ((y * 80 + x) * 2) s))"

text \<open>\<open>scroll\<close> copies each line to the one above it through a buffer, which a short read would leave as it was.\<close>

definition vt_move_line :: "u8 list \<times> vga_file \<Rightarrow> nat \<Rightarrow> (u8 list \<times> vga_file) result" where
  "vt_move_line ls i = bindr (vt_read (80 * 2) (vt_seek ((of_nat i + 1) * 80 * 2) (snd ls))) (\<lambda>(xs, s).
     let line = xs @ drop (length xs) (fst ls) in
     bindr (vt_write line (vt_seek (of_nat i * 80 * 2) s)) (\<lambda>s. Inr (line, s)))"

definition vt_scroll :: "u8 \<Rightarrow> u8 \<Rightarrow> vga_file \<Rightarrow> vga_file result" where
  "vt_scroll bg fg s = (let prev = vt_ptr s in
     bindr (run_all vt_move_line (replicate 160 0, s) [0..<24]) (\<lambda>(_, s).
     bindr (map_color bg fg) (\<lambda>c. bindr (vt_write (cell_bytes 80 32 c) s) (\<lambda>s. Inr (vt_seek prev s)))))"

text \<open>The constructor clears the screen.\<close>

definition vt_new :: "vga_file \<Rightarrow> vga_file result" where
  "vt_new s = bindr (run_all (\<lambda>s _. vt_put 32 0 0xf s) (vt_set_cursor 0 0 s) [0..<80 * 25]) (\<lambda>s. Inr (vt_set_cursor 0 0 s))"

subsection \<open>The parser\<close>

record ansi =
  an_bg :: u8
  an_fg :: u8
  an_x :: u32
  an_y :: u32
  an_csi :: bool
  an_esc :: bool
  an_args :: "u32 list"
  an_idx :: u32
  an_term :: vga_file

definition update_cursor :: "ansi \<Rightarrow> ansi" where
  "update_cursor a = a\<lparr>an_term := vt_set_cursor (an_x a) (an_y a) (an_term a)\<rparr>"

definition on_term :: "(vga_file \<Rightarrow> vga_file result) \<Rightarrow> ansi \<Rightarrow> ansi result" where
  "on_term f a = bindr (f (an_term a)) (\<lambda>t. Inr (a\<lparr>an_term := t\<rparr>))"

definition scroll_up :: "ansi \<Rightarrow> ansi result" where
  "scroll_up a = on_term (vt_scroll (an_bg a) (an_fg a)) a"

text \<open>A loop of \<open>n\<close> rounds, none when \<open>n\<close> is negative.\<close>

definition rounds_of :: "u32 \<Rightarrow> (ansi \<Rightarrow> ansi result) \<Rightarrow> ansi \<Rightarrow> ansi result" where
  "rounds_of n f a = run_all (\<lambda>a _. f a) a [0..<nat (sint n)]"

definition up_step :: "ansi \<Rightarrow> ansi result" where
  "up_step a = Inr (if 0 <s an_y a then a\<lparr>an_y := an_y a - 1\<rparr> else a)"

definition down_step :: "ansi \<Rightarrow> ansi result" where
  "down_step a = (let a = a\<lparr>an_y := an_y a + 1\<rparr> in
     if 25 \<le>s an_y a then bindr (scroll_up a) (\<lambda>a. Inr (a\<lparr>an_y := an_y a - 1\<rparr>)) else Inr a)"

definition forward_step :: "ansi \<Rightarrow> ansi result" where
  "forward_step a = (let a = a\<lparr>an_x := an_x a + 1\<rparr>; a = (if 80 \<le>s an_x a then a\<lparr>an_x := 0, an_y := an_y a + 1\<rparr> else a) in
     if 25 \<le>s an_y a then bindr (scroll_up a) (\<lambda>a. Inr (a\<lparr>an_y := an_y a - 1\<rparr>)) else Inr a)"

definition back_step :: "ansi \<Rightarrow> ansi result" where
  "back_step a = Inr (if 0 <s an_x a then a\<lparr>an_x := an_x a - 1\<rparr>
     else if 0 <s an_y a then a\<lparr>an_x := 80 - 1, an_y := an_y a - 1\<rparr> else a)"

definition cursor_up :: "u32 \<Rightarrow> ansi \<Rightarrow> ansi result" where
  "cursor_up n a = bindr (rounds_of n up_step a) (\<lambda>a. Inr (update_cursor a))"

definition cursor_down :: "u32 \<Rightarrow> ansi \<Rightarrow> ansi result" where
  "cursor_down n a = bindr (rounds_of n down_step a) (\<lambda>a. Inr (update_cursor a))"

definition cursor_forward :: "u32 \<Rightarrow> ansi \<Rightarrow> ansi result" where
  "cursor_forward n a = bindr (rounds_of n forward_step a) (\<lambda>a. Inr (update_cursor a))"

definition cursor_back :: "u32 \<Rightarrow> ansi \<Rightarrow> ansi result" where
  "cursor_back n a = bindr (rounds_of n back_step a) (\<lambda>a. Inr (update_cursor a))"

definition esc_code :: "u8 \<Rightarrow> ansi \<Rightarrow> ansi" where
  "esc_code c a = (if c = 0x5b then a\<lparr>an_args := replicate 4 (- 1), an_idx := 0, an_csi := True\<rparr> else a)"

definition csi_clear :: "u32 \<Rightarrow> bool \<Rightarrow> ansi \<Rightarrow> ansi result" where
  "csi_clear n line a = (let
       home = (\<lambda>a. a\<lparr>an_term := vt_set_cursor 0 (if line then an_y a else 0) (an_term a)\<rparr>);
       (count, a) = (if n = 0 then (if line then 80 - an_x a else 80 * 25 - (an_y a * 80 + an_x a), a)
         else if n = 1 then (if line then an_x a else an_y a * 80 + an_x a, home a)
         else if n = 2 then (if line then 80 else 80 * 25, home a) else (0, a)) in
     bindr (rounds_of count (\<lambda>a. on_term (vt_put 32 (an_bg a) (an_fg a)) a) a) (\<lambda>a. Inr (update_cursor a)))"

definition select_sgr :: "u8 \<Rightarrow> ansi \<Rightarrow> ansi" where
  "select_sgr c a = (if 30 \<le> c \<and> c \<le> 37 then a\<lparr>an_fg := c - 30\<rparr> else if 40 \<le> c \<and> c \<le> 47 then a\<lparr>an_bg := c - 40\<rparr>
     else if 90 \<le> c \<and> c \<le> 97 then a\<lparr>an_fg := c - 90 + 8\<rparr> else if 100 \<le> c \<and> c \<le> 107 then a\<lparr>an_bg := c - 100 + 8\<rparr> else a)"

definition run_csi_sequence :: "u8 \<Rightarrow> ansi \<Rightarrow> ansi result" where
  "run_csi_sequence c a = bindr (nth_r (an_args a) 0) (\<lambda>a0. bindr (nth_r (an_args a) 1) (\<lambda>a1.
     let n = (if a0 = - 1 then 1 else a0); m = (if a1 = - 1 then 1 else a1) in
     if c = 0x41 then cursor_up n a
     else if c = 0x42 then cursor_down n a
     else if c = 0x43 then cursor_forward n a
     else if c = 0x44 then cursor_back n a
     else if c = 0x45 then cursor_down n (a\<lparr>an_x := 0\<rparr>)
     else if c = 0x46 then cursor_up n (a\<lparr>an_x := 0\<rparr>)
     else if c = 0x47 then Inr (update_cursor (a\<lparr>an_x := n\<rparr>))
     else if c = 0x48 \<or> c = 0x66 then Inr (update_cursor (a\<lparr>an_x := m\<rparr>))
     else if c = 0x4a then csi_clear (if a0 = - 1 then 0 else n) False a
     else if c = 0x4b then csi_clear (if a0 = - 1 then 0 else n) True a
     else if c = 0x53 then bindr (rounds_of n scroll_up a) (cursor_up n)
     else if c = 0x6d then Inr (if a0 = - 1 then a else select_sgr (ucast n) a)
     else Inr a))"

definition csi_char :: "u8 \<Rightarrow> ansi \<Rightarrow> ansi result" where
  "csi_char c a = (if 0x30 \<le> c \<and> c \<le> 0x39 then bindr (nth_r (an_args a) (unat (an_idx a))) (\<lambda>v.
       bindr (upd_r (an_args a) (unat (an_idx a)) ((if v = - 1 then 0 else v) * 10 + (ucast c - 0x30))) (\<lambda>as. Inr (a\<lparr>an_args := as\<rparr>)))
     else if c = 0x3b \<and> 4 \<le>s an_idx a + 1 then Inr (a\<lparr>an_idx := an_idx a + 1, an_csi := False\<rparr>)
     else let a = (if c = 0x3b then a\<lparr>an_idx := an_idx a + 1\<rparr> else a) in
       if 0x40 \<le> c \<and> c \<le> 0x7E then bindr (run_csi_sequence c a) (\<lambda>a. Inr (a\<lparr>an_csi := False\<rparr>)) else Inr a)"

text \<open>The remainder of the division of an \<open>int\<close> by 8 has the sign of the number.\<close>

definition rem8 :: "u32 \<Rightarrow> u32" where
  "rem8 x = (if x <s 0 then - ((- x) mod 8) else x mod 8)"

definition ansi_put :: "u8 \<Rightarrow> ansi \<Rightarrow> ansi result" where
  "ansi_put c a = (if an_esc a then Inr ((esc_code c a)\<lparr>an_esc := False\<rparr>)
     else if an_csi a then csi_char c a
     else if c = 0x07 then Inr a
     else if c = 0x08 then cursor_back 1 a
     else if c = 0x09 then run_all (\<lambda>a _. cursor_forward 1 a) a [0..<nat (sint (8 - rem8 (an_x a)))]
     else if c = 0x0A then cursor_down 1 (a\<lparr>an_x := 0\<rparr>)
     else if c = 0x0C then Inr (update_cursor (a\<lparr>an_x := 0, an_y := 0\<rparr>))
     else if c = 0x0D then Inr (update_cursor (a\<lparr>an_x := 0\<rparr>))
     else if c = 0x1B then Inr (a\<lparr>an_esc := True\<rparr>)
     else bindr (on_term (vt_put c (an_bg a) (an_fg a)) a) (cursor_forward 1))"

definition ansi_write :: "u8 list \<Rightarrow> ansi \<Rightarrow> ansi result" where
  "ansi_write cs a = run_all (\<lambda>a c. ansi_put c a) a cs"

subsection \<open>Any bytes are accepted\<close>

text \<open>The colours are in the table, the list of arguments has four entries and the index is below four while one can be given.\<close>

definition ansi_ok :: "ansi \<Rightarrow> bool" where
  "ansi_ok a \<longleftrightarrow> an_bg a < 16 \<and> an_fg a < 16 \<and> length (an_args a) = 4 \<and> (an_csi a \<longrightarrow> unat (an_idx a) < 4)
     \<and> length (vg_fb (vt_vga (an_term a))) = 4000"

definition keeps :: "('a \<Rightarrow> bool) \<Rightarrow> ('a \<Rightarrow> 'a result) \<Rightarrow> bool" where
  "keeps P f \<longleftrightarrow> (\<forall>a. P a \<longrightarrow> (\<exists>b. f a = Inr b \<and> P b))"

lemma keepsI: "(\<And>a. P a \<Longrightarrow> \<exists>b. f a = Inr b \<and> P b) \<Longrightarrow> keeps P f"
  by (simp add: keeps_def)

lemma keepsD: "keeps P f \<Longrightarrow> P a \<Longrightarrow> \<exists>b. f a = Inr b \<and> P b"
  by (simp add: keeps_def)

lemma keeps_bind: "keeps P f \<Longrightarrow> keeps P g \<Longrightarrow> keeps P (\<lambda>a. bindr (f a) g)"
  unfolding keeps_def by (metis bindr_simps(2))

lemma keeps_run_all: "(\<And>x. keeps P (\<lambda>a. f a x)) \<Longrightarrow> keeps P (\<lambda>a. run_all f a xs)"
proof (induction xs)
  case Nil
  then show ?case by (simp add: keeps_def)
next
  case (Cons x xs)
  then show ?case unfolding keeps_def by simp (metis bindr_simps(2))
qed

lemma keeps_rounds: "keeps P f \<Longrightarrow> keeps P (rounds_of n f)"
  unfolding rounds_of_def by (rule keeps_run_all)

lemma keeps_pure: "(\<And>a. P a \<Longrightarrow> P (f a)) \<Longrightarrow> keeps P (\<lambda>a. Inr (f a))"
  by (simp add: keeps_def)

definition fb_ok :: "vga_file \<Rightarrow> bool" where
  "fb_ok s \<longleftrightarrow> length (vg_fb (vt_vga s)) = 4000"

lemma vt_write_ok:
  assumes "fb_ok s" "length xs < 4294967296"
  shows "\<exists>t. vt_write xs s = Inr t \<and> fb_ok t"
proof -
  let ?p = "ucast (vt_ptr s) :: u64"
  show ?thesis
  proof (cases "?p \<ge> 4000")
    case True
    then show ?thesis using assms(1) by (simp add: vt_write_def md_write_def vga_memdev_def fb_ok_def)
  next
    case False
    define m where "m = min (4000 - ?p) (of_nat (length xs))"
    have n: "unat (of_nat (length xs) :: u64) = length xs" using assms(2) by (simp add: unat_of_nat take_bit_nat_eq_self)
    have p: "unat ?p < 4000" using False by (simp add: word_le_nat_alt)
    then have d: "unat (4000 - ?p) = 4000 - unat ?p" using False by (subst unat_diff_le) (simp_all add: word_le_nat_alt)
    have m: "unat m \<le> length xs" "unat ?p + unat m \<le> 4000"
      using n d p unfolding m_def by (auto simp: min_def word_le_nat_alt)
    then have "\<exists>b. poke (vg_fb (vt_vga s)) (unat ?p) (take (unat m) xs) = Inr b \<and> length b = 4000"
      using assms(1) by (auto simp: fb_ok_def)
    then show ?thesis using False m(1) assms(1)
      by (auto simp: vt_write_def md_write_def vga_memdev_def m_def [symmetric] Let_def fb_ok_def)
  qed
qed

lemma vt_read_ok:
  assumes "fb_ok s" "n < 4294967296"
  shows "\<exists>xs t. vt_read n s = Inr (xs, t) \<and> fb_ok t \<and> length xs \<le> n"
proof -
  let ?p = "ucast (vt_ptr s) :: u64"
  show ?thesis
  proof (cases "?p \<ge> 4000")
    case True
    then show ?thesis using assms(1) by (simp add: vt_read_def md_read_def vga_memdev_def fb_ok_def)
  next
    case False
    define m where "m = min (4000 - ?p) (of_nat n)"
    have n: "unat (of_nat n :: u64) = n" using assms(2) by (simp add: unat_of_nat take_bit_nat_eq_self)
    have p: "unat ?p < 4000" using False by (simp add: word_le_nat_alt)
    then have d: "unat (4000 - ?p) = 4000 - unat ?p" using False by (subst unat_diff_le) (simp_all add: word_le_nat_alt)
    have m: "unat m \<le> n" "unat ?p + unat m \<le> 4000"
      using n d p unfolding m_def by (auto simp: min_def word_le_nat_alt)
    then show ?thesis using False assms(1)
      by (auto simp: vt_read_def md_read_def vga_memdev_def m_def [symmetric] Let_def fb_ok_def)
  qed
qed

lemma map_color_ok: "bg < 16 \<Longrightarrow> fg < 16 \<Longrightarrow> \<exists>c. map_color bg fg = Inr c"
  by (simp add: map_color_def nth_r_def vga_color_map_def word_less_nat_alt)

lemma vt_move_ok: "keeps (\<lambda>ls. length (fst ls) = 160 \<and> fb_ok (snd ls)) (\<lambda>ls. vt_move_line ls i)"
proof (rule keepsI)
  fix ls :: "u8 list \<times> vga_file"
  assume a: "length (fst ls) = 160 \<and> fb_ok (snd ls)"
  then have "fb_ok (vt_seek ((of_nat i + 1) * 80 * 2) (snd ls))" by (simp add: vt_seek_def fb_ok_def)
  then obtain xs s where s: "vt_read (80 * 2) (vt_seek ((of_nat i + 1) * 80 * 2) (snd ls)) = Inr (xs, s)" "fb_ok s" "length xs \<le> 160"
    using vt_read_ok [of _ "80 * 2"] by fastforce
  have "fb_ok (vt_seek (of_nat i * 80 * 2) s)" using s(2) by (simp add: vt_seek_def fb_ok_def)
  moreover have l: "length (xs @ drop (length xs) (fst ls)) = 160" using a s(3) by simp
  ultimately obtain t where "vt_write (xs @ drop (length xs) (fst ls)) (vt_seek (of_nat i * 80 * 2) s) = Inr t" "fb_ok t"
    using vt_write_ok [of "vt_seek (of_nat i * 80 * 2) s" "xs @ drop (length xs) (fst ls)"] by auto
  then show "\<exists>b. vt_move_line ls i = Inr b \<and> length (fst b) = 160 \<and> fb_ok (snd b)"
    using s(1) l by (simp add: vt_move_line_def Let_def)
qed

lemma vt_scroll_ok:
  assumes "fb_ok s" "bg < 16" "fg < 16"
  shows "\<exists>t. vt_scroll bg fg s = Inr t \<and> fb_ok t"
proof -
  have "\<exists>ls. run_all vt_move_line (replicate 160 0, s) [0..<24] = Inr ls \<and> length (fst ls) = 160 \<and> fb_ok (snd ls)"
    using keepsD [OF keeps_run_all [of _ vt_move_line, OF vt_move_ok], of "(replicate 160 0, s)" "[0..<24]"] assms(1) by simp
  then obtain ls where ls: "run_all vt_move_line (replicate 160 0, s) [0..<24] = Inr ls" "fb_ok (snd ls)" by blast
  obtain c where c: "map_color bg fg = Inr c" using map_color_ok assms(2,3) by blast
  obtain t where "vt_write (cell_bytes 80 32 c) (snd ls) = Inr t" "fb_ok t"
    using vt_write_ok [OF ls(2), of "cell_bytes 80 32 c"] by (auto simp: cell_bytes_flat)
  then show ?thesis using ls(1) c by (cases ls) (simp add: vt_scroll_def Let_def fb_ok_def vt_seek_def)
qed

lemma ansi_ok_simps [simp]:
  "ansi_ok (a\<lparr>an_x := x\<rparr>) = ansi_ok a" "ansi_ok (a\<lparr>an_y := y\<rparr>) = ansi_ok a" "ansi_ok (a\<lparr>an_esc := e\<rparr>) = ansi_ok a"
  by (simp_all add: ansi_ok_def)

lemma update_cursor_ok [simp]: "ansi_ok (update_cursor a) = ansi_ok a"
  by (simp add: ansi_ok_def update_cursor_def vt_set_cursor_def vga_ioctl_x_def vga_ioctl_y_def vt_seek_def vga_set_cursor_pos_def Let_def)

lemma ansi_ok_term: "ansi_ok a \<Longrightarrow> fb_ok (an_term a) \<and> an_bg a < 16 \<and> an_fg a < 16"
  by (simp add: ansi_ok_def fb_ok_def)

lemma on_term_ok:
  assumes "\<And>a. ansi_ok a \<Longrightarrow> \<exists>t. f a (an_term a) = Inr t \<and> fb_ok t"
  shows "keeps ansi_ok (\<lambda>a. on_term (f a) a)"
proof (rule keepsI)
  fix a
  assume a: "ansi_ok a"
  then obtain t where "f a (an_term a) = Inr t" "fb_ok t" using assms by blast
  then show "\<exists>b. on_term (f a) a = Inr b \<and> ansi_ok b" using a by (simp add: on_term_def ansi_ok_def fb_ok_def)
qed

lemma scroll_up_ok: "keeps ansi_ok scroll_up"
  unfolding scroll_up_def by (rule on_term_ok) (use vt_scroll_ok ansi_ok_term in blast)

lemma vt_put_ok: "fb_ok s \<Longrightarrow> bg < 16 \<Longrightarrow> fg < 16 \<Longrightarrow> \<exists>t. vt_put c bg fg s = Inr t \<and> fb_ok t"
  using map_color_ok [of bg fg] vt_write_ok [of s "[c, _]"] by (fastforce simp: vt_put_def)

lemma put_ok: "keeps ansi_ok (\<lambda>a. on_term (vt_put c (an_bg a) (an_fg a)) a)"
  by (rule on_term_ok) (use vt_put_ok ansi_ok_term in blast)

lemma steps_ok: "keeps ansi_ok up_step" "keeps ansi_ok back_step" "keeps ansi_ok down_step" "keeps ansi_ok forward_step"
proof -
  have s: "\<exists>b. bindr (scroll_up a) (\<lambda>a. Inr (a\<lparr>an_y := an_y a - 1\<rparr>)) = Inr b \<and> ansi_ok b" if "ansi_ok a" for a
    using keepsD [OF scroll_up_ok that] by auto
  show "keeps ansi_ok up_step" "keeps ansi_ok back_step" by (auto simp: keeps_def up_step_def back_step_def)
  show "keeps ansi_ok down_step" using s by (auto simp: keeps_def down_step_def Let_def)
  show "keeps ansi_ok forward_step" using s by (auto simp: keeps_def forward_step_def Let_def)
qed

lemma moves_ok: "keeps ansi_ok (cursor_up n)" "keeps ansi_ok (cursor_down n)" "keeps ansi_ok (cursor_forward n)" "keeps ansi_ok (cursor_back n)"
  unfolding cursor_up_def cursor_down_def cursor_forward_def cursor_back_def
  by (rule keeps_bind [OF keeps_rounds [OF steps_ok(1)]] keeps_bind [OF keeps_rounds [OF steps_ok(2)]] keeps_bind [OF keeps_rounds [OF steps_ok(3)]]
      keeps_bind [OF keeps_rounds [OF steps_ok(4)]], simp add: keeps_def)+

lemma csi_clear_ok: "keeps ansi_ok (csi_clear n line)"
proof (rule keepsI)
  fix a
  assume a: "ansi_ok a"
  have home: "ansi_ok (a\<lparr>an_term := vt_set_cursor x y (an_term a)\<rparr>)" for x y
    using a by (simp add: ansi_ok_def vt_set_cursor_def vga_ioctl_x_def vga_ioctl_y_def vt_seek_def vga_set_cursor_pos_def Let_def)
  have fin: "\<exists>c. bindr (rounds_of count (\<lambda>a. on_term (vt_put 32 (an_bg a) (an_fg a)) a) b) (\<lambda>a. Inr (update_cursor a)) = Inr c \<and> ansi_ok c"
    if "ansi_ok b" for count b
    using keepsD [OF keeps_bind [OF keeps_rounds [OF put_ok] keeps_pure [of ansi_ok update_cursor]] that] by simp
  show "\<exists>b. csi_clear n line a = Inr b \<and> ansi_ok b"
    unfolding csi_clear_def Let_def using fin a home by (auto split: prod.splits)
qed

lemma select_sgr_ok: "ansi_ok a \<Longrightarrow> ansi_ok (select_sgr c a)"
  by (auto simp: ansi_ok_def select_sgr_def word_less_nat_alt word_le_nat_alt unat_word_ariths unat_sub)

lemma if_result_ok: "\<exists>b. x = Inr b \<and> P b \<Longrightarrow> \<exists>b. y = Inr b \<and> P b \<Longrightarrow> \<exists>b. (if c then x else y) = Inr b \<and> P b"
  by simp

lemma csi_sequence_ok: "keeps ansi_ok (run_csi_sequence c)"
proof (rule keepsI)
  fix a
  assume a: "ansi_ok a"
  then have l: "nth_r (an_args a) 0 = Inr (an_args a ! 0)" "nth_r (an_args a) 1 = Inr (an_args a ! 1)"
    by (simp_all add: ansi_ok_def nth_r_def)
  have su: "\<exists>b. bindr (rounds_of n scroll_up a) (cursor_up n) = Inr b \<and> ansi_ok b" for n
    using keepsD [OF keeps_bind [OF keeps_rounds [OF scroll_up_ok] moves_ok(1)] a] .
  show "\<exists>b. run_csi_sequence c a = Inr b \<and> ansi_ok b"
    unfolding run_csi_sequence_def l bindr_simps Let_def
    by (intro if_result_ok keepsD [OF moves_ok(1)] keepsD [OF moves_ok(2)] keepsD [OF moves_ok(3)] keepsD [OF moves_ok(4)]
      keepsD [OF csi_clear_ok] su) (use a select_sgr_ok in auto)
qed

lemma csi_char_ok:
  assumes a: "ansi_ok a" "an_csi a"
  shows "\<exists>b. csi_char c a = Inr b \<and> ansi_ok b"
proof -
  have i: "unat (an_idx a) < 4" "length (an_args a) = 4" using a by (auto simp: ansi_ok_def)
  have n: "unat (an_idx a + 1) = unat (an_idx a) + 1" using i by (simp add: unat_word_ariths)
  have s: "4 \<le>s an_idx a + 1 \<longleftrightarrow> unat (an_idx a) = 3"
  proof -
    have "unat (an_idx a) \<in> {0, 1, 2, 3}" using i by auto
    then have "an_idx a \<in> {0, 1, 2, 3}" by (auto simp: word_unat_eq_iff)
    then show ?thesis by (auto simp: word_sle_eq)
  qed
  have k: "ansi_ok (if c = 0x3b then a\<lparr>an_idx := an_idx a + 1\<rparr> else a)" if "\<not> (c = 0x3b \<and> 4 \<le>s an_idx a + 1)"
    using a i n s that by (auto simp: ansi_ok_def)
  have off: "ansi_ok (b\<lparr>an_csi := False\<rparr>)" if "ansi_ok b" for b using that by (simp add: ansi_ok_def)
  show ?thesis
  proof (cases "0x30 \<le> c \<and> c \<le> 0x39")
    case True
    then show ?thesis using a i by (auto simp: csi_char_def ansi_ok_def nth_r_def upd_r_def)
  next
    case False
    show ?thesis
    proof (cases "c = 0x3b \<and> 4 \<le>s an_idx a + 1")
      case True
      then show ?thesis using False a by (simp add: csi_char_def ansi_ok_def)
    next
      case nend: False
      show ?thesis unfolding csi_char_def Let_def if_not_P [OF False] if_not_P [OF nend]
        using keepsD [OF keeps_bind [OF csi_sequence_ok keeps_pure [of ansi_ok "\<lambda>a. a\<lparr>an_csi := False\<rparr>", OF off]] k [OF nend]] k [OF nend] by (cases "0x40 \<le> c \<and> c \<le> 0x7E") auto
    qed
  qed
qed

lemma ansi_put_ok: "keeps ansi_ok (ansi_put c)"
proof (rule keepsI)
  fix a
  assume a: "ansi_ok a"
  show "\<exists>b. ansi_put c a = Inr b \<and> ansi_ok b"
  proof (cases "an_esc a")
    case True
    then show ?thesis using a by (simp add: ansi_put_def esc_code_def ansi_ok_def)
  next
    case esc: False
    show ?thesis
    proof (cases "an_csi a")
      case True
      then show ?thesis using esc csi_char_ok [OF a] by (simp add: ansi_put_def)
    next
      case False
      have tab: "\<exists>b. run_all (\<lambda>a _. cursor_forward 1 a) a is = Inr b \<and> ansi_ok b" for "is" :: "nat list"
        using keepsD [OF keeps_run_all [of ansi_ok "\<lambda>a _. cursor_forward 1 a", OF moves_ok(3)] a] .
      have put: "\<exists>b. bindr (on_term (vt_put c (an_bg a) (an_fg a)) a) (cursor_forward 1) = Inr b \<and> ansi_ok b"
        using keepsD [OF keeps_bind [OF put_ok moves_ok(3)] a] .
      have x0: "ansi_ok (a\<lparr>an_x := 0\<rparr>)" using a by simp
      show ?thesis unfolding ansi_put_def
        using esc False a tab put keepsD [OF moves_ok(4) a] keepsD [OF moves_ok(2) x0] by (simp split: if_splits)
    qed
  qed
qed

text \<open>C31: The terminal accepts any bytes: no control sequence, however long or malformed, makes it read or write outside its arrays or
  the frame buffer, and its colours stay valid.\<close>

theorem terminal_accepts_any_bytes:
  assumes "ansi_ok a"
  shows "\<exists>b. ansi_write cs a = Inr b \<and> ansi_ok b"
  using keepsD [OF keeps_run_all [of ansi_ok "\<lambda>a c. ansi_put c a", OF ansi_put_ok] assms, of cs] by (simp add: ansi_write_def)

subsection \<open>Plain text\<close>

text \<open>The parser outside of control sequences denotes the typewriter of theory \<open>Console\<close>.\<close>

definition ansi_displays :: "ansi \<Rightarrow> typewriter \<Rightarrow> bool" where
  "ansi_displays a w \<longleftrightarrow> \<not> an_esc a \<and> \<not> an_csi a \<and> vg_fb (vt_vga (an_term a)) = flat (tw_cells w) \<and> length (tw_cells w) = 2000
     \<and> unat (an_x a) < 80 \<and> unat (an_y a) < 25 \<and> vt_ptr (an_term a) = (an_y a * 80 + an_x a) * 2
     \<and> tw_pos w = 80 * unat (an_y a) + unat (an_x a) \<and> map_color (an_bg a) (an_fg a) = Inr (tw_color w)"

text \<open>A write and a read inside the frame buffer.\<close>

lemma ucast_of_nat_cut: "ucast (of_nat k :: u64) = (of_nat k :: u32)"
  by (rule bit_word_eqI) (simp add: bit_simps)

lemma vt_write_at:
  assumes "vg_fb (vt_vga s) = flat cs" "length cs = 2000" "unat (vt_ptr s) = 2 * i" "xs = flat ys" "i + length ys \<le> 2000"
  shows "vt_write xs s = Inr (s\<lparr>vt_vga := (vt_vga s)\<lparr>vg_fb := flat (take i cs @ ys @ drop (i + length ys) cs)\<rparr>, vt_ptr := vt_ptr s + of_nat (2 * length ys)\<rparr>)"
proof -
  let ?p = "ucast (vt_ptr s) :: u64" and ?n = "of_nat (length xs) :: u64"
  have n: "unat ?n = 2 * length ys" using assms(4,5) by (simp add: unat_of_nat take_bit_nat_eq_self del: of_nat_mult)
  show ?thesis
  proof (cases "ys = []")
    case True
    then show ?thesis using assms by (auto simp: vt_write_def md_write_def vga_memdev_def Let_def min_def)
  next
    case False
    have p: "unat ?p = 2 * i" using assms(3) by simp
    have lt: "\<not> 4000 \<le> ?p" using p False assms(5) by (cases ys) (auto simp: word_le_nat_alt)
    then have "unat (4000 - ?p) = 4000 - 2 * i" using p by (subst unat_diff_le) (simp_all add: word_le_nat_alt)
    then have m: "min (4000 - ?p) ?n = ?n" using n assms(5) by (intro min_absorb2) (simp add: word_le_nat_alt)
    have cut: "ucast ?n = (of_nat (2 * length ys) :: u32)" unfolding assms(4) flat_bytes_length by (rule ucast_of_nat_cut)
    show ?thesis using lt m n p poke_flat [of i ys cs] assms cut
      by (simp add: vt_write_def md_write_def vga_memdev_def Let_def del: of_nat_mult)
  qed
qed

lemma vt_read_at:
  assumes "vg_fb (vt_vga s) = flat cs" "length cs = 2000" "unat (vt_ptr s) = 2 * i" "i + n \<le> 2000" "0 < n"
  shows "vt_read (2 * n) s = Inr (flat (take n (drop i cs)), s\<lparr>vt_ptr := vt_ptr s + of_nat (2 * n)\<rparr>)"
proof -
  let ?p = "ucast (vt_ptr s) :: u64" and ?n = "of_nat (2 * n) :: u64"
  have n: "unat ?n = 2 * n" using assms(4) by (simp add: unat_of_nat take_bit_nat_eq_self del: of_nat_mult)
  have p: "unat ?p = 2 * i" using assms(3) by simp
  have lt: "\<not> 4000 \<le> ?p" using p assms(4,5) by (auto simp: word_le_nat_alt)
  then have "unat (4000 - ?p) = 4000 - 2 * i" using p by (subst unat_diff_le) (simp_all add: word_le_nat_alt)
  then have m: "min (4000 - ?p) ?n = ?n" using n assms(4) by (intro min_absorb2) (simp add: word_le_nat_alt)
  have cut: "ucast ?n = (of_nat (2 * n) :: u32)" by (rule ucast_of_nat_cut)
  show ?thesis using lt m n p peek_flat [of i n cs] assms cut
    by (simp add: vt_read_def md_read_def vga_memdev_def Let_def del: of_nat_mult)
qed

lemma vt_move_line_at:
  assumes "vg_fb (vt_vga s) = flat cs" "length cs = 2000" "length line = 160" "i < 24"
  shows "vt_move_line (line, s) i = Inr (flat (take 80 (drop (80 * Suc i) cs)), s\<lparr>vt_vga := (vt_vga s)\<lparr>vg_fb :=
      flat (take (80 * i) cs @ take 80 (drop (80 * Suc i) cs) @ drop (80 * Suc i) cs)\<rparr>, vt_ptr := of_nat (160 * Suc i)\<rparr>)"
proof -
  let ?row = "take 80 (drop (80 * Suc i) cs)"
  have row: "length ?row = 80" using assms(2,4) by simp
  have u: "unat ((of_nat i + 1) * 80 * 2 :: u32) = 2 * (80 * Suc i)" "unat (of_nat i * 80 * 2 :: u32) = 2 * (80 * i)"
    using assms(4) by (simp_all add: unat_word_ariths unat_of_nat32)
  have r: "vt_read (2 * 80) (vt_seek ((of_nat i + 1) * 80 * 2) s)
      = Inr (flat ?row, s\<lparr>vt_ptr := (of_nat i + 1) * 80 * 2 + of_nat (2 * 80)\<rparr>)"
    using vt_read_at [of "vt_seek ((of_nat i + 1) * 80 * 2) s" cs "80 * Suc i" 80] assms u(1) by (simp add: vt_seek_def del: mult_Suc_right)
  have w: "vt_write (flat ?row) (vt_seek (of_nat i * 80 * 2) (s\<lparr>vt_ptr := (of_nat i + 1) * 80 * 2 + of_nat (2 * 80)\<rparr>))
      = Inr (s\<lparr>vt_vga := (vt_vga s)\<lparr>vg_fb := flat (take (80 * i) cs @ ?row @ drop (80 * Suc i) cs)\<rparr>, vt_ptr := of_nat i * 80 * 2 + of_nat (2 * 80)\<rparr>)"
    using vt_write_at [of "vt_seek (of_nat i * 80 * 2) (s\<lparr>vt_ptr := (of_nat i + 1) * 80 * 2 + of_nat (2 * 80)\<rparr>)" cs "80 * i" "flat ?row" ?row] assms u(2) row
    by (simp add: vt_seek_def add.commute)
  have "flat ?row @ drop (length (flat ?row)) line = flat ?row" using row assms(3) by simp
  then show ?thesis using r w by (simp add: vt_move_line_def Let_def algebra_simps)
qed

lemma vt_move_lines_at:
  assumes "vg_fb (vt_vga s) = flat cs" "length cs = 2000" "n \<le> 24"
  shows "\<exists>line. length line = 160 \<and> run_all vt_move_line (replicate 160 0, s) [0..<n] = Inr (line, s\<lparr>vt_vga := (vt_vga s)\<lparr>vg_fb :=
      flat (take (80 * n) (drop 80 cs) @ drop (80 * n) cs)\<rparr>, vt_ptr := if n = 0 then vt_ptr s else of_nat (160 * n)\<rparr>)"
  using assms(3)
proof (induction n)
  case 0
  then show ?case using assms(1) by simp
next
  case (Suc n)
  let ?cs = "take (80 * n) (drop 80 cs) @ drop (80 * n) cs"
  obtain line where line: "length line = 160" "run_all vt_move_line (replicate 160 0, s) [0..<n] = Inr (line, s\<lparr>vt_vga := (vt_vga s)\<lparr>vg_fb :=
      flat ?cs\<rparr>, vt_ptr := if n = 0 then vt_ptr s else of_nat (160 * n)\<rparr>)"
    using Suc by auto
  have len: "length ?cs = 2000" using assms(2) Suc.prems by simp
  have row: "take (80 * n) ?cs @ take 80 (drop (80 * Suc n) ?cs) @ drop (80 * Suc n) ?cs = take (80 * Suc n) (drop 80 cs) @ drop (80 * Suc n) cs"
    using assms(2) Suc.prems take_add [of "80 * n" 80 "drop 80 cs"] by (simp add: add.commute)
  then have "run_all vt_move_line (replicate 160 0, s) [0..<Suc n] = vt_move_line (line, s\<lparr>vt_vga := (vt_vga s)\<lparr>vg_fb := flat ?cs\<rparr>,
      vt_ptr := if n = 0 then vt_ptr s else of_nat (160 * n)\<rparr>) n"
    using line(2) by (simp add: run_all_snoc)
  then show ?case using vt_move_line_at [of _ ?cs line n] line(1) len assms(2) Suc.prems unfolding row [symmetric] by (simp del: flat_simps of_nat_mult mult_Suc_right) arith
qed

lemma vt_scroll_at:
  assumes "vg_fb (vt_vga s) = flat cs" "length cs = 2000" "map_color bg fg = Inr c"
  shows "vt_scroll bg fg s = Inr (s\<lparr>vt_vga := (vt_vga s)\<lparr>vg_fb := flat (scrolled c cs)\<rparr>\<rparr>)"
proof -
  let ?cs = "take 1920 (drop 80 cs) @ drop 1920 cs"
  obtain line where l: "run_all vt_move_line (replicate 160 0, s) [0..<24] = Inr (line, s\<lparr>vt_vga := (vt_vga s)\<lparr>vg_fb := flat ?cs\<rparr>, vt_ptr := 3840\<rparr>)"
    using vt_move_lines_at [OF assms(1,2), of 24] by (auto simp del: flat_simps)
  have "vt_write (cell_bytes 80 32 c) (s\<lparr>vt_vga := (vt_vga s)\<lparr>vg_fb := flat ?cs\<rparr>, vt_ptr := 3840\<rparr>)
      = Inr (s\<lparr>vt_vga := (vt_vga s)\<lparr>vg_fb := flat (take 1920 ?cs @ replicate 80 (32, c) @ drop (1920 + 80) ?cs)\<rparr>, vt_ptr := 3840 + of_nat (2 * 80)\<rparr>)"
    using vt_write_at [of "s\<lparr>vt_vga := (vt_vga s)\<lparr>vg_fb := flat ?cs\<rparr>, vt_ptr := 3840\<rparr>" ?cs 1920 "cell_bytes 80 32 c" "replicate 80 (32, c)"] assms(2)
    by (simp add: cell_bytes_flat del: flat_simps of_nat_mult)
  moreover have "take 1920 ?cs @ replicate 80 (32, c) @ drop (1920 + 80) ?cs = scrolled c cs" using assms(2) by (simp add: scrolled_def)
  ultimately show ?thesis using l assms(3) by (simp add: vt_scroll_def Let_def vt_seek_def del: flat_simps)
qed

lemma rounds_one: "rounds_of 1 f a = f a"
  by (cases "f a") (simp_all add: rounds_of_def)

lemma update_displays:
  assumes "\<not> an_esc a" "\<not> an_csi a" "vg_fb (vt_vga (an_term a)) = flat cs" "length cs = 2000" "unat (an_x a) < 80" "unat (an_y a) < 25"
    "map_color (an_bg a) (an_fg a) = Inr c"
  shows "ansi_displays (update_cursor a) \<lparr>tw_cells = cs, tw_pos = 80 * unat (an_y a) + unat (an_x a), tw_color = c\<rparr>"
  using assms by (simp add: ansi_displays_def update_cursor_def vt_set_cursor_def vga_ioctl_x_def vga_ioctl_y_def vt_seek_def vga_set_cursor_pos_def Let_def)

text \<open>Where the steps forward and down go: to the next place, and with the lines moved up when that is below the screen.\<close>

definition tw_goto :: "nat \<Rightarrow> typewriter \<Rightarrow> typewriter" where
  "tw_goto q w = (if q < 2000 then w\<lparr>tw_pos := q\<rparr> else w\<lparr>tw_cells := scrolled (tw_color w) (tw_cells w), tw_pos := q - 80\<rparr>)"

lemma bottom_displays:
  assumes a: "\<not> an_esc a" "\<not> an_csi a" "vg_fb (vt_vga (an_term a)) = flat (tw_cells w)" "length (tw_cells w) = 2000" "unat (an_x a) < 80" "unat (an_y a) \<le> 25"
    and c: "map_color (an_bg a) (an_fg a) = Inr (tw_color w)"
  shows "\<exists>b. (if 25 \<le>s an_y a then bindr (scroll_up a) (\<lambda>a. Inr (a\<lparr>an_y := an_y a - 1\<rparr>)) else Inr a) = Inr b
    \<and> ansi_displays (update_cursor b) (tw_goto (80 * unat (an_y a) + unat (an_x a)) w)"
proof (cases "unat (an_y a) = 25")
  case True
  then have y: "an_y a = 25" by (simp add: word_unat_eq_iff)
  have s: "25 \<le>s an_y a" unfolding y by simp
  let ?b = "a\<lparr>an_term := (an_term a)\<lparr>vt_vga := (vt_vga (an_term a))\<lparr>vg_fb := flat (scrolled (tw_color w) (tw_cells w))\<rparr>\<rparr>, an_y := 24\<rparr>"
  have "scroll_up a = Inr (a\<lparr>an_term := (an_term a)\<lparr>vt_vga := (vt_vga (an_term a))\<lparr>vg_fb := flat (scrolled (tw_color w) (tw_cells w))\<rparr>\<rparr>\<rparr>)"
    using vt_scroll_at [OF a(3,4) c] by (simp add: scroll_up_def on_term_def)
  then have run: "bindr (scroll_up a) (\<lambda>a. Inr (a\<lparr>an_y := an_y a - 1\<rparr>)) = Inr ?b" using y by simp
  have "ansi_displays (update_cursor ?b) \<lparr>tw_cells = scrolled (tw_color w) (tw_cells w), tw_pos = 80 * unat (an_y ?b) + unat (an_x ?b), tw_color = tw_color w\<rparr>"
    using a c by (intro update_displays) (simp_all add: scrolled_def)
  moreover have "tw_goto (80 * unat (an_y a) + unat (an_x a)) w
      = \<lparr>tw_cells = scrolled (tw_color w) (tw_cells w), tw_pos = 80 * unat (an_y ?b) + unat (an_x ?b), tw_color = tw_color w\<rparr>"
    using y by (cases w) (simp add: tw_goto_def)
  ultimately show ?thesis using run s by auto
next
  case False
  then have y: "unat (an_y a) < 25" using a(6) by simp
  then have "int (unat (an_y a)) < 25" by linarith
  then have s: "\<not> 25 \<le>s an_y a" using y by (simp add: word_sle_eq sint_small)
  have "ansi_displays (update_cursor a) \<lparr>tw_cells = tw_cells w, tw_pos = 80 * unat (an_y a) + unat (an_x a), tw_color = tw_color w\<rparr>"
    using a c y by (intro update_displays) simp_all
  moreover have "tw_goto (80 * unat (an_y a) + unat (an_x a)) w = \<lparr>tw_cells = tw_cells w, tw_pos = 80 * unat (an_y a) + unat (an_x a), tw_color = tw_color w\<rparr>"
    using y a(5) by (cases w) (simp add: tw_goto_def)
  ultimately show ?thesis using s by simp
qed

lemma signed_small: "unat (x :: u32) < 2147483648 \<Longrightarrow> unat (y :: u32) < 2147483648 \<Longrightarrow> x \<le>s y \<longleftrightarrow> unat x \<le> unat y"
  by (simp only: word_sle_eq sint_small of_nat_le_iff)

lemma update_cursor_simps: "an_esc (update_cursor a) = an_esc a" "an_csi (update_cursor a) = an_csi a" "an_x (update_cursor a) = an_x a"
    "an_y (update_cursor a) = an_y a" "an_bg (update_cursor a) = an_bg a" "an_fg (update_cursor a) = an_fg a"
    "vg_fb (vt_vga (an_term (update_cursor a))) = vg_fb (vt_vga (an_term a))" "vt_ptr (an_term (update_cursor a)) = (an_y a * 80 + an_x a) * 2"
  by (simp_all add: update_cursor_def vt_set_cursor_def vga_ioctl_x_def vga_ioctl_y_def vt_seek_def vga_set_cursor_pos_def Let_def)

lemma displays_update: "ansi_displays a w \<Longrightarrow> ansi_displays (update_cursor a) w"
  by (simp add: ansi_displays_def update_cursor_simps)

lemma forward_displays:
  assumes d: "ansi_displays (update_cursor a) w"
  shows "\<exists>b. cursor_forward 1 a = Inr b \<and> ansi_displays b (tw_goto (tw_pos w + 1) w)"
proof -
  have a: "\<not> an_esc a" "\<not> an_csi a" "vg_fb (vt_vga (an_term a)) = flat (tw_cells w)" "length (tw_cells w) = 2000" "unat (an_x a) < 80"
      "unat (an_y a) < 25" "tw_pos w = 80 * unat (an_y a) + unat (an_x a)" "map_color (an_bg a) (an_fg a) = Inr (tw_color w)"
    using d by (auto simp: ansi_displays_def update_cursor_simps)
  have x1: "unat (an_x a + 1) = unat (an_x a) + 1" and y1: "unat (an_y a + 1) = unat (an_y a) + 1" using a(5,6) by (simp_all add: unat_word_ariths)
  have s: "80 \<le>s an_x a + 1 \<longleftrightarrow> unat (an_x a) = 79" using signed_small [of 80 "an_x a + 1"] x1 a(5) by auto
  define c where "c = (if 80 \<le>s an_x a + 1 then a\<lparr>an_x := 0, an_y := an_y a + 1\<rparr> else a\<lparr>an_x := an_x a + 1\<rparr>)"
  have c: "\<not> an_esc c" "\<not> an_csi c" "vg_fb (vt_vga (an_term c)) = flat (tw_cells w)" "unat (an_x c) < 80" "unat (an_y c) \<le> 25"
      "map_color (an_bg c) (an_fg c) = Inr (tw_color w)" "80 * unat (an_y c) + unat (an_x c) = tw_pos w + 1"
    using a s x1 y1 by (auto simp: c_def)
  have "forward_step a = (if 25 \<le>s an_y c then bindr (scroll_up c) (\<lambda>a. Inr (a\<lparr>an_y := an_y a - 1\<rparr>)) else Inr c)"
    by (simp add: forward_step_def c_def Let_def)
  then show ?thesis using bottom_displays [OF c(1,2,3) a(4) c(4,5,6)] unfolding cursor_forward_def rounds_one c(7) by auto
qed

lemma tw_goto_simps: "tw_color (tw_goto q w) = tw_color w"
  by (simp add: tw_goto_def)

lemma forwards_displays:
  assumes "ansi_displays a w" "tw_pos w mod 80 + n \<le> 80" "0 < n"
  shows "\<exists>b. run_all (\<lambda>a _. cursor_forward 1 a) a [0..<n] = Inr b \<and> ansi_displays b (tw_goto (tw_pos w + n) w)"
  using assms(2,3)
proof (induction n)
  case (Suc n)
  show ?case
  proof (cases "n = 0")
    case True
    then show ?thesis using forward_displays [OF displays_update [OF assms(1)]] by auto
  next
    case False
    obtain b where b: "run_all (\<lambda>a _. cursor_forward 1 a) a [0..<n] = Inr b" "ansi_displays b (tw_goto (tw_pos w + n) w)"
      using Suc False by auto
    have "tw_pos w < 2000" using assms(1) by (auto simp: ansi_displays_def)
    moreover have "tw_pos w div 80 \<le> 24" using calculation by linarith
    moreover have "tw_pos w = 80 * (tw_pos w div 80) + tw_pos w mod 80" by simp
    ultimately have lt: "tw_pos w + n < 2000" using Suc.prems(1) by linarith
    then have "tw_goto (tw_pos (tw_goto (tw_pos w + n) w) + 1) (tw_goto (tw_pos w + n) w) = tw_goto (tw_pos w + Suc n) w"
      by (simp add: tw_goto_def)
    then show ?thesis using forward_displays [OF displays_update [OF b(2)]] unfolding upt_Suc_append [OF le0] run_all_snoc b(1) bindr_simps run_all.simps by simp
  qed
qed simp

lemma tab_stop: "p = 80 * y + (x :: nat) \<Longrightarrow> p + (8 - x mod 8) = y * 80 + (x div 8 + 1) * 8"
  by presburger

lemma put_plain:
  assumes d: "ansi_displays a w" and c: "c \<notin> {7, 8, 12, 13, 27}"
  shows "\<exists>b. ansi_put c a = Inr b \<and> ansi_displays b (tw_put c w)"
proof -
  have a: "\<not> an_esc a" "\<not> an_csi a" "vg_fb (vt_vga (an_term a)) = flat (tw_cells w)" "length (tw_cells w) = 2000" "unat (an_x a) < 80"
      "unat (an_y a) < 25" "tw_pos w = 80 * unat (an_y a) + unat (an_x a)" "map_color (an_bg a) (an_fg a) = Inr (tw_color w)"
      "vt_ptr (an_term a) = (an_y a * 80 + an_x a) * 2"
    using d by (auto simp: ansi_displays_def)
  have dm: "tw_pos w div 80 = unat (an_y a)" "tw_pos w mod 80 = unat (an_x a)" using a(5,7) by simp_all
  consider "c = 9" | "c = 10" | "c \<noteq> 9" "c \<noteq> 10" by blast
  then show ?thesis
  proof cases
    case 1
    have "\<not> an_x a <s 0" using a(5) by (simp add: word_sless_alt sint_small)
    then have r: "rem8 (an_x a) = an_x a mod 8" by (simp add: rem8_def)
    have m: "unat (an_x a mod 8) = unat (an_x a) mod 8" by (simp add: unat_mod)
    have "unat (8 - an_x a mod 8) = 8 - unat (an_x a) mod 8" using m by (subst unat_diff_le) (simp_all add: word_le_nat_alt less_imp_le)
    then have n: "nat (sint (8 - rem8 (an_x a))) = 8 - unat (an_x a) mod 8" unfolding r by (subst sint_small) simp_all
    have lim: "tw_pos w mod 80 + (8 - unat (an_x a) mod 8) \<le> 80" "0 < 8 - unat (an_x a) mod 8" using a(5) unfolding dm by presburger+
    have "tw_pos w + (8 - unat (an_x a) mod 8) = tw_pos w div 80 * 80 + (tw_pos w mod 80 div 8 + 1) * 8"
      unfolding dm by (rule tab_stop [OF a(7)])
    then have "tw_goto (tw_pos w + (8 - unat (an_x a) mod 8)) w = tw_put c w" using 1 by (simp add: tw_put_def tw_goto_def Let_def)
    then show ?thesis using forwards_displays [OF d lim] 1 a(1,2) n by (simp add: ansi_put_def)
  next
    case 2
    let ?a = "a\<lparr>an_x := 0, an_y := an_y a + 1\<rparr>"
    have y1: "unat (an_y a + 1) = unat (an_y a) + 1" using a(6) by (simp add: unat_word_ariths)
    have "down_step (a\<lparr>an_x := 0\<rparr>) = (if 25 \<le>s an_y ?a then bindr (scroll_up ?a) (\<lambda>a. Inr (a\<lparr>an_y := an_y a - 1\<rparr>)) else Inr ?a)"
      by (simp add: down_step_def Let_def)
    then obtain b where "down_step (a\<lparr>an_x := 0\<rparr>) = Inr b" "ansi_displays (update_cursor b) (tw_goto (80 * unat (an_y ?a) + unat (an_x ?a)) w)"
      using bottom_displays [of ?a w] a y1 by auto
    moreover have "tw_goto (80 * unat (an_y ?a) + unat (an_x ?a)) w = tw_put c w" using 2 y1 unfolding tw_put_def tw_goto_def Let_def dm by simp
    ultimately show ?thesis using 2 a(1,2) by (simp add: ansi_put_def cursor_down_def rounds_one)
  next
    case 3
    let ?w = "w\<lparr>tw_cells := (tw_cells w)[tw_pos w := (c, tw_color w)]\<rparr>"
    have p: "unat (vt_ptr (an_term a)) = 2 * tw_pos w" "tw_pos w < 2000" using a(5,6,7) unfolding a(9) by (simp_all add: unat_word_ariths)
    have up: "take (tw_pos w) (tw_cells w) @ [(c, tw_color w)] @ drop (tw_pos w + length [(c, tw_color w)]) (tw_cells w) = tw_cells ?w"
      using p(2) a(4) by (simp add: upd_conv_take_nth_drop)
    have fl: "[c, tw_color w] = flat [(c, tw_color w)]" by simp
    have "tw_pos w + length [(c, tw_color w)] \<le> 2000" using p(2) by simp
    from vt_write_at [OF a(3,4) p(1) fl this, unfolded up]
    obtain t where t: "vt_put c (an_bg a) (an_fg a) (an_term a) = Inr t" "vg_fb (vt_vga t) = flat (tw_cells ?w)"
      using a(8) by (simp add: vt_put_def)
    have "ansi_displays (update_cursor (a\<lparr>an_term := t\<rparr>)) ?w"
      using a t(2) by (simp add: ansi_displays_def update_cursor_simps)
    then obtain b where "cursor_forward 1 (a\<lparr>an_term := t\<rparr>) = Inr b" "ansi_displays b (tw_goto (tw_pos w + 1) ?w)"
      using forward_displays by force
    moreover have "tw_goto (tw_pos w + 1) ?w = tw_put c w" using 3 by (cases w) (simp add: tw_put_def tw_goto_def Let_def)
    ultimately show ?thesis using 3 c a(1,2) t(1) by (simp add: ansi_put_def on_term_def)
  qed
qed

text \<open>C19: Text without control characters other than tabulators and new lines looks the same on the user's terminal as on the kernel's
  console: both show what the typewriter shows that has typed it.\<close>

theorem terminal_prints_like_console:
  assumes "ansi_displays a w" "displays t w" "set cs \<inter> {7, 8, 12, 13, 27} = {}" "3 \<le> k"
  shows "\<exists>b u v. ansi_write cs a = Inr b \<and> term_write k cs t = Inr u \<and> ansi_displays b (fold tw_put cs w) \<and> displays u (fold tw_put cs w)
    \<and> tm_screen u = Vga v \<and> vg_fb v = vg_fb (vt_vga (an_term b))"
  using assms(1-3)
proof (induction cs arbitrary: a t w)
  case Nil
  then obtain v where "tm_screen t = Vga v" "vg_fb v = flat (tw_cells w)" by (auto simp: displays_def)
  then show ?case using Nil by (simp add: ansi_write_def term_write_def ansi_displays_def)
next
  case (Cons c cs)
  obtain a1 where a1: "ansi_put c a = Inr a1" "ansi_displays a1 (tw_put c w)" using put_plain [OF Cons.prems(1), of c] Cons.prems(3) by auto
  obtain t1 where t1: "term_put k c t = Inr t1" "displays t1 (tw_put c w)" using put_displays [OF Cons.prems(2) assms(4)] by blast
  have "set cs \<inter> {7, 8, 12, 13, 27} = {}" using Cons.prems(3) by auto
  then show ?case using Cons.IH [OF a1(2) t1(2)] a1(1) t1(1) by (simp add: ansi_write_def term_write_def)
qed

subsection \<open>An example\<close>

definition demo_ansi :: ansi where
  "demo_ansi = \<lparr>an_bg = 0, an_fg = 7, an_x = 0, an_y = 24, an_csi = False, an_esc = False, an_args = replicate 4 0, an_idx = 0,
     an_term = \<lparr>vt_vga = \<lparr>vg_fb = flat (replicate 2000 (32, 7)), vg_index = 0, vg_crtc = \<lambda>_. 0\<rparr>, vt_dx = 0, vt_dy = 24, vt_ptr = 3840\<rparr>\<rparr>"

theorem terminal_accepts_any_bytes_witness:
  "\<exists>b. ansi_write [27, 91, 59, 59, 59, 59, 57, 109, 27, 91, 51, 49, 109, 65] demo_ansi = Inr b \<and> ansi_ok b"
  by (rule terminal_accepts_any_bytes) (simp add: ansi_ok_def demo_ansi_def)

theorem terminal_prints_like_console_witness:
  "\<exists>b u v. ansi_write [65, 9, 10, 66] demo_ansi = Inr b \<and> term_write 3 [65, 9, 10, 66] demo_console = Inr u
    \<and> tm_screen u = Vga v \<and> vg_fb v = vg_fb (vt_vga (an_term b))"
proof -
  let ?w = "\<lparr>tw_cells = replicate 2000 (32, 7), tw_pos = 1920, tw_color = 7\<rparr>"
  have a: "ansi_displays demo_ansi ?w" by (simp add: ansi_displays_def demo_ansi_def map_color_def nth_r_def vga_color_map_def)
  have c: "displays demo_console ?w" by (simp add: displays_def demo_console_def color_byte_def)
  show ?thesis using terminal_prints_like_console [OF a c, of "[65, 9, 10, 66]" 3] by auto
qed

text \<open>The sequence that places the cursor takes its second argument as the column and leaves the line as it is.\<close>

lemma cursor_position_ignores_line:
  "an_args a = [r, c, - 1, - 1] \<Longrightarrow> \<exists>b. run_csi_sequence 0x48 a = Inr b \<and> an_y b = an_y a \<and> an_x b = (if c = - 1 then 1 else c)"
  by (simp add: run_csi_sequence_def nth_r_def Let_def update_cursor_simps)

end
