(* ===== verification/Keyboard.thy ===== *)
theory Keyboard
  imports Prelude
begin

text \<open>
  The keyboard of the user's terminal (\<open>user/terminal/keyboard.cpp\<close>, \<open>keys.hpp\<close>, \<open>keys_be.hpp\<close>): scan codes become characters. What
  the callback is given is returned as a list of bytes; it is set before the first byte arrives.
\<close>

record keymapping =
  kp_scancode :: u8
  kp_char :: u8
  kp_shift :: u8
  kp_alt :: u8

record keyboard =
  kb_extended :: bool
  kb_alt :: bool
  kb_ctrl :: bool
  kb_lshift :: bool
  kb_rshift :: bool
  kb_capslock :: bool
  kb_layout :: "keymapping list"

abbreviation KEY_ESC :: u32 where "KEY_ESC \<equiv> 0x01"
abbreviation KEY_BACKSPACE :: u32 where "KEY_BACKSPACE \<equiv> 0x0e"
abbreviation KEY_TAB :: u32 where "KEY_TAB \<equiv> 0x0f"
abbreviation KEY_ENTER :: u32 where "KEY_ENTER \<equiv> 0x1c"
abbreviation KEY_LCTRL :: u32 where "KEY_LCTRL \<equiv> 0x1d"
abbreviation KEY_LSHIFT :: u32 where "KEY_LSHIFT \<equiv> 0x2a"
abbreviation KEY_RSHIFT :: u32 where "KEY_RSHIFT \<equiv> 0x36"
abbreviation KEY_LALT :: u32 where "KEY_LALT \<equiv> 0x38"
abbreviation KEY_CAPSLOCK :: u32 where "KEY_CAPSLOCK \<equiv> 0x3a"
abbreviation KEY_UP :: u32 where "KEY_UP \<equiv> 0xe048"
abbreviation KEY_LEFT :: u32 where "KEY_LEFT \<equiv> 0xe04b"
abbreviation KEY_RIGHT :: u32 where "KEY_RIGHT \<equiv> 0xe04d"
abbreviation KEY_DOWN :: u32 where "KEY_DOWN \<equiv> 0xe050"

text \<open>A character of a mapping that the table does not give is 0.\<close>

definition keymappings_be :: "(u8 \<times> u8 \<times> u8 \<times> u8) list" where
  "keymappings_be =
    [(2, 38, 49, 124), (3, 0, 50, 64), (4, 34, 51, 35), (5, 39, 52, 123), (6, 40, 53, 91), (7, 0, 54, 94),
     (8, 0, 55, 0), (9, 33, 56, 0), (10, 0, 57, 123), (11, 0, 48, 125), (12, 41, 0, 0), (13, 45, 95, 0), (16, 97, 65, 0),
     (17, 122, 90, 0), (18, 101, 69, 0), (19, 114, 82, 0), (20, 116, 84, 0), (21, 121, 89, 0), (22, 117, 85, 0),
     (23, 105, 73, 0), (24, 111, 79, 0), (25, 112, 80, 0), (26, 94, 0, 91), (27, 36, 42, 93), (30, 113, 81, 0),
     (31, 115, 83, 0), (32, 100, 68, 0), (33, 102, 70, 0), (34, 103, 71, 0), (35, 104, 72, 0), (36, 106, 74, 0),
     (37, 107, 75, 0), (38, 108, 76, 0), (39, 109, 77, 0), (40, 0, 37, 0), (41, 0, 0, 0), (86, 60, 62, 92),
     (44, 119, 87, 0), (45, 120, 88, 0), (46, 99, 67, 0), (47, 118, 86, 0), (48, 98, 66, 0), (49, 110, 78, 0),
     (50, 44, 63, 0), (51, 59, 46, 0), (52, 58, 47, 0), (53, 61, 43, 126), (55, 42, 0, 0), (57, 32, 0, 0)]"

text \<open>The scan codes of all entries are cleared, then each mapping is put at the place of its own.\<close>

definition load_keymap :: "(u8 \<times> u8 \<times> u8 \<times> u8) list \<Rightarrow> keyboard \<Rightarrow> keyboard result" where
  "load_keymap ms k = bindr (run_all (\<lambda>l (sc, c, s, a). upd_r l (unat sc)
       \<lparr>kp_scancode = sc, kp_char = c, kp_shift = (if s = 0 then c else s), kp_alt = a\<rparr>) (map (\<lambda>m. m\<lparr>kp_scancode := 0\<rparr>) (kb_layout k)) ms)
     (\<lambda>l. Inr (k\<lparr>kb_layout := l\<rparr>))"

definition held_kinds :: "keyboard \<Rightarrow> nat" where
  "held_kinds k = (if kb_alt k then 1 else 0) + (if kb_ctrl k then 1 else 0) + (if kb_lshift k \<or> kb_rshift k then 1 else 0)"

definition one_char :: "u8 \<Rightarrow> u8 list" where
  "one_char c = (if c = 0 then [] else [c])"

definition handle_scancode :: "u32 \<Rightarrow> keyboard \<Rightarrow> (u8 list \<times> keyboard) result" where
  "handle_scancode sc k = (if sc = KEY_UP then Inr ([27, 91, 65], k)
     else if sc = KEY_DOWN then Inr ([27, 91, 66], k)
     else if sc = KEY_RIGHT then Inr ([27, 91, 67], k)
     else if sc = KEY_LEFT then Inr ([27, 91, 68], k)
     else if sc = KEY_BACKSPACE then Inr ([8], k)
     else if sc = KEY_ENTER then Inr ([10], k)
     else if sc = KEY_TAB then Inr ([9], k)
     else if sc = KEY_ESC then Inr ([27], k)
     else if drop_bit 8 sc = 0xe0 then Inr ([], k)
     else let key = sc AND 0x7f; pressed = (drop_bit 7 sc AND 1 = 0) in
       if key = KEY_LALT then Inr ([], k\<lparr>kb_alt := pressed\<rparr>)
       else if key = KEY_LCTRL then Inr ([], k\<lparr>kb_ctrl := pressed\<rparr>)
       else if key = KEY_LSHIFT then Inr ([], k\<lparr>kb_lshift := pressed\<rparr>)
       else if key = KEY_RSHIFT then Inr ([], k\<lparr>kb_rshift := pressed\<rparr>)
       else if key = KEY_CAPSLOCK then Inr ([], if pressed then k\<lparr>kb_capslock := \<not> kb_capslock k\<rparr> else k)
       else if \<not> pressed then Inr ([], k)
       else if held_kinds k > 1 then Inr ([], k)
       else bindr (nth_r (kb_layout k) (unat key)) (\<lambda>m.
         if ucast (kp_scancode m) \<noteq> key then Inr ([], k)
         else let shift = ((kb_lshift k \<or> kb_rshift k) \<noteq> kb_capslock k) in
           Inr (one_char (if shift then kp_shift m else if kb_alt k then kp_alt m else kp_char m), k)))"

definition handle_byte :: "u8 \<Rightarrow> keyboard \<Rightarrow> (u8 list \<times> keyboard) result" where
  "handle_byte c k = (if kb_extended k then bindr (handle_scancode (0xe000 OR ucast c) k) (\<lambda>(out, k). Inr (out, k\<lparr>kb_extended := False\<rparr>))
     else if c = 0xe0 then Inr ([], k\<lparr>kb_extended := True\<rparr>) else handle_scancode (ucast c) k)"

text \<open>\<open>update\<close> handles the bytes of a read, which are at most eight.\<close>

fun handle_bytes :: "u8 list \<Rightarrow> keyboard \<Rightarrow> (u8 list \<times> keyboard) result" where
  "handle_bytes [] k = Inr ([], k)"
| "handle_bytes (c # cs) k = bindr (handle_byte c k) (\<lambda>(out, k). bindr (handle_bytes cs k) (\<lambda>(outs, k). Inr (out @ outs, k)))"

definition keyboard_update :: "u8 list \<Rightarrow> keyboard \<Rightarrow> (u8 list \<times> keyboard) result" where
  "keyboard_update received k = handle_bytes (take 8 received) k"

subsection \<open>The state follows the history\<close>

text \<open>The scan codes in the bytes received, and whether a prefix is pending at the end.\<close>

fun codes :: "bool \<Rightarrow> u8 list \<Rightarrow> u32 list" where
  "codes e [] = []"
| "codes True (b # bs) = (0xe000 OR ucast b) # codes False bs"
| "codes False (b # bs) = (if b = 0xe0 then codes True bs else ucast b # codes False bs)"

fun pending :: "bool \<Rightarrow> u8 list \<Rightarrow> bool" where
  "pending e [] = e"
| "pending e (b # bs) = pending (\<not> e \<and> b = 0xe0) bs"

text \<open>A key is held when the last of its codes is that of pressing it.\<close>

definition held :: "u32 \<Rightarrow> u32 list \<Rightarrow> bool" where
  "held key cs = (let es = filter (\<lambda>c. c = key \<or> c = key + 0x80) cs in es \<noteq> [] \<and> last es = key)"

definition caps_on :: "u32 list \<Rightarrow> bool" where
  "caps_on cs = odd (length (filter (\<lambda>c. c = KEY_CAPSLOCK) cs))"

lemma held_Nil [simp]: "held key [] = False"
  by (simp add: held_def)

lemma held_snoc: "held key (cs @ [c]) = (if c = key then True else if c = key + 0x80 then False else held key cs)"
  by (auto simp: held_def Let_def)

text \<open>What a keyboard with the layout \<open>l\<close> knows after the codes \<open>cs\<close>.\<close>

definition follows :: "keymapping list \<Rightarrow> u32 list \<Rightarrow> keyboard \<Rightarrow> bool" where
  "follows l cs k \<longleftrightarrow> kb_layout k = l \<and> kb_alt k = held KEY_LALT cs \<and> kb_ctrl k = held KEY_LCTRL cs \<and> kb_lshift k = held KEY_LSHIFT cs
     \<and> kb_rshift k = held KEY_RSHIFT cs \<and> kb_capslock k = caps_on cs"

text \<open>The codes that arrive: a byte, or one behind the prefix.\<close>

definition plain :: "u32 \<Rightarrow> bool" where
  "plain c \<longleftrightarrow> unat c < 256"

definition prefixed :: "u32 \<Rightarrow> bool" where
  "prefixed c \<longleftrightarrow> drop_bit 8 c = 0xe0"

lemma plain_ucast [simp]: "plain (ucast (b :: u8))"
proof -
  have "unat b < 256" using unsigned_less [of b, where ?'a = nat] by simp
  then show ?thesis by (simp add: plain_def unsigned_ucast_eq take_bit_eq_mod)
qed

lemma prefixed_or [simp]: "prefixed (0xe000 OR ucast (b :: u8))"
  unfolding prefixed_def by (rule bit_word_eqI) (auto simp: bit_simps dest: bit_imp_le_length)

lemma code_parts:
  assumes "plain c"
  shows "unat (c AND 0x7f) = unat c mod 128" "drop_bit 7 c AND 1 = 0 \<longleftrightarrow> unat c < 128" "drop_bit 8 c \<noteq> 0xe0"
proof -
  have "c AND 0x7f = take_bit 7 c" using take_bit_eq_mask [of 7 c] by (simp add: mask_eq_exp_minus_1)
  then show "unat (c AND 0x7f) = unat c mod 128" by (simp add: take_bit_eq_mod unat_mod)
  have d: "unat (drop_bit 7 c) = unat c div 128" by (simp add: drop_bit_eq_div unat_div)
  have "unat c div 128 = 0 \<or> unat c div 128 = 1" using assms by (auto simp: plain_def)
  then have "drop_bit 7 c = 0 \<or> drop_bit 7 c = 1" using d by (simp add: word_unat_eq_iff)
  then show "drop_bit 7 c AND 1 = 0 \<longleftrightarrow> unat c < 128" using d by auto
  have "unat (drop_bit 8 c) = unat c div 256" by (simp add: drop_bit_eq_div unat_div)
  then show "drop_bit 8 c \<noteq> 0xe0" using assms by (auto simp: plain_def word_unat_eq_iff)
qed

lemma key_of_code:
  assumes "plain c" "unat k < 128"
  shows "c AND 0x7f = k \<longleftrightarrow> c = k \<or> c = k + 0x80"
proof -
  have k: "unat (k + 0x80) = unat k + 128" using assms(2) by (simp add: unat_word_ariths)
  have m: "n mod 128 = m \<longleftrightarrow> n = m \<or> n = m + 128" if "n < 256" "m < 128" for n m :: nat
    using that by (cases "n < 128") (auto simp: le_mod_geq)
  have c: "unat c < 256" using assms(1) by (simp add: plain_def)
  show ?thesis unfolding word_unat_eq_iff code_parts(1) [OF assms(1)] k by (rule m [OF c assms(2)])
qed

lemma prefixed_step:
  assumes "prefixed c" "follows l cs k"
  shows "\<exists>out. handle_scancode c k = Inr (out, k) \<and> follows l (cs @ [c]) k"
proof -
  have ne: "c \<noteq> d" if "unat d < 256" for d using that assms(1) code_parts(3) [of d] by (auto simp: prefixed_def plain_def)
  have "c \<notin> {KEY_LALT, KEY_LALT + 0x80, KEY_LCTRL, KEY_LCTRL + 0x80, KEY_LSHIFT, KEY_LSHIFT + 0x80, KEY_RSHIFT, KEY_RSHIFT + 0x80, KEY_CAPSLOCK}"
    using ne by auto
  then have "follows l (cs @ [c]) k" using assms(2) by (simp add: follows_def held_snoc caps_on_def)
  moreover have "\<exists>out. handle_scancode c k = Inr (out, k)" using assms(1) by (auto simp: handle_scancode_def prefixed_def)
  ultimately show ?thesis by blast
qed

definition modifier_codes :: "u32 set" where
  "modifier_codes = {KEY_LALT, KEY_LALT + 0x80, KEY_LCTRL, KEY_LCTRL + 0x80, KEY_LSHIFT, KEY_LSHIFT + 0x80, KEY_RSHIFT, KEY_RSHIFT + 0x80, KEY_CAPSLOCK}"

lemma follows_other: "follows l cs k \<Longrightarrow> c \<notin> modifier_codes \<Longrightarrow> follows l (cs @ [c]) k"
  by (simp add: follows_def held_snoc caps_on_def modifier_codes_def)

text \<open>What the rest of the function does with a code that is not among the keys with a text of their own.\<close>

definition press :: "keymapping list \<Rightarrow> u32 \<Rightarrow> bool \<Rightarrow> keyboard \<Rightarrow> u8 list \<times> keyboard" where
  "press l key pressed k = (if key = KEY_LALT then ([], k\<lparr>kb_alt := pressed\<rparr>)
       else if key = KEY_LCTRL then ([], k\<lparr>kb_ctrl := pressed\<rparr>)
       else if key = KEY_LSHIFT then ([], k\<lparr>kb_lshift := pressed\<rparr>)
       else if key = KEY_RSHIFT then ([], k\<lparr>kb_rshift := pressed\<rparr>)
       else if key = KEY_CAPSLOCK then ([], if pressed then k\<lparr>kb_capslock := \<not> kb_capslock k\<rparr> else k)
       else if \<not> pressed then ([], k)
       else if held_kinds k > 1 then ([], k)
       else let m = l ! unat key in if ucast (kp_scancode m) \<noteq> key then ([], k)
         else (one_char (if (kb_lshift k \<or> kb_rshift k) \<noteq> kb_capslock k then kp_shift m else if kb_alt k then kp_alt m else kp_char m), k))"

lemma handle_plain:
  assumes c: "plain c" "c \<notin> {KEY_BACKSPACE, KEY_ENTER, KEY_TAB, KEY_ESC}" and l: "kb_layout k = l" "length l = 128"
  shows "handle_scancode c k = Inr (press l (c AND 0x7f) (unat c < 128) k)"
proof -
  have arrows: "(c = KEY_UP) = False" "(c = KEY_DOWN) = False" "(c = KEY_RIGHT) = False" "(c = KEY_LEFT) = False"
      "(c = KEY_BACKSPACE) = False" "(c = KEY_ENTER) = False" "(c = KEY_TAB) = False" "(c = KEY_ESC) = False"
    using c by (auto simp: plain_def)
  have d: "(drop_bit 8 c = 0xe0) = False" using code_parts(3) [OF c(1)] by simp
  have "unat (c AND 0x7f) < 128" using code_parts(1) [OF c(1)] by simp
  then have idx: "nth_r (kb_layout k) (unat (c AND 0x7f)) = Inr (l ! unat (c AND 0x7f))" using l by (simp add: nth_r_def)
  show ?thesis
    unfolding handle_scancode_def arrows d if_False Let_def press_def code_parts(2) [OF c(1)] idx bindr_simps
    by (simp only: if_distrib [of Inr])
qed

lemma press_follows:
  assumes c: "plain c" and f: "follows l cs k"
  shows "follows l (cs @ [c]) (snd (press l (c AND 0x7f) (unat c < 128) k)) \<and> kb_extended (snd (press l (c AND 0x7f) (unat c < 128) k)) = kb_extended k"
proof -
  note keys = key_of_code [OF c]
  consider K where "K \<in> {KEY_LALT, KEY_LCTRL, KEY_LSHIFT, KEY_RSHIFT, KEY_CAPSLOCK}" "c AND 0x7f = K"
    | "c AND 0x7f \<notin> {KEY_LALT, KEY_LCTRL, KEY_LSHIFT, KEY_RSHIFT, KEY_CAPSLOCK}" by blast
  then show ?thesis
  proof cases
    case (1 K)
    then have "unat K < 128" by auto
    then have "c = K \<or> c = K + 0x80" using keys 1(2) by blast
    then show ?thesis using 1 f unfolding follows_def
      by (elim disjE insertE emptyE conjE) (simp_all add: press_def held_snoc caps_on_def)
  next
    case 2
    then have "c \<notin> modifier_codes" unfolding modifier_codes_def
      using keys [of KEY_LALT] keys [of KEY_LCTRL] keys [of KEY_LSHIFT] keys [of KEY_RSHIFT] keys [of KEY_CAPSLOCK] by simp
    moreover have "snd (press l (c AND 0x7f) (unat c < 128) k) = k" using 2 by (simp add: press_def Let_def)
    ultimately show ?thesis using follows_other [OF f] by simp
  qed
qed

lemma plain_step:
  assumes c: "plain c" and f: "follows l cs k" and l: "length l = 128"
  shows "\<exists>out k'. handle_scancode c k = Inr (out, k') \<and> follows l (cs @ [c]) k' \<and> kb_extended k' = kb_extended k"
proof (cases "c \<in> {KEY_BACKSPACE, KEY_ENTER, KEY_TAB, KEY_ESC}")
  case True
  then have "c \<notin> modifier_codes" by (auto simp: modifier_codes_def)
  moreover have "\<exists>out. handle_scancode c k = Inr (out, k)" using True by (auto simp: handle_scancode_def)
  ultimately show ?thesis using follows_other [OF f] by blast
next
  case False
  have "kb_layout k = l" using f by (simp add: follows_def)
  then show ?thesis using handle_plain [OF c False _ l] press_follows [OF c f] by (metis prod.collapse)
qed

lemma byte_step:
  assumes f: "follows l cs k" and l: "length l = 128"
  shows "\<exists>out k'. handle_byte b k = Inr (out, k') \<and> kb_extended k' = (\<not> kb_extended k \<and> b = 0xe0)
    \<and> follows l (cs @ codes (kb_extended k) [b]) k'"
proof (cases "kb_extended k")
  case True
  obtain out where "handle_scancode (0xe000 OR ucast b) k = Inr (out, k)" "follows l (cs @ [0xe000 OR ucast b]) k"
    using prefixed_step [OF prefixed_or f] by blast
  then show ?thesis using True by (simp add: handle_byte_def follows_def)
next
  case False
  show ?thesis
  proof (cases "b = 0xe0")
    case True
    then show ?thesis using False f by (simp add: handle_byte_def follows_def)
  next
    case nb: False
    obtain out k' where "handle_scancode (ucast b) k = Inr (out, k')" "follows l (cs @ [ucast b]) k'" "kb_extended k' = kb_extended k"
      using plain_step [OF plain_ucast f l] by blast
    then show ?thesis using False nb by (simp add: handle_byte_def)
  qed
qed

lemma codes_append: "codes e (bs @ cs) = codes e bs @ codes (pending e bs) cs"
proof (induction bs arbitrary: e)
  case (Cons b bs)
  then show ?case by (cases e) auto
qed simp

lemma handle_bytes_follow:
  assumes "follows l cs k" "length l = 128"
  shows "\<exists>out k'. handle_bytes bs k = Inr (out, k') \<and> kb_extended k' = pending (kb_extended k) bs \<and> follows l (cs @ codes (kb_extended k) bs) k'"
  using assms(1)
proof (induction bs arbitrary: cs k)
  case (Cons b bs)
  obtain out k1 where k1: "handle_byte b k = Inr (out, k1)" "kb_extended k1 = (\<not> kb_extended k \<and> b = 0xe0)"
      "follows l (cs @ codes (kb_extended k) [b]) k1"
    using byte_step [OF Cons.prems assms(2)] by blast
  have "codes (kb_extended k) (b # bs) = codes (kb_extended k) [b] @ codes (kb_extended k1) bs"
    using codes_append [of "kb_extended k" "[b]" bs] k1(2) by simp
  then show ?case using Cons.IH [OF k1(3)] k1(1,2) by auto
qed simp

text \<open>The text of a key that is pressed after the codes \<open>cs\<close>: none when keys of more than one kind are held, otherwise the
  character of its mapping that shift and caps lock together, or else alt, select.\<close>

definition typed :: "u32 list \<Rightarrow> keymapping \<Rightarrow> u8 list" where
  "typed cs m = (let shift = held KEY_LSHIFT cs \<or> held KEY_RSHIFT cs; alt = held KEY_LALT cs; ctrl = held KEY_LCTRL cs in
     if (alt \<and> ctrl) \<or> (alt \<and> shift) \<or> (ctrl \<and> shift) then []
     else one_char (if shift \<noteq> caps_on cs then kp_shift m else if alt then kp_alt m else kp_char m))"

text \<open>C32: What a key types depends only on the keys that the bytes received before say are held: the state of the keyboard is that
  history, whatever was typed and however many prefixed codes came between.\<close>

theorem key_types_by_history:
  assumes new: "follows l [] k" "\<not> kb_extended k" "length l = 128" and whole: "\<not> pending False bs"
    and key: "unat b < 128" "ucast b \<notin> {KEY_BACKSPACE, KEY_ENTER, KEY_TAB, KEY_ESC, KEY_LALT, KEY_LCTRL, KEY_LSHIFT, KEY_RSHIFT, KEY_CAPSLOCK}"
      "kp_scancode (l ! unat b) = b"
  shows "\<exists>out k'. handle_bytes bs k = Inr (out, k') \<and> handle_bytes (bs @ [b]) k = Inr (out @ typed (codes False bs) (l ! unat b), k')"
proof -
  obtain out k' where k': "handle_bytes bs k = Inr (out, k')" "\<not> kb_extended k'" "follows l (codes False bs) k'"
    using handle_bytes_follow [OF new(1,3), of bs] new(2) whole by auto
  let ?c = "ucast b :: u32"
  have u: "unat ?c = unat b" using key(1) by (simp add: unsigned_ucast_eq take_bit_eq_mod)
  have "unat (?c AND 0x7f) = unat b" using code_parts(1) [OF plain_ucast, of b] u key(1) by simp
  then have msk: "?c AND 0x7f = ?c" using u by (simp add: word_unat_eq_iff)
  have lay: "kb_layout k' = l" using k'(3) by (simp add: follows_def)
  have "handle_scancode ?c k' = Inr (press l ?c True k')"
    using handle_plain [OF plain_ucast _ lay new(3), of b] key(1,2) u unfolding msk by simp
  moreover have "press l ?c True k' = (typed (codes False bs) (l ! unat b), k')"
    using key(2,3) u k'(3) by (auto simp: press_def typed_def follows_def held_kinds_def Let_def)
  moreover have "b \<noteq> 0xe0" using key(1) by auto
  ultimately have "handle_byte b k' = Inr (typed (codes False bs) (l ! unat b), k')" using k'(2) by (simp add: handle_byte_def)
  moreover have "handle_bytes (xs @ [b]) j = bindr (handle_bytes xs j) (\<lambda>(out, k). bindr (handle_byte b k) (\<lambda>(o2, k). Inr (out @ o2, k)))" for xs j
    by (induction xs arbitrary: j) (auto simp: bindr_assoc bindr_def split: sum.splits prod.splits)
  ultimately show ?thesis using k'(1) by auto
qed

definition demo_keyboard :: "keyboard" where
  "demo_keyboard = (case load_keymap keymappings_be \<lparr>kb_extended = False, kb_alt = False, kb_ctrl = False, kb_lshift = False, kb_rshift = False,
     kb_capslock = False, kb_layout = replicate 128 \<lparr>kp_scancode = 0, kp_char = 0, kp_shift = 0, kp_alt = 0\<rparr>\<rparr> of Inr k \<Rightarrow> k)"

text \<open>Shift, an arrow key and A on a Belgian keyboard, then the key of Q while shift is still held.\<close>

theorem key_types_by_history_witness:
  "\<exists>k'. handle_bytes [0x2a, 0xe0, 0x48, 0x1e, 0x10] demo_keyboard = Inr ([27, 91, 65, 81] @ [65], k')"
proof -
  let ?l = "kb_layout demo_keyboard"
  have l: "length ?l = 128" "kp_scancode (?l ! 16) = 16" "kp_shift (?l ! 16) = 65" by code_simp+
  have new: "follows ?l [] demo_keyboard \<and> \<not> kb_extended demo_keyboard"
    unfolding follows_def caps_on_def held_def by code_simp
  have out: "case handle_bytes [0x2a, 0xe0, 0x48, 0x1e] demo_keyboard of Inr (out, k) \<Rightarrow> out = [27, 91, 65, 81] | Inl e \<Rightarrow> False" by code_simp
  have "\<exists>out k'. handle_bytes [0x2a, 0xe0, 0x48, 0x1e] demo_keyboard = Inr (out, k')
    \<and> handle_bytes ([0x2a, 0xe0, 0x48, 0x1e] @ [0x10]) demo_keyboard = Inr (out @ typed (codes False [0x2a, 0xe0, 0x48, 0x1e]) (?l ! unat (0x10 :: u8)), k')"
    by (rule key_types_by_history [of ?l]) (use new l in simp_all)
  moreover have "typed (codes False [0x2a, 0xe0, 0x48, 0x1e]) (?l ! unat (0x10 :: u8)) = [65]"
    using l(3) by (simp add: typed_def held_def caps_on_def one_char_def)
  ultimately show ?thesis using out by auto
qed

end
