(* ===== verification/Prompt.thy ===== *)
theory Prompt
  imports Prelude
begin

text \<open>
  The line editor of the shell (\<open>user/bash/prompt.cpp\<close>): bytes from the keyboard edit a command in a buffer that grows, and what
  is written to the terminal keeps the line on the screen in step. The sizes are 32 bits wide: \<open>size_t\<close> fields are natural numbers whose
  arithmetic is reduced modulo \<open>2 ^ 32\<close>, the place of the cursor on the screen wraps around as an \<open>int\<close> does on the target. The cursor in the command, an \<open>int\<close>
  that is never negative, is a natural number, and reaching \<open>2 ^ 31\<close> with it is a \<open>Fault\<close>; no buffer is large enough for that. \<open>mem\<close> is what \<open>malloc\<close> and
  \<open>realloc\<close> give for a number of bytes: nothing, or the bytes that the memory holds. A null buffer is the empty list.
\<close>

record prompt =
  pr_reading :: bool
  pr_cursor :: nat
  pr_fdcursor :: int
  pr_esc :: bool
  pr_csi :: bool
  pr_buffer :: "u8 list"
  pr_capacity :: nat
  pr_size :: nat
  pr_history :: "u8 list option list"
  pr_hptr :: int
  pr_hsel :: int
  pr_out :: "u8 list"

abbreviation PROMPT_HISTORY_SIZE :: int where "PROMPT_HISTORY_SIZE \<equiv> 16"

type_synonym memory_source = "nat \<Rightarrow> (nat \<Rightarrow> u8) option"

definition int32 :: "int \<Rightarrow> int" where
  "int32 x = (x + 2 ^ 31) mod 2 ^ 32 - 2 ^ 31"

definition minus32 :: "nat \<Rightarrow> nat \<Rightarrow> nat" where
  "minus32 a b = (a + 2 ^ 32 - b) mod 2 ^ 32"

lemma int32_id: "- (2 ^ 31) \<le> x \<Longrightarrow> x < 2 ^ 31 \<Longrightarrow> int32 x = x"
  by (simp add: int32_def)

lemma minus32_id: "b \<le> a \<Longrightarrow> a < 2 ^ 32 \<Longrightarrow> minus32 a b = a - b"
  by (simp add: minus32_def mod_if)

text \<open>A string: the bytes before the first 0, which must be in the buffer.\<close>

definition cstring :: "u8 list \<Rightarrow> u8 list result" where
  "cstring b = (if 0 \<in> set b then Inr (takeWhile (\<lambda>c. c \<noteq> 0) b) else Inl Fault)"

definition fdwrite :: "u8 list \<Rightarrow> prompt \<Rightarrow> prompt" where
  "fdwrite cs p = p\<lparr>pr_out := pr_out p @ cs, pr_fdcursor := int32 (pr_fdcursor p + int (length cs))\<rparr>"

definition set_fdcursor :: "int \<Rightarrow> prompt \<Rightarrow> prompt" where
  "set_fdcursor n p = (let diff = int32 (n - pr_fdcursor p) in if diff = 0 then p
     else p\<lparr>pr_fdcursor := n, pr_out := pr_out p @ concat (replicate (nat (int32 \<bar>diff\<bar>)) [27, 91, if diff < 0 then 68 else 67])\<rparr>)"

text \<open>Twice the capacity. The result of \<open>realloc\<close> is not tested.\<close>

definition expand_buffer :: "memory_source \<Rightarrow> prompt \<Rightarrow> prompt" where
  "expand_buffer mem p = (let n = (2 * pr_capacity p) mod 2 ^ 32 in p\<lparr>pr_capacity := n,
     pr_buffer := (case mem n of None \<Rightarrow> [] | Some f \<Rightarrow> take n (pr_buffer p) @ map f [length (pr_buffer p)..<n])\<rparr>)"

text \<open>The loop that doubles the capacity. Doubling \<open>2 ^ 31\<close> gives 0, and from 0 the loop does not end. With \<open>33\<close> rounds the fuel never runs out
  (\<open>grow_fuel\<close> below).\<close>

fun grow_loop :: "nat \<Rightarrow> memory_source \<Rightarrow> prompt \<Rightarrow> prompt result" where
  "grow_loop 0 mem p = Inl Hang"
| "grow_loop (Suc n) mem p = (if (pr_size p + 1) mod 2 ^ 32 < pr_capacity p then Inr p else if pr_capacity p = 0 then Inl Hang
     else grow_loop n mem (expand_buffer mem p))"

definition grow :: "memory_source \<Rightarrow> prompt \<Rightarrow> prompt result" where
  "grow mem p = grow_loop 33 mem p"

definition set_command_size :: "memory_source \<Rightarrow> nat \<Rightarrow> prompt \<Rightarrow> prompt result" where
  "set_command_size mem n p = bindr (upd_r (pr_buffer p) n 0) (\<lambda>b. grow mem (p\<lparr>pr_size := n, pr_buffer := b\<rparr>))"

text \<open>The loops that move the rest of the command up and down by one.\<close>

fun shift_up :: "nat \<Rightarrow> nat \<Rightarrow> u8 list \<Rightarrow> u8 list result" where
  "shift_up cursor 0 b = Inr b"
| "shift_up cursor (Suc i) b = (if Suc i > cursor then bindr (nth_r b i) (\<lambda>v. bindr (upd_r b (Suc i) v) (shift_up cursor i)) else Inr b)"

definition shift_down :: "nat \<Rightarrow> nat \<Rightarrow> u8 list \<Rightarrow> u8 list result" where
  "shift_down cursor n b = run_all (\<lambda>b i. bindr (nth_r b (i + 1)) (\<lambda>v. upd_r b i v)) b [cursor..<minus32 n 1]"

definition save_command :: "memory_source \<Rightarrow> u8 list \<Rightarrow> prompt \<Rightarrow> prompt result" where
  "save_command mem cmd p = bindr (cstring cmd) (\<lambda>s. if mem (length s + 1) = None then Inl Fault else
     bindr (upd_r (pr_history p) (nat (pr_hptr p)) (Some s)) (\<lambda>h. Inr (p\<lparr>pr_history := h, pr_hptr := (pr_hptr p + 1) mod PROMPT_HISTORY_SIZE\<rparr>)))"

definition restore_command :: "memory_source \<Rightarrow> u8 list \<Rightarrow> prompt \<Rightarrow> prompt result" where
  "restore_command mem cmd p = (let prev = pr_size p; len = length cmd in
     bindr (set_command_size mem len p) (\<lambda>p. bindr (poke (pr_buffer p) 0 cmd) (\<lambda>b. if len \<ge> 2 ^ 31 then Inl Fault else
       Inr ((set_fdcursor (int len) (fdwrite (replicate (prev - len) 0) (fdwrite cmd (set_fdcursor 0 (p\<lparr>pr_buffer := b\<rparr>)))))\<lparr>pr_cursor := len\<rparr>))))"

definition special_key :: "memory_source \<Rightarrow> u8 \<Rightarrow> prompt \<Rightarrow> prompt result" where
  "special_key mem c p = (if c = 0x44 then (if pr_cursor p = 0 then Inr p
       else Inr (set_fdcursor (int (pr_cursor p) - 1) (p\<lparr>pr_cursor := pr_cursor p - 1\<rparr>)))
     else if c = 0x43 then (if pr_cursor p \<ge> pr_size p then Inr p else if pr_cursor p + 1 \<ge> 2 ^ 31 then Inl Fault
       else Inr (set_fdcursor (int (pr_cursor p) + 1) (p\<lparr>pr_cursor := pr_cursor p + 1\<rparr>)))
     else if c = 0x08 then (if pr_cursor p = 0 then Inr p
       else bindr (peek (pr_buffer p) (pr_cursor p) (minus32 (pr_size p) (pr_cursor p))) (\<lambda>rest.
         let p = fdwrite [0] (fdwrite rest (set_fdcursor (int (pr_cursor p) - 1) p));
             p = set_fdcursor (int (pr_cursor p) - 1) (p\<lparr>pr_cursor := pr_cursor p - 1\<rparr>) in
         bindr (shift_down (pr_cursor p) (pr_size p) (pr_buffer p)) (\<lambda>b.
         bindr (set_command_size mem (minus32 (pr_size p) 1) (p\<lparr>pr_buffer := b\<rparr>)) (\<lambda>p. Inr (p\<lparr>pr_hsel := - 1\<rparr>)))))
     else if c = 0x41 then (let p = (if pr_hsel p = - 1 then p\<lparr>pr_hsel := pr_hptr p\<rparr> else p);
         n = (if pr_hsel p - 1 < 0 then PROMPT_HISTORY_SIZE - 1 else pr_hsel p - 1) in
       if n = pr_hptr p then Inr p else bindr (nth_r (pr_history p) (nat n)) (\<lambda>h. case h of None \<Rightarrow> Inr p
         | Some cmd \<Rightarrow> restore_command mem cmd (p\<lparr>pr_hsel := n\<rparr>)))
     else if c = 0x42 then (if pr_hsel p = - 1 then Inr p else let n = (pr_hsel p + 1) mod PROMPT_HISTORY_SIZE in
       if n = pr_hptr p then restore_command mem [] (p\<lparr>pr_hsel := - 1\<rparr>)
       else bindr (nth_r (pr_history p) (nat n)) (\<lambda>h. case h of None \<Rightarrow> Inr p
         | Some cmd \<Rightarrow> restore_command mem cmd (p\<lparr>pr_hsel := n\<rparr>)))
     else if c = 0x0A then save_command mem (pr_buffer p) (p\<lparr>pr_reading := False\<rparr>)
     else Inr p)"

text \<open>A \<open>char\<close> is signed: bytes from 128 on are below 32.\<close>

definition insert_char :: "memory_source \<Rightarrow> u8 \<Rightarrow> prompt \<Rightarrow> prompt result" where
  "insert_char mem c p = bindr (if pr_cursor p < pr_size p
       then bindr (peek (pr_buffer p) (pr_cursor p) (minus32 (pr_size p) (pr_cursor p))) (\<lambda>rest.
         Inr (set_fdcursor (int (pr_cursor p)) (fdwrite rest (set_fdcursor (int (pr_cursor p) + 1) p))))
       else Inr p) (\<lambda>p.
     bindr (set_command_size mem ((pr_size p + 1) mod 2 ^ 32) (fdwrite [c] p)) (\<lambda>p.
     bindr (if pr_cursor p < pr_size p then shift_up (pr_cursor p) (pr_size p) (pr_buffer p) else Inr (pr_buffer p)) (\<lambda>b.
     bindr (upd_r b (pr_cursor p) c) (\<lambda>b. if pr_cursor p + 1 \<ge> 2 ^ 31 then Inl Fault else
       Inr ((set_fdcursor (int (pr_cursor p) + 1) (p\<lparr>pr_buffer := b, pr_cursor := pr_cursor p + 1\<rparr>))\<lparr>pr_hsel := - 1\<rparr>)))))"

definition input_put :: "memory_source \<Rightarrow> u8 \<Rightarrow> prompt \<Rightarrow> prompt result" where
  "input_put mem c p = (if pr_csi p then bindr (special_key mem c p) (\<lambda>p. Inr (p\<lparr>pr_csi := False\<rparr>))
     else if pr_esc p then Inr (p\<lparr>pr_csi := (pr_csi p \<or> c = 0x5b), pr_esc := False\<rparr>)
     else if c = 27 then Inr (p\<lparr>pr_esc := True\<rparr>)
     else bindr (if c = 0x08 \<or> c = 0x0A then special_key mem c p else Inr p) (\<lambda>p.
       if c <s 0x20 then Inr p else insert_char mem c p))"

definition input_write :: "memory_source \<Rightarrow> u8 list \<Rightarrow> prompt \<Rightarrow> prompt result" where
  "input_write mem cs p = run_all (\<lambda>p c. input_put mem c p) p cs"

text \<open>\<open>prompt\<close>: a new buffer of 128 bytes, then bytes from the standard input until a new line; the bytes left are returned. Without
  more input it waits.\<close>

definition prompt_start :: "memory_source \<Rightarrow> prompt \<Rightarrow> prompt result" where
  "prompt_start mem p = (if mem 128 = None then Inl Fault else Inr (p\<lparr>pr_cursor := 0, pr_fdcursor := 0, pr_esc := False, pr_csi := False,
     pr_capacity := 128, pr_buffer := replicate 128 0, pr_size := 0, pr_hsel := - 1, pr_reading := True\<rparr>))"

fun prompt_loop :: "memory_source \<Rightarrow> u8 list \<Rightarrow> prompt \<Rightarrow> (u8 list \<times> u8 list \<times> prompt) result" where
  "prompt_loop mem cs p = (if \<not> pr_reading p then Inr (pr_buffer p, cs, p) else case cs of [] \<Rightarrow> Inl Hang
     | c # cs \<Rightarrow> bindr (input_put mem c p) (prompt_loop mem cs))"

declare prompt_loop.simps [simp del]

definition run_prompt :: "memory_source \<Rightarrow> u8 list \<Rightarrow> prompt \<Rightarrow> (u8 list \<times> u8 list \<times> prompt) result" where
  "run_prompt mem cs p = bindr (prompt_start mem p) (prompt_loop mem cs)"

subsection \<open>The line on the screen\<close>

text \<open>What the terminal makes of the output: characters are written at the cursor, the sequences \<open>ESC [ C\<close> and \<open>ESC [ D\<close> move it. Places that
  were not written, or written with 0, are blank.\<close>

fun line_show :: "u8 list \<Rightarrow> (nat \<Rightarrow> u8) \<times> nat \<Rightarrow> (nat \<Rightarrow> u8) \<times> nat" where
  "line_show [] s = s"
| "line_show (c # cs) s = (if c = 27 then line_show (drop 2 cs) (fst s, if cs ! 1 = 67 then snd s + 1 else snd s - 1)
     else line_show cs ((fst s)(snd s := c), snd s + 1))"

text \<open>Output that does not end inside a sequence.\<close>

definition whole :: "u8 list \<Rightarrow> bool" where
  "whole out \<longleftrightarrow> (\<forall>r s. line_show (out @ r) s = line_show r (line_show out s))"

lemma whole_append: "whole a \<Longrightarrow> whole b \<Longrightarrow> whole (a @ b)"
  unfolding whole_def by (metis append_assoc)

definition put_cells :: "nat \<Rightarrow> u8 list \<Rightarrow> (nat \<Rightarrow> u8) \<Rightarrow> nat \<Rightarrow> u8" where
  "put_cells k cs f = (\<lambda>i. if k \<le> i \<and> i < k + length cs then cs ! (i - k) else f i)"

lemma put_cells_Nil [simp]: "put_cells k [] f = f"
  by (auto simp: put_cells_def fun_eq_iff)

lemma put_cells_Cons: "put_cells k (c # cs) f = put_cells (k + 1) cs (f(k := c))"
  by (auto simp: put_cells_def fun_eq_iff nth_Cons')

lemma show_chars: "27 \<notin> set cs \<Longrightarrow> line_show (cs @ r) (f, k) = line_show r (put_cells k cs f, k + length cs)"
proof (induction cs arbitrary: f k)
  case Nil
  then show ?case by simp
next
  case (Cons c cs)
  then show ?case by (simp add: put_cells_Cons)
qed

lemma show_moves:
  "line_show (concat (replicate n [27, 91, 67]) @ r) (f, k) = line_show r (f, k + n)"
  "line_show (concat (replicate n [27, 91, 68]) @ r) (f, k) = line_show r (f, k - n)"
  by (induction n arbitrary: k) (simp_all add: numeral_2_eq_2)

lemma whole_chars: "27 \<notin> set cs \<Longrightarrow> whole cs"
  using show_chars [of cs "[]"] show_chars [of cs] by (auto simp: whole_def)

lemma whole_moves: "whole (concat (replicate n [27, 91, 67]))" "whole (concat (replicate n [27, 91, 68]))"
  using show_moves(1) [of n "[]"] show_moves(1) [of n] show_moves(2) [of n "[]"] show_moves(2) [of n] by (auto simp: whole_def)

text \<open>After the output \<open>o0\<close> the line has become \<open>f\<close> with the cursor at \<open>k\<close>, where the editor believes it to be.\<close>

definition shown :: "u8 list \<Rightarrow> prompt \<Rightarrow> (nat \<Rightarrow> u8) \<Rightarrow> nat \<Rightarrow> bool" where
  "shown o0 p f k \<longleftrightarrow> pr_fdcursor p = int k \<and> (\<exists>out. pr_out p = o0 @ out \<and> whole out \<and> line_show out (\<lambda>_. 0, 0) = (f, k))"

lemma shown_fdwrite:
  assumes "shown o0 p f k" "27 \<notin> set cs" "k + length cs < 2 ^ 31"
  shows "shown o0 (fdwrite cs p) (put_cells k cs f) (k + length cs)"
proof -
  obtain out where out: "pr_out p = o0 @ out" "whole out" "line_show out (\<lambda>_. 0, 0) = (f, k)" "pr_fdcursor p = int k"
    using assms(1) by (auto simp: shown_def)
  have "line_show (out @ cs) (\<lambda>_. 0, 0) = (put_cells k cs f, k + length cs)"
    using out(2,3) show_chars [OF assms(2), of "[]"] by (simp add: whole_def)
  moreover have "int32 (int k + int (length cs)) = int (k + length cs)" using assms(3) by (subst int32_id) simp_all
  ultimately show ?thesis using out whole_append [OF out(2) whole_chars [OF assms(2)]] by (auto simp: shown_def fdwrite_def)
qed

lemma shown_set_fdcursor:
  assumes "shown o0 p f k" "k < 2 ^ 31" "n < 2 ^ 31"
  shows "shown o0 (set_fdcursor (int n) p) f n"
proof -
  obtain out where out: "pr_out p = o0 @ out" "whole out" "line_show out (\<lambda>_. 0, 0) = (f, k)" "pr_fdcursor p = int k"
    using assms(1) by (auto simp: shown_def)
  have d: "int32 (int n - int k) = int n - int k" "int32 \<bar>int n - int k\<bar> = \<bar>int n - int k\<bar>"
    using assms(2,3) by (subst int32_id; simp)+
  consider "n = k" | "n < k" | "k < n" by linarith
  then show ?thesis
  proof cases
    case 1
    then show ?thesis using assms(1) out(4) by (simp add: set_fdcursor_def int32_id)
  next
    case 2
    then have "set_fdcursor (int n) p = p\<lparr>pr_fdcursor := int n, pr_out := pr_out p @ concat (replicate (k - n) [27, 91, 68])\<rparr>"
      using out(4) d by (simp add: set_fdcursor_def Let_def nat_diff_distrib' abs_of_neg)
    moreover have "line_show (out @ concat (replicate (k - n) [27, 91, 68])) (\<lambda>_. 0, 0) = (f, n)"
      using out(2,3) show_moves(2) [of "k - n" "[]"] 2 by (simp add: whole_def)
    ultimately show ?thesis using out whole_append [OF out(2) whole_moves(2)] by (auto simp: shown_def)
  next
    case 3
    then have "set_fdcursor (int n) p = p\<lparr>pr_fdcursor := int n, pr_out := pr_out p @ concat (replicate (n - k) [27, 91, 67])\<rparr>"
      using out(4) d by (simp add: set_fdcursor_def Let_def nat_diff_distrib')
    moreover have "line_show (out @ concat (replicate (n - k) [27, 91, 67])) (\<lambda>_. 0, 0) = (f, n)"
      using out(2,3) show_moves(1) [of "n - k" "[]"] 3 by (simp add: whole_def)
    ultimately show ?thesis using out whole_append [OF out(2) whole_moves(1)] by (auto simp: shown_def)
  qed
qed

text \<open>The screen while the command is \<open>t\<close>.\<close>

definition cells :: "u8 list \<Rightarrow> nat \<Rightarrow> u8" where
  "cells t = (\<lambda>i. if i < length t then t ! i else 0)"

lemma cells_insert: "put_cells (length u) [c] (put_cells (length u + 1) v (cells (u @ v))) = cells (u @ c # v)"
  by (auto simp: cells_def put_cells_def fun_eq_iff nth_append nth_Cons' Suc_le_eq)

lemma cells_end: "put_cells (length u) [c] (cells u) = cells (u @ [c])"
  using cells_insert [of u c "[]"] by simp

lemma cells_remove: "put_cells (length u + length v) [0] (put_cells (length u) v (cells (u @ x # v))) = cells (u @ v)"
  by (auto simp: cells_def put_cells_def fun_eq_iff nth_append nth_Cons')

subsection \<open>The buffer\<close>

text \<open>Memory for up to \<open>B\<close> bytes at a time.\<close>

definition gives :: "memory_source \<Rightarrow> nat \<Rightarrow> bool" where
  "gives mem B \<longleftrightarrow> B \<le> 2 ^ 31 \<and> (\<forall>m. 0 < m \<and> m \<le> B \<longrightarrow> mem m \<noteq> None)"

lemma grow_loop_spec:
  "0 < pr_capacity p \<Longrightarrow> length (pr_buffer p) = pr_capacity p \<Longrightarrow> pr_capacity p \<le> B \<Longrightarrow> 2 * (pr_size p + 1) \<le> B \<Longrightarrow> gives mem B \<Longrightarrow>
    pr_size p + 1 < pr_capacity p * 2 ^ n \<Longrightarrow>
    \<exists>r. grow_loop (Suc n) mem p = Inr (p\<lparr>pr_buffer := pr_buffer p @ r, pr_capacity := pr_capacity p + length r\<rparr>) \<and>
      pr_size p + 1 < pr_capacity p + length r \<and> pr_capacity p + length r \<le> B"
proof (induction n arbitrary: p)
  case 0
  then show ?case by (intro exI [of _ "[]"]) (simp add: gives_def)
next
  case (Suc n)
  have m: "(pr_size p + 1) mod 2 ^ 32 = pr_size p + 1" using Suc.prems(4,5) by (simp add: gives_def)
  show ?case
  proof (cases "pr_size p + 1 < pr_capacity p")
    case True
    then show ?thesis using m Suc.prems(3) by (intro exI [of _ "[]"]) simp
  next
    case False
    then have c: "2 * pr_capacity p \<le> B" using Suc.prems(4) by simp
    then have "mem (2 * pr_capacity p) \<noteq> None" using Suc.prems(1,5) by (simp add: gives_def)
    then obtain f where f: "mem (2 * pr_capacity p) = Some f" by blast
    have "(2 * pr_capacity p) mod 2 ^ 32 = 2 * pr_capacity p" using c Suc.prems(5) by (simp add: gives_def)
    then have q: "expand_buffer mem p = p\<lparr>pr_capacity := 2 * pr_capacity p, pr_buffer := pr_buffer p @ map f [pr_capacity p..<2 * pr_capacity p]\<rparr>"
      using f Suc.prems(2) by (simp add: expand_buffer_def Let_def)
    obtain r where r: "grow_loop (Suc n) mem (expand_buffer mem p) = Inr (expand_buffer mem p\<lparr>pr_buffer := pr_buffer (expand_buffer mem p) @ r,
        pr_capacity := pr_capacity (expand_buffer mem p) + length r\<rparr>)" "pr_size p + 1 < 2 * pr_capacity p + length r" "2 * pr_capacity p + length r \<le> B"
      using Suc.IH [of "expand_buffer mem p"] c Suc.prems q by auto
    have "grow_loop (Suc (Suc n)) mem p = grow_loop (Suc n) mem (expand_buffer mem p)" using False m Suc.prems(1) by (subst grow_loop.simps) simp
    then show ?thesis using r unfolding q
      by (intro exI [of _ "map f [pr_capacity p..<2 * pr_capacity p] @ r"]) simp
  qed
qed

lemma grow_spec:
  assumes "0 < pr_capacity p" "length (pr_buffer p) = pr_capacity p" "pr_capacity p \<le> B" "2 * (pr_size p + 1) \<le> B" "gives mem B"
  shows "\<exists>r. grow mem p = Inr (p\<lparr>pr_buffer := pr_buffer p @ r, pr_capacity := pr_capacity p + length r\<rparr>) \<and>
      pr_size p + 1 < pr_capacity p + length r \<and> pr_capacity p + length r \<le> B"
proof -
  have "pr_size p + 1 < 1 * 2 ^ 32" using assms(4,5) by (simp add: gives_def)
  also have "1 * 2 ^ 32 \<le> pr_capacity p * 2 ^ 32" using assms(1) by (intro mult_le_mono1) simp
  finally have "pr_size p + 1 < pr_capacity p * 2 ^ 32" .
  moreover have "grow mem p = grow_loop (Suc 32) mem p" by (simp add: grow_def)
  ultimately show ?thesis using grow_loop_spec [OF assms, of 32] by presburger
qed

text \<open>The fuel does not run out: after 32 doublings the capacity is 0, and from there the loop does not end.\<close>

lemma grow_fuel_step:
  "pr_capacity p < 2 ^ 32 \<Longrightarrow> 2 ^ m * pr_capacity p mod 2 ^ 32 = 0 \<Longrightarrow> m < n \<Longrightarrow> grow_loop n mem p = grow_loop (Suc m) mem p"
proof (induction m arbitrary: p n)
  case 0
  then show ?case by (cases n) simp_all
next
  case (Suc m)
  obtain n' where n: "n = Suc n'" "m < n'" using Suc.prems(3) by (cases n) auto
  let ?q = "expand_buffer mem p"
  have c: "pr_capacity ?q = 2 * pr_capacity p mod 2 ^ 32" by (simp add: expand_buffer_def Let_def)
  have "2 ^ m * (2 * pr_capacity p mod 2 ^ 32) mod 2 ^ 32 = 2 ^ Suc m * pr_capacity p mod 2 ^ 32"
    by (simp only: mod_mult_right_eq power_Suc) (simp add: ac_simps)
  then have "grow_loop n' mem ?q = grow_loop (Suc m) mem ?q" using Suc.prems(2) n(2) by (intro Suc.IH) (simp_all add: c)
  then show ?case unfolding n(1) grow_loop.simps(2) [of n'] grow_loop.simps(2) [of "Suc m"] by (simp only:)
qed

lemma grow_fuel:
  assumes "pr_capacity p < 2 ^ 32" "33 \<le> n"
  shows "grow_loop n mem p = grow mem p"
  using grow_fuel_step [OF assms(1), of 32 n mem] assms(2) by (simp add: grow_def)

text \<open>A command that fills a buffer of \<open>2 ^ 31\<close> bytes is never finished: the capacity becomes 0.\<close>

lemma capacity_wraps:
  assumes "pr_capacity p = 2 ^ 31" "2 ^ 31 \<le> pr_size p + 1" "pr_size p + 1 < 2 ^ 32"
  shows "grow mem p = Inl Hang"
proof -
  have "grow_loop (Suc (Suc n)) mem p = Inl Hang" for n using assms by (simp add: expand_buffer_def)
  from this [of 31] show ?thesis by (simp add: grow_def)
qed

text \<open>When \<open>realloc\<close> gives nothing, the character that needed it is written through the null pointer.\<close>

lemma grow_without_memory:
  assumes "pr_capacity p < 2 ^ 30" "pr_capacity p \<le> pr_size p + 1" "pr_size p + 1 < 2 * pr_capacity p" "mem (2 * pr_capacity p) = None"
  shows "grow mem p = Inr (p\<lparr>pr_capacity := 2 * pr_capacity p, pr_buffer := []\<rparr>)"
proof -
  have "grow_loop (Suc (Suc n)) mem p = Inr (p\<lparr>pr_capacity := 2 * pr_capacity p, pr_buffer := []\<rparr>)" for n
    using assms by (simp add: expand_buffer_def)
  from this [of 31] show ?thesis by (simp add: grow_def)
qed

lemma shift_up_spec: "shift_up (length a) (length a + length b) (a @ b @ x # r) = Inr (a @ hd (b @ [x]) # b @ r)"
proof (induction b arbitrary: x r rule: rev_induct)
  case Nil
  then show ?case by (cases "length a") simp_all
next
  case (snoc y b)
  then show ?case by (simp add: nth_append list_update_append hd_append split: if_splits)
qed

lemma shift_down_moves: "run_all (\<lambda>b i. bindr (nth_r b (i + 1)) (\<lambda>v. upd_r b i v)) (u @ x # v @ r) [length u..<length u + length v]
    = Inr (u @ v @ last (x # v) # r)"
proof (induction v arbitrary: u x)
  case Nil
  then show ?case by simp
next
  case (Cons y v)
  have "[length u..<length u + length (y # v)] = length u # [length (u @ [y])..<length (u @ [y]) + length v]" by (simp add: upt_conv_Cons del: upt_Suc)
  then show ?case using Cons [of "u @ [y]" y] by (simp add: nth_append list_update_append del: upt_Suc)
qed

lemma set_command_size_spec:
  assumes "pr_buffer p = s @ x # r" "length (pr_buffer p) = pr_capacity p" "pr_capacity p \<le> B" "2 * (length s + 1) \<le> B" "gives mem B"
  obtains r' where "set_command_size mem (length s) p = Inr (p\<lparr>pr_size := length s, pr_buffer := s @ 0 # r', pr_capacity := length (s @ 0 # r')\<rparr>)"
    "r' \<noteq> []" "length (s @ 0 # r') \<le> B"
proof -
  let ?p = "p\<lparr>pr_size := length s, pr_buffer := s @ 0 # r\<rparr>"
  obtain q where q: "grow mem ?p = Inr (?p\<lparr>pr_buffer := pr_buffer ?p @ q, pr_capacity := pr_capacity ?p + length q\<rparr>)"
    "pr_size ?p + 1 < pr_capacity ?p + length q" "pr_capacity ?p + length q \<le> B"
    using grow_spec [of ?p B mem] assms by auto
  have c: "pr_capacity p = length s + 1 + length r" using assms by simp
  show ?thesis
  proof (rule that [of "r @ q"])
    show "set_command_size mem (length s) p = Inr (p\<lparr>pr_size := length s, pr_buffer := s @ 0 # r @ q, pr_capacity := length (s @ 0 # r @ q)\<rparr>)"
      using q(1) c by (simp add: set_command_size_def assms(1) list_update_append)
    show "r @ q \<noteq> []" using q(2) c by auto
    show "length (s @ 0 # r @ q) \<le> B" using q(3) c by simp
  qed
qed

subsection \<open>Keys\<close>

text \<open>The editor keeps a command \<open>t\<close> and a place \<open>k\<close> in it, in a buffer of at most \<open>B\<close> bytes; its history is \<open>h\<close> with \<open>i\<close> the next entry.\<close>

definition editing :: "nat \<Rightarrow> u8 list option list \<Rightarrow> int \<Rightarrow> u8 list \<Rightarrow> nat \<Rightarrow> prompt \<Rightarrow> bool" where
  "editing B h i t k p \<longleftrightarrow> (\<exists>r. r \<noteq> [] \<and> pr_buffer p = t @ 0 # r \<and> pr_capacity p = length (t @ 0 # r)) \<and> pr_capacity p \<le> B \<and> pr_size p = length t \<and> pr_cursor p = k \<and>
     k \<le> length t \<and> \<not> pr_esc p \<and> \<not> pr_csi p \<and> pr_reading p \<and> pr_history p = h \<and> pr_hptr p = i"

definition printable :: "u8 \<Rightarrow> bool" where
  "printable c \<longleftrightarrow> 32 \<le> c \<and> c < 128"

lemma printable_chars: "printable c \<Longrightarrow> \<not> c <s 0x20 \<and> c \<noteq> 27 \<and> c \<noteq> 0 \<and> c \<noteq> 8 \<and> c \<noteq> 10"
proof -
  assume a: "printable c"
  have "0 \<le> uint c" "uint c < 128" "32 \<le> uint c" using a by (simp_all add: printable_def word_less_def word_le_def)
  then have "sint c = uint c"
    by (simp add: sint_uint signed_take_bit_eq_take_bit_shift take_bit_eq_mod)
  then have "\<not> c <s 0x20" using \<open>32 \<le> uint c\<close> by (simp add: word_sless_alt)
  then show ?thesis using a by (auto simp: printable_def)
qed

text \<open>The display functions change the output and the cursor of the screen only.\<close>

lemma display_fields [simp]:
  "pr_buffer (set_fdcursor n p) = pr_buffer p" "pr_capacity (set_fdcursor n p) = pr_capacity p" "pr_size (set_fdcursor n p) = pr_size p"
  "pr_cursor (set_fdcursor n p) = pr_cursor p" "pr_esc (set_fdcursor n p) = pr_esc p" "pr_csi (set_fdcursor n p) = pr_csi p"
  "pr_reading (set_fdcursor n p) = pr_reading p" "pr_history (set_fdcursor n p) = pr_history p" "pr_hptr (set_fdcursor n p) = pr_hptr p"
  "pr_hsel (set_fdcursor n p) = pr_hsel p"
  "pr_buffer (fdwrite cs p) = pr_buffer p" "pr_capacity (fdwrite cs p) = pr_capacity p" "pr_size (fdwrite cs p) = pr_size p"
  "pr_cursor (fdwrite cs p) = pr_cursor p" "pr_esc (fdwrite cs p) = pr_esc p" "pr_csi (fdwrite cs p) = pr_csi p"
  "pr_reading (fdwrite cs p) = pr_reading p" "pr_history (fdwrite cs p) = pr_history p" "pr_hptr (fdwrite cs p) = pr_hptr p"
  "pr_hsel (fdwrite cs p) = pr_hsel p"
  by (simp_all add: set_fdcursor_def fdwrite_def Let_def)

lemma shown_cong: "shown o0 p f k \<Longrightarrow> pr_out q = pr_out p \<Longrightarrow> pr_fdcursor q = pr_fdcursor p \<Longrightarrow> shown o0 q f k"
  by (simp add: shown_def)

lemma insert_char_edits:
  assumes e: "editing B h i (u @ v) (length u) p" and s: "shown o0 p (cells (u @ v)) (length u)" and c: "printable c" and v: "\<forall>x \<in> set v. printable x"
    and B: "gives mem B" "2 * (length (u @ v) + 2) \<le> B"
  shows "\<exists>q. insert_char mem c p = Inr q \<and> editing B h i (u @ c # v) (length u + 1) q \<and> shown o0 q (cells (u @ c # v)) (length u + 1)"
proof -
  obtain r where r: "r \<noteq> []" "pr_buffer p = u @ v @ 0 # r" "pr_capacity p = length (pr_buffer p)" and p: "pr_size p = length u + length v" "pr_cursor p = length u"
    "\<not> pr_esc p" "\<not> pr_csi p" "pr_reading p" "pr_history p = h" "pr_hptr p = i" "pr_capacity p \<le> B"
    using e by (auto simp: editing_def)
  have nv: "27 \<notin> set v" using v printable_chars by blast
  have lim: "length u + length v + 2 < 2 ^ 31" using B by (simp add: gives_def)
  have m: "minus32 (pr_size p) (pr_cursor p) = length v" "(pr_size p + 1) mod 2 ^ 32 = length u + length v + 1"
    using lim by (simp_all add: p minus32_id)
  define p1 where "p1 = (if v = [] then p else set_fdcursor (int (length u)) (fdwrite v (set_fdcursor (int (length u) + 1) p)))"
  have p1f: "pr_buffer p1 = pr_buffer p" "pr_capacity p1 = pr_capacity p" "pr_size p1 = pr_size p" "pr_cursor p1 = pr_cursor p" "pr_esc p1 = pr_esc p"
    "pr_csi p1 = pr_csi p" "pr_reading p1 = pr_reading p" "pr_history p1 = pr_history p" "pr_hptr p1 = pr_hptr p" by (simp_all add: p1_def)
  have first: "(if pr_cursor p < pr_size p then bindr (peek (pr_buffer p) (pr_cursor p) (minus32 (pr_size p) (pr_cursor p))) (\<lambda>rest.
         Inr (set_fdcursor (int (pr_cursor p)) (fdwrite rest (set_fdcursor (int (pr_cursor p) + 1) p)))) else Inr p) = Inr p1"
    unfolding m by (simp add: p1_def p r(2))
  have s1: "shown o0 p1 (put_cells (length u + 1) v (cells (u @ v))) (length u)"
    using shown_set_fdcursor [OF shown_fdwrite [OF shown_set_fdcursor [OF s, of "length u + 1"] nv], of "length u"] s lim
    by (auto simp: p1_def add.commute)
  have s2: "shown o0 (fdwrite [c] p1) (cells (u @ c # v)) (length u + 1)"
    using shown_fdwrite [OF s1, of "[c]"] printable_chars [OF c] cells_insert [of u c v] lim by auto
  obtain r' where r': "set_command_size mem (length (u @ v @ [0])) (fdwrite [c] p1)
      = Inr ((fdwrite [c] p1)\<lparr>pr_size := length (u @ v @ [0]), pr_buffer := (u @ v @ [0]) @ 0 # r', pr_capacity := length ((u @ v @ [0]) @ 0 # r')\<rparr>)" "r' \<noteq> []"
      "length ((u @ v @ [0]) @ 0 # r') \<le> B"
    by (rule set_command_size_spec [of "fdwrite [c] p1" "u @ v @ [0]" "hd r" "tl r" B mem]) (use r p(8) B in \<open>auto simp: p1f\<close>)
  have up: "shift_up (length u) (Suc (length u + length v)) (u @ v @ 0 # 0 # r') = Inr (u @ hd (v @ [0, 0]) # v @ 0 # r')"
    using shift_up_spec [of u "v @ [0]" 0 r'] by simp
  define p3 where "p3 = (fdwrite [c] p1)\<lparr>pr_size := length u + length v + 1, pr_capacity := length (u @ c # v @ 0 # r'),
    pr_buffer := u @ c # v @ 0 # r', pr_cursor := length u + 1\<rparr>"
  define q where "q = (set_fdcursor (int (length u + 1)) p3)\<lparr>pr_hsel := - 1\<rparr>"
  have "insert_char mem c p = Inr q"
    unfolding insert_char_def first using r' up lim m(2) by (simp add: p1f p q_def p3_def list_update_append add.commute)
  moreover have "editing B h i (u @ c # v) (length u + 1) q"
    using r'(2,3) by (simp add: editing_def q_def p3_def p1f p)
  moreover have "shown o0 q (cells (u @ c # v)) (length u + 1)"
    unfolding q_def by (rule shown_cong [OF shown_set_fdcursor [OF shown_cong [OF s2]]]) (use lim in \<open>simp_all add: p3_def\<close>)
  ultimately show ?thesis by blast
qed

lemma backspace_edits:
  assumes e: "editing B h i (u @ x # v) (length u + 1) p" and s: "shown o0 p (cells (u @ x # v)) (length u + 1)" and v: "\<forall>x \<in> set v. printable x"
    and B: "gives mem B" "2 * (length (u @ x # v) + 2) \<le> B"
  shows "\<exists>q. special_key mem 8 p = Inr q \<and> editing B h i (u @ v) (length u) q \<and> shown o0 q (cells (u @ v)) (length u)"
proof -
  obtain r where r: "r \<noteq> []" "pr_buffer p = u @ x # v @ 0 # r" "pr_capacity p = length (pr_buffer p)" and p: "pr_size p = length u + length v + 1"
    "pr_cursor p = length u + 1" "\<not> pr_esc p" "\<not> pr_csi p" "pr_reading p" "pr_history p = h" "pr_hptr p = i" "pr_capacity p \<le> B"
    using e by (auto simp: editing_def)
  have lim: "length u + length v + 3 < 2 ^ 31" using B by (simp add: gives_def)
  have m: "minus32 (pr_size p) (pr_cursor p) = length v" "minus32 (pr_size p) 1 = length u + length v"
    using lim by (simp_all add: p minus32_id)
  have nv: "27 \<notin> set v" using v printable_chars by blast
  define p1 where "p1 = set_fdcursor (int (length u)) ((fdwrite [0] (fdwrite v (set_fdcursor (int (length u)) p)))\<lparr>pr_cursor := length u\<rparr>)"
  have p1f: "pr_buffer p1 = pr_buffer p" "pr_capacity p1 = pr_capacity p" "pr_size p1 = pr_size p" "pr_cursor p1 = length u" "pr_esc p1 = pr_esc p"
    "pr_csi p1 = pr_csi p" "pr_reading p1 = pr_reading p" "pr_history p1 = pr_history p" "pr_hptr p1 = pr_hptr p" by (simp_all add: p1_def)
  have s0: "shown o0 (fdwrite [0] (fdwrite v (set_fdcursor (int (length u)) p))) (cells (u @ v)) (length u + length v + 1)"
    using shown_fdwrite [OF shown_fdwrite [OF shown_set_fdcursor [OF s, of "length u"] nv], of "[0]"] cells_remove [of u v x] lim by simp
  have s1: "shown o0 p1 (cells (u @ v)) (length u)"
    unfolding p1_def by (rule shown_set_fdcursor, rule shown_cong [OF s0]) (use lim in simp_all)
  have down: "shift_down (length u) (pr_size p) (pr_buffer p) = Inr (u @ v @ last (x # v) # 0 # r)"
    using shift_down_moves [of u x v "0 # r"] unfolding shift_down_def m by (simp add: r(2))
  obtain r' where r': "set_command_size mem (length (u @ v)) (p1\<lparr>pr_buffer := u @ v @ last (x # v) # 0 # r\<rparr>)
      = Inr ((p1\<lparr>pr_buffer := u @ v @ last (x # v) # 0 # r\<rparr>)\<lparr>pr_size := length (u @ v), pr_buffer := (u @ v) @ 0 # r', pr_capacity := length ((u @ v) @ 0 # r')\<rparr>)"
    "r' \<noteq> []" "length ((u @ v) @ 0 # r') \<le> B"
    by (rule set_command_size_spec [of "p1\<lparr>pr_buffer := u @ v @ last (x # v) # 0 # r\<rparr>" "u @ v" "last (x # v)" "0 # r" B mem])
      (use r p(8) B in \<open>auto simp: p1f\<close>)
  define q where "q = p1\<lparr>pr_size := length u + length v, pr_buffer := u @ v @ 0 # r', pr_capacity := length (u @ v @ 0 # r'), pr_hsel := - 1\<rparr>"
  have sz: "minus32 (pr_size p) 1 = length (u @ v)" using m(2) by simp
  have "special_key mem 8 p = bindr (set_command_size mem (length (u @ v)) (p1\<lparr>pr_buffer := u @ v @ last (x # v) # 0 # r\<rparr>)) (\<lambda>p. Inr (p\<lparr>pr_hsel := - 1\<rparr>))"
    using down sz m(1) by (simp add: special_key_def p r(2) Let_def p1_def)
  then have "special_key mem 8 p = Inr q" unfolding r'(1) by (simp add: q_def)
  moreover have "editing B h i (u @ v) (length u) q"
    using r'(2,3) by (simp add: editing_def q_def p1f p)
  moreover have "shown o0 q (cells (u @ v)) (length u)"
    by (rule shown_cong [OF s1]) (simp_all add: q_def)
  ultimately show ?thesis by blast
qed

text \<open>The specification: a command and a place in it.\<close>

datatype key = Type u8 | Go_Left | Go_Right | Backspace

fun key_bytes :: "key \<Rightarrow> u8 list" where
  "key_bytes (Type c) = [c]"
| "key_bytes Go_Left = [27, 0x5b, 0x44]"
| "key_bytes Go_Right = [27, 0x5b, 0x43]"
| "key_bytes Backspace = [8]"

fun edit :: "key \<Rightarrow> u8 list \<times> nat \<Rightarrow> u8 list \<times> nat" where
  "edit (Type c) (t, k) = (take k t @ c # drop k t, k + 1)"
| "edit Go_Left (t, k) = (t, k - 1)"
| "edit Go_Right (t, k) = (t, if k < length t then k + 1 else k)"
| "edit Backspace (t, k) = (if k = 0 then (t, 0) else (take (k - 1) t @ drop k t, k - 1))"

fun typeable :: "key \<Rightarrow> bool" where
  "typeable (Type c) = printable c"
| "typeable _ = True"

definition line_state :: "nat \<Rightarrow> u8 list \<Rightarrow> u8 list option list \<Rightarrow> int \<Rightarrow> u8 list \<times> nat \<Rightarrow> prompt \<Rightarrow> bool" where
  "line_state B o0 h i = (\<lambda>(t, k) p. editing B h i t k p \<and> shown o0 p (cells t) k \<and> (\<forall>x \<in> set t. printable x))"

lemma move_edits:
  assumes "line_state B o0 h i (t, k) p" "length t + 1 < 2 ^ 31"
  shows "\<exists>q. special_key mem 0x44 p = Inr q \<and> line_state B o0 h i (t, k - 1) q"
    and "\<exists>q. special_key mem 0x43 p = Inr q \<and> line_state B o0 h i (t, if k < length t then k + 1 else k) q"
proof -
  have e: "editing B h i t k p" and s: "shown o0 p (cells t) k" and v: "\<forall>x \<in> set t. printable x" using assms by (simp_all add: line_state_def)
  have kt: "k \<le> length t" using e by (simp add: editing_def)
  have sh: "n \<le> length t \<Longrightarrow> shown o0 (set_fdcursor (int n) (p\<lparr>pr_cursor := n\<rparr>)) (cells t) n" for n
    by (rule shown_set_fdcursor, rule shown_cong [OF s]) (use assms(2) kt in simp_all)
  have ed: "n \<le> length t \<Longrightarrow> editing B h i t n (set_fdcursor m (p\<lparr>pr_cursor := n\<rparr>))" for n m using e by (simp add: editing_def)
  have k: "pr_cursor p = k" "pr_size p = length t" "k \<le> length t" using e by (simp_all add: editing_def)
  show "\<exists>q. special_key mem 0x44 p = Inr q \<and> line_state B o0 h i (t, k - 1) q"
  proof (cases k)
    case 0
    then show ?thesis using e s v by (simp add: special_key_def k line_state_def)
  next
    case (Suc n)
    then show ?thesis using sh [of n] ed [of n "int n"] k v Suc by (simp add: special_key_def line_state_def)
  qed
  show "\<exists>q. special_key mem 0x43 p = Inr q \<and> line_state B o0 h i (t, if k < length t then k + 1 else k) q"
  proof (cases "k < length t")
    case True
    then show ?thesis using sh [of "k + 1"] ed [of "k + 1" "int k + 1"] k v assms(2) by (simp add: special_key_def line_state_def add.commute)
  next
    case False
    then show ?thesis using e s v k by (simp add: special_key_def line_state_def)
  qed
qed

lemma flag_edits:
  "line_state B o0 h i s p \<Longrightarrow> \<not> pr_esc p \<and> \<not> pr_csi p \<and> pr_reading p"
  "line_state B o0 h i s p \<Longrightarrow> line_state B o0 h i s (p\<lparr>pr_esc := False, pr_csi := False\<rparr>)"
  by (auto simp: line_state_def editing_def shown_def)

text \<open>The cursor keys: the escape byte, the bracket and the letter set and clear the two flags.\<close>

lemma special_key_flags:
  assumes "special_key mem c p = Inr q" "c = 0x44 \<or> c = 0x43"
  shows "special_key mem c (p\<lparr>pr_csi := b, pr_esc := e\<rparr>) = Inr (q\<lparr>pr_csi := b, pr_esc := e\<rparr>)"
proof (rule disjE [OF assms(2)])
  assume c: "c = 0x44"
  show ?thesis using assms(1) unfolding c by (simp add: special_key_def set_fdcursor_def Let_def split: if_splits) (auto split: if_splits)
next
  assume c: "c = 0x43"
  show ?thesis using assms(1) unfolding c by (simp add: special_key_def set_fdcursor_def Let_def split: if_splits) (auto split: if_splits)
qed

lemma input_write_escape:
  assumes "line_state B o0 h i s p" "special_key mem c p = Inr q" "c = 0x44 \<or> c = 0x43"
  shows "input_write mem [27, 0x5b, c] p = Inr (q\<lparr>pr_esc := False, pr_csi := False\<rparr>)"
proof -
  have f: "\<not> pr_esc p" "\<not> pr_csi p" using flag_edits(1) [OF assms(1)] by simp_all
  have "special_key mem c (p\<lparr>pr_csi := True, pr_esc := False\<rparr>) = Inr (q\<lparr>pr_csi := True, pr_esc := False\<rparr>)"
    by (rule special_key_flags [OF assms(2,3)])
  then show ?thesis using f by (simp add: input_write_def input_put_def)
qed

lemma key_edits:
  assumes "line_state B o0 h i (t, k) p" "typeable key" "gives mem B" "2 * (length t + 2) \<le> B"
  shows "\<exists>q. input_write mem (key_bytes key) p = Inr q \<and> line_state B o0 h i (edit key (t, k)) q"
proof -
  have e: "editing B h i t k p" and s: "shown o0 p (cells t) k" and v: "\<forall>x \<in> set t. printable x" using assms(1) by (simp_all add: line_state_def)
  have f: "\<not> pr_esc p" "\<not> pr_csi p" "pr_cursor p = k" "k \<le> length t" using e by (simp_all add: editing_def)
  have lt: "length t + 1 < 2 ^ 31" using assms(3,4) by (simp add: gives_def)
  show ?thesis
  proof (cases key)
    case (Type c)
    have c: "printable c" using assms(2) Type by simp
    have len: "length (take k t) = k" using f(4) by simp
    have B: "2 * (length (take k t @ drop k t) + 2) \<le> B" using assms(4) by simp
    obtain q where q: "insert_char mem c p = Inr q" "editing B h i (take k t @ c # drop k t) (k + 1) q" "shown o0 q (cells (take k t @ c # drop k t)) (k + 1)"
      using insert_char_edits [OF _ _ c _ assms(3) B, of h i p o0] e s v len by (auto dest: in_set_dropD)
    have "input_write mem (key_bytes key) p = Inr q"
      using Type f q(1) printable_chars [OF c] by (simp add: input_write_def input_put_def bindr_right_unit)
    then show ?thesis using q(2,3) v c Type by (auto simp: line_state_def dest: in_set_takeD in_set_dropD)
  next
    case Go_Left
    then show ?thesis using move_edits(1) [OF assms(1) lt, of mem] input_write_escape [OF assms(1)] flag_edits(2) by fastforce
  next
    case Go_Right
    then show ?thesis using move_edits(2) [OF assms(1) lt, of mem] input_write_escape [OF assms(1)] flag_edits(2) by fastforce
  next
    case Backspace
    show ?thesis
    proof (cases k)
      case 0
      then show ?thesis using Backspace assms(1) f by (simp add: input_write_def input_put_def special_key_def word_sless_alt)
    next
      case (Suc n)
      obtain x where t: "t = take n t @ x # drop k t" using f(4) Suc id_take_nth_drop [of n t] by auto
      have len: "length (take n t) = n" using f(4) Suc by simp
      have e': "editing B h i (take n t @ x # drop k t) (length (take n t) + 1) p" using e len Suc unfolding t [symmetric] by simp
      have s': "shown o0 p (cells (take n t @ x # drop k t)) (length (take n t) + 1)" using s len Suc unfolding t [symmetric] by simp
      have v': "\<forall>x \<in> set (drop k t). printable x" using v by (auto dest: in_set_dropD)
      have B: "2 * (length (take n t @ x # drop k t) + 2) \<le> B" using assms(4) unfolding t [symmetric] .
      obtain q where q: "special_key mem 8 p = Inr q" "editing B h i (take n t @ drop k t) n q" "shown o0 q (cells (take n t @ drop k t)) n"
        using backspace_edits [OF e' s' v' assms(3) B] unfolding len by blast
      have "input_write mem (key_bytes key) p = Inr q"
        using Backspace f q(1) by (simp add: input_write_def input_put_def word_sless_alt bindr_right_unit)
      then show ?thesis using q(2,3) v Backspace Suc by (auto simp: line_state_def dest: in_set_takeD in_set_dropD)
    qed
  qed
qed

lemma edit_length: "length (fst (edit key s)) \<le> length (fst s) + 1"
  by (cases s; cases key) auto

lemma edits_length: "length (fst (fold edit keys s)) \<le> length (fst s) + length keys"
proof (induction keys arbitrary: s)
  case (Cons key keys)
  then show ?case using edit_length [of key s] le_trans [OF Cons [of "edit key s"]] by simp
qed simp

lemma keys_edit:
  "line_state B o0 h i s p \<Longrightarrow> \<forall>key \<in> set keys. typeable key \<Longrightarrow> gives mem B \<Longrightarrow> 2 * (length (fst s) + length keys + 1) \<le> B \<Longrightarrow>
    \<exists>q. input_write mem (concat (map key_bytes keys)) p = Inr q \<and> line_state B o0 h i (fold edit keys s) q"
proof (induction keys arbitrary: s p)
  case Nil
  then show ?case by (simp add: input_write_def)
next
  case (Cons key keys)
  obtain t k where s: "s = (t, k)" by (cases s)
  obtain q where q: "input_write mem (key_bytes key) p = Inr q" "line_state B o0 h i (edit key s) q"
    using key_edits [of B o0 h i t k p key mem] Cons.prems by (auto simp: s)
  have "2 * (length (fst (edit key s)) + length keys + 1) \<le> B" using Cons.prems(4) edit_length [of key s] by simp
  then show ?case using Cons.IH [OF q(2)] Cons.prems(2,3) q(1) by (auto simp: input_write_def run_all_append)
qed

text \<open>Only the new line ends the reading.\<close>

lemma grow_loop_reading: "grow_loop n mem p = Inr q \<Longrightarrow> pr_reading q = pr_reading p"
  by (induction n mem p rule: grow_loop.induct) (auto simp: expand_buffer_def Let_def split: if_splits)

lemma grow_reading: "grow mem p = Inr q \<Longrightarrow> pr_reading q = pr_reading p"
  unfolding grow_def by (rule grow_loop_reading)

lemma set_command_size_reading: "set_command_size mem n p = Inr q \<Longrightarrow> pr_reading q = pr_reading p"
  by (auto simp: set_command_size_def bindr_Inr_iff dest!: grow_reading)

lemma restore_command_reading: "restore_command mem cmd p = Inr q \<Longrightarrow> pr_reading q = pr_reading p"
  by (auto simp: restore_command_def Let_def bindr_Inr_iff split: if_splits dest!: set_command_size_reading)

lemma special_key_reading:
  assumes "special_key mem c p = Inr q" "c \<noteq> 10"
  shows "pr_reading q = pr_reading p"
  using assms by (auto simp: special_key_def Let_def bindr_Inr_iff option_case_iff split: if_splits dest!: set_command_size_reading restore_command_reading)

lemma insert_char_reading:
  assumes "insert_char mem c p = Inr q"
  shows "pr_reading q = pr_reading p"
  using assms by (auto simp: insert_char_def bindr_Inr_iff split: if_splits dest!: set_command_size_reading)

lemma input_put_reading:
  assumes "input_put mem c p = Inr q" "c \<noteq> 10"
  shows "pr_reading q = pr_reading p"
  using assms by (auto simp: input_put_def bindr_Inr_iff split: if_splits dest!: special_key_reading insert_char_reading)

lemma prompt_loop_write:
  "input_write mem cs p = Inr q \<Longrightarrow> 10 \<notin> set cs \<Longrightarrow> pr_reading p \<Longrightarrow> prompt_loop mem (cs @ r) p = prompt_loop mem r q"
proof (induction cs arbitrary: p)
  case Nil
  then show ?case by (simp add: input_write_def)
next
  case (Cons c cs)
  obtain p' where p': "input_put mem c p = Inr p'" "input_write mem cs p' = Inr q"
    using Cons.prems(1) by (auto simp: input_write_def bindr_Inr_iff)
  have "prompt_loop mem ((c # cs) @ r) p = prompt_loop mem (cs @ r) p'"
    using Cons.prems p'(1) by (subst prompt_loop.simps) simp
  then show ?case using Cons.IH [OF p'(2)] Cons.prems input_put_reading [OF p'(1)] by simp
qed

lemma enter_ends:
  assumes "line_state B o0 h i (t, k) p" "0 \<le> i" "i < 16" "length h = 16" "gives mem B"
  shows "input_put mem 10 p = Inr (p\<lparr>pr_reading := False, pr_history := h[nat i := Some t], pr_hptr := (i + 1) mod 16\<rparr>)"
    and "cstring (pr_buffer p) = Inr t"
proof -
  have e: "editing B h i t k p" and v: "\<forall>x \<in> set t. printable x" using assms by (simp_all add: line_state_def)
  have "0 \<notin> set t" using v printable_chars by blast
  then have "takeWhile (\<lambda>c. c \<noteq> 0) (t @ 0 # r) = t" for r
    by (induction t) auto
  then show b: "cstring (pr_buffer p) = Inr t" using e by (auto simp: editing_def cstring_def)
  have "nat i < length h" using assms(2-4) by simp
  moreover have "mem (length t + 1) \<noteq> None" using e assms(5) by (auto simp: editing_def gives_def)
  ultimately show "input_put mem 10 p = Inr (p\<lparr>pr_reading := False, pr_history := h[nat i := Some t], pr_hptr := (i + 1) mod 16\<rparr>)"
    using e b by (simp add: input_put_def editing_def special_key_def save_command_def word_sless_alt)
qed

lemma key_bytes_no_enter: "\<forall>key \<in> set keys. typeable key \<Longrightarrow> 10 \<notin> set (concat (map key_bytes keys))"
proof (induction keys)
  case (Cons key keys)
  then show ?case using printable_chars by (cases key) auto
qed simp

lemma line_edited:
  assumes "length (pr_history p) = 16" "0 \<le> pr_hptr p" "pr_hptr p < 16" "\<forall>key \<in> set keys. typeable key" "gives mem (2 * length keys + 128)"
  shows "case fold edit keys ([], 0) of (t, k) \<Rightarrow> \<exists>buf q. run_prompt mem (concat (map key_bytes keys) @ 10 # rest) p = Inr (buf, rest, q) \<and>
    cstring buf = Inr t \<and> pr_history q = (pr_history p)[nat (pr_hptr p) := Some t] \<and> pr_hptr q = (pr_hptr p + 1) mod 16 \<and>
    shown (pr_out p) q (cells t) k"
proof -
  let ?B = "2 * length keys + 128"
  obtain t k where tk: "fold edit keys ([], 0) = (t, k)" by (cases "fold edit keys ([], 0)")
  have "mem 128 \<noteq> None" using assms(5) by (simp add: gives_def)
  then obtain p0 where p0: "prompt_start mem p = Inr p0" and start: "line_state ?B (pr_out p) (pr_history p) (pr_hptr p) ([], 0) p0"
    by (auto simp: line_state_def editing_def prompt_start_def shown_def whole_def cells_def fun_eq_iff eval_nat_numeral intro: exI [of _ "[]"])
  obtain q where q: "input_write mem (concat (map key_bytes keys)) p0 = Inr q" "line_state ?B (pr_out p) (pr_history p) (pr_hptr p) (t, k) q"
    using keys_edit [OF start assms(4,5)] tk by auto
  note enter = enter_ends [OF q(2) assms(2,3,1,5)]
  let ?q = "q\<lparr>pr_reading := False, pr_history := (pr_history p)[nat (pr_hptr p) := Some t], pr_hptr := (pr_hptr p + 1) mod 16\<rparr>"
  have "prompt_loop mem (10 # rest) q = prompt_loop mem rest ?q"
    using flag_edits(1) [OF q(2)] enter(1) by (subst prompt_loop.simps) simp
  then have "run_prompt mem (concat (map key_bytes keys) @ 10 # rest) p = prompt_loop mem rest ?q"
    unfolding run_prompt_def p0 using prompt_loop_write [OF q(1) key_bytes_no_enter [OF assms(4)]] flag_edits(1) [OF start] by simp
  moreover have "prompt_loop mem rest ?q = Inr (pr_buffer q, rest, ?q)" by (subst prompt_loop.simps) simp
  moreover have "shown (pr_out p) ?q (cells t) k" using q(2) by (auto simp: line_state_def shown_def)
  ultimately show ?thesis using enter(2) tk by simp
qed

text \<open>C12: The line editor does what the keys say. Let at most \<open>2 ^ 30 - 64\<close> printable characters, cursor keys and backspaces be typed, and let the
  allocations of up to 128 bytes and two for every key succeed. Then the shell receives the text that inserting and deleting at the cursor gives, as a
  string that ends in the buffer; the bytes after the new line are left for the next reader, the text is the new entry of the history, and the line on the
  screen is the text, with the cursor at its place. Sizes and cursors are 32 bits wide here as in the code, which does not finish a line that fills
  a buffer of \<open>2 ^ 31\<close> bytes and writes through a null pointer when the memory is used up.\<close>

theorem line_editor_edits:
  assumes "length (pr_history p) = 16" "0 \<le> pr_hptr p" "pr_hptr p < 16" "\<forall>key \<in> set keys. typeable key"
    and "length keys + 64 \<le> 2 ^ 30" "\<forall>n. 0 < n \<and> n \<le> 2 * length keys + 128 \<longrightarrow> mem n \<noteq> None"
  shows "case fold edit keys ([], 0) of (t, k) \<Rightarrow> \<exists>buf q. run_prompt mem (concat (map key_bytes keys) @ 10 # rest) p = Inr (buf, rest, q) \<and>
    cstring buf = Inr t \<and> pr_history q = (pr_history p)[nat (pr_hptr p) := Some t] \<and> pr_hptr q = (pr_hptr p + 1) mod 16 \<and>
    shown (pr_out p) q (cells t) k"
proof -
  have "gives mem (2 * length keys + 128)" using assms(5,6) by (simp add: gives_def)
  from line_edited [OF assms(1-4) this] show ?thesis .
qed

definition fresh_prompt :: prompt where
  "fresh_prompt = \<lparr>pr_reading = False, pr_cursor = 0, pr_fdcursor = 0, pr_esc = False, pr_csi = False, pr_buffer = [], pr_capacity = 128, pr_size = 0,
     pr_history = replicate 16 None, pr_hptr = 0, pr_hsel = - 1, pr_out = []\<rparr>"

theorem line_editor_edits_witness:
  "\<exists>buf q. run_prompt (\<lambda>n. if n \<le> 4096 then Some (\<lambda>_. 7) else None) ([108, 120] @ [8] @ [27, 0x5b, 0x44] @ [97] @ 10 # [99]) fresh_prompt = Inr (buf, [99], q) \<and>
     cstring buf = Inr [97, 108] \<and> pr_hptr q = 1 \<and> shown [] q (cells [97, 108]) 1"
  using line_editor_edits [of fresh_prompt "[Type 108, Type 120, Backspace, Go_Left, Type 97]" "\<lambda>n. if n \<le> 4096 then Some (\<lambda>_. 7) else None" "[99]"]
  by (auto simp: fresh_prompt_def printable_def)

text \<open>An entry of the history that is longer than the first buffer is written behind it: \<open>set_command_size\<close> puts the terminator before the
  buffer has grown.\<close>

lemma long_history_overruns_buffer:
  assumes "pr_history p = replicate 15 None @ [Some cmd]" "pr_hptr p = 0" "128 \<le> length cmd" "prompt_start mem p = Inr q"
  shows "input_write mem [27, 0x5b, 0x41] q = Inl Fault"
  using assms by (auto simp: input_write_def input_put_def special_key_def prompt_start_def restore_command_def set_command_size_def Let_def nth_append
      split: if_splits)

end
