(* ===== verification/Libc.thy ===== *)
theory Libc
  imports Proc_Manager
begin

text \<open>
  The C library of user programs (\<open>user/libc/src/main.cpp\<close>): the wrappers of the system calls with \<open>errno\<close>, the argument lists that a
  program hands to the next one, and the start of a program. The system call instruction is a parameter \<open>sys\<close>: the number and three
  words to a word, on the state \<open>'k\<close> of the rest of the machine. The calls that pass lists of strings take the lists themselves; a
  pointer to a string is its index in the table it lies in. The heap is the one of theory Heap; here \<open>avail n\<close> says whether
  \<open>malloc\<close> returns a block of \<open>n\<close> bytes, and \<open>junk\<close> is what is in it.
\<close>

type_synonym 'k sys = "u32 \<Rightarrow> u32 \<Rightarrow> u32 \<Rightarrow> u32 \<Rightarrow> 'k \<Rightarrow> u32 \<times> 'k"

record 'k libc =
  lb_errno :: int
  lb_kernel :: 'k

definition kernel_syscall :: "'k sys \<Rightarrow> u32 \<Rightarrow> u32 \<Rightarrow> u32 \<Rightarrow> u32 \<Rightarrow> 'k libc \<Rightarrow> int \<times> 'k libc" where
  "kernel_syscall sys a b c d s = (let (r, k) = sys a b c d (lb_kernel s) in (sint r, s\<lparr>lb_kernel := k\<rparr>))"

definition set_errno :: "int \<Rightarrow> 'k libc \<Rightarrow> bool \<times> 'k libc" where
  "set_errno value s = (if value < 0 then (True, s\<lparr>lb_errno := - value\<rparr>) else (False, s))"

text \<open>The form of most wrappers: \<open>_set_errno (ret) ? -1 : ret\<close>.\<close>

definition checked :: "int \<times> 'k libc \<Rightarrow> int \<times> 'k libc" where
  "checked = (\<lambda>(ret, s). let (e, s) = set_errno ret s in (if e then - 1 else ret, s))"

definition libc_brk where "libc_brk sys brk s = checked (kernel_syscall sys 0x1000 brk 0 0 s)"
definition libc_sbrk where "libc_sbrk sys n s = kernel_syscall sys 0x1001 n 0 0 s"
definition libc_close where "libc_close sys fd s = (let (ret, s) = kernel_syscall sys 0x03 fd 0 0 s; (e, s) = set_errno ret s in (if e then - 1 else 0 :: int, s))"
definition libc_read where "libc_read sys fd buf n s = checked (kernel_syscall sys 0x00 fd buf n s)"
definition libc_write where "libc_write sys fd buf n s = checked (kernel_syscall sys 0x01 fd buf n s)"
definition libc_lseek where "libc_lseek sys fd offset whence s = checked (kernel_syscall sys 0x04 fd offset whence s)"
definition libc_pipe where "libc_pipe sys fds s = checked (kernel_syscall sys 0x05 fds 0 0 s)"
definition libc_dup where "libc_dup sys fd s = checked (kernel_syscall sys 0x06 fd 0 0 s)"
definition libc_dup2 where "libc_dup2 sys fd fd2 s = checked (kernel_syscall sys 0x07 fd fd2 0 s)"
definition libc_open where "libc_open sys path oflags s = checked (kernel_syscall sys 0x02 path oflags 0 s)"
definition libc_fork where "libc_fork sys s = checked (kernel_syscall sys 0x08 0 0 0 s)"
definition libc_poll where "libc_poll sys fds n timeout s = checked (kernel_syscall sys 0x09 fds n timeout s)"
definition libc_exec where "libc_exec sys path s = checked (kernel_syscall sys 0x0a path 0 0 s)"
definition libc_waitpid where "libc_waitpid sys pid stat_loc options s = checked (kernel_syscall sys 0x0b pid stat_loc options s)"

text \<open>After \<open>exit\<close> the program waits for ever, should the kernel return.\<close>

definition libc_exit :: "'k sys \<Rightarrow> u32 \<Rightarrow> 'k libc \<Rightarrow> 'k libc result" where
  "libc_exit sys status s = (let (ret, s) = kernel_syscall sys 0xff status 0 0 s in Inl Hang)"

text \<open>\<open>ioctl\<close> asks the kernel how many arguments the request has and copies as many to an array of 16. \<open>ctl\<close> is the system call with a null
  pointer or the array, \<open>va\<close> the arguments of the caller.\<close>

definition libc_ioctl :: "(u32 \<Rightarrow> u32 \<Rightarrow> u32 list option \<Rightarrow> 'k \<Rightarrow> u32 \<times> 'k) \<Rightarrow> u32 \<Rightarrow> u32 \<Rightarrow> u32 list \<Rightarrow> 'k libc \<Rightarrow> (int \<times> 'k libc) result" where
  "libc_ioctl ctl fd request va s = (let (count, k) = ctl fd request None (lb_kernel s) in
     bindr (run_all (\<lambda>args i. bindr (nth_r va i) (upd_r args i)) (replicate 16 0) [0..<nat (sint count)]) (\<lambda>args.
       let (ret, k) = ctl fd request (Some args) k in Inr (checked (sint ret, s\<lparr>lb_kernel := k\<rparr>))))"

subsection \<open>Argument lists\<close>

text \<open>The system calls on the lists of a process, as the kernel offers them.\<close>

record 'k list_calls =
  lk_save :: "bool \<Rightarrow> string list \<Rightarrow> 'k \<Rightarrow> int \<times> 'k"
  lk_restore :: "bool \<Rightarrow> bool \<Rightarrow> 'k \<Rightarrow> int \<times> string \<times> 'k"

definition libc_savelist :: "'k list_calls \<Rightarrow> bool \<Rightarrow> string list \<Rightarrow> 'k libc \<Rightarrow> int \<times> 'k libc" where
  "libc_savelist ks env xs s = (let (ret, k) = lk_save ks env xs (lb_kernel s) in checked (ret, s\<lparr>lb_kernel := k\<rparr>))"

text \<open>With a null pointer, or to a buffer: then what was there from its start is overwritten.\<close>

definition libc_restorelist :: "'k list_calls \<Rightarrow> bool \<Rightarrow> string option \<Rightarrow> 'k libc \<Rightarrow> (int \<times> string option \<times> 'k libc) result" where
  "libc_restorelist ks env dst s = (case dst of
     None \<Rightarrow> let (ret, _, k) = lk_restore ks env True (lb_kernel s); (ret, s) = checked (ret, s\<lparr>lb_kernel := k\<rparr>) in Inr (ret, None, s)
   | Some buf \<Rightarrow> let (ret, bytes, k) = lk_restore ks env False (lb_kernel s) in bindr (poke buf 0 bytes) (\<lambda>buf.
       let (ret, s) = checked (ret, s\<lparr>lb_kernel := k\<rparr>) in Inr (ret, Some buf, s)))"

abbreviation NUL :: char where "NUL \<equiv> CHR 0x00"

text \<open>The loops that count the strings of the table and that store where each begins.\<close>

fun count_strings :: "char \<Rightarrow> string \<Rightarrow> nat" where
  "count_strings prevc [] = 0"
| "count_strings prevc (c # cs) = (if prevc = NUL \<and> c \<noteq> NUL then 1 else 0) + count_strings c cs"

fun fill_list :: "char \<Rightarrow> nat \<Rightarrow> nat \<Rightarrow> string \<Rightarrow> nat option list \<Rightarrow> nat option list result" where
  "fill_list prevc i idx [] l = Inr l"
| "fill_list prevc i idx (c # cs) l = (if prevc = NUL \<and> c \<noteq> NUL then bindr (upd_r l idx (Some i)) (fill_list c (i + 1) (idx + 1) cs)
     else fill_list c (i + 1) idx cs l)"

record alloc_env =
  av_block :: "nat \<Rightarrow> bool"
  av_bytes :: "nat \<Rightarrow> char"
  av_ptrs :: "nat \<Rightarrow> nat option"

definition remakelist :: "'k list_calls \<Rightarrow> alloc_env \<Rightarrow> bool \<Rightarrow> 'k libc \<Rightarrow> (string \<times> nat option list \<times> 'k libc) result" where
  "remakelist ks av env s = bindr (libc_restorelist ks env None s) (\<lambda>(ret, _, s). let n = unat (word_of_int ret :: u32) in
     if n = 0 then (if av_block av 4 then Inr ([], [None], s) else Inl Fault)
     else if \<not> av_block av n then Inl Fault
     else bindr (libc_restorelist ks env (Some (map (av_bytes av) [0..<n])) s) (\<lambda>(_, strtab, s).
       let tab = the strtab; count = count_strings NUL tab in
       if \<not> av_block av (4 * (count + 1)) then Inl Fault
       else bindr (upd_r (map (av_ptrs av) [0..<count + 1]) count None) (\<lambda>l.
         bindr (fill_list NUL 0 0 tab l) (\<lambda>l. Inr (tab, l, s)))))"

text \<open>The loop that counts the arguments up to the null pointer.\<close>

fun count_args :: "nat option list \<Rightarrow> nat \<Rightarrow> nat result" where
  "count_args [] n = Inl Fault"
| "count_args (a # as) n = (case a of None \<Rightarrow> Inr n | Some _ \<Rightarrow> count_args as (n + 1))"

record started =
  st_argtab :: string
  st_argv :: "nat option list"
  st_argc :: nat
  st_envtab :: string
  st_environ :: "nat option list"

definition init_libc :: "'k list_calls \<Rightarrow> alloc_env \<Rightarrow> 'k libc \<Rightarrow> (started \<times> 'k libc) result" where
  "init_libc ks av s = bindr (remakelist ks av False s) (\<lambda>(argtab, argv, s). bindr (count_args argv 0) (\<lambda>argc.
     bindr (remakelist ks av True s) (\<lambda>(envtab, environ, s).
       Inr (\<lparr>st_argtab = argtab, st_argv = argv, st_argc = argc, st_envtab = envtab, st_environ = environ\<rparr>, s))))"

text \<open>\<open>execve\<close> and \<open>execv\<close>; \<open>exec\<close> is the system call. They return no value although their type says \<open>int\<close>.\<close>

definition libc_execve :: "'k list_calls \<Rightarrow> 'k sys \<Rightarrow> u32 \<Rightarrow> string list \<Rightarrow> string list \<Rightarrow> 'k libc \<Rightarrow> 'k libc" where
  "libc_execve ks sys path argv envp s = (let (_, s) = libc_savelist ks False argv s; (_, s) = libc_savelist ks True envp s;
     (_, s) = libc_exec sys path s in s)"

definition libc_execv :: "'k list_calls \<Rightarrow> 'k sys \<Rightarrow> string list \<Rightarrow> u32 \<Rightarrow> string list \<Rightarrow> 'k libc \<Rightarrow> 'k libc" where
  "libc_execv ks sys environ path argv s = libc_execve ks sys path argv environ s"

text \<open>The arguments of \<open>execl\<close> and \<open>execle\<close> up to a null pointer, at most 64; what is left of them.\<close>

abbreviation MAX_EXECL_ARGS :: nat where "MAX_EXECL_ARGS \<equiv> 64"

fun take_args :: "nat \<Rightarrow> 'a option list \<Rightarrow> ('a list \<times> 'a option list) result" where
  "take_args 0 va = Inr ([], va)"
| "take_args (Suc n) [] = Inl Fault"
| "take_args (Suc n) (a # va) = (case a of None \<Rightarrow> Inr ([], va) | Some x \<Rightarrow> bindr (take_args n va) (\<lambda>(xs, va). Inr (x # xs, va)))"

definition libc_execl :: "'k list_calls \<Rightarrow> 'k sys \<Rightarrow> string list \<Rightarrow> u32 \<Rightarrow> string option list \<Rightarrow> 'k libc \<Rightarrow> 'k libc result" where
  "libc_execl ks sys environ path va s = bindr (take_args MAX_EXECL_ARGS va) (\<lambda>(argv, _). Inr (libc_execv ks sys environ path argv s))"

text \<open>The argument after the null pointer is the environment.\<close>

definition libc_execle :: "'k list_calls \<Rightarrow> 'k sys \<Rightarrow> u32 \<Rightarrow> (string + string list) option list \<Rightarrow> 'k libc \<Rightarrow> 'k libc result" where
  "libc_execle ks sys path va s = bindr (take_args MAX_EXECL_ARGS va) (\<lambda>(argv, rest). case rest of
     Some (Inr envp) # _ \<Rightarrow> Inr (libc_execve ks sys path (map projl argv) envp s) | _ \<Rightarrow> Inl Fault)"

subsection \<open>Where strings begin\<close>

fun string_starts :: "char \<Rightarrow> nat \<Rightarrow> string \<Rightarrow> nat list" where
  "string_starts prevc i [] = []"
| "string_starts prevc i (c # cs) = (if prevc = NUL \<and> c \<noteq> NUL then i # string_starts c (i + 1) cs else string_starts c (i + 1) cs)"

lemma count_strings_starts: "count_strings prevc tab = length (string_starts prevc i tab)"
  by (induction prevc i tab rule: string_starts.induct) simp_all

lemma fill_list_starts:
  "fill_list prevc i (length done) tab (map Some done @ todo @ [None]) = Inr (map Some (done @ string_starts prevc i tab) @ [None])"
  if "length todo = length (string_starts prevc i tab)" for "done" todo
  using that
proof (induction prevc i tab arbitrary: "done" todo rule: string_starts.induct)
  case (1 prevc i)
  then show ?case by simp
next
  case (2 prevc i c cs)
  show ?case
  proof (cases "prevc = NUL \<and> c \<noteq> NUL")
    case True
    then obtain t ts where todo: "todo = t # ts" using 2(3) by (cases todo) auto
    have "fill_list c (i + 1) (length (done @ [i])) cs (map Some (done @ [i]) @ ts @ [None])
        = Inr (map Some ((done @ [i]) @ string_starts c (i + 1) cs) @ [None])"
      using 2(1) [OF True, of ts "done @ [i]"] 2(3) True todo by simp
    then show ?thesis using True by (simp add: todo list_update_append)
  next
    case False
    then have "\<not> (prevc = NUL \<and> c \<noteq> NUL)" "string_starts prevc i (c # cs) = string_starts c (i + 1) cs" by auto
    then show ?thesis using 2(2) [OF False, of todo "done"] 2(3) by (simp only: fill_list.simps if_False)
  qed
qed

lemma starts_of_string: "NUL \<notin> set s \<Longrightarrow> string_starts prevc i (s @ NUL # tab) = (if prevc = NUL \<and> s \<noteq> [] then [i] else []) @ string_starts NUL (i + length s + 1) tab"
proof (induction s arbitrary: prevc i)
  case Nil
  then show ?case by simp
next
  case (Cons c s)
  then show ?case by (auto simp: Cons.IH)
qed

definition arg_string :: "string \<Rightarrow> nat \<Rightarrow> string" where
  "arg_string tab i = takeWhile (\<lambda>c. c \<noteq> NUL) (drop i tab)"

lemma starts_of_strings:
  "\<forall>x \<in> set xs. NUL \<notin> set x \<Longrightarrow> map (arg_string (pre @ list_bytes xs)) (string_starts NUL (length pre) (list_bytes xs)) = filter (\<lambda>s. s \<noteq> []) xs"
proof (induction xs arbitrary: pre)
  case Nil
  then show ?case by (simp add: list_bytes_def)
next
  case (Cons x xs)
  have b: "list_bytes (x # xs) = x @ NUL # list_bytes xs" by (simp add: list_bytes_def)
  have "takeWhile (\<lambda>c. c \<noteq> NUL) (x @ NUL # list_bytes xs) = x" using Cons.prems by (simp add: takeWhile_tail) (metis takeWhile_eq_all_conv)
  then show ?case using Cons.IH [of "pre @ x @ [NUL]"] Cons.prems by (simp add: b starts_of_string arg_string_def)
qed

lemma count_args_all: "count_args (map Some l @ [None]) n = Inr (n + length l)"
  by (induction l arbitrary: n) simp_all

subsection \<open>From one program to the next\<close>

text \<open>What the library relies on: a list that was saved is there until it is fetched, the size is told before, and the two lists do not mix.\<close>

locale list_store =
  fixes ks :: "'k list_calls" and holds :: "bool \<Rightarrow> string list \<Rightarrow> 'k \<Rightarrow> bool" and fits :: "string list \<Rightarrow> bool"
  assumes save_law: "fits xs \<Longrightarrow> \<exists>r k'. lk_save ks env xs k = (r, k') \<and> 0 \<le> r \<and> holds env xs k' \<and> (\<forall>ys. holds (\<not> env) ys k \<longrightarrow> holds (\<not> env) ys k')"
    and size_law: "holds env xs k \<Longrightarrow> fits xs \<Longrightarrow> \<exists>b. lk_restore ks env True k = (int (length (list_bytes xs)), b, k)"
    and fetch_law: "holds env xs k \<Longrightarrow> fits xs \<Longrightarrow> \<exists>r k'. lk_restore ks env False k = (r, list_bytes xs, k') \<and> 0 \<le> r \<and> holds env [] k' \<and>
      (\<forall>ys. holds (\<not> env) ys k \<longrightarrow> holds (\<not> env) ys k')"
    and fits_size: "fits xs \<Longrightarrow> length (list_bytes xs) < 2147483648"
begin

lemma saved:
  assumes "fits xs"
  shows "\<exists>r k. libc_savelist ks env xs s = (r, s\<lparr>lb_kernel := k\<rparr>) \<and> holds env xs k \<and> (\<forall>ys. holds (\<not> env) ys (lb_kernel s) \<longrightarrow> holds (\<not> env) ys k)"
  using save_law [OF assms, of env "lb_kernel s"] by (auto simp: libc_savelist_def checked_def set_errno_def)

lemma remade:
  assumes "holds env xs (lb_kernel s)" "fits xs" "\<forall>x \<in> set xs. NUL \<notin> set x" "\<forall>n. av_block av n"
  shows "\<exists>tab l k. remakelist ks av env s = Inr (tab, map Some l @ [None], s\<lparr>lb_kernel := k\<rparr>) \<and> map (arg_string tab) l = filter (\<lambda>s. s \<noteq> []) xs \<and>
    (\<forall>ys. holds (\<not> env) ys (lb_kernel s) \<longrightarrow> holds (\<not> env) ys k)"
proof -
  let ?n = "length (list_bytes xs)"
  have q: "libc_restorelist ks env None s = Inr (int ?n, None, s)"
    using size_law [OF assms(1,2)] by (auto simp: libc_restorelist_def checked_def set_errno_def)
  have n: "unat (word_of_int (int ?n) :: u32) = ?n" using fits_size [OF assms(2)] unat_of_nat32 [of ?n] by simp
  show ?thesis
  proof (cases "?n = 0")
    case True
    then have e: "xs = []" by (cases xs) (simp_all add: list_bytes_def)
    have "remakelist ks av env s = Inr ([], map Some [] @ [None], s\<lparr>lb_kernel := lb_kernel s\<rparr>)"
      using q n True assms(4) by (simp add: remakelist_def)
    then show ?thesis using e by (intro exI [of _ "[]"] exI [of _ "lb_kernel s"]) simp
  next
    case False
    obtain r k where f: "lk_restore ks env False (lb_kernel s) = (r, list_bytes xs, k)" "0 \<le> r" "\<forall>ys. holds (\<not> env) ys (lb_kernel s) \<longrightarrow> holds (\<not> env) ys k"
      using fetch_law [OF assms(1,2)] by blast
    have g: "libc_restorelist ks env (Some (map (av_bytes av) [0..<?n])) s = Inr (r, Some (list_bytes xs), s\<lparr>lb_kernel := k\<rparr>)"
      using f by (simp add: libc_restorelist_def checked_def set_errno_def)
    let ?l = "string_starts NUL 0 (list_bytes xs)"
    have c: "count_strings NUL (list_bytes xs) = length ?l" by (rule count_strings_starts)
    have u: "upd_r (map (av_ptrs av) [0..<length ?l + 1]) (length ?l) None = Inr (map (av_ptrs av) [0..<length ?l] @ [None])"
      by (simp add: list_update_append)
    have "fill_list NUL 0 0 (list_bytes xs) (map (av_ptrs av) [0..<length ?l] @ [None]) = Inr (map Some ?l @ [None])"
      using fill_list_starts [of "map (av_ptrs av) [0..<length ?l]" NUL 0 "list_bytes xs" "[]"] by simp
    then have "remakelist ks av env s = Inr (list_bytes xs, map Some ?l @ [None], s\<lparr>lb_kernel := k\<rparr>)"
      using q n False g c u assms(4) by (simp add: remakelist_def Let_def del: upt_Suc)
    moreover have "map (arg_string (list_bytes xs)) ?l = filter (\<lambda>s. s \<noteq> []) xs" using starts_of_strings [OF assms(3), of "[]"] by simp
    ultimately show ?thesis using f(3) by blast
  qed
qed

end

abbreviation kernel_lists :: "process list_calls" where
  "kernel_lists \<equiv> \<lparr>lk_save = sys_savelist, lk_restore = sys_restorelist\<rparr>"

interpretation lists: list_store kernel_lists "\<lambda>env xs p. get_list env p = xs" "\<lambda>xs. length (list_bytes xs) < 2147483648"
proof (unfold_locales, goal_cases)
  case (1 xs env k)
  then show ?case by (simp add: sys_savelist_def get_list_def put_list_def)
next
  case (2 env xs k)
  then have "unat (of_nat (length (list_bytes xs)) :: u32) = length (list_bytes xs)" by (intro unat_of_nat32) simp
  then have "sint (of_nat (length (list_bytes xs)) :: u32) = int (length (list_bytes xs))" using 2(2) by (subst sint_small) simp_all
  then show ?case using 2 by (simp add: sys_restorelist_def list_size_length)
next
  case (3 env xs k)
  then show ?case by (simp add: sys_restorelist_def get_list_def put_list_def)
next
  case (4 xs)
  then show ?case .
qed

text \<open>C20: a program gets the arguments and the environment it was started with. What \<open>execve\<close> hands to the kernel and the start of the next
  program fetches are the same strings in the same order, each ended in its table, with the null pointer behind the last and the count that
  \<open>main\<close> receives, except that empty strings are left out.\<close>

theorem program_gets_arguments:
  assumes "\<forall>x \<in> set argv. NUL \<notin> set x" "\<forall>x \<in> set envp. NUL \<notin> set x"
    and "length (list_bytes argv) < 2147483648" "length (list_bytes envp) < 2147483648" "\<forall>n. av_block av n"
    and "lb_kernel s1 = lb_kernel (snd (libc_savelist kernel_lists True envp (snd (libc_savelist kernel_lists False argv s))))"
  shows "\<exists>p s2 args envs. init_libc kernel_lists av s1 = Inr (p, s2) \<and> st_argv p = map Some args @ [None] \<and> st_environ p = map Some envs @ [None] \<and>
    st_argc p = length args \<and> map (arg_string (st_argtab p)) args = filter (\<lambda>s. s \<noteq> []) argv \<and> map (arg_string (st_envtab p)) envs = filter (\<lambda>s. s \<noteq> []) envp"
proof -
  have k: "get_list False (lb_kernel s1) = argv" "get_list True (lb_kernel s1) = envp"
    using lists.saved [OF assms(3), where env = False and s = s] lists.saved [OF assms(4), where env = True and s = "snd (libc_savelist kernel_lists False argv s)"] assms(6) by auto
  obtain tab1 l1 k1 where r1: "remakelist kernel_lists av False s1 = Inr (tab1, map Some l1 @ [None], s1\<lparr>lb_kernel := k1\<rparr>)"
    "map (arg_string tab1) l1 = filter (\<lambda>s. s \<noteq> []) argv" "get_list True k1 = envp"
    using lists.remade [where env = False and xs = argv and s = s1 and av = av] k assms(1,3,5) by auto
  obtain tab2 l2 k2 where r2: "remakelist kernel_lists av True (s1\<lparr>lb_kernel := k1\<rparr>) = Inr (tab2, map Some l2 @ [None], s1\<lparr>lb_kernel := k2\<rparr>)"
    "map (arg_string tab2) l2 = filter (\<lambda>s. s \<noteq> []) envp"
    using lists.remade [where env = True and xs = envp and s = "s1\<lparr>lb_kernel := k1\<rparr>" and av = av] r1(3) assms(2,4,5) by auto
  show ?thesis using r1 r2 by (simp add: init_libc_def count_args_all)
qed

definition all_blocks :: alloc_env where
  "all_blocks = \<lparr>av_block = (\<lambda>_. True), av_bytes = (\<lambda>_. CHR ''x''), av_ptrs = (\<lambda>_. None)\<rparr>"

lemma program_gets_arguments_witness:
  "\<exists>p s2 args envs. init_libc kernel_lists all_blocks \<lparr>lb_errno = 0, lb_kernel = put_list True [''A=1''] (put_list False [''ls'', [], ''-l''] (process_new 0 0))\<rparr> = Inr (p, s2) \<and>
    st_argv p = map Some args @ [None] \<and> st_environ p = map Some envs @ [None] \<and> st_argc p = length args \<and>
    map (arg_string (st_argtab p)) args = [''ls'', ''-l''] \<and> map (arg_string (st_envtab p)) envs = [''A=1'']"
  using program_gets_arguments [of "[''ls'', [], ''-l'']" "[''A=1'']" all_blocks
      "\<lparr>lb_errno = 0, lb_kernel = put_list True [''A=1''] (put_list False [''ls'', [], ''-l''] (process_new 0 0))\<rparr>" "\<lparr>lb_errno = 0, lb_kernel = process_new 0 0\<rparr>"]
  by (simp add: list_bytes_def all_blocks_def libc_savelist_def sys_savelist_def checked_def set_errno_def)

text \<open>An empty argument is lost and those behind it move up.\<close>

lemma empty_argument_is_lost:
  "case init_libc kernel_lists all_blocks \<lparr>lb_errno = 0, lb_kernel = put_list False [''grep'', [], ''f''] (process_new 0 0)\<rparr> of
     Inr (p, _) \<Rightarrow> st_argc p = 2 \<and> st_argv p = [Some 0, Some 6, None] | Inl _ \<Rightarrow> False"
  by code_simp

text \<open>With 64 arguments or more \<open>execle\<close> takes what is behind the 64th, here the null pointer, for the environment.\<close>

lemma execle_many_arguments: "libc_execle ks sys path (map (Some \<circ> Inl) (replicate 64 a) @ [None, Some (Inr envp)]) s = Inl Fault"
proof -
  have "take_args n (map (Some \<circ> Inl) (replicate n a) @ r) = Inr (replicate n (Inl a), r)" for n and r :: "(string + string list) option list"
    by (induction n) simp_all
  then show ?thesis by (simp add: libc_execle_def)
qed

text \<open>A request for which the kernel names more than 16 arguments writes behind the array.\<close>

lemma copy_overruns:
  fixes l va :: "'a list"
  assumes "length l < m" "m \<le> length va"
  shows "run_all (\<lambda>args i. bindr (nth_r va i) (upd_r args i)) l [0..<m] = Inl Fault"
proof -
  let ?f = "\<lambda>args i. bindr (nth_r va i) (upd_r args i)"
  have len: "run_all ?f l is = Inr b \<Longrightarrow> length b = length l" for l b "is"
    by (induction "is" arbitrary: l) (auto simp: bindr_Inr_iff upd_r_Inr)
  have fault: "run_all ?f l is = Inl e \<Longrightarrow> e = Fault" for e "is"
  proof (induction "is" arbitrary: l)
    case (Cons i "is")
    then show ?case by (cases "i < length va"; cases "i < length l") simp_all
  qed simp
  have "[0..<m] = [0..<length l] @ length l # [Suc (length l)..<m]"
    using assms(1) upt_add_eq_append [of 0 "length l" "m - length l"] by (simp add: upt_conv_Cons)
  then have e: "run_all ?f l [0..<m] = bindr (run_all ?f l [0..<length l]) (\<lambda>t. run_all ?f t (length l # [Suc (length l)..<m]))"
    by (simp only: run_all_append)
  then show ?thesis
  proof (cases "run_all ?f l [0..<length l]")
    case (Inl e)
    then show ?thesis using e fault [OF Inl] by simp
  next
    case (Inr b)
    then show ?thesis using e len [OF Inr] assms by simp
  qed
qed

lemma ioctl_overruns_arguments:
  assumes "ctl fd request None (lb_kernel s) = (c, k)" "16 < sint c" "sint c \<le> int (length va)"
  shows "libc_ioctl ctl fd request va s = Inl Fault"
proof -
  have "length (replicate 16 (0 :: u32)) < nat (sint c)" "nat (sint c) \<le> length va" using assms(2,3) by simp_all
  note f = copy_overruns [OF this]
  show ?thesis unfolding libc_ioctl_def assms(1) Let_def prod.case f bindr_simps by (rule refl)
qed

end
