(* ===== verification/Multiboot.thy ===== *)
theory Multiboot
  imports Ranges Bytes
begin

text \<open>
  What the kernel learns from the boot loader (\<open>kernel/src/boot/multiboot2.cpp\<close>, \<open>boot.cpp\<close>): the walk over the tags of the boot
  information, which fills the map of physical memory and keeps the name of the boot loader. \<open>info\<close> are the bytes of the boot information,
  which begins at the address \<open>base\<close>; reading outside of them faults.
\<close>

abbreviation MULTIBOOT2_BOOTLOADER_MAGIC :: u32 where "MULTIBOOT2_BOOTLOADER_MAGIC \<equiv> 0x36d76289"
abbreviation MULTIBOOT_TAG_ALIGN :: u32 where "MULTIBOOT_TAG_ALIGN \<equiv> 8"
abbreviation BOOTLOADER_NAME_MAX_SIZE :: nat where "BOOTLOADER_NAME_MAX_SIZE \<equiv> 128"

record boot =
  bt_map :: "phys_range list"
  bt_present :: bool
  bt_name :: "u8 list"

definition rd8 :: "u32 \<Rightarrow> u8 list \<Rightarrow> u32 \<Rightarrow> u8 result" where
  "rd8 base info a = nth_r info (unat (a - base))"

definition rd32 :: "u32 \<Rightarrow> u8 list \<Rightarrow> u32 \<Rightarrow> u32 result" where
  "rd32 base info a = (let i = unat (a - base) in if i + 4 \<le> length info then Inr (get32 info i) else Inl Fault)"

definition rd64 :: "u32 \<Rightarrow> u8 list \<Rightarrow> u32 \<Rightarrow> u64 result" where
  "rd64 base info a = bindr (rd32 base info a) (\<lambda>lo. bindr (rd32 base info (a + 4)) (\<lambda>hi. Inr (ucast lo OR push_bit 32 (ucast hi))))"

definition mem_type :: "u32 \<Rightarrow> phys_type" where
  "mem_type t = (if t = 1 then AVAILABLE else if t = 2 then RESERVED else if t = 3 then ACPI_RECLAIMABLE else if t = 4 then NVS
     else if t = 5 then BADRAM else BADRAM)"

text \<open>The loop over the entries of the memory map; the first argument bounds its rounds.\<close>

fun map_entries :: "nat \<Rightarrow> u32 \<Rightarrow> u8 list \<Rightarrow> u32 \<Rightarrow> u32 \<Rightarrow> u32 \<Rightarrow> boot \<Rightarrow> boot result" where
  "map_entries 0 base info esz lim ptr s = Inl Hang"
| "map_entries (Suc n) base info esz lim ptr s = (if ptr < lim then
       bindr (rd64 base info ptr) (\<lambda>addr. bindr (rd64 base info (ptr + 8)) (\<lambda>len. bindr (rd32 base info (ptr + 16)) (\<lambda>t.
         map_entries n base info esz lim (ptr + esz) (s\<lparr>bt_map := snd (phys_add_range (bt_map s) (mr_addr_size addr len) (mem_type t))\<rparr>))))
     else Inr s)"

text \<open>The entry size is read again in each round; nothing changes it.\<close>

definition handle_memory_tag :: "nat \<Rightarrow> u32 \<Rightarrow> u8 list \<Rightarrow> u32 \<Rightarrow> boot \<Rightarrow> boot result" where
  "handle_memory_tag n base info tag s = bindr (rd32 base info (tag + 4)) (\<lambda>sz. bindr (rd32 base info (tag + 8)) (\<lambda>esz.
     map_entries n base info esz (tag + sz) (tag + 16) s))"

text \<open>The copy of the name ends at its terminator or after 128 characters.\<close>

fun copy_name :: "nat \<Rightarrow> u32 \<Rightarrow> u8 list \<Rightarrow> u32 \<Rightarrow> nat \<Rightarrow> u8 list \<Rightarrow> u8 list result" where
  "copy_name 0 base info name i buf = Inr buf"
| "copy_name (Suc n) base info name i buf = bindr (rd8 base info (name + of_nat i)) (\<lambda>c. if c = 0 then Inr buf
     else bindr (upd_r buf i c) (copy_name n base info name (i + 1)))"

definition boot_set_name :: "u32 \<Rightarrow> u8 list \<Rightarrow> u32 \<Rightarrow> boot \<Rightarrow> boot result" where
  "boot_set_name base info name s = bindr (copy_name BOOTLOADER_NAME_MAX_SIZE base info name 0 (bt_name s)) (\<lambda>buf.
     bindr (upd_r buf BOOTLOADER_NAME_MAX_SIZE 0) (\<lambda>buf. Inr (s\<lparr>bt_name := buf, bt_present := True\<rparr>)))"

text \<open>No name is \<open>UNKOWN BOOTLOADER\<close>.\<close>

definition boot_get_name :: "boot \<Rightarrow> u8 list option" where
  "boot_get_name s = (if bt_present s then Some (takeWhile (\<lambda>c. c \<noteq> 0) (bt_name s)) else None)"

definition next_tag :: "u32 \<Rightarrow> u32 \<Rightarrow> u32" where
  "next_tag ptr sz = (let q = (ptr + sz) div MULTIBOOT_TAG_ALIGN * MULTIBOOT_TAG_ALIGN in if q \<noteq> ptr then q + MULTIBOOT_TAG_ALIGN else q)"

fun walk_tags :: "nat \<Rightarrow> u32 \<Rightarrow> u8 list \<Rightarrow> u32 \<Rightarrow> u32 \<Rightarrow> boot \<Rightarrow> boot result" where
  "walk_tags 0 base info lim ptr s = Inl Hang"
| "walk_tags (Suc n) base info lim ptr s = (if ptr < lim then bindr (rd32 base info ptr) (\<lambda>t.
       if t = 0 then Inr s
       else bindr (if t = 2 then boot_set_name base info (ptr + 8) s else if t = 6 then handle_memory_tag n base info ptr s else Inr s) (\<lambda>s.
         bindr (rd32 base info (ptr + 4)) (\<lambda>sz. walk_tags n base info lim (next_tag ptr sz) s)))
     else Inr s)"

declare walk_tags.simps [simp del]

definition multiboot2_init :: "nat \<Rightarrow> u32 \<Rightarrow> u32 \<Rightarrow> u8 list \<Rightarrow> boot \<Rightarrow> (bool \<times> boot) result" where
  "multiboot2_init n magic base info s = (if magic \<noteq> MULTIBOOT2_BOOTLOADER_MAGIC then Inr (False, s)
     else bindr (rd32 base info base) (\<lambda>total. bindr (walk_tags n base info (base + 8 + (total - 8)) (base + 8) s) (\<lambda>s. Inr (True, s))))"

definition boot_init :: "nat \<Rightarrow> u32 \<Rightarrow> u32 \<Rightarrow> u8 list \<Rightarrow> boot \<Rightarrow> boot result" where
  "boot_init n magic base info s = bindr (multiboot2_init n magic base info s) (\<lambda>(ok, s). if ok then Inr s else Inl Panic)"

subsection \<open>The layout of the boot information\<close>

datatype btag = Name "u8 list" | Other u32 "u8 list"

fun enc_tag :: "btag \<Rightarrow> u8 list" where
  "enc_tag (Name cs) = put32 2 @ put32 (of_nat (8 + length cs + 1)) @ cs @ [0]"
| "enc_tag (Other t xs) = put32 t @ put32 (of_nat (8 + length xs)) @ xs"

definition pad8 :: "u8 list \<Rightarrow> u8 list" where
  "pad8 b = b @ replicate (7 - (length b + 7) mod 8) 0"

record map_entry =
  me_addr :: u64
  me_len :: u64
  me_type :: u32

definition put64 :: "u64 \<Rightarrow> u8 list" where
  "put64 x = put32 (ucast x) @ put32 (ucast (drop_bit 32 x))"

definition enc_entry :: "map_entry \<Rightarrow> u8 list" where
  "enc_entry e = put64 (me_addr e) @ put64 (me_len e) @ put32 (me_type e) @ put32 0"

definition enc_map :: "map_entry list \<Rightarrow> u8 list" where
  "enc_map es = put32 6 @ put32 (of_nat (16 + 24 * length es)) @ put32 24 @ put32 0 @ concat (map enc_entry es)"

definition enc_info :: "btag list \<Rightarrow> map_entry list \<Rightarrow> u8 list" where
  "enc_info tags es = (let body = concat (map (pad8 \<circ> enc_tag) tags) @ enc_map es @ put32 0 @ put32 8 in
     put32 (of_nat (8 + length body)) @ put32 0 @ body)"

subsection \<open>Reading\<close>

lemma rd32_put:
  assumes "length xs < 4294967296"
  shows "rd32 base (xs @ put32 v @ ys) (base + of_nat (length xs)) = Inr v"
proof -
  have "unat (base + of_nat (length xs) - base) = length xs" using assms by (simp add: unat_of_nat32)
  then show ?thesis by (simp only: rd32_def Let_def) (simp add: get32_put)
qed

lemma rd8_at:
  assumes "length xs < 4294967296"
  shows "rd8 base (xs @ c # ys) (base + of_nat (length xs)) = Inr c"
proof -
  have "unat (base + of_nat (length xs) - base) = length xs" using assms by (simp add: unat_of_nat32)
  then show ?thesis by (simp only: rd8_def) simp
qed

lemma length_put64 [simp]: "length (put64 x) = 8"
  by (simp add: put64_def)

lemma join64: "(ucast (ucast (x :: u64) :: u32) OR push_bit 32 (ucast (ucast (drop_bit 32 x) :: u32)) :: u64) = x"
  by (intro bit_eqI) (auto simp: bit_simps)

lemma rd64_put:
  assumes "length xs < 4294967292"
  shows "rd64 base (xs @ put64 v @ ys) (base + of_nat (length xs)) = Inr v"
proof -
  have "base + of_nat (length xs) + 4 = base + of_nat (length (xs @ put32 (ucast v)))" by simp
  moreover have "rd32 base (xs @ put64 v @ ys) (base + of_nat (length (xs @ put32 (ucast v)))) = Inr (ucast (drop_bit 32 v))"
    using rd32_put [of "xs @ put32 (ucast v)" base "ucast (drop_bit 32 v)" ys] assms by (simp only: put64_def append_assoc) simp
  moreover have "rd32 base (xs @ put64 v @ ys) (base + of_nat (length xs)) = Inr (ucast v)"
    using rd32_put [of xs base "ucast v" "put32 (ucast (drop_bit 32 v)) @ ys"] assms by (simp add: put64_def)
  ultimately show ?thesis by (simp only: rd64_def bindr_simps join64)
qed

lemma pad8_length: "length (pad8 b) = 8 * ((length b + 7) div 8)" "8 dvd length (pad8 b)"
proof -
  show "length (pad8 b) = 8 * ((length b + 7) div 8)" unfolding pad8_def length_append length_replicate by presburger
  then show "8 dvd length (pad8 b)" by simp
qed

text \<open>Where the walk goes: to the next multiple of 8, and 8 bytes further when the size is one.\<close>

lemma next_tag_offset:
  assumes "8 dvd unat base" "8 dvd k" "unat base + k + n + 8 < 4294967296" "8 \<le> n"
  shows "next_tag (base + of_nat k) (of_nat n) = base + of_nat (k + 8 * (n div 8) + 8)"
proof -
  define b where "b = unat base + k"
  have b8: "8 dvd b" using assms(1,2) by (simp add: b_def)
  have u: "base + of_nat m = of_nat (unat base + m)" for m :: nat by simp
  obtain c where c: "b = 8 * c" using b8 by blast
  have q: "(b + n) div 8 * 8 = b + 8 * (n div 8)" unfolding c by simp
  have q8: "b + 8 * (n div 8) \<le> b + n" by simp
  have n8: "0 < n div 8" using assms(4) by (simp add: div_greater_zero_iff)
  then have q9: "b < b + 8 * (n div 8)" by simp
  define x where "x = (of_nat (b + n) :: u32)"
  have ux: "unat x = b + n" unfolding x_def by (rule unat_of_nat32) (use assms(3) b_def in linarith)
  have "x div 8 = of_nat ((b + n) div 8)" by (subst word_arith_nat_div) (simp add: ux)
  then have d: "x div 8 * 8 = of_nat (b + 8 * (n div 8))" unfolding q [symmetric] by simp
  have l: "b + n < 4294967296" using assms(3) unfolding b_def by linarith
  have l1: "unat (of_nat (b + 8 * (n div 8)) :: u32) = b + 8 * (n div 8)" by (rule unat_of_nat32) (use l q8 in linarith)
  have l2: "unat (of_nat b :: u32) = b" by (rule unat_of_nat32) (use l in linarith)
  have ne: "(of_nat (b + 8 * (n div 8)) :: u32) \<noteq> of_nat b"
  proof
    assume "(of_nat (b + 8 * (n div 8)) :: u32) = of_nat b"
    from arg_cong [OF this, of unat] show False unfolding l1 l2 using q9 by simp
  qed
  have p: "base + of_nat k = of_nat b" "of_nat b + of_nat n = x" by (simp_all add: b_def x_def)
  have "next_tag (base + of_nat k) (of_nat n) = of_nat (b + 8 * (n div 8)) + 8"
    unfolding next_tag_def Let_def p d using ne by (simp only: if_True if_False not_False_eq_True simp_thms)
  also have "\<dots> = base + of_nat (k + 8 * (n div 8) + 8)" by (simp add: b_def)
  finally show ?thesis .
qed

subsection \<open>What the walk gathers\<close>

lemma ptr_unat: "unat base + k < 4294967296 \<Longrightarrow> unat (base + of_nat k :: u32) = unat base + k"
  by (subst unat_add_small) (simp_all add: unat_of_nat32)

lemma ptr_less: "unat base + a < 4294967296 \<Longrightarrow> unat base + b < 4294967296 \<Longrightarrow> (base + of_nat a :: u32) < base + of_nat b \<longleftrightarrow> a < b"
  by (simp only: word_less_unat ptr_unat nat_add_left_cancel_less)

definition known_range :: "map_entry \<Rightarrow> phys_range" where
  "known_range e = \<lparr>ph_range = mr_addr_size (me_addr e) (me_len e), ph_type = mem_type (me_type e)\<rparr>"

lemma add_range_take: "length m \<le> 32 \<Longrightarrow> snd (phys_add_range m r t) = take 32 (m @ [\<lparr>ph_range = r, ph_type = t\<rparr>])"
  by (cases "length m = 32") (simp_all add: phys_add_range_def)

lemma length_enc_entry: "length (enc_entry e) = 24"
  by (simp add: enc_entry_def)

lemma length_enc_entries: "length (concat (map enc_entry es)) = 24 * length es"
  by (induction es) (simp_all add: length_enc_entry)

lemma map_entries_read:
  "length es < n \<Longrightarrow> unat base + length pre + 24 * length es < 4294967290 \<Longrightarrow> length (bt_map s) \<le> 32 \<Longrightarrow>
    map_entries n base (pre @ concat (map enc_entry es) @ post) 24 (base + of_nat (length pre + 24 * length es)) (base + of_nat (length pre)) s
      = Inr (s\<lparr>bt_map := take 32 (bt_map s @ map known_range es)\<rparr>)"
proof (induction es arbitrary: pre s n)
  case Nil
  then show ?case by (cases n) simp_all
next
  case (Cons e es)
  obtain m where n: "n = Suc m" "length es < m" using Cons.prems(1) by (cases n) auto
  let ?rest = "concat (map enc_entry es) @ post"
  let ?info = "pre @ concat (map enc_entry (e # es)) @ post"
  have i1: "?info = pre @ put64 (me_addr e) @ (put64 (me_len e) @ put32 (me_type e) @ put32 0 @ ?rest)"
    and i2: "?info = (pre @ put64 (me_addr e)) @ put64 (me_len e) @ (put32 (me_type e) @ put32 0 @ ?rest)"
    and i3: "?info = (pre @ put64 (me_addr e) @ put64 (me_len e)) @ put32 (me_type e) @ (put32 0 @ ?rest)"
    and i4: "?info = (pre @ enc_entry e) @ concat (map enc_entry es) @ post" by (simp_all add: enc_entry_def)
  have small: "length pre + 24 < 4294967290" using Cons.prems(2) by simp
  have r1: "rd64 base ?info (base + of_nat (length pre)) = Inr (me_addr e)"
    unfolding i1 by (rule rd64_put) (use small in linarith)
  have "rd64 base ?info (base + of_nat (length (pre @ put64 (me_addr e)))) = Inr (me_len e)"
    unfolding i2 by (rule rd64_put) (use small in simp)
  then have r2: "rd64 base ?info (base + of_nat (length pre) + 8) = Inr (me_len e)" by (simp add: ac_simps)
  have "rd32 base ?info (base + of_nat (length (pre @ put64 (me_addr e) @ put64 (me_len e)))) = Inr (me_type e)"
    unfolding i3 by (rule rd32_put) (use small in simp)
  then have r3: "rd32 base ?info (base + of_nat (length pre) + 16) = Inr (me_type e)" by (simp add: ac_simps)
  have less: "(base + of_nat (length pre) :: u32) < base + of_nat (length pre + 24 * length (e # es))"
    by (subst ptr_less) (use Cons.prems(2) in simp_all)
  let ?s = "s\<lparr>bt_map := take 32 (bt_map s @ [known_range e])\<rparr>"
  have "map_entries n base ?info 24 (base + of_nat (length pre + 24 * length (e # es))) (base + of_nat (length pre)) s
      = map_entries m base ?info 24 (base + of_nat (length pre + 24 * length (e # es))) (base + of_nat (length pre) + 24) ?s"
    unfolding n(1) map_entries.simps r1 r2 r3 bindr_simps using less add_range_take [OF Cons.prems(3)] by (simp only: if_True known_range_def)
  also have "\<dots> = map_entries m base ((pre @ enc_entry e) @ ?rest) 24 (base + of_nat (length (pre @ enc_entry e) + 24 * length es)) (base + of_nat (length (pre @ enc_entry e))) ?s"
    unfolding i4 by (simp add: length_enc_entry ac_simps)
  also have "\<dots> = Inr (?s\<lparr>bt_map := take 32 (bt_map ?s @ map known_range es)\<rparr>)"
    by (rule Cons.IH [OF n(2)]) (use Cons.prems(2) in \<open>simp_all add: length_enc_entry\<close>)
  also have "\<dots> = Inr (s\<lparr>bt_map := take 32 (bt_map s @ map known_range (e # es))\<rparr>)" by (simp add: min_def take_Cons')
  finally show ?case .
qed

lemma copy_name_reads:
  "i \<le> length cs \<Longrightarrow> i + n \<le> length buf \<Longrightarrow> 0 \<notin> set cs \<Longrightarrow> length pre + length cs < 4294967296 \<Longrightarrow>
    copy_name n base (pre @ cs @ 0 # post) (base + of_nat (length pre)) i buf = Inr (take i buf @ take n (drop i cs) @ drop (i + min n (length cs - i)) buf)"
proof (induction n arbitrary: i buf)
  case 0
  then show ?case by simp
next
  case (Suc n)
  have at: "base + of_nat (length pre) + of_nat i = base + of_nat (length (pre @ take i cs))" using Suc.prems(1) by (simp add: min_def ac_simps)
  have len: "length (pre @ take i cs) < 4294967296" using Suc.prems(4) by simp
  show ?case
  proof (cases "i = length cs")
    case True
    have "rd8 base (pre @ cs @ 0 # post) (base + of_nat (length pre) + of_nat i) = Inr 0"
      unfolding at using rd8_at [OF len, of base 0 post] True by simp
    then show ?thesis using True by simp
  next
    case False
    then have i: "i < length cs" using Suc.prems(1) by simp
    have "rd8 base (pre @ cs @ 0 # post) (base + of_nat (length pre) + of_nat i) = Inr (cs ! i)"
    proof -
      have "pre @ cs @ 0 # post = (pre @ take i cs) @ cs ! i # (drop (Suc i) cs @ 0 # post)"
        by (subst id_take_nth_drop [OF i]) (simp only: append_assoc append_Cons)
      then show ?thesis unfolding at using rd8_at [OF len] by (simp only:)
    qed
    moreover have "cs ! i \<noteq> 0" using i Suc.prems(3) by (metis nth_mem)
    moreover have "i < length buf" using Suc.prems(2) by simp
    moreover have m: "min (Suc n) (length cs - i) = Suc (min n (length cs - Suc i))" using i by arith
    ultimately have "copy_name (Suc n) base (pre @ cs @ 0 # post) (base + of_nat (length pre)) i buf
        = copy_name n base (pre @ cs @ 0 # post) (base + of_nat (length pre)) (i + 1) (buf[i := cs ! i])" by simp
    also have "\<dots> = Inr (take (i + 1) (buf[i := cs ! i]) @ take n (drop (i + 1) cs) @ drop (i + 1 + min n (length cs - (i + 1))) (buf[i := cs ! i]))"
      by (rule Suc.IH) (use i Suc.prems in simp_all)
    also have "\<dots> = Inr (take i buf @ take (Suc n) (drop i cs) @ drop (i + min (Suc n) (length cs - i)) buf)"
      using i \<open>i < length buf\<close> m by (simp add: take_Suc_conv_app_nth take_update_cancel drop_update_cancel Cons_nth_drop_Suc [symmetric])
    finally show ?thesis .
  qed
qed

definition named :: "u8 list \<Rightarrow> boot \<Rightarrow> boot" where
  "named cs s = s\<lparr>bt_name := (take 128 cs @ drop (min 128 (length cs)) (bt_name s))[128 := 0], bt_present := True\<rparr>"

fun apply_tag :: "btag \<Rightarrow> boot \<Rightarrow> boot" where
  "apply_tag (Name cs) s = named cs s"
| "apply_tag (Other t xs) s = s"

lemma named_keeps: "length (bt_name s) = 129 \<Longrightarrow> length (bt_name (apply_tag t s)) = 129" "bt_map (apply_tag t s) = bt_map s"
  by (cases t; simp add: named_def min_def)+

lemma set_name_reads:
  assumes "0 \<notin> set cs" "length pre + length cs < 4294967296" "length (bt_name s) = 129"
  shows "boot_set_name base (pre @ cs @ 0 # post) (base + of_nat (length pre)) s = Inr (named cs s)"
  using copy_name_reads [of 0 cs 128 "bt_name s" pre base post] assms by (simp add: boot_set_name_def named_def upd_r_def min_def)

text \<open>A tag that the walk passes to the next: its size is no multiple of 8. The memory map is not among them.\<close>

fun proper_tag :: "btag \<Rightarrow> bool" where
  "proper_tag (Name cs) \<longleftrightarrow> 0 \<notin> set cs \<and> (length cs + 1) mod 8 \<noteq> 0"
| "proper_tag (Other t xs) \<longleftrightarrow> t \<notin> {0, 2, 6} \<and> length xs mod 8 \<noteq> 0"

lemma length_enc_tag: "proper_tag t \<Longrightarrow> 8 < length (enc_tag t) \<and> length (enc_tag t) mod 8 \<noteq> 0"
proof (cases t)
  case (Name cs)
  assume "proper_tag t"
  then have "(length cs + 1) mod 8 \<noteq> 0" "length (enc_tag t) = length cs + 9" using Name by simp_all
  then show ?thesis by presburger
next
  case (Other u xs)
  assume "proper_tag t"
  then have "length xs mod 8 \<noteq> 0" "length (enc_tag t) = length xs + 8" using Other by simp_all
  then show ?thesis by presburger
qed

lemma enc_tag_head: "\<exists>ty pl. enc_tag t = put32 ty @ put32 (of_nat (length (enc_tag t))) @ pl \<and>
    (case t of Name cs \<Rightarrow> ty = 2 \<and> pl = cs @ [0] | Other u xs \<Rightarrow> ty = u)"
  by (cases t) auto

lemma tag_step:
  assumes "proper_tag t" "8 dvd unat base" "8 dvd length pre" "unat base + length pre + length (pad8 (enc_tag t)) < 4294967280" "length (bt_name s) = 129"
    and lim: "(base + of_nat (length pre) :: u32) < lim"
  shows "walk_tags (Suc n) base (pre @ pad8 (enc_tag t) @ post) lim (base + of_nat (length pre)) s
    = walk_tags n base (pre @ pad8 (enc_tag t) @ post) lim (base + of_nat (length (pre @ pad8 (enc_tag t)))) (apply_tag t s)"
proof -
  let ?L = "length (enc_tag t)"
  let ?info = "pre @ pad8 (enc_tag t) @ post"
  let ?p = "base + of_nat (length pre)"
  obtain ty pl where e: "enc_tag t = put32 ty @ put32 (of_nat ?L) @ pl" and ty: "case t of Name cs \<Rightarrow> ty = 2 \<and> pl = cs @ [0] | Other u xs \<Rightarrow> ty = u"
    using enc_tag_head by blast
  obtain z where z: "pad8 (enc_tag t) = put32 ty @ put32 (of_nat ?L) @ pl @ z" using e by (metis append_assoc pad8_def)
  have L: "8 < ?L" "?L mod 8 \<noteq> 0" using length_enc_tag [OF assms(1)] by simp_all
  have pad: "length (pad8 (enc_tag t)) = 8 * (?L div 8) + 8" unfolding pad8_length(1) using L(2) by presburger
  have small: "length pre + 8 < 4294967280" using assms(4) pad by linarith
  have r1: "rd32 base ?info ?p = Inr ty" unfolding z using rd32_put [of pre base ty] small by simp
  have "rd32 base ((pre @ put32 ty) @ put32 (of_nat ?L) @ pl @ z @ post) (base + of_nat (length (pre @ put32 ty))) = Inr (of_nat ?L)"
    by (rule rd32_put) (use small in simp)
  then have r2: "rd32 base ?info (?p + 4) = Inr (of_nat ?L)" unfolding z by (simp add: ac_simps)
  have "unat base + length pre + ?L + 8 < 4294967296" using assms(4) pad mult_div_mod_eq [of 8 ?L] mod_less_divisor [of 8 ?L] by linarith
  then have nx: "next_tag ?p (of_nat ?L) = base + of_nat (length (pre @ pad8 (enc_tag t)))"
    using next_tag_offset [OF assms(2,3), of ?L] L(1) pad by (simp add: ac_simps)
  have ap: "(if ty = 2 then boot_set_name base ?info (?p + 8) s else if ty = 6 then handle_memory_tag n base ?info ?p s else Inr s) = Inr (apply_tag t s)"
  proof (cases t)
    case (Name cs)
    have "length cs + 9 = ?L" using Name by simp
    then have l: "length (pre @ put32 ty @ put32 (of_nat ?L)) + length cs < 4294967296" using assms(4) pad mult_div_mod_eq [of 8 ?L] mod_less_divisor [of 8 ?L] by simp
    have "0 \<notin> set cs" using assms(1) Name by simp
    from set_name_reads [OF this l assms(5), of base "z @ post"] show ?thesis using Name ty unfolding z by (simp add: ac_simps)
  next
    case (Other u xs)
    then show ?thesis using ty assms(1) by simp
  qed
  have "ty \<noteq> 0" using ty assms(1) by (cases t) auto
  then show ?thesis using lim unfolding walk_tags.simps r1 r2 bindr_simps ap nx by (simp only: if_True if_False)
qed

lemma tags_read:
  "\<forall>t \<in> set tags. proper_tag t \<Longrightarrow> 8 dvd unat base \<Longrightarrow> 8 dvd length pre \<Longrightarrow> length (bt_name s) = 129 \<Longrightarrow>
    unat base + length pre + length (concat (map (pad8 \<circ> enc_tag) tags)) < lim \<Longrightarrow> lim < 4294967280 \<Longrightarrow>
    walk_tags (length tags + n) base (pre @ concat (map (pad8 \<circ> enc_tag) tags) @ post) (of_nat lim) (base + of_nat (length pre)) s
      = walk_tags n base (pre @ concat (map (pad8 \<circ> enc_tag) tags) @ post) (of_nat lim)
          (base + of_nat (length pre + length (concat (map (pad8 \<circ> enc_tag) tags)))) (fold apply_tag tags s)"
proof (induction tags arbitrary: pre s)
  case Nil
  then show ?case by simp
next
  case (Cons t tags)
  let ?tl = "concat (map (pad8 \<circ> enc_tag) tags)"
  have room: "unat base + length pre + length (pad8 (enc_tag t)) + length ?tl < lim" using Cons.prems(5) by (simp add: comp_def add.assoc)
  have u: "unat (base + of_nat (length pre)) = unat base + length pre" by (rule ptr_unat) (use room Cons.prems(6) in linarith)
  have v: "unat (of_nat lim :: u32) = lim" by (rule unat_of_nat32) (use Cons.prems(6) in linarith)
  have less: "(base + of_nat (length pre) :: u32) < of_nat lim" unfolding word_less_unat u v using room by linarith
  have p: "proper_tag t" using Cons.prems(1) by simp
  have lim: "unat base + length pre + length (pad8 (enc_tag t)) < 4294967280" using room Cons.prems(6) by linarith
  have "walk_tags (Suc (length tags + n)) base (pre @ pad8 (enc_tag t) @ ?tl @ post) (of_nat lim) (base + of_nat (length pre)) s
      = walk_tags (length tags + n) base (pre @ pad8 (enc_tag t) @ ?tl @ post) (of_nat lim) (base + of_nat (length (pre @ pad8 (enc_tag t)))) (apply_tag t s)"
    by (rule tag_step [OF p Cons.prems(2,3) lim Cons.prems(4) less])
  moreover have "walk_tags (length tags + n) base ((pre @ pad8 (enc_tag t)) @ ?tl @ post) (of_nat lim) (base + of_nat (length (pre @ pad8 (enc_tag t)))) (apply_tag t s)
      = walk_tags n base ((pre @ pad8 (enc_tag t)) @ ?tl @ post) (of_nat lim) (base + of_nat (length (pre @ pad8 (enc_tag t)) + length ?tl)) (fold apply_tag tags (apply_tag t s))"
    by (rule Cons.IH) (use Cons.prems room named_keeps(1) pad8_length(2) in simp_all)
  ultimately show ?case by (simp add: comp_def ac_simps)
qed

lemma tags_keep: "length (bt_name s) = 129 \<Longrightarrow> length (bt_name (fold apply_tag tags s)) = 129 \<and> bt_map (fold apply_tag tags s) = bt_map s"
  by (induction tags arbitrary: s) (simp_all add: named_keeps)

text \<open>The memory map, after which the walk is behind the last tag.\<close>

lemma map_step:
  assumes "8 dvd unat base" "8 dvd length pre" "unat base + length pre + 24 * length es + 40 < 4294967280" "length es < n" "length (bt_map s) \<le> 32"
    and info: "info = pre @ enc_map es @ put32 0 @ put32 8"
  shows "walk_tags (Suc n) base info (base + of_nat (length pre + 24 * length es + 24)) (base + of_nat (length pre)) s
    = Inr (s\<lparr>bt_map := take 32 (bt_map s @ map known_range es)\<rparr>)"
proof -
  let ?p = "base + of_nat (length pre)"
  let ?N = "16 + 24 * length es"
  let ?post = "put32 0 @ put32 8"
  have small: "length pre + 16 < 4294967280" "unat base + length pre + ?N + 8 < 4294967296" using assms(3) by simp_all
  have r: "rd32 base (xs @ put32 v @ ys) (base + of_nat (length xs)) = Inr v" if "length xs \<le> length pre + 8" for xs v ys
    by (rule rd32_put) (use that small(1) in linarith)
  have i: "info = pre @ put32 6 @ (put32 (of_nat ?N) @ put32 24 @ put32 0 @ concat (map enc_entry es) @ ?post)"
    "info = (pre @ put32 6) @ put32 (of_nat ?N) @ (put32 24 @ put32 0 @ concat (map enc_entry es) @ ?post)"
    "info = (pre @ put32 6 @ put32 (of_nat ?N)) @ put32 24 @ (put32 0 @ concat (map enc_entry es) @ ?post)"
    "info = (pre @ put32 6 @ put32 (of_nat ?N) @ put32 24 @ put32 0) @ concat (map enc_entry es) @ ?post"
    unfolding info enc_map_def by simp_all
  have r1: "rd32 base info ?p = Inr 6" unfolding i(1) by (rule r) simp
  have "rd32 base info (base + of_nat (length (pre @ put32 6))) = Inr (of_nat ?N)" by (subst i(2), rule r) simp
  then have r2: "rd32 base info (?p + 4) = Inr (of_nat ?N)" by (simp add: ac_simps)
  have "rd32 base info (base + of_nat (length (pre @ put32 6 @ put32 (of_nat ?N)))) = Inr 24" by (subst i(3), rule r) simp
  then have r3: "rd32 base info (?p + 8) = Inr 24" by (simp add: ac_simps)
  let ?pre = "pre @ put32 6 @ put32 (of_nat ?N) @ put32 24 @ put32 0"
  have lp: "length ?pre = length pre + 16" by simp
  have "map_entries n base (?pre @ concat (map enc_entry es) @ ?post) 24 (base + of_nat (length ?pre + 24 * length es)) (base + of_nat (length ?pre)) s
      = Inr (s\<lparr>bt_map := take 32 (bt_map s @ map known_range es)\<rparr>)"
    by (rule map_entries_read [OF assms(4)]) (use assms(3,5) in simp_all)
  then have "map_entries n base info 24 (base + of_nat (length ?pre + 24 * length es)) (base + of_nat (length ?pre)) s
      = Inr (s\<lparr>bt_map := take 32 (bt_map s @ map known_range es)\<rparr>)" by (simp only: i(4))
  moreover have "?p + of_nat ?N = base + of_nat (length ?pre + 24 * length es)" "?p + 16 = base + of_nat (length ?pre)" by (simp_all add: lp ac_simps)
  ultimately have h: "handle_memory_tag n base info ?p s = Inr (s\<lparr>bt_map := take 32 (bt_map s @ map known_range es)\<rparr>)"
    by (simp only: handle_memory_tag_def r2 r3 bindr_simps)
  have N8: "8 * (?N div 8) = ?N" by presburger
  have nx: "next_tag ?p (of_nat ?N) = base + of_nat (length pre + 24 * length es + 24)"
    using next_tag_offset [OF assms(1,2) small(2)] by (simp add: N8 ac_simps)
  have less: "?p < base + of_nat (length pre + 24 * length es + 24)" by (subst ptr_less) (use assms(3) in simp_all)
  obtain m where m: "n = Suc m" using assms(4) by (cases n) auto
  have stop: "walk_tags n base info lim lim t = Inr t" for lim t by (simp add: m walk_tags.simps)
  show ?thesis unfolding walk_tags.simps r1 r2 bindr_simps h nx stop using less by simp
qed

text \<open>C16: the kernel reads the boot information. For a boot loader that lays out the tags as the specification says, each padded to 8 bytes, none but
  the memory map with a size that is a multiple of 8 and the memory map last, the walk comes to its end: the map of physical memory has the
  entries of the memory map in their order, as many as its table holds, and the name of the boot loader is kept up to its 128th character.\<close>

theorem boot_information_is_read:
  assumes "\<forall>t \<in> set tags. proper_tag t" "8 dvd unat base" "unat base + length (enc_info tags es) < 4294967240"
    and "length (bt_map s) \<le> 32" "length (bt_name s) = 129" "length tags + length es + 1 < n"
  shows "multiboot2_init n MULTIBOOT2_BOOTLOADER_MAGIC base (enc_info tags es) s
    = Inr (True, (fold apply_tag tags s)\<lparr>bt_map := take 32 (bt_map s @ map known_range es)\<rparr>)"
proof -
  let ?T = "concat (map (pad8 \<circ> enc_tag) tags)"
  let ?post = "put32 0 @ put32 8"
  let ?len = "8 + length ?T + 24 * length es + 24"
  define pre where "pre = put32 (of_nat ?len) @ put32 0"
  have mlen: "length (enc_map es) = 16 + 24 * length es" by (simp add: enc_map_def length_enc_entries)
  have info: "enc_info tags es = pre @ ?T @ enc_map es @ ?post" by (simp add: enc_info_def Let_def pre_def mlen ac_simps)
  have len: "unat base + ?len < 4294967240" using assms(3) unfolding info by (simp add: pre_def mlen ac_simps)
  have lp: "length pre = 8" by (simp add: pre_def)
  have T8: "8 dvd length ?T" by (induction tags) (simp_all add: pad8_length(2))
  have total: "rd32 base (enc_info tags es) base = Inr (of_nat ?len)"
    using rd32_put [of "[]" base "of_nat ?len" "put32 0 @ ?T @ enc_map es @ ?post"] unfolding info pre_def by simp
  have lim: "base + 8 + (of_nat ?len - 8) = of_nat (unat base + ?len)" by simp
  obtain m where m: "n = length tags + Suc m" "length es < m" using assms(6) by (intro that [of "n - length tags - 1"]) auto
  note keep = tags_keep [OF assms(5), of tags]
  have "walk_tags n base (pre @ ?T @ enc_map es @ ?post) (of_nat (unat base + ?len)) (base + of_nat (length pre)) s
      = walk_tags (Suc m) base (pre @ ?T @ enc_map es @ ?post) (of_nat (unat base + ?len)) (base + of_nat (length pre + length ?T)) (fold apply_tag tags s)"
    unfolding m(1) by (rule tags_read [OF assms(1,2) _ assms(5)]) (use len in \<open>simp_all add: lp\<close>)
  also have "\<dots> = walk_tags (Suc m) base (enc_info tags es) (base + of_nat (length (pre @ ?T) + 24 * length es + 24)) (base + of_nat (length (pre @ ?T))) (fold apply_tag tags s)"
    unfolding info by (simp add: lp ac_simps)
  also have "\<dots> = Inr ((fold apply_tag tags s)\<lparr>bt_map := take 32 (bt_map (fold apply_tag tags s) @ map known_range es)\<rparr>)"
    by (rule map_step [OF assms(2) _ _ m(2)]) (use T8 len keep assms(4) in \<open>simp_all add: lp info\<close>)
  finally have "walk_tags n base (enc_info tags es) (of_nat (unat base + ?len)) (base + 8) s
      = Inr ((fold apply_tag tags s)\<lparr>bt_map := take 32 (bt_map s @ map known_range es)\<rparr>)" using keep by (simp add: info lp)
  then show ?thesis by (simp only: multiboot2_init_def total bindr_simps lim if_False simp_thms)
qed

definition empty_boot :: boot where
  "empty_boot = \<lparr>bt_map = [], bt_present = False, bt_name = replicate 129 0\<rparr>"

lemma boot_information_is_read_witness:
  "multiboot2_init 9 MULTIBOOT2_BOOTLOADER_MAGIC 0x10000 (enc_info [Other 1 [0], Name [71, 82, 85, 66]] [\<lparr>me_addr = 0x100000, me_len = 0x7ee0000, me_type = 1\<rparr>]) empty_boot
     = Inr (True, (named [71, 82, 85, 66] empty_boot)\<lparr>bt_map := [known_range \<lparr>me_addr = 0x100000, me_len = 0x7ee0000, me_type = 1\<rparr>]\<rparr>)"
  using boot_information_is_read [of "[Other 1 [0], Name [71, 82, 85, 66]]" "0x10000" "[\<lparr>me_addr = 0x100000, me_len = 0x7ee0000, me_type = 1\<rparr>]" empty_boot 9]
  by (simp add: empty_boot_def enc_info_def enc_map_def length_enc_entries pad8_length Let_def length_enc_entry)

lemma named_name:
  assumes "0 \<notin> set cs" "length cs \<le> 128"
  shows "boot_get_name (named cs empty_boot) = Some cs"
proof -
  obtain r where r: "replicate (129 - length cs) (0 :: u8) = 0 # r" using assms(2) by (cases "129 - length cs") auto
  obtain z where "(cs @ 0 # r)[128 := 0] = cs @ 0 # z"
    using assms(2) by (cases "128 - length cs") (auto simp: list_update_append)
  then have "bt_name (named cs empty_boot) = cs @ 0 # z"
    using assms(2) r by (simp add: named_def empty_boot_def min_def)
  moreover have "takeWhile (\<lambda>c. c \<noteq> 0) (cs @ 0 # z) = cs" for z using assms(1) by (induction cs) auto
  ultimately show ?thesis by (simp add: boot_get_name_def named_def)
qed

text \<open>After any other tag whose size is a multiple of 8 the walk is 8 bytes too far. With a boot loader that has a name of seven characters it
  takes the inside of the next tag, here the memory map, for a tag of size 0 and stays there for ever.\<close>

definition hanging_info :: "u8 list" where
  "hanging_info = enc_info [Name [71, 82, 85, 66, 32, 50, 46]] [\<lparr>me_addr = 0x100000, me_len = 0x7ee0000, me_type = 1\<rparr>]"

lemma aligned_tag_hangs: "multiboot2_init n MULTIBOOT2_BOOTLOADER_MAGIC 0x10000 hanging_info s = Inl Hang"
  if "length (bt_name s) = 129"
proof -
  have r: "rd32 0x10000 hanging_info 0x10000 = Inr 72" "rd32 0x10000 hanging_info 0x10008 = Inr 2" "rd32 0x10000 hanging_info 0x1000c = Inr 16"
    "rd32 0x10000 hanging_info 0x10020 = Inr 24" "rd32 0x10000 hanging_info 0x10024 = Inr 0" by code_simp+
  have stuck: "walk_tags m 0x10000 hanging_info 0x10048 0x10020 t = Inl Hang" for m t
    by (induction m) (simp_all add: walk_tags.simps r next_tag_def)
  have i: "hanging_info = (put32 72 @ put32 0 @ put32 2 @ put32 16) @ [71, 82, 85, 66, 32, 50, 46] @ 0 # drop 24 hanging_info" by code_simp
  have "boot_set_name 0x10000 hanging_info 0x10010 s = Inr (named [71, 82, 85, 66, 32, 50, 46] s)"
    using set_name_reads [of "[71, 82, 85, 66, 32, 50, 46]" "put32 72 @ put32 0 @ put32 2 @ put32 16" s "0x10000" "drop 24 hanging_info"] that
    by (subst i) simp
  then have "walk_tags m 0x10000 hanging_info 0x10048 0x10008 s = Inl Hang" for m
    by (cases m) (simp_all add: walk_tags.simps r stuck next_tag_def)
  then show ?thesis using that by (simp add: multiboot2_init_def r)
qed

text \<open>Entries of size 0 are read for ever.\<close>

lemma empty_entries_hang:
  assumes "rd64 base info ptr = Inr a" "rd64 base info (ptr + 8) = Inr l" "rd32 base info (ptr + 16) = Inr t" "ptr < lim"
  shows "map_entries n base info 0 lim ptr s = Inl Hang"
  using assms by (induction n arbitrary: s) simp_all

end
