(* ===== verification/Interrupts.thy ===== *)
theory Interrupts
  imports Scheduler
begin

text \<open>
  Interrupts of the i386 port (\<open>kernel/arch/i386/src\<close>: \<open>int.cpp\<close>, \<open>thread.cpp\<close>, \<open>timer.cpp\<close>, \<open>arch.cpp\<close>, \<open>drv/pic.cpp\<close>, \<open>drv/pit.cpp\<close>): the
  gates of the interrupt table, the registration of handlers, the dispatch of an interrupt, the interrupt controllers and the timer. Reading
  a port is the parameter \<open>inb\<close>, what is written to ports is a log. The handlers that the code registers are the constructors of a
  datatype. A handler that hands the processor to another thread does not return: the result of a dispatch says where it went.
\<close>

abbreviation INT_ID_COUNT :: nat where "INT_ID_COUNT \<equiv> 256"
abbreviation INT_EXCPT_COUNT :: nat where "INT_EXCPT_COUNT \<equiv> 32"

type_synonym port_log = "(u32 \<times> u8) list"
type_synonym port_reader = "u32 \<Rightarrow> u8"

subsection \<open>The interrupt controllers\<close>

record pic =
  pic_enabled :: bool
  pic_mask :: u8
  pic_io :: u8
  pic_slave :: bool
  pic_irq_offset :: u32

definition pic_new :: "u8 \<Rightarrow> bool \<Rightarrow> pic" where
  "pic_new io slave = \<lparr>pic_enabled = True, pic_mask = 0, pic_io = io, pic_slave = slave, pic_irq_offset = 0\<rparr>"

definition pic_command :: "u8 \<Rightarrow> pic \<Rightarrow> port_log \<Rightarrow> port_log" where
  "pic_command cmd p out = out @ [(ucast (pic_io p), cmd)]"

definition pic_read :: "port_reader \<Rightarrow> pic \<Rightarrow> u8" where
  "pic_read inb p = inb (ucast (pic_io p) + 1)"

definition pic_write :: "u8 \<Rightarrow> pic \<Rightarrow> port_log \<Rightarrow> port_log" where
  "pic_write v p out = out @ [(ucast (pic_io p) + 1, v)]"

definition pic_eoi :: "pic \<Rightarrow> port_log \<Rightarrow> port_log" where
  "pic_eoi p out = pic_command 0x20 p out"

text \<open>A shift by 32 or more is undefined.\<close>

definition mask_irq :: "u32 \<Rightarrow> pic \<Rightarrow> port_log \<Rightarrow> (pic \<times> port_log) result" where
  "mask_irq irq p out = (if irq \<ge> 32 then Inl Fault else let p = p\<lparr>pic_mask := pic_mask p OR ucast (push_bit (unat irq) (1 :: u32))\<rparr> in
     Inr (p, if pic_enabled p then pic_write (pic_mask p) p out else out))"

definition unmask_irq :: "u32 \<Rightarrow> pic \<Rightarrow> port_log \<Rightarrow> (pic \<times> port_log) result" where
  "unmask_irq irq p out = (if irq \<ge> 32 then Inl Fault else let p = p\<lparr>pic_mask := pic_mask p AND ucast (NOT (push_bit (unat irq) (1 :: u32)))\<rparr> in
     Inr (p, if pic_enabled p then pic_write (pic_mask p) p out else out))"

definition pic_disable :: "pic \<Rightarrow> port_log \<Rightarrow> pic \<times> port_log" where
  "pic_disable p out = (p\<lparr>pic_enabled := False\<rparr>, pic_write 0xff p out)"

definition pic_enable :: "pic \<Rightarrow> port_log \<Rightarrow> pic \<times> port_log" where
  "pic_enable p out = (p\<lparr>pic_enabled := True\<rparr>, pic_write (pic_mask p) p out)"

definition pic_remap :: "port_reader \<Rightarrow> u32 \<Rightarrow> pic \<Rightarrow> port_log \<Rightarrow> pic \<times> port_log" where
  "pic_remap inb offset p out = (let a = pic_read inb p; out = pic_command (0x10 OR 0x01) p out; out = pic_write (ucast offset) p out;
     out = pic_write (if pic_slave p then 2 else 4) p out; out = pic_write 0x01 p out; out = pic_write a p out in
     (p\<lparr>pic_irq_offset := offset\<rparr>, out))"

record pic_pair =
  pp_master :: pic
  pp_slave :: pic

definition pic_pair_new :: pic_pair where
  "pic_pair_new = \<lparr>pp_master = pic_new 0x20 False, pp_slave = pic_new 0xa0 True\<rparr>"

definition end_of_interrupt :: "u32 \<Rightarrow> pic_pair \<Rightarrow> port_log \<Rightarrow> port_log" where
  "end_of_interrupt irq pp out = (let mirq = pic_irq_offset (pp_master pp); sirq = pic_irq_offset (pp_slave pp);
     out = (if irq \<ge> mirq \<and> irq < mirq + 8 then pic_eoi (pp_master pp) out else out) in
     if irq \<ge> sirq \<and> irq < sirq + 8 then pic_eoi (pp_slave pp) out else out)"

definition pair_mask :: "u32 \<Rightarrow> pic_pair \<Rightarrow> port_log \<Rightarrow> (pic_pair \<times> port_log) result" where
  "pair_mask irq pp out = bindr (if irq < 8 then mask_irq irq (pp_master pp) out else Inr (pp_master pp, out)) (\<lambda>(m, out).
     bindr (mask_irq (irq - 8) (pp_slave pp) out) (\<lambda>(s, out). Inr (\<lparr>pp_master = m, pp_slave = s\<rparr>, out)))"

definition pair_unmask :: "u32 \<Rightarrow> pic_pair \<Rightarrow> port_log \<Rightarrow> (pic_pair \<times> port_log) result" where
  "pair_unmask irq pp out = bindr (if irq < 8 then unmask_irq irq (pp_master pp) out else Inr (pp_master pp, out)) (\<lambda>(m, out).
     bindr (unmask_irq (irq - 8) (pp_slave pp) out) (\<lambda>(s, out). Inr (\<lparr>pp_master = m, pp_slave = s\<rparr>, out)))"

definition pair_both :: "(pic \<Rightarrow> port_log \<Rightarrow> pic \<times> port_log) \<Rightarrow> (pic \<Rightarrow> port_log \<Rightarrow> pic \<times> port_log) \<Rightarrow> pic_pair \<Rightarrow> port_log \<Rightarrow> pic_pair \<times> port_log" where
  "pair_both f g pp out = (let (m, out) = f (pp_master pp) out; (s, out) = g (pp_slave pp) out in (\<lparr>pp_master = m, pp_slave = s\<rparr>, out))"

definition pair_disable where "pair_disable = pair_both pic_disable pic_disable"
definition pair_enable where "pair_enable = pair_both pic_enable pic_enable"
definition pair_remap where "pair_remap inb m s = pair_both (pic_remap inb m) (pic_remap inb s)"

subsection \<open>Gates, registers and handlers\<close>

record idt_gate =
  ga_offset_0_15 :: u16
  ga_selector :: u16
  ga_zero :: u8
  ga_attribs :: u8
  ga_offset_16_31 :: u16

definition empty_gate :: idt_gate where
  "empty_gate = \<lparr>ga_offset_0_15 = 0, ga_selector = 0, ga_zero = 0, ga_attribs = 0, ga_offset_16_31 = 0\<rparr>"

definition int_set_gate :: "idt_gate list \<Rightarrow> u32 \<Rightarrow> u32 \<Rightarrow> u16 \<Rightarrow> idt_gate list result" where
  "int_set_gate gates i offset selector = (if i > 255 then Inr gates else
     upd_r gates (unat i) \<lparr>ga_offset_0_15 = ucast (offset AND 0xffff), ga_selector = selector, ga_zero = 0, ga_attribs = 0x8E,
       ga_offset_16_31 = ucast (drop_bit 16 offset AND 0xffff)\<rparr>)"

text \<open>One gate for each of the routines \<open>isr_0\<close> to \<open>isr_255\<close>, whose addresses are \<open>isr\<close>.\<close>

definition init_isr_gates :: "(nat \<Rightarrow> u32) \<Rightarrow> idt_gate list \<Rightarrow> idt_gate list result" where
  "init_isr_gates isr gates = run_all (\<lambda>gates i. int_set_gate gates (of_nat i) (isr i) 8) gates [0..<INT_ID_COUNT]"

record int_regs =
  ir_ds :: u32
  ir_edi :: u32
  ir_esi :: u32
  ir_ebp :: u32
  ir_esp :: u32
  ir_ebx :: u32
  ir_edx :: u32
  ir_ecx :: u32
  ir_eax :: u32
  ir_int_no :: u32
  ir_err_code :: u32
  ir_eip :: u32
  ir_cs :: u32
  ir_eflags :: u32
  ir_useresp :: u32
  ir_ss :: u32

text \<open>\<open>src\<close> lies at the address \<open>a\<close>. Places 11, 14 and 15 of the registers are left alone.\<close>

definition int_regs_to_cpu_state :: "cpu_state \<Rightarrow> usize \<Rightarrow> int_regs \<Rightarrow> cpu_state" where
  "int_regs_to_cpu_state dst a src = dst\<lparr>cpu_regs := (cpu_regs dst)[0 := ir_eax src, 1 := ir_ecx src, 2 := ir_edx src, 3 := ir_ebx src,
     4 := ir_esp src, 5 := ir_ebp src, 6 := ir_esi src, 7 := ir_edi src,
     8 := ir_cs src AND 0xffff, 9 := ir_ds src AND 0xffff, 10 := ir_ss src AND 0xffff, 12 := ir_eip src, 13 := ir_eflags src], cpu_temp := a\<rparr>"

definition cpu_set_a :: "usize \<Rightarrow> int_regs \<Rightarrow> int_regs" where
  "cpu_set_a v r = r\<lparr>ir_eax := v\<rparr>"

datatype irq_handler = H_Timer | H_Keyboard | H_Yield yield_status | H_Panic

record timer =
  tm_callbacks :: "yield_status option list"
  tm_counter :: u64
  tm_final :: "yield_status option"

record cpu =
  ci_gates :: "idt_gate list"
  ci_handlers :: "irq_handler option list"
  ci_pics :: pic_pair
  ci_out :: port_log
  ci_timer :: timer
  ci_idling :: bool
  ci_was_idling :: bool
  ci_thread :: "arch_thread option"
  ci_stack :: "usize \<times> usize"
  ci_syscall :: bool
  ci_key_callback :: bool
  ci_keys :: "u8 list"
  ci_yield_handler :: bool
  ci_excpt_handler :: bool

definition int_register_irq :: "u32 \<Rightarrow> irq_handler \<Rightarrow> cpu \<Rightarrow> (bool \<times> cpu) result" where
  "int_register_irq i h c = (if i \<ge> 224 then Inr (False, c) else bindr (nth_r (ci_handlers c) (unat i)) (\<lambda>old.
     if old \<noteq> None then Inr (False, c) else bindr (upd_r (ci_handlers c) (unat i) (Some h)) (\<lambda>hs. Inr (True, c\<lparr>ci_handlers := hs\<rparr>))))"

definition int_init :: "(nat \<Rightarrow> u32) \<Rightarrow> cpu \<Rightarrow> (bool \<times> cpu) result" where
  "int_init isr c = bindr (init_isr_gates isr (replicate INT_ID_COUNT empty_gate)) (\<lambda>g.
     Inr (True, c\<lparr>ci_gates := g, ci_handlers := replicate 224 None\<rparr>))"

subsection \<open>Timer and threads\<close>

definition timer_frequency :: u64 where
  "timer_frequency = 1193180 div 1000"

definition timer_add_callback :: "yield_status \<Rightarrow> timer \<Rightarrow> timer" where
  "timer_add_callback cb t = (case find (\<lambda>i. tm_callbacks t ! i = None) [0..<8] of None \<Rightarrow> t
     | Some i \<Rightarrow> t\<lparr>tm_callbacks := (tm_callbacks t)[i := Some cb]\<rparr>)"

definition timer_set_final_callback :: "yield_status \<Rightarrow> timer \<Rightarrow> timer" where
  "timer_set_final_callback cb t = t\<lparr>tm_final := Some cb\<rparr>"

definition pit_setup_channel :: "u8 \<Rightarrow> u8 \<Rightarrow> u16 \<Rightarrow> port_log \<Rightarrow> port_log" where
  "pit_setup_channel ch mode divisor out = out @ [(0x43, push_bit 6 ch OR push_bit 1 mode OR 0x30),
     (ucast (0x40 + ucast ch :: u16), ucast (divisor AND 0xff)), (ucast (0x40 + ucast ch :: u16), ucast (drop_bit 8 divisor))]"

definition timer_init :: "cpu \<Rightarrow> cpu result" where
  "timer_init c = bindr (int_register_irq 0 H_Timer (c\<lparr>ci_timer := (ci_timer c)\<lparr>tm_callbacks := replicate 8 None, tm_counter := 0\<rparr>,
     ci_out := pit_setup_channel 0 2 1000 (ci_out c)\<rparr>)) (\<lambda>(_, c). Inr c)"

definition arch_thread_init :: "cpu \<Rightarrow> cpu result" where
  "arch_thread_init c = bindr (int_register_irq 0xA0 (H_Yield YSyscall) c) (\<lambda>(_, c). bindr (int_register_irq 0xA1 (H_Yield YAwait) c) (\<lambda>(_, c).
     bindr (int_register_irq 0xA2 (H_Yield YThreadExit) c) (\<lambda>(_, c). bindr (int_register_irq 0xA3 H_Panic c) (\<lambda>(_, c).
       Inr (c\<lparr>ci_timer := timer_add_callback YTimer (ci_timer c)\<rparr>)))))"

definition arch_set_keyboard_callback :: "bool \<Rightarrow> cpu \<Rightarrow> cpu" where
  "arch_set_keyboard_callback cb c = c\<lparr>ci_key_callback := cb\<rparr>"

text \<open>The scheduler registers its two handlers, for exceptions and for threads that yield.\<close>

definition init_scheduler :: "cpu \<Rightarrow> cpu" where
  "init_scheduler c = c\<lparr>ci_excpt_handler := True, ci_yield_handler := True\<rparr>"

definition arch_init :: "port_reader \<Rightarrow> (nat \<Rightarrow> u32) \<Rightarrow> cpu \<Rightarrow> cpu result" where
  "arch_init inb isr c = (let (pp, out) = pair_remap inb 32 40 (ci_pics c) (ci_out c) in
     bindr (int_init isr (c\<lparr>ci_pics := pp, ci_out := out\<rparr>)) (\<lambda>(ok, c). if \<not> ok then Inl Panic
       else bindr (timer_init c) (\<lambda>c. bindr (arch_thread_init c) (\<lambda>c. bindr (int_register_irq 1 H_Keyboard c) (\<lambda>(_, c). Inr c)))))"

text \<open>Where a dispatch leads: back to what was interrupted, to the handler of a yield that resumes some thread, to the handler of exceptions, or
  to the loop that waits for interrupts.\<close>

datatype went = Back | Resumes yield_status | Excepted string cpu_state | Idles

text \<open>The handler of yields returns after a system call only (\<open>sched_handle_yield\<close>).\<close>

definition invoke_yield :: "yield_status \<Rightarrow> cpu \<Rightarrow> (went \<times> cpu) result" where
  "invoke_yield st c = (if \<not> ci_yield_handler c then Inl Panic else
     let c = (case ci_thread c of Some t \<Rightarrow> if \<not> ci_was_idling c
         then c\<lparr>ci_thread := Some (t\<lparr>at_esp := fst (ci_stack c), at_ebp := snd (ci_stack c)\<rparr>)\<rparr> else c | None \<Rightarrow> c) in
     Inr (if st = YSyscall then Back else Resumes st, c))"

definition invoke_exception :: "string \<Rightarrow> cpu_state \<Rightarrow> cpu \<Rightarrow> (went \<times> cpu) result" where
  "invoke_exception name st c = (if \<not> ci_excpt_handler c then Inl Panic else Inr (Excepted name st, c))"

text \<open>The first callback that does not return ends the pulse.\<close>

fun timer_calls :: "yield_status option list \<Rightarrow> cpu \<Rightarrow> (went \<times> cpu) result" where
  "timer_calls [] c = Inr (Back, c)"
| "timer_calls (cb # cbs) c = (case cb of None \<Rightarrow> timer_calls cbs c
     | Some st \<Rightarrow> bindr (invoke_yield st c) (\<lambda>(w, c). if w = Back then timer_calls cbs c else Inr (w, c)))"

definition timer_pulse :: "cpu \<Rightarrow> (went \<times> cpu) result" where
  "timer_pulse c = bindr (timer_calls (tm_callbacks (ci_timer c)) c) (\<lambda>(w, c). if w \<noteq> Back then Inr (w, c)
     else let c = c\<lparr>ci_timer := (ci_timer c)\<lparr>tm_counter := tm_counter (ci_timer c) + 1\<rparr>\<rparr> in
       case tm_final (ci_timer c) of None \<Rightarrow> Inr (Back, c) | Some st \<Rightarrow> invoke_yield st c)"

definition junk_state :: cpu_state where
  "junk_state = \<lparr>cpu_regs = replicate 16 0, cpu_temp = 0\<rparr>"

text \<open>\<open>msg\<close> reads the message of a panic at an address; \<open>a\<close> is where the saved registers \<open>r\<close> lie.\<close>

fun call_handler :: "port_reader \<Rightarrow> (usize \<Rightarrow> string) \<Rightarrow> usize \<Rightarrow> int_regs \<Rightarrow> irq_handler \<Rightarrow> cpu \<Rightarrow> (went \<times> cpu) result" where
  "call_handler inb msg a r H_Timer c = timer_pulse c"
| "call_handler inb msg a r H_Keyboard c = Inr (Back, if ci_key_callback c then c\<lparr>ci_keys := ci_keys c @ [inb 0x60]\<rparr> else c)"
| "call_handler inb msg a r (H_Yield st) c = invoke_yield st (if st = YSyscall then c\<lparr>ci_syscall := True\<rparr> else c)"
| "call_handler inb msg a r H_Panic c = (let st = int_regs_to_cpu_state junk_state a r in invoke_exception (msg (cpu_a st)) st c)"

definition int_isr_names :: "string list" where
  "int_isr_names = [''Division By Zero'', ''Debug'', ''Non Maskable Interrupt'', ''Breakpoint'', ''Into Detected Overflow'', ''Out of Bounds'',
     ''Invalid Opcode'', ''No Coprocessor'', ''Double Fault'', ''Coprocessor Segment Overrun'', ''Bad TSS'', ''Segment Not Present'', ''Stack Fault'',
     ''General Protection Fault'', ''Page Fault'', ''Unknown Interrupt'', ''Coprocessor Fault'', ''Alignment Check'', ''Machine Check''] @ replicate 13 ''Reserved''"

definition int_isr_handler :: "port_reader \<Rightarrow> (usize \<Rightarrow> string) \<Rightarrow> usize \<Rightarrow> int_regs \<Rightarrow> cpu \<Rightarrow> (went \<times> cpu) result" where
  "int_isr_handler inb msg a r c = (let i = ir_int_no r;
       c = c\<lparr>ci_syscall := False, ci_was_idling := ci_idling c, ci_idling := False\<rparr> in
     if i < 32 then invoke_exception (int_isr_names ! unat i) (int_regs_to_cpu_state junk_state a r) c
     else let c = c\<lparr>ci_out := end_of_interrupt i (ci_pics c) (ci_out c)\<rparr> in
       bindr (nth_r (ci_handlers c) (unat (i - 32))) (\<lambda>h.
         bindr (case h of None \<Rightarrow> Inr (Back, c) | Some h \<Rightarrow> call_handler inb msg a r h c) (\<lambda>(w, c).
           if w = Back \<and> ci_was_idling c then Inr (Idles, c\<lparr>ci_idling := True\<rparr>) else Inr (w, c))))"

text \<open>Back to the interrupted code, on the stack that was saved.\<close>

definition int_return :: "usize \<Rightarrow> usize \<Rightarrow> cpu \<Rightarrow> cpu" where
  "int_return esp ebp c = c\<lparr>ci_stack := (esp, ebp)\<rparr>"

definition arch_thread_resume :: "arch_thread \<Rightarrow> cpu \<Rightarrow> cpu" where
  "arch_thread_resume t c = (if at_first_run t then c\<lparr>ci_thread := Some (t\<lparr>at_first_run := False\<rparr>)\<rparr>
     else int_return (at_esp t) (at_ebp t) (c\<lparr>ci_thread := Some t\<rparr>))"

subsection \<open>What the start installs\<close>

definition gate_for :: "u32 \<Rightarrow> idt_gate" where
  "gate_for offset = \<lparr>ga_offset_0_15 = ucast (offset AND 0xffff), ga_selector = 8, ga_zero = 0, ga_attribs = 0x8E,
     ga_offset_16_31 = ucast (drop_bit 16 offset AND 0xffff)\<rparr>"

text \<open>The address that the processor takes from a gate.\<close>

definition gate_target :: "idt_gate \<Rightarrow> u32" where
  "gate_target g = ucast (ga_offset_0_15 g) OR push_bit 16 (ucast (ga_offset_16_31 g))"

lemma halves_join: "(ucast (ucast (x AND 0xffff :: u32) :: u16) OR push_bit 16 (ucast (ucast (drop_bit 16 x AND 0xffff) :: u16)) :: u32) = x"
proof -
  have m: "(0xffff :: u32) = mask 16" by (simp add: mask_eq_exp_minus_1)
  show ?thesis unfolding m by (intro bit_eqI) (auto simp: bit_simps)
qed

lemma gate_target_for: "gate_target (gate_for x) = x"
  by (simp add: gate_target_def gate_for_def halves_join)

lemma set_gates:
  "n \<le> 256 \<Longrightarrow> run_all (\<lambda>gates i. int_set_gate gates (of_nat i) (isr i) 8) (replicate 256 e) [0..<n]
    = Inr (map (\<lambda>i. gate_for (isr i)) [0..<n] @ replicate (256 - n) e)"
proof (induction n)
  case 0
  show ?case by simp
next
  case (Suc n)
  have u: "unat (of_nat n :: u32) = n" by (rule unat_of_nat32) (use Suc.prems in simp)
  then have "\<not> (of_nat n :: u32) > 255" using Suc.prems by (simp add: word_less_unat)
  moreover have "replicate (256 - n) e = e # replicate (256 - Suc n) e" using Suc.prems by (metis Suc_diff_Suc Suc_le_lessD replicate_Suc)
  ultimately have "int_set_gate (map (\<lambda>i. gate_for (isr i)) [0..<n] @ replicate (256 - n) e) (of_nat n) (isr n) 8
      = Inr (map (\<lambda>i. gate_for (isr i)) [0..<n] @ gate_for (isr n) # replicate (256 - Suc n) e)"
    using u by (simp add: int_set_gate_def gate_for_def list_update_append)
  then show ?case using Suc by (simp add: run_all_snoc)
qed

definition handler_of :: "nat \<Rightarrow> irq_handler option" where
  "handler_of i = (if i = 0 then Some H_Timer else if i = 1 then Some H_Keyboard else if i = 160 then Some (H_Yield YSyscall)
     else if i = 161 then Some (H_Yield YAwait) else if i = 162 then Some (H_Yield YThreadExit) else if i = 163 then Some H_Panic else None)"

definition installed :: "cpu \<Rightarrow> bool" where
  "installed c \<longleftrightarrow> length (ci_handlers c) = 224 \<and> (\<forall>i < 224. ci_handlers c ! i = handler_of i) \<and>
     tm_callbacks (ci_timer c) = Some YTimer # replicate 7 None \<and> pp_master (ci_pics c) = (pp_master (ci_pics c))\<lparr>pic_io := 0x20, pic_irq_offset := 32\<rparr> \<and>
     pp_slave (ci_pics c) = (pp_slave (ci_pics c))\<lparr>pic_io := 0xa0, pic_irq_offset := 40\<rparr>"

lemma register_new:
  assumes "unat i < 224" "length (ci_handlers c) = 224" "ci_handlers c ! unat i = None"
  shows "int_register_irq i h c = Inr (True, c\<lparr>ci_handlers := (ci_handlers c)[unat i := Some h]\<rparr>)"
proof -
  have "\<not> i \<ge> 224" using assms(1) by (simp add: word_le_unat)
  then show ?thesis using assms by (simp add: int_register_irq_def)
qed

lemma start_result:
  assumes "ci_pics c = pic_pair_new"
  shows "\<exists>c'. arch_init inb isr c = Inr c' \<and> installed c' \<and> length (ci_gates c') = 256 \<and>
    (\<forall>i < 256. gate_target (ci_gates c' ! i) = isr i \<and> ga_selector (ci_gates c' ! i) = 8 \<and> ga_attribs (ci_gates c' ! i) = 0x8E) \<and>
    ci_yield_handler c' = ci_yield_handler c \<and> ci_excpt_handler c' = ci_excpt_handler c"
proof -
  obtain pp out where po: "pair_remap inb 32 40 pic_pair_new (ci_out c) = (pp, out)" by (cases "pair_remap inb 32 40 pic_pair_new (ci_out c)")
  have pp: "pp_master pp = (pp_master pp)\<lparr>pic_io := 0x20, pic_irq_offset := 32\<rparr>" "pp_slave pp = (pp_slave pp)\<lparr>pic_io := 0xa0, pic_irq_offset := 40\<rparr>"
    using po by (auto simp: pair_remap_def pair_both_def pic_remap_def pic_pair_new_def pic_new_def Let_def)
  define g where "g = map (\<lambda>i. gate_for (isr i)) [0..<256]"
  have gates: "init_isr_gates isr (replicate 256 empty_gate) = Inr g"
    using set_gates [of 256 isr empty_gate] by (simp add: init_isr_gates_def g_def)
  let ?n = "replicate 224 (None :: irq_handler option)"
  let ?c = "c\<lparr>ci_pics := pp, ci_out := pit_setup_channel 0 2 1000 out, ci_gates := g, ci_timer := (ci_timer c)\<lparr>tm_callbacks := replicate 8 None, tm_counter := 0\<rparr>\<rparr>"
  let ?h = "?n[0 := Some H_Timer, 160 := Some (H_Yield YSyscall), 161 := Some (H_Yield YAwait), 162 := Some (H_Yield YThreadExit), 163 := Some H_Panic, 1 := Some H_Keyboard]"
  have cb: "timer_add_callback YTimer (t\<lparr>tm_callbacks := replicate 8 None, tm_counter := 0\<rparr>) = t\<lparr>tm_callbacks := Some YTimer # replicate 7 None, tm_counter := 0\<rparr>" for t
    by (simp add: timer_add_callback_def upt_rec numeral_eq_Suc)
  have r: "arch_init inb isr c = Inr (?c\<lparr>ci_handlers := ?h, ci_timer := (ci_timer c)\<lparr>tm_callbacks := Some YTimer # replicate 7 None, tm_counter := 0\<rparr>\<rparr>)"
    using assms po by (simp add: arch_init_def int_init_def gates timer_init_def arch_thread_init_def register_new cb)
  have "?h ! i = handler_of i" if "i < 224" for i using that by (simp add: handler_of_def nth_list_update)
  then have "installed (?c\<lparr>ci_handlers := ?h, ci_timer := (ci_timer c)\<lparr>tm_callbacks := Some YTimer # replicate 7 None, tm_counter := 0\<rparr>\<rparr>)"
    using pp by (simp add: installed_def)
  moreover have "gate_target (g ! i) = isr i \<and> ga_selector (g ! i) = 8 \<and> ga_attribs (g ! i) = 0x8E" if "i < 256" for i
    using that by (simp add: g_def gate_target_for) (simp add: gate_for_def)
  ultimately show ?thesis using r by (intro exI [of _ "?c\<lparr>ci_handlers := ?h, ci_timer := (ci_timer c)\<lparr>tm_callbacks := Some YTimer # replicate 7 None, tm_counter := 0\<rparr>\<rparr>"]) (simp add: g_def)
qed

text \<open>C38: The gates lead where they should. The start of the port fills all of the 256 gates, the gate with the number \<open>i\<close> with the address of the
  routine \<open>isr_i\<close> in its two halves, the selector of the kernel's code and the attributes of a present interrupt gate. It installs exactly the handlers
  of the timer (interrupt 32), the keyboard (33), the three ways in which a thread gives up the processor (0xc0, 0xc1, 0xc2) and the panic (0xc3), moves the
  lines of the two interrupt controllers to 32 and 40, and gives the timer the callback that takes the processor from a thread.\<close>

theorem start_installs_interrupts:
  assumes "ci_pics c = pic_pair_new"
  shows "\<exists>c'. arch_init inb isr c = Inr c' \<and> length (ci_gates c') = 256 \<and>
    (\<forall>i < 256. gate_target (ci_gates c' ! i) = isr i \<and> ga_selector (ci_gates c' ! i) = 8 \<and> ga_attribs (ci_gates c' ! i) = 0x8E) \<and>
    length (ci_handlers c') = 224 \<and>
    (\<forall>i < 224. ci_handlers c' ! i = (if i = 0 then Some H_Timer else if i = 1 then Some H_Keyboard else if i = 160 then Some (H_Yield YSyscall)
       else if i = 161 then Some (H_Yield YAwait) else if i = 162 then Some (H_Yield YThreadExit) else if i = 163 then Some H_Panic else None)) \<and>
    pic_irq_offset (pp_master (ci_pics c')) = 32 \<and> pic_irq_offset (pp_slave (ci_pics c')) = 40 \<and>
    tm_callbacks (ci_timer c') = Some YTimer # replicate 7 None \<and>
    ci_yield_handler c' = ci_yield_handler c \<and> ci_excpt_handler c' = ci_excpt_handler c"
proof -
  obtain c' where c': "arch_init inb isr c = Inr c'" "installed c'" "length (ci_gates c') = 256"
    "\<forall>i < 256. gate_target (ci_gates c' ! i) = isr i \<and> ga_selector (ci_gates c' ! i) = 8 \<and> ga_attribs (ci_gates c' ! i) = 0x8E"
    "ci_yield_handler c' = ci_yield_handler c" "ci_excpt_handler c' = ci_excpt_handler c"
    using start_result [OF assms, of inb isr] by blast
  have "pic_irq_offset (pp_master (ci_pics c')) = 32" "pic_irq_offset (pp_slave (ci_pics c')) = 40"
    using c'(2) unfolding installed_def by (metis pic.select_convs(3,5) pic.surjective pic.update_convs(3,5))+
  then show ?thesis using c' by (simp add: installed_def handler_of_def)
qed

subsection \<open>The dispatch\<close>

definition eoi_bytes :: "nat \<Rightarrow> port_log" where
  "eoi_bytes n = (if n < 32 then [] else if n < 40 then [(0x20, 0x20)] else if n < 48 then [(0xa0, 0x20)] else [])"

lemma eoi_of:
  assumes "installed c" "unat i < 256" "32 \<le> unat i"
  shows "end_of_interrupt i (ci_pics c) out = out @ eoi_bytes (unat i)"
proof -
  have o: "pic_irq_offset (pp_master (ci_pics c)) = 32" "pic_irq_offset (pp_slave (ci_pics c)) = 40"
    "pic_io (pp_master (ci_pics c)) = 0x20" "pic_io (pp_slave (ci_pics c)) = 0xa0"
    using assms(1) unfolding installed_def by (metis pic.select_convs(3,5) pic.surjective pic.update_convs(3,5))+
  show ?thesis using assms(2,3) by (auto simp: end_of_interrupt_def Let_def o eoi_bytes_def pic_eoi_def pic_command_def word_less_unat word_le_unat)
qed

text \<open>Where an interrupt leads, when the processor was idling or not.\<close>

definition leads_to :: "(usize \<Rightarrow> string) \<Rightarrow> usize \<Rightarrow> int_regs \<Rightarrow> bool \<Rightarrow> nat \<Rightarrow> went" where
  "leads_to msg a r idling n = (let st = int_regs_to_cpu_state junk_state a r in
     if n < 32 then Excepted (int_isr_names ! n) st else if n = 32 then Resumes YTimer else if n = 0xC1 then Resumes YAwait
     else if n = 0xC2 then Resumes YThreadExit else if n = 0xC3 then Excepted (msg (ir_eax r)) st else if idling then Idles else Back)"

definition saved_thread :: "cpu \<Rightarrow> arch_thread option" where
  "saved_thread c = (if ci_idling c then ci_thread c else map_option (\<lambda>t. t\<lparr>at_esp := fst (ci_stack c), at_ebp := snd (ci_stack c)\<rparr>) (ci_thread c))"

lemma invoke_yield_done:
  "ci_yield_handler c \<Longrightarrow> invoke_yield st c = Inr (if st = YSyscall then Back else Resumes st,
     c\<lparr>ci_thread := (if ci_was_idling c then ci_thread c else map_option (\<lambda>t. t\<lparr>at_esp := fst (ci_stack c), at_ebp := snd (ci_stack c)\<rparr>) (ci_thread c))\<rparr>)"
  by (simp add: invoke_yield_def Let_def split: option.splits)

lemma cpu_a_eax: "cpu_a (int_regs_to_cpu_state junk_state a r) = ir_eax r"
  by (simp add: cpu_a_def int_regs_to_cpu_state_def junk_state_def nth_list_update)

lemma dispatch_result:
  assumes "installed c" "ci_yield_handler c" "ci_excpt_handler c" "unat (ir_int_no r) = n" "n < 256"
  shows "\<exists>c'. int_isr_handler inb msg a r c = Inr (leads_to msg a r (ci_idling c) n, c') \<and> installed c' \<and> ci_out c' = ci_out c @ eoi_bytes n \<and>
    ci_keys c' = ci_keys c @ (if n = 33 \<and> ci_key_callback c then [inb 0x60] else []) \<and> ci_syscall c' = (n = 0xC0) \<and>
    ci_idling c' = (leads_to msg a r (ci_idling c) n = Idles) \<and> ci_was_idling c' = ci_idling c \<and>
    ci_thread c' = (if n \<in> {32, 0xC0, 0xC1, 0xC2} then saved_thread c else ci_thread c) \<and>
    ci_yield_handler c' = ci_yield_handler c \<and> ci_excpt_handler c' = ci_excpt_handler c \<and> ci_key_callback c' = ci_key_callback c"
proof (cases "n < 32")
  case True
  then have "ir_int_no r < 32" using assms(4) by (simp add: word_less_unat)
  then show ?thesis using True assms by (simp add: int_isr_handler_def Let_def invoke_exception_def leads_to_def eoi_bytes_def installed_def)
next
  case False
  define c1 where "c1 = c\<lparr>ci_syscall := False, ci_was_idling := ci_idling c, ci_idling := False, ci_out := ci_out c @ eoi_bytes n\<rparr>"
  have i1: "installed c1" using assms(1) by (simp add: c1_def installed_def)
  have ge: "\<not> ir_int_no r < 32" "(32 :: u32) \<le> ir_int_no r" using False assms(4) by (simp_all add: word_less_unat word_le_unat)
  have u: "unat (ir_int_no r - 32) = n - 32" using ge(2) assms(4) by (subst unat_diff_le) (simp_all add: word_le_unat)
  have eoi: "end_of_interrupt (ir_int_no r) (ci_pics c) (ci_out c) = ci_out c @ eoi_bytes n"
    using eoi_of [OF assms(1), of "ir_int_no r"] False assms(4,5) by simp
  have h: "nth_r (ci_handlers c) (n - 32) = Inr (handler_of (n - 32))" using assms(1,5) False by (simp add: installed_def nth_r_def)
  have d: "int_isr_handler inb msg a r c = bindr (case handler_of (n - 32) of None \<Rightarrow> Inr (Back, c1) | Some h \<Rightarrow> call_handler inb msg a r h c1) (\<lambda>(w, c).
      if w = Back \<and> ci_was_idling c then Inr (Idles, c\<lparr>ci_idling := True\<rparr>) else Inr (w, c))"
    unfolding int_isr_handler_def c1_def using ge(1) eoi h u by (simp add: Let_def)
  have cb: "tm_callbacks (ci_timer c1) = Some YTimer # replicate 7 None" using i1 by (simp add: installed_def)
  consider "n = 32" | "n = 33" | "n = 0xC0" | "n = 0xC1" | "n = 0xC2" | "n = 0xC3" | "n \<notin> {32, 33, 0xC0, 0xC1, 0xC2, 0xC3}" by blast
  then show ?thesis
  proof cases
    case 1
    then show ?thesis using i1 assms(2) by (simp add: d handler_of_def timer_pulse_def cb invoke_yield_done c1_def leads_to_def saved_thread_def installed_def Let_def)
  next
    case 2
    then show ?thesis using i1 by (simp add: d handler_of_def c1_def leads_to_def installed_def Let_def)
  next
    case 3
    then show ?thesis using i1 assms(2) by (simp add: d handler_of_def invoke_yield_done c1_def leads_to_def saved_thread_def installed_def Let_def)
  next
    case 4
    then show ?thesis using i1 assms(2) by (simp add: d handler_of_def invoke_yield_done c1_def leads_to_def saved_thread_def installed_def Let_def)
  next
    case 5
    then show ?thesis using i1 assms(2) by (simp add: d handler_of_def invoke_yield_done c1_def leads_to_def saved_thread_def installed_def Let_def)
  next
    case 6
    then show ?thesis using i1 assms(3) by (simp add: d handler_of_def invoke_exception_def c1_def leads_to_def installed_def Let_def cpu_a_eax)
  next
    case 7
    then have "handler_of (n - 32) = None" using False by (auto simp: handler_of_def)
    then show ?thesis using i1 7 False by (simp add: d c1_def leads_to_def installed_def Let_def)
  qed
qed

text \<open>C7: an interrupt reaches its handler. After the start an exception goes to the handler of exceptions with its name and the saved registers; the
  timer, a wait and the end of a thread give up the processor after the stack of the running thread has been saved, a system call saves it and
  returns to the stub with the handler of system calls set, a byte of the keyboard is passed on, a panic is an exception with its message,
  every other interrupt has no effect but the end-of-interrupt command, and a processor that was idling and has nothing new to run goes on idling.
  The table of handlers stays as it is.\<close>

theorem interrupt_reaches_handler:
  assumes "installed c" "ci_yield_handler c" "ci_excpt_handler c" "unat (ir_int_no r) = n" "n < 256"
  shows "\<exists>c'. int_isr_handler inb msg a r c = Inr (leads_to msg a r (ci_idling c) n, c') \<and> installed c' \<and> ci_out c' = ci_out c @ eoi_bytes n \<and>
    ci_keys c' = ci_keys c @ (if n = 33 \<and> ci_key_callback c then [inb 0x60] else []) \<and> ci_syscall c' = (n = 0xC0) \<and>
    ci_idling c' = (leads_to msg a r (ci_idling c) n = Idles) \<and> ci_was_idling c' = ci_idling c \<and>
    ci_thread c' = (if n \<in> {32, 0xC0, 0xC1, 0xC2} then saved_thread c else ci_thread c) \<and>
    ci_yield_handler c' = ci_yield_handler c \<and> ci_excpt_handler c' = ci_excpt_handler c \<and> ci_key_callback c' = ci_key_callback c"
  by (rule dispatch_result [OF assms])

subsection \<open>Examples and findings\<close>

definition demo_cpu :: cpu where
  "demo_cpu = \<lparr>ci_gates = [], ci_handlers = map handler_of [0..<224], ci_pics = \<lparr>pp_master = (pic_new 0x20 False)\<lparr>pic_irq_offset := 32\<rparr>,
     pp_slave = (pic_new 0xa0 True)\<lparr>pic_irq_offset := 40\<rparr>\<rparr>, ci_out = [], ci_timer = \<lparr>tm_callbacks = Some YTimer # replicate 7 None, tm_counter = 0, tm_final = None\<rparr>,
     ci_idling = False, ci_was_idling = False, ci_thread = Some (arch_thread_create 0x1000 0 0x8000 0x1000), ci_stack = (0x8f00, 0x8f40), ci_syscall = False,
     ci_key_callback = True, ci_keys = [], ci_yield_handler = True, ci_excpt_handler = True\<rparr>"

definition demo_regs :: "u32 \<Rightarrow> int_regs" where
  "demo_regs n = \<lparr>ir_ds = 0x10, ir_edi = 0, ir_esi = 0, ir_ebp = 0x8f40, ir_esp = 0x8f00, ir_ebx = 0, ir_edx = 0, ir_ecx = 0, ir_eax = 7, ir_int_no = n, ir_err_code = 0,
     ir_eip = 0x1000, ir_cs = 8, ir_eflags = 0x202, ir_useresp = 0, ir_ss = 0x10\<rparr>"

lemma demo_installed: "installed demo_cpu"
  by (simp add: installed_def demo_cpu_def pic_new_def)

theorem start_installs_interrupts_witness:
  "\<exists>c'. arch_init (\<lambda>_. 0) (\<lambda>i. of_nat i * 16) (demo_cpu\<lparr>ci_pics := pic_pair_new\<rparr>) = Inr c' \<and> gate_target (ci_gates c' ! 255) = 4080
     \<and> ci_handlers c' ! 163 = Some H_Panic"
  using start_installs_interrupts [of "demo_cpu\<lparr>ci_pics := pic_pair_new\<rparr>" "\<lambda>_. 0" "\<lambda>i. of_nat i * 16"] by auto

lemma interrupt_reaches_handler_witness:
  "\<exists>c'. int_isr_handler (\<lambda>_. 0x1e) (\<lambda>_. ''bad'') 0x8ec0 (demo_regs 32) demo_cpu = Inr (Resumes YTimer, c') \<and> ci_out c' = [(0x20, 0x20)] \<and>
     ci_thread c' = Some ((arch_thread_create 0x1000 0 0x8000 0x1000)\<lparr>at_esp := 0x8f00, at_ebp := 0x8f40\<rparr>)"
  using interrupt_reaches_handler [OF demo_installed, of "demo_regs 32" 32 "\<lambda>_. 0x1e" "\<lambda>_. ''bad''" "0x8ec0"]
  by (auto simp: demo_cpu_def demo_regs_def leads_to_def eoi_bytes_def saved_thread_def Let_def)

text \<open>The handler of yields: it returns after a system call only.\<close>

lemma yield_handler_returns:
  "sched_handle_yield regs_at k st s = Inr (w, s') \<Longrightarrow> w = None \<longleftrightarrow> st = YSyscall"
  by (cases st) (auto simp: sched_handle_yield_def Let_def bindr_Inr_iff split: prod.splits)

text \<open>The pulse of the timer does not come to its end: the callback of the threads gives up the processor before the pulse is counted, and the
  counter stays 0.\<close>

lemma timer_counter_stands:
  assumes "installed c" "ci_yield_handler c" "timer_pulse c = Inr (w, c')"
  shows "tm_counter (ci_timer c') = tm_counter (ci_timer c)"
  using assms by (auto simp: timer_pulse_def installed_def invoke_yield_done)

text \<open>An interrupt of the second controller passes through the first one, which is not told that it has ended.\<close>

lemma slave_interrupt_leaves_master:
  assumes "installed c" "40 \<le> unat i" "unat i < 48"
  shows "end_of_interrupt i (ci_pics c) out = out @ [(0xa0, 0x20)]"
  using eoi_of [OF assms(1), of i out] assms(2,3) by (simp add: eoi_bytes_def)

text \<open>Masking a line of the first controller shifts by a number that has wrapped around.\<close>

lemma master_line_mask_undefined:
  assumes "i < 8"
  shows "pair_mask i pp out = Inl Fault"
proof -
  have "unat i < 8" using assms by (simp add: word_less_unat)
  then have "unat (i - 8) = 4294967296 + unat i - 8" using unat_diff_wrap [of i 8] by simp
  then have "i - 8 \<ge> 32" using \<open>unat i < 8\<close> by (simp add: word_le_unat)
  moreover have "\<not> i \<ge> 32" using \<open>unat i < 8\<close> by (simp add: word_le_unat)
  ultimately show ?thesis using assms by (simp add: pair_mask_def mask_irq_def Let_def)
qed

end
