(* ===== verification/Arith64.thy ===== *)
theory Arith64
  imports Prelude "HOL-Library.Signed_Division"
begin

text \<open>
  64-bit arithmetic on a 32-bit processor (\<open>kernel/src/arith64.c\<close>, of which \<open>user/libc/src/arith64.c\<close> is a copy): the functions that the compiler
  calls for shifts, divisions and bit counts of \<open>long long\<close>. Their results are those of the operations on 64-bit words; a division by 0
  traps, which is \<open>Inl Fault\<close>.
\<close>

subsection \<open>Definitions\<close>

definition a64_hi :: "u64 \<Rightarrow> u32" where "a64_hi n = ucast (drop_bit 32 n)"
definition a64_lo :: "u64 \<Rightarrow> u32" where "a64_lo n = ucast n"
definition a64_word :: "u32 \<Rightarrow> u32 \<Rightarrow> u64" where "a64_word hi lo = push_bit 32 (ucast hi) OR ucast lo"

definition a64_neg :: "u64 \<Rightarrow> u64 \<Rightarrow> u64" where
  "a64_neg a b = (a XOR ((if 0 \<le>s b then 1 else 0) - 1)) + (if b <s 0 then 1 else 0)"

definition absvdi2 :: "u64 \<Rightarrow> u64" where
  "absvdi2 a = a64_neg a a"

definition ashldi3 :: "u64 \<Rightarrow> u32 \<Rightarrow> u64" where
  "ashldi3 a b = (let hi = a64_hi a; lo = a64_lo a; b = unat (b AND 63) in
     if b \<ge> 32 then a64_word (push_bit (b - 32) lo) 0
     else if b \<noteq> 0 then a64_word (drop_bit (32 - b) lo OR push_bit b hi) (push_bit b lo)
     else a64_word hi lo)"

definition ashrdi3 :: "u64 \<Rightarrow> u32 \<Rightarrow> u64" where
  "ashrdi3 a b = (let hi = a64_hi a; lo = a64_lo a; b = unat (b AND 63) in
     if b \<ge> 32 then a64_word (signed_drop_bit 31 hi) (signed_drop_bit (b - 32) hi)
     else if b \<noteq> 0 then a64_word (signed_drop_bit b hi) (push_bit (32 - b) hi OR drop_bit b lo)
     else a64_word hi lo)"

definition lshrdi3 :: "u64 \<Rightarrow> u32 \<Rightarrow> u64" where
  "lshrdi3 a b = (let hi = a64_hi a; lo = a64_lo a; b = unat (b AND 63) in
     if b \<ge> 32 then a64_word 0 (drop_bit (b - 32) hi)
     else if b \<noteq> 0 then a64_word (drop_bit b hi) (push_bit (32 - b) hi OR drop_bit b lo)
     else a64_word hi lo)"

text \<open>One line of the bit counts: when no bit of the mask is set, the number is shifted.\<close>

definition clz_line :: "'a::len word \<Rightarrow> nat \<Rightarrow> 'a word \<times> nat \<Rightarrow> 'a word \<times> nat" where
  "clz_line m s = (\<lambda>(a, n). let b = (if a AND m = 0 then s else 0) in (push_bit b a, n + b))"

definition ctz_line :: "'a::len word \<Rightarrow> nat \<Rightarrow> 'a word \<times> nat \<Rightarrow> 'a word \<times> nat" where
  "ctz_line m s = (\<lambda>(a, n). let b = (if a AND m = 0 then s else 0) in (drop_bit b a, n + b))"

definition clzsi2 :: "u32 \<Rightarrow> nat" where
  "clzsi2 a = (let (a, n) = clz_line 0xc0000000 2 (clz_line 0xf0000000 4 (clz_line 0xff000000 8 (clz_line 0xffff0000 16 (a, 0)))) in
     n + (if a AND 0x80000000 = 0 then 1 else 0))"

definition clzdi2 :: "u64 \<Rightarrow> nat" where
  "clzdi2 a = (let (a, n) = clz_line 0xc000000000000000 2 (clz_line 0xf000000000000000 4 (clz_line 0xff00000000000000 8 (clz_line 0xffff000000000000 16
       (clz_line 0xffffffff00000000 32 (a, 0))))) in n + (if a AND 0x8000000000000000 = 0 then 1 else 0))"

definition ctzsi2 :: "u32 \<Rightarrow> nat" where
  "ctzsi2 a = (let (a, n) = ctz_line 0x3 2 (ctz_line 0xf 4 (ctz_line 0xff 8 (ctz_line 0xffff 16 (a, 0)))) in
     n + (if a AND 1 = 0 then 1 else 0))"

definition ctzdi2 :: "u64 \<Rightarrow> nat" where
  "ctzdi2 a = (let (a, n) = ctz_line 0x3 2 (ctz_line 0xf 4 (ctz_line 0xff 8 (ctz_line 0xffff 16 (ctz_line 0xffffffff 32 (a, 0))))) in
     n + (if a AND 1 = 0 then 1 else 0))"

definition ffsdi2 :: "u64 \<Rightarrow> nat" where
  "ffsdi2 a = (if a \<noteq> 0 then ctzdi2 a + 1 else 0)"

text \<open>The long division: numerator, remainder and the mask of the last step.\<close>

definition div_step :: "u64 \<Rightarrow> u64 \<times> u64 \<times> u64 \<Rightarrow> u64 \<times> u64 \<times> u64" where
  "div_step b = (\<lambda>(a, rem, wrap). let rem = push_bit 1 rem OR drop_bit 63 a; a = push_bit 1 a OR (wrap AND 1);
     wrap = signed_drop_bit 63 (b - rem - 1); rem = rem - (b AND wrap) in (a, rem, wrap))"

fun div_loop :: "u64 \<Rightarrow> nat \<Rightarrow> u64 \<times> u64 \<times> u64 \<Rightarrow> u64 \<times> u64 \<times> u64" where
  "div_loop b 0 s = s"
| "div_loop b (Suc bits) s = div_loop b bits (div_step b s)"

definition divmoddi4 :: "u64 \<Rightarrow> u64 \<Rightarrow> (u64 \<times> u64) result" where
  "divmoddi4 a b = (if b > a then Inr (0, a)
     else if a64_hi b = 0 \<and> b = 0 then Inl Fault
     else if a64_hi b = 0 \<and> b = 1 then Inr (a, 0)
     else if a64_hi b = 0 \<and> a64_hi a = 0 then Inr (ucast (a64_lo a div a64_lo b), ucast (a64_lo a mod a64_lo b))
     else let bits = clzdi2 b - clzdi2 a + 1; (a, rem, wrap) = div_loop b bits (push_bit (64 - bits) a, drop_bit bits a, 0) in
       Inr (push_bit 1 a OR (wrap AND 1), rem))"

definition udivdi3 :: "u64 \<Rightarrow> u64 \<Rightarrow> u64 result" where
  "udivdi3 a b = bindr (divmoddi4 a b) (\<lambda>(q, r). Inr q)"

definition umoddi3 :: "u64 \<Rightarrow> u64 \<Rightarrow> u64 result" where
  "umoddi3 a b = bindr (divmoddi4 a b) (\<lambda>(q, r). Inr r)"

definition divdi3 :: "u64 \<Rightarrow> u64 \<Rightarrow> u64 result" where
  "divdi3 a b = bindr (divmoddi4 (a64_neg a a) (a64_neg b b)) (\<lambda>(q, r). Inr (a64_neg q (a XOR b)))"

definition moddi3 :: "u64 \<Rightarrow> u64 \<Rightarrow> u64 result" where
  "moddi3 a b = bindr (divmoddi4 (a64_neg a a) (a64_neg b b)) (\<lambda>(q, r). Inr (a64_neg r a))"

definition popcountsi2 :: "u32 \<Rightarrow> u32" where
  "popcountsi2 a = (let a = a - (drop_bit 1 a AND 0x55555555); a = (drop_bit 2 a AND 0x33333333) + (a AND 0x33333333);
     a = (a + drop_bit 4 a) AND 0x0F0F0F0F; a = a + drop_bit 16 a in (a + drop_bit 8 a) AND 63)"

definition popcountdi2 :: "u64 \<Rightarrow> u64" where
  "popcountdi2 a = (let a = a - (drop_bit 1 a AND 0x5555555555555555); a = (drop_bit 2 a AND 0x3333333333333333) + (a AND 0x3333333333333333);
     a = (a + drop_bit 4 a) AND 0x0F0F0F0F0F0F0F0F; a = a + drop_bit 32 a; a = a + drop_bit 16 a in (a + drop_bit 8 a) AND 127)"

subsection \<open>Shifts\<close>

lemma and_63: "unat (b AND 63 :: u32) < 64"
proof -
  have "(63 :: u32) = mask 6" by (simp add: mask_eq_exp_minus_1)
  then have "b AND 63 = take_bit 6 b" by (simp add: take_bit_eq_mask)
  then show ?thesis by (simp add: unsigned_take_bit_eq take_bit_nat_less_exp [of 6, simplified])
qed

text \<open>the shifts of 64-bit numbers in two halves are the shifts. For each number and each count, of which the lower six bits count, the
  two halves and the bits that move from one to the other make the word shifted to the left, to the right, and to the right with the
  sign.\<close>

theorem shifts_in_halves_are_shifts:
  "ashldi3 a b = push_bit (unat (b AND 63)) a \<and> lshrdi3 a b = drop_bit (unat (b AND 63)) a \<and> ashrdi3 a b = signed_drop_bit (unat (b AND 63)) a"
proof (intro conjI)
  define n where "n = unat (b AND 63)"
  have n: "n < 64" unfolding n_def by (rule and_63)
  have len: "bit a i \<Longrightarrow> i < 64" for i using bit_imp_le_length [of a i] by simp
  show "ashldi3 a b = push_bit (unat (b AND 63)) a"
    unfolding ashldi3_def n_def [symmetric] Let_def a64_word_def a64_hi_def a64_lo_def using n
    by (intro bit_eqI) (auto simp: bit_simps)
  have upper: "m < 32 \<or> (\<exists>k. m = 32 + k)" for m :: nat by presburger
  show "lshrdi3 a b = drop_bit (unat (b AND 63)) a"
    unfolding lshrdi3_def n_def [symmetric] Let_def a64_word_def a64_hi_def a64_lo_def
  proof (intro bit_eqI, goal_cases)
    case (1 m)
    then show ?case using n upper [of m] by (auto simp: bit_simps ac_simps dest: len)
  qed
  show "ashrdi3 a b = signed_drop_bit (unat (b AND 63)) a"
    unfolding ashrdi3_def n_def [symmetric] Let_def a64_word_def a64_hi_def a64_lo_def
  proof (intro bit_eqI, goal_cases)
    case (1 m)
    then have m: "m < 64" by simp
    consider "n \<ge> 32" "m < 32" | "n \<ge> 32" "m \<ge> 32" | "n = 0" | "0 < n" "n < 32" "m < 32" | "0 < n" "n < 32" "m \<ge> 32" by linarith
    then show ?case
    proof cases
      case 1
      then show ?thesis using n m by (auto simp: bit_simps)
    next
      case 2
      then obtain k where "m = 32 + k" using le_Suc_ex by blast
      then show ?thesis using 2 n m by (cases "k = 0") (auto simp: bit_simps)
    next
      case 3
      then show ?thesis using upper [of m] m by (auto simp: bit_simps)
    next
      case 4
      then show ?thesis using n m by (auto simp: bit_simps ac_simps)
    next
      case 5
      then obtain k where k: "m = 32 + k" using le_Suc_ex by blast
      have e: "n + (32 + k) = 32 + (n + k)" by simp
      show ?thesis
      proof (cases "32 - n \<le> k")
        case True
        then have "64 - n \<le> 32 + k" by simp
        then show ?thesis using 5 m True unfolding k by (simp add: bit_simps e)
      next
        case False
        then have "\<not> 64 - n \<le> 32 + k" "n + k < 32" using 5 by simp_all
        then show ?thesis using 5 m False unfolding k by (simp add: bit_simps e)
      qed
    qed
  qed
qed

subsection \<open>Leading zeros\<close>

lemma and_not_mask_0: "a AND NOT (mask k) = 0 \<longleftrightarrow> unat (a :: 'a::len word) < 2 ^ k" if "k \<le> LENGTH('a)"
proof
  assume "a AND NOT (mask k) = 0"
  then have "a = take_bit k a" by (metis bit.conj_disj_distrib bit.disj_cancel_right and.right_neutral or.right_neutral take_bit_eq_mask)
  then have "unat a = take_bit k (unat a)" by (metis unsigned_take_bit_eq)
  then show "unat a < 2 ^ k" by (metis take_bit_nat_less_exp)
next
  assume "unat a < 2 ^ k"
  then have "unat a = unat (take_bit k a)" by (simp add: unsigned_take_bit_eq take_bit_nat_eq_self)
  then have "a = take_bit k a" by (metis word_unat_eq_iff)
  then have "a = a AND mask k" by (simp add: take_bit_eq_mask)
  then show "a AND NOT (mask k) = 0" by (metis and.assoc and_zero_eq bit.conj_cancel_right)
qed

text \<open>One line keeps the product and moves the number to the upper bits.\<close>

lemma clz_line_moves:
  fixes a :: "'a::len word"
  assumes "unat a0 * 2 ^ n = unat a" "2 ^ (LENGTH('a) - 2 * s) \<le> unat a" "2 * s \<le> LENGTH('a)" "m = NOT (mask (LENGTH('a) - s))"
  shows "case clz_line m s (a, n) of (a', n') \<Rightarrow> unat a0 * 2 ^ n' = unat a' \<and> 2 ^ (LENGTH('a) - s) \<le> unat a' \<and> n' \<le> n + s"
proof (cases "unat a < 2 ^ (LENGTH('a) - s)")
  case True
  have "unat a * 2 ^ s < 2 ^ (LENGTH('a) - s) * 2 ^ s" using True by simp
  also have "\<dots> = 2 ^ LENGTH('a)" using assms(3) by (simp flip: power_add)
  finally have l: "unat a * 2 ^ s < 2 ^ LENGTH('a)" .
  then have u: "unat (push_bit s a) = unat a * 2 ^ s"
    by (subst unsigned_push_bit_eq) (simp add: push_bit_eq_mult take_bit_nat_eq_self)
  have "2 ^ (LENGTH('a) - 2 * s) * 2 ^ s \<le> unat a * 2 ^ s" using assms(2) by simp
  moreover have "(2 :: nat) ^ (LENGTH('a) - 2 * s) * 2 ^ s = 2 ^ (LENGTH('a) - s)" using assms(3) by (simp flip: power_add)
  ultimately show ?thesis using True u assms(1) and_not_mask_0 [of "LENGTH('a) - s" a]
    by (simp add: clz_line_def assms(4) power_add)
next
  case False
  then show ?thesis using assms and_not_mask_0 [of "LENGTH('a) - s" a] by (simp add: clz_line_def)
qed

text \<open>The number of leading zeros: the bits behind them are a number whose highest bit is set.\<close>

lemma clz_masks:
  "(0xffffffff00000000 :: u64) = NOT (mask 32)" "(0xffff000000000000 :: u64) = NOT (mask 48)" "(0xff00000000000000 :: u64) = NOT (mask 56)"
  "(0xf000000000000000 :: u64) = NOT (mask 60)" "(0xc000000000000000 :: u64) = NOT (mask 62)" "(0x8000000000000000 :: u64) = NOT (mask 63)"
  by (simp_all add: mask_eq_exp_minus_1)

lemma clz_counts:
  assumes "a \<noteq> 0"
  shows "2 ^ (63 - clzdi2 a) \<le> unat a" "unat a < 2 ^ (64 - clzdi2 a)" "clzdi2 a < 64"
proof -
  have "1 \<le> unat a" using assms by (simp add: Suc_leI unat_gt_0)
  obtain a1 n1 where s1: "clz_line 0xffffffff00000000 32 (a, 0) = (a1, n1)" by (cases "clz_line 0xffffffff00000000 32 (a, 0)")
  have i1: "unat a * 2 ^ n1 = unat a1" "2 ^ 32 \<le> unat a1" "n1 \<le> 32"
    using clz_line_moves [of a 0 a 32 "0xffffffff00000000"] \<open>1 \<le> unat a\<close> s1 by (simp_all add: clz_masks(1))
  obtain a2 n2 where s2: "clz_line 0xffff000000000000 16 (a1, n1) = (a2, n2)" by (cases "clz_line 0xffff000000000000 16 (a1, n1)")
  have i2: "unat a * 2 ^ n2 = unat a2" "2 ^ 48 \<le> unat a2" "n2 \<le> 48"
    using clz_line_moves [of a n1 a1 16 "0xffff000000000000"] i1 s2 by (simp_all add: clz_masks(2))
  obtain a3 n3 where s3: "clz_line 0xff00000000000000 8 (a2, n2) = (a3, n3)" by (cases "clz_line 0xff00000000000000 8 (a2, n2)")
  have i3: "unat a * 2 ^ n3 = unat a3" "2 ^ 56 \<le> unat a3" "n3 \<le> 56"
    using clz_line_moves [of a n2 a2 8 "0xff00000000000000"] i2 s3 by (simp_all add: clz_masks(3))
  obtain a4 n4 where s4: "clz_line 0xf000000000000000 4 (a3, n3) = (a4, n4)" by (cases "clz_line 0xf000000000000000 4 (a3, n3)")
  have i4: "unat a * 2 ^ n4 = unat a4" "2 ^ 60 \<le> unat a4" "n4 \<le> 60"
    using clz_line_moves [of a n3 a3 4 "0xf000000000000000"] i3 s4 by (simp_all add: clz_masks(4))
  obtain a5 n5 where s5: "clz_line 0xc000000000000000 2 (a4, n4) = (a5, n5)" by (cases "clz_line 0xc000000000000000 2 (a4, n4)")
  have i5: "unat a * 2 ^ n5 = unat a5" "2 ^ 62 \<le> unat a5" "n5 \<le> 62"
    using clz_line_moves [of a n4 a4 2 "0xc000000000000000"] i4 s5 by (simp_all add: clz_masks(5))
  define n where "n = n5 + (if unat a5 < 2 ^ 63 then 1 else 0)"
  have c: "clzdi2 a = n"
    using and_not_mask_0 [of 63 a5] by (simp add: clzdi2_def s1 s2 s3 s4 s5 n_def clz_masks(6) Let_def)
  have u: "2 ^ 63 \<le> unat a * 2 ^ n" "unat a * 2 ^ n < 2 ^ 64"
    using i5(1,2) unsigned_less [of a5, where ?'a = nat] by (auto simp: n_def)
  have n63: "n \<le> 63" using i5(3) by (simp add: n_def)
  then have "(2 :: nat) ^ 63 = 2 ^ (63 - n) * 2 ^ n" "(2 :: nat) ^ 64 = 2 ^ (64 - n) * 2 ^ n" by (simp_all flip: power_add)
  then show "2 ^ (63 - clzdi2 a) \<le> unat a" "unat a < 2 ^ (64 - clzdi2 a)" "clzdi2 a < 64"
    using u n63 unfolding c by (simp_all only: mult_le_cancel2 mult_less_cancel2)
qed

subsection \<open>The long division\<close>

lemma shift_in:
  assumes "unat c \<le> 1"
  shows "unat (push_bit 1 r OR c) = (2 * unat r + unat (c :: u64)) mod 2 ^ 64"
proof -
  have c: "c = take_bit 1 c" using assms by (auto simp: word_unat_eq_iff take_bit_eq_mod unat_mod)
  have "push_bit 1 r AND take_bit 1 c = 0" by (intro bit_eqI) (unfold bit_and_iff bit_push_bit_iff bit_take_bit_iff, auto)
  then have "push_bit 1 r OR c = push_bit 1 r + c" using c by (metis disjunctive_add_eq_or)
  then have "push_bit 1 r OR c = 2 * r + c" by (simp add: push_bit_eq_mult mult.commute)
  then show ?thesis by (simp add: unat_word_ariths mod_simps)
qed

lemma sign_mask: "signed_drop_bit 63 (x :: u64) = (if unat x < 2 ^ 63 then 0 else - 1)"
proof -
  have m: "signed_drop_bit 63 x = (if bit x 63 then - 1 else 0)" by (intro bit_eqI) (auto simp: bit_simps min_def Suc_le_eq)
  have "bit x 63 \<longleftrightarrow> bit (unat x) 63" by (simp add: bit_unsigned_iff)
  then have "bit x 63 \<longleftrightarrow> odd (unat x div 2 ^ 63)" by (simp only: bit_iff_odd)
  moreover have "unat x div 2 ^ 63 < 2" using unsigned_less [of x, where ?'a = nat] by (simp add: less_mult_imp_div_less)
  moreover have "unat x div 2 ^ 63 = 0 \<longleftrightarrow> unat x < 2 ^ 63" by (simp add: div_eq_0_iff)
  ultimately show ?thesis unfolding m by (metis One_nat_def even_zero less_2_cases odd_one)
qed

text \<open>One bit of a division of natural numbers.\<close>

lemma halve_mod: "A div 2 ^ m = 2 * (A div 2 ^ Suc m) + A div 2 ^ m mod 2" "A mod 2 ^ Suc m = 2 ^ m * (A div 2 ^ m mod 2) + A mod 2 ^ m" for A m :: nat
proof -
  have "A div 2 ^ Suc m = A div 2 ^ m div 2" by (metis div_mult2_eq power_Suc2)
  then show "A div 2 ^ m = 2 * (A div 2 ^ Suc m) + A div 2 ^ m mod 2" by simp
  show "A mod 2 ^ Suc m = 2 ^ m * (A div 2 ^ m mod 2) + A mod 2 ^ m" by (metis mod_mult2_eq power_Suc2)
qed

lemma division_bit:
  fixes Q B t :: nat
  assumes "0 < B" "t < 2"
  defines "R \<equiv> 2 * (Q mod B) + t"
  shows "(2 * Q + t) div B = 2 * (Q div B) + (if R < B then 0 else 1)" "(2 * Q + t) mod B = (if R < B then R else R - B)"
proof -
  have "R < 2 * B" using assms(2) mod_less_divisor [OF assms(1), of Q] by (simp add: R_def)
  have Q: "2 * Q + t = (2 * (Q div B)) * B + R" unfolding R_def by (metis add_mult_distrib2 div_mult_mod_eq mult.assoc add.assoc)
  have e: "(2 * Q + t) div B = 2 * (Q div B) + R div B" "(2 * Q + t) mod B = R mod B" unfolding Q using assms(1) by simp_all
  have r: "R div B = (if R < B then 0 else 1)" "R mod B = (if R < B then R else R - B)"
    using \<open>R < 2 * B\<close> assms(1) by (auto simp: div_if le_mod_geq)
  show "(2 * Q + t) div B = 2 * (Q div B) + (if R < B then 0 else 1)" "(2 * Q + t) mod B = (if R < B then R else R - B)"
    unfolding e r by simp_all
qed

definition dividing :: "nat \<Rightarrow> nat \<Rightarrow> nat \<Rightarrow> u64 \<times> u64 \<times> u64 \<Rightarrow> bool" where
  "dividing A B m = (\<lambda>(a, rem, wrap). unat rem = A div 2 ^ m mod B \<and> unat a = A mod 2 ^ m * 2 ^ (64 - m) + A div 2 ^ m div B div 2 \<and>
     wrap = (if odd (A div 2 ^ m div B) then - 1 else 0))"

lemma div_step_divides:
  assumes d: "dividing A (unat b) (Suc m) s" and A: "A < 2 ^ 64" and m: "m < 63" and b: "0 < unat b" "unat b \<le> 2 ^ 63 \<or> unat b \<le> A div 2 ^ m"
  shows "dividing A (unat b) m (div_step b s)"
proof -
  define B Q t q where "B = unat b" and "Q = A div 2 ^ Suc m" and "t = A div 2 ^ m mod 2" and "q = Q div B"
  define R where "R = 2 * (Q mod B) + t"
  define x where "x = (if R < B then 0 else 1 :: nat)"
  obtain a rem wrap where s: "s = (a, rem, wrap)" by (cases s)
  have B: "0 < B" "B < 2 ^ 64" using b(1) unsigned_less [of b, where ?'a = nat] by (simp_all add: B_def)
  have t: "t < 2" by (simp add: t_def)
  have Am: "A div 2 ^ m = 2 * Q + t" unfolding Q_def t_def by (rule halve_mod)
  have h: "unat rem = Q mod B" "unat a = A mod 2 ^ Suc m * 2 ^ (63 - m) + q div 2" "wrap = (if odd q then - 1 else 0)"
    using d by (simp_all add: dividing_def s B_def Q_def q_def)
  have p: "(2 :: nat) ^ m * 2 ^ (63 - m) = 2 ^ 63" using m by (simp flip: power_add)
  define L where "L = A mod 2 ^ m * 2 ^ (63 - m) + q div 2"
  have "A mod 2 ^ Suc m * 2 ^ (63 - m) = t * (2 ^ m * 2 ^ (63 - m)) + A mod 2 ^ m * 2 ^ (63 - m)"
    unfolding halve_mod(2) [of A m] t_def [symmetric] by (simp only: algebra_simps)
  then have a: "unat a = t * 2 ^ 63 + L" unfolding h(2) p L_def by simp
  have Qb: "Q < 2 ^ (63 - m)"
  proof -
    have "(2 :: nat) ^ 64 = 2 ^ Suc m * 2 ^ (63 - m)" using m by (simp flip: power_add)
    then show ?thesis unfolding Q_def using A by (intro less_mult_imp_div_less) (simp add: mult.commute)
  qed
  from Qb have q: "q div 2 < 2 ^ (63 - m)" unfolding q_def by (meson div_le_dividend le_less_trans)
  have L: "L < 2 ^ 63"
  proof -
    have "A mod 2 ^ m + 1 \<le> 2 ^ m" by (simp add: Suc_leI)
    then have "(A mod 2 ^ m + 1) * 2 ^ (63 - m) \<le> 2 ^ 63" unfolding p [symmetric] by (rule mult_le_mono1)
    then show ?thesis using q unfolding L_def by (simp add: add_mult_distrib)
  qed
  have top: "unat (drop_bit 63 a) = t"
    unfolding unat_drop_bit_eq unfolding drop_bit_eq_div a using L by simp
  have R64: "R < 2 ^ 64" and Rb: "R < 2 * B"
  proof -
    have "R \<le> A div 2 ^ m" unfolding Am R_def by (simp add: mod_less_eq_dividend)
    then show "R < 2 ^ 64" using A by (meson div_le_dividend le_less_trans)
    show "R < 2 * B" using t mod_less_divisor [OF B(1), of Q] by (simp add: R_def)
  qed
  define rem1 where "rem1 = push_bit 1 rem OR drop_bit 63 a"
  have rem1: "unat rem1 = R" unfolding rem1_def using t R64 by (subst shift_in) (simp_all add: top h(1) R_def)
  define a1 where "a1 = push_bit 1 a OR (wrap AND 1)"
  have c: "unat (wrap AND 1) = q mod 2" by (simp add: h(3) mod2_eq_if)
  have "unat a1 = (2 * (t * 2 ^ 63 + L) + q mod 2) mod 2 ^ 64" unfolding a1_def by (subst shift_in) (simp_all add: c a)
  also have "2 * (t * 2 ^ 63 + L) + q mod 2 = t * 2 ^ 64 + (2 * L + q mod 2)" by simp
  also have "(t * 2 ^ 64 + (2 * L + q mod 2)) mod 2 ^ 64 = 2 * L + q mod 2" using L by simp
  also have "2 * L + q mod 2 = A mod 2 ^ m * 2 ^ (64 - m) + q"
  proof -
    have "(2 :: nat) ^ (64 - m) = 2 * 2 ^ (63 - m)" using m by (simp flip: power_Suc add: Suc_diff_le)
    then show ?thesis unfolding L_def by (simp add: add_mult_distrib2 mult.assoc mult.left_commute)
  qed
  finally have a1: "unat a1 = A mod 2 ^ m * 2 ^ (64 - m) + q" .
  have cond: "unat (b - rem1 - 1) < 2 ^ 63 \<longleftrightarrow> R < B"
  proof (cases "R < B")
    case True
    have "B \<le> 2 ^ 63"
    proof (rule ccontr)
      assume n: "\<not> B \<le> 2 ^ 63"
      then have "B \<le> 2 * Q + t" using b(2) Am by (simp add: B_def)
      moreover have "(2 :: nat) ^ (63 - m) \<le> 2 ^ 63" by (rule power_increasing) simp_all
      then have "Q < B" using n Qb by linarith
      ultimately show False using True by (simp add: R_def)
    qed
    moreover have "unat (b - rem1) = B - R" using True rem1 by (subst unat_diff_le) (simp_all add: B_def)
    then have "unat (b - rem1 - 1) = B - R - 1" using True by (subst unat_diff_le) simp_all
    ultimately show ?thesis using True by simp
  next
    case False
    have "unat (rem1 - b) = R - B" using False rem1 by (subst unat_diff_le) (simp_all add: B_def)
    moreover have "b - rem1 - 1 = - 1 - (rem1 - b)" by simp
    moreover have "unat (- 1 - y :: u64) = 2 ^ 64 - 1 - unat y" for y
    proof -
      have m: "unat (- 1 :: u64) = 2 ^ 64 - 1" by (simp add: unsigned_minus_1_eq_mask mask_eq_exp_minus_1)
      have "unat y \<le> unat (- 1 :: u64)" unfolding m using unsigned_less [of y, where ?'a = nat] by simp
      then show ?thesis by (simp only: unat_diff_le m)
    qed
    ultimately have "unat (b - rem1 - 1) = 2 ^ 64 - 1 - (R - B)" by metis
    moreover have "R - B < 2 ^ 63" using Rb R64 by (cases "B \<le> 2 ^ 63") auto
    ultimately show ?thesis using False by simp
  qed
  define w where "w = signed_drop_bit 63 (b - rem1 - 1)"
  have w: "w = (if R < B then 0 else - 1)" unfolding w_def sign_mask cond ..
  have rem2: "unat (rem1 - (b AND w)) = (if R < B then R else R - B)"
    using rem1 by (auto simp: w B_def unat_diff_le)
  have "odd (2 * q + x) \<longleftrightarrow> x = 1" by (simp add: x_def)
  then have w2: "w = (if odd (2 * q + x) then - 1 else 0)" by (simp add: w x_def)
  have st: "div_step b s = (a1, rem1 - (b AND w), w)" by (simp add: div_step_def s rem1_def a1_def w_def Let_def)
  have dm: "(2 * Q + t) div B = 2 * q + x" "(2 * Q + t) mod B = (if R < B then R else R - B)"
    using division_bit [OF B(1) t, of Q] by (simp_all add: q_def x_def R_def)
  have "(2 * q + x) div 2 = q" by (simp add: x_def)
  then show ?thesis unfolding dividing_def st Am by (simp only: prod.case B_def [symmetric] dm a1 rem2 w2 [symmetric] simp_thms)
qed

lemma div_loop_divides:
  assumes "dividing A (unat b) k s" "A < 2 ^ 64" "k \<le> 63" "0 < unat b" "unat b \<le> 2 ^ 63 \<or> k \<le> 1 \<and> unat b \<le> A"
  shows "dividing A (unat b) 0 (div_loop b k s)"
  using assms
proof (induction k arbitrary: s)
  case 0
  then show ?case by simp
next
  case (Suc k)
  have "dividing A (unat b) k (div_step b s)"
    by (rule div_step_divides [OF Suc.prems(1,2)]) (use Suc.prems in auto)
  then have "dividing A (unat b) 0 (div_loop b k (div_step b s))" by (rule Suc.IH) (use Suc.prems in auto)
  then show ?case by simp
qed

text \<open>The quotient and the remainder, or the trap.\<close>

lemma divmoddi4_divides:
  "divmoddi4 a b = (if b = 0 then Inl Fault else Inr (a div b, a mod b))"
proof -
  have hi: "a64_hi n = 0 \<longleftrightarrow> unat n < 2 ^ 32" for n
  proof -
    have d: "unat (drop_bit 32 n) = unat n div 2 ^ 32" unfolding unat_drop_bit_eq unfolding drop_bit_eq_div ..
    moreover have "unat n div 2 ^ 32 < 4294967296" using unsigned_less [of n, where ?'a = nat] by (simp add: less_mult_imp_div_less)
    ultimately have "unat (a64_hi n) = unat n div 2 ^ 32" unfolding a64_hi_def by (subst unat_ucast_down) simp_all
    then show ?thesis by (simp add: word_unat_eq_iff div_eq_0_iff)
  qed
  consider "a < b" | "b = 0" | "b \<le> a" "b = 1" | "b \<le> a" "b \<noteq> 0" "b \<noteq> 1" "unat a < 2 ^ 32" | "b \<le> a" "b \<noteq> 0" "b \<noteq> 1" "2 ^ 32 \<le> unat a" by (metis not_le)
  then show ?thesis
  proof cases
    case 1
    then have "unat a < unat b" by (simp add: word_less_unat)
    then have "a div b = 0" "a mod b = a" by (simp_all add: word_unat_eq_iff unat_div unat_mod)
    then show ?thesis using 1 by (auto simp: divmoddi4_def)
  next
    case 2
    then show ?thesis using hi [of 0] by (simp add: divmoddi4_def)
  next
    case 3
    have "\<not> a < 1" using 3 by (metis not_le)
    moreover have "a mod 1 = 0" "a div 1 = a" by (simp_all add: word_unat_eq_iff unat_mod unat_div)
    ultimately show ?thesis using hi [of 1] unfolding 3(2) by (simp add: divmoddi4_def)
  next
    case 4
    then have ub: "unat b < 2 ^ 32" by (simp add: word_le_unat)
    have lo: "unat (a64_lo n) = unat n" if "unat n < 2 ^ 32" for n unfolding a64_lo_def using that by (intro unat_ucast_down) simp
    have "ucast (a64_lo a div a64_lo b) = a div b" "ucast (a64_lo a mod a64_lo b) = a mod b"
      using 4(4) ub by (simp_all add: word_unat_eq_iff unat_div unat_mod lo)
    then show ?thesis using 4 ub hi by (auto simp: divmoddi4_def not_less)
  next
    case 5
    have ba: "unat b \<le> unat a" using 5(1) by (simp add: word_le_unat)
    have b0: "0 < unat b" "2 \<le> unat b"
    proof -
      show "0 < unat b" using 5(2) by (simp add: unat_gt_0)
      moreover have "unat b \<noteq> 1" using 5(3) by (simp add: word_unat_eq_iff)
      ultimately show "2 \<le> unat b" by simp
    qed
    have a0: "a \<noteq> 0" using ba b0(1) by auto
    define k where "k = clzdi2 b - clzdi2 a + 1"
    note ca = clz_counts [OF a0] and cb = clz_counts [OF 5(2)]
    have le: "clzdi2 a \<le> clzdi2 b"
    proof (rule ccontr)
      assume "\<not> ?thesis"
      then have "(2 :: nat) ^ (64 - clzdi2 a) \<le> 2 ^ (63 - clzdi2 b)" by (intro power_increasing) simp_all
      then show False using ca(2) cb(1) ba by linarith
    qed
    have cb62: "clzdi2 b \<le> 62"
    proof (rule ccontr)
      assume "\<not> ?thesis"
      then have "64 - clzdi2 b \<le> 1" by simp
      then have "(2 :: nat) ^ (64 - clzdi2 b) \<le> 2 ^ 1" by (intro power_increasing) simp_all
      then show False using cb(2) b0(2) by simp
    qed
    then have k: "1 \<le> k" "k \<le> 63" by (simp_all add: k_def)
    have "unat a < 2 ^ (63 - clzdi2 b) * 2 ^ k"
    proof -
      have "63 - clzdi2 b + k = 64 - clzdi2 a" using le cb62 by (simp add: k_def)
      then show ?thesis using ca(2) by (metis power_add)
    qed
    then have small: "unat a div 2 ^ k < unat b" using cb(1) by (meson less_le_trans less_mult_imp_div_less)
    have "(2 :: nat) ^ 64 = 2 ^ k * 2 ^ (64 - k)" using k by (simp flip: power_add)
    then have "unat (push_bit (64 - k) a) = unat a mod 2 ^ k * 2 ^ (64 - k)"
      by (subst unsigned_push_bit_eq) (simp add: push_bit_eq_mult take_bit_eq_mod mult_mod_left)
    moreover have "unat (drop_bit k a) = unat a div 2 ^ k" unfolding unat_drop_bit_eq unfolding drop_bit_eq_div ..
    ultimately have start: "dividing (unat a) (unat b) k (push_bit (64 - k) a, drop_bit k a, 0)"
      using small by (simp only: dividing_def prod.case) simp
    have big: "unat b \<le> 2 ^ 63 \<or> k \<le> 1 \<and> unat b \<le> unat a"
    proof (cases "clzdi2 b = 0")
      case True
      then show ?thesis using ba by (simp add: k_def)
    next
      case False
      then have "(2 :: nat) ^ (64 - clzdi2 b) \<le> 2 ^ 63" by (intro power_increasing) simp_all
      then show ?thesis using cb(2) by linarith
    qed
    obtain x r w where l: "div_loop b k (push_bit (64 - k) a, drop_bit k a, 0) = (x, r, w)" by (cases "div_loop b k (push_bit (64 - k) a, drop_bit k a, 0)")
    have fin: "dividing (unat a) (unat b) 0 (x, r, w)"
      using div_loop_divides [OF start _ k(2) b0(1) big] unsigned_less [of a, where ?'a = nat] l by simp
    define q where "q = unat a div unat b"
    have q: "unat r = unat a mod unat b" "unat x = q div 2" "w = (if odd q then - 1 else 0)" using fin by (simp_all add: dividing_def q_def)
    have "unat (w AND 1) = q mod 2" by (simp add: q(3) mod2_eq_if)
    moreover have "q < 2 ^ 64" unfolding q_def using unsigned_less [of a, where ?'a = nat] by (simp add: le_less_trans [OF div_le_dividend])
    ultimately have "unat (push_bit 1 x OR (w AND 1)) = q" by (subst shift_in) (simp_all add: q(2))
    then have res: "push_bit 1 x OR (w AND 1) = a div b" "r = a mod b" using q(1) by (simp_all add: word_unat_eq_iff unat_div unat_mod q_def)
    have n: "(b > a) = False" "(a64_hi b = 0 \<and> b = 0) = False" "(a64_hi b = 0 \<and> b = 1) = False" "(a64_hi b = 0 \<and> a64_hi a = 0) = False" "(b = 0) = False" "(a64_hi b = 0 \<and> False) = False"
      using 5 hi by (auto simp: not_less)
    show ?thesis unfolding divmoddi4_def k_def [symmetric] Let_def n if_False l prod.case res by (rule refl)
  qed
qed

subsection \<open>Signed division\<close>

lemma neg_by_sign: "a64_neg a b = (if b <s 0 then - a else a)"
proof (cases "b <s 0")
  case True
  then have "\<not> 0 \<le>s b" by (simp add: word_sless_alt word_sle_eq)
  moreover have "a XOR - 1 = NOT a" by simp
  ultimately show ?thesis using True by (simp add: a64_neg_def not_eq_complement)
next
  case False
  then have "0 \<le>s b" by (simp add: word_sless_alt word_sle_eq)
  then show ?thesis using False by (simp add: a64_neg_def)
qed

lemma sint_uint64: "sint (x :: u64) = (if uint x < 2 ^ 63 then uint x else uint x - 2 ^ 64)"
proof -
  have l: "0 \<le> uint x" "uint x < 2 ^ 64" using uint_lt2p [of x] by simp_all
  have s: "sint x = (uint x + 2 ^ 63) mod 2 ^ 64 - 2 ^ 63"
    by (simp only: sint_uint signed_take_bit_eq_take_bit_shift take_bit_eq_mod) (simp add: uint_word_of_int_eq)
  show ?thesis
  proof (cases "uint x < 2 ^ 63")
    case True
    then have "(uint x + 2 ^ 63) mod 2 ^ 64 = uint x + 2 ^ 63" using l by (intro mod_pos_pos_trivial) simp_all
    then show ?thesis using True s by simp
  next
    case False
    have "(uint x + 2 ^ 63) mod 2 ^ 64 = (uint x - 2 ^ 63 + 2 ^ 64) mod 2 ^ 64" by (simp add: add.commute)
    also have "\<dots> = (uint x - 2 ^ 63) mod 2 ^ 64" by (rule mod_add_self2)
    also have "\<dots> = uint x - 2 ^ 63" using False l by (intro mod_pos_pos_trivial) simp_all
    finally show ?thesis using False s by simp
  qed
qed

text \<open>The magnitude, also of the smallest number.\<close>

lemma magnitude: "uint (a64_neg a a) = \<bar>sint a\<bar>"
proof (cases "uint a < 2 ^ 63")
  case True
  then have "\<not> a <s 0" by (simp add: word_sless_alt sint_uint64)
  then show ?thesis using True by (simp add: neg_by_sign sint_uint64)
next
  case False
  have l: "uint a < 2 ^ 64" using uint_lt2p [of a] by simp
  then have n: "a <s 0" using False by (simp add: word_sless_alt sint_uint64)
  have "uint (- a) = (- uint a) mod 2 ^ 64" by (simp add: uint_word_ariths)
  also have "\<dots> = (- uint a + 2 ^ 64) mod 2 ^ 64" by (rule mod_add_self2 [symmetric])
  also have "\<dots> = 2 ^ 64 - uint a" using False l by (subst mod_pos_pos_trivial) simp_all
  finally have "uint (- a) = 2 ^ 64 - uint a" .
  moreover have "sint a = uint a - 2 ^ 64" using False by (simp only: sint_uint64 if_False)
  ultimately show ?thesis using l n by (simp add: neg_by_sign)
qed

lemma signed_divide_eq:
  assumes "b \<noteq> 0"
  shows "divdi3 a b = Inr (of_int (sint a sdiv sint b))" "moddi3 a b = Inr (of_int (sint a smod sint b))"
proof -
  let ?A = "a64_neg a a" and ?B = "a64_neg b b"
  have "uint b \<noteq> 0" "uint b < 2 ^ 64" using assms uint_lt2p [of b] by (auto simp: uint_0_iff)
  then have b: "sint b \<noteq> 0" by (simp add: sint_uint64)
  then have "uint ?B \<noteq> 0" using magnitude [of b] by simp
  then have B: "?B \<noteq> 0" by auto
  have w: "?A div ?B = of_int (\<bar>sint a\<bar> div \<bar>sint b\<bar>)" "?A mod ?B = of_int (\<bar>sint a\<bar> mod \<bar>sint b\<bar>)"
    unfolding magnitude [symmetric] by (simp_all add: word_div_def word_mod_def)
  have sg: "a <s 0 \<longleftrightarrow> sint a < 0" "a XOR b <s 0 \<longleftrightarrow> (sint a < 0) \<noteq> (sint b < 0)"
    by (simp_all add: word_sless_alt flip: bit_last_iff) (auto simp: bit_simps)
  have d: "divmoddi4 ?A ?B = Inr (?A div ?B, ?A mod ?B)" using B by (simp add: divmoddi4_divides)
  show "divdi3 a b = Inr (of_int (sint a sdiv sint b))" "moddi3 a b = Inr (of_int (sint a smod sint b))"
    using b unfolding divdi3_def moddi3_def d w
    by (auto simp: neg_by_sign sg signed_divide_int_def signed_modulo_int_def sgn_if)
qed

text \<open>C8: the long division divides. Shifting the bits of the numerator into a remainder and subtracting the divisor without a branch gives the quotient
  and the remainder of the two numbers, on each of the shorter paths too and for divisors with the highest bit set; the signed functions, which
  divide the magnitudes and then give the results their signs, round the quotient towards zero and give the remainder the sign of the
  numerator, also for the smallest number. Only a division by 0 has no result, it traps.\<close>

theorem long_division_divides:
  "divmoddi4 a b = (if b = 0 then Inl Fault else Inr (a div b, a mod b)) \<and>
   divdi3 a b = (if b = 0 then Inl Fault else Inr (of_int (sint a sdiv sint b))) \<and>
   moddi3 a b = (if b = 0 then Inl Fault else Inr (of_int (sint a smod sint b)))"
proof (cases "b = 0")
  case True
  then show ?thesis by (simp add: divdi3_def moddi3_def divmoddi4_divides a64_neg_def)
next
  case False
  then show ?thesis by (simp add: divmoddi4_divides signed_divide_eq)
qed

end
