(* ===== verification/Key_Path.thy ===== *)
theory Key_Path
  imports Interrupts File_Desc Keyboard
begin

text \<open>
  The way of a key from the interrupt to the terminal: the handler of the keyboard's interrupt, the callback that the kernel registers for it
  (\<open>kernel/src/main.cpp\<close>), the character device \<open>kbd\<close> and the terminal, which reads from it up to eight bytes when it is polled
  (\<open>user/terminal/keyboard.cpp\<close>). The open file of the terminal passes a read on to the device; what is in the buffer of the terminal behind the
  bytes that were stored is \<open>junk\<close>.
\<close>

definition keyboard_transmit_callback :: "u8 \<Rightarrow> chrdev option \<Rightarrow> chrdev option result" where
  "keyboard_transmit_callback sc kbd = (case kbd of None \<Rightarrow> Inr None | Some d \<Rightarrow> bindr (cd_transmit d [sc] 1) (\<lambda>(_, d). Inr (Some d)))"

text \<open>The interrupt 33 with the scan code \<open>sc\<close> at the port: what the handler passes to the callback goes to the device.\<close>

definition key_interrupt :: "int_regs \<Rightarrow> u8 \<Rightarrow> cpu \<times> chrdev option \<Rightarrow> (cpu \<times> chrdev option) result" where
  "key_interrupt r sc = (\<lambda>(c, kbd). bindr (int_isr_handler (\<lambda>_. sc) (\<lambda>_. []) 0 (r\<lparr>ir_int_no := 33\<rparr>) c) (\<lambda>(_, c').
     bindr (run_all (\<lambda>kbd x. keyboard_transmit_callback x kbd) kbd (drop (length (ci_keys c)) (ci_keys c'))) (\<lambda>kbd. Inr (c', kbd))))"

text \<open>A poll of the terminal: the bytes for its callback and the new states.\<close>

definition terminal_poll :: "u8 list \<Rightarrow> chrdev option \<times> keyboard \<Rightarrow> (u8 list \<times> chrdev option \<times> keyboard) result" where
  "terminal_poll junk = (\<lambda>(kbd, k). case kbd of None \<Rightarrow> Inl Fault | Some d \<Rightarrow> bindr (cd_read d 8) (\<lambda>(n, xs, d).
     bindr (keyboard_update (take (unat n) (xs @ junk)) k) (\<lambda>(out, k). Inr (out, Some d, k))))"

text \<open>Keys that are pressed one after the other, each of them followed by a poll.\<close>

fun type_keys :: "int_regs \<Rightarrow> u8 list \<Rightarrow> u8 list \<Rightarrow> cpu \<times> chrdev option \<times> keyboard \<Rightarrow> (u8 list \<times> cpu \<times> chrdev option \<times> keyboard) result" where
  "type_keys r junk [] s = Inr ([], s)"
| "type_keys r junk (sc # scs) s = (case s of (c, kbd, k) \<Rightarrow> bindr (key_interrupt r sc (c, kbd)) (\<lambda>(c, kbd).
     bindr (terminal_poll junk (kbd, k)) (\<lambda>(out, kbd, k). bindr (type_keys r junk scs (c, kbd, k)) (\<lambda>(outs, s). Inr (out @ outs, s)))))"

subsection \<open>One key\<close>

definition big_enough :: "chrdev \<Rightarrow> bool" where
  "big_enough d \<longleftrightarrow> (case cd_read_buffer d of None \<Rightarrow> False | Some b \<Rightarrow> 1 < unat (buffer_size b))"

lemma write_keeps_size: "cb_write b xs n = Inr (m, b') \<Longrightarrow> buffer_size b' = buffer_size b"
  by (auto simp: cb_write_def Let_def bindr_Inr_iff split: if_splits)

lemma read_keeps_size: "cb_read b n = Inr (m, xs, b') \<Longrightarrow> buffer_size b' = buffer_size b"
  by (auto simp: cb_read_def Let_def bindr_Inr_iff split: if_splits)

lemma transmit_one:
  assumes "cd_wf d" "cd_pending d = []" "big_enough d"
  shows "\<exists>d'. cd_transmit d [x] 1 = Inr (1, d') \<and> cd_wf d' \<and> cd_pending d' = [x] \<and> big_enough d'"
proof -
  obtain b where b: "cd_read_buffer d = Some b" "cb_wf b" "cb_contents b = []" "1 < unat (buffer_size b)"
    using assms by (auto simp: cd_views big_enough_def split: option.splits)
  have w: "unat (rd_ptr b) < unat (buffer_size b)" "unat (wr_ptr b) < unat (buffer_size b)" using b(2) by (simp_all add: cb_wf_def)
  have "length (cb_contents b) = 0" using b(3) by simp
  then have "unat (rd_ptr b) = unat (wr_ptr b)" using length_cb_contents [OF b(2)] w by (simp add: Let_def split: if_splits)
  then have "rd_ptr b = wr_ptr b" by (simp add: word_unat_eq_iff)
  then have "cd_room d 1" using b w by (simp add: cd_views cb_room_def)
  then obtain d' where d': "cd_transmit d [x] 1 = Inr (1, d')" "cd_wf d'" "cd_pending d' = [x]"
    using device.send_ok [of d 1 "[x]"] assms(1,2) by auto
  moreover have "big_enough d'" using d'(1) b by (auto simp: cd_transmit_def cd_emit_def big_enough_def bindr_Inr_iff write_keeps_size)
  ultimately show ?thesis by blast
qed

lemma read_one:
  assumes "cd_wf d" "cd_pending d = [x]" "big_enough d"
  shows "\<exists>d'. cd_read d 8 = Inr (1, [x], d') \<and> cd_wf d' \<and> cd_pending d' = [] \<and> big_enough d'"
proof -
  obtain b where b: "cd_read_buffer d = Some b" "cb_wf b" "cb_contents b = [x]" "1 < unat (buffer_size b)"
    using assms by (auto simp: cd_views big_enough_def split: option.splits)
  have w: "unat (rd_ptr b) < unat (buffer_size b)" "unat (wr_ptr b) < unat (buffer_size b)" using b(2) by (simp_all add: cb_wf_def)
  have run: "cb_run b = 1" using cb_run_le [OF b(2)] length_cb_contents [OF b(2)] w b(3)
    by (auto simp: cb_run_def word_le_unat Let_def split: if_splits)
  obtain b' where b': "cb_read b 8 = Inr (1, [x], b')" "cb_wf b'" "cb_contents b' = []"
    using cb_read_split [OF b(2), of 1 8] b(3) run by auto
  then have "cd_read d 8 = Inr (1, [x], d\<lparr>cd_read_buffer := Some b'\<rparr>)" using b(1) by (simp add: cd_read_def)
  moreover have "big_enough (d\<lparr>cd_read_buffer := Some b'\<rparr>)" using read_keeps_size [OF b'(1)] b(4) by (simp add: big_enough_def)
  ultimately show ?thesis using b' by (auto simp: cd_views)
qed

definition desk_ready :: "cpu \<Rightarrow> chrdev \<Rightarrow> bool" where
  "desk_ready c d \<longleftrightarrow> installed c \<and> ci_yield_handler c \<and> ci_excpt_handler c \<and> ci_key_callback c \<and> cd_wf d \<and> cd_pending d = [] \<and> big_enough d"

lemma key_arrives:
  assumes "desk_ready c d"
  shows "\<exists>c' d'. key_interrupt r sc (c, Some d) = Inr (c', Some d') \<and> cd_wf d' \<and> cd_pending d' = [sc] \<and> big_enough d' \<and>
    installed c' \<and> ci_yield_handler c' \<and> ci_excpt_handler c' \<and> ci_key_callback c'"
proof -
  have c: "installed c" "ci_yield_handler c" "ci_excpt_handler c" "ci_key_callback c" and d: "cd_wf d" "cd_pending d = []" "big_enough d"
    using assms by (simp_all add: desk_ready_def)
  let ?r = "r\<lparr>ir_int_no := 33\<rparr>"
  obtain w c' where c': "int_isr_handler (\<lambda>_. sc) (\<lambda>_. []) 0 ?r c = Inr (w, c')" "installed c'" "ci_keys c' = ci_keys c @ [sc]"
    "ci_yield_handler c'" "ci_excpt_handler c'" "ci_key_callback c'"
    using dispatch_result [OF c(1-3), of ?r 33 "\<lambda>_. sc" "\<lambda>_. []" 0] c by auto
  obtain d' where d': "cd_transmit d [sc] 1 = Inr (1, d')" "cd_wf d'" "cd_pending d' = [sc]" "big_enough d'" using transmit_one [OF d] by blast
  then show ?thesis using c' by (simp add: key_interrupt_def keyboard_transmit_callback_def)
qed

lemma keys_typed:
  "desk_ready c d \<Longrightarrow> handle_bytes scs k = Inr (out, k') \<Longrightarrow>
    \<exists>c' d'. type_keys r junk scs (c, Some d, k) = Inr (out, c', Some d', k') \<and> desk_ready c' d'"
proof (induction scs arbitrary: c d k out)
  case Nil
  then show ?case by simp
next
  case (Cons sc scs)
  obtain o1 k1 o2 where h: "handle_byte sc k = Inr (o1, k1)" "handle_bytes scs k1 = Inr (o2, k')" "out = o1 @ o2"
    using Cons.prems(2) by (auto simp: bindr_Inr_iff split: prod.splits)
  obtain c1 d1 where s1: "key_interrupt r sc (c, Some d) = Inr (c1, Some d1)" "cd_wf d1" "cd_pending d1 = [sc]" "big_enough d1"
    "installed c1" "ci_yield_handler c1" "ci_excpt_handler c1" "ci_key_callback c1"
    using key_arrives [OF Cons.prems(1)] by blast
  obtain d2 where s2: "cd_read d1 8 = Inr (1, [sc], d2)" "cd_wf d2" "cd_pending d2 = []" "big_enough d2" using read_one [OF s1(2-4)] by blast
  have p: "terminal_poll junk (Some d1, k) = Inr (o1, Some d2, k1)"
    using s2(1) h(1) by (simp add: terminal_poll_def keyboard_update_def)
  have "desk_ready c1 d2" using s1 s2 by (simp add: desk_ready_def)
  from Cons.IH [OF this h(2)] show ?case using s1(1) p h(3) by auto
qed

text \<open>How the keyboard is started: the interrupts, the handlers of the scheduler, the device and the callback.\<close>

definition kbd_new :: "(usize \<Rightarrow> u8 list) \<Rightarrow> chrdev" where
  "kbd_new fresh = cd_new fresh True False 1024"

definition start_keyboard :: "port_reader \<Rightarrow> (nat \<Rightarrow> u32) \<Rightarrow> (usize \<Rightarrow> u8 list) \<Rightarrow> cpu \<Rightarrow> (cpu \<times> chrdev option) result" where
  "start_keyboard inb isr fresh c = bindr (arch_init inb isr c) (\<lambda>c. Inr (arch_set_keyboard_callback True (init_scheduler c), Some (kbd_new fresh)))"

lemma start_makes_ready:
  assumes "ci_pics c = pic_pair_new" "length (fresh 1024) = 1024"
  shows "\<exists>c' d. start_keyboard inb isr fresh c = Inr (c', Some d) \<and> desk_ready c' d"
proof -
  obtain c1 where c1: "arch_init inb isr c = Inr c1" "installed c1" using start_result [OF assms(1)] by blast
  have n: "unat (1024 :: usize) = 1024" by simp
  have "cb_wf (cb_new (fresh 1024) 1024)" by (rule cb_wf_new) (simp_all add: assms(2))
  then have "desk_ready (arch_set_keyboard_callback True (init_scheduler c1)) (kbd_new fresh)"
    unfolding desk_ready_def using c1(2)
    by (simp add: n kbd_new_def cd_views cd_new_def cb_contents_new big_enough_def arch_set_keyboard_callback_def init_scheduler_def installed_def) (simp add: cb_new_def)
  then show ?thesis using c1(1) by (simp add: start_keyboard_def)
qed

text \<open>C21: no key is lost on its way. After the kernel has started its interrupts and the keyboard, and when the terminal polls after each key, the scan
  codes that arrive as interrupts become, through the table of handlers, the callback of the kernel, the ring buffer of the device, however often
  it has wrapped around, and the reads of the terminal, the characters that its keyboard makes of this very list of codes, in their order.\<close>

theorem keys_reach_the_terminal:
  assumes "ci_pics c = pic_pair_new" "length (fresh 1024) = 1024" "handle_bytes scs k = Inr (out, k')"
  shows "\<exists>s c' d'. start_keyboard inb isr fresh c = Inr s \<and> type_keys r junk scs (fst s, snd s, k) = Inr (out, c', Some d', k') \<and> desk_ready c' d'"
proof -
  obtain c1 d where "start_keyboard inb isr fresh c = Inr (c1, Some d)" "desk_ready c1 d"
    using start_makes_ready [of c fresh inb isr, OF assms(1,2)] by blast
  then show ?thesis using keys_typed [OF _ assms(3)] by fastforce
qed

lemma keys_reach_the_terminal_witness:
  "\<exists>s c' d' k'. start_keyboard (\<lambda>_. 0) (\<lambda>i. of_nat i * 16) (\<lambda>n. replicate (unat n) 0) (demo_cpu\<lparr>ci_pics := pic_pair_new\<rparr>) = Inr s \<and>
     type_keys (demo_regs 33) [] [0x2a, 0xe0, 0x48, 0x1e] (fst s, snd s, demo_keyboard) = Inr ([27, 91, 65, 81], c', Some d', k')"
proof -
  have "case handle_bytes [0x2a, 0xe0, 0x48, 0x1e] demo_keyboard of Inr (out, k) \<Rightarrow> out = [27, 91, 65, 81] | Inl e \<Rightarrow> False" by code_simp
  then obtain k' where k: "handle_bytes [0x2a, 0xe0, 0x48, 0x1e] demo_keyboard = Inr ([27, 91, 65, 81], k')" by (auto split: sum.splits)
  from keys_reach_the_terminal [of "demo_cpu\<lparr>ci_pics := pic_pair_new\<rparr>" "\<lambda>n. replicate (unat n) 0", OF _ _ k] show ?thesis by fastforce
qed

end
