(* ===== verification/Libc_Heap.thy ===== *)
theory Libc_Heap
  imports Libc Heap Memory_Ops
begin

text \<open>
  The heap of a user program (\<open>user/libc/src/main.cpp\<close>, \<open>heap.cpp\<close>) and the small functions beside it (\<open>string.cpp\<close>, \<open>stdio.cpp\<close>). The allocator is
  the one of the kernel, theory Heap, except that freeing a pointer that is no block does nothing. Before the library has started there is no
  heap and nothing is allocated.
\<close>

abbreviation HEAP_BYTE_ALIGN_BITS :: u32 where "HEAP_BYTE_ALIGN_BITS \<equiv> 2"

text \<open>The function that enlarges the heap calls \<open>brk\<close> and returns true whatever that answers.\<close>

definition libc_resize :: resize_func where
  "libc_resize = Some (\<lambda>limit. True)"

definition libc_new_heap :: "usize \<Rightarrow> lcheap" where
  "libc_new_heap brk0 = lc_new brk0 brk0"

definition libc_malloc :: "lcheap option \<Rightarrow> usize \<Rightarrow> usize \<times> lcheap option" where
  "libc_malloc h n = (case h of None \<Rightarrow> (0, None) | Some h \<Rightarrow> let (p, h) = lc_malloc libc_resize h n HEAP_BYTE_ALIGN_BITS in (p, Some h))"

definition libc_realloc :: "lcheap option \<Rightarrow> usize \<Rightarrow> usize \<Rightarrow> (usize \<times> (usize \<times> usize \<times> usize) option \<times> lcheap option) result" where
  "libc_realloc h p n = (case h of None \<Rightarrow> Inr (0, None, None) | Some h \<Rightarrow> bindr (lc_realloc libc_resize h p n) (\<lambda>(q, c, h). Inr (q, c, Some h)))"

definition user_heap_free :: "lcheap \<Rightarrow> usize \<Rightarrow> lcheap result" where
  "user_heap_free h p = (case lc_locate (hp_blocks h) (p - HDR) of None \<Rightarrow> Inr h
     | Some i \<Rightarrow> bindr (nth_r (hp_blocks h) i) (\<lambda>b. lc_shrink libc_resize (lc_remove_at h i b) i (Suc i = length (hp_blocks h))))"

definition libc_free :: "lcheap option \<Rightarrow> usize \<Rightarrow> lcheap option result" where
  "libc_free h p = (case h of None \<Rightarrow> Inr None | Some h \<Rightarrow> bindr (user_heap_free h p) (\<lambda>h. Inr (Some h)))"

text \<open>\<open>operator new\<close>: the heap object itself is put below the break, of which 24 bytes are its size; everything later comes from the heap.\<close>

definition operator_new :: "'k sys \<Rightarrow> bool \<Rightarrow> usize \<Rightarrow> lcheap option \<Rightarrow> 'k libc \<Rightarrow> usize \<times> lcheap option \<times> 'k libc" where
  "operator_new sys malloc_heap n h s = (if malloc_heap then let (b, s) = libc_sbrk sys 0 s in (word_of_int b - 24, h, s)
     else let (p, h) = libc_malloc h n in (p, h, s))"

definition libc_memcpy :: "u8 list \<Rightarrow> nat \<Rightarrow> nat \<Rightarrow> nat \<Rightarrow> u8 list result" where
  "libc_memcpy m d s n = bindr (copy_words m d s (n div 4)) (\<lambda>(m, d, s). copy_bytes m d s n)"

fun libc_memset :: "u8 list \<Rightarrow> nat \<Rightarrow> u8 \<Rightarrow> nat \<Rightarrow> u8 list result" where
  "libc_memset m d v 0 = Inr m"
| "libc_memset m d v (Suc n) = bindr (upd_r m d v) (\<lambda>m. libc_memset m (d + 1) v n)"

fun libc_strlen :: "u8 list \<Rightarrow> nat result" where
  "libc_strlen [] = Inl Fault"
| "libc_strlen (c # cs) = (if c = 0 then Inr 0 else bindr (libc_strlen cs) (\<lambda>n. Inr (n + 1)))"

text \<open>\<open>puts\<close> writes the string without a new line; \<open>str\<close> is what is at the address \<open>p\<close>.\<close>

definition libc_puts :: "'k sys \<Rightarrow> u8 list \<Rightarrow> u32 \<Rightarrow> 'k libc \<Rightarrow> (int \<times> 'k libc) result" where
  "libc_puts sys str p s = bindr (libc_strlen str) (\<lambda>n. Inr (libc_write sys 1 p (of_nat n) s))"

definition libc_putchar :: "'k sys \<Rightarrow> u32 \<Rightarrow> 'k libc \<Rightarrow> int \<times> 'k libc" where
  "libc_putchar sys p s = libc_write sys 1 p 1 s"

subsection \<open>Properties\<close>

text \<open>Both fill routines, the one of the library by bytes and the one of the kernel by words, fill.\<close>

lemma libc_memset_fills: "d + n \<le> length m \<Longrightarrow> libc_memset m d v n = Inr (take d m @ replicate n v @ drop (d + n) m)"
proof (induction n arbitrary: m d)
  case 0
  then show ?case by simp
next
  case (Suc n)
  then have "libc_memset (m[d := v]) (d + 1) v n = Inr (take (d + 1) (m[d := v]) @ replicate n v @ drop (d + 1 + n) (m[d := v]))"
    by (intro Suc.IH) simp
  then show ?case using Suc.prems by (simp add: take_Suc_conv_app_nth)
qed

lemma libc_strlen_counts: "0 \<notin> set cs \<Longrightarrow> libc_strlen (cs @ 0 # r) = Inr (length cs)"
  by (induction cs) auto

text \<open>An allocation never returns a null pointer for want of memory: the pages that \<open>brk\<close> did not add are found to be missing when the block is
  used.\<close>

lemma malloc_ignores_brk:
  "libc_malloc (Some h) n = (p, h') \<Longrightarrow> p = snd (lc_find n HEAP_BYTE_ALIGN_BITS (lc_block_after (hp_base h) HEAP_BYTE_ALIGN_BITS) (hp_blocks h)) + HDR"
  by (auto simp: libc_malloc_def lc_malloc_def libc_resize_def blk_data_def Let_def split: prod.splits if_splits)

text \<open>Freeing what is no block leaves the heap as it is, where the kernel panics.\<close>

lemma free_of_no_block:
  assumes "lc_locate (hp_blocks h) (p - HDR) = None"
  shows "libc_free (Some h) p = Inr (Some h)" "lc_free rq h p = Inl Panic"
  using assms by (simp_all add: libc_free_def user_heap_free_def lc_free_def)

end
