(* ===== verification/Printf.thy ===== *)
theory Printf
  imports Libc_Heap
begin

text \<open>
  Formatted output of the C library (\<open>user/libc/src/printf.c\<close>, \<open>stdio.cpp\<close>), with which the shell prints. The functions of the file hand one
  character after the other to an output function together with its index; a conversion is modelled by the list of the characters that it hands
  over, and \<open>emit\<close> does so. A format and a string are the memory from their address on, and reading past it is a fault. The arguments are a list of what
  was pushed: an integer or a pointer, a 64-bit integer, a string, a floating point number of a type \<open>'d\<close>. The text of a floating point number is the
  parameter \<open>fd\<close>, for \<open>_ftoa\<close> and \<open>_etoa\<close> are arithmetic in doubles.
\<close>

subsection \<open>Flags, digits and padding\<close>

abbreviation PRINTF_NTOA_BUFFER_SIZE :: nat where "PRINTF_NTOA_BUFFER_SIZE \<equiv> 32"
abbreviation FLAGS_ZEROPAD :: u32 where "FLAGS_ZEROPAD \<equiv> 0x001"
abbreviation FLAGS_LEFT :: u32 where "FLAGS_LEFT \<equiv> 0x002"
abbreviation FLAGS_PLUS :: u32 where "FLAGS_PLUS \<equiv> 0x004"
abbreviation FLAGS_SPACE :: u32 where "FLAGS_SPACE \<equiv> 0x008"
abbreviation FLAGS_HASH :: u32 where "FLAGS_HASH \<equiv> 0x010"
abbreviation FLAGS_UPPERCASE :: u32 where "FLAGS_UPPERCASE \<equiv> 0x020"
abbreviation FLAGS_CHAR :: u32 where "FLAGS_CHAR \<equiv> 0x040"
abbreviation FLAGS_SHORT :: u32 where "FLAGS_SHORT \<equiv> 0x080"
abbreviation FLAGS_LONG :: u32 where "FLAGS_LONG \<equiv> 0x100"
abbreviation FLAGS_LONG_LONG :: u32 where "FLAGS_LONG_LONG \<equiv> 0x200"
abbreviation FLAGS_PRECISION :: u32 where "FLAGS_PRECISION \<equiv> 0x400"
abbreviation FLAGS_ADAPT_EXP :: u32 where "FLAGS_ADAPT_EXP \<equiv> 0x800"

definition flag_on :: "u32 \<Rightarrow> u32 \<Rightarrow> bool" where
  "flag_on flags b \<longleftrightarrow> flags AND b \<noteq> 0"

definition ch :: "char \<Rightarrow> u8" where
  "ch c = of_char c"

lemma ch_simps [simp]:
  "ch CHR '' '' = 0x20" "ch CHR ''0'' = 0x30" "ch CHR ''9'' = 0x39" "ch CHR ''-'' = 0x2d" "ch CHR ''+'' = 0x2b" "ch CHR ''#'' = 0x23"
    "ch CHR ''*'' = 0x2a" "ch CHR ''.'' = 0x2e" "ch CHR ''d'' = 0x64" "ch CHR ''i'' = 0x69" "ch CHR ''u'' = 0x75" "ch CHR ''x'' = 0x78"
    "ch CHR ''X'' = 0x58" "ch CHR ''o'' = 0x6f" "ch CHR ''b'' = 0x62" "ch CHR ''c'' = 0x63" "ch CHR ''s'' = 0x73" "ch CHR ''p'' = 0x70"
    "ch CHR ''%'' = 0x25" "ch CHR ''f'' = 0x66" "ch CHR ''F'' = 0x46" "ch CHR ''e'' = 0x65" "ch CHR ''E'' = 0x45" "ch CHR ''g'' = 0x67"
    "ch CHR ''G'' = 0x47" "ch CHR ''l'' = 0x6c" "ch CHR ''h'' = 0x68" "ch CHR ''t'' = 0x74" "ch CHR ''z'' = 0x7a" "ch CHR ''j'' = 0x6a"
    "ch CHR ''a'' = 0x61" "ch CHR ''A'' = 0x41"
  by (simp_all add: ch_def)

definition is_digit :: "u8 \<Rightarrow> bool" where
  "is_digit c \<longleftrightarrow> c \<ge> ch CHR ''0'' \<and> c \<le> ch CHR ''9''"

fun c_atoi :: "u8 list \<Rightarrow> u32 \<Rightarrow> (u32 \<times> u8 list) result" where
  "c_atoi [] i = Inl Fault"
| "c_atoi (c # cs) i = (if is_digit c then c_atoi cs (i * 10 + (ucast c - ucast (ch CHR ''0''))) else Inr (i, c # cs))"

definition out_rev :: "u8 list \<Rightarrow> u32 \<Rightarrow> u32 \<Rightarrow> u8 list" where
  "out_rev buf width flags = (let pad = replicate (unat width - length buf) (ch CHR '' '') in
     (if \<not> flag_on flags FLAGS_LEFT \<and> \<not> flag_on flags FLAGS_ZEROPAD then pad else []) @ rev buf @ (if flag_on flags FLAGS_LEFT then pad else []))"

text \<open>The buffer of 32 characters holds the number in reverse.\<close>

definition zeros_to :: "nat \<Rightarrow> u8 list \<Rightarrow> u8 list" where
  "zeros_to n buf = buf @ replicate (min n PRINTF_NTOA_BUFFER_SIZE - length buf) (ch CHR ''0'')"

definition push_char :: "u8 \<Rightarrow> u8 list \<Rightarrow> u8 list" where
  "push_char c buf = (if length buf < PRINTF_NTOA_BUFFER_SIZE then buf @ [c] else buf)"

definition hash_prefix :: "u8 list \<Rightarrow> u32 \<Rightarrow> u32 \<Rightarrow> u32 \<Rightarrow> u32 \<Rightarrow> u8 list" where
  "hash_prefix buf base prec width flags = (
     let buf = (if \<not> flag_on flags FLAGS_PRECISION \<and> buf \<noteq> [] \<and> (length buf = unat prec \<or> length buf = unat width)
         then (let b = butlast buf in if b \<noteq> [] \<and> base = 16 then butlast b else b) else buf);
       buf = (if base = 16 \<and> \<not> flag_on flags FLAGS_UPPERCASE then push_char (ch CHR ''x'') buf
         else if base = 16 then push_char (ch CHR ''X'') buf
         else if base = 2 then push_char (ch CHR ''b'') buf else buf)
     in push_char (ch CHR ''0'') buf)"

definition push_sign :: "bool \<Rightarrow> u32 \<Rightarrow> u8 list \<Rightarrow> u8 list" where
  "push_sign negative flags buf = (if negative then push_char (ch CHR ''-'') buf
     else if flag_on flags FLAGS_PLUS then push_char (ch CHR ''+'') buf
     else if flag_on flags FLAGS_SPACE then push_char (ch CHR '' '') buf else buf)"

definition ntoa_format :: "u8 list \<Rightarrow> bool \<Rightarrow> u32 \<Rightarrow> u32 \<Rightarrow> u32 \<Rightarrow> u32 \<Rightarrow> u8 list" where
  "ntoa_format buf negative base prec width flags = (let left = flag_on flags FLAGS_LEFT; zeropad = flag_on flags FLAGS_ZEROPAD;
     width = (if \<not> left \<and> width \<noteq> 0 \<and> zeropad \<and> (negative \<or> flag_on flags (FLAGS_PLUS OR FLAGS_SPACE)) then width - 1 else width);
     buf = (if left then buf else zeros_to (unat prec) buf);
     buf = (if \<not> left \<and> zeropad then zeros_to (unat width) buf else buf);
     buf = (if flag_on flags FLAGS_HASH then hash_prefix buf base prec width flags else buf)
     in out_rev (push_sign negative flags buf) width flags)"

definition digit_char :: "u32 \<Rightarrow> nat \<Rightarrow> u8" where
  "digit_char flags d = (if d < 10 then ch CHR ''0'' + of_nat d
     else (if flag_on flags FLAGS_UPPERCASE then ch CHR ''A'' else ch CHR ''a'') + of_nat d - 10)"

text \<open>The digits, the last one first; \<open>k\<close> is the room that is left.\<close>

fun ntoa_digits :: "nat \<Rightarrow> u32 \<Rightarrow> 'a::len word \<Rightarrow> 'a word \<Rightarrow> u8 list" where
  "ntoa_digits 0 flags base value = []"
| "ntoa_digits (Suc k) flags base value = digit_char flags (unat (value mod base)) #
     (if value div base \<noteq> 0 then ntoa_digits k flags base (value div base) else [])"

text \<open>\<open>_ntoa_long\<close> and \<open>_ntoa_long_long\<close> differ in the width of the value.\<close>

definition ntoa_long :: "'a::len word \<Rightarrow> bool \<Rightarrow> u32 \<Rightarrow> u32 \<Rightarrow> u32 \<Rightarrow> u32 \<Rightarrow> u8 list" where
  "ntoa_long value negative base prec width flags = (let flags = (if value = 0 then flags AND NOT FLAGS_HASH else flags);
     buf = (if \<not> flag_on flags FLAGS_PRECISION \<or> value \<noteq> 0 then ntoa_digits PRINTF_NTOA_BUFFER_SIZE flags (ucast base) value else [])
     in ntoa_format buf negative base prec width flags)"

subsection \<open>Arguments and conversions\<close>

datatype 'd va_item = VInt u32 | VLong u64 | VStr "u8 list" | VDouble 'd

fun va_int :: "'d va_item list \<Rightarrow> (u32 \<times> 'd va_item list) result" where
  "va_int (VInt v # va) = Inr (v, va)"
| "va_int va = Inl Fault"

fun va_long_long :: "'d va_item list \<Rightarrow> (u64 \<times> 'd va_item list) result" where
  "va_long_long (VLong v # va) = Inr (v, va)"
| "va_long_long va = Inl Fault"

fun va_str :: "'d va_item list \<Rightarrow> (u8 list \<times> 'd va_item list) result" where
  "va_str (VStr p # va) = Inr (p, va)"
| "va_str va = Inl Fault"

fun va_double :: "'d va_item list \<Rightarrow> ('d \<times> 'd va_item list) result" where
  "va_double (VDouble v # va) = Inr (v, va)"
| "va_double va = Inl Fault"

text \<open>The negation of the most negative number, which is undefined in C, wraps around as on the machine.\<close>

definition magnitude :: "'a::len word \<Rightarrow> 'a word" where
  "magnitude v = (if 0 <s v then v else 0 - v)"

text \<open>A char and a short are cut out of the integer that was passed and extended again.\<close>

definition signed_arg :: "u32 \<Rightarrow> u32 \<Rightarrow> u32" where
  "signed_arg flags v = (if flag_on flags FLAGS_LONG then v else if flag_on flags FLAGS_CHAR then scast (ucast v :: u8)
     else if flag_on flags FLAGS_SHORT then scast (ucast v :: u16) else v)"

definition unsigned_arg :: "u32 \<Rightarrow> u32 \<Rightarrow> u32" where
  "unsigned_arg flags v = (if flag_on flags FLAGS_LONG then v else if flag_on flags FLAGS_CHAR then ucast (ucast v :: u8)
     else if flag_on flags FLAGS_SHORT then ucast (ucast v :: u16) else v)"

definition int_base :: "u8 \<Rightarrow> u32" where
  "int_base c = (if c = ch CHR ''x'' \<or> c = ch CHR ''X'' then 16 else if c = ch CHR ''o'' then 8 else if c = ch CHR ''b'' then 2 else 10)"

definition int_flags :: "u8 \<Rightarrow> u32 \<Rightarrow> u32" where
  "int_flags c flags = (let flags = (if int_base c = 10 then flags AND NOT FLAGS_HASH else flags);
     flags = (if c = ch CHR ''X'' then flags OR FLAGS_UPPERCASE else flags);
     flags = (if c \<noteq> ch CHR ''i'' \<and> c \<noteq> ch CHR ''d'' then flags AND NOT (FLAGS_PLUS OR FLAGS_SPACE) else flags)
     in if flag_on flags FLAGS_PRECISION then flags AND NOT FLAGS_ZEROPAD else flags)"

definition conv_int :: "u8 \<Rightarrow> u32 \<Rightarrow> u32 \<Rightarrow> u32 \<Rightarrow> 'd va_item list \<Rightarrow> (u8 list \<times> 'd va_item list) result" where
  "conv_int c flags width prec va = (let base = int_base c; flags = int_flags c flags in
     if c = ch CHR ''i'' \<or> c = ch CHR ''d'' then
       (if flag_on flags FLAGS_LONG_LONG then bindr (va_long_long va) (\<lambda>(v, va). Inr (ntoa_long (magnitude v) (v <s 0) base prec width flags, va))
        else bindr (va_int va) (\<lambda>(v, va). let v = signed_arg flags v in Inr (ntoa_long (magnitude v) (v <s 0) base prec width flags, va)))
     else if flag_on flags FLAGS_LONG_LONG then bindr (va_long_long va) (\<lambda>(v, va). Inr (ntoa_long v False base prec width flags, va))
     else bindr (va_int va) (\<lambda>(v, va). Inr (ntoa_long (unsigned_arg flags v) False base prec width flags, va)))"

definition conv_char :: "u32 \<Rightarrow> u32 \<Rightarrow> 'd va_item list \<Rightarrow> (u8 list \<times> 'd va_item list) result" where
  "conv_char flags width va = bindr (va_int va) (\<lambda>(v, va). let pad = replicate (unat width - 1) (ch CHR '' '') in
     Inr (if flag_on flags FLAGS_LEFT then ucast v # pad else pad @ [ucast v], va))"

fun strnlen_s :: "u8 list \<Rightarrow> nat \<Rightarrow> nat result" where
  "strnlen_s [] n = Inl Fault"
| "strnlen_s (c # cs) n = (if c = 0 then Inr 0 else case n of 0 \<Rightarrow> Inr 0 | Suc n \<Rightarrow> bindr (strnlen_s cs n) (\<lambda>l. Inr (l + 1)))"

text \<open>The characters of a string, at most \<open>n\<close> of them when there is a precision.\<close>

fun str_chars :: "u8 list \<Rightarrow> nat option \<Rightarrow> u8 list result" where
  "str_chars [] lim = Inl Fault"
| "str_chars (c # cs) lim = (if c = 0 then Inr [] else case lim of
     None \<Rightarrow> bindr (str_chars cs None) (\<lambda>t. Inr (c # t))
   | Some 0 \<Rightarrow> Inr []
   | Some (Suc n) \<Rightarrow> bindr (str_chars cs (Some n)) (\<lambda>t. Inr (c # t)))"

definition conv_str :: "u32 \<Rightarrow> u32 \<Rightarrow> u32 \<Rightarrow> 'd va_item list \<Rightarrow> (u8 list \<times> 'd va_item list) result" where
  "conv_str flags width prec va = bindr (va_str va) (\<lambda>(p, va).
     bindr (strnlen_s p (if prec \<noteq> 0 then unat prec else unat (- 1 :: usize))) (\<lambda>l.
       let l = (if flag_on flags FLAGS_PRECISION then min l (unat prec) else l); pad = replicate (unat width - l) (ch CHR '' '') in
       bindr (str_chars p (if flag_on flags FLAGS_PRECISION then Some (unat prec) else None)) (\<lambda>t.
         Inr (if flag_on flags FLAGS_LEFT then t @ pad else pad @ t, va))))"

definition conv_ptr :: "u32 \<Rightarrow> u32 \<Rightarrow> 'd va_item list \<Rightarrow> (u8 list \<times> 'd va_item list) result" where
  "conv_ptr flags prec va = bindr (va_int va) (\<lambda>(v, va). Inr (ntoa_long v False 16 prec 8 (flags OR (FLAGS_ZEROPAD OR FLAGS_UPPERCASE)), va))"

type_synonym 'd double_text = "bool \<Rightarrow> 'd \<Rightarrow> u32 \<Rightarrow> u32 \<Rightarrow> u32 \<Rightarrow> u8 list"

definition conv_double :: "'d double_text \<Rightarrow> u8 \<Rightarrow> u32 \<Rightarrow> u32 \<Rightarrow> u32 \<Rightarrow> 'd va_item list \<Rightarrow> (u8 list \<times> 'd va_item list) result" where
  "conv_double fd c flags width prec va = (let flags = (if c = ch CHR ''g'' \<or> c = ch CHR ''G'' then flags OR FLAGS_ADAPT_EXP else flags);
     flags = (if c = ch CHR ''F'' \<or> c = ch CHR ''E'' \<or> c = ch CHR ''G'' then flags OR FLAGS_UPPERCASE else flags) in
     bindr (va_double va) (\<lambda>(v, va). Inr (fd (c = ch CHR ''f'' \<or> c = ch CHR ''F'') v prec width flags, va)))"

definition convert :: "'d double_text \<Rightarrow> u8 \<Rightarrow> u32 \<Rightarrow> u32 \<Rightarrow> u32 \<Rightarrow> 'd va_item list \<Rightarrow> (u8 list \<times> 'd va_item list) result" where
  "convert fd c flags width prec va =
    (if c \<in> set (map ch ''diuxXob'') then conv_int c flags width prec va
     else if c \<in> set (map ch ''fFeEgG'') then conv_double fd c flags width prec va
     else if c = ch CHR ''c'' then conv_char flags width va
     else if c = ch CHR ''s'' then conv_str flags width prec va
     else if c = ch CHR ''p'' then conv_ptr flags prec va
     else Inr ([c], va))"

subsection \<open>A conversion specification\<close>

definition flag_of :: "u8 \<Rightarrow> u32" where
  "flag_of c = (if c = ch CHR ''0'' then FLAGS_ZEROPAD else if c = ch CHR ''-'' then FLAGS_LEFT else if c = ch CHR ''+'' then FLAGS_PLUS
     else if c = ch CHR '' '' then FLAGS_SPACE else if c = ch CHR ''#'' then FLAGS_HASH else 0)"

fun parse_flags :: "u8 list \<Rightarrow> u32 \<Rightarrow> (u32 \<times> u8 list) result" where
  "parse_flags [] flags = Inl Fault"
| "parse_flags (c # cs) flags = (if flag_of c = 0 then Inr (flags, c # cs) else parse_flags cs (flags OR flag_of c))"

fun parse_width :: "u8 list \<Rightarrow> u32 \<Rightarrow> 'd va_item list \<Rightarrow> (u32 \<times> u32 \<times> u8 list \<times> 'd va_item list) result" where
  "parse_width [] flags va = Inl Fault"
| "parse_width (c # cs) flags va = (if is_digit c then bindr (c_atoi (c # cs) 0) (\<lambda>(w, fmt). Inr (flags, w, fmt, va))
     else if c = ch CHR ''*'' then bindr (va_int va) (\<lambda>(w, va). Inr (if w <s 0 then (flags OR FLAGS_LEFT, - w, cs, va) else (flags, w, cs, va)))
     else Inr (flags, 0, c # cs, va))"

fun parse_precision :: "u8 list \<Rightarrow> u32 \<Rightarrow> 'd va_item list \<Rightarrow> (u32 \<times> u32 \<times> u8 list \<times> 'd va_item list) result" where
  "parse_precision [] flags va = Inl Fault"
| "parse_precision (c # cs) flags va = (if c \<noteq> ch CHR ''.'' then Inr (flags, 0, c # cs, va) else (let flags = flags OR FLAGS_PRECISION in
     case cs of [] \<Rightarrow> Inl Fault | d # ds \<Rightarrow> if is_digit d then bindr (c_atoi cs 0) (\<lambda>(p, fmt). Inr (flags, p, fmt, va))
       else if d = ch CHR ''*'' then bindr (va_int va) (\<lambda>(p, va). Inr (flags, if 0 <s p then p else 0, ds, va))
       else Inr (flags, 0, cs, va)))"

text \<open>A doubled letter counts for more; \<open>ptrdiff_t\<close> and \<open>size_t\<close> are as wide as a long, \<open>intmax_t\<close> is wider.\<close>

definition parse_double :: "u8 \<Rightarrow> u8 list \<Rightarrow> u32 \<Rightarrow> u32 \<Rightarrow> (u32 \<times> u8 list) result" where
  "parse_double c cs flags twice = (case cs of [] \<Rightarrow> Inl Fault | d # ds \<Rightarrow> Inr (if d = c then (flags OR twice, ds) else (flags, cs)))"

fun parse_length :: "u8 list \<Rightarrow> u32 \<Rightarrow> (u32 \<times> u8 list) result" where
  "parse_length [] flags = Inl Fault"
| "parse_length (c # cs) flags = (if c = ch CHR ''l'' then parse_double c cs (flags OR FLAGS_LONG) FLAGS_LONG_LONG
     else if c = ch CHR ''h'' then parse_double c cs (flags OR FLAGS_SHORT) FLAGS_CHAR
     else if c = ch CHR ''t'' \<or> c = ch CHR ''z'' then Inr (flags OR FLAGS_LONG, cs)
     else if c = ch CHR ''j'' then Inr (flags OR FLAGS_LONG_LONG, cs)
     else Inr (flags, c # cs))"

text \<open>From behind the percent sign to behind the letter of the conversion.\<close>

definition parse_spec :: "u8 list \<Rightarrow> 'd va_item list \<Rightarrow> (u8 \<times> u32 \<times> u32 \<times> u32 \<times> u8 list \<times> 'd va_item list) result" where
  "parse_spec fmt va = bindr (parse_flags fmt 0) (\<lambda>(flags, fmt). bindr (parse_width fmt flags va) (\<lambda>(flags, width, fmt, va).
     bindr (parse_precision fmt flags va) (\<lambda>(flags, prec, fmt, va). bindr (parse_length fmt flags) (\<lambda>(flags, fmt).
       case fmt of [] \<Rightarrow> Inl Fault | c # fmt \<Rightarrow> Inr (c, flags, width, prec, fmt, va)))))"

lemma c_atoi_shorter: "c_atoi cs i = Inr (v, ds) \<Longrightarrow> length ds \<le> length cs"
  by (induction cs i rule: c_atoi.induct) (auto split: if_splits)

lemma parse_flags_shorter: "parse_flags cs f = Inr (g, ds) \<Longrightarrow> length ds \<le> length cs"
  by (induction cs f rule: parse_flags.induct) (auto split: if_splits)

lemma parse_width_shorter: "parse_width cs f va = Inr (g, w, ds, va') \<Longrightarrow> length ds \<le> length cs"
  by (cases cs) (auto simp: bindr_Inr_iff split: if_splits dest!: c_atoi_shorter)

lemma parse_precision_shorter: "parse_precision cs f va = Inr (g, w, ds, va') \<Longrightarrow> length ds \<le> length cs"
  by (cases cs) (auto simp: bindr_Inr_iff Let_def split: if_splits list.splits dest!: c_atoi_shorter)

lemma parse_length_shorter: "parse_length cs f = Inr (g, ds) \<Longrightarrow> length ds \<le> length cs"
  by (cases cs) (auto simp: parse_double_def split: if_splits list.splits)

lemma parse_spec_shorter:
  assumes "parse_spec cs va = Inr (c, f, w, p, ds, va')"
  shows "length ds < length cs"
proof -
  obtain f1 c1 where 1: "parse_flags cs 0 = Inr (f1, c1)" using assms by (auto simp: parse_spec_def bindr_Inr_iff)
  obtain f2 w2 c2 v2 where 2: "parse_width c1 f1 va = Inr (f2, w2, c2, v2)" using assms 1 by (auto simp: parse_spec_def bindr_Inr_iff)
  obtain f3 p3 c3 v3 where 3: "parse_precision c2 f2 v2 = Inr (f3, p3, c3, v3)" using assms 1 2 by (auto simp: parse_spec_def bindr_Inr_iff)
  obtain f4 c4 where 4: "parse_length c3 f3 = Inr (f4, c4)" using assms 1 2 3 by (auto simp: parse_spec_def bindr_Inr_iff)
  have "length ds < length c4" using assms 1 2 3 4 by (auto simp: parse_spec_def split: list.splits)
  then show ?thesis
    using parse_flags_shorter [OF 1] parse_width_shorter [OF 2] parse_precision_shorter [OF 3] parse_length_shorter [OF 4] by simp
qed

subsection \<open>Output\<close>

text \<open>An output function takes the character, its index, the limit and what it writes to.\<close>

type_synonym 'o out_fct = "u8 \<Rightarrow> usize \<Rightarrow> usize \<Rightarrow> 'o \<Rightarrow> 'o result"

definition out_buffer :: "u8 list out_fct" where
  "out_buffer c idx maxlen b = (if idx < maxlen then upd_r b (unat idx) c else Inr b)"

definition out_null :: "'o out_fct" where
  "out_null c idx maxlen o1 = Inr o1"

text \<open>\<open>_putchar\<close> and the caller's function are parameters here.\<close>

definition out_char :: "(u8 \<Rightarrow> 'o \<Rightarrow> 'o result) \<Rightarrow> 'o out_fct" where
  "out_char putc c idx maxlen o1 = (if c \<noteq> 0 then putc c o1 else Inr o1)"

definition out_call :: "(u8 \<Rightarrow> 'a \<Rightarrow> 'o \<Rightarrow> 'o result) \<Rightarrow> 'a \<Rightarrow> 'o out_fct" where
  "out_call fct arg c idx maxlen o1 = (if c \<noteq> 0 then fct c arg o1 else Inr o1)"

definition emit :: "'o out_fct \<Rightarrow> usize \<Rightarrow> u8 list \<Rightarrow> usize \<times> 'o \<Rightarrow> (usize \<times> 'o) result" where
  "emit out maxlen cs s = run_all (\<lambda>(idx, o1) c. bindr (out c idx maxlen o1) (\<lambda>o1. Inr (idx + 1, o1))) s cs"

lemma bindr_cong [fundef_cong]: "m = m' \<Longrightarrow> (\<And>x. m' = Inr x \<Longrightarrow> f x = f' x) \<Longrightarrow> bindr m f = bindr m' f'"
  by (auto simp: bindr_def split: sum.splits)

function vsn_loop :: "'d double_text \<Rightarrow> 'o out_fct \<Rightarrow> usize \<Rightarrow> u8 list \<Rightarrow> 'd va_item list \<Rightarrow> usize \<times> 'o \<Rightarrow> (usize \<times> 'o) result" where
  "vsn_loop fd out maxlen [] va s = Inl Fault"
| "vsn_loop fd out maxlen (c # cs) va s = (if c = 0 then Inr s
     else if c \<noteq> ch CHR ''%'' then bindr (emit out maxlen [c] s) (\<lambda>s. vsn_loop fd out maxlen cs va s)
     else bindr (parse_spec cs va) (\<lambda>(c, flags, width, prec, fmt, va). bindr (convert fd c flags width prec va) (\<lambda>(t, va).
       bindr (emit out maxlen t s) (\<lambda>s. vsn_loop fd out maxlen fmt va s))))"
  by pat_completeness auto
termination
  by (relation "measure (\<lambda>(fd, out, maxlen, fmt, va, s). length fmt)") (auto dest: parse_spec_shorter)

declare vsn_loop.simps [simp del]

definition vsnprintf_internal :: "'d double_text \<Rightarrow> 'o out_fct \<Rightarrow> usize \<Rightarrow> u8 list \<Rightarrow> 'd va_item list \<Rightarrow> 'o \<Rightarrow> (int \<times> 'o) result" where
  "vsnprintf_internal fd out maxlen fmt va o1 = bindr (vsn_loop fd out maxlen fmt va (0, o1)) (\<lambda>(idx, o1).
     bindr (out 0 (if idx < maxlen then idx else maxlen - 1) maxlen o1) (\<lambda>o1. Inr (sint idx, o1)))"

text \<open>The buffer may be a null pointer.\<close>

definition vsnprintf :: "'d double_text \<Rightarrow> u8 list option \<Rightarrow> usize \<Rightarrow> u8 list \<Rightarrow> 'd va_item list \<Rightarrow> (int \<times> u8 list option) result" where
  "vsnprintf fd dst count fmt va = (case dst of
     None \<Rightarrow> bindr (vsnprintf_internal fd out_null count fmt va ([] :: u8 list)) (\<lambda>(n, _). Inr (n, None))
   | Some b \<Rightarrow> bindr (vsnprintf_internal fd out_buffer count fmt va b) (\<lambda>(n, b). Inr (n, Some b)))"

definition snprintf :: "'d double_text \<Rightarrow> u8 list option \<Rightarrow> usize \<Rightarrow> u8 list \<Rightarrow> 'd va_item list \<Rightarrow> (int \<times> u8 list option) result" where
  "snprintf fd dst count fmt va = vsnprintf fd dst count fmt va"

definition sprintf :: "'d double_text \<Rightarrow> u8 list option \<Rightarrow> u8 list \<Rightarrow> 'd va_item list \<Rightarrow> (int \<times> u8 list option) result" where
  "sprintf fd dst fmt va = vsnprintf fd dst (- 1) fmt va"

definition vprintf :: "'d double_text \<Rightarrow> (u8 \<Rightarrow> 'o \<Rightarrow> 'o result) \<Rightarrow> u8 list \<Rightarrow> 'd va_item list \<Rightarrow> 'o \<Rightarrow> (int \<times> 'o) result" where
  "vprintf fd putc fmt va o1 = vsnprintf_internal fd (out_char putc) (- 1) fmt va o1"

definition printf :: "'d double_text \<Rightarrow> (u8 \<Rightarrow> 'o \<Rightarrow> 'o result) \<Rightarrow> u8 list \<Rightarrow> 'd va_item list \<Rightarrow> 'o \<Rightarrow> (int \<times> 'o) result" where
  "printf fd putc fmt va o1 = vsnprintf_internal fd (out_char putc) (- 1) fmt va o1"

definition fctprintf :: "'d double_text \<Rightarrow> (u8 \<Rightarrow> 'a \<Rightarrow> 'o \<Rightarrow> 'o result) \<Rightarrow> 'a \<Rightarrow> u8 list \<Rightarrow> 'd va_item list \<Rightarrow> 'o \<Rightarrow> (int \<times> 'o) result" where
  "fctprintf fd fct arg fmt va o1 = vsnprintf_internal fd (out_call fct arg) (- 1) fmt va o1"

subsection \<open>Formatting and writing come apart\<close>

text \<open>What a format and its arguments stand for, whatever it is written to.\<close>

function format_text :: "'d double_text \<Rightarrow> u8 list \<Rightarrow> 'd va_item list \<Rightarrow> u8 list result" where
  "format_text fd [] va = Inl Fault"
| "format_text fd (c # cs) va = (if c = 0 then Inr []
     else if c \<noteq> ch CHR ''%'' then bindr (format_text fd cs va) (\<lambda>t. Inr (c # t))
     else bindr (parse_spec cs va) (\<lambda>(c, flags, width, prec, fmt, va). bindr (convert fd c flags width prec va) (\<lambda>(t, va).
       bindr (format_text fd fmt va) (\<lambda>u. Inr (t @ u)))))"
  by pat_completeness auto
termination
  by (relation "measure (\<lambda>(fd, fmt, va). length fmt)") (auto dest: parse_spec_shorter)

declare format_text.simps [simp del]

lemma emit_append: "emit out m (xs @ ys) s = bindr (emit out m xs s) (emit out m ys)"
  by (simp add: emit_def [abs_def] run_all_append)

lemma loop_emits: "format_text fd fmt va = Inr t \<Longrightarrow> vsn_loop fd out m fmt va s = emit out m t s"
proof (induction fd fmt va arbitrary: t s rule: format_text.induct)
  case (1 fd va)
  then show ?case by (simp add: format_text.simps)
next
  case (2 fd c cs va)
  show ?case
  proof (cases "c = 0 \<or> c \<noteq> ch CHR ''%''")
    case True
    then show ?thesis using 2(1,3) by (auto simp: format_text.simps vsn_loop.simps bindr_Inr_iff emit_def bindr_assoc split: prod.splits intro!: arg_cong2 [where f = bindr])
  next
    case False
    then obtain d f w p ds va1 u va2 v where s: "parse_spec cs va = Inr (d, f, w, p, ds, va1)" "convert fd d f w p va1 = Inr (u, va2)"
      "format_text fd ds va2 = Inr v" "t = u @ v"
      using 2(3) by (auto simp: format_text.simps bindr_Inr_iff)
    have "vsn_loop fd out m ds va2 s' = emit out m v s'" for s'
      using 2(2) [of "(d, f, w, p, ds, va1)" d "(f, w, p, ds, va1)" f "(w, p, ds, va1)" w "(p, ds, va1)" p "(ds, va1)" ds va1 "(u, va2)" u va2 v s'] False s by simp
    then have "vsn_loop fd out m ds va2 = emit out m v" by (simp add: fun_eq_iff)
    then show ?thesis using False s by (simp add: vsn_loop.simps emit_append)
  qed
qed

subsection \<open>Output to a buffer is bounded\<close>

lemma emit_buffer:
  assumes "unat m \<le> length b" "i + length cs < 4294967296"
  shows "emit out_buffer m cs (of_nat i, b) = (let k = min (length cs) (unat m - i) in
    Inr (of_nat (i + length cs), take i b @ take k cs @ drop (i + k) b))"
  using assms
proof (induction cs arbitrary: i b)
  case Nil
  then show ?case by (simp add: emit_def)
next
  case (Cons c cs)
  have u: "unat (of_nat i :: usize) = i" using Cons.prems(2) by (simp add: unat_of_nat32)
  have n: "(of_nat i :: usize) + 1 = of_nat (Suc i)" by simp
  show ?case
  proof (cases "i < unat m")
    case True
    have "emit out_buffer m (c # cs) (of_nat i, b) = emit out_buffer m cs (of_nat (Suc i), b[i := c])"
      using True Cons.prems(1) unfolding emit_def by (simp add: out_buffer_def word_less_unat u n upd_r_def)
    also have "\<dots> = (let k = min (length cs) (unat m - Suc i) in
      Inr (of_nat (Suc i + length cs), take (Suc i) (b[i := c]) @ take k cs @ drop (Suc i + k) (b[i := c])))"
      using Cons.prems by (intro Cons.IH) simp_all
    moreover have "min (length (c # cs)) (unat m - i) = Suc (min (length cs) (unat m - Suc i))" using True by simp
    moreover have "take (Suc i) (b[i := c]) = take i b @ [c]" using True Cons.prems(1) by (simp add: take_Suc_conv_app_nth)
    ultimately show ?thesis by (simp add: Let_def)
  next
    case False
    have "emit out_buffer m (c # cs) (of_nat i, b) = emit out_buffer m cs (of_nat (Suc i), b)"
      using False unfolding emit_def by (simp add: out_buffer_def word_less_unat u n)
    also have "\<dots> = (let k = min (length cs) (unat m - Suc i) in Inr (of_nat (Suc i + length cs), take (Suc i) b @ take k cs @ drop (Suc i + k) b))"
      using Cons.prems by (intro Cons.IH) simp_all
    finally show ?thesis using False by (simp add: Let_def)
  qed
qed

text \<open>C14: \<open>snprintf\<close> returns how long the whole text is and writes no further than it may: the text as far as it fits, a zero behind it, and the
  rest of the buffer as it was; with no room at all it writes nothing.\<close>

theorem formatted_print_is_bounded:
  assumes "format_text fd fmt va = Inr t" "length t < 2147483648" "unat count \<le> length b"
  shows "snprintf fd (Some b) count fmt va = Inr (int (length t), Some (if count = 0 then b
    else let j = min (length t) (unat count - 1) in take j t @ 0 # drop (Suc j) b))"
proof -
  let ?b = "take (min (length t) (unat count)) t @ drop (min (length t) (unat count)) b"
  have e: "emit out_buffer count t (0, b) = Inr (of_nat (length t), ?b)"
    using emit_buffer [of count b 0 t] assms by (simp add: Let_def)
  have u: "unat (of_nat (length t) :: usize) = length t" using assms(2) by (simp add: unat_of_nat take_bit_nat_eq_self)
  have s: "sint (of_nat (length t) :: usize) = int (length t)" using assms(2) by (simp add: signed_of_nat signed_take_bit_int_eq_self)
  have l: "out_buffer 0 (if of_nat (length t) < count then of_nat (length t) else count - 1) count ?b =
    Inr (if count = 0 then b else let j = min (length t) (unat count - 1) in take j t @ 0 # drop (Suc j) b)" (is "?l = ?r")
  proof (cases "count = 0")
    case False
    then have c: "0 < unat count" "unat (count - 1) = unat count - 1" by (simp_all add: unat_gt_0 unat_minus_one)
    show ?thesis
    proof (cases "length t < unat count")
      case True
      then have "drop (length t) b = b ! length t # drop (Suc (length t)) b" using assms(3) by (simp add: Cons_nth_drop_Suc)
      then show ?thesis using True assms(3) by (simp add: out_buffer_def upd_r_def word_less_unat u False list_update_append Let_def)
    next
      case f: False
      then have "take (unat count) t = take (unat count - 1) t @ [t ! (unat count - 1)]" using c(1) by (simp add: take_Suc_conv_app_nth [symmetric])
      moreover have "unat count - 1 < length b" using assms(3) c(1) by simp
      ultimately show ?thesis using f c by (simp add: out_buffer_def upd_r_def word_less_unat u False list_update_append Let_def)
    qed
  qed (simp add: out_buffer_def)
  show ?thesis unfolding snprintf_def vsnprintf_def vsnprintf_internal_def
    by (simp add: loop_emits [OF assms(1)] e l [unfolded u] s)
qed

subsection \<open>Integers are printed as the standard says\<close>

function radix :: "nat \<Rightarrow> nat \<Rightarrow> nat list" where
  "radix b v = (if b < 2 \<or> v < b then [v] else radix b (v div b) @ [v mod b])"
  by pat_completeness auto
termination
  by (relation "measure snd") auto

declare radix.simps [simp del]

definition std_digit :: "bool \<Rightarrow> nat \<Rightarrow> u8" where
  "std_digit up d = of_char ((if up then ''0123456789ABCDEF'' else ''0123456789abcdef'') ! d)"

text \<open>What the standard asks of an integer conversion: at least as many digits as the precision, the sign in front of them, and the field filled up
  on the right, with zeros behind the sign when there is no precision, or with blanks in front.\<close>

definition std_field :: "bool \<Rightarrow> bool \<Rightarrow> nat \<Rightarrow> nat \<Rightarrow> u8 list \<Rightarrow> u8 list \<Rightarrow> u8 list" where
  "std_field left zero prec width sg ds = (let body = replicate (prec - length ds) (ch CHR ''0'') @ ds; fill = width - length sg - length body in
     if left then sg @ body @ replicate fill (ch CHR '' '') else if zero then sg @ replicate fill (ch CHR ''0'') @ body
     else replicate fill (ch CHR '' '') @ sg @ body)"

definition std_sign :: "bool \<Rightarrow> bool \<Rightarrow> bool \<Rightarrow> u8 list" where
  "std_sign negative signed_always space = (if negative then [ch CHR ''-''] else if signed_always then [ch CHR ''+''] else if space then [ch CHR '' ''] else [])"

lemma std_field_body:
  "replicate (p - length xs) (ch CHR ''0'') @ xs = replicate (p - length ys) (ch CHR ''0'') @ ys \<Longrightarrow> std_field l z p w s xs = std_field l z p w s ys"
  by (simp only: std_field_def Let_def)

lemma flag_on_simps [simp]: "flag_on (f AND NOT m) b = flag_on f (b AND NOT m)" "flag_on (f OR g) b \<longleftrightarrow> flag_on f b \<or> flag_on g b"
  "\<not> flag_on f 0" "\<not> flag_on 0 b"
proof -
  have "(f AND NOT m) AND b = f AND (b AND NOT m)" by (simp add: and.assoc and.commute [of b])
  then show "flag_on (f AND NOT m) b = flag_on f (b AND NOT m)" by (simp add: flag_on_def)
  show "flag_on (f OR g) b \<longleftrightarrow> flag_on f b \<or> flag_on g b" unfolding flag_on_def by (simp add: bit.conj_disj_distrib2 or_eq_0_iff)
qed (simp_all add: flag_on_def)

lemma flag_on_two: "flag_on f (a OR b) \<longleftrightarrow> flag_on f a \<or> flag_on f b"
  unfolding flag_on_def by (simp add: bit.conj_disj_distrib or_eq_0_iff)

lemma format_standard:
  fixes width prec :: u32
  assumes "\<not> flag_on g FLAGS_HASH" "length sg + length ds \<le> 32" "length sg + unat prec \<le> 32"
    "sg = std_sign neg (flag_on g FLAGS_PLUS) (flag_on g FLAGS_SPACE)"
    "flag_on g FLAGS_LEFT \<Longrightarrow> unat prec \<le> length ds" "flag_on g FLAGS_ZEROPAD \<Longrightarrow> unat width \<le> 32"
  shows "ntoa_format (rev ds) neg base prec width g =
    std_field (flag_on g FLAGS_LEFT) (flag_on g FLAGS_ZEROPAD) (unat prec) (unat width) sg ds"
proof -
  define body where "body = replicate (unat prec - length ds) (ch CHR ''0'') @ ds"
  have lb: "length body = max (unat prec) (length ds)" by (simp add: body_def)
  have z: "zeros_to (unat prec) (rev ds) = rev body" using assms(2,3) by (simp add: zeros_to_def body_def)
  have ps: "push_sign neg g (rev xs) = rev (sg @ xs)" if "length sg + length xs \<le> 32" for xs
    using that unfolding assms(4) by (auto simp: push_sign_def std_sign_def push_char_def split: if_splits)
  have room: "length sg + length body \<le> 32" using assms(2,3) lb by simp
  have sf: "std_field l zp (unat prec) (unat width) sg ds = (let fill = unat width - length sg - length body in
     if l then sg @ body @ replicate fill (ch CHR '' '') else if zp then sg @ replicate fill (ch CHR ''0'') @ body
     else replicate fill (ch CHR '' '') @ sg @ body)" for l zp
    by (simp add: std_field_def body_def Let_def)
  show ?thesis
  proof (cases "flag_on g FLAGS_LEFT")
    case True
    then show ?thesis using assms(1,2,5) ps [of ds] by (simp add: ntoa_format_def out_rev_def std_field_def Let_def add.commute [of "length ds"])
  next
    case left: False
    show ?thesis
    proof (cases "flag_on g FLAGS_ZEROPAD")
      case True
      let ?w = "if width \<noteq> 0 \<and> (neg \<or> flag_on g (FLAGS_PLUS OR FLAGS_SPACE)) then width - 1 else width"
      have sg: "length sg = (if neg \<or> flag_on g (FLAGS_PLUS OR FLAGS_SPACE) then 1 else 0)" unfolding assms(4) flag_on_two by (simp add: std_sign_def)
      have w: "unat ?w = unat width - length sg" using sg by (simp add: unat_minus_one)
      have "zeros_to (unat ?w) (rev body) = rev (replicate (unat width - length sg - length body) (ch CHR ''0'') @ body)"
        unfolding w zeros_to_def using assms(6) [OF True] by simp
      moreover have "push_sign neg g (rev (replicate (unat width - length sg - length body) (ch CHR ''0'') @ body)) =
          rev (sg @ replicate (unat width - length sg - length body) (ch CHR ''0'') @ body)"
        using room assms(6) [OF True] by (intro ps) simp
      ultimately show ?thesis using left True assms(1) z unfolding sf by (simp add: ntoa_format_def out_rev_def Let_def)
    next
      case False
      then show ?thesis using left assms(1) z ps [OF room] unfolding sf by (simp add: ntoa_format_def out_rev_def Let_def add.commute [of "length body"])
    qed
  qed
qed

lemma digit_standard: "d < 16 \<Longrightarrow> digit_char g d = std_digit (flag_on g FLAGS_UPPERCASE) d"
proof -
  assume "d < 16"
  then have "d = 0 \<or> d = 1 \<or> d = 2 \<or> d = 3 \<or> d = 4 \<or> d = 5 \<or> d = 6 \<or> d = 7 \<or> d = 8 \<or> d = 9 \<or> d = 10 \<or> d = 11 \<or> d = 12 \<or>
    d = 13 \<or> d = 14 \<or> d = 15" by presburger
  then show ?thesis by (elim disjE) (simp_all add: digit_char_def std_digit_def)
qed

lemma radix_bound: "2 \<le> b \<Longrightarrow> v < b ^ k \<Longrightarrow> 0 < k \<Longrightarrow> length (radix b v) \<le> k"
proof (induction k arbitrary: v)
  case (Suc k)
  show ?case
  proof (cases "v < b")
    case True
    then show ?thesis by (simp add: radix.simps [of b v])
  next
    case False
    then have "0 < k" using Suc.prems(2) by (cases k) simp_all
    moreover have "v div b < b ^ k" using Suc.prems by (simp add: less_mult_imp_div_less ac_simps)
    ultimately show ?thesis using False Suc.IH [of "v div b"] Suc.prems(1) by (simp add: radix.simps [of b v])
  qed
qed simp

lemma digits_standard:
  fixes v base :: "'a::len word"
  assumes "2 \<le> unat base" "unat base \<le> 16"
  shows "length (radix (unat base) (unat v)) \<le> k \<Longrightarrow>
    ntoa_digits k g base v = rev (map (std_digit (flag_on g FLAGS_UPPERCASE)) (radix (unat base) (unat v)))"
proof (induction k arbitrary: v)
  case 0
  then show ?case by (simp add: radix.simps [of "unat base" "unat v"] split: if_splits)
next
  case (Suc k)
  have u: "unat (v div base) = unat v div unat base" "unat (v mod base) = unat v mod unat base" by (simp_all add: unat_div unat_mod)
  have d: "digit_char g (unat v mod unat base) = std_digit (flag_on g FLAGS_UPPERCASE) (unat v mod unat base)"
    using assms mod_less_divisor [of "unat base" "unat v"] by (intro digit_standard) linarith
  have z: "v div base = 0 \<longleftrightarrow> unat v < unat base" unfolding unat_eq_0 [symmetric] u using assms(1) by (auto simp: div_eq_0_iff)
  show ?case
  proof (cases "unat v < unat base")
    case True
    then show ?thesis using d z u assms(1) by (simp add: radix.simps [of "unat base" "unat v"])
  next
    case False
    then have r: "radix (unat base) (unat v) = radix (unat base) (unat (v div base)) @ [unat v mod unat base]"
      using assms(1) u by (simp add: radix.simps [of "unat base" "unat v"])
    then show ?thesis using Suc.IH [of "v div base"] Suc.prems False z d u(2) by simp
  qed
qed

text \<open>The number that an argument of at most 32 bits stands for.\<close>

definition int_bits :: "u32 \<Rightarrow> nat" where
  "int_bits flags = (if flag_on flags FLAGS_LONG then 32 else if flag_on flags FLAGS_CHAR then 8 else if flag_on flags FLAGS_SHORT then 16 else 32)"

definition is_signed :: "u8 \<Rightarrow> bool" where
  "is_signed c \<longleftrightarrow> c = ch CHR ''d'' \<or> c = ch CHR ''i''"

definition int_meaning :: "u8 \<Rightarrow> u32 \<Rightarrow> u32 \<Rightarrow> int" where
  "int_meaning c flags v = (if is_signed c then signed_take_bit (int_bits flags - 1) (sint v) else take_bit (int_bits flags) (uint v))"

definition std_digits :: "u8 \<Rightarrow> int \<Rightarrow> u8 list" where
  "std_digits c v = map (std_digit (c = ch CHR ''X'')) (radix (unat (int_base c)) (nat \<bar>v\<bar>))"

definition std_int :: "u8 \<Rightarrow> u32 \<Rightarrow> u32 \<Rightarrow> u32 \<Rightarrow> int \<Rightarrow> u8 list" where
  "std_int c flags width prec v = (let pr = flag_on flags FLAGS_PRECISION in
     std_field (flag_on flags FLAGS_LEFT) (flag_on flags FLAGS_ZEROPAD \<and> \<not> pr) (unat prec) (unat width)
       (std_sign (v < 0) (is_signed c \<and> flag_on flags FLAGS_PLUS) (is_signed c \<and> flag_on flags FLAGS_SPACE))
       (if v = 0 \<and> pr \<and> prec = 0 then [] else std_digits c v))"

lemma signed_arg_meaning: "sint (signed_arg flags v) = signed_take_bit (int_bits flags - 1) (sint v)"
proof -
  have "sint (scast (ucast v :: u8) :: u32) = signed_take_bit 7 (sint v)" "sint (scast (ucast v :: u16) :: u32) = signed_take_bit 15 (sint v)"
    unfolding signed_scast_eq [where 'c = 32] unfolding signed_ucast_eq unfolding sint_uint by simp_all
  moreover have "signed_take_bit 31 (sint v) = sint v" by (simp add: sint_uint)
  ultimately show ?thesis by (simp add: signed_arg_def int_bits_def)
qed

lemma unsigned_arg_meaning: "uint (unsigned_arg flags v) = take_bit (int_bits flags) (uint v)"
proof -
  have "uint (ucast (ucast v :: u8) :: u32) = take_bit 8 (uint v)" "uint (ucast (ucast v :: u16) :: u32) = take_bit 16 (uint v)"
    unfolding unsigned_ucast_eq [where 'c = 32 and 'b = 8] unsigned_ucast_eq [where 'c = 32 and 'b = 16] by (simp_all add: unsigned_ucast_eq)
  then show ?thesis by (simp add: unsigned_arg_def int_bits_def bintr_uint)
qed

lemma sless_zero: "v <s 0 \<longleftrightarrow> sint v < 0" for v :: u32
  by (simp add: word_sless_alt)

lemma magnitude_abs: "unat (magnitude v) = nat \<bar>sint v\<bar>" for v :: u32
proof (cases "0 < sint v")
  case True
  moreover have "uint v = sint v mod 4294967296" by (subst uint_sint) (simp add: take_bit_eq_mod)
  moreover have "sint v < 4294967296" using sint_lt [of v] by simp
  ultimately have "uint v = sint v" by simp
  then show ?thesis using True by (simp add: magnitude_def word_sless_alt unat_eq_nat_uint)
next
  case False
  have "- v = word_of_int (- sint v)" by simp
  then have "uint (- v) = (- sint v) mod 4294967296" by (simp only: unsigned_of_int) (simp add: take_bit_eq_mod)
  moreover have "- sint v < 4294967296" using sint_greater_eq [of v] by simp
  ultimately have "uint (- v) = - sint v" using False by simp
  then show ?thesis using False by (simp add: magnitude_def word_sless_alt unat_eq_nat_uint)
qed

lemma int_base_cases: "c \<in> set (map ch ''diuxXob'') \<Longrightarrow> 2 \<le> unat (int_base c) \<and> unat (int_base c) \<le> 16"
  by (auto simp: int_base_def)

text \<open>A whole number that is printed without a mark of its base.\<close>

lemma number_standard:
  fixes v :: u32 and width prec :: u32
  assumes "\<not> flag_on g FLAGS_HASH" "2 \<le> unat base" "unat base \<le> 16" "unat prec \<le> 31"
    "neg \<or> flag_on g FLAGS_PLUS \<or> flag_on g FLAGS_SPACE \<Longrightarrow> base = 10" "flag_on g FLAGS_ZEROPAD \<Longrightarrow> unat width \<le> 32"
    "\<not> flag_on g FLAGS_PRECISION \<Longrightarrow> prec = 0"
    "ds = map (std_digit (flag_on g FLAGS_UPPERCASE)) (radix (unat base) (unat v))"
    "flag_on g FLAGS_LEFT \<Longrightarrow> unat prec \<le> (if v = 0 \<and> flag_on g FLAGS_PRECISION then 0 else length ds)"
  shows "ntoa_long v neg base prec width g = std_field (flag_on g FLAGS_LEFT) (flag_on g FLAGS_ZEROPAD) (unat prec) (unat width)
    (std_sign neg (flag_on g FLAGS_PLUS) (flag_on g FLAGS_SPACE)) (if v = 0 \<and> flag_on g FLAGS_PRECISION \<and> prec = 0 then [] else ds)"
proof -
  define sg where "sg = std_sign neg (flag_on g FLAGS_PLUS) (flag_on g FLAGS_SPACE)"
  have sg1: "length sg \<le> 1" "sg \<noteq> [] \<Longrightarrow> base = 10" using assms(5) by (auto simp: sg_def std_sign_def split: if_splits)
  have vb: "unat v < 2 ^ 32" using unsigned_less [of v] by simp
  have len: "length ds \<le> 32" "sg \<noteq> [] \<Longrightarrow> length ds \<le> 10"
  proof -
    have "unat v < unat base ^ 32" using vb power_mono [OF assms(2), of 32] by simp
    then show "length ds \<le> 32" unfolding assms(8) using radix_bound [OF assms(2), of "unat v" 32] by simp
    show "length ds \<le> 10" if "sg \<noteq> []" using sg1(2) [OF that] radix_bound [of 10 "unat v" 10] vb unfolding assms(8) by simp
  qed
  define g' where "g' = (if v = 0 then g AND NOT FLAGS_HASH else g)"
  have g': "flag_on g' b = flag_on g b" if "b AND NOT FLAGS_HASH = b" for b unfolding g'_def using flag_on_simps(1) [of g FLAGS_HASH b] that by (cases "v = 0") (simp_all only: simp_thms if_True if_False)
  have f: "flag_on g' FLAGS_LEFT = flag_on g FLAGS_LEFT" "flag_on g' FLAGS_ZEROPAD = flag_on g FLAGS_ZEROPAD" "flag_on g' FLAGS_PLUS = flag_on g FLAGS_PLUS"
    "flag_on g' FLAGS_SPACE = flag_on g FLAGS_SPACE" "flag_on g' FLAGS_PRECISION = flag_on g FLAGS_PRECISION" "flag_on g' FLAGS_UPPERCASE = flag_on g FLAGS_UPPERCASE"
    by (rule g'; simp)+
  have h: "\<not> flag_on g' FLAGS_HASH" using assms(1) flag_on_simps(1) [of g FLAGS_HASH FLAGS_HASH] by (simp add: g'_def)
  have dg: "ntoa_digits 32 g' base v = rev ds" using digits_standard [of base v 32 g'] assms(2,3,8) len(1) f(6) by simp
  let ?es = "if \<not> flag_on g FLAGS_PRECISION \<or> v \<noteq> 0 then ds else []"
  have es: "length ?es = (if v = 0 \<and> flag_on g FLAGS_PRECISION then 0 else length ds)" by auto
  have "ntoa_long v neg base prec width g = ntoa_format (rev ?es) neg base prec width g'"
    unfolding ntoa_long_def using f(5) dg by (simp add: Let_def g'_def [symmetric])
  also have "\<dots> = std_field (flag_on g' FLAGS_LEFT) (flag_on g' FLAGS_ZEROPAD) (unat prec) (unat width) sg ?es"
  proof (rule format_standard [OF h])
    show "length sg + length ?es \<le> 32" using len sg1 by (cases "sg = []") auto
    show "length sg + unat prec \<le> 32" using sg1(1) assms(4) by simp
    show "sg = std_sign neg (flag_on g' FLAGS_PLUS) (flag_on g' FLAGS_SPACE)" by (simp add: f sg_def)
    show "unat prec \<le> length ?es" if "flag_on g' FLAGS_LEFT"
      using assms(9) [OF that [unfolded f(1)]] unfolding es .
    show "unat width \<le> 32" if "flag_on g' FLAGS_ZEROPAD" using assms(6) that by (simp add: f)
  qed
  also have "std_field l z (unat prec) (unat width) sg ?es =
      std_field l z (unat prec) (unat width) sg (if v = 0 \<and> flag_on g FLAGS_PRECISION \<and> prec = 0 then [] else ds)" for l z
  proof (cases "v = 0 \<and> flag_on g FLAGS_PRECISION \<and> prec \<noteq> 0")
    case True
    have ds: "ds = [ch CHR ''0'']" unfolding assms(8) using assms(2) True by (simp add: radix.simps [of "unat base" 0] std_digit_def)
    obtain k where k: "unat prec = Suc k" using True by (metis unat_eq_0 not0_implies_Suc)
    have es0: "?es = []" "(if v = 0 \<and> flag_on g FLAGS_PRECISION \<and> prec = 0 then [] else ds) = ds" using True by simp_all
    show ?thesis unfolding es0 by (rule std_field_body) (simp add: ds k replicate_append_same)
  next
    case False
    then have "?es = (if v = 0 \<and> flag_on g FLAGS_PRECISION \<and> prec = 0 then [] else ds)" by auto
    then show ?thesis by (rule arg_cong)
  qed
  finally show ?thesis by (simp only: f sg_def)
qed

lemma int_flags_on:
  fixes c flags
  defines "g \<equiv> int_flags c flags"
  assumes "c \<in> set (map ch ''diuxXob'')" "\<not> flag_on flags FLAGS_UPPERCASE" "int_base c = 10 \<or> \<not> flag_on flags FLAGS_HASH"
  shows "flag_on g FLAGS_LEFT = flag_on flags FLAGS_LEFT" "flag_on g FLAGS_PRECISION = flag_on flags FLAGS_PRECISION"
    "flag_on g FLAGS_ZEROPAD = (flag_on flags FLAGS_ZEROPAD \<and> \<not> flag_on flags FLAGS_PRECISION)"
    "flag_on g FLAGS_PLUS = (is_signed c \<and> flag_on flags FLAGS_PLUS)" "flag_on g FLAGS_SPACE = (is_signed c \<and> flag_on flags FLAGS_SPACE)"
    "flag_on g FLAGS_UPPERCASE = (c = ch CHR ''X'')" "\<not> flag_on g FLAGS_HASH"
    "flag_on g FLAGS_LONG_LONG = flag_on flags FLAGS_LONG_LONG" "flag_on g FLAGS_LONG = flag_on flags FLAGS_LONG"
    "flag_on g FLAGS_CHAR = flag_on flags FLAGS_CHAR" "flag_on g FLAGS_SHORT = flag_on flags FLAGS_SHORT"
proof -
  define f1 where "f1 = (if int_base c = 10 then flags AND NOT FLAGS_HASH else flags)"
  define f2 where "f2 = (if c = ch CHR ''X'' then f1 OR FLAGS_UPPERCASE else f1)"
  define f3 where "f3 = (if c \<noteq> ch CHR ''i'' \<and> c \<noteq> ch CHR ''d'' then f2 AND NOT (FLAGS_PLUS OR FLAGS_SPACE) else f2)"
  have g: "g = (if flag_on f3 FLAGS_PRECISION then f3 AND NOT FLAGS_ZEROPAD else f3)"
    by (simp add: g_def int_flags_def Let_def f1_def f2_def f3_def)
  have 1: "flag_on f1 b = (if int_base c = 10 then flag_on flags (b AND NOT FLAGS_HASH) else flag_on flags b)" for b
    unfolding f1_def by (simp only: flag_on_simps if_distrib [of "\<lambda>f. flag_on f b"])
  have 2: "flag_on f2 b = (flag_on f1 b \<or> c = ch CHR ''X'' \<and> flag_on FLAGS_UPPERCASE b)" for b by (simp add: f2_def)
  have 3: "flag_on f3 b = (if is_signed c then flag_on f2 b else flag_on f2 (b AND NOT (FLAGS_PLUS OR FLAGS_SPACE)))" for b
    unfolding f3_def is_signed_def by (simp only: flag_on_simps split: if_split) blast
  have 4: "flag_on g b = (if flag_on f3 FLAGS_PRECISION then flag_on f3 (b AND NOT FLAGS_ZEROPAD) else flag_on f3 b)" for b
    unfolding g by (simp only: flag_on_simps if_distrib [of "\<lambda>f. flag_on f b"])
  have e: "flag_on FLAGS_UPPERCASE b \<longleftrightarrow> FLAGS_UPPERCASE AND b \<noteq> 0" for b by (simp add: flag_on_def)
  have s: "c = ch CHR ''X'' \<Longrightarrow> \<not> is_signed c" "is_signed c \<Longrightarrow> int_base c = 10" by (auto simp: is_signed_def int_base_def)
  note bits = 4 3 2 1 e
  show "flag_on g FLAGS_LEFT = flag_on flags FLAGS_LEFT" "flag_on g FLAGS_PRECISION = flag_on flags FLAGS_PRECISION"
    "flag_on g FLAGS_ZEROPAD = (flag_on flags FLAGS_ZEROPAD \<and> \<not> flag_on flags FLAGS_PRECISION)"
    "flag_on g FLAGS_PLUS = (is_signed c \<and> flag_on flags FLAGS_PLUS)" "flag_on g FLAGS_SPACE = (is_signed c \<and> flag_on flags FLAGS_SPACE)"
    "flag_on g FLAGS_LONG_LONG = flag_on flags FLAGS_LONG_LONG" "flag_on g FLAGS_LONG = flag_on flags FLAGS_LONG"
    "flag_on g FLAGS_CHAR = flag_on flags FLAGS_CHAR" "flag_on g FLAGS_SHORT = flag_on flags FLAGS_SHORT"
    by (simp_all add: bits)
  show "flag_on g FLAGS_UPPERCASE = (c = ch CHR ''X'')" using assms(3) s(1) by (simp add: bits)
  show "\<not> flag_on g FLAGS_HASH" using assms(4) by (auto simp: bits)
qed

text \<open>C15: An integer is printed as the standard says, for every conversion \<open>d i u o x X b\<close>, every length of up to 32 bits, and all flags, field widths and precisions
  for which the buffer of 32 characters is large enough: a precision below 32, a field of up to 32 when it is filled with zeros, no mark of the
  base, and with the flag that puts the number on the left no precision that asks for more digits than it has, where 0 counts as having none. The most negative number is among them.\<close>

theorem integer_text_is_standard:
  assumes "c \<in> set (map ch ''diuxXob'')" "\<not> flag_on flags FLAGS_LONG_LONG" "\<not> flag_on flags FLAGS_UPPERCASE"
    "int_base c = 10 \<or> \<not> flag_on flags FLAGS_HASH" "flag_on flags FLAGS_PRECISION \<or> prec = 0" "unat prec < 32"
    "flag_on flags FLAGS_ZEROPAD \<longrightarrow> unat width \<le> 32" "n = int_meaning c flags v"
    "flag_on flags FLAGS_LEFT \<longrightarrow> unat prec \<le> (if n = 0 then 0 else length (std_digits c n))"
  shows "conv_int c flags width prec (VInt v # va) = Inr (std_int c flags width prec n, va)"
proof -
  let ?g = "int_flags c flags"
  note g = int_flags_on [OF assms(1,3,4)]
  define w where "w = (if is_signed c then signed_arg flags v else unsigned_arg flags v)"
  define m where "m = (if is_signed c then magnitude w else w)"
  define neg where "neg \<longleftrightarrow> is_signed c \<and> sint w < 0"
  have arg: "signed_arg ?g v = signed_arg flags v" "unsigned_arg ?g v = unsigned_arg flags v"
    by (simp_all add: signed_arg_def unsigned_arg_def g)
  have sd: "c = ch CHR ''i'' \<or> c = ch CHR ''d'' \<longleftrightarrow> is_signed c" by (auto simp: is_signed_def)
  have c: "conv_int c flags width prec (VInt v # va) = Inr (ntoa_long m neg (int_base c) prec width ?g, va)"
    unfolding conv_int_def Let_def sd using assms(2) by (simp add: g arg sless_zero w_def m_def neg_def)
  have n: "n = (if is_signed c then sint w else uint w)"
    unfolding assms(8) int_meaning_def w_def by (simp add: signed_arg_meaning unsigned_arg_meaning)
  have m: "unat m = nat \<bar>n\<bar>" unfolding m_def n by (cases "is_signed c") (simp_all add: magnitude_abs)
  have neg: "neg \<longleftrightarrow> n < 0" unfolding neg_def n by simp
  have z: "m = 0 \<longleftrightarrow> n = 0" using unat_eq_0 [of m] m by linarith
  have d: "std_digits c n = map (std_digit (flag_on ?g FLAGS_UPPERCASE)) (radix (unat (int_base c)) (unat m))"
    unfolding std_digits_def m g(6) by (rule refl)
  have b10: "is_signed c \<Longrightarrow> int_base c = 10" by (auto simp: is_signed_def int_base_def)
  have "ntoa_long m neg (int_base c) prec width ?g = std_field (flag_on ?g FLAGS_LEFT) (flag_on ?g FLAGS_ZEROPAD) (unat prec) (unat width)
      (std_sign neg (flag_on ?g FLAGS_PLUS) (flag_on ?g FLAGS_SPACE)) (if m = 0 \<and> flag_on ?g FLAGS_PRECISION \<and> prec = 0 then [] else std_digits c n)"
  proof (rule number_standard [OF _ _ _ _ _ _ _ d])
    show "\<not> flag_on ?g FLAGS_HASH" by (rule g)
    show "2 \<le> unat (int_base c)" "unat (int_base c) \<le> 16" using int_base_cases [OF assms(1)] by simp_all
    show "unat prec \<le> 31" using assms(6) by simp
    show "int_base c = 10" if "neg \<or> flag_on ?g FLAGS_PLUS \<or> flag_on ?g FLAGS_SPACE" using that b10 unfolding neg_def g(4,5) by blast
    show "unat width \<le> 32" if "flag_on ?g FLAGS_ZEROPAD" using that assms(7) by (simp add: g)
    show "prec = 0" if "\<not> flag_on ?g FLAGS_PRECISION" using that assms(5) by (simp add: g)
    show "unat prec \<le> (if m = 0 \<and> flag_on ?g FLAGS_PRECISION then 0 else length (std_digits c n))" if "flag_on ?g FLAGS_LEFT"
      using that assms(9) unfolding z by (simp add: g split: if_splits)
  qed
  then show ?thesis unfolding c z neg std_int_def by (simp add: g Let_def)
qed

subsection \<open>Examples and departures\<close>

definition no_doubles :: "unit double_text" where
  "no_doubles = (\<lambda>fixed v prec width flags. [])"

lemma formatted_print_is_bounded_witness:
  "snprintf no_doubles (Some [1, 1, 1, 1, 1, 1]) 4 (map ch ''n=%d'' @ [0]) [VInt 42] = Inr (4, Some (map ch ''n=4'' @ [0, 1, 1]))"
proof -
  have "format_text no_doubles (map ch ''n=%d'' @ [0]) [VInt 42] = Inr (map ch ''n=42'')" by code_simp
  from formatted_print_is_bounded [OF this, of 4 "[1, 1, 1, 1, 1, 1]"] show ?thesis by (simp add: Let_def)
qed

lemma demo_minus: "int_meaning 0x64 5 0xffffffd6 = - 42"
  by (simp add: int_meaning_def is_signed_def int_bits_def flag_on_def)

lemma demo_field: "std_int (ch CHR ''d'') 5 8 0 (- 42) = map ch ''-0000042''"
  by code_simp

lemma integer_text_is_standard_witness:
  "conv_int (ch CHR ''d'') (FLAGS_ZEROPAD OR FLAGS_PLUS) 8 0 [VInt 0xffffffd6] = Inr (map ch ''-0000042'', [] :: unit va_item list)"
proof -
  have f: "(FLAGS_ZEROPAD OR FLAGS_PLUS) = (5 :: u32)" by simp
  show ?thesis unfolding f demo_field [symmetric]
    by (rule integer_text_is_standard) (simp_all add: demo_minus int_base_def flag_on_def)
qed

text \<open>The line that the shell prints: a string between two new lines.\<close>

lemma str_chars_all: "0 \<notin> set cs \<Longrightarrow> str_chars (cs @ 0 # r) None = Inr cs"
  by (induction cs) auto

lemma strnlen_all: "0 \<notin> set cs \<Longrightarrow> length cs \<le> n \<Longrightarrow> strnlen_s (cs @ 0 # r) n = Inr (length cs)"
proof (induction cs arbitrary: n)
  case (Cons c cs)
  then show ?case by (cases n) auto
qed (cases n, simp_all)

lemma parse_plain_string: "parse_spec (ch CHR ''s'' # fmt) va = Inr (ch CHR ''s'', 0, 0, 0, fmt, va)"
  by (simp add: parse_spec_def flag_of_def is_digit_def)

lemma string_line:
  fixes fd :: "'d double_text"
  assumes "0 \<notin> set cs" "length cs < 4294967296"
  shows "format_text fd (10 # map ch ''%s'' @ [10, 0]) [VStr (cs @ 0 # r)] = Inr (10 # cs @ [10])"
proof -
  have "unat (- 1 :: usize) = 4294967295" by (simp add: unsigned_minus_1_eq_mask mask_eq_exp_minus_1)
  then have c: "convert fd (ch CHR ''s'') 0 0 0 [VStr (cs @ 0 # r)] = Inr (cs, [] :: 'd va_item list)"
    using strnlen_all [OF assms(1), of 4294967295 r] str_chars_all [OF assms(1), of r] assms(2) by (simp add: convert_def conv_str_def)
  then show ?thesis using parse_plain_string [of "[10, 0]" "[VStr (cs @ 0 # r) :: 'd va_item]"] by (simp add: format_text.simps)
qed

text \<open>What is printed goes to the standard output, but for zeros.\<close>

lemma emit_chars:
  "emit (out_char (\<lambda>c o1. Inr (o1 @ [c]))) m cs (i, o1) = Inr (i + of_nat (length cs), o1 @ filter (\<lambda>c. c \<noteq> 0) cs)"
proof (induction cs arbitrary: i o1)
  case Nil
  then show ?case by (simp add: emit_def)
next
  case (Cons c cs)
  let ?out = "out_char (\<lambda>c o1. Inr (o1 @ [c]))"
  have "emit ?out m (c # cs) (i, o1) = bindr (emit ?out m [c] (i, o1)) (emit ?out m cs)" using emit_append [of ?out m "[c]" cs] by simp
  also have "emit ?out m [c] (i, o1) = Inr (i + 1, if c = 0 then o1 else o1 @ [c])" by (simp add: emit_def out_char_def)
  finally show ?case by (simp add: Cons.IH add.assoc)
qed

lemma printf_prints:
  assumes "format_text fd fmt va = Inr t"
  shows "\<exists>n. printf fd (\<lambda>c o1. Inr (o1 @ [c])) fmt va o1 = Inr (n, o1 @ filter (\<lambda>c. c \<noteq> 0) t)"
  unfolding printf_def vsnprintf_internal_def loop_emits [OF assms] by (simp add: emit_chars out_char_def)

text \<open>A percent sign at the end of the format: the zero is taken for the letter of the conversion, and the format is read on behind it.\<close>

lemma percent_at_end_reads_on: "format_text no_doubles (map ch ''50%'' @ [0] @ map ch ''x'' @ [0]) [] = Inr (map ch ''50'' @ [0] @ map ch ''x'')"
  by code_simp

text \<open>With a precision of 32 the sign finds no room and a negative number is printed as a positive one.\<close>

lemma wide_precision_drops_sign:
  "conv_int (ch CHR ''d'') FLAGS_PRECISION 0 32 [VInt (- 5)] = Inr (replicate 31 (ch CHR ''0'') @ [ch CHR ''5''], [] :: unit va_item list)"
  by code_simp

text \<open>On the left of its field a number ignores the precision.\<close>

lemma left_ignores_precision:
  "conv_int (ch CHR ''d'') (FLAGS_LEFT OR FLAGS_PRECISION) 0 5 [VInt 42] = Inr (map ch ''42'', [] :: unit va_item list)"
  by code_simp

text \<open>Of a number of 64 bits in binary only the lower half is printed.\<close>

lemma long_binary_is_cut:
  "conv_int (ch CHR ''b'') (FLAGS_LONG OR FLAGS_LONG_LONG) 0 0 [VLong 0x100000001] = Inr (replicate 31 (ch CHR ''0'') @ [ch CHR ''1''], [] :: unit va_item list)"
  by code_simp

text \<open>A string of as many characters as the precision is read one further.\<close>

lemma precision_reads_further: "conv_str FLAGS_PRECISION 0 3 [VStr (map ch ''abc'')] = (Inl Fault :: (u8 list \<times> unit va_item list) result)"
  by code_simp

end
