(* ===== verification/Shell.thy ===== *)
theory Shell
  imports Prompt Printf
begin

text \<open>
  The main loop of the shell (\<open>user/bash/main.cpp\<close>): the prompt, the line that is edited, and the line as it is printed by \<open>printf\<close>. All three go to the
  standard output, which is \<open>pr_out\<close>.
\<close>

definition prompt_text :: "u8 list" where
  "prompt_text = map ch ''prompt -> ''"

text \<open>One turn of the loop: the bytes that are left of the standard input, and the state.\<close>

definition bash_turn :: "'d double_text \<Rightarrow> memory_source \<Rightarrow> u8 list \<Rightarrow> prompt \<Rightarrow> (u8 list \<times> prompt) result" where
  "bash_turn fd mem cs p = (let p = p\<lparr>pr_out := pr_out p @ prompt_text\<rparr> in
     bindr (run_prompt mem cs p) (\<lambda>(cmd, cs, p).
     bindr (printf fd (\<lambda>c o1. Inr (o1 @ [c])) (10 # map ch ''%s'' @ [10, 0]) [VStr cmd] (pr_out p)) (\<lambda>(_, out). Inr (cs, p\<lparr>pr_out := out\<rparr>))))"

fun bash_turns :: "'d double_text \<Rightarrow> memory_source \<Rightarrow> nat \<Rightarrow> u8 list \<times> prompt \<Rightarrow> (u8 list \<times> prompt) result" where
  "bash_turns fd mem 0 s = Inr s"
| "bash_turns fd mem (Suc n) s = bindr (bash_turn fd mem (fst s) (snd s)) (bash_turns fd mem n)"

subsection \<open>Every line is answered\<close>

definition typed :: "key list \<Rightarrow> u8 list" where
  "typed keys = concat (map key_bytes keys) @ [10]"

definition line_of :: "key list \<Rightarrow> u8 list" where
  "line_of keys = fst (fold edit keys ([], 0))"

text \<open>What a turn writes: the prompt, output \<open>e\<close> that shows the line as it was edited, and the line.\<close>

definition answer :: "key list \<Rightarrow> u8 list \<Rightarrow> bool" where
  "answer keys w \<longleftrightarrow> (\<exists>e. w = prompt_text @ e @ [10] @ line_of keys @ [10] \<and> whole e \<and>
     line_show e (\<lambda>_. 0, 0) = (cells (line_of keys), snd (fold edit keys ([], 0))))"

definition history_ok :: "prompt \<Rightarrow> bool" where
  "history_ok p \<longleftrightarrow> length (pr_history p) = 16 \<and> 0 \<le> pr_hptr p \<and> pr_hptr p < 16"

lemma cstring_split:
  assumes "cstring buf = Inr t"
  obtains r where "buf = t @ 0 # r" "0 \<notin> set t"
proof -
  have z: "0 \<in> set buf" "t = takeWhile (\<lambda>c. c \<noteq> 0) buf" using assms by (auto simp: cstring_def split: if_splits)
  obtain a r where s: "buf = a @ 0 # r" "0 \<notin> set a" using split_list_first [OF z(1)] by blast
  then have "t = a" using z(2) by (induction a arbitrary: buf t) auto
  with s show ?thesis by (auto intro: that)
qed

lemma turn_answers:
  assumes "history_ok p" "\<forall>key \<in> set keys. typeable key" "gives mem (2 * length keys + 128)"
  shows "\<exists>w q. bash_turn fd mem (typed keys @ rest) p = Inr (rest, q) \<and> history_ok q \<and> pr_out q = pr_out p @ w \<and> answer keys w"
proof -
  obtain t k where tk: "fold edit keys ([], 0) = (t, k)" by (cases "fold edit keys ([], 0)")
  let ?p = "p\<lparr>pr_out := pr_out p @ prompt_text\<rparr>"
  have h: "length (pr_history ?p) = 16" "0 \<le> pr_hptr ?p" "pr_hptr ?p < 16" using assms(1) by (simp_all add: history_ok_def)
  obtain buf q where q: "run_prompt mem (typed keys @ rest) ?p = Inr (buf, rest, q)" "cstring buf = Inr t"
    "pr_history q = (pr_history p)[nat (pr_hptr p) := Some t]" "pr_hptr q = (pr_hptr p + 1) mod 16" "shown (pr_out ?p) q (cells t) k"
    using line_edited [OF h assms(2,3), of rest] tk by (auto simp: typed_def)
  obtain r where r: "buf = t @ 0 # r" "0 \<notin> set t" using cstring_split [OF q(2)] .
  obtain e where e: "pr_out q = (pr_out p @ prompt_text) @ e" "whole e" "line_show e (\<lambda>_. 0, 0) = (cells t, k)"
    using q(5) by (auto simp: shown_def)
  have "length t < 4294967296" using edits_length [of keys "([], 0)"] assms(3) tk by (simp add: gives_def)
  then have "format_text fd (10 # map ch ''%s'' @ [10, 0]) [VStr buf] = Inr (10 # t @ [10])" unfolding r(1) using r(2) by (intro string_line)
  moreover have "filter (\<lambda>c. c \<noteq> 0) t = t" using r(2) by (auto simp: filter_id_conv)
  ultimately obtain n where "printf fd (\<lambda>c o1. Inr (o1 @ [c])) (10 # map ch ''%s'' @ [10, 0]) [VStr buf] (pr_out q) = Inr (n, pr_out q @ 10 # t @ [10])"
    using printf_prints [of fd _ "[VStr buf]" _ "pr_out q"] by fastforce
  then have "bash_turn fd mem (typed keys @ rest) p = Inr (rest, q\<lparr>pr_out := pr_out q @ 10 # t @ [10]\<rparr>)"
    unfolding bash_turn_def Let_def q(1) by simp
  moreover have "answer keys (prompt_text @ e @ [10] @ t @ [10])" using e tk by (auto simp: answer_def line_of_def)
  ultimately show ?thesis using e(1) h q(3,4) by (auto simp: history_ok_def)
qed

text \<open>C13: The shell answers every line. Whatever lines are typed, each of printable characters, cursor keys and backspaces and ended by the enter key, all
  typed ahead if need be, as many turns of its loop read them and no more, and write for each of them, in order, the prompt, what shows the line while
  it is edited, with the cursor at its place, and then the line that the keys make, on a line of its own. A line takes at most \<open>2 ^ 30 - 64\<close> keys, and the
  allocations of up to 128 bytes and two for every key of the line succeed.\<close>

theorem shell_answers_every_line:
  assumes "history_ok p" "\<forall>keys \<in> set lines. (\<forall>key \<in> set keys. typeable key) \<and> length keys + 64 \<le> 2 ^ 30 \<and>
      (\<forall>n. 0 < n \<and> n \<le> 2 * length keys + 128 \<longrightarrow> mem n \<noteq> None)"
  shows "\<exists>ws q. bash_turns fd mem (length lines) (concat (map typed lines) @ rest, p) = Inr (rest, q) \<and> history_ok q \<and>
    pr_out q = pr_out p @ concat ws \<and> list_all2 answer lines ws"
  using assms
proof (induction lines arbitrary: p)
  case Nil
  then show ?case by (auto intro: exI [of _ "[]"])
next
  case (Cons keys lines)
  have keys: "\<forall>key \<in> set keys. typeable key" "gives mem (2 * length keys + 128)" using Cons.prems(2) by (simp_all add: gives_def)
  obtain w q where w: "bash_turn fd mem (typed keys @ (concat (map typed lines) @ rest)) p = Inr (concat (map typed lines) @ rest, q)" "history_ok q"
    "pr_out q = pr_out p @ w" "answer keys w"
    using turn_answers [OF Cons.prems(1) keys] by blast
  have "\<forall>keys \<in> set lines. (\<forall>key \<in> set keys. typeable key) \<and> length keys + 64 \<le> 2 ^ 30 \<and>
      (\<forall>n. 0 < n \<and> n \<le> 2 * length keys + 128 \<longrightarrow> mem n \<noteq> None)" using Cons.prems(2) by simp
  then obtain ws q' where "bash_turns fd mem (length lines) (concat (map typed lines) @ rest, q) = Inr (rest, q')" "history_ok q'"
    "pr_out q' = pr_out q @ concat ws" "list_all2 answer lines ws"
    using Cons.IH [OF w(2)] by blast
  then show ?case using w by (intro exI [of _ "w # ws"] exI [of _ q']) simp
qed

theorem shell_answers_every_line_witness:
  "\<exists>ws q. bash_turns no_doubles (\<lambda>_. Some (\<lambda>_. 7)) (Suc (Suc 0)) ([108, 120, 8, 27, 91, 68, 97, 10, 10, 98], fresh_prompt) = Inr ([98], q) \<and> pr_out q = concat ws \<and>
     list_all2 answer [[Type 108, Type 120, Backspace, Go_Left, Type 97], []] ws \<and> line_of [Type 108, Type 120, Backspace, Go_Left, Type 97] = [97, 108]"
proof -
  have h: "history_ok fresh_prompt" by (simp add: history_ok_def fresh_prompt_def)
  have out: "pr_out fresh_prompt = []" by (simp add: fresh_prompt_def)
  have l: "\<forall>keys \<in> set [[Type 108, Type 120, Backspace, Go_Left, Type 97], []]. (\<forall>key \<in> set keys. typeable key) \<and> length keys + 64 \<le> 2 ^ 30 \<and>
      (\<forall>n. 0 < n \<and> n \<le> 2 * length keys + 128 \<longrightarrow> Some (\<lambda>_. 7) \<noteq> None)"
    by (simp add: printable_def)
  show ?thesis
    using shell_answers_every_line [OF h l, of no_doubles "[98]"] by (auto simp: out typed_def line_of_def simp del: bash_turns.simps)
qed

end
