(* ===== verification/Ide.thy ===== *)
theory Ide
  imports Block_Transfer Bytes
begin

text \<open>
  The IDE driver (\<open>kernel/src/drv/ide.cpp\<close>): registers, addressing of sectors, commands, transfer and
  identification. The hardware is a parameter: \<open>ports\<close> reads and writes I/O ports of a machine state. The
  loops that wait for the drive to become ready end with \<open>Hang\<close> when it is still busy after \<open>w\<close> polls. The log
  output is left out; \<open>sleep\<close> is empty in the code.
\<close>

record 'h ports =
  pt_inb :: "'h \<Rightarrow> u16 \<Rightarrow> u8 \<times> 'h"
  pt_inw :: "'h \<Rightarrow> u16 \<Rightarrow> u16 \<times> 'h"
  pt_inl :: "'h \<Rightarrow> u16 \<Rightarrow> u32 \<times> 'h"
  pt_outb :: "'h \<Rightarrow> u16 \<Rightarrow> u8 \<Rightarrow> 'h"
  pt_outw :: "'h \<Rightarrow> u16 \<Rightarrow> u16 \<Rightarrow> 'h"

record ide_device =
  id_present :: bool
  id_slave :: u8
  id_type :: u16
  id_signature :: u16
  id_capabilities :: u16
  id_command_sets :: u32
  id_size :: u32
  id_model :: "u8 list"

record 'h channel =
  ch_num :: u8
  ch_base :: u16
  ch_ctrl :: u16
  ch_bmst :: u16
  ch_devices :: "ide_device list"
  ch_hw :: 'h

datatype addr_mode = CHS | LBA28 | LBA48

definition SR_BSY :: u8 where "SR_BSY = 0x80"
definition SR_DF :: u8 where "SR_DF = 0x20"
definition SR_DRQ :: u8 where "SR_DRQ = 0x08"
definition SR_ERR :: u8 where "SR_ERR = 0x01"

definition REG_DATA :: u8 where "REG_DATA = 0x00"
definition REG_SECCOUNT0 :: u8 where "REG_SECCOUNT0 = 0x02"
definition REG_LBA0 :: u8 where "REG_LBA0 = 0x03"
definition REG_LBA1 :: u8 where "REG_LBA1 = 0x04"
definition REG_LBA2 :: u8 where "REG_LBA2 = 0x05"
definition REG_HDDEVSEL :: u8 where "REG_HDDEVSEL = 0x06"
definition REG_COMMAND :: u8 where "REG_COMMAND = 0x07"
definition REG_STATUS :: u8 where "REG_STATUS = 0x07"
definition REG_SECCOUNT1 :: u8 where "REG_SECCOUNT1 = 0x08"
definition REG_LBA3 :: u8 where "REG_LBA3 = 0x09"
definition REG_LBA4 :: u8 where "REG_LBA4 = 0x0a"
definition REG_LBA5 :: u8 where "REG_LBA5 = 0x0b"
definition REG_CONTROL :: u8 where "REG_CONTROL = 0x0c"
definition REG_ALTSTATUS :: u8 where "REG_ALTSTATUS = 0x0c"

definition CMD_READ_PIO :: u8 where "CMD_READ_PIO = 0x20"
definition CMD_READ_PIO_EXT :: u8 where "CMD_READ_PIO_EXT = 0x24"
definition CMD_READ_DMA :: u8 where "CMD_READ_DMA = 0xc8"
definition CMD_READ_DMA_EXT :: u8 where "CMD_READ_DMA_EXT = 0x25"
definition CMD_WRITE_PIO :: u8 where "CMD_WRITE_PIO = 0x30"
definition CMD_WRITE_PIO_EXT :: u8 where "CMD_WRITE_PIO_EXT = 0x34"
definition CMD_WRITE_DMA :: u8 where "CMD_WRITE_DMA = 0xca"
definition CMD_WRITE_DMA_EXT :: u8 where "CMD_WRITE_DMA_EXT = 0x35"
definition CMD_IDENTIFY_PACKET :: u8 where "CMD_IDENTIFY_PACKET = 0xa1"
definition CMD_IDENTIFY :: u8 where "CMD_IDENTIFY = 0xec"

lemmas ide_regs = REG_DATA_def REG_SECCOUNT0_def REG_LBA0_def REG_LBA1_def REG_LBA2_def REG_HDDEVSEL_def REG_COMMAND_def
  REG_STATUS_def REG_SECCOUNT1_def REG_LBA3_def REG_LBA4_def REG_LBA5_def REG_CONTROL_def REG_ALTSTATUS_def

subsection \<open>Registers\<close>

text \<open>The port of a register, as the code computes it; the code uses no register from \<open>0x16\<close>.\<close>

definition reg_port :: "'h channel \<Rightarrow> u8 \<Rightarrow> u16" where
  "reg_port c r = (if r < 0x08 then ch_base c + ucast r
     else if r < 0x0c then ch_base c + ucast r - 0x06
     else if r < 0x0e then ch_ctrl c + ucast r - 0x0a
     else ch_bmst c + ucast r - 0x0e)"

definition out_reg :: "'h ports \<Rightarrow> u8 \<Rightarrow> u8 \<Rightarrow> 'h channel \<Rightarrow> 'h channel" where
  "out_reg pt r v c = (if r < 0x16 then c\<lparr>ch_hw := pt_outb pt (ch_hw c) (reg_port c r) v\<rparr> else c)"

text \<open>The registers behind the first eight are reached with the high-order bit of the control register set; the
  control register is none of them.\<close>

definition high_reg :: "u8 \<Rightarrow> bool" where
  "high_reg r \<longleftrightarrow> 0x07 < r \<and> r < 0x0c"

definition ide_write :: "'h ports \<Rightarrow> u8 \<Rightarrow> u8 \<Rightarrow> 'h channel \<Rightarrow> 'h channel" where
  "ide_write pt r v c = (let c = (if high_reg r then out_reg pt REG_CONTROL 0x80 c else c);
       c = out_reg pt r v c in
     if high_reg r then out_reg pt REG_CONTROL 0 c else c)"

definition ide_read :: "'h ports \<Rightarrow> u8 \<Rightarrow> 'h channel \<Rightarrow> u8 \<times> 'h channel" where
  "ide_read pt r c = (let c = (if high_reg r then ide_write pt REG_CONTROL 0x80 c else c);
       (v, h) = pt_inb pt (ch_hw c) (reg_port c r); c = c\<lparr>ch_hw := h\<rparr> in
     (v, if high_reg r then ide_write pt REG_CONTROL 0 c else c))"

fun inl_buffer :: "'h ports \<Rightarrow> u16 \<Rightarrow> nat \<Rightarrow> 'h \<Rightarrow> u32 list \<times> 'h" where
  "inl_buffer pt p 0 h = ([], h)"
| "inl_buffer pt p (Suc n) h = (let (x, h) = pt_inl pt h p; (xs, h) = inl_buffer pt p n h in (x # xs, h))"

definition read_buffer :: "'h ports \<Rightarrow> u8 \<Rightarrow> nat \<Rightarrow> 'h channel \<Rightarrow> u32 list \<times> 'h channel" where
  "read_buffer pt r n c = (let c = (if high_reg r then ide_write pt REG_CONTROL 0x80 c else c);
       (xs, h) = inl_buffer pt (reg_port c r) n (ch_hw c); c = c\<lparr>ch_hw := h\<rparr> in
     (xs, if high_reg r then ide_write pt REG_CONTROL 0 c else c))"

subsection \<open>Addresses of sectors\<close>

definition device_select :: "u8 \<Rightarrow> u8 \<Rightarrow> u8 \<Rightarrow> u8" where
  "device_select dev use_lba head = 0xa0 OR push_bit 6 use_lba OR push_bit 4 dev OR head"

definition select_drive :: "'h ports \<Rightarrow> u8 \<Rightarrow> u8 \<Rightarrow> u8 \<Rightarrow> 'h channel \<Rightarrow> 'h channel" where
  "select_drive pt dev use_lba head c = ide_write pt REG_HDDEVSEL (device_select dev use_lba head) c"

text \<open>The mode, the bytes \<open>lba_io\<close> and the head for a sector number, of a drive with the given capabilities.\<close>

definition sector_address :: "u16 \<Rightarrow> u64 \<Rightarrow> addr_mode \<times> u8 list \<times> u8" where
  "sector_address caps lba = (if lba \<ge> 0x10000000 then (LBA48,
       [ucast (lba AND 0x0000000000ff), ucast (drop_bit 8 (lba AND 0x00000000ff00)), ucast (drop_bit 16 (lba AND 0x000000ff0000)),
        ucast (drop_bit 24 (lba AND 0x0000ff000000)), ucast (drop_bit 32 (lba AND 0x00ff00000000)), ucast (drop_bit 40 (lba AND 0xff0000000000))], 0)
     else if caps AND 0x200 \<noteq> 0 then (LBA28,
       [ucast (lba AND 0x00000ff), ucast (drop_bit 8 (lba AND 0x000ff00)), ucast (drop_bit 16 (lba AND 0x0ff0000)), 0, 0, 0],
       ucast (drop_bit 24 (lba AND 0xf000000)))
     else let sect = ucast (lba mod 63 + 1) :: u8; cyl = ucast ((lba + 1 - ucast sect) div (16 * 63)) :: u16 in
       (CHS, [sect, ucast (cyl AND 0xff), ucast (drop_bit 8 cyl AND 0xff), 0, 0, 0], ucast ((lba + 1 - ucast sect) mod (16 * 63) div 63)))"

definition set_access_section :: "'h ports \<Rightarrow> nat \<Rightarrow> u64 \<Rightarrow> u8 \<Rightarrow> 'h channel \<Rightarrow> (addr_mode \<times> 'h channel) result" where
  "set_access_section pt dev lba numsects c = bindr (nth_r (ch_devices c) dev) (\<lambda>d.
     let (mode, io, head) = sector_address (id_capabilities d) lba;
         c = select_drive pt (of_nat dev) (if mode \<noteq> CHS then 1 else 0) head (ide_write pt REG_CONTROL 2 c);
         c = (if mode = LBA48 then ide_write pt REG_LBA5 (io ! 5) (ide_write pt REG_LBA4 (io ! 4)
           (ide_write pt REG_LBA3 (io ! 3) (ide_write pt REG_SECCOUNT1 0 c))) else c) in
     Inr (mode, ide_write pt REG_LBA2 (io ! 2) (ide_write pt REG_LBA1 (io ! 1) (ide_write pt REG_LBA0 (io ! 0)
       (ide_write pt REG_SECCOUNT0 numsects c)))))"

subsection \<open>Commands and transfer\<close>

definition read_command :: "addr_mode \<Rightarrow> bool \<Rightarrow> u8" where
  "read_command mode use_dma = (case mode of LBA48 \<Rightarrow> (if use_dma then CMD_READ_DMA_EXT else CMD_READ_PIO_EXT)
     | _ \<Rightarrow> (if use_dma then CMD_READ_DMA else CMD_READ_PIO))"

definition write_command :: "addr_mode \<Rightarrow> bool \<Rightarrow> u8" where
  "write_command mode use_dma = (case mode of LBA48 \<Rightarrow> (if use_dma then CMD_WRITE_DMA_EXT else CMD_WRITE_PIO_EXT)
     | _ \<Rightarrow> (if use_dma then CMD_WRITE_DMA else CMD_WRITE_PIO))"

definition send_read_command :: "'h ports \<Rightarrow> addr_mode \<Rightarrow> bool \<Rightarrow> 'h channel \<Rightarrow> 'h channel" where
  "send_read_command pt mode use_dma c = ide_write pt REG_COMMAND (read_command mode use_dma) c"

definition send_write_command :: "'h ports \<Rightarrow> addr_mode \<Rightarrow> bool \<Rightarrow> 'h channel \<Rightarrow> 'h channel" where
  "send_write_command pt mode use_dma c = ide_write pt REG_COMMAND (write_command mode use_dma) c"

fun wait_ready :: "'h ports \<Rightarrow> nat \<Rightarrow> 'h channel \<Rightarrow> 'h channel result" where
  "wait_ready pt 0 c = Inl Hang"
| "wait_ready pt (Suc w) c = (let (v, c) = ide_read pt REG_STATUS c in if v AND SR_BSY \<noteq> 0 then wait_ready pt w c else Inr c)"

datatype ata_error = GeneralError | DriveFault | NoDrq

fun read_times :: "'h ports \<Rightarrow> u8 \<Rightarrow> nat \<Rightarrow> 'h channel \<Rightarrow> 'h channel" where
  "read_times pt r 0 c = c"
| "read_times pt r (Suc n) c = read_times pt r n (snd (ide_read pt r c))"

definition polling :: "'h ports \<Rightarrow> nat \<Rightarrow> bool \<Rightarrow> 'h channel \<Rightarrow> (ata_error option \<times> 'h channel) result" where
  "polling pt w advanced_check c = bindr (wait_ready pt w (read_times pt REG_ALTSTATUS 4 c)) (\<lambda>c.
     if advanced_check then let (st, c) = ide_read pt REG_STATUS c in
       Inr (if st AND SR_ERR \<noteq> 0 then Some GeneralError else if st AND SR_DF \<noteq> 0 then Some DriveFault
         else if st AND SR_DRQ = 0 then Some NoDrq else None, c)
     else Inr (None, c))"

fun in_words :: "'h ports \<Rightarrow> nat \<Rightarrow> 'h channel \<Rightarrow> u16 list \<times> 'h channel" where
  "in_words pt 0 c = ([], c)"
| "in_words pt (Suc n) c = (let (x, h) = pt_inw pt (ch_hw c) (ch_base c); (xs, c) = in_words pt n (c\<lparr>ch_hw := h\<rparr>) in (x # xs, c))"

fun out_words :: "'h ports \<Rightarrow> u16 list \<Rightarrow> 'h channel \<Rightarrow> 'h channel" where
  "out_words pt [] c = c"
| "out_words pt (x # xs) c = out_words pt xs (c\<lparr>ch_hw := pt_outw pt (ch_hw c) (ch_base c) x\<rparr>)"

text \<open>Sector by sector; the words stored to the buffer before an error stay there.\<close>

fun in_sectors :: "'h ports \<Rightarrow> nat \<Rightarrow> nat \<Rightarrow> 'h channel \<Rightarrow> (bool \<times> u16 list \<times> 'h channel) result" where
  "in_sectors pt w 0 c = Inr (True, [], c)"
| "in_sectors pt w (Suc n) c = bindr (polling pt w True c) (\<lambda>(e, c). if e \<noteq> None then Inr (False, [], c)
     else let (xs, c) = in_words pt 256 c in bindr (in_sectors pt w n c) (\<lambda>(ok, ys, c). Inr (ok, xs @ ys, c)))"

fun out_sectors :: "'h ports \<Rightarrow> nat \<Rightarrow> nat \<Rightarrow> u16 list \<Rightarrow> 'h channel \<Rightarrow> (bool \<times> 'h channel) result" where
  "out_sectors pt w 0 xs c = Inr (True, c)"
| "out_sectors pt w (Suc n) xs c = bindr (polling pt w True c) (\<lambda>(e, c). if e \<noteq> None then Inr (False, c)
     else bindr (peek xs 0 256) (\<lambda>ys. out_sectors pt w n (drop 256 xs) (out_words pt ys c)))"

definition read_sectors :: "'h ports \<Rightarrow> nat \<Rightarrow> nat \<Rightarrow> u64 \<Rightarrow> u32 \<Rightarrow> 'h channel \<Rightarrow> (bool \<times> u16 list \<times> 'h channel) result" where
  "read_sectors pt w dev lba count c = bindr (wait_ready pt w c) (\<lambda>c.
     bindr (set_access_section pt dev lba (ucast count) c) (\<lambda>(mode, c).
       in_sectors pt w (unat count) (send_read_command pt mode False c)))"

definition write_sectors :: "'h ports \<Rightarrow> nat \<Rightarrow> nat \<Rightarrow> u64 \<Rightarrow> u32 \<Rightarrow> u16 list \<Rightarrow> 'h channel \<Rightarrow> (bool \<times> 'h channel) result" where
  "write_sectors pt w dev lba count xs c = bindr (wait_ready pt w c) (\<lambda>c.
     bindr (set_access_section pt dev lba (ucast count) c) (\<lambda>(mode, c).
       out_sectors pt w (unat count) xs (send_write_command pt mode False c)))"

subsection \<open>The block device\<close>

fun words_of :: "u8 list \<Rightarrow> u16 list" where
  "words_of (a # b # bs) = (ucast a OR push_bit 8 (ucast b)) # words_of bs"
| "words_of _ = []"

definition bytes_of :: "u16 list \<Rightarrow> u8 list" where
  "bytes_of ws = concat (map (\<lambda>w. [ucast w, ucast (drop_bit 8 w)]) ws)"

text \<open>The product of the number of sectors and 512 is a 32-bit number.\<close>

definition dev_get_size :: "ide_device \<Rightarrow> u64" where
  "dev_get_size d = ucast (id_size d * 512)"

definition block_span :: "ide_device \<Rightarrow> u64 \<Rightarrow> u64 \<Rightarrow> u64" where
  "block_span d off n = min n (ucast (id_size d) - off)"

definition dev_read_blocks :: "'h ports \<Rightarrow> nat \<Rightarrow> nat \<Rightarrow> 'h channel \<Rightarrow> u64 \<Rightarrow> u64 \<Rightarrow> (u64 \<times> u8 list \<times> 'h channel) result" where
  "dev_read_blocks pt w dev c off n = bindr (nth_r (ch_devices c) dev) (\<lambda>d.
     if off \<ge> ucast (id_size d) then Inr (0, [], c) else if n = 0 then Inr (0, [], c)
     else let n = block_span d off n in bindr (read_sectors pt w (unat (id_slave d)) off (ucast n) c) (\<lambda>(ok, ws, c).
       Inr (if ok then n else 0, bytes_of ws, c)))"

definition dev_write_blocks :: "'h ports \<Rightarrow> nat \<Rightarrow> nat \<Rightarrow> 'h channel \<Rightarrow> u8 list \<Rightarrow> u64 \<Rightarrow> u64 \<Rightarrow> (u64 \<times> 'h channel) result" where
  "dev_write_blocks pt w dev c bs off n = bindr (nth_r (ch_devices c) dev) (\<lambda>d.
     if off \<ge> ucast (id_size d) then Inr (0, c) else if n = 0 then Inr (0, c)
     else let n = block_span d off n in bindr (write_sectors pt w (unat (id_slave d)) off (ucast n) (words_of bs) c) (\<lambda>(ok, c).
       Inr (if ok then n else 0, c)))"

definition ide_blocks :: "'h ports \<Rightarrow> nat \<Rightarrow> nat \<Rightarrow> 'h channel blk_ops" where
  "ide_blocks pt w dev = \<lparr>bo_bits = \<lambda>_. 9, bo_size = \<lambda>c. dev_get_size (ch_devices c ! dev), bo_set_size = default_set_size,
     bo_read = dev_read_blocks pt w dev, bo_write = dev_write_blocks pt w dev\<rparr>"

subsection \<open>Identification\<close>

text \<open>Each pair of bytes of the model name is swapped; the blanks at its end are cut off, down to the second byte.\<close>

fun swap_pairs :: "u8 list \<Rightarrow> u8 list" where
  "swap_pairs (a # b # xs) = b # a # swap_pairs xs"
| "swap_pairs xs = xs"

fun cut_blanks :: "nat \<Rightarrow> u8 list \<Rightarrow> u8 list" where
  "cut_blanks 0 m = m"
| "cut_blanks (Suc i) m = (if m ! Suc i \<noteq> 0x20 then m else cut_blanks i (m[Suc i := 0]))"

definition model_name :: "u8 list \<Rightarrow> u8 list" where
  "model_name b = cut_blanks 39 (swap_pairs (take 40 (drop 54 b)) @ [0])"

definition identified :: "u8 \<Rightarrow> bool \<Rightarrow> u8 list \<Rightarrow> ide_device" where
  "identified dev atapi b = (let cs = get32 b 164 in \<lparr>id_present = True, id_slave = dev, id_type = (if atapi then 1 else 0),
     id_signature = get16 b 0, id_capabilities = get16 b 98, id_command_sets = cs,
     id_size = (if cs AND push_bit 26 1 \<noteq> 0 then get32 b 200 else get32 b 120), id_model = model_name b\<rparr>)"

text \<open>Waiting for the answer to \<open>IDENTIFY\<close>: whether it is an error.\<close>

fun await_identify :: "'h ports \<Rightarrow> nat \<Rightarrow> 'h channel \<Rightarrow> (bool \<times> 'h channel) result" where
  "await_identify pt 0 c = Inl Hang"
| "await_identify pt (Suc w) c = (let (v, c) = ide_read pt REG_STATUS c in
     if v AND SR_ERR \<noteq> 0 then Inr (True, c)
     else if v AND SR_BSY = 0 \<and> v AND SR_DRQ \<noteq> 0 then Inr (False, c) else await_identify pt w c)"

definition set_device :: "nat \<Rightarrow> ide_device \<Rightarrow> 'h channel \<Rightarrow> 'h channel" where
  "set_device i d c = c\<lparr>ch_devices := (ch_devices c)[i := d]\<rparr>"

definition identify_device :: "'h ports \<Rightarrow> nat \<Rightarrow> 'h channel \<Rightarrow> nat \<Rightarrow> 'h channel result" where
  "identify_device pt w c i = (let dev = of_nat i;
       c = set_device i ((ch_devices c ! i)\<lparr>id_present := False\<rparr>) c;
       c = ide_write pt REG_COMMAND CMD_IDENTIFY (select_drive pt dev 0 0 c);
       (v, c) = ide_read pt REG_STATUS c in
     if v = 0 then Inr c else bindr (await_identify pt w c) (\<lambda>(err, c).
       let (atapi, skip, c) = (if err then let (cl, c) = ide_read pt REG_LBA1 c; (ch, c) = ide_read pt REG_LBA2 c in
             if cl = 0x14 \<and> ch = 0xeb \<or> cl = 0x69 \<and> ch = 0x96
             then (True, False, read_times pt REG_ALTSTATUS 4 (ide_write pt REG_COMMAND CMD_IDENTIFY_PACKET c))
             else (False, True, c)
           else (False, False, c)) in
       if skip then Inr c else let (xs, c) = read_buffer pt REG_DATA 128 c in
         Inr (set_device i (identified dev atapi (bytes_of32 xs)) c)))"

text \<open>The names under which \<open>init\<close> registers the devices found, with the counter that names them.\<close>

fun device_names :: "ide_device list \<Rightarrow> u32 \<Rightarrow> string list \<times> u32" where
  "device_names [] n = ([], n)"
| "device_names (d # ds) n = (if \<not> id_present d then device_names ds n
     else let (ns, m) = device_names ds (n + 1) in ((''sd'' @ [char_of (0x61 + unat n)]) # ns, m))"

definition channel_init :: "'h ports \<Rightarrow> nat \<Rightarrow> u32 \<Rightarrow> 'h channel \<Rightarrow> (string list \<times> u32 \<times> 'h channel) result" where
  "channel_init pt w n c = bindr (run_all (identify_device pt w) (ide_write pt REG_CONTROL 2 c) [0, 1]) (\<lambda>c.
     let c = ide_write pt REG_CONTROL 0 c; (ns, m) = device_names (ch_devices c) n in Inr (ns, m, c))"

subsection \<open>The controller\<close>

definition io_port :: "u32 \<Rightarrow> u16 \<Rightarrow> u16" where
  "io_port bar dflt = (if bar \<noteq> 0 then ucast (bar AND 0xfffffffc) else dflt)"

text \<open>The ports of the two channels from the base address registers.\<close>

definition controller_ports :: "u32 list \<Rightarrow> (u16 \<times> u16 \<times> u16) list" where
  "controller_ports bars = [(io_port (bars ! 0) 0x1f0, io_port (bars ! 1) 0x3f6, ucast (bars ! 4 AND 0xfffffffc)),
     (io_port (bars ! 2) 0x170, io_port (bars ! 3) 0x376, ucast ((bars ! 4 AND 0xfffffffc) + 8))]"

definition is_ide_controller :: "u8 \<Rightarrow> u8 \<Rightarrow> bool" where
  "is_ide_controller class_code subclass \<longleftrightarrow> class_code = 1 \<and> subclass = 1"

definition set_ports :: "u16 \<times> u16 \<times> u16 \<Rightarrow> 'h channel \<Rightarrow> 'h channel" where
  "set_ports p c = (case p of (base, ctrl, bmst) \<Rightarrow> c\<lparr>ch_base := base, ch_ctrl := ctrl, ch_bmst := bmst\<rparr>)"

text \<open>Both channels drive the same hardware, whose state goes through the first to the second.\<close>

definition controller_init :: "'h ports \<Rightarrow> nat \<Rightarrow> u8 \<Rightarrow> u8 \<Rightarrow> u32 list \<Rightarrow> u32 \<Rightarrow> 'h channel \<Rightarrow> 'h channel
    \<Rightarrow> (bool \<times> string list \<times> u32 \<times> 'h channel \<times> 'h channel) result" where
  "controller_init pt w class_code subclass bars n c0 c1 = (if \<not> is_ide_controller class_code subclass then Inr (False, [], n, c0, c1)
     else bindr (channel_init pt w n (set_ports (controller_ports bars ! 0) c0)) (\<lambda>(ns, n, c0).
       bindr (channel_init pt w n ((set_ports (controller_ports bars ! 1) c1)\<lparr>ch_hw := ch_hw c0\<rparr>)) (\<lambda>(ms, n, c1).
         Inr (True, ns @ ms, n, c0\<lparr>ch_hw := ch_hw c1\<rparr>, c1))))"

subsection \<open>The address the drive sees\<close>

text \<open>How a drive reads the registers, in each mode.\<close>

definition decode_address :: "addr_mode \<times> u8 list \<times> u8 \<Rightarrow> nat" where
  "decode_address a = (case a of (mode, io, head) \<Rightarrow> (let b = (\<lambda>i. unat (io ! i)) in case mode of
     LBA48 \<Rightarrow> b 0 + 2 ^ 8 * (b 1 + 2 ^ 8 * (b 2 + 2 ^ 8 * (b 3 + 2 ^ 8 * (b 4 + 2 ^ 8 * b 5))))
   | LBA28 \<Rightarrow> b 0 + 2 ^ 8 * (b 1 + 2 ^ 8 * (b 2 + 2 ^ 8 * unat head))
   | CHS \<Rightarrow> ((b 1 + 2 ^ 8 * b 2) * 16 + unat head) * 63 + b 0 - 1))"

lemma cut_byte:
  assumes "m = push_bit n (mask 8)"
  shows "ucast (drop_bit n (x AND m) :: u64) = (ucast (drop_bit n x) :: u8)"
  unfolding assms by (intro bit_eqI) (auto simp: bit_simps dest: bit_imp_le_length)

lemma unat_cut: "unat (ucast (drop_bit n (x :: u64)) :: u8) = unat x div 2 ^ n mod 256"
proof -
  have "unat (ucast y :: u8) = unat y mod 256" for y :: u64 by (simp add: unsigned_ucast_eq take_bit_eq_mod)
  then show ?thesis by (simp only: high_bits)
qed

lemma masks: "(0xff :: u64) = push_bit 0 (mask 8)" "(0xff00 :: u64) = push_bit 8 (mask 8)" "(0xff0000 :: u64) = push_bit 16 (mask 8)"
    "(0xff000000 :: u64) = push_bit 24 (mask 8)" "(0xff00000000 :: u64) = push_bit 32 (mask 8)" "(0xff0000000000 :: u64) = push_bit 40 (mask 8)"
  by (simp_all add: mask_eq_exp_minus_1)

lemma cut_bytes:
  "unat (ucast (x AND 0xff :: u64) :: u8) = unat x mod 256" "unat (ucast (drop_bit 8 (x AND 0xff00) :: u64) :: u8) = unat x div 2 ^ 8 mod 256"
  "unat (ucast (drop_bit 16 (x AND 0xff0000) :: u64) :: u8) = unat x div 2 ^ 16 mod 256"
  "unat (ucast (drop_bit 24 (x AND 0xff000000) :: u64) :: u8) = unat x div 2 ^ 24 mod 256"
  "unat (ucast (drop_bit 32 (x AND 0xff00000000) :: u64) :: u8) = unat x div 2 ^ 32 mod 256"
  "unat (ucast (drop_bit 40 (x AND 0xff0000000000) :: u64) :: u8) = unat x div 2 ^ 40 mod 256"
  using cut_byte [OF masks(1), of x] unat_cut [of 0 x]
  by (simp_all only: cut_byte [OF masks(2)] cut_byte [OF masks(3)] cut_byte [OF masks(4)] cut_byte [OF masks(5)] cut_byte [OF masks(6)] unat_cut
    drop_bit_0 id_apply power_0 div_by_1)

lemma cut_nibble:
  assumes "m = push_bit n (mask 4)"
  shows "drop_bit n (x AND m) = (take_bit 4 (drop_bit n x) :: u64)"
  unfolding assms by (intro bit_eqI) (auto simp: bit_simps dest: bit_imp_le_length)

lemma head_mask: "(0xf000000 :: u64) = push_bit 24 (mask 4)"
  by (simp add: mask_eq_exp_minus_1)

lemma cut_head:
  assumes "unat x < 268435456"
  shows "unat (ucast (drop_bit 24 (x AND 0xf000000) :: u64) :: u8) = unat x div 16777216"
proof -
  have "unat (take_bit 4 y) = unat y mod 2 ^ 4" for y :: u64
    unfolding unsigned_take_bit_eq take_bit_eq_mod [where 'a = nat] by (rule refl)
  then have "unat (take_bit 4 (drop_bit 24 x)) = unat x div 2 ^ 24 mod 2 ^ 4" by (simp only: high_bits)
  then have h: "unat (drop_bit 24 (x AND 0xf000000)) = unat x div 16777216"
    using assms unfolding cut_nibble [OF head_mask] by simp
  have "unat (ucast y :: u8) = unat y mod 256" for y :: u64 by (simp add: unsigned_ucast_eq take_bit_eq_mod)
  then show ?thesis using h assms by (simp only:) simp
qed

lemma split_byte: "(x :: nat) div 2 ^ k mod 256 + 256 * (x div 2 ^ (k + 8)) = x div 2 ^ k"
proof -
  have "x div 2 ^ (k + 8) = x div 2 ^ k div 256" by (simp add: power_add div_mult2_eq)
  then show ?thesis by simp
qed

lemma bytes6:
  assumes "(x :: nat) < 2 ^ 48"
  shows "x mod 256 + 256 * (x div 2 ^ 8 mod 256 + 256 * (x div 2 ^ 16 mod 256
    + 256 * (x div 2 ^ 24 mod 256 + 256 * (x div 2 ^ 32 mod 256 + 256 * (x div 2 ^ 40 mod 256))))) = x"
proof -
  note s = split_byte [of x 0] split_byte [of x 8] split_byte [of x 16] split_byte [of x 24] split_byte [of x 32]
  have "x div 2 ^ 40 mod 256 = x div 2 ^ 40" using assms by (simp add: less_mult_imp_div_less)
  then show ?thesis using s by simp
qed

lemma bytes3: "(x :: nat) mod 256 + 256 * (x div 2 ^ 8 mod 256 + 256 * (x div 2 ^ 16 mod 256 + 256 * (x div 2 ^ 24))) = x"
  using split_byte [of x 0] split_byte [of x 8] split_byte [of x 16] by simp

lemma chs_nat: "(((x :: nat) div 1008) * 16 + x div 63 mod 16) * 63 + (x mod 63 + 1) - 1 = x"
proof -
  have "x div 1008 = x div 63 div 16" by (simp add: div_mult2_eq [symmetric])
  then have "x div 1008 * 16 + x div 63 mod 16 = x div 63" by simp
  then show ?thesis by simp
qed

lemma unat_byte: "unat (ucast y :: u8) = unat (y :: u64) mod 256"
  by (simp add: unsigned_ucast_eq take_bit_eq_mod)

lemma chs_parts:
  assumes "unat (lba :: u64) < 66060288"
  defines "sect \<equiv> ucast (lba mod 63 + 1) :: u8"
  shows "unat sect = unat lba mod 63 + 1" "unat (lba + 1 - ucast sect) = 63 * (unat lba div 63)"
    "unat (ucast ((lba + 1 - ucast sect) div 1008) :: u16) = unat lba div 1008"
    "unat (ucast ((lba + 1 - ucast sect) mod 1008 div 63) :: u8) = unat lba div 63 mod 16"
proof -
  have m: "unat (lba mod 63 + 1) = unat lba mod 63 + 1"
    by (subst unat_add_small) (simp_all add: unat_mod)
  then show s: "unat sect = unat lba mod 63 + 1" unfolding sect_def unat_byte by simp
  have u: "unat (ucast sect :: u64) = unat lba mod 63 + 1" using s by (simp add: unsigned_ucast_eq take_bit_eq_mod)
  have l: "unat (lba + 1) = unat lba + 1" using assms(1) by (subst unat_add_small) simp_all
  have "unat (lba + 1 - ucast sect) = unat lba + 1 - (unat lba mod 63 + 1)"
    by (subst unat_diff_le) (simp_all add: word_le_unat u l)
  also have "\<dots> = 63 * (unat lba div 63)" using minus_mod_eq_mult_div [of "unat lba" 63] by simp
  finally show d: "unat (lba + 1 - ucast sect) = 63 * (unat lba div 63)" .
  have e: "63 * (n div 63) div 1008 = n div 1008" for n :: nat
    using div_mult2_eq [of n 63 16] div_mult_mult1 [of 63 "n div 63" 16] by simp
  have "unat (ucast y :: u16) = unat y mod 65536" for y :: u64 by (simp add: unsigned_ucast_eq take_bit_eq_mod)
  then show "unat (ucast ((lba + 1 - ucast sect) div 1008) :: u16) = unat lba div 1008"
    using assms(1) by (simp add: unat_div d e less_mult_imp_div_less)
  have "63 * (unat lba div 63) mod 1008 = 63 * (unat lba div 63 mod 16)"
    using mult_mod_right [of 63 "unat lba div 63" 16] by simp
  then show "unat (ucast ((lba + 1 - ucast sect) mod 1008 div 63) :: u8) = unat lba div 63 mod 16"
    unfolding unat_byte by (simp add: unat_div unat_mod d)
qed

lemma cyl_bytes: "unat (ucast (c AND 0xff) :: u8) + 256 * unat (ucast (drop_bit 8 c AND 0xff) :: u8) = unat (c :: u16)"
proof -
  have m: "(0xff :: u16) = mask 8" by (simp add: mask_eq_exp_minus_1)
  have u: "unat (ucast (x AND mask 8) :: u8) = unat x mod 256" for x :: u16
    unfolding take_bit_eq_mask [symmetric] by (simp add: unsigned_ucast_eq unsigned_take_bit_eq take_bit_eq_mod unat_mod)
  have d: "unat (drop_bit 8 c) = unat c div 256" by (simp add: drop_bit_eq_div unat_div)
  have "unat c < 65536" using unsigned_less [of c, where ?'a = nat] by simp
  then show ?thesis unfolding m u d by (simp add: less_mult_imp_div_less)
qed

text \<open>C24: Addressing a sector. For every sector number below \<open>2 ^ 48\<close> the bytes and the head that the driver
  computes for the registers are, as the drive reads them in the mode chosen, the number of that sector; a drive without LBA is
  addressed by cylinder, head and sector, which reaches 65536 cylinders.\<close>

theorem sector_address_roundtrip:
  assumes "unat lba < 2 ^ 48" "fst (sector_address caps lba) = CHS \<Longrightarrow> unat lba < 66060288"
  shows "decode_address (sector_address caps lba) = unat lba \<and> (fst (sector_address caps lba) = LBA48 \<longleftrightarrow> 268435456 \<le> unat lba)"
proof (rule conjI [rotated])
  have big: "lba \<ge> 0x10000000 \<longleftrightarrow> 268435456 \<le> unat lba" by (simp add: word_le_unat)
  show "fst (sector_address caps lba) = LBA48 \<longleftrightarrow> 268435456 \<le> unat lba"
    unfolding big [symmetric] by (simp add: sector_address_def Let_def)
  consider "268435456 \<le> unat lba" | "unat lba < 268435456" "caps AND 0x200 \<noteq> 0" | "unat lba < 268435456" "caps AND 0x200 = 0"
    by linarith
  then show "decode_address (sector_address caps lba) = unat lba"
  proof cases
    case 1
    then show ?thesis using bytes6 [OF assms(1)] big
      by (simp add: decode_address_def sector_address_def cut_bytes high_bits)
  next
    case 2
    have "unat (ucast (drop_bit 24 lba AND 15) :: u8) = unat lba div 16777216" using cut_head [OF 2(1)] by simp
    then show ?thesis using 2 bytes3 [of "unat lba"] big
      by (simp add: decode_address_def sector_address_def cut_bytes high_bits)
  next
    case 3
    then have "fst (sector_address caps lba) = CHS" using big by (simp add: sector_address_def Let_def)
    then have small: "unat lba < 66060288" by (rule assms(2))
    show ?thesis using 3 big chs_parts [OF small] chs_nat [of "unat lba"]
        cyl_bytes [of "ucast ((lba + 1 - ucast (ucast (lba mod 63 + 1) :: u8)) div 1008)"]
      by (simp add: decode_address_def sector_address_def Let_def)
  qed
qed

theorem sector_address_roundtrip_witness:
  "decode_address (sector_address 0 1000000) = 1000000 \<and> fst (sector_address 0 1000000) \<noteq> LBA48"
  using sector_address_roundtrip [of 1000000 0] by simp

text \<open>A drive of 8388608 sectors, four gigabytes, has the size 0.\<close>

lemma drive_size_wraps: "unat (dev_get_size d) = unat (id_size d) * 512 mod 4294967296"
  by (simp add: dev_get_size_def unat_word_ariths)

subsection \<open>Transfer of sectors\<close>

text \<open>A drive that is ready and has the words \<open>xs\<close> to deliver: its status is neither busy nor an error, its data port
  delivers the words one after the other, and reading the status takes nothing from them.\<close>

definition drive_delivers :: "'h ports \<Rightarrow> u16 \<Rightarrow> ('h \<Rightarrow> u16 list) \<Rightarrow> bool" where
  "drive_delivers pt base data \<longleftrightarrow>
     (\<forall>h p. data (snd (pt_inb pt h p)) = data h)
   \<and> (\<forall>h p. p \<noteq> base \<longrightarrow> data h \<noteq> [] \<longrightarrow> (let v = fst (pt_inb pt h p) in
        v AND SR_BSY = 0 \<and> v AND SR_ERR = 0 \<and> v AND SR_DF = 0 \<and> v AND SR_DRQ \<noteq> 0))
   \<and> (\<forall>h x xs. data h = x # xs \<longrightarrow> fst (pt_inw pt h base) = x \<and> data (snd (pt_inw pt h base)) = xs)"

lemma status_reg [simp]: "reg_port c REG_STATUS \<noteq> ch_base c" "high_reg REG_STATUS = False" "high_reg REG_ALTSTATUS = False"
  by (simp_all add: reg_port_def REG_STATUS_def REG_ALTSTATUS_def high_reg_def)

lemma ide_read_plain: "\<not> high_reg r \<Longrightarrow> ide_read pt r c
    = (fst (pt_inb pt (ch_hw c) (reg_port c r)), c\<lparr>ch_hw := snd (pt_inb pt (ch_hw c) (reg_port c r))\<rparr>)"
  by (simp add: ide_read_def case_prod_beta)

text \<open>A step that leaves the ports of the channel and the words to deliver as they are.\<close>

definition keeps :: "('h \<Rightarrow> u16 list) \<Rightarrow> 'h channel \<Rightarrow> 'h channel \<Rightarrow> bool" where
  "keeps data c c' \<longleftrightarrow> ch_base c' = ch_base c \<and> data (ch_hw c') = data (ch_hw c)"

lemma read_keeps: "drive_delivers pt b data \<Longrightarrow> \<not> high_reg r \<Longrightarrow> keeps data c (snd (ide_read pt r c))"
  by (simp add: ide_read_plain keeps_def drive_delivers_def)

lemma read_times_keeps: "drive_delivers pt b data \<Longrightarrow> \<not> high_reg r \<Longrightarrow> keeps data c (read_times pt r n c)"
proof (induction n arbitrary: c)
  case (Suc n)
  show ?case using Suc.IH [OF Suc.prems] read_keeps [OF Suc.prems, of c] by (simp add: keeps_def)
qed (simp add: keeps_def)

lemma ready_polling:
  assumes d: "drive_delivers pt (ch_base c) data" and ne: "data (ch_hw c) \<noteq> []"
  shows "\<exists>c'. polling pt (Suc w) True c = Inr (None, c') \<and> keeps data c c'"
proof -
  define c1 where "c1 = read_times pt REG_ALTSTATUS 4 c"
  define c2 where "c2 = snd (ide_read pt REG_STATUS c1)"
  define c3 where "c3 = snd (ide_read pt REG_STATUS c2)"
  have k: "keeps data c c1" "keeps data c1 c2" "keeps data c2 c3"
    unfolding c1_def c2_def c3_def using d by (auto intro!: read_times_keeps read_keeps)
  then have k3: "keeps data c c3" by (simp add: keeps_def)
  have st: "let v = fst (ide_read pt REG_STATUS e) in
      v AND SR_BSY = 0 \<and> v AND SR_ERR = 0 \<and> v AND SR_DF = 0 \<and> v AND SR_DRQ \<noteq> 0" if "keeps data c e" for e
  proof -
    have "reg_port e REG_STATUS \<noteq> ch_base c" "data (ch_hw e) \<noteq> []" using that ne status_reg(1) [of e] by (auto simp: keeps_def)
    then show ?thesis using d by (simp add: ide_read_plain drive_delivers_def Let_def)
  qed
  note s1 = st [OF k(1)] and s2 = st [of c2]
  have "keeps data c c2" using k by (simp add: keeps_def)
  note s2 = st [OF this]
  have r1: "ide_read pt REG_STATUS c1 = (fst (ide_read pt REG_STATUS c1), c2)" by (simp add: c2_def)
  have r2: "ide_read pt REG_STATUS c2 = (fst (ide_read pt REG_STATUS c2), c3)" by (simp add: c3_def)
  have "wait_ready pt (Suc w) c1 = Inr c2" using s1 by (subst wait_ready.simps, subst r1) (simp add: Let_def)
  then have "polling pt (Suc w) True c = Inr (None, c3)"
    unfolding polling_def c1_def [symmetric] using s2 by (simp add: Let_def, subst r2, simp)
  then show ?thesis using k3 by blast
qed

lemma in_words_delivers:
  assumes "drive_delivers pt (ch_base c) data" "n \<le> length (data (ch_hw c))"
  shows "\<exists>c'. in_words pt n c = (take n (data (ch_hw c)), c') \<and> ch_base c' = ch_base c \<and> data (ch_hw c') = drop n (data (ch_hw c))"
  using assms
proof (induction n arbitrary: c)
  case (Suc n)
  then obtain x xs where x: "data (ch_hw c) = x # xs" by (cases "data (ch_hw c)") auto
  let ?c = "c\<lparr>ch_hw := snd (pt_inw pt (ch_hw c) (ch_base c))\<rparr>"
  have w: "fst (pt_inw pt (ch_hw c) (ch_base c)) = x" "data (ch_hw ?c) = xs"
    using Suc.prems(1) x by (simp_all add: drive_delivers_def)
  obtain c' where "in_words pt n ?c = (take n xs, c')" "ch_base c' = ch_base c" "data (ch_hw c') = drop n xs"
    using Suc.IH [of ?c] Suc.prems w(2) x by auto
  then show ?case using x w(1) by (simp add: case_prod_beta Let_def)
qed simp

text \<open>Transfer of sectors. From a drive that is ready and has the words of \<open>n\<close> sectors to deliver, the reading
  loop stores exactly these words in their order and reports no error, whatever else the status registers hold.\<close>

theorem sector_transfer_delivers:
  assumes "drive_delivers pt (ch_base c) data" "256 * n \<le> length (data (ch_hw c))" "0 < w"
  shows "\<exists>c'. in_sectors pt w n c = Inr (True, take (256 * n) (data (ch_hw c)), c') \<and> data (ch_hw c') = drop (256 * n) (data (ch_hw c))"
  using assms(1,2)
proof (induction n arbitrary: c)
  case (Suc n)
  obtain v where w: "w = Suc v" using assms(3) by (cases w) auto
  have "data (ch_hw c) \<noteq> []" using Suc.prems(2) by auto
  from ready_polling [OF Suc.prems(1) this, of v] w
  obtain c1 where p: "polling pt w True c = Inr (None, c1)" "keeps data c c1" by auto
  then have k: "ch_base c1 = ch_base c" "data (ch_hw c1) = data (ch_hw c)" by (simp_all add: keeps_def)
  obtain c2 where i: "in_words pt 256 c1 = (take 256 (data (ch_hw c)), c2)" "ch_base c2 = ch_base c"
      "data (ch_hw c2) = drop 256 (data (ch_hw c))"
    using in_words_delivers [of pt c1 data 256] Suc.prems k by auto
  have "drive_delivers pt (ch_base c2) data" "256 * n \<le> length (data (ch_hw c2))" using Suc.prems i(2,3) by simp_all
  from Suc.IH [OF this] obtain c3 where "in_sectors pt w n c2 = Inr (True, take (256 * n) (drop 256 (data (ch_hw c))), c3)"
      "data (ch_hw c3) = drop (256 * n) (drop 256 (data (ch_hw c)))"
    unfolding i(3) by blast
  then show ?case using p(1) i(1) by (simp add: take_add add.commute)
qed simp


text \<open>A drive in memory: the words it still has to deliver, with a status that is always ready.\<close>

definition demo_drive :: "u16 list ports" where
  "demo_drive = \<lparr>pt_inb = \<lambda>h p. (SR_DRQ, h), pt_inw = \<lambda>h p. (case h of [] \<Rightarrow> (0, []) | x # xs \<Rightarrow> (x, xs)),
     pt_inl = \<lambda>h p. (0, h), pt_outb = \<lambda>h p v. h, pt_outw = \<lambda>h p v. h\<rparr>"

definition demo_channel :: "u16 list channel" where
  "demo_channel = \<lparr>ch_num = 0, ch_base = 0x1f0, ch_ctrl = 0x3f6, ch_bmst = 0, ch_devices = [], ch_hw = map of_nat [0..<300]\<rparr>"

lemma demo_drive_delivers: "drive_delivers demo_drive 0x1f0 (\<lambda>h. h)"
  by (simp add: drive_delivers_def demo_drive_def SR_DRQ_def SR_BSY_def SR_ERR_def SR_DF_def)

theorem sector_transfer_delivers_witness:
  "\<exists>c'. in_sectors demo_drive 1 1 demo_channel = Inr (True, map of_nat [0..<256], c') \<and> ch_hw c' = map of_nat [256..<300]"
  using sector_transfer_delivers [of demo_drive demo_channel "\<lambda>h. h" 1 1] demo_drive_delivers
  by (simp add: demo_channel_def take_map drop_map)

end
