(* ===== verification/Pci.thy ===== *)
theory Pci
  imports Ide
begin

text \<open>
  PCI enumeration (\<open>kernel/src/drv/pci\<close>). The configuration space is a parameter: \<open>cfg a\<close> is the word that
  the data port delivers after the address \<open>a\<close> was written to the address port. A driver's \<open>init\<close> works on
  the state \<open>'h\<close> of the machine. The list of devices that \<open>init_manager\<close> prints is left out.
\<close>

record pci_device =
  pci_bus :: u8
  pci_dev :: u8
  pci_func :: u8
  pci_config :: "u32 list"

definition PCI_DEVICE_ADDRESS :: "u8 \<Rightarrow> u8 \<Rightarrow> u8 \<Rightarrow> u32 \<Rightarrow> u32" where
  "PCI_DEVICE_ADDRESS b d f off = push_bit 16 (ucast b) OR push_bit 11 (ucast d) OR push_bit 8 (ucast f) OR (off AND 0xfc) OR 0x80000000"

text \<open>The fields of the configuration, which the code reads through a union.\<close>

definition vendor_id :: "pci_device \<Rightarrow> u16" where "vendor_id d = ucast (pci_config d ! 0)"
definition device_id :: "pci_device \<Rightarrow> u16" where "device_id d = ucast (drop_bit 16 (pci_config d ! 0))"
definition revision_id :: "pci_device \<Rightarrow> u8" where "revision_id d = ucast (pci_config d ! 2)"
definition prog_if :: "pci_device \<Rightarrow> u8" where "prog_if d = ucast (drop_bit 8 (pci_config d ! 2))"
definition pci_subclass :: "pci_device \<Rightarrow> u8" where "pci_subclass d = ucast (drop_bit 16 (pci_config d ! 2))"
definition class_code :: "pci_device \<Rightarrow> u8" where "class_code d = ucast (drop_bit 24 (pci_config d ! 2))"
definition header_type :: "pci_device \<Rightarrow> u8" where "header_type d = ucast (drop_bit 16 (pci_config d ! 3))"

definition bar :: "pci_device \<Rightarrow> u8 \<Rightarrow> u32" where
  "bar d i = (if i \<ge> 6 then 0 else pci_config d ! (4 + unat i))"

text \<open>The manager: devices and drivers in the order they were added, and the machine.\<close>

record 'h pci =
  pm_devices :: "pci_device list"
  pm_drivers :: "pci_device list"
  pm_hw :: 'h

type_synonym 'h driver_init = "pci_device \<Rightarrow> 'h \<Rightarrow> (bool \<times> 'h) result"

definition is_valid_device :: "(u32 \<Rightarrow> u32) \<Rightarrow> u8 \<Rightarrow> u8 \<Rightarrow> u8 \<Rightarrow> bool" where
  "is_valid_device cfg b d f \<longleftrightarrow> cfg (PCI_DEVICE_ADDRESS b d f 0) AND 0xffff \<noteq> 0xffff"

definition read_config :: "(u32 \<Rightarrow> u32) \<Rightarrow> u8 \<Rightarrow> u8 \<Rightarrow> u8 \<Rightarrow> pci_device" where
  "read_config cfg b d f = \<lparr>pci_bus = b, pci_dev = d, pci_func = f,
     pci_config = map (\<lambda>i. cfg (PCI_DEVICE_ADDRESS b d f (of_nat i * 4))) [0..<16]\<rparr>"

text \<open>Whether \<open>fetch_driver_for_device\<close> has a driver; the only one is the IDE controller.\<close>

definition has_driver :: "pci_device \<Rightarrow> bool" where
  "has_driver d \<longleftrightarrow> is_ide_controller (class_code d) (pci_subclass d)"

definition add_driver :: "'h driver_init \<Rightarrow> pci_device \<Rightarrow> 'h pci \<Rightarrow> 'h pci result" where
  "add_driver drv d m = bindr (drv d (pm_hw m)) (\<lambda>(ok, h). let m = m\<lparr>pm_hw := h\<rparr> in
     Inr (if ok then m\<lparr>pm_drivers := pm_drivers m @ [d]\<rparr> else m))"

definition pci_add_device :: "(u32 \<Rightarrow> u32) \<Rightarrow> 'h driver_init \<Rightarrow> u8 \<Rightarrow> u8 \<Rightarrow> u8 \<Rightarrow> 'h pci \<Rightarrow> (pci_device option \<times> 'h pci) result" where
  "pci_add_device cfg drv b d f m = (if \<not> is_valid_device cfg b d f then Inr (None, m)
     else let dev = read_config cfg b d f; m = m\<lparr>pm_devices := pm_devices m @ [dev]\<rparr> in
       if has_driver dev then bindr (add_driver drv dev m) (\<lambda>m. Inr (Some dev, m)) else Inr (Some dev, m))"

definition check_device :: "(u32 \<Rightarrow> u32) \<Rightarrow> 'h driver_init \<Rightarrow> u8 \<Rightarrow> u8 \<Rightarrow> 'h pci \<Rightarrow> 'h pci result" where
  "check_device cfg drv b d m = bindr (pci_add_device cfg drv b d 0 m) (\<lambda>(dev, m). case dev of None \<Rightarrow> Inr m
     | Some x \<Rightarrow> if header_type x AND 0x80 \<noteq> 0
         then run_all (\<lambda>m f. bindr (pci_add_device cfg drv b d f m) (\<lambda>(_, m). Inr m)) m [1, 2, 3, 4, 5, 6, 7] else Inr m)"

definition find_all_devices :: "(u32 \<Rightarrow> u32) \<Rightarrow> 'h driver_init \<Rightarrow> 'h pci \<Rightarrow> 'h pci result" where
  "find_all_devices cfg drv m = run_all (\<lambda>m (b, d). check_device cfg drv (of_nat b) (of_nat d) m) m
     (List.product [0..<256] [0..<32])"

definition pci_init :: "(u32 \<Rightarrow> u32) \<Rightarrow> 'h driver_init \<Rightarrow> 'h \<Rightarrow> 'h pci result" where
  "pci_init cfg drv h = find_all_devices cfg drv \<lparr>pm_devices = [], pm_drivers = [], pm_hw = h\<rparr>"

subsection \<open>What the enumeration finds\<close>

text \<open>The functions of a device that are looked at, and those that answer, in the order of the scan.\<close>

definition functions_of :: "(u32 \<Rightarrow> u32) \<Rightarrow> u8 \<Rightarrow> u8 \<Rightarrow> u8 list" where
  "functions_of cfg b d = (if \<not> is_valid_device cfg b d 0 then []
     else if header_type (read_config cfg b d 0) AND 0x80 = 0 then [0]
     else filter (is_valid_device cfg b d) [0, 1, 2, 3, 4, 5, 6, 7])"

definition devices_of :: "(u32 \<Rightarrow> u32) \<Rightarrow> nat \<times> nat \<Rightarrow> pci_device list" where
  "devices_of cfg x = (case x of (b, d) \<Rightarrow> map (read_config cfg (of_nat b) (of_nat d)) (functions_of cfg (of_nat b) (of_nat d)))"

definition driver_returns :: "'h driver_init \<Rightarrow> bool" where
  "driver_returns drv \<longleftrightarrow> (\<forall>d h. \<exists>ok h'. drv d h = Inr (ok, h'))"

lemma add_device_found:
  assumes "driver_returns drv"
  shows "\<exists>m'. pci_add_device cfg drv b d f m = Inr (if is_valid_device cfg b d f then Some (read_config cfg b d f) else None, m')
    \<and> pm_devices m' = pm_devices m @ (if is_valid_device cfg b d f then [read_config cfg b d f] else [])"
proof -
  obtain ok h' where "drv (read_config cfg b d f) (pm_hw m) = Inr (ok, h')" using assms unfolding driver_returns_def by blast
  then show ?thesis by (auto simp: pci_add_device_def add_driver_def Let_def)
qed

lemma add_devices_found:
  assumes "driver_returns drv"
  shows "\<exists>m'. run_all (\<lambda>m f. bindr (pci_add_device cfg drv b d f m) (\<lambda>(_, m). Inr m)) m fs = Inr m'
    \<and> pm_devices m' = pm_devices m @ map (read_config cfg b d) (filter (is_valid_device cfg b d) fs)"
proof (induction fs arbitrary: m)
  case (Cons f fs)
  obtain m1 where "pci_add_device cfg drv b d f m = Inr (if is_valid_device cfg b d f then Some (read_config cfg b d f) else None, m1)"
    "pm_devices m1 = pm_devices m @ (if is_valid_device cfg b d f then [read_config cfg b d f] else [])"
    using add_device_found [OF assms, of cfg b d f m] by blast
  then show ?case using Cons.IH [of m1] by auto
qed simp

lemma check_device_found:
  assumes "driver_returns drv"
  shows "\<exists>m'. check_device cfg drv b d m = Inr m'
    \<and> pm_devices m' = pm_devices m @ map (read_config cfg b d) (functions_of cfg b d)"
proof -
  obtain m1 where "pci_add_device cfg drv b d 0 m = Inr (if is_valid_device cfg b d 0 then Some (read_config cfg b d 0) else None, m1)"
    "pm_devices m1 = pm_devices m @ (if is_valid_device cfg b d 0 then [read_config cfg b d 0] else [])"
    using add_device_found [OF assms, of cfg b d 0 m] by blast
  then show ?thesis using add_devices_found [OF assms, of cfg b d m1 "[1, 2, 3, 4, 5, 6, 7]"]
    by (auto simp: check_device_def functions_of_def)
qed

text \<open>C26: PCI enumeration. When every driver returns, the scan of all buses and devices returns, and its list
  holds exactly the functions that answer - of a device whose function 0 answers, and beyond function 0 only if
  its header says that it has several - in the order of bus, device and function, with their configuration.\<close>

theorem enumeration_finds_functions:
  assumes "driver_returns drv"
  shows "\<exists>m. pci_init cfg drv h = Inr m \<and> pm_devices m = concat (map (devices_of cfg) (List.product [0..<256] [0..<32]))"
proof -
  have "\<exists>m'. run_all (\<lambda>m (b, d). check_device cfg drv (of_nat b) (of_nat d) m) m bds = Inr m'
      \<and> pm_devices m' = pm_devices m @ concat (map (devices_of cfg) bds)" for bds and m :: "'a pci"
  proof (induction bds arbitrary: m)
    case (Cons x bds)
    obtain b d where x: "x = (b, d)" by force
    obtain m1 where "check_device cfg drv (of_nat b) (of_nat d) m = Inr m1" "pm_devices m1 = pm_devices m @ devices_of cfg x"
      using check_device_found [OF assms, of cfg "of_nat b" "of_nat d" m] by (auto simp: x devices_of_def)
    then show ?case using Cons.IH [of m1] by (auto simp: x)
  qed simp
  from this [of "\<lparr>pm_devices = [], pm_drivers = [], pm_hw = h\<rparr>"] show ?thesis
    by (auto simp: pci_init_def find_all_devices_def)
qed

text \<open>One device with an IDE controller, whose driver accepts it.\<close>

definition demo_config :: "u32 \<Rightarrow> u32" where
  "demo_config a = (if drop_bit 8 a = 0x800008 then (if a AND 0xff = 8 then 0x01010000 else 0x12) else 0xffffffff)"

theorem enumeration_finds_functions_witness:
  "\<exists>m. pci_init demo_config (\<lambda>_ h. Inr (True, h + 1)) (0 :: nat) = Inr m
    \<and> pm_devices m = concat (map (devices_of demo_config) (List.product [0..<256] [0..<32]))
    \<and> devices_of demo_config (0, 1) \<noteq> []"
proof -
  have "devices_of demo_config (0, 1) \<noteq> []"
    by (simp add: devices_of_def functions_of_def is_valid_device_def demo_config_def PCI_DEVICE_ADDRESS_def header_type_def
        read_config_def)
  then show ?thesis using enumeration_finds_functions [of "\<lambda>_ h. Inr (True, h + 1)" demo_config "0 :: nat"] by (auto simp: driver_returns_def)
qed

end
