(* ===== verification/Ext2_Layout.thy ===== *)
theory Ext2_Layout
  imports Bytes
begin

text \<open>
  The structures of an ext2 volume (\<open>kernel/src/fs/ext2.hpp\<close>): superblock, block group descriptor and inode
  entry, with their layout on the disk. The members are in the order of the packed structures.
\<close>

definition EXT2_SIGNATURE :: u16 where "EXT2_SIGNATURE = 0xef53"

datatype ext2_what = EXT2_BLOCK | EXT2_INODE

record superblock =
  sb_num_inodes :: u32
  sb_num_blocks :: u32
  sb_num_reserved :: u32
  sb_free_blocks :: u32
  sb_free_inodes :: u32
  sb_blknum :: u32
  sb_block_bits :: u32
  sb_frag_bits :: u32
  sb_blocks_per_group :: u32
  sb_frags_per_group :: u32
  sb_inodes_per_group :: u32
  sb_last_mount_time :: u32
  sb_last_write_time :: u32
  sb_mounts :: u16
  sb_max_mounts :: u16
  sb_signature :: u16
  sb_fs_state :: u16
  sb_error_action :: u16
  sb_minor :: u16
  sb_last_check :: u32
  sb_check_interval :: u32
  sb_os :: u32
  sb_major :: u32
  sb_reserved_uid :: u16
  sb_reserved_gid :: u16
  sb_first_inode :: u32
  sb_inode_size :: u16
  sb_block_group :: u16
  sb_features :: "u32 list"
  sb_fs_id :: "u8 list"
  sb_volume_name :: "u8 list"
  sb_last_mount :: "u8 list"
  sb_compression :: u32
  sb_file_prealloc :: u8
  sb_dir_prealloc :: u8
  sb_unused :: u16
  sb_journal_id :: "u8 list"
  sb_journal_inode :: u32
  sb_journal_device :: u32
  sb_orphan_head :: u32

record group_desc =
  gd_block_bitmap :: u32
  gd_inode_bitmap :: u32
  gd_inode_table :: u32
  gd_free_blocks :: u16
  gd_free_inodes :: u16
  gd_dirs :: u16
  gd_unused :: "u8 list"

record inode_entry =
  ie_mode :: u16
  ie_uid :: u16
  ie_size :: u32
  ie_atime :: u32
  ie_ctime :: u32
  ie_mtime :: u32
  ie_dtime :: u32
  ie_gid :: u16
  ie_links :: u16
  ie_sectors :: u32
  ie_flags :: u32
  ie_osd1 :: u32
  ie_direct :: "u32 list"
  ie_single :: u32
  ie_double :: u32
  ie_triple :: u32
  ie_generation :: u32
  ie_file_acl :: u32
  ie_dir_acl :: u32
  ie_frag :: u32
  ie_osd2 :: "u32 list"

definition SB_SIZE :: u64 where "SB_SIZE = 236"
definition GD_SIZE :: u32 where "GD_SIZE = 32"
definition IE_SIZE :: u64 where "IE_SIZE = 128"

subsection \<open>From and to bytes\<close>

definition put_superblock :: "superblock \<Rightarrow> u8 list" where
  "put_superblock s = put32 (sb_num_inodes s) @ put32 (sb_num_blocks s) @ put32 (sb_num_reserved s) @ put32 (sb_free_blocks s)
     @ put32 (sb_free_inodes s) @ put32 (sb_blknum s) @ put32 (sb_block_bits s) @ put32 (sb_frag_bits s) @ put32 (sb_blocks_per_group s)
     @ put32 (sb_frags_per_group s) @ put32 (sb_inodes_per_group s) @ put32 (sb_last_mount_time s) @ put32 (sb_last_write_time s)
     @ put16 (sb_mounts s) @ put16 (sb_max_mounts s) @ put16 (sb_signature s) @ put16 (sb_fs_state s) @ put16 (sb_error_action s)
     @ put16 (sb_minor s) @ put32 (sb_last_check s) @ put32 (sb_check_interval s) @ put32 (sb_os s) @ put32 (sb_major s)
     @ put16 (sb_reserved_uid s) @ put16 (sb_reserved_gid s) @ put32 (sb_first_inode s) @ put16 (sb_inode_size s) @ put16 (sb_block_group s)
     @ bytes_of32 (sb_features s) @ sb_fs_id s @ sb_volume_name s @ sb_last_mount s @ put32 (sb_compression s)
     @ [sb_file_prealloc s] @ [sb_dir_prealloc s] @ put16 (sb_unused s) @ sb_journal_id s @ put32 (sb_journal_inode s)
     @ put32 (sb_journal_device s) @ put32 (sb_orphan_head s)"

definition take_superblock :: "u8 list \<Rightarrow> superblock \<times> u8 list" where
  "take_superblock b = (let (a1, b) = take32 b; (a2, b) = take32 b; (a3, b) = take32 b; (a4, b) = take32 b; (a5, b) = take32 b;
     (a6, b) = take32 b; (a7, b) = take32 b; (a8, b) = take32 b; (a9, b) = take32 b; (a10, b) = take32 b; (a11, b) = take32 b;
     (a12, b) = take32 b; (a13, b) = take32 b; (a14, b) = take16 b; (a15, b) = take16 b; (a16, b) = take16 b; (a17, b) = take16 b;
     (a18, b) = take16 b; (a19, b) = take16 b; (a20, b) = take32 b; (a21, b) = take32 b; (a22, b) = take32 b; (a23, b) = take32 b;
     (a24, b) = take16 b; (a25, b) = take16 b; (a26, b) = take32 b; (a27, b) = take16 b; (a28, b) = take16 b;
     (a29, b) = take_many take32 3 b; (a30, b) = take_bytes 16 b; (a31, b) = take_bytes 16 b; (a32, b) = take_bytes 64 b;
     (a33, b) = take32 b; (a34, b) = take8 b; (a35, b) = take8 b; (a36, b) = take16 b; (a37, b) = take_bytes 16 b;
     (a38, b) = take32 b; (a39, b) = take32 b; (a40, b) = take32 b in
     (\<lparr>sb_num_inodes = a1, sb_num_blocks = a2, sb_num_reserved = a3, sb_free_blocks = a4, sb_free_inodes = a5, sb_blknum = a6,
       sb_block_bits = a7, sb_frag_bits = a8, sb_blocks_per_group = a9, sb_frags_per_group = a10, sb_inodes_per_group = a11,
       sb_last_mount_time = a12, sb_last_write_time = a13, sb_mounts = a14, sb_max_mounts = a15, sb_signature = a16,
       sb_fs_state = a17, sb_error_action = a18, sb_minor = a19, sb_last_check = a20, sb_check_interval = a21, sb_os = a22,
       sb_major = a23, sb_reserved_uid = a24, sb_reserved_gid = a25, sb_first_inode = a26, sb_inode_size = a27,
       sb_block_group = a28, sb_features = a29, sb_fs_id = a30, sb_volume_name = a31, sb_last_mount = a32, sb_compression = a33,
       sb_file_prealloc = a34, sb_dir_prealloc = a35, sb_unused = a36, sb_journal_id = a37, sb_journal_inode = a38,
       sb_journal_device = a39, sb_orphan_head = a40\<rparr>, b))"

definition put_group :: "group_desc \<Rightarrow> u8 list" where
  "put_group g = put32 (gd_block_bitmap g) @ put32 (gd_inode_bitmap g) @ put32 (gd_inode_table g) @ put16 (gd_free_blocks g)
     @ put16 (gd_free_inodes g) @ put16 (gd_dirs g) @ gd_unused g"

definition take_group :: "u8 list \<Rightarrow> group_desc \<times> u8 list" where
  "take_group b = (let (a1, b) = take32 b; (a2, b) = take32 b; (a3, b) = take32 b; (a4, b) = take16 b; (a5, b) = take16 b;
     (a6, b) = take16 b; (a7, b) = take_bytes 14 b in
     (\<lparr>gd_block_bitmap = a1, gd_inode_bitmap = a2, gd_inode_table = a3, gd_free_blocks = a4, gd_free_inodes = a5, gd_dirs = a6,
       gd_unused = a7\<rparr>, b))"

definition put_inode_entry :: "inode_entry \<Rightarrow> u8 list" where
  "put_inode_entry e = put16 (ie_mode e) @ put16 (ie_uid e) @ put32 (ie_size e) @ put32 (ie_atime e) @ put32 (ie_ctime e)
     @ put32 (ie_mtime e) @ put32 (ie_dtime e) @ put16 (ie_gid e) @ put16 (ie_links e) @ put32 (ie_sectors e) @ put32 (ie_flags e)
     @ put32 (ie_osd1 e) @ bytes_of32 (ie_direct e) @ put32 (ie_single e) @ put32 (ie_double e) @ put32 (ie_triple e)
     @ put32 (ie_generation e) @ put32 (ie_file_acl e) @ put32 (ie_dir_acl e) @ put32 (ie_frag e) @ bytes_of32 (ie_osd2 e)"

definition take_inode_entry :: "u8 list \<Rightarrow> inode_entry \<times> u8 list" where
  "take_inode_entry b = (let (a1, b) = take16 b; (a2, b) = take16 b; (a3, b) = take32 b; (a4, b) = take32 b; (a5, b) = take32 b;
     (a6, b) = take32 b; (a7, b) = take32 b; (a8, b) = take16 b; (a9, b) = take16 b; (a10, b) = take32 b; (a11, b) = take32 b;
     (a12, b) = take32 b; (a13, b) = take_many take32 12 b; (a14, b) = take32 b; (a15, b) = take32 b; (a16, b) = take32 b;
     (a17, b) = take32 b; (a18, b) = take32 b; (a19, b) = take32 b; (a20, b) = take32 b; (a21, b) = take_many take32 3 b in
     (\<lparr>ie_mode = a1, ie_uid = a2, ie_size = a3, ie_atime = a4, ie_ctime = a5, ie_mtime = a6, ie_dtime = a7, ie_gid = a8,
       ie_links = a9, ie_sectors = a10, ie_flags = a11, ie_osd1 = a12, ie_direct = a13, ie_single = a14, ie_double = a15,
       ie_triple = a16, ie_generation = a17, ie_file_acl = a18, ie_dir_acl = a19, ie_frag = a20, ie_osd2 = a21\<rparr>, b))"

subsection \<open>The arrays have the length the structures give them\<close>

definition superblock_ok :: "superblock \<Rightarrow> bool" where
  "superblock_ok s \<longleftrightarrow> length (sb_features s) = 3 \<and> length (sb_fs_id s) = 16 \<and> length (sb_volume_name s) = 16
     \<and> length (sb_last_mount s) = 64 \<and> length (sb_journal_id s) = 16"

definition group_ok :: "group_desc \<Rightarrow> bool" where
  "group_ok g \<longleftrightarrow> length (gd_unused g) = 14"

definition entry_ok :: "inode_entry \<Rightarrow> bool" where
  "entry_ok e \<longleftrightarrow> length (ie_direct e) = 12 \<and> length (ie_osd2 e) = 3"

lemma take_put_superblock: "superblock_ok s \<Longrightarrow> take_superblock (put_superblock s @ r) = (s, r)"
  by (cases s) (simp add: superblock_ok_def put_superblock_def take_superblock_def)

lemma take_put_group: "group_ok g \<Longrightarrow> take_group (put_group g @ r) = (g, r)"
  by (cases g) (simp add: group_ok_def put_group_def take_group_def)

lemma take_put_entry: "entry_ok e \<Longrightarrow> take_inode_entry (put_inode_entry e @ r) = (e, r)"
  by (cases e) (simp add: entry_ok_def put_inode_entry_def take_inode_entry_def)

lemma put_lengths:
  "superblock_ok s \<Longrightarrow> length (put_superblock s) = 236" "group_ok g \<Longrightarrow> length (put_group g) = 32"
  "entry_ok e \<Longrightarrow> length (put_inode_entry e) = 128"
  by (simp_all add: superblock_ok_def put_superblock_def group_ok_def put_group_def entry_ok_def put_inode_entry_def)

lemma take_entry_ok: "128 \<le> length b \<Longrightarrow> entry_ok (fst (take_inode_entry b))"
  by (simp add: entry_ok_def take_inode_entry_def case_prod_beta Let_def length_take_many)

text \<open>Layout of the structures. Reading a superblock, a group descriptor or an inode entry from the bytes
  that were written for it gives it back and leaves the bytes behind it, and the sizes are those of the packed
  structures: 236, 32 and 128 bytes.\<close>

theorem structures_roundtrip:
  assumes "superblock_ok s" "group_ok g" "entry_ok e"
  shows "take_superblock (put_superblock s @ r) = (s, r) \<and> take_group (put_group g @ r) = (g, r)
    \<and> take_inode_entry (put_inode_entry e @ r) = (e, r)
    \<and> length (put_superblock s) = 236 \<and> length (put_group g) = 32 \<and> length (put_inode_entry e) = 128"
  using take_put_superblock take_put_group take_put_entry put_lengths assms by blast

definition demo_super :: superblock where
  "demo_super = fst (take_superblock (replicate 56 1 @ put16 EXT2_SIGNATURE @ replicate 178 0))"

definition demo_group :: group_desc where
  "demo_group = fst (take_group (put32 3 @ put32 4 @ put32 5 @ replicate 20 2))"

definition demo_entry :: inode_entry where
  "demo_entry = fst (take_inode_entry (put16 0x81a4 @ replicate 126 7))"

lemma demo_structures_ok: "superblock_ok demo_super \<and> group_ok demo_group \<and> entry_ok demo_entry"
  by code_simp

theorem structures_roundtrip_witness:
  "take_superblock (put_superblock demo_super) = (demo_super, []) \<and> length (put_inode_entry demo_entry) = 128"
  using structures_roundtrip [of demo_super demo_group demo_entry "[]"] demo_structures_ok by simp

end
