(* ===== verification/Ext2_Blocks.thy ===== *)
theory Ext2_Blocks
  imports Ext2_Layout Heap Inodes Bitmap
begin

text \<open>
  Blocks and inodes of an ext2 volume (\<open>kernel/src/fs/ext2.cpp\<close>): access to the device, inode entries, the block
  map of an inode, the usage bitmaps and the allocation of blocks, up to \<open>resize_inode\<close>, \<open>create_inode\<close> and
  \<open>remove_inode\<close>. The device is the description the file system was mounted from, a record of functions on its
  state; a read delivers the number of bytes read and the bytes. \<open>time()\<close> is a function of the device's state.

  A structure that was not filled because its read failed is uninitialised; using it is a \<open>Fault\<close>, like an access
  outside an array or a division by a zero of the superblock. A shift of a 32-bit number takes its
  distance modulo 32, as the processor does.
\<close>

record 'd disk =
  dk_read :: "'d \<Rightarrow> u64 \<Rightarrow> u64 \<Rightarrow> (u64 \<times> u8 list \<times> 'd) result"
  dk_write :: "'d \<Rightarrow> u8 list \<Rightarrow> u64 \<Rightarrow> (u64 \<times> 'd) result"
  dk_time :: "'d \<Rightarrow> u32"

record 'd ext2 =
  ex_dev :: 'd
  ex_src :: "string option"
  ex_bits :: u32
  ex_bsize :: u32
  ex_groups :: u32
  ex_isize :: u32
  ex_bgd :: "group_desc list"
  ex_sblk :: superblock
  ex_bmap :: "u8 list"
  ex_imap :: "u8 list"

definition shl32 :: "u32 \<Rightarrow> u32 \<Rightarrow> u32" where
  "shl32 x n = push_bit (unat n mod 32) x"

definition shl64 :: "u64 \<Rightarrow> u32 \<Rightarrow> u64" where
  "shl64 x n = push_bit (unat n mod 64) x"

definition ex_read :: "'d disk \<Rightarrow> u64 \<Rightarrow> u64 \<Rightarrow> 'd ext2 \<Rightarrow> (bool \<times> u8 list \<times> 'd ext2) result" where
  "ex_read dk off n s = bindr (dk_read dk (ex_dev s) off n) (\<lambda>(m, bs, d). Inr (m = n, bs, s\<lparr>ex_dev := d\<rparr>))"

definition ex_write :: "'d disk \<Rightarrow> u8 list \<Rightarrow> u64 \<Rightarrow> 'd ext2 \<Rightarrow> (bool \<times> 'd ext2) result" where
  "ex_write dk bs off s = bindr (dk_write dk (ex_dev s) bs off) (\<lambda>(m, d). Inr (m = of_nat (length bs), s\<lparr>ex_dev := d\<rparr>))"

definition ex_read_blocks :: "'d disk \<Rightarrow> u32 \<Rightarrow> u32 \<Rightarrow> 'd ext2 \<Rightarrow> (bool \<times> u8 list \<times> 'd ext2) result" where
  "ex_read_blocks dk blk n s = ex_read dk (shl64 (ucast blk) (ex_bits s)) (shl64 (ucast n) (ex_bits s)) s"

definition ex_write_blocks :: "'d disk \<Rightarrow> u8 list \<Rightarrow> u32 \<Rightarrow> 'd ext2 \<Rightarrow> (bool \<times> 'd ext2) result" where
  "ex_write_blocks dk bs blk s = ex_write dk bs (shl64 (ucast blk) (ex_bits s)) s"

subsection \<open>Inode entries\<close>

definition div_r :: "u32 \<Rightarrow> u32 \<Rightarrow> u32 result" where
  "div_r a b = (if b = 0 then Inl Fault else Inr (a div b))"

definition inode_entry_offset :: "u32 \<Rightarrow> 'd ext2 \<Rightarrow> u64 result" where
  "inode_entry_offset num s = (let n = sb_inodes_per_group (ex_sblk s) in
     bindr (div_r (num - 1) n) (\<lambda>g. if g > ex_groups s then Inr 0
       else bindr (nth_r (ex_bgd s) (unat g)) (\<lambda>gd.
         Inr (shl64 (ucast (gd_inode_table gd)) (ex_bits s) + ucast ((num - 1) mod n * ex_isize s)))))"

definition read_inode_entry :: "'d disk \<Rightarrow> u32 \<Rightarrow> 'd ext2 \<Rightarrow> (inode_entry option \<times> 'd ext2) result" where
  "read_inode_entry dk num s = bindr (inode_entry_offset num s) (\<lambda>off. if off = 0 then Inr (None, s)
     else bindr (ex_read dk off IE_SIZE s) (\<lambda>(ok, bs, s). Inr (if ok then Some (fst (take_inode_entry bs)) else None, s)))"

definition write_inode_entry :: "'d disk \<Rightarrow> inode_entry \<Rightarrow> u32 \<Rightarrow> 'd ext2 \<Rightarrow> (bool \<times> 'd ext2) result" where
  "write_inode_entry dk e num s = bindr (inode_entry_offset num s) (\<lambda>off. if off = 0 then Inr (False, s)
     else ex_write dk (put_inode_entry e) off s)"

subsection \<open>The block map of an inode\<close>

definition read_blknum_from_table :: "'d disk \<Rightarrow> u32 \<Rightarrow> u32 \<Rightarrow> 'd ext2 \<Rightarrow> (u32 \<times> 'd ext2) result" where
  "read_blknum_from_table dk blk i s = (if blk = 0 then Inr (0, s)
     else bindr (ex_read_blocks dk blk 1 s) (\<lambda>(ok, bs, s). if \<not> ok then Inr (0, s)
       else bindr (nth_r (words32 bs) (unat i)) (\<lambda>n. Inr (n, s))))"

definition get_inode_blknum :: "'d disk \<Rightarrow> inode_entry \<Rightarrow> u32 \<Rightarrow> 'd ext2 \<Rightarrow> (u32 \<times> 'd ext2) result" where
  "get_inode_blknum dk e off s = (if off < 12 then bindr (nth_r (ie_direct e) (unat off)) (\<lambda>n. Inr (n, s)) else
     let n0 = ex_bsize s div 4; n1 = n0 * n0; off = off - 12 in
     if off < n0 then read_blknum_from_table dk (ie_single e) off s else
     let off = off - n0 in
     if off < n1 then bindr (div_r off n0) (\<lambda>i. bindr (read_blknum_from_table dk (ie_double e) i s) (\<lambda>(b, s).
       if b = 0 then Inr (0, s) else read_blknum_from_table dk b (off mod n0) s)) else
     let off = off - n1 in
     bindr (div_r off n1) (\<lambda>i0. bindr (div_r (off - i0 * n1) n0) (\<lambda>i1.
       bindr (read_blknum_from_table dk (ie_triple e) i0 s) (\<lambda>(b, s). if b = 0 then Inr (0, s)
       else bindr (read_blknum_from_table dk b i1 s) (\<lambda>(b, s). if b = 0 then Inr (0, s)
       else read_blknum_from_table dk b ((off - i0 * n1) mod n0) s)))))"

text \<open>Reading returns how many blocks were read and their bytes; the time of the access goes into the entry.\<close>

fun in_blocks :: "'d disk \<Rightarrow> inode_entry \<Rightarrow> u32 \<Rightarrow> nat \<Rightarrow> 'd ext2 \<Rightarrow> (nat \<times> u8 list \<times> 'd ext2) result" where
  "in_blocks dk e off 0 s = Inr (0, [], s)"
| "in_blocks dk e off (Suc n) s = bindr (get_inode_blknum dk e off s) (\<lambda>(b, s). if b = 0 then Inr (0, [], s)
     else bindr (ex_read_blocks dk b 1 s) (\<lambda>(ok, bs, s). if \<not> ok then Inr (0, bs, s)
       else bindr (in_blocks dk e (off + 1) n s) (\<lambda>(m, cs, s). Inr (Suc m, bs @ cs, s))))"

fun out_blocks :: "'d disk \<Rightarrow> u8 list \<Rightarrow> inode_entry \<Rightarrow> u32 \<Rightarrow> nat \<Rightarrow> 'd ext2 \<Rightarrow> (nat \<times> 'd ext2) result" where
  "out_blocks dk bs e off 0 s = Inr (0, s)"
| "out_blocks dk bs e off (Suc n) s = bindr (get_inode_blknum dk e off s) (\<lambda>(b, s). if b = 0 then Inr (0, s)
     else bindr (peek bs 0 (unat (ex_bsize s))) (\<lambda>cs. bindr (ex_write_blocks dk cs b s) (\<lambda>(ok, s). if \<not> ok then Inr (0, s)
       else bindr (out_blocks dk (drop (unat (ex_bsize s)) bs) e (off + 1) n s) (\<lambda>(m, s). Inr (Suc m, s)))))"

definition read_inode_blocks :: "'d disk \<Rightarrow> inode_entry \<Rightarrow> u32 \<Rightarrow> u32 \<Rightarrow> 'd ext2 \<Rightarrow> (u32 \<times> u8 list \<times> inode_entry \<times> 'd ext2) result" where
  "read_inode_blocks dk e off n s = (let e = e\<lparr>ie_atime := dk_time dk (ex_dev s)\<rparr> in
     bindr (in_blocks dk e off (unat n) s) (\<lambda>(m, bs, s). Inr (of_nat m, bs, e, s)))"

definition write_inode_blocks :: "'d disk \<Rightarrow> u8 list \<Rightarrow> inode_entry \<Rightarrow> u32 \<Rightarrow> u32 \<Rightarrow> 'd ext2 \<Rightarrow> (u32 \<times> inode_entry \<times> 'd ext2) result" where
  "write_inode_blocks dk bs e off n s = (let e = e\<lparr>ie_mtime := dk_time dk (ex_dev s)\<rparr> in
     bindr (out_blocks dk bs e off (unat n) s) (\<lambda>(m, s). Inr (of_nat m, e, s)))"

subsection \<open>The usage bitmaps\<close>

definition free_count :: "ext2_what \<Rightarrow> 'd ext2 \<Rightarrow> u32" where
  "free_count w s = (if w = EXT2_BLOCK then sb_free_blocks (ex_sblk s) else sb_free_inodes (ex_sblk s))"

definition usage_map :: "ext2_what \<Rightarrow> 'd ext2 \<Rightarrow> u8 list" where
  "usage_map w s = (if w = EXT2_BLOCK then ex_bmap s else ex_imap s)"

definition put_usage_map :: "ext2_what \<Rightarrow> u8 list \<Rightarrow> 'd ext2 \<Rightarrow> 'd ext2" where
  "put_usage_map w bm s = (if w = EXT2_BLOCK then s\<lparr>ex_bmap := bm\<rparr> else s\<lparr>ex_imap := bm\<rparr>)"

text \<open>The free counts of the superblock and of the group change together.\<close>

definition count_free :: "ext2_what \<Rightarrow> bool \<Rightarrow> nat \<Rightarrow> 'd ext2 \<Rightarrow> 'd ext2 result" where
  "count_free w up g s = bindr (nth_r (ex_bgd s) g) (\<lambda>gd. let sb = ex_sblk s in Inr (if w = EXT2_BLOCK
     then s\<lparr>ex_bgd := (ex_bgd s)[g := gd\<lparr>gd_free_blocks := (if up then gd_free_blocks gd + 1 else gd_free_blocks gd - 1)\<rparr>],
       ex_sblk := sb\<lparr>sb_free_blocks := (if up then sb_free_blocks sb + 1 else sb_free_blocks sb - 1)\<rparr>\<rparr>
     else s\<lparr>ex_bgd := (ex_bgd s)[g := gd\<lparr>gd_free_inodes := (if up then gd_free_inodes gd + 1 else gd_free_inodes gd - 1)\<rparr>],
       ex_sblk := sb\<lparr>sb_free_inodes := (if up then sb_free_inodes sb + 1 else sb_free_inodes sb - 1)\<rparr>\<rparr>))"

text \<open>Also for inodes the number of blocks per group bounds the index and gives the number of the result.\<close>

definition alloc :: "ext2_what \<Rightarrow> 'd ext2 \<Rightarrow> (u32 \<times> 'd ext2) result" where
  "alloc w s = (if free_count w s = 0 then Inr (0, s) else
     let bm = usage_map w s; i8 = first_free_byte bm; bsize = unat (ex_bsize s) in
     if i8 = length bm then Inr (0, s) else
     let bit = first_free_bit (bm ! i8) [0..<8] in if bit = 8 then Inr (0, s) else
     let g = i8 div bsize; index = i8 mod bsize * 8 + bit; per = sb_blocks_per_group (ex_sblk s) in
     if index \<ge> unat per then Inr (0, s) else
     bindr (count_free w False g (put_usage_map w (bm[i8 := bm ! i8 OR push_bit bit 1]) s)) (\<lambda>s.
       let n = of_nat g * per + of_nat index in Inr (if w = EXT2_BLOCK then n else n + 1, s)))"

definition dealloc :: "ext2_what \<Rightarrow> u32 \<Rightarrow> 'd ext2 \<Rightarrow> 'd ext2 result" where
  "dealloc w n s = (let n = (if w = EXT2_INODE then n - 1 else n);
       per = (if w = EXT2_BLOCK then sb_blocks_per_group (ex_sblk s) else sb_inodes_per_group (ex_sblk s)) in
     bindr (div_r n per) (\<lambda>g. let index = n mod per; i8 = g * ex_bsize s + index div 8; bit = push_bit (unat (index mod 8)) 1 in
       bindr (nth_r (usage_map w s) (unat i8)) (\<lambda>b. if b AND bit = 0 then Inr s
         else count_free w True (unat g) (put_usage_map w ((usage_map w s)[unat i8 := b AND NOT bit]) s))))"

definition clear_block :: "'d disk \<Rightarrow> u32 \<Rightarrow> 'd ext2 \<Rightarrow> 'd ext2 result" where
  "clear_block dk blk s = bindr (ex_write_blocks dk (replicate (unat (ex_bsize s)) 0) blk s) (\<lambda>(_, s). Inr s)"

subsection \<open>Blocks of pointers\<close>

text \<open>The index from which a block of pointers is filled: that of the last pointer that is not 0, or 0.\<close>

fun last_used :: "u32 list \<Rightarrow> nat \<Rightarrow> nat" where
  "last_used p 0 = 0"
| "last_used p (Suc i) = (if p ! Suc i \<noteq> 0 then Suc i else last_used p i)"

text \<open>The loop over the indices \<open>is\<close> of a block of pointers; \<open>child\<close> fills the block behind a pointer, and is absent
  in the lowest layer. The results are the number of blocks allocated and the pointers.\<close>

fun alloc_loop :: "'d disk \<Rightarrow> (u32 \<Rightarrow> u32 \<Rightarrow> 'd ext2 \<Rightarrow> (u32 \<times> 'd ext2) result) option \<Rightarrow> u32 \<Rightarrow> nat list \<Rightarrow> u32 list \<Rightarrow> u32 \<Rightarrow> 'd ext2
    \<Rightarrow> (u32 \<times> u32 list \<times> 'd ext2) result" where
  "alloc_loop dk child count [] p done s = Inr (done, p, s)"
| "alloc_loop dk child count (i # is) p done s =
     bindr (if p ! i \<noteq> 0 then Inr (Some (p, done), s)
       else bindr (alloc EXT2_BLOCK s) (\<lambda>(b, s). if b = 0 then Inr (None, s)
         else if child = None then Inr (Some (p[i := b], done + 1), s)
         else bindr (clear_block dk b s) (\<lambda>s. Inr (Some (p[i := b], done), s)))) (\<lambda>(r, s).
     case r of None \<Rightarrow> Inr (done, p, s) | Some (p, done) \<Rightarrow>
     bindr (case child of None \<Rightarrow> Inr (0, s) | Some f \<Rightarrow> f (p ! i) (count - done) s) (\<lambda>(k, s). let done = done + k in
       if done > count then Inl Panic else if done = count then Inr (done, p, s)
       else alloc_loop dk child count is p done s))"

definition alloc_ptr_body :: "'d disk \<Rightarrow> (u32 \<Rightarrow> u32 \<Rightarrow> 'd ext2 \<Rightarrow> (u32 \<times> 'd ext2) result) option \<Rightarrow> u32 \<Rightarrow> u32 \<Rightarrow> 'd ext2
    \<Rightarrow> (u32 \<times> 'd ext2) result" where
  "alloc_ptr_body dk child blk count s = bindr (ex_read_blocks dk blk 1 s) (\<lambda>(ok, bs, s). if \<not> ok then Inr (0, s) else
     let p = words32 bs; n = unat (ex_bsize s div 4) in if length p \<noteq> n \<or> n = 0 then Inl Fault else
     bindr (alloc_loop dk child count [last_used p (n - 1)..<n] p 0 s) (\<lambda>(done, p, s).
       bindr (ex_write_blocks dk (bytes_of32 p) blk s) (\<lambda>(ok, s). Inr (if ok then done else 0, s))))"

fun alloc_inode_ptrblk :: "'d disk \<Rightarrow> nat \<Rightarrow> u32 \<Rightarrow> u32 \<Rightarrow> 'd ext2 \<Rightarrow> (u32 \<times> 'd ext2) result" where
  "alloc_inode_ptrblk dk 0 blk count s = alloc_ptr_body dk None blk count s"
| "alloc_inode_ptrblk dk (Suc layer) blk count s = alloc_ptr_body dk (Some (alloc_inode_ptrblk dk layer)) blk count s"

text \<open>Releasing goes down from the index before the first pointer that is 0. The flag of the result says that the
  loop ended at the first pointer.\<close>

fun dealloc_loop :: "(u32 \<Rightarrow> u32 \<Rightarrow> 'd ext2 \<Rightarrow> ((u32 \<times> bool) \<times> 'd ext2) result) option \<Rightarrow> u32 \<Rightarrow> nat \<Rightarrow> u32 list \<Rightarrow> u32 \<Rightarrow> 'd ext2
    \<Rightarrow> (u32 \<times> bool \<times> u32 list \<times> 'd ext2) result" where
  "dealloc_loop child count 0 p done s = Inr (done, True, p, s)"
| "dealloc_loop child count (Suc i) p done s =
     bindr (case child of None \<Rightarrow> bindr (dealloc EXT2_BLOCK (p ! i) s) (\<lambda>s. Inr (p[i := 0], done + 1, s))
       | Some f \<Rightarrow> bindr (f (p ! i) (count - done) s) (\<lambda>((k, may), s). if \<not> may then Inr (p, done + k, s)
           else bindr (dealloc EXT2_BLOCK (p ! i) s) (\<lambda>s. Inr (p[i := 0], done + k, s)))) (\<lambda>(p, done, s).
       if done > count then Inl Panic else if done = count then Inr (done, i = 0, p, s)
       else dealloc_loop child count i p done s)"

definition dealloc_ptr_body :: "'d disk \<Rightarrow> (u32 \<Rightarrow> u32 \<Rightarrow> 'd ext2 \<Rightarrow> ((u32 \<times> bool) \<times> 'd ext2) result) option \<Rightarrow> u32 \<Rightarrow> u32 \<Rightarrow> 'd ext2
    \<Rightarrow> ((u32 \<times> bool) \<times> 'd ext2) result" where
  "dealloc_ptr_body dk child blk count s = bindr (ex_read_blocks dk blk 1 s) (\<lambda>(ok, bs, s). if \<not> ok then Inr ((0, False), s) else
     let p = words32 bs; n = unat (ex_bsize s div 4) in if length p \<noteq> n then Inl Fault else
     let used = length (takeWhile (\<lambda>b. b \<noteq> 0) p) in if used = 0 then Inr ((0, True), s) else
     bindr (dealloc_loop child count used p 0 s) (\<lambda>(done, first, p, s).
       bindr (ex_write_blocks dk (bytes_of32 p) blk s) (\<lambda>(ok, s). Inr (if ok then (done, first) else (0, False), s))))"

fun dealloc_inode_ptrblk :: "'d disk \<Rightarrow> nat \<Rightarrow> u32 \<Rightarrow> u32 \<Rightarrow> 'd ext2 \<Rightarrow> ((u32 \<times> bool) \<times> 'd ext2) result" where
  "dealloc_inode_ptrblk dk 0 blk count s = dealloc_ptr_body dk None blk count s"
| "dealloc_inode_ptrblk dk (Suc layer) blk count s = dealloc_ptr_body dk (Some (dealloc_inode_ptrblk dk layer)) blk count s"

subsection \<open>The blocks of an inode\<close>

text \<open>The loop over the direct blocks; the flag says that the count was reached or that no block is left.\<close>

fun alloc_direct :: "u32 \<Rightarrow> nat list \<Rightarrow> inode_entry \<Rightarrow> u32 \<Rightarrow> 'd ext2 \<Rightarrow> (bool \<times> u32 \<times> inode_entry \<times> 'd ext2) result" where
  "alloc_direct count [] e done s = Inr (False, done, e, s)"
| "alloc_direct count (i # is) e done s = bindr (nth_r (ie_direct e) i) (\<lambda>b. if b \<noteq> 0 then alloc_direct count is e done s
     else bindr (alloc EXT2_BLOCK s) (\<lambda>(b, s). if b = 0 then Inr (True, done, e, s)
       else let e = e\<lparr>ie_direct := (ie_direct e)[i := b]\<rparr>; done = done + 1 in
         if done \<ge> count then Inr (True, done, e, s) else alloc_direct count is e done s))"

text \<open>The three indirect blocks, as the depth of what is behind them.\<close>

definition get_indirect :: "nat \<Rightarrow> inode_entry \<Rightarrow> u32" where
  "get_indirect l e = (if l = 0 then ie_single e else if l = 1 then ie_double e else ie_triple e)"

definition set_indirect :: "nat \<Rightarrow> u32 \<Rightarrow> inode_entry \<Rightarrow> inode_entry" where
  "set_indirect l b e = (if l = 0 then e\<lparr>ie_single := b\<rparr> else if l = 1 then e\<lparr>ie_double := b\<rparr> else e\<lparr>ie_triple := b\<rparr>)"

fun alloc_indirect :: "'d disk \<Rightarrow> u32 \<Rightarrow> nat list \<Rightarrow> inode_entry \<Rightarrow> u32 \<Rightarrow> 'd ext2 \<Rightarrow> (u32 \<times> inode_entry \<times> 'd ext2) result" where
  "alloc_indirect dk count [] e done s = Inr (done, e, s)"
| "alloc_indirect dk count (l # ls) e done s =
     bindr (if get_indirect l e \<noteq> 0 then Inr (Some e, s) else bindr (alloc EXT2_BLOCK s) (\<lambda>(b, s).
       if b = 0 then Inr (None, s) else bindr (clear_block dk b s) (\<lambda>s. Inr (Some (set_indirect l b e), s)))) (\<lambda>(r, s).
     case r of None \<Rightarrow> Inr (done, e, s) | Some e \<Rightarrow>
     bindr (alloc_inode_ptrblk dk l (get_indirect l e) (count - done) s) (\<lambda>(k, s). let done = done + k in
       if done \<ge> count then Inr (done, e, s) else alloc_indirect dk count ls e done s))"

definition alloc_inode_blocks :: "'d disk \<Rightarrow> inode_entry \<Rightarrow> u32 \<Rightarrow> 'd ext2 \<Rightarrow> (u32 \<times> inode_entry \<times> 'd ext2) result" where
  "alloc_inode_blocks dk e count s = (if count = 0 then Inr (0, e, s) else
     bindr (alloc_direct count [0..<12] e 0 s) (\<lambda>(stop, done, e, s).
       if stop then Inr (done, e, s) else alloc_indirect dk count [0, 1, 2] e done s))"

fun dealloc_indirect :: "'d disk \<Rightarrow> u32 \<Rightarrow> nat list \<Rightarrow> inode_entry \<Rightarrow> u32 \<Rightarrow> 'd ext2 \<Rightarrow> (bool \<times> u32 \<times> inode_entry \<times> 'd ext2) result" where
  "dealloc_indirect dk count [] e done s = Inr (False, done, e, s)"
| "dealloc_indirect dk count (l # ls) e done s =
     bindr (if get_indirect l e = 0 then Inr (e, done, s)
       else bindr (dealloc_inode_ptrblk dk l (get_indirect l e) (count - done) s) (\<lambda>((k, may), s).
         if \<not> may then Inr (e, done + k, s)
         else bindr (dealloc EXT2_BLOCK (get_indirect l e) s) (\<lambda>s. Inr (set_indirect l 0 e, done + k, s)))) (\<lambda>(e, done, s).
     if done \<ge> count then Inr (True, done, e, s) else dealloc_indirect dk count ls e done s)"

text \<open>The loop over the direct blocks goes down with an 8-bit counter, which is never negative: after index 0 it
  reads behind the array.\<close>

fun dealloc_direct :: "u32 \<Rightarrow> nat \<Rightarrow> inode_entry \<Rightarrow> u32 \<Rightarrow> 'd ext2 \<Rightarrow> (u32 \<times> inode_entry \<times> 'd ext2) result" where
  "dealloc_direct count 0 e done s = Inl Fault"
| "dealloc_direct count (Suc i) e done s = bindr (nth_r (ie_direct e) i) (\<lambda>b. if b = 0 then dealloc_direct count i e done s
     else bindr (dealloc EXT2_BLOCK b s) (\<lambda>s. let e = e\<lparr>ie_direct := (ie_direct e)[i := 0]\<rparr>; done = done + 1 in
       if done \<ge> count then Inr (done, e, s) else dealloc_direct count i e done s))"

definition dealloc_inode_blocks :: "'d disk \<Rightarrow> inode_entry \<Rightarrow> u32 \<Rightarrow> 'd ext2 \<Rightarrow> (u32 \<times> inode_entry \<times> 'd ext2) result" where
  "dealloc_inode_blocks dk e count s = (if count = 0 then Inr (0, e, s) else
     bindr (dealloc_indirect dk count [2, 1, 0] e 0 s) (\<lambda>(stop, done, e, s).
       if stop then Inr (done, e, s) else dealloc_direct count 12 e done s))"

definition blocks_for :: "'d ext2 \<Rightarrow> u64 \<Rightarrow> u32" where
  "blocks_for s n = ucast (drop_bit (unat (ex_bits s) mod 64) n) + (if n AND ucast (ex_bsize s - 1) \<noteq> 0 then 1 else 0)"

definition resize_inode :: "'d disk \<Rightarrow> inode_entry \<Rightarrow> u64 \<Rightarrow> 'd ext2 \<Rightarrow> (u64 \<times> inode_entry \<times> 'd ext2) result" where
  "resize_inode dk e n s = (let ob = blocks_for s (ucast (ie_size e)); nb = blocks_for s n in
     bindr (if nb < ob then bindr (dealloc_inode_blocks dk e (ob - nb) s) (\<lambda>(_, e, s). Inr (n, nb, e, s))
       else if nb > ob then bindr (alloc_inode_blocks dk e (nb - ob) s) (\<lambda>(k, e, s).
         if k < nb - ob then Inr (ucast (shl32 (ob + k) (ex_bits s)), ob + k, e, s) else Inr (n, nb, e, s))
       else Inr (n, nb, e, s)) (\<lambda>(n, nb, e, s).
     Inr (n, e\<lparr>ie_size := ucast n, ie_sectors := shl32 nb (ex_bits s - 9)\<rparr>, s)))"

subsection \<open>Creating and removing inodes\<close>

text \<open>\<open>create_inode\<close> goes on when the entry could not be read and writes the uninitialised one.\<close>

definition create_inode :: "'d disk \<Rightarrow> u32 \<Rightarrow> u16 \<Rightarrow> u16 \<Rightarrow> 'd ext2 \<Rightarrow> (u32 \<times> inode_entry option \<times> 'd ext2) result" where
  "create_inode dk mode uid gid s = bindr (alloc EXT2_INODE s) (\<lambda>(ino, s). if ino = 0 then Inr (0, None, s) else
     bindr (read_inode_entry dk ino s) (\<lambda>(r, s). case r of None \<Rightarrow> Inl Fault | Some e \<Rightarrow>
       let t = dk_time dk (ex_dev s); e = e\<lparr>ie_mode := ucast mode, ie_uid := uid, ie_gid := gid, ie_size := 0, ie_atime := t,
           ie_ctime := t, ie_mtime := t, ie_links := 0, ie_sectors := 0, ie_flags := 0, ie_direct := replicate 12 0,
           ie_single := 0, ie_double := 0, ie_triple := 0\<rparr> in
       bindr (write_inode_entry dk e ino s) (\<lambda>(_, s). Inr (ino, Some e, s))))"

definition remove_inode :: "'d disk \<Rightarrow> inode_entry \<Rightarrow> u32 \<Rightarrow> 'd ext2 \<Rightarrow> (inode_entry \<times> 'd ext2) result" where
  "remove_inode dk e num s = bindr (if ie_size e > 0 then bindr (resize_inode dk e 0 s) (\<lambda>(_, e, s). Inr (e, s)) else Inr (e, s)) (\<lambda>(e, s).
     bindr (dealloc EXT2_INODE num s) (\<lambda>s'. Inr (e\<lparr>ie_mode := 0, ie_dtime := dk_time dk (ex_dev s)\<rparr>, s')))"

definition inode_of :: "nat \<Rightarrow> inode_entry \<Rightarrow> u32 \<Rightarrow> inode" where
  "inode_of self e num = \<lparr>in_id = num, in_fs = self, in_links = ucast (ie_links e), in_size = ucast (ie_size e),
     in_mode = ucast (ie_mode e), in_uid = ie_uid e, in_gid = ie_gid e\<rparr>"

end
