(* ===== verification/Ext2_Alloc.thy ===== *)
theory Ext2_Alloc
  imports Ext2_Blocks
begin

text \<open>
  What the allocation of blocks and inodes of an ext2 volume guarantees: the bit of a result was clear, the free
  counts of the superblock and of the groups agree with the bitmaps, and releasing a block undoes its allocation.
\<close>

definition group_free :: "ext2_what \<Rightarrow> group_desc \<Rightarrow> u16" where
  "group_free w g = (if w = EXT2_BLOCK then gd_free_blocks g else gd_free_inodes g)"

definition clear_in :: "'d ext2 \<Rightarrow> u8 list \<Rightarrow> nat \<Rightarrow> nat set" where
  "clear_in s bm g = {k \<in> clear_bits bm. k div (8 * unat (ex_bsize s)) = g}"

text \<open>Bitmap of \<open>w\<close> with one block per group, and free counts that are the numbers of its clear bits.\<close>

definition counts_ok :: "ext2_what \<Rightarrow> 'd ext2 \<Rightarrow> bool" where
  "counts_ok w s \<longleftrightarrow> 0 < ex_bsize s \<and> 8 * unat (ex_bsize s) < 65536 \<and> length (usage_map w s) = length (ex_bgd s) * unat (ex_bsize s)
     \<and> 8 * length (usage_map w s) < 4294967296
     \<and> unat (free_count w s) = card (clear_bits (usage_map w s))
     \<and> (\<forall>g < length (ex_bgd s). unat (group_free w (ex_bgd s ! g)) = card (clear_in s (usage_map w s) g))"

text \<open>The bitmap with the bit \<open>k\<close> cleared or set, and the counts changed with it.\<close>

definition flip_bit :: "ext2_what \<Rightarrow> bool \<Rightarrow> nat \<Rightarrow> 'd ext2 \<Rightarrow> 'd ext2 result" where
  "flip_bit w up k s = (let bm = usage_map w s; b = push_bit (k mod 8) 1 in count_free w up (k div (8 * unat (ex_bsize s)))
     (put_usage_map w (bm[k div 8 := (if up then bm ! (k div 8) AND NOT b else bm ! (k div 8) OR b)]) s))"

text \<open>The state after one bit changed: the bitmap, and the two counts.\<close>

definition bit_changed :: "ext2_what \<Rightarrow> bool \<Rightarrow> nat \<Rightarrow> 'd ext2 \<Rightarrow> 'd ext2 \<Rightarrow> bool" where
  "bit_changed w up k s s' \<longleftrightarrow> k < 8 * length (usage_map w s)
     \<and> length (usage_map w s') = length (usage_map w s)
     \<and> clear_bits (usage_map w s') = (if up then insert k (clear_bits (usage_map w s)) else clear_bits (usage_map w s) - {k})
     \<and> free_count w s' = (if up then free_count w s + 1 else free_count w s - 1)
     \<and> length (ex_bgd s') = length (ex_bgd s) \<and> ex_bsize s' = ex_bsize s
     \<and> (\<forall>g < length (ex_bgd s). group_free w (ex_bgd s' ! g) = (if g = k div (8 * unat (ex_bsize s))
          then if up then group_free w (ex_bgd s ! g) + 1 else group_free w (ex_bgd s ! g) - 1 else group_free w (ex_bgd s ! g)))"

lemma count_free_step:
  assumes "g < length (ex_bgd s)"
  shows "\<exists>s'. count_free w up g s = Inr s' \<and> usage_map v s' = usage_map v s \<and> ex_bsize s' = ex_bsize s
    \<and> free_count w s' = (if up then free_count w s + 1 else free_count w s - 1) \<and> length (ex_bgd s') = length (ex_bgd s)
    \<and> (\<forall>h < length (ex_bgd s). group_free w (ex_bgd s' ! h) = (if h = g
          then if up then group_free w (ex_bgd s ! h) + 1 else group_free w (ex_bgd s ! h) - 1 else group_free w (ex_bgd s ! h)))"
  using assms by (cases w) (auto simp: count_free_def Let_def usage_map_def free_count_def group_free_def nth_list_update)

lemma put_usage [simp]: "usage_map w (put_usage_map w bm s) = bm" "ex_bgd (put_usage_map w bm s) = ex_bgd s"
    "ex_bsize (put_usage_map w bm s) = ex_bsize s" "ex_sblk (put_usage_map w bm s) = ex_sblk s"
    "free_count v (put_usage_map w bm s) = free_count v s"
  by (cases w; simp add: put_usage_map_def usage_map_def free_count_def)+

lemma bit_div: "b < 8 \<Longrightarrow> (i * 8 + b) div (8 * n) = i div n" for i n :: nat
  by (simp add: div_mult2_eq)

lemma bit_mod: "b < 8 \<Longrightarrow> (i * 8 + b) mod (8 * n) = i mod n * 8 + b" for i n :: nat
  by (simp add: mod_mult2_eq)

lemma alloc_step:
  assumes ok: "counts_ok w s"
  shows "alloc w s = Inr (0, s) \<or> (\<exists>k s'. alloc w s = Inr (of_nat (k div (8 * unat (ex_bsize s))) * sb_blocks_per_group (ex_sblk s)
      + of_nat (k mod (8 * unat (ex_bsize s))) + (if w = EXT2_BLOCK then 0 else 1), s') \<and> k \<in> clear_bits (usage_map w s)
    \<and> k mod (8 * unat (ex_bsize s)) < unat (sb_blocks_per_group (ex_sblk s)) \<and> bit_changed w False k s s' \<and> flip_bit w False k s = Inr s')"
proof -
  let ?bm = "usage_map w s" and ?bs = "unat (ex_bsize s)"
  define i where "i = first_free_byte ?bm"
  define b where "b = first_free_bit (?bm ! i) [0..<8]"
  define k where "k = i * 8 + b"
  show ?thesis
  proof (cases "free_count w s = 0 \<or> i = length ?bm \<or> b = 8 \<or> unat (sb_blocks_per_group (ex_sblk s)) \<le> i mod ?bs * 8 + b")
    case True
    then have "alloc w s = Inr (0, s)" by (auto simp: alloc_def Let_def i_def b_def)
    then show ?thesis by simp
  next
    case False
    then have i: "i < length ?bm" using first_free_byte_le [of ?bm] unfolding i_def by linarith
    have b: "b < 8" "\<not> bit (?bm ! i) b"
      using first_free_bit_spec first_free_byte_nth [of ?bm] i unfolding b_def i_def by blast+
    have clear: "k \<in> clear_bits ?bm" using i b by (simp add: k_def clear_bits_def bm_bit_def)
    have g: "i div ?bs < length (ex_bgd s)"
      using i ok by (simp add: counts_ok_def less_mult_imp_div_less mult.commute)
    let ?s1 = "put_usage_map w (?bm[i := ?bm ! i OR push_bit b 1]) s"
    obtain s' where s': "count_free w False (i div ?bs) ?s1 = Inr s'" "usage_map w s' = usage_map w ?s1" "ex_bsize s' = ex_bsize s"
      "free_count w s' = free_count w s - 1" "length (ex_bgd s') = length (ex_bgd s)"
      "\<forall>h < length (ex_bgd s). group_free w (ex_bgd s' ! h) = (if h = i div ?bs then group_free w (ex_bgd s ! h) - 1 else group_free w (ex_bgd s ! h))"
      using count_free_step [of "i div ?bs" ?s1 w False w] g by (auto simp del: push_bit_of_1)
    have kk: "k div (8 * ?bs) = i div ?bs" "k mod (8 * ?bs) = i mod ?bs * 8 + b" using b(1) by (simp_all add: k_def bit_div bit_mod)
    have "bit_changed w False k s s'"
      unfolding bit_changed_def kk s'(2) put_usage clear_bits_set [OF i b(1)]
      using s'(3-6) i b(1) by (simp add: k_def del: push_bit_of_1)
    moreover have "alloc w s = Inr (of_nat (k div (8 * ?bs)) * sb_blocks_per_group (ex_sblk s) + of_nat (k mod (8 * ?bs))
        + (if w = EXT2_BLOCK then 0 else 1), s')"
      using False s'(1) unfolding alloc_def Let_def kk i_def [symmetric] b_def [symmetric] by (simp del: push_bit_of_1)
    moreover have "flip_bit w False k s = Inr s'"
      unfolding flip_bit_def Let_def kk using s'(1) b(1) by (simp add: k_def del: push_bit_of_1)
    ultimately show ?thesis using clear False kk(2) by auto
  qed
qed

text \<open>The number of units per group that \<open>dealloc\<close> uses, and the bit that it clears.\<close>

definition per_group :: "ext2_what \<Rightarrow> 'd ext2 \<Rightarrow> u32" where
  "per_group w s = (if w = EXT2_BLOCK then sb_blocks_per_group (ex_sblk s) else sb_inodes_per_group (ex_sblk s))"

definition unit_bit :: "ext2_what \<Rightarrow> 'd ext2 \<Rightarrow> u32 \<Rightarrow> nat" where
  "unit_bit w s n = (let m = unat (if w = EXT2_BLOCK then n else n - 1); p = unat (per_group w s) in
     m div p * (8 * unat (ex_bsize s)) + m mod p)"

definition unit_ok :: "ext2_what \<Rightarrow> 'd ext2 \<Rightarrow> u32 \<Rightarrow> bool" where
  "unit_ok w s n \<longleftrightarrow> 0 < per_group w s \<and> unat (per_group w s) \<le> 8 * unat (ex_bsize s)
     \<and> unat (if w = EXT2_BLOCK then n else n - 1) div unat (per_group w s) < length (ex_bgd s)"

lemma dealloc_step:
  assumes ok: "counts_ok w s" and n: "unit_ok w s n"
  shows "\<exists>s'. dealloc w n s = Inr s' \<and> (if unit_bit w s n \<in> clear_bits (usage_map w s) then s' = s
    else bit_changed w True (unit_bit w s n) s s' \<and> flip_bit w True (unit_bit w s n) s = Inr s')"
proof -
  let ?bm = "usage_map w s" and ?bs = "unat (ex_bsize s)" and ?p = "per_group w s"
  define m where "m = (if w = EXT2_INODE then n - 1 else n)"
  define g where "g = unat m div unat ?p"
  define j where "j = unat m mod unat ?p"
  have m: "m = (if w = EXT2_BLOCK then n else n - 1)" by (cases w) (simp_all add: m_def)
  have p0: "?p \<noteq> 0" "0 < unat ?p" using n by (auto simp: unit_ok_def unat_gt_0)
  have g: "g < length (ex_bgd s)" using n by (simp add: unit_ok_def g_def m)
  have j: "j < 8 * ?bs" using mod_less_divisor [OF p0(2), of "unat m"] n unfolding unit_ok_def j_def by linarith
  define i where "i = g * ?bs + j div 8"
  have len: "length ?bm = length (ex_bgd s) * ?bs" "8 * length ?bm < 4294967296" using ok by (auto simp: counts_ok_def)
  have "(g + 1) * ?bs \<le> length (ex_bgd s) * ?bs" using g by (intro mult_le_mono1) simp
  then have i: "i < length ?bm" using j len(1) by (simp add: i_def)
  have b: "j mod 8 < 8" by simp
  have gi: "unat (m div ?p) = g" "unat (m mod ?p) = j" by (simp_all add: unat_div unat_mod g_def j_def)
  have "unat (x div 8) = unat x div 8" "unat (x mod 8) = unat x mod 8" for x :: u32 by (simp_all add: unat_div unat_mod)
  then have jd: "unat (m mod ?p div 8) = j div 8" "unat (m mod ?p mod 8) = j mod 8" by (simp_all only: gi)
  have gb: "g * ?bs < 4294967296" using i len(2) by (simp add: i_def)
  have "unat (m div ?p * ex_bsize s) = g * ?bs" using gb gi(1) by (simp add: unat_word_ariths)
  then have ui: "unat (m div ?p * ex_bsize s + m mod ?p div 8) = i"
    using i len(2) jd(1) by (subst unat_add_small) (simp_all add: i_def)
  have ub: "unit_bit w s n = i * 8 + j mod 8"
    by (simp add: unit_bit_def Let_def m [symmetric] g_def [symmetric] j_def [symmetric] i_def algebra_simps)
  have at: "bm_bit ?bm (i * 8 + j mod 8) \<longleftrightarrow> bit (?bm ! i) (j mod 8)" by (simp add: bm_bit_def)
  have pg: "per_group w s = (if w = EXT2_BLOCK then sb_blocks_per_group (ex_sblk s) else sb_inodes_per_group (ex_sblk s))"
    by (rule per_group_def)
  have run: "dealloc w n s = (if ?bm ! i AND push_bit (j mod 8) 1 = 0 then Inr s
      else count_free w True g (put_usage_map w (?bm[i := ?bm ! i AND NOT (push_bit (j mod 8) 1)]) s))"
    unfolding dealloc_def Let_def m_def [symmetric] pg [symmetric] div_r_def
    using p0(1) i by (simp add: ui jd gi del: push_bit_of_1)
  show ?thesis
  proof (cases "bit (?bm ! i) (j mod 8)")
    case False
    then have "unit_bit w s n \<in> clear_bits ?bm" using i unfolding ub by (simp add: clear_bits_def at)
    then show ?thesis using run and_bit_zero [OF b, of "?bm ! i"] False by simp
  next
    case True
    let ?s1 = "put_usage_map w (?bm[i := ?bm ! i AND NOT (push_bit (j mod 8) 1)]) s"
    obtain s' where s': "count_free w True g ?s1 = Inr s'" "usage_map w s' = usage_map w ?s1" "ex_bsize s' = ex_bsize s"
      "free_count w s' = free_count w s + 1" "length (ex_bgd s') = length (ex_bgd s)"
      "\<forall>h < length (ex_bgd s). group_free w (ex_bgd s' ! h) = (if h = g then group_free w (ex_bgd s ! h) + 1 else group_free w (ex_bgd s ! h))"
      using count_free_step [of g ?s1 w True w] g by (auto simp del: push_bit_of_1)
    have "i div ?bs = g" using j by (simp add: i_def div_add1_eq less_mult_imp_div_less)
    then have kk: "unit_bit w s n div (8 * ?bs) = g" unfolding ub using bit_div [OF b] by simp
    have "bit_changed w True (unit_bit w s n) s s'"
      unfolding bit_changed_def kk unfolding ub s'(2) put_usage clear_bits_reset [OF i b]
      using s'(3-6) i b by (simp del: push_bit_of_1)
    moreover have "unit_bit w s n \<notin> clear_bits ?bm" using True unfolding ub by (simp add: clear_bits_def at)
    moreover have "flip_bit w True (unit_bit w s n) s = Inr s'"
      unfolding flip_bit_def Let_def kk using s'(1) by (simp add: ub del: push_bit_of_1)
    ultimately show ?thesis using run s'(1) and_bit_zero [OF b, of "?bm ! i"] True by simp
  qed
qed

lemma clear_in_changed:
  assumes "bit_changed w up k s s'"
  shows "clear_in s' (usage_map w s') g = (if g = k div (8 * unat (ex_bsize s))
    then (if up then insert k (clear_in s (usage_map w s) g) else clear_in s (usage_map w s) g - {k})
    else clear_in s (usage_map w s) g)"
  using assms by (auto simp: bit_changed_def clear_in_def)

lemma finite_clear_in [simp]: "finite (clear_in s bm g)"
  by (simp add: clear_in_def)

lemma div_range: "0 < n \<Longrightarrow> x div n * n \<le> x \<and> x < x div n * n + n" for n :: nat
  using div_mult_mod_eq [of x n] mod_less_divisor [of n x] by linarith

lemma changed_counts_ok:
  assumes ok: "counts_ok w s" and ch: "bit_changed w up k s s'" and k: "k \<in> clear_bits (usage_map w s) \<longleftrightarrow> \<not> up"
  shows "counts_ok w s'"
proof -
  let ?bm = "usage_map w s" and ?bs = "unat (ex_bsize s)"
  let ?g = "k div (8 * ?bs)"
  note c = ch [unfolded bit_changed_def]
  have b0: "0 < ?bs" "8 * ?bs < 65536" "8 * length ?bm < 4294967296" using ok by (auto simp: counts_ok_def word_less_unat)
  have size_le: "card (clear_bits (usage_map w s')) \<le> 8 * length ?bm"
    using c card_mono [of "{..<8 * length ?bm}" "clear_bits (usage_map w s')"] by (auto simp: clear_bits_def)
  have all: "unat (free_count w s') = card (clear_bits (usage_map w s'))"
  proof (cases up)
    case True
    then have "card (clear_bits (usage_map w s')) = unat (free_count w s) + 1" using c k ok by (simp add: counts_ok_def)
    then show ?thesis using True c size_le b0(3) by (simp add: unat_add_small)
  next
    case False
    then have "card (clear_bits (usage_map w s')) = unat (free_count w s) - 1" "0 < unat (free_count w s)"
      using c k ok by (auto simp: counts_ok_def card_gt_0_iff)
    then show ?thesis using False c by (simp add: unat_diff_le)
  qed
  have group: "unat (group_free w (ex_bgd s' ! g)) = card (clear_in s' (usage_map w s') g)" if g: "g < length (ex_bgd s)" for g
  proof (cases "g = ?g")
    case False
    then show ?thesis using g c ok clear_in_changed [OF ch, of g] by (simp add: counts_ok_def)
  next
    case True
    have f: "unat (group_free w (ex_bgd s ! g)) = card (clear_in s ?bm g)" using ok g by (simp add: counts_ok_def)
    have kin: "k \<in> clear_in s ?bm g \<longleftrightarrow> \<not> up" using k True by (simp add: clear_in_def)
    have eq: "clear_in s' (usage_map w s') g = (if up then insert k (clear_in s ?bm g) else clear_in s ?bm g - {k})"
      using clear_in_changed [OF ch, of g] True by simp
    have sub: "clear_in s' (usage_map w s') g \<subseteq> {g * (8 * ?bs)..<g * (8 * ?bs) + 8 * ?bs}"
      using c div_range [of "8 * ?bs"] b0(1) by (auto simp: clear_in_def)
    then have le: "card (clear_in s' (usage_map w s') g) \<le> 8 * ?bs" using card_mono [OF _ sub] by simp
    show ?thesis
    proof (cases up)
      case up: True
      then have "card (clear_in s' (usage_map w s') g) = unat (group_free w (ex_bgd s ! g)) + 1" using eq kin f by simp
      then show ?thesis using up True c g le b0(2) by (simp add: unat_add_small)
    next
      case up: False
      then have "card (clear_in s' (usage_map w s') g) = unat (group_free w (ex_bgd s ! g)) - 1" "0 < unat (group_free w (ex_bgd s ! g))"
        using eq kin f by (auto simp: card_gt_0_iff)
      then show ?thesis using up True c g by (simp add: unat_diff_le)
    qed
  qed
  show ?thesis using ok c all group by (simp add: counts_ok_def)
qed

text \<open>C22: Free counts of an ext2 volume. Allocation and release of blocks and of inodes keep the free counts of the
  superblock and of every group equal to the number of clear bits of the bitmap. An allocation that succeeds takes a
  unit whose bit was clear and sets this bit only; a release clears the bit of the number it is given. The number that an allocation returns is not part of it.\<close>

theorem free_counts_agree:
  assumes ok: "counts_ok w s"
  shows "(\<exists>n s'. alloc w s = Inr (n, s') \<and> counts_ok w s' \<and> (s' = s \<and> n = 0
      \<or> (\<exists>k \<in> clear_bits (usage_map w s). clear_bits (usage_map w s') = clear_bits (usage_map w s) - {k})))
    \<and> (unit_ok w s m \<longrightarrow> (\<exists>s'. dealloc w m s = Inr s' \<and> counts_ok w s'
      \<and> clear_bits (usage_map w s') = insert (unit_bit w s m) (clear_bits (usage_map w s))))"
proof (intro conjI impI)
  show "\<exists>n s'. alloc w s = Inr (n, s') \<and> counts_ok w s' \<and> (s' = s \<and> n = 0
      \<or> (\<exists>k \<in> clear_bits (usage_map w s). clear_bits (usage_map w s') = clear_bits (usage_map w s) - {k}))"
    using alloc_step [OF ok]
  proof (elim disjE exE conjE)
    assume "alloc w s = Inr (0, s)"
    then show ?thesis using ok by blast
  next
    fix k s'
    assume a: "alloc w s = Inr (of_nat (k div (8 * unat (ex_bsize s))) * sb_blocks_per_group (ex_sblk s)
      + of_nat (k mod (8 * unat (ex_bsize s))) + (if w = EXT2_BLOCK then 0 else 1), s')"
      and k: "k \<in> clear_bits (usage_map w s)" and ch: "bit_changed w False k s s'"
    have "counts_ok w s'" using changed_counts_ok [OF ok ch] k by simp
    moreover have "clear_bits (usage_map w s') = clear_bits (usage_map w s) - {k}" using ch by (simp add: bit_changed_def)
    ultimately show ?thesis using a k by blast
  qed
  assume "unit_ok w s m"
  from dealloc_step [OF ok this] obtain s' where s': "dealloc w m s = Inr s'"
      "if unit_bit w s m \<in> clear_bits (usage_map w s) then s' = s else bit_changed w True (unit_bit w s m) s s'" by (auto split: if_splits)
  then show "\<exists>s'. dealloc w m s = Inr s' \<and> counts_ok w s'
      \<and> clear_bits (usage_map w s') = insert (unit_bit w s m) (clear_bits (usage_map w s))"
    using changed_counts_ok [OF ok, of True "unit_bit w s m" s'] ok
    by (cases "unit_bit w s m \<in> clear_bits (usage_map w s)") (auto simp: bit_changed_def)
qed

text \<open>Counting by evaluation, for concrete volumes.\<close>

definition clear_count :: "'d ext2 \<Rightarrow> u8 list \<Rightarrow> nat \<Rightarrow> nat" where
  "clear_count s bm g = length (filter (\<lambda>k. \<not> bm_bit bm k \<and> k div (8 * unat (ex_bsize s)) = g) [0..<8 * length bm])"

lemma card_filter: "card {k. k < n \<and> P k} = length (filter P [0..<n])"
proof -
  have "{k. k < n \<and> P k} = set (filter P [0..<n])" by auto
  then show ?thesis using distinct_card [of "filter P [0..<n]"] by simp
qed

lemma card_clear: "card (clear_bits bm) = length (filter (\<lambda>k. \<not> bm_bit bm k) [0..<8 * length bm])"
  unfolding clear_bits_def by (rule card_filter)

lemma card_clear_in: "card (clear_in s bm g) = clear_count s bm g"
proof -
  have "clear_in s bm g = {k. k < 8 * length bm \<and> \<not> bm_bit bm k \<and> k div (8 * unat (ex_bsize s)) = g}"
    by (auto simp: clear_in_def clear_bits_def)
  then show ?thesis unfolding clear_count_def by (simp only: card_filter)
qed

lemma counts_ok_code: "counts_ok w s \<longleftrightarrow> 0 < ex_bsize s \<and> 8 * unat (ex_bsize s) < 65536
     \<and> length (usage_map w s) = length (ex_bgd s) * unat (ex_bsize s) \<and> 8 * length (usage_map w s) < 4294967296
     \<and> unat (free_count w s) = length (filter (\<lambda>k. \<not> bm_bit (usage_map w s) k) [0..<8 * length (usage_map w s)])
     \<and> (\<forall>g \<in> set [0..<length (ex_bgd s)]. unat (group_free w (ex_bgd s ! g)) = clear_count s (usage_map w s) g)"
  unfolding counts_ok_def card_clear card_clear_in by auto

text \<open>Two groups with blocks of two bytes, of which the first four blocks and the first inode are in use.\<close>

definition demo_group_desc :: "u16 \<Rightarrow> u16 \<Rightarrow> group_desc" where
  "demo_group_desc b i = \<lparr>gd_block_bitmap = 3, gd_inode_bitmap = 4, gd_inode_table = 5, gd_free_blocks = b, gd_free_inodes = i,
     gd_dirs = 1, gd_unused = replicate 14 0\<rparr>"

definition demo_volume :: "unit ext2" where
  "demo_volume = \<lparr>ex_dev = (), ex_src = None, ex_bits = 1, ex_bsize = 2, ex_groups = 2, ex_isize = 128,
     ex_bgd = [demo_group_desc 12 15, demo_group_desc 16 16],
     ex_sblk = demo_super\<lparr>sb_free_blocks := 28, sb_free_inodes := 31, sb_blocks_per_group := 16, sb_inodes_per_group := 8\<rparr>,
     ex_bmap = [0x0f, 0, 0, 0], ex_imap = [1, 0, 0, 0]\<rparr>"

lemma demo_fields [simp]: "usage_map EXT2_BLOCK demo_volume = [0x0f, 0, 0, 0]" "usage_map EXT2_INODE demo_volume = [1, 0, 0, 0]"
    "ex_bgd demo_volume = [demo_group_desc 12 15, demo_group_desc 16 16]" "ex_bsize demo_volume = 2"
    "free_count EXT2_BLOCK demo_volume = 28" "free_count EXT2_INODE demo_volume = 31"
    "per_group EXT2_BLOCK demo_volume = 16" "group_free EXT2_BLOCK (demo_group_desc b i) = b" "group_free EXT2_INODE (demo_group_desc b i) = i"
  by (simp_all add: demo_volume_def usage_map_def free_count_def per_group_def group_free_def demo_group_desc_def)

lemma demo_counts:
  "length (filter (\<lambda>k. \<not> bm_bit [0x0f, 0, 0, 0] k) [0..<32]) = 28" "length (filter (\<lambda>k. \<not> bm_bit [1, 0, 0, 0] k) [0..<32]) = 31"
  "length (filter (\<lambda>k. \<not> bm_bit [0x0f, 0, 0, 0] k \<and> k div 16 = 0) [0..<32]) = 12"
  "length (filter (\<lambda>k. \<not> bm_bit [0x0f, 0, 0, 0] k \<and> k div 16 = Suc 0) [0..<32]) = 16"
  "length (filter (\<lambda>k. \<not> bm_bit [1, 0, 0, 0] k \<and> k div 16 = 0) [0..<32]) = 15"
  "length (filter (\<lambda>k. \<not> bm_bit [1, 0, 0, 0] k \<and> k div 16 = Suc 0) [0..<32]) = 16"
  by code_simp+

lemma two_groups: "(\<forall>g \<in> {0..<2 :: nat}. P g) \<longleftrightarrow> P 0 \<and> P (Suc 0)"
  by (auto simp: less_2_cases_iff)

lemma demo_volume_ok: "counts_ok EXT2_BLOCK demo_volume \<and> counts_ok EXT2_INODE demo_volume \<and> unit_ok EXT2_BLOCK demo_volume 3"
  by (simp add: counts_ok_code clear_count_def demo_counts unit_ok_def two_groups)

theorem free_counts_agree_witness:
  "(\<exists>n s'. alloc EXT2_BLOCK demo_volume = Inr (n, s') \<and> counts_ok EXT2_BLOCK s')
    \<and> (\<exists>s'. dealloc EXT2_BLOCK 3 demo_volume = Inr s' \<and> counts_ok EXT2_BLOCK s')"
  using free_counts_agree [of EXT2_BLOCK demo_volume 3] demo_volume_ok by blast

lemma unset_set_bit: "\<not> bit b j \<Longrightarrow> j < 8 \<Longrightarrow> (b OR push_bit j 1) AND NOT (push_bit j 1) = (b :: u8)"
  by (intro bit_eqI) (auto simp: bit_simps)

lemma flip_back:
  assumes "flip_bit w False k s = Inr s'" "k \<in> clear_bits (usage_map w s)"
  shows "flip_bit w True k s' = Inr s"
proof -
  let ?bm = "usage_map w s" and ?g = "k div (8 * unat (ex_bsize s))"
  have k: "k div 8 < length ?bm" "\<not> bit (?bm ! (k div 8)) (k mod 8)"
    using assms(2) by (auto simp: clear_bits_def bm_bit_def less_mult_imp_div_less)
  have g: "?g < length (ex_bgd s)" using assms(1) by (auto simp: flip_bit_def Let_def count_free_def bindr_Inr_iff nth_r_Inr)
  have b: "(?bm ! (k div 8) OR push_bit (k mod 8) 1) AND NOT (push_bit (k mod 8) 1) = ?bm ! (k div 8)"
    using unset_set_bit [OF k(2)] by simp
  show ?thesis
  proof (cases w)
    case EXT2_BLOCK
    then show ?thesis using assms(1) k(1) g b
      by (auto simp: flip_bit_def Let_def count_free_def put_usage_map_def usage_map_def simp del: push_bit_of_1)
  next
    case EXT2_INODE
    then show ?thesis using assms(1) k(1) g b
      by (auto simp: flip_bit_def Let_def count_free_def put_usage_map_def usage_map_def simp del: push_bit_of_1)
  qed
qed

lemma flip_per_group: "flip_bit w up k s = Inr s' \<Longrightarrow> per_group v s' = per_group v s"
  by (cases w; cases v) (auto simp: flip_bit_def Let_def count_free_def bindr_Inr_iff per_group_def put_usage_map_def)

lemma unat_group_number:
  assumes "g * unat p + j < 4294967296" "j < unat p"
  shows "unat (of_nat g * p + of_nat j :: u32) = g * unat p + j"
proof -
  have "0 < unat p" using assms(2) by simp
  then have "g \<le> g * unat p" by (metis Suc_leI mult.right_neutral mult_le_mono2 One_nat_def)
  then have "g < 4294967296" "j < 4294967296" using assms(1) by linarith+
  then have g: "unat (of_nat g :: u32) = g" "unat (of_nat j :: u32) = j" by (simp_all add: unat_of_nat32)
  then have "unat (of_nat g * p) = g * unat p" using assms(1) by (simp add: unat_word_ariths)
  then show ?thesis using assms(1) g(2) by (subst unat_add_small) simp_all
qed

lemma demo_block_alloc: "(\<And>n s'. alloc EXT2_BLOCK demo_volume = Inr (n, s') \<Longrightarrow> n \<noteq> 0 \<Longrightarrow> thesis) \<Longrightarrow> thesis"
proof -
  assume a: "\<And>n s'. alloc EXT2_BLOCK demo_volume = Inr (n, s') \<Longrightarrow> n \<noteq> 0 \<Longrightarrow> thesis"
  have "first_free_bit 0x0f [0..<8] = 4" by code_simp
  then have "\<exists>s'. alloc EXT2_BLOCK demo_volume = Inr (4, s')"
    by (simp add: alloc_def Let_def count_free_def demo_volume_def put_usage_map_def usage_map_def free_count_def)
  then show thesis using a by auto
qed

text \<open>Releasing a block. A block that \<open>alloc\<close> just gave out is released by \<open>dealloc\<close> to the state before, with the
  bitmap, the counts of the superblock and those of the groups.\<close>

theorem release_undoes_allocation:
  assumes "counts_ok EXT2_BLOCK s" "0 < sb_blocks_per_group (ex_sblk s)" "unat (sb_blocks_per_group (ex_sblk s)) \<le> 8 * unat (ex_bsize s)"
    and "length (ex_bgd s) * unat (sb_blocks_per_group (ex_sblk s)) < 4294967296"
    and "alloc EXT2_BLOCK s = Inr (n, s')"
  shows "if s' = s then n = 0 else dealloc EXT2_BLOCK n s' = Inr s"
proof (cases "s' = s")
  case True
  have "\<not> bit_changed EXT2_BLOCK False k s s" if "k \<in> clear_bits (usage_map EXT2_BLOCK s)" for k
    using that by (auto simp: bit_changed_def)
  then have "n = 0" using alloc_step [OF assms(1)] assms(5) True by auto
  then show ?thesis using True by simp
next
  case False
  let ?p = "sb_blocks_per_group (ex_sblk s)" and ?w = "8 * unat (ex_bsize s)"
  obtain k where k: "n = of_nat (k div ?w) * ?p + of_nat (k mod ?w)" "k \<in> clear_bits (ex_bmap s)" "k mod ?w < unat ?p"
      "bit_changed EXT2_BLOCK False k s s'" "flip_bit EXT2_BLOCK False k s = Inr s'"
    using alloc_step [OF assms(1)] assms(5) False by (auto simp: usage_map_def)
  have same: "per_group EXT2_BLOCK s' = ?p" "ex_bsize s' = ex_bsize s" "length (ex_bgd s') = length (ex_bgd s)"
    using flip_per_group [OF k(5), of EXT2_BLOCK] k(4) by (simp_all add: per_group_def bit_changed_def)
  have g: "k div ?w < length (ex_bgd s)"
    using k(2) assms(1) by (auto simp: clear_bits_def counts_ok_def usage_map_def less_mult_imp_div_less mult.commute mult.left_commute)
  have "(k div ?w + 1) * unat ?p \<le> length (ex_bgd s) * unat ?p" using g by (intro mult_le_mono1) simp
  then have lim: "k div ?w * unat ?p + k mod ?w < 4294967296" using k(3) assms(4) by simp
  have n: "unat n = k div ?w * unat ?p + k mod ?w"
    unfolding k(1) by (rule unat_group_number [OF lim k(3)])
  have dm: "unat n div unat ?p = k div ?w" "unat n mod unat ?p = k mod ?w" using k(3) unfolding n by simp_all
  then have ub: "unit_bit EXT2_BLOCK s' n = k" unfolding unit_bit_def Let_def by (simp only: same dm simp_thms if_True div_mult_mod_eq)
  have "unit_ok EXT2_BLOCK s' n" using assms(2,3) g dm by (simp add: unit_ok_def same)
  moreover have kc: "k \<in> clear_bits (usage_map EXT2_BLOCK s)" using k(2) by (simp add: usage_map_def)
  moreover have "counts_ok EXT2_BLOCK s'" using changed_counts_ok [OF assms(1) k(4)] kc by simp
  moreover have "k \<notin> clear_bits (usage_map EXT2_BLOCK s')" using k(4) by (simp add: bit_changed_def)
  ultimately show ?thesis using dealloc_step [of EXT2_BLOCK s' n] flip_back [OF k(5)] False unfolding ub by auto
qed

theorem release_undoes_allocation_witness:
  "\<exists>n s'. alloc EXT2_BLOCK demo_volume = Inr (n, s') \<and> s' \<noteq> demo_volume \<and> dealloc EXT2_BLOCK n s' = Inr demo_volume"
proof -
  have f: "sb_blocks_per_group (ex_sblk demo_volume) = 16" by (simp add: demo_volume_def)
  obtain n s' where a: "alloc EXT2_BLOCK demo_volume = Inr (n, s')" "n \<noteq> 0"
    by (rule demo_block_alloc)
  then have "if s' = demo_volume then n = 0 else dealloc EXT2_BLOCK n s' = Inr demo_volume"
    using release_undoes_allocation [of demo_volume n s'] demo_volume_ok by (simp add: f)
  then show ?thesis using a by (auto split: if_splits)
qed

end
