(* ===== verification/Ext2_Fs.thy ===== *)
theory Ext2_Fs
  imports Ext2_Blocks
begin

text \<open>
  The ext2 file system (\<open>kernel/src/fs/ext2.cpp\<close>): tables of directory entries and the methods of \<open>FileSystem\<close>.
  A position in the bytes of a block stands for a pointer to a directory entry; an entry is 4 bytes of inode
  number, 2 bytes of size, the length and the type, and the name. A walk from entry to entry that reaches a position
  outside the block is a \<open>Fault\<close>, an entry of size 0 makes it endless.
\<close>

definition c_string :: "string \<Rightarrow> u8 list" where
  "c_string name = map of_char name @ [0]"

subsection \<open>Tables of directory entries\<close>

text \<open>\<open>name_equals\<close>: the name of length \<open>n\<close> at \<open>p\<close> against a string with its terminator.\<close>

fun name_equals :: "u8 list \<Rightarrow> nat \<Rightarrow> nat \<Rightarrow> u8 list \<Rightarrow> bool result" where
  "name_equals tab p 0 nm = bindr (nth_r nm 0) (\<lambda>c. Inr (c = 0))"
| "name_equals tab p (Suc n) nm = bindr (nth_r tab p) (\<lambda>x. bindr (nth_r nm 0) (\<lambda>c.
     if x \<noteq> c then Inr False else name_equals tab (p + 1) n (tl nm)))"

definition de_inode_num :: "u8 list \<Rightarrow> nat \<Rightarrow> u32" where "de_inode_num tab p = get32 tab p"
definition de_size :: "u8 list \<Rightarrow> nat \<Rightarrow> u16" where "de_size tab p = get16 tab (p + 4)"
definition de_name_len :: "u8 list \<Rightarrow> nat \<Rightarrow> u8" where "de_name_len tab p = tab ! (p + 6)"

definition de_name_equals :: "u8 list \<Rightarrow> nat \<Rightarrow> string \<Rightarrow> bool result" where
  "de_name_equals tab p name = name_equals tab (p + 8) (unat (de_name_len tab p)) (c_string name)"

text \<open>One step of a walk: the position of the next entry.\<close>

definition de_next :: "u8 list \<Rightarrow> nat \<Rightarrow> nat result" where
  "de_next tab p = (if de_size tab p = 0 then Inl Hang else Inr (p + unat (de_size tab p)))"

lemma de_next_greater: "de_next tab p = Inr q \<Longrightarrow> p < q"
  by (auto simp: de_next_def unat_gt_0 split: if_splits)

text \<open>The walks end at \<open>n\<close>, the size of the table.\<close>

function table_fetch :: "nat \<Rightarrow> u8 list \<Rightarrow> string \<Rightarrow> nat \<Rightarrow> nat option result" where
  "table_fetch n tab name p = (if p = n then Inr None else if p > n \<or> p + 7 > length tab then Inl Fault
     else bindr (de_name_equals tab p name) (\<lambda>eq. if eq then Inr (Some p) else
       case de_next tab p of Inl e \<Rightarrow> Inl e | Inr q \<Rightarrow> table_fetch n tab name q))"
  by pat_completeness auto
termination by (relation "measure (\<lambda>(n, tab, name, p). n - p)") (auto dest: de_next_greater)

declare table_fetch.simps [simp del]

definition dirent_table_fetch :: "u8 list \<Rightarrow> string \<Rightarrow> 'd ext2 \<Rightarrow> nat option result" where
  "dirent_table_fetch tab name s = table_fetch (unat (ex_bsize s)) tab name 0"

text \<open>The space that an entry with a name of the given length takes.\<close>

definition entry_space :: "u32 \<Rightarrow> u32" where
  "entry_space len = alignceil (8 + len) 2"

text \<open>The walk for a gap: \<open>start\<close> is the last entry in use, or the first entry; \<open>found\<close> is the space after it.\<close>

function gap_walk :: "nat \<Rightarrow> u8 list \<Rightarrow> u32 \<Rightarrow> nat \<Rightarrow> nat \<Rightarrow> u32 \<Rightarrow> (nat \<times> u32) result" where
  "gap_walk n tab need p start found = (if p = n then Inr (start, found) else if p > n \<or> p + 7 > length tab then Inl Fault
     else let start' = (if de_inode_num tab p \<noteq> 0 then p else start);
         found' = (if de_inode_num tab p \<noteq> 0 then ucast (de_size tab p) - entry_space (ucast (de_name_len tab p))
           else found + ucast (de_size tab p)) in
       if found' \<ge> need then Inr (start', found') else
       case de_next tab p of Inl e \<Rightarrow> Inl e | Inr q \<Rightarrow> gap_walk n tab need q start' found')"
  by pat_completeness auto
termination by (relation "measure (\<lambda>(n, tab, need, p, start, found). n - p)") (auto dest: de_next_greater)

declare gap_walk.simps [simp del]

text \<open>The result is the position of the new entry and the table with both sizes set.\<close>

definition dirent_table_alloc :: "u8 list \<Rightarrow> u32 \<Rightarrow> 'd ext2 \<Rightarrow> (nat \<times> u8 list) option result" where
  "dirent_table_alloc tab len s = (let need = entry_space len in
     bindr (gap_walk (unat (ex_bsize s)) tab need 0 0 0) (\<lambda>(start, found). if found < need then Inr None else
       let space = ucast (entry_space (ucast (de_name_len tab start))) :: u16; new = start + unat space in
       bindr (poke tab (start + 4) (put16 space)) (\<lambda>tab. bindr (poke tab (new + 4) (put16 (ucast found))) (\<lambda>tab.
         Inr (Some (new, tab))))))"

text \<open>Filling an entry, whose size is set already.\<close>

definition fill_entry :: "u8 list \<Rightarrow> nat \<Rightarrow> u32 \<Rightarrow> u8 \<Rightarrow> string \<Rightarrow> u8 list result" where
  "fill_entry tab p num ty name = bindr (poke tab p (put32 num)) (\<lambda>tab.
     bindr (poke tab (p + 6) [of_nat (length name), ty]) (\<lambda>tab. poke tab (p + 8) (map of_char name)))"

definition dirent_type :: "u32 \<Rightarrow> u8" where
  "dirent_type mode = (let t = mode AND 0xf000 in if t = S_IFREG then 1 else if t = S_IFDIR then 2 else if t = S_IFCHR then 3
     else if t = S_IFBLK then 4 else if t = 0x1000 then 5 else if t = 0xc000 then 6 else if t = 0xa000 then 7 else 0)"

subsection \<open>Roots and lookups\<close>

definition ext2_get_root :: "'d disk \<Rightarrow> nat \<Rightarrow> 'd ext2 \<Rightarrow> ((fs_status + inode) \<times> 'd ext2) result" where
  "ext2_get_root dk self s = bindr (read_inode_entry dk 2 s) (\<lambda>(r, s). Inr (case r of None \<Rightarrow> Inl NOT_ALLOWED
     | Some e \<Rightarrow> Inr (inode_of self e 2), s))"

text \<open>The search for a name through \<open>n\<close> blocks of a directory, from block \<open>i\<close>: the block, the position and the
  block's bytes.\<close>

fun dir_search :: "'d disk \<Rightarrow> string \<Rightarrow> u32 \<Rightarrow> nat \<Rightarrow> inode_entry \<Rightarrow> 'd ext2
    \<Rightarrow> ((fs_status + u32 \<times> nat \<times> u8 list) \<times> inode_entry \<times> 'd ext2) result" where
  "dir_search dk name i 0 e s = Inr (Inl NO_ENTRY, e, s)"
| "dir_search dk name i (Suc n) e s = bindr (read_inode_blocks dk e i 1 s) (\<lambda>(m, tab, e, s).
     if m = 0 then Inr (Inl NOT_ALLOWED, e, s) else bindr (dirent_table_fetch tab name s) (\<lambda>r. case r of
       Some p \<Rightarrow> Inr (Inr (i, p, tab), e, s) | None \<Rightarrow> dir_search dk name (i + 1) n e s))"

definition ext2_fetch :: "'d disk \<Rightarrow> nat \<Rightarrow> inode \<Rightarrow> string \<Rightarrow> 'd ext2 \<Rightarrow> ((fs_status + inode) \<times> 'd ext2) result" where
  "ext2_fetch dk self dir name s = bindr (read_inode_entry dk (in_id dir) s) (\<lambda>(r, s). case r of None \<Rightarrow> Inr (Inl NOT_ALLOWED, s)
     | Some e \<Rightarrow> bindr (dir_search dk name 0 (unat (divceil (ie_size e) (ex_bsize s))) e s) (\<lambda>(r, e, s). case r of
         Inl st \<Rightarrow> Inr (Inl st, s)
       | Inr (i, p, tab) \<Rightarrow> let num = de_inode_num tab p in bindr (read_inode_entry dk num s) (\<lambda>(r, s). Inr (case r of
           None \<Rightarrow> Inl NOT_ALLOWED | Some e \<Rightarrow> Inr (inode_of self e num), s))))"

definition ext2_create :: "'d disk \<Rightarrow> nat \<Rightarrow> u32 \<Rightarrow> u16 \<Rightarrow> u16 \<Rightarrow> 'd ext2 \<Rightarrow> ((fs_status + inode) \<times> 'd ext2) result" where
  "ext2_create dk self mode uid gid s = bindr (create_inode dk mode uid gid s) (\<lambda>(num, r, s). Inr (case r of
     None \<Rightarrow> Inl NO_SPACE | Some e \<Rightarrow> Inr (inode_of self e num), s))"

subsection \<open>Linking and unlinking\<close>

text \<open>The search for a block with space for a name: the block, the position of the new entry and the bytes.\<close>

fun gap_search :: "'d disk \<Rightarrow> u32 \<Rightarrow> u32 \<Rightarrow> nat \<Rightarrow> inode_entry \<Rightarrow> 'd ext2
    \<Rightarrow> ((fs_status + u32 \<times> nat \<times> u8 list) \<times> inode_entry \<times> 'd ext2) result" where
  "gap_search dk len i 0 e s = Inr (Inl NO_SPACE, e, s)"
| "gap_search dk len i (Suc n) e s = bindr (read_inode_blocks dk e i 1 s) (\<lambda>(m, tab, e, s).
     if m = 0 then Inr (Inl NOT_ALLOWED, e, s) else bindr (dirent_table_alloc tab len s) (\<lambda>r. case r of
       Some (p, tab) \<Rightarrow> Inr (Inr (i, p, tab), e, s) | None \<Rightarrow> gap_search dk len (i + 1) n e s))"

text \<open>The end of \<open>link\<close>: the block and the directory's entry are written, then the inode with one more link.\<close>

definition link_finish :: "'d disk \<Rightarrow> u8 list \<Rightarrow> u32 \<Rightarrow> inode_entry \<Rightarrow> inode \<Rightarrow> inode \<Rightarrow> 'd ext2 \<Rightarrow> (fs_status \<times> 'd ext2) result" where
  "link_finish dk tab i e dir node s = bindr (write_inode_blocks dk tab e i 1 s) (\<lambda>(m, e, s). if m = 0 then Inr (NOT_ALLOWED, s) else
     bindr (write_inode_entry dk e (in_id dir) s) (\<lambda>(ok, s). if \<not> ok then Inr (NOT_ALLOWED, s) else
     bindr (read_inode_entry dk (in_id node) s) (\<lambda>(r, s). case r of None \<Rightarrow> Inr (NOT_ALLOWED, s) | Some e \<Rightarrow>
     bindr (write_inode_entry dk (e\<lparr>ie_links := ie_links e + 1\<rparr>) (in_id node) s) (\<lambda>(ok, s).
       Inr (if ok then SUCCESS else NOT_ALLOWED, s)))))"

definition ext2_link :: "'d disk \<Rightarrow> inode \<Rightarrow> inode \<Rightarrow> string \<Rightarrow> 'd ext2 \<Rightarrow> (fs_status \<times> 'd ext2) result" where
  "ext2_link dk dir node name s = bindr (read_inode_entry dk (in_id dir) s) (\<lambda>(r, s). case r of None \<Rightarrow> Inr (NOT_ALLOWED, s)
     | Some e \<Rightarrow> let count = divceil (ie_size e) (ex_bsize s); len = of_nat (length name); ty = dirent_type (in_mode node) in
       bindr (gap_search dk len 0 (unat count) e s) (\<lambda>(r, e, s). case r of
         Inr (i, p, tab) \<Rightarrow> bindr (fill_entry tab p (in_id node) ty name) (\<lambda>tab. link_finish dk tab i e dir node s)
       | Inl NOT_ALLOWED \<Rightarrow> Inr (NOT_ALLOWED, s)
       | Inl _ \<Rightarrow> let nsize = ucast (shl32 (count + 1) (ex_bits s)) in
           bindr (resize_inode dk e nsize s) (\<lambda>(got, e, s). if got \<noteq> nsize then Inr (NO_SPACE, s) else
           bindr (read_inode_blocks dk e count 1 s) (\<lambda>(m, tab, e, s). if m = 0 then Inr (NOT_ALLOWED, s) else
           bindr (fill_entry tab 0 (in_id node) ty name) (\<lambda>tab. bindr (poke tab 4 (put16 (ucast (ex_bsize s)))) (\<lambda>tab.
             link_finish dk tab count e dir node s))))))"

definition ext2_unlink :: "'d disk \<Rightarrow> inode \<Rightarrow> string \<Rightarrow> 'd ext2 \<Rightarrow> (fs_status \<times> 'd ext2) result" where
  "ext2_unlink dk dir name s = bindr (read_inode_entry dk (in_id dir) s) (\<lambda>(r, s). case r of None \<Rightarrow> Inr (NOT_ALLOWED, s)
     | Some e \<Rightarrow> bindr (dir_search dk name 0 (unat (divceil (ie_size e) (ex_bsize s))) e s) (\<lambda>(r, e, s). case r of
         Inl st \<Rightarrow> Inr (st, s)
       | Inr (i, p, tab) \<Rightarrow> let num = de_inode_num tab p in bindr (poke tab p (put32 0)) (\<lambda>tab.
           bindr (write_inode_blocks dk tab e i 1 s) (\<lambda>(m, e, s). if m = 0 then Inr (NOT_ALLOWED, s) else
           bindr (read_inode_entry dk num s) (\<lambda>(r, s). case r of None \<Rightarrow> Inr (NOT_ALLOWED, s) | Some e \<Rightarrow>
             let e = e\<lparr>ie_links := ie_links e - 1\<rparr> in
             bindr (if ie_links e = 0 then remove_inode dk e num s else Inr (e, s)) (\<lambda>(e, s).
             bindr (write_inode_entry dk e num s) (\<lambda>(ok, s). Inr (if ok then SUCCESS else NOT_ALLOWED, s))))))))"

subsection \<open>Directories\<close>

text \<open>\<open>mkdir\<close>: three links, each of which may fail; then the inode is removed.\<close>

fun mkdir_links :: "'d disk \<Rightarrow> inode_entry \<Rightarrow> u32 \<Rightarrow> (inode \<times> inode \<times> string) list \<Rightarrow> 'd ext2 \<Rightarrow> (fs_status \<times> 'd ext2) result" where
  "mkdir_links dk e num [] s = Inr (SUCCESS, s)"
| "mkdir_links dk e num ((d, n, name) # ls) s = bindr (ext2_link dk d n name s) (\<lambda>(st, s). if st = SUCCESS then mkdir_links dk e num ls s
     else bindr (remove_inode dk e num s) (\<lambda>(_, s). Inr (st, s)))"

definition ext2_mkdir :: "'d disk \<Rightarrow> nat \<Rightarrow> inode \<Rightarrow> u32 \<Rightarrow> u16 \<Rightarrow> u16 \<Rightarrow> string \<Rightarrow> 'd ext2 \<Rightarrow> (fs_status \<times> inode option \<times> 'd ext2) result" where
  "ext2_mkdir dk self parent mode uid gid name s = bindr (create_inode dk mode uid gid s) (\<lambda>(num, r, s). case r of
     None \<Rightarrow> Inr (NO_SPACE, None, s)
   | Some e \<Rightarrow> let d = inode_of self e num in
       bindr (mkdir_links dk e num [(parent, d, name), (d, d, ''.''), (d, parent, ''..'')] s) (\<lambda>(st, s). Inr (st, Some d, s)))"

text \<open>Whether a block holds an entry in use other than \<open>.\<close> and \<open>..\<close>.\<close>

function table_in_use :: "nat \<Rightarrow> u8 list \<Rightarrow> nat \<Rightarrow> bool result" where
  "table_in_use n tab p = (if p = n then Inr False else if p > n \<or> p + 7 > length tab then Inl Fault
     else bindr (if de_inode_num tab p = 0 then Inr True else bindr (de_name_equals tab p ''.'') (\<lambda>a.
         if a then Inr True else de_name_equals tab p ''..'')) (\<lambda>skip. if \<not> skip then Inr True else
       case de_next tab p of Inl e \<Rightarrow> Inl e | Inr q \<Rightarrow> table_in_use n tab q))"
  by pat_completeness auto
termination by (relation "measure (\<lambda>(n, tab, p). n - p)") (auto dest: de_next_greater)

declare table_in_use.simps [simp del]

fun dir_in_use :: "'d disk \<Rightarrow> u32 \<Rightarrow> nat \<Rightarrow> inode_entry \<Rightarrow> 'd ext2 \<Rightarrow> (fs_status option \<times> inode_entry \<times> 'd ext2) result" where
  "dir_in_use dk i 0 e s = Inr (None, e, s)"
| "dir_in_use dk i (Suc n) e s = bindr (read_inode_blocks dk e i 1 s) (\<lambda>(m, tab, e, s). if m = 0 then Inr (Some NOT_ALLOWED, e, s) else
     bindr (table_in_use (unat (ex_bsize s)) tab 0) (\<lambda>used. if used then Inr (Some NOT_EMPTY, e, s) else dir_in_use dk (i + 1) n e s))"

fun unlink_all :: "'d disk \<Rightarrow> (inode \<times> string) list \<Rightarrow> 'd ext2 \<Rightarrow> (fs_status \<times> 'd ext2) result" where
  "unlink_all dk [] s = Inr (SUCCESS, s)"
| "unlink_all dk ((d, name) # ds) s = bindr (ext2_unlink dk d name s) (\<lambda>(st, s). if st = SUCCESS then unlink_all dk ds s else Inr (st, s))"

definition ext2_rmdir :: "'d disk \<Rightarrow> nat \<Rightarrow> inode \<Rightarrow> string \<Rightarrow> 'd ext2 \<Rightarrow> (fs_status \<times> 'd ext2) result" where
  "ext2_rmdir dk self parent name s = bindr (ext2_fetch dk self parent name s) (\<lambda>(r, s). case r of Inl st \<Rightarrow> Inr (st, s)
     | Inr dir \<Rightarrow> if \<not> S_ISDIR (in_mode dir) then Inr (NOT_DIR, s) else
       bindr (read_inode_entry dk (in_id dir) s) (\<lambda>(r, s). case r of None \<Rightarrow> Inr (NOT_ALLOWED, s) | Some e \<Rightarrow>
       bindr (dir_in_use dk 0 (unat (divceil (ie_size e) (ex_bsize s))) e s) (\<lambda>(r, e, s). case r of Some st \<Rightarrow> Inr (st, s) | None \<Rightarrow>
       bindr (unlink_all dk [(parent, name), (dir, ''.''), (dir, ''..'')] s) (\<lambda>(st, s). if st \<noteq> SUCCESS then Inr (st, s) else
       bindr (remove_inode dk e (in_id dir) s) (\<lambda>(_, s). Inr (SUCCESS, s))))))"

text \<open>Listing reads all blocks into a buffer of \<open>alignceil (size, block_size)\<close> bytes; the distance of that shift is the size of a
  block, of which the processor takes the low 5 bits.\<close>

definition read_directory :: "'d disk \<Rightarrow> inode \<Rightarrow> 'd ext2 \<Rightarrow> ((fs_status + nat \<times> u8 list) \<times> 'd ext2) result" where
  "read_directory dk dir s = bindr (read_inode_entry dk (in_id dir) s) (\<lambda>(r, s). case r of None \<Rightarrow> Inr (Inl NOT_ALLOWED, s)
     | Some e \<Rightarrow> let n = unat (alignceil (ie_size e) (ex_bsize s AND 31)) in
       bindr (read_inode_blocks dk e 0 (divceil (ie_size e) (ex_bsize s)) s) (\<lambda>(m, tab, e, s).
         if length tab > n then Inl Fault else if m = 0 then Inr (Inl NOT_ALLOWED, s) else Inr (Inr (n, tab), s)))"

function table_entries :: "nat \<Rightarrow> u8 list \<Rightarrow> nat \<Rightarrow> nat list result" where
  "table_entries n tab p = (if p = n then Inr [] else if p > n \<or> p + 7 > length tab then Inl Fault
     else case de_next tab p of Inl e \<Rightarrow> Inl e | Inr q \<Rightarrow> bindr (table_entries n tab q) (\<lambda>ps. Inr (p # ps)))"
  by pat_completeness auto
termination by (relation "measure (\<lambda>(n, tab, p). n - p)") (auto dest: de_next_greater)

declare table_entries.simps [simp del]

definition ext2_getdirentcount :: "'d disk \<Rightarrow> inode \<Rightarrow> 'd ext2 \<Rightarrow> ((fs_status + u32) \<times> 'd ext2) result" where
  "ext2_getdirentcount dk dir s = bindr (read_directory dk dir s) (\<lambda>(r, s). case r of Inl st \<Rightarrow> Inr (Inl st, s)
     | Inr (n, tab) \<Rightarrow> bindr (table_entries n tab 0) (\<lambda>ps. Inr (Inr (of_nat (length ps)), s)))"

text \<open>\<open>getdirents\<close> stores one entry after the other into an array of \<open>cap\<close> elements.\<close>

function dirents_walk :: "'d disk \<Rightarrow> nat \<Rightarrow> nat \<Rightarrow> u8 list \<Rightarrow> nat \<Rightarrow> nat \<Rightarrow> 'd ext2 \<Rightarrow> ((fs_status + dirent list) \<times> 'd ext2) result" where
  "dirents_walk dk self n tab p cap s = (if p = n then Inr (Inr [], s) else if p > n \<or> p + 7 > length tab \<or> cap = 0 then Inl Fault
     else bindr (peek tab (p + 8) (unat (de_name_len tab p))) (\<lambda>nm. bindr (read_inode_entry dk (de_inode_num tab p) s) (\<lambda>(r, s).
       case r of None \<Rightarrow> Inr (Inl NOT_ALLOWED, s) | Some e \<Rightarrow>
       bindr (dirent_set_name \<lparr>de_inode = inode_of self e (de_inode_num tab p), de_name = []\<rparr> (map (\<lambda>x. char_of (unat x)) nm)) (\<lambda>d.
       case de_next tab p of Inl e \<Rightarrow> Inl e | Inr q \<Rightarrow> bindr (dirents_walk dk self n tab q (cap - 1) s) (\<lambda>(r, s).
         Inr (case r of Inl st \<Rightarrow> Inl st | Inr ds \<Rightarrow> Inr (d # ds), s))))))"
  by pat_completeness auto
termination by (relation "measure (\<lambda>(dk, self, n, tab, p, cap, s). n - p)") (auto dest: de_next_greater)

declare dirents_walk.simps [simp del]

definition ext2_getdirents :: "'d disk \<Rightarrow> nat \<Rightarrow> inode \<Rightarrow> nat \<Rightarrow> 'd ext2 \<Rightarrow> ((fs_status + dirent list) \<times> 'd ext2) result" where
  "ext2_getdirents dk self dir cap s = bindr (read_directory dk dir s) (\<lambda>(r, s). case r of Inl st \<Rightarrow> Inr (Inl st, s)
     | Inr (n, tab) \<Rightarrow> dirents_walk dk self n tab 0 cap s)"

subsection \<open>Mounting and unmounting\<close>

definition bgd_offset :: "'d ext2 \<Rightarrow> u64" where
  "bgd_offset s = ucast (shl32 (if ex_bits s = 10 then 2 else 1) (ex_bits s))"

text \<open>\<open>access_bitmap\<close>: the blocks with the bitmaps of the groups, one after the other. A bitmap that cannot be read
  stays uninitialised.\<close>

definition bitmap_block :: "ext2_what \<Rightarrow> group_desc \<Rightarrow> u32" where
  "bitmap_block w g = (if w = EXT2_BLOCK then gd_block_bitmap g else gd_inode_bitmap g)"

fun read_bitmaps :: "'d disk \<Rightarrow> u32 list \<Rightarrow> 'd ext2 \<Rightarrow> (u8 list \<times> 'd ext2) result" where
  "read_bitmaps dk [] s = Inr ([], s)"
| "read_bitmaps dk (b # bs) s = bindr (ex_read_blocks dk b 1 s) (\<lambda>(ok, xs, s). if \<not> ok then Inl Fault
     else bindr (read_bitmaps dk bs s) (\<lambda>(ys, s). Inr (xs @ ys, s)))"

fun write_bitmaps :: "'d disk \<Rightarrow> u32 list \<Rightarrow> u8 list \<Rightarrow> 'd ext2 \<Rightarrow> 'd ext2 result" where
  "write_bitmaps dk [] bm s = Inr s"
| "write_bitmaps dk (b # bs) bm s = bindr (peek bm 0 (unat (ex_bsize s))) (\<lambda>xs. bindr (ex_write_blocks dk xs b s) (\<lambda>(_, s).
     write_bitmaps dk bs (drop (unat (ex_bsize s)) bm) s))"

definition ext2_unmount :: "'d disk \<Rightarrow> 'd ext2 \<Rightarrow> 'd ext2 result" where
  "ext2_unmount dk s = bindr (write_bitmaps dk (map (bitmap_block EXT2_BLOCK) (ex_bgd s)) (ex_bmap s) s) (\<lambda>s.
     bindr (write_bitmaps dk (map (bitmap_block EXT2_INODE) (ex_bgd s)) (ex_imap s) s) (\<lambda>s.
     bindr (ex_write dk (put_superblock (ex_sblk s)) 0x400 s) (\<lambda>(_, s).
     bindr (ex_write dk (concat (map put_group (ex_bgd s))) (bgd_offset s) s) (\<lambda>(_, s). Inr s))))"

definition ext2_start :: "'d \<Rightarrow> string option \<Rightarrow> superblock \<Rightarrow> 'd ext2" where
  "ext2_start d src sb = \<lparr>ex_dev = d, ex_src = src, ex_bits = 0, ex_bsize = 0, ex_groups = 0, ex_isize = 0, ex_bgd = [],
     ex_sblk = sb, ex_bmap = [], ex_imap = []\<rparr>"

text \<open>The numbers that follow from the superblock.\<close>

definition set_geometry :: "'d ext2 \<Rightarrow> 'd ext2" where
  "set_geometry s = (let sb = ex_sblk s; bits = sb_block_bits sb + 10 in s\<lparr>ex_bits := bits, ex_bsize := shl32 1 bits,
     ex_isize := (if sb_major sb < 1 then 128 else ucast (sb_inode_size sb))\<rparr>)"

definition divceil_r :: "u32 \<Rightarrow> u32 \<Rightarrow> u32 result" where
  "divceil_r n d = (if d = 0 then Inl Fault else Inr (divceil n d))"

text \<open>The flag is the result of \<open>init\<close>, which the constructor ignores.\<close>

definition ext2_init :: "'d disk \<Rightarrow> 'd ext2 \<Rightarrow> (bool \<times> 'd ext2) result" where
  "ext2_init dk s = bindr (ex_read dk 0x400 SB_SIZE s) (\<lambda>(ok, bs, s). if \<not> ok then Inr (False, s) else
     let s = set_geometry (s\<lparr>ex_sblk := (fst (take_superblock bs))\<lparr>sb_last_mount_time := dk_time dk (ex_dev s)\<rparr>\<rparr>); sb = ex_sblk s in
     bindr (divceil_r (sb_num_blocks sb) (sb_blocks_per_group sb)) (\<lambda>g1. bindr (divceil_r (sb_num_inodes sb) (sb_inodes_per_group sb)) (\<lambda>g2.
     if g1 \<noteq> g2 then Inr (False, s) else let s = s\<lparr>ex_groups := g1\<rparr> in
     bindr (ex_read dk (bgd_offset s) (ucast (g1 * GD_SIZE)) s) (\<lambda>(ok, bs, s). if \<not> ok then Inr (False, s) else
     let s = s\<lparr>ex_bgd := fst (take_many take_group (unat g1) bs)\<rparr> in
     bindr (read_bitmaps dk (map (bitmap_block EXT2_BLOCK) (ex_bgd s)) s) (\<lambda>(bm, s).
     bindr (read_bitmaps dk (map (bitmap_block EXT2_INODE) (ex_bgd s)) s) (\<lambda>(im, s).
       Inr (True, s\<lparr>ex_bmap := bm, ex_imap := im\<rparr>)))))))"

definition ext2_new :: "'d disk \<Rightarrow> 'd \<Rightarrow> string option \<Rightarrow> superblock \<Rightarrow> 'd ext2 result" where
  "ext2_new dk d src sb = bindr (ext2_init dk (ext2_start d src sb)) (\<lambda>(_, s). Inr s)"

definition is_of_type :: "'d disk \<Rightarrow> 'd \<Rightarrow> (bool \<times> 'd) result" where
  "is_of_type dk d = bindr (dk_read dk d 0x438 2) (\<lambda>(m, bs, d). Inr (ucast m = (2 :: u32) \<and> get16 bs 0 = EXT2_SIGNATURE, d))"

subsection \<open>Open files\<close>

text \<open>An \<open>Ext2FileDescription\<close> has a copy of its inode entry.\<close>

record ext2_file =
  xf_inode :: u32
  xf_entry :: inode_entry

definition S_ISREG16 :: "u16 \<Rightarrow> bool" where
  "S_ISREG16 m \<longleftrightarrow> ucast m AND S_IFMT = S_IFREG"

definition ext2_get_open_method :: "inode \<Rightarrow> open_method" where
  "ext2_get_open_method i = (if in_mode i AND S_IFMT \<noteq> S_IFREG then ERR_GENERAL else USE_FILE_DESCRIPTION)"

definition ext2_create_fd :: "'d disk \<Rightarrow> inode \<Rightarrow> 'd ext2 \<Rightarrow> (ext2_file option \<times> 'd ext2) result" where
  "ext2_create_fd dk i s = bindr (read_inode_entry dk (in_id i) s) (\<lambda>(r, s). Inr (case r of None \<Rightarrow> None
     | Some e \<Rightarrow> if \<not> S_ISREG16 (ie_mode e) then None else Some \<lparr>xf_inode = in_id i, xf_entry = e\<rparr>, s))"

definition ext2_free_fd :: "'d disk \<Rightarrow> ext2_file \<Rightarrow> 'd ext2 \<Rightarrow> 'd ext2 result" where
  "ext2_free_fd dk f s = bindr (write_inode_entry dk (xf_entry f) (xf_inode f) s) (\<lambda>(_, s). Inr s)"

definition file_get_size :: "ext2_file \<Rightarrow> u64" where
  "file_get_size f = ucast (ie_size (xf_entry f))"

definition file_set_size :: "'d disk \<Rightarrow> u64 \<Rightarrow> ext2_file \<times> 'd ext2 \<Rightarrow> (u64 \<times> ext2_file \<times> 'd ext2) result" where
  "file_set_size dk n fs = bindr (resize_inode dk (xf_entry (fst fs)) n (snd fs)) (\<lambda>(m, e, s).
     Inr (m, (fst fs)\<lparr>xf_entry := e\<rparr>, s))"

definition file_read_blocks :: "'d disk \<Rightarrow> ext2_file \<times> 'd ext2 \<Rightarrow> u64 \<Rightarrow> u64 \<Rightarrow> (u64 \<times> u8 list \<times> ext2_file \<times> 'd ext2) result" where
  "file_read_blocks dk fs blk n = bindr (read_inode_blocks dk (xf_entry (fst fs)) (ucast blk) (ucast n) (snd fs)) (\<lambda>(m, bs, e, s).
     Inr (ucast m, bs, (fst fs)\<lparr>xf_entry := e\<rparr>, s))"

definition file_write_blocks :: "'d disk \<Rightarrow> ext2_file \<times> 'd ext2 \<Rightarrow> u8 list \<Rightarrow> u64 \<Rightarrow> u64 \<Rightarrow> (u64 \<times> ext2_file \<times> 'd ext2) result" where
  "file_write_blocks dk fs bs blk n = bindr (write_inode_blocks dk bs (xf_entry (fst fs)) (ucast blk) (ucast n) (snd fs)) (\<lambda>(m, e, s).
     Inr (ucast m, (fst fs)\<lparr>xf_entry := e\<rparr>, s))"

end
