(* ===== verification/Ext2_Dirs.thy ===== *)
theory Ext2_Dirs
  imports Ext2_Fs Ext2_Alloc
begin

text \<open>
  Tables of directory entries as lists of entries: what a lookup finds, and what the search for a gap with the
  filling of the new entry does to the list.
\<close>

text \<open>An entry: inode number, type, name and the bytes behind the name.\<close>

record dent =
  dt_num :: u32
  dt_type :: u8
  dt_name :: "u8 list"
  dt_pad :: "u8 list"

definition dt_size :: "dent \<Rightarrow> nat" where
  "dt_size d = 8 + length (dt_name d) + length (dt_pad d)"

definition dt_bytes :: "dent \<Rightarrow> u8 list" where
  "dt_bytes d = put32 (dt_num d) @ put16 (of_nat (dt_size d)) @ [of_nat (length (dt_name d)), dt_type d] @ dt_name d @ dt_pad d"

definition table_bytes :: "dent list \<Rightarrow> u8 list" where
  "table_bytes ds = concat (map dt_bytes ds)"

definition dt_ok :: "dent \<Rightarrow> bool" where
  "dt_ok d \<longleftrightarrow> length (dt_name d) < 256 \<and> 0 \<notin> set (dt_name d) \<and> dt_size d mod 4 = 0 \<and> dt_size d < 65536"

lemma length_dt_bytes [simp]: "length (dt_bytes d) = dt_size d"
  by (simp add: dt_bytes_def dt_size_def)

lemma table_bytes_simps [simp]: "table_bytes [] = []" "table_bytes (d # ds) = dt_bytes d @ table_bytes ds"
    "table_bytes (ds @ es) = table_bytes ds @ table_bytes es"
  by (simp_all add: table_bytes_def)

lemma dt_size_pos [simp]: "0 < dt_size d" "8 \<le> dt_size d"
  by (simp_all add: dt_size_def)

lemma unat_of_nat16: "k < 65536 \<Longrightarrow> unat (of_nat k :: u16) = k"
  by (simp add: unat_of_nat take_bit_nat_eq_self)

lemma unat_of_nat8: "k < 256 \<Longrightarrow> unat (of_nat k :: u8) = k"
  by (simp add: unat_of_nat take_bit_nat_eq_self)

lemma nth_at: "length xs = i \<Longrightarrow> (xs @ y # ys) ! i = y"
  by auto

text \<open>The fields of the entry at a position.\<close>

lemma dt_fields:
  assumes "dt_ok d" "p = length pre"
  shows "de_inode_num (pre @ dt_bytes d @ post) p = dt_num d"
    and "unat (de_size (pre @ dt_bytes d @ post) p) = dt_size d"
    and "unat (de_name_len (pre @ dt_bytes d @ post) p) = length (dt_name d)"
    and "de_next (pre @ dt_bytes d @ post) p = Inr (p + dt_size d)"
proof -
  let ?tail = "[of_nat (length (dt_name d)), dt_type d] @ dt_name d @ dt_pad d @ post"
  have b: "pre @ dt_bytes d @ post = pre @ put32 (dt_num d) @ put16 (of_nat (dt_size d)) @ ?tail"
    by (simp add: dt_bytes_def)
  show "de_inode_num (pre @ dt_bytes d @ post) p = dt_num d"
    unfolding b de_inode_num_def using get32_put [of pre p] assms(2) by simp
  have "get16 ((pre @ put32 (dt_num d)) @ put16 (of_nat (dt_size d)) @ ?tail) (p + 4) = of_nat (dt_size d)"
    using assms(2) by (intro get16_put) simp
  then show s: "unat (de_size (pre @ dt_bytes d @ post) p) = dt_size d"
    unfolding b de_size_def using assms(1) by (simp add: unat_of_nat16 dt_ok_def)
  have "((pre @ put32 (dt_num d) @ put16 (of_nat (dt_size d))) @ ?tail) ! (p + 6) = of_nat (length (dt_name d))"
    using assms(2) by (subst nth_append) simp
  then show "unat (de_name_len (pre @ dt_bytes d @ post) p) = length (dt_name d)"
    unfolding b de_name_len_def using assms(1) by (simp add: unat_of_nat8 dt_ok_def)
  have "de_size (pre @ dt_bytes d @ post) p \<noteq> 0" using s dt_size_pos(1) [of d] by (metis unat_0 less_numeral_extra(3))
  then show "de_next (pre @ dt_bytes d @ post) p = Inr (p + dt_size d)" using s by (simp add: de_next_def)
qed

subsection \<open>Comparing names\<close>

lemma name_equals_spec:
  assumes "0 \<notin> set xs" "0 \<notin> set nm" "p = length pre"
  shows "name_equals (pre @ xs @ post) p (length xs) (nm @ [0]) = Inr (xs = nm)"
  using assms
proof (induction xs arbitrary: nm pre p)
  case Nil
  then show ?case by (cases nm) auto
next
  case (Cons x xs)
  have l: "(pre @ (x # xs) @ post) ! p = x" "p < length (pre @ (x # xs) @ post)" using Cons.prems(3) by auto
  show ?case
  proof (cases nm)
    case Nil
    then show ?thesis using l Cons.prems(1) by (simp add: nth_r_def)
  next
    case (Cons c cs)
    have "name_equals ((pre @ [x]) @ xs @ post) (p + 1) (length xs) (cs @ [0]) = Inr (xs = cs)"
      using Cons.prems Cons by (intro Cons.IH) auto
    then show ?thesis using l Cons by (cases "x = c") (auto simp: nth_r_def)
  qed
qed

definition c_name :: "string \<Rightarrow> u8 list" where
  "c_name name = map of_char name"

lemma de_name_equals_spec:
  assumes "dt_ok d" "p = length pre" "0 \<notin> set (c_name name)"
  shows "de_name_equals (pre @ dt_bytes d @ post) p name = Inr (dt_name d = c_name name)"
proof -
  let ?h = "pre @ put32 (dt_num d) @ put16 (of_nat (dt_size d)) @ [of_nat (length (dt_name d)), dt_type d]"
  have b: "pre @ dt_bytes d @ post = ?h @ dt_name d @ (dt_pad d @ post)" by (simp add: dt_bytes_def)
  have "name_equals (?h @ dt_name d @ (dt_pad d @ post)) (p + 8) (length (dt_name d)) (c_name name @ [0]) = Inr (dt_name d = c_name name)"
    using assms by (intro name_equals_spec) (auto simp: dt_ok_def)
  then show ?thesis unfolding de_name_equals_def dt_fields(3) [OF assms(1,2)] unfolding b by (simp add: c_string_def c_name_def)
qed

subsection \<open>Lookup\<close>

fun find_at :: "u8 list \<Rightarrow> nat \<Rightarrow> dent list \<Rightarrow> nat option" where
  "find_at nm p [] = None"
| "find_at nm p (d # ds) = (if dt_name d = nm then Some p else find_at nm (p + dt_size d) ds)"

lemma table_fetch_spec:
  assumes "\<forall>d \<in> set ds. dt_ok d" "0 \<notin> set (c_name name)" "p = length pre" "n = length (pre @ table_bytes ds)"
  shows "table_fetch n (pre @ table_bytes ds) name p = Inr (find_at (c_name name) p ds)"
  using assms
proof (induction ds arbitrary: pre p)
  case Nil
  then show ?case by (simp add: table_fetch.simps)
next
  case (Cons d ds)
  let ?t = "pre @ dt_bytes d @ table_bytes ds"
  have d: "dt_ok d" using Cons.prems(1) by simp
  have n: "n = p + dt_size d + length (table_bytes ds)" using Cons.prems(3,4) by simp
  have eq: "de_name_equals ?t p name = Inr (dt_name d = c_name name)"
    using de_name_equals_spec [OF d Cons.prems(3,2)] .
  have nx: "de_next ?t p = Inr (p + dt_size d)" using dt_fields(4) [OF d Cons.prems(3)] .
  have rest: "table_fetch n ((pre @ dt_bytes d) @ table_bytes ds) name (p + dt_size d) = Inr (find_at (c_name name) (p + dt_size d) ds)"
    using Cons.prems by (intro Cons.IH) simp_all
  have "length ?t = n" using n Cons.prems(3) by simp
  then have b: "p \<noteq> n" "\<not> p > n" "\<not> p + 7 > length ?t" using n dt_size_pos(2) [of d] by linarith+
  show ?case using rest eq nx b by (subst table_fetch.simps) simp
qed

text \<open>C25: Lookup in a directory block. For a table of well-formed entries the walk returns, and it returns the
  position of the first entry with the name, or null. Entries that were unlinked, whose inode number is 0, count
  as well.\<close>

theorem lookup_finds_first:
  assumes "\<forall>d \<in> set ds. dt_ok d" "0 \<notin> set (c_name name)" "length (table_bytes ds) = unat (ex_bsize s)"
  shows "dirent_table_fetch (table_bytes ds) name s = Inr (find_at (c_name name) 0 ds)"
  using table_fetch_spec [of ds name 0 "[]" "unat (ex_bsize s)"] assms by (simp add: dirent_table_fetch_def)

definition demo_table :: "dent list" where
  "demo_table = [\<lparr>dt_num = 2, dt_type = 2, dt_name = [0x2e], dt_pad = [0, 0, 0]\<rparr>,
     \<lparr>dt_num = 0, dt_type = 1, dt_name = [0x61], dt_pad = replicate 43 0\<rparr>]"

lemma demo_table_ok: "\<forall>d \<in> set demo_table. dt_ok d" "length (table_bytes demo_table) = 64"
  by (simp_all add: demo_table_def dt_ok_def dt_size_def)

theorem lookup_finds_first_witness:
  "dirent_table_fetch (table_bytes demo_table) ''a'' (ext2_start () None demo_super\<lparr>ex_bsize := 64\<rparr>) = Inr (Some 12)"
proof -
  have "c_name ''a'' = [0x61]" by (simp add: c_name_def of_char_def)
  then show ?thesis
    using lookup_finds_first [of demo_table "''a''" "ext2_start () None demo_super\<lparr>ex_bsize := 64\<rparr>"] demo_table_ok
    by (simp add: demo_table_def dt_size_def)
qed

subsection \<open>The search for a gap\<close>

definition nspace :: "nat \<Rightarrow> nat" where
  "nspace n = (n + 11) div 4 * 4"

lemma nspace_bounds: "8 + n \<le> nspace n" "nspace n < 12 + n" "nspace n mod 4 = 0"
  unfolding nspace_def by presburger+

lemma nspace_le: "8 + n \<le> m \<Longrightarrow> m mod 4 = 0 \<Longrightarrow> nspace n \<le> m"
  unfolding nspace_def by presburger

lemma entry_space_spec:
  assumes "unat n < 65536"
  shows "unat (entry_space n) = nspace (unat n)"
proof -
  have u: "unat (8 + n) = 8 + unat n" using assms by (subst unat_add_small) simp_all
  have q: "unat (8 + n) + 2 ^ unat (2 :: u32) < 4294967296" using assms u by simp
  from alignceil_spec [of 2, OF _ q] have "4 dvd unat (entry_space n)" "8 + unat n \<le> unat (entry_space n)"
      "unat (entry_space n) < 12 + unat n"
    unfolding entry_space_def u by simp_all
  then show ?thesis unfolding nspace_def by presburger
qed

definition slack :: "dent \<Rightarrow> dent list \<Rightarrow> nat" where
  "slack l dead = dt_size l - nspace (length (dt_name l)) + length (table_bytes dead)"

text \<open>What the walk knows after the entries \<open>us\<close>: the last one in use and the space behind it.\<close>

definition gap_after :: "dent list \<Rightarrow> nat \<Rightarrow> u32 \<Rightarrow> bool" where
  "gap_after us start found \<longleftrightarrow> (\<exists>as l dead. us = as @ l # dead \<and> dt_num l \<noteq> 0 \<and> (\<forall>d \<in> set dead. dt_num d = 0)
     \<and> start = length (table_bytes as) \<and> unat found = slack l dead)"

lemma dt_space:
  assumes "dt_ok d"
  shows "nspace (length (dt_name d)) \<le> dt_size d"
  using assms nspace_le [of "length (dt_name d)" "dt_size d"] by (simp add: dt_ok_def dt_size_def)

lemma unat_ucast16 [simp]: "unat (ucast (x :: u16) :: u32) = unat x"
proof -
  have "unat x < 65536" using unsigned_less [of x, where ?'a = nat] by simp
  then show ?thesis by (simp add: unsigned_ucast_eq take_bit_eq_mod)
qed

lemma unat_ucast8 [simp]: "unat (ucast (x :: u8) :: u32) = unat x"
proof -
  have "unat x < 256" using unsigned_less [of x, where ?'a = nat] by simp
  then show ?thesis by (simp add: unsigned_ucast_eq take_bit_eq_mod)
qed

lemma gap_step_live:
  assumes "dt_ok d" "dt_num d \<noteq> 0" "p = length (table_bytes us)"
  shows "gap_after (us @ [d]) p (ucast (de_size (table_bytes us @ dt_bytes d @ post) p)
      - entry_space (ucast (de_name_len (table_bytes us @ dt_bytes d @ post) p)))"
proof -
  let ?t = "table_bytes us @ dt_bytes d @ post"
  note f = dt_fields(2,3) [OF assms(1,3)]
  have nl: "unat (ucast (de_name_len ?t p) :: u32) = length (dt_name d)" using f(2) by simp
  have e: "unat (entry_space (ucast (de_name_len ?t p))) = nspace (length (dt_name d))"
    using entry_space_spec [of "ucast (de_name_len ?t p)"] nl assms(1) by (simp add: dt_ok_def)
  have "unat (ucast (de_size ?t p) - entry_space (ucast (de_name_len ?t p))) = slack d []"
    using dt_space [OF assms(1)] f(1) e by (subst unat_diff_le) (simp_all add: slack_def)
  then show ?thesis using assms(2,3) unfolding gap_after_def by (intro exI [of _ us] exI [of _ d] exI [of _ "[]"]) simp
qed

lemma gap_step_dead:
  assumes "dt_ok d" "dt_num d = 0" "p = length (table_bytes us)" "gap_after us start found"
    and "length (table_bytes (us @ [d])) < 65536"
  shows "gap_after (us @ [d]) start (found + ucast (de_size (table_bytes us @ dt_bytes d @ post) p))"
proof -
  obtain as l dead where u: "us = as @ l # dead" "dt_num l \<noteq> 0" "\<forall>d \<in> set dead. dt_num d = 0"
      "start = length (table_bytes as)" "unat found = slack l dead"
    using assms(4) by (auto simp: gap_after_def)
  note f = dt_fields(2) [OF assms(1,3)]
  have "slack l dead + dt_size d < 65536" using assms(5) by (simp add: u(1) slack_def)
  then have "unat (found + ucast (de_size (table_bytes us @ dt_bytes d @ post) p)) = slack l (dead @ [d])"
    using f u(5) by (subst unat_add_small) (simp_all add: slack_def)
  then show ?thesis using u assms(2) unfolding gap_after_def
    by (intro exI [of _ as] exI [of _ l] exI [of _ "dead @ [d]"]) auto
qed

text \<open>No entry in use among \<open>us\<close> has \<open>need\<close> bytes behind it.\<close>

definition no_gap :: "nat \<Rightarrow> dent list \<Rightarrow> bool" where
  "no_gap need us \<longleftrightarrow> (\<forall>as l dead post. us = as @ l # dead @ post \<longrightarrow> dt_num l \<noteq> 0 \<longrightarrow> (\<forall>d \<in> set dead. dt_num d = 0) \<longrightarrow> slack l dead < need)"

lemma last_live:
  assumes "us = as @ l # dead" "dt_num l \<noteq> 0" "\<forall>d \<in> set dead. dt_num d = 0"
  shows "dead = rev (takeWhile (\<lambda>d. dt_num d = 0) (rev us))" "as @ [l] = rev (dropWhile (\<lambda>d. dt_num d = 0) (rev us))"
  using assms(2,3) unfolding assms(1) by (simp_all add: takeWhile_append dropWhile_append)

lemma no_gap_step:
  assumes "no_gap need us" "gap_after (us @ [d]) start found" "unat found < need"
  shows "no_gap need (us @ [d])"
  unfolding no_gap_def
proof (intro allI impI)
  fix as l dead post
  assume u: "us @ [d] = as @ l # dead @ post" and live: "dt_num l \<noteq> 0" and dead: "\<forall>d \<in> set dead. dt_num d = 0"
  show "slack l dead < need"
  proof (cases post rule: rev_cases)
    case (snoc post' x)
    then have "us = as @ l # dead @ post'" using u by simp
    then show ?thesis using assms(1) live dead unfolding no_gap_def by blast
  next
    case Nil
    obtain as' l' dead' where g: "us @ [d] = as' @ l' # dead'" "dt_num l' \<noteq> 0" "\<forall>d \<in> set dead'. dt_num d = 0" "unat found = slack l' dead'"
      using assms(2) by (auto simp: gap_after_def)
    have "us @ [d] = as @ l # dead" using u Nil by simp
    note a = last_live [OF this live dead] and b = last_live [OF g(1-3)]
    have "dead = dead'" "as @ [l] = as' @ [l']" using a b by simp_all
    then show ?thesis using g(4) assms(3) by simp
  qed
qed

lemma gap_walk_spec:
  assumes "\<forall>d \<in> set (us @ ds). dt_ok d" "n = length (table_bytes (us @ ds))" "n < 65536"
    and "if us = [] then ds \<noteq> [] \<and> dt_num (hd ds) \<noteq> 0 else gap_after us start found \<and> found < need"
    and "no_gap (unat need) us"
  shows "\<exists>start' found'. gap_walk n (table_bytes (us @ ds)) need (length (table_bytes us)) start found = Inr (start', found')
    \<and> (if found' < need then no_gap (unat need) (us @ ds) else \<exists>vs ws. us @ ds = vs @ ws \<and> gap_after vs start' found')"
  using assms
proof (induction ds arbitrary: us start found)
  case Nil
  then show ?case by (cases "us = []") (simp_all add: gap_walk.simps)
next
  case (Cons d ds)
  let ?p = "length (table_bytes us)" and ?t = "table_bytes us @ dt_bytes d @ table_bytes ds"
  have d: "dt_ok d" using Cons.prems(1) by simp
  have n: "n = ?p + dt_size d + length (table_bytes ds)" using Cons.prems(2) by simp
  have "length ?t = n" using n by simp
  then have b: "?p \<noteq> n" "\<not> ?p > n" "\<not> ?p + 7 > length ?t" using n dt_size_pos(2) [of d] by linarith+
  define st where "st = (if dt_num d \<noteq> 0 then ?p else start)"
  define fo where "fo = (if dt_num d \<noteq> 0 then ucast (de_size ?t ?p) - entry_space (ucast (de_name_len ?t ?p)) else found + ucast (de_size ?t ?p))"
  have g: "gap_after (us @ [d]) st fo"
  proof (cases "dt_num d = 0")
    case False
    then show ?thesis using gap_step_live [OF d, of ?p us "table_bytes ds"] by (simp add: st_def fo_def)
  next
    case True
    then have "gap_after us start found" using Cons.prems(4) by (auto split: if_splits)
    then show ?thesis using gap_step_dead [OF d True refl, of us start found "table_bytes ds"] True n Cons.prems(3)
      by (simp add: st_def fo_def)
  qed
  note f = dt_fields [OF d refl, of "table_bytes us" "table_bytes ds"]
  have run: "gap_walk n (table_bytes (us @ d # ds)) need ?p start found = (if fo \<ge> need then Inr (st, fo)
      else gap_walk n (table_bytes ((us @ [d]) @ ds)) need (length (table_bytes (us @ [d]))) st fo)"
    using b f(1,4) by (subst gap_walk.simps) (simp add: st_def fo_def Let_def)
  show ?case
  proof (cases "fo \<ge> need")
    case True
    have "\<exists>vs ws. us @ d # ds = vs @ ws \<and> gap_after vs st fo" using g by (intro exI [of _ "us @ [d]"] exI [of _ ds]) simp
    moreover have "gap_walk n (table_bytes (us @ d # ds)) need ?p start found = Inr (st, fo)" using run True by simp
    moreover have "\<not> fo < need" using True by simp
    ultimately show ?thesis by simp
  next
    case False
    then have "no_gap (unat need) (us @ [d])" using no_gap_step [OF Cons.prems(5) g] by (simp add: not_le word_less_unat)
    moreover have "\<forall>d \<in> set ((us @ [d]) @ ds). dt_ok d" "n = length (table_bytes ((us @ [d]) @ ds))" using Cons.prems(1,2) by simp_all
    moreover have "if us @ [d] = [] then ds \<noteq> [] \<and> dt_num (hd ds) \<noteq> 0 else gap_after (us @ [d]) st fo \<and> fo < need"
      using g False by (simp add: not_le)
    moreover have e: "(us @ [d]) @ ds = us @ d # ds" by simp
    ultimately have "\<exists>start' found'. gap_walk n (table_bytes (us @ d # ds)) need (length (table_bytes (us @ [d]))) st fo = Inr (start', found')
        \<and> (if found' < need then no_gap (unat need) (us @ d # ds) else \<exists>vs ws. us @ d # ds = vs @ ws \<and> gap_after vs start' found')"
      using Cons.IH [of "us @ [d]" st fo] Cons.prems(3) by (simp only: e simp_thms)
    then show ?thesis using run False by (simp only: e if_False)
  qed
qed

subsection \<open>The new entry\<close>

lemma poke_mid: "i = length xs \<Longrightarrow> length zs = length ys \<Longrightarrow> poke (xs @ ys @ rest) i zs = Inr (xs @ zs @ rest)"
  by (simp add: poke_def)

lemma fill_entry_spec:
  assumes "length o4 = 4" "length o2 = 2" "length on = length name" "p = length pre"
  shows "fill_entry (pre @ o4 @ put16 sz @ o2 @ on @ post) p num ty name
    = Inr (pre @ put32 num @ put16 sz @ [of_nat (length name), ty] @ c_name name @ post)"
proof -
  have "poke (pre @ o4 @ put16 sz @ o2 @ on @ post) p (put32 num) = Inr (pre @ put32 num @ put16 sz @ o2 @ on @ post)"
    using assms by (intro poke_mid) simp_all
  moreover have "poke ((pre @ put32 num @ put16 sz) @ o2 @ on @ post) (p + 6) [of_nat (length name), ty]
      = Inr ((pre @ put32 num @ put16 sz) @ [of_nat (length name), ty] @ on @ post)"
    using assms by (intro poke_mid) simp_all
  moreover have "poke ((pre @ put32 num @ put16 sz @ [of_nat (length name), ty]) @ on @ post) (p + 8) (c_name name)
      = Inr ((pre @ put32 num @ put16 sz @ [of_nat (length name), ty]) @ c_name name @ post)"
    using assms by (intro poke_mid) (simp_all add: c_name_def)
  ultimately show ?thesis by (simp add: fill_entry_def c_name_def [symmetric])
qed

lemma split_at: "n \<le> length xs \<Longrightarrow> \<exists>ys zs. xs = ys @ zs \<and> length ys = n"
  by (intro exI [of _ "take n xs"] exI [of _ "drop n xs"]) simp

text \<open>The entries in use, as inode number, type and name.\<close>

definition live :: "dent list \<Rightarrow> (u32 \<times> u8 \<times> u8 list) list" where
  "live ds = map (\<lambda>d. (dt_num d, dt_type d, dt_name d)) (filter (\<lambda>d. dt_num d \<noteq> 0) ds)"

lemma live_simps [simp]: "live [] = []" "live (d # ds) = (if dt_num d = 0 then live ds else (dt_num d, dt_type d, dt_name d) # live ds)"
    "live (ds @ es) = live ds @ live es"
  by (simp_all add: live_def)

lemma table_mod: "\<forall>d \<in> set ds. dt_ok d \<Longrightarrow> 4 dvd length (table_bytes ds)"
  by (induction ds) (auto simp: dt_ok_def intro!: dvd_add)

lemma slack_mod: "dt_ok l \<Longrightarrow> \<forall>d \<in> set dead. dt_ok d \<Longrightarrow> slack l dead mod 4 = 0"
  using nspace_bounds(3) [of "length (dt_name l)"] table_mod [of dead]
  by (auto simp: slack_def dt_ok_def mod_eq_0_iff_dvd intro!: dvd_add dvd_diff_nat)

text \<open>The space behind the entry \<open>l\<close> and the unused ones after it is cut off and filled with the new entry.\<close>

lemma place_entry:
  assumes l: "dt_ok l" and dead: "\<forall>d \<in> set dead. dt_ok d" and f: "unat found = slack l dead" "slack l dead < 65536"
    and name: "length name < 256" "0 \<notin> set (c_name name)" "nspace (length name) \<le> slack l dead"
    and sp: "unat space = nspace (length (dt_name l))"
  shows "\<exists>l' e t1 t2. poke (pre @ dt_bytes l @ table_bytes dead @ post) (length pre + 4) (put16 space) = Inr t1
    \<and> poke t1 (length pre + unat space + 4) (put16 (ucast (found :: u32))) = Inr t2
    \<and> fill_entry t2 (length pre + unat space) num ty name = Inr (pre @ dt_bytes l' @ dt_bytes e @ post)
    \<and> dt_ok l' \<and> dt_ok e \<and> (dt_num l', dt_type l', dt_name l') = (dt_num l, dt_type l, dt_name l)
    \<and> (dt_num e, dt_type e, dt_name e) = (num, ty, c_name name) \<and> dt_size l' + dt_size e = dt_size l + length (table_bytes dead)"
proof -
  let ?nl = "length (dt_name l)"
  have "nspace ?nl - 8 - ?nl \<le> length (dt_pad l)" using dt_space [OF l] by (simp add: dt_size_def)
  then obtain pk pr where pad: "dt_pad l = pk @ pr" "length pk = nspace ?nl - 8 - ?nl" using split_at by blast
  define l' where "l' = l\<lparr>dt_pad := pk\<rparr>"
  have sl': "dt_size l' = nspace ?nl" using pad(2) nspace_bounds(1) [of ?nl] by (simp add: l'_def dt_size_def)
  have spw: "space = of_nat (dt_size l')" using sp sl' dt_space [OF l] l by (simp add: word_unat_eq_iff unat_of_nat16 dt_ok_def)
  have ol: "length (pr @ table_bytes dead) = slack l dead"
    using pad dt_space [OF l] nspace_bounds(1) [of ?nl] by (simp add: slack_def dt_size_def)
  have nb: "8 + length name \<le> slack l dead" using nspace_bounds(1) [of "length name"] name(3) by simp
  obtain o4 r1 where r1: "pr @ table_bytes dead = o4 @ r1" "length o4 = 4" using split_at [of 4 "pr @ table_bytes dead"] nb ol by auto
  obtain s2 r2 where r2: "r1 = s2 @ r2" "length s2 = 2" using split_at [of 2 r1] nb ol r1 by auto
  obtain o2 r3 where r3: "r2 = o2 @ r3" "length o2 = 2" using split_at [of 2 r2] nb ol r1 r2 by auto
  obtain on opad where r4: "r3 = on @ opad" "length on = length name" using split_at [of "length name" r3] nb ol r1 r2 r3 by auto
  define e where "e = \<lparr>dt_num = num, dt_type = ty, dt_name = c_name name, dt_pad = opad\<rparr>"
  have se: "dt_size e = slack l dead" using ol r1 r2 r3 r4 by (simp add: e_def dt_size_def c_name_def)
  have fo: "ucast found = (of_nat (dt_size e) :: u16)"
    using f se by (simp add: word_unat_eq_iff unat_of_nat16 unsigned_ucast_eq take_bit_eq_mod)
  let ?h = "[of_nat ?nl, dt_type l] @ dt_name l @ pk"
  have whole: "pre @ dt_bytes l @ table_bytes dead @ post = (pre @ put32 (dt_num l)) @ put16 (of_nat (dt_size l)) @ (?h @ (pr @ table_bytes dead) @ post)"
    by (simp add: dt_bytes_def pad(1))
  have p1: "poke (pre @ dt_bytes l @ table_bytes dead @ post) (length pre + 4) (put16 space)
      = Inr ((pre @ put32 (dt_num l)) @ put16 space @ (?h @ (pr @ table_bytes dead) @ post))"
    unfolding whole by (intro poke_mid) simp_all
  have l'b: "dt_bytes l' = put32 (dt_num l) @ put16 space @ ?h" by (simp add: dt_bytes_def spw) (simp add: l'_def)
  have t1: "(pre @ put32 (dt_num l)) @ put16 space @ (?h @ (pr @ table_bytes dead) @ post) = (pre @ dt_bytes l' @ o4) @ s2 @ (o2 @ on @ opad @ post)"
    unfolding l'b r1(1) r2(1) r3(1) r4(1) by simp
  have p2: "poke ((pre @ dt_bytes l' @ o4) @ s2 @ (o2 @ on @ opad @ post)) (length pre + unat space + 4) (put16 (ucast found))
      = Inr ((pre @ dt_bytes l' @ o4) @ put16 (ucast found) @ (o2 @ on @ opad @ post))"
    using r1(2) r2(2) sp sl' by (intro poke_mid) simp_all
  have "fill_entry ((pre @ dt_bytes l') @ o4 @ put16 (ucast found) @ o2 @ on @ (opad @ post)) (length pre + unat space) num ty name
      = Inr ((pre @ dt_bytes l') @ put32 num @ put16 (ucast found) @ [of_nat (length name), ty] @ c_name name @ (opad @ post))"
    using r1(2) r3(2) r4(2) sp sl' by (intro fill_entry_spec) simp_all
  then have p3: "fill_entry ((pre @ dt_bytes l' @ o4) @ put16 (ucast found) @ (o2 @ on @ opad @ post)) (length pre + unat space) num ty name
      = Inr (pre @ dt_bytes l' @ dt_bytes e @ post)"
    unfolding fo by (simp add: dt_bytes_def [of e]) (simp add: e_def c_name_def)
  have m4: "slack l dead mod 4 = 0" by (rule slack_mod [OF l dead])
  have ok: "dt_ok l'" "dt_ok e"
    using l dt_space [OF l] nspace_bounds(3) [of ?nl] sl' se f(2) name m4
    by (simp_all add: dt_ok_def) (simp_all add: l'_def e_def c_name_def)
  have "dt_size l' + dt_size e = dt_size l + length (table_bytes dead)" using dt_space [OF l] sl' se by (simp add: slack_def)
  then show ?thesis using p1 [unfolded t1] p2 p3 ok
    by (intro exI [of _ l'] exI [of _ e] exI conjI) (simp_all add: l'_def e_def)
qed

text \<open>C23: Inserting into a directory block. In a table of well-formed entries whose first entry is in use, the search for
  space returns. It finds none only if no entry in use has the space that the name needs behind it. Otherwise the
  table with the new entry filled in is again a table of well-formed entries with the same length, and its entries in
  use are those before, in their order, and the new one.\<close>

theorem insert_keeps_table:
  assumes ok: "\<forall>d \<in> set ds. dt_ok d" and first: "ds \<noteq> []" "dt_num (hd ds) \<noteq> 0"
    and n: "length (table_bytes ds) = unat (ex_bsize s)" "unat (ex_bsize s) < 65536"
    and name: "length name < 256" "0 \<notin> set (c_name name)" and num: "num \<noteq> 0"
  shows "\<exists>r. dirent_table_alloc (table_bytes ds) (of_nat (length name)) s = Inr r \<and> (case r of
      None \<Rightarrow> no_gap (nspace (length name)) ds
    | Some (p, tab) \<Rightarrow> \<exists>es xs ys. fill_entry tab p num ty name = Inr (table_bytes es) \<and> (\<forall>e \<in> set es. dt_ok e)
        \<and> length (table_bytes es) = length (table_bytes ds) \<and> live ds = xs @ ys \<and> live es = xs @ (num, ty, c_name name) # ys)"
proof -
  let ?need = "entry_space (of_nat (length name))"
  have un: "unat (of_nat (length name) :: u32) = length name" using name(1) by (simp add: unat_of_nat32)
  have need: "unat ?need = nspace (length name)" using entry_space_spec [of "of_nat (length name)"] name(1) un by simp
  obtain st fo where w: "gap_walk (unat (ex_bsize s)) (table_bytes ds) ?need 0 0 0 = Inr (st, fo)"
      "if fo < ?need then no_gap (unat ?need) ds else \<exists>vs ws. ds = vs @ ws \<and> gap_after vs st fo"
    using gap_walk_spec [of "[]" ds "unat (ex_bsize s)" 0 0 ?need, unfolded append_Nil] ok first n by (auto simp: no_gap_def)
  show ?thesis
  proof (cases "fo < ?need")
    case True
    then show ?thesis using w need by (simp add: dirent_table_alloc_def Let_def)
  next
    case False
    then obtain vs ws where v: "ds = vs @ ws" "gap_after vs st fo" using w(2) by auto
    then obtain as l dead where g: "vs = as @ l # dead" "dt_num l \<noteq> 0" "\<forall>d \<in> set dead. dt_num d = 0"
        "st = length (table_bytes as)" "unat fo = slack l dead" by (auto simp: gap_after_def)
    have l: "dt_ok l" "\<forall>d \<in> set dead. dt_ok d" using ok v(1) g(1) by auto
    let ?post = "table_bytes ws" and ?t = "table_bytes as @ dt_bytes l @ table_bytes dead @ table_bytes ws"
    have t: "table_bytes ds = ?t" by (simp add: v(1) g(1))
    have small: "slack l dead < 65536" using n g(1) v(1) by (simp add: slack_def)
    have nd: "nspace (length name) \<le> slack l dead" using False need g(5) by (simp add: not_less word_le_unat)
    let ?sp = "ucast (entry_space (ucast (de_name_len ?t st))) :: u16"
    have nl: "unat (ucast (de_name_len ?t st) :: u32) = length (dt_name l)" using dt_fields(3) [OF l(1) g(4)] by simp
    have "unat (entry_space (ucast (de_name_len ?t st))) = nspace (length (dt_name l))"
      using entry_space_spec [of "ucast (de_name_len ?t st)"] nl l(1) by (simp add: dt_ok_def)
    then have sp: "unat ?sp = nspace (length (dt_name l))"
      using dt_space [OF l(1)] l(1) by (simp add: unsigned_ucast_eq take_bit_eq_mod dt_ok_def)
    from place_entry [OF l g(5) small name nd sp, of "table_bytes as" "table_bytes ws" num ty]
    obtain l' e t1 t2 where p: "poke ?t (st + 4) (put16 ?sp) = Inr t1" "poke t1 (st + unat ?sp + 4) (put16 (ucast fo)) = Inr t2"
        "fill_entry t2 (st + unat ?sp) num ty name = Inr (table_bytes as @ dt_bytes l' @ dt_bytes e @ table_bytes ws)"
        "dt_ok l'" "dt_ok e" "(dt_num l', dt_type l', dt_name l') = (dt_num l, dt_type l, dt_name l)"
        "(dt_num e, dt_type e, dt_name e) = (num, ty, c_name name)" "dt_size l' + dt_size e = dt_size l + length (table_bytes dead)"
      unfolding g(4) by blast
    let ?es = "as @ l' # e # ws"
    have run: "dirent_table_alloc (table_bytes ds) (of_nat (length name)) s = Inr (Some (st + unat ?sp, t2))"
      using w(1) False p(1,2) unfolding t by (simp add: dirent_table_alloc_def Let_def)
    have "live dead = []" using g(3) by (simp add: live_def)
    then have "live ds = (live as @ [(dt_num l, dt_type l, dt_name l)]) @ live ws" using g(2) by (simp add: v(1) g(1))
    moreover have "live ?es = (live as @ [(dt_num l, dt_type l, dt_name l)]) @ (num, ty, c_name name) # live ws"
      using g(2) num p(6,7) by simp
    moreover have "fill_entry t2 (st + unat ?sp) num ty name = Inr (table_bytes ?es)" using p(3) by simp
    moreover have "\<forall>e \<in> set ?es. dt_ok e" using ok p(4,5) v(1) g(1) by auto
    moreover have "length (table_bytes ?es) = length (table_bytes ds)" using p(8) by (simp add: t)
    ultimately show ?thesis using run by (intro exI [of _ "Some (st + unat ?sp, t2)"]) (simp only: option.case prod.case, blast)
  qed
qed

definition demo_ext2 :: "unit ext2" where
  "demo_ext2 = ext2_start () None demo_super\<lparr>ex_bsize := 64\<rparr>"

theorem insert_keeps_table_witness:
  "\<exists>p tab es. dirent_table_alloc (table_bytes demo_table) 1 demo_ext2 = Inr (Some (p, tab))
    \<and> fill_entry tab p 5 1 ''b'' = Inr (table_bytes es) \<and> set (live es) = {(2, 2, [0x2e]), (5, 1, [0x62])}"
proof -
  have nm: "c_name ''b'' = [0x62]" by (simp add: c_name_def of_char_def)
  have b: "unat (ex_bsize demo_ext2) = 64" by (simp add: demo_ext2_def)
  have lv: "live demo_table = [(2, 2, [0x2e])]" by (simp add: demo_table_def)
  have full: "\<not> no_gap (nspace 1) demo_table"
  proof
    assume a: "no_gap (nspace 1) demo_table"
    have "demo_table = [] @ demo_table ! 0 # [demo_table ! 1] @ []" by (simp add: demo_table_def)
    then have "slack (demo_table ! 0) [demo_table ! 1] < nspace 1"
      using a unfolding no_gap_def by (elim allE impE) (assumption, simp_all add: demo_table_def)
    then show False by (simp add: slack_def demo_table_def nspace_def dt_size_def)
  qed
  have l: "length ''b'' = 1" by simp
  have ne: "demo_table \<noteq> []" "dt_num (hd demo_table) \<noteq> 0" by (simp_all add: demo_table_def)
  obtain r where r: "dirent_table_alloc (table_bytes demo_table) 1 demo_ext2 = Inr r" "case r of
      None \<Rightarrow> no_gap (nspace 1) demo_table
    | Some (p, tab) \<Rightarrow> \<exists>es xs ys. fill_entry tab p 5 1 ''b'' = Inr (table_bytes es) \<and> (\<forall>e \<in> set es. dt_ok e)
        \<and> length (table_bytes es) = length (table_bytes demo_table) \<and> live demo_table = xs @ ys \<and> live es = xs @ (5, 1, c_name ''b'') # ys"
    using insert_keeps_table [of demo_table demo_ext2 "''b''" 5 1, unfolded l] demo_table_ok b nm ne by auto
  then obtain p tab where pt: "r = Some (p, tab)" using full by (cases r) auto
  then obtain es xs ys where "fill_entry tab p 5 1 ''b'' = Inr (table_bytes es)" "live demo_table = xs @ ys" "live es = xs @ (5, 1, c_name ''b'') # ys"
    using r(2) by auto
  moreover have "set (xs @ ys) = {(2, 2, [0x2e])}" using lv calculation(2) by simp
  ultimately have "fill_entry tab p 5 1 ''b'' = Inr (table_bytes es)" "set (live es) = {(2, 2, [0x2e]), (5, 1, [0x62])}"
    unfolding nm by auto
  then show ?thesis using r(1) pt by blast
qed

text \<open>When the first entry was unlinked its space counts from its start, while its name still takes space: the new
  entry lands on the second one. Here \<open>x\<close> is unlinked and \<open>a\<close> is in use at position 12.\<close>

definition freed_first :: "dent list" where
  "freed_first = [\<lparr>dt_num = 0, dt_type = 1, dt_name = [0x78], dt_pad = [0, 0, 0]\<rparr>,
     \<lparr>dt_num = 7, dt_type = 1, dt_name = [0x61], dt_pad = replicate 43 0\<rparr>]"

lemma insert_overwrites_second:
  "(case dirent_table_alloc (table_bytes freed_first) 1 demo_ext2 of Inr (Some (p, tab)) \<Rightarrow> p = 12 \<and> de_inode_num tab 12 = 7 | _ \<Rightarrow> False)"
  by code_simp

subsection \<open>Unlinked names\<close>

lemma no_inode_zero:
  assumes "0 < sb_inodes_per_group (ex_sblk s)" "ex_groups s < (- 1) div sb_inodes_per_group (ex_sblk s)"
  shows "read_inode_entry dk 0 s = Inr (None, s)"
  using assms by (simp add: read_inode_entry_def inode_entry_offset_def div_r_def Let_def word_neq_0_conv)

lemma find_at_first: "\<forall>a \<in> set as. dt_name a \<noteq> nm \<Longrightarrow> find_at (dt_name d) p (as @ d # bs) = Some (p + length (table_bytes as))"
  if "nm = dt_name d"
  using that by (induction as arbitrary: p) auto

text \<open>Unlinked names. \<open>unlink\<close> only clears the inode number of the entry. As long as the entry is in the table, a lookup of
  the name finds it first and asks for inode 0, which no group has: the name is not reported as missing, but as not
  allowed, also when a later entry has the same name.\<close>

theorem unlinked_name_is_not_allowed:
  assumes dir: "read_inode_entry dk (in_id dir) s = Inr (Some e, s1)" "0 < divceil (ie_size e) (ex_bsize s1)"
    and blk: "read_inode_blocks dk e 0 1 s1 = Inr (1, table_bytes (as @ d\<lparr>dt_num := 0\<rparr> # bs), e1, s2)"
    and ok: "\<forall>x \<in> set (as @ d # bs). dt_ok x" "length (table_bytes (as @ d # bs)) = unat (ex_bsize s2)"
    and name: "dt_name d = c_name name" "\<forall>a \<in> set as. dt_name a \<noteq> c_name name"
    and geo: "0 < sb_inodes_per_group (ex_sblk s2)" "ex_groups s2 < (- 1) div sb_inodes_per_group (ex_sblk s2)"
  shows "poke (table_bytes (as @ d # bs)) (length (table_bytes as)) (put32 0) = Inr (table_bytes (as @ d\<lparr>dt_num := 0\<rparr> # bs))
    \<and> ext2_fetch dk self dir name s = Inr (Inl NOT_ALLOWED, s2)"
proof
  let ?d = "d\<lparr>dt_num := 0\<rparr>" and ?ds = "as @ d\<lparr>dt_num := 0\<rparr> # bs"
  have sz: "dt_size ?d = dt_size d" by (simp add: dt_size_def)
  have "poke (table_bytes as @ put32 (dt_num d) @ drop 4 (dt_bytes d) @ table_bytes bs) (length (table_bytes as)) (put32 0)
      = Inr (table_bytes as @ put32 0 @ drop 4 (dt_bytes d) @ table_bytes bs)" by (intro poke_mid) simp_all
  then show "poke (table_bytes (as @ d # bs)) (length (table_bytes as)) (put32 0) = Inr (table_bytes ?ds)"
    by (simp add: dt_bytes_def sz)
  have okd: "\<forall>x \<in> set ?ds. dt_ok x" using ok(1) by (auto simp: dt_ok_def dt_size_def)
  have len: "length (table_bytes ?ds) = unat (ex_bsize s2)" using ok(2) sz by simp
  have nz: "0 \<notin> set (c_name name)" using ok(1) name(1) by (auto simp: dt_ok_def)
  have f: "find_at (c_name name) 0 ?ds = Some (length (table_bytes as))"
    using find_at_first [of "c_name name" ?d as 0 bs] name by simp
  have fetch: "dirent_table_fetch (table_bytes ?ds) name s2 = Inr (Some (length (table_bytes as)))"
    using table_fetch_spec [of ?ds name 0 "[]" "unat (ex_bsize s2)"] okd nz len f by (simp add: dirent_table_fetch_def)
  have num: "de_inode_num (table_bytes ?ds) (length (table_bytes as)) = 0"
    using dt_fields(1) [of ?d "length (table_bytes as)" "table_bytes as" "table_bytes bs"] okd by simp
  obtain k where k: "unat (divceil (ie_size e) (ex_bsize s1)) = Suc k" using dir(2) by (metis not0_implies_Suc unat_gt_0 less_numeral_extra(3) word_gt_0)
  show "ext2_fetch dk self dir name s = Inr (Inl NOT_ALLOWED, s2)"
    using dir(1) blk fetch num k no_inode_zero [OF geo, of dk] by (simp add: ext2_fetch_def Let_def)
qed

text \<open>A directory in one block of 64 bytes, whose entry \<open>a\<close> was unlinked.\<close>

definition demo_disk :: "unit disk" where
  "demo_disk = \<lparr>dk_read = \<lambda>d off n. Inr (n, if off = 640 then table_bytes demo_table else put_inode_entry (demo_entry\<lparr>ie_size := 64,
       ie_direct := 10 # replicate 11 0\<rparr>), d), dk_write = \<lambda>d bs off. Inr (of_nat (length bs), d), dk_time = \<lambda>d. 7\<rparr>"

definition demo_dir_volume :: "unit ext2" where
  "demo_dir_volume = demo_ext2\<lparr>ex_bits := 6, ex_groups := 1, ex_isize := 128, ex_bgd := [demo_group_desc 0 0],
     ex_sblk := demo_super\<lparr>sb_inodes_per_group := 8\<rparr>\<rparr>"

definition demo_dir :: inode where
  "demo_dir = inode_zero\<lparr>in_id := 2, in_mode := S_IFDIR\<rparr>"

lemma demo_dir_reads:
  "read_inode_entry demo_disk 2 demo_dir_volume = Inr (Some (demo_entry\<lparr>ie_size := 64, ie_direct := 10 # replicate 11 0\<rparr>), demo_dir_volume)"
  "read_inode_blocks demo_disk (demo_entry\<lparr>ie_size := 64, ie_direct := 10 # replicate 11 0\<rparr>) 0 1 demo_dir_volume
    = Inr (1, table_bytes demo_table, demo_entry\<lparr>ie_size := 64, ie_direct := 10 # replicate 11 0, ie_atime := 7\<rparr>, demo_dir_volume)"
proof -
  have "entry_ok (demo_entry\<lparr>ie_size := 64, ie_direct := 10 # replicate 11 0\<rparr>)"
    using demo_structures_ok by (simp add: entry_ok_def)
  from take_put_entry [OF this, of "[]"] show "read_inode_entry demo_disk 2 demo_dir_volume
      = Inr (Some (demo_entry\<lparr>ie_size := 64, ie_direct := 10 # replicate 11 0\<rparr>), demo_dir_volume)"
    by (simp add: read_inode_entry_def inode_entry_offset_def div_r_def Let_def demo_dir_volume_def demo_group_desc_def
        shl64_def ex_read_def demo_disk_def)
  show "read_inode_blocks demo_disk (demo_entry\<lparr>ie_size := 64, ie_direct := 10 # replicate 11 0\<rparr>) 0 1 demo_dir_volume
    = Inr (1, table_bytes demo_table, demo_entry\<lparr>ie_size := 64, ie_direct := 10 # replicate 11 0, ie_atime := 7\<rparr>, demo_dir_volume)"
    by (simp add: read_inode_blocks_def get_inode_blknum_def ex_read_blocks_def shl64_def ex_read_def demo_disk_def
        demo_dir_volume_def)
qed

theorem unlinked_name_is_not_allowed_witness:
  "ext2_fetch demo_disk 1 demo_dir ''a'' demo_dir_volume = Inr (Inl NOT_ALLOWED, demo_dir_volume)"
proof -
  let ?d = "demo_table ! 1"
  have t: "demo_table = [demo_table ! 0] @ ?d\<lparr>dt_num := 0\<rparr> # []" "demo_table = [demo_table ! 0] @ ?d # []" by (simp_all add: demo_table_def)
  have ok: "\<forall>x \<in> set ([demo_table ! 0] @ ?d # []). dt_ok x" "length (table_bytes ([demo_table ! 0] @ ?d # [])) = 64"
    using demo_table_ok unfolding t(2) [symmetric] .
  have rb: "read_inode_blocks demo_disk (demo_entry\<lparr>ie_size := 64, ie_direct := 10 # replicate 11 0\<rparr>) 0 1 demo_dir_volume
    = Inr (1, table_bytes ([demo_table ! 0] @ ?d\<lparr>dt_num := 0\<rparr> # []),
      demo_entry\<lparr>ie_size := 64, ie_direct := 10 # replicate 11 0, ie_atime := 7\<rparr>, demo_dir_volume)"
    unfolding t(1) [symmetric] by (rule demo_dir_reads(2))
  have nm: "c_name ''a'' = [0x61]" by (simp add: c_name_def of_char_def)
  have f: "unat (ex_bsize demo_dir_volume) = 64" "sb_inodes_per_group (ex_sblk demo_dir_volume) = 8" "ex_groups demo_dir_volume = 1"
      "ex_bsize demo_dir_volume = 64" by (simp_all add: demo_dir_volume_def demo_ext2_def)
  have nms: "dt_name ?d = [0x61]" "dt_name (demo_table ! 0) = [0x2e]" by (simp_all add: demo_table_def)
  show ?thesis
    using unlinked_name_is_not_allowed [of demo_disk demo_dir demo_dir_volume "demo_entry\<lparr>ie_size := 64, ie_direct := 10 # replicate 11 0\<rparr>"
        demo_dir_volume "[demo_table ! 0]" ?d "[]" _ demo_dir_volume "''a''" 1] demo_dir_reads(1) rb ok f nms nm
    by (simp add: demo_dir_def divceil_def)
qed

end
