(* ===== verification/Spec2Isabelle.thy ===== *)
theory Spec2Isabelle
  imports Circular Ranges PageAlloc Heap Chain Scheduler Memory_Ops Path Containers Bounded_Queue
    Inodes Virtual_Fs Dev_Fs File_Desc Fd_Manager Handles Fs_Manager Fs_World Fs_Paths Fs_Props Boot_Root
    Handle_Io Syscalls Extcmd Proc_Manager Paging Proc_Memory Block_Transfer Elf Exec Streams Console Ansi Keyboard Prompt Libc Multiboot Interrupts Arith64 Key_Path Libc_Heap Printf Shell Ide Pci Bytes Ext2_Layout Ext2_Blocks Ext2_Alloc Ext2_Fs Ext2_Dirs
begin

text \<open>
  A verification development for the Ampersand operating system, an i386 kernel with a small user
  space. Every definition is a translation of C++ code under src/; PROJECT.json maps each one to its lines.

  \<^bold>\<open>How the program is put together.\<close> The kernel is a single address space shared by threads. The memory
  manager hands out physical pages, the paging code maps them and the kernel heap places blocks in
  what is mapped. Threads are served round-robin by a scheduler that also blocks and wakes them by
  signals. Processes own a virtual memory, handles to open files, a working directory and credentials;
  their system calls arrive through the process manager. File descriptions stand for open files, pipes
  and devices and are kept in one counted table. The file system manager resolves paths through mounted
  file systems and asks those, through virtual methods, for inodes and descriptions.

  \<^bold>\<open>Which theory models what.\<close>
  \<^item> Prelude: the result type (an \<open>error\<close> or a value), the widths of the machine integers, lists indexed the
    way the code indexes memory, and the \<open>named_theorems\<close> shared by all.
  \<^item> Common library (common/): Circular (ring buffer), Chain (intrusive list over a store of links),
    Containers (Vec), Bounded_Queue (Queue), Path (paths over a store of character tables), Memory_Ops
    (memcpy and relatives, the numeric templates).
  \<^item> Memory (kernel/src/mem, kernel/arch/i386/src/paging.cpp, kernel/src/proc/memory.cpp): Ranges, PageAlloc
    (bitmaps of physical pages), Heap (first fit over a sorted list of blocks), Paging (page directories and
    tables as frames of 1024 words, the window through which they are written, address spaces), Proc_Memory
    (segments with reference counts, the segments of a process, its heap and fork).
  \<^item> Threads and processes (kernel/src/proc): Scheduler, Proc_Manager (process numbers, fork, exit, argument
    lists, the table of system calls), Extcmd (requests that the process thread serves, as a step relation
    of clients and worker), Syscalls and Handles (the system calls on handles), Handle_Io (reading and
    writing with the waiting loops).
  \<^item> Files (kernel/src/fs, kernel/src/fd): Inodes, Virtual_Fs, Dev_Fs, File_Desc (character devices, pipes, block
    devices in memory), Block_Transfer (byte access to a device of blocks), Fd_Manager (the counted table),
    Fs_Manager (the operations of the manager over the methods of a file system), Fs_World (these methods
    for the virtual and the device file system; those of ext2 stand by themselves in Ext2_Fs), Fs_Paths and Fs_Props (their properties), Boot_Root (the mounts
    made at boot).
  \<^item> Drivers (kernel/src/drv): Bytes (integers in memory), Ide (registers, sector addresses, transfer and identification of
    ATA drives over a machine state with port access as a parameter), Pci (the scan of the buses).
  \<^item> ext2 (kernel/src/fs/ext2.cpp, ext2.hpp): Ext2_Layout (the structures on the disk), Ext2_Blocks (inode entries, block
    map, bitmaps, allocation), Ext2_Fs (directory tables, the methods of the file system, mounting, open files),
    Ext2_Alloc and Ext2_Dirs (their properties).
  \<^item> Programs (kernel/src/proc): Elf (the headers of an executable and the loading of its segments), Exec (the replacement
    of the program of a process).
  \<^item> Output (kernel/src/stream, kernel/src/drv/vga_text.cpp, debugout.cpp, logger.cpp): Streams (numbers as text), Console (the
    text screen, its terminals and the log).
  \<^item> The port to the i386 (kernel/arch/i386/src, kernel/src/boot, kernel/src/arith64.c): Interrupts (gates, handlers, dispatch,
    interrupt controllers, timer), Key_Path (a key from its interrupt to the terminal), Multiboot (the boot information), Arith64 (64-bit arithmetic in halves).
  \<^item> User space (user): Libc (the wrappers of the system calls, argument lists, the start of a program), Libc_Heap (its heap,
    strings and plain output), Printf (formatted output), Ansi (the escape sequences of the terminal), Keyboard (scan codes
    to bytes), Prompt (the line editor of the shell), Shell (its main loop).

  \<^bold>\<open>Correspondence.\<close> A class is a record with its fields in the source's order, a pointer to an object is an index
  into a store (or 0 for the null pointer), a virtual method is a field of a record of operations, and a method is a function that
  returns the new state. Integers have the width of the code (u32 for \<open>usize\<close>), so wrap-around is
  part of the definitions. \<open>Inl Fault\<close> stands for an access through a null or dangling pointer or behind an
  array, \<open>Inl Panic\<close> for the kernel's panic, \<open>Inl Hang\<close> for a wait that nothing ends.

  \<^bold>\<open>What is proved.\<close> The containers refine lists and the ring buffer a queue, on the executions that stay clear
  of the defects that the findings name; the allocators keep their invariants and never hand out
  the same page or overlapping blocks; the heap's free undoes its malloc. The scheduler
  resumes the next ready thread of the ring and so serves every ready thread. Mapping and unmapping change the translation of
  one page and no other. Byte access through blocks is access to the bytes of the device. Link counts equal the number of entries; a resolved
  path passed the permission check of every directory on it; opening respects the mode bits; mounting
  and unmounting are inverse. A blocking read is shown to end exactly when the data arrives, for a pipe
  whose data stays clear of the end of its array. An interrupt reaches the handler registered for it;
  the consoles of the kernel and of the user's terminal are typewriters; the line editor implements insertion and deletion in a text, for lines
  and memory within the bounds that its 32-bit sizes leave;
  a program receives the arguments it was started with; the boot information and executables are read as they are laid out; the
  division by subtraction is division. Where the
  code errs, a theorem states what it does instead, and PROJECT.json lists it as a finding.

  \<^bold>\<open>Interfaces.\<close> Each component that relies on another states what it relies on as a locale, which is interpreted
  on the definitions of the component that provides it (the queue of pending requests, the readable
  descriptions of Handle_Io, the block devices of Block_Transfer, the file systems of Fs_Manager, the lists of
  strings that the kernel keeps for the C library).

  \<^bold>\<open>Bounds and fuel.\<close> Loops over linked structures take the number of links to follow; the properties show that
  the length of the chain is enough. Waiting loops take the list of events that other threads cause
  between two polls, and return \<open>Inl Hang\<close> when it runs out. The walk over the boot information takes a bound on its
  rounds; the property asks for one more than the tags and entries there are. The loop that doubles the buffer of the line editor has
  33 rounds, and \<open>grow_fuel\<close> shows that more change nothing: after 32 the capacity is 0 and the loop endless. A buffer that \<open>malloc\<close> or \<open>realloc\<close>
  gives there, and what the heap holds behind the table of an executable, are parameters.

  \<^bold>\<open>Not modelled.\<close> The instructions that read ports and load tables and registers, the assembly stubs, the log output,
  and what only moves bytes to hardware have no logic that a model would add
  to. _ftoa and _etoa of printf.c compute in doubles and are a parameter; the user's heap is a copy of the kernel heap.
  The main loop of the terminal and the order in which the kernel starts its drivers only call what is modelled.
  PROJECT.json lists for each component what is left of it.
\<close>

end
